(* ===== verification/Prelude.thy ===== *)
theory Prelude
  imports Main "HOL-Library.Word" "HOL-Library.Signed_Division"
begin

text \<open>
  Shared vocabulary of the development.  The analyses of the compiler are C++ functions that
  create operations through a builder, return \<open>LogicalResult\<close>, and contain \<open>assert\<close>,
  \<open>llvm_unreachable\<close> and checked \<open>cast\<close>s.  They become functions of type
  \<open>('s, 'a) run\<close>: the state \<open>'s\<close> is threaded through every call, also through a failing one,
  because the operations created before the failure stay in the IR.
  \<open>Failure\<close> is \<open>failure()\<close>; \<open>Abort\<close> is a failed assertion, a failed checked cast,
  \<open>llvm_unreachable\<close> or an access out of range; \<open>Hang\<close> is a loop that makes no progress.
\<close>

section \<open>State and error monad\<close>

datatype failure = Failure | Abort | Hang

type_synonym ('s, 'a) run = "'s \<Rightarrow> (failure + 'a) \<times> 's"

named_theorems run_simps \<open>the monad, unfolded on a given state\<close>
named_theorems ir_simps \<open>how builder operations change the table of operations\<close>

definition ret :: "'a \<Rightarrow> ('s, 'a) run" where
  "ret x = (\<lambda>s. (Inr x, s))"

definition raise :: "failure \<Rightarrow> ('s, 'a) run" where
  "raise e = (\<lambda>s. (Inl e, s))"

definition bindM :: "('s, 'a) run \<Rightarrow> ('a \<Rightarrow> ('s, 'b) run) \<Rightarrow> ('s, 'b) run" where
  "bindM m f = (\<lambda>s. case m s of (Inl e, s') \<Rightarrow> (Inl e, s') | (Inr x, s') \<Rightarrow> f x s')"

definition thenM :: "('s, 'a) run \<Rightarrow> ('s, 'b) run \<Rightarrow> ('s, 'b) run" where
  "thenM m n = bindM m (\<lambda>_. n)"

text \<open>A C++ \<open>assert\<close>, a \<open>LogicalResult\<close> guard, and a read of the state.\<close>

definition assertM :: "bool \<Rightarrow> ('s, unit) run" where
  "assertM b = (if b then ret () else raise Abort)"

definition requireM :: "bool \<Rightarrow> ('s, unit) run" where
  "requireM b = (if b then ret () else raise Failure)"

definition getM :: "('s \<Rightarrow> 'a) \<Rightarrow> ('s, 'a) run" where
  "getM f = (\<lambda>s. (Inr (f s), s))"

text \<open>\<open>if (m.failed()) ...\<close>: the result as an option; an abort is not caught.\<close>

definition attemptM :: "('s, 'a) run \<Rightarrow> ('s, 'a option) run" where
  "attemptM m = (\<lambda>s. case m s of
     (Inl e, s') \<Rightarrow> if e = Failure then (Inr None, s') else (Inl e, s')
   | (Inr x, s') \<Rightarrow> (Inr (Some x), s'))"

text \<open>\<open>cast<T>(x)\<close> and the dereference of a null value.\<close>

definition castM :: "'a option \<Rightarrow> ('s, 'a) run" where
  "castM x = (case x of None \<Rightarrow> raise Abort | Some y \<Rightarrow> ret y)"

fun mapM :: "('a \<Rightarrow> ('s, 'b) run) \<Rightarrow> 'a list \<Rightarrow> ('s, 'b list) run" where
  "mapM f [] = ret []"
| "mapM f (x # xs) = bindM (f x) (\<lambda>y. bindM (mapM f xs) (\<lambda>ys. ret (y # ys)))"

fun foldM :: "('a \<Rightarrow> 'b \<Rightarrow> ('s, 'a) run) \<Rightarrow> 'a \<Rightarrow> 'b list \<Rightarrow> ('s, 'a) run" where
  "foldM f x [] = ret x"
| "foldM f x (y # ys) = bindM (f x y) (\<lambda>x'. foldM f x' ys)"

fun existsM :: "('a \<Rightarrow> ('s, bool) run) \<Rightarrow> 'a list \<Rightarrow> ('s, bool) run" where
  "existsM f [] = ret False"
| "existsM f (x # xs) = bindM (f x) (\<lambda>b. if b then ret True else existsM f xs)"

text \<open>Checked indexing of a \<open>SmallVector\<close>.\<close>

definition atM :: "'a list \<Rightarrow> nat \<Rightarrow> ('s, 'a) run" where
  "atM xs i = (if i < length xs then ret (xs ! i) else raise Abort)"

lemma ret_run [run_simps]: "ret x s = (Inr x, s)"
  by (simp add: ret_def)

lemma raise_run [run_simps]: "raise e s = (Inl e, s)"
  by (simp add: raise_def)

lemma getM_run [run_simps]: "getM f s = (Inr (f s), s)"
  by (simp add: getM_def)

lemma bindM_ret [simp]: "bindM (ret x) f = f x"
  by (simp add: bindM_def ret_def fun_eq_iff)

lemma bindM_raise [simp]: "bindM (raise e) f = raise e"
  by (simp add: bindM_def raise_def fun_eq_iff)

lemma thenM_ret [simp]: "thenM (ret x) m = m"
  by (simp add: thenM_def)

lemma thenM_raise [simp]: "thenM (raise e) m = raise e"
  by (simp add: thenM_def)

lemma bindM_ret_right: "bindM m ret = m"
  by (auto simp: bindM_def ret_def fun_eq_iff split: sum.splits prod.splits)

lemma bindM_assoc: "bindM (bindM m f) g = bindM m (\<lambda>x. bindM (f x) g)"
  by (auto simp: bindM_def fun_eq_iff split: prod.splits sum.splits)

lemma assertM_True [simp]: "assertM True = ret ()"
  by (simp add: assertM_def)

lemma assertM_False [simp]: "assertM False = raise Abort"
  by (simp add: assertM_def)

lemma requireM_True [simp]: "requireM True = ret ()"
  by (simp add: requireM_def)

lemma requireM_False [simp]: "requireM False = raise Failure"
  by (simp add: requireM_def)

lemma castM_Some [simp]: "castM (Some x) = ret x"
  by (simp add: castM_def)

lemma castM_None [simp]: "castM None = raise Abort"
  by (simp add: castM_def)

lemma atM_in [simp]: "i < length xs \<Longrightarrow> atM xs i = ret (xs ! i)"
  by (simp add: atM_def)

text \<open>Sequencing on a state: forward with a known first result, backward from a result.\<close>

lemma bindM_Inr: "m s = (Inr x, s') \<Longrightarrow> bindM m f s = f x s'"
  by (simp add: bindM_def)

lemma bindM_Inl: "m s = (Inl e, s') \<Longrightarrow> bindM m f s = (Inl e, s')"
  by (simp add: bindM_def)

lemma thenM_Inr: "m s = (Inr x, s') \<Longrightarrow> thenM m n s = n s'"
  by (simp add: thenM_def bindM_Inr)

lemma bindM_getM [run_simps]: "bindM (getM f) g s = g (f s) s"
  by (simp add: bindM_def getM_def)

lemma bindM_Inr_iff:
  "bindM m f s = (Inr y, t) \<longleftrightarrow> (\<exists>x s'. m s = (Inr x, s') \<and> f x s' = (Inr y, t))"
  by (auto simp: bindM_def split: prod.splits sum.splits)

lemma bindM_InrE:
  assumes "bindM m f s = (Inr y, t)"
  obtains x s' where "m s = (Inr x, s')" and "f x s' = (Inr y, t)"
  using assms by (auto simp: bindM_Inr_iff)

lemma thenM_Inr_iff:
  "thenM m n s = (Inr y, t) \<longleftrightarrow> (\<exists>x s'. m s = (Inr x, s') \<and> n s' = (Inr y, t))"
  by (simp add: thenM_def bindM_Inr_iff)

lemma ret_Inr_iff [simp]: "ret x s = (Inr y, t) \<longleftrightarrow> y = x \<and> t = s"
  by (auto simp: ret_def)

lemma raise_Inr_iff [simp]: "raise e s \<noteq> (Inr y, t)"
  by (simp add: raise_def)

lemma assertM_Inr_iff [simp]: "assertM b s = (Inr u, t) \<longleftrightarrow> b \<and> t = s"
  by (auto simp: assertM_def)

lemma requireM_Inr_iff [simp]: "requireM b s = (Inr u, t) \<longleftrightarrow> b \<and> t = s"
  by (auto simp: requireM_def)

lemma getM_Inr_iff [simp]: "getM f s = (Inr y, t) \<longleftrightarrow> y = f s \<and> t = s"
  by (auto simp: getM_def)

lemma castM_Inr_iff [simp]: "castM x s = (Inr y, t) \<longleftrightarrow> x = Some y \<and> t = s"
  by (cases x) auto

lemma atM_Inr_iff [simp]: "atM xs i s = (Inr y, t) \<longleftrightarrow> i < length xs \<and> y = xs ! i \<and> t = s"
  by (auto simp: atM_def)

lemma mapM_ret [simp]: "(\<And>x. x \<in> set xs \<Longrightarrow> f x = ret (g x)) \<Longrightarrow> mapM f xs = ret (map g xs)"
  by (induction xs) auto

lemma existsM_ret: "(\<And>x. x \<in> set xs \<Longrightarrow> f x = ret (p x)) \<Longrightarrow> existsM f xs = ret (\<exists>x\<in>set xs. p x)"
  by (induction xs) auto

lemma mapM_length: "mapM f xs s = (Inr ys, t) \<Longrightarrow> length ys = length xs"
  by (induction xs arbitrary: s ys) (auto simp: bindM_Inr_iff)

section \<open>Weakest preconditions\<close>

text \<open>
  \<open>wp m Q s\<close>: from \<open>s\<close> the program \<open>m\<close> returns a result, neither failing nor aborting, and
  \<open>Q\<close> holds of the result and the final state.  The equations of \<open>wp_simps\<close> compute it.
\<close>

named_theorems wp_simps \<open>weakest precondition equations\<close>

definition wp :: "('s, 'a) run \<Rightarrow> ('a \<Rightarrow> 's \<Rightarrow> bool) \<Rightarrow> 's \<Rightarrow> bool" where
  "wp m Q s \<longleftrightarrow> (\<exists>x s'. m s = (Inr x, s') \<and> Q x s')"

lemma wpI: "m s = (Inr x, s') \<Longrightarrow> Q x s' \<Longrightarrow> wp m Q s"
  by (auto simp: wp_def)

lemma wpE:
  assumes "wp m Q s"
  obtains x s' where "m s = (Inr x, s')" and "Q x s'"
  using assms by (auto simp: wp_def)

lemma wp_mono: "wp m Q s \<Longrightarrow> (\<And>x s'. Q x s' \<Longrightarrow> R x s') \<Longrightarrow> wp m R s"
  by (auto simp: wp_def)

lemma wp_conj: "wp m Q s \<Longrightarrow> wp m R s \<Longrightarrow> wp m (\<lambda>x s'. Q x s' \<and> R x s') s"
  by (auto simp: wp_def)

lemma wp_ret [wp_simps]: "wp (ret x) Q = Q x"
  by (auto simp: wp_def)

lemma wp_raise [wp_simps]: "wp (raise e) Q = (\<lambda>s. False)"
  by (auto simp: wp_def)

lemma wp_bindM [wp_simps]: "wp (bindM m f) Q = wp m (\<lambda>x. wp (f x) Q)"
  by (auto simp: wp_def bindM_Inr_iff fun_eq_iff)

lemma wp_thenM [wp_simps]: "wp (thenM m n) Q = wp m (\<lambda>_. wp n Q)"
  by (simp add: thenM_def wp_bindM)

lemma wp_assertM [wp_simps]: "wp (assertM b) Q = (\<lambda>s. b \<and> Q () s)"
  by (auto simp: wp_def)

lemma wp_requireM [wp_simps]: "wp (requireM b) Q = (\<lambda>s. b \<and> Q () s)"
  by (auto simp: wp_def)

lemma wp_getM [wp_simps]: "wp (getM f) Q = (\<lambda>s. Q (f s) s)"
  by (auto simp: wp_def)

lemma wp_castM [wp_simps]: "wp (castM x) Q = (\<lambda>s. \<exists>y. x = Some y \<and> Q y s)"
  by (auto simp: wp_def)

lemma wp_atM [wp_simps]: "wp (atM xs i) Q = (\<lambda>s. i < length xs \<and> Q (xs ! i) s)"
  by (auto simp: wp_def)

lemma wp_if [wp_simps]: "wp (if b then m else n) Q = (if b then wp m Q else wp n Q)"
  by simp

lemma wp_attemptM: "wp m (\<lambda>x. Q (Some x)) s \<Longrightarrow> wp (attemptM m) Q s"
  by (auto simp: wp_def attemptM_def)

text \<open>
  A loop over a list: an invariant on the state, indexed by the part already done and its results.
\<close>

lemma wp_mapM:
  assumes "\<And>n ys s. n < length xs \<Longrightarrow> length ys = n \<Longrightarrow> I ys s \<Longrightarrow>
      wp (f (xs ! n)) (\<lambda>y s'. I (ys @ [y]) s') s"
    and "I [] s" and "\<And>ys s'. length ys = length xs \<Longrightarrow> I ys s' \<Longrightarrow> Q ys s'"
  shows "wp (mapM f xs) Q s"
  using assms
proof (induction xs arbitrary: I s Q)
  case Nil
  then show ?case by (simp add: wp_ret)
next
  case (Cons x xs)
  have x: "wp (f x) (\<lambda>y s'. I [y] s') s"
    using Cons.prems(1) [of 0 "[]" s] Cons.prems(2) by simp
  have xs: "wp (mapM f xs) (\<lambda>ys. Q (y # ys)) s'" if "I [y] s'" for y s'
  proof (rule Cons.IH [where I = "\<lambda>ys. I (y # ys)"])
    fix n ys t assume "n < length xs" "length ys = n" "I (y # ys) t"
    then show "wp (f (xs ! n)) (\<lambda>z s'. I (y # ys @ [z]) s') t"
      using Cons.prems(1) [of "Suc n" "y # ys" t] by simp
  qed (use that Cons.prems(3) in auto)
  have "wp (bindM (mapM f xs) (\<lambda>ys. ret (y # ys))) Q s'" if "I [y] s'" for y s'
    using xs [OF that] by (simp add: wp_bindM wp_ret)
  then show ?case by (simp add: wp_bindM wp_mono [OF x])
qed

lemma wp_foldM:
  assumes "\<And>n x s. n < length ys \<Longrightarrow> I n x s \<Longrightarrow> wp (f x (ys ! n)) (I (Suc n)) s"
    and "I 0 x s" and "\<And>x s'. I (length ys) x s' \<Longrightarrow> Q x s'"
  shows "wp (foldM f x ys) Q s"
  using assms
proof (induction ys arbitrary: I x s)
  case Nil
  then show ?case by (simp add: wp_ret)
next
  case (Cons y ys)
  have "wp (f x y) (I 1) s" using Cons.prems(1) [of 0 x s] Cons.prems(2) by simp
  moreover have "wp (foldM f x' ys) Q s'" if "I 1 x' s'" for x' s'
  proof (rule Cons.IH [where I = "\<lambda>n. I (Suc n)"])
    fix n x s assume "n < length ys" "I (Suc n) x s"
    then show "wp (f x (ys ! n)) (I (Suc (Suc n))) s" using Cons.prems(1) [of "Suc n" x s] by simp
  qed (use that Cons.prems(3) in auto)
  ultimately show ?case by (simp add: wp_bindM wp_mono)
qed

section \<open>Machine integers\<close>

text \<open>
  Integers of the IR are kept as their signed value.  \<open>wrap w\<close> is the two's complement value of
  the low \<open>w\<close> bits; \<open>w64\<close> reads an integer modulo \<open>2 ^ 64\<close>, the width of addresses and of
  the \<open>index\<close> type, and is a ring homomorphism that does not see \<open>wrap\<close> at 64 bits or more.
\<close>

definition wrap :: "nat \<Rightarrow> int \<Rightarrow> int" where
  "wrap w x = signed_take_bit (w - 1) x"

definition w64 :: "int \<Rightarrow> 64 word" where
  "w64 x = word_of_int x"

lemma wrap_idem [simp]: "wrap w (wrap w x) = wrap w x"
  by (simp add: wrap_def)

lemma wrap_0 [simp]: "wrap w 0 = 0"
  by (simp add: wrap_def)

lemma wrap_add: "wrap w (wrap w a + wrap w b) = wrap w (a + b)"
  by (simp add: wrap_def signed_take_bit_add)

lemma wrap_diff: "wrap w (wrap w a - wrap w b) = wrap w (a - b)"
  by (simp add: wrap_def signed_take_bit_diff)

lemma wrap_mult: "wrap w (wrap w a * wrap w b) = wrap w (a * b)"
  by (simp add: wrap_def signed_take_bit_mult)

lemma wrap_id: "- (2 ^ (w - 1)) \<le> x \<Longrightarrow> x < 2 ^ (w - 1) \<Longrightarrow> wrap w x = x"
  unfolding wrap_def by (rule signed_take_bit_int_eq_self)

lemma wrap_lower: "- (2 ^ (w - 1)) \<le> wrap w x"
  by (simp add: wrap_def signed_take_bit_int_greater_eq_minus_exp)

lemma wrap_upper: "wrap w x < 2 ^ (w - 1)"
  by (simp add: wrap_def signed_take_bit_int_less_exp)

lemma wrap_widen: "w \<le> v \<Longrightarrow> wrap v (wrap w x) = wrap w x"
proof -
  assume "w \<le> v"
  then have "min (v - 1) (w - 1) = w - 1" by simp
  then show ?thesis by (simp add: wrap_def signed_take_bit_signed_take_bit)
qed

lemma wrap_narrow: "w \<le> v \<Longrightarrow> wrap w (wrap v x) = wrap w x"
proof -
  assume "w \<le> v"
  then have "min (w - 1) (v - 1) = w - 1" by simp
  then show ?thesis by (simp add: wrap_def signed_take_bit_signed_take_bit)
qed

lemma wrap_min: "wrap w (min (wrap w a) (wrap w b)) = min (wrap w a) (wrap w b)"
  by (simp add: min_def)

lemma wrap_max: "wrap w (max (wrap w a) (wrap w b)) = max (wrap w a) (wrap w b)"
  by (simp add: max_def)

lemma w64_0 [simp]: "w64 0 = 0"
  by (simp add: w64_def)

lemma w64_1 [simp]: "w64 1 = 1"
  by (simp add: w64_def)

lemma w64_add: "w64 (a + b) = w64 a + w64 b"
  by (simp add: w64_def)

lemma w64_diff: "w64 (a - b) = w64 a - w64 b"
  by (simp add: w64_def)

lemma w64_minus: "w64 (- a) = - w64 a"
  by (simp add: w64_def)

lemma w64_mult: "w64 (a * b) = w64 a * w64 b"
  by (simp add: w64_def)

lemmas w64_ring = w64_add w64_diff w64_minus w64_mult

lemma w64_wrap [simp]:
  assumes "64 \<le> w"
  shows "w64 (wrap w x) = w64 x"
  unfolding w64_def wrap_def
proof (rule bit_eqI)
  fix n assume "possible_bit TYPE(64 word) n"
  with assms have "min (w - 1) n = n" and "n < 64" by (simp_all add: possible_bit_word)
  then show "bit (word_of_int (signed_take_bit (w - 1) x) :: 64 word) n = bit (word_of_int x :: 64 word) n"
    by (simp add: bit_word_of_int_iff bit_signed_take_bit_iff)
qed

lemma w64_inj_wrap: "w64 a = w64 b \<longleftrightarrow> wrap 64 a = wrap 64 b"
  unfolding w64_def wrap_def
  by (simp add: word_of_int_eq_iff signed_take_bit_eq_iff_take_bit_eq)

text \<open>Two's complement order survives reading modulo \<open>2 ^ 64\<close> only inside the signed range.\<close>

definition in64 :: "int \<Rightarrow> bool" where
  "in64 x \<longleftrightarrow> - (2 ^ 63) \<le> x \<and> x < 2 ^ 63"

lemma in64_wrap [simp]: "in64 (wrap 64 x)"
  using wrap_lower [of 64 x] wrap_upper [of 64 x] by (simp add: in64_def)

lemma wrap_in64: "in64 x \<Longrightarrow> wrap 64 x = x"
  by (simp add: in64_def wrap_id)

lemma in64_w64_eq: "in64 a \<Longrightarrow> in64 b \<Longrightarrow> w64 a = w64 b \<longleftrightarrow> a = b"
  by (simp add: w64_inj_wrap wrap_in64)

section \<open>Lists\<close>

text \<open>\<open>SmallVector::insert(begin() + axis, x)\<close>; beyond the end it is out of range.\<close>

definition insert_at :: "nat \<Rightarrow> 'a \<Rightarrow> 'a list \<Rightarrow> 'a list" where
  "insert_at n x xs = take n xs @ x # drop n xs"

definition remove_at :: "nat \<Rightarrow> 'a list \<Rightarrow> 'a list" where
  "remove_at n xs = take n xs @ drop (Suc n) xs"

lemma length_insert_at [simp]: "length (insert_at n x xs) = Suc (length xs)"
  by (simp add: insert_at_def)

lemma remove_insert_at [simp]: "n \<le> length xs \<Longrightarrow> remove_at n (insert_at n x xs) = xs"
  by (simp add: insert_at_def remove_at_def)

lemma length_remove_at [simp]: "n < length xs \<Longrightarrow> length (remove_at n xs) = length xs - 1"
  by (simp add: remove_at_def)

lemma nth_insert_at_same: "n \<le> length xs \<Longrightarrow> insert_at n x xs ! n = x"
  by (simp add: insert_at_def nth_append)

lemma set_insert_at [simp]: "set (insert_at n x xs) = insert x (set xs)"
proof -
  have "set xs = set (take n xs) \<union> set (drop n xs)"
    by (metis append_take_drop_id set_append)
  then show ?thesis by (auto simp: insert_at_def)
qed

lemma map_insert_at: "map f (insert_at n x xs) = insert_at n (f x) (map f xs)"
  by (simp add: insert_at_def take_map drop_map)

lemma zip_insert_at:
  "length xs = length ys \<Longrightarrow>
   zip (insert_at n x xs) (insert_at n y ys) = insert_at n (x, y) (zip xs ys)"
  by (simp add: insert_at_def take_zip drop_zip)

lemma sum_list_insert_at:
  fixes xs :: "'a::comm_monoid_add list"
  shows "sum_list (insert_at n x xs) = x + sum_list xs"
proof -
  have "sum_list xs = sum_list (take n xs) + sum_list (drop n xs)"
    by (metis append_take_drop_id sum_list_append)
  then show ?thesis by (simp add: insert_at_def add.left_commute)
qed

lemma insert_remove_at: "n < length xs \<Longrightarrow> insert_at n (xs ! n) (remove_at n xs) = xs"
  by (simp add: insert_at_def remove_at_def id_take_nth_drop [symmetric])

lemma upt_append: "i \<le> j \<Longrightarrow> j \<le> k \<Longrightarrow> [i..<j] @ [j..<k] = [i..<k]"
  by (rule nth_equalityI) (auto simp: nth_append)

lemma foldl_id: "(\<And>M x. x \<in> set xs \<Longrightarrow> f M x = M) \<Longrightarrow> foldl f M xs = M"
  by (induction xs arbitrary: M) simp_all

end
