(* ===== verification/MLIR.thy ===== *)
theory MLIR
  imports Prelude
begin

unbundle bit_operations_syntax

text \<open>
  The part of the MLIR infrastructure the analyses work on.  A \<open>Value\<close> is the position of its
  definition in the table of all operations of the program, in creation order; the builder
  (\<open>OpBuilder\<close>) appends to the table.  \<open>getDefiningOp\<close> is a lookup.  Insertion points are not
  modelled: they decide where an operation is printed, not what it computes.
  \<open>eval\<close> is the meaning of a value: for a tensor the element at every index, for a pointer the
  byte address.
\<close>

section \<open>Types\<close>

datatype ty =
    IntTy nat | IndexTy | FloatTy nat | NoneTy
  | PtrTy ty
  | TensorTy "int list" ty
  | MemRefTy "int list" ty

text \<open>\<open>ShapedType\<close>: ranked tensors and memrefs.\<close>

fun isShaped :: "ty \<Rightarrow> bool" where
  "isShaped (TensorTy _ _) = True"
| "isShaped (MemRefTy _ _) = True"
| "isShaped _ = False"

fun shapeOf :: "ty \<Rightarrow> int list" where
  "shapeOf (TensorTy sh _) = sh"
| "shapeOf (MemRefTy sh _) = sh"
| "shapeOf _ = []"

fun elemTy :: "ty \<Rightarrow> ty" where
  "elemTy (TensorTy _ e) = e"
| "elemTy (MemRefTy _ e) = e"
| "elemTy t = t"

fun isIntTy :: "ty \<Rightarrow> bool" where
  "isIntTy (IntTy _) = True"
| "isIntTy _ = False"

fun isPtrTy :: "ty \<Rightarrow> bool" where
  "isPtrTy (PtrTy _) = True"
| "isPtrTy _ = False"

fun isTensor :: "ty \<Rightarrow> bool" where
  "isTensor (TensorTy _ _) = True"
| "isTensor _ = False"

text \<open>\<open>isIntOrIndex\<close> of a scalar type.\<close>

fun isIntOrIndex :: "ty \<Rightarrow> bool" where
  "isIntOrIndex (IntTy _) = True"
| "isIntOrIndex IndexTy = True"
| "isIntOrIndex _ = False"

text \<open>\<open>triton::isTensorPointerType\<close>: a pointer to a ranked tensor (a block pointer).\<close>

fun isTensorPointerType :: "ty \<Rightarrow> bool" where
  "isTensorPointerType (PtrTy (TensorTy _ _)) = True"
| "isTensorPointerType _ = False"

text \<open>The width of the integers a value of the type consists of; pointers are 64-bit addresses.\<close>

fun width :: "ty \<Rightarrow> nat" where
  "width (IntTy w) = w"
| "width (TensorTy _ e) = width e"
| "width (MemRefTy _ e) = width e"
| "width _ = 64"

fun isFloatLike :: "ty \<Rightarrow> bool" where
  "isFloatLike (FloatTy _) = True"
| "isFloatLike (TensorTy _ e) = isFloatLike e"
| "isFloatLike (MemRefTy _ e) = isFloatLike e"
| "isFloatLike _ = False"

definition norm :: "ty \<Rightarrow> int \<Rightarrow> int" where
  "norm t x = (if isFloatLike t then x else wrap (width t) x)"

text \<open>The type an address points at, and its size in bytes.\<close>

fun pointee :: "ty \<Rightarrow> ty" where
  "pointee (PtrTy (TensorTy _ e)) = e"
| "pointee (PtrTy e) = e"
| "pointee (TensorTy _ (PtrTy e)) = e"
| "pointee t = t"

fun byteSize :: "ty \<Rightarrow> int" where
  "byteSize (IntTy w) = (int w + 7) div 8"
| "byteSize (FloatTy w) = (int w + 7) div 8"
| "byteSize _ = 8"

section \<open>Attributes, fold results and operations\<close>

type_synonym val = nat

text \<open>
  \<open>DenseElementsAttr\<close> carries its element when it is a splat.  An \<open>OpFoldResult\<close> is an
  attribute or a value.
\<close>

datatype float_const = FloatZero | FloatInf | FloatNegInf

datatype attr =
    IntegerAttr int ty
  | FloatAttr float_const
  | DenseElementsAttr "attr option" ty
  | OtherAttr

datatype (ofrVals: 'v) gofr = Attr attr | Val 'v

type_synonym ofr = "val gofr"

datatype binop = AddI | SubI | MulI | DivSI | RemSI | MinSI | MaxSI | AndI | OrI

datatype castop = IndexCast | ExtSI | ExtUI | TruncI | SIToFP | FPToSI | TruncF | ExtF

datatype pred = Eq | Ne | Slt | Sle | Sgt | Sge | Ult | Ule | Ugt | Uge

text \<open>How a \<open>builtin.unrealized_conversion_cast\<close> marks the two blocks of a pointer that wraps around.\<close>

datatype wrap_kind = WrapSideBySide | WrapStacked

datatype (operands: 'v) gop =
    BlockArg "nat option" \<comment> \<open>no defining op; the loop whose body it belongs to\<close>
  | ConstantOp attr
  | BinOp binop 'v 'v
  | CastOp castop 'v
  | CmpIOp pred 'v 'v
  | SelectOp 'v 'v 'v
  | MakeRangeOp int int \<comment> \<open>start and end as unsigned 32-bit integers\<close>
  | SplatOp 'v
  | ExpandDimsOp 'v nat
  | BroadcastOp 'v
  | ReshapeOp 'v 'v
  | FromElementsOp "'v list"
  | CollapseShapeOp 'v
  | ExpandShapeOp 'v "nat list list"
  | ExtractOp 'v "'v list"
  | TensorSplatOp 'v
  | DimOp 'v nat
  | SubViewOp 'v "'v gofr list" "'v gofr list" "'v gofr list"
  | ExtractSliceOp 'v "'v gofr list" "'v gofr list" "'v gofr list"
  | AddPtrOp 'v 'v
  | BitcastOp 'v
  | IntToPtrOp 'v
  | MakeTensorPtrOp 'v "'v list" "'v list" "'v list" "int list"
      \<comment> \<open>base, shape, strides, offsets, order\<close>
  | AdvanceOp 'v "'v list"
  | PtrToIntOp 'v
  | CatOp 'v 'v
  | DotOp 'v 'v 'v
  | DivUIOp 'v 'v
  | LoadOp 'v "'v option" "'v option" "int list" "nat option"
      \<comment> \<open>pointer, mask, other, boundary check, padding option\<close>
  | StoreOp 'v 'v "'v option" "int list" \<comment> \<open>pointer, value, mask, boundary check\<close>
  | IfResultOp
  | ForResultOp nat nat \<comment> \<open>loop, result number\<close>
  | GetStructuredStateOp 'v nat \<comment> \<open>input, result number\<close>
  | AllocOp "int list"
  | SubviewOp 'v
  | SubviewPackOp 'v
  | BufferTensorViewOp 'v
  | TTSMakeTensorPtrOp 'v "int list" "'v gofr list" "'v gofr list" "'v gofr list" "'v gofr list" "int list"
      \<comment> \<open>base, sizes, strides, offsets, original offsets, shape, order\<close>
  | TTSMakeGatherScatterOp 'v 'v nat "int list" "'v gofr list" "'v gofr list"
      \<comment> \<open>base, gather offset, gather dim, sizes, strides, offsets\<close>
  | TTSLoadOp 'v "'v gofr list" "'v option" "int list" "nat option"
      \<comment> \<open>pointer, mask dims, other, boundary check, padding option\<close>
  | TTSStoreOp 'v 'v "'v gofr list" "int list" \<comment> \<open>pointer, value, mask dims, boundary check\<close>
  | GatherOp 'v 'v "'v option" "'v option" \<comment> \<open>base, offset, mask, other\<close>
  | ScatterOp 'v 'v 'v "'v option" \<comment> \<open>base, offset, value, mask\<close>
  | DSLRegionOp "'v list" \<comment> \<open>\<open>tle.dsl_region\<close>\<close>
  | MemAllocOp \<comment> \<open>\<open>memref.alloc\<close> of the result type\<close>
  | ReinterpretCastOp 'v "'v gofr" "'v gofr list" "'v gofr list" "int option" "int option list"
      \<comment> \<open>base, offset, sizes, strides, and the offset and strides of the result type, \<open>None\<close> for dynamic\<close>
  | MemCastOp 'v \<comment> \<open>\<open>memref.cast\<close>\<close>
  | MemTransposeOp 'v "nat list"
  | UnrealizedCastOp "'v list" "wrap_kind option"
  | ToTensorOp 'v \<comment> \<open>\<open>bufferization.to_tensor\<close>\<close>
  | OpaqueOp "'v list"

type_synonym opr = "val gop"

text \<open>A loop: its init arguments, the body's iteration arguments, its results and its parent loop.\<close>

record forinfo =
  initArgs :: "val list"
  iterArgs :: "val list"
  results :: "val list"
  parentFor :: "nat option"

record ir =
  ops :: "(opr \<times> ty) list"
  fors :: "forinfo list"

definition valid :: "ir \<Rightarrow> val \<Rightarrow> bool" where
  "valid s v \<longleftrightarrow> v < length (ops s)"

text \<open>A value outside the table has no meaning; \<open>wf_ir\<close> below excludes it.\<close>

definition entry :: "'a \<Rightarrow> 'a list \<Rightarrow> val \<Rightarrow> 'a" where
  "entry d xs v = (if v < length xs then xs ! v else d)"

definition defOp :: "ir \<Rightarrow> val \<Rightarrow> opr" where
  "defOp s v = fst (entry (OpaqueOp [], NoneTy) (ops s) v)"

definition tyOf :: "ir \<Rightarrow> val \<Rightarrow> ty" where
  "tyOf s v = snd (entry (OpaqueOp [], NoneTy) (ops s) v)"

lemma entry_append [simp]: "v < length xs \<Longrightarrow> entry d (xs @ ys) v = entry d xs v"
  by (simp add: entry_def nth_append)

lemma entry_last [simp]: "entry d (xs @ [x]) (length xs) = x"
  by (simp add: entry_def)

fun isBlockArg :: "opr \<Rightarrow> bool" where
  "isBlockArg (BlockArg _) = True"
| "isBlockArg _ = False"

text \<open>
  What the MLIR verifier guarantees and the analyses rely on: an operation uses only values defined
  before it (SSA dominance), and the attribute of an integer constant is an integer of its type
  and in the range of that type.
\<close>

fun constTyped :: "opr \<Rightarrow> ty \<Rightarrow> bool" where
  "constTyped (ConstantOp (IntegerAttr n t')) t = (isIntOrIndex t \<longrightarrow> t' = t \<and> norm t n = n)"
| "constTyped (ConstantOp _) t = (\<not> isIntOrIndex t)"
| "constTyped _ t = True"

definition wf_ir :: "ir \<Rightarrow> bool" where
  "wf_ir s \<longleftrightarrow> (\<forall>v < length (ops s). (\<forall>a \<in> operands (fst (ops s ! v)). a < v) \<and>
     constTyped (fst (ops s ! v)) (snd (ops s ! v)))"

section \<open>Meaning of a value\<close>

type_synonym env = "val \<Rightarrow> int list \<Rightarrow> int"

fun cmpPred :: "pred \<Rightarrow> nat \<Rightarrow> int \<Rightarrow> int \<Rightarrow> bool" where
  "cmpPred Eq w a b = (a = b)"
| "cmpPred Ne w a b = (a \<noteq> b)"
| "cmpPred Slt w a b = (a < b)"
| "cmpPred Sle w a b = (a \<le> b)"
| "cmpPred Sgt w a b = (a > b)"
| "cmpPred Sge w a b = (a \<ge> b)"
| "cmpPred Ult w a b = (take_bit w a < take_bit w b)"
| "cmpPred Ule w a b = (take_bit w a \<le> take_bit w b)"
| "cmpPred Ugt w a b = (take_bit w a > take_bit w b)"
| "cmpPred Uge w a b = (take_bit w a \<ge> take_bit w b)"

fun binSem :: "binop \<Rightarrow> int \<Rightarrow> int \<Rightarrow> int" where
  "binSem AddI a b = a + b"
| "binSem SubI a b = a - b"
| "binSem MulI a b = a * b"
| "binSem DivSI a b = a sdiv b"
| "binSem RemSI a b = a smod b"
| "binSem MinSI a b = min a b"
| "binSem MaxSI a b = max a b"
| "binSem AndI a b = a AND b"
| "binSem OrI a b = a OR b"

fun castSem :: "castop \<Rightarrow> nat \<Rightarrow> int \<Rightarrow> int" where
  "castSem ExtUI w a = take_bit w a"
| "castSem _ w a = a"

text \<open>Row-major position of an index and back, for the reshapes.\<close>

fun linearize :: "int list \<Rightarrow> int list \<Rightarrow> int" where
  "linearize (n # sh) (i # idx) = i * prod_list sh + linearize sh idx"
| "linearize _ _ = 0"

fun delinearize :: "int list \<Rightarrow> int \<Rightarrow> int list" where
  "delinearize [] p = []"
| "delinearize (n # sh) p = p div prod_list sh # delinearize sh (p mod prod_list sh)"

definition broadcastIdx :: "int list \<Rightarrow> int list \<Rightarrow> int list" where
  "broadcastIdx sh idx = map2 (\<lambda>n i. if n = 1 then 0 else i) sh idx"

fun attrInt :: "attr \<Rightarrow> int" where
  "attrInt (IntegerAttr n _) = n"
| "attrInt (DenseElementsAttr (Some a) _) = attrInt a"
| "attrInt _ = 0"

definition ofrSem :: "(val \<Rightarrow> int list \<Rightarrow> int) \<Rightarrow> ofr \<Rightarrow> int" where
  "ofrSem look x = (case x of Attr a \<Rightarrow> attrInt a | Val v \<Rightarrow> look v [])"

text \<open>
  One dimension of a strided access: the offset plus the index times the stride, wrapped around
  the dimension's modulo where it has one (a constant 0 in \<open>shape\<close> means that it has none).
\<close>

definition dimTerm :: "(ofr \<Rightarrow> int) \<Rightarrow> ofr \<Rightarrow> ofr \<Rightarrow> ofr \<Rightarrow> int \<Rightarrow> int" where
  "dimTerm f off str md i =
     (let x = f off + i * f str; m = f md in if m = 0 then x else x smod m)"

fun sumDims :: "(ofr \<Rightarrow> int) \<Rightarrow> ofr list \<Rightarrow> ofr list \<Rightarrow> ofr list \<Rightarrow> int list \<Rightarrow> int" where
  "sumDims f (off # offs) (str # strs) (md # mds) (i # idx) =
     dimTerm f off str md i + sumDims f offs strs mds idx"
| "sumDims f _ _ _ _ = 0"

text \<open>A block pointer of \<open>tt.make_tensor_ptr\<close>: the offset counts elements of its dimension.\<close>

fun blockSum :: "(val \<Rightarrow> int) \<Rightarrow> val list \<Rightarrow> val list \<Rightarrow> int list \<Rightarrow> int" where
  "blockSum f (off # offs) (str # strs) (i # idx) = (f off + i) * f str + blockSum f offs strs idx"
| "blockSum f _ _ _ = 0"

text \<open>\<open>tt.advance\<close> shifts every index.\<close>

fun shiftIdx :: "(val \<Rightarrow> int) \<Rightarrow> val list \<Rightarrow> int list \<Rightarrow> int list" where
  "shiftIdx f (d # ds) (i # idx) = (i + f d) # shiftIdx f ds idx"
| "shiftIdx f ds idx = idx"

text \<open>\<open>tensor.extract_slice\<close>: the index in the tensor of an index of the slice.\<close>

fun sliceIdx :: "(ofr \<Rightarrow> int) \<Rightarrow> ofr list \<Rightarrow> ofr list \<Rightarrow> int list \<Rightarrow> int list" where
  "sliceIdx f (off # offs) (str # strs) (i # idx) = (f off + i * f str) # sliceIdx f offs strs idx"
| "sliceIdx f _ _ _ = []"

definition zeroAttr :: attr where
  "zeroAttr = IntegerAttr 0 IndexTy"

text \<open>
  The value an operation computes from its operands, before it is cut to the result type.
  Block arguments, loop results, memory reads and everything else the analyses treat as opaque
  are given by the environment.
\<close>

definition denOp :: "env \<Rightarrow> (val \<Rightarrow> ty) \<Rightarrow> (val \<Rightarrow> int list \<Rightarrow> int) \<Rightarrow> val \<Rightarrow> opr \<Rightarrow> ty \<Rightarrow> int list \<Rightarrow> int" where
  "denOp E tys look v opn t idx = (case opn of
     ConstantOp a \<Rightarrow> (if isFloatLike t then E v idx else attrInt a)
   | BinOp k a b \<Rightarrow> binSem k (look a idx) (look b idx)
   | CastOp k a \<Rightarrow> (if isFloatLike t \<or> isFloatLike (tys a) then E v idx
                     else castSem k (width (tys a)) (look a idx))
   | CmpIOp p a b \<Rightarrow> (if cmpPred p (width (tys a)) (look a idx) (look b idx) then -1 else 0)
   | SelectOp c a b \<Rightarrow>
       (if look c (if isShaped (tys c) then idx else []) \<noteq> 0 then look a idx else look b idx)
   | MakeRangeOp start stop \<Rightarrow> (case idx of [] \<Rightarrow> start | i # _ \<Rightarrow> start + i)
   | SplatOp a \<Rightarrow> look a []
   | TensorSplatOp a \<Rightarrow> look a []
   | ExpandDimsOp a ax \<Rightarrow> look a (remove_at ax idx)
   | BroadcastOp a \<Rightarrow> look a (broadcastIdx (shapeOf (tys a)) idx)
   | ReshapeOp a b \<Rightarrow> look a (delinearize (shapeOf (tys a)) (linearize (shapeOf t) idx))
   | CollapseShapeOp a \<Rightarrow> look a (delinearize (shapeOf (tys a)) (linearize (shapeOf t) idx))
   | ExpandShapeOp a g \<Rightarrow> look a (delinearize (shapeOf (tys a)) (linearize (shapeOf t) idx))
   | FromElementsOp vs \<Rightarrow>
       (let p = nat (linearize (shapeOf t) idx) in if p < length vs then look (vs ! p) [] else E v idx)
   | ExtractOp a ixs \<Rightarrow> look a (map (\<lambda>i. look i []) ixs)
   | ExtractSliceOp a offs szs strs \<Rightarrow> look a (sliceIdx (ofrSem look) offs strs idx)
   | AddPtrOp p d \<Rightarrow> look p idx + byteSize (pointee t) * look d idx
   | BitcastOp a \<Rightarrow> look a idx
   | IntToPtrOp a \<Rightarrow> look a idx
   | PtrToIntOp a \<Rightarrow> look a idx
   | DivUIOp a b \<Rightarrow> take_bit (width (tys a)) (look a idx) div take_bit (width (tys a)) (look b idx)
   | MakeTensorPtrOp base sh strs offs ord \<Rightarrow>
       look base [] + byteSize (pointee t) *
         blockSum (\<lambda>v. look v []) offs strs idx
   | AdvanceOp p ds \<Rightarrow> look p (shiftIdx (\<lambda>v. look v []) ds idx)
   | TTSMakeTensorPtrOp base szs strs offs orig sh ord \<Rightarrow>
       look base [] + byteSize (pointee t) *
         sumDims (ofrSem look) offs strs
           (if ord = [] then sh else map (\<lambda>_. Attr zeroAttr) sh) idx
   | TTSMakeGatherScatterOp base g dim szs strs offs \<Rightarrow>
       look base [] + byteSize (pointee t) *
         (sumDims (ofrSem look) (offs[dim := Attr zeroAttr]) (strs[dim := Attr zeroAttr])
            (map (\<lambda>_. Attr zeroAttr) offs) idx
          + look g [entry 0 idx dim] * ofrSem look (entry (Attr zeroAttr) strs dim))
   | _ \<Rightarrow> E v idx)"

text \<open>The program run in table order, on the reversed table.\<close>

fun dens :: "env \<Rightarrow> (opr \<times> ty) list \<Rightarrow> (int list \<Rightarrow> int) list" where
  "dens E [] = []"
| "dens E ((opn, t) # rs) =
     (let ds = dens E rs;
          look = entry (\<lambda>_. 0) ds;
          tys = (\<lambda>v. snd (entry (OpaqueOp [], NoneTy) (rev rs) v))
      in ds @ [\<lambda>idx. norm t (denOp E tys look (length rs) opn t idx)])"

definition eval :: "env \<Rightarrow> ir \<Rightarrow> val \<Rightarrow> int list \<Rightarrow> int" where
  "eval E s = entry (\<lambda>_. 0) (dens E (rev (ops s)))"

definition osem :: "env \<Rightarrow> ir \<Rightarrow> ofr \<Rightarrow> int" where
  "osem E s x = ofrSem (eval E s) x"

section \<open>The builder\<close>

type_synonym 'a irm = "(ir, 'a) run"

definition create :: "opr \<Rightarrow> ty \<Rightarrow> val irm" where
  "create opn t = (\<lambda>s. (Inr (length (ops s)), s\<lparr>ops := ops s @ [(opn, t)]\<rparr>))"

text \<open>Operations whose result type is inferred from their first operand.\<close>

definition createBin :: "binop \<Rightarrow> val \<Rightarrow> val \<Rightarrow> val irm" where
  "createBin k a b = bindM (getM (\<lambda>s. tyOf s a)) (\<lambda>t. create (BinOp k a b) t)"

definition getIndexAttr :: "int \<Rightarrow> ofr" where
  "getIndexAttr n = Attr (IntegerAttr (wrap 64 n) IndexTy)"

definition createIndexConst :: "int \<Rightarrow> val irm" where
  "createIndexConst n = create (ConstantOp (IntegerAttr (wrap 64 n) IndexTy)) IndexTy"

definition createIndexCast :: "ty \<Rightarrow> val \<Rightarrow> val irm" where
  "createIndexCast t v = create (CastOp IndexCast v) t"

section \<open>Growing tables\<close>

text \<open>The builder only appends, so every value that existed keeps its definition, type and meaning.\<close>

definition ext :: "ir \<Rightarrow> ir \<Rightarrow> bool" where
  "ext s s' \<longleftrightarrow> (\<exists>xs. ops s' = ops s @ xs) \<and> fors s' = fors s"

lemma ext_refl [simp, intro]: "ext s s"
  by (simp add: ext_def)

lemma ext_trans [trans]: "ext s t \<Longrightarrow> ext t u \<Longrightarrow> ext s u"
  by (auto simp: ext_def)

lemma ext_fors: "ext s s' \<Longrightarrow> fors s' = fors s"
  by (simp add: ext_def)

lemma ext_valid: "ext s s' \<Longrightarrow> valid s v \<Longrightarrow> valid s' v"
  by (auto simp: ext_def valid_def)

lemma ext_defOp: "ext s s' \<Longrightarrow> valid s v \<Longrightarrow> defOp s' v = defOp s v"
  by (auto simp: ext_def valid_def defOp_def)

lemma ext_tyOf: "ext s s' \<Longrightarrow> valid s v \<Longrightarrow> tyOf s' v = tyOf s v"
  by (auto simp: ext_def valid_def tyOf_def)

lemma dens_length [simp]: "length (dens E xs) = length xs"
  by (induction E xs rule: dens.induct) (simp_all add: Let_def)

lemma dens_append: "\<exists>zs. dens E (ys @ xs) = dens E xs @ zs"
proof (induction ys)
  case Nil
  then show ?case by simp
next
  case (Cons y ys)
  then show ?case by (cases y) (auto simp: Let_def)
qed

lemma ext_eval:
  assumes "ext s s'" and "valid s v"
  shows "eval E s' v = eval E s v"
proof -
  obtain xs where xs: "ops s' = ops s @ xs" using assms(1) by (auto simp: ext_def)
  obtain zs where "dens E (rev (ops s')) = dens E (rev (ops s)) @ zs"
    using dens_append [of E "rev xs" "rev (ops s)"] xs by auto
  then show ?thesis
    using assms(2) xs by (simp add: eval_def valid_def)
qed

lemma eval_last:
  "eval E \<lparr>ops = xs @ [(opn, t)], fors = f\<rparr> (length xs) =
   (\<lambda>idx. norm t (denOp E (tyOf \<lparr>ops = xs, fors = f\<rparr>) (eval E \<lparr>ops = xs, fors = f\<rparr>)
      (length xs) opn t idx))"
  by (simp add: eval_def tyOf_def [abs_def] Let_def) (simp add: entry_def nth_append)

text \<open>An operation looks at its own operands only.\<close>

lemma ofrSem_cong: "(\<And>a. a \<in> ofrVals x \<Longrightarrow> look a = look' a) \<Longrightarrow> ofrSem look x = ofrSem look' x"
  by (cases x) (auto simp: ofrSem_def)

lemma sumDims_cong:
  "(\<And>x. x \<in> set offs \<union> set strs \<union> set mds \<Longrightarrow> f x = g x) \<Longrightarrow>
   sumDims f offs strs mds idx = sumDims g offs strs mds idx"
  by (induction f offs strs mds idx rule: sumDims.induct) (auto simp: dimTerm_def)

lemma blockSum_cong:
  "(\<And>v. v \<in> set offs \<union> set strs \<Longrightarrow> f v = g v) \<Longrightarrow> blockSum f offs strs idx = blockSum g offs strs idx"
  by (induction f offs strs idx rule: blockSum.induct) auto

lemma shiftIdx_cong:
  "(\<And>v. v \<in> set ds \<Longrightarrow> f v = g v) \<Longrightarrow> shiftIdx f ds idx = shiftIdx g ds idx"
  by (induction f ds idx rule: shiftIdx.induct) auto

lemma sliceIdx_cong:
  "(\<And>x. x \<in> set offs \<union> set strs \<Longrightarrow> f x = g x) \<Longrightarrow> sliceIdx f offs strs idx = sliceIdx g offs strs idx"
  by (induction f offs strs idx rule: sliceIdx.induct) auto

lemma denOp_cong:
  assumes look: "\<And>a. a \<in> operands opn \<Longrightarrow> look a = look' a"
    and tys: "\<And>a. a \<in> operands opn \<Longrightarrow> tys a = tys' a"
  shows "denOp E tys look v opn t idx = denOp E tys' look' v opn t idx"
proof (cases opn)
  case (TTSMakeTensorPtrOp base szs strs offs orig sh ord)
  have x: "ofrSem look x = ofrSem look' x" if "x \<in> set offs \<union> set strs \<union> set sh" for x
    using that TTSMakeTensorPtrOp by (intro ofrSem_cong look) auto
  have "sumDims (ofrSem look) offs strs mds idx = sumDims (ofrSem look') offs strs mds idx"
    if mds: "set mds \<subseteq> set sh \<union> range Attr" for mds
  proof (rule sumDims_cong)
    fix y assume "y \<in> set offs \<union> set strs \<union> set mds"
    then consider "y \<in> set offs \<union> set strs \<union> set sh" | "y \<in> range Attr" using mds by blast
    then show "ofrSem look y = ofrSem look' y"
      by cases (use x in \<open>auto simp: ofrSem_def\<close>)
  qed
  moreover have "set (if ord = [] then sh else map (\<lambda>_. Attr zeroAttr) sh) \<subseteq> set sh \<union> range Attr"
    by auto
  ultimately have "sumDims (ofrSem look) offs strs (if ord = [] then sh else map (\<lambda>_. Attr zeroAttr) sh) idx =
      sumDims (ofrSem look') offs strs (if ord = [] then sh else map (\<lambda>_. Attr zeroAttr) sh) idx"
    by blast
  then show ?thesis using TTSMakeTensorPtrOp look by (simp add: denOp_def)
next
  case (TTSMakeGatherScatterOp base g dim szs strs offs)
  have x: "ofrSem look x = ofrSem look' x" if "x \<in> set offs \<union> set strs \<union> range Attr" for x
    using that TTSMakeGatherScatterOp by (intro ofrSem_cong look) auto
  have "sumDims (ofrSem look) (offs[dim := Attr a]) (strs[dim := Attr a]) (map (\<lambda>_. Attr a) offs) idx =
        sumDims (ofrSem look') (offs[dim := Attr a]) (strs[dim := Attr a]) (map (\<lambda>_. Attr a) offs) idx" for a
    using set_update_subset_insert [of offs dim "Attr a"] set_update_subset_insert [of strs dim "Attr a"]
    by (intro sumDims_cong x) auto
  moreover have "ofrSem look (entry (Attr zeroAttr) strs dim) = ofrSem look' (entry (Attr zeroAttr) strs dim)"
    by (rule x) (simp add: entry_def)
  ultimately show ?thesis using TTSMakeGatherScatterOp look
    by (simp add: denOp_def)
next
  case (MakeTensorPtrOp base sh strs offs ord)
  have "blockSum (\<lambda>v. look v []) offs strs idx = blockSum (\<lambda>v. look' v []) offs strs idx"
    using look MakeTensorPtrOp by (intro blockSum_cong) auto
  then show ?thesis using MakeTensorPtrOp look by (simp add: denOp_def)
next
  case (AdvanceOp p ds)
  have "shiftIdx (\<lambda>v. look v []) ds idx = shiftIdx (\<lambda>v. look' v []) ds idx"
    using look AdvanceOp by (intro shiftIdx_cong) auto
  then show ?thesis using AdvanceOp look by (simp add: denOp_def)
next
  case (ExtractSliceOp a offs szs strs)
  have "sliceIdx (ofrSem look) offs strs idx = sliceIdx (ofrSem look') offs strs idx"
    using ExtractSliceOp by (intro sliceIdx_cong ofrSem_cong look) auto
  then show ?thesis using ExtractSliceOp look by (simp add: denOp_def)
next
  case (ExtractOp a ixs)
  then show ?thesis using look by (simp add: denOp_def cong: map_cong)
qed (use look tys in \<open>simp_all add: denOp_def Let_def\<close>)

lemma denOp_env: "E v = E' v \<Longrightarrow> denOp E tys look v opn t idx = denOp E' tys look v opn t idx"
  by (cases opn) (simp_all add: denOp_def Let_def)

text \<open>
  \<open>wf_ir\<close> lets a value be unfolded into its operation; every value is in the range of its type.
\<close>

lemma wf_ir_operand: "wf_ir s \<Longrightarrow> valid s v \<Longrightarrow> a \<in> operands (defOp s v) \<Longrightarrow> a < v"
  by (auto simp: wf_ir_def valid_def defOp_def entry_def)

lemma wf_const:
  "wf_ir s \<Longrightarrow> valid s v \<Longrightarrow> defOp s v = ConstantOp a \<Longrightarrow> isIntOrIndex (tyOf s v) \<Longrightarrow>
   \<exists>n. a = IntegerAttr n (tyOf s v) \<and> norm (tyOf s v) n = n"
  by (cases a) (auto simp: wf_ir_def valid_def defOp_def tyOf_def entry_def)

lemma wf_operand_valid: "wf_ir s \<Longrightarrow> valid s v \<Longrightarrow> a \<in> operands (defOp s v) \<Longrightarrow> valid s a"
  using wf_ir_operand [of s v a] by (simp add: valid_def)

theorem eval_unfold:
  assumes "wf_ir s" and "valid s v"
  shows "eval E s v = (\<lambda>idx. norm (tyOf s v) (denOp E (tyOf s) (eval E s) v (defOp s v) (tyOf s v) idx))"
proof -
  define p where "p = \<lparr>ops = take v (ops s), fors = fors s\<rparr>"
  define q where "q = \<lparr>ops = take (Suc v) (ops s), fors = fors s\<rparr>"
  obtain opn t where o: "ops s ! v = (opn, t)" by fastforce
  have v: "v < length (ops s)" using assms by (simp add: valid_def)
  have q: "q = \<lparr>ops = take v (ops s) @ [(opn, t)], fors = fors s\<rparr>"
    by (simp add: q_def take_Suc_conv_app_nth [OF v] o)
  have "ext q s" "ext p s"
    by (auto simp: q_def p_def ext_def intro: append_take_drop_id [symmetric])
  have "valid q v" using v by (simp add: q_def valid_def)
  then have "eval E s v = eval E q v" by (rule ext_eval [OF \<open>ext q s\<close>])
  also have "\<dots> = (\<lambda>idx. norm t (denOp E (tyOf p) (eval E p) v opn t idx))"
    using eval_last [of E "take v (ops s)" opn t "fors s"] v by (simp add: q p_def)
  also have "\<dots> = (\<lambda>idx. norm t (denOp E (tyOf s) (eval E s) v opn t idx))"
  proof -
    have "valid p a" if "a \<in> operands opn" for a
      using that assms o v by (auto simp: wf_ir_def p_def valid_def)
    then show ?thesis
      by (intro ext arg_cong [of _ _ "norm t"] denOp_cong)
        (simp_all add: ext_eval [OF \<open>ext p s\<close>] ext_tyOf [OF \<open>ext p s\<close>])
  qed
  finally show ?thesis using v o by (simp add: tyOf_def defOp_def entry_def)
qed

lemma norm_idem [simp]: "norm t (norm t x) = norm t x"
  by (simp add: norm_def)

lemma eval_norm: "wf_ir s \<Longrightarrow> valid s v \<Longrightarrow> norm (tyOf s v) (eval E s v idx) = eval E s v idx"
  by (simp add: eval_unfold [of s v E])

text \<open>A value depends on the environment at the values up to it.\<close>

lemma eval_env:
  assumes "wf_ir s" and "valid s v" and "\<And>x. x \<le> v \<Longrightarrow> E' x = E x"
  shows "eval E' s v = eval E s v"
  using assms(2,3)
proof (induction v rule: less_induct)
  case (less v)
  have "eval E' s a = eval E s a" if "a \<in> operands (defOp s v)" for a
    using less.IH [of a] wf_ir_operand [OF assms(1) less.prems(1) that] wf_operand_valid [OF assms(1) less.prems(1) that] less.prems(2) by simp
  then have "denOp E' (tyOf s) (eval E' s) v (defOp s v) (tyOf s v) idx = denOp E (tyOf s) (eval E s) v (defOp s v) (tyOf s v) idx" for idx
    using denOp_env [of E' v E "tyOf s" "eval E s" "defOp s v" "tyOf s v" idx] less.prems(2)
      denOp_cong [of "defOp s v" "eval E' s" "eval E s" "tyOf s" "tyOf s" E' v "tyOf s v" idx] by simp
  then show ?case using eval_unfold [OF assms(1) less.prems(1), of E] eval_unfold [OF assms(1) less.prems(1), of E'] by simp
qed

section \<open>The builder appends\<close>

text \<open>
  \<open>grows\<close> is what every analysis does to the table; \<open>wp_create\<close> gives the new operation with its
  type, definition and meaning.
\<close>

definition grows :: "ir \<Rightarrow> ir \<Rightarrow> bool" where
  "grows s s' \<longleftrightarrow> ext s s' \<and> wf_ir s'"

lemma growsD: "grows s s' \<Longrightarrow> ext s s'" "grows s s' \<Longrightarrow> wf_ir s'"
  by (simp_all add: grows_def)

lemma grows_refl [simp]: "wf_ir s \<Longrightarrow> grows s s"
  by (simp add: grows_def)

lemma grows_trans [trans]: "grows s t \<Longrightarrow> grows t u \<Longrightarrow> grows s u"
  by (auto simp: grows_def intro: ext_trans)

lemma wp_create:
  assumes "wf_ir s" and "\<forall>a \<in> operands opn. valid s a" and "constTyped opn t"
    and "\<And>v s'. grows s s' \<Longrightarrow> valid s' v \<Longrightarrow> defOp s' v = opn \<Longrightarrow> tyOf s' v = t \<Longrightarrow>
      (\<And>E idx. eval E s' v idx = norm t (denOp E (tyOf s) (eval E s) v opn t idx)) \<Longrightarrow> Q v s'"
  shows "wp (create opn t) Q s"
proof -
  define s' where "s' = s\<lparr>ops := ops s @ [(opn, t)]\<rparr>"
  define v where "v = length (ops s)"
  have ops: "ops s' = ops s @ [(opn, t)]" by (simp add: s'_def)
  have "ext s s'" by (simp add: s'_def ext_def)
  moreover have wf: "wf_ir s'"
    using assms(1,2,3) by (auto simp: wf_ir_def ops nth_append valid_def less_Suc_eq)
  ultimately have g: "grows s s'" by (simp add: grows_def)
  have v: "valid s' v" "defOp s' v = opn" "tyOf s' v = t"
    by (simp_all add: valid_def defOp_def tyOf_def ops v_def)
  have "eval E s' v idx = norm t (denOp E (tyOf s) (eval E s) v opn t idx)" for E idx
  proof -
    have "denOp E (tyOf s') (eval E s') v opn t idx = denOp E (tyOf s) (eval E s) v opn t idx"
      using assms(2) by (intro denOp_cong) (simp_all add: ext_eval [OF \<open>ext s s'\<close>] ext_tyOf [OF \<open>ext s s'\<close>])
    then show ?thesis using eval_unfold [OF wf v(1), of E] v by simp
  qed
  with g v have "Q v s'" by (intro assms(4))
  then show ?thesis by (simp add: wp_def create_def s'_def v_def)
qed

lemma wp_createBin:
  assumes "wf_ir s" and "valid s a" and "valid s b"
    and "\<And>v s'. grows s s' \<Longrightarrow> valid s' v \<Longrightarrow> defOp s' v = BinOp k a b \<Longrightarrow> tyOf s' v = tyOf s a \<Longrightarrow>
      (\<And>E idx. eval E s' v idx = norm (tyOf s a) (binSem k (eval E s a idx) (eval E s b idx))) \<Longrightarrow> Q v s'"
  shows "wp (createBin k a b) Q s"
  unfolding createBin_def wp_bindM wp_getM
  by (rule wp_create) (use assms in \<open>simp_all add: denOp_def\<close>)

lemma wp_createIndexConst:
  assumes "wf_ir s"
    and "\<And>v s'. grows s s' \<Longrightarrow> valid s' v \<Longrightarrow> defOp s' v = ConstantOp (IntegerAttr (wrap 64 n) IndexTy) \<Longrightarrow>
      tyOf s' v = IndexTy \<Longrightarrow> (\<And>E idx. eval E s' v idx = wrap 64 n) \<Longrightarrow> Q v s'"
  shows "wp (createIndexConst n) Q s"
  unfolding createIndexConst_def
  by (rule wp_create) (use assms in \<open>simp_all add: denOp_def norm_def\<close>)

lemma wp_createIndexCast:
  assumes "wf_ir s" and "valid s a" and "\<not> isFloatLike (tyOf s a)" and "\<not> isFloatLike t"
    and "\<And>v s'. grows s s' \<Longrightarrow> valid s' v \<Longrightarrow> defOp s' v = CastOp IndexCast a \<Longrightarrow> tyOf s' v = t \<Longrightarrow>
      (\<And>E idx. eval E s' v idx = norm t (eval E s a idx)) \<Longrightarrow> Q v s'"
  shows "wp (createIndexCast t a) Q s"
  unfolding createIndexCast_def
  by (rule wp_create) (use assms in \<open>simp_all add: denOp_def\<close>)

end
