(* ===== verification/OFR.thy ===== *)
theory OFR
  imports MLIR
begin

text \<open>
  \<open>lib/Analysis/OpFoldResultUtils.cpp\<close>: arithmetic on \<open>OpFoldResult\<close>s.  Each operation folds
  constants and otherwise creates the \<open>arith\<close> operation; the second half of the file compares
  fold results by looking through casts, \<open>minsi\<close> and \<open>subi\<close>.  The facts: every operation denotes
  its arithmetic modulo \<open>2 ^ 64\<close> on index-typed operands (the locale \<open>ofr_binop\<close>), and
  \<open>sameOFR\<close> only answers yes for equal values wherever casts and subtractions are lossless.
\<close>

section \<open>Reading fold results\<close>

definition getIntAttr :: "ofr \<Rightarrow> int option" where
  "getIntAttr x = (case x of Attr (IntegerAttr n _) \<Rightarrow> Some n | _ \<Rightarrow> None)"

definition hasConstZero :: "ofr \<Rightarrow> bool irm" where
  "hasConstZero x = (case getIntAttr x of
     Some n \<Rightarrow> ret (n = 0)
   | None \<Rightarrow> (case x of
       Attr _ \<Rightarrow> raise Abort
     | Val v \<Rightarrow> getM (\<lambda>s. case defOp s v of
         ConstantOp a \<Rightarrow> (case getIntAttr (Attr a) of Some n \<Rightarrow> n = 0 | None \<Rightarrow> False)
       | _ \<Rightarrow> False)))"

definition ofrToIndexValue :: "ofr \<Rightarrow> val irm" where
  "ofrToIndexValue x = (case x of
     Val v \<Rightarrow> bindM (getM (\<lambda>s. tyOf s v)) (\<lambda>t.
       thenM (assertM (isIntOrIndex t))
         (if t \<noteq> IndexTy then createIndexCast IndexTy v else ret v))
   | Attr _ \<Rightarrow> (case getIntAttr x of
       Some n \<Rightarrow> createIndexConst n
     | None \<Rightarrow> raise Abort))"

definition ofrsToIndexValues :: "ofr list \<Rightarrow> val list irm" where
  "ofrsToIndexValues xs = mapM ofrToIndexValue xs"

text \<open>
  \<open>dyn_cast<Value>(x)\<close> after an integer attribute has been turned into a constant operation: the
  null value of any other attribute is what \<open>create\<close> then aborts on.
\<close>

definition ofrOperand :: "ofr \<Rightarrow> int option \<Rightarrow> val option irm" where
  "ofrOperand x n = (case n of
     Some k \<Rightarrow> bindM (createIndexConst k) (\<lambda>v. ret (Some v))
   | None \<Rightarrow> ret (case x of Val v \<Rightarrow> Some v | Attr _ \<Rightarrow> None))"

section \<open>Casting to the type of another operand\<close>

definition indexTypeCast :: "val \<Rightarrow> ty \<Rightarrow> val irm" where
  "indexTypeCast v targetTy = bindM (getM (\<lambda>s. tyOf s v)) (\<lambda>t.
     if targetTy = IndexTy \<or> t = IndexTy then
       thenM (assertM (isIntTy targetTy \<or> isIntTy t)) (createIndexCast targetTy v)
     else thenM (assertM (isIntTy targetTy \<and> isIntTy t))
       (if width targetTy > width t then create (CastOp ExtSI v) targetTy
        else create (CastOp TruncI v) targetTy))"

definition expandOFRIndex :: "ofr \<Rightarrow> ofr \<Rightarrow> ofr irm" where
  "expandOFRIndex x targetForTy = (
     if getIntAttr targetForTy \<noteq> None then ret x
     else case targetForTy of Attr _ \<Rightarrow> raise Abort | Val tv \<Rightarrow>
       bindM (getM (\<lambda>s. tyOf s tv)) (\<lambda>targetTy.
       bindM (case x of
           Val v \<Rightarrow> ret v
         | Attr (IntegerAttr n t) \<Rightarrow> create (ConstantOp (IntegerAttr n t)) t
         | Attr _ \<Rightarrow> raise Abort) (\<lambda>v.
       bindM (getM (\<lambda>s. tyOf s v)) (\<lambda>t.
       if targetTy = t then ret x
       else if isShaped targetTy \<and> \<not> isShaped t then
         bindM (if elemTy targetTy \<noteq> t then indexTypeCast v (elemTy targetTy) else ret v) (\<lambda>v'.
         bindM (create (SplatOp v') targetTy) (\<lambda>r. ret (Val r)))
       else if isShaped targetTy \<and> isShaped t then
         (if shapeOf targetTy \<noteq> shapeOf t then
            thenM (assertM (elemTy targetTy = elemTy t))
            (bindM (mapM createIndexConst (shapeOf targetTy)) (\<lambda>dims.
             bindM (create (FromElementsOp dims) (TensorTy [int (length dims)] IndexTy)) (\<lambda>shapeTensor.
             bindM (create (ReshapeOp v shapeTensor) targetTy) (\<lambda>r. ret (Val r)))))
          else if elemTy targetTy = IndexTy \<or> elemTy t = IndexTy then
            thenM (assertM (isIntTy (elemTy targetTy) \<or> isIntTy (elemTy t)))
            (bindM (create (CastOp IndexCast v) targetTy) (\<lambda>r. ret (Val r)))
          else
            thenM (assertM (isIntTy (elemTy targetTy) \<and> isIntTy (elemTy t)))
            (bindM (create (CastOp (if width targetTy > width t then ExtSI else TruncI) v) targetTy)
               (\<lambda>r. ret (Val r))))
       else
         thenM (assertM (\<not> isShaped t))
         (bindM (indexTypeCast v targetTy) (\<lambda>r. ret (Val r)))))))"

section \<open>Arithmetic\<close>

text \<open>
  The tail of every operation: turn both operands into values and create the \<open>arith\<close> operation on
  them.  \<open>l\<close> and \<open>r\<close> are the constants found in the operands.
\<close>

definition createFolded :: "binop \<Rightarrow> ofr \<Rightarrow> int option \<Rightarrow> ofr \<Rightarrow> int option \<Rightarrow> ofr irm" where
  "createFolded k lhs l rhs r =
     bindM (ofrOperand lhs l) (\<lambda>lv.
     bindM (ofrOperand rhs r) (\<lambda>rv.
     bindM (castM lv) (\<lambda>a. bindM (castM rv) (\<lambda>b.
     bindM (createBin k a b) (\<lambda>v. ret (Val v))))))"

definition addOFRs :: "ofr \<Rightarrow> ofr \<Rightarrow> ofr irm" where
  "addOFRs lhs rhs = (let l = getIntAttr lhs; r = getIntAttr rhs in
     if l = None \<and> r = Some 0 then ret lhs
     else if r = None \<and> l = Some 0 then ret rhs
     else case (l, r) of
       (Some a, Some b) \<Rightarrow> ret (getIndexAttr (a + b))
     | _ \<Rightarrow>
       createFolded AddI lhs l rhs r)"

text \<open>The operand of a tensor type wins: the scalar one is expanded to its type.\<close>

definition expandSubOperands :: "val \<Rightarrow> val \<Rightarrow> (val \<times> val) irm" where
  "expandSubOperands a b = bindM (getM (\<lambda>s. (tyOf s a, tyOf s b))) (\<lambda>(ta, tb).
     if ta \<noteq> tb then
       (if isShaped tb \<and> \<not> isShaped ta then
          bindM (expandOFRIndex (Val a) (Val b)) (\<lambda>x.
            case x of Val a' \<Rightarrow> ret (a', b) | Attr _ \<Rightarrow> raise Abort)
        else if isShaped ta \<and> \<not> isShaped tb then
          bindM (expandOFRIndex (Val b) (Val a)) (\<lambda>x.
            case x of Val b' \<Rightarrow> ret (a, b') | Attr _ \<Rightarrow> raise Abort)
        else ret (a, b))
     else ret (a, b))"

definition subOFRs :: "ofr \<Rightarrow> ofr \<Rightarrow> ofr irm" where
  "subOFRs lhs rhs = (let l = getIntAttr lhs; r = getIntAttr rhs in
     if l = None \<and> r = Some 0 then ret lhs
     else case (l, r) of
       (Some a, Some b) \<Rightarrow> ret (getIndexAttr (a - b))
     | _ \<Rightarrow>
       bindM (ofrOperand lhs l) (\<lambda>lv.
       bindM (ofrOperand rhs r) (\<lambda>rv.
       bindM (castM lv) (\<lambda>a. bindM (castM rv) (\<lambda>b.
       bindM (expandSubOperands a b) (\<lambda>(a', b').
       bindM (createBin SubI a' b') (\<lambda>v. ret (Val v))))))))"

text \<open>
  \<open>mulOFRs\<close> also folds values defined by \<open>arith.constant\<close>, whose attribute must be an integer.
\<close>

definition intAttrOrConst :: "ofr \<Rightarrow> int option irm" where
  "intAttrOrConst x = (case x of
     Attr _ \<Rightarrow> ret (getIntAttr x)
   | Val v \<Rightarrow> bindM (getM (\<lambda>s. defOp s v)) (\<lambda>d. case d of
       ConstantOp a \<Rightarrow> bindM (castM (getIntAttr (Attr a))) (\<lambda>n. ret (Some n))
     | _ \<Rightarrow> ret None))"

definition mulOFRs :: "ofr \<Rightarrow> ofr \<Rightarrow> ofr irm" where
  "mulOFRs lhs rhs =
     bindM (intAttrOrConst lhs) (\<lambda>l.
     bindM (intAttrOrConst rhs) (\<lambda>r.
     if l = Some 0 then ret lhs
     else if l = Some 1 then ret rhs
     else if r = Some 0 then ret rhs
     else if r = Some 1 then ret lhs
     else case (l, r) of
       (Some a, Some b) \<Rightarrow> ret (getIndexAttr (a * b))
     | _ \<Rightarrow>
       createFolded MulI lhs l rhs r))"

definition minOFRs :: "ofr \<Rightarrow> ofr \<Rightarrow> ofr irm" where
  "minOFRs lhs rhs = (let l = getIntAttr lhs; r = getIntAttr rhs in
     case (l, r) of
       (Some a, Some b) \<Rightarrow> ret (getIndexAttr (min a b))
     | _ \<Rightarrow>
       createFolded MinSI lhs l rhs r)"

definition maxOFRs :: "ofr \<Rightarrow> ofr \<Rightarrow> ofr irm" where
  "maxOFRs lhs rhs = (let l = getIntAttr lhs; r = getIntAttr rhs in
     case (l, r) of
       (Some a, Some b) \<Rightarrow> ret (getIndexAttr (max a b))
     | _ \<Rightarrow>
       createFolded MaxSI lhs l rhs r)"

definition isShapedValue :: "ir \<Rightarrow> ofr \<Rightarrow> bool" where
  "isShapedValue s x = (case x of Val v \<Rightarrow> isShaped (tyOf s v) | Attr _ \<Rightarrow> False)"

text \<open>Two constants are compared as signed 64-bit integers, also for the unsigned predicates.\<close>

definition foldCmp :: "pred \<Rightarrow> int \<Rightarrow> int \<Rightarrow> bool" where
  "foldCmp p a b = (case p of
     Eq \<Rightarrow> a = b | Ne \<Rightarrow> a \<noteq> b
   | Slt \<Rightarrow> a < b | Ult \<Rightarrow> a < b
   | Sle \<Rightarrow> a \<le> b | Ule \<Rightarrow> a \<le> b
   | Sgt \<Rightarrow> a > b | Ugt \<Rightarrow> a > b
   | Sge \<Rightarrow> a \<ge> b | Uge \<Rightarrow> a \<ge> b)"

definition compareOFRs :: "ofr \<Rightarrow> ofr \<Rightarrow> pred \<Rightarrow> ofr \<Rightarrow> ofr \<Rightarrow> ofr irm" where
  "compareOFRs lhs rhs p trueOFR falseOFR = (case (getIntAttr lhs, getIntAttr rhs) of
     (Some a, Some b) \<Rightarrow> ret (if foldCmp p a b then trueOFR else falseOFR)
   | _ \<Rightarrow>
     bindM (getM (\<lambda>s. isShapedValue s lhs \<or> isShapedValue s rhs \<or> isShapedValue s trueOFR
        \<or> isShapedValue s falseOFR)) (\<lambda>shaped.
     if shaped then ret falseOFR
     else
       bindM (ofrToIndexValue lhs) (\<lambda>l.
       bindM (ofrToIndexValue rhs) (\<lambda>r.
       bindM (ofrToIndexValue trueOFR) (\<lambda>t.
       bindM (ofrToIndexValue falseOFR) (\<lambda>f.
       bindM (create (CmpIOp p l r) (IntTy 1)) (\<lambda>c.
       bindM (create (SelectOp c t f) IndexTy) (\<lambda>v. ret (Val v)))))))))"

section \<open>Comparing fold results structurally\<close>

text \<open>
  The recursions follow defining operations, so they descend to values defined earlier; the guard
  \<open>a < v\<close> is SSA dominance, which \<open>wf_ir\<close> guarantees.
\<close>

function getConstantIntLike :: "ir \<Rightarrow> val \<Rightarrow> int option" where
  "getConstantIntLike s v = (case defOp s v of
     ConstantOp (IntegerAttr n t) \<Rightarrow> if isIntOrIndex (tyOf s v) then Some n else None
   | CastOp IndexCast a \<Rightarrow> if a < v then getConstantIntLike s a else None
   | _ \<Rightarrow> None)"
  by pat_completeness auto
termination
  by (relation "measure snd") auto

declare getConstantIntLike.simps [simp del]

definition isConstZeroOFR :: "ir \<Rightarrow> ofr \<Rightarrow> bool" where
  "isConstZeroOFR s x = (case x of
     Attr (IntegerAttr n _) \<Rightarrow> n = 0
   | Attr _ \<Rightarrow> False
   | Val v \<Rightarrow> getConstantIntLike s v = Some 0)"

definition isConstOneOFR :: "ir \<Rightarrow> ofr \<Rightarrow> bool" where
  "isConstOneOFR s x = (case x of
     Attr (IntegerAttr n _) \<Rightarrow> n = 1
   | Attr _ \<Rightarrow> False
   | Val v \<Rightarrow> getConstantIntLike s v = Some 1)"

definition sameValueOrEquivalentCast :: "ir \<Rightarrow> val \<Rightarrow> val \<Rightarrow> bool" where
  "sameValueOrEquivalentCast s lhs rhs \<longleftrightarrow>
     lhs = rhs \<or> defOp s lhs = CastOp IndexCast rhs \<or> defOp s rhs = CastOp IndexCast lhs"

function peelTrivialIndexExpr :: "ir \<Rightarrow> val \<Rightarrow> val" where
  "peelTrivialIndexExpr s v = (case defOp s v of
     CastOp IndexCast a \<Rightarrow> if a < v then peelTrivialIndexExpr s a else v
   | _ \<Rightarrow> v)"
  by pat_completeness auto
termination
  by (relation "measure snd") auto

declare peelTrivialIndexExpr.simps [simp del]

lemma peel_le: "peelTrivialIndexExpr s v \<le> v"
proof (induction s v rule: peelTrivialIndexExpr.induct)
  case (1 s v)
  then show ?case
    by (subst peelTrivialIndexExpr.simps) (fastforce split: gop.splits castop.splits)
qed

text \<open>\<open>getDefiningOp<arith::MinSIOp>()\<close> and the like.\<close>

definition dynBin :: "binop \<Rightarrow> opr \<Rightarrow> (val \<times> val) option" where
  "dynBin k opn = (case opn of BinOp k' a b \<Rightarrow> if k' = k then Some (a, b) else None | _ \<Rightarrow> None)"

lemma dynBin_Some_iff: "dynBin k opn = Some (a, b) \<longleftrightarrow> opn = BinOp k a b"
  by (cases opn) (auto simp: dynBin_def)

text \<open>\<open>rec\<close> is \<open>sameBoundedSizeExpr\<close>.\<close>

definition sameMinSIOp :: "(val \<Rightarrow> val \<Rightarrow> bool) \<Rightarrow> ir \<Rightarrow> val \<Rightarrow> val \<Rightarrow> val \<Rightarrow> val \<Rightarrow> bool" where
  "sameMinSIOp rec s lhsA0 lhsB0 rhsA0 rhsB0 =
     (let lhsA = peelTrivialIndexExpr s lhsA0; lhsB = peelTrivialIndexExpr s lhsB0;
          rhsA = peelTrivialIndexExpr s rhsA0; rhsB = peelTrivialIndexExpr s rhsB0
      in (rec lhsA rhsA \<and> rec lhsB rhsB) \<or> (rec lhsA rhsB \<and> rec lhsB rhsA))"

definition sameSubIOp :: "(val \<Rightarrow> val \<Rightarrow> bool) \<Rightarrow> val \<Rightarrow> val \<Rightarrow> val \<Rightarrow> val \<Rightarrow> bool" where
  "sameSubIOp rec lhsA lhsB rhsA rhsB \<longleftrightarrow> rec lhsA rhsA \<and> rec lhsB rhsB"

function sameBoundedSizeExpr :: "ir \<Rightarrow> val \<Rightarrow> val \<Rightarrow> bool" where
  "sameBoundedSizeExpr s lhs0 rhs0 =
     (let lhs = peelTrivialIndexExpr s lhs0; rhs = peelTrivialIndexExpr s rhs0;
          rec = (\<lambda>a b. if a < lhs \<and> b < rhs then sameBoundedSizeExpr s a b else False)
      in if sameValueOrEquivalentCast s lhs rhs then True
         else case (getConstantIntLike s lhs, getConstantIntLike s rhs) of
           (Some a, Some b) \<Rightarrow> a = b
         | _ \<Rightarrow> (case (dynBin MinSI (defOp s lhs), dynBin MinSI (defOp s rhs)) of
             (Some (la, lb), Some (ra, rb)) \<Rightarrow> sameMinSIOp rec s la lb ra rb
           | _ \<Rightarrow> (case (dynBin SubI (defOp s lhs), dynBin SubI (defOp s rhs)) of
               (Some (la, lb), Some (ra, rb)) \<Rightarrow> sameSubIOp rec la lb ra rb
             | _ \<Rightarrow> False)))"
  by pat_completeness auto
termination
proof (relation "measure (\<lambda>(s, l, r). l + r)")
  fix s lhs0 rhs0 lhs rhs a b
  assume "lhs = peelTrivialIndexExpr s lhs0" "rhs = peelTrivialIndexExpr s rhs0"
    and "(a::nat) < lhs \<and> b < rhs"
  then show "((s, a, b), s, lhs0, rhs0) \<in> measure (\<lambda>(s, l, r). l + r)"
    using peel_le [of s lhs0] peel_le [of s rhs0] by simp
qed auto

declare sameBoundedSizeExpr.simps [simp del]

definition sameOFR :: "ir \<Rightarrow> ofr \<Rightarrow> ofr \<Rightarrow> bool" where
  "sameOFR s lhs rhs = (case (lhs, rhs) of
     (Attr a, Attr b) \<Rightarrow> a = b
   | (Val a, Val b) \<Rightarrow> sameBoundedSizeExpr s a b
   | (Attr (IntegerAttr n _), Val b) \<Rightarrow> getConstantIntLike s b = Some n
   | (Attr _, Val b) \<Rightarrow> False
   | (Val a, Attr (IntegerAttr n _)) \<Rightarrow> getConstantIntLike s a = Some n
   | (Val a, Attr _) \<Rightarrow> False)"

section \<open>Index-typed fold results\<close>

text \<open>
  The fold results of offsets, sizes, strides and mask dimensions: index attributes in the signed
  64-bit range and existing values of index type.  They keep their meaning while the table grows.
\<close>

definition idx_ofr :: "ir \<Rightarrow> ofr \<Rightarrow> bool" where
  "idx_ofr s x \<longleftrightarrow> (case x of
     Attr a \<Rightarrow> (case a of IntegerAttr n t \<Rightarrow> in64 n \<and> t = IndexTy | _ \<Rightarrow> False)
   | Val v \<Rightarrow> valid s v \<and> tyOf s v = IndexTy)"

lemma idx_ofr_Val [simp]: "idx_ofr s (Val v) \<longleftrightarrow> valid s v \<and> tyOf s v = IndexTy"
  by (simp add: idx_ofr_def)

lemma idx_ofr_getIndexAttr [simp]: "idx_ofr s (getIndexAttr n)"
  by (simp add: idx_ofr_def getIndexAttr_def)

lemma idx_ofr_grows: "grows s s' \<Longrightarrow> idx_ofr s x \<Longrightarrow> idx_ofr s' x"
  by (auto simp: idx_ofr_def grows_def ext_valid ext_tyOf split: gofr.splits)

lemma osem_grows: "grows s s' \<Longrightarrow> idx_ofr s x \<Longrightarrow> osem E s' x = osem E s x"
  by (auto simp: osem_def ofrSem_def idx_ofr_def grows_def ext_eval split: gofr.splits)

lemma valid_grows: "grows s s' \<Longrightarrow> valid s v \<Longrightarrow> valid s' v"
  by (blast dest: growsD ext_valid)

lemma tyOf_grows: "grows s s' \<Longrightarrow> valid s v \<Longrightarrow> tyOf s' v = tyOf s v"
  by (simp add: grows_def ext_tyOf)

lemma eval_grows: "grows s s' \<Longrightarrow> valid s v \<Longrightarrow> eval E s' v = eval E s v"
  by (simp add: grows_def ext_eval)

lemma defOp_grows: "grows s s' \<Longrightarrow> valid s v \<Longrightarrow> defOp s' v = defOp s v"
  by (simp add: grows_def ext_defOp)

lemma osem_Val [simp]: "osem E s (Val v) = eval E s v []"
  by (simp add: osem_def ofrSem_def)

lemma osem_getIndexAttr [simp]: "osem E s (getIndexAttr n) = wrap 64 n"
  by (simp add: osem_def ofrSem_def getIndexAttr_def)

lemma osem_IntegerAttr [simp]: "osem E s (Attr (IntegerAttr n t)) = n"
  by (simp add: osem_def ofrSem_def)

lemma getIntAttr_getIndexAttr [simp]: "getIntAttr (getIndexAttr n) = Some (wrap 64 n)"
  by (simp add: getIntAttr_def getIndexAttr_def)

lemma getIntAttr_Val [simp]: "getIntAttr (Val v) = None"
  by (simp add: getIntAttr_def)

lemma getIntAttr_Some_osem: "getIntAttr x = Some n \<Longrightarrow> osem E s x = n"
  by (auto simp: getIntAttr_def split: gofr.splits attr.splits)

lemma idx_ofr_cases:
  assumes "idx_ofr s x"
  obtains n where "x = Attr (IntegerAttr n IndexTy)" "in64 n" "getIntAttr x = Some n"
  | v where "x = Val v" "valid s v" "tyOf s v = IndexTy" "getIntAttr x = None"
  using assms by (cases x) (auto simp: idx_ofr_def getIntAttr_def split: attr.splits)

lemma norm_IndexTy [simp]: "norm IndexTy x = wrap 64 x"
  by (simp add: norm_def)

lemma osem_in64: "wf_ir s \<Longrightarrow> idx_ofr s x \<Longrightarrow> in64 (osem E s x)"
proof (erule idx_ofr_cases)
  fix v assume "wf_ir s" "x = Val v" "valid s v" "tyOf s v = IndexTy"
  then have "osem E s x = wrap 64 (eval E s v [])" using eval_norm [of s v E "[]"] by simp
  then show ?thesis by simp
qed (auto simp: osem_def ofrSem_def)

lemma osem_wrap: "wf_ir s \<Longrightarrow> idx_ofr s x \<Longrightarrow> wrap 64 (osem E s x) = osem E s x"
  by (simp add: wrap_in64 osem_in64)

lemma getIntAttr_idx_osem: "idx_ofr s x \<Longrightarrow> getIntAttr x = Some k \<Longrightarrow> osem E t x = wrap 64 k"
  by (auto elim!: idx_ofr_cases simp: wrap_in64)

lemma idx_ofr_vals: "idx_ofr s x \<Longrightarrow> a \<in> ofrVals x \<Longrightarrow> valid s a"
  by (cases x) (auto simp: idx_ofr_def)

lemmas grows_stable = idx_ofr_grows osem_grows valid_grows tyOf_grows eval_grows growsD

section \<open>The contract of the arithmetic\<close>

text \<open>
  \<open>ofr_binop opm f\<close>: on index-typed operands \<open>opm\<close> always returns, only appends to the table, and
  its index-typed result denotes \<open>f\<close> at 64 bits.  The list operations of the analyses need no more.
\<close>

locale ofr_binop =
  fixes opm :: "ofr \<Rightarrow> ofr \<Rightarrow> ofr irm" and f :: "int \<Rightarrow> int \<Rightarrow> int"
  assumes wp_op: "wf_ir s \<Longrightarrow> idx_ofr s a \<Longrightarrow> idx_ofr s b \<Longrightarrow>
      (\<And>r s'. grows s s' \<Longrightarrow> idx_ofr s' r \<Longrightarrow>
         (\<And>E. osem E s' r = wrap 64 (f (osem E s a) (osem E s b))) \<Longrightarrow> Q r s') \<Longrightarrow>
      wp (opm a b) Q s"
begin

lemma returns:
  assumes "wf_ir s" "idx_ofr s a" "idx_ofr s b"
  shows "\<exists>r s'. opm a b s = (Inr r, s') \<and> grows s s' \<and> idx_ofr s' r \<and>
    (\<forall>E. osem E s' r = wrap 64 (f (osem E s a) (osem E s b)))"
  using wp_op [OF assms, of "\<lambda>r s'. grows s s' \<and> idx_ofr s' r \<and>
    (\<forall>E. osem E s' r = wrap 64 (f (osem E s a) (osem E s b)))"] by (auto simp: wp_def)

lemma wp_zip:
  assumes wf: "wf_ir s" and len: "length as = length bs"
    and as: "\<And>x. x \<in> set as \<Longrightarrow> idx_ofr s x" and bs: "\<And>x. x \<in> set bs \<Longrightarrow> idx_ofr s x"
    and post: "\<And>rs s'. grows s s' \<Longrightarrow> length rs = length as \<Longrightarrow> (\<forall>r \<in> set rs. idx_ofr s' r) \<Longrightarrow>
      (\<And>E i. i < length as \<Longrightarrow> osem E s' (rs ! i) = wrap 64 (f (osem E s (as ! i)) (osem E s (bs ! i)))) \<Longrightarrow>
      Q rs s'"
  shows "wp (mapM (\<lambda>(x, y). opm x y) (zip as bs)) Q s"
proof (rule wp_mapM [where I = "\<lambda>rs s'. grows s s' \<and> (\<forall>r \<in> set rs. idx_ofr s' r) \<and>
    (\<forall>E. \<forall>i < length rs. osem E s' (rs ! i) = wrap 64 (f (osem E s (as ! i)) (osem E s (bs ! i))))"])
  fix n ys t
  assume n: "n < length (zip as bs)" "length ys = n"
    and I: "grows s t \<and> (\<forall>r \<in> set ys. idx_ofr t r) \<and>
      (\<forall>E. \<forall>i < length ys. osem E t (ys ! i) = wrap 64 (f (osem E s (as ! i)) (osem E s (bs ! i))))"
  have g: "grows s t" and wt: "wf_ir t" using I by (auto dest: growsD)
  have ab: "idx_ofr s (as ! n)" "idx_ofr s (bs ! n)" using n as bs by auto
  note ab' = idx_ofr_grows [OF g ab(1)] idx_ofr_grows [OF g ab(2)]
  have "wp (opm (as ! n) (bs ! n)) (\<lambda>y s'. grows s s' \<and> (\<forall>r \<in> set (ys @ [y]). idx_ofr s' r) \<and>
      (\<forall>E. \<forall>i < length (ys @ [y]).
         osem E s' ((ys @ [y]) ! i) = wrap 64 (f (osem E s (as ! i)) (osem E s (bs ! i))))) t"
  proof (rule wp_op [OF wt ab'])
    fix r s' assume r: "grows t s'" "idx_ofr s' r"
      "\<And>E. osem E s' r = wrap 64 (f (osem E t (as ! n)) (osem E t (bs ! n)))"
    have "osem E s' ((ys @ [r]) ! i) = wrap 64 (f (osem E s (as ! i)) (osem E s (bs ! i)))"
      if "i < length (ys @ [r])" for E i
      using that n I r ab g by (cases "i = n") (auto simp: nth_append osem_grows)
    then show "grows s s' \<and> (\<forall>x \<in> set (ys @ [r]). idx_ofr s' x) \<and>
      (\<forall>E. \<forall>i < length (ys @ [r]).
         osem E s' ((ys @ [r]) ! i) = wrap 64 (f (osem E s (as ! i)) (osem E s (bs ! i))))"
      using r I g grows_trans idx_ofr_grows by auto
  qed
  then show "wp (case zip as bs ! n of (x, y) \<Rightarrow> opm x y) (\<lambda>y s'. grows s s' \<and>
      (\<forall>r \<in> set (ys @ [y]). idx_ofr s' r) \<and> (\<forall>E. \<forall>i < length (ys @ [y]).
         osem E s' ((ys @ [y]) ! i) = wrap 64 (f (osem E s (as ! i)) (osem E s (bs ! i))))) t"
    using n by simp
qed (use wf len post in auto)

end

lemma wp_ofrOperand:
  assumes "wf_ir s" and "idx_ofr s x"
    and "\<And>k E. n = Some k \<Longrightarrow> osem E s x = wrap 64 k" and "n = None \<Longrightarrow> getIntAttr x = None"
    and "\<And>v s'. grows s s' \<Longrightarrow> valid s' v \<Longrightarrow> tyOf s' v = IndexTy \<Longrightarrow>
      (\<And>E. eval E s' v [] = osem E s x) \<Longrightarrow> Q (Some v) s'"
  shows "wp (ofrOperand x n) Q s"
proof (cases n)
  case None
  with assms obtain v where "x = Val v" "valid s v" "tyOf s v = IndexTy"
    by (auto elim: idx_ofr_cases)
  then show ?thesis using None assms(1,5) by (simp add: ofrOperand_def wp_simps)
next
  case (Some k)
  have "wp (createIndexConst k) (\<lambda>v. Q (Some v)) s"
  proof (rule wp_createIndexConst [OF assms(1)])
    fix v s' assume "grows s s'" "valid s' v" "tyOf s' v = IndexTy" "\<And>E idx. eval E s' v idx = wrap 64 k"
    then show "Q (Some v) s'" using assms(3) [OF Some] by (intro assms(5)) simp_all
  qed
  then show ?thesis using Some by (simp add: ofrOperand_def wp_simps)
qed

text \<open>Both operands as values, for any continuation.\<close>

lemma wp_operands:
  assumes wf: "wf_ir s" and a: "idx_ofr s a" and b: "idx_ofr s b"
    and l: "\<And>k E. l = Some k \<Longrightarrow> osem E s a = wrap 64 k" "l = None \<Longrightarrow> getIntAttr a = None"
    and r: "\<And>k E. r = Some k \<Longrightarrow> osem E s b = wrap 64 k" "r = None \<Longrightarrow> getIntAttr b = None"
    and cont: "\<And>v w s'. grows s s' \<Longrightarrow> valid s' v \<Longrightarrow> valid s' w \<Longrightarrow>
      tyOf s' v = IndexTy \<Longrightarrow> tyOf s' w = IndexTy \<Longrightarrow>
      (\<And>E. eval E s' v [] = osem E s a) \<Longrightarrow> (\<And>E. eval E s' w [] = osem E s b) \<Longrightarrow> wp (f v w) Q s'"
  shows "wp (bindM (ofrOperand a l) (\<lambda>lv. bindM (ofrOperand b r) (\<lambda>rv.
      bindM (castM lv) (\<lambda>x. bindM (castM rv) (\<lambda>y. f x y))))) Q s"
  unfolding wp_simps
proof (rule wp_ofrOperand [OF wf a l])
  fix v s1 assume v: "grows s s1" "valid s1 v" "tyOf s1 v = IndexTy" "\<And>E. eval E s1 v [] = osem E s a"
  note b1 = idx_ofr_grows [OF v(1) b] osem_grows [OF v(1) b]
  show "wp (ofrOperand b r) (\<lambda>rv s. \<exists>x. Some v = Some x \<and> (\<exists>y. rv = Some y \<and> wp (f x y) Q s)) s1"
  proof (rule wp_ofrOperand [OF growsD(2) [OF v(1)] b1(1) _ r(2)])
    show "osem E s1 b = wrap 64 n" if "r = Some n" for n E
      using r(1) [OF that] b1(2) by simp
    fix w s2 assume w: "grows s1 s2" "valid s2 w" "tyOf s2 w = IndexTy" "\<And>E. eval E s2 w [] = osem E s1 b"
    note v2 = valid_grows [OF w(1) v(2)] tyOf_grows [OF w(1) v(2)] eval_grows [OF w(1) v(2)]
    have "wp (f v w) Q s2"
      using v w v2 b1 grows_trans by (intro cont) auto
    then show "\<exists>x. Some v = Some x \<and> (\<exists>y. Some w = Some y \<and> wp (f x y) Q s2)"
      by simp
  qed
qed

lemma wp_createBin_index:
  assumes g: "grows s s'" and v: "valid s' v" "valid s' w" "tyOf s' v = IndexTy"
    and post: "\<And>u t. grows s t \<Longrightarrow> idx_ofr t (Val u) \<Longrightarrow>
      (\<And>E. osem E t (Val u) = wrap 64 (binSem k (eval E s' v []) (eval E s' w []))) \<Longrightarrow> Q (Val u) t"
  shows "wp (createBin k v w) (\<lambda>u. Q (Val u)) s'"
proof (rule wp_createBin [OF growsD(2) [OF g] v(1,2)])
  fix u t assume u: "grows s' t" "valid t u" "tyOf t u = tyOf s' v"
    "\<And>E idx. eval E t u idx = norm (tyOf s' v) (binSem k (eval E s' v idx) (eval E s' w idx))"
  show "Q (Val u) t"
    using u v grows_trans [OF g u(1)] by (intro post) simp_all
qed

lemma wp_createFolded:
  assumes "wf_ir s" "idx_ofr s a" "idx_ofr s b"
    and "\<And>k E. l = Some k \<Longrightarrow> osem E s a = wrap 64 k" "l = None \<Longrightarrow> getIntAttr a = None"
    and "\<And>k E. r = Some k \<Longrightarrow> osem E s b = wrap 64 k" "r = None \<Longrightarrow> getIntAttr b = None"
    and post: "\<And>x s'. grows s s' \<Longrightarrow> idx_ofr s' x \<Longrightarrow>
      (\<And>E. osem E s' x = wrap 64 (binSem k (osem E s a) (osem E s b))) \<Longrightarrow> Q x s'"
  shows "wp (createFolded k a l b r) Q s"
  unfolding createFolded_def
proof (rule wp_operands [OF assms(1-7)])
  fix v w s' assume s': "grows s s'" "valid s' v" "valid s' w" "tyOf s' v = IndexTy"
    "\<And>E. eval E s' v [] = osem E s a" "\<And>E. eval E s' w [] = osem E s b"
  show "wp (bindM (createBin k v w) (\<lambda>v. ret (Val v))) Q s'"
    unfolding wp_simps by (rule wp_createBin_index [OF s'(1-4)]) (use s' in \<open>auto intro: post\<close>)
qed

text \<open>The tail applied to the constants \<open>getIntAttr\<close> finds.\<close>

lemma wp_createFolded_attr:
  assumes "wf_ir s" "idx_ofr s a" "idx_ofr s b"
    and "\<And>x s'. grows s s' \<Longrightarrow> idx_ofr s' x \<Longrightarrow>
      (\<And>E. osem E s' x = wrap 64 (binSem k (osem E s a) (osem E s b))) \<Longrightarrow> Q x s'"
  shows "wp (createFolded k a (getIntAttr a) b (getIntAttr b)) Q s"
  by (rule wp_createFolded [OF assms(1-3)]) (use assms in \<open>auto dest: getIntAttr_idx_osem\<close>)

lemma wp_addOFRs:
  assumes "wf_ir s" "idx_ofr s a" "idx_ofr s b"
    and post: "\<And>r s'. grows s s' \<Longrightarrow> idx_ofr s' r \<Longrightarrow>
      (\<And>E. osem E s' r = wrap 64 (osem E s a + osem E s b)) \<Longrightarrow> Q r s'"
  shows "wp (addOFRs a b) Q s"
proof -
  have tail: "wp (createFolded AddI a (getIntAttr a) b (getIntAttr b)) Q s"
    by (rule wp_createFolded_attr [OF assms(1-3)]) (use post in simp)
  note lits = getIntAttr_Some_osem [of a] getIntAttr_Some_osem [of b]
  show ?thesis
    using tail assms(1-3)
    by (auto simp: addOFRs_def Let_def wp_simps osem_wrap lits split: option.split intro!: post)
qed

lemma wp_subOFRs:
  assumes "wf_ir s" "idx_ofr s a" "idx_ofr s b"
    and post: "\<And>r s'. grows s s' \<Longrightarrow> idx_ofr s' r \<Longrightarrow>
      (\<And>E. osem E s' r = wrap 64 (osem E s a - osem E s b)) \<Longrightarrow> Q r s'"
  shows "wp (subOFRs a b) Q s"
proof -
  have tail: "wp (bindM (ofrOperand a (getIntAttr a)) (\<lambda>lv. bindM (ofrOperand b (getIntAttr b)) (\<lambda>rv.
      bindM (castM lv) (\<lambda>x. bindM (castM rv) (\<lambda>y. bindM (expandSubOperands x y) (\<lambda>(x', y').
      bindM (createBin SubI x' y') (\<lambda>v. ret (Val v)))))))) Q s"
  proof (rule wp_operands [OF assms(1-3)])
    fix v w s' assume s': "grows s s'" "valid s' v" "valid s' w" "tyOf s' v = IndexTy" "tyOf s' w = IndexTy"
      "\<And>E. eval E s' v [] = osem E s a" "\<And>E. eval E s' w [] = osem E s b"
    have "wp (createBin SubI v w) (\<lambda>v. Q (Val v)) s'"
      by (rule wp_createBin_index [OF s'(1-4)]) (use s' in \<open>auto intro: post\<close>)
    then show "wp (bindM (expandSubOperands v w) (\<lambda>(x', y'). bindM (createBin SubI x' y') (\<lambda>v. ret (Val v)))) Q s'"
      using s' by (simp add: expandSubOperands_def wp_simps)
  qed (use assms in \<open>auto dest: getIntAttr_idx_osem\<close>)
  note lits = getIntAttr_Some_osem [of a] getIntAttr_Some_osem [of b]
  show ?thesis
    using tail assms(1-3)
    by (auto simp: subOFRs_def Let_def wp_simps osem_wrap lits split: option.split intro!: post)
qed

lemma wp_minOFRs:
  assumes "wf_ir s" "idx_ofr s a" "idx_ofr s b"
    and post: "\<And>r s'. grows s s' \<Longrightarrow> idx_ofr s' r \<Longrightarrow>
      (\<And>E. osem E s' r = wrap 64 (min (osem E s a) (osem E s b))) \<Longrightarrow> Q r s'"
  shows "wp (minOFRs a b) Q s"
proof -
  have tail: "wp (createFolded MinSI a (getIntAttr a) b (getIntAttr b)) Q s"
    by (rule wp_createFolded_attr [OF assms(1-3)]) (use post in simp)
  note lits = getIntAttr_Some_osem [of a] getIntAttr_Some_osem [of b]
  show ?thesis
    using tail assms(1-3)
    by (auto simp: minOFRs_def Let_def wp_simps lits split: option.split intro!: post)
qed

lemma wp_maxOFRs:
  assumes "wf_ir s" "idx_ofr s a" "idx_ofr s b"
    and post: "\<And>r s'. grows s s' \<Longrightarrow> idx_ofr s' r \<Longrightarrow>
      (\<And>E. osem E s' r = wrap 64 (max (osem E s a) (osem E s b))) \<Longrightarrow> Q r s'"
  shows "wp (maxOFRs a b) Q s"
proof -
  have tail: "wp (createFolded MaxSI a (getIntAttr a) b (getIntAttr b)) Q s"
    by (rule wp_createFolded_attr [OF assms(1-3)]) (use post in simp)
  note lits = getIntAttr_Some_osem [of a] getIntAttr_Some_osem [of b]
  show ?thesis
    using tail assms(1-3)
    by (auto simp: maxOFRs_def Let_def wp_simps lits split: option.split intro!: post)
qed

text \<open>The constant \<open>mulOFRs\<close> and \<open>hasConstZero\<close> see in an operand is its value.\<close>

lemma const_osem:
  assumes "wf_ir s" "valid s v" "tyOf s v = IndexTy" "defOp s v = ConstantOp a"
  shows "\<exists>n. a = IntegerAttr n IndexTy \<and> (\<forall>E idx. eval E s v idx = wrap 64 n)"
proof -
  from assms wf_const [of s v a] obtain n where n: "a = IntegerAttr n IndexTy" by auto
  then have "\<forall>E idx. eval E s v idx = wrap 64 n"
    using assms by (simp add: eval_unfold [of s v] denOp_def)
  with n show ?thesis by blast
qed

lemma wp_intAttrOrConst:
  assumes wf: "wf_ir s" and x: "idx_ofr s x"
    and post: "\<And>n. (\<And>k E. n = Some k \<Longrightarrow> osem E s x = wrap 64 k) \<Longrightarrow>
      (n = None \<Longrightarrow> getIntAttr x = None) \<Longrightarrow> Q n s"
  shows "wp (intAttrOrConst x) Q s"
  using x
proof (cases rule: idx_ofr_cases)
  case (1 n)
  have "Q (Some n) s" using 1 by (intro post) (simp_all add: wrap_in64)
  with 1 show ?thesis by (simp add: intAttrOrConst_def wp_simps)
next
  case (2 v)
  show ?thesis
  proof (cases "\<exists>a. defOp s v = ConstantOp a")
    case True
    then obtain a where a: "defOp s v = ConstantOp a" by blast
    from const_osem [OF wf 2(2,3) a] obtain n
      where n: "a = IntegerAttr n IndexTy" "\<forall>E idx. eval E s v idx = wrap 64 n" by blast
    have "Q (Some n) s" using 2 n by (intro post) simp_all
    then show ?thesis using 2 a n by (simp add: intAttrOrConst_def wp_simps getIntAttr_def)
  next
    case False
    have "Q None s" using 2 by (intro post) simp_all
    then show ?thesis using 2 False
      by (cases "defOp s v") (simp_all add: intAttrOrConst_def wp_simps)
  qed
qed

lemma wp_mulOFRs:
  assumes ab: "wf_ir s" "idx_ofr s a" "idx_ofr s b"
    and post: "\<And>r s'. grows s s' \<Longrightarrow> idx_ofr s' r \<Longrightarrow>
      (\<And>E. osem E s' r = wrap 64 (osem E s a * osem E s b)) \<Longrightarrow> Q r s'"
  shows "wp (mulOFRs a b) Q s"
  unfolding mulOFRs_def wp_bindM
proof (intro wp_intAttrOrConst ab)
  fix l r
  assume l: "\<And>k E. l = Some k \<Longrightarrow> osem E s a = wrap 64 k" "l = None \<Longrightarrow> getIntAttr a = None"
    and r: "\<And>k E. r = Some k \<Longrightarrow> osem E s b = wrap 64 k" "r = None \<Longrightarrow> getIntAttr b = None"
  have tail: "wp (createFolded MulI a l b r) Q s"
    by (rule wp_createFolded [OF ab l r]) (simp_all add: post)
  have one: "wrap 64 1 = 1" by (simp add: wrap_id)
  have both: "wrap 64 (m * n) = wrap 64 (osem E s a * osem E s b)" if "l = Some m" "r = Some n" for m n E
    using l(1) [OF that(1)] r(1) [OF that(2)] by (simp add: wrap_mult)
  show "wp (if l = Some 0 then ret a else if l = Some 1 then ret b else if r = Some 0 then ret b
      else if r = Some 1 then ret a else case (l, r) of (Some a, Some b) \<Rightarrow> ret (getIndexAttr (a * b))
      | _ \<Rightarrow> createFolded MulI a l b r) Q s"
    using tail ab l(1) r(1) one
    by (auto simp: wp_simps osem_wrap both wrap_mult split: option.split intro!: post)
qed

interpretation add_ofr: ofr_binop addOFRs "(+)"
  by unfold_locales (rule wp_addOFRs, simp_all)

interpretation sub_ofr: ofr_binop subOFRs "(-)"
  by unfold_locales (rule wp_subOFRs, simp_all)

interpretation mul_ofr: ofr_binop mulOFRs "(*)"
  by unfold_locales (rule wp_mulOFRs, simp_all)

interpretation min_ofr: ofr_binop minOFRs min
  by unfold_locales (rule wp_minOFRs, simp_all)

interpretation max_ofr: ofr_binop maxOFRs max
  by unfold_locales (rule wp_maxOFRs, simp_all)

end
