(* ===== verification/OFR_Sound.thy ===== *)
theory OFR_Sound
  imports OFR
begin

text \<open>
  What the comparisons of \<open>OpFoldResultUtils.cpp\<close> guarantee: the constant tests, \<open>compareOFRs\<close>
  as a select, and the soundness of the structural equality \<open>sameOFR\<close>.
\<close>

section \<open>Constant tests\<close>

lemma hasConstZero_index:
  assumes "wf_ir s" "idx_ofr s x"
  shows "\<exists>b. hasConstZero x s = (Inr b, s) \<and> (b \<longrightarrow> (\<forall>E. osem E s x = 0))"
  using assms(2)
proof (cases rule: idx_ofr_cases)
  case (1 n)
  then show ?thesis by (simp add: hasConstZero_def ret_def)
next
  case (2 v)
  have "osem E s x = 0" if "defOp s v = ConstantOp a" "getIntAttr (Attr a) = Some 0" for a E
    using const_osem [OF assms(1) 2(2,3) that(1)] that(2) 2 by (auto simp: getIntAttr_def)
  then show ?thesis using 2
    by (cases "defOp s v") (auto simp: hasConstZero_def getM_def split: option.splits)
qed

lemma wp_hasConstZero:
  assumes "wf_ir s" "idx_ofr s x"
    and "\<And>b. (b \<Longrightarrow> (\<And>E. osem E s x = 0)) \<Longrightarrow> hasConstZero x s = (Inr b, s) \<Longrightarrow> Q b s"
  shows "wp (hasConstZero x) Q s"
  using hasConstZero_index [OF assms(1,2)] assms(3) by (fastforce intro: wpI)

section \<open>Comparison and select\<close>

text \<open>
  The folded and the emitted comparison agree with the predicate; two constants are compared as
  signed numbers, so an unsigned predicate needs operands that are not negative.
\<close>

definition unsignedPred :: "pred \<Rightarrow> bool" where
  "unsignedPred p \<longleftrightarrow> p \<in> {Ult, Ule, Ugt, Uge}"

lemma foldCmp_cmpPred:
  assumes "in64 a" "in64 b" "unsignedPred p \<Longrightarrow> 0 \<le> a \<and> 0 \<le> b"
  shows "foldCmp p a b = cmpPred p 64 a b"
proof (cases "unsignedPred p")
  case True
  have "take_bit 64 x = x" if "in64 x" "0 \<le> x" for x
    using that by (simp add: take_bit_int_eq_self_iff in64_def)
  then show ?thesis using assms True by (cases p) (auto simp: foldCmp_def)
qed (cases p; simp add: foldCmp_def unsignedPred_def)

lemma wp_ofrToIndexValue:
  assumes "wf_ir s" "idx_ofr s x"
    and post: "\<And>v s'. grows s s' \<Longrightarrow> valid s' v \<Longrightarrow> tyOf s' v = IndexTy \<Longrightarrow>
      (\<And>E. eval E s' v [] = osem E s x) \<Longrightarrow> Q v s'"
  shows "wp (ofrToIndexValue x) Q s"
  using assms(2)
proof (cases rule: idx_ofr_cases)
  case (1 n)
  have "wp (createIndexConst n) Q s"
    by (rule wp_createIndexConst [OF assms(1)]) (use 1 in \<open>simp add: post wrap_in64\<close>)
  with 1 show ?thesis by (simp add: ofrToIndexValue_def)
next
  case (2 v)
  then show ?thesis using assms(1) by (simp add: ofrToIndexValue_def wp_simps post)
qed

lemma wp_compareOFRs:
  assumes wf: "wf_ir s" and ofrs: "idx_ofr s a" "idx_ofr s b" "idx_ofr s t" "idx_ofr s f"
    and uns: "unsignedPred p \<Longrightarrow> 0 \<le> osem E s a \<and> 0 \<le> osem E s b"
    and post: "\<And>r s'. grows s s' \<Longrightarrow> idx_ofr s' r \<Longrightarrow>
      osem E s' r = (if cmpPred p 64 (osem E s a) (osem E s b) then osem E s t else osem E s f) \<Longrightarrow> Q r s'"
  shows "wp (compareOFRs a b p t f) Q s"
proof (cases "getIntAttr a = None \<or> getIntAttr b = None")
  case False
  then obtain m n where mn: "getIntAttr a = Some m" "getIntAttr b = Some n" by auto
  then have v: "osem E s a = m" "osem E s b = n" by (simp_all add: getIntAttr_Some_osem)
  then have "in64 m" "in64 n" using osem_in64 [OF wf ofrs(1), of E] osem_in64 [OF wf ofrs(2), of E] by auto
  then have "foldCmp p m n = cmpPred p 64 m n" using uns v by (intro foldCmp_cmpPred) auto
  then show ?thesis using mn v wf ofrs by (simp add: compareOFRs_def wp_simps post)
next
  case True
  have "\<not> isShapedValue s x" if "idx_ofr s x" for x
    using that by (auto elim!: idx_ofr_cases simp: isShapedValue_def)
  then have ns: "\<not> (isShapedValue s a \<or> isShapedValue s b \<or> isShapedValue s t \<or> isShapedValue s f)"
    using ofrs by blast
  have body: "wp (bindM (ofrToIndexValue a) (\<lambda>l. bindM (ofrToIndexValue b) (\<lambda>r.
      bindM (ofrToIndexValue t) (\<lambda>t. bindM (ofrToIndexValue f) (\<lambda>f.
      bindM (create (CmpIOp p l r) (IntTy 1)) (\<lambda>c.
      bindM (create (SelectOp c t f) IndexTy) (\<lambda>v. ret (Val v)))))))) Q s"
    unfolding wp_simps
  proof (rule wp_ofrToIndexValue [OF wf ofrs(1)], goal_cases)
    case (1 l s1)
    note g1 = 1(1)
    have b1: "idx_ofr s1 b" "idx_ofr s1 t" "idx_ofr s1 f" using ofrs by (auto intro: idx_ofr_grows [OF g1])
    show ?case
    proof (rule wp_ofrToIndexValue [OF growsD(2) [OF g1] b1(1)], goal_cases)
      case (1 r s2)
      note g2 = grows_trans [OF g1 1(1)]
      have b2: "idx_ofr s2 t" "idx_ofr s2 f" using ofrs by (auto intro: idx_ofr_grows [OF g2])
      note lr = 1 \<open>valid s1 l\<close> \<open>tyOf s1 l = IndexTy\<close> \<open>\<And>E. eval E s1 l [] = osem E s a\<close>
      show ?case
      proof (rule wp_ofrToIndexValue [OF growsD(2) [OF g2] b2(1)], goal_cases)
        case (1 tv s3)
        note g3 = grows_trans [OF g2 1(1)]
        have b3: "idx_ofr s3 f" using ofrs by (auto intro: idx_ofr_grows [OF g3])
        note t3 = 1
        show ?case
        proof (rule wp_ofrToIndexValue [OF growsD(2) [OF g3] b3], goal_cases)
          case (1 fv s4)
          note g4 = grows_trans [OF g3 1(1)]
          have ext24: "grows s2 s4" using t3(1) 1(1) by (rule grows_trans)
          have ext14: "grows s1 s4" using lr(1) ext24 by (rule grows_trans)
          have vals: "valid s4 l" "valid s4 r" "valid s4 tv" "valid s4 fv"
            using lr t3 1 valid_grows [OF ext14] valid_grows [OF ext24] valid_grows [OF 1(1)] by auto
          have tys: "tyOf s4 l = IndexTy" "tyOf s4 r = IndexTy"
            using lr tyOf_grows [OF ext14] tyOf_grows [OF ext24] by auto
          have sems: "eval E s4 l [] = osem E s a" "eval E s4 r [] = osem E s b"
              "eval E s4 tv [] = osem E s t" "eval E s4 fv [] = osem E s f"
            using lr t3 1 eval_grows [OF ext14] eval_grows [OF ext24] eval_grows [OF 1(1)]
              osem_grows [OF g1 ofrs(2)] osem_grows [OF g2 ofrs(3)] osem_grows [OF g3 ofrs(4)] by auto
          show ?case
          proof (rule wp_create [OF growsD(2) [OF g4]], goal_cases)
            case (3 c s5)
            note g5 = grows_trans [OF g4 3(1)]
            note v5 = valid_grows [OF 3(1)] eval_grows [OF 3(1)]
            note c = 3
            show ?case
            proof (rule wp_create [OF growsD(2) [OF g5]], goal_cases)
              case (3 v s6)
              have c0: "eval E s5 c [] = (if cmpPred p 64 (osem E s a) (osem E s b) then -1 else 0)"
                using c(5) [of E "[]"] tys sems by (simp add: denOp_def norm_def wrap_def)
              have "wrap 64 (osem E s x) = osem E s x" if "idx_ofr s x" for x
                using osem_wrap [OF wf that] .
              then have "eval E s6 v [] = (if cmpPred p 64 (osem E s a) (osem E s b) then osem E s t else osem E s f)"
                using 3(5) [of E "[]"] c0 c(4) sems vals v5 ofrs by (simp add: denOp_def)
              then show ?case unfolding wp_simps
                using grows_trans [OF g5 3(1)] 3 by (intro post) simp_all
            qed (use v5 vals c in auto)
          qed (use vals in auto)
        qed
      qed
    qed
  qed
  show ?thesis
    using True ns body by (cases "getIntAttr a") (auto simp: compareOFRs_def wp_simps split: option.splits)
qed

section \<open>Structural equality\<close>

text \<open>
  \<open>sameOFR\<close> ignores index casts, so it identifies values only where these casts, and the
  subtractions and minima it looks into, keep the exact value.
\<close>

definition lossless :: "env \<Rightarrow> ir \<Rightarrow> bool" where
  "lossless E s \<longleftrightarrow> (\<forall>v < length (ops s).
     (\<forall>a. defOp s v = CastOp IndexCast a \<longrightarrow> eval E s v [] = eval E s a []) \<and>
     (\<forall>k a b. defOp s v = BinOp k a b \<longrightarrow> k \<in> {SubI, MinSI} \<longrightarrow>
        eval E s v [] = binSem k (eval E s a []) (eval E s b [])))"

lemma lossless_cast: "lossless E s \<Longrightarrow> valid s v \<Longrightarrow> defOp s v = CastOp IndexCast a \<Longrightarrow> eval E s v [] = eval E s a []"
  by (simp add: lossless_def valid_def)

lemma lossless_bin:
  "lossless E s \<Longrightarrow> valid s v \<Longrightarrow> defOp s v = BinOp k a b \<Longrightarrow> k \<in> {SubI, MinSI} \<Longrightarrow>
   eval E s v [] = binSem k (eval E s a []) (eval E s b [])"
  unfolding lossless_def valid_def by blast

lemma cast_operand: "wf_ir s \<Longrightarrow> valid s v \<Longrightarrow> defOp s v = CastOp k a \<Longrightarrow> a < v \<and> valid s a"
  using wf_ir_operand [of s v a] by (simp add: valid_def)

lemma bin_operands:
  "wf_ir s \<Longrightarrow> valid s v \<Longrightarrow> defOp s v = BinOp k a b \<Longrightarrow> a < v \<and> b < v \<and> valid s a \<and> valid s b"
  using wf_ir_operand [of s v a] wf_ir_operand [of s v b] by (simp add: valid_def)

lemma peel_eval:
  assumes "wf_ir s" "lossless E s" "valid s v"
  shows "valid s (peelTrivialIndexExpr s v) \<and> eval E s (peelTrivialIndexExpr s v) [] = eval E s v []"
  using assms
proof (induction s v rule: peelTrivialIndexExpr.induct)
  case (1 s v)
  show ?case
  proof (cases "\<exists>a. defOp s v = CastOp IndexCast a")
    case True
    then obtain a where a: "defOp s v = CastOp IndexCast a" by blast
    with cast_operand [OF 1(2,4) a] have "a < v" "valid s a" by auto
    with 1 a have IH: "valid s (peelTrivialIndexExpr s a)"
      "eval E s (peelTrivialIndexExpr s a) [] = eval E s a []" by auto
    have "peelTrivialIndexExpr s v = peelTrivialIndexExpr s a"
      using a \<open>a < v\<close> by (simp add: peelTrivialIndexExpr.simps [of s v])
    then show ?thesis using IH lossless_cast [OF 1(3,4) a] by simp
  next
    case False
    then have "peelTrivialIndexExpr s v = v"
      by (subst peelTrivialIndexExpr.simps) (auto split: gop.splits castop.splits)
    then show ?thesis using 1(4) by simp
  qed
qed

lemma getConstantIntLike_eval:
  assumes "wf_ir s" "lossless E s" "valid s v" "getConstantIntLike s v = Some n"
  shows "eval E s v [] = n"
  using assms
proof (induction s v arbitrary: n rule: getConstantIntLike.induct)
  case (1 s v)
  have "(\<exists>t. defOp s v = ConstantOp (IntegerAttr n t) \<and> isIntOrIndex (tyOf s v)) \<or>
    (\<exists>a. defOp s v = CastOp IndexCast a \<and> a < v \<and> getConstantIntLike s a = Some n)"
    using 1(5) by (subst (asm) getConstantIntLike.simps)
      (auto split: gop.splits castop.splits attr.splits if_splits)
  then show ?case
  proof (elim disjE exE conjE)
    fix t assume c: "defOp s v = ConstantOp (IntegerAttr n t)" "isIntOrIndex (tyOf s v)"
    then have n: "norm (tyOf s v) n = n" using wf_const [OF 1(2,4) c] by auto
    have "\<not> isFloatLike (tyOf s v)" using c(2) by (cases "tyOf s v") auto
    then show ?thesis using n c by (simp add: eval_unfold [OF 1(2,4)] denOp_def)
  next
    fix a assume a: "defOp s v = CastOp IndexCast a" "a < v" "getConstantIntLike s a = Some n"
    then have "eval E s a [] = n" using 1 cast_operand [OF 1(2,4) a(1)] by auto
    then show ?thesis using lossless_cast [OF 1(3,4) a(1)] by simp
  qed
qed

lemma sameValueOrEquivalentCast_eval:
  assumes "lossless E s" "valid s a" "valid s b" "sameValueOrEquivalentCast s a b"
  shows "eval E s a [] = eval E s b []"
  using assms lossless_cast [of E s] by (auto simp: sameValueOrEquivalentCast_def)

text \<open>One step of \<open>sameBoundedSizeExpr\<close> on peeled values, with the recursion as a parameter.\<close>

lemma sameBoundedSizeExpr_step:
  assumes "sameBoundedSizeExpr s lhs0 rhs0"
    and "lhs = peelTrivialIndexExpr s lhs0" and "rhs = peelTrivialIndexExpr s rhs0"
  shows "sameValueOrEquivalentCast s lhs rhs \<or>
    (\<exists>n. getConstantIntLike s lhs = Some n \<and> getConstantIntLike s rhs = Some n) \<or>
    (\<exists>la lb ra rb. defOp s lhs = BinOp MinSI la lb \<and> defOp s rhs = BinOp MinSI ra rb \<and>
       sameMinSIOp (\<lambda>a b. a < lhs \<and> b < rhs \<and> sameBoundedSizeExpr s a b) s la lb ra rb) \<or>
    (\<exists>la lb ra rb. defOp s lhs = BinOp SubI la lb \<and> defOp s rhs = BinOp SubI ra rb \<and>
       sameSubIOp (\<lambda>a b. a < lhs \<and> b < rhs \<and> sameBoundedSizeExpr s a b) la lb ra rb)"
proof -
  have if_False: "(if P then Q else False) = (P \<and> Q)" for P Q by simp
  note step = assms(1) [unfolded sameBoundedSizeExpr.simps [of s lhs0 rhs0] if_False,
      folded assms(2,3), unfolded Let_def if_bool_eq_disj]
  show ?thesis
    using step
    by (cases "getConstantIntLike s lhs"; cases "getConstantIntLike s rhs";
        cases "dynBin MinSI (defOp s lhs)"; cases "dynBin MinSI (defOp s rhs)";
        cases "dynBin SubI (defOp s lhs)"; cases "dynBin SubI (defOp s rhs)")
      (auto simp: dynBin_Some_iff)
qed

lemma sameBoundedSizeExpr_eval:
  assumes "wf_ir s" "lossless E s" "valid s a" "valid s b" "sameBoundedSizeExpr s a b"
  shows "eval E s a [] = eval E s b []"
  using assms
proof (induction s a b rule: sameBoundedSizeExpr.induct)
  case (1 s lhs0 rhs0)
  define lhs where "lhs = peelTrivialIndexExpr s lhs0"
  define rhs where "rhs = peelTrivialIndexExpr s rhs0"
  have l: "valid s lhs" "eval E s lhs [] = eval E s lhs0 []"
    and r: "valid s rhs" "eval E s rhs [] = eval E s rhs0 []"
    using peel_eval [OF 1(2,3,4)] peel_eval [OF 1(2,3,5)] by (simp_all add: lhs_def rhs_def)
  have rec: "eval E s x [] = eval E s y []"
    if "x < lhs \<and> y < rhs \<and> sameBoundedSizeExpr s x y" "valid s x" "valid s y" for x y
    using 1(1) [of lhs rhs x y] that 1(2,3) by (auto simp: lhs_def rhs_def)
  from sameBoundedSizeExpr_step [OF 1(6) lhs_def rhs_def] consider
      "sameValueOrEquivalentCast s lhs rhs"
    | n where "getConstantIntLike s lhs = Some n" "getConstantIntLike s rhs = Some n"
    | la lb ra rb where "defOp s lhs = BinOp MinSI la lb" "defOp s rhs = BinOp MinSI ra rb"
        "sameMinSIOp (\<lambda>a b. a < lhs \<and> b < rhs \<and> sameBoundedSizeExpr s a b) s la lb ra rb"
    | la lb ra rb where "defOp s lhs = BinOp SubI la lb" "defOp s rhs = BinOp SubI ra rb"
        "sameSubIOp (\<lambda>a b. a < lhs \<and> b < rhs \<and> sameBoundedSizeExpr s a b) la lb ra rb"
    by blast
  then have "eval E s lhs [] = eval E s rhs []"
  proof cases
    case 1
    then show ?thesis using sameValueOrEquivalentCast_eval [OF \<open>lossless E s\<close> l(1) r(1)] by simp
  next
    case 2
    then show ?thesis
      using getConstantIntLike_eval [OF \<open>wf_ir s\<close> \<open>lossless E s\<close>] l(1) r(1) by simp
  next
    case 3
    note ops = bin_operands [OF \<open>wf_ir s\<close> l(1) 3(1)] bin_operands [OF \<open>wf_ir s\<close> r(1) 3(2)]
    note p = peel_eval [OF \<open>wf_ir s\<close> \<open>lossless E s\<close>]
    have peeled: "eval E s x [] = eval E s y []"
      if "peelTrivialIndexExpr s x < lhs \<and> peelTrivialIndexExpr s y < rhs \<and>
        sameBoundedSizeExpr s (peelTrivialIndexExpr s x) (peelTrivialIndexExpr s y)"
        "valid s x" "valid s y" for x y
      using rec [OF that(1)] p [OF that(2)] p [OF that(3)] by simp
    from 3(3) have "min (eval E s la []) (eval E s lb []) = min (eval E s ra []) (eval E s rb [])"
      unfolding sameMinSIOp_def Let_def
      using peeled ops by (auto simp: min.commute)
    then show ?thesis
      using lossless_bin [OF \<open>lossless E s\<close> l(1) 3(1)] lossless_bin [OF \<open>lossless E s\<close> r(1) 3(2)] by simp
  next
    case 4
    note ops = bin_operands [OF \<open>wf_ir s\<close> l(1) 4(1)] bin_operands [OF \<open>wf_ir s\<close> r(1) 4(2)]
    from 4(3) have "eval E s la [] = eval E s ra []" "eval E s lb [] = eval E s rb []"
      using rec ops by (auto simp: sameSubIOp_def)
    then show ?thesis
      using lossless_bin [OF \<open>lossless E s\<close> l(1) 4(1)] lossless_bin [OF \<open>lossless E s\<close> r(1) 4(2)] by simp
  qed
  then show ?case using l r by simp
qed

lemma sameOFR_sound:
  assumes "wf_ir s" "lossless E s" "\<And>v. lhs = Val v \<Longrightarrow> valid s v" "\<And>v. rhs = Val v \<Longrightarrow> valid s v"
    and "sameOFR s lhs rhs"
  shows "osem E s lhs = osem E s rhs"
  using assms(5) sameBoundedSizeExpr_eval [OF assms(1,2)] getConstantIntLike_eval [OF assms(1,2)] assms(3,4)
  by (cases lhs; cases rhs) (auto simp: sameOFR_def osem_def ofrSem_def split: attr.splits)

end
