(* ===== verification/Ptr_State.thy ===== *)
theory Ptr_State
  imports OFR
begin

text \<open>
  \<open>tts::PtrState\<close> of \<open>lib/AnalysisStructured/PtrAnalysis.cpp\<close> (lines 45 to 651): the strided
  description of a pointer or of an integer tensor, its queries, and the operations that build it.
  A \<open>const\<close> method takes the state; a method that fills the empty receiver returns it.
\<close>

section \<open>The state and its queries\<close>

record ptr_state =
  offsets :: "ofr list"
  origiOffsets :: "ofr list"
  sizes :: "ofr list"
  strides :: "ofr list"
  shape :: "ofr list"
  order :: "int list"
  source :: "val option"
  scalar :: "val option"

definition emptyState :: ptr_state where
  "emptyState = \<lparr>offsets = [], origiOffsets = [], sizes = [], strides = [], shape = [], order = [],
     source = None, scalar = None\<rparr>"

definition getRank :: "ptr_state \<Rightarrow> nat irm" where
  "getRank st = thenM (assertM (length (offsets st) = length (sizes st) \<and>
      length (offsets st) = length (strides st) \<and> length (shape st) = length (offsets st)))
    (ret (length (offsets st)))"

definition isEmpty :: "ptr_state \<Rightarrow> bool irm" where
  "isEmpty st = bindM (getRank st) (\<lambda>r. ret (r = 0 \<and> source st = None \<and> scalar st = None))"

definition isBlockPtr :: "ptr_state \<Rightarrow> bool" where
  "isBlockPtr st \<longleftrightarrow> order st \<noteq> []"

definition dimHasModulo :: "ptr_state \<Rightarrow> nat \<Rightarrow> bool irm" where
  "dimHasModulo st dim =
     thenM (assertM (\<not> isBlockPtr st))
     (bindM (getRank st) (\<lambda>r. thenM (assertM (dim < r))
     (ret (case getIntAttr (shape st ! dim) of None \<Rightarrow> True | Some n \<Rightarrow> n \<noteq> 0))))"

definition hasModulo :: "ptr_state \<Rightarrow> bool irm" where
  "hasModulo st = bindM (getRank st) (\<lambda>r. existsM (dimHasModulo st) [0..<r])"

definition isNotStructured :: "ir \<Rightarrow> ofr \<Rightarrow> bool" where
  "isNotStructured s offset = (case offset of Val v \<Rightarrow> isShaped (tyOf s v) | Attr _ \<Rightarrow> False)"

definition dimIsStructured :: "ptr_state \<Rightarrow> nat \<Rightarrow> bool irm" where
  "dimIsStructured st dim = bindM (getRank st) (\<lambda>r. thenM (assertM (dim < r))
     (getM (\<lambda>s. \<not> isNotStructured s (offsets st ! dim))))"

definition getNonStructuredDim :: "ptr_state \<Rightarrow> nat irm" where
  "getNonStructuredDim st = bindM (getRank st) (\<lambda>r.
     bindM (getM (\<lambda>s. filter (\<lambda>i. isNotStructured s (offsets st ! i)) [0..<r])) (\<lambda>dims.
     thenM (assertM (length dims = 1)) (ret (hd dims))))"

definition noStructuredDimExists :: "ptr_state \<Rightarrow> bool irm" where
  "noStructuredDimExists st = bindM (getRank st) (\<lambda>r.
     getM (\<lambda>s. r > 0 \<and> (\<forall>x \<in> set (offsets st). isNotStructured s x)))"

definition isStructured :: "ir \<Rightarrow> ptr_state \<Rightarrow> bool" where
  "isStructured s st \<longleftrightarrow> (\<forall>x \<in> set (offsets st). \<not> isNotStructured s x)"

text \<open>
  True unless exactly one dimension of the value's shape is larger than 1: \<open>find_singleton\<close> is
  null both when there is none and when there are several.
\<close>

definition isNotSingleDim :: "ir \<Rightarrow> val \<Rightarrow> bool" where
  "isNotSingleDim s v = (if isShaped (tyOf s v)
     then length (filter (\<lambda>n. n > 1) (shapeOf (tyOf s v))) \<noteq> 1 else False)"

section \<open>Unstructured dimensions\<close>

definition index0 :: ofr where
  "index0 = Attr (IntegerAttr 0 IndexTy)"

definition index1 :: ofr where
  "index1 = Attr (IntegerAttr 1 IndexTy)"

definition rebuildAsUnsupportedOp :: "ptr_state \<Rightarrow> val \<Rightarrow> ptr_state irm" where
  "rebuildAsUnsupportedOp st operand =
     bindM (getM (\<lambda>s. isNotSingleDim s operand)) (\<lambda>nsd. thenM (requireM (\<not> nsd))
     (bindM (isEmpty st) (\<lambda>emp. thenM (requireM emp)
     (bindM (getM (\<lambda>s. tyOf s operand)) (\<lambda>t. thenM (assertM (isShaped t))
     (thenM (requireM (\<not> isPtrTy (elemTy t)))
     (ret (st\<lparr>
        offsets := offsets st @ map (\<lambda>n. if n = 1 then index0 else Val operand) (shapeOf t),
        strides := strides st @ map (\<lambda>n. if n = 1 then index0 else index1) (shapeOf t),
        sizes := sizes st @ map getIndexAttr (shapeOf t),
        shape := shape st @ map (\<lambda>_. index0) (shapeOf t)\<rparr>))))))))"

definition rebuildAsGatherScatter :: "ptr_state \<Rightarrow> val \<Rightarrow> nat \<Rightarrow> ptr_state irm" where
  "rebuildAsGatherScatter st opv nonContinuousDim =
     bindM (getM (\<lambda>s. isNotSingleDim s opv)) (\<lambda>nsd. thenM (requireM (\<not> nsd))
     (bindM (getRank st) (\<lambda>r. thenM (requireM (nonContinuousDim < r))
     (bindM (getM (\<lambda>s. tyOf s opv)) (\<lambda>t. thenM (assertM (isShaped t))
     (bindM (atM (shapeOf t) nonContinuousDim) (\<lambda>n. thenM (requireM (n > 1))
     (ret (st\<lparr>
        offsets := (offsets st)[nonContinuousDim := Val opv],
        strides := (strides st)[nonContinuousDim := index1],
        shape := (shape st)[nonContinuousDim := index0]\<rparr>)))))))))"

section \<open>Addition\<close>

text \<open>
  One dimension of \<open>addState\<close> when one of the two is unstructured and the offsets are to be
  computed: \<open>offset * stride\<close> terms are merged over a common stride or a common offset.
\<close>

definition addUnstructuredDim :: "ptr_state \<Rightarrow> ptr_state \<Rightarrow> nat \<Rightarrow> (ofr \<times> ofr) irm" where
  "addUnstructuredDim lhsState rhsState i =
     bindM (hasModulo lhsState) (\<lambda>ml. bindM (if ml then ret True else hasModulo rhsState) (\<lambda>m.
     thenM (assertM (\<not> m))
     (bindM (hasConstZero (strides lhsState ! i)) (\<lambda>lz.
      bindM (if lz then hasConstZero (offsets lhsState ! i) else ret False) (\<lambda>lzero.
      if lzero then ret (offsets rhsState ! i, strides rhsState ! i) else
      bindM (hasConstZero (strides rhsState ! i)) (\<lambda>rz.
      bindM (if rz then hasConstZero (offsets rhsState ! i) else ret False) (\<lambda>rzero.
      if rzero then ret (offsets lhsState ! i, strides lhsState ! i) else
      bindM (dimIsStructured lhsState i) (\<lambda>ls.
      bindM (dimIsStructured rhsState i) (\<lambda>rs.
      thenM (assertM (lz \<longrightarrow> ls \<and> \<not> rs))
      (thenM (assertM (rz \<longrightarrow> rs \<and> \<not> ls))
      (let lhsOffset = offsets lhsState ! i; rhsOffset = offsets rhsState ! i;
           lhsStride = (if lz then getIndexAttr 1 else strides lhsState ! i);
           rhsStride = (if rz then getIndexAttr 1 else strides rhsState ! i)
       in
       bindM (if lhsOffset \<noteq> rhsOffset \<and> lhsStride \<noteq> rhsStride then
           bindM (expandOFRIndex lhsStride lhsOffset) (\<lambda>stride1.
           bindM (mulOFRs lhsOffset stride1) (\<lambda>lo.
           bindM (expandOFRIndex rhsStride rhsOffset) (\<lambda>stride2.
           bindM (mulOFRs rhsOffset stride2) (\<lambda>ro.
           ret (lo, ro, getIndexAttr 1, getIndexAttr 1)))))
         else ret (lhsOffset, rhsOffset, lhsStride, rhsStride)) (\<lambda>(lo, ro, lst, rst).
       if lst = rst then
         bindM (if \<not> ls then bindM (expandOFRIndex ro lo) (\<lambda>ro'. ret (lo, ro'))
                else bindM (expandOFRIndex lo ro) (\<lambda>lo'. ret (lo', ro))) (\<lambda>(lo', ro').
         bindM (addOFRs lo' ro') (\<lambda>off. ret (off, lst)))
       else
         thenM (assertM (lo = ro))
         (bindM (addOFRs lst rst) (\<lambda>str. ret (lo, str)))))))))))))))"

definition addDim :: "ptr_state \<Rightarrow> ptr_state \<Rightarrow> bool \<Rightarrow> nat \<Rightarrow> (ofr \<times> ofr) irm" where
  "addDim lhsState rhsState isAnalysisingUnstructured i =
     bindM (dimIsStructured lhsState i) (\<lambda>ls.
     bindM (if ls then dimIsStructured rhsState i else ret False) (\<lambda>both.
     if both then
       bindM (addOFRs (offsets lhsState ! i) (offsets rhsState ! i)) (\<lambda>newOffset.
       bindM (addOFRs (strides lhsState ! i) (strides rhsState ! i)) (\<lambda>newStride.
       ret (newOffset, newStride)))
     else if isAnalysisingUnstructured then addUnstructuredDim lhsState rhsState i
     else ret (if ls then offsets rhsState ! i else offsets lhsState ! i, getIndexAttr 1)))"

text \<open>
  The modulo of the sum, dimension by dimension, from dimension \<open>i\<close> on; \<open>lhs\<close> is the operand that
  has one, if any.  The third branch swaps the two dimensions and leaves the loop.
\<close>

function addShapes :: "ptr_state \<Rightarrow> ptr_state \<Rightarrow> nat \<Rightarrow> nat \<Rightarrow> ofr list irm" where
  "addShapes lhs rhs rank i = (
     if i < rank then
       bindM (dimIsStructured lhs i) (\<lambda>ls.
       bindM (if ls then dimIsStructured rhs i else ret False) (\<lambda>both.
       if \<not> both then bindM (addShapes lhs rhs rank (Suc i)) (\<lambda>rest. ret (index0 # rest))
       else
         bindM (dimHasModulo lhs i) (\<lambda>m.
         bindM (if m then hasConstZero (offsets rhs ! i) else ret True) (\<lambda>keep.
         if keep then bindM (addShapes lhs rhs rank (Suc i)) (\<lambda>rest. ret (shape lhs ! i # rest))
         else if i = 0 \<and> rank = 2 \<and> scalar rhs \<noteq> None then ret [shape lhs ! 1, shape lhs ! 0]
         else raise Failure))))
     else ret [])"
  by pat_completeness auto
termination
  by (relation "measure (\<lambda>(l, r, rank, i). rank - i)") auto

declare addShapes.simps [simp del]

definition addState :: "ptr_state \<Rightarrow> ptr_state \<Rightarrow> bool \<Rightarrow> ptr_state irm" where
  "addState lhsState rhsState isAnalysisingUnstructured =
     bindM (getRank lhsState) (\<lambda>rank. bindM (getRank rhsState) (\<lambda>rrank.
     thenM (assertM (rank = rrank))
     (thenM (requireM (\<not> (source lhsState \<noteq> None \<and> source rhsState \<noteq> None)))
     (bindM (case (scalar lhsState, scalar rhsState) of
         (Some a, Some b) \<Rightarrow> bindM (createBin AddI a b) (\<lambda>v. ret (Some v))
       | (l, r) \<Rightarrow> ret (if rank = 0 then (if l \<noteq> None then l else r) else None)) (\<lambda>newScalar.
      bindM (getM (\<lambda>s. \<not> isStructured s lhsState \<and> \<not> isStructured s rhsState)) (\<lambda>bothUnstructured.
      thenM (if bothUnstructured then
          bindM (getNonStructuredDim lhsState) (\<lambda>dl. bindM (getNonStructuredDim rhsState) (\<lambda>dr.
          requireM (dl = dr)))
        else ret ())
      (bindM (mapM (addDim lhsState rhsState isAnalysisingUnstructured) [0..<rank]) (\<lambda>dims.
       bindM (hasModulo lhsState) (\<lambda>lm. bindM (hasModulo rhsState) (\<lambda>rm.
       thenM (requireM (\<not> (lm \<and> rm)))
       (thenM (assertM (lm \<or> rm \<longrightarrow> rank \<le> 2))
       (bindM (if rm then addShapes rhsState lhsState rank 0 else addShapes lhsState rhsState rank 0)
         (\<lambda>newShape.
       ret \<lparr>offsets = map fst dims, origiOffsets = [], sizes = sizes lhsState,
            strides = map snd dims, shape = newShape, order = [],
            source = (if source lhsState \<noteq> None then source lhsState else source rhsState),
            scalar = newScalar\<rparr>)))))))))))))"

section \<open>Multiplication\<close>

definition mulDim :: "ptr_state \<Rightarrow> val \<Rightarrow> bool \<Rightarrow> nat \<Rightarrow> (ofr \<times> ofr \<times> ofr) irm" where
  "mulDim lhs factor isAnalysisingUnstructured i =
     bindM (dimIsStructured lhs i) (\<lambda>ls.
     if ls then
       bindM (mulOFRs (offsets lhs ! i) (Val factor)) (\<lambda>newOffset.
       bindM (mulOFRs (strides lhs ! i) (Val factor)) (\<lambda>newStride.
       bindM (mulOFRs (shape lhs ! i) (Val factor)) (\<lambda>newShape.
       ret (newOffset, newStride, newShape))))
     else
       bindM (dimHasModulo lhs i) (\<lambda>m. thenM (assertM (\<not> m))
       (if isAnalysisingUnstructured then
          bindM (hasModulo lhs) (\<lambda>hm. thenM (assertM (\<not> hm))
          (bindM (mulOFRs (strides lhs ! i) (Val factor)) (\<lambda>newStride.
           ret (offsets lhs ! i, newStride, index0))))
        else ret (offsets lhs ! i, strides lhs ! i, index0))))"

definition mulState :: "ptr_state \<Rightarrow> ptr_state \<Rightarrow> bool \<Rightarrow> ptr_state irm" where
  "mulState lhsState rhsState isAnalysisingUnstructured =
     bindM (getRank lhsState) (\<lambda>rank. bindM (getRank rhsState) (\<lambda>rrank.
     thenM (assertM (rank = rrank))
     (thenM (requireM (\<not> (source lhsState \<noteq> None \<and> source rhsState \<noteq> None)))
     (thenM (requireM (\<not> (scalar lhsState = None \<and> scalar rhsState = None)))
     (let swap = (scalar rhsState = None \<and> scalar lhsState \<noteq> None);
          lhs = (if swap then rhsState else lhsState);
          rhs = (if swap then lhsState else rhsState)
      in
      bindM (case (scalar lhsState, scalar rhsState) of
          (Some a, Some b) \<Rightarrow> bindM (createBin MulI a b) (\<lambda>v. ret (Some v))
        | _ \<Rightarrow> ret None) (\<lambda>newScalar.
      bindM (castM (scalar rhs)) (\<lambda>factor.
      bindM (mapM (mulDim lhs factor isAnalysisingUnstructured) [0..<length (sizes lhs)]) (\<lambda>dims.
      bindM (hasModulo rhs) (\<lambda>m. thenM (requireM (\<not> m))
      (ret \<lparr>offsets = map fst dims, origiOffsets = [], sizes = sizes lhs,
            strides = map (\<lambda>d. fst (snd d)) dims, shape = map (\<lambda>d. snd (snd d)) dims, order = [],
            source = None, scalar = newScalar\<rparr>))))))))))"

definition mergeUnstructuredState :: "ptr_state \<Rightarrow> ptr_state \<Rightarrow> ptr_state irm" where
  "mergeUnstructuredState st other =
     bindM (getM (\<lambda>s. isStructured s st \<or> isStructured s other)) (\<lambda>b. thenM (requireM (\<not> b))
     (bindM (getNonStructuredDim other) (\<lambda>d1. bindM (getNonStructuredDim st) (\<lambda>d2.
      thenM (requireM (d1 = d2))
      (bindM (getRank st) (\<lambda>r1. bindM (getRank other) (\<lambda>r2. thenM (requireM (r1 = r2))
      (ret (st\<lparr>offsets := (offsets st)[d1 := offsets other ! d1],
               strides := (strides st)[d1 := strides other ! d1],
               shape := (shape st)[d1 := shape other ! d1]\<rparr>)))))))))"

section \<open>Emitting the structured pointer\<close>

definition staticSizes :: "ptr_state \<Rightarrow> int list irm" where
  "staticSizes st = bindM (getRank st) (\<lambda>r. mapM (\<lambda>i. castM (getIntAttr (sizes st ! i))) [0..<r])"

text \<open>
  The type \<open>tts.make_tptr\<close> infers in its builder: a tensor of pointers, or for a block pointer a
  pointer to a tensor.
\<close>

definition makeTensorPtrType :: "ty \<Rightarrow> int list \<Rightarrow> int list \<Rightarrow> ty irm" where
  "makeTensorPtrType baseTy szs ord = (case baseTy of
     PtrTy e \<Rightarrow> ret (if ord = [] then TensorTy szs (PtrTy e) else PtrTy (TensorTy szs e))
   | _ \<Rightarrow> raise Abort)"

definition createTTSMakeTensorPtrOp :: "ptr_state \<Rightarrow> ofr list \<Rightarrow> val irm" where
  "createTTSMakeTensorPtrOp st origiOffs =
     bindM (staticSizes st) (\<lambda>szs.
     bindM (mapM (\<lambda>x. case x of
         Val v \<Rightarrow> bindM (getM (\<lambda>s. tyOf s v)) (\<lambda>t.
           if t = IndexTy then ret [Val v]
           else bindM (createIndexCast IndexTy v) (\<lambda>c. ret [Val c]))
       | Attr a \<Rightarrow> (case getIntAttr x of
           Some n \<Rightarrow> bindM (create (ConstantOp a) IndexTy) (\<lambda>c. ret [Val c])
         | None \<Rightarrow> ret [])) origiOffs) (\<lambda>origiIndexOffsets.
     bindM (castM (source st)) (\<lambda>base.
     bindM (getM (\<lambda>s. tyOf s base)) (\<lambda>bt.
     bindM (makeTensorPtrType bt szs (order st)) (\<lambda>t.
     create (TTSMakeTensorPtrOp base szs (strides st) (offsets st) (concat origiIndexOffsets)
       (shape st) (order st)) t)))))"

definition createTTSMakeGatherScatterTensorPtrOp :: "ptr_state \<Rightarrow> (ptr_state \<times> val) irm" where
  "createTTSMakeGatherScatterTensorPtrOp st =
     bindM (staticSizes st) (\<lambda>szs.
     bindM (getNonStructuredDim st) (\<lambda>dim.
     bindM (castM (case offsets st ! dim of Val v \<Rightarrow> Some v | Attr _ \<Rightarrow> None)) (\<lambda>off.
     bindM (getM (\<lambda>s. tyOf s off)) (\<lambda>offsetTy. thenM (assertM (isShaped offsetTy))
     (bindM (if length (shapeOf offsetTy) > 1 then
          bindM (create (CollapseShapeOp off) (TensorTy [prod_list (shapeOf offsetTy)] (elemTy offsetTy)))
            (\<lambda>c. ret (st\<lparr>offsets := (offsets st)[dim := Val c]\<rparr>, c))
        else ret (st, off)) (\<lambda>(st', off').
      bindM (castM (source st')) (\<lambda>base.
      bindM (getM (\<lambda>s. tyOf s base)) (\<lambda>bt.
      bindM (castM (case bt of PtrTy e \<Rightarrow> Some (PtrTy (TensorTy szs e)) | _ \<Rightarrow> None)) (\<lambda>t.
      bindM (create (TTSMakeGatherScatterOp base off' dim szs (strides st')
          ((offsets st')[dim := index0])) t)
        (\<lambda>v. ret (st', v)))))))))))"

end
