(* ===== verification/Ptr_Visit.thy ===== *)
theory Ptr_Visit
  imports Ptr_State
begin

text \<open>
  \<open>tts::PtrAnalysis::visitOperand\<close> and its handlers, \<open>lib/AnalysisStructured/PtrAnalysis.cpp\<close>
  lines 653 to 1458 and 1603 to 1716.  Each handler takes the recursive visit as its first argument
  and returns the state that the C++ writes into an empty receiver; \<open>visitOperand\<close> ties the knot by
  recursion on the definition order of values.
\<close>

section \<open>The analysis object\<close>

record ptr_analysis =
  knownPtrs :: "val \<rightharpoonup> ptr_state"
  ptrMap :: "val \<rightharpoonup> val"
  maybeStructuredArgs :: "val list"
  enableMGS :: bool \<comment> \<open>\<open>enableMakeGatherScatterTensorPtr\<close>\<close>
  isAnalysisingUnstructured :: bool

type_synonym visit = "val \<Rightarrow> ptr_state irm"

definition assertMode :: "ptr_analysis \<Rightarrow> unit irm" where
  "assertMode pa = assertM (isAnalysisingUnstructured pa \<longrightarrow> enableMGS pa)"

definition withOrigi :: "ptr_state \<Rightarrow> ptr_state" where
  "withOrigi st = st\<lparr>origiOffsets := offsets st\<rparr>"

section \<open>Integer arithmetic\<close>

text \<open>
  When one operand has a modulo and the other is unstructured, the modulo operand is turned into
  an unstructured one that consists of the operand itself.
\<close>

definition reconcileModulo ::
    "ptr_analysis \<Rightarrow> val \<Rightarrow> val \<Rightarrow> ptr_state \<Rightarrow> ptr_state \<Rightarrow> (ptr_state \<times> ptr_state) irm" where
  "reconcileModulo pa lhs rhs lhsState rhsState =
     bindM (getM (\<lambda>s. isStructured s lhsState)) (\<lambda>ls.
     bindM (if ls then ret False else hasModulo rhsState) (\<lambda>rebuildRhs.
     if rebuildRhs then
       thenM (requireM (enableMGS pa))
       (bindM (getNonStructuredDim lhsState) (\<lambda>d.
        bindM (rebuildAsGatherScatter rhsState rhs d) (\<lambda>rhsState'. ret (lhsState, rhsState'))))
     else
       bindM (hasModulo lhsState) (\<lambda>lm.
       bindM (getM (\<lambda>s. lm \<and> \<not> isStructured s rhsState)) (\<lambda>rebuildLhs.
       if rebuildLhs then
         thenM (requireM (enableMGS pa))
         (bindM (getNonStructuredDim rhsState) (\<lambda>d.
          bindM (rebuildAsGatherScatter lhsState lhs d) (\<lambda>lhsState'. ret (lhsState', rhsState))))
       else ret (lhsState, rhsState)))))"

definition visitOperandAdd :: "visit \<Rightarrow> ptr_analysis \<Rightarrow> val \<Rightarrow> val \<Rightarrow> ptr_state irm" where
  "visitOperandAdd visit pa lhs rhs =
     bindM (visit lhs) (\<lambda>lhsState. bindM (visit rhs) (\<lambda>rhsState.
     bindM (getRank lhsState) (\<lambda>lr.
     bindM (if lr = 1 then hasModulo lhsState else ret False) (\<lambda>lm.
     bindM (if lm then ret True else bindM (getRank rhsState) (\<lambda>rr.
         if rr = 1 then hasModulo rhsState else ret False)) (\<lambda>m.
     thenM (requireM (\<not> m))
     (bindM (reconcileModulo pa lhs rhs lhsState rhsState) (\<lambda>(lhsState', rhsState').
      thenM (assertMode pa)
      (bindM (addState lhsState' rhsState' (isAnalysisingUnstructured pa)) (\<lambda>st.
       ret (withOrigi st))))))))))"

text \<open>The right operand is negated and added; its modulo and its base pointer are not negated.\<close>

definition negateState :: "ptr_state \<Rightarrow> ptr_state irm" where
  "negateState rhsState =
     bindM (case scalar rhsState of
         None \<Rightarrow> ret None
       | Some v \<Rightarrow> bindM (createIndexConst 0) (\<lambda>z. bindM (createBin SubI z v) (\<lambda>r. ret (Some r)))) (\<lambda>sc.
     bindM (mapM (\<lambda>i.
         bindM (subOFRs index0 (offsets rhsState ! i)) (\<lambda>off.
         bindM (atM (strides rhsState) i) (\<lambda>str.
         bindM (subOFRs index0 str) (\<lambda>str'.
         bindM (atM (sizes rhsState) i) (\<lambda>sz.
         ret (off, str', sz, if i < length (shape rhsState) then shape rhsState ! i else index0))))))
       [0..<length (offsets rhsState)]) (\<lambda>dims.
     ret (emptyState\<lparr>
        offsets := map fst dims,
        strides := map (\<lambda>d. fst (snd d)) dims,
        sizes := map (\<lambda>d. fst (snd (snd d))) dims,
        shape := map (\<lambda>d. snd (snd (snd d))) dims,
        scalar := sc\<rparr>)))"

definition visitOperandSub :: "visit \<Rightarrow> ptr_analysis \<Rightarrow> val \<Rightarrow> val \<Rightarrow> ptr_state irm" where
  "visitOperandSub visit pa lhs rhs =
     bindM (visit lhs) (\<lambda>lhsState. bindM (visit rhs) (\<lambda>rhsState.
     bindM (negateState rhsState) (\<lambda>negRhs.
     bindM (addState lhsState negRhs (isAnalysisingUnstructured pa)) (\<lambda>st.
     ret (withOrigi st)))))"

definition visitOperandMul :: "visit \<Rightarrow> ptr_analysis \<Rightarrow> val \<Rightarrow> val \<Rightarrow> ptr_state irm" where
  "visitOperandMul visit pa lhs rhs =
     bindM (visit lhs) (\<lambda>lhsState. bindM (visit rhs) (\<lambda>rhsState.
     bindM (reconcileModulo pa lhs rhs lhsState rhsState) (\<lambda>(lhsState', rhsState').
     thenM (assertMode pa)
     (bindM (mulState lhsState' rhsState' (isAnalysisingUnstructured pa)) (\<lambda>st.
      ret (withOrigi st))))))"

text \<open>\<open>result\<close> is the remainder operation itself.\<close>

definition rebuildModuloAsGatherScatter ::
    "ptr_analysis \<Rightarrow> val \<Rightarrow> ptr_state \<Rightarrow> nat \<Rightarrow> ptr_state irm" where
  "rebuildModuloAsGatherScatter pa result st d =
     thenM (requireM (enableMGS pa)) (rebuildAsGatherScatter st result d)"

definition moduloDim :: "ptr_analysis \<Rightarrow> val \<Rightarrow> ptr_state \<Rightarrow> nat \<Rightarrow> val \<Rightarrow> ptr_state irm" where
  "moduloDim pa result st d md =
     bindM (attemptM (rebuildModuloAsGatherScatter pa result st d)) (\<lambda>res. case res of
       Some st' \<Rightarrow> ret (withOrigi st')
     | None \<Rightarrow> ret (withOrigi (st\<lparr>shape := (shape st)[d := Val md]\<rparr>)))"

definition visitOperandRem :: "visit \<Rightarrow> ptr_analysis \<Rightarrow> val \<Rightarrow> val \<Rightarrow> val \<Rightarrow> ptr_state irm" where
  "visitOperandRem visit pa result lhs rhs = (
     if isAnalysisingUnstructured pa then
       thenM (assertM (enableMGS pa)) (rebuildAsUnsupportedOp emptyState result)
     else
       bindM (visit rhs) (\<lambda>rhsState.
       thenM (requireM (scalar rhsState \<noteq> None))
       (bindM (castM (scalar rhsState)) (\<lambda>md.
       bindM (visit lhs) (\<lambda>st.
       bindM (getM (\<lambda>s. isStructured s st)) (\<lambda>structured.
       if \<not> structured then
         bindM (getNonStructuredDim st) (rebuildAsGatherScatter st result)
       else
         bindM (hasModulo st) (\<lambda>m.
         bindM (getRank st) (\<lambda>rank.
         if m then
           (if rank = 1 \<and> enableMGS pa then rebuildAsGatherScatter st result 0 else raise Failure)
         else if rank = 1 then moduloDim pa result st 0 md
         else if rank = 2 then
           bindM (getM (\<lambda>s. tyOf s result)) (\<lambda>t. thenM (assertM (isTensor t))
           (bindM (atM (shapeOf t) 0) (\<lambda>n0.
            if n0 = 1 then moduloDim pa result st 1 md
            else bindM (atM (shapeOf t) 1) (\<lambda>n1.
              if n1 = 1 then moduloDim pa result st 0 md else raise Failure))))
         else raise Failure))))))))"

text \<open>Extensions and comparisons are described by their (left) operand.\<close>

definition visitOperandExtSI :: "visit \<Rightarrow> val \<Rightarrow> ptr_state irm" where
  "visitOperandExtSI visit a = visit a"

definition visitOperandExtUI :: "visit \<Rightarrow> val \<Rightarrow> ptr_state irm" where
  "visitOperandExtUI visit a = visit a"

definition visitOperandCmp :: "visit \<Rightarrow> val \<Rightarrow> val \<Rightarrow> ptr_state irm" where
  "visitOperandCmp visit lhs rhs = visit lhs"

section \<open>Ranges and shapes\<close>

text \<open>\<open>start\<close> and \<open>end\<close> are unsigned 32-bit attributes; a range of size 0 would divide by zero.\<close>

definition rangeStride :: "int \<Rightarrow> int \<Rightarrow> int \<Rightarrow> int" where
  "rangeStride start stop n = (take_bit 32 (stop - start) + n - 1) div n"

definition visitOperandMakeRange :: "val \<Rightarrow> int \<Rightarrow> int \<Rightarrow> ptr_state irm" where
  "visitOperandMakeRange result start stop =
     bindM (getM (\<lambda>s. tyOf s result)) (\<lambda>t. thenM (assertM (isShaped t))
     (bindM (atM (shapeOf t) 0) (\<lambda>n.
      thenM (assertM (n \<noteq> 0 \<and> rangeStride start stop n = 1))
      (ret (emptyState\<lparr>
         offsets := [getIndexAttr start],
         origiOffsets := [getIndexAttr start],
         sizes := [getIndexAttr n],
         strides := [getIndexAttr (rangeStride start stop n)],
         shape := [getIndexAttr 0]\<rparr>)))))"

definition visitOperandExpandDims :: "visit \<Rightarrow> val \<Rightarrow> val \<Rightarrow> nat \<Rightarrow> ptr_state irm" where
  "visitOperandExpandDims visit result src axis =
     bindM (visit src) (\<lambda>st.
     bindM (getM (\<lambda>s. tyOf s result)) (\<lambda>t. thenM (assertM (isShaped t))
     (bindM (atM (shapeOf t) axis) (\<lambda>n. thenM (assertM (n = 1))
     (thenM (assertM (axis \<le> length (offsets st) \<and> axis \<le> length (sizes st)
        \<and> axis \<le> length (strides st) \<and> axis \<le> length (shape st)))
     (let st' = withOrigi (st\<lparr>
            offsets := insert_at axis (getIndexAttr 0) (offsets st),
            sizes := insert_at axis (getIndexAttr 1) (sizes st),
            strides := insert_at axis (getIndexAttr 0) (strides st),
            shape := insert_at axis (getIndexAttr 0) (shape st)\<rparr>)
      in
      bindM (hasModulo st') (\<lambda>m. bindM (if m then getRank st' else ret 0) (\<lambda>rank.
      thenM (requireM (\<not> (m \<and> rank > 2))) (ret st')))))))))"

fun broadcastSizes :: "int list \<Rightarrow> int list \<Rightarrow> nat \<Rightarrow> ofr list \<Rightarrow> ofr list irm" where
  "broadcastSizes (m # src) (n # dst) i szs =
     (if m = n then broadcastSizes src dst (Suc i) szs
      else if m < n then
        thenM (assertM (i < length szs))
          (broadcastSizes src dst (Suc i) (szs[i := getIndexAttr n]))
      else raise Abort)"
| "broadcastSizes _ _ i szs = ret szs"

definition visitOperandBroadcast :: "visit \<Rightarrow> val \<Rightarrow> val \<Rightarrow> ptr_state irm" where
  "visitOperandBroadcast visit result src =
     bindM (getM (\<lambda>s. (tyOf s src, tyOf s result))) (\<lambda>(srcTy, dstTy).
     thenM (requireM (isShaped srcTy))
     (thenM (assertM (isShaped dstTy))
     (thenM (assertM (length (shapeOf srcTy) = length (shapeOf dstTy)))
     (bindM (visit src) (\<lambda>st.
      bindM (broadcastSizes (shapeOf srcTy) (shapeOf dstTy) 0 (sizes st)) (\<lambda>szs.
      ret (withOrigi (st\<lparr>sizes := szs\<rparr>))))))))"

definition visitOperandSplat :: "visit \<Rightarrow> val \<Rightarrow> val \<Rightarrow> ptr_state irm" where
  "visitOperandSplat visit result src =
     bindM (getM (\<lambda>s. (tyOf s src, tyOf s result))) (\<lambda>(srcTy, dstTy).
     thenM (assertM (isShaped dstTy))
     (bindM (visit src) (\<lambda>st.
      thenM (requireM (isIntOrIndex srcTy \<or> isPtrTy srcTy))
      (let dst = shapeOf dstTy;
           st1 = st\<lparr>
             offsets := offsets st @ map (\<lambda>_. getIndexAttr 0) dst,
             sizes := sizes st @ map getIndexAttr dst,
             strides := strides st @ map (\<lambda>_. getIndexAttr 0) dst,
             shape := shape st @ map (\<lambda>_. getIndexAttr 0) dst\<rparr>
       in
       bindM (case scalar st1 of
           None \<Rightarrow> ret st1
         | Some v \<Rightarrow> thenM (assertM (offsets st1 \<noteq> [])) (ret (st1\<lparr>offsets := (offsets st1)[0 := Val v]\<rparr>)))
         (\<lambda>st2.
       bindM (hasModulo st2) (\<lambda>m. bindM (if m then getRank st2 else ret 0) (\<lambda>rank.
       thenM (requireM (\<not> (m \<and> rank > 2))) (ret (withOrigi st2)))))))))"

text \<open>A splat constant: a constant of index type is materialised and becomes the outermost offset.\<close>

definition visitOperandConstSplat :: "val \<Rightarrow> attr \<Rightarrow> ptr_state irm" where
  "visitOperandConstSplat result a =
     bindM (castM (case a of DenseElementsAttr e et \<Rightarrow> Some (e, et) | _ \<Rightarrow> None)) (\<lambda>(e, et).
     thenM (assertM (e \<noteq> None \<and> isIntTy et))
     (bindM (castM (case e of Some (IntegerAttr n _) \<Rightarrow> Some n | _ \<Rightarrow> None)) (\<lambda>n.
     bindM (createIndexConst n) (\<lambda>c.
     bindM (getM (\<lambda>s. tyOf s result)) (\<lambda>t. thenM (assertM (isShaped t))
     (let sh = shapeOf t;
          offs = map (\<lambda>i. if i = 0 then Val c else getIndexAttr 0) [0..<length sh]
      in ret (emptyState\<lparr>
           offsets := offs,
           origiOffsets := offs,
           sizes := map getIndexAttr sh,
           strides := map (\<lambda>_. getIndexAttr 0) sh,
           shape := map (\<lambda>_. getIndexAttr 0) sh,
           scalar := Some c\<rparr>)))))))"

section \<open>Pointers\<close>

definition visitOperandAddptr :: "visit \<Rightarrow> ptr_analysis \<Rightarrow> val \<Rightarrow> val \<Rightarrow> ptr_state irm" where
  "visitOperandAddptr visit pa ptr offset =
     bindM (visit ptr) (\<lambda>ptrState.
     bindM (visit offset) (\<lambda>offsetState.
     thenM (assertM (source ptrState \<noteq> None))
     (bindM (getRank ptrState) (\<lambda>pr. bindM (getRank offsetState) (\<lambda>offr.
      thenM (assertM (pr = offr))
      (thenM (assertMode pa)
      (bindM (addState ptrState offsetState (isAnalysisingUnstructured pa)) (\<lambda>st.
       ret (st\<lparr>origiOffsets := offsets ptrState\<rparr>)))))))))"

definition visitOperandMakeTPtr ::
    "val \<Rightarrow> int list \<Rightarrow> ofr list \<Rightarrow> ofr list \<Rightarrow> ofr list \<Rightarrow> ofr list \<Rightarrow> int list \<Rightarrow> ptr_state irm" where
  "visitOperandMakeTPtr base szs strs offs orig sh ord =
     ret \<lparr>offsets = offs, origiOffsets = orig, sizes = map getIndexAttr szs, strides = strs, shape = sh,
          order = ord, source = Some base, scalar = None\<rparr>"

text \<open>
  One dimension of \<open>tt.make_tensor_ptr\<close>: the stride, the offset, their product and the parent
  dimension, each cast to index.
\<close>

definition blockPtrDim :: "val list \<Rightarrow> val list \<Rightarrow> val list \<Rightarrow> nat \<Rightarrow> (val \<times> val \<times> val \<times> val) irm" where
  "blockPtrDim shs strs offs i =
     bindM (atM strs i) (\<lambda>str0. bindM (createIndexCast IndexTy str0) (\<lambda>strideCst.
     bindM (atM offs i) (\<lambda>off0. bindM (createIndexCast IndexTy off0) (\<lambda>offsetCst.
     bindM (createBin MulI offsetCst strideCst) (\<lambda>scaledOffset.
     bindM (atM shs i) (\<lambda>sh0. bindM (createIndexCast IndexTy sh0) (\<lambda>shapeCst.
     ret (strideCst, offsetCst, scaledOffset, shapeCst))))))))"

definition visitOperandMakeTensorPtr ::
    "val \<Rightarrow> val \<Rightarrow> val list \<Rightarrow> val list \<Rightarrow> val list \<Rightarrow> int list \<Rightarrow> ptr_state irm" where
  "visitOperandMakeTensorPtr result base shs strs offs ord =
     thenM (requireM (ord \<noteq> []))
     (bindM (getM (\<lambda>s. tyOf s result)) (\<lambda>t.
      bindM (castM (case t of PtrTy (TensorTy sh e) \<Rightarrow> Some sh | _ \<Rightarrow> None)) (\<lambda>sh.
      bindM (mapM (blockPtrDim shs strs offs) [0..<length sh]) (\<lambda>dims.
      ret \<lparr>offsets = map (\<lambda>d. Val (fst (snd (snd d)))) dims,
           origiOffsets = map (\<lambda>d. Val (fst (snd d))) dims,
           sizes = map getIndexAttr sh,
           strides = map (\<lambda>d. Val (fst d)) dims,
           shape = map (\<lambda>d. Val (snd (snd (snd d)))) dims,
           order = ord, source = Some base, scalar = None\<rparr>))))"

definition visitOperandIntToPtr :: "val \<Rightarrow> ptr_state irm" where
  "visitOperandIntToPtr result = ret (emptyState\<lparr>source := Some result\<rparr>)"

definition isPtrTypeLike :: "ty \<Rightarrow> bool" where
  "isPtrTypeLike t = (case t of TensorTy _ e \<Rightarrow> isPtrTy e | _ \<Rightarrow> isPtrTy t)"

definition visitOperandBitcast :: "visit \<Rightarrow> val \<Rightarrow> val \<Rightarrow> ptr_state irm" where
  "visitOperandBitcast visit result src =
     bindM (getM (\<lambda>s. (tyOf s src, tyOf s result))) (\<lambda>(srcTy, resTy).
     if isPtrTypeLike srcTy \<and> isPtrTypeLike resTy then visit src
     else if isShaped resTy then visit src
     else ret (emptyState\<lparr>source := Some result\<rparr>))"

definition visitOperandAlloc :: "val \<Rightarrow> int list \<Rightarrow> ptr_state irm" where
  "visitOperandAlloc result sh =
     ret (withOrigi (emptyState\<lparr>
        source := Some result,
        offsets := map (\<lambda>_. getIndexAttr 0) sh,
        sizes := map getIndexAttr sh,
        strides := map (\<lambda>_. getIndexAttr 1) sh,
        shape := map (\<lambda>_. getIndexAttr 0) sh,
        order := map int (rev [0..<length sh])\<rparr>))"

definition visitOperandSubview :: "val \<Rightarrow> val \<Rightarrow> ptr_state irm" where
  "visitOperandSubview result base =
     bindM (getM (\<lambda>s. isTensorPointerType (tyOf s result) \<and> isTensorPointerType (tyOf s base))) (\<lambda>b.
     thenM (requireM b) (ret emptyState))"

definition visitOperandSubviewPack :: "val \<Rightarrow> val \<Rightarrow> ptr_state irm" where
  "visitOperandSubviewPack result base =
     bindM (getM (\<lambda>s. isTensorPointerType (tyOf s result) \<and> isTensorPointerType (tyOf s base))) (\<lambda>b.
     thenM (requireM b) (ret emptyState))"

definition visitOperandBufferTensorViewOp :: "val \<Rightarrow> ptr_state irm" where
  "visitOperandBufferTensorViewOp result =
     bindM (getM (\<lambda>s. isTensorPointerType (tyOf s result))) (\<lambda>b.
     thenM (requireM b) (ret emptyState))"

section \<open>Loops\<close>

text \<open>
  The offsets and strides a loop carries for the pointer at position \<open>i\<close> sit at the positions after
  \<open>i\<close>; \<open>getReplacementVal\<close> picks the iteration argument or the loop result at a position.
\<close>

definition reconcileLoopPtrState :: "nat \<Rightarrow> ptr_state \<Rightarrow> (nat \<Rightarrow> val irm) \<Rightarrow> ptr_state irm" where
  "reconcileLoopPtrState iterArgIndex st getReplacementVal =
     bindM (getRank st) (\<lambda>rank.
     if rank = 0 then
       thenM (assertM (scalar st \<noteq> None))
       (bindM (getReplacementVal (iterArgIndex + 1)) (\<lambda>v. ret (st\<lparr>scalar := Some v\<rparr>)))
     else
       let c0 = iterArgIndex + 1;
           c1 = c0 + length (offsets st);
           c2 = c1 + length (origiOffsets st);
           c3 = c2 + length (strides st);
           repl = (\<lambda>k. bindM (getReplacementVal k) (\<lambda>v. ret (Val v)))
       in
       bindM (mapM repl [c0..<c1]) (\<lambda>offs.
       bindM (mapM repl [c1..<c2]) (\<lambda>orig.
       bindM (mapM repl [c2..<c3]) (\<lambda>strs.
       ret (st\<lparr>offsets := offs, origiOffsets := orig, strides := strs\<rparr>)))))"

definition forAt :: "nat \<Rightarrow> forinfo irm" where
  "forAt f = bindM (getM fors) (\<lambda>fs. atM fs f)"

definition loopResultOf :: "nat \<Rightarrow> nat \<Rightarrow> ptr_state \<Rightarrow> ptr_state irm" where
  "loopResultOf f index st =
     bindM (getM (\<lambda>s. isStructured s st)) (\<lambda>b. thenM (requireM b)
     (reconcileLoopPtrState index st (\<lambda>k. bindM (forAt f) (\<lambda>fo. atM (results fo) k))))"

text \<open>
  The state of an init argument: of the input of \<open>tts.get_structured_state\<close>, of another loop's
  result, or of an outer loop's iteration argument.  The loop that defines the argument comes before.
\<close>

function getLoopInitArgPtrState :: "ptr_analysis \<Rightarrow> nat \<Rightarrow> nat \<Rightarrow> ptr_state irm" where
  "getLoopInitArgPtrState pa f index =
     bindM (forAt f) (\<lambda>fo.
     bindM (atM (initArgs fo) index) (\<lambda>ptr.
     bindM (getM (\<lambda>s. defOp s ptr)) (\<lambda>d.
     let fallback = (case knownPtrs pa ptr of
           Some st \<Rightarrow> thenM (assertM (isBlockArg d)) (ret st)
         | None \<Rightarrow> raise Failure)
     in (case d of
       GetStructuredStateOp orig k \<Rightarrow>
         (case knownPtrs pa orig of Some st \<Rightarrow> ret st | None \<Rightarrow> fallback)
     | ForResultOp f' k \<Rightarrow>
         if f' < f then bindM (getLoopInitArgPtrState pa f' index) (loopResultOf f' index)
         else raise Abort
     | _ \<Rightarrow> fallback))))"
  by pat_completeness auto
termination
  by (relation "measure (\<lambda>(pa, f, i). f)") auto

declare getLoopInitArgPtrState.simps [simp del]

definition getLoopResultPtrState :: "ptr_analysis \<Rightarrow> nat \<Rightarrow> nat \<Rightarrow> ptr_state irm" where
  "getLoopResultPtrState pa f index = bindM (getLoopInitArgPtrState pa f index) (loopResultOf f index)"

definition getLoopIterArgPtrState :: "ptr_analysis \<Rightarrow> nat \<Rightarrow> nat \<Rightarrow> ptr_state irm" where
  "getLoopIterArgPtrState pa f index =
     bindM (getLoopInitArgPtrState pa f index) (\<lambda>st.
     bindM (getM (\<lambda>s. isStructured s st)) (\<lambda>b. thenM (requireM b)
     (reconcileLoopPtrState index st (\<lambda>k. bindM (forAt f) (\<lambda>fo. atM (iterArgs fo) k)))))"

definition visitOperandForOp :: "ptr_analysis \<Rightarrow> nat \<Rightarrow> nat \<Rightarrow> ptr_state irm" where
  "visitOperandForOp pa f index = getLoopResultPtrState pa f index"

section \<open>The dispatch\<close>

text \<open>Scalar pointers: an address computation, a cast, or a fresh source.\<close>

definition visitPointer :: "visit \<Rightarrow> ptr_analysis \<Rightarrow> val \<Rightarrow> opr \<Rightarrow> ptr_state irm" where
  "visitPointer visit pa operand d = (case d of
     BlockArg _ \<Rightarrow> ret (emptyState\<lparr>source := Some operand\<rparr>)
   | AddPtrOp p off \<Rightarrow> visitOperandAddptr visit pa p off
   | BitcastOp a \<Rightarrow> visitOperandBitcast visit operand a
   | IntToPtrOp a \<Rightarrow> visitOperandIntToPtr operand
   | MakeTensorPtrOp _ _ _ _ _ \<Rightarrow> raise Abort
   | IfResultOp \<Rightarrow> ret (emptyState\<lparr>source := Some operand\<rparr>)
   | SelectOp _ _ _ \<Rightarrow> ret (emptyState\<lparr>source := Some operand\<rparr>)
   | AllocOp sh \<Rightarrow> visitOperandAlloc operand sh
   | BufferTensorViewOp a \<Rightarrow> visitOperandBufferTensorViewOp operand
   | SubviewOp a \<Rightarrow> visitOperandSubview operand a
   | SubviewPackOp a \<Rightarrow> visitOperandSubviewPack operand a
   | _ \<Rightarrow> raise Failure)"

definition visitTensor :: "visit \<Rightarrow> ptr_analysis \<Rightarrow> val \<Rightarrow> opr \<Rightarrow> ptr_state irm" where
  "visitTensor visit pa operand d = (case d of
     BinOp AddI a b \<Rightarrow> visitOperandAdd visit pa a b
   | BinOp SubI a b \<Rightarrow> visitOperandSub visit pa a b
   | BinOp MulI a b \<Rightarrow> visitOperandMul visit pa a b
   | MakeRangeOp start stop \<Rightarrow> visitOperandMakeRange operand start stop
   | BroadcastOp a \<Rightarrow> visitOperandBroadcast visit operand a
   | SplatOp a \<Rightarrow> visitOperandSplat visit operand a
   | ExpandDimsOp a ax \<Rightarrow> visitOperandExpandDims visit operand a ax
   | AddPtrOp p off \<Rightarrow> visitOperandAddptr visit pa p off
   | ConstantOp a \<Rightarrow> visitOperandConstSplat operand a
   | BinOp RemSI a b \<Rightarrow> visitOperandRem visit pa operand a b
   | CastOp ExtSI a \<Rightarrow> visitOperandExtSI visit a
   | CastOp ExtUI a \<Rightarrow> visitOperandExtUI visit a
   | CmpIOp p a b \<Rightarrow> visitOperandCmp visit a b
   | ForResultOp f k \<Rightarrow> visitOperandForOp pa f k
   | BlockArg _ \<Rightarrow> (case knownPtrs pa operand of Some st \<Rightarrow> ret st | None \<Rightarrow> raise Failure)
   | _ \<Rightarrow> thenM (requireM (enableMGS pa)) (rebuildAsUnsupportedOp emptyState operand))"

definition visitOperandStep :: "visit \<Rightarrow> ptr_analysis \<Rightarrow> val \<Rightarrow> ptr_state irm" where
  "visitOperandStep visit pa operand =
     thenM (assertMode pa)
     (case (if isAnalysisingUnstructured pa then None else knownPtrs pa operand) of
       Some st \<Rightarrow> ret st
     | None \<Rightarrow>
       bindM (getM (\<lambda>s. (tyOf s operand, defOp s operand))) (\<lambda>(t, d).
       if isIntTy t then
         bindM (createIndexCast IndexTy operand) (\<lambda>c. ret (emptyState\<lparr>scalar := Some c\<rparr>))
       else if t = IndexTy then ret (emptyState\<lparr>scalar := Some operand\<rparr>)
       else if isPtrTy t then visitPointer visit pa operand d
       else if isTensor t \<and> isPtrTy (elemTy t) \<and> isBlockArg d \<and> ptrMap pa operand \<noteq> None then
         ret (emptyState\<lparr>source := ptrMap pa operand\<rparr>)
       else visitTensor visit pa operand d))"

function visitOperand :: "ptr_analysis \<Rightarrow> val \<Rightarrow> ptr_state irm" where
  "visitOperand pa v =
     visitOperandStep (\<lambda>u. if u < v then visitOperand pa u else raise Abort) pa v"
  by pat_completeness auto
termination
  by (relation "measure snd") auto

declare visitOperand.simps [simp del]

end
