(* ===== verification/Ptr_Lin.thy ===== *)
theory Ptr_Lin
  imports Ptr_Visit
begin

text \<open>
  What a structured \<open>PtrState\<close> means, and the correctness of \<open>addState\<close>, \<open>mulState\<close> and of the
  negation of \<open>visitOperandSub\<close> on structured states without modulo.  A state describes the
  function from an index of the tensor to the sum of its offsets and of the indices times the
  strides; equalities are modulo \<open>2 ^ 64\<close>, the width of the arithmetic that is emitted.
\<close>

section \<open>Loops that only append\<close>

lemma wp_mapM_grows:
  assumes wf: "wf_ir s"
    and step: "\<And>x s' Q. x \<in> set xs \<Longrightarrow> grows s s' \<Longrightarrow>
      (\<And>y t. grows s' t \<Longrightarrow> P x y t \<Longrightarrow> Q y t) \<Longrightarrow> wp (f x) Q s'"
    and stable: "\<And>x y t u. P x y t \<Longrightarrow> grows t u \<Longrightarrow> P x y u"
    and post: "\<And>ys t. grows s t \<Longrightarrow> length ys = length xs \<Longrightarrow>
      (\<And>i. i < length xs \<Longrightarrow> P (xs ! i) (ys ! i) t) \<Longrightarrow> Q ys t"
  shows "wp (mapM f xs) Q s"
proof (rule wp_mapM [where I = "\<lambda>ys t. grows s t \<and> (\<forall>i < length ys. P (xs ! i) (ys ! i) t)"])
  fix n ys t
  assume n: "n < length xs" "length ys = n" and I: "grows s t \<and> (\<forall>i < length ys. P (xs ! i) (ys ! i) t)"
  show "wp (f (xs ! n)) (\<lambda>y t. grows s t \<and> (\<forall>i < length (ys @ [y]). P (xs ! i) ((ys @ [y]) ! i) t)) t"
  proof (rule step)
    fix y u assume u: "grows t u" "P (xs ! n) y u"
    with I have "grows s u" using grows_trans by blast
    moreover have "P (xs ! i) ((ys @ [y]) ! i) u" if "i < length (ys @ [y])" for i
      using that u I n stable [of "xs ! i" "ys ! i" t u] by (cases "i = n") (auto simp: nth_append)
    ultimately show "grows s u \<and> (\<forall>i < length (ys @ [y]). P (xs ! i) ((ys @ [y]) ! i) u)" by blast
  qed (use n I in auto)
qed (use wf post in auto)

section \<open>Plain states\<close>

text \<open>
  A structured state without modulo: index-typed offsets and strides, a constant 0 in every
  position of \<open>shape\<close>, and not a block pointer.
\<close>

definition plain :: "ir \<Rightarrow> ptr_state \<Rightarrow> bool" where
  "plain s st \<longleftrightarrow> order st = [] \<and>
     length (sizes st) = length (offsets st) \<and> length (strides st) = length (offsets st) \<and>
     length (shape st) = length (offsets st) \<and>
     (\<forall>x \<in> set (offsets st). idx_ofr s x) \<and> (\<forall>x \<in> set (strides st). idx_ofr s x) \<and>
     (\<forall>x \<in> set (shape st). x = index0) \<and>
     (\<forall>c. scalar st = Some c \<longrightarrow> idx_ofr s (Val c))"

lemma idx_ofr_index0 [simp]: "idx_ofr s index0"
  by (simp add: index0_def idx_ofr_def in64_def)

lemma osem_index0 [simp]: "osem E s index0 = 0"
  by (simp add: index0_def)

lemma getIntAttr_index0 [simp]: "getIntAttr index0 = Some 0"
  by (simp add: index0_def getIntAttr_def)

lemma getIndexAttr_0: "getIndexAttr 0 = index0"
  by (simp add: getIndexAttr_def index0_def)

lemma idx_ofr_structured: "idx_ofr s x \<Longrightarrow> \<not> isNotStructured s x"
  by (auto simp: isNotStructured_def elim!: idx_ofr_cases)

lemma plain_grows: "grows s s' \<Longrightarrow> plain s st \<Longrightarrow> plain s' st"
  using idx_ofr_grows [of s s'] unfolding plain_def by meson

lemma plain_structured: "plain s st \<Longrightarrow> isStructured s st"
  by (auto simp: plain_def isStructured_def dest: idx_ofr_structured)

lemma plain_rank [simp]: "plain s st \<Longrightarrow> getRank st = ret (length (offsets st))"
  by (simp add: plain_def getRank_def)

lemma plain_shape: "plain s st \<Longrightarrow> i < length (offsets st) \<Longrightarrow> shape st ! i = index0"
  by (simp add: plain_def)

lemma plain_offset: "plain s st \<Longrightarrow> i < length (offsets st) \<Longrightarrow> idx_ofr s (offsets st ! i)"
  by (simp add: plain_def)

lemma plain_stride: "plain s st \<Longrightarrow> i < length (offsets st) \<Longrightarrow> idx_ofr s (strides st ! i)"
  by (simp add: plain_def)

lemma plain_scalar: "plain s st \<Longrightarrow> scalar st = Some c \<Longrightarrow> valid s c \<and> tyOf s c = IndexTy"
  by (simp add: plain_def)

lemma plain_dimHasModulo: "plain s st \<Longrightarrow> i < length (offsets st) \<Longrightarrow> dimHasModulo st i = ret False"
  unfolding dimHasModulo_def by (subst plain_rank) (auto simp: plain_shape plain_def isBlockPtr_def)

lemma plain_hasModulo: "plain s st \<Longrightarrow> hasModulo st = ret False"
  by (simp add: hasModulo_def) (subst existsM_ret [where p = "\<lambda>_. False"], simp_all add: plain_dimHasModulo)

lemma plain_dimIsStructured:
  "plain s st \<Longrightarrow> i < length (offsets st) \<Longrightarrow> wp (dimIsStructured st i) Q s \<longleftrightarrow> Q True s"
  by (simp add: dimIsStructured_def wp_simps) (simp add: plain_def idx_ofr_structured)

lemmas plain_simps = plain_hasModulo plain_dimHasModulo plain_dimIsStructured plain_structured

text \<open>The value a state describes at an index, in elements.\<close>

definition lin :: "env \<Rightarrow> ir \<Rightarrow> ptr_state \<Rightarrow> int list \<Rightarrow> int" where
  "lin E s st idx = (if offsets st = []
     then (case scalar st of None \<Rightarrow> 0 | Some c \<Rightarrow> eval E s c [])
     else sumDims (osem E s) (offsets st) (strides st) (shape st) idx)"

lemma sumDims_sum:
  assumes "length strs = length offs" "length mds = length offs" "length idx = length offs"
    and "\<And>m. m \<in> set mds \<Longrightarrow> f m = 0"
  shows "sumDims f offs strs mds idx = (\<Sum>i<length offs. f (offs ! i) + idx ! i * f (strs ! i))"
  using assms
proof (induction offs arbitrary: strs mds idx)
  case (Cons off offs)
  then obtain str strs' md mds' i idx'
    where "strs = str # strs'" "mds = md # mds'" "idx = i # idx'"
    by (metis length_0_conv list.exhaust_sel list.distinct(1))
  with Cons show ?case
    by (simp add: dimTerm_def sum.lessThan_Suc_shift del: sum.lessThan_Suc)
qed simp

lemma lin_plain:
  assumes "plain s st" "offsets st \<noteq> []" "length idx = length (offsets st)"
  shows "lin E s st idx =
    (\<Sum>i<length (offsets st). osem E s (offsets st ! i) + idx ! i * osem E s (strides st ! i))"
  using assms by (auto simp: lin_def plain_def intro!: sumDims_sum)

lemma w64_sum: "w64 (\<Sum>i\<in>A. f i) = (\<Sum>i\<in>A. w64 (f i))"
  by (induction A rule: infinite_finite_induct) (simp_all add: w64_ring)

lemma lin_grows:
  assumes "grows s s'" "plain s st" "length idx = length (offsets st)"
  shows "lin E s' st idx = lin E s st idx"
proof (cases "offsets st = []")
  case True
  then show ?thesis using assms eval_grows [OF assms(1)]
    by (auto simp: lin_def plain_def split: option.splits)
next
  case False
  have "osem E s' x = osem E s x" if "x \<in> set (offsets st) \<union> set (strides st)" for x
    using that assms(2) osem_grows [OF assms(1)] by (auto simp: plain_def)
  then show ?thesis using False assms
    by (simp add: lin_plain [OF assms(2)] lin_plain [OF plain_grows [OF assms(1,2)]])
      (use assms(2) in \<open>auto simp: plain_def intro!: sum.cong\<close>)
qed

section \<open>Addition\<close>

lemma wp_addDim:
  assumes wf: "wf_ir s" and a: "plain s a" and b: "plain s b"
    and i: "i < length (offsets a)" "i < length (offsets b)"
    and post: "\<And>y t. grows s t \<Longrightarrow> idx_ofr t (fst y) \<Longrightarrow> idx_ofr t (snd y) \<Longrightarrow>
      (\<And>E. osem E t (fst y) = wrap 64 (osem E s (offsets a ! i) + osem E s (offsets b ! i))) \<Longrightarrow>
      (\<And>E. osem E t (snd y) = wrap 64 (osem E s (strides a ! i) + osem E s (strides b ! i))) \<Longrightarrow> Q y t"
  shows "wp (addDim a b u i) Q s"
proof -
  have "wp (addOFRs (offsets a ! i) (offsets b ! i))
    (\<lambda>o1. wp (addOFRs (strides a ! i) (strides b ! i)) (\<lambda>s1. Q (o1, s1))) s"
  proof (rule add_ofr.wp_op [OF wf])
    fix r t assume r: "grows s t" "idx_ofr t r"
      "\<And>E. osem E t r = wrap 64 (osem E s (offsets a ! i) + osem E s (offsets b ! i))"
    note str = plain_stride [OF a i(1)] plain_stride [OF b i(2)]
    show "wp (addOFRs (strides a ! i) (strides b ! i)) (\<lambda>s1. Q (r, s1)) t"
      by (rule add_ofr.wp_op)
        (use r str in \<open>auto intro!: post intro: grows_trans idx_ofr_grows dest: growsD simp: osem_grows\<close>)
  qed (use a b i in \<open>simp_all add: plain_offset\<close>)
  then show ?thesis using a b i by (simp add: addDim_def wp_simps plain_simps)
qed

text \<open>Without modulo the shape of the sum is the left shape.\<close>

lemma wp_addShapes:
  assumes "plain s a" "plain s b" "length (offsets a) = n" "length (offsets b) = n" "i \<le> n"
    and "Q (drop i (shape a)) s"
  shows "wp (addShapes a b n i) Q s"
  using assms
proof (induction "n - i" arbitrary: i Q)
  case 0
  then show ?case by (subst addShapes.simps) (simp add: wp_simps plain_def)
next
  case (Suc k)
  have "wp (addShapes a b n (Suc i)) (\<lambda>rest. Q (shape a ! i # rest)) s"
    using Suc by (intro Suc.hyps(1)) (simp_all add: Cons_nth_drop_Suc plain_def)
  moreover have "i < n" using Suc by simp
  ultimately show ?case using Suc
    by (subst addShapes.simps) (simp add: wp_simps plain_simps)
qed

text \<open>The scalar of a sum.\<close>

definition addScalar :: "env \<Rightarrow> ir \<Rightarrow> nat \<Rightarrow> val option \<Rightarrow> val option \<Rightarrow> ir \<Rightarrow> val option \<Rightarrow> bool" where
  "addScalar E s rank l r t c = (case (l, r) of
     (Some a, Some b) \<Rightarrow> (\<exists>v. c = Some v \<and> eval E t v [] = wrap 64 (eval E s a [] + eval E s b []))
   | _ \<Rightarrow> c = (if rank = 0 then (if l \<noteq> None then l else r) else None))"

lemma wp_addState:
  assumes wf: "wf_ir s" and a: "plain s a" and b: "plain s b"
    and len: "length (offsets b) = length (offsets a)"
    and src: "source a = None \<or> source b = None"
    and post: "\<And>st t. grows s t \<Longrightarrow> plain t st \<Longrightarrow> length (offsets st) = length (offsets a) \<Longrightarrow>
      sizes st = sizes a \<Longrightarrow> source st = (if source a \<noteq> None then source a else source b) \<Longrightarrow>
      origiOffsets st = [] \<Longrightarrow>
      (\<And>E. addScalar E s (length (offsets a)) (scalar a) (scalar b) t (scalar st)) \<Longrightarrow>
      (\<And>E i. i < length (offsets a) \<Longrightarrow> osem E t (offsets st ! i) =
          wrap 64 (osem E s (offsets a ! i) + osem E s (offsets b ! i))) \<Longrightarrow>
      (\<And>E i. i < length (offsets a) \<Longrightarrow> osem E t (strides st ! i) =
          wrap 64 (osem E s (strides a ! i) + osem E s (strides b ! i))) \<Longrightarrow> Q st t"
  shows "wp (addState a b u) Q s"
proof -
  define so where "so = (if source a \<noteq> None then source a else source b)"
  let ?n = "length (offsets a)"
  let ?sc = "case (scalar a, scalar b) of
      (Some x, Some y) \<Rightarrow> bindM (createBin AddI x y) (\<lambda>v. ret (Some v))
    | (l, r) \<Rightarrow> ret (if ?n = 0 then (if l \<noteq> None then l else r) else None)"
  let ?P = "\<lambda>i y t. idx_ofr t (fst y) \<and> idx_ofr t (snd y) \<and>
      (\<forall>E. osem E t (fst y) = wrap 64 (osem E s (offsets a ! i) + osem E s (offsets b ! i))) \<and>
      (\<forall>E. osem E t (snd y) = wrap 64 (osem E s (strides a ! i) + osem E s (strides b ! i)))"
  let ?fin = "\<lambda>c dims sh. \<lparr>offsets = map fst dims, origiOffsets = [], sizes = sizes a,
            strides = map snd dims, shape = sh, order = [], source = so, scalar = c\<rparr>"
  have fin: "Q (?fin c dims (shape a)) t"
    if "grows s t" "length dims = ?n" "\<And>i. i < ?n \<Longrightarrow> ?P i (dims ! i) t"
      "\<And>E. addScalar E s ?n (scalar a) (scalar b) t c" "\<And>v. c = Some v \<Longrightarrow> idx_ofr t (Val v)"
    for c dims t
    using that a by (intro post) (auto simp: plain_def all_set_conv_all_nth so_def)
  have dims: "wp (mapM (addDim a b u) [0..<?n]) (\<lambda>dims. wp (addShapes a b ?n 0) (\<lambda>sh. Q (?fin c dims sh))) s1"
    if s1: "grows s s1" "\<And>E. addScalar E s ?n (scalar a) (scalar b) s1 c"
      "\<And>v. c = Some v \<Longrightarrow> idx_ofr s1 (Val v)" for c s1
  proof (rule wp_mapM_grows [where P = ?P])
    fix i s2 Q' assume i: "i \<in> set [0..<?n]" "grows s1 s2"
      and Q': "\<And>y t. grows s2 t \<Longrightarrow> ?P i y t \<Longrightarrow> Q' y t"
    from i s1 have g: "grows s s2" using grows_trans by blast
    show "wp (addDim a b u i) Q' s2"
      by (rule wp_addDim [OF growsD(2) [OF g] plain_grows [OF g a] plain_grows [OF g b]])
        (use i len Q' osem_grows [OF g] plain_offset [OF a] plain_offset [OF b]
          plain_stride [OF a] plain_stride [OF b] in auto)
  next
    fix dims t assume t: "grows s1 t" "length dims = length [0..<?n]"
      "\<And>i. i < length [0..<?n] \<Longrightarrow> ?P ([0..<?n] ! i) (dims ! i) t"
    have "addScalar E s ?n (scalar a) (scalar b) t c" for E
      using s1(2) [of E] s1(3) eval_grows [OF t(1)]
      by (auto simp: addScalar_def split: option.splits)
    then have "Q (?fin c dims (shape a)) t"
      using t s1 by (intro fin) (auto intro: grows_trans valid_grows simp: tyOf_grows)
    moreover have "grows s t" using s1(1) t(1) grows_trans by blast
    ultimately show "wp (addShapes a b ?n 0) (\<lambda>sh. Q (?fin c dims sh)) t"
      using a b len by (intro wp_addShapes) (auto intro: plain_grows)
  qed (use growsD(2) [OF s1(1)] idx_ofr_grows osem_grows in auto)
  have sc: "wp ?sc (\<lambda>c s1. grows s s1 \<and> wp (mapM (addDim a b u) [0..<?n])
      (\<lambda>dims. wp (addShapes a b ?n 0) (\<lambda>sh. Q (?fin c dims sh))) s1) s"
  proof (cases "scalar a = None \<or> scalar b = None")
    case True
    let ?c = "if ?n = 0 then (if scalar a \<noteq> None then scalar a else scalar b) else None"
    have "?sc = ret ?c" using True by (auto split: option.splits)
    moreover have "wp (mapM (addDim a b u) [0..<?n])
      (\<lambda>dims. wp (addShapes a b ?n 0) (\<lambda>sh. Q (?fin ?c dims sh))) s"
      using True wf plain_scalar [OF a] plain_scalar [OF b]
      by (intro dims) (auto simp: addScalar_def split: option.splits if_splits)
    ultimately show ?thesis using wf by (simp add: wp_ret)
  next
    case False
    then obtain x y where xy: "scalar a = Some x" "scalar b = Some y" by auto
    have "wp (createBin AddI x y) (\<lambda>v s1. grows s s1 \<and> wp (mapM (addDim a b u) [0..<?n])
      (\<lambda>dims. wp (addShapes a b ?n 0) (\<lambda>sh. Q (?fin (Some v) dims sh))) s1) s"
      by (rule wp_createBin)
        (use wf plain_scalar [OF a xy(1)] plain_scalar [OF b xy(2)] xy in
          \<open>auto intro!: dims simp: addScalar_def\<close>)
    then show ?thesis using xy by (simp add: wp_simps)
  qed
  have struct: "isStructured s1 a" if "grows s s1" for s1
    using that a plain_grows plain_structured by blast
  have "addState a b u = bindM ?sc (\<lambda>c. bindM (getM (\<lambda>s. \<not> isStructured s a \<and> \<not> isStructured s b)) (\<lambda>both.
      thenM (if both then
          bindM (getNonStructuredDim a) (\<lambda>dl. bindM (getNonStructuredDim b) (\<lambda>dr. requireM (dl = dr)))
        else ret ()) (bindM (mapM (addDim a b u) [0..<?n]) (\<lambda>dims.
      bindM (addShapes a b ?n 0) (\<lambda>sh. ret (?fin c dims sh))))))"
    using a b src len unfolding so_def by (simp add: addState_def plain_hasModulo Let_def)
  then show ?thesis
    by (simp only: wp_bindM) (rule wp_mono [OF sc], simp add: wp_simps struct)
qed

section \<open>Multiplication by a scalar\<close>

lemma wp_mulOFRs_zero:
  assumes "wf_ir s" "idx_ofr s x" "Q index0 s"
  shows "wp (mulOFRs index0 x) Q s"
proof -
  have "intAttrOrConst index0 = ret (Some 0)" by (simp add: intAttrOrConst_def index0_def getIntAttr_def)
  then show ?thesis using assms(3)
    by (simp add: mulOFRs_def wp_bindM) (rule wp_intAttrOrConst [OF assms(1,2)], simp add: wp_ret)
qed

lemma wp_mulDim:
  assumes wf: "wf_ir s" and a: "plain s a" and f: "idx_ofr s (Val f)" and i: "i < length (offsets a)"
    and post: "\<And>y t. grows s t \<Longrightarrow> idx_ofr t (fst y) \<Longrightarrow> idx_ofr t (fst (snd y)) \<Longrightarrow> snd (snd y) = index0 \<Longrightarrow>
      (\<And>E. osem E t (fst y) = wrap 64 (osem E s (offsets a ! i) * eval E s f [])) \<Longrightarrow>
      (\<And>E. osem E t (fst (snd y)) = wrap 64 (osem E s (strides a ! i) * eval E s f [])) \<Longrightarrow> Q y t"
  shows "wp (mulDim a f u i) Q s"
proof -
  have "wp (mulOFRs (offsets a ! i) (Val f)) (\<lambda>o1. wp (mulOFRs (strides a ! i) (Val f))
    (\<lambda>s1. wp (mulOFRs (shape a ! i) (Val f)) (\<lambda>h. Q (o1, s1, h)))) s"
  proof (rule mul_ofr.wp_op [OF wf])
    fix o1 t assume o1: "grows s t" "idx_ofr t o1"
      "\<And>E. osem E t o1 = wrap 64 (osem E s (offsets a ! i) * osem E s (Val f))"
    show "wp (mulOFRs (strides a ! i) (Val f)) (\<lambda>s1. wp (mulOFRs (shape a ! i) (Val f)) (\<lambda>h. Q (o1, s1, h))) t"
    proof (rule mul_ofr.wp_op)
      fix s1 t' assume s1: "grows t t'" "idx_ofr t' s1"
        "\<And>E. osem E t' s1 = wrap 64 (osem E t (strides a ! i) * osem E t (Val f))"
      have g: "grows s t'" using o1(1) s1(1) grows_trans by blast
      have "Q (o1, s1, index0) t'"
        using o1 s1 g f osem_grows [OF o1(1) f] osem_grows [OF o1(1) plain_stride [OF a i]]
        by (intro post) (auto simp: osem_grows idx_ofr_grows)
      then show "wp (mulOFRs (shape a ! i) (Val f)) (\<lambda>h. Q (o1, s1, h)) t'"
        using g f growsD(2) [OF g] idx_ofr_grows [OF g f] by (simp add: plain_shape [OF a i] wp_mulOFRs_zero)
    qed (use o1 f plain_stride [OF a i] in \<open>auto dest: growsD intro: idx_ofr_grows simp: valid_grows tyOf_grows\<close>)
  qed (use a f i in \<open>simp_all add: plain_offset\<close>)
  then show ?thesis using a i by (simp add: mulDim_def wp_simps plain_simps)
qed

text \<open>\<open>mulState\<close> scales the state that does not supply the scalar factor.\<close>

definition mulFactor :: "ptr_state \<Rightarrow> ptr_state \<Rightarrow> (ptr_state \<times> val) option" where
  "mulFactor a b = (case (scalar a, scalar b) of
     (_, Some f) \<Rightarrow> Some (a, f) | (Some f, None) \<Rightarrow> Some (b, f) | (None, None) \<Rightarrow> None)"

definition mulScalar :: "env \<Rightarrow> ir \<Rightarrow> val option \<Rightarrow> val option \<Rightarrow> ir \<Rightarrow> val option \<Rightarrow> bool" where
  "mulScalar E s l r t c = (case (l, r) of
     (Some a, Some b) \<Rightarrow> (\<exists>v. c = Some v \<and> eval E t v [] = wrap 64 (eval E s a [] * eval E s b []))
   | _ \<Rightarrow> c = None)"

lemma wp_mulState:
  assumes wf: "wf_ir s" and a: "plain s a" and b: "plain s b"
    and len: "length (offsets b) = length (offsets a)"
    and src: "source a = None \<or> source b = None"
    and fac: "mulFactor a b = Some (l, f)"
    and post: "\<And>st t. grows s t \<Longrightarrow> plain t st \<Longrightarrow> length (offsets st) = length (offsets a) \<Longrightarrow>
      sizes st = sizes l \<Longrightarrow> source st = None \<Longrightarrow> origiOffsets st = [] \<Longrightarrow>
      (\<And>E. mulScalar E s (scalar a) (scalar b) t (scalar st)) \<Longrightarrow>
      (\<And>E i. i < length (offsets a) \<Longrightarrow> osem E t (offsets st ! i) =
          wrap 64 (osem E s (offsets l ! i) * eval E s f [])) \<Longrightarrow>
      (\<And>E i. i < length (offsets a) \<Longrightarrow> osem E t (strides st ! i) =
          wrap 64 (osem E s (strides l ! i) * eval E s f [])) \<Longrightarrow> Q st t"
  shows "wp (mulState a b u) Q s"
proof -
  let ?n = "length (offsets a)"
  let ?sc = "case (scalar a, scalar b) of
      (Some x, Some y) \<Rightarrow> bindM (createBin MulI x y) (\<lambda>v. ret (Some v))
    | _ \<Rightarrow> ret None"
  let ?P = "\<lambda>i y t. idx_ofr t (fst y) \<and> idx_ofr t (fst (snd y)) \<and> snd (snd y) = index0 \<and>
      (\<forall>E. osem E t (fst y) = wrap 64 (osem E s (offsets l ! i) * eval E s f [])) \<and>
      (\<forall>E. osem E t (fst (snd y)) = wrap 64 (osem E s (strides l ! i) * eval E s f []))"
  let ?fin = "\<lambda>c dims. \<lparr>offsets = map fst dims, origiOffsets = [], sizes = sizes l,
            strides = map (\<lambda>d. fst (snd d)) dims, shape = map (\<lambda>d. snd (snd d)) dims, order = [],
            source = None, scalar = c\<rparr>"
  have l: "plain s l" "length (offsets l) = ?n" "idx_ofr s (Val f)"
    using fac a b len plain_scalar [OF a] plain_scalar [OF b]
    by (auto simp: mulFactor_def split: option.splits)
  have dims: "wp (mapM (mulDim l f u) [0..<?n]) (\<lambda>dims. Q (?fin c dims)) s1"
    if s1: "grows s s1" "\<And>E. mulScalar E s (scalar a) (scalar b) s1 c"
      "\<And>v. c = Some v \<Longrightarrow> idx_ofr s1 (Val v)" for c s1
  proof (rule wp_mapM_grows [where P = ?P])
    fix i s2 Q' assume i: "i \<in> set [0..<?n]" "grows s1 s2"
      and Q': "\<And>y t. grows s2 t \<Longrightarrow> ?P i y t \<Longrightarrow> Q' y t"
    from i s1 have g: "grows s s2" using grows_trans by blast
    show "wp (mulDim l f u i) Q' s2"
      by (rule wp_mulDim [OF growsD(2) [OF g] plain_grows [OF g l(1)] idx_ofr_grows [OF g l(3)]])
        (use i len Q' osem_grows [OF g] plain_offset [OF l(1)] plain_stride [OF l(1)] l(2,3)
          eval_grows [OF g] in auto)
  next
    fix dims t assume t: "grows s1 t" "length dims = length [0..<?n]"
      "\<And>i. i < length [0..<?n] \<Longrightarrow> ?P ([0..<?n] ! i) (dims ! i) t"
    have "mulScalar E s (scalar a) (scalar b) t c" for E
      using s1(2) [of E] s1(3) eval_grows [OF t(1)]
      by (auto simp: mulScalar_def split: option.splits)
    moreover have "grows s t" using s1(1) t(1) grows_trans by blast
    ultimately show "Q (?fin c dims) t"
      using t s1 l by (intro post)
        (auto simp: plain_def all_set_conv_all_nth tyOf_grows intro: valid_grows)
  qed (use growsD(2) [OF s1(1)] idx_ofr_grows osem_grows in auto)
  have sc: "wp ?sc (\<lambda>c s1. wp (mapM (mulDim l f u) [0..<?n]) (\<lambda>dims. Q (?fin c dims)) s1) s"
  proof (cases "scalar a = None \<or> scalar b = None")
    case True
    have "?sc = ret None" using True by (auto split: option.splits)
    moreover have "wp (mapM (mulDim l f u) [0..<?n]) (\<lambda>dims. Q (?fin None dims)) s"
      using True wf by (intro dims) (auto simp: mulScalar_def split: option.splits)
    ultimately show ?thesis by (simp add: wp_ret)
  next
    case False
    then obtain x y where xy: "scalar a = Some x" "scalar b = Some y" by auto
    have "wp (createBin MulI x y) (\<lambda>v s1. wp (mapM (mulDim l f u) [0..<?n]) (\<lambda>dims. Q (?fin (Some v) dims)) s1) s"
      by (rule wp_createBin)
        (use wf plain_scalar [OF a xy(1)] plain_scalar [OF b xy(2)] xy in
          \<open>auto intro!: dims simp: mulScalar_def\<close>)
    then show ?thesis using xy by (simp add: wp_simps)
  qed
  have sz: "length (sizes l) = ?n" using l by (simp add: plain_def)
  have "mulState a b u = bindM ?sc (\<lambda>c. bindM (mapM (mulDim l f u) [0..<?n]) (\<lambda>dims. ret (?fin c dims)))"
  proof (cases "scalar b")
    case None
    then have l: "scalar a = Some f" "l = b" using fac by (auto simp: mulFactor_def split: option.splits)
    show ?thesis unfolding mulState_def
      by (simp add: plain_rank [OF a] plain_rank [OF b] plain_hasModulo [OF a] len None l src sz [unfolded l] Let_def)
  next
    case (Some g)
    then have l: "f = g" "l = a" using fac by (auto simp: mulFactor_def split: option.splits)
    show ?thesis unfolding mulState_def
      by (simp add: plain_rank [OF a] plain_rank [OF b] plain_hasModulo [OF b] len Some l src sz [unfolded l] Let_def)
  qed
  then show ?thesis using sc by (simp only: wp_bindM wp_ret)
qed

section \<open>Negation\<close>

lemma wp_negateState:
  assumes wf: "wf_ir s" and b: "plain s b"
    and post: "\<And>st t. grows s t \<Longrightarrow> plain t st \<Longrightarrow> length (offsets st) = length (offsets b) \<Longrightarrow>
      sizes st = sizes b \<Longrightarrow> source st = None \<Longrightarrow>
      (\<And>E c. scalar b = Some c \<Longrightarrow> \<exists>v. scalar st = Some v \<and> eval E t v [] = wrap 64 (- eval E s c [])) \<Longrightarrow>
      (scalar b = None \<Longrightarrow> scalar st = None) \<Longrightarrow>
      (\<And>E i. i < length (offsets b) \<Longrightarrow> osem E t (offsets st ! i) = wrap 64 (- osem E s (offsets b ! i))) \<Longrightarrow>
      (\<And>E i. i < length (offsets b) \<Longrightarrow> osem E t (strides st ! i) = wrap 64 (- osem E s (strides b ! i))) \<Longrightarrow> Q st t"
  shows "wp (negateState b) Q s"
proof -
  let ?n = "length (offsets b)"
  let ?dim = "\<lambda>i. bindM (subOFRs index0 (offsets b ! i)) (\<lambda>off.
         bindM (atM (strides b) i) (\<lambda>str. bindM (subOFRs index0 str) (\<lambda>str'.
         bindM (atM (sizes b) i) (\<lambda>sz.
         ret (off, str', sz, if i < length (shape b) then shape b ! i else index0)))))"
  let ?P = "\<lambda>i y t. idx_ofr t (fst y) \<and> idx_ofr t (fst (snd y)) \<and> snd (snd y) = (sizes b ! i, index0) \<and>
      (\<forall>E. osem E t (fst y) = wrap 64 (- osem E s (offsets b ! i))) \<and>
      (\<forall>E. osem E t (fst (snd y)) = wrap 64 (- osem E s (strides b ! i)))"
  let ?fin = "\<lambda>c dims. emptyState\<lparr>
        offsets := map fst dims, strides := map (\<lambda>d. fst (snd d)) dims,
        sizes := map (\<lambda>d. fst (snd (snd d))) dims, shape := map (\<lambda>d. snd (snd (snd d))) dims,
        scalar := c\<rparr>"
  have len: "length (sizes b) = ?n" "length (strides b) = ?n" "length (shape b) = ?n"
    using b by (simp_all add: plain_def)
  have dim: "wp (?dim i) Q' s2"
    if i: "i < ?n" and g: "grows s s2" and Q': "\<And>y t. grows s2 t \<Longrightarrow> ?P i y t \<Longrightarrow> Q' y t" for i s2 Q'
  proof -
    have "wp (subOFRs index0 (offsets b ! i)) (\<lambda>off. wp (subOFRs index0 (strides b ! i))
        (\<lambda>str'. Q' (off, str', sizes b ! i, index0))) s2"
    proof (rule sub_ofr.wp_op [OF growsD(2) [OF g]])
      fix o1 t assume o1: "grows s2 t" "idx_ofr t o1"
        "\<And>E. osem E t o1 = wrap 64 (osem E s2 index0 - osem E s2 (offsets b ! i))"
      have gt: "grows s t" using g o1(1) grows_trans by blast
      show "wp (subOFRs index0 (strides b ! i)) (\<lambda>str'. Q' (o1, str', sizes b ! i, index0)) t"
        by (rule sub_ofr.wp_op [OF growsD(2) [OF gt]])
          (use o1 plain_offset [OF b i] plain_stride [OF b i] osem_grows [OF gt] osem_grows [OF g] idx_ofr_grows [OF gt]
            in \<open>auto intro!: Q' intro: grows_trans idx_ofr_grows simp: osem_grows\<close>)
    qed (use plain_offset [OF b i] idx_ofr_grows [OF g] in simp_all)
    then show ?thesis using i len plain_shape [OF b i] by (simp add: wp_simps)
  qed
  have dims: "wp (mapM ?dim [0..<?n]) (\<lambda>dims. Q (?fin c dims)) s1"
    if s1: "grows s s1"
      "\<And>E x. scalar b = Some x \<Longrightarrow> \<exists>v. c = Some v \<and> eval E s1 v [] = wrap 64 (- eval E s x [])"
      "scalar b = None \<Longrightarrow> c = None" "\<And>v. c = Some v \<Longrightarrow> idx_ofr s1 (Val v)" for c s1
  proof (rule wp_mapM_grows [where P = ?P])
    fix i s2 Q' assume "i \<in> set [0..<?n]" "grows s1 s2" "\<And>y t. grows s2 t \<Longrightarrow> ?P i y t \<Longrightarrow> Q' y t"
    then show "wp (?dim i) Q' s2" using s1(1) grows_trans by (intro dim) auto
  next
    fix dims t assume t: "grows s1 t" "length dims = length [0..<?n]"
      "\<And>i. i < length [0..<?n] \<Longrightarrow> ?P ([0..<?n] ! i) (dims ! i) t"
    have "\<exists>v. c = Some v \<and> eval E t v [] = wrap 64 (- eval E s x [])" if "scalar b = Some x" for E x
      using s1(2) [OF that, of E] s1(4) eval_grows [OF t(1)] by auto
    moreover have "grows s t" using s1(1) t(1) grows_trans by blast
    moreover have "map (\<lambda>d. fst (snd (snd d))) dims = sizes b"
      using t(2,3) len by (intro nth_equalityI) auto
    ultimately show "Q (?fin c dims) t"
      using t s1(3,4) len by (intro post)
        (auto simp: plain_def emptyState_def all_set_conv_all_nth tyOf_grows intro: valid_grows)
  qed (use growsD(2) [OF s1(1)] idx_ofr_grows osem_grows in auto)
  show ?thesis
  proof (cases "scalar b")
    case None
    then show ?thesis using dims [of s None] wf unfolding negateState_def by (simp add: wp_bindM wp_ret)
  next
    case (Some c)
    have c: "valid s c" "tyOf s c = IndexTy" using plain_scalar [OF b Some] by auto
    have "wp (createIndexConst 0) (\<lambda>z. wp (createBin SubI z c) (\<lambda>v. wp (mapM ?dim [0..<?n]) (\<lambda>dims. Q (?fin (Some v) dims)))) s"
    proof (rule wp_createIndexConst [OF wf])
      fix z t assume z: "grows s t" "valid t z" "tyOf t z = IndexTy" "\<And>E idx. eval E t z idx = wrap 64 0"
      show "wp (createBin SubI z c) (\<lambda>v. wp (mapM ?dim [0..<?n]) (\<lambda>dims. Q (?fin (Some v) dims))) t"
      proof (rule wp_createBin)
        fix v s' assume v: "grows t s'" "valid s' v" "tyOf s' v = tyOf t z"
          "\<And>E idx. eval E s' v idx = norm (tyOf t z) (binSem SubI (eval E t z idx) (eval E t c idx))"
        show "wp (mapM ?dim [0..<?n]) (\<lambda>dims. Q (?fin (Some v) dims)) s'"
          by (rule dims) (use Some c v z eval_grows [OF z(1)] in \<open>auto intro: grows_trans\<close>)
      qed (use z c in \<open>auto dest: growsD intro: valid_grows\<close>)
    qed
    then show ?thesis using Some by (simp add: negateState_def wp_bindM wp_ret)
  qed
qed

end
