(* ===== verification/Ptr_Sound.thy ===== *)
theory Ptr_Sound
  imports Ptr_Lin OFR_Sound
begin

text \<open>
  The correctness of \<open>PtrAnalysis::visitOperand\<close>: on terms built from the operations the analysis
  decomposes, it returns, and the state it returns describes the value of the term at every index
  of its tensor.
\<close>

section \<open>What a state describes\<close>

definition inB :: "int list \<Rightarrow> int list \<Rightarrow> bool" where
  "inB sh idx \<longleftrightarrow> list_all2 (\<lambda>n i. 0 \<le> i \<and> i < n) sh idx"

definition addrVal :: "env \<Rightarrow> ir \<Rightarrow> ptr_state \<Rightarrow> int list \<Rightarrow> 64 word" where
  "addrVal E s st idx = (case source st of
     None \<Rightarrow> w64 (lin E s st idx)
   | Some b \<Rightarrow> w64 (eval E s b []) + w64 (byteSize (pointee (tyOf s b))) * w64 (lin E s st idx))"

text \<open>The chain of operations below a value passes a bitcast that changes the pointee.\<close>

inductive viaCast :: "ir \<Rightarrow> val \<Rightarrow> bool" for s where
  cast: "valid s v \<Longrightarrow> defOp s v = BitcastOp a \<Longrightarrow> pointee (tyOf s v) \<noteq> pointee (tyOf s a) \<Longrightarrow> viaCast s v"
| operand: "valid s v \<Longrightarrow> a \<in> operands (defOp s v) \<Longrightarrow> viaCast s a \<Longrightarrow> viaCast s v"

definition keepsPointee :: "ir \<Rightarrow> val \<Rightarrow> val \<Rightarrow> bool" where
  "keepsPointee s v b \<longleftrightarrow> byteSize (pointee (tyOf s b)) = byteSize (pointee (tyOf s v)) \<and>
     (pointee (tyOf s b) = pointee (tyOf s v) \<or> viaCast s v)"

lemma keepsPointee_refl [simp]: "keepsPointee s v v"
  by (simp add: keepsPointee_def)

lemma viaCast_valid: "viaCast s v \<Longrightarrow> valid s v"
  by (induction rule: viaCast.induct)

lemma viaCast_back:
  assumes "viaCast t v" "grows s t" "wf_ir s" "valid s v"
  shows "viaCast s v"
  using assms(1,4)
proof (induction rule: viaCast.induct)
  case (cast v a)
  then have "valid s a" using wf_operand_valid [OF assms(3), of v a] defOp_grows [OF assms(2)] by simp
  then show ?case using cast defOp_grows [OF assms(2)] tyOf_grows [OF assms(2)] by (auto intro: viaCast.cast)
next
  case (operand v a)
  then have "a \<in> operands (defOp s v)" using defOp_grows [OF assms(2)] by simp
  then show ?case using operand wf_operand_valid [OF assms(3)] by (blast intro: viaCast.operand)
qed

text \<open>
  The state \<open>st\<close> describes \<open>v\<close>: its sizes are the shape of \<open>v\<close>, it has a source exactly when \<open>v\<close>
  consists of pointers, a dimension of size 1 has stride 0, the scalar is the value of every
  element, and the strided address is the value of \<open>v\<close> at every index of its tensor.
\<close>

definition describes :: "env \<Rightarrow> ir \<Rightarrow> val \<Rightarrow> ptr_state \<Rightarrow> bool" where
  "describes E s v st \<longleftrightarrow> plain s st \<and> sizes st = map getIndexAttr (shapeOf (tyOf s v)) \<and>
     (source st = None \<longleftrightarrow> \<not> isPtrTy (elemTy (tyOf s v))) \<and>
     (\<forall>b. source st = Some b \<longrightarrow> valid s b \<and> isPtrTy (tyOf s b) \<and> \<not> isTensorPointerType (tyOf s b) \<and>
        keepsPointee s v b) \<and>
     (\<forall>i < length (offsets st). shapeOf (tyOf s v) ! i = 1 \<longrightarrow> w64 (osem E s (strides st ! i)) = 0) \<and>
     (\<forall>c idx. scalar st = Some c \<longrightarrow> inB (shapeOf (tyOf s v)) idx \<longrightarrow>
        w64 (lin E s st idx) = w64 (eval E s c [])) \<and>
     (\<forall>idx. inB (shapeOf (tyOf s v)) idx \<longrightarrow> w64 (eval E s v idx) = addrVal E s st idx)"

lemma grows_wf: "grows s t \<Longrightarrow> wf_ir s"
  by (auto simp: grows_def ext_def wf_ir_def nth_append split: if_splits)

lemma viaCast_grows:
  assumes "viaCast s v" "grows s t"
  shows "viaCast t v"
  using assms(1)
proof (induction rule: viaCast.induct)
  case (cast v a)
  then have "valid s a" using wf_operand_valid [OF grows_wf [OF assms(2)], of v a] by simp
  then show ?case
    using cast valid_grows [OF assms(2)] defOp_grows [OF assms(2)] tyOf_grows [OF assms(2)] by (auto intro: viaCast.cast)
next
  case (operand v a)
  then show ?case
    using valid_grows [OF assms(2)] defOp_grows [OF assms(2)] by (auto intro: viaCast.operand)
qed

lemma keepsPointee_grows:
  assumes "grows s t" "valid s v" "valid s b" "keepsPointee s v b"
  shows "keepsPointee t v b"
  using assms tyOf_grows [OF assms(1)] viaCast_grows [OF _ assms(1)] by (auto simp: keepsPointee_def)

lemma inB_length: "inB sh idx \<Longrightarrow> length idx = length sh"
  by (auto simp: inB_def dest: list_all2_lengthD)

lemma inB_Nil [simp]: "inB [] idx \<longleftrightarrow> idx = []"
  by (simp add: inB_def)

lemma describes_rank: "describes E s v st \<Longrightarrow> length (offsets st) = length (shapeOf (tyOf s v))"
  by (metis describes_def plain_def length_map)

lemma describes_plain: "describes E s v st \<Longrightarrow> plain s st"
  by (simp add: describes_def)

lemma describes_grows:
  assumes "grows s t" "valid s v" "describes E s v st"
  shows "describes E t v st"
proof -
  note p = describes_plain [OF assms(3)] and r = describes_rank [OF assms(3)]
  have l: "lin E t st idx = lin E s st idx" if "inB (shapeOf (tyOf s v)) idx" for idx
    using lin_grows [OF assms(1) p] r inB_length [OF that] by simp
  have b: "valid t b \<and> tyOf t b = tyOf s b \<and> eval E t b [] = eval E s b []" if "source st = Some b" for b
    using that assms valid_grows tyOf_grows eval_grows by (auto simp: describes_def)
  have a: "addrVal E t st idx = addrVal E s st idx" if "inB (shapeOf (tyOf s v)) idx" for idx
    using l [OF that] b by (simp add: addrVal_def split: option.splits)
  have "w64 (osem E t (strides st ! i)) = w64 (osem E s (strides st ! i))" if "i < length (offsets st)" for i
    using osem_grows [OF assms(1) plain_stride [OF p that]] by simp
  then show ?thesis
    using assms l a b plain_grows [OF assms(1) p] plain_scalar [OF p] keepsPointee_grows [OF assms(1,2)]
    by (auto simp: describes_def tyOf_grows eval_grows)
qed

lemma lin_w64:
  assumes "plain s st" "offsets st \<noteq> []" "length idx = length (offsets st)"
  shows "w64 (lin E s st idx) = (\<Sum>i<length (offsets st).
    w64 (osem E s (offsets st ! i)) + w64 (idx ! i) * w64 (osem E s (strides st ! i)))"
  by (simp add: lin_plain [OF assms] w64_sum w64_ring)

lemma lin_rank0: "offsets st = [] \<Longrightarrow> lin E s st idx = (case scalar st of None \<Rightarrow> 0 | Some c \<Rightarrow> eval E s c [])"
  by (simp add: lin_def)

section \<open>The operations on states\<close>

text \<open>A computation that leaves a description of \<open>v\<close> behind, on every table that extends \<open>s\<close>.\<close>

definition computes :: "env \<Rightarrow> ir \<Rightarrow> ptr_state irm \<Rightarrow> val \<Rightarrow> bool \<Rightarrow> bool" where
  "computes E s m v sc \<longleftrightarrow> (\<forall>s1. grows s s1 \<longrightarrow>
     wp m (\<lambda>st t. grows s1 t \<and> describes E t v st \<and> (sc \<longrightarrow> scalar st \<noteq> None)) s1)"

lemma computesI:
  assumes "\<And>s1. grows s s1 \<Longrightarrow>
    wp m (\<lambda>st t. grows s1 t \<and> describes E t v st \<and> (sc \<longrightarrow> scalar st \<noteq> None)) s1"
  shows "computes E s m v sc"
  using assms by (simp add: computes_def)

lemma wp_computes:
  assumes "computes E s m v sc" "grows s s1"
    and "\<And>st t. grows s1 t \<Longrightarrow> grows s t \<Longrightarrow> describes E t v st \<Longrightarrow> (sc \<Longrightarrow> scalar st \<noteq> None) \<Longrightarrow> Q st t"
  shows "wp m Q s1"
  using assms unfolding computes_def by (blast intro: wp_mono grows_trans)

text \<open>Two visits in a row, the first description carried over the second.\<close>

lemma wp_computes2:
  assumes "computes E s m a sa" "computes E s n b sb" "grows s s1" "valid s a"
    and "\<And>x y t. grows s1 t \<Longrightarrow> grows s t \<Longrightarrow> describes E t a x \<Longrightarrow> describes E t b y \<Longrightarrow>
      (sa \<Longrightarrow> scalar x \<noteq> None) \<Longrightarrow> (sb \<Longrightarrow> scalar y \<noteq> None) \<Longrightarrow> Q x y t"
  shows "wp m (\<lambda>x. wp n (Q x)) s1"
proof (rule wp_computes [OF assms(1,3)])
  fix x t assume x: "grows s1 t" "grows s t" "describes E t a x" "sa \<Longrightarrow> scalar x \<noteq> None"
  show "wp n (Q x) t"
  proof (rule wp_computes [OF assms(2) x(2)])
    fix y u assume "grows t u" "grows s u" "describes E u b y" "sb \<Longrightarrow> scalar y \<noteq> None"
    then show "Q x y u"
      using x valid_grows [OF x(2) assms(4)] by (intro assms(5)) (auto intro: grows_trans describes_grows)
  qed
qed

lemma describes_withOrigi [simp]: "describes E s v (withOrigi st) = describes E s v st"
  "describes E s v (st\<lparr>origiOffsets := os\<rparr>) = describes E s v st"
  by (simp_all add: withOrigi_def describes_def plain_def addrVal_def lin_def cong: option.case_cong)

lemma scalar_withOrigi [simp]: "scalar (withOrigi st) = scalar st"
  by (simp add: withOrigi_def)

text \<open>A sum of states is a sum of values.\<close>

lemma lin_sum:
  assumes p: "plain s a" "plain s b" "plain t st"
    and len: "length (offsets b) = length (offsets a)" "length (offsets st) = length (offsets a)"
    and sc: "addScalar E s (length (offsets a)) (scalar a) (scalar b) t (scalar st)"
    and g: "grows s t"
    and off: "\<And>i. i < length (offsets a) \<Longrightarrow> osem E t (offsets st ! i) =
          wrap 64 (osem E s (offsets a ! i) + osem E s (offsets b ! i))"
    and str: "\<And>i. i < length (offsets a) \<Longrightarrow> osem E t (strides st ! i) =
          wrap 64 (osem E s (strides a ! i) + osem E s (strides b ! i))"
    and idx: "length idx = length (offsets a)"
  shows "w64 (lin E t st idx) = w64 (lin E s a idx) + w64 (lin E s b idx)"
proof (cases "offsets a = []")
  case True
  then have "offsets b = []" "offsets st = []" using len by simp_all
  then show ?thesis
    using True sc plain_scalar [OF p(1)] plain_scalar [OF p(2)] eval_grows [OF g]
    by (auto simp: lin_rank0 addScalar_def w64_ring split: option.splits)
next
  case False
  then have ne: "offsets b \<noteq> []" "offsets st \<noteq> []" using len by auto
  show ?thesis
    using lin_w64 [OF p(1) False, of idx E] lin_w64 [OF p(2) ne(1), of idx E] lin_w64 [OF p(3) ne(2), of idx E]
      idx len off str
    by (simp add: w64_ring algebra_simps sum.distrib)
qed

lemma addScalar_some:
  "addScalar E s n (Some x) (Some y) t c \<Longrightarrow> \<exists>v. c = Some v \<and> w64 (eval E t v []) = w64 (eval E s x []) + w64 (eval E s y [])"
  by (auto simp: addScalar_def w64_ring)

text \<open>A state without a source whose value is its strided sum; the negated operand of a subtraction.\<close>

definition offsetState :: "env \<Rightarrow> ir \<Rightarrow> int list \<Rightarrow> ptr_state \<Rightarrow> bool" where
  "offsetState E s sh st \<longleftrightarrow> plain s st \<and> length (offsets st) = length sh \<and> source st = None \<and>
     (\<forall>i < length (offsets st). sh ! i = 1 \<longrightarrow> w64 (osem E s (strides st ! i)) = 0) \<and>
     (\<forall>c idx. scalar st = Some c \<longrightarrow> inB sh idx \<longrightarrow> w64 (lin E s st idx) = w64 (eval E s c []))"

lemma describes_offsetState:
  "describes E s v st \<Longrightarrow> \<not> isPtrTy (elemTy (tyOf s v)) \<Longrightarrow> offsetState E s (shapeOf (tyOf s v)) st"
  using describes_rank [of E s v st] unfolding describes_def offsetState_def by blast

lemma describes_int_value:
  "describes E s v st \<Longrightarrow> \<not> isPtrTy (elemTy (tyOf s v)) \<Longrightarrow> inB (shapeOf (tyOf s v)) idx \<Longrightarrow>
   w64 (lin E s st idx) = w64 (eval E s v idx)"
  by (simp add: describes_def addrVal_def)

text \<open>A value that inherits the source of one of its operands.\<close>

definition inherits :: "ir \<Rightarrow> val \<Rightarrow> val \<Rightarrow> bool" where
  "inherits s v a \<longleftrightarrow> keepsPointee s v a \<and> (viaCast s a \<longrightarrow> viaCast s v)"

lemma inherits_same: "pointee (tyOf s v) = pointee (tyOf s a) \<Longrightarrow> valid s v \<Longrightarrow> a \<in> operands (defOp s v) \<Longrightarrow> inherits s v a"
  by (auto simp: inherits_def keepsPointee_def intro: viaCast.operand)

lemma inherits_bitcast:
  "byteSize (pointee (tyOf s v)) = byteSize (pointee (tyOf s a)) \<Longrightarrow> valid s v \<Longrightarrow> defOp s v = BitcastOp a \<Longrightarrow> inherits s v a"
  by (auto simp: inherits_def keepsPointee_def intro: viaCast.intros)

lemma inherits_keepsPointee: "inherits s v a \<Longrightarrow> keepsPointee s a b \<Longrightarrow> keepsPointee s v b"
  by (auto simp: inherits_def keepsPointee_def)

definition elemBytes :: "ty \<Rightarrow> 64 word" where
  "elemBytes t = (if isPtrTy (elemTy t) then w64 (byteSize (pointee t)) else 1)"

lemma wp_addState_describes:
  assumes wf: "wf_ir s" and v: "valid s v" and x: "describes E s a x"
    and sh: "shapeOf (tyOf s v) = shapeOf (tyOf s a)"
    and ty: "isPtrTy (elemTy (tyOf s v)) = isPtrTy (elemTy (tyOf s a))"
      "isPtrTy (elemTy (tyOf s a)) \<Longrightarrow> inherits s v a"
    and y: "offsetState E s (shapeOf (tyOf s a)) y"
    and val: "\<And>idx. inB (shapeOf (tyOf s a)) idx \<Longrightarrow>
      w64 (eval E s v idx) = w64 (eval E s a idx) + elemBytes (tyOf s a) * w64 (lin E s y idx)"
    and post: "\<And>st t. grows s t \<Longrightarrow> describes E t v st \<Longrightarrow>
      (scalar x \<noteq> None \<and> scalar y \<noteq> None \<or>
        shapeOf (tyOf s a) = [] \<and> (scalar x \<noteq> None \<or> scalar y \<noteq> None) \<Longrightarrow> scalar st \<noteq> None) \<Longrightarrow> Q st t"
  shows "wp (addState x y u) Q s"
proof -
  note px = describes_plain [OF x] and rx = describes_rank [OF x]
  have py: "plain s y" and ry: "length (offsets y) = length (offsets x)" and sy: "source y = None"
    using y rx by (simp_all add: offsetState_def)
  show ?thesis
  proof (rule wp_addState [OF wf px py ry])
    fix st t
    assume g: "grows s t" and p: "plain t st" and n: "length (offsets st) = length (offsets x)"
      and sz: "sizes st = sizes x" and src: "source st = (if source x \<noteq> None then source x else source y)"
      and sc: "\<And>E. addScalar E s (length (offsets x)) (scalar x) (scalar y) t (scalar st)"
      and off: "\<And>E i. i < length (offsets x) \<Longrightarrow> osem E t (offsets st ! i) =
          wrap 64 (osem E s (offsets x ! i) + osem E s (offsets y ! i))"
      and str: "\<And>E i. i < length (offsets x) \<Longrightarrow> osem E t (strides st ! i) =
          wrap 64 (osem E s (strides x ! i) + osem E s (strides y ! i))"
    have tv: "tyOf t v = tyOf s v" "eval E t v = eval E s v" using tyOf_grows [OF g v] eval_grows [OF g v] by auto
    have sum: "w64 (lin E t st idx) = w64 (lin E s x idx) + w64 (lin E s y idx)"
      if "inB (shapeOf (tyOf s a)) idx" for idx
      by (rule lin_sum [OF px py p ry n sc g off str]) (use inB_length [OF that] rx in auto)
    have src': "source st = source x" using src sy by simp
    have b: "valid s b" "isPtrTy (tyOf s b)" "byteSize (pointee (tyOf s b)) = byteSize (pointee (tyOf s a))"
        "isPtrTy (elemTy (tyOf s a))" "\<not> isTensorPointerType (tyOf s b)" "keepsPointee t v b"
      if "source x = Some b" for b
    proof -
      show 1: "valid s b" "isPtrTy (tyOf s b)" "isPtrTy (elemTy (tyOf s a))" "\<not> isTensorPointerType (tyOf s b)"
        and 2: "byteSize (pointee (tyOf s b)) = byteSize (pointee (tyOf s a))"
        using that x by (auto simp: describes_def keepsPointee_def)
      have "keepsPointee s v b"
        using that x inherits_keepsPointee [OF ty(2) [OF 1(3)], of b] by (simp add: describes_def)
      then show "keepsPointee t v b" by (rule keepsPointee_grows [OF g v 1(1)])
    qed
    have addr: "w64 (eval E s v idx) = addrVal E t st idx" if i: "inB (shapeOf (tyOf s a)) idx" for idx
    proof -
      have "w64 (eval E s a idx) = addrVal E s x idx" using x i by (simp add: describes_def)
      then show ?thesis
        using val [OF i] sum [OF i] src' b x tyOf_grows [OF g] eval_grows [OF g]
        by (cases "source x") (auto simp: addrVal_def elemBytes_def describes_def algebra_simps)
    qed
    have flat: "w64 (osem E t (strides st ! i)) = 0"
      if "i < length (offsets st)" "shapeOf (tyOf s a) ! i = 1" for i
      using that n str [of i E] x y ry by (simp add: w64_ring describes_def offsetState_def)
    have uni: "w64 (lin E t st idx) = w64 (eval E t c [])"
      if c: "scalar st = Some c" and i: "inB (shapeOf (tyOf s a)) idx" for c idx
    proof (cases "scalar x = None \<or> scalar y = None")
      case True
      then have "shapeOf (tyOf s a) = []" using sc [of E] c rx
        by (auto simp: addScalar_def split: option.splits if_splits)
      then show ?thesis using c n rx i by (simp add: lin_rank0)
    next
      case False
      then obtain cx cy where xy: "scalar x = Some cx" "scalar y = Some cy" by auto
      have "w64 (lin E s x idx) = w64 (eval E s cx [])" using x xy(1) i by (simp add: describes_def)
      moreover have "w64 (lin E s y idx) = w64 (eval E s cy [])" using y xy(2) i by (simp add: offsetState_def)
      ultimately show ?thesis
        using sum [OF i] addScalar_some [OF sc [of E, unfolded xy]] c by auto
    qed
    have "describes E t v st"
      unfolding describes_def tv sh
      using p sz x src' b ty flat uni addr valid_grows [OF g] tyOf_grows [OF g]
      by (auto simp: describes_def)
    then show "Q st t"
      using g sc [of E] rx by (intro post) (auto simp: addScalar_def split: option.splits if_splits)
  qed (use sy in simp)
qed

text \<open>The negated operand.\<close>

lemma lin_neg:
  assumes p: "plain s b" "plain t st" and len: "length (offsets st) = length (offsets b)"
    and sc: "\<And>c. scalar b = Some c \<Longrightarrow> \<exists>v. scalar st = Some v \<and> eval E t v [] = wrap 64 (- eval E s c [])"
      "scalar b = None \<Longrightarrow> scalar st = None"
    and off: "\<And>i. i < length (offsets b) \<Longrightarrow> osem E t (offsets st ! i) = wrap 64 (- osem E s (offsets b ! i))"
    and str: "\<And>i. i < length (offsets b) \<Longrightarrow> osem E t (strides st ! i) = wrap 64 (- osem E s (strides b ! i))"
    and idx: "length idx = length (offsets b)"
  shows "w64 (lin E t st idx) = - w64 (lin E s b idx)"
proof (cases "offsets b = []")
  case True
  then have "offsets st = []" using len by simp
  then show ?thesis using True sc by (auto simp: lin_rank0 w64_ring split: option.splits)
next
  case False
  then have ne: "offsets st \<noteq> []" using len by auto
  show ?thesis
    using lin_w64 [OF p(1) False, of idx E] lin_w64 [OF p(2) ne, of idx E] idx len off str
    by (simp add: w64_ring sum_negf [symmetric])
qed

lemma wp_negate_describes:
  assumes wf: "wf_ir s" and y: "describes E s b y" and ty: "\<not> isPtrTy (elemTy (tyOf s b))"
    and post: "\<And>st t. grows s t \<Longrightarrow> offsetState E t (shapeOf (tyOf s b)) st \<Longrightarrow>
      (\<And>idx. inB (shapeOf (tyOf s b)) idx \<Longrightarrow> w64 (lin E t st idx) = - w64 (eval E s b idx)) \<Longrightarrow>
      (scalar y \<noteq> None \<Longrightarrow> scalar st \<noteq> None) \<Longrightarrow> Q st t"
  shows "wp (negateState y) Q s"
proof (rule wp_negateState [OF wf describes_plain [OF y]])
  fix st t
  assume g: "grows s t" and p: "plain t st" and n: "length (offsets st) = length (offsets y)"
    and src: "source st = None"
    and sc: "\<And>E c. scalar y = Some c \<Longrightarrow> \<exists>v. scalar st = Some v \<and> eval E t v [] = wrap 64 (- eval E s c [])"
    and scN: "scalar y = None \<Longrightarrow> scalar st = None"
    and off: "\<And>E i. i < length (offsets y) \<Longrightarrow> osem E t (offsets st ! i) = wrap 64 (- osem E s (offsets y ! i))"
    and str: "\<And>E i. i < length (offsets y) \<Longrightarrow> osem E t (strides st ! i) = wrap 64 (- osem E s (strides y ! i))"
  note ry = describes_rank [OF y]
  have neg: "w64 (lin E t st idx) = - w64 (lin E s y idx)" if "inB (shapeOf (tyOf s b)) idx" for idx
    by (rule lin_neg [OF describes_plain [OF y] p n sc scN off str]) (use inB_length [OF that] ry in auto)
  have "w64 (osem E t (strides st ! i)) = 0" if "i < length (offsets st)" "shapeOf (tyOf s b) ! i = 1" for i
    using that n str [of i E] y by (simp add: w64_ring describes_def)
  moreover have "w64 (lin E t st idx) = w64 (eval E t c [])"
    if c: "scalar st = Some c" and i: "inB (shapeOf (tyOf s b)) idx" for c idx
  proof -
    obtain d where d: "scalar y = Some d" using scN c by (cases "scalar y") auto
    then have "w64 (lin E s y idx) = w64 (eval E s d [])" using y i by (simp add: describes_def)
    then show ?thesis using neg [OF i] sc [OF d, of E] c by (auto simp: w64_ring)
  qed
  ultimately have "offsetState E t (shapeOf (tyOf s b)) st"
    using p n ry src by (simp add: offsetState_def)
  then show "Q st t"
    using g neg describes_int_value [OF y ty] sc [of _ E] by (intro post) auto
qed

text \<open>A product with a uniform factor.\<close>

lemma wp_mulState_describes:
  assumes wf: "wf_ir s" and v: "valid s v" and x: "describes E s a x" and y: "describes E s b y"
    and sh: "shapeOf (tyOf s a) = shapeOf (tyOf s v)" "shapeOf (tyOf s b) = shapeOf (tyOf s v)" "shapeOf (tyOf s v) \<noteq> []"
    and ty: "\<not> isPtrTy (elemTy (tyOf s a))" "\<not> isPtrTy (elemTy (tyOf s b))" "\<not> isPtrTy (elemTy (tyOf s v))"
    and fac: "scalar x \<noteq> None \<or> scalar y \<noteq> None"
    and val: "\<And>idx. inB (shapeOf (tyOf s v)) idx \<Longrightarrow> w64 (eval E s v idx) = w64 (eval E s a idx) * w64 (eval E s b idx)"
    and post: "\<And>st t. grows s t \<Longrightarrow> describes E t v st \<Longrightarrow>
      (scalar x \<noteq> None \<and> scalar y \<noteq> None \<Longrightarrow> scalar st \<noteq> None) \<Longrightarrow> Q st t"
  shows "wp (mulState x y u) Q s"
proof -
  let ?sh = "shapeOf (tyOf s v)"
  note px = describes_plain [OF x] and rx = describes_rank [OF x, unfolded sh]
  note py = describes_plain [OF y] and ry = describes_rank [OF y, unfolded sh]
  obtain l f where lf: "mulFactor x y = Some (l, f)"
    using fac by (cases "scalar x"; cases "scalar y") (auto simp: mulFactor_def)
  have parts: "sizes x = map getIndexAttr ?sh" "sizes y = map getIndexAttr ?sh"
      "\<And>i. i < length ?sh \<Longrightarrow> ?sh ! i = 1 \<Longrightarrow> w64 (osem E s (strides x ! i)) = 0"
      "\<And>i. i < length ?sh \<Longrightarrow> ?sh ! i = 1 \<Longrightarrow> w64 (osem E s (strides y ! i)) = 0"
      "\<And>c idx. scalar x = Some c \<Longrightarrow> inB ?sh idx \<Longrightarrow> w64 (lin E s x idx) = w64 (eval E s c [])"
      "\<And>c idx. scalar y = Some c \<Longrightarrow> inB ?sh idx \<Longrightarrow> w64 (lin E s y idx) = w64 (eval E s c [])"
    using x y rx ry unfolding describes_def sh by simp_all
  have lin': "w64 (lin E s x idx) = w64 (eval E s a idx)" "w64 (lin E s y idx) = w64 (eval E s b idx)"
    if "inB ?sh idx" for idx
    using that describes_int_value [OF x ty(1)] describes_int_value [OF y ty(2)] sh by simp_all
  have "l = x \<and> scalar y = Some f \<or> l = y \<and> scalar x = Some f"
    using lf by (auto simp: mulFactor_def split: option.splits)
  then have l: "plain s l \<and> length (offsets l) = length ?sh \<and> sizes l = map getIndexAttr ?sh \<and>
      (\<forall>i < length ?sh. ?sh ! i = 1 \<longrightarrow> w64 (osem E s (strides l ! i)) = 0) \<and>
      (\<forall>idx. inB ?sh idx \<longrightarrow> w64 (eval E s v idx) = w64 (lin E s l idx) * w64 (eval E s f []))"
  proof (elim disjE conjE)
    assume "l = x" "scalar y = Some f"
    then show ?thesis using px rx parts(1,3) parts(6) [of f] lin' val by simp
  next
    assume "l = y" "scalar x = Some f"
    then show ?thesis using py ry parts(2,4) parts(5) [of f] lin' val by (simp add: mult.commute)
  qed
  then have pl: "plain s l" and nl: "length (offsets l) = length ?sh" and szl: "sizes l = map getIndexAttr ?sh"
    and fl: "\<And>i. i < length ?sh \<Longrightarrow> ?sh ! i = 1 \<Longrightarrow> w64 (osem E s (strides l ! i)) = 0"
    and val': "\<And>idx. inB ?sh idx \<Longrightarrow> w64 (eval E s v idx) = w64 (lin E s l idx) * w64 (eval E s f [])"
    by blast+
  show ?thesis
  proof (rule wp_mulState [OF wf px py _ _ lf])
    fix st t
    assume g: "grows s t" and p: "plain t st" and n: "length (offsets st) = length (offsets x)"
      and sz: "sizes st = sizes l" and src: "source st = None"
      and sc: "\<And>E. mulScalar E s (scalar x) (scalar y) t (scalar st)"
      and off: "\<And>E i. i < length (offsets x) \<Longrightarrow> osem E t (offsets st ! i) =
          wrap 64 (osem E s (offsets l ! i) * eval E s f [])"
      and str: "\<And>E i. i < length (offsets x) \<Longrightarrow> osem E t (strides st ! i) =
          wrap 64 (osem E s (strides l ! i) * eval E s f [])"
    have tv: "tyOf t v = tyOf s v" "eval E t v = eval E s v" using tyOf_grows [OF g v] eval_grows [OF g v] by auto
    have ne: "offsets st \<noteq> []" "offsets l \<noteq> []" using n rx sh nl by auto
    have lin: "w64 (lin E t st idx) = w64 (eval E s v idx)" if i: "inB ?sh idx" for idx
    proof -
      have "length idx = length (offsets st)" "length idx = length (offsets l)"
        using inB_length [OF i] n rx nl by auto
      then have "w64 (lin E t st idx) = w64 (lin E s l idx) * w64 (eval E s f [])"
        using lin_w64 [OF p ne(1), of idx E] lin_w64 [OF pl ne(2), of idx E] off str n nl rx
        by (simp add: w64_ring algebra_simps sum.distrib sum_distrib_left sum_distrib_right)
      then show ?thesis using val' [OF i] by simp
    qed
    have flat: "w64 (osem E t (strides st ! i)) = 0" if "i < length (offsets st)" "?sh ! i = 1" for i
      using that n rx str [of i E] fl by (simp add: w64_ring)
    have uni: "w64 (lin E t st idx) = w64 (eval E t c [])" if c: "scalar st = Some c" and i: "inB ?sh idx" for c idx
    proof -
      obtain cx cy where xy: "scalar x = Some cx" "scalar y = Some cy"
        using sc [of E] c by (auto simp: mulScalar_def split: option.splits)
      have "w64 (lin E s x idx) = w64 (eval E s cx [])" "w64 (lin E s y idx) = w64 (eval E s cy [])"
        using parts(5,6) xy i by simp_all
      moreover have "w64 (eval E t c []) = w64 (eval E s cx []) * w64 (eval E s cy [])"
        using sc [of E] c xy by (auto simp: mulScalar_def w64_ring)
      ultimately show ?thesis
        using lin [OF i] val [OF i] lin' [OF i] by simp
    qed
    have "describes E t v st"
      unfolding describes_def tv using p sz szl src ty lin flat uni by (simp add: addrVal_def)
    then show "Q st t"
      using g sc [of E] by (intro post) (auto simp: mulScalar_def)
  qed (use x y ty rx ry in \<open>simp_all add: describes_def\<close>)
qed

section \<open>The handlers\<close>

definition modeOk :: "ptr_analysis \<Rightarrow> bool" where
  "modeOk pa \<longleftrightarrow> (isAnalysisingUnstructured pa \<longrightarrow> enableMGS pa)"

lemma assertMode_ok [simp]: "modeOk pa \<Longrightarrow> assertMode pa = ret ()"
  by (simp add: assertMode_def modeOk_def)

lemma wp_reconcileModulo:
  assumes "plain s x" "plain s y"
  shows "wp (reconcileModulo pa a b x y) Q s \<longleftrightarrow> Q (x, y) s"
  using assms by (simp add: reconcileModulo_def wp_simps plain_simps)

text \<open>An operation that does not wrap at its own width; at 64 bits nothing is required.\<close>

definition exact :: "env \<Rightarrow> ir \<Rightarrow> val \<Rightarrow> bool" where
  "exact E s v \<longleftrightarrow> 64 \<le> width (tyOf s v) \<or> (\<forall>idx. inB (shapeOf (tyOf s v)) idx \<longrightarrow>
     eval E s v idx = denOp E (tyOf s) (eval E s) v (defOp s v) (tyOf s v) idx)"

lemma exact_w64:
  assumes "wf_ir s" "valid s v" "exact E s v" "inB (shapeOf (tyOf s v)) idx"
  shows "w64 (eval E s v idx) = w64 (denOp E (tyOf s) (eval E s) v (defOp s v) (tyOf s v) idx)"
  using assms eval_unfold [OF assms(1,2), of E] by (auto simp: exact_def norm_def)

lemma computes_Add:
  assumes wf: "wf_ir s" and v: "valid s v" and op: "defOp s v = BinOp AddI a b" and mode: "modeOk pa"
    and ab: "computes E s (visit a) a fa" "computes E s (visit b) b fb"
    and ty: "tyOf s v = TensorTy sh t" "\<not> isPtrTy t" "tyOf s a = tyOf s v" "tyOf s b = tyOf s v"
    and ex: "exact E s v"
  shows "computes E s (visitOperandAdd visit pa a b) v (fa \<and> fb)"
proof (rule computesI)
  fix s1 assume g1: "grows s s1"
  have va: "valid s a" "valid s b" using bin_operands [OF wf v op] by auto
  show "wp (visitOperandAdd visit pa a b)
     (\<lambda>st t. grows s1 t \<and> describes E t v st \<and> (fa \<and> fb \<longrightarrow> scalar st \<noteq> None)) s1"
    unfolding visitOperandAdd_def wp_bindM
  proof (rule wp_computes2 [OF ab g1 va(1)])
    fix x y t assume t: "grows s1 t" "grows s t" "describes E t a x" "describes E t b y"
      and f: "fa \<Longrightarrow> scalar x \<noteq> None" "fb \<Longrightarrow> scalar y \<noteq> None"
    note px = describes_plain [OF t(3)] and py = describes_plain [OF t(4)]
    note tys = tyOf_grows [OF t(2)] eval_grows [OF t(2)]
    have "wp (addState x y (isAnalysisingUnstructured pa))
      (\<lambda>st u. grows s1 u \<and> describes E u v (withOrigi st) \<and> (fa \<and> fb \<longrightarrow> scalar (withOrigi st) \<noteq> None)) t"
    proof (rule wp_addState_describes [OF growsD(2) [OF t(2)] valid_grows [OF t(2) v] t(3)])
      show "offsetState E t (shapeOf (tyOf t a)) y"
        using describes_offsetState [OF t(4)] va ty tys by simp
      fix idx assume "inB (shapeOf (tyOf t a)) idx"
      then have i: "inB sh idx" using va ty tys by simp
      have "w64 (lin E t y idx) = w64 (eval E s b idx)"
        using describes_int_value [OF t(4), of idx] va ty tys i by simp
      then show "w64 (eval E t v idx) = w64 (eval E t a idx) + elemBytes (tyOf t a) * w64 (lin E t y idx)"
        using exact_w64 [OF wf v ex, of idx] i va v ty tys op by (simp add: denOp_def w64_ring elemBytes_def)
    qed (use va v ty tys t f in \<open>auto intro: grows_trans\<close>)
    then show "wp (getRank x) (\<lambda>lr. wp (if lr = 1 then hasModulo x else ret False) (\<lambda>lm.
       wp (if lm then ret True else bindM (getRank y) (\<lambda>rr. if rr = 1 then hasModulo y else ret False)) (\<lambda>m.
       wp (thenM (requireM (\<not> m)) (bindM (reconcileModulo pa a b x y) (\<lambda>(lhsState', rhsState').
        thenM (assertMode pa) (bindM (addState lhsState' rhsState' (isAnalysisingUnstructured pa)) (\<lambda>st.
       ret (withOrigi st)))))) (\<lambda>st t. grows s1 t \<and> describes E t v st \<and> (fa \<and> fb \<longrightarrow> scalar st \<noteq> None))))) t"
      using px py mode by (simp add: wp_simps plain_simps wp_reconcileModulo)
  qed
qed

lemma computes_Sub:
  assumes wf: "wf_ir s" and v: "valid s v" and op: "defOp s v = BinOp SubI a b"
    and ab: "computes E s (visit a) a fa" "computes E s (visit b) b fb"
    and ty: "tyOf s v = TensorTy sh t" "\<not> isPtrTy t" "tyOf s a = tyOf s v" "tyOf s b = tyOf s v"
    and ex: "exact E s v"
  shows "computes E s (visitOperandSub visit pa a b) v (fa \<and> fb)"
proof (rule computesI)
  fix s1 assume g1: "grows s s1"
  have va: "valid s a" "valid s b" using bin_operands [OF wf v op] by auto
  show "wp (visitOperandSub visit pa a b)
     (\<lambda>st t. grows s1 t \<and> describes E t v st \<and> (fa \<and> fb \<longrightarrow> scalar st \<noteq> None)) s1"
    unfolding visitOperandSub_def wp_bindM
  proof (rule wp_computes2 [OF ab g1 va(1)])
    fix x y t assume t: "grows s1 t" "grows s t" "describes E t a x" "describes E t b y"
      and f: "fa \<Longrightarrow> scalar x \<noteq> None" "fb \<Longrightarrow> scalar y \<noteq> None"
    have nb: "\<not> isPtrTy (elemTy (tyOf t b))" using va ty tyOf_grows [OF t(2)] by simp
    show "wp (negateState y) (\<lambda>n. wp (addState x n (isAnalysisingUnstructured pa)) (\<lambda>st.
        wp (ret (withOrigi st)) (\<lambda>st t. grows s1 t \<and> describes E t v st \<and> (fa \<and> fb \<longrightarrow> scalar st \<noteq> None)))) t"
    proof (rule wp_negate_describes [OF growsD(2) [OF t(2)] t(4) nb])
      fix n u assume n: "grows t u" "offsetState E u (shapeOf (tyOf t b)) n"
        "\<And>idx. inB (shapeOf (tyOf t b)) idx \<Longrightarrow> w64 (lin E u n idx) = - w64 (eval E t b idx)"
        "scalar y \<noteq> None \<Longrightarrow> scalar n \<noteq> None"
      have g: "grows s u" using t(2) n(1) grows_trans by blast
      note tys = tyOf_grows [OF g] eval_grows [OF g] tyOf_grows [OF t(2)] eval_grows [OF t(2)]
      have x: "describes E u a x" using describes_grows [OF n(1) valid_grows [OF t(2) va(1)] t(3)] .
      show "wp (addState x n (isAnalysisingUnstructured pa)) (\<lambda>st.
        wp (ret (withOrigi st)) (\<lambda>st t. grows s1 t \<and> describes E t v st \<and> (fa \<and> fb \<longrightarrow> scalar st \<noteq> None))) u"
      proof (rule wp_addState_describes [OF growsD(2) [OF g] valid_grows [OF g v] x])
        show "offsetState E u (shapeOf (tyOf u a)) n" using n(2) va ty tys by simp
        fix idx assume "inB (shapeOf (tyOf u a)) idx"
        then have i: "inB sh idx" using va ty tys by simp
        then show "w64 (eval E u v idx) = w64 (eval E u a idx) + elemBytes (tyOf u a) * w64 (lin E u n idx)"
          using exact_w64 [OF wf v ex, of idx] n(3) [of idx] va v ty tys op
          by (simp add: denOp_def w64_ring elemBytes_def)
      qed (use va v ty tys t n f in \<open>auto intro: grows_trans simp: wp_ret\<close>)
    qed
  qed
qed

lemma computes_Mul:
  assumes wf: "wf_ir s" and v: "valid s v" and op: "defOp s v = BinOp MulI a b" and mode: "modeOk pa"
    and ab: "computes E s (visit a) a fa" "computes E s (visit b) b fb"
    and ty: "tyOf s v = TensorTy sh t" "sh \<noteq> []" "\<not> isPtrTy t" "tyOf s a = tyOf s v" "tyOf s b = tyOf s v"
    and ex: "exact E s v" and fac: "fa \<or> fb"
  shows "computes E s (visitOperandMul visit pa a b) v (fa \<and> fb)"
proof (rule computesI)
  fix s1 assume g1: "grows s s1"
  have va: "valid s a" "valid s b" using bin_operands [OF wf v op] by auto
  show "wp (visitOperandMul visit pa a b)
     (\<lambda>st t. grows s1 t \<and> describes E t v st \<and> (fa \<and> fb \<longrightarrow> scalar st \<noteq> None)) s1"
    unfolding visitOperandMul_def wp_bindM
  proof (rule wp_computes2 [OF ab g1 va(1)])
    fix x y t assume t: "grows s1 t" "grows s t" "describes E t a x" "describes E t b y"
      and f: "fa \<Longrightarrow> scalar x \<noteq> None" "fb \<Longrightarrow> scalar y \<noteq> None"
    note tys = tyOf_grows [OF t(2)] eval_grows [OF t(2)]
    have "wp (mulState x y (isAnalysisingUnstructured pa))
      (\<lambda>st u. grows s1 u \<and> describes E u v (withOrigi st) \<and> (fa \<and> fb \<longrightarrow> scalar (withOrigi st) \<noteq> None)) t"
    proof (rule wp_mulState_describes [OF growsD(2) [OF t(2)] valid_grows [OF t(2) v] t(3,4)])
      fix idx assume "inB (shapeOf (tyOf t v)) idx"
      then have "inB sh idx" using v ty tys by simp
      then show "w64 (eval E t v idx) = w64 (eval E t a idx) * w64 (eval E t b idx)"
        using exact_w64 [OF wf v ex, of idx] va v ty tys op by (simp add: denOp_def w64_ring)
    qed (use va v ty tys t f fac in \<open>auto intro: grows_trans\<close>)
    then show "wp (reconcileModulo pa a b x y) (\<lambda>r. wp (case r of (lhsState', rhsState') \<Rightarrow>
        thenM (assertMode pa) (bindM (mulState lhsState' rhsState' (isAnalysisingUnstructured pa)) (\<lambda>st.
       ret (withOrigi st)))) (\<lambda>st t. grows s1 t \<and> describes E t v st \<and> (fa \<and> fb \<longrightarrow> scalar st \<noteq> None))) t"
      using describes_plain [OF t(3)] describes_plain [OF t(4)] mode
      by (simp add: wp_simps wp_reconcileModulo)
  qed
qed

lemma wp_visitOperandAddptr:
  assumes wf: "wf_ir s" and v: "valid s v" and op: "defOp s v = AddPtrOp p d" and mode: "modeOk pa"
    and ab: "computes E s (visit p) p fa" "computes E s (visit d) d fb"
    and ty: "tyOf s p = tyOf s v" "isPtrTy (elemTy (tyOf s v))" "\<not> isPtrTy (elemTy (tyOf s d))"
      "shapeOf (tyOf s d) = shapeOf (tyOf s v)" "\<not> isFloatLike (tyOf s v)" "width (tyOf s v) = 64"
    and g1: "grows s s1"
  shows "wp (visitOperandAddptr visit pa p d) (\<lambda>st t. grows s1 t \<and> describes E t v st \<and>
      ((if shapeOf (tyOf s v) = [] then fa \<or> fb else fa \<and> fb) \<longrightarrow> scalar st \<noteq> None) \<and>
      (\<forall>x \<in> set (origiOffsets st). idx_ofr t x)) s1"
proof -
  let ?f = "if shapeOf (tyOf s v) = [] then fa \<or> fb else fa \<and> fb"
  have va: "valid s p" "valid s d"
    using wf_operand_valid [OF wf v, of p] wf_operand_valid [OF wf v, of d] op by auto
  show ?thesis
    unfolding visitOperandAddptr_def wp_bindM
  proof (rule wp_computes2 [OF ab g1 va(1)])
    fix x y t assume t: "grows s1 t" "grows s t" "describes E t p x" "describes E t d y"
      and f: "fa \<Longrightarrow> scalar x \<noteq> None" "fb \<Longrightarrow> scalar y \<noteq> None"
    note px = describes_plain [OF t(3)] and py = describes_plain [OF t(4)]
    note tys = tyOf_grows [OF t(2)] eval_grows [OF t(2)]
    have add: "wp (addState x y (isAnalysisingUnstructured pa))
      (\<lambda>st u. grows s1 u \<and> describes E u v st \<and> (?f \<longrightarrow> scalar st \<noteq> None) \<and> (\<forall>o1 \<in> set (offsets x). idx_ofr u o1)) t"
    proof (rule wp_addState_describes [OF growsD(2) [OF t(2)] valid_grows [OF t(2) v] t(3)])
      show "offsetState E t (shapeOf (tyOf t p)) y"
        using describes_offsetState [OF t(4)] va v ty tys by simp
      fix idx assume "inB (shapeOf (tyOf t p)) idx"
      then have i: "inB (shapeOf (tyOf s v)) idx" using va ty tys by simp
      have "w64 (lin E t y idx) = w64 (eval E s d idx)"
        using describes_int_value [OF t(4), of idx] va ty tys i by simp
      moreover have "exact E s v" using ty(6) by (simp add: exact_def)
      ultimately show "w64 (eval E t v idx) = w64 (eval E t p idx) + elemBytes (tyOf t p) * w64 (lin E t y idx)"
        using exact_w64 [OF wf v _ i, of E] va v ty tys op by (simp add: denOp_def w64_ring elemBytes_def)
    next
      show "inherits t v p"
        by (rule inherits_same) (use va v ty tys op valid_grows [OF t(2)] defOp_grows [OF t(2)] in simp_all)
    qed (use va v ty tys t f plain_grows [OF _ px] in \<open>auto intro: grows_trans simp: plain_def\<close>)
    have "source x \<noteq> None" "length (offsets x) = length (offsets y)"
      using t(3) describes_rank [OF t(3)] describes_rank [OF t(4)] va v ty tys by (simp_all add: describes_def)
    then show "wp (thenM (assertM (source x \<noteq> None)) (bindM (getRank x) (\<lambda>pr. bindM (getRank y) (\<lambda>offr.
      thenM (assertM (pr = offr)) (thenM (assertMode pa)
      (bindM (addState x y (isAnalysisingUnstructured pa)) (\<lambda>st. ret (st\<lparr>origiOffsets := offsets x\<rparr>))))))))
      (\<lambda>st t. grows s1 t \<and> describes E t v st \<and> (?f \<longrightarrow> scalar st \<noteq> None) \<and>
        (\<forall>x \<in> set (origiOffsets st). idx_ofr t x)) t"
      using px py mode add by (simp add: wp_simps)
  qed
qed

lemma computes_Addptr:
  assumes wf: "wf_ir s" and v: "valid s v" and op: "defOp s v = AddPtrOp p d" and mode: "modeOk pa"
    and ab: "computes E s (visit p) p fa" "computes E s (visit d) d fb"
    and ty: "tyOf s p = tyOf s v" "isPtrTy (elemTy (tyOf s v))" "\<not> isPtrTy (elemTy (tyOf s d))"
      "shapeOf (tyOf s d) = shapeOf (tyOf s v)" "\<not> isFloatLike (tyOf s v)" "width (tyOf s v) = 64"
  shows "computes E s (visitOperandAddptr visit pa p d) v (if shapeOf (tyOf s v) = [] then fa \<or> fb else fa \<and> fb)"
  by (rule computesI, rule wp_mono [OF wp_visitOperandAddptr [OF assms]]) simp_all

text \<open>Ranges and the operations that change the shape.\<close>

lemma computes_MakeRange:
  assumes wf: "wf_ir s" and v: "valid s v" and op: "defOp s v = MakeRangeOp start stop"
    and ty: "tyOf s v = TensorTy [stop - start] (IntTy 32)"
    and rng: "1 < stop - start" "0 \<le> start" "stop \<le> 2 ^ 31"
  shows "computes E s (visitOperandMakeRange v start stop) v False"
proof (rule computesI)
  fix s1 assume g: "grows s s1"
  let ?n = "stop - start"
  let ?st = "emptyState\<lparr>offsets := [getIndexAttr start], origiOffsets := [getIndexAttr start],
    sizes := [getIndexAttr ?n], strides := [getIndexAttr 1], shape := [getIndexAttr 0]\<rparr>"
  have "take_bit 32 ?n = ?n" using rng by (simp add: take_bit_int_eq_self_iff)
  moreover have "(?n + ?n - 1) div ?n = 1"
    using rng(1) by (intro int_div_pos_eq [where r = "?n - 1"]) simp_all
  ultimately have str: "rangeStride start stop ?n = 1" by (simp add: rangeStride_def)
  have p: "plain s1 ?st" by (simp add: plain_def emptyState_def getIndexAttr_0)
  have lin: "w64 (lin E s1 ?st [i]) = w64 (start + i)" for i
    by (simp add: lin_def emptyState_def dimTerm_def getIndexAttr_0 w64_ring)
  have "eval E s v [i] = start + i" if "0 \<le> i" "i < ?n" for i
    using that rng eval_unfold [OF wf v, of E] op ty by (simp add: denOp_def norm_def wrap_id)
  then have "describes E s1 v ?st"
    using p lin ty tyOf_grows [OF g v] eval_grows [OF g v] rng
    by (auto simp: describes_def emptyState_def addrVal_def inB_def list_all2_Cons1 osem_getIndexAttr)
  then show "wp (visitOperandMakeRange v start stop)
     (\<lambda>st t. grows s1 t \<and> describes E t v st \<and> (False \<longrightarrow> scalar st \<noteq> None)) s1"
    using ty tyOf_grows [OF g v] rng str growsD(2) [OF g] by (simp add: visitOperandMakeRange_def wp_simps)
qed

lemma nth_insert_at:
  "k \<le> length xs \<Longrightarrow> i \<le> length xs \<Longrightarrow>
   insert_at k x xs ! i = (if i < k then xs ! i else if i = k then x else xs ! (i - 1))"
  by (auto simp: insert_at_def nth_append min_def nth_Cons')

lemma sumDims_insert:
  "k \<le> length offs \<Longrightarrow> length strs = length offs \<Longrightarrow> length mds = length offs \<Longrightarrow> length idx = length offs \<Longrightarrow>
   sumDims f (insert_at k x offs) (insert_at k y strs) (insert_at k m mds) (insert_at k i idx) =
   dimTerm f x y m i + sumDims f offs strs mds idx"
proof (induction k arbitrary: offs strs mds idx)
  case (Suc k)
  then obtain a offs' b strs' c mds' j idx'
    where "offs = a # offs'" "strs = b # strs'" "mds = c # mds'" "idx = j # idx'"
    by (metis Suc_le_length_iff le_eq_less_or_eq)
  with Suc show ?case by (simp add: insert_at_def)
qed (simp add: insert_at_def)

lemma inB_remove_at:
  assumes "inB (insert_at k 1 sh) idx" "k \<le> length sh"
  shows "inB sh (remove_at k idx)"
proof -
  have "take k (insert_at k 1 sh) = take k sh" "drop (Suc k) (insert_at k 1 sh) = drop k sh"
    using assms(2) by (simp_all add: insert_at_def)
  then have "list_all2 (\<lambda>n i. 0 \<le> i \<and> i < n) (take k sh @ drop k sh) (take k idx @ drop (Suc k) idx)"
    using list_all2_takeI [of _ _ _ k, OF assms(1) [unfolded inB_def]]
      list_all2_dropI [of _ _ _ "Suc k", OF assms(1) [unfolded inB_def]]
    by (intro list_all2_appendI) simp_all
  then show ?thesis by (simp add: inB_def remove_at_def)
qed

text \<open>
  A handler that only rearranges the description \<open>x\<close> of its operand: what has to be shown of the
  new state, on the table the visit leaves.
\<close>

lemma describes_reshape:
  assumes x: "describes E t a x" and p: "plain t st"
    and sz: "sizes st = map getIndexAttr (shapeOf (tyOf t v))" and sh: "length (offsets st) = length (shapeOf (tyOf t v))"
    and src: "source st = source x" and sc: "scalar st = scalar x"
    and ty: "isPtrTy (elemTy (tyOf t v)) = isPtrTy (elemTy (tyOf t a))"
      "isPtrTy (elemTy (tyOf t a)) \<Longrightarrow> inherits t v a"
    and flat: "\<And>i. i < length (offsets st) \<Longrightarrow> shapeOf (tyOf t v) ! i = 1 \<Longrightarrow> w64 (osem E t (strides st ! i)) = 0"
    and idx: "\<And>idx. inB (shapeOf (tyOf t v)) idx \<Longrightarrow> inB (shapeOf (tyOf t a)) (h idx) \<and>
      w64 (lin E t st idx) = w64 (lin E t x (h idx)) \<and> w64 (eval E t v idx) = w64 (eval E t a (h idx))"
  shows "describes E t v st"
proof -
  have "w64 (eval E t v idx) = addrVal E t st idx" if "inB (shapeOf (tyOf t v)) idx" for idx
  proof -
    have "w64 (eval E t a (h idx)) = addrVal E t x (h idx)" using idx [OF that] x by (simp add: describes_def)
    then show ?thesis using idx [OF that] src by (simp add: addrVal_def split: option.splits)
  qed
  moreover have "w64 (lin E t st idx) = w64 (eval E t c [])"
    if "scalar st = Some c" "inB (shapeOf (tyOf t v)) idx" for c idx
    using idx [OF that(2)] that(1) x sc by (simp add: describes_def)
  ultimately show ?thesis
    unfolding describes_def using x p sz sh src ty inherits_keepsPointee flat by (auto simp: describes_def)
qed

lemma pointee_tensor: "isPtrTy t \<Longrightarrow> pointee (TensorTy sh t) = pointee (TensorTy sh' t)"
  by (cases t) simp_all

lemma computes_ExpandDims:
  assumes wf: "wf_ir s" and v: "valid s v" and op: "defOp s v = ExpandDimsOp a ax"
    and a: "computes E s (visit a) a f"
    and ty: "tyOf s a = TensorTy sh t" "tyOf s v = TensorTy (insert_at ax 1 sh) t" "sh \<noteq> []" "ax \<le> length sh"
    and nf: "\<not> isFloatLike t"
  shows "computes E s (visitOperandExpandDims visit v a ax) v f"
proof (rule computesI)
  fix s1 assume g1: "grows s s1"
  have va: "valid s a" using wf_operand_valid [OF wf v, of a] op by simp
  show "wp (visitOperandExpandDims visit v a ax)
     (\<lambda>st t. grows s1 t \<and> describes E t v st \<and> (f \<longrightarrow> scalar st \<noteq> None)) s1"
    unfolding visitOperandExpandDims_def
  proof (subst wp_bindM, rule wp_computes [OF a g1])
    fix x u assume u: "grows s1 u" "grows s u" "describes E u a x" and f: "f \<Longrightarrow> scalar x \<noteq> None"
    note p = describes_plain [OF u(3)]
    have tys: "tyOf u v = TensorTy (insert_at ax 1 sh) t" "tyOf u a = TensorTy sh t"
      using tyOf_grows [OF u(2)] v va ty by auto
    have n: "length (offsets x) = length sh" using describes_rank [OF u(3)] tys by simp
    define st where "st = withOrigi (x\<lparr>
            offsets := insert_at ax (getIndexAttr 0) (offsets x),
            sizes := insert_at ax (getIndexAttr 1) (sizes x),
            strides := insert_at ax (getIndexAttr 0) (strides x),
            shape := insert_at ax (getIndexAttr 0) (shape x)\<rparr>)"
    have pst: "plain u st" using p by (auto simp: st_def withOrigi_def plain_def getIndexAttr_0)
    have ne: "offsets st \<noteq> []" "offsets x \<noteq> []" using n ty(3) by (auto simp: st_def withOrigi_def insert_at_def)
    have lin: "lin E u st idx = lin E u x (remove_at ax idx)" if i: "inB (insert_at ax 1 sh) idx" for idx
    proof -
      have l: "length idx = Suc (length sh)" using inB_length [OF i] by simp
      then have "idx = insert_at ax (idx ! ax) (remove_at ax idx)" using ty(4) by (simp add: insert_remove_at)
      then have "lin E u st idx = sumDims (osem E u) (insert_at ax index0 (offsets x)) (insert_at ax index0 (strides x))
        (insert_at ax index0 (shape x)) (insert_at ax (idx ! ax) (remove_at ax idx))"
        using ne by (simp add: lin_def) (simp add: st_def withOrigi_def getIndexAttr_0)
      also have "\<dots> = sumDims (osem E u) (offsets x) (strides x) (shape x) (remove_at ax idx)"
        using p n ty(4) l by (subst sumDims_insert) (auto simp: plain_def dimTerm_def)
      finally show ?thesis using ne by (simp add: lin_def)
    qed
    have "describes E u v st"
    proof (rule describes_reshape [OF u(3) pst])
      fix i assume i: "i < length (offsets st)" "shapeOf (tyOf u v) ! i = 1"
      have len: "length (strides x) = length sh" using p n by (simp add: plain_def)
      have "strides st ! i = (if i < ax then strides x ! i else if i = ax then index0 else strides x ! (i - 1))"
        using i n len ty(4) by (simp add: st_def withOrigi_def getIndexAttr_0 nth_insert_at)
      moreover have "shapeOf (tyOf u a) ! (if i < ax then i else i - 1) = 1" if "i \<noteq> ax"
        using that i n ty(4) tys by (auto simp: st_def withOrigi_def nth_insert_at split: if_splits)
      ultimately show "w64 (osem E u (strides st ! i)) = 0"
        using u(3) i n ty(4) by (auto simp: describes_def st_def withOrigi_def split: if_splits)
    next
      fix idx assume i: "inB (shapeOf (tyOf u v)) idx"
      have "eval E u v idx = eval E u a (remove_at ax idx)"
        using eval_unfold [OF growsD(2) [OF u(2)] valid_grows [OF u(2) v], of E]
          eval_norm [OF growsD(2) [OF u(2)] valid_grows [OF u(2) va], of E "remove_at ax idx"]
          defOp_grows [OF u(2) v] op tys nf by (simp add: denOp_def norm_def)
      then show "inB (shapeOf (tyOf u a)) (remove_at ax idx) \<and> w64 (lin E u st idx) = w64 (lin E u x (remove_at ax idx)) \<and>
          w64 (eval E u v idx) = w64 (eval E u a (remove_at ax idx))"
        using i lin tys ty(4) inB_remove_at by simp
    next
      show "isPtrTy (elemTy (tyOf u a)) \<Longrightarrow> inherits u v a"
        by (rule inherits_same)
          (use tys pointee_tensor [of t "insert_at ax 1 sh" sh] valid_grows [OF u(2) v] defOp_grows [OF u(2) v] op in simp_all)
    qed (use u(3) n ty tys in \<open>simp_all add: st_def withOrigi_def describes_def map_insert_at\<close>)
    then show "wp (bindM (getM (\<lambda>s. tyOf s v)) (\<lambda>t. thenM (assertM (isShaped t))
     (bindM (atM (shapeOf t) ax) (\<lambda>n. thenM (assertM (n = 1))
     (thenM (assertM (ax \<le> length (offsets x) \<and> ax \<le> length (sizes x)
        \<and> ax \<le> length (strides x) \<and> ax \<le> length (shape x)))
     (let st' = withOrigi (x\<lparr>
            offsets := insert_at ax (getIndexAttr 0) (offsets x),
            sizes := insert_at ax (getIndexAttr 1) (sizes x),
            strides := insert_at ax (getIndexAttr 0) (strides x),
            shape := insert_at ax (getIndexAttr 0) (shape x)\<rparr>)
      in bindM (hasModulo st') (\<lambda>m. bindM (if m then getRank st' else ret 0) (\<lambda>rank.
      thenM (requireM (\<not> (m \<and> rank > 2))) (ret st'))))))))) 
      (\<lambda>st t. grows s1 t \<and> describes E t v st \<and> (f \<longrightarrow> scalar st \<noteq> None)) u"
      unfolding st_def [symmetric] Let_def
      using tys n ty(4) p f u(1) plain_hasModulo [OF pst]
      by (simp add: wp_simps nth_insert_at) (simp add: plain_def st_def withOrigi_def)
  qed
qed

lemma wp_broadcastSizes:
  assumes "list_all2 (\<lambda>m n. m = n \<or> m = 1 \<and> 1 < n) src dst"
  shows "length pre = i \<Longrightarrow>
    wp (broadcastSizes src dst i (pre @ map getIndexAttr src)) Q s \<longleftrightarrow> Q (pre @ map getIndexAttr dst) s"
  using assms
proof (induction src arbitrary: dst pre i)
  case (Cons m src)
  then obtain n dst' where dst: "dst = n # dst'" "m = n \<or> m = 1 \<and> 1 < n"
      "list_all2 (\<lambda>m n. m = n \<or> m = 1 \<and> 1 < n) src dst'"
    by (auto simp: list_all2_Cons1)
  have "(pre @ getIndexAttr m # map getIndexAttr src)[i := getIndexAttr n] = (pre @ [getIndexAttr n]) @ map getIndexAttr src"
    using Cons.prems by (simp add: list_update_append)
  then show ?case using Cons.IH [of "pre @ [getIndexAttr n]" "Suc i" dst'] dst Cons.prems
    by (auto simp: wp_simps)
qed (simp add: wp_ret)

lemma inB_broadcast:
  assumes "list_all2 (\<lambda>m n. m = n \<or> m = 1 \<and> 1 < n) sh sh'" "inB sh' idx"
  shows "inB sh (broadcastIdx sh idx)"
  using assms unfolding inB_def
proof (induction sh sh' arbitrary: idx rule: list_all2_induct)
  case (Cons m ms n ns)
  then show ?case by (cases idx) (auto simp: broadcastIdx_def)
qed (auto simp: broadcastIdx_def)

lemma computes_Broadcast:
  assumes wf: "wf_ir s" and v: "valid s v" and op: "defOp s v = BroadcastOp a"
    and a: "computes E s (visit a) a f"
    and ty: "tyOf s a = TensorTy sh t" "tyOf s v = TensorTy sh' t" "sh \<noteq> []"
    and sh: "list_all2 (\<lambda>m n. m = n \<or> m = 1 \<and> 1 < n) sh sh'"
    and nf: "\<not> isFloatLike t"
  shows "computes E s (visitOperandBroadcast visit v a) v f"
proof (rule computesI)
  fix s1 assume g1: "grows s s1"
  have va: "valid s a" using wf_operand_valid [OF wf v, of a] op by simp
  have len: "length sh = length sh'" using sh by (rule list_all2_lengthD)
  have tys1: "tyOf s1 v = TensorTy sh' t" "tyOf s1 a = TensorTy sh t" using tyOf_grows [OF g1] v va ty by auto
  have "wp (visit a) (\<lambda>st. wp (bindM (broadcastSizes sh sh' 0 (sizes st)) (\<lambda>szs. ret (withOrigi (st\<lparr>sizes := szs\<rparr>))))
     (\<lambda>st t. grows s1 t \<and> describes E t v st \<and> (f \<longrightarrow> scalar st \<noteq> None))) s1"
  proof (rule wp_computes [OF a g1])
    fix x u assume u: "grows s1 u" "grows s u" "describes E u a x" and f: "f \<Longrightarrow> scalar x \<noteq> None"
    note p = describes_plain [OF u(3)]
    have tys: "tyOf u v = TensorTy sh' t" "tyOf u a = TensorTy sh t" using tyOf_grows [OF u(2)] v va ty by auto
    have n: "length (offsets x) = length sh" using describes_rank [OF u(3)] tys by simp
    then have ne: "offsets x \<noteq> []" using ty(3) by auto
    have szx: "sizes x = [] @ map getIndexAttr sh" using u(3) tys by (simp add: describes_def)
    have flat: "w64 (osem E u (strides x ! i)) = 0" if "i < length sh" "sh ! i = 1" for i
      using that u(3) tys n by (simp add: describes_def)
    define st where "st = withOrigi (x\<lparr>sizes := map getIndexAttr sh'\<rparr>)"
    have pst: "plain u st" using p n len by (simp add: st_def withOrigi_def plain_def)
    have lin: "w64 (lin E u st idx) = w64 (lin E u x (broadcastIdx sh idx))" if i: "inB sh' idx" for idx
    proof -
      have l: "length idx = length sh" using inB_length [OF i] len by simp
      have "w64 (idx ! i) * w64 (osem E u (strides x ! i)) =
          w64 (broadcastIdx sh idx ! i) * w64 (osem E u (strides x ! i))" if "i < length sh" for i
        using that flat [OF that] l by (simp add: broadcastIdx_def)
      then show ?thesis
        using lin_w64 [OF p ne, of "broadcastIdx sh idx" E] lin_w64 [OF pst, of idx E] ne l n
        by (simp add: st_def withOrigi_def broadcastIdx_def)
    qed
    have "describes E u v st"
    proof (rule describes_reshape [OF u(3) pst])
      fix i assume i: "i < length (offsets st)" "shapeOf (tyOf u v) ! i = 1"
      then have "sh ! i = 1" using sh tys n len by (auto simp: list_all2_conv_all_nth st_def withOrigi_def)
      then show "w64 (osem E u (strides st ! i)) = 0" using flat i n by (simp add: st_def withOrigi_def)
    next
      fix idx assume i: "inB (shapeOf (tyOf u v)) idx"
      have "eval E u v idx = eval E u a (broadcastIdx sh idx)"
        using eval_unfold [OF growsD(2) [OF u(2)] valid_grows [OF u(2) v], of E]
          eval_norm [OF growsD(2) [OF u(2)] valid_grows [OF u(2) va], of E "broadcastIdx sh idx"]
          defOp_grows [OF u(2) v] op tys nf by (simp add: denOp_def norm_def)
      then show "inB (shapeOf (tyOf u a)) (broadcastIdx sh idx) \<and>
          w64 (lin E u st idx) = w64 (lin E u x (broadcastIdx sh idx)) \<and>
          w64 (eval E u v idx) = w64 (eval E u a (broadcastIdx sh idx))"
        using i lin tys inB_broadcast [OF sh] by simp
    next
      show "isPtrTy (elemTy (tyOf u a)) \<Longrightarrow> inherits u v a"
        by (rule inherits_same)
          (use tys pointee_tensor [of t sh' sh] valid_grows [OF u(2) v] defOp_grows [OF u(2) v] op in simp_all)
    qed (use u(3) n len ty tys in \<open>simp_all add: st_def withOrigi_def describes_def\<close>)
    then show "wp (bindM (broadcastSizes sh sh' 0 (sizes x)) (\<lambda>szs. ret (withOrigi (x\<lparr>sizes := szs\<rparr>))))
     (\<lambda>st t. grows s1 t \<and> describes E t v st \<and> (f \<longrightarrow> scalar st \<noteq> None)) u"
      unfolding szx wp_bindM using wp_broadcastSizes [OF sh, of "[]" 0] u(1) f
      by (simp add: wp_ret st_def)
  qed
  then show "wp (visitOperandBroadcast visit v a)
     (\<lambda>st t. grows s1 t \<and> describes E t v st \<and> (f \<longrightarrow> scalar st \<noteq> None)) s1"
    using tys1 len by (simp add: visitOperandBroadcast_def wp_simps)
qed

lemma pointee_splat: "isPtrTy t \<Longrightarrow> \<not> isTensorPointerType t \<Longrightarrow> pointee (TensorTy sh t) = pointee t"
proof (cases t)
  case (PtrTy e)
  then show "\<not> isTensorPointerType t \<Longrightarrow> ?thesis" by (cases e) simp_all
qed simp_all

lemma norm_TensorTy [simp]: "norm (TensorTy sh t) n = norm t n"
  by (simp add: norm_def)

text \<open>A splat puts the scalar into the outermost offset.\<close>

definition splatOffsets :: "val option \<Rightarrow> int list \<Rightarrow> ofr list" where
  "splatOffsets c sh = map (\<lambda>i. case c of Some w \<Rightarrow> if i = 0 then Val w else index0 | None \<Rightarrow> index0) [0..<length sh]"

lemma splatOffsets_update:
  "sh \<noteq> [] \<Longrightarrow> (map (\<lambda>_. index0) sh)[0 := Val c] = splatOffsets (Some c) sh"
  by (rule nth_equalityI) (auto simp: splatOffsets_def nth_list_update)

lemma splatOffsets_None: "map (\<lambda>_. index0) sh = splatOffsets None sh"
  by (rule nth_equalityI) (auto simp: splatOffsets_def)

lemma lin_splat:
  assumes "plain s st" "sh \<noteq> []" "offsets st = splatOffsets c sh" "strides st = map (\<lambda>_. index0) sh"
    and "length idx = length sh"
  shows "lin E s st idx = (case c of None \<Rightarrow> 0 | Some w \<Rightarrow> eval E s w [])"
proof -
  have ne: "offsets st \<noteq> []" using assms by (simp add: splatOffsets_def)
  have "osem E s (offsets st ! i) = (if i = 0 then (case c of None \<Rightarrow> 0 | Some w \<Rightarrow> eval E s w []) else 0)"
    "osem E s (strides st ! i) = 0" if "i < length sh" for i
    using that assms by (auto simp: splatOffsets_def split: option.splits)
  moreover have "length (offsets st) = length sh" using assms by (simp add: splatOffsets_def)
  ultimately have "lin E s st idx = (\<Sum>i<length sh. if i = 0 then (case c of None \<Rightarrow> 0 | Some w \<Rightarrow> eval E s w []) else 0)"
    using assms(5) by (subst lin_plain [OF assms(1) ne]) simp_all
  also have "\<dots> = (case c of None \<Rightarrow> 0 | Some w \<Rightarrow> eval E s w [])"
    using assms(2) by (simp add: sum.delta)
  finally show ?thesis .
qed

lemma plain_splat:
  assumes "offsets st = splatOffsets c sh" "strides st = map (\<lambda>_. index0) sh" "shape st = map (\<lambda>_. index0) sh"
    and "sizes st = map getIndexAttr sh" "order st = []" "\<And>w. c = Some w \<Longrightarrow> valid s w \<and> tyOf s w = IndexTy"
    and "scalar st = c"
  shows "plain s st"
  using assms by (auto simp: plain_def splatOffsets_def split: option.splits)

lemma computes_Splat:
  assumes wf: "wf_ir s" and v: "valid s v" and op: "defOp s v = SplatOp a"
    and a: "computes E s (visit a) a f"
    and ty: "tyOf s v = TensorTy sh (tyOf s a)" "sh \<noteq> []" "isIntOrIndex (tyOf s a) \<or> isPtrTy (tyOf s a)"
      "\<not> isTensorPointerType (tyOf s a)"
  shows "computes E s (visitOperandSplat visit v a) v f"
proof (rule computesI)
  fix s1 assume g1: "grows s s1"
  have va: "valid s a" using wf_operand_valid [OF wf v, of a] op by simp
  have tys1: "tyOf s1 v = TensorTy sh (tyOf s a)" "tyOf s1 a = tyOf s a" using tyOf_grows [OF g1] v va ty by auto
  have scal: "shapeOf (tyOf s a) = []" "elemTy (tyOf s a) = tyOf s a" "\<not> isFloatLike (tyOf s a)"
    using ty(3) by (cases "tyOf s a"; simp)+
  let ?res = "\<lambda>st. let st1 = st\<lparr>
             offsets := offsets st @ map (\<lambda>_. getIndexAttr 0) sh,
             sizes := sizes st @ map getIndexAttr sh,
             strides := strides st @ map (\<lambda>_. getIndexAttr 0) sh,
             shape := shape st @ map (\<lambda>_. getIndexAttr 0) sh\<rparr>
       in
       bindM (case scalar st1 of
           None \<Rightarrow> ret st1
         | Some v \<Rightarrow> thenM (assertM (offsets st1 \<noteq> [])) (ret (st1\<lparr>offsets := (offsets st1)[0 := Val v]\<rparr>)))
         (\<lambda>st2.
       bindM (hasModulo st2) (\<lambda>m. bindM (if m then getRank st2 else ret 0) (\<lambda>rank.
       thenM (requireM (\<not> (m \<and> rank > 2))) (ret (withOrigi st2)))))"
  have "wp (visit a) (\<lambda>st. wp (?res st)
     (\<lambda>st t. grows s1 t \<and> describes E t v st \<and> (f \<longrightarrow> scalar st \<noteq> None))) s1"
  proof (rule wp_computes [OF a g1])
    fix x u assume u: "grows s1 u" "grows s u" "describes E u a x" and f: "f \<Longrightarrow> scalar x \<noteq> None"
    note p = describes_plain [OF u(3)]
    have tys: "tyOf u v = TensorTy sh (tyOf s a)" "tyOf u a = tyOf s a" using tyOf_grows [OF u(2)] v va ty by auto
    have "length (offsets x) = 0" using describes_rank [OF u(3)] tys scal by simp
    then have nil: "offsets x = []" "sizes x = []" "strides x = []" "shape x = []" using p by (simp_all add: plain_def)
    define st where "st = x\<lparr>offsets := splatOffsets (scalar x) sh, sizes := map getIndexAttr sh,
      strides := map (\<lambda>_. index0) sh, shape := map (\<lambda>_. index0) sh\<rparr>"
    have pst: "plain u st"
      by (rule plain_splat [of _ "scalar x" sh]) (use p in \<open>auto simp: st_def plain_def\<close>)
    have lin: "lin E u st idx = lin E u x []" if "inB sh idx" for idx
      using lin_splat [OF pst ty(2), of "scalar x" idx E] inB_length [OF that] nil
      by (simp add: st_def lin_rank0)
    have "describes E u v st"
    proof (rule describes_reshape [OF u(3) pst])
      fix idx assume i: "inB (shapeOf (tyOf u v)) idx"
      have "eval E u v idx = eval E u a []"
        using eval_unfold [OF growsD(2) [OF u(2)] valid_grows [OF u(2) v], of E]
          eval_norm [OF growsD(2) [OF u(2)] valid_grows [OF u(2) va], of E "[]"]
          defOp_grows [OF u(2) v] op tys scal by (simp add: denOp_def norm_def)
      then show "inB (shapeOf (tyOf u a)) [] \<and> w64 (lin E u st idx) = w64 (lin E u x []) \<and>
          w64 (eval E u v idx) = w64 (eval E u a [])"
        using i lin tys scal by simp
    next
      show "isPtrTy (elemTy (tyOf u a)) \<Longrightarrow> inherits u v a"
        using ty(4) valid_grows [OF u(2) v] defOp_grows [OF u(2) v] op
        by (intro inherits_same) (simp_all add: tys scal pointee_splat)
    qed (use u(3) tys scal in \<open>simp_all add: st_def splatOffsets_def\<close>)
    moreover have "?res x = ret (withOrigi st)"
      using plain_hasModulo [OF pst] nil ty(2)
      by (cases x; cases "scalar x")
        (simp_all add: Let_def getIndexAttr_0 splatOffsets_update splatOffsets_None [symmetric] st_def)
    moreover have "scalar st = scalar x" by (simp add: st_def)
    ultimately show "wp (?res x) (\<lambda>st t. grows s1 t \<and> describes E t v st \<and> (f \<longrightarrow> scalar st \<noteq> None)) u"
      using u(1) f by (simp add: wp_ret)
  qed
  then show "wp (visitOperandSplat visit v a)
     (\<lambda>st t. grows s1 t \<and> describes E t v st \<and> (f \<longrightarrow> scalar st \<noteq> None)) s1"
    using tys1 ty(3) by (simp add: visitOperandSplat_def wp_simps)
qed

lemma computes_ConstSplat:
  assumes wf: "wf_ir s" and v: "valid s v" and op: "defOp s v = ConstantOp (DenseElementsAttr (Some (IntegerAttr n t')) t)"
    and ty: "tyOf s v = TensorTy sh t" "isIntTy t" "sh \<noteq> []" "norm t n = n"
  shows "computes E s (visitOperandConstSplat v (DenseElementsAttr (Some (IntegerAttr n t')) t)) v True"
proof (rule computesI)
  fix s1 assume g1: "grows s s1"
  let ?Q = "\<lambda>st t. grows s1 t \<and> describes E t v st \<and> (True \<longrightarrow> scalar st \<noteq> None)"
  have nf: "\<not> isFloatLike t" "\<not> isPtrTy t" using ty(2) by (cases t; simp)+
  have "wp (createIndexConst n) (\<lambda>c u. ?Q (emptyState\<lparr>
           offsets := splatOffsets (Some c) sh, origiOffsets := splatOffsets (Some c) sh,
           sizes := map getIndexAttr sh, strides := map (\<lambda>_. index0) sh,
           shape := map (\<lambda>_. index0) sh, scalar := Some c\<rparr>) u) s1"
  proof (rule wp_createIndexConst [OF growsD(2) [OF g1]])
    fix c u assume c: "grows s1 u" "valid u c" "tyOf u c = IndexTy" "\<And>E idx. eval E u c idx = wrap 64 n"
    have g: "grows s u" using g1 c(1) grows_trans by blast
    let ?st = "emptyState\<lparr>offsets := splatOffsets (Some c) sh, origiOffsets := splatOffsets (Some c) sh,
           sizes := map getIndexAttr sh, strides := map (\<lambda>_. index0) sh,
           shape := map (\<lambda>_. index0) sh, scalar := Some c\<rparr>"
    have p: "plain u ?st" by (rule plain_splat [of _ "Some c" sh]) (use c in \<open>auto simp: emptyState_def\<close>)
    have lin: "lin E u ?st idx = wrap 64 n" if "inB sh idx" for idx
      using lin_splat [OF p ty(3), of "Some c" idx E] inB_length [OF that] c by simp
    have "eval E s v idx = n" for idx
      using eval_unfold [OF wf v, of E] op ty nf by (simp add: denOp_def)
    then show "?Q ?st u"
      using c p lin nf ty tyOf_grows [OF g v] eval_grows [OF g v]
      by (simp add: describes_def emptyState_def addrVal_def splatOffsets_def)
  qed
  then show "wp (visitOperandConstSplat v (DenseElementsAttr (Some (IntegerAttr n t')) t)) ?Q s1"
    using ty nf tyOf_grows [OF _ valid_grows [OF g1 v]] tyOf_grows [OF g1 v]
    by (simp add: visitOperandConstSplat_def wp_simps)
      (erule wp_mono, simp add: splatOffsets_def getIndexAttr_0 Let_def wp_ret cong: if_cong)
qed

end
