(* ===== verification/Ptr_Main.thy ===== *)
theory Ptr_Main
  imports Ptr_Sound
begin

text \<open>
  The main theorem on \<open>visitOperand\<close>: \<open>affine E pa s v sc\<close> collects the terms that the analysis
  decomposes into offsets and strides, with the conditions under which the decomposition keeps
  their value; on them the visit returns, and its state describes the term.
\<close>

section \<open>Affine terms\<close>

text \<open>
  \<open>sc\<close> says that the state carries a scalar, the factor a multiplication needs.  The premises on
  types are those of the MLIR verifier.  The premises on values are \<open>exact\<close> (no wrap-around of an
  operation narrower than 64 bits), a range of more than one element, and an unsigned extension of
  values that are not negative.
\<close>

definition fresh :: "ptr_analysis \<Rightarrow> val \<Rightarrow> bool" where
  "fresh pa v \<longleftrightarrow> isAnalysisingUnstructured pa \<or> knownPtrs pa v = None"

fun scalarSource :: "opr \<Rightarrow> bool" where
  "scalarSource (BlockArg _) = True"
| "scalarSource (IntToPtrOp _) = True"
| "scalarSource IfResultOp = True"
| "scalarSource (SelectOp _ _ _) = True"
| "scalarSource _ = False"

inductive affine :: "env \<Rightarrow> ptr_analysis \<Rightarrow> ir \<Rightarrow> val \<Rightarrow> bool \<Rightarrow> bool"
  for E pa s where
  known: "valid s v \<Longrightarrow> \<not> isAnalysisingUnstructured pa \<Longrightarrow> knownPtrs pa v = Some st \<Longrightarrow>
    affine E pa s v (scalar st \<noteq> None)"
| int: "valid s v \<Longrightarrow> fresh pa v \<Longrightarrow> isIntOrIndex (tyOf s v) \<Longrightarrow> affine E pa s v True"
| ptr: "valid s v \<Longrightarrow> fresh pa v \<Longrightarrow> isPtrTy (tyOf s v) \<Longrightarrow> \<not> isTensorPointerType (tyOf s v) \<Longrightarrow>
    scalarSource (defOp s v) \<Longrightarrow> affine E pa s v False"
| bitcast: "valid s v \<Longrightarrow> fresh pa v \<Longrightarrow> defOp s v = BitcastOp a \<Longrightarrow> isPtrTy (tyOf s v) \<Longrightarrow> isPtrTy (tyOf s a) \<Longrightarrow>
    byteSize (pointee (tyOf s v)) = byteSize (pointee (tyOf s a)) \<Longrightarrow> affine E pa s a f \<Longrightarrow> affine E pa s v f"
| addptr: "valid s v \<Longrightarrow> fresh pa v \<Longrightarrow> defOp s v = AddPtrOp p d \<Longrightarrow> tyOf s p = tyOf s v \<Longrightarrow>
    isPtrTy (tyOf s v) \<or> isTensor (tyOf s v) \<and> isPtrTy (elemTy (tyOf s v)) \<Longrightarrow> \<not> isPtrTy (elemTy (tyOf s d)) \<Longrightarrow>
    shapeOf (tyOf s d) = shapeOf (tyOf s v) \<Longrightarrow> affine E pa s p fa \<Longrightarrow> affine E pa s d fb \<Longrightarrow>
    affine E pa s v (if shapeOf (tyOf s v) = [] then fa \<or> fb else fa \<and> fb)"
| add: "valid s v \<Longrightarrow> fresh pa v \<Longrightarrow> defOp s v = BinOp AddI a b \<Longrightarrow> tyOf s v = TensorTy sh t \<Longrightarrow> isIntOrIndex t \<Longrightarrow>
    tyOf s a = tyOf s v \<Longrightarrow> tyOf s b = tyOf s v \<Longrightarrow> exact E s v \<Longrightarrow> affine E pa s a fa \<Longrightarrow> affine E pa s b fb \<Longrightarrow>
    affine E pa s v (fa \<and> fb)"
| sub: "valid s v \<Longrightarrow> fresh pa v \<Longrightarrow> defOp s v = BinOp SubI a b \<Longrightarrow> tyOf s v = TensorTy sh t \<Longrightarrow> isIntOrIndex t \<Longrightarrow>
    tyOf s a = tyOf s v \<Longrightarrow> tyOf s b = tyOf s v \<Longrightarrow> exact E s v \<Longrightarrow> affine E pa s a fa \<Longrightarrow> affine E pa s b fb \<Longrightarrow>
    affine E pa s v (fa \<and> fb)"
| mul: "valid s v \<Longrightarrow> fresh pa v \<Longrightarrow> defOp s v = BinOp MulI a b \<Longrightarrow> tyOf s v = TensorTy sh t \<Longrightarrow> sh \<noteq> [] \<Longrightarrow>
    isIntOrIndex t \<Longrightarrow> tyOf s a = tyOf s v \<Longrightarrow> tyOf s b = tyOf s v \<Longrightarrow> exact E s v \<Longrightarrow>
    affine E pa s a fa \<Longrightarrow> affine E pa s b fb \<Longrightarrow> fa \<or> fb \<Longrightarrow> affine E pa s v (fa \<and> fb)"
| range: "valid s v \<Longrightarrow> fresh pa v \<Longrightarrow> defOp s v = MakeRangeOp start stop \<Longrightarrow>
    tyOf s v = TensorTy [stop - start] (IntTy 32) \<Longrightarrow> 1 < stop - start \<Longrightarrow> 0 \<le> start \<Longrightarrow> stop \<le> 2 ^ 31 \<Longrightarrow>
    affine E pa s v False"
| splat: "valid s v \<Longrightarrow> fresh pa v \<Longrightarrow> defOp s v = SplatOp a \<Longrightarrow> tyOf s v = TensorTy sh (tyOf s a) \<Longrightarrow> sh \<noteq> [] \<Longrightarrow>
    isIntOrIndex (tyOf s a) \<or> isPtrTy (tyOf s a) \<Longrightarrow> \<not> isTensorPointerType (tyOf s a) \<Longrightarrow>
    affine E pa s a f \<Longrightarrow> affine E pa s v f"
| const: "valid s v \<Longrightarrow> fresh pa v \<Longrightarrow> defOp s v = ConstantOp (DenseElementsAttr (Some (IntegerAttr n t')) t) \<Longrightarrow>
    tyOf s v = TensorTy sh t \<Longrightarrow> isIntTy t \<Longrightarrow> sh \<noteq> [] \<Longrightarrow> norm t n = n \<Longrightarrow> affine E pa s v True"
| expand: "valid s v \<Longrightarrow> fresh pa v \<Longrightarrow> defOp s v = ExpandDimsOp a ax \<Longrightarrow> tyOf s a = TensorTy sh t \<Longrightarrow>
    tyOf s v = TensorTy (insert_at ax 1 sh) t \<Longrightarrow> sh \<noteq> [] \<Longrightarrow> ax \<le> length sh \<Longrightarrow> \<not> isFloatLike t \<Longrightarrow>
    affine E pa s a f \<Longrightarrow> affine E pa s v f"
| broadcast: "valid s v \<Longrightarrow> fresh pa v \<Longrightarrow> defOp s v = BroadcastOp a \<Longrightarrow> tyOf s a = TensorTy sh t \<Longrightarrow>
    tyOf s v = TensorTy sh' t \<Longrightarrow> sh \<noteq> [] \<Longrightarrow> list_all2 (\<lambda>m n. m = n \<or> m = 1 \<and> 1 < n) sh sh' \<Longrightarrow> \<not> isFloatLike t \<Longrightarrow>
    affine E pa s a f \<Longrightarrow> affine E pa s v f"
| extsi: "valid s v \<Longrightarrow> fresh pa v \<Longrightarrow> defOp s v = CastOp ExtSI a \<Longrightarrow> tyOf s a = TensorTy sh (IntTy n) \<Longrightarrow>
    tyOf s v = TensorTy sh (IntTy w) \<Longrightarrow> n \<le> w \<Longrightarrow> affine E pa s a f \<Longrightarrow> affine E pa s v f"
| extui: "valid s v \<Longrightarrow> fresh pa v \<Longrightarrow> defOp s v = CastOp ExtUI a \<Longrightarrow> tyOf s a = TensorTy sh (IntTy n) \<Longrightarrow>
    tyOf s v = TensorTy sh (IntTy w) \<Longrightarrow> n \<le> w \<Longrightarrow> (\<And>idx. inB sh idx \<Longrightarrow> 0 \<le> eval E s a idx) \<Longrightarrow>
    affine E pa s a f \<Longrightarrow> affine E pa s v f"

text \<open>The states the caller has registered describe their values.\<close>

definition knownOk :: "env \<Rightarrow> ptr_analysis \<Rightarrow> ir \<Rightarrow> bool" where
  "knownOk E pa s \<longleftrightarrow> (\<forall>v st. knownPtrs pa v = Some st \<longrightarrow> valid s v \<and> describes E s v st)"

section \<open>The visit\<close>

lemma computes_known:
  assumes "knownOk E pa s" "valid s v" "\<not> isAnalysisingUnstructured pa" "knownPtrs pa v = Some st" "modeOk pa"
  shows "computes E s (visitOperandStep visit pa v) v (scalar st \<noteq> None)"
  using assms describes_grows [of s _ v E st]
  by (auto simp: computes_def visitOperandStep_def wp_simps knownOk_def dest: growsD)

text \<open>On a value that is not known, one step of the visit is the dispatch on its type and definition.\<close>

lemma computes_step:
  assumes "modeOk pa" "fresh pa v" "valid s v"
    and "isIntTy (tyOf s v) \<Longrightarrow> computes E s (bindM (createIndexCast IndexTy v) (\<lambda>c. ret (emptyState\<lparr>scalar := Some c\<rparr>))) v sc"
    and "tyOf s v = IndexTy \<Longrightarrow> computes E s (ret (emptyState\<lparr>scalar := Some v\<rparr>)) v sc"
    and "isPtrTy (tyOf s v) \<Longrightarrow> computes E s (visitPointer visit pa v (defOp s v)) v sc"
    and "\<not> isIntOrIndex (tyOf s v) \<Longrightarrow> \<not> isPtrTy (tyOf s v) \<Longrightarrow> \<not> isBlockArg (defOp s v) \<and>
      computes E s (visitTensor visit pa v (defOp s v)) v sc"
  shows "computes E s (visitOperandStep visit pa v) v sc"
proof (rule computesI)
  fix s1 assume g: "grows s s1"
  note eqs = tyOf_grows [OF g assms(3)] defOp_grows [OF g assms(3)]
  have fr: "(if isAnalysisingUnstructured pa then None else knownPtrs pa v) = None"
    using assms(2) by (auto simp: fresh_def)
  show "wp (visitOperandStep visit pa v) (\<lambda>st t. grows s1 t \<and> describes E t v st \<and> (sc \<longrightarrow> scalar st \<noteq> None)) s1"
    using assms(4-7) g assms(1) unfolding visitOperandStep_def fr computes_def
    by (cases "tyOf s v") (simp_all add: wp_simps eqs)
qed

lemma computes_int:
  assumes "valid s v" "isIntTy (tyOf s v)"
  shows "computes E s (bindM (createIndexCast IndexTy v) (\<lambda>c. ret (emptyState\<lparr>scalar := Some c\<rparr>))) v True"
proof (rule computesI)
  fix s1 assume g: "grows s s1"
  have t: "shapeOf (tyOf s v) = []" "\<not> isFloatLike (tyOf s v)" "\<not> isPtrTy (elemTy (tyOf s v))"
    using assms(2) by (cases "tyOf s v"; simp)+
  have "wp (createIndexCast IndexTy v)
    (\<lambda>c t. grows s1 t \<and> describes E t v (emptyState\<lparr>scalar := Some c\<rparr>)) s1"
  proof (rule wp_createIndexCast [OF growsD(2) [OF g] valid_grows [OF g assms(1)]])
    fix c u assume c: "grows s1 u" "valid u c" "tyOf u c = IndexTy"
      "\<And>E idx. eval E u c idx = norm IndexTy (eval E s1 v idx)"
    then have gu: "grows s u" using g grows_trans by blast
    then show "grows s1 u \<and> describes E u v (emptyState\<lparr>scalar := Some c\<rparr>)"
      using c t tyOf_grows [OF gu assms(1)] eval_grows [OF gu assms(1)] eval_grows [OF g assms(1)]
      by (simp add: describes_def plain_def emptyState_def addrVal_def lin_rank0)
  qed (use t tyOf_grows [OF g assms(1)] in simp_all)
  then show "wp (bindM (createIndexCast IndexTy v) (\<lambda>c. ret (emptyState\<lparr>scalar := Some c\<rparr>)))
      (\<lambda>st t. grows s1 t \<and> describes E t v st \<and> (True \<longrightarrow> scalar st \<noteq> None)) s1"
    by (simp add: wp_simps)
qed

lemma computes_index:
  assumes "valid s v" "tyOf s v = IndexTy"
  shows "computes E s (ret (emptyState\<lparr>scalar := Some v\<rparr>)) v True"
  using assms
  by (auto simp: computes_def wp_ret describes_def plain_def emptyState_def addrVal_def lin_rank0
      tyOf_grows valid_grows dest: growsD)

lemma computes_ptr:
  assumes "valid s v" "isPtrTy (tyOf s v)" "\<not> isTensorPointerType (tyOf s v)"
  shows "computes E s (ret (emptyState\<lparr>source := Some v\<rparr>)) v False"
proof -
  have "shapeOf (tyOf s v) = []" "isPtrTy (elemTy (tyOf s v))" using assms(2) by (cases "tyOf s v"; simp)+
  then show ?thesis using assms
    by (auto simp: computes_def wp_ret describes_def plain_def emptyState_def addrVal_def lin_rank0
        tyOf_grows valid_grows dest: growsD)
qed

text \<open>An operation with the value of its operand is described by the operand's state.\<close>

lemma computes_same:
  assumes v: "valid s v" and a: "valid s a" and m: "computes E s m a f"
    and ty: "shapeOf (tyOf s v) = shapeOf (tyOf s a)" "isPtrTy (elemTy (tyOf s v)) = isPtrTy (elemTy (tyOf s a))"
      "\<And>t. grows s t \<Longrightarrow> isPtrTy (elemTy (tyOf s a)) \<Longrightarrow> inherits t v a"
    and val: "\<And>idx. inB (shapeOf (tyOf s a)) idx \<Longrightarrow> w64 (eval E s v idx) = w64 (eval E s a idx)"
  shows "computes E s m v f"
proof (rule computesI)
  fix s1 assume g: "grows s s1"
  show "wp m (\<lambda>st t. grows s1 t \<and> describes E t v st \<and> (f \<longrightarrow> scalar st \<noteq> None)) s1"
  proof (rule wp_computes [OF m g])
    fix st t assume t: "grows s1 t" "grows s t" "describes E t a st" "f \<Longrightarrow> scalar st \<noteq> None"
    have "describes E t v st"
      by (rule describes_reshape [OF t(3) describes_plain [OF t(3)], where h = "\<lambda>idx. idx"])
        (use t ty val v a describes_rank [OF t(3)] tyOf_grows [OF t(2)] eval_grows [OF t(2)]
          in \<open>simp_all add: describes_def\<close>)
    then show "grows s1 t \<and> describes E t v st \<and> (f \<longrightarrow> scalar st \<noteq> None)" using t by simp
  qed
qed

lemma cast_value:
  assumes "wf_ir s" "valid s v" "defOp s v = CastOp k a" "tyOf s a = TensorTy sh (IntTy n)"
    "tyOf s v = TensorTy sh (IntTy w)" "n \<le> w"
    and "castSem k n (eval E s a idx) = eval E s a idx"
  shows "eval E s v idx = eval E s a idx"
proof -
  have "valid s a" using assms(1-3) cast_operand by blast
  then have "wrap n (eval E s a idx) = eval E s a idx"
    using eval_norm [OF assms(1), of a E idx] assms(4) by (simp add: norm_def)
  then have "wrap w (eval E s a idx) = eval E s a idx" using wrap_widen [OF assms(6)] by metis
  then show ?thesis using assms eval_unfold [OF assms(1,2), of E] by (simp add: denOp_def norm_def)
qed

lemma isPtr_types: "isPtrTy t \<Longrightarrow> shapeOf t = [] \<and> elemTy t = t \<and> \<not> isIntTy t \<and> t \<noteq> IndexTy \<and> \<not> isFloatLike t \<and> width t = 64"
  by (cases t) simp_all

text \<open>The visit of the operands of \<open>v\<close>.\<close>

definition visitBelow :: "ptr_analysis \<Rightarrow> val \<Rightarrow> visit" where
  "visitBelow pa v u = (if u < v then visitOperand pa u else raise Abort)"

lemma visitOperand_unfold: "visitOperand pa v = visitOperandStep (visitBelow pa v) pa v"
  by (simp add: visitOperand.simps [of pa v] visitBelow_def [abs_def])

lemma computes_below:
  "computes E s (visitOperand pa a) u f \<Longrightarrow> a < v \<Longrightarrow> computes E s (visitBelow pa v a) u f"
  by (simp add: visitBelow_def)

lemma visitOperand_computes:
  assumes wf: "wf_ir s" and mode: "modeOk pa" and known: "knownOk E pa s" and aff: "affine E pa s v sc"
  shows "computes E s (visitOperand pa v) v sc"
  using aff
proof (induction rule: affine.induct)
  case (known v st)
  then show ?case by (subst visitOperand_unfold) (rule computes_known [OF assms(3) _ _ _ mode])
next
  case (int v)
  then show ?case
    by (subst visitOperand_unfold) (rule computes_step [OF mode int(2,1)]; cases "tyOf s v"; simp add: computes_int computes_index)
next
  case (ptr v)
  then show ?case using computes_ptr [OF ptr(1,3,4), of E] isPtr_types [OF ptr(3)]
    by (subst visitOperand_unfold)
      (rule computes_step [OF mode ptr(2,1)]; cases "tyOf s v"; cases "defOp s v"; simp add: visitPointer_def visitOperandIntToPtr_def)
next
  case (bitcast v a f)
  have a: "a < v" "valid s a" using wf_ir_operand [OF wf bitcast(1), of a] wf_operand_valid [OF wf bitcast(1), of a] bitcast(3) by auto
  note ty = isPtr_types [OF bitcast(4)] isPtr_types [OF bitcast(5)]
  have "eval E s v idx = eval E s a idx" for idx
    using eval_unfold [OF wf bitcast(1), of E] eval_norm [OF wf a(2), of E idx] bitcast(3) ty
    by (simp add: denOp_def norm_def)
  then have c: "computes E s (visitOperand pa a) v f"
    using bitcast ty tyOf_grows valid_grows defOp_grows a(2)
    by (intro computes_same [OF bitcast(1) a(2) bitcast.IH] inherits_bitcast) simp_all
  have "computes E s (visitOperandBitcast (visitBelow pa v) v a) v f"
  proof (rule computesI)
    fix s1 assume g: "grows s s1"
    have "isPtrTypeLike (tyOf s1 a)" "isPtrTypeLike (tyOf s1 v)"
      using bitcast(4,5) tyOf_grows [OF g a(2)] tyOf_grows [OF g bitcast(1)]
      by (cases "tyOf s a"; cases "tyOf s v"; simp add: isPtrTypeLike_def)+
    then show "wp (visitOperandBitcast (visitBelow pa v) v a) (\<lambda>st t. grows s1 t \<and> describes E t v st \<and> (f \<longrightarrow> scalar st \<noteq> None)) s1"
      using c a g by (simp add: visitOperandBitcast_def wp_simps computes_def visitBelow_def)
  qed
  then show ?case
    using bitcast ty by (subst visitOperand_unfold) (rule computes_step [OF mode bitcast(2,1)]; simp add: visitPointer_def)
next
  case (addptr v p d fa fb)
  have a: "p < v" "d < v"
    using wf_ir_operand [OF wf addptr(1), of p] wf_ir_operand [OF wf addptr(1), of d] addptr(3) by auto
  have ty: "isPtrTy (elemTy (tyOf s v))" "\<not> isFloatLike (tyOf s v)" "width (tyOf s v) = 64" "\<not> isIntOrIndex (tyOf s v)"
    using addptr(5) isPtr_types [of "tyOf s v"] isPtr_types [of "elemTy (tyOf s v)"] by (cases "tyOf s v"; auto)+
  have "computes E s (visitOperandAddptr (visitBelow pa v) pa p d) v (if shapeOf (tyOf s v) = [] then fa \<or> fb else fa \<and> fb)"
    by (rule computes_Addptr [OF wf addptr(1,3) mode])
      (use addptr a ty in \<open>simp_all add: computes_below\<close>)
  then show ?case
    using addptr ty by (subst visitOperand_unfold)
      (rule computes_step [OF mode addptr(2,1)]; cases "tyOf s v"; simp add: visitPointer_def visitTensor_def)
next
  case (add v a b sh t fa fb)
  have a: "a < v" "b < v" using bin_operands [OF wf add(1,3)] by auto
  have t: "\<not> isPtrTy t" using add(5) by (cases t) simp_all
  have "computes E s (visitOperandAdd (visitBelow pa v) pa a b) v (fa \<and> fb)"
    by (rule computes_Add [where visit = "visitBelow pa v", OF wf add(1,3) mode _ _ add(4) t add(6,7,8)])
      (use add.IH a in \<open>blast intro: computes_below\<close>)+
  then show ?case using add
    by (subst visitOperand_unfold) (rule computes_step [OF mode add(2,1)]; simp add: visitTensor_def)
next
  case (sub v a b sh t fa fb)
  have a: "a < v" "b < v" using bin_operands [OF wf sub(1,3)] by auto
  have t: "\<not> isPtrTy t" using sub(5) by (cases t) simp_all
  have "computes E s (visitOperandSub (visitBelow pa v) pa a b) v (fa \<and> fb)"
    by (rule computes_Sub [where visit = "visitBelow pa v", OF wf sub(1,3) _ _ sub(4) t sub(6,7,8)])
      (use sub.IH a in \<open>blast intro: computes_below\<close>)+
  then show ?case using sub
    by (subst visitOperand_unfold) (rule computes_step [OF mode sub(2,1)]; simp add: visitTensor_def)
next
  case (mul v a b sh t fa fb)
  have a: "a < v" "b < v" using bin_operands [OF wf mul(1,3)] by auto
  have t: "\<not> isPtrTy t" using mul(6) by (cases t) simp_all
  have "computes E s (visitOperandMul (visitBelow pa v) pa a b) v (fa \<and> fb)"
    by (rule computes_Mul [where visit = "visitBelow pa v", OF wf mul(1,3) mode _ _ mul(4,5) t mul(7,8,9) mul(12)])
      (use mul.IH a in \<open>blast intro: computes_below\<close>)+
  then show ?case using mul
    by (subst visitOperand_unfold) (rule computes_step [OF mode mul(2,1)]; simp add: visitTensor_def)
next
  case (range v start stop)
  then show ?case using computes_MakeRange [OF wf range(1,3,4,5,6,7), of E]
    by (subst visitOperand_unfold) (rule computes_step [OF mode range(2,1)]; simp add: visitTensor_def)
next
  case (splat v a sh f)
  have a: "a < v" using wf_ir_operand [OF wf splat(1), of a] splat(3) by auto
  have "computes E s (visitOperandSplat (visitBelow pa v) v a) v f"
    by (rule computes_Splat [where visit = "visitBelow pa v", OF wf splat(1,3) _ splat(4-7)]) (use splat.IH a in \<open>blast intro: computes_below\<close>)+
  then show ?case using splat
    by (subst visitOperand_unfold) (rule computes_step [OF mode splat(2,1)]; simp add: visitTensor_def)
next
  case (const v n t' t sh)
  then show ?case using computes_ConstSplat [OF wf const(1,3-7), of E]
    by (subst visitOperand_unfold) (rule computes_step [OF mode const(2,1)]; simp add: visitTensor_def)
next
  case (expand v a ax sh t f)
  have a: "a < v" using wf_ir_operand [OF wf expand(1), of a] expand(3) by auto
  have "computes E s (visitOperandExpandDims (visitBelow pa v) v a ax) v f"
    by (rule computes_ExpandDims [where visit = "visitBelow pa v", OF wf expand(1,3) _ expand(4-8)]) (use expand.IH a in \<open>blast intro: computes_below\<close>)+
  then show ?case using expand
    by (subst visitOperand_unfold) (rule computes_step [OF mode expand(2,1)]; simp add: visitTensor_def)
next
  case (broadcast v a sh t sh' f)
  have a: "a < v" using wf_ir_operand [OF wf broadcast(1), of a] broadcast(3) by auto
  have "computes E s (visitOperandBroadcast (visitBelow pa v) v a) v f"
    by (rule computes_Broadcast [where visit = "visitBelow pa v", OF wf broadcast(1,3) _ broadcast(4-8)]) (use broadcast.IH a in \<open>blast intro: computes_below\<close>)+
  then show ?case using broadcast
    by (subst visitOperand_unfold) (rule computes_step [OF mode broadcast(2,1)]; simp add: visitTensor_def)
next
  case (extsi v a sh n w f)
  have a: "a < v" "valid s a" using cast_operand [OF wf extsi(1,3)] by auto
  have "computes E s (visitOperand pa a) v f"
    using extsi by (intro computes_same [OF extsi(1) a(2) extsi.IH]) (simp_all add: cast_value [OF wf extsi(1,3-6)])
  then show ?case using extsi a
    by (subst visitOperand_unfold)
      (rule computes_step [OF mode extsi(2,1)]; simp add: visitTensor_def visitOperandExtSI_def computes_below)
next
  case (extui v a sh n w f)
  have a: "a < v" "valid s a" using cast_operand [OF wf extui(1,3)] by auto
  have val: "eval E s v idx = eval E s a idx" if "inB sh idx" for idx
  proof (rule cast_value [OF wf extui(1,3-6)])
    have "wrap n (eval E s a idx) = eval E s a idx"
      using eval_norm [OF wf a(2), of E idx] extui(4) by (simp add: norm_def)
    then have "eval E s a idx < 2 ^ (n - 1)" using wrap_upper [of n "eval E s a idx"] by simp
    also have "(2 :: int) ^ (n - 1) \<le> 2 ^ n" by simp
    finally show "castSem ExtUI n (eval E s a idx) = eval E s a idx"
      using extui(7) [OF that] by (simp add: take_bit_int_eq_self_iff)
  qed
  have "computes E s (visitOperand pa a) v f"
    using extui by (intro computes_same [OF extui(1) a(2) extui.IH]) (simp_all add: val)
  then show ?case using extui a
    by (subst visitOperand_unfold)
      (rule computes_step [OF mode extui(2,1)]; simp add: visitTensor_def visitOperandExtUI_def computes_below)
qed

end
