(* ===== verification/Rewrite.thy ===== *)
theory Rewrite
  imports Ptr_Visit
begin

text \<open>
  The rewriting of pointer operations, \<open>lib/AnalysisStructured/PtrAnalysis.cpp\<close> lines 1460 to
  1785 and 2341 to 2596.  A rewrite returns the updated analysis object and whether it succeeded:
  what it has recorded before a failure stays recorded.
\<close>

type_synonym rewritten = "ptr_analysis \<times> bool"

definition setKnown :: "val \<Rightarrow> ptr_state \<Rightarrow> ptr_analysis \<Rightarrow> ptr_analysis" where
  "setKnown v st pa = pa\<lparr>knownPtrs := (knownPtrs pa)(v \<mapsto> st)\<rparr>"

definition mapPtr :: "val \<Rightarrow> val \<Rightarrow> ptr_analysis \<Rightarrow> ptr_analysis" where
  "mapPtr v w pa = pa\<lparr>ptrMap := (ptrMap pa)(v \<mapsto> w)\<rparr>"

section \<open>Address computations\<close>

text \<open>
  A tensor of pointers that is not structured is visited a second time, with the offsets of its
  unstructured dimension computed, and becomes a gather/scatter pointer.
\<close>

definition rewriteUnstructured :: "ptr_analysis \<Rightarrow> val \<Rightarrow> val \<Rightarrow> val \<Rightarrow> ptr_state \<Rightarrow> rewritten irm" where
  "rewriteUnstructured pa v ptr offset st =
     bindM (getRank st) (\<lambda>rank.
     if rank = 1 then ret (pa, False) else
     let pa' = pa\<lparr>isAnalysisingUnstructured := True\<rparr> in
     bindM (attemptM (visitOperandAddptr (visitOperand pa') pa' ptr offset)) (\<lambda>res. case res of
       None \<Rightarrow> ret (pa, False)
     | Some unstructuredState \<Rightarrow>
         bindM (attemptM (mergeUnstructuredState st unstructuredState)) (\<lambda>merged. case merged of
           None \<Rightarrow> ret (pa, False)
         | Some st' \<Rightarrow>
             bindM (createTTSMakeGatherScatterTensorPtrOp st') (\<lambda>(st'', m).
             ret (mapPtr v m (setKnown v st'' pa), True)))))"

definition rewriteAddptrOp :: "ptr_analysis \<Rightarrow> val \<Rightarrow> rewritten irm" where
  "rewriteAddptrOp pa v =
     bindM (getM (\<lambda>s. defOp s v)) (\<lambda>d.
     bindM (castM (case d of AddPtrOp p off \<Rightarrow> Some (p, off) | _ \<Rightarrow> None)) (\<lambda>(ptr, offset).
     bindM (attemptM (visitOperandAddptr (visitOperand pa) pa ptr offset)) (\<lambda>res. case res of
       None \<Rightarrow> ret (pa, False)
     | Some st \<Rightarrow>
         let pa1 = setKnown v st pa in
         bindM (getM (\<lambda>s. (isTensor (tyOf s ptr), isStructured s st))) (\<lambda>(tensor, structured).
         if \<not> tensor then ret (mapPtr v v pa1, True)
         else if structured then
           bindM (createTTSMakeTensorPtrOp st (origiOffsets st)) (\<lambda>m. ret (mapPtr v m pa1, True))
         else if enableMGS pa then rewriteUnstructured pa1 v ptr offset st
         else ret (pa1, False)))))"

section \<open>Block pointers\<close>

text \<open>\<open>offsetMap\<close> holds the offsets of the last \<open>tt.make_tensor_ptr\<close> of the walk for each base.\<close>

definition rewriteMakeTensorPtrOp :: "ptr_analysis \<Rightarrow> (val \<Rightarrow> ofr list) \<Rightarrow> val \<Rightarrow> rewritten irm" where
  "rewriteMakeTensorPtrOp pa offsetMap v =
     bindM (getM (\<lambda>s. defOp s v)) (\<lambda>d.
     bindM (castM (case d of MakeTensorPtrOp base shs strs offs ord \<Rightarrow> Some (base, shs, strs, offs, ord) | _ \<Rightarrow> None))
       (\<lambda>(base, shs, strs, offs, ord).
     bindM (attemptM (visitOperandMakeTensorPtr v base shs strs offs ord)) (\<lambda>res. case res of
       None \<Rightarrow> ret (pa, False)
     | Some st \<Rightarrow>
         bindM (castM (source st)) (\<lambda>b.
         bindM (createTTSMakeTensorPtrOp st (offsetMap b)) (\<lambda>m.
         ret (mapPtr v m (setKnown v st pa), True))))))"

text \<open>An offset as a value: a constant for an integer attribute.\<close>

definition offsetValue :: "ofr \<Rightarrow> val irm" where
  "offsetValue x = (case getIntAttr x of
     Some n \<Rightarrow> createIndexConst n
   | None \<Rightarrow> castM (case x of Val v \<Rightarrow> Some v | Attr _ \<Rightarrow> None))"

definition advanceDim :: "val \<times> ofr \<times> ofr \<times> ofr \<Rightarrow> (ofr \<times> ofr) irm" where
  "advanceDim = (\<lambda>(increment, offset, origiOffset, stride).
     bindM (offsetValue offset) (\<lambda>offsetV.
     bindM (createIndexCast IndexTy increment) (\<lambda>castOp.
     bindM (castM (case stride of Val v \<Rightarrow> Some v | Attr _ \<Rightarrow> None)) (\<lambda>str.
     bindM (createBin MulI castOp str) (\<lambda>mulOp.
     bindM (createBin AddI mulOp offsetV) (\<lambda>addOp.
     bindM (offsetValue origiOffset) (\<lambda>origiV.
     bindM (createBin AddI castOp origiV) (\<lambda>origiAdd.
     ret (Val addOp, Val origiAdd)))))))))"

definition rewriteAdvanceOp :: "ptr_analysis \<Rightarrow> val \<Rightarrow> rewritten irm" where
  "rewriteAdvanceOp pa v =
     bindM (getM (\<lambda>s. defOp s v)) (\<lambda>d.
     bindM (castM (case d of AdvanceOp p ds \<Rightarrow> Some (p, ds) | _ \<Rightarrow> None)) (\<lambda>(ptr, increments).
     bindM (attemptM (visitOperand pa ptr)) (\<lambda>res. case res of
       None \<Rightarrow> ret (pa, False)
     | Some st \<Rightarrow>
         thenM (assertM (isBlockPtr st))
         (bindM (mapM advanceDim (zip increments (zip (offsets st) (zip (origiOffsets st) (strides st))))) (\<lambda>dims.
          let st' = st\<lparr>offsets := map fst dims, origiOffsets := map snd dims\<rparr> in
          bindM (createTTSMakeTensorPtrOp st' (origiOffsets st')) (\<lambda>m.
          ret (mapPtr v m (setKnown v st' pa), True)))))))"

definition isPointerType :: "ty \<Rightarrow> bool" where
  "isPointerType t = (case t of TensorTy _ e \<Rightarrow> isPtrTy e | _ \<Rightarrow> isPtrTy t)"

end
