(* ===== verification/Rewrite_Sound.thy ===== *)
theory Rewrite_Sound
  imports Ptr_Main Rewrite
begin

text \<open>
  The pointers that the rewriting emits have the addresses of the pointers they replace: tensors of
  pointers from \<open>tt.addptr\<close>, block pointers from \<open>tt.make_tensor_ptr\<close> and \<open>tt.advance\<close>.
\<close>

section \<open>The emitted operation\<close>

text \<open>The address a state gives to an index; for a block pointer \<open>shape\<close> is the parent's shape, not a modulo.\<close>

definition blockAddr :: "env \<Rightarrow> ir \<Rightarrow> ptr_state \<Rightarrow> val \<Rightarrow> int list \<Rightarrow> 64 word" where
  "blockAddr E s st b idx = w64 (eval E s b []) + w64 (byteSize (pointee (tyOf s b))) *
     w64 (sumDims (osem E s) (offsets st) (strides st)
       (if order st = [] then shape st else map (\<lambda>_. index0) (shape st)) idx)"

lemma staticSizes_map:
  assumes "getRank st = ret (length (sizes st))" "sizes st = map getIndexAttr sh" "\<And>n. n \<in> set sh \<Longrightarrow> in64 n"
  shows "staticSizes st = ret sh"
proof -
  have "mapM (\<lambda>i. castM (getIntAttr (sizes st ! i))) [0..<length sh] = ret (map (\<lambda>i. sh ! i) [0..<length sh])"
    using assms(2,3) by (intro mapM_ret) (simp add: wrap_in64)
  then show ?thesis using assms(1,2) by (simp add: staticSizes_def map_nth)
qed

text \<open>The original offsets may also be values of an integer type, which are cast to index.\<close>

definition int_ofr :: "ir \<Rightarrow> ofr \<Rightarrow> bool" where
  "int_ofr s x \<longleftrightarrow> idx_ofr s x \<or> (\<exists>v. x = Val v \<and> valid s v \<and> isIntTy (tyOf s v))"

lemma int_ofr_grows: "grows s t \<Longrightarrow> int_ofr s x \<Longrightarrow> int_ofr t x \<and> osem E t x = osem E s x"
  by (auto simp: int_ofr_def idx_ofr_grows osem_grows valid_grows tyOf_grows eval_grows)

lemma wp_origiOffsets:
  assumes "wf_ir s" "\<And>x. x \<in> set xs \<Longrightarrow> int_ofr s x"
    and post: "\<And>yss t. grows s t \<Longrightarrow> (\<And>x. x \<in> set (concat yss) \<Longrightarrow> idx_ofr t x) \<Longrightarrow>
      length yss = length xs \<Longrightarrow> (\<And>E i. i < length xs \<Longrightarrow> map (\<lambda>x. w64 (osem E t x)) (yss ! i) = [w64 (osem E s (xs ! i))]) \<Longrightarrow> Q yss t"
  shows "wp (mapM (\<lambda>x. case x of
         Val v \<Rightarrow> bindM (getM (\<lambda>s. tyOf s v)) (\<lambda>t.
           if t = IndexTy then ret [Val v]
           else bindM (createIndexCast IndexTy v) (\<lambda>c. ret [Val c]))
       | Attr a \<Rightarrow> (case getIntAttr x of
           Some n \<Rightarrow> bindM (create (ConstantOp a) IndexTy) (\<lambda>c. ret [Val c])
         | None \<Rightarrow> ret [])) xs) Q s"
proof (rule wp_mapM_grows [where P = "\<lambda>x ys t. (\<forall>y \<in> set ys. idx_ofr t y) \<and>
    (\<forall>E. map (\<lambda>x. w64 (osem E t x)) ys = [w64 (osem E s x)])"])
  fix x t Q' assume x: "x \<in> set xs" and g: "grows s t"
    and Q': "\<And>y t'. grows t t' \<Longrightarrow> (\<forall>z \<in> set y. idx_ofr t' z) \<and>
      (\<forall>E. map (\<lambda>x. w64 (osem E t' x)) y = [w64 (osem E s x)]) \<Longrightarrow> Q' y t'"
  have xi: "int_ofr s x" using assms(2) x by blast
  have eq: "osem E t x = osem E s x" for E using int_ofr_grows [OF g xi] by blast
  consider (index) "idx_ofr t x" | (int) v where "x = Val v" "valid t v" "isIntTy (tyOf t v)"
    using int_ofr_grows [OF g xi] by (auto simp: int_ofr_def)
  then show "wp (case x of
         Val v \<Rightarrow> bindM (getM (\<lambda>s. tyOf s v)) (\<lambda>t.
           if t = IndexTy then ret [Val v]
           else bindM (createIndexCast IndexTy v) (\<lambda>c. ret [Val c]))
       | Attr a \<Rightarrow> (case getIntAttr x of
           Some n \<Rightarrow> bindM (create (ConstantOp a) IndexTy) (\<lambda>c. ret [Val c])
         | None \<Rightarrow> ret [])) Q' t"
  proof cases
    case index
    then show ?thesis
    proof (cases rule: idx_ofr_cases)
      case (2 v)
      then show ?thesis using Q' growsD(2) [OF g] eq by (simp add: wp_simps)
    next
      case (1 n)
      have "wp (create (ConstantOp (IntegerAttr n IndexTy)) IndexTy) (\<lambda>c. Q' [Val c]) t"
        by (rule wp_create) (use 1 growsD(2) [OF g] eq in \<open>auto intro!: Q' simp: denOp_def wrap_in64\<close>)
      then show ?thesis using 1 by (simp add: wp_simps getIndexAttr_def wrap_in64 getIntAttr_def)
    qed
  next
    case (int v)
    have "\<not> isFloatLike (tyOf t v)" "tyOf t v \<noteq> IndexTy" using int(3) by (cases "tyOf t v"; simp)+
    moreover from this have "wp (createIndexCast IndexTy v) (\<lambda>c. Q' [Val c]) t"
      by (intro wp_createIndexCast) (use int growsD(2) [OF g] eq in \<open>auto intro!: Q'\<close>)
    ultimately show ?thesis using int by (simp add: wp_simps)
  qed
next
  fix yss t assume t: "grows s t" "length yss = length xs"
    "\<And>i. i < length xs \<Longrightarrow> (\<forall>y \<in> set (yss ! i). idx_ofr t y) \<and>
      (\<forall>E. map (\<lambda>x. w64 (osem E t x)) (yss ! i) = [w64 (osem E s (xs ! i))])"
  then show "Q yss t" by (intro post) (auto simp: in_set_conv_nth [of _ yss])
next
  fix x ys t u
  assume "(\<forall>y \<in> set ys. idx_ofr t y) \<and> (\<forall>E. map (\<lambda>x. w64 (osem E t x)) ys = [w64 (osem E s x)])" and g: "grows t u"
  moreover have "map (\<lambda>x. w64 (osem E u x)) ys = map (\<lambda>x. w64 (osem E t x)) ys" if "\<forall>y \<in> set ys. idx_ofr t y" for E
    using that osem_grows [OF g] by simp
  ultimately show "(\<forall>y \<in> set ys. idx_ofr u y) \<and> (\<forall>E. map (\<lambda>x. w64 (osem E u x)) ys = [w64 (osem E s x)])"
    using idx_ofr_grows [OF g] by auto
qed (rule assms(1))

lemma wp_createTTSMakeTensorPtrOp:
  assumes wf: "wf_ir s" and rank: "getRank st = ret (length (sizes st))"
    and sz: "sizes st = map getIndexAttr sh" "\<And>n. n \<in> set sh \<Longrightarrow> in64 n"
    and ofrs: "\<And>x. x \<in> set (offsets st) \<union> set (strides st) \<union> set (shape st) \<Longrightarrow> idx_ofr s x"
    and os: "\<And>x. x \<in> set os \<Longrightarrow> int_ofr s x"
    and b: "source st = Some b" "valid s b" "tyOf s b = PtrTy e" "\<not> isTensorPointerType (PtrTy e)"
    and post: "\<And>m t os'. grows s t \<Longrightarrow> valid t m \<Longrightarrow>
      tyOf t m = (if order st = [] then TensorTy sh (PtrTy e) else PtrTy (TensorTy sh e)) \<Longrightarrow>
      (\<And>E idx. w64 (eval E t m idx) = blockAddr E s st b idx) \<Longrightarrow>
      defOp t m = TTSMakeTensorPtrOp b sh (strides st) (offsets st) os' (shape st) (order st) \<Longrightarrow>
      (\<And>E. map (\<lambda>x. w64 (osem E t x)) os' = map (\<lambda>x. w64 (osem E s x)) os) \<Longrightarrow> Q m t"
  shows "wp (createTTSMakeTensorPtrOp st os) Q s"
  unfolding createTTSMakeTensorPtrOp_def staticSizes_map [OF rank sz, simplified] bindM_ret
proof (subst wp_bindM, rule wp_origiOffsets [OF wf])
  fix yss t assume t: "grows s t" "\<And>x. x \<in> set (concat yss) \<Longrightarrow> idx_ofr t x" "length yss = length os"
    "\<And>E i. i < length os \<Longrightarrow> map (\<lambda>x. w64 (osem E t x)) (yss ! i) = [w64 (osem E s (os ! i))]"
  let ?t = "if order st = [] then TensorTy sh (PtrTy e) else PtrTy (TensorTy sh e)"
  let ?op = "TTSMakeTensorPtrOp b sh (strides st) (offsets st) (concat yss) (shape st) (order st)"
  have pt: "pointee ?t = pointee (PtrTy e)" using b(4) by (cases e) simp_all
  have look: "osem E t x = osem E s x" if "x \<in> set (offsets st) \<union> set (strides st) \<union> set (shape st)" for x E
    using osem_grows [OF t(1)] ofrs that by auto
  have cong: "sumDims (osem E t) (offsets st) (strides st) mds idx = sumDims (osem E s) (offsets st) (strides st) mds idx"
    if "set mds \<subseteq> insert index0 (set (shape st))" for E mds idx
    by (rule sumDims_cong) (use that look in auto)
  have val: "valid t a" if "idx_ofr t x" "a \<in> ofrVals x" for x a
    using that by (auto elim!: idx_ofr_cases simp: getIndexAttr_def)
  have idx: "idx_ofr t x" if "x \<in> set (offsets st) \<union> set (strides st) \<union> set (shape st) \<union> set (concat yss)" for x
    using that t(2) ofrs idx_ofr_grows [OF t(1)] by blast
  have ops: "\<forall>a \<in> operands ?op. valid t a"
    using val [OF idx] valid_grows [OF t(1) b(2)] by (auto simp del: set_concat)
  have orig: "map (\<lambda>x. w64 (osem E t x)) (concat yss) = map (\<lambda>x. w64 (osem E s x)) os" for E
  proof -
    have "map (map (\<lambda>x. w64 (osem E t x))) yss = map (\<lambda>x. [w64 (osem E s x)]) os"
      using t(3,4) by (intro nth_equalityI) simp_all
    then have "concat (map (map (\<lambda>x. w64 (osem E t x))) yss) = map (\<lambda>x. w64 (osem E s x)) os" by simp
    then show ?thesis by (simp add: map_concat)
  qed
  have addr: "denOp E (tyOf t) (eval E t) v ?op ?t idx = eval E s b [] + byteSize (pointee (PtrTy e)) *
      sumDims (osem E s) (offsets st) (strides st) (if order st = [] then shape st else map (\<lambda>_. index0) (shape st)) idx" for E v idx
    using cong [of "shape st" E idx] cong [of "map (\<lambda>_. index0) (shape st)" E idx] eval_grows [OF t(1) b(2)]
    by (auto simp: denOp_def pt osem_def [abs_def] zeroAttr_def index0_def [symmetric])
  have "wp (create ?op ?t) Q t"
  proof (rule wp_create [OF growsD(2) [OF t(1)] ops])
    fix m u assume m: "grows t u" "valid u m" "defOp u m = ?op" "tyOf u m = ?t"
      "\<And>E idx. eval E u m idx = norm ?t (denOp E (tyOf t) (eval E t) m ?op ?t idx)"
    have g: "grows s u" using t(1) m(1) grows_trans by blast
    have nt: "norm ?t x = wrap 64 x" for x by (simp add: norm_def)
    have o: "map (\<lambda>x. w64 (osem E u x)) (concat yss) = map (\<lambda>x. w64 (osem E s x)) os" for E
    proof -
      have "map (\<lambda>x. w64 (osem E u x)) (concat yss) = map (\<lambda>x. w64 (osem E t x)) (concat yss)"
        using osem_grows [OF m(1)] t(2) by (intro map_cong refl arg_cong [of _ _ w64]) blast
      then show ?thesis using orig by metis
    qed
    show "Q m u"
      by (rule post [OF g m(2,4) _ m(3) o]) (simp only: m(5) addr nt blockAddr_def b(3) w64_wrap w64_ring)
  qed simp
  then show "wp (bindM (castM (source st)) (\<lambda>base. bindM (getM (\<lambda>s. tyOf s base)) (\<lambda>bt.
     bindM (makeTensorPtrType bt sh (order st)) (\<lambda>t.
     create (TTSMakeTensorPtrOp base sh (strides st) (offsets st) (concat yss) (shape st) (order st)) t)))) Q t"
    using b tyOf_grows [OF t(1) b(2)] by (simp add: wp_simps makeTensorPtrType_def)
qed (use os in simp)

section \<open>Tensors of pointers\<close>

text \<open>The rewritten \<open>tt.addptr\<close> has the address of the original at every index of the tensor.\<close>

inductive_cases affineE: "affine E pa s v sc"

lemma affine_addptr:
  assumes "affine E pa s v sc" "fresh pa v" "\<not> isAnalysisingUnstructured pa" "defOp s v = AddPtrOp p d"
    "\<not> isIntOrIndex (tyOf s v)"
  shows "\<exists>fa fb. affine E pa s p fa \<and> affine E pa s d fb \<and> tyOf s p = tyOf s v \<and>
    isPtrTy (elemTy (tyOf s v)) \<and> \<not> isPtrTy (elemTy (tyOf s d)) \<and> shapeOf (tyOf s d) = shapeOf (tyOf s v)"
  using assms(1)
proof (rule affineE)
  fix p' d' fa fb
  assume "defOp s v = AddPtrOp p' d'" "tyOf s p' = tyOf s v"
    "isPtrTy (tyOf s v) \<or> isTensor (tyOf s v) \<and> isPtrTy (elemTy (tyOf s v))"
    "\<not> isPtrTy (elemTy (tyOf s d'))" "shapeOf (tyOf s d') = shapeOf (tyOf s v)"
    "affine E pa s p' fa" "affine E pa s d' fb"
  moreover have "isPtrTy (tyOf s v) \<Longrightarrow> elemTy (tyOf s v) = tyOf s v" by (cases "tyOf s v") auto
  ultimately show ?thesis using assms(4) by auto
qed (use assms in \<open>cases "tyOf s v"; auto simp: fresh_def\<close>)+

lemma eval_w64:
  assumes "wf_ir s" "valid s v" "wf_ir t" "valid t m" "width (tyOf s v) = 64" "\<not> isFloatLike (tyOf s v)"
    "width (tyOf t m) = 64" "\<not> isFloatLike (tyOf t m)" "w64 (eval E t m i) = w64 (eval E s v j)"
  shows "eval E t m i = eval E s v j"
  using assms eval_norm [OF assms(1,2), of E j] eval_norm [OF assms(3,4), of E i]
  by (simp add: norm_def w64_inj_wrap)

lemma describes_blockAddr:
  assumes "describes E s v st" "source st = Some b" "offsets st \<noteq> []" "inB (shapeOf (tyOf s v)) idx"
  shows "blockAddr E s st b idx = w64 (eval E s v idx)"
  using assms by (simp add: describes_def plain_def blockAddr_def addrVal_def lin_def)

lemma pointee_inj:
  "pointee (PtrTy e) = pointee (TensorTy sh t) \<Longrightarrow> isPtrTy t \<Longrightarrow> \<not> isTensorPointerType (PtrTy e) \<Longrightarrow> t = PtrTy e"
  by (cases t; cases e) simp_all

lemma wp_rewriteAddptrOp:
  assumes wf: "wf_ir s" and mode: "\<not> isAnalysisingUnstructured pa" and known: "knownOk E pa s"
    and v: "valid s v" "fresh pa v" and op: "defOp s v = AddPtrOp p d" and aff: "affine E pa s v sc"
    and ty: "tyOf s v = TensorTy sh t" "sh \<noteq> []" "\<And>n. n \<in> set sh \<Longrightarrow> in64 n"
    and post: "\<And>m st t. grows s t \<Longrightarrow> describes E t v st \<Longrightarrow> valid t m \<Longrightarrow>
      (\<not> viaCast s v \<Longrightarrow> tyOf t m = tyOf s v) \<Longrightarrow>
      (\<And>idx. inB sh idx \<Longrightarrow> eval E t m idx = eval E s v idx) \<Longrightarrow> Q (mapPtr v m (setKnown v st pa), True) t"
  shows "wp (rewriteAddptrOp pa v) Q s"
proof -
  have tens: "isTensor (tyOf s v)" "\<not> isIntOrIndex (tyOf s v)" using ty by simp_all
  obtain fa fb where aff2: "affine E pa s p fa" "affine E pa s d fb" and tp: "tyOf s p = tyOf s v"
    "isPtrTy (elemTy (tyOf s v))" "\<not> isPtrTy (elemTy (tyOf s d))" "shapeOf (tyOf s d) = shapeOf (tyOf s v)"
    using affine_addptr [OF aff v(2) mode op tens(2)] by blast
  have ok: "modeOk pa" using mode by (simp add: modeOk_def)
  have pt: "isPtrTy t" using tp(2) ty by simp
  have vp: "valid s p" using wf_operand_valid [OF wf v(1), of p] op by simp
  note comp = visitOperand_computes [OF wf ok known]
  have visit: "wp (visitOperandAddptr (visitOperand pa) pa p d) (\<lambda>st u. grows s u \<and> describes E u v st \<and>
      (\<forall>x \<in> set (origiOffsets st). idx_ofr u x)) s"
    by (rule wp_mono [OF wp_visitOperandAddptr [OF wf v(1) op ok comp [OF aff2(1)] comp [OF aff2(2)] tp(1-4) _ _ grows_refl [OF wf]]])
      (use ty isPtr_types [OF pt] in simp_all)
  have emit: "wp (createTTSMakeTensorPtrOp st (origiOffsets st)) (\<lambda>m. Q (mapPtr v m (setKnown v st pa), True)) u"
    if g: "grows s u" and d: "describes E u v st" and o: "\<forall>x \<in> set (origiOffsets st). idx_ofr u x" for st u
  proof -
    note pl = describes_plain [OF d]
    have tu: "tyOf u v = TensorTy sh t" using tyOf_grows [OF g v(1)] ty by simp
    have n: "length (offsets st) = length sh" using describes_rank [OF d] tu by simp
    obtain b where b: "source st = Some b" "valid u b" "isPtrTy (tyOf u b)" "\<not> isTensorPointerType (tyOf u b)"
      using d tu pt by (auto simp: describes_def)
    then obtain e where e: "tyOf u b = PtrTy e" by (cases "tyOf u b") auto
    show ?thesis
    proof (rule wp_createTTSMakeTensorPtrOp [OF growsD(2) [OF g] _ _ ty(3) _ _ b(1,2) e])
      fix m w os' assume m: "grows u w" "valid w m"
        "tyOf w m = (if order st = [] then TensorTy sh (PtrTy e) else PtrTy (TensorTy sh e))"
        "\<And>E idx. w64 (eval E w m idx) = blockAddr E u st b idx"
      have gw: "grows s w" using g m(1) grows_trans by blast
      have "eval E w m idx = eval E s v idx" if "inB sh idx" for idx
      proof (rule eval_w64 [OF wf v(1) growsD(2) [OF m(1)] m(2)])
        have "offsets st \<noteq> []" using n ty(2) by auto
        then show "w64 (eval E w m idx) = w64 (eval E s v idx)"
          using m(4) [of E idx] describes_blockAddr [OF d b(1)] that tu eval_grows [OF g v(1)] by simp
      qed (use ty pt m(3) isPtr_types [OF pt] in \<open>auto split: if_splits\<close>)
      moreover have "tyOf w m = tyOf s v" if "\<not> viaCast s v"
      proof -
        have "order st = []" using pl by (simp add: plain_def)
        moreover have "pointee (tyOf u b) = pointee (tyOf u v)"
          using d b(1) that viaCast_back [OF _ g wf v(1)] by (auto simp: describes_def keepsPointee_def)
        ultimately show ?thesis using m(3) e b(4) tu ty(1) pt pointee_inj [of e sh t] by simp
      qed
      ultimately show "Q (mapPtr v m (setKnown v st pa), True) w"
        using gw m(2) describes_grows [OF m(1) valid_grows [OF g v(1)] d] by (intro post) auto
    qed (use pl o d tu e b in \<open>auto simp: plain_def describes_def int_ofr_def\<close>)
  qed
  have step: "wp (case Some st of None \<Rightarrow> ret (pa, False) | Some st \<Rightarrow>
         let pa1 = setKnown v st pa in
         bindM (getM (\<lambda>s. (isTensor (tyOf s p), isStructured s st))) (\<lambda>(tensor, structured).
         if \<not> tensor then ret (mapPtr v v pa1, True)
         else if structured then
           bindM (createTTSMakeTensorPtrOp st (origiOffsets st)) (\<lambda>m. ret (mapPtr v m pa1, True))
         else if enableMGS pa then rewriteUnstructured pa1 v p d st
         else ret (pa1, False))) Q u"
    if "grows s u \<and> describes E u v st \<and> (\<forall>x \<in> set (origiOffsets st). idx_ofr u x)" for st u
    using that emit [of u st] plain_structured [OF describes_plain [of E u v st]] tyOf_grows [of s u p] vp tp(1) tens
    by (simp add: Let_def wp_simps)
  show ?thesis
    unfolding rewriteAddptrOp_def
    by (simp add: wp_bindM wp_getM wp_castM op) (rule wp_attemptM, rule wp_mono [OF visit], use step in simp)
qed

text \<open>The address computation of a scalar pointer stays, with its state recorded.\<close>

lemma wp_rewriteAddptrOp_scalar:
  assumes wf: "wf_ir s" and mode: "\<not> isAnalysisingUnstructured pa" and known: "knownOk E pa s"
    and v: "valid s v" "fresh pa v" and op: "defOp s v = AddPtrOp p d" and aff: "affine E pa s v sc"
    and ty: "isPtrTy (tyOf s v)"
    and post: "\<And>st t. grows s t \<Longrightarrow> describes E t v st \<Longrightarrow> Q (mapPtr v v (setKnown v st pa), True) t"
  shows "wp (rewriteAddptrOp pa v) Q s"
proof -
  have "\<not> isIntOrIndex (tyOf s v)" using ty by (cases "tyOf s v") simp_all
  then obtain fa fb where aff2: "affine E pa s p fa" "affine E pa s d fb" and tp: "tyOf s p = tyOf s v"
    "\<not> isPtrTy (elemTy (tyOf s d))" "shapeOf (tyOf s d) = shapeOf (tyOf s v)"
    using affine_addptr [OF aff v(2) mode op] by blast
  have ok: "modeOk pa" using mode by (simp add: modeOk_def)
  have vp: "valid s p" using wf_operand_valid [OF wf v(1), of p] op by simp
  have nt: "\<not> isTensor (tyOf s p)" using tp(1) ty by (cases "tyOf s v") auto
  note comp = visitOperand_computes [OF wf ok known]
  have visit: "wp (visitOperandAddptr (visitOperand pa) pa p d) (\<lambda>st u. grows s u \<and> describes E u v st \<and>
      (\<forall>x \<in> set (origiOffsets st). idx_ofr u x)) s"
    by (rule wp_mono [OF wp_visitOperandAddptr [OF wf v(1) op ok comp [OF aff2(1)] comp [OF aff2(2)] tp(1) _ tp(2,3) _ _ grows_refl [OF wf]]])
      (use ty isPtr_types [OF ty] in simp_all)
  have nt': "\<not> isTensor (tyOf u p)" if "grows s u" for u using nt tyOf_grows [OF that vp] by simp
  show ?thesis
    unfolding rewriteAddptrOp_def
    by (simp add: wp_bindM wp_getM wp_castM op)
      (rule wp_attemptM, rule wp_mono [OF visit], use nt' post in \<open>simp add: Let_def wp_simps\<close>)
qed

section \<open>Block pointers\<close>

text \<open>
  The state \<open>st\<close> describes the block pointer \<open>v\<close>: offsets and strides are values of index type, the
  offset is already scaled by the stride, and every index has the address of \<open>v\<close>.
\<close>

definition blockDescribes :: "env \<Rightarrow> ir \<Rightarrow> val \<Rightarrow> ptr_state \<Rightarrow> bool" where
  "blockDescribes E s v st \<longleftrightarrow> order st \<noteq> [] \<and> getRank st = ret (length (offsets st)) \<and>
     (\<exists>sh e b. tyOf s v = PtrTy (TensorTy sh e) \<and> sizes st = map getIndexAttr sh \<and>
       source st = Some b \<and> valid s b \<and> tyOf s b = PtrTy e \<and> \<not> isTensorPointerType (PtrTy e) \<and>
       (\<forall>idx. length idx = length sh \<longrightarrow> w64 (eval E s v idx) = blockAddr E s st b idx)) \<and>
     length (origiOffsets st) = length (offsets st) \<and>
     (\<forall>x \<in> set (offsets st) \<union> set (strides st) \<union> set (shape st) \<union> set (origiOffsets st). idx_ofr s x) \<and>
     (\<forall>x \<in> set (strides st). \<exists>w. x = Val w)"

lemma sumDims_block:
  assumes "length strs = length offs" "length mds = length offs" "length idx = length offs" "f index0 = 0"
  shows "sumDims f offs strs (map (\<lambda>_. index0) mds) idx = (\<Sum>i<length offs. f (offs ! i) + idx ! i * f (strs ! i))"
  using assms by (intro sumDims_sum) auto

lemma blockSum_sum:
  assumes "length strs = length offs" "length idx = length offs"
  shows "blockSum f offs strs idx = (\<Sum>i<length offs. (f (offs ! i) + idx ! i) * f (strs ! i))"
  using assms
proof (induction offs arbitrary: strs idx)
  case (Cons off offs)
  then obtain str strs' i idx' where "strs = str # strs'" "idx = i # idx'"
    by (metis length_0_conv list.exhaust_sel list.distinct(1))
  with Cons show ?case by (simp add: sum.lessThan_Suc_shift del: sum.lessThan_Suc)
qed simp

lemma length_shiftIdx [simp]: "length (shiftIdx f ds idx) = length idx"
  by (induction f ds idx rule: shiftIdx.induct) auto

lemma shiftIdx_nth: "length ds = length idx \<Longrightarrow> i < length idx \<Longrightarrow> shiftIdx f ds idx ! i = idx ! i + f (ds ! i)"
  by (induction f ds idx arbitrary: i rule: shiftIdx.induct) (auto simp: nth_Cons')

text \<open>One dimension of \<open>tt.make_tensor_ptr\<close>: the stride, the offset, the scaled offset and the parent size.\<close>

definition blockDimOk :: "ir \<Rightarrow> val \<Rightarrow> val \<Rightarrow> val \<times> val \<times> val \<times> val \<Rightarrow> ir \<Rightarrow> bool" where
  "blockDimOk s str off y t = (case y of (a, b, c, d) \<Rightarrow>
     (\<forall>x \<in> {a, b, c, d}. valid t x \<and> tyOf t x = IndexTy) \<and>
     (\<forall>E. w64 (eval E t a []) = w64 (eval E s str []) \<and> w64 (eval E t b []) = w64 (eval E s off []) \<and>
        w64 (eval E t c []) = w64 (eval E s off []) * w64 (eval E s str [])))"

lemma blockDimOk_grows: "grows t u \<Longrightarrow> blockDimOk s str off y t \<Longrightarrow> blockDimOk s str off y u"
  by (cases y) (auto simp: blockDimOk_def valid_grows tyOf_grows eval_grows)

lemma wp_blockPtrDim:
  assumes wf: "wf_ir s" and i: "i < length strs" "i < length offs" "i < length shs"
    and ops: "\<And>x. x \<in> set strs \<union> set offs \<union> set shs \<Longrightarrow> valid s x \<and> isIntOrIndex (tyOf s x)"
    and post: "\<And>y t. grows s t \<Longrightarrow> blockDimOk s (strs ! i) (offs ! i) y t \<Longrightarrow> Q y t"
  shows "wp (blockPtrDim shs strs offs i) Q s"
proof -
  have nf: "\<not> isFloatLike (tyOf s x)" if "x \<in> set strs \<union> set offs \<union> set shs" for x
    using ops [OF that] by (cases "tyOf s x") auto
  let ?str = "strs ! i" and ?off = "offs ! i" and ?sh = "shs ! i"
  have v: "valid s ?str" "valid s ?off" "valid s ?sh" using ops i by auto
  have f: "\<not> isFloatLike (tyOf s ?str)" "\<not> isFloatLike (tyOf s ?off)" "\<not> isFloatLike (tyOf s ?sh)" using nf i by auto
  have "wp (createIndexCast IndexTy ?str) (\<lambda>a. wp (createIndexCast IndexTy ?off) (\<lambda>b. wp (createBin MulI b a)
    (\<lambda>c. wp (createIndexCast IndexTy ?sh) (\<lambda>d. Q (a, b, c, d))))) s"
  proof (rule wp_createIndexCast [OF wf v(1) f(1)])
    fix a t assume a: "grows s t" "valid t a" "tyOf t a = IndexTy" "\<And>E idx. eval E t a idx = norm IndexTy (eval E s ?str idx)"
    note ta = valid_grows [OF a(1)] tyOf_grows [OF a(1)] eval_grows [OF a(1)]
    show "wp (createIndexCast IndexTy ?off) (\<lambda>b. wp (createBin MulI b a)
      (\<lambda>c. wp (createIndexCast IndexTy ?sh) (\<lambda>d. Q (a, b, c, d)))) t"
    proof (rule wp_createIndexCast [OF growsD(2) [OF a(1)]])
      fix b u assume b: "grows t u" "valid u b" "tyOf u b = IndexTy" "\<And>E idx. eval E u b idx = norm IndexTy (eval E t ?off idx)"
      have gu: "grows s u" using a(1) b(1) grows_trans by blast
      note ub = valid_grows [OF b(1)] tyOf_grows [OF b(1)] eval_grows [OF b(1)]
      show "wp (createBin MulI b a) (\<lambda>c. wp (createIndexCast IndexTy ?sh) (\<lambda>d. Q (a, b, c, d))) u"
      proof (rule wp_createBin [OF growsD(2) [OF b(1)]])
        fix c w assume c: "grows u w" "valid w c" "tyOf w c = tyOf u b"
          "\<And>E idx. eval E w c idx = norm (tyOf u b) (binSem MulI (eval E u b idx) (eval E u a idx))"
        have gw: "grows s w" using gu c(1) grows_trans by blast
        note wc = valid_grows [OF c(1)] tyOf_grows [OF c(1)] eval_grows [OF c(1)]
        show "wp (createIndexCast IndexTy ?sh) (\<lambda>d. Q (a, b, c, d)) w"
        proof (rule wp_createIndexCast [OF growsD(2) [OF c(1)]])
          fix d z assume d: "grows w z" "valid z d" "tyOf z d = IndexTy"
          note zd = valid_grows [OF d(1)] tyOf_grows [OF d(1)] eval_grows [OF d(1)]
          have gz: "grows s z" using gw d(1) grows_trans by blast
          show "Q (a, b, c, d) z"
            using a b c d ta ub wc zd v by (intro post [OF gz]) (simp add: blockDimOk_def w64_ring)
        qed (use v f gw in \<open>simp_all add: valid_grows tyOf_grows\<close>)
      qed (use a b ub in auto)
    qed (use v f ta in simp_all)
  qed simp
  then show ?thesis using i by (simp add: blockPtrDim_def wp_simps)
qed

lemma wp_blockPtrDims:
  assumes wf: "wf_ir s" and len: "length strs = n" "length offs = n" "length shs = n"
    and ops: "\<And>x. x \<in> set strs \<union> set offs \<union> set shs \<Longrightarrow> valid s x \<and> isIntOrIndex (tyOf s x)"
    and post: "\<And>ds t. grows s t \<Longrightarrow> length ds = n \<Longrightarrow>
      (\<And>i. i < n \<Longrightarrow> blockDimOk s (strs ! i) (offs ! i) (ds ! i) t) \<Longrightarrow> Q ds t"
  shows "wp (mapM (blockPtrDim shs strs offs) [0..<n]) Q s"
proof (rule wp_mapM_grows [OF wf, where P = "\<lambda>i. blockDimOk s (strs ! i) (offs ! i)"])
  fix i s' Q' assume i: "i \<in> set [0..<n]" and g: "grows s s'"
    and Q': "\<And>y t. grows s' t \<Longrightarrow> blockDimOk s (strs ! i) (offs ! i) y t \<Longrightarrow> Q' y t"
  note tys = valid_grows [OF g] tyOf_grows [OF g] eval_grows [OF g]
  have mem: "strs ! i \<in> set strs" "offs ! i \<in> set offs" using i len by auto
  then have same: "blockDimOk s' (strs ! i) (offs ! i) = blockDimOk s (strs ! i) (offs ! i)"
    using ops tys by (intro ext) (simp add: blockDimOk_def)
  show "wp (blockPtrDim shs strs offs i) Q' s'"
    by (rule wp_blockPtrDim [OF growsD(2) [OF g]]) (use i len ops tys same in \<open>auto intro!: Q'\<close>)
qed (use blockDimOk_grows post in auto)

lemma wp_rewriteMakeTensorPtrOp:
  assumes wf: "wf_ir s" and v: "valid s v" and op: "defOp s v = MakeTensorPtrOp base shs strs offs ord"
    and ord: "ord \<noteq> []" and ty: "tyOf s v = PtrTy (TensorTy sh e)" "tyOf s base = PtrTy e"
      "\<not> isTensorPointerType (PtrTy e)" "\<And>n. n \<in> set sh \<Longrightarrow> in64 n"
    and len: "length strs = length sh" "length offs = length sh" "length shs = length sh"
    and ops: "\<And>x. x \<in> set strs \<union> set offs \<union> set shs \<Longrightarrow> isIntOrIndex (tyOf s x)"
    and om: "\<And>x. x \<in> set (om base) \<Longrightarrow> int_ofr s x"
    and post: "\<And>m st t. grows s t \<Longrightarrow> (\<And>E. blockDescribes E t v st) \<Longrightarrow> valid t m \<Longrightarrow>
      (\<And>E idx. length idx = length sh \<Longrightarrow> eval E t m idx = eval E s v idx) \<Longrightarrow> Q (mapPtr v m (setKnown v st pa), True) t"
  shows "wp (rewriteMakeTensorPtrOp pa om v) Q s"
proof -
  let ?n = "length sh"
  let ?st = "\<lambda>dims. \<lparr>offsets = map (\<lambda>d. Val (fst (snd (snd d)))) dims, origiOffsets = map (\<lambda>d. Val (fst (snd d))) dims,
           sizes = map getIndexAttr sh, strides = map (\<lambda>d. Val (fst d)) dims,
           shape = map (\<lambda>d. Val (snd (snd (snd d)))) dims, order = ord, source = Some base, scalar = None\<rparr>"
  have vb: "valid s base" and vo: "\<And>x. x \<in> set strs \<union> set offs \<union> set shs \<Longrightarrow> valid s x"
    using wf_operand_valid [OF wf v] op by auto
  have emit: "wp (createTTSMakeTensorPtrOp (?st dims) (om base)) (\<lambda>m. Q (mapPtr v m (setKnown v (?st dims) pa), True)) u"
    if g: "grows s u" and n: "length dims = ?n" and d: "\<And>i. i < ?n \<Longrightarrow> blockDimOk s (strs ! i) (offs ! i) (dims ! i) u" for dims u
  proof -
    have proj: "idx_ofr u (Val (fst d'))" "idx_ofr u (Val (fst (snd d')))" "idx_ofr u (Val (fst (snd (snd d'))))"
      "idx_ofr u (Val (snd (snd (snd d'))))" if "d' \<in> set dims" for d'
    proof -
      obtain i where "i < ?n" "dims ! i = d'" using \<open>d' \<in> set dims\<close> n by (auto simp: in_set_conv_nth)
      then show "idx_ofr u (Val (fst d'))" "idx_ofr u (Val (fst (snd d')))" "idx_ofr u (Val (fst (snd (snd d'))))"
        "idx_ofr u (Val (snd (snd (snd d'))))" using d [of i] by (auto simp: blockDimOk_def split: prod.splits)
    qed
    have idx: "idx_ofr u x" if "x \<in> set (offsets (?st dims)) \<union> set (strides (?st dims)) \<union> set (shape (?st dims)) \<union>
        set (origiOffsets (?st dims))" for x
      using that proj by (elim UnE) (simp_all only: ptr_state.simps set_map, blast+)
    have rank: "getRank (?st dims) = ret ?n" using n by (simp add: getRank_def)
    have addr: "blockAddr E u (?st dims) base idx = w64 (eval E s v idx)" if l: "length idx = ?n" for E idx
    proof -
      have dims': "w64 (osem E u (Val (fst (snd (snd (dims ! i)))))) = w64 (eval E s (offs ! i) []) * w64 (eval E s (strs ! i) [])"
        "w64 (osem E u (Val (fst (dims ! i)))) = w64 (eval E s (strs ! i) [])" if "i < ?n" for i
        using d [OF that] by (auto simp: blockDimOk_def split: prod.splits)
      have "w64 (sumDims (osem E u) (offsets (?st dims)) (strides (?st dims)) (map (\<lambda>_. index0) (shape (?st dims))) idx) =
        (\<Sum>i<?n. w64 (eval E s (offs ! i) []) * w64 (eval E s (strs ! i) []) + w64 (idx ! i) * w64 (eval E s (strs ! i) []))"
        using n l dims' by (subst sumDims_block) (simp_all add: w64_sum w64_ring)
      also have "\<dots> = w64 (blockSum (\<lambda>v. eval E s v []) offs strs idx)"
        using len l by (subst blockSum_sum) (simp_all add: w64_sum w64_ring algebra_simps)
      finally show ?thesis
        using eval_unfold [OF wf v, of E] op ty ord tyOf_grows [OF g vb] eval_grows [OF g vb]
        by (cases e) (simp_all add: blockAddr_def denOp_def norm_def w64_ring)
    qed
    have base: "valid u base" "tyOf u base = PtrTy e" using valid_grows [OF g vb] tyOf_grows [OF g vb] ty by simp_all
    show ?thesis
    proof (rule wp_createTTSMakeTensorPtrOp [OF growsD(2) [OF g] _ _ ty(4) _ _ _ base ty(3)])
      fix m w os' assume m: "grows u w" "valid w m"
        "tyOf w m = (if order (?st dims) = [] then TensorTy sh (PtrTy e) else PtrTy (TensorTy sh e))"
        "\<And>E idx. w64 (eval E w m idx) = blockAddr E u (?st dims) base idx"
      have gw: "grows s w" using g m(1) grows_trans by blast
      have eq: "eval E w m idx = eval E s v idx" if "length idx = ?n" for E idx
        by (rule eval_w64 [OF wf v growsD(2) [OF m(1)] m(2)]) (use ty m(3,4) ord addr [OF that] in simp_all)
      have "blockAddr E w (?st dims) base idx = blockAddr E u (?st dims) base idx" for E idx
      proof -
        have "sumDims (osem E w) (offsets (?st dims)) (strides (?st dims)) (map (\<lambda>_. index0) (shape (?st dims))) idx =
            sumDims (osem E u) (offsets (?st dims)) (strides (?st dims)) (map (\<lambda>_. index0) (shape (?st dims))) idx"
          by (rule sumDims_cong) (use osem_grows [OF m(1) idx] in \<open>auto simp del: ptr_state.simps\<close>)
        then show ?thesis using ord tyOf_grows [OF m(1) base(1)] eval_grows [OF m(1) base(1)] by (simp add: blockAddr_def)
      qed
      then have "blockDescribes E w v (?st dims)" for E
        using ord rank n ty tyOf_grows [OF gw v] eval_grows [OF gw v] addr valid_grows [OF gw vb] tyOf_grows [OF gw vb]
          idx idx_ofr_grows [OF m(1)]
        by (simp add: blockDescribes_def)
      then show "Q (mapPtr v m (setKnown v (?st dims) pa), True) w"
        using gw m(2) eq by (intro post) auto
    next
      show "int_ofr u x" if "x \<in> set (om base)" for x using om [OF that] int_ofr_grows [OF g] by blast
      show "idx_ofr u x" if "x \<in> set (offsets (?st dims)) \<union> set (strides (?st dims)) \<union> set (shape (?st dims))" for x
        using that idx by blast
    qed (use rank n in auto)
  qed
  have "wp (mapM (blockPtrDim shs strs offs) [0..<?n]) (\<lambda>dims. wp (createTTSMakeTensorPtrOp (?st dims) (om base))
      (\<lambda>m. Q (mapPtr v m (setKnown v (?st dims) pa), True))) s"
    by (rule wp_blockPtrDims [OF wf len(1,2,3)]) (use ops vo emit in auto)
  then show ?thesis
    unfolding rewriteMakeTensorPtrOp_def
    by (simp add: wp_bindM wp_getM wp_castM op) (rule wp_attemptM,
      simp add: visitOperandMakeTensorPtr_def wp_simps ord ty)
qed

text \<open>Advancing adds the increment times the stride to each offset.\<close>

definition advanceDimOk :: "ir \<Rightarrow> val \<Rightarrow> ofr \<Rightarrow> ofr \<Rightarrow> ofr \<Rightarrow> ofr \<times> ofr \<Rightarrow> ir \<Rightarrow> bool" where
  "advanceDimOk s d off orig str y t \<longleftrightarrow> idx_ofr t (fst y) \<and> idx_ofr t (snd y) \<and>
     (\<forall>E. w64 (osem E t (fst y)) = w64 (osem E s off) + w64 (eval E s d []) * w64 (osem E s str) \<and>
        w64 (osem E t (snd y)) = w64 (osem E s orig) + w64 (eval E s d []))"

lemma advanceDimOk_grows: "grows t u \<Longrightarrow> advanceDimOk s d off orig str y t \<Longrightarrow> advanceDimOk s d off orig str y u"
  by (auto simp: advanceDimOk_def idx_ofr_grows osem_grows)

lemma wp_offsetValue:
  assumes "wf_ir s" "idx_ofr s x"
    and post: "\<And>v s'. grows s s' \<Longrightarrow> valid s' v \<Longrightarrow> tyOf s' v = IndexTy \<Longrightarrow>
      (\<And>E. eval E s' v [] = osem E s x) \<Longrightarrow> Q v s'"
  shows "wp (offsetValue x) Q s"
  using assms(2)
proof (cases rule: idx_ofr_cases)
  case (1 n)
  have "wp (createIndexConst n) Q s"
    by (rule wp_createIndexConst [OF assms(1)]) (use 1 in \<open>simp add: post wrap_in64\<close>)
  with 1 show ?thesis by (simp add: offsetValue_def wrap_in64)
next
  case (2 v)
  then show ?thesis using assms(1) by (simp add: offsetValue_def wp_simps post)
qed

lemma wp_advanceDim:
  assumes wf: "wf_ir s" and d: "valid s d" "isIntOrIndex (tyOf s d)" and o: "idx_ofr s off" "idx_ofr s orig"
    and str: "str = Val sv" "idx_ofr s str"
    and post: "\<And>y t. grows s t \<Longrightarrow> advanceDimOk s d off orig str y t \<Longrightarrow> Q y t"
  shows "wp (advanceDim (d, off, orig, str)) Q s"
proof -
  have nf: "\<not> isFloatLike (tyOf s d)" using d(2) by (cases "tyOf s d") auto
  have "wp (offsetValue off) (\<lambda>ov. wp (createIndexCast IndexTy d) (\<lambda>c. wp (createBin MulI c sv) (\<lambda>m.
     wp (createBin AddI m ov) (\<lambda>a. wp (offsetValue orig) (\<lambda>ogv. wp (createBin AddI c ogv) (\<lambda>og. Q (Val a, Val og))))))) s"
  proof (rule wp_offsetValue [OF wf o(1)])
    fix ov t1 assume t1: "grows s t1" "valid t1 ov" "tyOf t1 ov = IndexTy" "\<And>E. eval E t1 ov [] = osem E s off"
    note f1 = valid_grows [OF t1(1)] tyOf_grows [OF t1(1)] eval_grows [OF t1(1)]
    show "wp (createIndexCast IndexTy d) (\<lambda>c. wp (createBin MulI c sv) (\<lambda>m. wp (createBin AddI m ov)
      (\<lambda>a. wp (offsetValue orig) (\<lambda>ogv. wp (createBin AddI c ogv) (\<lambda>og. Q (Val a, Val og)))))) t1"
    proof (rule wp_createIndexCast [OF growsD(2) [OF t1(1)]])
      fix c t2 assume t2: "grows t1 t2" "valid t2 c" "tyOf t2 c = IndexTy" "\<And>E idx. eval E t2 c idx = norm IndexTy (eval E t1 d idx)"
      have g2: "grows s t2" using t1(1) t2(1) grows_trans by blast
      note f2 = valid_grows [OF t2(1)] tyOf_grows [OF t2(1)] eval_grows [OF t2(1)]
      note s2 = valid_grows [OF g2] tyOf_grows [OF g2] eval_grows [OF g2]
      show "wp (createBin MulI c sv) (\<lambda>m. wp (createBin AddI m ov)
        (\<lambda>a. wp (offsetValue orig) (\<lambda>ogv. wp (createBin AddI c ogv) (\<lambda>og. Q (Val a, Val og))))) t2"
      proof (rule wp_createBin [OF growsD(2) [OF t2(1)]])
        fix m t3 assume t3: "grows t2 t3" "valid t3 m" "tyOf t3 m = tyOf t2 c"
          "\<And>E idx. eval E t3 m idx = norm (tyOf t2 c) (binSem MulI (eval E t2 c idx) (eval E t2 sv idx))"
        note f3 = valid_grows [OF t3(1)] tyOf_grows [OF t3(1)] eval_grows [OF t3(1)]
        show "wp (createBin AddI m ov)
          (\<lambda>a. wp (offsetValue orig) (\<lambda>ogv. wp (createBin AddI c ogv) (\<lambda>og. Q (Val a, Val og)))) t3"
        proof (rule wp_createBin [OF growsD(2) [OF t3(1)]])
          fix a t4 assume t4: "grows t3 t4" "valid t4 a" "tyOf t4 a = tyOf t3 m"
            "\<And>E idx. eval E t4 a idx = norm (tyOf t3 m) (binSem AddI (eval E t3 m idx) (eval E t3 ov idx))"
          have g4: "grows s t4" "grows t2 t4" using g2 t3(1) t4(1) grows_trans by blast+
          show "wp (offsetValue orig) (\<lambda>ogv. wp (createBin AddI c ogv) (\<lambda>og. Q (Val a, Val og))) t4"
          proof (rule wp_offsetValue [OF growsD(2) [OF g4(1)] idx_ofr_grows [OF g4(1) o(2)]])
            fix ogv t5 assume t5: "grows t4 t5" "valid t5 ogv" "tyOf t5 ogv = IndexTy" "\<And>E. eval E t5 ogv [] = osem E t4 orig"
            have g5: "grows t2 t5" "grows s t5" using g4 t5(1) grows_trans by blast+
            note c5 = valid_grows [OF g5(1) t2(2)] tyOf_grows [OF g5(1) t2(2)] eval_grows [OF g5(1) t2(2)]
            show "wp (createBin AddI c ogv) (\<lambda>og. Q (Val a, Val og)) t5"
            proof (rule wp_createBin [OF growsD(2) [OF t5(1)] c5(1) t5(2)])
              fix og t6 assume t6: "grows t5 t6" "valid t6 og" "tyOf t6 og = tyOf t5 c"
                "\<And>E idx. eval E t6 og idx = norm (tyOf t5 c) (binSem AddI (eval E t5 c idx) (eval E t5 ogv idx))"
              have g6: "grows s t6" "grows t4 t6" using g5(2) t5(1) t6(1) grows_trans by blast+
              note a6 = valid_grows [OF g6(2) t4(2)] tyOf_grows [OF g6(2) t4(2)] eval_grows [OF g6(2) t4(2)]
              have ev: "eval E t6 a [] = wrap 64 (wrap 64 (wrap 64 (eval E s d []) * osem E s str) + osem E s off)"
                "eval E t6 og [] = wrap 64 (wrap 64 (eval E s d []) + osem E s orig)" for E
                using a6 t1 t2 t3 t4 t5 t6 c5 f1 f2 f3 s2 d str osem_grows [OF g4(1) o(2)] by simp_all
              have ty6: "tyOf t6 a = IndexTy" "tyOf t6 og = IndexTy"
                using a6 c5 t2(3) t3(3) t4(3) t6(3) by simp_all
              show "Q (Val a, Val og) t6"
                by (rule post [OF g6(1)]) (use a6(1) t6(2) ty6 ev in \<open>simp add: advanceDimOk_def w64_ring\<close>)
            qed
          qed
        qed (use t1 t2 t3 f2 f3 in auto)
      qed (use t2 str s2 in auto)
    qed (use d nf f1 in simp_all)
  qed
  then show ?thesis using str by (simp add: advanceDim_def wp_simps)
qed

lemma wp_advanceDims:
  assumes wf: "wf_ir s" and len: "length ds = n" "length offs = n" "length origs = n" "length strs = n"
    and d: "\<And>x. x \<in> set ds \<Longrightarrow> valid s x \<and> isIntOrIndex (tyOf s x)"
    and o: "\<And>x. x \<in> set offs \<union> set origs \<union> set strs \<Longrightarrow> idx_ofr s x" and str: "\<And>x. x \<in> set strs \<Longrightarrow> \<exists>w. x = Val w"
    and post: "\<And>ys t. grows s t \<Longrightarrow> length ys = n \<Longrightarrow>
      (\<And>i. i < n \<Longrightarrow> advanceDimOk s (ds ! i) (offs ! i) (origs ! i) (strs ! i) (ys ! i) t) \<Longrightarrow> Q ys t"
  shows "wp (mapM advanceDim (zip ds (zip offs (zip origs strs)))) Q s"
proof (rule wp_mapM_grows [OF wf, where P = "\<lambda>(d, off, orig, str). advanceDimOk s d off orig str"])
  fix x s' Q' assume x: "x \<in> set (zip ds (zip offs (zip origs strs)))" and g: "grows s s'"
    and Q': "\<And>y t. grows s' t \<Longrightarrow> (case x of (d, off, orig, str) \<Rightarrow> advanceDimOk s d off orig str) y t \<Longrightarrow> Q' y t"
  obtain d' off orig str' where xx: "x = (d', off, orig, str')" by (cases x) auto
  have m: "d' \<in> set ds" "off \<in> set offs" "orig \<in> set origs" "str' \<in> set strs"
    using x unfolding xx by (auto simp: in_set_zip)
  then obtain sv where sv: "str' = Val sv" using str by blast
  note tys = valid_grows [OF g] tyOf_grows [OF g] eval_grows [OF g] osem_grows [OF g] idx_ofr_grows [OF g]
  have idx: "idx_ofr s off" "idx_ofr s orig" "idx_ofr s str'" using o m by blast+
  have same: "advanceDimOk s' d' off orig str' = advanceDimOk s d' off orig str'"
    using d [OF m(1)] idx tys by (intro ext) (simp add: advanceDimOk_def)
  show "wp (advanceDim x) Q' s'"
    unfolding xx
    by (rule wp_advanceDim [OF growsD(2) [OF g] _ _ _ _ sv]) (use d [OF m(1)] idx tys Q' same xx in auto)
qed (use advanceDimOk_grows post len in auto)

lemma wp_rewriteAdvanceOp:
  assumes wf: "wf_ir s" and v: "valid s v" and op: "defOp s v = AdvanceOp p ds"
    and mode: "modeOk pa" "\<not> isAnalysisingUnstructured pa" and p: "knownPtrs pa p = Some st" "\<And>E. blockDescribes E s p st"
    and ty: "tyOf s v = PtrTy (TensorTy sh e)" "tyOf s p = tyOf s v" "\<And>n. n \<in> set sh \<Longrightarrow> in64 n"
    and ds: "length ds = length sh" "\<And>x. x \<in> set ds \<Longrightarrow> isIntOrIndex (tyOf s x)"
    and post: "\<And>m st' t. grows s t \<Longrightarrow> (\<And>E. blockDescribes E t v st') \<Longrightarrow> valid t m \<Longrightarrow>
      (\<And>E idx. length idx = length sh \<Longrightarrow> eval E t m idx = eval E s v idx) \<Longrightarrow> Q (mapPtr v m (setKnown v st' pa), True) t"
  shows "wp (rewriteAdvanceOp pa v) Q s"
proof -
  let ?n = "length sh"
  have vp: "valid s p" and vd: "\<And>x. x \<in> set ds \<Longrightarrow> valid s x" using wf_operand_valid [OF wf v] op by auto
  obtain b where b: "source st = Some b" "valid s b" "tyOf s b = PtrTy e" "\<not> isTensorPointerType (PtrTy e)"
    and bd: "order st \<noteq> []" "getRank st = ret (length (offsets st))" "sizes st = map getIndexAttr sh"
      "length (origiOffsets st) = length (offsets st)"
      "\<And>x. x \<in> set (offsets st) \<union> set (strides st) \<union> set (shape st) \<union> set (origiOffsets st) \<Longrightarrow> idx_ofr s x"
      "\<And>x. x \<in> set (strides st) \<Longrightarrow> \<exists>w. x = Val w"
    using p(2) [of undefined] ty by (auto simp: blockDescribes_def)
  have addr: "w64 (eval E s p idx) = blockAddr E s st b idx" if "length idx = ?n" for E idx
    using p(2) [of E] that ty b by (auto simp: blockDescribes_def)
  have "length (offsets st) = length (sizes st) \<and> length (strides st) = length (offsets st) \<and> length (shape st) = length (offsets st)"
    using fun_cong [OF bd(2), of undefined] by (simp add: getRank_def assertM_def thenM_def bindM_def ret_def raise_def split: if_splits)
  then have n: "length (offsets st) = ?n" "length (strides st) = ?n" "length (shape st) = ?n" "length (origiOffsets st) = ?n"
    using bd by simp_all
  let ?st = "\<lambda>dims. st\<lparr>offsets := map fst dims, origiOffsets := map snd dims\<rparr>"
  have emit: "wp (createTTSMakeTensorPtrOp (?st dims) (map snd dims)) (\<lambda>m. Q (mapPtr v m (setKnown v (?st dims) pa), True)) u"
    if g: "grows s u" and nd: "length dims = ?n"
      and d: "\<And>i. i < ?n \<Longrightarrow> advanceDimOk s (ds ! i) (offsets st ! i) (origiOffsets st ! i) (strides st ! i) (dims ! i) u" for dims u
  proof -
    have proj: "idx_ofr u (fst d')" "idx_ofr u (snd d')" if d': "d' \<in> set dims" for d'
      using d' nd d by (auto simp: in_set_conv_nth advanceDimOk_def)
    have idx: "idx_ofr u x" if "x \<in> set (map fst dims) \<union> set (strides st) \<union> set (shape st) \<union> set (map snd dims)" for x
      using that proj bd(5) idx_ofr_grows [OF g] by auto
    have rank: "getRank (?st dims) = ret ?n" using n nd bd(3) by (simp add: getRank_def)
    have bu: "valid u b" "tyOf u b = PtrTy e" "\<And>E. eval E u b = eval E s b"
      using valid_grows [OF g b(2)] tyOf_grows [OF g b(2)] eval_grows [OF g b(2)] b by simp_all
    have blk: "blockAddr E u (?st dims) b idx = w64 (eval E s v idx)" if l: "length idx = ?n" for E idx
    proof -
      let ?sh = "shiftIdx (\<lambda>v. eval E s v []) ds idx"
      have "w64 (sumDims (osem E u) (map fst dims) (strides st) (map (\<lambda>_. index0) (shape st)) idx) =
        (\<Sum>i<?n. w64 (osem E s (offsets st ! i)) + w64 (eval E s (ds ! i) []) * w64 (osem E s (strides st ! i)) +
          w64 (idx ! i) * w64 (osem E s (strides st ! i)))"
      proof -
        have "w64 (osem E u (map fst dims ! i)) = w64 (osem E s (offsets st ! i)) + w64 (eval E s (ds ! i) []) * w64 (osem E s (strides st ! i))"
          "osem E u (strides st ! i) = osem E s (strides st ! i)" if "i < ?n" for i
          using d [OF that] that nd n bd(5) osem_grows [OF g] by (auto simp: advanceDimOk_def)
        then show ?thesis using nd n l by (subst sumDims_block) (simp_all add: w64_sum w64_ring)
      qed
      also have "\<dots> = w64 (sumDims (osem E s) (offsets st) (strides st) (map (\<lambda>_. index0) (shape st)) ?sh)"
        using n l ds(1) by (subst sumDims_block) (simp_all add: w64_sum w64_ring shiftIdx_nth algebra_simps)
      finally have "blockAddr E u (?st dims) b idx = blockAddr E s st b ?sh"
        using bd(1) bu b by (simp add: blockAddr_def)
      also have "\<dots> = w64 (eval E s p ?sh)" using addr l by simp
      also have "eval E s p ?sh = eval E s v idx"
        using eval_unfold [OF wf v, of E] op eval_norm [OF wf vp, of E ?sh] ty by (simp add: denOp_def)
      finally show ?thesis .
    qed
    show ?thesis
    proof (rule wp_createTTSMakeTensorPtrOp [OF growsD(2) [OF g] _ _ ty(3) _ _ _ bu(1,2) b(4)])
      fix m w os' assume m: "grows u w" "valid w m"
        "tyOf w m = (if order (?st dims) = [] then TensorTy sh (PtrTy e) else PtrTy (TensorTy sh e))"
        "\<And>E idx. w64 (eval E w m idx) = blockAddr E u (?st dims) b idx"
      have gw: "grows s w" using g m(1) grows_trans by blast
      have eq: "eval E w m idx = eval E s v idx" if "length idx = ?n" for E idx
        by (rule eval_w64 [OF wf v growsD(2) [OF m(1)] m(2)]) (use ty m(3,4) bd(1) blk [OF that] in simp_all)
      have "blockAddr E w (?st dims) b idx = blockAddr E u (?st dims) b idx" for E idx
      proof -
        have "sumDims (osem E w) (map fst dims) (strides st) (map (\<lambda>_. index0) (shape st)) idx =
            sumDims (osem E u) (map fst dims) (strides st) (map (\<lambda>_. index0) (shape st)) idx"
        proof (rule sumDims_cong)
          show "osem E w x = osem E u x" if "x \<in> set (map fst dims) \<union> set (strides st) \<union> set (map (\<lambda>_. index0) (shape st))" for x
            using that osem_grows [OF m(1) idx] by auto
        qed
        then show ?thesis using bd(1) tyOf_grows [OF m(1) bu(1)] eval_grows [OF m(1) bu(1)] by (simp add: blockAddr_def)
      qed
      then have "blockDescribes E w v (?st dims)" for E
        using bd rank nd ty tyOf_grows [OF gw v] eval_grows [OF gw v] blk valid_grows [OF gw b(2)] tyOf_grows [OF gw b(2)] b
          idx_ofr_grows [OF m(1) idx]
        by (simp add: blockDescribes_def)
      then show "Q (mapPtr v m (setKnown v (?st dims) pa), True) w"
        using gw m(2) eq by (intro post) auto
    next
      show "int_ofr u x" if "x \<in> set (map snd dims)" for x using that idx by (auto simp: int_ofr_def)
      show "idx_ofr u x" if "x \<in> set (offsets (?st dims)) \<union> set (strides (?st dims)) \<union> set (shape (?st dims))" for x
        using that idx by auto
    qed (use rank n nd b bd in auto)
  qed
  have visit: "visitOperand pa p s = (Inr st, s)"
    using mode p(1) by (simp add: visitOperand_unfold visitOperandStep_def ret_def thenM_def bindM_def)
  have "wp (mapM advanceDim (zip ds (zip (offsets st) (zip (origiOffsets st) (strides st)))))
    (\<lambda>dims. wp (createTTSMakeTensorPtrOp (?st dims) (map snd dims)) (\<lambda>m. Q (mapPtr v m (setKnown v (?st dims) pa), True))) s"
    by (rule wp_advanceDims [OF wf ds(1) n(1,4,2)]) (use vd ds bd emit in auto)
  then show ?thesis
    unfolding rewriteAdvanceOp_def
    by (simp add: wp_bindM wp_getM wp_castM op)
      (rule wp_attemptM, rule wpI [of "visitOperand pa p", OF visit], use bd(1) in \<open>simp add: wp_simps isBlockPtr_def Let_def\<close>)
qed

end
