(* ===== verification/Demo.thy ===== *)
theory Demo
  imports Rewrite_Sound
begin

text \<open>
  Small concrete programs on which the properties are instantiated.  \<open>demo\<close> is the address
  computation of a one-dimensional kernel, \<open>base + (pid + arange(0, 4))\<close>; \<open>demoBlock\<close> a block
  pointer and its advance.
\<close>

definition demo :: ir where
  "demo = \<lparr>ops = [
     (BlockArg None, PtrTy (FloatTy 32)),
     (BlockArg None, IntTy 32),
     (MakeRangeOp 0 4, TensorTy [4] (IntTy 32)),
     (SplatOp 1, TensorTy [4] (IntTy 32)),
     (BinOp AddI 3 2, TensorTy [4] (IntTy 32)),
     (SplatOp 0, TensorTy [4] (PtrTy (FloatTy 32))),
     (AddPtrOp 5 4, TensorTy [4] (PtrTy (FloatTy 32)))], fors = []\<rparr>"

definition demoE :: env where
  "demoE v idx = (if v = 0 then 4096 else if v = 1 then 7 else 0)"

definition demoPA :: ptr_analysis where
  "demoPA = \<lparr>knownPtrs = (\<lambda>_. None), ptrMap = (\<lambda>_. None), maybeStructuredArgs = [],
     enableMGS = True, isAnalysisingUnstructured = False\<rparr>"

text \<open>Well-formedness of a concrete table, operation by operation.\<close>

lemma wf_ir_enumerate:
  "wf_ir s \<longleftrightarrow> (\<forall>(v, opn, t) \<in> set (List.enumerate 0 (ops s)). (\<forall>a \<in> operands opn. a < v) \<and> constTyped opn t)"
  by (simp add: wf_ir_def all_set_conv_all_nth nth_enumerate_eq case_prod_beta)

lemma demo_wf: "wf_ir demo"
  by (simp add: wf_ir_enumerate demo_def)

lemma demo_valid [simp]: "valid demo v \<longleftrightarrow> v < 7"
  by (simp add: valid_def demo_def) arith

lemma demo_ops [simp]:
  "defOp demo 0 = BlockArg None" "tyOf demo 0 = PtrTy (FloatTy 32)"
  "defOp demo (Suc 0) = BlockArg None" "tyOf demo (Suc 0) = IntTy 32"
  "defOp demo 2 = MakeRangeOp 0 4" "tyOf demo 2 = TensorTy [4] (IntTy 32)"
  "defOp demo 3 = SplatOp 1" "tyOf demo 3 = TensorTy [4] (IntTy 32)"
  "defOp demo 4 = BinOp AddI 3 2" "tyOf demo 4 = TensorTy [4] (IntTy 32)"
  "defOp demo 5 = SplatOp 0" "tyOf demo 5 = TensorTy [4] (PtrTy (FloatTy 32))"
  "defOp demo 6 = AddPtrOp 5 4" "tyOf demo 6 = TensorTy [4] (PtrTy (FloatTy 32))"
  by (simp_all add: demo_def defOp_def tyOf_def entry_def)

lemma demo_fresh [simp]: "fresh demoPA v"
  by (simp add: fresh_def demoPA_def)

lemma demo_known: "knownOk E demoPA demo" "modeOk demoPA" "\<not> isAnalysisingUnstructured demoPA"
  by (simp_all add: knownOk_def demoPA_def modeOk_def)

lemma demo_eval:
  assumes "0 \<le> i" "i < 4"
  shows "eval demoE demo 2 [i] = i" "eval demoE demo 3 [i] = 7" "eval demoE demo 4 [i] = 7 + i"
proof -
  have e1: "eval demoE demo (Suc 0) [] = 7"
    using eval_unfold [OF demo_wf, of "Suc 0" demoE] by (simp add: denOp_def norm_def demoE_def wrap_id)
  show 2: "eval demoE demo 2 [i] = i"
    using assms eval_unfold [OF demo_wf, of 2 demoE] by (simp add: denOp_def norm_def wrap_id)
  show 3: "eval demoE demo 3 [i] = 7"
    using eval_unfold [OF demo_wf, of 3 demoE] e1 by (simp add: denOp_def norm_def wrap_id)
  show "eval demoE demo 4 [i] = 7 + i"
    using assms eval_unfold [OF demo_wf, of 4 demoE] 2 3 by (simp add: denOp_def norm_def wrap_id)
qed

lemma demo_inB: "inB [4] idx \<longleftrightarrow> (\<exists>i. idx = [i] \<and> 0 \<le> i \<and> i < 4)"
  by (auto simp: inB_def list_all2_Cons1)

lemma demo_affine_offset: "affine demoE demoPA demo 4 False"
proof -
  have r: "affine demoE demoPA demo 2 False"
    by (rule affine.range [where start = 0 and stop = 4]) simp_all
  have p: "affine demoE demoPA demo 1 True"
    by (rule affine.int) simp_all
  have s: "affine demoE demoPA demo 3 True"
    by (rule affine.splat [where a = 1 and sh = "[4]"]) (use p in simp_all)
  have "exact demoE demo 4"
    by (auto simp: exact_def demo_inB demo_eval denOp_def)
  then have "affine demoE demoPA demo 4 (True \<and> False)"
    by (intro affine.add [where a = 3 and b = 2 and sh = "[4]" and t = "IntTy 32"]) (use r s in simp_all)
  then show ?thesis by simp
qed

lemma demo_affine: "affine demoE demoPA demo 6 False"
proof -
  have b: "affine demoE demoPA demo 0 False"
    by (rule affine.ptr) simp_all
  have s: "affine demoE demoPA demo 5 False"
    by (rule affine.splat [where a = 0 and sh = "[4]"]) (use b in simp_all)
  have "affine demoE demoPA demo 6 (if shapeOf (tyOf demo 6) = [] then False \<or> False else False \<and> False)"
    by (rule affine.addptr [where p = 5 and d = 4]) (use s demo_affine_offset in simp_all)
  then show ?thesis by simp
qed

section \<open>A block pointer\<close>

text \<open>The values the analysis creates for the block pointer 8 are the operations 4 to 7.\<close>

definition demoBlock :: ir where
  "demoBlock = \<lparr>ops = [
     (BlockArg None, PtrTy (FloatTy 32)),
     (BlockArg None, IntTy 64),
     (BlockArg None, IntTy 64),
     (BlockArg None, IntTy 32),
     (CastOp IndexCast 2, IndexTy),
     (CastOp IndexCast 3, IndexTy),
     (BinOp MulI 5 4, IndexTy),
     (CastOp IndexCast 1, IndexTy),
     (MakeTensorPtrOp 0 [1] [2] [3] [0], PtrTy (TensorTy [8] (FloatTy 32))),
     (AdvanceOp 8 [3], PtrTy (TensorTy [8] (FloatTy 32)))], fors = []\<rparr>"

definition demoBlockSt :: ptr_state where
  "demoBlockSt = \<lparr>offsets = [Val 6], origiOffsets = [Val 5], sizes = [getIndexAttr 8], strides = [Val 4],
     shape = [Val 7], order = [0], source = Some 0, scalar = None\<rparr>"

lemma demoBlock_wf: "wf_ir demoBlock"
  by (simp add: wf_ir_enumerate demoBlock_def)

lemma demoBlock_valid [simp]: "valid demoBlock v \<longleftrightarrow> v < 10"
  by (simp add: valid_def demoBlock_def) arith

lemma demoBlock_ops [simp]:
  "defOp demoBlock 0 = BlockArg None" "tyOf demoBlock 0 = PtrTy (FloatTy 32)"
  "defOp demoBlock (Suc 0) = BlockArg None" "tyOf demoBlock (Suc 0) = IntTy 64"
  "defOp demoBlock 2 = BlockArg None" "tyOf demoBlock 2 = IntTy 64"
  "defOp demoBlock 3 = BlockArg None" "tyOf demoBlock 3 = IntTy 32"
  "defOp demoBlock 4 = CastOp IndexCast 2" "tyOf demoBlock 4 = IndexTy"
  "defOp demoBlock 5 = CastOp IndexCast 3" "tyOf demoBlock 5 = IndexTy"
  "defOp demoBlock 6 = BinOp MulI 5 4" "tyOf demoBlock 6 = IndexTy"
  "defOp demoBlock 7 = CastOp IndexCast 1" "tyOf demoBlock 7 = IndexTy"
  "defOp demoBlock 8 = MakeTensorPtrOp 0 [1] [2] [3] [0]" "tyOf demoBlock 8 = PtrTy (TensorTy [8] (FloatTy 32))"
  "defOp demoBlock 9 = AdvanceOp 8 [3]" "tyOf demoBlock 9 = PtrTy (TensorTy [8] (FloatTy 32))"
  by (simp_all add: demoBlock_def defOp_def tyOf_def entry_def)

lemma demoBlock_describes: "blockDescribes E demoBlock 8 demoBlockSt"
proof -
  note e = eval_unfold [OF demoBlock_wf]
  have c: "w64 (eval E demoBlock 4 []) = w64 (eval E demoBlock 2 [])"
    "w64 (eval E demoBlock 5 []) = w64 (eval E demoBlock 3 [])"
    "w64 (eval E demoBlock 6 []) = w64 (eval E demoBlock 3 []) * w64 (eval E demoBlock 2 [])"
    using e [of 4 E] e [of 5 E] e [of 6 E] by (simp_all add: denOp_def norm_def w64_ring)
  have "w64 (eval E demoBlock 8 [i]) = blockAddr E demoBlock demoBlockSt 0 [i]" for i
    using e [of 8 E] c
    by (simp add: denOp_def norm_def blockAddr_def demoBlockSt_def dimTerm_def w64_ring algebra_simps)
  then show ?thesis
    by (auto simp: blockDescribes_def demoBlockSt_def getRank_def length_Suc_conv)
qed

end
