(* ===== verification/Claims_OFR.thy ===== *)
theory Claims_OFR
  imports OFR_Sound Demo
begin

text \<open>The properties of \<open>OpFoldResultUtils.cpp\<close>, with an instance of each on \<open>demoIdx\<close>.\<close>

text \<open>Two index values, an \<open>i32\<close> argument and two casts of it.\<close>

definition demoIdx :: ir where
  "demoIdx = \<lparr>ops = [
     (BlockArg None, IndexTy),
     (ConstantOp (IntegerAttr 5 IndexTy), IndexTy),
     (BlockArg None, IntTy 32),
     (CastOp IndexCast 2, IndexTy),
     (CastOp IndexCast 2, IndexTy),
     (BinOp MinSI 0 3, IndexTy),
     (BinOp MinSI 4 0, IndexTy)], fors = []\<rparr>"

lemma demoIdx_wf: "wf_ir demoIdx"
  by (simp add: wf_ir_enumerate demoIdx_def norm_def wrap_id)

lemma demoIdx_valid [simp]: "valid demoIdx v \<longleftrightarrow> v < 7"
  by (simp add: valid_def demoIdx_def) arith

lemma demoIdx_ops [simp]:
  "defOp demoIdx 0 = BlockArg None" "tyOf demoIdx 0 = IndexTy"
  "defOp demoIdx (Suc 0) = ConstantOp (IntegerAttr 5 IndexTy)" "tyOf demoIdx (Suc 0) = IndexTy"
  "defOp demoIdx 2 = BlockArg None" "tyOf demoIdx 2 = IntTy 32"
  "defOp demoIdx 3 = CastOp IndexCast 2" "tyOf demoIdx 3 = IndexTy"
  "defOp demoIdx 4 = CastOp IndexCast 2" "tyOf demoIdx 4 = IndexTy"
  "defOp demoIdx 5 = BinOp MinSI 0 3" "tyOf demoIdx 5 = IndexTy"
  "defOp demoIdx 6 = BinOp MinSI 4 0" "tyOf demoIdx 6 = IndexTy"
  by (simp_all add: demoIdx_def defOp_def tyOf_def entry_def)

lemma demoIdx_less: "v < length (ops demoIdx) \<Longrightarrow> v = 0 \<or> v = Suc 0 \<or> v = 2 \<or> v = 3 \<or> v = 4 \<or> v = 5 \<or> v = 6"
  by (simp add: demoIdx_def) arith

lemma demoIdx_lossless: "lossless E demoIdx"
proof -
  note e = eval_unfold [OF demoIdx_wf]
  have w: "wrap 64 (eval E demoIdx v []) = eval E demoIdx v []" if "v \<in> {0, 2, 3, 4}" for v
    using that e [of 0 E] e [of 2 E] e [of 3 E] e [of 4 E] by (auto simp: norm_def wrap_widen)
  have c: "eval E demoIdx 3 [] = eval E demoIdx 2 []" "eval E demoIdx 4 [] = eval E demoIdx 2 []"
    using w e [of 3 E] e [of 4 E] by (simp_all add: denOp_def norm_def)
  have m: "eval E demoIdx 5 [] = min (eval E demoIdx 0 []) (eval E demoIdx 3 [])"
    "eval E demoIdx 6 [] = min (eval E demoIdx 4 []) (eval E demoIdx 0 [])"
    using w e [of 5 E] e [of 6 E] by (simp_all add: denOp_def norm_def min_def)
  show ?thesis
    unfolding lossless_def using c m by (auto dest!: demoIdx_less)
qed

section \<open>Arithmetic\<close>

text \<open>C28: addition, subtraction, multiplication and the signed minimum and maximum of two index fold
  results always return; they append operations only, and the result, folded or created, denotes the
  sum, the difference, the product (each at 64 bits), the smaller and the larger of the two.\<close>

theorem arithOFRs_correct:
  assumes "wf_ir s" and "idx_ofr s a" and "idx_ofr s b"
    and "(op, f) \<in> {(addOFRs, (+)), (subOFRs, (-)), (mulOFRs, (*)), (minOFRs, min), (maxOFRs, max)}"
  shows "\<exists>r s'. op a b s = (Inr r, s') \<and> grows s s' \<and> idx_ofr s' r \<and> (\<forall>E. osem E s' r = wrap 64 (f (osem E s a) (osem E s b)))"
  using assms(4) add_ofr.returns [OF assms(1-3)] sub_ofr.returns [OF assms(1-3)] mul_ofr.returns [OF assms(1-3)]
    min_ofr.returns [OF assms(1-3)] max_ofr.returns [OF assms(1-3)] by auto

theorem arithOFRs_correct_witness:
  "(\<exists>r s'. mulOFRs (Val 1) (Val 0) demoIdx = (Inr r, s') \<and> grows demoIdx s' \<and> idx_ofr s' r \<and>
    (\<forall>E. osem E s' r = wrap 64 (osem E demoIdx (Val 1) * osem E demoIdx (Val 0)))) \<and>
   (\<exists>r s'. minOFRs (Val 0) (getIndexAttr 3) demoIdx = (Inr r, s') \<and> grows demoIdx s' \<and> idx_ofr s' r \<and>
    (\<forall>E. osem E s' r = wrap 64 (min (osem E demoIdx (Val 0)) (osem E demoIdx (getIndexAttr 3)))))"
  by (intro conjI arithOFRs_correct [OF demoIdx_wf]) simp_all

section \<open>Comparison\<close>

text \<open>C29: a comparison with a choice of results denotes the chosen one, whether it is folded or
  emitted as \<open>arith.cmpi\<close> and \<open>arith.select\<close>, for every signed predicate and for the unsigned ones
  when the operands are not negative.\<close>

theorem compareOFRs_correct:
  assumes "wf_ir s" and "idx_ofr s a" and "idx_ofr s b" and "idx_ofr s t" and "idx_ofr s f"
    and "unsignedPred p \<Longrightarrow> 0 \<le> osem E s a \<and> 0 \<le> osem E s b"
  shows "\<exists>r s'. compareOFRs a b p t f s = (Inr r, s') \<and> grows s s' \<and> idx_ofr s' r \<and>
    osem E s' r = (if cmpPred p 64 (osem E s a) (osem E s b) then osem E s t else osem E s f)"
proof -
  have "wp (compareOFRs a b p t f) (\<lambda>r s'. grows s s' \<and> idx_ofr s' r \<and>
    osem E s' r = (if cmpPred p 64 (osem E s a) (osem E s b) then osem E s t else osem E s f)) s"
    by (rule wp_compareOFRs [OF assms]) auto
  then show ?thesis by (auto simp: wp_def)
qed

theorem compareOFRs_correct_witness:
  "\<exists>r s'. compareOFRs (Val 0) (getIndexAttr 3) Slt (Val 0) (getIndexAttr 3) demoIdx = (Inr r, s') \<and>
    grows demoIdx s' \<and> idx_ofr s' r \<and>
    osem demoE s' r = (if cmpPred Slt 64 (osem demoE demoIdx (Val 0)) (osem demoE demoIdx (getIndexAttr 3))
      then osem demoE demoIdx (Val 0) else osem demoE demoIdx (getIndexAttr 3))"
  by (rule compareOFRs_correct) (simp_all add: demoIdx_wf unsignedPred_def)

text \<open>Two constants are compared as signed numbers, whatever the predicate.\<close>

theorem unsigned_folded_as_signed:
  "fst (compareOFRs (getIndexAttr (-1)) (getIndexAttr 3) Ult (getIndexAttr 7) (getIndexAttr 8) demoIdx) = Inr (getIndexAttr 7) \<and>
   \<not> cmpPred Ult 64 (-1) 3"
  by code_simp

text \<open>C30: fold results that the structural comparison identifies denote the same value, as long as
  the index casts, subtractions and minima it looks through do not lose bits.\<close>

theorem sameOFR_correct:
  assumes "wf_ir s" and "lossless E s" and "\<And>v. lhs = Val v \<Longrightarrow> valid s v" and "\<And>v. rhs = Val v \<Longrightarrow> valid s v"
    and "sameOFR s lhs rhs"
  shows "osem E s lhs = osem E s rhs"
  using assms by (rule sameOFR_sound)

lemma demoIdx_same: "sameOFR demoIdx (Val 5) (Val 6)"
  by (simp add: sameOFR_def sameBoundedSizeExpr.simps peelTrivialIndexExpr.simps getConstantIntLike.simps
      sameValueOrEquivalentCast_def dynBin_def sameMinSIOp_def Let_def)

theorem sameOFR_correct_witness:
  "osem demoE demoIdx (Val 5) = osem demoE demoIdx (Val 6)"
  using demoIdx_same by (intro sameOFR_correct [OF demoIdx_wf demoIdx_lossless]) auto

end
