(* ===== verification/Extends.thy ===== *)
theory Extends
  imports Ptr_Visit
begin

text \<open>
  The builder's discipline: whatever a function returns, also when it fails or aborts half-way, the
  operations that existed keep their place, definition and type.  The rules go through the monad and
  then through the functions of the analyses, in the order these call each other.
\<close>

named_theorems appends_intros \<open>a computation only appends operations\<close>

definition appends :: "'a irm \<Rightarrow> bool" where
  "appends m \<longleftrightarrow> (\<forall>s. ext s (snd (m s)))"

lemma appendsD: "appends m \<Longrightarrow> m s = (r, t) \<Longrightarrow> ext s t"
  unfolding appends_def by (metis snd_conv)

lemma appends_ret [appends_intros, simp]: "appends (ret x)"
  by (simp add: appends_def ret_def)

lemma appends_raise [appends_intros, simp]: "appends (raise e)"
  by (simp add: appends_def raise_def)

lemma appends_getM [appends_intros, simp]: "appends (getM f)"
  by (simp add: appends_def getM_def)

lemma appends_castM [appends_intros, simp]: "appends (castM x)"
  by (simp add: castM_def split: option.split)

lemma appends_atM [appends_intros, simp]: "appends (atM xs i)"
  by (simp add: atM_def)

lemma appends_assertM [appends_intros, simp]: "appends (assertM b)"
  by (simp add: assertM_def)

lemma appends_requireM [appends_intros, simp]: "appends (requireM b)"
  by (simp add: requireM_def)

lemma appends_create [appends_intros, simp]: "appends (create opn t)"
  by (simp add: appends_def create_def ext_def)

lemma appends_bindM [appends_intros]:
  assumes "appends m" and "\<And>x. appends (f x)"
  shows "appends (bindM m f)"
  unfolding appends_def
proof
  fix s
  obtain r t where m: "m s = (r, t)" by fastforce
  have st: "ext s t" using assms(1) m by (rule appendsD)
  show "ext s (snd (bindM m f s))"
  proof (cases r)
    case (Inl e)
    then show ?thesis using m st by (simp add: bindM_def)
  next
    case (Inr x)
    have "ext t (snd (f x t))" using assms(2) by (simp add: appends_def)
    then show ?thesis using m st Inr by (auto simp: bindM_def intro: ext_trans)
  qed
qed

lemma appends_thenM [appends_intros]: "appends m \<Longrightarrow> appends n \<Longrightarrow> appends (thenM m n)"
  unfolding thenM_def by (rule appends_bindM)

lemma appends_attemptM [appends_intros]:
  assumes "appends m"
  shows "appends (attemptM m)"
  unfolding appends_def attemptM_def
proof
  fix s
  obtain r t where m: "m s = (r, t)" by fastforce
  then show "ext s (snd (case m s of (Inl e, s') \<Rightarrow> if e = Failure then (Inr None, s') else (Inl e, s') | (Inr x, s') \<Rightarrow> (Inr (Some x), s')))"
    using appendsD [OF assms m] by (cases r) auto
qed

lemma appends_mapM [appends_intros]: "(\<And>x. appends (f x)) \<Longrightarrow> appends (mapM f xs)"
  by (induction xs) (auto intro!: appends_intros)

lemma appends_existsM [appends_intros]: "(\<And>x. appends (f x)) \<Longrightarrow> appends (existsM f xs)"
  by (induction xs) (auto intro!: appends_intros)

lemmas appends_splits = option.split gofr.split attr.split gop.split binop.split castop.split prod.split ty.split

text \<open>The builder and the arithmetic on fold results.\<close>

lemma appends_builder [appends_intros, simp]:
  "appends (createBin k a b)" "appends (createIndexConst n)" "appends (createIndexCast t v)"
  unfolding createBin_def createIndexConst_def createIndexCast_def by (intro appends_intros)+

lemma appends_ofrOperand [appends_intros, simp]: "appends (ofrOperand x n)"
  by (auto simp: ofrOperand_def intro!: appends_intros split: option.split)

lemma appends_ofrToIndexValue [appends_intros, simp]: "appends (ofrToIndexValue x)"
  by (auto simp: ofrToIndexValue_def intro!: appends_intros split: gofr.split option.split)

lemma appends_hasConstZero [appends_intros, simp]: "appends (hasConstZero x)"
  by (auto simp: hasConstZero_def split: gofr.split option.split)

lemma appends_indexTypeCast [appends_intros, simp]: "appends (indexTypeCast v t)"
  by (auto simp: indexTypeCast_def intro!: appends_intros)

lemma appends_expandOFRIndex [appends_intros, simp]: "appends (expandOFRIndex x y)"
  by (auto simp: expandOFRIndex_def intro!: appends_intros split: gofr.split attr.split)

lemma appends_expandSubOperands [appends_intros, simp]: "appends (expandSubOperands a b)"
  by (auto simp: expandSubOperands_def intro!: appends_intros split: prod.split gofr.split)

lemma appends_createFolded [appends_intros, simp]: "appends (createFolded k a l b r)"
  unfolding createFolded_def by (intro appends_intros)

lemma appends_intAttrOrConst [appends_intros, simp]: "appends (intAttrOrConst x)"
  by (auto simp: intAttrOrConst_def intro!: appends_intros split: gofr.split gop.split)

lemma appends_OFRs [appends_intros, simp]:
  "appends (addOFRs a b)" "appends (subOFRs a b)" "appends (mulOFRs a b)"
  "appends (minOFRs a b)" "appends (maxOFRs a b)" "appends (compareOFRs a b p t f)"
  unfolding addOFRs_def subOFRs_def mulOFRs_def minOFRs_def maxOFRs_def compareOFRs_def Let_def
  by (auto intro!: appends_intros split: option.split prod.split)

text \<open>Pointer states.\<close>

lemma appends_queries [appends_intros, simp]:
  "appends (getRank st)" "appends (isEmpty st)" "appends (dimHasModulo st i)" "appends (hasModulo st)"
  "appends (dimIsStructured st i)" "appends (getNonStructuredDim st)" "appends (noStructuredDimExists st)"
  unfolding getRank_def isEmpty_def dimHasModulo_def hasModulo_def dimIsStructured_def getNonStructuredDim_def
    noStructuredDimExists_def by (intro appends_intros)+

lemma appends_rebuild [appends_intros, simp]:
  "appends (rebuildAsUnsupportedOp st v)" "appends (rebuildAsGatherScatter st v d)"
  unfolding rebuildAsUnsupportedOp_def rebuildAsGatherScatter_def by (intro appends_intros)+

lemma appends_addUnstructuredDim [appends_intros, simp]: "appends (addUnstructuredDim a b i)"
  unfolding addUnstructuredDim_def Let_def by (auto intro!: appends_intros split: prod.split)

lemma appends_addDim [appends_intros, simp]: "appends (addDim a b u i)"
  unfolding addDim_def by (auto intro!: appends_intros)

lemma appends_addShapes [appends_intros, simp]: "appends (addShapes a b r i)"
  by (induction a b r i rule: addShapes.induct) (subst addShapes.simps, auto intro!: appends_intros)

lemma appends_addState [appends_intros, simp]: "appends (addState a b u)"
  unfolding addState_def by (auto intro!: appends_intros split: option.split)

lemma appends_mulState [appends_intros, simp]: "appends (mulState a b u)"
  unfolding mulState_def mulDim_def Let_def by (auto intro!: appends_intros split: option.split)

text \<open>The handlers, over the visit of the operands.\<close>

lemma appends_reconcileModulo [appends_intros, simp]: "appends (reconcileModulo pa a b x y)"
  unfolding reconcileModulo_def by (auto intro!: appends_intros)

lemma appends_negateState [appends_intros, simp]: "appends (negateState st)"
  unfolding negateState_def by (auto intro!: appends_intros split: option.split)

lemma appends_assertMode [appends_intros, simp]: "appends (assertMode pa)"
  by (simp add: assertMode_def)

lemma appends_moduloDim [appends_intros, simp]: "appends (moduloDim pa r st d m)"
  unfolding moduloDim_def rebuildModuloAsGatherScatter_def by (auto intro!: appends_intros split: option.split)

lemma appends_broadcastSizes [appends_intros, simp]: "appends (broadcastSizes a b i xs)"
  by (induction a b i xs rule: broadcastSizes.induct) (auto intro!: appends_intros)

lemma appends_handlers:
  assumes [simp]: "\<And>u. appends (visit u)"
  shows "appends (visitOperandAdd visit pa a b)" "appends (visitOperandSub visit pa a b)"
    "appends (visitOperandMul visit pa a b)" "appends (visitOperandRem visit pa v a b)"
    "appends (visitOperandExtSI visit a)" "appends (visitOperandExtUI visit a)" "appends (visitOperandCmp visit a b)"
    "appends (visitOperandExpandDims visit v a ax)" "appends (visitOperandBroadcast visit v a)"
    "appends (visitOperandSplat visit v a)" "appends (visitOperandAddptr visit pa a b)" "appends (visitOperandBitcast visit v a)"
proof -
  show "appends (visitOperandAdd visit pa a b)" unfolding visitOperandAdd_def
    by (auto intro!: appends_intros)
  show "appends (visitOperandSub visit pa a b)" unfolding visitOperandSub_def
    by (auto intro!: appends_intros)
  show "appends (visitOperandMul visit pa a b)" unfolding visitOperandMul_def
    by (auto intro!: appends_intros)
  show "appends (visitOperandRem visit pa v a b)" unfolding visitOperandRem_def
    by (auto intro!: appends_intros)
  show "appends (visitOperandExtSI visit a)" "appends (visitOperandExtUI visit a)" "appends (visitOperandCmp visit a b)"
    by (simp_all add: visitOperandExtSI_def visitOperandExtUI_def visitOperandCmp_def)
  show "appends (visitOperandExpandDims visit v a ax)" unfolding visitOperandExpandDims_def Let_def
    by (auto intro!: appends_intros)
  show "appends (visitOperandBroadcast visit v a)" unfolding visitOperandBroadcast_def
    by (auto intro!: appends_intros)
  show "appends (visitOperandSplat visit v a)" unfolding visitOperandSplat_def Let_def
    by (auto intro!: appends_intros split: option.split)
  show "appends (visitOperandAddptr visit pa a b)" unfolding visitOperandAddptr_def
    by (auto intro!: appends_intros)
  show "appends (visitOperandBitcast visit v a)" unfolding visitOperandBitcast_def
    by (auto intro!: appends_intros)
qed

lemma appends_leaves [simp]:
  "appends (visitOperandMakeRange v start stop)" "appends (visitOperandConstSplat v x)" "appends (visitOperandIntToPtr v)"
  "appends (visitOperandAlloc v sh)" "appends (visitOperandSubview v a)" "appends (visitOperandSubviewPack v a)"
  "appends (visitOperandBufferTensorViewOp v)" "appends (visitOperandMakeTensorPtr v base shs strs offs ord)"
  unfolding visitOperandMakeRange_def visitOperandConstSplat_def visitOperandIntToPtr_def visitOperandAlloc_def
    visitOperandSubview_def visitOperandSubviewPack_def visitOperandBufferTensorViewOp_def visitOperandMakeTensorPtr_def
    blockPtrDim_def Let_def
  by (auto intro!: appends_intros split: prod.split)

lemma appends_loops [simp]:
  "(\<And>k. appends (g k)) \<Longrightarrow> appends (reconcileLoopPtrState i st g)" "appends (forAt f)" "appends (loopResultOf f i st)"
proof -
  show rec: "appends (reconcileLoopPtrState i st g)" if "\<And>k. appends (g k)" for i st g
    unfolding reconcileLoopPtrState_def Let_def using that by (auto intro!: appends_intros)
  show "appends (forAt f)" by (auto simp: forAt_def intro!: appends_intros)
  then show "appends (loopResultOf f i st)"
    unfolding loopResultOf_def by (auto intro!: appends_intros rec)
qed

lemma appends_loopInit [simp]: "appends (getLoopInitArgPtrState pa f i)"
proof (induction pa f i rule: getLoopInitArgPtrState.induct)
  case (1 pa f i)
  have "appends (let fallback = (case knownPtrs pa ptr of
           Some st \<Rightarrow> thenM (assertM (isBlockArg d)) (ret st)
         | None \<Rightarrow> raise Failure)
     in (case d of
       GetStructuredStateOp orig k \<Rightarrow>
         (case knownPtrs pa orig of Some st \<Rightarrow> ret st | None \<Rightarrow> fallback)
     | ForResultOp f' k \<Rightarrow>
         if f' < f then bindM (getLoopInitArgPtrState pa f' i) (loopResultOf f' i)
         else raise Abort
     | _ \<Rightarrow> fallback))" for ptr d
    using 1 by (cases d) (auto intro!: appends_intros simp: Let_def split: option.split)
  then show ?case
    by (subst getLoopInitArgPtrState.simps) (auto intro!: appends_intros)
qed

lemma appends_loopResult [simp]: "appends (getLoopResultPtrState pa f i)" "appends (getLoopIterArgPtrState pa f i)"
  "appends (visitOperandForOp pa f i)"
  unfolding getLoopResultPtrState_def getLoopIterArgPtrState_def visitOperandForOp_def
  by (auto intro!: appends_intros appends_loops(1))

lemma appends_visitOperandStep:
  assumes [simp]: "\<And>u. appends (visit u)"
  shows "appends (visitOperandStep visit pa v)"
proof -
  note [simp] = appends_handlers [OF assms]
  have p: "appends (visitPointer visit pa v d)" for d
    by (cases d) (auto simp: visitPointer_def)
  have t: "appends (visitTensor visit pa v d)" for d
  proof (cases d)
    case (BinOp k a b)
    then show ?thesis by (cases k) (auto simp: visitTensor_def intro!: appends_intros)
  next
    case (CastOp k a)
    then show ?thesis by (cases k) (auto simp: visitTensor_def intro!: appends_intros)
  qed (auto simp: visitTensor_def intro!: appends_intros split: option.split)
  show ?thesis unfolding visitOperandStep_def
    by (auto intro!: appends_intros p t split: option.split)
qed

lemma appends_visitOperand [simp]: "appends (visitOperand pa v)"
proof (induction pa v rule: visitOperand.induct)
  case (1 pa v)
  show ?case by (subst visitOperand.simps, rule appends_visitOperandStep) (use 1 in simp)
qed

end
