(* ===== verification/Claims_Ptr.thy ===== *)
theory Claims_Ptr
  imports Rewrite_Sound Extends Demo
begin

text \<open>The properties of \<open>PtrAnalysis\<close>, with an instance of each on a concrete program.\<close>

section \<open>The contract of the visit\<close>

text \<open>
  What the clients of \<open>visitOperand\<close> rely on: it appends operations only, and on an affine term it
  returns a state that describes the term.
\<close>

locale pointer_visit =
  fixes visit :: "ptr_analysis \<Rightarrow> val \<Rightarrow> ptr_state irm"
  assumes visit_appends: "appends (visit pa v)"
    and visit_sound: "wf_ir s \<Longrightarrow> modeOk pa \<Longrightarrow> knownOk E pa s \<Longrightarrow> affine E pa s v sc \<Longrightarrow>
      computes E s (visit pa v) v sc"
begin

lemma visit_returns:
  assumes "wf_ir s" "modeOk pa" "knownOk E pa s" "affine E pa s v sc"
  shows "\<exists>st s'. visit pa v s = (Inr st, s') \<and> grows s s' \<and> describes E s' v st \<and> (sc \<longrightarrow> scalar st \<noteq> None)"
  using visit_sound [OF assms] grows_refl [OF assms(1)] by (auto simp: computes_def wp_def)

lemma visit_keeps:
  assumes "visit pa v s = (r, s')" "valid s u"
  shows "valid s' u \<and> defOp s' u = defOp s u \<and> tyOf s' u = tyOf s u \<and> eval E s' u = eval E s u"
proof -
  have "ext s s'" using visit_appends assms(1) by (rule appendsD)
  then show ?thesis using assms(2) by (simp add: ext_valid ext_defOp ext_tyOf ext_eval)
qed

text \<open>The offset of a visited term, read back as a sum over its dimensions.\<close>

lemma visit_strided:
  assumes "wf_ir s" "modeOk pa" "knownOk E pa s" "affine E pa s v sc" "\<not> isPtrTy (elemTy (tyOf s v))"
  shows "\<exists>st s'. visit pa v s = (Inr st, s') \<and>
    (\<forall>idx. inB (shapeOf (tyOf s v)) idx \<longrightarrow> w64 (eval E s v idx) = w64 (lin E s' st idx))"
proof -
  from visit_returns [OF assms(1-4)] obtain st s'
    where st: "visit pa v s = (Inr st, s')" "grows s s'" "describes E s' v st" by blast
  have "valid s v" using assms(4) by (cases rule: affine.cases) auto
  then show ?thesis
    using st assms(5) describes_int_value [OF st(3)] tyOf_grows [OF st(2)] eval_grows [OF st(2)] by auto
qed

end

interpretation visitOp: pointer_visit visitOperand
  by unfold_locales (auto intro: visitOperand_computes)

section \<open>The analysis\<close>

text \<open>C1: \<open>visitOperand\<close> returns on every affine term, and the state it returns describes the term:
  at every index of its tensor, the base plus the element size times the strided sum of the state
  is the value of the term, modulo 2 ^ 64.\<close>

theorem visitOperand_correct:
  assumes "wf_ir s" and "modeOk pa" and "knownOk E pa s" and "affine E pa s v sc"
  shows "\<exists>st s'. visitOperand pa v s = (Inr st, s') \<and> grows s s' \<and> describes E s' v st \<and>
    (sc \<longrightarrow> scalar st \<noteq> None)"
  using assms by (rule visitOp.visit_returns)

theorem visitOperand_correct_witness:
  "\<exists>st s'. visitOperand demoPA 6 demo = (Inr st, s') \<and> grows demo s' \<and> describes demoE s' 6 st \<and>
    (False \<longrightarrow> scalar st \<noteq> None)"
  by (rule visitOperand_correct [OF demo_wf demo_known(2,1) demo_affine])

section \<open>The rewriting\<close>

text \<open>C4: the rewriting of an affine \<open>tt.addptr\<close> of tensors succeeds, and the structured pointer it
  records for the result has the same address at every index.\<close>

theorem rewriteAddptrOp_correct:
  assumes "wf_ir s" and "\<not> isAnalysisingUnstructured pa" and "knownOk E pa s" and "fresh pa v"
    and "affine E pa s v sc" and "defOp s v = AddPtrOp p d" and "tyOf s v = TensorTy sh t" and "sh \<noteq> []"
    and "\<And>n. n \<in> set sh \<Longrightarrow> in64 n"
  shows "\<exists>pa' m s'. rewriteAddptrOp pa v s = (Inr (pa', True), s') \<and> grows s s' \<and> ptrMap pa' v = Some m \<and>
    knownOk E pa' s' \<and> (\<forall>idx. inB sh idx \<longrightarrow> eval E s' m idx = eval E s v idx)"
proof -
  have v: "valid s v" using assms(5) by (cases rule: affine.cases) auto
  have "wp (rewriteAddptrOp pa v) (\<lambda>(pa', b) s'. b \<and> grows s s' \<and> knownOk E pa' s' \<and>
     (\<exists>m. ptrMap pa' v = Some m \<and> (\<forall>idx. inB sh idx \<longrightarrow> eval E s' m idx = eval E s v idx))) s"
    by (rule wp_rewriteAddptrOp [OF assms(1-3) v assms(4,6,5,7-9)])
      (use assms(3) v in \<open>auto simp: knownOk_def mapPtr_def setKnown_def intro: describes_grows valid_grows\<close>)
  then show ?thesis by (auto simp: wp_def)
qed

theorem rewriteAddptrOp_correct_witness:
  "\<exists>pa' m s'. rewriteAddptrOp demoPA 6 demo = (Inr (pa', True), s') \<and> grows demo s' \<and> ptrMap pa' 6 = Some m \<and>
    knownOk demoE pa' s' \<and> (\<forall>idx. inB [4] idx \<longrightarrow> eval demoE s' m idx = eval demoE demo 6 idx)"
  by (rule rewriteAddptrOp_correct [OF demo_wf demo_known(3,1) demo_fresh demo_affine, of 5 4 "[4]" "PtrTy (FloatTy 32)"])
    (simp_all add: in64_def)

text \<open>C17: a \<open>tt.make_tensor_ptr\<close> is replaced by a structured block pointer with the same address at every
  index, and its recorded state describes it.\<close>

theorem rewriteMakeTensorPtrOp_correct:
  assumes "wf_ir s" and "valid s v" and "defOp s v = MakeTensorPtrOp base shs strs offs ord" and "ord \<noteq> []"
    and "tyOf s v = PtrTy (TensorTy sh e)" and "tyOf s base = PtrTy e" and "\<not> isTensorPointerType (PtrTy e)"
    and "\<And>n. n \<in> set sh \<Longrightarrow> in64 n"
    and "length strs = length sh" and "length offs = length sh" and "length shs = length sh"
    and "\<And>x. x \<in> set strs \<union> set offs \<union> set shs \<Longrightarrow> isIntOrIndex (tyOf s x)"
    and "\<And>x. x \<in> set (om base) \<Longrightarrow> int_ofr s x"
  shows "\<exists>pa' m st s'. rewriteMakeTensorPtrOp pa om v s = (Inr (pa', True), s') \<and> grows s s' \<and>
    ptrMap pa' v = Some m \<and> knownPtrs pa' v = Some st \<and> (\<forall>E. blockDescribes E s' v st) \<and>
    (\<forall>E idx. length idx = length sh \<longrightarrow> eval E s' m idx = eval E s v idx)"
proof -
  have "wp (rewriteMakeTensorPtrOp pa om v) (\<lambda>(pa', b) s'. b \<and> grows s s' \<and> (\<exists>m st. ptrMap pa' v = Some m \<and>
     knownPtrs pa' v = Some st \<and> (\<forall>E. blockDescribes E s' v st) \<and>
     (\<forall>E idx. length idx = length sh \<longrightarrow> eval E s' m idx = eval E s v idx))) s"
    by (rule wp_rewriteMakeTensorPtrOp [OF assms]) (auto simp: mapPtr_def setKnown_def)
  then show ?thesis by (auto simp: wp_def)
qed

theorem rewriteMakeTensorPtrOp_correct_witness:
  "\<exists>pa' m st s'. rewriteMakeTensorPtrOp demoPA (\<lambda>_. [Val 3]) 8 demoBlock = (Inr (pa', True), s') \<and> grows demoBlock s' \<and>
    ptrMap pa' 8 = Some m \<and> knownPtrs pa' 8 = Some st \<and> (\<forall>E. blockDescribes E s' 8 st) \<and>
    (\<forall>E idx. length idx = length [8::int] \<longrightarrow> eval E s' m idx = eval E demoBlock 8 idx)"
  by (rule rewriteMakeTensorPtrOp_correct [OF demoBlock_wf, where base = 0 and shs = "[1]" and strs = "[2]"
        and offs = "[3]" and ord = "[0]" and e = "FloatTy 32"]) (auto simp: in64_def int_ofr_def)

text \<open>C18: a \<open>tt.advance\<close> of a described block pointer is replaced by a structured block pointer whose
  address at an index is the address of the original at the index shifted by the increments; the
  recorded state describes the result, so that advances can follow each other.\<close>

theorem rewriteAdvanceOp_correct:
  assumes "wf_ir s" and "valid s v" and "defOp s v = AdvanceOp p ds" and "modeOk pa"
    and "\<not> isAnalysisingUnstructured pa" and "knownPtrs pa p = Some st" and "\<And>E. blockDescribes E s p st"
    and "tyOf s v = PtrTy (TensorTy sh e)" and "tyOf s p = tyOf s v" and "\<And>n. n \<in> set sh \<Longrightarrow> in64 n"
    and "length ds = length sh" and "\<And>x. x \<in> set ds \<Longrightarrow> isIntOrIndex (tyOf s x)"
  shows "\<exists>pa' m st' s'. rewriteAdvanceOp pa v s = (Inr (pa', True), s') \<and> grows s s' \<and>
    ptrMap pa' v = Some m \<and> knownPtrs pa' v = Some st' \<and> (\<forall>E. blockDescribes E s' v st') \<and>
    (\<forall>E idx. length idx = length sh \<longrightarrow>
       eval E s' m idx = eval E s p (shiftIdx (\<lambda>u. eval E s u []) ds idx))"
proof -
  have p: "valid s p" using wf_operand_valid [OF assms(1,2), of p] assms(3) by simp
  have adv: "eval E s v idx = eval E s p (shiftIdx (\<lambda>u. eval E s u []) ds idx)" for E idx
    using eval_unfold [OF assms(1,2), of E] eval_norm [OF assms(1) p, of E] assms(3,9) by (simp add: denOp_def)
  have "wp (rewriteAdvanceOp pa v) (\<lambda>(pa', b) s'. b \<and> grows s s' \<and> (\<exists>m st'. ptrMap pa' v = Some m \<and>
     knownPtrs pa' v = Some st' \<and> (\<forall>E. blockDescribes E s' v st') \<and>
     (\<forall>E idx. length idx = length sh \<longrightarrow> eval E s' m idx = eval E s v idx))) s"
    by (rule wp_rewriteAdvanceOp [OF assms]) (auto simp: mapPtr_def setKnown_def)
  then show ?thesis using adv by (auto simp: wp_def)
qed

theorem rewriteAdvanceOp_correct_witness:
  "\<exists>pa' m st' s'. rewriteAdvanceOp (demoPA\<lparr>knownPtrs := [8 \<mapsto> demoBlockSt]\<rparr>) 9 demoBlock = (Inr (pa', True), s') \<and>
    grows demoBlock s' \<and> ptrMap pa' 9 = Some m \<and> knownPtrs pa' 9 = Some st' \<and> (\<forall>E. blockDescribes E s' 9 st') \<and>
    (\<forall>E idx. length idx = length [8::int] \<longrightarrow>
       eval E s' m idx = eval E demoBlock 8 (shiftIdx (\<lambda>u. eval E demoBlock u []) [3] idx))"
  by (rule rewriteAdvanceOp_correct [OF demoBlock_wf, where st = demoBlockSt])
    (simp_all add: in64_def demoPA_def modeOk_def demoBlock_describes)

end
