(* ===== verification/Mask.thy ===== *)
theory Mask
  imports OFR
begin

text \<open>
  \<open>triton::MaskState\<close> of \<open>lib/Analysis/MaskAnalysis.cpp\<close>: the mask of a load or store, recovered as
  one size per dimension.  A parse function that fills the empty receiver returns it; a null
  \<open>OpFoldResult\<close> is \<open>None\<close>, and using it aborts.
\<close>

section \<open>The state\<close>

record mask_state =
  mstart :: "ofr option"
  mend :: "ofr option"
  mdims :: "ofr list"
  mscalar :: "ofr option"

definition emptyMask :: mask_state where
  "emptyMask = \<lparr>mstart = None, mend = None, mdims = [], mscalar = None\<rparr>"

definition maskRank :: "mask_state \<Rightarrow> nat" where
  "maskRank st = length (mdims st)"

definition isMask :: "mask_state \<Rightarrow> bool" where
  "isMask st \<longleftrightarrow> mstart st = None \<and> mend st = None \<and> mscalar st = None \<and> mdims st \<noteq> []"

section \<open>Slices\<close>

definition zeroOffsets :: "nat \<Rightarrow> ofr list" where
  "zeroOffsets n = replicate n (getIndexAttr 0)"

definition unitStrides :: "nat \<Rightarrow> ofr list" where
  "unitStrides n = replicate n (getIndexAttr 1)"

text \<open>The static part of the inferred type: a size that is not an attribute is dynamic.\<close>

definition staticDim :: "ofr \<Rightarrow> int" where
  "staticDim x = (case getIntAttr x of Some n \<Rightarrow> n | None \<Rightarrow> - (2 ^ 63))"

definition getExtractSlice :: "mask_state \<Rightarrow> val \<Rightarrow> val irm" where
  "getExtractSlice st source =
     bindM (getM (\<lambda>s. tyOf s source)) (\<lambda>t. thenM (assertM (isTensor t))
     (create (ExtractSliceOp source (zeroOffsets (maskRank st)) (mdims st) (unitStrides (maskRank st)))
       (TensorTy (map staticDim (mdims st)) (elemTy t))))"

definition createSubview :: "val \<Rightarrow> ofr list \<Rightarrow> ofr list \<Rightarrow> ofr list \<Rightarrow> val irm" where
  "createSubview src offs szs strs =
     bindM (getM (\<lambda>s. tyOf s src)) (\<lambda>t.
     bindM (castM (case t of MemRefTy _ e \<Rightarrow> Some e | _ \<Rightarrow> None)) (\<lambda>e.
     create (SubViewOp src offs szs strs) (MemRefTy (map staticDim szs) e)))"

definition getSubview :: "mask_state \<Rightarrow> val \<Rightarrow> val irm" where
  "getSubview st source =
     createSubview source (zeroOffsets (maskRank st)) (mdims st) (unitStrides (maskRank st))"

text \<open>The two views of a block that wraps around: the first takes what it can, the second the rest.\<close>

definition getSideBySideSubviews :: "mask_state \<Rightarrow> val \<Rightarrow> val \<Rightarrow> (val \<times> val) irm" where
  "getSideBySideSubviews st block1 block2 =
     bindM (atM (mdims st) 0) (\<lambda>rowFull.
     bindM (atM (mdims st) 1) (\<lambda>colFull.
     bindM (create (DimOp block1 1) IndexTy) (\<lambda>col1.
     bindM (minOFRs (Val col1) colFull) (\<lambda>subviewCol1.
     bindM (subOFRs colFull subviewCol1) (\<lambda>subviewCol2.
     bindM (createSubview block1 (zeroOffsets (maskRank st)) [rowFull, subviewCol1] (unitStrides (maskRank st))) (\<lambda>sv1.
     bindM (createSubview block2 (zeroOffsets (maskRank st)) [rowFull, subviewCol2] (unitStrides (maskRank st))) (\<lambda>sv2.
     ret (sv1, sv2))))))))"

definition getStackedSubviews :: "mask_state \<Rightarrow> val \<Rightarrow> val \<Rightarrow> (val \<times> val) irm" where
  "getStackedSubviews st block1 block2 =
     bindM (atM (mdims st) 0) (\<lambda>rowFull.
     bindM (atM (mdims st) 1) (\<lambda>colFull.
     bindM (create (DimOp block1 0) IndexTy) (\<lambda>row1.
     bindM (minOFRs (Val row1) rowFull) (\<lambda>subviewRow1.
     bindM (subOFRs rowFull subviewRow1) (\<lambda>subviewRow2.
     bindM (createSubview block1 (zeroOffsets (maskRank st)) [subviewRow1, colFull] (unitStrides (maskRank st))) (\<lambda>sv1.
     bindM (createSubview block2 (zeroOffsets (maskRank st)) [subviewRow2, colFull] (unitStrides (maskRank st))) (\<lambda>sv2.
     ret (sv1, sv2))))))))"

section \<open>Combining states\<close>

definition addStateScalar :: "mask_state \<Rightarrow> ofr \<Rightarrow> mask_state irm" where
  "addStateScalar st sc =
     bindM (castM (mstart st)) (\<lambda>a. bindM (addOFRs a sc) (\<lambda>a'.
     bindM (castM (mend st)) (\<lambda>b. bindM (addOFRs b sc) (\<lambda>b'.
     ret (emptyMask\<lparr>mstart := Some a', mend := Some b', mdims := mdims st\<rparr>)))))"

definition addMaskStates :: "mask_state \<Rightarrow> mask_state \<Rightarrow> mask_state irm" where
  "addMaskStates lhsState rhsState = (case (mscalar lhsState, mscalar rhsState) of
     (Some _, Some _) \<Rightarrow> raise Failure
   | (None, None) \<Rightarrow> raise Failure
   | (Some l, None) \<Rightarrow> addStateScalar rhsState l
   | (None, Some r) \<Rightarrow> addStateScalar lhsState r)"

text \<open>A scalar operand contributes its first dimension, not its value.\<close>

definition minStateScalar :: "mask_state \<Rightarrow> mask_state \<Rightarrow> mask_state irm" where
  "minStateScalar lhsState rhsState = (case (mscalar lhsState, mscalar rhsState) of
     (Some _, Some _) \<Rightarrow>
       bindM (atM (mdims lhsState) 0) (\<lambda>l. bindM (atM (mdims rhsState) 0) (\<lambda>r.
       bindM (minOFRs l r) (\<lambda>d. ret (emptyMask\<lparr>mdims := [d]\<rparr>))))
   | (Some _, None) \<Rightarrow>
       bindM (mapM (\<lambda>r. bindM (atM (mdims lhsState) 0) (\<lambda>l. minOFRs l r)) (mdims rhsState)) (\<lambda>ds.
       ret (emptyMask\<lparr>mdims := ds\<rparr>))
   | (None, Some _) \<Rightarrow>
       bindM (mapM (\<lambda>l. bindM (atM (mdims rhsState) 0) (\<lambda>r. minOFRs l r)) (mdims lhsState)) (\<lambda>ds.
       ret (emptyMask\<lparr>mdims := ds\<rparr>))
   | (None, None) \<Rightarrow> raise Failure)"

definition minStates :: "mask_state \<Rightarrow> mask_state \<Rightarrow> mask_state irm" where
  "minStates lhsState rhsState =
     thenM (requireM (maskRank lhsState = maskRank rhsState))
     (bindM (mapM (\<lambda>(l, r). minOFRs l r) (zip (mdims lhsState) (mdims rhsState))) (\<lambda>ds.
      ret (emptyMask\<lparr>mdims := ds\<rparr>)))"

section \<open>Parsing\<close>

type_synonym parser = "val \<Rightarrow> mask_state irm"

definition shapeDims :: "ty \<Rightarrow> ofr list" where
  "shapeDims t = map getIndexAttr (shapeOf t)"

text \<open>
  The value of a constant tensor becomes an attribute; the constant operation that is materialised
  for it stays unused.
\<close>

definition parseConstant :: "val \<Rightarrow> attr \<Rightarrow> mask_state irm" where
  "parseConstant v a =
     bindM (case a of
         DenseElementsAttr e et \<Rightarrow>
           thenM (assertM (e \<noteq> None \<and> isIntTy et))
           (bindM (castM (case e of Some (IntegerAttr n _) \<Rightarrow> Some n | _ \<Rightarrow> None)) (\<lambda>n.
            bindM (createIndexConst n) (\<lambda>_. ret n)))
       | IntegerAttr n _ \<Rightarrow> ret n
       | _ \<Rightarrow> raise Abort) (\<lambda>n.
     bindM (getM (\<lambda>s. tyOf s v)) (\<lambda>t.
     ret (emptyMask\<lparr>mscalar := Some (getIndexAttr n), mdims := (if isShaped t then shapeDims t else [])\<rparr>)))"

definition parseIntScalar :: "val \<Rightarrow> mask_state irm" where
  "parseIntScalar v = bindM (createIndexCast IndexTy v) (\<lambda>c. ret (emptyMask\<lparr>mscalar := Some (Val c)\<rparr>))"

definition parseAdd :: "parser \<Rightarrow> val \<Rightarrow> val \<Rightarrow> mask_state irm" where
  "parseAdd parse lhs rhs =
     bindM (parse lhs) (\<lambda>lhsState. bindM (parse rhs) (\<lambda>rhsState. addMaskStates lhsState rhsState))"

definition parseAnd :: "parser \<Rightarrow> val \<Rightarrow> val \<Rightarrow> mask_state irm" where
  "parseAnd parse lhs rhs =
     bindM (parse lhs) (\<lambda>lhsState. bindM (parse rhs) (\<lambda>rhsState.
     if \<not> isMask lhsState \<or> \<not> isMask rhsState then minStateScalar lhsState rhsState
     else minStates lhsState rhsState))"

definition parseExtSI :: "parser \<Rightarrow> val \<Rightarrow> mask_state irm" where
  "parseExtSI parse a = parse a"

text \<open>The dimension that is compared: the only one whose size is not a constant 1.\<close>

fun cmpDimension :: "ofr list \<Rightarrow> nat \<Rightarrow> nat option \<Rightarrow> nat option irm" where
  "cmpDimension [] i c = ret c"
| "cmpDimension (d # ds) i c = (
     if getIntAttr d \<noteq> Some 1 then
       thenM (requireM (c = None)) (cmpDimension ds (Suc i) (Some i))
     else cmpDimension ds (Suc i) c)"

definition isLess :: "pred \<Rightarrow> bool" where
  "isLess p \<longleftrightarrow> p = Slt \<or> p = Ult"

definition cmpNewDim :: "pred \<Rightarrow> mask_state \<Rightarrow> mask_state \<Rightarrow> nat option \<Rightarrow> ofr irm" where
  "cmpNewDim p lhsState rhsState cmpDim = (case mscalar lhsState of
     Some l \<Rightarrow>
       bindM (castM (mscalar rhsState)) (\<lambda>r.
       bindM (castM cmpDim) (\<lambda>k.
       bindM (atM (mdims lhsState) k) (\<lambda>d. compareOFRs l r p d (getIndexAttr 0))))
   | None \<Rightarrow>
     if isLess p then
       bindM (castM (mend lhsState)) (\<lambda>b. bindM (castM (mscalar rhsState)) (\<lambda>r.
       bindM (minOFRs b r) (\<lambda>newEnd.
       bindM (castM (mstart lhsState)) (\<lambda>a.
       bindM (maxOFRs newEnd a) (\<lambda>newEnd'.
       subOFRs newEnd' a)))))
     else bindM (castM cmpDim) (\<lambda>k. atM (mdims lhsState) k))"

definition parseCmp :: "parser \<Rightarrow> pred \<Rightarrow> val \<Rightarrow> val \<Rightarrow> mask_state irm" where
  "parseCmp parse p lhs rhs =
     thenM (requireM (isLess p \<or> p = Sge))
     (bindM (parse lhs) (\<lambda>lhsState. bindM (parse rhs) (\<lambda>rhsState.
      bindM (if p = Sge then (case mscalar rhsState of Some r \<Rightarrow> hasConstZero r | None \<Rightarrow> ret False) else ret True) (\<lambda>ok.
      thenM (requireM ok)
      (bindM (cmpDimension (mdims lhsState) 0
          (if mscalar lhsState \<noteq> None \<and> mscalar rhsState \<noteq> None then Some 0 else None)) (\<lambda>cmpDim.
       thenM (assertM (cmpDim \<noteq> None \<or> mscalar lhsState = None \<and> p = Slt \<or> p = Ult))
       (bindM (cmpNewDim p lhsState rhsState cmpDim) (\<lambda>newDim.
        ret (emptyMask\<lparr>mdims := (case cmpDim of Some k \<Rightarrow> (mdims lhsState)[k := newDim] | None \<Rightarrow> mdims lhsState)\<rparr>)))))))))"

definition parseMakeRange :: "val \<Rightarrow> int \<Rightarrow> int \<Rightarrow> mask_state irm" where
  "parseMakeRange v start stop =
     bindM (getM (\<lambda>s. tyOf s v)) (\<lambda>t. thenM (assertM (isShaped t))
     (bindM (atM (shapeOf t) 0) (\<lambda>n. thenM (assertM (n \<noteq> 0))
     (thenM (requireM ((take_bit 32 (stop - start) + n - 1) div n = 1))
     (ret (emptyMask\<lparr>mstart := Some (getIndexAttr start), mend := Some (getIndexAttr stop),
        mdims := [getIndexAttr n]\<rparr>))))))"

fun broadcastDims :: "int list \<Rightarrow> int list \<Rightarrow> ofr list \<Rightarrow> ofr list irm" where
  "broadcastDims (m # src) (n # dst) (d # ds) =
     (if m = n then bindM (broadcastDims src dst ds) (\<lambda>r. ret (d # r))
      else if m < n then bindM (broadcastDims src dst ds) (\<lambda>r. ret (getIndexAttr n # r))
      else raise Abort)"
| "broadcastDims _ _ ds = ret ds"

definition parseBroadcast :: "parser \<Rightarrow> val \<Rightarrow> val \<Rightarrow> mask_state irm" where
  "parseBroadcast parse v src =
     bindM (getM (\<lambda>s. (tyOf s src, tyOf s v))) (\<lambda>(srcTy, dstTy).
     thenM (assertM (isShaped srcTy \<and> isShaped dstTy \<and> length (shapeOf srcTy) = length (shapeOf dstTy)))
     (bindM (parse src) (\<lambda>st.
      thenM (requireM (length (shapeOf srcTy) \<le> maskRank st))
      (bindM (broadcastDims (shapeOf srcTy) (shapeOf dstTy) (mdims st)) (\<lambda>ds. ret (st\<lparr>mdims := ds\<rparr>))))))"

text \<open>The splat of an \<open>i1\<close> is an all-or-nothing mask: every size is selected by it.\<close>

definition selectDim :: "val \<Rightarrow> int \<Rightarrow> ofr irm" where
  "selectDim src n =
     bindM (ofrToIndexValue (getIndexAttr n)) (\<lambda>t.
     bindM (ofrToIndexValue (getIndexAttr 0)) (\<lambda>f.
     bindM (create (SelectOp src t f) IndexTy) (\<lambda>v. ret (Val v))))"

definition parseSplat :: "parser \<Rightarrow> val \<Rightarrow> val \<Rightarrow> mask_state irm" where
  "parseSplat parse v src =
     bindM (getM (\<lambda>s. (tyOf s src, tyOf s v))) (\<lambda>(srcTy, dstTy).
     thenM (assertM (isShaped dstTy))
     (thenM (requireM (isIntTy srcTy))
     (if width srcTy = 1 then
        bindM (mapM (selectDim src) (shapeOf dstTy)) (\<lambda>ds. ret (emptyMask\<lparr>mdims := ds\<rparr>))
      else bindM (parse src) (\<lambda>st. ret (st\<lparr>mdims := mdims st @ shapeDims dstTy\<rparr>)))))"

definition parseExpandDims :: "parser \<Rightarrow> val \<Rightarrow> val \<Rightarrow> nat \<Rightarrow> mask_state irm" where
  "parseExpandDims parse v src axis =
     bindM (parse src) (\<lambda>st.
     bindM (getM (\<lambda>s. tyOf s v)) (\<lambda>t. thenM (assertM (isShaped t))
     (bindM (atM (shapeOf t) axis) (\<lambda>n. thenM (assertM (n = 1))
     (thenM (requireM (axis \<le> maskRank st))
     (ret (st\<lparr>mdims := insert_at axis (getIndexAttr 1) (mdims st)\<rparr>)))))))"

text \<open>
  A loop-carried index tensor: its state before the loop is parsed from the input of the
  \<open>tts.get_structured_state\<close> that feeds it, and the start is replaced by the offset that the loop
  carries at the next position.
\<close>

definition findIndex :: "val \<Rightarrow> val list \<Rightarrow> nat option" where
  "findIndex v xs = (if v \<in> set xs then Some (length (takeWhile (\<lambda>x. x \<noteq> v) xs)) else None)"

definition parseLoopIterArg :: "parser \<Rightarrow> nat option \<Rightarrow> val \<Rightarrow> mask_state irm" where
  "parseLoopIterArg parse loop v = (case loop of
     None \<Rightarrow> raise Failure
   | Some f \<Rightarrow>
     bindM (getM fors) (\<lambda>fs. bindM (atM fs f) (\<lambda>fo.
     thenM (requireM (parentFor fo = None))
     (case findIndex v (iterArgs fo) of
       None \<Rightarrow> raise Failure
     | Some k \<Rightarrow>
       bindM (atM (initArgs fo) k) (\<lambda>ini.
       bindM (getM (\<lambda>s. defOp s ini)) (\<lambda>d. case d of
         GetStructuredStateOp tritonValue _ \<Rightarrow>
           bindM (parse tritonValue) (\<lambda>st.
           bindM (if mstart st = None \<and> mend st = None then
                bindM (castM (mscalar st)) (\<lambda>c. ret (Some (getIndexAttr 0), Some c))
              else ret (mstart st, mend st)) (\<lambda>(a0, b0).
           bindM (castM a0) (\<lambda>a. bindM (castM b0) (\<lambda>b.
           bindM (subOFRs b a) (\<lambda>dist.
           bindM (atM (iterArgs fo) (k + 1)) (\<lambda>offset.
           bindM (addOFRs (Val offset) dist) (\<lambda>e.
           ret (emptyMask\<lparr>mstart := Some (Val offset), mend := Some e, mdims := mdims st\<rparr>))))))))
       | _ \<Rightarrow> raise Failure))))))"

definition parseStep :: "parser \<Rightarrow> val \<Rightarrow> mask_state irm" where
  "parseStep parse v =
     bindM (getM (\<lambda>s. (tyOf s v, defOp s v))) (\<lambda>(t, d).
     case d of
       ConstantOp a \<Rightarrow> parseConstant v a
     | _ \<Rightarrow>
       if isIntTy t then parseIntScalar v
       else (case d of
         BinOp AddI a b \<Rightarrow> parseAdd parse a b
       | BinOp AndI a b \<Rightarrow> parseAnd parse a b
       | CmpIOp p a b \<Rightarrow> parseCmp parse p a b
       | MakeRangeOp start stop \<Rightarrow> parseMakeRange v start stop
       | BroadcastOp a \<Rightarrow> parseBroadcast parse v a
       | SplatOp a \<Rightarrow> parseSplat parse v a
       | ExpandDimsOp a ax \<Rightarrow> parseExpandDims parse v a ax
       | BlockArg loop \<Rightarrow> parseLoopIterArg parse loop v
       | CastOp ExtSI a \<Rightarrow> parseExtSI parse a
       | _ \<Rightarrow> raise Failure))"

text \<open>The recursion goes to operands, and for a loop-carried value to a value before the loop.\<close>

function parseMask :: "val \<Rightarrow> mask_state irm" where
  "parseMask v = parseStep (\<lambda>u. if u < v then parseMask u else raise Abort) v"
  by pat_completeness auto
termination
  by (relation "measure id") auto

declare parseMask.simps [simp del]

end
