(* ===== verification/Mask_Sound.thy ===== *)
theory Mask_Sound
  imports Mask Ptr_Sound
begin

text \<open>
  What \<open>MaskState::parse\<close> recovers.  A parsed tensor is one of three things: a scalar repeated at
  every index, a range \<open>start + i\<close> along one dimension, or a mask that is true exactly at the indices
  below the recovered sizes.  The facts relate the state of each operation to the value of the
  operation.
\<close>

section \<open>What a state means\<close>

datatype kind = Scal | Rng nat | Msk "nat set"

definition scalDesc :: "env \<Rightarrow> ir \<Rightarrow> val \<Rightarrow> mask_state \<Rightarrow> bool" where
  "scalDesc E s v st \<longleftrightarrow> mstart st = None \<and> mend st = None \<and> mdims st = shapeDims (tyOf s v) \<and>
     (\<exists>c. mscalar st = Some c \<and> idx_ofr s c \<and>
        (\<forall>idx. inB (shapeOf (tyOf s v)) idx \<longrightarrow> eval E s v idx = osem E s c))"

definition rngDesc :: "env \<Rightarrow> ir \<Rightarrow> val \<Rightarrow> nat \<Rightarrow> mask_state \<Rightarrow> bool" where
  "rngDesc E s v k st \<longleftrightarrow> mscalar st = None \<and> mdims st = shapeDims (tyOf s v) \<and> k < length (shapeOf (tyOf s v)) \<and>
     (\<exists>a b. mstart st = Some a \<and> mend st = Some b \<and> idx_ofr s a \<and> idx_ofr s b \<and>
        osem E s b = osem E s a + shapeOf (tyOf s v) ! k \<and>
        (\<forall>idx. inB (shapeOf (tyOf s v)) idx \<longrightarrow> eval E s v idx = osem E s a + idx ! k))"

text \<open>The indices a mask lets through, and the sizes it may have in a tensor of shape \<open>sh\<close>.\<close>

definition inMask :: "env \<Rightarrow> ir \<Rightarrow> ofr list \<Rightarrow> int list \<Rightarrow> bool" where
  "inMask E s ds idx \<longleftrightarrow> list_all2 (\<lambda>d i. i < osem E s d) ds idx"

definition maskDims :: "env \<Rightarrow> ir \<Rightarrow> ofr list \<Rightarrow> int list \<Rightarrow> bool" where
  "maskDims E s ds sh \<longleftrightarrow> list_all2 (\<lambda>d n. idx_ofr s d \<and> 0 \<le> osem E s d \<and> osem E s d \<le> n) ds sh"

text \<open>\<open>C\<close> holds the dimensions the mask may restrict.\<close>

definition mskDesc :: "env \<Rightarrow> ir \<Rightarrow> val \<Rightarrow> nat set \<Rightarrow> mask_state \<Rightarrow> bool" where
  "mskDesc E s v C st \<longleftrightarrow> isMask st \<and> maskDims E s (mdims st) (shapeOf (tyOf s v)) \<and>
     (\<forall>i < length (mdims st). i \<notin> C \<longrightarrow> osem E s (mdims st ! i) = shapeOf (tyOf s v) ! i) \<and>
     (\<forall>idx. inB (shapeOf (tyOf s v)) idx \<longrightarrow> (eval E s v idx \<noteq> 0 \<longleftrightarrow> inMask E s (mdims st) idx))"

fun mdesc :: "env \<Rightarrow> ir \<Rightarrow> val \<Rightarrow> kind \<Rightarrow> mask_state \<Rightarrow> bool" where
  "mdesc E s v Scal st = scalDesc E s v st"
| "mdesc E s v (Rng k) st = rngDesc E s v k st"
| "mdesc E s v (Msk C) st = mskDesc E s v C st"

lemma maskDims_grows: "grows s t \<Longrightarrow> maskDims E s ds sh \<Longrightarrow> maskDims E t ds sh"
  unfolding maskDims_def by (erule list_all2_mono) (auto simp: osem_grows idx_ofr_grows)

lemma maskDims_nth: "maskDims E s ds sh \<Longrightarrow> i < length ds \<Longrightarrow> idx_ofr s (ds ! i) \<and> 0 \<le> osem E s (ds ! i) \<and> osem E s (ds ! i) \<le> sh ! i"
  by (auto simp: maskDims_def list_all2_conv_all_nth)

lemma maskDims_length: "maskDims E s ds sh \<Longrightarrow> length ds = length sh"
  by (auto simp: maskDims_def dest: list_all2_lengthD)

lemma inMask_grows:
  "grows s t \<Longrightarrow> maskDims E s ds sh \<Longrightarrow> inMask E t ds idx = inMask E s ds idx"
  using maskDims_nth [of E s ds sh] osem_grows [of s t _ E]
  by (auto simp: inMask_def list_all2_conv_all_nth)

lemma mdesc_grows:
  assumes "grows s t" "valid s v" "mdesc E s v k st"
  shows "mdesc E t v k st"
proof (cases k)
  case Scal
  then show ?thesis using assms
    by (auto simp: scalDesc_def tyOf_grows eval_grows osem_grows idx_ofr_grows)
next
  case (Rng i)
  then show ?thesis using assms
    by (auto simp: rngDesc_def tyOf_grows eval_grows osem_grows idx_ofr_grows)
next
  case (Msk C)
  then show ?thesis using assms
    by (auto simp: mskDesc_def tyOf_grows eval_grows maskDims_grows inMask_grows [OF assms(1)] osem_grows dest: maskDims_nth)
qed

section \<open>Parsing as a computation\<close>

definition parses :: "env \<Rightarrow> ir \<Rightarrow> mask_state irm \<Rightarrow> val \<Rightarrow> kind \<Rightarrow> bool" where
  "parses E s m v k \<longleftrightarrow> (\<forall>s1. grows s s1 \<longrightarrow> wp m (\<lambda>st t. grows s1 t \<and> mdesc E t v k st) s1)"

lemma parsesI:
  assumes "\<And>s1. grows s s1 \<Longrightarrow> wp m (\<lambda>st t. grows s1 t \<and> mdesc E t v k st) s1"
  shows "parses E s m v k"
  using assms by (simp add: parses_def)

lemma wp_parses:
  assumes "parses E s m v k" "grows s s1"
    and "\<And>st t. grows s1 t \<Longrightarrow> grows s t \<Longrightarrow> mdesc E t v k st \<Longrightarrow> Q st t"
  shows "wp m Q s1"
  using assms unfolding parses_def by (blast intro: wp_mono grows_trans)

lemma wp_parses2:
  assumes "parses E s m a ka" "parses E s n b kb" "grows s s1" "valid s a"
    and "\<And>x y t. grows s1 t \<Longrightarrow> grows s t \<Longrightarrow> mdesc E t a ka x \<Longrightarrow> mdesc E t b kb y \<Longrightarrow> Q x y t"
  shows "wp m (\<lambda>x. wp n (Q x)) s1"
proof (rule wp_parses [OF assms(1,3)])
  fix x t assume x: "grows s1 t" "grows s t" "mdesc E t a ka x"
  show "wp n (Q x) t"
  proof (rule wp_parses [OF assms(2) x(2)])
    fix y u assume "grows t u" "grows s u" "mdesc E u b kb y"
    then show "Q x y u"
      using x valid_grows [OF x(2) assms(4)] by (intro assms(5)) (auto intro: grows_trans mdesc_grows)
  qed
qed

section \<open>The operations\<close>

definition posShape :: "int list \<Rightarrow> bool" where
  "posShape sh \<longleftrightarrow> sh \<noteq> [] \<and> (\<forall>n \<in> set sh. 0 < n \<and> n < 2 ^ 63)"

lemma posShape_in64: "posShape sh \<Longrightarrow> i < length sh \<Longrightarrow> in64 (sh ! i) \<and> 0 < sh ! i \<and> wrap 64 (sh ! i) = sh ! i"
proof -
  assume "posShape sh" "i < length sh"
  then have "0 < sh ! i" "sh ! i < 2 ^ 63" by (simp_all add: posShape_def)
  moreover from this have "in64 (sh ! i)" by (simp add: in64_def)
  ultimately show ?thesis by (simp add: wrap_in64)
qed

lemma shapeDims_nth [simp]: "i < length (shapeOf t) \<Longrightarrow> shapeDims t ! i = getIndexAttr (shapeOf t ! i)"
  by (simp add: shapeDims_def)

lemma length_shapeDims [simp]: "length (shapeDims t) = length (shapeOf t)"
  by (simp add: shapeDims_def)

lemma shapeDims_if [simp]: "(if isShaped t then shapeDims t else []) = shapeDims t"
  by (cases t) (simp_all add: shapeDims_def)

lemma maskDims_shape:
  "posShape sh \<Longrightarrow> maskDims E s (map getIndexAttr sh) sh"
  using posShape_in64 [of sh]
  by (auto simp: maskDims_def list_all2_conv_all_nth intro: order.strict_implies_order)

lemma inMask_shape: "posShape sh \<Longrightarrow> inB sh idx \<Longrightarrow> inMask E s (map getIndexAttr sh) idx"
  using posShape_in64 [of sh]
  by (auto simp: inMask_def inB_def list_all2_conv_all_nth)

lemma inB_nth: "inB sh idx \<Longrightarrow> i < length sh \<Longrightarrow> 0 \<le> idx ! i \<and> idx ! i < sh ! i"
  by (auto simp: inB_def list_all2_conv_all_nth)

lemma inB_zeros: "posShape sh \<Longrightarrow> inB sh (replicate (length sh) 0)"
  by (auto simp: posShape_def inB_def list_all2_conv_all_nth)

text \<open>The scalars.\<close>

lemma parses_Constant:
  assumes "valid s v" "wf_ir s"
    and "a = IntegerAttr n (tyOf s v) \<and> isIntTy (tyOf s v) \<or>
      a = DenseElementsAttr (Some (IntegerAttr n t')) t \<and> isIntTy t \<and> tyOf s v = TensorTy sh t \<and> norm t n = n"
    and "defOp s v = ConstantOp a" "width (tyOf s v) \<le> 64"
  shows "parses E s (parseConstant v a) v Scal"
proof (rule parsesI)
  fix s1 assume g: "grows s s1"
  note ty = tyOf_grows [OF g assms(1)]
  have n: "norm (tyOf s v) n = n \<and> \<not> isFloatLike (tyOf s v)"
  proof (cases "isIntTy (tyOf s v)")
    case True
    then have "isIntOrIndex (tyOf s v)" by (cases "tyOf s v") simp_all
    from wf_const [OF assms(2,1,4) this] show ?thesis using True assms(3) by (cases "tyOf s v") auto
  next
    case False
    then show ?thesis using assms(3) by (cases t) (auto simp: norm_def)
  qed
  then have w: "wrap 64 n = n" using wrap_widen [OF assms(5), of n] by (metis norm_def)
  have "attrInt a = n" using assms(3) by auto
  then have e: "eval E s v idx = n" for idx
    using eval_unfold [OF assms(2,1), of E] assms(4) n by (simp add: denOp_def)
  have d: "scalDesc E t v (emptyMask\<lparr>mscalar := Some (getIndexAttr n),
      mdims := shapeDims (tyOf s v)\<rparr>)" if "grows s t" for t
    using that e w assms(3) tyOf_grows [OF that assms(1)] eval_grows [OF that assms(1)]
    by (cases "tyOf s v") (auto simp: scalDesc_def emptyMask_def shapeDims_def)
  show "wp (parseConstant v a) (\<lambda>st t. grows s1 t \<and> mdesc E t v Scal st) s1"
    using assms(3)
  proof
    assume "a = IntegerAttr n (tyOf s v) \<and> isIntTy (tyOf s v)"
    then show ?thesis using g d [OF g] ty by (simp add: parseConstant_def wp_simps growsD)
  next
    assume a: "a = DenseElementsAttr (Some (IntegerAttr n t')) t \<and> isIntTy t \<and> tyOf s v = TensorTy sh t \<and> norm t n = n"
    have "wp (createIndexConst n) (\<lambda>_ t. grows s1 t \<and> scalDesc E t v (emptyMask\<lparr>mscalar := Some (getIndexAttr n),
      mdims := shapeDims (tyOf t v)\<rparr>)) s1"
    proof (rule wp_createIndexConst [OF growsD(2) [OF g]])
      fix c t assume "grows s1 t"
      moreover from this have gt: "grows s t" using g grows_trans by blast
      ultimately show "grows s1 t \<and> scalDesc E t v (emptyMask\<lparr>mscalar := Some (getIndexAttr n),
          mdims := shapeDims (tyOf t v)\<rparr>)"
        using d [OF gt] tyOf_grows [OF gt] assms(1) by simp
    qed
    then show ?thesis using a by (simp add: parseConstant_def wp_simps)
  qed
qed

lemma parses_IntScalar:
  assumes "valid s v" "wf_ir s" "isIntTy (tyOf s v)" "width (tyOf s v) \<le> 64"
  shows "parses E s (parseIntScalar v) v Scal"
proof (rule parsesI)
  fix s1 assume g: "grows s s1"
  have t: "shapeOf (tyOf s v) = []" "\<not> isFloatLike (tyOf s v)" using assms(3) by (cases "tyOf s v"; simp)+
  have w: "wrap 64 (eval E s v idx) = eval E s v idx" for idx
    using eval_norm [OF assms(2,1), of E idx] wrap_widen [OF assms(4), of "eval E s v idx"] t by (simp add: norm_def)
  have "wp (createIndexCast IndexTy v) (\<lambda>c t. grows s1 t \<and> scalDesc E t v (emptyMask\<lparr>mscalar := Some (Val c)\<rparr>)) s1"
  proof (rule wp_createIndexCast [OF growsD(2) [OF g] valid_grows [OF g assms(1)]])
    fix c u assume c: "grows s1 u" "valid u c" "tyOf u c = IndexTy"
      "\<And>E idx. eval E u c idx = norm IndexTy (eval E s1 v idx)"
    then have gu: "grows s u" using g grows_trans by blast
    then show "grows s1 u \<and> scalDesc E u v (emptyMask\<lparr>mscalar := Some (Val c)\<rparr>)"
      using c t w tyOf_grows [OF gu assms(1)] eval_grows [OF gu assms(1)] eval_grows [OF g assms(1)]
      by (simp add: scalDesc_def emptyMask_def shapeDims_def)
  qed (use t tyOf_grows [OF g assms(1)] in simp_all)
  then show "wp (parseIntScalar v) (\<lambda>st t. grows s1 t \<and> mdesc E t v Scal st) s1"
    by (simp add: parseIntScalar_def wp_simps)
qed

lemma parses_MakeRange:
  assumes wf: "wf_ir s" and v: "valid s v" and op: "defOp s v = MakeRangeOp start stop"
    and ty: "tyOf s v = TensorTy [stop - start] (IntTy 32)"
    and rng: "0 < stop - start" "0 \<le> start" "stop \<le> 2 ^ 31"
  shows "parses E s (parseMakeRange v start stop) v (Rng 0)"
proof (rule parsesI)
  fix s1 assume g: "grows s s1"
  let ?n = "stop - start"
  have "take_bit 32 ?n = ?n" using rng by (simp add: take_bit_int_eq_self_iff)
  moreover have "(?n + ?n - 1) div ?n = 1"
    using rng(1) by (intro int_div_pos_eq [where r = "?n - 1"]) simp_all
  moreover have "eval E s v [i] = start + i" if "0 \<le> i" "i < ?n" for i
    using that rng eval_unfold [OF wf v, of E] op ty by (simp add: denOp_def norm_def wrap_id)
  moreover have "wrap 64 start = start" "wrap 64 stop = stop" using rng by (simp_all add: wrap_id)
  ultimately show "wp (parseMakeRange v start stop) (\<lambda>st t. grows s1 t \<and> mdesc E t v (Rng 0) st) s1"
    using ty tyOf_grows [OF g v] rng eval_grows [OF g v] growsD(2) [OF g]
    by (auto simp: parseMakeRange_def wp_simps rngDesc_def emptyMask_def shapeDims_def inB_def list_all2_Cons1)
qed

section \<open>The operations that move indices\<close>

text \<open>
  \<open>v\<close> is \<open>a\<close> read at \<open>h idx\<close>.  The sizes a state may keep, and what \<open>h\<close> does to the index a range
  runs along and to the indices a mask restricts, decide the state of \<open>v\<close>.
\<close>

lemma mdesc_reindex:
  assumes a: "mdesc E s a k st" and sc: "mscalar st' = mscalar st" "mstart st' = mstart st" "mend st' = mend st"
    and val: "\<And>idx. inB (shapeOf (tyOf s v)) idx \<Longrightarrow>
      inB (shapeOf (tyOf s a)) (h idx) \<and> eval E s v idx = eval E s a (h idx)"
    and full: "mdims st = shapeDims (tyOf s a) \<Longrightarrow> mdims st' = shapeDims (tyOf s v)"
    and rng: "\<And>i. k = Rng i \<Longrightarrow> i < length (shapeOf (tyOf s a)) \<Longrightarrow> \<exists>j. k' = Rng j \<and> j < length (shapeOf (tyOf s v)) \<and>
      shapeOf (tyOf s v) ! j = shapeOf (tyOf s a) ! i \<and> (\<forall>idx. inB (shapeOf (tyOf s v)) idx \<longrightarrow> h idx ! i = idx ! j)"
    and scal: "k = Scal \<Longrightarrow> k' = Scal"
    and msk: "\<And>C. k = Msk C \<Longrightarrow> mskDesc E s a C st \<Longrightarrow> \<exists>C'. k' = Msk C' \<and> mdims st' \<noteq> [] \<and>
      maskDims E s (mdims st') (shapeOf (tyOf s v)) \<and>
      (\<forall>i < length (mdims st'). i \<notin> C' \<longrightarrow> osem E s (mdims st' ! i) = shapeOf (tyOf s v) ! i) \<and>
      (\<forall>idx. inB (shapeOf (tyOf s v)) idx \<longrightarrow> inMask E s (mdims st') idx = inMask E s (mdims st) (h idx))"
  shows "mdesc E s v k' st'"
proof (cases k)
  case Scal
  then show ?thesis using a sc val full scal by (auto simp: scalDesc_def)
next
  case (Rng i)
  then have r: "rngDesc E s a i st" using a by simp
  then have "i < length (shapeOf (tyOf s a))" by (simp add: rngDesc_def)
  from rng [OF Rng this] obtain j where j: "k' = Rng j" "j < length (shapeOf (tyOf s v))"
    "shapeOf (tyOf s v) ! j = shapeOf (tyOf s a) ! i" "\<forall>idx. inB (shapeOf (tyOf s v)) idx \<longrightarrow> h idx ! i = idx ! j"
    by blast
  show ?thesis using r sc val full j by (auto simp: rngDesc_def)
next
  case (Msk C)
  then have m: "mskDesc E s a C st" using a by simp
  from msk [OF Msk m] obtain C' where "k' = Msk C'" "mdims st' \<noteq> []"
    "maskDims E s (mdims st') (shapeOf (tyOf s v))"
    "\<forall>i < length (mdims st'). i \<notin> C' \<longrightarrow> osem E s (mdims st' ! i) = shapeOf (tyOf s v) ! i"
    "\<forall>idx. inB (shapeOf (tyOf s v)) idx \<longrightarrow> inMask E s (mdims st') idx = inMask E s (mdims st) (h idx)" by blast
  then show ?thesis using m sc val by (simp add: mskDesc_def isMask_def)
qed

lemma list_all2_insert_at:
  assumes "length xs = length ys" "k \<le> length xs"
  shows "list_all2 P (insert_at k x xs) (insert_at k y ys) \<longleftrightarrow> P x y \<and> list_all2 P xs ys"
proof -
  let ?B = "list_all2 P (take k xs) (take k ys) \<and> list_all2 P (drop k xs) (drop k ys)"
  have l: "length (take k xs) = length (take k ys)" using assms by simp
  have "list_all2 P xs ys \<longleftrightarrow> ?B"
    using list_all2_append [OF l, of P "drop k xs" "drop k ys"] by (simp only: append_take_drop_id)
  moreover have "list_all2 P (insert_at k x xs) (insert_at k y ys) \<longleftrightarrow> P x y \<and> ?B"
    unfolding insert_at_def list_all2_append [OF l] list_all2_Cons by blast
  ultimately show ?thesis by blast
qed

definition shiftDim :: "nat \<Rightarrow> nat \<Rightarrow> nat" where
  "shiftDim ax i = (if i < ax then i else Suc i)"

fun shiftKind :: "nat \<Rightarrow> kind \<Rightarrow> kind" where
  "shiftKind ax Scal = Scal"
| "shiftKind ax (Rng i) = Rng (shiftDim ax i)"
| "shiftKind ax (Msk C) = Msk (shiftDim ax ` C)"

lemma remove_at_nth: "ax < length idx \<Longrightarrow> i < length idx - 1 \<Longrightarrow> remove_at ax idx ! i = idx ! shiftDim ax i"
  by (auto simp: remove_at_def shiftDim_def nth_append)

lemma parses_ExpandDims:
  assumes wf: "wf_ir s" and v: "valid s v" and op: "defOp s v = ExpandDimsOp a ax"
    and a: "parses E s (parse a) a k"
    and ty: "tyOf s a = TensorTy sh t" "tyOf s v = TensorTy (insert_at ax 1 sh) t" "ax \<le> length sh"
    and nf: "\<not> isFloatLike t"
  shows "parses E s (parseExpandDims parse v a ax) v (shiftKind ax k)"
proof (rule parsesI)
  fix s1 assume g1: "grows s s1"
  have va: "valid s a" using wf_operand_valid [OF wf v, of a] op by simp
  show "wp (parseExpandDims parse v a ax) (\<lambda>st t. grows s1 t \<and> mdesc E t v (shiftKind ax k) st) s1"
    unfolding parseExpandDims_def
  proof (subst wp_bindM, rule wp_parses [OF a g1])
    fix x u assume u: "grows s1 u" "grows s u" "mdesc E u a k x"
    have tys: "tyOf u v = TensorTy (insert_at ax 1 sh) t" "tyOf u a = TensorTy sh t"
      using tyOf_grows [OF u(2)] v va ty by auto
    have r: "length (mdims x) = length sh" using u(3) tys
      by (cases k) (auto simp: scalDesc_def rngDesc_def mskDesc_def dest: maskDims_length)
    let ?st = "x\<lparr>mdims := insert_at ax (getIndexAttr 1) (mdims x)\<rparr>"
    have one: "wrap 64 1 = 1" by (simp add: wrap_id)
    have "mdesc E u v (shiftKind ax k) ?st"
    proof (rule mdesc_reindex [OF u(3), where h = "remove_at ax"])
      fix idx assume i: "inB (shapeOf (tyOf u v)) idx"
      have "eval E u v idx = eval E u a (remove_at ax idx)"
        using eval_unfold [OF growsD(2) [OF u(2)] valid_grows [OF u(2) v], of E]
          eval_norm [OF growsD(2) [OF u(2)] valid_grows [OF u(2) va], of E "remove_at ax idx"]
          defOp_grows [OF u(2) v] op tys nf by (simp add: denOp_def norm_def)
      then show "inB (shapeOf (tyOf u a)) (remove_at ax idx) \<and> eval E u v idx = eval E u a (remove_at ax idx)"
        using i tys ty(3) inB_remove_at by simp
    next
      fix i assume i: "k = Rng i" "i < length (shapeOf (tyOf u a))"
      have "remove_at ax idx ! i = idx ! shiftDim ax i" if "inB (shapeOf (tyOf u v)) idx" for idx
        using inB_length [OF that] tys i ty(3) by (intro remove_at_nth) auto
      moreover have "insert_at ax 1 sh ! shiftDim ax i = sh ! i" "shiftDim ax i < Suc (length sh)"
        using i tys ty(3) by (auto simp: shiftDim_def nth_insert_at)
      ultimately show "\<exists>j. shiftKind ax k = Rng j \<and> j < length (shapeOf (tyOf u v)) \<and>
          shapeOf (tyOf u v) ! j = shapeOf (tyOf u a) ! i \<and>
          (\<forall>idx. inB (shapeOf (tyOf u v)) idx \<longrightarrow> remove_at ax idx ! i = idx ! j)"
        using i tys by simp
    next
      fix C assume k: "k = Msk C" and m: "mskDesc E u a C x"
      have md: "maskDims E u (mdims ?st) (insert_at ax 1 sh)"
        using m r ty(3) tys one by (simp add: mskDesc_def maskDims_def list_all2_insert_at)
      have ex: "osem E u (mdims ?st ! i) = insert_at ax 1 sh ! i"
        if i: "i < length (mdims ?st)" "i \<notin> shiftDim ax ` C" for i
      proof -
        consider "i = ax" | j where "i = shiftDim ax j" "j < length sh"
        proof (cases "i < ax")
          case True
          with ty(3) that(2) show ?thesis by (intro that(2) [of i]) (simp_all add: shiftDim_def)
        next
          case False
          then have "i = ax \<or> i = shiftDim ax (i - 1)" by (auto simp: shiftDim_def)
          moreover have "i - 1 < length sh" if "i \<noteq> ax" using that False i(1) r by simp
          ultimately show ?thesis using that by blast
        qed
        then show ?thesis
          using i m r ty(3) tys one
          by cases (auto simp: mskDesc_def nth_insert_at shiftDim_def split: if_splits)
      qed
      have "inMask E u (mdims ?st) idx = inMask E u (mdims x) (remove_at ax idx)" if i: "inB (insert_at ax 1 sh) idx" for idx
      proof -
        have l: "length idx = Suc (length sh)" using inB_length [OF i] by simp
        then have e: "idx = insert_at ax (idx ! ax) (remove_at ax idx)" using ty(3) by (simp add: insert_remove_at)
        have z: "idx ! ax < 1" using inB_nth [OF i, of ax] ty(3) by (simp add: nth_insert_at)
        have "inMask E u (mdims ?st) (insert_at ax (idx ! ax) (remove_at ax idx)) = inMask E u (mdims x) (remove_at ax idx)"
          using z l r ty(3) one by (simp add: inMask_def list_all2_insert_at)
        then show ?thesis using e by simp
      qed
      then show "\<exists>C'. shiftKind ax k = Msk C' \<and> mdims ?st \<noteq> [] \<and> maskDims E u (mdims ?st) (shapeOf (tyOf u v)) \<and>
          (\<forall>i < length (mdims ?st). i \<notin> C' \<longrightarrow> osem E u (mdims ?st ! i) = shapeOf (tyOf u v) ! i) \<and>
          (\<forall>idx. inB (shapeOf (tyOf u v)) idx \<longrightarrow> inMask E u (mdims ?st) idx = inMask E u (mdims x) (remove_at ax idx))"
        using md ex k tys by (intro exI [of _ "shiftDim ax ` C"]) (auto simp: insert_at_def)
    qed (use tys in \<open>simp_all add: shapeDims_def map_insert_at\<close>)
    then show "wp (bindM (getM (\<lambda>s. tyOf s v)) (\<lambda>t. thenM (assertM (isShaped t))
     (bindM (atM (shapeOf t) ax) (\<lambda>n. thenM (assertM (n = 1))
     (thenM (requireM (ax \<le> maskRank x))
     (ret (x\<lparr>mdims := insert_at ax (getIndexAttr 1) (mdims x)\<rparr>)))))))
      (\<lambda>st t. grows s1 t \<and> mdesc E t v (shiftKind ax k) st) u"
      using tys r ty(3) u(1) by (simp add: wp_simps nth_insert_at maskRank_def)
  qed
qed

end
