(* ===== verification/Mask_Ops.thy ===== *)
theory Mask_Ops
  imports Mask_Sound Ptr_Lin
begin

text \<open>
  The correctness of the parse functions that broadcast, splat, add, intersect and compare.
\<close>

section \<open>Broadcast\<close>

definition bcastDims :: "int list \<Rightarrow> int list \<Rightarrow> ofr list \<Rightarrow> ofr list" where
  "bcastDims sh sh' ds = map (\<lambda>i. if sh ! i = sh' ! i then ds ! i else getIndexAttr (sh' ! i)) [0..<length ds]"

lemma map_upt_Cons: "map f [0..<Suc n] = f 0 # map (\<lambda>i. f (Suc i)) [0..<n]"
  by (simp add: upt_conv_Cons map_Suc_upt [symmetric] del: upt_Suc)

lemma broadcastDims_ret:
  "list_all2 (\<lambda>m n. m = n \<or> m = 1 \<and> 1 < n) sh sh' \<Longrightarrow> length ds = length sh \<Longrightarrow>
   broadcastDims sh sh' ds = ret (bcastDims sh sh' ds)"
proof (induction sh sh' arbitrary: ds rule: list_all2_induct)
  case (Cons m ms n ns)
  then obtain d ds' where ds: "ds = d # ds'" by (cases ds) auto
  have "bcastDims (m # ms) (n # ns) ds = (if m = n then d else getIndexAttr n) # bcastDims ms ns ds'"
    by (simp add: ds bcastDims_def map_upt_Cons del: upt_Suc)
  then show ?case using Cons by (auto simp: ds)
qed (simp add: bcastDims_def)

fun broadcastable :: "int list \<Rightarrow> int list \<Rightarrow> kind \<Rightarrow> bool" where
  "broadcastable sh sh' Scal = True"
| "broadcastable sh sh' (Rng i) = (sh ! i = sh' ! i)"
| "broadcastable sh sh' (Msk C) = (\<forall>i < length sh. i \<in> C \<longrightarrow> sh ! i = sh' ! i)"

lemma mdesc_rank: "mdesc E s v k st \<Longrightarrow> length (mdims st) = length (shapeOf (tyOf s v))"
  by (cases k) (auto simp: scalDesc_def rngDesc_def mskDesc_def dest: maskDims_length)

lemma parses_Broadcast:
  assumes wf: "wf_ir s" and v: "valid s v" and op: "defOp s v = BroadcastOp a"
    and a: "parses E s (parse a) a k"
    and ty: "tyOf s a = TensorTy sh t" "tyOf s v = TensorTy sh' t" "posShape sh'"
    and sh: "list_all2 (\<lambda>m n. m = n \<or> m = 1 \<and> 1 < n) sh sh'" and k: "broadcastable sh sh' k"
    and nf: "\<not> isFloatLike t"
  shows "parses E s (parseBroadcast parse v a) v k"
proof (rule parsesI)
  fix s1 assume g1: "grows s s1"
  have va: "valid s a" using wf_operand_valid [OF wf v, of a] op by simp
  have len: "length sh = length sh'" using sh by (rule list_all2_lengthD)
  have shi: "sh ! i = sh' ! i \<or> sh ! i = 1 \<and> 1 < sh' ! i" if "i < length sh" for i
    using sh that by (auto simp: list_all2_conv_all_nth)
  have tys1: "tyOf s1 v = TensorTy sh' t" "tyOf s1 a = TensorTy sh t" using tyOf_grows [OF g1] v va ty by auto
  have "wp (parse a) (\<lambda>st. wp (thenM (requireM (length sh \<le> maskRank st))
      (bindM (broadcastDims sh sh' (mdims st)) (\<lambda>ds. ret (st\<lparr>mdims := ds\<rparr>))))
     (\<lambda>st t. grows s1 t \<and> mdesc E t v k st)) s1"
  proof (rule wp_parses [OF a g1])
    fix x u assume u: "grows s1 u" "grows s u" "mdesc E u a k x"
    have tys: "tyOf u v = TensorTy sh' t" "tyOf u a = TensorTy sh t" using tyOf_grows [OF u(2)] v va ty by auto
    have r: "length (mdims x) = length sh" using mdesc_rank [OF u(3)] tys by simp
    let ?ds = "bcastDims sh sh' (mdims x)" and ?h = "broadcastIdx sh"
    have ds: "?ds ! i = (if sh ! i = sh' ! i then mdims x ! i else getIndexAttr (sh' ! i))" if "i < length sh" for i
      using that r by (simp add: bcastDims_def)
    have l: "length ?ds = length sh" using r by (simp add: bcastDims_def)
    have h: "?h idx ! i = (if sh ! i = 1 then 0 else idx ! i)" "length (?h idx) = length sh"
      if "inB sh' idx" "i < length sh" for idx i
      using inB_length [OF that(1)] that(2) len by (simp_all add: broadcastIdx_def)
    have "mdesc E u v k (x\<lparr>mdims := ?ds\<rparr>)"
    proof (rule mdesc_reindex [OF u(3), where h = ?h])
      fix idx assume i: "inB (shapeOf (tyOf u v)) idx"
      have "eval E u v idx = eval E u a (?h idx)"
        using eval_unfold [OF growsD(2) [OF u(2)] valid_grows [OF u(2) v], of E]
          eval_norm [OF growsD(2) [OF u(2)] valid_grows [OF u(2) va], of E "?h idx"]
          defOp_grows [OF u(2) v] op tys nf by (simp add: denOp_def norm_def)
      then show "inB (shapeOf (tyOf u a)) (?h idx) \<and> eval E u v idx = eval E u a (?h idx)"
        using i tys inB_broadcast [OF sh] by simp
    next
      assume full: "mdims x = shapeDims (tyOf u a)"
      show "mdims (x\<lparr>mdims := ?ds\<rparr>) = shapeDims (tyOf u v)"
        by (rule nth_equalityI) (use full l len ds tys in \<open>auto simp: shapeDims_def\<close>)
    next
      fix i assume i: "k = Rng i" "i < length (shapeOf (tyOf u a))"
      have "?h idx ! i = idx ! i" if "inB sh' idx" for idx
        using h [OF that, of i] inB_nth [OF that, of i] i k tys len by auto
      then show "\<exists>j. k = Rng j \<and> j < length (shapeOf (tyOf u v)) \<and> shapeOf (tyOf u v) ! j = shapeOf (tyOf u a) ! i \<and>
          (\<forall>idx. inB (shapeOf (tyOf u v)) idx \<longrightarrow> ?h idx ! i = idx ! j)"
        using i k tys len by simp
    next
      fix C assume kC: "k = Msk C" and m: "mskDesc E u a C x"
      have md: "maskDims E u (mdims x) sh" and free: "\<forall>i < length sh. i \<notin> C \<longrightarrow> osem E u (mdims x ! i) = sh ! i"
        using m r tys by (simp_all add: mskDesc_def)
      have d: "idx_ofr u (?ds ! i) \<and> 0 \<le> osem E u (?ds ! i) \<and> osem E u (?ds ! i) \<le> sh' ! i"
        if "i < length sh" for i
        using that ds [OF that] maskDims_nth [OF md, of i] posShape_in64 [OF ty(3), of i] r len by auto
      have ex: "osem E u (?ds ! i) = sh' ! i" if "i < length sh" "i \<notin> C" for i
        using that ds [OF that(1)] free posShape_in64 [OF ty(3), of i] len by auto
      have "inMask E u ?ds idx = inMask E u (mdims x) (?h idx)" if i: "inB sh' idx" for idx
      proof -
        have "(idx ! i < osem E u (?ds ! i)) = (?h idx ! i < osem E u (mdims x ! i))" if "i < length sh" for i
        proof (cases "sh ! i = sh' ! i")
          case True
          then have "?h idx ! i = idx ! i" using h [OF i that] inB_nth [OF i, of i] that len by auto
          then show ?thesis using True ds [OF that] by simp
        next
          case False
          then have "i \<notin> C" and "sh ! i = 1" using k kC shi [OF that] that by auto
          then show ?thesis
            using False ds [OF that] h [OF i that] free that inB_nth [OF i, of i] len posShape_in64 [OF ty(3), of i] by simp
        qed
        then show ?thesis
          using l r len inB_length [OF i] by (simp add: inMask_def list_all2_conv_all_nth broadcastIdx_def)
      qed
      then show "\<exists>C'. k = Msk C' \<and> mdims (x\<lparr>mdims := ?ds\<rparr>) \<noteq> [] \<and>
          maskDims E u (mdims (x\<lparr>mdims := ?ds\<rparr>)) (shapeOf (tyOf u v)) \<and>
          (\<forall>i < length (mdims (x\<lparr>mdims := ?ds\<rparr>)). i \<notin> C' \<longrightarrow>
             osem E u (mdims (x\<lparr>mdims := ?ds\<rparr>) ! i) = shapeOf (tyOf u v) ! i) \<and>
          (\<forall>idx. inB (shapeOf (tyOf u v)) idx \<longrightarrow>
             inMask E u (mdims (x\<lparr>mdims := ?ds\<rparr>)) idx = inMask E u (mdims x) (?h idx))"
        using d ex l len tys ty(3) kC
        by (intro exI [of _ C]) (auto simp: maskDims_def list_all2_conv_all_nth posShape_def)
    qed simp_all
    then show "wp (thenM (requireM (length sh \<le> maskRank x))
      (bindM (broadcastDims sh sh' (mdims x)) (\<lambda>ds. ret (x\<lparr>mdims := ds\<rparr>))))
     (\<lambda>st t. grows s1 t \<and> mdesc E t v k st) u"
      using broadcastDims_ret [OF sh r] r u(1) by (simp add: wp_simps maskRank_def)
  qed
  then show "wp (parseBroadcast parse v a) (\<lambda>st t. grows s1 t \<and> mdesc E t v k st) s1"
    using tys1 len by (simp add: parseBroadcast_def wp_simps)
qed

section \<open>Splat\<close>

lemma wp_selectDim:
  assumes wf: "wf_ir s" and c: "valid s c" "\<not> isShaped (tyOf s c)" and n: "in64 n"
    and post: "\<And>d t. grows s t \<Longrightarrow> idx_ofr t d \<Longrightarrow> osem E t d = (if eval E s c [] \<noteq> 0 then n else 0) \<Longrightarrow> Q d t"
  shows "wp (selectDim c n) Q s"
  unfolding selectDim_def wp_simps
proof (rule wp_ofrToIndexValue [OF wf idx_ofr_getIndexAttr])
  fix x t assume t: "grows s t" "valid t x" "tyOf t x = IndexTy" "\<And>E. eval E t x [] = osem E s (getIndexAttr n)"
  show "wp (ofrToIndexValue (getIndexAttr 0)) (\<lambda>f. wp (create (SelectOp c x f) IndexTy) (\<lambda>v. Q (Val v))) t"
  proof (rule wp_ofrToIndexValue [OF growsD(2) [OF t(1)] idx_ofr_getIndexAttr])
    fix y u assume u: "grows t u" "valid u y" "tyOf u y = IndexTy" "\<And>E. eval E u y [] = osem E t (getIndexAttr 0)"
    note gu = grows_trans [OF t(1) u(1)]
    note cu = valid_grows [OF gu c(1)] tyOf_grows [OF gu c(1)] eval_grows [OF gu c(1)]
    show "wp (create (SelectOp c x y) IndexTy) (\<lambda>v. Q (Val v)) u"
    proof (rule wp_create [OF growsD(2) [OF u(1)]])
      fix v w assume w: "grows u w" "valid w v" "tyOf w v = IndexTy"
        "\<And>E idx. eval E w v idx = norm IndexTy (denOp E (tyOf u) (eval E u) v (SelectOp c x y) IndexTy idx)"
      show "Q (Val v) w"
        using grows_trans [OF gu w(1)] w cu c(2) t(2,4) u(4) n eval_grows [OF u(1) t(2)]
        by (intro post) (auto simp: denOp_def wrap_in64)
    qed (use valid_grows [OF u(1) t(2)] u(2) cu in simp_all)
  qed
qed

lemma parses_Splat:
  assumes wf: "wf_ir s" and v: "valid s v" and op: "defOp s v = SplatOp a"
    and a: "parses E s (parse a) a Scal"
    and ty: "tyOf s v = TensorTy sh (tyOf s a)" "isIntTy (tyOf s a)" "width (tyOf s a) \<noteq> 1"
  shows "parses E s (parseSplat parse v a) v Scal"
proof (rule parsesI)
  fix s1 assume g1: "grows s s1"
  have va: "valid s a" using wf_operand_valid [OF wf v, of a] op by simp
  have scal: "shapeOf (tyOf s a) = []" "\<not> isFloatLike (tyOf s a)" using ty(2) by (cases "tyOf s a"; simp)+
  have tys1: "tyOf s1 v = TensorTy sh (tyOf s a)" "tyOf s1 a = tyOf s a" using tyOf_grows [OF g1] v va ty by auto
  have "wp (parse a) (\<lambda>st t. grows s1 t \<and> mdesc E t v Scal (st\<lparr>mdims := mdims st @ shapeDims (TensorTy sh (tyOf s a))\<rparr>)) s1"
  proof (rule wp_parses [OF a g1])
    fix x u assume u: "grows s1 u" "grows s u" "mdesc E u a Scal x"
    have tys: "tyOf u v = TensorTy sh (tyOf s a)" "tyOf u a = tyOf s a" using tyOf_grows [OF u(2)] v va ty by auto
    have "eval E u v idx = eval E u a []" for idx
      using eval_unfold [OF growsD(2) [OF u(2)] valid_grows [OF u(2) v], of E]
        eval_norm [OF growsD(2) [OF u(2)] valid_grows [OF u(2) va], of E "[]"]
        defOp_grows [OF u(2) v] op tys scal by (simp add: denOp_def norm_def)
    then show "grows s1 u \<and> mdesc E u v Scal (x\<lparr>mdims := mdims x @ shapeDims (TensorTy sh (tyOf s a))\<rparr>)"
      using u tys scal by (auto simp: scalDesc_def shapeDims_def)
  qed
  then show "wp (parseSplat parse v a) (\<lambda>st t. grows s1 t \<and> mdesc E t v Scal st) s1"
    using tys1 ty by (simp add: parseSplat_def wp_simps)
qed

lemma parses_SplatBool:
  assumes wf: "wf_ir s" and v: "valid s v" and op: "defOp s v = SplatOp a"
    and ty: "tyOf s v = TensorTy sh (tyOf s a)" "tyOf s a = IntTy 1" "posShape sh"
  shows "parses E s (parseSplat parse v a) v (Msk {..<length sh})"
proof (rule parsesI)
  fix s1 assume g1: "grows s s1"
  have va: "valid s a" using wf_operand_valid [OF wf v, of a] op by simp
  have tys1: "tyOf s1 v = TensorTy sh (IntTy 1)" "tyOf s1 a = IntTy 1" using tyOf_grows [OF g1] v va ty by auto
  let ?b = "eval E s a [] \<noteq> 0"
  have val: "eval E s v idx = eval E s a []" for idx
    using eval_unfold [OF wf v, of E] eval_norm [OF wf va, of E "[]"] op ty by (simp add: denOp_def norm_def)
  have "wp (mapM (selectDim a) sh) (\<lambda>ds t. grows s1 t \<and> mskDesc E t v {..<length sh} (emptyMask\<lparr>mdims := ds\<rparr>)) s1"
  proof (rule wp_mapM_grows [OF growsD(2) [OF g1],
        where P = "\<lambda>n d t. idx_ofr t d \<and> osem E t d = (if ?b then n else 0)"])
    fix n s' Q assume "n \<in> set sh" and g: "grows s1 s'"
      and post: "\<And>y t. grows s' t \<Longrightarrow> idx_ofr t y \<and> osem E t y = (if ?b then n else 0) \<Longrightarrow> Q y t"
    then have n: "in64 n" using ty(3) by (auto simp: posShape_def in64_def)
    note gs = grows_trans [OF g1 g]
    show "wp (selectDim a n) Q s'"
      by (rule wp_selectDim [OF growsD(2) [OF g], where E = E and n = n])
        (use va ty n post valid_grows [OF gs va] tyOf_grows [OF gs va] eval_grows [OF gs va] in auto)
  next
    fix ds t assume t: "grows s1 t" "length ds = length sh"
      and P: "\<And>i. i < length sh \<Longrightarrow> idx_ofr t (ds ! i) \<and> osem E t (ds ! i) = (if ?b then sh ! i else 0)"
    have gt: "grows s t" using g1 t(1) by (rule grows_trans)
    have ne: "ds \<noteq> []" "sh \<noteq> []" using t(2) ty(3) by (auto simp: posShape_def)
    have "inMask E t ds idx = ?b" if i: "inB sh idx" for idx
      using P t(2) inB_nth [OF i] inB_nth [OF i, of 0] inB_length [OF i] ne(2) leD [of 0 "idx ! 0"]
      by (cases ?b) (auto simp: inMask_def list_all2_conv_all_nth intro!: exI [of _ 0])
    moreover have "maskDims E t ds sh"
      using P t(2) posShape_in64 [OF ty(3)]
      by (auto simp: maskDims_def list_all2_conv_all_nth intro: order.strict_implies_order)
    ultimately show "grows s1 t \<and> mskDesc E t v {..<length sh} (emptyMask\<lparr>mdims := ds\<rparr>)"
      using t ne val tyOf_grows [OF gt v] eval_grows [OF gt v] ty
      by (simp add: mskDesc_def isMask_def emptyMask_def)
  qed (auto simp: idx_ofr_grows osem_grows)
  then show "wp (parseSplat parse v a) (\<lambda>st t. grows s1 t \<and> mdesc E t v (Msk {..<length sh}) st) s1"
    using tys1 ty by (simp add: parseSplat_def wp_simps)
qed

section \<open>Extension and intersection\<close>

lemma parses_same:
  assumes "valid s v" "valid s a" "parses E s m a k" "shapeOf (tyOf s v) = shapeOf (tyOf s a)"
    and val: "\<And>idx. inB (shapeOf (tyOf s a)) idx \<Longrightarrow> eval E s v idx = eval E s a idx"
  shows "parses E s m v k"
proof (rule parsesI)
  fix s1 assume g: "grows s s1"
  show "wp m (\<lambda>st t. grows s1 t \<and> mdesc E t v k st) s1"
  proof (rule wp_parses [OF assms(3) g])
    fix st t assume t: "grows s1 t" "grows s t" "mdesc E t a k st"
    have e: "shapeOf (tyOf t v) = shapeOf (tyOf t a)" "shapeDims (tyOf t v) = shapeDims (tyOf t a)"
      using assms tyOf_grows [OF t(2)] by (simp_all add: shapeDims_def)
    have "mdesc E t v k st"
      by (rule mdesc_reindex [OF t(3), where h = "\<lambda>idx. idx"])
        (use assms t e tyOf_grows [OF t(2)] eval_grows [OF t(2)] in \<open>auto simp: mskDesc_def isMask_def\<close>)
    then show "grows s1 t \<and> mdesc E t v k st" using t by simp
  qed
qed

lemma bool_values: "wf_ir s \<Longrightarrow> valid s v \<Longrightarrow> tyOf s v = TensorTy sh (IntTy 1) \<Longrightarrow> eval E s v idx \<in> {0, -1}"
  using eval_norm [of s v E idx] wrap_lower [of 1 "eval E s v idx"] wrap_upper [of 1 "eval E s v idx"]
  by (auto simp: norm_def)

lemma parses_And:
  assumes wf: "wf_ir s" and v: "valid s v" and op: "defOp s v = BinOp AndI a b"
    and ab: "parses E s (parse a) a (Msk C)" "parses E s (parse b) b (Msk D)"
    and ty: "tyOf s v = TensorTy sh (IntTy 1)" "tyOf s a = TensorTy sh (IntTy 1)" "tyOf s b = TensorTy sh (IntTy 1)"
  shows "parses E s (parseAnd parse a b) v (Msk (C \<union> D))"
proof (rule parsesI)
  fix s1 assume g1: "grows s s1"
  have va: "valid s a" and vb: "valid s b" using wf_operand_valid [OF wf v] op by simp_all
  show "wp (parseAnd parse a b) (\<lambda>st t. grows s1 t \<and> mdesc E t v (Msk (C \<union> D)) st) s1"
    unfolding parseAnd_def wp_bindM
  proof (rule wp_parses2 [OF ab g1 va])
    fix x y t assume t: "grows s1 t" "grows s t" "mdesc E t a (Msk C) x" "mdesc E t b (Msk D) y"
    have tys: "tyOf t v = TensorTy sh (IntTy 1)" "tyOf t a = TensorTy sh (IntTy 1)" "tyOf t b = TensorTy sh (IntTy 1)"
      using tyOf_grows [OF t(2)] v va vb ty by auto
    have mx: "maskDims E t (mdims x) sh" "isMask x" and my: "maskDims E t (mdims y) sh" "isMask y"
      using t tys by (simp_all add: mskDesc_def)
    note lx = maskDims_length [OF mx(1)] and ly = maskDims_length [OF my(1)]
    have "wp (mapM (\<lambda>(l, r). minOFRs l r) (zip (mdims x) (mdims y)))
        (\<lambda>ds u. grows s1 u \<and> mskDesc E u v (C \<union> D) (emptyMask\<lparr>mdims := ds\<rparr>)) t"
    proof (rule min_ofr.wp_zip [OF growsD(2) [OF t(2)]])
      fix ds u assume u: "grows t u" "length ds = length (mdims x)" "\<forall>d \<in> set ds. idx_ofr u d"
        "\<And>E i. i < length (mdims x) \<Longrightarrow>
           osem E u (ds ! i) = wrap 64 (min (osem E t (mdims x ! i)) (osem E t (mdims y ! i)))"
      note gu = grows_trans [OF t(2) u(1)]
      have d: "idx_ofr u (ds ! i)" "osem E u (ds ! i) = min (osem E t (mdims x ! i)) (osem E t (mdims y ! i))"
        if "i < length sh" for i
        using u that lx ly maskDims_nth [OF mx(1), of i] maskDims_nth [OF my(1), of i]
          osem_wrap [OF growsD(2) [OF t(2)]] by (auto simp: min_def)
      have md: "maskDims E u ds sh"
        unfolding maskDims_def list_all2_conv_all_nth
        using d u(2) lx ly maskDims_nth [OF mx(1)] maskDims_nth [OF my(1)] by (simp add: min_def)
      have inm: "inMask E u ds idx \<longleftrightarrow> inMask E t (mdims x) idx \<and> inMask E t (mdims y) idx" for idx
        using d u(2) lx ly by (auto simp: inMask_def list_all2_conv_all_nth)
      have ex: "osem E u (ds ! i) = sh ! i" if "i < length ds" "i \<notin> C \<union> D" for i
        using that d [of i] u(2) lx ly t(3,4) tys by (simp add: mskDesc_def)
      have "eval E u v idx \<noteq> 0 \<longleftrightarrow> inMask E u ds idx" if i: "inB sh idx" for idx
      proof -
        have "eval E u v idx = wrap 1 (eval E t a idx AND eval E t b idx)"
          using eval_unfold [OF wf v, of E] op ty eval_grows [OF gu v] eval_grows [OF t(2) va] eval_grows [OF t(2) vb]
          by (simp add: denOp_def norm_def)
        moreover have "eval E t a idx \<in> {0, -1}" "eval E t b idx \<in> {0, -1}"
          using bool_values [OF growsD(2) [OF t(2)] valid_grows [OF t(2) va] tys(2)]
            bool_values [OF growsD(2) [OF t(2)] valid_grows [OF t(2) vb] tys(3)] by auto
        moreover have "wrap 1 (- 1) = - 1" by (simp add: wrap_def)
        ultimately have "eval E u v idx \<noteq> 0 \<longleftrightarrow> eval E t a idx \<noteq> 0 \<and> eval E t b idx \<noteq> 0"
          by auto
        then show ?thesis using t(3,4) tys i inm by (simp add: mskDesc_def)
      qed
      moreover have "ds \<noteq> []" using u(2) mx(2) by (auto simp: isMask_def)
      moreover have "tyOf u v = TensorTy sh (IntTy 1)" using tyOf_grows [OF gu v] ty by simp
      ultimately show "grows s1 u \<and> mskDesc E u v (C \<union> D) (emptyMask\<lparr>mdims := ds\<rparr>)"
        using md ex grows_trans [OF t(1) u(1)] by (simp add: mskDesc_def isMask_def emptyMask_def)
    qed (use mx my maskDims_nth [OF mx(1)] maskDims_nth [OF my(1)] lx ly in \<open>auto simp: in_set_conv_nth\<close>)
    then show "wp (if \<not> isMask x \<or> \<not> isMask y then minStateScalar x y else minStates x y)
        (\<lambda>st t. grows s1 t \<and> mdesc E t v (Msk (C \<union> D)) st) t"
      using mx my lx ly by (simp add: minStates_def wp_simps maskRank_def)
  qed
qed

section \<open>Addition\<close>

lemma eval_in64: "wf_ir s \<Longrightarrow> valid s v \<Longrightarrow> \<not> isFloatLike (tyOf s v) \<Longrightarrow> width (tyOf s v) \<le> 64 \<Longrightarrow> in64 (eval E s v idx)"
  using eval_norm [of s v E idx] wrap_widen [of "width (tyOf s v)" 64 "eval E s v idx"] in64_wrap
  by (metis norm_def)

lemma wp_addStateScalar:
  assumes wf: "wf_ir s" and x: "rngDesc E s a k x" and c: "idx_ofr s c"
    and v: "valid s v" "tyOf s v = tyOf s a" "posShape (shapeOf (tyOf s v))" "\<not> isFloatLike (tyOf s v)" "width (tyOf s v) \<le> 64"
    and val: "\<And>idx. inB (shapeOf (tyOf s v)) idx \<Longrightarrow>
      eval E s v idx = eval E s a idx + osem E s c \<and> eval E s v idx < 2 ^ 63 - 1"
    and post: "\<And>st t. grows s t \<Longrightarrow> rngDesc E t v k st \<Longrightarrow> Q st t"
  shows "wp (addStateScalar x c) Q s"
proof -
  let ?sh = "shapeOf (tyOf s v)"
  obtain p q where pq: "mstart x = Some p" "mend x = Some q" "idx_ofr s p" "idx_ofr s q"
    and q: "osem E s q = osem E s p + ?sh ! k" and a: "\<And>idx. inB ?sh idx \<Longrightarrow> eval E s a idx = osem E s p + idx ! k"
    and k: "k < length ?sh" and d: "mdims x = shapeDims (tyOf s v)"
    using x v(2) by (auto simp: rngDesc_def)
  let ?z = "replicate (length ?sh) 0"
  let ?m = "?z[k := ?sh ! k - 1]"
  have z: "inB ?sh ?z" by (rule inB_zeros [OF v(3)])
  have m: "inB ?sh ?m"
    using posShape_in64 [OF v(3)] k by (auto simp: inB_def list_all2_conv_all_nth nth_list_update intro: order.strict_implies_order)
  have "in64 (eval E s v ?z)" by (rule eval_in64 [OF wf v(1,4,5)])
  then have lo: "in64 (osem E s p + osem E s c)" using val [OF z] a [OF z] k by simp
  have "eval E s v ?m < 2 ^ 63 - 1" using val [OF m] by simp
  then have "osem E s q + osem E s c < 2 ^ 63" using val [OF m] a [OF m] k q by simp
  then have hi: "in64 (osem E s q + osem E s c)"
    using lo q posShape_in64 [OF v(3) k] by (simp add: in64_def)
  show ?thesis
    unfolding addStateScalar_def pq castM_Some bindM_ret wp_simps
  proof (rule wp_addOFRs [OF wf pq(3) c])
    fix p' t assume t: "grows s t" "idx_ofr t p'" "\<And>E. osem E t p' = wrap 64 (osem E s p + osem E s c)"
    show "wp (addOFRs q c) (\<lambda>y. Q (emptyMask\<lparr>mstart := Some p', mend := Some y, mdims := mdims x\<rparr>)) t"
    proof (rule wp_addOFRs [OF growsD(2) [OF t(1)] idx_ofr_grows [OF t(1) pq(4)] idx_ofr_grows [OF t(1) c]])
      fix q' u assume u: "grows t u" "idx_ofr u q'" "\<And>E. osem E u q' = wrap 64 (osem E t q + osem E t c)"
      note gu = grows_trans [OF t(1) u(1)]
      show "Q (emptyMask\<lparr>mstart := Some p', mend := Some q', mdims := mdims x\<rparr>) u"
        using t u lo hi q k d val a tyOf_grows [OF gu v(1)] eval_grows [OF gu v(1)]
          osem_grows [OF t(1) pq(4)] osem_grows [OF t(1) c] idx_ofr_grows [OF u(1) t(2)] osem_grows [OF u(1) t(2)]
        by (intro post gu) (simp add: rngDesc_def emptyMask_def wrap_in64)
    qed
  qed
qed

lemma parses_Add:
  assumes wf: "wf_ir s" and v: "valid s v" and op: "defOp s v = BinOp AddI a b"
    and ab: "parses E s (parse a) a ka" "parses E s (parse b) b kb" and k: "ka = Rng k \<and> kb = Scal \<or> ka = Scal \<and> kb = Rng k"
    and ty: "tyOf s v = TensorTy sh (IntTy w)" "tyOf s a = tyOf s v" "tyOf s b = tyOf s v" "posShape sh" "w \<le> 64"
    and val: "\<And>idx. inB sh idx \<Longrightarrow> eval E s v idx = eval E s a idx + eval E s b idx \<and> eval E s v idx < 2 ^ 63 - 1"
  shows "parses E s (parseAdd parse a b) v (Rng k)"
proof (rule parsesI)
  fix s1 assume g1: "grows s s1"
  have va: "valid s a" and vb: "valid s b" using wf_operand_valid [OF wf v] op by simp_all
  show "wp (parseAdd parse a b) (\<lambda>st t. grows s1 t \<and> mdesc E t v (Rng k) st) s1"
    unfolding parseAdd_def wp_bindM
  proof (rule wp_parses2 [OF ab g1 va])
    fix x y t assume t: "grows s1 t" "grows s t" "mdesc E t a ka x" "mdesc E t b kb y"
    note tys = tyOf_grows [OF t(2) v] tyOf_grows [OF t(2) va] tyOf_grows [OF t(2) vb]
      eval_grows [OF t(2) v] eval_grows [OF t(2) va] eval_grows [OF t(2) vb]
    note step = wp_addStateScalar [OF growsD(2) [OF t(2)] _ _ valid_grows [OF t(2) v]]
    show "wp (addMaskStates x y) (\<lambda>st t. grows s1 t \<and> mdesc E t v (Rng k) st) t"
      using k
    proof
      assume k: "ka = Rng k \<and> kb = Scal"
      then obtain c where c: "mscalar y = Some c" "idx_ofr t c" "\<And>idx. inB sh idx \<Longrightarrow> eval E s b idx = osem E t c"
        using t(4) tys ty by (auto simp: scalDesc_def)
      have x: "rngDesc E t a k x" using k t(3) by simp
      then have "mscalar x = None" by (simp add: rngDesc_def)
      moreover have "wp (addStateScalar x c) (\<lambda>st t. grows s1 t \<and> mdesc E t v (Rng k) st) t"
      proof (rule step [OF x c(2)])
        show "eval E t v idx = eval E t a idx + osem E t c \<and> eval E t v idx < 2 ^ 63 - 1"
          if "inB (shapeOf (tyOf t v)) idx" for idx
          using that val [of idx] c(3) [of idx] ty(1) unfolding tys by fastforce
      qed (use tys ty t(1) grows_trans in auto)
      ultimately show ?thesis using c by (simp add: addMaskStates_def)
    next
      assume k: "ka = Scal \<and> kb = Rng k"
      then obtain c where c: "mscalar x = Some c" "idx_ofr t c" "\<And>idx. inB sh idx \<Longrightarrow> eval E s a idx = osem E t c"
        using t(3) tys ty by (auto simp: scalDesc_def)
      have y: "rngDesc E t b k y" using k t(4) by simp
      then have "mscalar y = None" by (simp add: rngDesc_def)
      moreover have "wp (addStateScalar y c) (\<lambda>st t. grows s1 t \<and> mdesc E t v (Rng k) st) t"
      proof (rule step [OF y c(2)])
        show "eval E t v idx = eval E t b idx + osem E t c \<and> eval E t v idx < 2 ^ 63 - 1"
          if "inB (shapeOf (tyOf t v)) idx" for idx
          using that val [of idx] c(3) [of idx] ty(1) unfolding tys by fastforce
      qed (use tys ty t(1) grows_trans in auto)
      ultimately show ?thesis using c by (simp add: addMaskStates_def)
    qed
  qed
qed

end
