(* ===== verification/Mask_Cmp.thy ===== *)
theory Mask_Cmp
  imports Mask_Ops
begin

text \<open>
  The correctness of the comparisons of \<open>MaskState::parseCmp\<close>, which turn a range into a mask, and
  of the loop-carried ranges of \<open>parseLoopIterArg\<close>.
\<close>

section \<open>The compared dimension\<close>

definition onlyDim :: "int list \<Rightarrow> nat \<Rightarrow> bool" where
  "onlyDim sh k \<longleftrightarrow> k < length sh \<and> (\<forall>i < length sh. sh ! i \<noteq> 1 \<longleftrightarrow> i = k)"

lemma cmpDimension_append:
  "cmpDimension (xs @ ys) i c = bindM (cmpDimension xs i c) (\<lambda>d. cmpDimension ys (i + length xs) d)"
  by (induction xs i c rule: cmpDimension.induct) (simp_all add: thenM_def bindM_assoc)

lemma cmpDimension_ones: "\<forall>d \<in> set ds. getIntAttr d = Some 1 \<Longrightarrow> cmpDimension ds i c = ret c"
  by (induction ds i c rule: cmpDimension.induct) simp_all

lemma getIntAttr_one: "wrap 64 n = n \<Longrightarrow> getIntAttr (getIndexAttr n) = Some 1 \<longleftrightarrow> n = 1"
  by simp

lemma cmpDimension_only:
  assumes "onlyDim sh k" "posShape sh"
  shows "cmpDimension (map getIndexAttr sh) 0 None = ret (Some k)"
proof -
  have k: "k < length sh" using assms(1) by (simp add: onlyDim_def)
  have ones: "wrap 64 (sh ! i) = 1" if "i < length sh" "i \<noteq> k" for i
    using assms that posShape_in64 [OF assms(2) that(1)] by (auto simp: onlyDim_def)
  have "wrap 64 (sh ! k) \<noteq> 1" using assms(1) k posShape_in64 [OF assms(2) k] by (auto simp: onlyDim_def)
  moreover have "cmpDimension (map getIndexAttr (take k sh)) 0 None = ret None"
    using ones k by (intro cmpDimension_ones) (auto simp: in_set_conv_nth)
  moreover have "cmpDimension (map getIndexAttr (drop (Suc k) sh)) (Suc k) (Some k) = ret (Some k)"
    using ones k by (intro cmpDimension_ones) (auto simp: in_set_conv_nth)
  moreover have "map getIndexAttr sh = map getIndexAttr (take k sh) @ getIndexAttr (sh ! k) # map getIndexAttr (drop (Suc k) sh)"
    by (metis k id_take_nth_drop map_append list.map(2))
  ultimately show ?thesis using k by (simp add: cmpDimension_append)
qed

section \<open>Comparisons\<close>

lemma cmp_value:
  assumes "wf_ir s" "valid s v" "defOp s v = CmpIOp p a b" "tyOf s v = TensorTy sh (IntTy 1)"
  shows "eval E s v idx \<noteq> 0 \<longleftrightarrow> cmpPred p (width (tyOf s a)) (eval E s a idx) (eval E s b idx)"
proof -
  have "wrap 1 (- 1) = - 1" by (simp add: wrap_def)
  then show ?thesis using eval_unfold [OF assms(1,2), of E] assms(3,4) by (simp add: denOp_def norm_def)
qed

lemma take_bit_wrap: "wrap w x = x \<Longrightarrow> 0 \<le> x \<Longrightarrow> take_bit w x = x"
proof -
  assume "wrap w x = x" "0 \<le> x"
  then have "x < 2 ^ (w - 1)" using wrap_upper [of w x] by simp
  also have "(2 :: int) ^ (w - 1) \<le> 2 ^ w" by simp
  finally show ?thesis using \<open>0 \<le> x\<close> by (simp add: take_bit_int_eq_self_iff)
qed

text \<open>\<open>slt\<close>, and \<open>ult\<close> on values that are not negative.\<close>

lemma less_value:
  assumes "isLess p" "wrap w x = x" "wrap w y = y" "p = Ult \<Longrightarrow> 0 \<le> x \<and> 0 \<le> y"
  shows "cmpPred p w x y \<longleftrightarrow> x < y"
  using assms by (auto simp: isLess_def take_bit_wrap)

lemma wp_newEnd:
  assumes wf: "wf_ir s" and o: "idx_ofr s a" "idx_ofr s b" "idx_ofr s r"
    and n: "osem E s b = osem E s a + n" "0 < n" "n < 2 ^ 63"
    and post: "\<And>d t. grows s t \<Longrightarrow> idx_ofr t d \<Longrightarrow>
      osem E t d = max (min (osem E s a + n) (osem E s r)) (osem E s a) - osem E s a \<Longrightarrow> Q d t"
  shows "wp (bindM (minOFRs b r) (\<lambda>e. bindM (maxOFRs e a) (\<lambda>e'. subOFRs e' a))) Q s"
  unfolding wp_bindM
proof (rule wp_minOFRs [OF wf o(2,3)])
  fix e t assume t: "grows s t" "idx_ofr t e" "\<And>E. osem E t e = wrap 64 (min (osem E s b) (osem E s r))"
  have e: "osem E t e = min (osem E s b) (osem E s r)" using t(3) osem_wrap [OF wf o(2)] osem_wrap [OF wf o(3)] by (simp add: min_def)
  show "wp (maxOFRs e a) (\<lambda>e'. wp (subOFRs e' a) Q) t"
  proof (rule wp_maxOFRs [OF growsD(2) [OF t(1)] t(2) idx_ofr_grows [OF t(1) o(1)]])
    fix e' u assume u: "grows t u" "idx_ofr u e'" "\<And>E. osem E u e' = wrap 64 (max (osem E t e) (osem E t a))"
    note gu = grows_trans [OF t(1) u(1)]
    have e': "osem E u e' = max (min (osem E s b) (osem E s r)) (osem E s a)"
      using u(3) e osem_grows [OF t(1) o(1)] osem_wrap [OF wf o(1)] osem_wrap [OF wf o(2)] osem_wrap [OF wf o(3)]
      by (simp add: min_def max_def)
    show "wp (subOFRs e' a) Q u"
    proof (rule wp_subOFRs [OF growsD(2) [OF u(1)] u(2) idx_ofr_grows [OF gu o(1)]])
      fix d w assume w: "grows u w" "idx_ofr w d" "\<And>E. osem E w d = wrap 64 (osem E u e' - osem E u a)"
      let ?d = "max (min (osem E s a + n) (osem E s r)) (osem E s a) - osem E s a"
      have "in64 ?d" using n(2,3) by (auto simp: in64_def max_def min_def)
      then show "Q d w"
        using w e' n(1) osem_grows [OF gu o(1)] by (intro post grows_trans [OF gu w(1)]) (simp_all add: wrap_in64)
    qed
  qed
qed

lemma parses_CmpRange:
  assumes wf: "wf_ir s" and v: "valid s v" and op: "defOp s v = CmpIOp p a b" and p: "isLess p"
    and ab: "parses E s (parse a) a (Rng k)" "parses E s (parse b) b Scal"
    and ty: "tyOf s v = TensorTy sh (IntTy 1)" "tyOf s a = TensorTy sh (IntTy w)" "tyOf s b = TensorTy sh (IntTy w)"
    and sh: "posShape sh" "onlyDim sh k"
    and uns: "\<And>idx. p = Ult \<Longrightarrow> inB sh idx \<Longrightarrow> 0 \<le> eval E s a idx \<and> 0 \<le> eval E s b idx"
  shows "parses E s (parseCmp parse p a b) v (Msk {k})"
proof (rule parsesI)
  fix s1 assume g1: "grows s s1"
  have va: "valid s a" and vb: "valid s b" using wf_operand_valid [OF wf v] op by simp_all
  show "wp (parseCmp parse p a b) (\<lambda>st t. grows s1 t \<and> mdesc E t v (Msk {k}) st) s1"
    unfolding parseCmp_def wp_bindM wp_thenM wp_requireM
  proof (intro conjI, use p in simp, rule wp_parses2 [OF ab g1 va])
    fix x y t assume t: "grows s1 t" "grows s t" "mdesc E t a (Rng k) x" "mdesc E t b Scal y"
    have tys: "tyOf t v = TensorTy sh (IntTy 1)" "tyOf t a = TensorTy sh (IntTy w)" "tyOf t b = TensorTy sh (IntTy w)"
      using tyOf_grows [OF t(2)] v va vb ty by auto
    note evs = eval_grows [OF t(2) va] eval_grows [OF t(2) vb]
    obtain l u where lu: "mstart x = Some l" "mend x = Some u" "idx_ofr t l" "idx_ofr t u"
      and u: "osem E t u = osem E t l + sh ! k" and a: "\<And>idx. inB sh idx \<Longrightarrow> eval E s a idx = osem E t l + idx ! k"
      and x: "mscalar x = None" "mdims x = map getIndexAttr sh" and k: "k < length sh"
      using t(3) tys evs by (auto simp: rngDesc_def shapeDims_def)
    obtain r where r: "mscalar y = Some r" "idx_ofr t r" and b: "\<And>idx. inB sh idx \<Longrightarrow> eval E s b idx = osem E t r"
      using t(4) tys evs by (auto simp: scalDesc_def)
    have dim: "cmpDimension (mdims x) 0 None = ret (Some k)" using cmpDimension_only [OF sh(2,1)] x by simp
    note n = posShape_in64 [OF sh(1) k]
    have cmp: "eval E s v idx \<noteq> 0 \<longleftrightarrow> osem E t l + idx ! k < osem E t r" if i: "inB sh idx" for idx
    proof -
      have "wrap w (eval E s a idx) = eval E s a idx" "wrap w (eval E s b idx) = eval E s b idx"
        using eval_norm [OF wf va, of E idx] eval_norm [OF wf vb, of E idx] ty by (simp_all add: norm_def)
      then have "cmpPred p w (eval E s a idx) (eval E s b idx) \<longleftrightarrow> eval E s a idx < eval E s b idx"
        using uns [OF _ i] by (intro less_value [OF p])
      then show ?thesis using cmp_value [OF wf v op ty(1), of E idx] a [OF i] b [OF i] ty by simp
    qed
    have body: "wp (bindM (minOFRs u r) (\<lambda>e. bindM (maxOFRs e l) (\<lambda>e'. subOFRs e' l)))
        (\<lambda>d t. grows s1 t \<and> mskDesc E t v {k} (emptyMask\<lparr>mdims := (mdims x)[k := d]\<rparr>)) t"
    proof (rule wp_newEnd [OF growsD(2) [OF t(2)] lu(3,4) r(2) u])
      fix d z assume z: "grows t z" "idx_ofr z d"
        and d: "osem E z d = max (min (osem E t l + sh ! k) (osem E t r)) (osem E t l) - osem E t l"
      let ?ds = "(map getIndexAttr sh)[k := d]"
      note gz = grows_trans [OF t(2) z(1)]
      have ds: "osem E z (?ds ! i) = (if i = k then osem E z d else sh ! i)" "idx_ofr z (?ds ! i)" if "i < length sh" for i
        using that posShape_in64 [OF sh(1) that] z(2) by (cases "i = k"; simp)+
      have dk: "0 \<le> osem E z d \<and> osem E z d \<le> sh ! k" using d n by (auto simp: max_def min_def)
      have "inMask E z ?ds idx \<longleftrightarrow> osem E t l + idx ! k < osem E t r" if i: "inB sh idx" for idx
      proof -
        have "inMask E z ?ds idx \<longleftrightarrow> (\<forall>i < length sh. idx ! i < osem E z (?ds ! i))"
          using inB_length [OF i] by (auto simp: inMask_def list_all2_conv_all_nth)
        also have "\<dots> \<longleftrightarrow> idx ! k < osem E z d"
          using ds inB_nth [OF i] k by auto
        also have "\<dots> \<longleftrightarrow> osem E t l + idx ! k < osem E t r"
          using d inB_nth [OF i k] by (auto simp: min_def max_def)
        finally show ?thesis .
      qed
      moreover have "maskDims E z ?ds sh"
        unfolding maskDims_def list_all2_conv_all_nth
      proof (intro conjI allI impI)
        fix i assume "i < length ?ds"
        then have i: "i < length sh" by simp
        then show "idx_ofr z (?ds ! i)" "0 \<le> osem E z (?ds ! i)" "osem E z (?ds ! i) \<le> sh ! i"
          using ds [OF i] dk posShape_in64 [OF sh(1) i] by (cases "i = k"; simp)+
      qed simp
      moreover have "?ds \<noteq> []" using k by auto
      moreover have "tyOf z v = TensorTy sh (IntTy 1)" "eval E z v = eval E s v"
        using tyOf_grows [OF gz v] eval_grows [OF gz v] ty by auto
      ultimately show "grows s1 z \<and> mskDesc E z v {k} (emptyMask\<lparr>mdims := (mdims x)[k := d]\<rparr>)"
        using ds cmp grows_trans [OF t(1) z(1)] x posShape_in64 [OF sh(1)]
        by (simp add: mskDesc_def isMask_def emptyMask_def)
    qed (use n in \<open>auto simp: in64_def\<close>)
    have "p \<noteq> Sge" using p by (auto simp: isLess_def)
    then show "wp (if p = Sge then case mscalar y of None \<Rightarrow> ret False | Some r \<Rightarrow> hasConstZero r else ret True)
         (\<lambda>ok s. ok \<and> wp (cmpDimension (mdims x) 0 (if mscalar x \<noteq> None \<and> mscalar y \<noteq> None then Some 0 else None))
            (\<lambda>cmpDim. wp (assertM (cmpDim \<noteq> None \<or> mscalar x = None \<and> p = Slt \<or> p = Ult))
               (\<lambda>_. wp (cmpNewDim p x y cmpDim)
                  (\<lambda>newDim. wp (ret (emptyMask\<lparr>mdims := (case cmpDim of Some k \<Rightarrow> (mdims x)[k := newDim] | None \<Rightarrow> mdims x)\<rparr>))
                     (\<lambda>st t. grows s1 t \<and> mdesc E t v (Msk {k}) st)))) s) t"
      using body dim x(1) r(1) lu p by (simp add: wp_simps cmpNewDim_def)
  qed
qed

text \<open>Two scalars: an all-or-nothing mask on a tensor of one element, made from a select.\<close>

lemma inB_one: "\<forall>n \<in> set sh. n = 1 \<Longrightarrow> inB sh idx \<Longrightarrow> i < length sh \<Longrightarrow> idx ! i = 0"
proof -
  assume "\<forall>n \<in> set sh. n = 1" "inB sh idx" and i: "i < length sh"
  then have "sh ! i = 1" "0 \<le> idx ! i" "idx ! i < sh ! i" using inB_nth [of sh idx i] nth_mem [OF i] by blast+
  then show ?thesis by simp
qed

lemma parses_CmpScalars:
  assumes wf: "wf_ir s" and v: "valid s v" and op: "defOp s v = CmpIOp p a b" and p: "isLess p"
    and ab: "parses E s (parse a) a Scal" "parses E s (parse b) b Scal"
    and ty: "tyOf s v = TensorTy sh (IntTy 1)" "tyOf s a = TensorTy sh (IntTy w)" "tyOf s b = TensorTy sh (IntTy w)"
    and sh: "sh \<noteq> []" "\<forall>n \<in> set sh. n = 1"
    and uns: "\<And>idx. p = Ult \<Longrightarrow> inB sh idx \<Longrightarrow> 0 \<le> eval E s a idx \<and> 0 \<le> eval E s b idx"
  shows "parses E s (parseCmp parse p a b) v (Msk {0})"
proof (rule parsesI)
  fix s1 assume g1: "grows s s1"
  have va: "valid s a" and vb: "valid s b" using wf_operand_valid [OF wf v] op by simp_all
  have ps: "posShape sh" using sh by (auto simp: posShape_def)
  have ones: "sh ! i = 1" if "i < length sh" for i using sh(2) nth_mem [OF that] by blast
  have z: "inB sh (replicate (length sh) 0)" using inB_zeros [OF ps] .
  have one: "wrap 64 1 = 1" by (simp add: wrap_id)
  show "wp (parseCmp parse p a b) (\<lambda>st t. grows s1 t \<and> mdesc E t v (Msk {0}) st) s1"
    unfolding parseCmp_def wp_bindM wp_thenM wp_requireM
  proof (intro conjI, use p in simp, rule wp_parses2 [OF ab g1 va])
    fix x y t assume t: "grows s1 t" "grows s t" "mdesc E t a Scal x" "mdesc E t b Scal y"
    have tys: "tyOf t v = TensorTy sh (IntTy 1)" "tyOf t a = TensorTy sh (IntTy w)" "tyOf t b = TensorTy sh (IntTy w)"
      using tyOf_grows [OF t(2)] v va vb ty by auto
    note evs = eval_grows [OF t(2) va] eval_grows [OF t(2) vb]
    obtain l where l: "mscalar x = Some l" "idx_ofr t l" and a: "\<And>idx. inB sh idx \<Longrightarrow> eval E s a idx = osem E t l"
      and x: "mdims x = map getIndexAttr sh"
      using t(3) tys evs by (auto simp: scalDesc_def shapeDims_def)
    obtain r where r: "mscalar y = Some r" "idx_ofr t r" and b: "\<And>idx. inB sh idx \<Longrightarrow> eval E s b idx = osem E t r"
      using t(4) tys evs by (auto simp: scalDesc_def)
    have dim: "cmpDimension (mdims x) 0 (Some 0) = ret (Some 0)"
      using ones one x by (intro cmpDimension_ones) (auto simp: in_set_conv_nth)
    have nz: "wrap w (eval E s a idx) = eval E s a idx" "wrap w (eval E s b idx) = eval E s b idx" for idx
      using eval_norm [OF wf va, of E idx] eval_norm [OF wf vb, of E idx] ty by (simp_all add: norm_def)
    have cmp: "eval E s v idx \<noteq> 0 \<longleftrightarrow> osem E t l < osem E t r" if i: "inB sh idx" for idx
    proof -
      have "cmpPred p w (eval E s a idx) (eval E s b idx) \<longleftrightarrow> eval E s a idx < eval E s b idx"
        using uns [OF _ i] nz by (intro less_value [OF p])
      then show ?thesis using cmp_value [OF wf v op ty(1), of E idx] a [OF i] b [OF i] ty by simp
    qed
    have pos: "p = Ult \<Longrightarrow> 0 \<le> osem E t l \<and> 0 \<le> osem E t r" using uns [OF _ z] a [OF z] b [OF z] by simp
    have cmp64: "cmpPred p 64 (osem E t l) (osem E t r) \<longleftrightarrow> osem E t l < osem E t r"
      using pos osem_wrap [OF growsD(2) [OF t(2)]] l r by (intro less_value [OF p]) auto
    have body: "wp (compareOFRs l r p (mdims x ! 0) (getIndexAttr 0))
        (\<lambda>d t. grows s1 t \<and> mskDesc E t v {0} (emptyMask\<lparr>mdims := (mdims x)[0 := d]\<rparr>)) t"
    proof (rule wp_compareOFRs [OF growsD(2) [OF t(2)] l(2) r(2), where E = E])
      show "idx_ofr t (mdims x ! 0)" using x sh by simp
      show "unsignedPred p \<Longrightarrow> 0 \<le> osem E t l \<and> 0 \<le> osem E t r"
        using p pos by (auto simp: unsignedPred_def isLess_def)
      fix d z assume z: "grows t z" "idx_ofr z d"
        and d0: "osem E z d = (if cmpPred p 64 (osem E t l) (osem E t r) then osem E t (mdims x ! 0) else osem E t (getIndexAttr 0))"
      let ?ds = "(map getIndexAttr sh)[0 := d]"
      note gz = grows_trans [OF t(2) z(1)]
      have "wrap 64 (sh ! 0) = 1" using ones [of 0] sh(1) one by simp
      then have d: "osem E z d = (if osem E t l < osem E t r then 1 else 0)"
        using d0 x sh one cmp64 by simp
      have ds: "osem E z (?ds ! i) = (if i = 0 then osem E z d else 1)" "idx_ofr z (?ds ! i)" "sh ! i = 1" if "i < length sh" for i
        using that ones [OF that] z(2) one by (cases "i = 0"; simp)+
      have "inMask E z ?ds idx \<longleftrightarrow> osem E t l < osem E t r" if i: "inB sh idx" for idx
      proof -
        have "inMask E z ?ds idx \<longleftrightarrow> (\<forall>i < length sh. idx ! i < osem E z (?ds ! i))"
          using inB_length [OF i] by (auto simp: inMask_def list_all2_conv_all_nth)
        also have "\<dots> \<longleftrightarrow> 0 < osem E z d"
          using ds inB_one [OF sh(2) i] sh(1) by auto
        finally show ?thesis using d by simp
      qed
      moreover have "maskDims E z ?ds sh"
        unfolding maskDims_def list_all2_conv_all_nth using ds d by simp
      moreover have "?ds \<noteq> []" using sh(1) by auto
      moreover have "tyOf z v = TensorTy sh (IntTy 1)" "eval E z v = eval E s v"
        using tyOf_grows [OF gz v] eval_grows [OF gz v] ty by auto
      ultimately show "grows s1 z \<and> mskDesc E z v {0} (emptyMask\<lparr>mdims := (mdims x)[0 := d]\<rparr>)"
        using ds cmp grows_trans [OF t(1) z(1)] x one
        by (simp add: mskDesc_def isMask_def emptyMask_def)
    qed simp
    have "p \<noteq> Sge" using p by (auto simp: isLess_def)
    then show "wp (if p = Sge then case mscalar y of None \<Rightarrow> ret False | Some r \<Rightarrow> hasConstZero r else ret True)
         (\<lambda>ok s. ok \<and> wp (cmpDimension (mdims x) 0 (if mscalar x \<noteq> None \<and> mscalar y \<noteq> None then Some 0 else None))
            (\<lambda>cmpDim. wp (assertM (cmpDim \<noteq> None \<or> mscalar x = None \<and> p = Slt \<or> p = Ult))
               (\<lambda>_. wp (cmpNewDim p x y cmpDim)
                  (\<lambda>newDim. wp (ret (emptyMask\<lparr>mdims := (case cmpDim of Some k \<Rightarrow> (mdims x)[k := newDim] | None \<Rightarrow> mdims x)\<rparr>))
                     (\<lambda>st t. grows s1 t \<and> mdesc E t v (Msk {0}) st)))) s) t"
      using body dim l(1) r(1) x sh(1) by (simp add: wp_simps cmpNewDim_def)
  qed
qed

text \<open>\<open>sge\<close> against a constant 0 on a range that does not go below 0: the mask lets everything through.\<close>

lemma wp_parseConstant_splat:
  assumes wf: "wf_ir s" and b: "valid s b" "isIntTy t" and w: "norm t n = n"
    and post: "\<And>z. grows s z \<Longrightarrow> Q (emptyMask\<lparr>mscalar := Some (getIndexAttr n), mdims := shapeDims (tyOf s b)\<rparr>) z"
  shows "wp (parseConstant b (DenseElementsAttr (Some (IntegerAttr n t')) t)) Q s"
proof -
  have "wp (createIndexConst n) (\<lambda>_ z. Q (emptyMask\<lparr>mscalar := Some (getIndexAttr n), mdims := shapeDims (tyOf z b)\<rparr>) z) s"
    by (rule wp_createIndexConst [OF wf]) (use post tyOf_grows [OF _ b(1)] in simp)
  then show ?thesis using b by (simp add: parseConstant_def wp_simps)
qed

lemma parses_CmpSge:
  assumes wf: "wf_ir s" and v: "valid s v" and op: "defOp s v = CmpIOp Sge a b"
    and a: "parses E s (parse a) a (Rng k)" and b: "\<And>Q t. grows s t \<Longrightarrow> wp (parse b) Q t = wp (parseConstant b (DenseElementsAttr (Some (IntegerAttr 0 t')) (IntTy w))) Q t"
    and ty: "tyOf s v = TensorTy sh (IntTy 1)" "tyOf s a = TensorTy sh (IntTy w)" "tyOf s b = TensorTy sh (IntTy w)"
      "defOp s b = ConstantOp (DenseElementsAttr (Some (IntegerAttr 0 t')) (IntTy w))"
    and sh: "posShape sh" "onlyDim sh k" and pos: "\<And>idx. inB sh idx \<Longrightarrow> 0 \<le> eval E s a idx"
  shows "parses E s (parseCmp parse Sge a b) v (Msk {})"
proof (rule parsesI)
  fix s1 assume g1: "grows s s1"
  have va: "valid s a" and vb: "valid s b" using wf_operand_valid [OF wf v] op by simp_all
  have true: "eval E s v idx \<noteq> 0" if "inB sh idx" for idx
  proof -
    have "eval E s b idx = 0" using eval_unfold [OF wf vb, of E] ty(3,4) by (simp add: denOp_def norm_def)
    then show ?thesis using cmp_value [OF wf v op ty(1), of E idx] pos [OF that] by simp
  qed
  show "wp (parseCmp parse Sge a b) (\<lambda>st t. grows s1 t \<and> mdesc E t v (Msk {}) st) s1"
    unfolding parseCmp_def wp_bindM wp_thenM wp_requireM
  proof (intro conjI, simp, rule wp_parses [OF a g1])
    fix x t assume t: "grows s1 t" "grows s t" "mdesc E t a (Rng k) x"
    have tys: "tyOf t v = TensorTy sh (IntTy 1)" "tyOf t a = TensorTy sh (IntTy w)" "tyOf t b = TensorTy sh (IntTy w)"
      using tyOf_grows [OF t(2)] v va vb ty by auto
    have x: "mscalar x = None" "mdims x = map getIndexAttr sh" and k: "k < length sh"
      using t(3) tys by (auto simp: rngDesc_def shapeDims_def)
    have dim: "cmpDimension (mdims x) 0 None = ret (Some k)" using cmpDimension_only [OF sh(2,1)] x by simp
    have m: "mskDesc E z v {} (emptyMask\<lparr>mdims := mdims x\<rparr>)" if gz: "grows s z" for z
      using gz x true inMask_shape [OF sh(1)] maskDims_shape [OF sh(1)] tyOf_grows [OF gz v] eval_grows [OF gz v] ty sh(1)
        posShape_in64 [OF sh(1)]
      by (auto simp: mskDesc_def isMask_def emptyMask_def posShape_def)
    show "wp (parse b) (\<lambda>y. wp (if Sge = Sge then case mscalar y of None \<Rightarrow> ret False | Some r \<Rightarrow> hasConstZero r else ret True)
         (\<lambda>ok s. ok \<and> wp (cmpDimension (mdims x) 0 (if mscalar x \<noteq> None \<and> mscalar y \<noteq> None then Some 0 else None))
            (\<lambda>cmpDim. wp (assertM (cmpDim \<noteq> None \<or> mscalar x = None \<and> Sge = Slt \<or> Sge = Ult))
               (\<lambda>_. wp (cmpNewDim Sge x y cmpDim)
                  (\<lambda>newDim. wp (ret (emptyMask\<lparr>mdims := (case cmpDim of Some k \<Rightarrow> (mdims x)[k := newDim] | None \<Rightarrow> mdims x)\<rparr>))
                     (\<lambda>st t. grows s1 t \<and> mdesc E t v (Msk {}) st)))) s)) t"
      unfolding b [OF t(2)]
    proof (rule wp_parseConstant_splat [OF growsD(2) [OF t(2)] valid_grows [OF t(2) vb]])
      fix z assume z: "grows t z"
      have upd: "(map getIndexAttr sh)[k := getIndexAttr (sh ! k)] = map getIndexAttr sh"
        using k by (simp add: map_update [symmetric])
      let ?y = "emptyMask\<lparr>mscalar := Some (getIndexAttr 0), mdims := shapeDims (tyOf t b)\<rparr>"
      show "wp (if Sge = Sge then case mscalar ?y of None \<Rightarrow> ret False | Some r \<Rightarrow> hasConstZero r else ret True)
         (\<lambda>ok s. ok \<and> wp (cmpDimension (mdims x) 0 (if mscalar x \<noteq> None \<and> mscalar ?y \<noteq> None then Some 0 else None))
            (\<lambda>cmpDim. wp (assertM (cmpDim \<noteq> None \<or> mscalar x = None \<and> Sge = Slt \<or> Sge = Ult))
               (\<lambda>_. wp (cmpNewDim Sge x ?y cmpDim)
                  (\<lambda>newDim. wp (ret (emptyMask\<lparr>mdims := (case cmpDim of Some k \<Rightarrow> (mdims x)[k := newDim] | None \<Rightarrow> mdims x)\<rparr>))
                     (\<lambda>st t. grows s1 t \<and> mdesc E t v (Msk {}) st)))) s) z"
        using m [OF grows_trans [OF t(2) z]] grows_trans [OF t(1) z] dim x k upd
        by (simp add: wp_simps hasConstZero_def cmpNewDim_def isLess_def)
    qed (simp_all add: norm_def)
  qed
qed

end
