(* ===== verification/Mask_Main.thy ===== *)
theory Mask_Main
  imports Mask_Cmp Ptr_Main
begin

text \<open>
  The main theorem on \<open>MaskState::parse\<close>: \<open>maskTerm E s v k\<close> collects the terms the analysis
  understands, with what kind of state it recovers for them; on them the parse returns, and its
  state means the term.
\<close>

section \<open>Loop-carried ranges\<close>

lemma parses_LoopIterArg:
  assumes wf: "wf_ir s" and v: "valid s v" and f: "f < length (fors s)" and fo: "fors s ! f = fo" "parentFor fo = None"
    and k: "findIndex v (iterArgs fo) = Some k" "k < length (initArgs fo)" "k + 1 < length (iterArgs fo)"
    and ini: "valid s (initArgs fo ! k)" "defOp s (initArgs fo ! k) = GetStructuredStateOp x j"
    and x: "parses E s (parse x) x (Rng d)" "valid s x"
    and off: "valid s (iterArgs fo ! (k + 1))" "tyOf s (iterArgs fo ! (k + 1)) = IndexTy"
    and ty: "shapeOf (tyOf s v) = shapeOf (tyOf s x)" "posShape (shapeOf (tyOf s v))"
    and val: "\<And>idx. inB (shapeOf (tyOf s v)) idx \<Longrightarrow> eval E s v idx = eval E s (iterArgs fo ! (k + 1)) [] + idx ! d"
    and room: "d < length (shapeOf (tyOf s v)) \<Longrightarrow>
      eval E s (iterArgs fo ! (k + 1)) [] + shapeOf (tyOf s v) ! d < 2 ^ 63"
  shows "parses E s (parseLoopIterArg parse (Some f) v) v (Rng d)"
proof (rule parsesI)
  fix s1 assume g1: "grows s s1"
  let ?o = "iterArgs fo ! (k + 1)" and ?sh = "shapeOf (tyOf s v)"
  have fs: "fors s1 = fors s" using growsD(1) [OF g1] ext_fors by blast
  have d1: "defOp s1 (initArgs fo ! k) = GetStructuredStateOp x j" using defOp_grows [OF g1 ini(1)] ini(2) by simp
  have body: "wp (parse x) (\<lambda>st. wp (bindM (if mstart st = None \<and> mend st = None then
                bindM (castM (mscalar st)) (\<lambda>c. ret (Some (getIndexAttr 0), Some c))
              else ret (mstart st, mend st)) (\<lambda>(a0, b0).
           bindM (castM a0) (\<lambda>a. bindM (castM b0) (\<lambda>b.
           bindM (subOFRs b a) (\<lambda>dist.
           bindM (atM (iterArgs fo) (k + 1)) (\<lambda>offset.
           bindM (addOFRs (Val offset) dist) (\<lambda>e.
           ret (emptyMask\<lparr>mstart := Some (Val offset), mend := Some e, mdims := mdims st\<rparr>))))))))
      (\<lambda>st t. grows s1 t \<and> mdesc E t v (Rng d) st)) s1"
  proof (rule wp_parses [OF x(1) g1])
    fix st t assume t: "grows s1 t" "grows s t" "mdesc E t x (Rng d) st"
    have tx: "shapeOf (tyOf t x) = ?sh" using tyOf_grows [OF t(2) x(2)] ty by simp
    obtain a b where ab: "mstart st = Some a" "mend st = Some b" "idx_ofr t a" "idx_ofr t b"
      "osem E t b = osem E t a + ?sh ! d" and ds: "mdims st = map getIndexAttr ?sh" and d: "d < length ?sh"
      using t(3) tx by (auto simp: rngDesc_def shapeDims_def)
    note n = posShape_in64 [OF ty(2) d]
    have o: "idx_ofr t (Val ?o)" "osem E t (Val ?o) = eval E s ?o []"
      using off valid_grows [OF t(2)] tyOf_grows [OF t(2)] eval_grows [OF t(2)] by simp_all
    have "in64 (eval E s ?o [])" using osem_in64 [OF wf, of "Val ?o" E] off by simp
    then have room': "in64 (eval E s ?o [] + ?sh ! d)" using room [OF d] n by (auto simp: in64_def)
    have "wp (subOFRs b a) (\<lambda>dist. wp (addOFRs (Val ?o) dist)
        (\<lambda>e u. grows s1 u \<and> rngDesc E u v d (emptyMask\<lparr>mstart := Some (Val ?o), mend := Some e, mdims := mdims st\<rparr>))) t"
    proof (rule wp_subOFRs [OF growsD(2) [OF t(2)] ab(4,3)])
      fix r u assume u: "grows t u" "idx_ofr u r" "\<And>E. osem E u r = wrap 64 (osem E t b - osem E t a)"
      have r: "osem E u r = ?sh ! d" using u(3) ab(5) n by (simp add: wrap_in64)
      show "wp (addOFRs (Val ?o) r) (\<lambda>e u. grows s1 u \<and>
          rngDesc E u v d (emptyMask\<lparr>mstart := Some (Val ?o), mend := Some e, mdims := mdims st\<rparr>)) u"
      proof (rule wp_addOFRs [OF growsD(2) [OF u(1)] idx_ofr_grows [OF u(1) o(1)] u(2)])
        fix e w assume w: "grows u w" "idx_ofr w e" "\<And>E. osem E w e = wrap 64 (osem E u (Val ?o) + osem E u r)"
        note gw = grows_trans [OF grows_trans [OF t(2) u(1)] w(1)]
        have "osem E w e = eval E s ?o [] + ?sh ! d"
          using w(3) r room' osem_grows [OF u(1) o(1)] o(2) by (simp add: wrap_in64)
        then show "grows s1 w \<and> rngDesc E w v d (emptyMask\<lparr>mstart := Some (Val ?o), mend := Some e, mdims := mdims st\<rparr>)"
          using grows_trans [OF t(1) grows_trans [OF u(1) w(1)]] w(2) d ds val off
            valid_grows [OF gw] tyOf_grows [OF gw] eval_grows [OF gw] v
          by (simp add: rngDesc_def emptyMask_def shapeDims_def)
      qed
    qed
    then show "wp (bindM (if mstart st = None \<and> mend st = None then
                bindM (castM (mscalar st)) (\<lambda>c. ret (Some (getIndexAttr 0), Some c))
              else ret (mstart st, mend st)) (\<lambda>(a0, b0).
           bindM (castM a0) (\<lambda>a. bindM (castM b0) (\<lambda>b.
           bindM (subOFRs b a) (\<lambda>dist.
           bindM (atM (iterArgs fo) (k + 1)) (\<lambda>offset.
           bindM (addOFRs (Val offset) dist) (\<lambda>e.
           ret (emptyMask\<lparr>mstart := Some (Val offset), mend := Some e, mdims := mdims st\<rparr>))))))))
      (\<lambda>st t. grows s1 t \<and> mdesc E t v (Rng d) st) t"
      using ab k(3) by (simp add: wp_simps)
  qed
  then show "wp (parseLoopIterArg parse (Some f) v) (\<lambda>st t. grows s1 t \<and> mdesc E t v (Rng d) st) s1"
    using f fo k fs d1 by (simp add: parseLoopIterArg_def wp_simps)
qed

section \<open>The terms\<close>

text \<open>
  The premises on types are those of the verifier.  The premises on values exclude a sum that
  leaves its type or the index range, an unsigned comparison of negative values, a lower bound that
  is not implied, and the comparison or broadcast of a range or a mask in a dimension of size 1.
\<close>

inductive maskTerm :: "env \<Rightarrow> ir \<Rightarrow> val \<Rightarrow> kind \<Rightarrow> bool" for E s where
  const: "valid s v \<Longrightarrow> defOp s v = ConstantOp (IntegerAttr n (tyOf s v)) \<Longrightarrow> isIntTy (tyOf s v) \<Longrightarrow>
    width (tyOf s v) \<le> 64 \<Longrightarrow> maskTerm E s v Scal"
| constSplat: "valid s v \<Longrightarrow> defOp s v = ConstantOp (DenseElementsAttr (Some (IntegerAttr n t')) t) \<Longrightarrow> isIntTy t \<Longrightarrow>
    tyOf s v = TensorTy sh t \<Longrightarrow> norm t n = n \<Longrightarrow> width t \<le> 64 \<Longrightarrow> maskTerm E s v Scal"
| int: "valid s v \<Longrightarrow> isIntTy (tyOf s v) \<Longrightarrow> width (tyOf s v) \<le> 64 \<Longrightarrow> (\<forall>a. defOp s v \<noteq> ConstantOp a) \<Longrightarrow>
    maskTerm E s v Scal"
| range: "valid s v \<Longrightarrow> defOp s v = MakeRangeOp start stop \<Longrightarrow> tyOf s v = TensorTy [stop - start] (IntTy 32) \<Longrightarrow>
    0 < stop - start \<Longrightarrow> 0 \<le> start \<Longrightarrow> stop \<le> 2 ^ 31 \<Longrightarrow> maskTerm E s v (Rng 0)"
| splat: "valid s v \<Longrightarrow> defOp s v = SplatOp a \<Longrightarrow> tyOf s v = TensorTy sh (tyOf s a) \<Longrightarrow> isIntTy (tyOf s a) \<Longrightarrow>
    width (tyOf s a) \<noteq> 1 \<Longrightarrow> maskTerm E s a Scal \<Longrightarrow> maskTerm E s v Scal"
| splatBool: "valid s v \<Longrightarrow> defOp s v = SplatOp a \<Longrightarrow> tyOf s v = TensorTy sh (tyOf s a) \<Longrightarrow> tyOf s a = IntTy 1 \<Longrightarrow>
    posShape sh \<Longrightarrow> maskTerm E s v (Msk {..<length sh})"
| add: "valid s v \<Longrightarrow> defOp s v = BinOp AddI a b \<Longrightarrow> maskTerm E s a ka \<Longrightarrow> maskTerm E s b kb \<Longrightarrow>
    ka = Rng k \<and> kb = Scal \<or> ka = Scal \<and> kb = Rng k \<Longrightarrow> tyOf s v = TensorTy sh (IntTy w) \<Longrightarrow> tyOf s a = tyOf s v \<Longrightarrow>
    tyOf s b = tyOf s v \<Longrightarrow> posShape sh \<Longrightarrow> w \<le> 64 \<Longrightarrow>
    (\<And>idx. inB sh idx \<Longrightarrow> eval E s v idx = eval E s a idx + eval E s b idx \<and> eval E s v idx < 2 ^ 63 - 1) \<Longrightarrow>
    maskTerm E s v (Rng k)"
| expand: "valid s v \<Longrightarrow> defOp s v = ExpandDimsOp a ax \<Longrightarrow> maskTerm E s a k \<Longrightarrow> tyOf s a = TensorTy sh t \<Longrightarrow>
    tyOf s v = TensorTy (insert_at ax 1 sh) t \<Longrightarrow> ax \<le> length sh \<Longrightarrow> \<not> isFloatLike t \<Longrightarrow> maskTerm E s v (shiftKind ax k)"
| broadcast: "valid s v \<Longrightarrow> defOp s v = BroadcastOp a \<Longrightarrow> maskTerm E s a k \<Longrightarrow> tyOf s a = TensorTy sh t \<Longrightarrow>
    tyOf s v = TensorTy sh' t \<Longrightarrow> posShape sh' \<Longrightarrow> list_all2 (\<lambda>m n. m = n \<or> m = 1 \<and> 1 < n) sh sh' \<Longrightarrow>
    broadcastable sh sh' k \<Longrightarrow> \<not> isFloatLike t \<Longrightarrow> maskTerm E s v k"
| extsi: "valid s v \<Longrightarrow> defOp s v = CastOp ExtSI a \<Longrightarrow> maskTerm E s a k \<Longrightarrow> tyOf s a = TensorTy sh (IntTy n) \<Longrightarrow>
    tyOf s v = TensorTy sh (IntTy w) \<Longrightarrow> n \<le> w \<Longrightarrow> maskTerm E s v k"
| less: "valid s v \<Longrightarrow> defOp s v = CmpIOp p a b \<Longrightarrow> isLess p \<Longrightarrow> maskTerm E s a (Rng k) \<Longrightarrow> maskTerm E s b Scal \<Longrightarrow>
    tyOf s v = TensorTy sh (IntTy 1) \<Longrightarrow> tyOf s a = TensorTy sh (IntTy w) \<Longrightarrow> tyOf s b = TensorTy sh (IntTy w) \<Longrightarrow>
    posShape sh \<Longrightarrow> onlyDim sh k \<Longrightarrow>
    (\<And>idx. p = Ult \<Longrightarrow> inB sh idx \<Longrightarrow> 0 \<le> eval E s a idx \<and> 0 \<le> eval E s b idx) \<Longrightarrow> maskTerm E s v (Msk {k})"
| lessScalars: "valid s v \<Longrightarrow> defOp s v = CmpIOp p a b \<Longrightarrow> isLess p \<Longrightarrow> maskTerm E s a Scal \<Longrightarrow> maskTerm E s b Scal \<Longrightarrow>
    tyOf s v = TensorTy sh (IntTy 1) \<Longrightarrow> tyOf s a = TensorTy sh (IntTy w) \<Longrightarrow> tyOf s b = TensorTy sh (IntTy w) \<Longrightarrow>
    sh \<noteq> [] \<Longrightarrow> \<forall>n \<in> set sh. n = 1 \<Longrightarrow>
    (\<And>idx. p = Ult \<Longrightarrow> inB sh idx \<Longrightarrow> 0 \<le> eval E s a idx \<and> 0 \<le> eval E s b idx) \<Longrightarrow> maskTerm E s v (Msk {0})"
| sgeZero: "valid s v \<Longrightarrow> defOp s v = CmpIOp Sge a b \<Longrightarrow> maskTerm E s a (Rng k) \<Longrightarrow>
    defOp s b = ConstantOp (DenseElementsAttr (Some (IntegerAttr 0 t')) (IntTy w)) \<Longrightarrow>
    tyOf s v = TensorTy sh (IntTy 1) \<Longrightarrow> tyOf s a = TensorTy sh (IntTy w) \<Longrightarrow> tyOf s b = TensorTy sh (IntTy w) \<Longrightarrow>
    posShape sh \<Longrightarrow> onlyDim sh k \<Longrightarrow> (\<And>idx. inB sh idx \<Longrightarrow> 0 \<le> eval E s a idx) \<Longrightarrow> maskTerm E s v (Msk {})"
| conj: "valid s v \<Longrightarrow> defOp s v = BinOp AndI a b \<Longrightarrow> maskTerm E s a (Msk C) \<Longrightarrow> maskTerm E s b (Msk D) \<Longrightarrow>
    tyOf s v = TensorTy sh (IntTy 1) \<Longrightarrow> tyOf s a = TensorTy sh (IntTy 1) \<Longrightarrow> tyOf s b = TensorTy sh (IntTy 1) \<Longrightarrow>
    maskTerm E s v (Msk (C \<union> D))"
| iterArg: "valid s v \<Longrightarrow> defOp s v = BlockArg (Some f) \<Longrightarrow> isTensor (tyOf s v) \<Longrightarrow> f < length (fors s) \<Longrightarrow>
    fors s ! f = fo \<Longrightarrow> parentFor fo = None \<Longrightarrow> findIndex v (iterArgs fo) = Some k \<Longrightarrow> k < length (initArgs fo) \<Longrightarrow>
    k + 1 < length (iterArgs fo) \<Longrightarrow> valid s (initArgs fo ! k) \<Longrightarrow> defOp s (initArgs fo ! k) = GetStructuredStateOp x j \<Longrightarrow>
    x < v \<Longrightarrow> maskTerm E s x (Rng d) \<Longrightarrow> valid s (iterArgs fo ! (k + 1)) \<Longrightarrow> tyOf s (iterArgs fo ! (k + 1)) = IndexTy \<Longrightarrow>
    shapeOf (tyOf s v) = shapeOf (tyOf s x) \<Longrightarrow> posShape (shapeOf (tyOf s v)) \<Longrightarrow>
    (\<And>idx. inB (shapeOf (tyOf s v)) idx \<Longrightarrow> eval E s v idx = eval E s (iterArgs fo ! (k + 1)) [] + idx ! d) \<Longrightarrow>
    (d < length (shapeOf (tyOf s v)) \<Longrightarrow> eval E s (iterArgs fo ! (k + 1)) [] + shapeOf (tyOf s v) ! d < 2 ^ 63) \<Longrightarrow>
    maskTerm E s v (Rng d)"

section \<open>The parse\<close>

definition parseBelow :: "val \<Rightarrow> parser" where
  "parseBelow v u = (if u < v then parseMask u else raise Abort)"

lemma parseMask_unfold: "parseMask v = parseStep (parseBelow v) v"
  by (simp add: parseMask.simps [of v] parseBelow_def [abs_def])

lemma parses_below: "parses E s (parseMask a) u k \<Longrightarrow> a < v \<Longrightarrow> parses E s (parseBelow v a) u k"
  by (simp add: parseBelow_def)

text \<open>One step is the dispatch on type and definition, which do not change while the table grows.\<close>

lemma parses_step:
  assumes "valid s v"
    and "parses E s (case defOp s v of ConstantOp a \<Rightarrow> parseConstant v a
       | _ \<Rightarrow> if isIntTy (tyOf s v) then parseIntScalar v
       else (case defOp s v of
         BinOp AddI a b \<Rightarrow> parseAdd parse a b
       | BinOp AndI a b \<Rightarrow> parseAnd parse a b
       | CmpIOp p a b \<Rightarrow> parseCmp parse p a b
       | MakeRangeOp start stop \<Rightarrow> parseMakeRange v start stop
       | BroadcastOp a \<Rightarrow> parseBroadcast parse v a
       | SplatOp a \<Rightarrow> parseSplat parse v a
       | ExpandDimsOp a ax \<Rightarrow> parseExpandDims parse v a ax
       | BlockArg loop \<Rightarrow> parseLoopIterArg parse loop v
       | CastOp ExtSI a \<Rightarrow> parseExtSI parse a
       | _ \<Rightarrow> raise Failure)) v k"
  shows "parses E s (parseStep parse v) v k"
proof (rule parsesI)
  fix s1 assume g: "grows s s1"
  show "wp (parseStep parse v) (\<lambda>st t. grows s1 t \<and> mdesc E t v k st) s1"
    using assms(2) g
    unfolding parses_def parseStep_def wp_bindM wp_getM tyOf_grows [OF g assms(1)] defOp_grows [OF g assms(1)] prod.case
    by blast
qed

lemma maskTerm_valid: "maskTerm E s v k \<Longrightarrow> valid s v"
  by (cases rule: maskTerm.cases) auto

lemma parseMask_parses:
  assumes wf: "wf_ir s" and trm: "maskTerm E s v k"
  shows "parses E s (parseMask v) v k"
  using trm
proof (induction rule: maskTerm.induct)
  case (const v n)
  then show ?case
    by (subst parseMask_unfold)
      (rule parses_step, simp, simp add: parses_Constant [OF const(1) wf _ const(2), of n] const)
next
  case (constSplat v n t' t sh)
  then show ?case
    by (subst parseMask_unfold)
      (rule parses_step, simp, simp add: parses_Constant [OF constSplat(1) wf _ constSplat(2), of n t' t sh] constSplat)
next
  case (int v)
  then show ?case
    by (subst parseMask_unfold)
      (rule parses_step, simp, cases "defOp s v"; simp add: parses_IntScalar [OF int(1) wf int(2,3)])
next
  case (range v start stop)
  then show ?case
    by (subst parseMask_unfold)
      (rule parses_step, simp, simp add: parses_MakeRange [OF wf range(1-6)])
next
  case (splat v a sh)
  have a: "a < v" using wf_ir_operand [OF wf splat(1), of a] splat(2) by auto
  show ?case
    by (subst parseMask_unfold) (rule parses_step [OF splat(1)],
      simp add: splat parses_Splat [where parse = "parseBelow v", OF wf splat(1,2) parses_below [OF splat.IH a] splat(3-5)])
next
  case (splatBool v a sh)
  then show ?case
    by (subst parseMask_unfold) (rule parses_step [OF splatBool(1)],
      simp add: splatBool parses_SplatBool [where parse = "parseBelow v", OF wf splatBool(1-5)])
next
  case (add v a b ka kb k sh w)
  have a: "a < v" "b < v" using bin_operands [OF wf add(1,2)] by auto
  show ?case
    by (subst parseMask_unfold) (rule parses_step [OF add(1)],
      simp add: add parses_Add [where parse = "parseBelow v", OF wf add(1,2) parses_below [OF add.IH(1) a(1)] parses_below [OF add.IH(2) a(2)] add(5-11)])
next
  case (expand v a ax k sh t)
  have a: "a < v" using wf_ir_operand [OF wf expand(1), of a] expand(2) by auto
  show ?case
    by (subst parseMask_unfold) (rule parses_step [OF expand(1)],
      simp add: expand parses_ExpandDims [where parse = "parseBelow v", OF wf expand(1,2) parses_below [OF expand.IH a] expand(4-7)])
next
  case (broadcast v a k sh t sh')
  have a: "a < v" using wf_ir_operand [OF wf broadcast(1), of a] broadcast(2) by auto
  show ?case
    by (subst parseMask_unfold) (rule parses_step [OF broadcast(1)],
      simp add: broadcast parses_Broadcast [where parse = "parseBelow v", OF wf broadcast(1,2) parses_below [OF broadcast.IH a] broadcast(4-9)])
next
  case (extsi v a k sh n w)
  have a: "a < v" "valid s a" using cast_operand [OF wf extsi(1,2)] by auto
  have "parses E s (parseBelow v a) v k"
    by (rule parses_same [OF extsi(1) a(2) parses_below [OF extsi.IH a(1)]])
      (use extsi in \<open>simp_all add: cast_value [OF wf extsi(1,2,4-6)]\<close>)
  then show ?case
    by (subst parseMask_unfold) (rule parses_step [OF extsi(1)], simp add: extsi parseExtSI_def)
next
  case (less v p a b k sh w)
  have a: "a < v" "b < v" using wf_ir_operand [OF wf less(1)] less(2) by auto
  show ?case
    by (subst parseMask_unfold) (rule parses_step [OF less(1)],
      simp add: less parses_CmpRange [where parse = "parseBelow v", OF wf less(1-3) parses_below [OF less.IH(1) a(1)] parses_below [OF less.IH(2) a(2)] less(6-11)])
next
  case (lessScalars v p a b sh w)
  have a: "a < v" "b < v" using wf_ir_operand [OF wf lessScalars(1)] lessScalars(2) by auto
  show ?case
    by (subst parseMask_unfold) (rule parses_step [OF lessScalars(1)],
      simp add: lessScalars parses_CmpScalars [where parse = "parseBelow v", OF wf lessScalars(1-3) parses_below [OF lessScalars.IH(1) a(1)]
        parses_below [OF lessScalars.IH(2) a(2)] lessScalars(6-11)])
next
  case (sgeZero v a b k t' w sh)
  have a: "a < v" "b < v" using wf_ir_operand [OF wf sgeZero(1)] sgeZero(2) by auto
  have b: "valid s b" using wf_operand_valid [OF wf sgeZero(1), of b] sgeZero(2) by simp
  have c: "wp (parseBelow v b) Q t = wp (parseConstant b (DenseElementsAttr (Some (IntegerAttr 0 t')) (IntTy w))) Q t"
    if "grows s t" for Q t
    using defOp_grows [OF that b] sgeZero(4) a
    by (simp add: parseBelow_def parseMask_unfold [of b] parseStep_def wp_bindM wp_getM)
  show ?case
    by (subst parseMask_unfold) (rule parses_step [OF sgeZero(1)],
      simp add: sgeZero parses_CmpSge [where parse = "parseBelow v", OF wf sgeZero(1,2) parses_below [OF sgeZero.IH a(1)] c sgeZero(5-7,4,8-10)])
next
  case (conj v a b C D sh)
  have a: "a < v" "b < v" using bin_operands [OF wf conj(1,2)] by auto
  show ?case
    by (subst parseMask_unfold) (rule parses_step [OF conj(1)],
      simp add: conj parses_And [where parse = "parseBelow v", OF wf conj(1,2) parses_below [OF conj.IH(1) a(1)] parses_below [OF conj.IH(2) a(2)] conj(5-7)])
next
  case (iterArg v f fo k x j d)
  have "\<not> isIntTy (tyOf s v)" using iterArg(3) by (cases "tyOf s v") auto
  moreover have "parses E s (parseLoopIterArg (parseBelow v) (Some f) v) v (Rng d)"
    by (rule parses_LoopIterArg [where parse = "parseBelow v",
      OF wf iterArg(1,4-11) parses_below [OF iterArg.IH iterArg(12)] maskTerm_valid [OF iterArg(13)] iterArg(14-19)])
  ultimately show ?case
    by (subst parseMask_unfold) (rule parses_step [OF iterArg(1)], simp add: iterArg(2))
qed

end
