(* ===== verification/Claims_Mask.thy ===== *)
theory Claims_Mask
  imports Mask_Main Demo Extends
begin

text \<open>The properties of \<open>MaskAnalysis\<close>, with an instance of each on a concrete program.\<close>

section \<open>A masked tile\<close>

text \<open>
  \<open>maskDemo\<close> is the mask \<open>(arange(0, 4) < n)[None, :]\<close> of a tile of shape \<open>[2, 4]\<close>, with \<open>n = 3\<close>.
\<close>

definition maskDemo :: ir where
  "maskDemo = \<lparr>ops = [
     (BlockArg None, IntTy 32),
     (MakeRangeOp 0 4, TensorTy [4] (IntTy 32)),
     (SplatOp 0, TensorTy [4] (IntTy 32)),
     (CmpIOp Slt 1 2, TensorTy [4] (IntTy 1)),
     (ExpandDimsOp 3 0, TensorTy [1, 4] (IntTy 1)),
     (BroadcastOp 4, TensorTy [2, 4] (IntTy 1)),
     (BlockArg None, MemRefTy [2, 4] (FloatTy 32)),
     (BlockArg None, MemRefTy [2, 4] (FloatTy 32))], fors = []\<rparr>"

definition maskE :: env where
  "maskE v idx = 3"

lemma maskDemo_wf: "wf_ir maskDemo"
  by (simp add: wf_ir_enumerate maskDemo_def)

lemma maskDemo_valid [simp]: "valid maskDemo v \<longleftrightarrow> v < 8"
  by (simp add: valid_def maskDemo_def) arith

lemma maskDemo_ops [simp]:
  "defOp maskDemo 0 = BlockArg None" "tyOf maskDemo 0 = IntTy 32"
  "defOp maskDemo (Suc 0) = MakeRangeOp 0 4" "tyOf maskDemo (Suc 0) = TensorTy [4] (IntTy 32)"
  "defOp maskDemo 2 = SplatOp 0" "tyOf maskDemo 2 = TensorTy [4] (IntTy 32)"
  "defOp maskDemo 3 = CmpIOp Slt 1 2" "tyOf maskDemo 3 = TensorTy [4] (IntTy 1)"
  "defOp maskDemo 4 = ExpandDimsOp 3 0" "tyOf maskDemo 4 = TensorTy [1, 4] (IntTy 1)"
  "defOp maskDemo 5 = BroadcastOp 4" "tyOf maskDemo 5 = TensorTy [2, 4] (IntTy 1)"
  "tyOf maskDemo 6 = MemRefTy [2, 4] (FloatTy 32)" "tyOf maskDemo 7 = MemRefTy [2, 4] (FloatTy 32)"
  by (simp_all add: maskDemo_def defOp_def tyOf_def entry_def)

lemma maskDemo_term: "maskTerm maskE maskDemo 5 (Msk {Suc 0})"
proof -
  have r: "maskTerm maskE maskDemo 1 (Rng 0)"
    by (rule maskTerm.range [where start = 0 and stop = 4]) simp_all
  have n: "maskTerm maskE maskDemo 0 Scal" by (rule maskTerm.int) simp_all
  have s: "maskTerm maskE maskDemo 2 Scal" by (rule maskTerm.splat [where a = 0]) (use n in simp_all)
  have c: "maskTerm maskE maskDemo 3 (Msk {0})"
    by (rule maskTerm.less [where p = Slt and a = 1 and b = 2 and sh = "[4]" and w = 32])
      (use r s in \<open>simp_all add: isLess_def posShape_def onlyDim_def\<close>)
  have e: "maskTerm maskE maskDemo 4 (shiftKind 0 (Msk {0}))"
    by (rule maskTerm.expand [where a = 3 and sh = "[4]" and t = "IntTy 1"]) (use c in \<open>simp_all add: insert_at_def\<close>)
  have "maskTerm maskE maskDemo 5 (shiftKind 0 (Msk {0}))"
    by (rule maskTerm.broadcast [where a = 4 and sh = "[1, 4]" and sh' = "[2, 4]" and t = "IntTy 1"])
      (use e in \<open>simp_all add: posShape_def shiftDim_def less_Suc_eq\<close>)
  then show ?thesis by (simp add: shiftDim_def)
qed

section \<open>The analysis\<close>

text \<open>C2: \<open>MaskState::parse\<close> returns on every mask term and recovers it exactly: the state is a mask
  with one index-typed size per dimension, each between 0 and the size of the tensor, and an element
  of the tensor is true if and only if every index is below the size of its dimension.\<close>

theorem parseMask_correct:
  assumes "wf_ir s" and "maskTerm E s v (Msk C)"
  shows "\<exists>st s'. parseMask v s = (Inr st, s') \<and> grows s s' \<and> isMask st \<and>
    list_all2 (\<lambda>d n. idx_ofr s' d \<and> 0 \<le> osem E s' d \<and> osem E s' d \<le> n) (mdims st) (shapeOf (tyOf s v)) \<and>
    (\<forall>idx. inB (shapeOf (tyOf s v)) idx \<longrightarrow>
       (eval E s v idx \<noteq> 0 \<longleftrightarrow> list_all2 (\<lambda>d i. i < osem E s' d) (mdims st) idx))"
proof -
  have v: "valid s v" using assms(2) by (rule maskTerm_valid)
  obtain st s' where r: "parseMask v s = (Inr st, s')" "grows s s'" "mskDesc E s' v C st"
    using parseMask_parses [OF assms] grows_refl [OF assms(1)] by (auto simp: parses_def wp_def)
  note eqs = tyOf_grows [OF r(2) v] eval_grows [OF r(2) v]
  show ?thesis
    using r unfolding mskDesc_def maskDims_def inMask_def eqs by (intro exI [of _ st] exI [of _ s'] conjI) simp_all
qed

theorem parseMask_correct_witness:
  "\<exists>st s'. parseMask 5 maskDemo = (Inr st, s') \<and> grows maskDemo s' \<and> isMask st \<and>
    list_all2 (\<lambda>d n. idx_ofr s' d \<and> 0 \<le> osem maskE s' d \<and> osem maskE s' d \<le> n) (mdims st) (shapeOf (tyOf maskDemo 5)) \<and>
    (\<forall>idx. inB (shapeOf (tyOf maskDemo 5)) idx \<longrightarrow>
       (eval maskE maskDemo 5 idx \<noteq> 0 \<longleftrightarrow> list_all2 (\<lambda>d i. i < osem maskE s' d) (mdims st) idx))"
  by (rule parseMask_correct [OF maskDemo_wf maskDemo_term])

section \<open>The two views of a wrapped block\<close>

lemma wp_createSubview:
  assumes "wf_ir s" "valid s src" "tyOf s src = MemRefTy sh e" "\<And>x. x \<in> set offs \<union> set szs \<union> set strs \<Longrightarrow> idx_ofr s x"
    and post: "\<And>v t. grows s t \<Longrightarrow> valid t v \<Longrightarrow> defOp t v = SubViewOp src offs szs strs \<Longrightarrow> Q v t"
  shows "wp (createSubview src offs szs strs) Q s"
proof -
  have "valid s a" if "a \<in> operands (SubViewOp src offs szs strs)" for a
    using that assms(2,4) idx_ofr_vals [of s _ a] by auto
  then have "wp (create (SubViewOp src offs szs strs) (MemRefTy (map staticDim szs) e)) Q s"
    by (intro wp_create [OF assms(1)]) (auto intro: post)
  then show ?thesis using assms(3) by (simp add: createSubview_def wp_simps)
qed

lemma rest_of_min:
  assumes "wf_ir s" "idx_ofr s c" "x1 = min d (osem E s c)" "x2 = wrap 64 (osem E s c - x1)" "0 \<le> d" "0 \<le> osem E s c"
  shows "x1 + x2 = osem E s c \<and> 0 \<le> x2"
proof -
  have "in64 (osem E s c - x1)" using osem_in64 [OF assms(1,2), of E] assms(3,5,6) by (auto simp: in64_def)
  then show ?thesis using assms(3,4) by (simp add: wrap_in64)
qed

text \<open>What the two splits share: the size along the split dimension is shared out.\<close>

lemma wp_splitViews:
  assumes wf: "wf_ir s" and b: "valid s b1" "valid s b2" "tyOf s b1 = MemRefTy sh1 e" "tyOf s b2 = MemRefTy sh2 e"
    and f: "idx_ofr s full" "idx_ofr s other"
    and sizes: "\<And>x. set (szs x) = {x, other}"
    and post: "\<And>d v1 v2 x1 x2 t. grows s t \<Longrightarrow> defOp t d = DimOp b1 k \<Longrightarrow>
      defOp t v1 = SubViewOp b1 (zeroOffsets n) (szs x1) (unitStrides n) \<Longrightarrow>
      defOp t v2 = SubViewOp b2 (zeroOffsets n) (szs x2) (unitStrides n) \<Longrightarrow>
      (\<And>E. osem E t x1 = min (eval E t d []) (osem E s full)) \<Longrightarrow>
      (\<And>E. osem E t x2 = wrap 64 (osem E s full - osem E t x1)) \<Longrightarrow> Q (v1, v2) t"
  shows "wp (bindM (create (DimOp b1 k) IndexTy) (\<lambda>col. bindM (minOFRs (Val col) full) (\<lambda>x1.
     bindM (subOFRs full x1) (\<lambda>x2.
     bindM (createSubview b1 (zeroOffsets n) (szs x1) (unitStrides n)) (\<lambda>v1.
     bindM (createSubview b2 (zeroOffsets n) (szs x2) (unitStrides n)) (\<lambda>v2. ret (v1, v2))))))) Q s"
  unfolding wp_bindM
proof (rule wp_create [OF wf])
  fix d t assume t: "grows s t" "valid t d" "defOp t d = DimOp b1 k" "tyOf t d = IndexTy"
  have d: "idx_ofr t (Val d)" using t by simp
  note ft = idx_ofr_grows [OF t(1) f(1)] osem_grows [OF t(1) f(1)]
  show "wp (minOFRs (Val d) full) (\<lambda>x1. wp (subOFRs full x1) (\<lambda>x2.
      wp (createSubview b1 (zeroOffsets n) (szs x1) (unitStrides n)) (\<lambda>v1.
      wp (createSubview b2 (zeroOffsets n) (szs x2) (unitStrides n)) (\<lambda>v2. wp (ret (v1, v2)) Q)))) t"
  proof (rule wp_minOFRs [OF growsD(2) [OF t(1)] d ft(1)])
    fix x1 u assume u: "grows t u" "idx_ofr u x1" "\<And>E. osem E u x1 = wrap 64 (min (osem E t (Val d)) (osem E t full))"
    have x1: "osem E u x1 = min (eval E t d []) (osem E s full)" for E
      using u(3) [of E] ft(2) osem_wrap [OF growsD(2) [OF t(1)] d] osem_wrap [OF wf f(1)] by (simp add: min_def)
    show "wp (subOFRs full x1) (\<lambda>x2.
      wp (createSubview b1 (zeroOffsets n) (szs x1) (unitStrides n)) (\<lambda>v1.
      wp (createSubview b2 (zeroOffsets n) (szs x2) (unitStrides n)) (\<lambda>v2. wp (ret (v1, v2)) Q))) u"
    proof (rule wp_subOFRs [OF growsD(2) [OF u(1)] idx_ofr_grows [OF u(1) ft(1)] u(2)])
      fix x2 w assume w: "grows u w" "idx_ofr w x2" "\<And>E. osem E w x2 = wrap 64 (osem E u full - osem E u x1)"
      note gw = grows_trans [OF grows_trans [OF t(1) u(1)] w(1)]
      have o: "idx_ofr w y" if "y \<in> set (zeroOffsets n) \<union> set (szs x) \<union> set (unitStrides n)" "x \<in> {x1, x2}" for x y
        using that sizes w(2) idx_ofr_grows [OF w(1) u(2)] idx_ofr_grows [OF gw f(2)]
        by (auto simp: zeroOffsets_def unitStrides_def)
      show "wp (createSubview b1 (zeroOffsets n) (szs x1) (unitStrides n)) (\<lambda>v1.
        wp (createSubview b2 (zeroOffsets n) (szs x2) (unitStrides n)) (\<lambda>v2. wp (ret (v1, v2)) Q)) w"
      proof (rule wp_createSubview [OF growsD(2) [OF gw] valid_grows [OF gw b(1)]])
        fix v1 y assume y: "grows w y" "valid y v1" "defOp y v1 = SubViewOp b1 (zeroOffsets n) (szs x1) (unitStrides n)"
        note gy = grows_trans [OF gw y(1)]
        show "wp (createSubview b2 (zeroOffsets n) (szs x2) (unitStrides n)) (\<lambda>v2. wp (ret (v1, v2)) Q) y"
        proof (rule wp_createSubview [OF growsD(2) [OF gy] valid_grows [OF gy b(2)]])
          fix v2 z assume z: "grows y z" "valid z v2" "defOp z v2 = SubViewOp b2 (zeroOffsets n) (szs x2) (unitStrides n)"
          note gtz = grows_trans [OF grows_trans [OF u(1) w(1)] grows_trans [OF y(1) z(1)]]
          note guz = grows_trans [OF w(1) grows_trans [OF y(1) z(1)]]
          have "osem E z x2 = wrap 64 (osem E s full - osem E z x1)" for E
            using w(3) osem_grows [OF grows_trans [OF y(1) z(1)] w(2)] osem_grows [OF guz u(2)]
              osem_grows [OF u(1) ft(1)] ft(2) by simp
          then have "Q (v1, v2) z"
            using z(3) defOp_grows [OF z(1) y(2)] y(3) defOp_grows [OF gtz t(2)] t(3) x1
              eval_grows [OF gtz t(2)] osem_grows [OF guz u(2)]
            by (intro post [OF grows_trans [OF gy z(1)], of d v1 x1 v2 x2]) simp_all
          then show "wp (ret (v1, v2)) Q z" by (simp add: wp_ret)
        qed (use o idx_ofr_grows [OF y(1)] tyOf_grows [OF gy b(2)] b(4) in auto)
      qed (use o tyOf_grows [OF gw b(1)] b(3) in auto)
    qed
  qed
qed (use b in simp_all)

text \<open>C25: a masked block that wraps around side by side is shared out between its two views: the first
  takes the minimum of the columns of the first block and of the mask, the second exactly the rest,
  never a negative number, and both take all the rows of the mask.\<close>

theorem getSideBySideSubviews_correct:
  assumes "wf_ir s" and "valid s b1" and "valid s b2" and "tyOf s b1 = MemRefTy sh1 e" and "tyOf s b2 = MemRefTy sh2 e"
    and "mdims st = [rows, cols]" and "idx_ofr s rows" and "idx_ofr s cols"
  shows "\<exists>v1 v2 t d x1 x2. getSideBySideSubviews st b1 b2 s = (Inr (v1, v2), t) \<and> grows s t \<and> defOp t d = DimOp b1 1 \<and>
    defOp t v1 = SubViewOp b1 (zeroOffsets 2) [rows, x1] (unitStrides 2) \<and>
    defOp t v2 = SubViewOp b2 (zeroOffsets 2) [rows, x2] (unitStrides 2) \<and>
    (\<forall>E. osem E t x1 = min (eval E t d []) (osem E s cols) \<and>
       (0 \<le> eval E t d [] \<longrightarrow> 0 \<le> osem E s cols \<longrightarrow>
          osem E t x1 + osem E t x2 = osem E s cols \<and> 0 \<le> osem E t x2))"
proof -
  have "wp (bindM (create (DimOp b1 1) IndexTy) (\<lambda>col. bindM (minOFRs (Val col) cols) (\<lambda>x1.
     bindM (subOFRs cols x1) (\<lambda>x2.
     bindM (createSubview b1 (zeroOffsets 2) [rows, x1] (unitStrides 2)) (\<lambda>v1.
     bindM (createSubview b2 (zeroOffsets 2) [rows, x2] (unitStrides 2)) (\<lambda>v2. ret (v1, v2))))))) (\<lambda>(v1, v2) t.
    \<exists>d x1 x2. grows s t \<and> defOp t d = DimOp b1 1 \<and>
    defOp t v1 = SubViewOp b1 (zeroOffsets 2) [rows, x1] (unitStrides 2) \<and>
    defOp t v2 = SubViewOp b2 (zeroOffsets 2) [rows, x2] (unitStrides 2) \<and>
    (\<forall>E. osem E t x1 = min (eval E t d []) (osem E s cols) \<and>
       osem E t x2 = wrap 64 (osem E s cols - osem E t x1))) s"
    by (rule wp_splitViews [OF assms(1-5,8,7), where szs = "\<lambda>x. [rows, x]"]) (auto intro!: exI)
  then have "wp (getSideBySideSubviews st b1 b2) (\<lambda>(v1, v2) t.
    \<exists>d x1 x2. grows s t \<and> defOp t d = DimOp b1 1 \<and>
    defOp t v1 = SubViewOp b1 (zeroOffsets 2) [rows, x1] (unitStrides 2) \<and>
    defOp t v2 = SubViewOp b2 (zeroOffsets 2) [rows, x2] (unitStrides 2) \<and>
    (\<forall>E. osem E t x1 = min (eval E t d []) (osem E s cols) \<and>
       osem E t x2 = wrap 64 (osem E s cols - osem E t x1))) s"
    using assms(6) by (simp add: getSideBySideSubviews_def maskRank_def numeral_2_eq_2)
  then show ?thesis using rest_of_min [OF assms(1,8)] unfolding wp_def by fastforce
qed

definition maskDemoSt :: mask_state where
  "maskDemoSt = emptyMask\<lparr>mdims := [getIndexAttr 2, getIndexAttr 3]\<rparr>"

theorem getSideBySideSubviews_correct_witness:
  "\<exists>v1 v2 t d x1 x2. getSideBySideSubviews maskDemoSt 6 7 maskDemo = (Inr (v1, v2), t) \<and> grows maskDemo t \<and>
    defOp t d = DimOp 6 1 \<and>
    defOp t v1 = SubViewOp 6 (zeroOffsets 2) [getIndexAttr 2, x1] (unitStrides 2) \<and>
    defOp t v2 = SubViewOp 7 (zeroOffsets 2) [getIndexAttr 2, x2] (unitStrides 2) \<and>
    (\<forall>E. osem E t x1 = min (eval E t d []) (osem E maskDemo (getIndexAttr 3)) \<and>
       (0 \<le> eval E t d [] \<longrightarrow> 0 \<le> osem E maskDemo (getIndexAttr 3) \<longrightarrow>
          osem E t x1 + osem E t x2 = osem E maskDemo (getIndexAttr 3) \<and> 0 \<le> osem E t x2))"
  by (rule getSideBySideSubviews_correct [OF maskDemo_wf]) (simp_all add: maskDemoSt_def)

text \<open>A masked block that wraps around from the bottom to the top is shared out between its two
  views in the same way along the rows.\<close>

theorem getStackedSubviews_correct:
  assumes "wf_ir s" and "valid s b1" and "valid s b2" and "tyOf s b1 = MemRefTy sh1 e" and "tyOf s b2 = MemRefTy sh2 e"
    and "mdims st = [rows, cols]" and "idx_ofr s rows" and "idx_ofr s cols"
  shows "\<exists>v1 v2 t d x1 x2. getStackedSubviews st b1 b2 s = (Inr (v1, v2), t) \<and> grows s t \<and> defOp t d = DimOp b1 0 \<and>
    defOp t v1 = SubViewOp b1 (zeroOffsets 2) [x1, cols] (unitStrides 2) \<and>
    defOp t v2 = SubViewOp b2 (zeroOffsets 2) [x2, cols] (unitStrides 2) \<and>
    (\<forall>E. osem E t x1 = min (eval E t d []) (osem E s rows) \<and>
       (0 \<le> eval E t d [] \<longrightarrow> 0 \<le> osem E s rows \<longrightarrow>
          osem E t x1 + osem E t x2 = osem E s rows \<and> 0 \<le> osem E t x2))"
proof -
  have "wp (bindM (create (DimOp b1 0) IndexTy) (\<lambda>row. bindM (minOFRs (Val row) rows) (\<lambda>x1.
     bindM (subOFRs rows x1) (\<lambda>x2.
     bindM (createSubview b1 (zeroOffsets 2) [x1, cols] (unitStrides 2)) (\<lambda>v1.
     bindM (createSubview b2 (zeroOffsets 2) [x2, cols] (unitStrides 2)) (\<lambda>v2. ret (v1, v2))))))) (\<lambda>(v1, v2) t.
    \<exists>d x1 x2. grows s t \<and> defOp t d = DimOp b1 0 \<and>
    defOp t v1 = SubViewOp b1 (zeroOffsets 2) [x1, cols] (unitStrides 2) \<and>
    defOp t v2 = SubViewOp b2 (zeroOffsets 2) [x2, cols] (unitStrides 2) \<and>
    (\<forall>E. osem E t x1 = min (eval E t d []) (osem E s rows) \<and>
       osem E t x2 = wrap 64 (osem E s rows - osem E t x1))) s"
    by (rule wp_splitViews [OF assms(1-5,7,8), where szs = "\<lambda>x. [x, cols]"]) (auto intro!: exI)
  then have "wp (getStackedSubviews st b1 b2) (\<lambda>(v1, v2) t.
    \<exists>d x1 x2. grows s t \<and> defOp t d = DimOp b1 0 \<and>
    defOp t v1 = SubViewOp b1 (zeroOffsets 2) [x1, cols] (unitStrides 2) \<and>
    defOp t v2 = SubViewOp b2 (zeroOffsets 2) [x2, cols] (unitStrides 2) \<and>
    (\<forall>E. osem E t x1 = min (eval E t d []) (osem E s rows) \<and>
       osem E t x2 = wrap 64 (osem E s rows - osem E t x1))) s"
    using assms(6) by (simp add: getStackedSubviews_def maskRank_def numeral_2_eq_2)
  then show ?thesis using rest_of_min [OF assms(1,7)] unfolding wp_def by fastforce
qed

theorem getStackedSubviews_correct_witness:
  "\<exists>v1 v2 t d x1 x2. getStackedSubviews maskDemoSt 6 7 maskDemo = (Inr (v1, v2), t) \<and> grows maskDemo t \<and>
    defOp t d = DimOp 6 0 \<and>
    defOp t v1 = SubViewOp 6 (zeroOffsets 2) [x1, getIndexAttr 3] (unitStrides 2) \<and>
    defOp t v2 = SubViewOp 7 (zeroOffsets 2) [x2, getIndexAttr 3] (unitStrides 2) \<and>
    (\<forall>E. osem E t x1 = min (eval E t d []) (osem E maskDemo (getIndexAttr 2)) \<and>
       (0 \<le> eval E t d [] \<longrightarrow> 0 \<le> osem E maskDemo (getIndexAttr 2) \<longrightarrow>
          osem E t x1 + osem E t x2 = osem E maskDemo (getIndexAttr 2) \<and> 0 \<le> osem E t x2))"
  by (rule getStackedSubviews_correct [OF maskDemo_wf]) (simp_all add: maskDemoSt_def)

section \<open>Masks of one element\<close>

text \<open>
  \<open>oneDemo\<close> compares the one-element range \<open>[0]\<close> with \<open>n = 0\<close>: the element is masked off, and the
  parsed mask lets it through.  The dimension that is compared is looked for among those whose size
  is not 1, so the new size is computed and then dropped.
\<close>

definition oneDemo :: ir where
  "oneDemo = \<lparr>ops = [
     (BlockArg None, IntTy 32),
     (MakeRangeOp 0 1, TensorTy [1] (IntTy 32)),
     (SplatOp 0, TensorTy [1] (IntTy 32)),
     (CmpIOp Slt 1 2, TensorTy [1] (IntTy 1))], fors = []\<rparr>"

theorem parseMask_drops_size_one:
  "eval (\<lambda>_ _. 0) oneDemo 3 [0] = 0 \<and>
   map_sum id mdims (fst (parseMask 3 oneDemo)) = Inr [getIndexAttr 1]"
  by code_simp

end
