(* ===== verification/Structured_Ops.thy ===== *)
theory Structured_Ops
  imports Mask
begin

text \<open>
  \<open>lib/Dialect/TritonStructured/IR/TritonStructuredOps.cpp\<close>: reading a scalar out of a tensor that
  repeats it, casting it to the type a load or store needs, the result types the builders of the
  dialect infer, and how many offsets and strides \<open>tts.get_structured_state\<close> returns for a type.
\<close>

section \<open>Scalars\<close>

text \<open>
  The casts passed on the way to the scalar, innermost first, are created again on the scalar, each
  with the element type of its result.
\<close>

fun reconstructScalarValue :: "(castop \<times> ty) list \<Rightarrow> val \<Rightarrow> val irm" where
  "reconstructScalarValue [] src = ret src"
| "reconstructScalarValue ((k, t) # casts) src =
     bindM (create (CastOp k src) (elemTy t)) (reconstructScalarValue casts)"

definition isTransparentCast :: "castop \<Rightarrow> bool" where
  "isTransparentCast k \<longleftrightarrow> k \<in> {SIToFP, TruncF, ExtSI, ExtUI, TruncI}"

text \<open>
  A null result is \<open>None\<close>.  A shaped constant that is not a \<open>DenseElementsAttr\<close> matches the branch of
  the constants, which then neither returns nor moves on.
\<close>

function getScalarFrom :: "(castop \<times> ty) list \<Rightarrow> val \<Rightarrow> val option irm" where
  "getScalarFrom casts v =
     bindM (getM (\<lambda>s. (tyOf s v, defOp s v))) (\<lambda>(t, d).
     let below = (\<lambda>cs u. if u < v then getScalarFrom cs u else raise Abort);
         finish = (\<lambda>u. bindM (reconstructScalarValue casts u) (\<lambda>r. ret (Some r)))
     in
     if \<not> isShaped t then finish v
     else (case d of
         ConstantOp a \<Rightarrow> (case a of
             DenseElementsAttr None et \<Rightarrow> ret None
           | DenseElementsAttr (Some e) et \<Rightarrow> bindM (create (ConstantOp e) et) finish
           | _ \<Rightarrow> raise Hang)
       | SplatOp a \<Rightarrow> below casts a
       | CastOp k a \<Rightarrow> if isTransparentCast k then below ((k, t) # casts) a else ret None
       | _ \<Rightarrow> ret None))"
  by pat_completeness auto
termination
  by (relation "measure snd") auto

declare getScalarFrom.simps [simp del]

definition getScalarValue :: "val \<Rightarrow> val option irm" where
  "getScalarValue v = getScalarFrom [] v"

fun isFloatTy :: "ty \<Rightarrow> bool" where
  "isFloatTy (FloatTy _) = True"
| "isFloatTy _ = False"

fun floatWidth :: "ty \<Rightarrow> nat" where
  "floatWidth (FloatTy w) = w"
| "floatWidth _ = 0"

definition castScalarToType :: "val \<Rightarrow> ty \<Rightarrow> val irm" where
  "castScalarToType scalar targetType =
     bindM (getM (\<lambda>s. tyOf s scalar)) (\<lambda>srcType.
     if srcType = targetType then ret scalar
     else if isIntTy srcType \<and> isIntTy targetType then
       (if width srcType = width targetType then ret scalar
        else if width srcType < width targetType then create (CastOp ExtUI scalar) targetType
        else create (CastOp TruncI scalar) targetType)
     else if isFloatTy srcType \<and> isFloatTy targetType then
       (if floatWidth srcType = floatWidth targetType then ret scalar
        else if floatWidth srcType < floatWidth targetType then create (CastOp ExtF scalar) targetType
        else create (CastOp TruncF scalar) targetType)
     else if isIntTy srcType \<and> isFloatTy targetType then create (CastOp SIToFP scalar) targetType
     else if isFloatTy srcType \<and> isIntTy targetType then create (CastOp FPToSI scalar) targetType
     else ret scalar)"

section \<open>The types the builders infer\<close>

text \<open>\<open>LoadOp::build\<close>: a scalar pointer gives a tensor whose shape is the static part of the dims.\<close>

definition loadResultType :: "ty \<Rightarrow> ofr list \<Rightarrow> ty irm" where
  "loadResultType ptrTy dims = (case ptrTy of
     TensorTy sh e \<Rightarrow> castM (case e of PtrTy p \<Rightarrow> Some (TensorTy sh p) | _ \<Rightarrow> None)
   | PtrTy p \<Rightarrow> ret (if isShaped p then TensorTy (shapeOf p) (elemTy p) else TensorTy (map staticDim dims) p)
   | _ \<Rightarrow> raise Abort)"

definition createTTSLoad :: "val \<Rightarrow> ofr list \<Rightarrow> val option \<Rightarrow> int list \<Rightarrow> nat option \<Rightarrow> val irm" where
  "createTTSLoad ptr dims other boundaryCheck padding =
     bindM (getM (\<lambda>s. tyOf s ptr)) (\<lambda>pt.
     bindM (loadResultType pt dims) (\<lambda>t. create (TTSLoadOp ptr dims other boundaryCheck padding) t))"

definition createTTSStore :: "val \<Rightarrow> val \<Rightarrow> ofr list \<Rightarrow> int list \<Rightarrow> val irm" where
  "createTTSStore ptr v dims boundaryCheck = create (TTSStoreOp ptr v dims boundaryCheck) NoneTy"

section \<open>The segments of \<open>tts.get_structured_state\<close>\<close>

text \<open>The numbers of offsets, original offsets and strides; no result is a type that is not supported.\<close>

definition getOffsetAndStrideSegmentSizes :: "ty \<Rightarrow> (nat \<times> nat \<times> nat) option" where
  "getOffsetAndStrideSegmentSizes t = (case t of
     TensorTy sh e \<Rightarrow> Some (if isIntOrIndex e \<or> isPtrTy e then (length sh, length sh, length sh) else (0, 0, 0))
   | PtrTy p \<Rightarrow> (case p of
       TensorTy sh _ \<Rightarrow> Some (length sh, length sh, length sh)
     | _ \<Rightarrow> Some (1, 1, 0))
   | _ \<Rightarrow> None)"

definition getOffsetAndStrideTypes :: "ty \<Rightarrow> (ty list \<times> ty list \<times> ty list) option" where
  "getOffsetAndStrideTypes t = (case getOffsetAndStrideSegmentSizes t of
     None \<Rightarrow> None
   | Some (a, b, c) \<Rightarrow> Some (replicate a IndexTy, replicate b IndexTy, replicate c IndexTy))"

text \<open>The verifier compares offsets and strides, and not the original offsets.\<close>

definition verifyGetStructuredState :: "ty \<Rightarrow> ty list \<Rightarrow> ty list \<Rightarrow> ty list \<Rightarrow> bool" where
  "verifyGetStructuredState inputTy offsetTys origiTys strideTys = (case getOffsetAndStrideTypes inputTy of
     None \<Rightarrow> False
   | Some (a, b, c) \<Rightarrow> a = offsetTys \<and> c = strideTys)"

definition buildGetStructuredState :: "ty \<Rightarrow> ty list \<times> ty list \<times> ty list" where
  "buildGetStructuredState t = (case getOffsetAndStrideTypes t of None \<Rightarrow> ([], [], []) | Some x \<Rightarrow> x)"

end
