(* ===== verification/LoadStore.thy ===== *)
theory LoadStore
  imports Rewrite Structured_Ops
begin

text \<open>
  \<open>PtrAnalysis::rewriteLoadOp\<close> and \<open>rewriteStoreOp\<close>: a load or store through a pointer that has
  been rewritten becomes a \<open>tts.load\<close> or \<open>tts.store\<close> with the sizes of its mask.  The value that
  replaces a load is returned; the uses are replaced by the caller.  The attributes for the boundary
  check and the padding are copied.
\<close>

section \<open>Operands\<close>

definition isScalarPtr :: "ty \<Rightarrow> bool" where
  "isScalarPtr t = (case t of PtrTy p \<Rightarrow> \<not> isShaped p | _ \<Rightarrow> False)"

text \<open>The sizes of the mask.  A scalar mask is a predicate, which \<open>tts.load\<close> cannot express.\<close>

definition maskDimsOf :: "val option \<Rightarrow> ofr list irm" where
  "maskDimsOf msk = (case msk of
     None \<Rightarrow> ret []
   | Some m \<Rightarrow>
       bindM (getM (\<lambda>s. isShaped (tyOf s m))) (\<lambda>b. thenM (requireM b)
       (bindM (parseMask m) (\<lambda>st. ret (mdims st)))))"

text \<open>A scalar for a tensor of one repeated value, or the element of a tensor of one element.\<close>

definition scalarOrElement :: "val \<Rightarrow> val irm" where
  "scalarOrElement v = bindM (getScalarValue v) (\<lambda>r. case r of
     Some x \<Rightarrow> ret x
   | None \<Rightarrow> bindM (getM (\<lambda>s. tyOf s v)) (\<lambda>t.
       if isTensor t \<and> shapeOf t = [1] then
         bindM (createIndexConst 0) (\<lambda>zero. create (ExtractOp v [zero]) (elemTy t))
       else raise Failure))"

definition loadOther :: "val option \<Rightarrow> val option \<Rightarrow> ty \<Rightarrow> val option irm" where
  "loadOther msk other resultTy = (case other of
     None \<Rightarrow> ret None
   | Some o' \<Rightarrow>
       thenM (assertM (msk \<noteq> None))
       (bindM (scalarOrElement o') (\<lambda>x.
        bindM (castScalarToType x (if isTensor resultTy then elemTy resultTy else resultTy)) (\<lambda>y. ret (Some y)))))"

section \<open>The result of a load\<close>

text \<open>
  \<open>tensor.expand_shape\<close> from the shape that was loaded to the original one.  A loaded dimension
  takes original dimensions until their product reaches its size; \<open>growGroup\<close> is that inner loop,
  from dimension \<open>i\<close> with the product so far, and returns the group, the next dimension and the
  product.
\<close>

function growGroup :: "int list \<Rightarrow> nat \<Rightarrow> int \<Rightarrow> int \<Rightarrow> nat list \<times> nat \<times> int" where
  "growGroup origShape i p target = (
     if i < length origShape \<and> p < target then
       (let (group, j, q) = growGroup origShape (Suc i) (p * origShape ! i) target in (i # group, j, q))
     else ([], i, p))"
  by pat_completeness auto
termination
  by (relation "measure (\<lambda>(sh, i, p, t). length sh - i)") auto

declare growGroup.simps [simp del]

fun reassociate :: "int list \<Rightarrow> int list \<Rightarrow> nat \<Rightarrow> nat list list" where
  "reassociate origShape [] i = []"
| "reassociate origShape (target # rest) i =
     (let (g0, j0, p) = growGroup origShape i 1 target;
          more = (p \<noteq> target \<and> j0 < length origShape);
          g1 = (if more then g0 @ [j0] else g0);
          j1 = (if more then Suc j0 else j0);
          g2 = (if rest = [] then g1 @ [j1..<length origShape] else g1);
          j2 = (if rest = [] then max j1 (length origShape) else j1);
          g3 = (if g2 = [] then [j2 - 1] else g2)
      in g3 # reassociate origShape rest j2)"

definition allOnes :: "int list \<Rightarrow> bool" where
  "allOnes sh \<longleftrightarrow> (\<forall>n \<in> set sh. n = 1)"

definition bridgeScalarResult :: "val \<Rightarrow> ty \<Rightarrow> ty \<Rightarrow> val irm" where
  "bridgeScalarResult r loadTy origTy =
     bindM (createIndexConst 0) (\<lambda>zero.
     bindM (create (ExtractOp r [zero]) (elemTy loadTy)) (\<lambda>x.
     if elemTy loadTy \<noteq> origTy \<and> isIntTy origTy \<and> isIntTy (elemTy loadTy) then
       (if width origTy > width (elemTy loadTy) then create (CastOp ExtSI x) origTy
        else create (CastOp TruncI x) origTy)
     else ret x))"

definition bridgeTensorResult :: "val \<Rightarrow> ty \<Rightarrow> ty \<Rightarrow> val irm" where
  "bridgeTensorResult r loadTy origTy = (
     if elemTy origTy = elemTy loadTy \<and> allOnes (shapeOf loadTy) \<and> \<not> allOnes (shapeOf origTy) then
       bindM (createIndexConst 0) (\<lambda>zero.
       bindM (create (ExtractOp r (replicate (length (shapeOf loadTy)) zero)) (elemTy loadTy)) (\<lambda>x.
       create (TensorSplatOp x) origTy))
     else if length (shapeOf origTy) > length (shapeOf loadTy) \<and> elemTy origTy = elemTy loadTy then
       create (ExpandShapeOp r (reassociate (shapeOf origTy) (shapeOf loadTy) 0)) origTy
     else if shapeOf origTy = shapeOf loadTy \<and> isIntTy (elemTy origTy) \<and> isIntTy (elemTy loadTy) then
       (if width origTy > width loadTy then create (CastOp ExtUI r) origTy
        else create (CastOp TruncI r) origTy)
     else ret r)"

definition bridgeLoadResult :: "val \<Rightarrow> ty \<Rightarrow> val irm" where
  "bridgeLoadResult r origTy =
     bindM (getM (\<lambda>s. tyOf s r)) (\<lambda>loadTy.
     if loadTy = origTy then ret r
     else if \<not> isTensor origTy \<and> isTensor loadTy \<and> shapeOf loadTy = [1] then bridgeScalarResult r loadTy origTy
     else if isTensor origTy \<and> isTensor loadTy then bridgeTensorResult r loadTy origTy
     else ret r)"

section \<open>Loads and stores\<close>

definition rewriteLoadOp :: "ptr_analysis \<Rightarrow> val \<Rightarrow> val irm" where
  "rewriteLoadOp pa v =
     bindM (getM (\<lambda>s. (defOp s v, tyOf s v))) (\<lambda>(d, resultTy).
     bindM (castM (case d of LoadOp p m o' bc pad \<Rightarrow> Some (p, m, o', bc, pad) | _ \<Rightarrow> None)) (\<lambda>(p, msk, other, bc, pad).
     case ptrMap pa p of
       None \<Rightarrow> raise Failure
     | Some ptr \<Rightarrow>
         bindM (maskDimsOf msk) (\<lambda>dims.
         bindM (loadOther msk other resultTy) (\<lambda>scalarOther.
         bindM (getM (\<lambda>s. isScalarPtr (tyOf s ptr))) (\<lambda>scalarPtr.
         bindM (createTTSLoad ptr (if scalarPtr then [getIndexAttr 1] else dims) scalarOther bc pad) (\<lambda>r.
         bridgeLoadResult r resultTy))))))"

text \<open>The pointee of the rewritten pointer, where the code determines it.\<close>

definition storePointee :: "ty \<Rightarrow> ty option" where
  "storePointee t = (case t of PtrTy p \<Rightarrow> Some p | TensorTy _ (PtrTy p) \<Rightarrow> Some p | _ \<Rightarrow> None)"

definition bridgeStoreValue :: "val \<Rightarrow> ty \<Rightarrow> val irm" where
  "bridgeStoreValue x ptrTy =
     bindM (getM (\<lambda>s. tyOf s x)) (\<lambda>t.
     case storePointee ptrTy of
       Some p \<Rightarrow>
         if isTensor t \<and> p \<noteq> elemTy t \<and> isIntTy p \<and> isIntTy (elemTy t) then
           create (CastOp (if width p < width (elemTy t) then TruncI else ExtUI) x) (TensorTy (shapeOf t) p)
         else ret x
     | None \<Rightarrow> ret x)"

definition rewriteStoreOp :: "ptr_analysis \<Rightarrow> val \<Rightarrow> val irm" where
  "rewriteStoreOp pa v =
     bindM (getM (\<lambda>s. defOp s v)) (\<lambda>d.
     bindM (castM (case d of StoreOp p x m bc \<Rightarrow> Some (p, x, m, bc) | _ \<Rightarrow> None)) (\<lambda>(p, x, msk, bc).
     case ptrMap pa p of
       None \<Rightarrow> raise Failure
     | Some ptr \<Rightarrow>
         bindM (maskDimsOf msk) (\<lambda>dims.
         bindM (getM (\<lambda>s. tyOf s ptr)) (\<lambda>ptrTy.
         if isScalarPtr ptrTy then
           bindM (scalarOrElement x) (\<lambda>sv.
           bindM (castM (storePointee ptrTy)) (\<lambda>targetTy.
           bindM (castScalarToType sv targetTy) (\<lambda>sv'.
           bindM (create (FromElementsOp [sv']) (TensorTy [] targetTy)) (\<lambda>t.
           createTTSStore ptr t dims bc))))
         else bindM (bridgeStoreValue x ptrTy) (\<lambda>sv. createTTSStore ptr sv dims bc)))))"

end
