(* ===== verification/LoadStore_Sound.thy ===== *)
theory LoadStore_Sound
  imports LoadStore Mask_Main Rewrite_Sound
begin

text \<open>
  The correctness of the rewriting of loads and stores: the scalar read out of a tensor is its every
  element, the reassociation of \<open>tensor.expand_shape\<close> is a partition into groups with the loaded
  sizes, and the emitted \<open>tts.load\<close> or \<open>tts.store\<close> touches the addresses of the original one.
\<close>

section \<open>Scalars\<close>

text \<open>What a chain of casts, innermost first, makes of an integer of width \<open>w\<close>.\<close>

fun castChain :: "(castop \<times> ty) list \<Rightarrow> nat \<Rightarrow> int \<Rightarrow> int" where
  "castChain [] w x = x"
| "castChain ((k, t) # cs) w x = castChain cs (width t) (norm (elemTy t) (castSem k w x))"

fun castType :: "(castop \<times> ty) list \<Rightarrow> ty \<Rightarrow> ty" where
  "castType [] t = t"
| "castType ((k, t') # cs) t = castType cs (elemTy t')"

lemma width_elemTy [simp]: "width (elemTy t) = width t"
  by (cases t) simp_all

lemma isFloatLike_elemTy [simp]: "isFloatLike (elemTy t) = isFloatLike t"
  by (cases t) simp_all

lemma elemTy_idem_int: "isIntTy (elemTy t) \<Longrightarrow> elemTy (elemTy t) = elemTy t \<and> \<not> isFloatLike (elemTy t)"
  by (cases t; cases "elemTy t") auto

lemma wp_reconstructScalarValue:
  assumes "wf_ir s" "valid s src" "\<not> isFloatLike (tyOf s src)" "\<forall>(k, t) \<in> set cs. \<not> isFloatLike t"
    and "\<And>r t. grows s t \<Longrightarrow> valid t r \<Longrightarrow> tyOf t r = castType cs (tyOf s src) \<Longrightarrow>
      (\<And>E. eval E t r [] = castChain cs (width (tyOf s src)) (eval E s src [])) \<Longrightarrow> Q r t"
  shows "wp (reconstructScalarValue cs src) Q s"
  using assms
proof (induction cs arbitrary: src s)
  case Nil
  then show ?case by (simp add: wp_ret)
next
  case (Cons c cs)
  obtain k ty where c: "c = (k, ty)" by fastforce
  have "wp (create (CastOp k src) (elemTy ty)) (\<lambda>u. wp (reconstructScalarValue cs u) Q) s"
  proof (rule wp_create [OF Cons.prems(1)])
    fix u t assume u: "grows s t" "valid t u" "tyOf t u = elemTy ty"
      "\<And>E idx. eval E t u idx = norm (elemTy ty) (denOp E (tyOf s) (eval E s) u (CastOp k src) (elemTy ty) idx)"
    have nf: "\<not> isFloatLike (elemTy ty)" using Cons.prems(4) c by simp
    show "wp (reconstructScalarValue cs u) Q t"
    proof (rule Cons.IH [OF growsD(2) [OF u(1)] u(2)])
      fix r w assume r: "grows t w" "valid w r" "tyOf w r = castType cs (tyOf t u)"
        "\<And>E. eval E w r [] = castChain cs (width (tyOf t u)) (eval E t u [])"
      then show "Q r w"
        using u nf Cons.prems(3) c
        by (intro Cons.prems(5) grows_trans [OF u(1)]) (simp_all add: denOp_def)
    qed (use u nf Cons.prems(4) in auto)
  qed (use Cons.prems in auto)
  then show ?case by (simp add: c wp_simps)
qed

text \<open>The integer tensors whose scalar is found.\<close>

inductive scalarTerm :: "ir \<Rightarrow> val \<Rightarrow> bool" for s where
  scal: "valid s v \<Longrightarrow> isIntOrIndex (tyOf s v) \<Longrightarrow> scalarTerm s v"
| splat: "valid s v \<Longrightarrow> defOp s v = SplatOp a \<Longrightarrow> tyOf s v = TensorTy sh (tyOf s a) \<Longrightarrow> isIntOrIndex (tyOf s a) \<Longrightarrow>
    scalarTerm s a \<Longrightarrow> scalarTerm s v"
| const: "valid s v \<Longrightarrow> defOp s v = ConstantOp (DenseElementsAttr (Some (IntegerAttr n t)) t) \<Longrightarrow> tyOf s v = TensorTy sh t \<Longrightarrow>
    isIntOrIndex t \<Longrightarrow> norm t n = n \<Longrightarrow> scalarTerm s v"
| cast: "valid s v \<Longrightarrow> defOp s v = CastOp k a \<Longrightarrow> k \<in> {ExtSI, ExtUI, TruncI} \<Longrightarrow> tyOf s v = TensorTy sh (IntTy n) \<Longrightarrow>
    tyOf s a = TensorTy sh (IntTy m) \<Longrightarrow> scalarTerm s a \<Longrightarrow> scalarTerm s v"

lemma isIntOrIndex_facts: "isIntOrIndex t \<Longrightarrow> \<not> isFloatLike t \<and> \<not> isShaped t \<and> elemTy t = t \<and> shapeOf t = []"
  by (cases t) simp_all

lemma getScalarFrom_correct:
  assumes wf: "wf_ir s" and v: "scalarTerm s v" and g: "grows s s1" and cs: "\<forall>(k, t) \<in> set cs. \<not> isFloatLike t"
    and post: "\<And>r t. grows s1 t \<Longrightarrow> valid t r \<Longrightarrow> tyOf t r = castType cs (elemTy (tyOf s v)) \<Longrightarrow>
      (\<And>E idx. inB (shapeOf (tyOf s v)) idx \<Longrightarrow> eval E t r [] = castChain cs (width (tyOf s v)) (eval E s v idx)) \<Longrightarrow>
      Q (Some r) t"
  shows "wp (getScalarFrom cs v) Q s1"
  using v g cs post
proof (induction arbitrary: cs Q rule: scalarTerm.induct)
  case (scal v)
  note f = isIntOrIndex_facts [OF scal(2)]
  note g1 = tyOf_grows [OF scal.prems(1) scal(1)] eval_grows [OF scal.prems(1) scal(1)]
  have "wp (reconstructScalarValue cs v) (\<lambda>r. Q (Some r)) s1"
    by (rule wp_reconstructScalarValue [OF growsD(2) [OF scal.prems(1)] valid_grows [OF scal.prems(1) scal(1)] _ scal.prems(2)])
      (use f g1 scal.prems(3) in simp_all)
  then show ?case using f g1 by (subst getScalarFrom.simps) (simp add: wp_simps)
next
  case (splat v a sh)
  have a: "a < v" "valid s a" using wf_ir_operand [OF wf splat(1), of a] wf_operand_valid [OF wf splat(1), of a] splat(2) by auto
  note f = isIntOrIndex_facts [OF splat(4)]
  note g1 = tyOf_grows [OF splat.prems(1) splat(1)] defOp_grows [OF splat.prems(1) splat(1)]
  have "eval E s v idx = eval E s a []" for E idx
    using eval_unfold [OF wf splat(1), of E] eval_norm [OF wf a(2), of E "[]"] splat(2,3) f by (simp add: denOp_def norm_def)
  then have "wp (getScalarFrom cs a) Q s1"
    using splat f by (intro splat.IH) simp_all
  then show ?case using g1 splat(2,3) a by (subst getScalarFrom.simps) (simp add: wp_simps)
next
  case (const v n t sh)
  note f = isIntOrIndex_facts [OF const(4)]
  note g1 = tyOf_grows [OF const.prems(1) const(1)] defOp_grows [OF const.prems(1) const(1)]
  have e: "eval E s v idx = n" for E idx
    using eval_unfold [OF wf const(1), of E] const(2,3,5) f by (simp add: denOp_def norm_def)
  have "wp (create (ConstantOp (IntegerAttr n t)) t) (\<lambda>c. wp (reconstructScalarValue cs c) (\<lambda>r. Q (Some r))) s1"
  proof (rule wp_create [OF growsD(2) [OF const.prems(1)]])
    fix c u assume c: "grows s1 u" "valid u c" "tyOf u c = t"
      "\<And>E idx. eval E u c idx = norm t (denOp E (tyOf s1) (eval E s1) c (ConstantOp (IntegerAttr n t)) t idx)"
    have ec: "eval E u c idx = n" for E idx using c(4) f const(5) by (simp add: denOp_def)
    show "wp (reconstructScalarValue cs c) (\<lambda>r. Q (Some r)) u"
      by (rule wp_reconstructScalarValue [OF growsD(2) [OF c(1)] c(2) _ const.prems(2)])
        (use c(1,3) ec e f const(3) in \<open>auto intro!: const.prems(3) dest: grows_trans [OF c(1)]\<close>)
  qed (use f const(4,5) in simp_all)
  then show ?case using g1 const(2,3) by (subst getScalarFrom.simps) (simp add: wp_simps)
next
  case (cast v k a sh n m)
  have a: "a < v" "valid s a" using wf_ir_operand [OF wf cast(1), of a] wf_operand_valid [OF wf cast(1), of a] cast(2) by auto
  note g1 = tyOf_grows [OF cast.prems(1) cast(1)] defOp_grows [OF cast.prems(1) cast(1)]
  have e: "eval E s v idx = norm (IntTy n) (castSem k m (eval E s a idx))" for E idx
    using eval_unfold [OF wf cast(1), of E] cast(2,4,5) by (simp add: denOp_def norm_def)
  have "wp (getScalarFrom ((k, tyOf s v) # cs) a) Q s1"
    by (rule cast.IH [OF cast.prems(1)]) (use cast(4,5) cast.prems(2) e in \<open>auto intro!: cast.prems(3)\<close>)
  moreover have "isTransparentCast k" using cast(3) by (auto simp: isTransparentCast_def)
  ultimately show ?case using g1 cast(2,4) a by (subst getScalarFrom.simps) (simp add: wp_simps)
qed

lemma wp_scalarOrElement:
  assumes "wf_ir s" "scalarTerm s v" "grows s s1"
    and "\<And>r t. grows s1 t \<Longrightarrow> valid t r \<Longrightarrow> tyOf t r = elemTy (tyOf s v) \<Longrightarrow>
      (\<And>E idx. inB (shapeOf (tyOf s v)) idx \<Longrightarrow> eval E t r [] = eval E s v idx) \<Longrightarrow> Q r t"
  shows "wp (scalarOrElement v) Q s1"
  unfolding scalarOrElement_def getScalarValue_def wp_bindM
  by (rule getScalarFrom_correct [OF assms(1-3)]) (use assms(4) in \<open>simp_all add: wp_ret\<close>)

section \<open>Reassociation\<close>

text \<open>The groups cover the original dimensions in order, and each has the product of its loaded size.\<close>

definition groupProduct :: "int list \<Rightarrow> nat list \<Rightarrow> int" where
  "groupProduct sh g = prod_list (map ((!) sh) g)"

definition isReassociation :: "int list \<Rightarrow> int list \<Rightarrow> nat list list \<Rightarrow> bool" where
  "isReassociation sh lsh gs \<longleftrightarrow> concat gs = [0..<length sh] \<and> map (groupProduct sh) gs = lsh \<and> [] \<notin> set gs"

lemma growGroup_units:
  assumes "i \<le> k" "k < length sh" "\<forall>m. i \<le> m \<longrightarrow> m < k \<longrightarrow> sh ! m = 1" "sh ! k = target" "1 < target"
  shows "growGroup sh i 1 target = ([i..<Suc k], Suc k, target)"
  using assms
proof (induction "k - i" arbitrary: i)
  case 0
  then have "i = k" by simp
  then show ?case using 0 by (subst growGroup.simps, subst growGroup.simps) simp
next
  case (Suc n)
  then have "sh ! i = 1" "i < k" by simp_all
  moreover have "growGroup sh (Suc i) 1 target = ([Suc i..<Suc k], Suc k, target)"
    using Suc by (intro Suc.hyps(1)) simp_all
  ultimately show ?case using Suc.prems by (subst growGroup.simps) (simp add: upt_conv_Cons)
qed

lemma groupProduct_ones: "\<forall>m \<in> set g. sh ! m = 1 \<Longrightarrow> groupProduct sh g = 1"
  by (induction g) (simp_all add: groupProduct_def)

lemma groupProduct_append: "groupProduct sh (g @ h) = groupProduct sh g * groupProduct sh h"
  by (simp add: groupProduct_def)

lemma reassociate_from:
  assumes "filter (\<lambda>n. n \<noteq> 1) (drop i sh) = lsh" "lsh \<noteq> []" "\<forall>n \<in> set sh. 0 < n" "i \<le> length sh"
  shows "concat (reassociate sh lsh i) = [i..<length sh] \<and> map (groupProduct sh) (reassociate sh lsh i) = lsh \<and>
    [] \<notin> set (reassociate sh lsh i)"
  using assms
proof (induction lsh arbitrary: i)
  case Nil
  then show ?case by simp
next
  case (Cons target rest)
  then obtain us vs where d: "drop i sh = us @ target # vs" and us: "\<forall>u \<in> set us. u = 1" and t1: "target \<noteq> 1"
    and rest: "filter (\<lambda>n. n \<noteq> 1) vs = rest"
    by (auto simp: filter_eq_Cons_iff)
  define k where "k = i + length us"
  have lk: "k < length sh" "length sh = k + 1 + length vs"
    using arg_cong [OF d, of length] Cons.prems(4) by (simp_all add: k_def)
  have nth: "sh ! (i + m) = (us @ target # vs) ! m" if "i + m < length sh" for m
    using that d Cons.prems(4) by (metis nth_drop)
  have k: "sh ! k = target" using nth [of "length us"] lk by (simp add: k_def)
  have units: "sh ! m = 1" if "i \<le> m" "m < k" for m
    using that nth [of "m - i"] us lk nth_mem [of "m - i" us] by (simp add: k_def nth_append)
  have "0 < target" using k lk Cons.prems(3) nth_mem [OF lk(1)] by auto
  with t1 have t: "1 < target" by simp
  have ik: "i \<le> k" by (simp add: k_def)
  have g: "growGroup sh i 1 target = ([i..<Suc k], Suc k, target)"
    using growGroup_units [OF ik lk(1)] units k t by blast
  have prod: "groupProduct sh [i..<Suc k] = target"
    using groupProduct_ones [of "[i..<k]" sh] units k ik by (simp add: groupProduct_append) (simp add: groupProduct_def)
  have drop: "drop (Suc k) sh = vs"
  proof -
    have "drop (Suc k) sh = drop (Suc (length us)) (drop i sh)" by (simp add: k_def add.commute)
    then show ?thesis using d by simp
  qed
  show ?case
  proof (cases "rest = []")
    case True
    have "vs ! m = 1" if "m < length vs" for m
      using rest True that nth_mem [OF that] by (auto simp: filter_empty_conv)
    then have "sh ! m = 1" if "Suc k \<le> m" "m < length sh" for m
      using that drop lk nth_drop [of "Suc k" sh "m - Suc k"] by simp
    then have "groupProduct sh ([i..<Suc k] @ [Suc k..<length sh]) = target"
      using prod groupProduct_ones [of "[Suc k..<length sh]" sh] by (simp add: groupProduct_append)
    moreover have "[i..<Suc k] @ [Suc k..<length sh] = [i..<length sh]"
      using ik lk(1) upt_append [of i "Suc k" "length sh"] by simp
    moreover have "[] \<noteq> [i..<length sh]" using ik lk(1) upt_eq_Nil_conv [of i "length sh"] by (metis leD le_less_trans not_less_zero)
    ultimately show ?thesis using True g ik lk(1) by simp
  next
    case False
    have ih: "concat (reassociate sh rest (Suc k)) = [Suc k..<length sh] \<and>
        map (groupProduct sh) (reassociate sh rest (Suc k)) = rest \<and> [] \<notin> set (reassociate sh rest (Suc k))"
      by (rule Cons.IH) (use False rest drop lk Cons.prems(3) in simp_all)
    have "[i..<Suc k] @ [Suc k..<length sh] = [i..<length sh]"
      using ik lk(1) upt_append [of i "Suc k" "length sh"] by simp
    then show ?thesis using False g prod ih ik by simp
  qed
qed

section \<open>What a load reads and a store writes\<close>

text \<open>
  The elements a load or store touches, against a memory \<open>mem\<close> from addresses to elements; \<open>junk\<close>
  is what a masked-off element of a load without \<open>other\<close> holds, which the language leaves open.
\<close>

definition activeAt :: "env \<Rightarrow> ir \<Rightarrow> val option \<Rightarrow> int list \<Rightarrow> bool" where
  "activeAt E s m idx = (case m of None \<Rightarrow> True | Some x \<Rightarrow> eval E s x idx \<noteq> 0)"

definition loadSem :: "(int \<Rightarrow> int) \<Rightarrow> (int list \<Rightarrow> int) \<Rightarrow> env \<Rightarrow> ir \<Rightarrow> opr \<Rightarrow> int list \<Rightarrow> int" where
  "loadSem mem junk E s opn idx = (case opn of
     LoadOp p m oth _ _ \<Rightarrow>
       if activeAt E s m idx then mem (eval E s p idx)
       else (case oth of None \<Rightarrow> junk idx | Some x \<Rightarrow> eval E s x idx)
   | TTSLoadOp p dims oth _ _ \<Rightarrow>
       if dims = [] \<or> inMask E s dims idx then mem (eval E s p idx)
       else (case oth of None \<Rightarrow> junk idx | Some x \<Rightarrow> eval E s x [])
   | _ \<Rightarrow> junk idx)"

definition storeSem :: "env \<Rightarrow> ir \<Rightarrow> opr \<Rightarrow> int list \<Rightarrow> (int \<times> int) option" where
  "storeSem E s opn idx = (case opn of
     StoreOp p x m _ \<Rightarrow> if activeAt E s m idx then Some (eval E s p idx, eval E s x idx) else None
   | TTSStoreOp p x dims _ \<Rightarrow>
       if dims = [] \<or> inMask E s dims idx then Some (eval E s p idx, eval E s x idx) else None
   | _ \<Rightarrow> None)"

text \<open>A mask that is absent, or a mask term of the shape of the access.\<close>

definition maskOk :: "env \<Rightarrow> ir \<Rightarrow> int list \<Rightarrow> val option \<Rightarrow> bool" where
  "maskOk E s sh msk \<longleftrightarrow> (\<forall>m. msk = Some m \<longrightarrow> isShaped (tyOf s m) \<and> shapeOf (tyOf s m) = sh \<and> (\<exists>C. maskTerm E s m (Msk C)))"

lemma wp_maskDimsOf:
  assumes wf: "wf_ir s" and m: "maskOk E s sh msk" and g: "grows s s1"
    and post: "\<And>dims t. grows s1 t \<Longrightarrow> \<forall>d \<in> set dims. idx_ofr t d \<Longrightarrow>
      (\<And>idx. inB sh idx \<Longrightarrow> (dims = [] \<or> inMask E t dims idx) = activeAt E s msk idx) \<Longrightarrow> Q dims t"
  shows "wp (maskDimsOf msk) Q s1"
proof (cases msk)
  case None
  have "Q [] s1" by (rule post) (use g None in \<open>simp_all add: growsD activeAt_def\<close>)
  then show ?thesis using None by (simp add: maskDimsOf_def wp_ret)
next
  case (Some m)
  then obtain C where c: "isShaped (tyOf s m)" "shapeOf (tyOf s m) = sh" "maskTerm E s m (Msk C)"
    using assms(2) by (auto simp: maskOk_def)
  have v: "valid s m" using c(3) by (rule maskTerm_valid)
  have "wp (parseMask m) (\<lambda>st. Q (mdims st)) s1"
  proof (rule wp_parses [OF parseMask_parses [OF wf c(3)] g])
    fix st t assume t: "grows s1 t" "grows s t" "mdesc E t m (Msk C) st"
    have d: "mdims st \<noteq> []" "maskDims E t (mdims st) sh"
      and e: "\<forall>idx. inB sh idx \<longrightarrow> (eval E s m idx \<noteq> 0 \<longleftrightarrow> inMask E t (mdims st) idx)"
      using t(3) c(2) tyOf_grows [OF t(2) v] eval_grows [OF t(2) v] by (auto simp: mskDesc_def isMask_def)
    show "Q (mdims st) t"
      by (rule post [OF t(1)]) (use d e Some maskDims_nth [OF d(2)] in \<open>auto simp: activeAt_def in_set_conv_nth\<close>)
  qed
  then show ?thesis using Some c tyOf_grows [OF g v] by (simp add: maskDimsOf_def wp_simps)
qed

lemma wp_loadOther:
  assumes wf: "wf_ir s" and g: "grows s s1"
    and oth: "\<And>x. other = Some x \<Longrightarrow> msk \<noteq> None \<and> scalarTerm s x \<and> tyOf s x = TensorTy sh e"
    and post: "\<And>y t. grows s1 t \<Longrightarrow> (\<forall>z. y = Some z \<longrightarrow> valid t z) \<Longrightarrow> (y = None \<longleftrightarrow> other = None) \<Longrightarrow>
      (\<And>z x idx. y = Some z \<Longrightarrow> other = Some x \<Longrightarrow> inB sh idx \<Longrightarrow> eval E t z [] = eval E s x idx) \<Longrightarrow> Q y t"
  shows "wp (loadOther msk other (TensorTy sh e)) Q s1"
proof (cases other)
  case None
  have "Q None s1" by (rule post) (use g None in \<open>simp_all add: growsD\<close>)
  then show ?thesis using None by (simp add: loadOther_def wp_ret)
next
  case (Some x)
  then have x: "msk \<noteq> None" "scalarTerm s x" "tyOf s x = TensorTy sh e" using oth by blast+
  have "wp (scalarOrElement x) (\<lambda>y. wp (castScalarToType y e) (\<lambda>z. Q (Some z))) s1"
  proof (rule wp_scalarOrElement [OF wf x(2) g])
    fix r t assume r: "grows s1 t" "valid t r" "tyOf t r = elemTy (tyOf s x)"
      "\<And>E idx. inB (shapeOf (tyOf s x)) idx \<Longrightarrow> eval E t r [] = eval E s x idx"
    have "Q (Some r) t" by (rule post) (use r x Some in auto)
    then show "wp (castScalarToType r e) (\<lambda>z. Q (Some z)) t"
      using r(3) x(3) by (simp add: castScalarToType_def wp_simps)
  qed
  then show ?thesis using Some x(1) by (simp add: loadOther_def wp_simps)
qed

lemma wp_rewriteLoadOp:
  assumes wf: "wf_ir s" and g1: "grows s s1" and v: "valid s v" and op: "defOp s v = LoadOp p msk other bc pad"
    and map: "ptrMap pa p = Some ptr" "valid s1 ptr"
    and ty: "tyOf s v = TensorTy sh e" "tyOf s1 ptr = TensorTy sh (PtrTy e)"
    and same: "\<And>idx. inB sh idx \<Longrightarrow> eval E s1 ptr idx = eval E s p idx"
    and m: "maskOk E s sh msk"
    and oth: "\<And>x. other = Some x \<Longrightarrow> msk \<noteq> None \<and> scalarTerm s x \<and> tyOf s x = TensorTy sh e"
    and post: "\<And>r t dims y. grows s1 t \<Longrightarrow> valid t r \<Longrightarrow> tyOf t r = TensorTy sh e \<Longrightarrow> defOp t r = TTSLoadOp ptr dims y bc pad \<Longrightarrow>
      (\<And>mem junk idx. inB sh idx \<Longrightarrow> loadSem mem junk E t (defOp t r) idx = loadSem mem junk E s (defOp s v) idx) \<Longrightarrow> Q r t"
  shows "wp (rewriteLoadOp pa v) Q s1"
proof -
  have "wp (maskDimsOf msk) (\<lambda>dims. wp (loadOther msk other (TensorTy sh e)) (\<lambda>y s.
      wp (createTTSLoad ptr (if isScalarPtr (tyOf s ptr) then [getIndexAttr 1] else dims) y bc pad)
        (\<lambda>r. wp (bridgeLoadResult r (TensorTy sh e)) Q) s)) s1"
  proof (rule wp_maskDimsOf [OF wf m g1])
    fix dims t assume t: "grows s1 t" "\<forall>d \<in> set dims. idx_ofr t d"
      "\<And>idx. inB sh idx \<Longrightarrow> (dims = [] \<or> inMask E t dims idx) = activeAt E s msk idx"
    show "wp (loadOther msk other (TensorTy sh e)) (\<lambda>y s.
      wp (createTTSLoad ptr (if isScalarPtr (tyOf s ptr) then [getIndexAttr 1] else dims) y bc pad)
        (\<lambda>r. wp (bridgeLoadResult r (TensorTy sh e)) Q) s) t"
    proof (rule wp_loadOther [OF wf grows_trans [OF g1 t(1)] oth])
      fix y u assume u: "grows t u" "\<forall>z. y = Some z \<longrightarrow> valid u z" "(y = None) = (other = None)"
        "\<And>z x idx. y = Some z \<Longrightarrow> other = Some x \<Longrightarrow> inB sh idx \<Longrightarrow> eval E u z [] = eval E s x idx"
      note gu = grows_trans [OF t(1) u(1)]
      have dv: "valid u a" if "a \<in> operands (TTSLoadOp ptr dims y bc pad)" for a
        using that u(2) valid_grows [OF gu map(2)] t(2) idx_ofr_vals [OF idx_ofr_grows [OF u(1)]]
        by (cases y) auto
      have "wp (create (TTSLoadOp ptr dims y bc pad) (TensorTy sh e)) (\<lambda>r. wp (bridgeLoadResult r (TensorTy sh e)) Q) u"
      proof (rule wp_create [OF growsD(2) [OF u(1)]])
        fix r w assume w: "grows u w" "valid w r" "defOp w r = TTSLoadOp ptr dims y bc pad" "tyOf w r = TensorTy sh e"
        note gw = grows_trans [OF gu w(1)]
        have "loadSem mem junk E w (defOp w r) idx = loadSem mem junk E s (defOp s v) idx" if i: "inB sh idx" for mem junk idx
        proof -
          have "inMask E w dims idx = inMask E t dims idx"
            using t(2) osem_grows [OF grows_trans [OF u(1) w(1)]]
            by (auto simp: inMask_def list_all2_conv_all_nth)
          then have "(dims = [] \<or> inMask E w dims idx) = activeAt E s msk idx" using t(3) [OF i] by simp
          moreover have "eval E w z [] = eval E s x idx" if "y = Some z" "other = Some x" for z x
            using u(2,4) that i eval_grows [OF w(1)] by simp
          ultimately show ?thesis
            using w(3) op same [OF i] eval_grows [OF gw map(2)] u(3)
            by (auto simp: loadSem_def split: option.splits)
        qed
        then show "wp (bridgeLoadResult r (TensorTy sh e)) Q w"
          using w gw by (simp add: bridgeLoadResult_def wp_simps post)
      qed (use dv in simp_all)
      then show "wp (createTTSLoad ptr (if isScalarPtr (tyOf u ptr) then [getIndexAttr 1] else dims) y bc pad)
          (\<lambda>r. wp (bridgeLoadResult r (TensorTy sh e)) Q) u"
        using tyOf_grows [OF gu map(2)] ty(2)
        by (simp add: createTTSLoad_def loadResultType_def isScalarPtr_def wp_simps)
    qed
  qed
  then show ?thesis using op map(1) ty(1) defOp_grows [OF g1 v] tyOf_grows [OF g1 v] by (simp add: rewriteLoadOp_def wp_simps)
qed

lemma wp_rewriteStoreOp:
  assumes wf: "wf_ir s" and g1: "grows s s1" and v: "valid s v" and op: "defOp s v = StoreOp p x msk bc"
    and map: "ptrMap pa p = Some ptr" "valid s1 ptr"
    and ty: "tyOf s x = TensorTy sh e" "tyOf s1 ptr = TensorTy sh (PtrTy e)"
    and same: "\<And>idx. inB sh idx \<Longrightarrow> eval E s1 ptr idx = eval E s p idx"
    and m: "maskOk E s sh msk"
    and post: "\<And>r t dims. grows s1 t \<Longrightarrow> valid t r \<Longrightarrow> defOp t r = TTSStoreOp ptr x dims bc \<Longrightarrow>
      (\<And>idx. inB sh idx \<Longrightarrow> storeSem E t (defOp t r) idx = storeSem E s (defOp s v) idx) \<Longrightarrow> Q r t"
  shows "wp (rewriteStoreOp pa v) Q s1"
proof -
  have vx: "valid s x" using wf_operand_valid [OF wf v, of x] op by simp
  have "wp (maskDimsOf msk) (\<lambda>dims t. wp (if isScalarPtr (tyOf t ptr) then
           bindM (scalarOrElement x) (\<lambda>sv.
           bindM (castM (storePointee (tyOf t ptr))) (\<lambda>targetTy.
           bindM (castScalarToType sv targetTy) (\<lambda>sv'.
           bindM (create (FromElementsOp [sv']) (TensorTy [] targetTy)) (\<lambda>r.
           createTTSStore ptr r dims bc))))
         else bindM (bridgeStoreValue x (tyOf t ptr)) (\<lambda>sv. createTTSStore ptr sv dims bc)) Q t) s1"
  proof (rule wp_maskDimsOf [OF wf m g1])
    fix dims t assume t: "grows s1 t" "\<forall>d \<in> set dims. idx_ofr t d"
      "\<And>idx. inB sh idx \<Longrightarrow> (dims = [] \<or> inMask E t dims idx) = activeAt E s msk idx"
    note gt = grows_trans [OF g1 t(1)]
    note ts = tyOf_grows [OF t(1) map(2)] tyOf_grows [OF gt vx]
    have dv: "valid t a" if "a \<in> operands (TTSStoreOp ptr x dims bc)" for a
      using that valid_grows [OF t(1) map(2)] valid_grows [OF gt vx] t(2) idx_ofr_vals by auto
    have "wp (create (TTSStoreOp ptr x dims bc) NoneTy) Q t"
    proof (rule wp_create [OF growsD(2) [OF t(1)]])
      fix r w assume w: "grows t w" "valid w r" "defOp w r = TTSStoreOp ptr x dims bc"
      note gw = grows_trans [OF t(1) w(1)]
      have "storeSem E w (defOp w r) idx = storeSem E s (defOp s v) idx" if i: "inB sh idx" for idx
      proof -
        have "inMask E w dims idx = inMask E t dims idx"
          using t(2) osem_grows [OF w(1)] by (auto simp: inMask_def list_all2_conv_all_nth)
        then have "(dims = [] \<or> inMask E w dims idx) = activeAt E s msk idx" using t(3) [OF i] by simp
        then show ?thesis using w(3) op same [OF i] eval_grows [OF gw map(2)] eval_grows [OF grows_trans [OF g1 gw] vx]
          by (auto simp: storeSem_def)
      qed
      then show "Q r w" using w gw by (intro post) auto
    qed (use dv in simp_all)
    then show "wp (if isScalarPtr (tyOf t ptr) then
           bindM (scalarOrElement x) (\<lambda>sv.
           bindM (castM (storePointee (tyOf t ptr))) (\<lambda>targetTy.
           bindM (castScalarToType sv targetTy) (\<lambda>sv'.
           bindM (create (FromElementsOp [sv']) (TensorTy [] targetTy)) (\<lambda>r.
           createTTSStore ptr r dims bc))))
         else bindM (bridgeStoreValue x (tyOf t ptr)) (\<lambda>sv. createTTSStore ptr sv dims bc)) Q t"
      using ts ty by (simp add: isScalarPtr_def bridgeStoreValue_def storePointee_def createTTSStore_def wp_simps)
  qed
  then show ?thesis using op map(1) defOp_grows [OF g1 v] by (simp add: rewriteStoreOp_def wp_simps)
qed

end
