(* ===== verification/Claims_LoadStore.thy ===== *)
theory Claims_LoadStore
  imports LoadStore_Sound Demo
begin

text \<open>The properties of the rewriting of loads and stores, with an instance of each.\<close>

section \<open>A masked load\<close>

text \<open>\<open>x = load(p + arange(0, 4), mask = arange(0, 4) < n, other = 0)\<close>, stored back; 7 is the structured pointer.\<close>

definition loadDemo :: ir where
  "loadDemo = \<lparr>ops = [
     (BlockArg None, PtrTy (IntTy 32)),
     (BlockArg None, IntTy 32),
     (MakeRangeOp 0 4, TensorTy [4] (IntTy 32)),
     (SplatOp 1, TensorTy [4] (IntTy 32)),
     (CmpIOp Slt 2 3, TensorTy [4] (IntTy 1)),
     (SplatOp 0, TensorTy [4] (PtrTy (IntTy 32))),
     (AddPtrOp 5 2, TensorTy [4] (PtrTy (IntTy 32))),
     (TTSMakeTensorPtrOp 0 [4] [getIndexAttr 1] [getIndexAttr 0] [] [getIndexAttr 0] [], TensorTy [4] (PtrTy (IntTy 32))),
     (ConstantOp (DenseElementsAttr (Some (IntegerAttr 0 (IntTy 32))) (IntTy 32)), TensorTy [4] (IntTy 32)),
     (LoadOp 6 (Some 4) (Some 8) [] None, TensorTy [4] (IntTy 32)),
     (StoreOp 6 9 (Some 4) [], NoneTy)], fors = []\<rparr>"

definition loadE :: env where
  "loadE v idx = (if v = 0 then 4096 else 3)"

definition loadPA :: ptr_analysis where
  "loadPA = demoPA\<lparr>ptrMap := [6 \<mapsto> 7]\<rparr>"

lemma loadDemo_wf: "wf_ir loadDemo"
  by (simp add: wf_ir_enumerate loadDemo_def getIndexAttr_def)

lemma loadDemo_valid [simp]: "valid loadDemo v \<longleftrightarrow> v < 11"
  by (simp add: valid_def loadDemo_def) arith

lemma loadDemo_ops [simp]:
  "defOp loadDemo 0 = BlockArg None" "tyOf loadDemo 0 = PtrTy (IntTy 32)"
  "defOp loadDemo (Suc 0) = BlockArg None" "tyOf loadDemo (Suc 0) = IntTy 32"
  "defOp loadDemo 2 = MakeRangeOp 0 4" "tyOf loadDemo 2 = TensorTy [4] (IntTy 32)"
  "defOp loadDemo 3 = SplatOp 1" "tyOf loadDemo 3 = TensorTy [4] (IntTy 32)"
  "defOp loadDemo 4 = CmpIOp Slt 2 3" "tyOf loadDemo 4 = TensorTy [4] (IntTy 1)"
  "defOp loadDemo 5 = SplatOp 0" "tyOf loadDemo 5 = TensorTy [4] (PtrTy (IntTy 32))"
  "defOp loadDemo 6 = AddPtrOp 5 2" "tyOf loadDemo 6 = TensorTy [4] (PtrTy (IntTy 32))"
  "defOp loadDemo 7 = TTSMakeTensorPtrOp 0 [4] [getIndexAttr 1] [getIndexAttr 0] [] [getIndexAttr 0] []"
  "tyOf loadDemo 7 = TensorTy [4] (PtrTy (IntTy 32))"
  "defOp loadDemo 8 = ConstantOp (DenseElementsAttr (Some (IntegerAttr 0 (IntTy 32))) (IntTy 32))"
  "tyOf loadDemo 8 = TensorTy [4] (IntTy 32)"
  "defOp loadDemo 9 = LoadOp 6 (Some 4) (Some 8) [] None" "tyOf loadDemo 9 = TensorTy [4] (IntTy 32)"
  "defOp loadDemo 10 = StoreOp 6 9 (Some 4) []"
  by (simp_all add: loadDemo_def defOp_def tyOf_def entry_def)

lemma loadDemo_addresses:
  assumes "inB [4] idx"
  shows "eval loadE loadDemo 7 idx = eval loadE loadDemo 6 idx"
proof -
  obtain i where i: "idx = [i]" "0 \<le> i" "i < 4" using assms by (auto simp: inB_def list_all2_Cons1)
  have e0: "eval loadE loadDemo 0 [] = 4096"
    using eval_unfold [OF loadDemo_wf, of 0 loadE] by (simp add: denOp_def norm_def loadE_def wrap_id)
  have e5: "eval loadE loadDemo 5 [i] = 4096"
    using eval_unfold [OF loadDemo_wf, of 5 loadE] e0 by (simp add: denOp_def norm_def wrap_id)
  have e2: "eval loadE loadDemo 2 [i] = i"
    using eval_unfold [OF loadDemo_wf, of 2 loadE] i by (simp add: denOp_def norm_def wrap_id)
  have "eval loadE loadDemo 6 [i] = 4096 + 4 * i"
    using eval_unfold [OF loadDemo_wf, of 6 loadE] e5 e2 i by (simp add: denOp_def norm_def wrap_id)
  moreover have "eval loadE loadDemo 7 [i] = 4096 + 4 * i"
    using eval_unfold [OF loadDemo_wf, of 7 loadE] e0 i
    by (simp add: denOp_def norm_def wrap_id dimTerm_def ofrSem_def getIndexAttr_def)
  ultimately show ?thesis using i by simp
qed

lemma loadDemo_mask: "maskOk loadE loadDemo [4] (Some 4)"
proof -
  have r: "maskTerm loadE loadDemo 2 (Rng 0)"
    by (rule maskTerm.range [where start = 0 and stop = 4]) simp_all
  have n: "maskTerm loadE loadDemo 1 Scal" by (rule maskTerm.int) simp_all
  have s: "maskTerm loadE loadDemo 3 Scal" by (rule maskTerm.splat [where a = 1]) (use n in simp_all)
  have "maskTerm loadE loadDemo 4 (Msk {0})"
    by (rule maskTerm.less [where p = Slt and a = 2 and b = 3 and sh = "[4]" and w = 32])
      (use r s in \<open>simp_all add: isLess_def posShape_def onlyDim_def\<close>)
  then show ?thesis by (auto simp: maskOk_def)
qed

lemma loadDemo_other: "scalarTerm loadDemo 8"
  by (rule scalarTerm.const [where n = 0 and t = "IntTy 32" and sh = "[4]"]) (simp_all add: norm_def)

section \<open>Loads and stores\<close>

text \<open>The rewriting of a load through a pointer that has been replaced by a structured pointer with
  the same addresses returns a \<open>tts.load\<close> of the same type that yields, for every memory, the element
  of the original load at every index: it reads the same address where the mask holds, and the same
  \<open>other\<close> value where it does not.\<close>

theorem rewriteLoadOp_correct:
  assumes "wf_ir s" and "valid s v" and "defOp s v = LoadOp p msk other bc pad"
    and "ptrMap pa p = Some ptr" and "valid s ptr"
    and "tyOf s v = TensorTy sh e" and "tyOf s ptr = TensorTy sh (PtrTy e)"
    and "\<And>idx. inB sh idx \<Longrightarrow> eval E s ptr idx = eval E s p idx"
    and "maskOk E s sh msk"
    and "\<And>x. other = Some x \<Longrightarrow> msk \<noteq> None \<and> scalarTerm s x \<and> tyOf s x = TensorTy sh e"
  shows "\<exists>r t dims y. rewriteLoadOp pa v s = (Inr r, t) \<and> grows s t \<and> tyOf t r = tyOf s v \<and>
    defOp t r = TTSLoadOp ptr dims y bc pad \<and>
    (\<forall>mem junk idx. inB sh idx \<longrightarrow> loadSem mem junk E t (defOp t r) idx = loadSem mem junk E s (defOp s v) idx)"
proof -
  have "wp (rewriteLoadOp pa v) (\<lambda>r t. \<exists>dims y. grows s t \<and> tyOf t r = tyOf s v \<and> defOp t r = TTSLoadOp ptr dims y bc pad \<and>
    (\<forall>mem junk idx. inB sh idx \<longrightarrow> loadSem mem junk E t (defOp t r) idx = loadSem mem junk E s (defOp s v) idx)) s"
    by (rule wp_rewriteLoadOp [OF assms(1) grows_refl [OF assms(1)] assms(2-10)]) (use assms(6) in auto)
  then show ?thesis by (auto simp: wp_def)
qed

theorem rewriteLoadOp_correct_witness:
  "\<exists>r t dims y. rewriteLoadOp loadPA 9 loadDemo = (Inr r, t) \<and> grows loadDemo t \<and> tyOf t r = tyOf loadDemo 9 \<and>
    defOp t r = TTSLoadOp 7 dims y [] None \<and>
    (\<forall>mem junk idx. inB [4] idx \<longrightarrow>
       loadSem mem junk loadE t (defOp t r) idx = loadSem mem junk loadE loadDemo (defOp loadDemo 9) idx)"
  by (rule rewriteLoadOp_correct [OF loadDemo_wf, where p = 6 and msk = "Some 4" and other = "Some 8" and e = "IntTy 32"])
    (use loadDemo_addresses loadDemo_mask loadDemo_other in \<open>auto simp: loadPA_def\<close>)

text \<open>The rewriting of a store through a structured pointer with the same addresses emits a
  \<open>tts.store\<close> that writes, at every index, the same value to the same address, and writes nothing
  where the mask does not hold.\<close>

theorem rewriteStoreOp_correct:
  assumes "wf_ir s" and "valid s v" and "defOp s v = StoreOp p x msk bc"
    and "ptrMap pa p = Some ptr" and "valid s ptr"
    and "tyOf s x = TensorTy sh e" and "tyOf s ptr = TensorTy sh (PtrTy e)"
    and "\<And>idx. inB sh idx \<Longrightarrow> eval E s ptr idx = eval E s p idx"
    and "maskOk E s sh msk"
  shows "\<exists>r t dims. rewriteStoreOp pa v s = (Inr r, t) \<and> grows s t \<and> defOp t r = TTSStoreOp ptr x dims bc \<and>
    (\<forall>idx. inB sh idx \<longrightarrow> storeSem E t (defOp t r) idx = storeSem E s (defOp s v) idx)"
proof -
  have "wp (rewriteStoreOp pa v) (\<lambda>r t. \<exists>dims. grows s t \<and> defOp t r = TTSStoreOp ptr x dims bc \<and>
    (\<forall>idx. inB sh idx \<longrightarrow> storeSem E t (defOp t r) idx = storeSem E s (defOp s v) idx)) s"
    by (rule wp_rewriteStoreOp [OF assms(1) grows_refl [OF assms(1)] assms(2-9)]) auto
  then show ?thesis by (auto simp: wp_def)
qed

theorem rewriteStoreOp_correct_witness:
  "\<exists>r t dims. rewriteStoreOp loadPA 10 loadDemo = (Inr r, t) \<and> grows loadDemo t \<and> defOp t r = TTSStoreOp 7 9 dims [] \<and>
    (\<forall>idx. inB [4] idx \<longrightarrow> storeSem loadE t (defOp t r) idx = storeSem loadE loadDemo (defOp loadDemo 10) idx)"
  by (rule rewriteStoreOp_correct [OF loadDemo_wf, where p = 6 and msk = "Some 4" and e = "IntTy 32"])
    (use loadDemo_addresses loadDemo_mask in \<open>auto simp: loadPA_def\<close>)

text \<open>C26: the reassociation computed for \<open>tensor.expand_shape\<close> is valid when the loaded shape is the
  original shape without its unit dimensions: the groups are not empty, they list the original
  dimensions in order, each once, and the product of each group is the size of its loaded dimension.\<close>

theorem reassociate_correct:
  assumes "lsh = filter (\<lambda>n. n \<noteq> 1) sh" and "lsh \<noteq> []" and "\<forall>n \<in> set sh. 0 < n"
  shows "concat (reassociate sh lsh 0) = [0..<length sh] \<and>
    map (\<lambda>g. prod_list (map ((!) sh) g)) (reassociate sh lsh 0) = lsh \<and> [] \<notin> set (reassociate sh lsh 0)"
  using reassociate_from [of 0 sh lsh] assms by (simp add: groupProduct_def [abs_def])

theorem reassociate_correct_witness:
  "concat (reassociate [4, 1, 8, 1] [4, 8] 0) = [0..<length [4::int, 1, 8, 1]] \<and>
    map (\<lambda>g. prod_list (map ((!) [4::int, 1, 8, 1]) g)) (reassociate [4, 1, 8, 1] [4, 8] 0) = [4, 8] \<and>
    [] \<notin> set (reassociate [4, 1, 8, 1] [4, 8] 0)"
  by (rule reassociate_correct) simp_all

text \<open>
  A loaded dimension of size 1 that is not the last one takes a dimension that the next one takes
  again.
\<close>

theorem reassociate_repeats_unit: "reassociate [1, 1, 4] [1, 4] 0 = [[0], [0, 1, 2]]"
  by code_simp

text \<open>C27: \<open>getScalarValue\<close> returns a scalar of the element type for every integer tensor that repeats
  one value through splats, constants and integer casts, and the scalar is that value.\<close>

theorem getScalarValue_correct:
  assumes "wf_ir s" and "scalarTerm s v"
  shows "\<exists>r t. getScalarValue v s = (Inr (Some r), t) \<and> grows s t \<and> tyOf t r = elemTy (tyOf s v) \<and>
    (\<forall>E idx. inB (shapeOf (tyOf s v)) idx \<longrightarrow> eval E t r [] = eval E s v idx)"
proof -
  have "wp (getScalarValue v) (\<lambda>r t. \<exists>x. r = Some x \<and> grows s t \<and> tyOf t x = elemTy (tyOf s v) \<and>
    (\<forall>E idx. inB (shapeOf (tyOf s v)) idx \<longrightarrow> eval E t x [] = eval E s v idx)) s"
    unfolding getScalarValue_def by (rule getScalarFrom_correct [OF assms grows_refl [OF assms(1)]]) auto
  then show ?thesis by (auto simp: wp_def)
qed

theorem getScalarValue_correct_witness:
  "\<exists>r t. getScalarValue 8 loadDemo = (Inr (Some r), t) \<and> grows loadDemo t \<and> tyOf t r = elemTy (tyOf loadDemo 8) \<and>
    (\<forall>E idx. inB (shapeOf (tyOf loadDemo 8)) idx \<longrightarrow> eval E t r [] = eval E loadDemo 8 idx)"
  by (rule getScalarValue_correct [OF loadDemo_wf loadDemo_other])

end
