(* ===== verification/Rewrite_Walk.thy ===== *)
theory Rewrite_Walk
  imports LoadStore
begin

text \<open>
  The walk of \<open>PtrAnalysis::rewriteOp\<close> over the nested regions of a program, with the rewriting of
  loops (\<open>rewriteForOp\<close>), of \<open>tts.get_structured_state\<close>, and the search for the loop arguments that
  may be structured (\<open>initializeMaybeStructuredArgs\<close>).  The region tree names operations by the
  value they define.  An operation that is replaced is reported with its replacement, in walk
  order, and keeps its place in the table.
\<close>

datatype node = OpNode val | ForNode nat "node list" | RegionNode "node list"

text \<open>The operations below a node, in pre-order.\<close>

fun walkVals :: "node \<Rightarrow> val list" where
  "walkVals (OpNode v) = [v]"
| "walkVals (ForNode f body) = concat (map walkVals body)"
| "walkVals (RegionNode body) = concat (map walkVals body)"

section \<open>Loop arguments that may be structured\<close>

text \<open>
  What a value flows to: the iteration argument and the result of every loop it initialises, and the
  results of the same type of every other operation that uses it.
\<close>

definition loopNeighbors :: "forinfo \<Rightarrow> val \<Rightarrow> val list" where
  "loopNeighbors fo v = concat (map (\<lambda>i. if initArgs fo ! i = v then [iterArgs fo ! i, results fo ! i] else [])
     [0..<length (initArgs fo)])"

definition neighbors :: "ir \<Rightarrow> val \<Rightarrow> val list" where
  "neighbors s v = concat (map (\<lambda>fo. loopNeighbors fo v) (fors s)) @
     filter (\<lambda>u. v \<in> operands (defOp s u) \<and> tyOf s u = tyOf s v) [0..<length (ops s)]"

definition stateOps :: "ir \<Rightarrow> val list" where
  "stateOps s = filter (\<lambda>v. case defOp s v of GetStructuredStateOp t 0 \<Rightarrow> True | _ \<Rightarrow> False) [0..<length (ops s)]"

text \<open>The queue, the visited values and the values found, after one neighbour.\<close>

definition visitNeighbor :: "val list \<times> val list \<times> val list \<Rightarrow> val \<Rightarrow> val list \<times> val list \<times> val list" where
  "visitNeighbor = (\<lambda>(q, visited, found) n.
     (if n \<in> set visited then q else q @ [n],
      if n \<in> set visited then visited else n # visited,
      List.insert n found))"

definition reachableVals :: "ir \<Rightarrow> val set" where
  "reachableVals s = {0..<length (ops s)} \<union> (\<Union>fo \<in> set (fors s). \<Union>v. set (loopNeighbors fo v))"

lemma finite_reachableVals: "finite (reachableVals s)"
proof -
  have "(\<Union>v. set (loopNeighbors fo v)) \<subseteq> (\<lambda>i. iterArgs fo ! i) ` {0..<length (initArgs fo)} \<union>
      (\<lambda>i. results fo ! i) ` {0..<length (initArgs fo)}" for fo
    by (auto simp: loopNeighbors_def split: if_splits)
  then have "finite (\<Union>v. set (loopNeighbors fo v))" for fo
    by (rule finite_subset) simp
  then show ?thesis by (simp add: reachableVals_def)
qed

lemma neighbors_reachable: "set (neighbors s v) \<subseteq> reachableVals s"
  by (auto simp: neighbors_def reachableVals_def)

lemma visitNeighbor_seen: "n \<in> set vis \<Longrightarrow> visitNeighbor (q, vis, found) n = (q, vis, List.insert n found)"
  by (simp add: visitNeighbor_def)

lemma visitNeighbor_new: "n \<notin> set vis \<Longrightarrow> visitNeighbor (q, vis, found) n = (q @ [n], n # vis, List.insert n found)"
  by (simp add: visitNeighbor_def)

lemma foldl_visitNeighbor:
  assumes "foldl visitNeighbor (q, vis, found) ns = (q', vis', found')"
  shows "set vis' = set vis \<union> set ns \<and> set found' = set found \<union> set ns \<and> set q' = set q \<union> (set ns - set vis)"
  using assms
proof (induction ns arbitrary: q vis found)
  case (Cons n ns)
  show ?case
  proof (cases "n \<in> set vis")
    case True
    then show ?thesis using Cons.IH [of q vis] Cons.prems by (auto simp: visitNeighbor_seen)
  next
    case False
    then show ?thesis using Cons.IH [of "q @ [n]" "n # vis"] Cons.prems by (auto simp: visitNeighbor_new)
  qed
qed simp

lemma foldl_visitNeighbor_measure:
  assumes "foldl visitNeighbor (q, vis, found) ns = (q', vis', found')" and "finite A" and "set ns \<subseteq> A"
  shows "2 * card (A - set vis') + length q' \<le> 2 * card (A - set vis) + length q"
  using assms(1,3)
proof (induction ns arbitrary: q vis found)
  case (Cons n ns)
  show ?case
  proof (cases "n \<in> set vis")
    case True
    then show ?thesis using Cons.IH [of q vis] Cons.prems by (auto simp: visitNeighbor_seen)
  next
    case False
    have "A - set (n # vis) = (A - set vis) - {n}" by auto
    then have "card (A - set vis) = Suc (card (A - set (n # vis)))"
      using False Cons.prems(2) assms(2) by (simp add: card_Suc_Diff1 del: card_Diff_insert)
    moreover have "2 * card (A - set vis') + length q' \<le> 2 * card (A - set (n # vis)) + length (q @ [n])"
      by (rule Cons.IH [of _ _ "List.insert n found"]) (use False Cons.prems in \<open>simp_all add: visitNeighbor_new\<close>)
    ultimately show ?thesis by simp
  qed
qed simp

function maybeStructuredFrom :: "ir \<Rightarrow> val list \<Rightarrow> val list \<Rightarrow> val list \<Rightarrow> val list" where
  "maybeStructuredFrom s [] visited found = found"
| "maybeStructuredFrom s (v # q) visited found =
     (let (q', visited', found') = foldl visitNeighbor (q, visited, found) (neighbors s v)
      in maybeStructuredFrom s q' visited' found')"
  by pat_completeness auto
termination
proof (relation "measure (\<lambda>(s, q, visited, found). 2 * card (reachableVals s - set visited) + length q)", goal_cases)
  case (2 s v q visited found x q' y visited' found')
  then have "foldl visitNeighbor (q, visited, found) (neighbors s v) = (q', visited', found')" by simp
  from foldl_visitNeighbor_measure [OF this finite_reachableVals neighbors_reachable]
  show ?case by simp
qed simp

definition initializeMaybeStructuredArgs :: "ir \<Rightarrow> ptr_analysis \<Rightarrow> ptr_analysis" where
  "initializeMaybeStructuredArgs s pa =
     pa\<lparr>maybeStructuredArgs := maybeStructuredFrom s (stateOps s) (stateOps s) (maybeStructuredArgs pa)\<rparr>"

section \<open>Loops\<close>

text \<open>One iteration argument: its state, and for pointers a structured pointer at the head of the body.\<close>

definition rewriteIterArg :: "nat \<Rightarrow> ptr_analysis \<Rightarrow> nat \<times> val \<Rightarrow> ptr_analysis irm" where
  "rewriteIterArg f pa = (\<lambda>(i, arg).
     if arg \<notin> set (maybeStructuredArgs pa) then ret pa else
     bindM (attemptM (getLoopIterArgPtrState pa f i)) (\<lambda>r. case r of
       None \<Rightarrow> ret pa
     | Some st \<Rightarrow>
         bindM (noStructuredDimExists st) (\<lambda>unstructured.
         if unstructured then ret pa else
         let pa1 = setKnown arg st pa in
         bindM (getM (\<lambda>s. isPointerType (tyOf s arg))) (\<lambda>isPtr.
         if \<not> isPtr then ret pa1 else
         bindM (getRank st) (\<lambda>rank.
         if rank = 0 then ret pa1 else
         bindM (createTTSMakeTensorPtrOp st (origiOffsets st)) (\<lambda>m. ret (mapPtr arg m pa1)))))))"

definition rewriteForArgs :: "ptr_analysis \<Rightarrow> nat \<Rightarrow> ptr_analysis irm" where
  "rewriteForArgs pa f = bindM (forAt f) (\<lambda>fo.
     foldM (rewriteIterArg f) pa (zip [0..<length (iterArgs fo)] (iterArgs fo)))"

section \<open>One operation of the walk\<close>

text \<open>The offsets of each \<open>tt.make_tensor_ptr\<close> below the root of the walk, by base; the last one wins.\<close>

definition collectOffsets :: "ir \<Rightarrow> node list \<Rightarrow> val \<Rightarrow> ofr list" where
  "collectOffsets s nodes = foldl (\<lambda>m v. case defOp s v of
       MakeTensorPtrOp base shs strs offs ord \<Rightarrow> m(base := map Val offs)
     | _ \<Rightarrow> m) (\<lambda>_. []) (concat (map walkVals nodes))"

definition propagatePtr :: "val \<Rightarrow> val \<Rightarrow> ptr_analysis \<Rightarrow> ptr_analysis" where
  "propagatePtr src result pa = (case ptrMap pa src of None \<Rightarrow> pa | Some w \<Rightarrow> mapPtr result w pa)"

type_synonym walked = "ptr_analysis \<times> (val \<times> val) list"

definition walkAddPtr :: "ptr_analysis \<Rightarrow> val \<Rightarrow> val \<Rightarrow> walked irm" where
  "walkAddPtr pa v srcPtr =
     bindM (rewriteAddptrOp pa v) (\<lambda>(pa', ok).
     bindM (getM (\<lambda>s. isPtrTypeLike (tyOf s srcPtr) \<and> isPtrTypeLike (tyOf s v))) (\<lambda>ptrs.
     ret (if ok \<and> ptrMap pa' v = None \<and> ptrs then propagatePtr srcPtr v pa' else pa', [])))"

definition getPointeeType :: "ty \<Rightarrow> ty option" where
  "getPointeeType t = (case (if isShaped t then elemTy t else t) of PtrTy p \<Rightarrow> Some p | _ \<Rightarrow> None)"

definition walkBitcast :: "ptr_analysis \<Rightarrow> val \<Rightarrow> val \<Rightarrow> walked irm" where
  "walkBitcast pa v src =
     bindM (getM (\<lambda>s. isPtrTypeLike (tyOf s src) \<and> isPtrTypeLike (tyOf s v) \<and>
       getPointeeType (tyOf s src) \<noteq> None \<and> getPointeeType (tyOf s src) = getPointeeType (tyOf s v))) (\<lambda>same.
     ret (if same then propagatePtr src v pa else pa, []))"

definition walkSplat :: "ptr_analysis \<Rightarrow> val \<Rightarrow> val \<Rightarrow> walked irm" where
  "walkSplat pa v src =
     bindM (getM (\<lambda>s. isPtrTypeLike (tyOf s src) \<and> isPtrTypeLike (tyOf s v))) (\<lambda>ptrs.
     ret (if ptrs then propagatePtr src v pa else pa, []))"

definition walkAccess :: "ptr_analysis \<Rightarrow> val \<Rightarrow> val irm \<Rightarrow> walked irm" where
  "walkAccess pa v rewrite = bindM (attemptM rewrite) (\<lambda>r. ret (pa, case r of None \<Rightarrow> [] | Some w \<Rightarrow> [(v, w)]))"

text \<open>An operation that yields a pointer is its own replacement, or is cloned on the replaced base.\<close>

definition walkSource :: "ptr_analysis \<Rightarrow> val \<Rightarrow> ptr_state irm \<Rightarrow> walked irm" where
  "walkSource pa v visit = bindM (attemptM visit) (\<lambda>r. ret (if r = None then pa else mapPtr v v pa, []))"

definition walkSubview :: "ptr_analysis \<Rightarrow> val \<Rightarrow> val \<Rightarrow> ptr_state irm \<Rightarrow> (val \<Rightarrow> opr) \<Rightarrow> walked irm" where
  "walkSubview pa v base visit clone =
     bindM (attemptM visit) (\<lambda>r. if r = None then ret (pa, []) else
     (case ptrMap pa base of
        Some b \<Rightarrow> bindM (getM (\<lambda>s. tyOf s v)) (\<lambda>t. bindM (create (clone b) t) (\<lambda>n. ret (mapPtr v n pa, [])))
      | None \<Rightarrow> ret (mapPtr v v pa, [])))"

definition walkStructuredState :: "ptr_analysis \<Rightarrow> val \<Rightarrow> walked irm" where
  "walkStructuredState pa tritonValue =
     (if knownPtrs pa tritonValue \<noteq> None then ret (pa, []) else
      bindM (attemptM (visitOperand pa tritonValue)) (\<lambda>r. case r of
        None \<Rightarrow> ret (pa, [])
      | Some st \<Rightarrow> bindM (getM (\<lambda>s. isStructured s st)) (\<lambda>structured.
          ret (if structured then setKnown tritonValue st pa else pa, []))))"

definition rewriteOne :: "ptr_analysis \<Rightarrow> (val \<Rightarrow> ofr list) \<Rightarrow> val \<Rightarrow> walked irm" where
  "rewriteOne pa offsetMap v = bindM (getM (\<lambda>s. defOp s v)) (\<lambda>d. case d of
     AddPtrOp p off \<Rightarrow> walkAddPtr pa v p
   | BitcastOp a \<Rightarrow> walkBitcast pa v a
   | SplatOp a \<Rightarrow> walkSplat pa v a
   | MakeTensorPtrOp base shs strs offs ord \<Rightarrow>
       bindM (rewriteMakeTensorPtrOp pa offsetMap v) (\<lambda>(pa', ok). ret (pa', []))
   | AdvanceOp p ds \<Rightarrow> bindM (rewriteAdvanceOp pa v) (\<lambda>(pa', ok). ret (pa', []))
   | LoadOp p m other bc pad \<Rightarrow> walkAccess pa v (rewriteLoadOp pa v)
   | StoreOp p x m bc \<Rightarrow> walkAccess pa v (rewriteStoreOp pa v)
   | AllocOp sh \<Rightarrow> walkSource pa v (visitOperandAlloc v sh)
   | BufferTensorViewOp a \<Rightarrow> walkSource pa v (visitOperandBufferTensorViewOp v)
   | SubviewOp base \<Rightarrow> walkSubview pa v base (visitOperandSubview v base) SubviewOp
   | SubviewPackOp base \<Rightarrow> walkSubview pa v base (visitOperandSubviewPack v base) SubviewPackOp
   | GetStructuredStateOp t k \<Rightarrow> walkStructuredState pa t
   | _ \<Rightarrow> ret (pa, []))"

section \<open>The walk\<close>

text \<open>A loop starts a walk of its own over its body, with the block pointers of the body only.\<close>

fun rewriteNode :: "ptr_analysis \<Rightarrow> (val \<Rightarrow> ofr list) \<Rightarrow> node \<Rightarrow> walked irm"
  and rewriteNodes :: "ptr_analysis \<Rightarrow> (val \<Rightarrow> ofr list) \<Rightarrow> node list \<Rightarrow> walked irm" where
  "rewriteNode pa offsetMap (OpNode v) = rewriteOne pa offsetMap v"
| "rewriteNode pa offsetMap (ForNode f body) =
     bindM (rewriteForArgs pa f) (\<lambda>pa'.
     bindM (getM (\<lambda>s. collectOffsets s body)) (\<lambda>offsetMap'. rewriteNodes pa' offsetMap' body))"
| "rewriteNode pa offsetMap (RegionNode body) = rewriteNodes pa offsetMap body"
| "rewriteNodes pa offsetMap [] = ret (pa, [])"
| "rewriteNodes pa offsetMap (n # ns) =
     bindM (rewriteNode pa offsetMap n) (\<lambda>(pa', rs).
     bindM (rewriteNodes pa' offsetMap ns) (\<lambda>(pa'', rs'). ret (pa'', rs @ rs')))"

definition rewriteOp :: "ptr_analysis \<Rightarrow> node list \<Rightarrow> walked irm" where
  "rewriteOp pa body = bindM (getM (\<lambda>s. collectOffsets s body)) (\<lambda>offsetMap. rewriteNodes pa offsetMap body)"

definition rewriteForOp :: "ptr_analysis \<Rightarrow> nat \<Rightarrow> node list \<Rightarrow> walked irm" where
  "rewriteForOp pa f body = bindM (rewriteForArgs pa f) (\<lambda>pa'. rewriteOp pa' body)"

lemma rewriteNode_ForNode: "rewriteNode pa offsetMap (ForNode f body) = rewriteForOp pa f body"
  by (simp add: rewriteForOp_def rewriteOp_def)

section \<open>\<open>tts.get_structured_state\<close>\<close>

definition numResults :: "ty \<Rightarrow> nat" where
  "numResults t = (case buildGetStructuredState t of (a, b, c) \<Rightarrow> 1 + length a + length b + length c)"

text \<open>The values that replace the results, and whether the rewriting succeeded.\<close>

definition revertGetStructuredStateOp :: "val \<Rightarrow> (val list \<times> bool) irm" where
  "revertGetStructuredStateOp tritonValue =
     bindM (getM (\<lambda>s. numResults (tyOf s tritonValue))) (\<lambda>n.
     bindM (mapM (\<lambda>_. createIndexConst 0) [1..<n]) (\<lambda>zeros. ret (tritonValue # zeros, False)))"

definition rewriteGetStructuredStateOp :: "ptr_analysis \<Rightarrow> val \<Rightarrow> (val list \<times> bool) irm" where
  "rewriteGetStructuredStateOp pa tritonValue = (case knownPtrs pa tritonValue of
     None \<Rightarrow> revertGetStructuredStateOp tritonValue
   | Some st \<Rightarrow>
       bindM (getM (\<lambda>s. isStructured s st)) (\<lambda>structured.
       if \<not> structured then revertGetStructuredStateOp tritonValue else
       let remapped = (case ptrMap pa tritonValue of Some w \<Rightarrow> w | None \<Rightarrow> tritonValue) in
       bindM (getRank st) (\<lambda>rank.
       if rank = 0 then (case scalar st of
           Some c \<Rightarrow> ret ([remapped, c, c], True)
         | None \<Rightarrow> bindM (createIndexConst 0) (\<lambda>z. ret ([remapped, z, z], True)))
       else
         bindM (mapM offsetValue (offsets st)) (\<lambda>offs.
         bindM (mapM offsetValue (origiOffsets st)) (\<lambda>orig.
         bindM (mapM offsetValue (strides st)) (\<lambda>strs.
         ret (remapped # offs @ orig @ strs, True)))))))"

end
