(* ===== verification/Walk_Sound.thy ===== *)
theory Walk_Sound
  imports Rewrite_Walk Extends Rewrite_Sound
begin

text \<open>
  The walk only appends operations and never fails: the failures of the single rewritings are
  caught.  The search for structured loop arguments finds exactly the values that the results of
  \<open>tts.get_structured_state\<close> flow to.
\<close>

section \<open>The walk appends\<close>

lemma appends_maskStates [simp]:
  "appends (addStateScalar st x)" "appends (minStateScalar a b)" "appends (minStates a b)" "appends (addMaskStates a b)"
proof -
  show 1: "appends (addStateScalar st x)" for st x
    unfolding addStateScalar_def by (intro appends_intros)
  show "appends (minStateScalar a b)" unfolding minStateScalar_def
    by (auto intro!: appends_intros split: option.split)
  show "appends (minStates a b)" unfolding minStates_def
    by (auto intro!: appends_intros split: prod.split)
  show "appends (addMaskStates a b)" unfolding addMaskStates_def
    by (auto intro: 1 split: option.split)
qed

lemma appends_cmpDimension [simp]: "appends (cmpDimension ds i c)"
  by (induction ds i c rule: cmpDimension.induct) (auto intro!: appends_intros)

lemma appends_cmpNewDim [simp]: "appends (cmpNewDim p a b c)"
  unfolding cmpNewDim_def by (auto intro!: appends_intros split: option.split)

lemma appends_broadcastDims [simp]: "appends (broadcastDims a b ds)"
  by (induction a b ds rule: broadcastDims.induct) (auto intro!: appends_intros)

lemma appends_selectDim [simp]: "appends (selectDim v n)"
  unfolding selectDim_def by (intro appends_intros)

lemma appends_maskLeaves [simp]:
  "appends (parseConstant v a)" "appends (parseIntScalar v)" "appends (parseMakeRange v start stop)"
  unfolding parseConstant_def parseIntScalar_def parseMakeRange_def
  by (auto intro!: appends_intros split: attr.split)

lemma appends_parsers:
  assumes [simp]: "\<And>u. appends (parse u)"
  shows "appends (parseAdd parse a b)" "appends (parseAnd parse a b)" "appends (parseExtSI parse a)"
    "appends (parseCmp parse p a b)" "appends (parseBroadcast parse v a)" "appends (parseSplat parse v a)"
    "appends (parseExpandDims parse v a ax)" "appends (parseLoopIterArg parse f v)"
proof -
  show "appends (parseLoopIterArg parse f v)" unfolding parseLoopIterArg_def
    by (auto intro!: appends_intros split: option.split prod.split gop.split)
qed (auto simp: parseAdd_def parseAnd_def parseExtSI_def parseCmp_def parseBroadcast_def parseSplat_def parseExpandDims_def
    intro!: appends_intros split: option.split)

lemma appends_parseMask [simp]: "appends (parseMask v)"
proof (induction v rule: parseMask.induct)
  case (1 v)
  have "appends (parseStep p v)" if [simp]: "\<And>u. appends (p u)" for p
  proof -
    note [simp] = appends_parsers [of p, OF that]
    show ?thesis unfolding parseStep_def
      by (auto intro!: appends_intros split: gop.split binop.split castop.split)
  qed
  then show ?case by (subst parseMask.simps) (use 1 in simp)
qed

lemma appends_scalars [simp]:
  "appends (reconstructScalarValue cs v)" "appends (castScalarToType v t)"
  by (induction cs v rule: reconstructScalarValue.induct)
    (auto simp: castScalarToType_def intro!: appends_intros)

lemma appends_getScalarFrom [simp]: "appends (getScalarFrom cs v)"
proof (induction cs v rule: getScalarFrom.induct)
  case (1 cs v)
  then show ?case
    by (subst getScalarFrom.simps)
      (auto simp: Let_def intro!: appends_intros split: gop.split attr.split option.split)
qed

lemma appends_bridges [simp]:
  "appends (bridgeLoadResult r t)" "appends (bridgeStoreValue x t)" "appends (createTTSLoad p ds y bc pad)"
  "appends (createTTSStore p x ds bc)" "appends (loadResultType t ds)"
  unfolding bridgeLoadResult_def bridgeScalarResult_def bridgeTensorResult_def bridgeStoreValue_def createTTSLoad_def
    createTTSStore_def loadResultType_def
  by (auto intro!: appends_intros split: option.split ty.split)

lemma appends_access [simp]: "appends (rewriteLoadOp pa v)" "appends (rewriteStoreOp pa v)"
  unfolding rewriteLoadOp_def rewriteStoreOp_def maskDimsOf_def loadOther_def scalarOrElement_def getScalarValue_def
  by (auto intro!: appends_intros split: option.split prod.split)

lemma appends_createPtrs [simp]:
  "appends (createTTSMakeTensorPtrOp st os)" "appends (createTTSMakeGatherScatterTensorPtrOp st)"
  "appends (mergeUnstructuredState st st')"
  unfolding createTTSMakeTensorPtrOp_def createTTSMakeGatherScatterTensorPtrOp_def staticSizes_def makeTensorPtrType_def
    mergeUnstructuredState_def Let_def
  by (auto intro!: appends_intros split: option.split gofr.split ty.split prod.split)

lemma appends_rewrites [simp]:
  "appends (rewriteAddptrOp pa v)" "appends (rewriteMakeTensorPtrOp pa offs v)" "appends (rewriteAdvanceOp pa v)"
  unfolding rewriteAddptrOp_def rewriteUnstructured_def rewriteMakeTensorPtrOp_def rewriteAdvanceOp_def advanceDim_def
    offsetValue_def Let_def
  by (auto intro!: appends_intros appends_handlers split: option.split prod.split)

lemma appends_foldM [appends_intros]: "(\<And>x y. appends (f x y)) \<Longrightarrow> appends (foldM f x ys)"
  by (induction f x ys rule: foldM.induct) (auto intro!: appends_intros)

lemma appends_rewriteForArgs [simp]: "appends (rewriteForArgs pa f)"
  unfolding rewriteForArgs_def rewriteIterArg_def Let_def
  by (auto intro!: appends_intros split: option.split prod.split)

lemma appends_rewriteOne [simp]: "appends (rewriteOne pa offs v)"
  unfolding rewriteOne_def walkAddPtr_def walkBitcast_def walkSplat_def walkAccess_def walkSource_def walkSubview_def
    walkStructuredState_def
  by (auto intro!: appends_intros split: option.split prod.split gop.split)

lemma appends_rewriteNodes: "appends (rewriteNode pa offs n)" "appends (rewriteNodes pa offs ns)"
  by (induction pa offs n and pa offs ns rule: rewriteNode_rewriteNodes.induct)
    (auto intro!: appends_intros split: prod.split)

lemma appends_rewriteOp [simp]: "appends (rewriteOp pa ns)"
  unfolding rewriteOp_def by (intro appends_intros appends_rewriteNodes)

section \<open>The walk does not fail\<close>

text \<open>
  \<open>noFailure m\<close>: the result of \<open>m\<close> is never \<open>failure()\<close>.  It may still be an assertion that does
  not hold.
\<close>

named_theorems noFailure_intros \<open>a computation does not return failure()\<close>

definition noFailure :: "'a irm \<Rightarrow> bool" where
  "noFailure m \<longleftrightarrow> (\<forall>s. fst (m s) \<noteq> Inl Failure)"

lemma noFailure_basic [simp, noFailure_intros]:
  "noFailure (ret x)" "noFailure (raise Abort)" "noFailure (raise Hang)" "noFailure (getM g)" "noFailure (castM y)"
  "noFailure (assertM b)" "noFailure (atM xs i)" "noFailure (create opn t)"
  by (simp_all add: noFailure_def ret_def raise_def getM_def castM_def assertM_def atM_def create_def split: option.split)

lemma noFailure_bindM [noFailure_intros]: "noFailure m \<Longrightarrow> (\<And>x. noFailure (f x)) \<Longrightarrow> noFailure (bindM m f)"
  by (auto simp: noFailure_def bindM_def split: prod.split sum.split) (metis fst_conv)+

lemma noFailure_thenM [noFailure_intros]: "noFailure m \<Longrightarrow> noFailure n \<Longrightarrow> noFailure (thenM m n)"
  unfolding thenM_def by (rule noFailure_bindM)

lemma noFailure_attemptM [simp, noFailure_intros]: "noFailure (attemptM m)"
  by (auto simp: noFailure_def attemptM_def split: prod.split sum.split)

lemma noFailure_mapM [noFailure_intros]: "(\<And>x. noFailure (f x)) \<Longrightarrow> noFailure (mapM f xs)"
  by (induction xs) (auto intro!: noFailure_intros)

lemma noFailure_foldM [noFailure_intros]: "(\<And>x y. noFailure (f x y)) \<Longrightarrow> noFailure (foldM f x ys)"
  by (induction f x ys rule: foldM.induct) (auto intro!: noFailure_intros)

lemma noFailure_builder [simp, noFailure_intros]:
  "noFailure (createBin k a b)" "noFailure (createIndexConst n)" "noFailure (createIndexCast t v)" "noFailure (forAt f)"
  "noFailure (getRank st)" "noFailure (noStructuredDimExists st)"
  unfolding createBin_def createIndexConst_def createIndexCast_def forAt_def getRank_def noStructuredDimExists_def
  by (intro noFailure_intros)+

lemma noFailure_createPtrs [simp, noFailure_intros]:
  "noFailure (createTTSMakeTensorPtrOp st os)" "noFailure (createTTSMakeGatherScatterTensorPtrOp st)"
  unfolding createTTSMakeTensorPtrOp_def createTTSMakeGatherScatterTensorPtrOp_def staticSizes_def makeTensorPtrType_def
    getNonStructuredDim_def
  by (auto intro!: noFailure_intros split: option.split gofr.split ty.split prod.split)

lemma noFailure_rewrites [simp, noFailure_intros]:
  "noFailure (rewriteAddptrOp pa v)" "noFailure (rewriteMakeTensorPtrOp pa offs v)" "noFailure (rewriteAdvanceOp pa v)"
  unfolding rewriteAddptrOp_def rewriteUnstructured_def rewriteMakeTensorPtrOp_def rewriteAdvanceOp_def advanceDim_def
    offsetValue_def Let_def
  by (auto intro!: noFailure_intros split: option.split prod.split)

lemma noFailure_rewriteForArgs [simp, noFailure_intros]: "noFailure (rewriteForArgs pa f)"
  unfolding rewriteForArgs_def rewriteIterArg_def Let_def
  by (auto intro!: noFailure_intros split: option.split prod.split)

lemma noFailure_rewriteOne [simp, noFailure_intros]: "noFailure (rewriteOne pa offs v)"
  unfolding rewriteOne_def walkAddPtr_def walkBitcast_def walkSplat_def walkAccess_def walkSource_def walkSubview_def
    walkStructuredState_def
  by (auto intro!: noFailure_intros split: option.split prod.split gop.split)

lemma noFailure_rewriteNodes: "noFailure (rewriteNode pa offs n)" "noFailure (rewriteNodes pa offs ns)"
  by (induction pa offs n and pa offs ns rule: rewriteNode_rewriteNodes.induct)
    (auto intro!: noFailure_intros split: prod.split)

lemma noFailure_rewriteOp: "noFailure (rewriteOp pa ns)"
  unfolding rewriteOp_def by (intro noFailure_intros noFailure_rewriteNodes)

section \<open>The search for structured loop arguments\<close>

text \<open>One step of the flow, and the values it reaches in one or more steps.\<close>

definition flows :: "ir \<Rightarrow> (val \<times> val) set" where
  "flows s = {(v, w). w \<in> set (neighbors s v)}"

lemma maybeStructuredFrom_sound:
  "set (maybeStructuredFrom s q vis found) \<subseteq> set found \<union> (flows s)\<^sup>+ `` set q"
proof (induction s q vis found rule: maybeStructuredFrom.induct)
  case (1 s visited found)
  then show ?case by simp
next
  case (2 s v q visited found)
  obtain q' vis' found' where f: "foldl visitNeighbor (q, visited, found) (neighbors s v) = (q', vis', found')"
    by (metis prod_cases3)
  note sets = foldl_visitNeighbor [OF f]
  have "(flows s)\<^sup>+ `` set q' \<subseteq> (flows s)\<^sup>+ `` set (v # q)"
    using sets by (auto simp: flows_def intro: trancl_into_trancl2)
  moreover have "set found' \<subseteq> set found \<union> (flows s)\<^sup>+ `` set (v # q)"
    using sets by (auto simp: flows_def)
  moreover have "set (maybeStructuredFrom s q' vis' found') \<subseteq> set found' \<union> (flows s)\<^sup>+ `` set q'"
    by (rule 2 [OF f [symmetric] refl refl])
  ultimately show ?case unfolding maybeStructuredFrom.simps f Let_def prod.case by blast
qed

lemma maybeStructuredFrom_complete:
  assumes "set q \<subseteq> set vis"
    and "\<And>u. u \<in> set vis \<Longrightarrow> u \<notin> set q \<Longrightarrow> set (neighbors s u) \<subseteq> set vis \<inter> set found"
  shows "set found \<union> (flows s)\<^sup>+ `` set vis \<subseteq> set (maybeStructuredFrom s q vis found)"
  using assms
proof (induction s q vis found rule: maybeStructuredFrom.induct)
  case (1 s visited found)
  have "w \<in> set found \<and> w \<in> set visited" if "(u, w) \<in> (flows s)\<^sup>+" "u \<in> set visited" for u w
    using that by (induction rule: trancl_induct) (use 1 in \<open>auto simp: flows_def\<close>)
  then show ?case by auto
next
  case (2 s v q visited found)
  obtain q' vis' found' where f: "foldl visitNeighbor (q, visited, found) (neighbors s v) = (q', vis', found')"
    by (metis prod_cases3)
  note sets = foldl_visitNeighbor [OF f]
  have "set found' \<union> (flows s)\<^sup>+ `` set vis' \<subseteq> set (maybeStructuredFrom s q' vis' found')"
  proof (rule 2 (1) [OF f [symmetric] refl refl])
    show "set q' \<subseteq> set vis'" using sets 2(2) by auto
    fix u assume u: "u \<in> set vis'" "u \<notin> set q'"
    then have "u \<in> set visited" "u \<notin> set q" using sets by auto
    then show "set (neighbors s u) \<subseteq> set vis' \<inter> set found'" using 2(3) [of u] sets by (cases "u = v") auto
  qed
  moreover have "set found \<union> (flows s)\<^sup>+ `` set visited \<subseteq> set found' \<union> (flows s)\<^sup>+ `` set vis'"
    using sets by auto
  ultimately show ?case unfolding maybeStructuredFrom.simps f Let_def prod.case by blast
qed

lemma initializeMaybeStructuredArgs_set:
  "set (maybeStructuredArgs (initializeMaybeStructuredArgs s pa)) =
   set (maybeStructuredArgs pa) \<union> (flows s)\<^sup>+ `` set (stateOps s)"
proof
  show "set (maybeStructuredArgs (initializeMaybeStructuredArgs s pa))
      \<subseteq> set (maybeStructuredArgs pa) \<union> (flows s)\<^sup>+ `` set (stateOps s)"
    using maybeStructuredFrom_sound by (simp add: initializeMaybeStructuredArgs_def)
  show "set (maybeStructuredArgs pa) \<union> (flows s)\<^sup>+ `` set (stateOps s)
      \<subseteq> set (maybeStructuredArgs (initializeMaybeStructuredArgs s pa))"
    unfolding initializeMaybeStructuredArgs_def using maybeStructuredFrom_complete [of "stateOps s" "stateOps s" s] by simp
qed

section \<open>The results of \<open>tts.get_structured_state\<close>\<close>

lemma wp_zeros:
  assumes "wf_ir s"
    and "\<And>zs t. grows s t \<Longrightarrow> length zs = length xs \<Longrightarrow>
      \<forall>z \<in> set zs. valid t z \<and> tyOf t z = IndexTy \<and> (\<forall>E. eval E t z [] = 0) \<Longrightarrow> Q zs t"
  shows "wp (mapM (\<lambda>_. createIndexConst 0) xs) Q s"
proof (rule wp_mapM [where I = "\<lambda>zs t. grows s t \<and> (\<forall>z \<in> set zs. valid t z \<and> tyOf t z = IndexTy \<and> (\<forall>E. eval E t z [] = 0))"])
  fix n zs t assume I: "grows s t \<and> (\<forall>z \<in> set zs. valid t z \<and> tyOf t z = IndexTy \<and> (\<forall>E. eval E t z [] = 0))"
  show "wp (createIndexConst 0) (\<lambda>z t'. grows s t' \<and>
      (\<forall>z \<in> set (zs @ [z]). valid t' z \<and> tyOf t' z = IndexTy \<and> (\<forall>E. eval E t' z [] = 0))) t"
    by (rule wp_createIndexConst)
      (use I growsD(2) in \<open>auto intro: grows_trans simp: valid_grows tyOf_grows eval_grows\<close>)
qed (use assms in auto)

lemma map_eval_grows:
  "grows s t \<Longrightarrow> \<forall>y \<in> set ys. valid s y \<Longrightarrow> map (\<lambda>y. eval E t y []) ys = map (\<lambda>y. eval E s y []) ys"
  by (simp add: eval_grows)

lemma map_osem_grows: "grows s t \<Longrightarrow> \<forall>x \<in> set xs. idx_ofr s x \<Longrightarrow> map (osem E t) xs = map (osem E s) xs"
  by (simp add: osem_grows)

lemma wp_offsetValues:
  assumes "wf_ir s" and "\<forall>x \<in> set xs. idx_ofr s x"
    and "\<And>ys t. grows s t \<Longrightarrow> length ys = length xs \<Longrightarrow> \<forall>y \<in> set ys. valid t y \<and> tyOf t y = IndexTy \<Longrightarrow>
      (\<And>E. map (\<lambda>y. eval E t y []) ys = map (osem E t) xs) \<Longrightarrow> Q ys t"
  shows "wp (mapM offsetValue xs) Q s"
proof (rule wp_mapM [where I = "\<lambda>ys t. grows s t \<and> (\<forall>y \<in> set ys. valid t y \<and> tyOf t y = IndexTy) \<and>
    (\<forall>E. map (\<lambda>y. eval E t y []) ys = map (osem E s) (take (length ys) xs))"])
  fix n ys t
  assume n: "n < length xs" "length ys = n" and I: "grows s t \<and> (\<forall>y \<in> set ys. valid t y \<and> tyOf t y = IndexTy) \<and>
    (\<forall>E. map (\<lambda>y. eval E t y []) ys = map (osem E s) (take (length ys) xs))"
  have x: "idx_ofr s (xs ! n)" using n assms(2) by simp
  show "wp (offsetValue (xs ! n)) (\<lambda>y t'. grows s t' \<and> (\<forall>y \<in> set (ys @ [y]). valid t' y \<and> tyOf t' y = IndexTy) \<and>
    (\<forall>E. map (\<lambda>y. eval E t' y []) (ys @ [y]) = map (osem E s) (take (length (ys @ [y])) xs))) t"
  proof (rule wp_offsetValue [OF growsD(2)])
    fix y u assume y: "grows t u" "valid u y" "tyOf u y = IndexTy" "\<And>E. eval E u y [] = osem E t (xs ! n)"
    have "map (\<lambda>y. eval E u y []) ys = map (\<lambda>y. eval E t y []) ys" for E
      using I by (intro map_eval_grows [OF y(1)]) simp
    then show "grows s u \<and> (\<forall>y \<in> set (ys @ [y]). valid u y \<and> tyOf u y = IndexTy) \<and>
      (\<forall>E. map (\<lambda>y. eval E u y []) (ys @ [y]) = map (osem E s) (take (length (ys @ [y])) xs))"
      using I y(2,3,4) n grows_trans [OF _ y(1), of s] valid_grows [OF y(1)] tyOf_grows [OF y(1)] osem_grows [OF _ x, of t]
      by (auto simp: take_Suc_conv_app_nth)
  qed (use I idx_ofr_grows [OF _ x] in auto)
next
  fix ys t assume "length ys = length xs" and I: "grows s t \<and> (\<forall>y \<in> set ys. valid t y \<and> tyOf t y = IndexTy) \<and>
    (\<forall>E. map (\<lambda>y. eval E t y []) ys = map (osem E s) (take (length ys) xs))"
  moreover have "map (osem E t) xs = map (osem E s) xs" for E
    using assms(2) osem_grows [of s t] I by simp
  ultimately show "Q ys t" by (intro assms(3)) auto
qed (use assms(1) in simp)

text \<open>
  A state with as many dimensions as \<open>tts.get_structured_state\<close> has offsets for the type of the
  input; a state without dimensions is that of a scalar pointer.
\<close>

definition stateFits :: "ir \<Rightarrow> ty \<Rightarrow> ptr_state \<Rightarrow> bool" where
  "stateFits s t st \<longleftrightarrow> getRank st = ret (length (offsets st)) \<and> (\<forall>c. scalar st = Some c \<longrightarrow> valid s c \<and> tyOf s c = IndexTy) \<and>
     (\<forall>x \<in> set (offsets st) \<union> set (origiOffsets st) \<union> set (strides st). idx_ofr s x) \<and>
     length (strides st) = length (offsets st) \<and>
     numResults t = (if offsets st = [] then 3 else 1 + length (offsets st) + length (origiOffsets st) + length (strides st))"

lemma wp_revertGetStructuredStateOp:
  assumes wf: "wf_ir s" and n: "0 < numResults (tyOf s v)"
    and post: "\<And>zs t. grows s t \<Longrightarrow> length (v # zs) = numResults (tyOf s v) \<Longrightarrow>
      \<forall>z \<in> set zs. valid t z \<and> tyOf t z = IndexTy \<Longrightarrow> Q (v # zs, False) t"
  shows "wp (revertGetStructuredStateOp v) Q s"
  unfolding revertGetStructuredStateOp_def wp_bindM wp_getM
  by (rule wp_zeros [OF wf]) (use n post in \<open>simp add: wp_ret\<close>)

lemma numResults_pos: "0 < numResults t"
  by (simp add: numResults_def split: prod.split)

lemma wp_rewriteGetStructuredStateOp:
  assumes wf: "wf_ir s" and fits: "\<And>st. knownPtrs pa v = Some st \<Longrightarrow> stateFits s (tyOf s v) st"
    and post: "\<And>r zs ok t. grows s t \<Longrightarrow> length (r # zs) = numResults (tyOf s v) \<Longrightarrow>
      \<forall>z \<in> set zs. valid t z \<and> tyOf t z = IndexTy \<Longrightarrow> (\<not> ok \<Longrightarrow> r = v) \<Longrightarrow>
      (\<And>st E. ok \<Longrightarrow> knownPtrs pa v = Some st \<Longrightarrow> offsets st \<noteq> [] \<Longrightarrow>
        map (\<lambda>z. eval E t z []) zs = map (osem E t) (offsets st @ origiOffsets st @ strides st)) \<Longrightarrow> Q (r # zs, ok) t"
  shows "wp (rewriteGetStructuredStateOp pa v) Q s"
proof (cases "knownPtrs pa v")
  case None
  have "wp (revertGetStructuredStateOp v) Q s"
    by (rule wp_revertGetStructuredStateOp [OF wf numResults_pos]) (use post None in auto)
  then show ?thesis using None by (simp add: rewriteGetStructuredStateOp_def)
next
  case (Some st)
  note f = fits [OF Some]
  define r where "r = (case ptrMap pa v of Some w \<Rightarrow> w | None \<Rightarrow> v)"
  have rank: "getRank st = ret (length (offsets st))" using f by (simp add: stateFits_def)
  have rev: "wp (revertGetStructuredStateOp v) Q s"
    by (rule wp_revertGetStructuredStateOp [OF wf numResults_pos]) (use post Some in auto)
  have zero: "wp (createIndexConst 0) (\<lambda>z. Q ([r, z, z], True)) s" if "offsets st = []"
    by (rule wp_createIndexConst [OF wf]) (use that f Some in \<open>auto simp: stateFits_def intro!: post\<close>)
  have sc: "Q ([r, c, c], True) s" if "offsets st = []" "scalar st = Some c" for c
    by (rule post) (use that f Some wf in \<open>auto simp: stateFits_def\<close>)
  have dims: "wp (mapM offsetValue (offsets st)) (\<lambda>offs. wp (mapM offsetValue (origiOffsets st)) (\<lambda>orig.
      wp (mapM offsetValue (strides st)) (\<lambda>strs. Q (r # offs @ orig @ strs, True)))) s" if ne: "offsets st \<noteq> []"
  proof (rule wp_offsetValues [OF wf])
    fix os t assume t: "grows s t" "length os = length (offsets st)" "\<forall>y \<in> set os. valid t y \<and> tyOf t y = IndexTy"
      "\<And>E. map (\<lambda>y. eval E t y []) os = map (osem E t) (offsets st)"
    show "wp (mapM offsetValue (origiOffsets st)) (\<lambda>orig.
      wp (mapM offsetValue (strides st)) (\<lambda>strs. Q (r # os @ orig @ strs, True))) t"
    proof (rule wp_offsetValues [OF growsD(2) [OF t(1)]])
      fix gs u assume u: "grows t u" "length gs = length (origiOffsets st)" "\<forall>y \<in> set gs. valid u y \<and> tyOf u y = IndexTy"
        "\<And>E. map (\<lambda>y. eval E u y []) gs = map (osem E u) (origiOffsets st)"
      note su = grows_trans [OF t(1) u(1)]
      show "wp (mapM offsetValue (strides st)) (\<lambda>strs. Q (r # os @ gs @ strs, True)) u"
      proof (rule wp_offsetValues [OF growsD(2) [OF u(1)]])
        fix ss w assume w: "grows u w" "length ss = length (strides st)" "\<forall>y \<in> set ss. valid w y \<and> tyOf w y = IndexTy"
          "\<And>E. map (\<lambda>y. eval E w y []) ss = map (osem E w) (strides st)"
        note tw = grows_trans [OF u(1) w(1)] and sw = grows_trans [OF su w(1)]
        have i: "\<forall>x \<in> set (offsets st). idx_ofr t x" "\<forall>x \<in> set (origiOffsets st). idx_ofr u x"
          using f idx_ofr_grows [OF t(1)] idx_ofr_grows [OF su] by (auto simp: stateFits_def)
        have 1: "map (\<lambda>y. eval E w y []) os = map (osem E w) (offsets st)" for E
          unfolding map_osem_grows [OF tw i(1)] t(4) [symmetric] by (rule map_eval_grows [OF tw]) (use t(3) in simp)
        have 2: "map (\<lambda>y. eval E w y []) gs = map (osem E w) (origiOffsets st)" for E
          unfolding map_osem_grows [OF w(1) i(2)] u(4) [symmetric] by (rule map_eval_grows [OF w(1)]) (use u(3) in simp)
        show "Q (r # os @ gs @ ss, True) w"
          by (rule post [OF sw])
            (use ne f Some t(2,3) u(2,3) w(2,3,4) 1 2 valid_grows [OF tw] tyOf_grows [OF tw] valid_grows [OF w(1)]
              tyOf_grows [OF w(1)] in \<open>auto simp: stateFits_def\<close>)
      qed (use f idx_ofr_grows [OF su] in \<open>auto simp: stateFits_def\<close>)
    qed (use f idx_ofr_grows [OF t(1)] in \<open>auto simp: stateFits_def\<close>)
  qed (use f in \<open>auto simp: stateFits_def\<close>)
  show ?thesis
    using Some rev rank zero sc dims
    by (auto simp: rewriteGetStructuredStateOp_def Let_def wp_simps r_def [symmetric] split: option.split)
qed

end
