(* ===== verification/Walk_Main.thy ===== *)
theory Walk_Main
  imports Walk_Sound LoadStore_Sound
begin

text \<open>
  The walk over a block of address computations, loads and stores: after every step the structured
  pointers recorded so far have the addresses of the pointers they replace, so every load and store
  is replaced by one that touches the same addresses.
\<close>

section \<open>Affine terms of a growing program\<close>

text \<open>
  An affine term stays affine while the program grows and pointers become known: the known pointer
  takes the place of its term.
\<close>

lemma exact_grows:
  assumes g: "grows s t" and wf: "wf_ir s" and v: "valid s v" and x: "exact E s v"
  shows "exact E t v"
proof -
  have "denOp E (tyOf t) (eval E t) v (defOp s v) (tyOf s v) idx = denOp E (tyOf s) (eval E s) v (defOp s v) (tyOf s v) idx" for idx
    using wf_operand_valid [OF wf v] tyOf_grows [OF g] eval_grows [OF g] by (intro denOp_cong) simp_all
  then show ?thesis
    using x defOp_grows [OF g v] tyOf_grows [OF g v] eval_grows [OF g v] by (simp add: exact_def)
qed

definition onlyPointersKnown :: "ir \<Rightarrow> ptr_analysis \<Rightarrow> bool" where
  "onlyPointersKnown s pa \<longleftrightarrow> (\<forall>u st. knownPtrs pa u = Some st \<longrightarrow> isPtrTy (elemTy (tyOf s u)))"

lemma affine_known_or:
  assumes "valid t v" "\<not> isAnalysisingUnstructured pa" "onlyPointersKnown s pa"
    and "fresh pa v \<Longrightarrow> \<exists>sc'. affine E pa t v sc' \<and> (\<not> isPtrTy (elemTy (tyOf s v)) \<longrightarrow> sc' = sc)"
  shows "\<exists>sc'. affine E pa t v sc' \<and> (\<not> isPtrTy (elemTy (tyOf s v)) \<longrightarrow> sc' = sc)"
proof (cases "knownPtrs pa v")
  case None
  then show ?thesis using assms(4) by (simp add: fresh_def)
next
  case (Some st)
  then show ?thesis using affine.known [OF assms(1,2) Some] assms(3) by (auto simp: onlyPointersKnown_def)
qed

lemma affine_mono:
  assumes "affine E pa0 s v sc" and none: "knownPtrs pa0 = Map.empty" "\<not> isAnalysisingUnstructured pa0"
    and wf: "wf_ir s" and g: "grows s t" and mode: "\<not> isAnalysisingUnstructured pa" and ptrs: "onlyPointersKnown s pa"
  shows "\<exists>sc'. affine E pa t v sc' \<and> (\<not> isPtrTy (elemTy (tyOf s v)) \<longrightarrow> sc' = sc)"
  using assms(1)
proof (induction rule: affine.induct)
  case (known v st)
  then show ?case using none by simp
next
  case (int v)
  show ?case
    by (rule affine_known_or [OF valid_grows [OF g int(1)] mode ptrs])
      (use affine.int [of t v pa E] valid_grows [OF g int(1)] tyOf_grows [OF g int(1)] int in auto)
next
  case (ptr v)
  show ?case
    by (rule affine_known_or [OF valid_grows [OF g ptr(1)] mode ptrs])
      (use affine.ptr [of t v pa E] valid_grows [OF g ptr(1)] tyOf_grows [OF g ptr(1)] defOp_grows [OF g ptr(1)] ptr in auto)
next
  case (bitcast v a f)
  have a: "valid s a" using wf_operand_valid [OF wf bitcast(1), of a] bitcast(3) by simp
  obtain f' where f: "affine E pa t a f'" using bitcast.IH by blast
  have e: "isPtrTy (elemTy (tyOf s v))" using bitcast(4) by (cases "tyOf s v") simp_all
  show ?case
  proof (rule affine_known_or [OF valid_grows [OF g bitcast(1)] mode ptrs])
    assume "fresh pa v"
    then have "affine E pa t v f'"
      by (rule affine.bitcast [OF valid_grows [OF g bitcast(1)] _ _ _ _ _ f])
        (use bitcast(3-6) tyOf_grows [OF g bitcast(1)] defOp_grows [OF g bitcast(1)] tyOf_grows [OF g a] in simp_all)
    then show "\<exists>sc'. affine E pa t v sc' \<and> (\<not> isPtrTy (elemTy (tyOf s v)) \<longrightarrow> sc' = f)" using e by blast
  qed
next
  case (addptr v p d fa fb)
  have a: "valid s p" "valid s d"
    using wf_operand_valid [OF wf addptr(1), of p] wf_operand_valid [OF wf addptr(1), of d] addptr(3) by auto
  obtain fa' fb' where f: "affine E pa t p fa'" "affine E pa t d fb'" using addptr.IH by blast
  have e: "isPtrTy (elemTy (tyOf s v))" using addptr(5) by (cases "tyOf s v") auto
  show ?case
  proof (rule affine_known_or [OF valid_grows [OF g addptr(1)] mode ptrs])
    assume "fresh pa v"
    then have "affine E pa t v (if shapeOf (tyOf t v) = [] then fa' \<or> fb' else fa' \<and> fb')"
      by (rule affine.addptr [OF valid_grows [OF g addptr(1)] _ _ _ _ _ _ f])
        (use addptr(3-7) tyOf_grows [OF g addptr(1)] defOp_grows [OF g addptr(1)] tyOf_grows [OF g a(1)] tyOf_grows [OF g a(2)] in simp_all)
    then show "\<exists>sc'. affine E pa t v sc' \<and>
        (\<not> isPtrTy (elemTy (tyOf s v)) \<longrightarrow> sc' = (if shapeOf (tyOf s v) = [] then fa \<or> fb else fa \<and> fb))"
      using e by blast
  qed
next
  case (add v a b sh ty fa fb)
  have a: "valid s a" "valid s b"
    using wf_operand_valid [OF wf add(1), of a] wf_operand_valid [OF wf add(1), of b] add(3) by auto
  have n: "\<not> isPtrTy ty" using add(5) by (cases ty) simp_all
  then have f: "affine E pa t a fa" "affine E pa t b fb" using add by auto
  show ?case
  proof (rule affine_known_or [OF valid_grows [OF g add(1)] mode ptrs])
    assume "fresh pa v"
    then have "affine E pa t v (fa \<and> fb)"
      by (rule affine.add [OF valid_grows [OF g add(1)] _ _ _ _ _ _ exact_grows [OF g wf add(1,8)] f])
        (use add(3-7) tyOf_grows [OF g add(1)] defOp_grows [OF g add(1)] tyOf_grows [OF g a(1)] tyOf_grows [OF g a(2)] in simp_all)
    then show "\<exists>sc'. affine E pa t v sc' \<and> (\<not> isPtrTy (elemTy (tyOf s v)) \<longrightarrow> sc' = (fa \<and> fb))"
      by blast
  qed
next
  case (sub v a b sh ty fa fb)
  have a: "valid s a" "valid s b"
    using wf_operand_valid [OF wf sub(1), of a] wf_operand_valid [OF wf sub(1), of b] sub(3) by auto
  have n: "\<not> isPtrTy ty" using sub(5) by (cases ty) simp_all
  then have f: "affine E pa t a fa" "affine E pa t b fb" using sub by auto
  show ?case
  proof (rule affine_known_or [OF valid_grows [OF g sub(1)] mode ptrs])
    assume "fresh pa v"
    then have "affine E pa t v (fa \<and> fb)"
      by (rule affine.sub [OF valid_grows [OF g sub(1)] _ _ _ _ _ _ exact_grows [OF g wf sub(1,8)] f])
        (use sub(3-7) tyOf_grows [OF g sub(1)] defOp_grows [OF g sub(1)] tyOf_grows [OF g a(1)] tyOf_grows [OF g a(2)] in simp_all)
    then show "\<exists>sc'. affine E pa t v sc' \<and> (\<not> isPtrTy (elemTy (tyOf s v)) \<longrightarrow> sc' = (fa \<and> fb))"
      by blast
  qed
next
  case (mul v a b sh ty fa fb)
  have a: "valid s a" "valid s b"
    using wf_operand_valid [OF wf mul(1), of a] wf_operand_valid [OF wf mul(1), of b] mul(3) by auto
  have n: "\<not> isPtrTy ty" using mul(6) by (cases ty) simp_all
  then have f: "affine E pa t a fa" "affine E pa t b fb" using mul by auto
  show ?case
  proof (rule affine_known_or [OF valid_grows [OF g mul(1)] mode ptrs])
    assume "fresh pa v"
    then have "affine E pa t v (fa \<and> fb)"
      by (rule affine.mul [OF valid_grows [OF g mul(1)] _ _ _ _ _ _ _ exact_grows [OF g wf mul(1,9)] f])
        (use mul(3-8,12) tyOf_grows [OF g mul(1)] defOp_grows [OF g mul(1)] tyOf_grows [OF g a(1)] tyOf_grows [OF g a(2)] in simp_all)
    then show "\<exists>sc'. affine E pa t v sc' \<and> (\<not> isPtrTy (elemTy (tyOf s v)) \<longrightarrow> sc' = (fa \<and> fb))"
      by blast
  qed
next
  case (range v start stop)
  show ?case
  proof (rule affine_known_or [OF valid_grows [OF g range(1)] mode ptrs])
    assume "fresh pa v"
    then have "affine E pa t v (False)"
      by (rule affine.range [OF valid_grows [OF g range(1)]])
        (use range(3-) tyOf_grows [OF g range(1)] defOp_grows [OF g range(1)] in simp_all)
    then show "\<exists>sc'. affine E pa t v sc' \<and> (\<not> isPtrTy (elemTy (tyOf s v)) \<longrightarrow> sc' = (False))"
      by blast
  qed
next
  case (splat v a sh f)
  have a: "valid s a" using wf_operand_valid [OF wf splat(1), of a] splat(3) by simp
  obtain f' where f: "affine E pa t a f'" "\<not> isPtrTy (elemTy (tyOf s a)) \<longrightarrow> f' = f" using splat.IH by blast
  have e: "elemTy (tyOf s a) = tyOf s a" using splat(6) by (cases "tyOf s a") auto
  show ?case
  proof (rule affine_known_or [OF valid_grows [OF g splat(1)] mode ptrs])
    assume "fresh pa v"
    then have "affine E pa t v (f')"
      by (rule affine.splat [OF valid_grows [OF g splat(1)] _ _ _ _ _ _ f(1)])
        (use splat(3-7) tyOf_grows [OF g splat(1)] defOp_grows [OF g splat(1)] tyOf_grows [OF g a] in simp_all)
    then show "\<exists>sc'. affine E pa t v sc' \<and> (\<not> isPtrTy (elemTy (tyOf s v)) \<longrightarrow> sc' = (f))"
      using f(2) splat(4) e by auto
  qed
next
  case (const v n t' ty sh)
  show ?case
  proof (rule affine_known_or [OF valid_grows [OF g const(1)] mode ptrs])
    assume "fresh pa v"
    then have "affine E pa t v (True)"
      by (rule affine.const [OF valid_grows [OF g const(1)]])
        (use const(3-) tyOf_grows [OF g const(1)] defOp_grows [OF g const(1)] in simp_all)
    then show "\<exists>sc'. affine E pa t v sc' \<and> (\<not> isPtrTy (elemTy (tyOf s v)) \<longrightarrow> sc' = (True))"
      by blast
  qed
next
  case (expand v a ax sh ty f)
  have a: "valid s a" using wf_operand_valid [OF wf expand(1), of a] expand(3) by simp
  obtain f' where f: "affine E pa t a f'" "\<not> isPtrTy (elemTy (tyOf s a)) \<longrightarrow> f' = f" using expand.IH by blast
  show ?case
  proof (rule affine_known_or [OF valid_grows [OF g expand(1)] mode ptrs])
    assume "fresh pa v"
    then have "affine E pa t v (f')"
      by (rule affine.expand [OF valid_grows [OF g expand(1)] _ _ _ _ _ _ _ f(1)])
        (use expand(3-8) tyOf_grows [OF g expand(1)] defOp_grows [OF g expand(1)] tyOf_grows [OF g a] in simp_all)
    then show "\<exists>sc'. affine E pa t v sc' \<and> (\<not> isPtrTy (elemTy (tyOf s v)) \<longrightarrow> sc' = (f))"
      using f(2) expand(4,5) by auto
  qed
next
  case (broadcast v a sh ty sh' f)
  have a: "valid s a" using wf_operand_valid [OF wf broadcast(1), of a] broadcast(3) by simp
  obtain f' where f: "affine E pa t a f'" "\<not> isPtrTy (elemTy (tyOf s a)) \<longrightarrow> f' = f" using broadcast.IH by blast
  show ?case
  proof (rule affine_known_or [OF valid_grows [OF g broadcast(1)] mode ptrs])
    assume "fresh pa v"
    then have "affine E pa t v (f')"
      by (rule affine.broadcast [OF valid_grows [OF g broadcast(1)] _ _ _ _ _ _ _ f(1)])
        (use broadcast(3-8) tyOf_grows [OF g broadcast(1)] defOp_grows [OF g broadcast(1)] tyOf_grows [OF g a] in simp_all)
    then show "\<exists>sc'. affine E pa t v sc' \<and> (\<not> isPtrTy (elemTy (tyOf s v)) \<longrightarrow> sc' = (f))"
      using f(2) broadcast(4,5) by auto
  qed
next
  case (extsi v a sh n w f)
  have a: "valid s a" using wf_operand_valid [OF wf extsi(1), of a] extsi(3) by simp
  obtain f' where f: "affine E pa t a f'" "\<not> isPtrTy (elemTy (tyOf s a)) \<longrightarrow> f' = f" using extsi.IH by blast
  show ?case
  proof (rule affine_known_or [OF valid_grows [OF g extsi(1)] mode ptrs])
    assume "fresh pa v"
    then have "affine E pa t v (f')"
      by (rule affine.extsi [OF valid_grows [OF g extsi(1)] _ _ _ _ _ f(1)])
        (use extsi(3-6) tyOf_grows [OF g extsi(1)] defOp_grows [OF g extsi(1)] tyOf_grows [OF g a] in simp_all)
    then show "\<exists>sc'. affine E pa t v sc' \<and> (\<not> isPtrTy (elemTy (tyOf s v)) \<longrightarrow> sc' = (f))"
      using f(2) extsi(4,5) by auto
  qed
next
  case (extui v a sh n w f)
  have a: "valid s a" using wf_operand_valid [OF wf extui(1), of a] extui(3) by simp
  obtain f' where f: "affine E pa t a f'" "\<not> isPtrTy (elemTy (tyOf s a)) \<longrightarrow> f' = f" using extui.IH by blast
  show ?case
  proof (rule affine_known_or [OF valid_grows [OF g extui(1)] mode ptrs])
    assume "fresh pa v"
    then have "affine E pa t v (f')"
      by (rule affine.extui [OF valid_grows [OF g extui(1)] _ _ _ _ _ _ f(1)])
        (use extui(3-7) tyOf_grows [OF g extui(1)] defOp_grows [OF g extui(1)] tyOf_grows [OF g a] eval_grows [OF g a] in simp_all)
    then show "\<exists>sc'. affine E pa t v sc' \<and> (\<not> isPtrTy (elemTy (tyOf s v)) \<longrightarrow> sc' = (f))"
      using f(2) extui(4,5) by auto
  qed
qed

section \<open>Replaced loads and stores\<close>

text \<open>A replacement that does what the load or store it replaces does.\<close>

definition refines :: "env \<Rightarrow> ir \<Rightarrow> ir \<Rightarrow> val \<times> val \<Rightarrow> bool" where
  "refines E s t = (\<lambda>(v, r). valid t r \<and> (case defOp s v of
     LoadOp p m oth bc pad \<Rightarrow> tyOf t r = tyOf s v \<and> (\<forall>mem junk idx. inB (shapeOf (tyOf s v)) idx \<longrightarrow>
       loadSem mem junk E t (defOp t r) idx = loadSem mem junk E s (defOp s v) idx)
   | StoreOp p x m bc \<Rightarrow> \<forall>idx. inB (shapeOf (tyOf s x)) idx \<longrightarrow> storeSem E t (defOp t r) idx = storeSem E s (defOp s v) idx
   | _ \<Rightarrow> False))"

lemma inMask_ext:
  assumes "grows t u" "\<forall>d \<in> set dims. ofrVals d \<subseteq> {v. valid t v}"
  shows "inMask E u dims idx = inMask E t dims idx"
proof -
  have "osem E u d = osem E t d" if "d \<in> set dims" for d
    using that assms eval_grows [OF assms(1)] by (auto simp: osem_def intro!: ofrSem_cong)
  then show ?thesis by (auto simp: inMask_def list_all2_conv_all_nth)
qed

lemma access_grows:
  assumes "wf_ir t" "grows t u" "valid t r"
  shows "loadSem mem junk E u (defOp t r) idx = loadSem mem junk E t (defOp t r) idx"
    "storeSem E u (defOp t r) idx = storeSem E t (defOp t r) idx"
proof -
  have v: "a \<in> operands (defOp t r) \<Longrightarrow> eval E u a = eval E t a" for a
    using wf_operand_valid [OF assms(1,3)] eval_grows [OF assms(2)] by blast
  have m: "inMask E u dims idx = inMask E t dims idx" if "\<Union> (ofrVals ` set dims) \<subseteq> operands (defOp t r)" for dims
    using that wf_operand_valid [OF assms(1,3)] by (intro inMask_ext [OF assms(2)]) blast
  show "loadSem mem junk E u (defOp t r) idx = loadSem mem junk E t (defOp t r) idx"
    using v m by (cases "defOp t r") (auto simp: loadSem_def activeAt_def split: option.splits)
  show "storeSem E u (defOp t r) idx = storeSem E t (defOp t r) idx"
    using v m by (cases "defOp t r") (auto simp: storeSem_def activeAt_def split: option.splits)
qed

lemma refines_grows:
  assumes "grows t u" "refines E s t x"
  shows "refines E s u x"
proof -
  obtain v r where x: "x = (v, r)" by fastforce
  then have r: "valid t r" using assms(2) by (simp add: refines_def)
  note g = defOp_grows [OF assms(1) r] tyOf_grows [OF assms(1) r] valid_grows [OF assms(1) r]
    access_grows [OF grows_wf [OF assms(1)] assms(1) r]
  show ?thesis using assms(2) g unfolding x refines_def by (auto split: gop.splits)
qed

section \<open>Programs the walk rewrites\<close>

text \<open>
  One operation, after the operations \<open>seen\<close>: an affine address computation, or a load or store
  through a tensor of pointers computed before, whose element types agree and whose mask and
  \<open>other\<close> are terms the analyses know.  Any other operation is allowed that does not create
  pointers of its own.
\<close>

definition accessOk :: "env \<Rightarrow> ir \<Rightarrow> val set \<Rightarrow> val \<Rightarrow> val option \<Rightarrow> int list \<Rightarrow> ty \<Rightarrow> bool" where
  "accessOk E s seen p msk sh e \<longleftrightarrow> p \<in> seen \<and> (\<exists>q d. defOp s p = AddPtrOp q d) \<and> tyOf s p = TensorTy sh (PtrTy e) \<and>
     \<not> viaCast s p \<and> maskOk E s sh msk"

definition stepOk :: "env \<Rightarrow> ptr_analysis \<Rightarrow> ir \<Rightarrow> val set \<Rightarrow> val \<Rightarrow> bool" where
  "stepOk E pa s seen v \<longleftrightarrow> valid s v \<and> v \<notin> seen \<and> (case defOp s v of
     AddPtrOp p d \<Rightarrow> (\<exists>sc. affine E pa s v sc) \<and>
       (isPtrTy (tyOf s v) \<or> (\<exists>sh t. tyOf s v = TensorTy sh t \<and> sh \<noteq> [] \<and> (\<forall>n \<in> set sh. in64 n)))
   | LoadOp p msk other bc pad \<Rightarrow> \<exists>sh e. accessOk E s seen p msk sh e \<and> tyOf s v = TensorTy sh e \<and>
       (\<forall>x. other = Some x \<longrightarrow> msk \<noteq> None \<and> scalarTerm s x \<and> tyOf s x = TensorTy sh e)
   | StoreOp p x msk bc \<Rightarrow> \<exists>sh e. accessOk E s seen p msk sh e \<and> tyOf s x = TensorTy sh e
   | MakeTensorPtrOp _ _ _ _ _ \<Rightarrow> False | AdvanceOp _ _ \<Rightarrow> False | AllocOp _ \<Rightarrow> False | SubviewOp _ \<Rightarrow> False
   | SubviewPackOp _ \<Rightarrow> False | BufferTensorViewOp _ \<Rightarrow> False | GetStructuredStateOp _ _ \<Rightarrow> False
   | _ \<Rightarrow> True)"

fun blockOk :: "env \<Rightarrow> ptr_analysis \<Rightarrow> ir \<Rightarrow> val set \<Rightarrow> val list \<Rightarrow> bool" where
  "blockOk E pa s seen [] = True"
| "blockOk E pa s seen (v # vs) \<longleftrightarrow> stepOk E pa s seen v \<and> blockOk E pa s (insert v seen) vs"

text \<open>After the operations \<open>seen\<close>: the known states describe their pointers, and every tensor of
  pointers computed so far has a structured pointer with the same addresses.\<close>

definition walkInv :: "env \<Rightarrow> ir \<Rightarrow> val set \<Rightarrow> ptr_analysis \<Rightarrow> ir \<Rightarrow> bool" where
  "walkInv E s seen pa t \<longleftrightarrow> grows s t \<and> \<not> isAnalysisingUnstructured pa \<and> knownOk E pa t \<and> onlyPointersKnown s pa \<and>
     (\<forall>u. knownPtrs pa u \<noteq> None \<longrightarrow> u \<in> seen) \<and> (\<forall>u \<in> seen. valid s u) \<and>
     (\<forall>p \<in> seen. \<forall>q d sh e. defOp s p = AddPtrOp q d \<longrightarrow> tyOf s p = TensorTy sh e \<longrightarrow>
        (\<exists>m. ptrMap pa p = Some m \<and> valid t m \<and> (\<not> viaCast s p \<longrightarrow> tyOf t m = tyOf s p) \<and>
          (\<forall>idx. inB sh idx \<longrightarrow> eval E t m idx = eval E s p idx)))"

lemma walkInv_grows:
  assumes "walkInv E s seen pa t" "grows t u"
  shows "walkInv E s seen pa u"
proof -
  have "knownOk E pa u"
    using assms describes_grows [OF assms(2)] valid_grows [OF assms(2)] by (auto simp: walkInv_def knownOk_def)
  then show ?thesis
    using assms grows_trans [OF _ assms(2)] unfolding walkInv_def
    by (metis valid_grows [OF assms(2)] tyOf_grows [OF assms(2)] eval_grows [OF assms(2)])
qed

definition isAccess :: "opr \<Rightarrow> bool" where
  "isAccess d = (case d of LoadOp _ _ _ _ _ \<Rightarrow> True | StoreOp _ _ _ _ \<Rightarrow> True | _ \<Rightarrow> False)"

text \<open>What one step establishes.\<close>

definition stepPost :: "env \<Rightarrow> ir \<Rightarrow> val set \<Rightarrow> val \<Rightarrow> ir \<Rightarrow> walked \<Rightarrow> ir \<Rightarrow> bool" where
  "stepPost E s seen v t = (\<lambda>(pa', rs) u. grows t u \<and> walkInv E s (insert v seen) pa' u \<and>
     map fst rs = (if isAccess (defOp s v) then [v] else []) \<and> (\<forall>x \<in> set rs. refines E s u x))"

section \<open>The steps\<close>

lemma mapPtr_fields [simp]:
  "knownPtrs (mapPtr v w pa) = knownPtrs pa" "ptrMap (mapPtr v w pa) = (ptrMap pa)(v \<mapsto> w)"
  "isAnalysisingUnstructured (mapPtr v w pa) = isAnalysisingUnstructured pa"
  by (simp_all add: mapPtr_def)

lemma setKnown_fields [simp]:
  "knownPtrs (setKnown v st pa) = (knownPtrs pa)(v \<mapsto> st)" "ptrMap (setKnown v st pa) = ptrMap pa"
  "isAnalysisingUnstructured (setKnown v st pa) = isAnalysisingUnstructured pa"
  by (simp_all add: setKnown_def)

lemma walkInv_skip:
  assumes "walkInv E s seen pa t" "valid s v" "v \<notin> seen" "\<And>q d. defOp s v \<noteq> AddPtrOp q d"
  shows "walkInv E s (insert v seen) pa t" "walkInv E s (insert v seen) (mapPtr v w pa) t"
  using assms by (auto simp: walkInv_def knownOk_def onlyPointersKnown_def)

lemma walkInv_propagate:
  assumes "walkInv E s seen pa t" "valid s v" "v \<notin> seen" "\<And>q d. defOp s v \<noteq> AddPtrOp q d"
  shows "walkInv E s (insert v seen) (propagatePtr a v pa) t"
  using walkInv_skip [OF assms] by (simp add: propagatePtr_def split: option.split)

lemma walkInv_setKnown:
  assumes inv: "walkInv E s seen pa t" and v: "valid s v" "v \<notin> seen" and g: "grows t u" and d: "describes E u v st"
    and p: "isPtrTy (elemTy (tyOf s v))"
    and m: "\<And>q d sh e. defOp s v = AddPtrOp q d \<Longrightarrow> tyOf s v = TensorTy sh e \<Longrightarrow> valid u m \<and>
      (\<not> viaCast s v \<longrightarrow> tyOf u m = tyOf s v) \<and> (\<forall>idx. inB sh idx \<longrightarrow> eval E u m idx = eval E s v idx)"
  shows "walkInv E s (insert v seen) (mapPtr v m (setKnown v st pa)) u"
proof -
  have u: "walkInv E s seen pa u" using inv g by (rule walkInv_grows)
  then have "valid u v" using v(1) valid_grows by (auto simp: walkInv_def)
  then show ?thesis using u v d p m by (auto simp: walkInv_def knownOk_def onlyPointersKnown_def)
qed

lemma step_addptr:
  assumes wf: "wf_ir s" and none: "knownPtrs pa0 = Map.empty" "\<not> isAnalysisingUnstructured pa0"
    and inv: "walkInv E s seen pa t" and ok: "stepOk E pa0 s seen v" and op: "defOp s v = AddPtrOp p d"
  shows "wp (walkAddPtr pa v p) (stepPost E s seen v t) t"
proof -
  have v: "valid s v" "v \<notin> seen" and ty: "isPtrTy (tyOf s v) \<or> (\<exists>sh t. tyOf s v = TensorTy sh t \<and> sh \<noteq> [] \<and> (\<forall>n \<in> set sh. in64 n))"
    using ok op by (auto simp: stepOk_def)
  obtain sc where "affine E pa0 s v sc" using ok op by (auto simp: stepOk_def)
  moreover have g: "grows s t" and mode: "\<not> isAnalysisingUnstructured pa" and known: "knownOk E pa t" and ptrs: "onlyPointersKnown s pa"
    using inv by (auto simp: walkInv_def)
  ultimately obtain sc' where aff: "affine E pa t v sc'" using affine_mono [OF _ none wf g mode ptrs] by blast
  have fr: "fresh pa v" using inv v(2) by (auto simp: fresh_def walkInv_def)
  note tv = valid_grows [OF g v(1)] tyOf_grows [OF g v(1)] defOp_grows [OF g v(1)] eval_grows [OF g v(1)]
  note wft = growsD(2) [OF g]
  have op': "defOp t v = AddPtrOp p d" using tv op by simp
  have via: "viaCast t v \<longleftrightarrow> viaCast s v" using viaCast_back [OF _ g wf v(1)] viaCast_grows [OF _ g] by blast
  have post: "wp (getM (\<lambda>s. isPtrTypeLike (tyOf s p) \<and> isPtrTypeLike (tyOf s v))) (\<lambda>b. stepPost E s seen v t
      (if True \<and> ptrMap (mapPtr v m (setKnown v st pa)) v = None \<and> b then propagatePtr p v (mapPtr v m (setKnown v st pa))
       else mapPtr v m (setKnown v st pa), [])) u"
    if "grows t u" "describes E u v st" "isPtrTy (elemTy (tyOf s v))"
      "\<And>sh e. tyOf s v = TensorTy sh e \<Longrightarrow> valid u m \<and>
      (\<not> viaCast s v \<longrightarrow> tyOf u m = tyOf s v) \<and> (\<forall>idx. inB sh idx \<longrightarrow> eval E u m idx = eval E s v idx)" for u st m
    using walkInv_setKnown [OF inv v that(1,2,3)] that op by (simp add: wp_getM stepPost_def isAccess_def)
  show ?thesis
    unfolding walkAddPtr_def wp_bindM
  proof (cases "isPtrTy (tyOf s v)")
    case True
    then have e: "isPtrTy (elemTy (tyOf s v))" and nt: "\<And>sh e. tyOf s v \<noteq> TensorTy sh e" by (cases "tyOf s v"; simp)+
    show "wp (rewriteAddptrOp pa v) (\<lambda>x. wp (case x of (pa', ok) \<Rightarrow> bindM (getM (\<lambda>s. isPtrTypeLike (tyOf s p) \<and> isPtrTypeLike (tyOf s v)))
        (\<lambda>ptrs. ret (if ok \<and> ptrMap pa' v = None \<and> ptrs then propagatePtr p v pa' else pa', []))) (stepPost E s seen v t)) t"
      by (rule wp_rewriteAddptrOp_scalar [OF wft mode known tv(1) fr op' aff])
        (use True nt tv post [OF _ _ e] in \<open>auto simp: wp_bindM wp_ret\<close>)
  next
    case False
    then obtain sh e where ts: "tyOf s v = TensorTy sh e" "sh \<noteq> []" "\<And>n. n \<in> set sh \<Longrightarrow> in64 n" using ty by blast
    have nint: "\<not> isIntOrIndex (tyOf t v)" using ts tv by simp
    have e: "isPtrTy (elemTy (tyOf s v))" using affine_addptr [OF aff fr mode op' nint] tv by auto
    show "wp (rewriteAddptrOp pa v) (\<lambda>x. wp (case x of (pa', ok) \<Rightarrow> bindM (getM (\<lambda>s. isPtrTypeLike (tyOf s p) \<and> isPtrTypeLike (tyOf s v)))
        (\<lambda>ptrs. ret (if ok \<and> ptrMap pa' v = None \<and> ptrs then propagatePtr p v pa' else pa', []))) (stepPost E s seen v t)) t"
      by (rule wp_rewriteAddptrOp [OF wft mode known tv(1) fr op' aff _ ts(2,3)])
        (use ts tv via post [OF _ _ e] in \<open>auto simp: wp_bindM wp_ret\<close>)
  qed
qed

lemma step_load:
  assumes wf: "wf_ir s" and inv: "walkInv E s seen pa t" and ok: "stepOk E pa0 s seen v" and op: "defOp s v = LoadOp p msk other bc pad"
  shows "wp (walkAccess pa v (rewriteLoadOp pa v)) (stepPost E s seen v t) t"
proof -
  have v: "valid s v" "v \<notin> seen" and g: "grows s t" using ok inv by (auto simp: stepOk_def walkInv_def)
  obtain sh e where a: "accessOk E s seen p msk sh e" "tyOf s v = TensorTy sh e"
      "\<And>x. other = Some x \<Longrightarrow> msk \<noteq> None \<and> scalarTerm s x \<and> tyOf s x = TensorTy sh e"
    using ok op by (auto simp: stepOk_def)
  then obtain m where m: "ptrMap pa p = Some m" "valid t m" "tyOf t m = TensorTy sh (PtrTy e)"
      "\<And>idx. inB sh idx \<Longrightarrow> eval E t m idx = eval E s p idx" and msk: "maskOk E s sh msk"
    using inv by (fastforce simp: walkInv_def accessOk_def)
  show ?thesis
    unfolding walkAccess_def wp_bindM
  proof (rule wp_attemptM, rule wp_rewriteLoadOp [OF wf g v(1) op m(1,2) a(2) m(3,4) msk a(3)])
    fix r u dims y assume r: "grows t u" "valid u r" "tyOf u r = TensorTy sh e"
      "\<And>mem junk idx. inB sh idx \<Longrightarrow> loadSem mem junk E u (defOp u r) idx = loadSem mem junk E s (defOp s v) idx"
    have "walkInv E s (insert v seen) pa u"
      using walkInv_skip(1) [OF walkInv_grows [OF inv r(1)] v] op by simp
    moreover have "refines E s u (v, r)" using r a(2) op by (simp add: refines_def)
    ultimately show "wp (ret (pa, case Some r of None \<Rightarrow> [] | Some w \<Rightarrow> [(v, w)])) (stepPost E s seen v t) u"
      using r(1) op by (simp add: wp_ret stepPost_def isAccess_def)
  qed
qed

lemma step_store:
  assumes wf: "wf_ir s" and inv: "walkInv E s seen pa t" and ok: "stepOk E pa0 s seen v" and op: "defOp s v = StoreOp p x msk bc"
  shows "wp (walkAccess pa v (rewriteStoreOp pa v)) (stepPost E s seen v t) t"
proof -
  have v: "valid s v" "v \<notin> seen" and g: "grows s t" using ok inv by (auto simp: stepOk_def walkInv_def)
  obtain sh e where a: "accessOk E s seen p msk sh e" "tyOf s x = TensorTy sh e"
    using ok op by (auto simp: stepOk_def)
  then obtain m where m: "ptrMap pa p = Some m" "valid t m" "tyOf t m = TensorTy sh (PtrTy e)"
      "\<And>idx. inB sh idx \<Longrightarrow> eval E t m idx = eval E s p idx" and msk: "maskOk E s sh msk"
    using inv by (fastforce simp: walkInv_def accessOk_def)
  show ?thesis
    unfolding walkAccess_def wp_bindM
  proof (rule wp_attemptM, rule wp_rewriteStoreOp [OF wf g v(1) op m(1,2) a(2) m(3,4) msk])
    fix r u dims assume r: "grows t u" "valid u r"
      "\<And>idx. inB sh idx \<Longrightarrow> storeSem E u (defOp u r) idx = storeSem E s (defOp s v) idx"
    have "walkInv E s (insert v seen) pa u"
      using walkInv_skip(1) [OF walkInv_grows [OF inv r(1)] v] op by simp
    moreover have "refines E s u (v, r)" using r a(2) op by (simp add: refines_def)
    ultimately show "wp (ret (pa, case Some r of None \<Rightarrow> [] | Some w \<Rightarrow> [(v, w)])) (stepPost E s seen v t) u"
      using r(1) op by (simp add: wp_ret stepPost_def isAccess_def)
  qed
qed

lemma wp_rewriteOne:
  assumes wf: "wf_ir s" and none: "knownPtrs pa0 = Map.empty" "\<not> isAnalysisingUnstructured pa0"
    and inv: "walkInv E s seen pa t" and ok: "stepOk E pa0 s seen v"
  shows "wp (rewriteOne pa offs v) (stepPost E s seen v t) t"
proof -
  have v: "valid s v" "v \<notin> seen" and g: "grows s t" using ok inv by (auto simp: stepOk_def walkInv_def)
  note wft = growsD(2) [OF g]
  have skip: "stepPost E s seen v t (pa, []) t" "stepPost E s seen v t (propagatePtr a v pa, []) t"
    if "\<And>q d. defOp s v \<noteq> AddPtrOp q d" "\<not> isAccess (defOp s v)" for a
    using walkInv_skip(1) [OF inv v that(1)] walkInv_propagate [OF inv v that(1)] that(2) wft
    by (simp_all add: stepPost_def)
  show ?thesis
    using step_addptr [OF wf none inv ok] step_load [OF wf inv ok] step_store [OF wf inv ok] skip ok defOp_grows [OF g v(1)]
    unfolding rewriteOne_def
    by (cases "defOp s v")
      (simp_all add: wp_simps stepOk_def isAccess_def walkSplat_def walkBitcast_def)
qed

lemma wp_rewriteBlock:
  assumes wf: "wf_ir s" and none: "knownPtrs pa0 = Map.empty" "\<not> isAnalysisingUnstructured pa0"
    and "walkInv E s seen pa t" and "blockOk E pa0 s seen vs"
  shows "wp (rewriteNodes pa offs (map OpNode vs)) (\<lambda>(pa', rs) u. grows t u \<and>
    map fst rs = filter (\<lambda>v. isAccess (defOp s v)) vs \<and> (\<forall>x \<in> set rs. refines E s u x)) t"
  using assms(4,5)
proof (induction vs arbitrary: seen pa t)
  case Nil
  then show ?case by (auto simp: wp_ret walkInv_def dest: growsD)
next
  case (Cons v vs)
  have "wp (rewriteOne pa offs v) (\<lambda>(pa', rs). wp (rewriteNodes pa' offs (map OpNode vs)) (\<lambda>(pa'', rs') u. grows t u \<and>
    map fst (rs @ rs') = filter (\<lambda>v. isAccess (defOp s v)) (v # vs) \<and> (\<forall>x \<in> set (rs @ rs'). refines E s u x))) t"
  proof (rule wp_mono [OF wp_rewriteOne [OF wf none Cons.prems(1)]])
    show "stepOk E pa0 s seen v" using Cons.prems(2) by simp
    fix y u assume "stepPost E s seen v t y u"
    then obtain pa' rs where y: "y = (pa', rs)" "grows t u" "walkInv E s (insert v seen) pa' u"
        "map fst rs = (if isAccess (defOp s v) then [v] else [])" "\<forall>x \<in> set rs. refines E s u x"
      by (cases y) (auto simp: stepPost_def)
    have "wp (rewriteNodes pa' offs (map OpNode vs)) (\<lambda>(pa'', rs') w. grows t w \<and>
      map fst (rs @ rs') = filter (\<lambda>v. isAccess (defOp s v)) (v # vs) \<and> (\<forall>x \<in> set (rs @ rs'). refines E s w x)) u"
      by (rule wp_mono [OF Cons.IH [OF y(3)]])
        (use Cons.prems(2) y in \<open>auto intro: grows_trans refines_grows\<close>)
    then show "(case y of (pa', rs) \<Rightarrow> wp (rewriteNodes pa' offs (map OpNode vs)) (\<lambda>(pa'', rs') u. grows t u \<and>
      map fst (rs @ rs') = filter (\<lambda>v. isAccess (defOp s v)) (v # vs) \<and> (\<forall>x \<in> set (rs @ rs'). refines E s u x))) u"
      using y(1) by simp
  qed
  then show ?case by (simp add: wp_bindM wp_ret case_prod_beta')
qed

end
