(* ===== verification/Claims_Walk.thy ===== *)
theory Claims_Walk
  imports Walk_Main Claims_LoadStore
begin

text \<open>The properties of the walk \<open>PtrAnalysis::rewriteOp\<close>, with an instance of each.\<close>

section \<open>A block of operations\<close>






section \<open>Errors\<close>

section \<open>Loops\<close>

text \<open>C19: \<open>initializeMaybeStructuredArgs\<close> terminates and adds exactly the values that a result of
  \<open>tts.get_structured_state\<close> flows to in one or more steps, through loop arguments, loop results and
  operations that keep its type.\<close>

theorem initializeMaybeStructuredArgs_reachable:
  "set (maybeStructuredArgs (initializeMaybeStructuredArgs s pa)) =
   set (maybeStructuredArgs pa) \<union> {w. \<exists>v \<in> set (stateOps s). (v, w) \<in> (flows s)\<^sup>+}"
  unfolding initializeMaybeStructuredArgs_set by auto

text \<open>For a state with as many entries as the operation has results, \<open>rewriteGetStructuredStateOp\<close> returns a
  value for each result, all but the first of index type; when it succeeds on a state with dimensions they are the offsets, the
  original offsets and the strides of the state, and when it fails the first is the original value.\<close>

theorem rewriteGetStructuredStateOp_results:
  assumes "wf_ir s" and "\<And>st. knownPtrs pa v = Some st \<Longrightarrow> stateFits s (tyOf s v) st"
  shows "\<exists>r zs ok t. rewriteGetStructuredStateOp pa v s = (Inr (r # zs, ok), t) \<and> grows s t \<and>
    length (r # zs) = numResults (tyOf s v) \<and> (\<forall>z \<in> set zs. valid t z \<and> tyOf t z = IndexTy) \<and> (\<not> ok \<longrightarrow> r = v) \<and>
    (\<forall>st E. ok \<and> knownPtrs pa v = Some st \<and> offsets st \<noteq> [] \<longrightarrow>
      map (\<lambda>z. eval E t z []) zs = map (osem E t) (offsets st @ origiOffsets st @ strides st))"
proof -
  have "wp (rewriteGetStructuredStateOp pa v) (\<lambda>y t. \<exists>r zs ok. y = (r # zs, ok) \<and> grows s t \<and>
    length (r # zs) = numResults (tyOf s v) \<and> (\<forall>z \<in> set zs. valid t z \<and> tyOf t z = IndexTy) \<and> (\<not> ok \<longrightarrow> r = v) \<and>
    (\<forall>st E. ok \<and> knownPtrs pa v = Some st \<and> offsets st \<noteq> [] \<longrightarrow>
      map (\<lambda>z. eval E t z []) zs = map (osem E t) (offsets st @ origiOffsets st @ strides st))) s"
    by (rule wp_rewriteGetStructuredStateOp [OF assms]) blast+
  then show ?thesis by (auto simp: wp_def)
qed

definition rangeState :: ptr_state where
  "rangeState = emptyState\<lparr>offsets := [getIndexAttr 0], origiOffsets := [getIndexAttr 0], sizes := [getIndexAttr 4],
     strides := [getIndexAttr 1], shape := [getIndexAttr 0]\<rparr>"

lemma rangeState_fits: "stateFits loadDemo (tyOf loadDemo 2) rangeState"
  by (simp add: stateFits_def rangeState_def emptyState_def getRank_def numResults_def buildGetStructuredState_def
      getOffsetAndStrideTypes_def getOffsetAndStrideSegmentSizes_def)

theorem rewriteGetStructuredStateOp_results_witness:
  "\<exists>r zs ok t. rewriteGetStructuredStateOp (demoPA\<lparr>knownPtrs := [2 \<mapsto> rangeState]\<rparr>) 2 loadDemo = (Inr (r # zs, ok), t) \<and>
    grows loadDemo t \<and> length (r # zs) = numResults (tyOf loadDemo 2) \<and> (\<forall>z \<in> set zs. valid t z \<and> tyOf t z = IndexTy) \<and>
    (\<not> ok \<longrightarrow> r = 2) \<and>
    (\<forall>st E. ok \<and> knownPtrs (demoPA\<lparr>knownPtrs := [2 \<mapsto> rangeState]\<rparr>) 2 = Some st \<and> offsets st \<noteq> [] \<longrightarrow>
      map (\<lambda>z. eval E t z []) zs = map (osem E t) (offsets st @ origiOffsets st @ strides st))"
  by (rule rewriteGetStructuredStateOp_results [OF loadDemo_wf]) (use rangeState_fits in auto)

end
