(* ===== verification/UseAnalysis.thy ===== *)
theory UseAnalysis
  imports MLIR
begin

text \<open>
  \<open>lib/Analysis/UseAnalysis.cpp\<close> with its header: which values are used as data of a tensor
  computation, which as metadata (addresses, masks), and which as both, and the cloning of the
  operations used as both.  The data-flow solver is MLIR's and a parameter of the pass: it visits the
  operations in any order until no visit changes anything (\<open>solved\<close>).  How values flow through regions (from an init argument or a
  yielded value to a loop argument or result) is decided by MLIR too, and is the parameter
  \<open>edges\<close>.
\<close>

section \<open>The lattice\<close>

datatype use_type = Undefined | DataUse | MetaUse | MixUse

text \<open>The new type, and whether it has changed.\<close>

fun meetUseType :: "use_type \<Rightarrow> use_type \<Rightarrow> use_type \<times> bool" where
  "meetUseType t other = (
     if other = Undefined then (t, False)
     else (case t of
         Undefined \<Rightarrow> (other, True)
       | DataUse \<Rightarrow> if t = other then (t, False) else (MixUse, True)
       | MetaUse \<Rightarrow> if t = other then (t, False) else (MixUse, True)
       | MixUse \<Rightarrow> (t, False)))"

instantiation use_type :: bounded_semilattice_sup_bot
begin

definition sup_use_type :: "use_type \<Rightarrow> use_type \<Rightarrow> use_type" where
  "sup_use_type a b = fst (meetUseType a b)"

definition less_eq_use_type :: "use_type \<Rightarrow> use_type \<Rightarrow> bool" where
  "less_eq_use_type a b \<longleftrightarrow> fst (meetUseType a b) = b"

definition less_use_type :: "use_type \<Rightarrow> use_type \<Rightarrow> bool" where
  "less_use_type a b \<longleftrightarrow> a \<le> b \<and> a \<noteq> (b :: use_type)"

definition bot_use_type :: use_type where
  "bot_use_type = Undefined"

instance
proof
  fix x y z :: use_type
  show "x < y \<longleftrightarrow> x \<le> y \<and> \<not> y \<le> x"
    by (cases x; cases y; simp add: less_use_type_def less_eq_use_type_def)
  show "x \<le> x" by (cases x; simp add: less_eq_use_type_def)
  show "x \<le> y \<Longrightarrow> y \<le> z \<Longrightarrow> x \<le> z" by (cases x; cases y; cases z; simp add: less_eq_use_type_def)
  show "x \<le> y \<Longrightarrow> y \<le> x \<Longrightarrow> x = y" by (cases x; cases y; simp add: less_eq_use_type_def)
  show "x \<le> sup x y" by (cases x; cases y; simp add: less_eq_use_type_def sup_use_type_def)
  show "y \<le> sup x y" by (cases x; cases y; simp add: less_eq_use_type_def sup_use_type_def)
  show "y \<le> x \<Longrightarrow> z \<le> x \<Longrightarrow> sup y z \<le> x"
    by (cases x; cases y; cases z; simp add: less_eq_use_type_def sup_use_type_def)
  show "bot \<le> x" by (cases x; simp add: less_eq_use_type_def bot_use_type_def)
qed

end

section \<open>The transfer function\<close>

type_synonym uses = "val \<Rightarrow> use_type"

definition isPtrTensor :: "ty \<Rightarrow> bool" where
  "isPtrTensor t \<longleftrightarrow> isShaped t \<and> isPtrTy (elemTy t)"

text \<open>A store, a yield and the like define no value.\<close>

definition hasResult :: "ir \<Rightarrow> val \<Rightarrow> bool" where
  "hasResult s v \<longleftrightarrow> tyOf s v \<noteq> NoneTy"

definition resultUse :: "ir \<Rightarrow> uses \<Rightarrow> val \<Rightarrow> use_type" where
  "resultUse s st v = (if hasResult s v then st v else Undefined)"

text \<open>The accumulator of a dot that is the splat of a constant.\<close>

definition constSplat :: "ir \<Rightarrow> val \<Rightarrow> bool" where
  "constSplat s c = (case defOp s c of SplatOp a \<Rightarrow> (case defOp s a of ConstantOp _ \<Rightarrow> True | _ \<Rightarrow> False) | _ \<Rightarrow> False)"

definition markIf :: "bool \<Rightarrow> use_type \<Rightarrow> use_type" where
  "markIf b t = (if b then t else Undefined)"

text \<open>All that the visit of the operation \<open>v\<close> propagates to its operand \<open>a\<close>.\<close>

definition useBy :: "ir \<Rightarrow> uses \<Rightarrow> val \<Rightarrow> val \<Rightarrow> use_type" where
  "useBy s st v a =
     sup (markIf (hasResult s v \<and> isPtrTensor (tyOf s v) \<and> a \<in> operands (defOp s v)) MetaUse)
     (case defOp s v of
        LoadOp p msk other _ _ \<Rightarrow> markIf (a = p \<or> msk = Some a \<or> other = Some a) MetaUse
      | StoreOp p x msk _ \<Rightarrow> sup (markIf (a = p \<or> msk = Some a) MetaUse) (markIf (a = x) DataUse)
      | DotOp x y c \<Rightarrow> sup (markIf (a = x \<or> a = y) (resultUse s st v))
          (markIf (a = c) (if constSplat s c then MetaUse else DataUse))
      | _ \<Rightarrow> markIf (a \<in> operands (defOp s v)) (resultUse s st v))"

text \<open>\<open>None\<close> is an assertion that does not hold.\<close>

definition useAsserts :: "opr \<Rightarrow> bool" where
  "useAsserts d = (case d of
     LoadOp p msk other _ _ \<Rightarrow> msk \<noteq> None \<longrightarrow> msk \<noteq> other
   | StoreOp p x msk _ \<Rightarrow> msk \<noteq> Some x
   | _ \<Rightarrow> True)"

definition visitOperation :: "ir \<Rightarrow> uses \<Rightarrow> val \<Rightarrow> uses option" where
  "visitOperation s st v =
     (if useAsserts (defOp s v) then Some (\<lambda>a. sup (st a) (useBy s st v a)) else None)"

text \<open>A step of the solver: the visit of an operation, or of an edge from a value to the region
  argument or result it flows to.\<close>

datatype visit_step = VisitOp val | VisitEdge val val

fun visitStep :: "ir \<Rightarrow> uses \<Rightarrow> visit_step \<Rightarrow> uses option" where
  "visitStep s st (VisitOp v) = visitOperation s st v"
| "visitStep s st (VisitEdge a r) = Some (st(a := sup (st a) (st r)))"

fun runVisits :: "ir \<Rightarrow> uses \<Rightarrow> visit_step list \<Rightarrow> uses option" where
  "runVisits s st [] = Some st"
| "runVisits s st (x # xs) = (case visitStep s st x of None \<Rightarrow> None | Some st' \<Rightarrow> runVisits s st' xs)"

definition setToExitState :: uses where
  "setToExitState = (\<lambda>_. Undefined)"

text \<open>The visits of a program, a visit that changes the state, and what a solver returns.\<close>

definition visits :: "ir \<Rightarrow> (val \<times> val) list \<Rightarrow> visit_step list" where
  "visits s edges = map (\<lambda>(a, r). VisitEdge a r) edges @ map VisitOp (rev [0..<length (ops s)])"

inductive solverStep :: "ir \<Rightarrow> (val \<times> val) list \<Rightarrow> uses \<Rightarrow> uses \<Rightarrow> bool" for s edges where
  visit: "x \<in> set (visits s edges) \<Longrightarrow> visitStep s st x = Some st' \<Longrightarrow> st' \<noteq> st \<Longrightarrow> solverStep s edges st st'"

definition solved :: "ir \<Rightarrow> (val \<times> val) list \<Rightarrow> uses \<Rightarrow> bool" where
  "solved s edges st \<longleftrightarrow> (\<exists>xs. set xs \<subseteq> set (visits s edges) \<and> runVisits s setToExitState xs = Some st) \<and>
     (\<forall>x \<in> set (visits s edges). visitStep s st x = Some st)"

section \<open>Tags and clones\<close>

record use_program =
  table :: ir
  metaTags :: "val list"
  clones :: "(val \<times> val) list" \<comment> \<open>operation and its clone\<close>

definition redirect :: "val \<Rightarrow> val \<Rightarrow> val set \<Rightarrow> ir \<Rightarrow> ir" where
  "redirect v clone metaUsers s = s\<lparr>ops := map (\<lambda>u. let (d, t) = ops s ! u in
     (if u \<in> metaUsers then map_gop (\<lambda>a. if a = v then clone else a) d else d, t)) [0..<length (ops s)]\<rparr>"

definition isMetaUser :: "ir \<Rightarrow> uses \<Rightarrow> val \<Rightarrow> val \<Rightarrow> bool" where
  "isMetaUser s st v u = (case defOp s u of
     LoadOp p msk other _ _ \<Rightarrow> v = p \<or> msk = Some v \<or> other = Some v
   | StoreOp p x msk _ \<Rightarrow> v = p \<or> msk = Some v
   | DotOp x y c \<Rightarrow> constSplat s c
   | _ \<Rightarrow> hasResult s u \<longrightarrow> st u = MetaUse)"

definition metaUsersOf :: "ir \<Rightarrow> uses \<Rightarrow> val \<Rightarrow> val list" where
  "metaUsersOf s st v = filter (\<lambda>u. v \<in> operands (defOp s u) \<and> isMetaUser s st v u) [0..<length (ops s)]"

definition cloneMixUse :: "uses \<Rightarrow> val \<Rightarrow> use_program \<Rightarrow> use_program" where
  "cloneMixUse st v p = (let s = table p; us = metaUsersOf s st v; c = length (ops s) in
     if us = [] then p else
       p\<lparr>table := redirect v c (set us) (s\<lparr>ops := ops s @ [ops s ! v]\<rparr>), metaTags := c # metaTags p,
         clones := (v, c) # clones p\<rparr>)"

text \<open>An operation with one result has the tag of its result; region arguments and the results of
  region operations are not operations of the table's own.\<close>

definition isOperation :: "opr \<Rightarrow> bool" where
  "isOperation d = (case d of BlockArg _ \<Rightarrow> False | ForResultOp _ _ \<Rightarrow> False | IfResultOp \<Rightarrow> False | _ \<Rightarrow> True)"

definition tagOperation :: "uses \<Rightarrow> use_program \<Rightarrow> val \<Rightarrow> use_program" where
  "tagOperation st p v = (let s = table p in
     if \<not> isOperation (defOp s v) then p else
     (case resultUse s st v of
        Undefined \<Rightarrow> p
      | MetaUse \<Rightarrow> if isShaped (tyOf s v) then p\<lparr>metaTags := v # metaTags p\<rparr> else p
      | DataUse \<Rightarrow> p
      | MixUse \<Rightarrow> if isShaped (tyOf s v) then cloneMixUse st v p else p))"

definition runUseAnalysis :: "(ir \<Rightarrow> uses option) \<Rightarrow> ir \<Rightarrow> use_program option" where
  "runUseAnalysis solver s = (case solver s of
     None \<Rightarrow> None
   | Some st \<Rightarrow> Some (foldl (tagOperation st) \<lparr>table = s, metaTags = [], clones = []\<rparr> [0..<length (ops s)]))"

end
