(* ===== verification/UseAnalysis_Sound.thy ===== *)
theory UseAnalysis_Sound
  imports UseAnalysis
begin

text \<open>
  Every order of visits that reaches a stable state reaches the same one, only two visits for each value
  change anything, and the state says of each value whether a metadata use, and whether a data use, can be reached from
  it.
\<close>

section \<open>The two kinds of use\<close>

definition isMeta :: "use_type \<Rightarrow> bool" where
  "isMeta t \<longleftrightarrow> t = MetaUse \<or> t = MixUse"

definition isData :: "use_type \<Rightarrow> bool" where
  "isData t \<longleftrightarrow> t = DataUse \<or> t = MixUse"

lemma use_kinds [simp]:
  "\<not> isMeta Undefined" "\<not> isData Undefined" "isMeta MetaUse" "\<not> isData MetaUse" "\<not> isMeta DataUse" "isData DataUse"
  "isMeta MixUse" "isData MixUse" "\<not> isMeta bot" "\<not> isData bot"
  by (simp_all add: isMeta_def isData_def bot_use_type_def)

lemma kinds_sup [simp]: "isMeta (sup a b) \<longleftrightarrow> isMeta a \<or> isMeta b" "isData (sup a b) \<longleftrightarrow> isData a \<or> isData b"
  by (cases a; cases b; simp add: sup_use_type_def)+

lemma kinds_le: "a \<le> b \<longleftrightarrow> (isMeta a \<longrightarrow> isMeta b) \<and> (isData a \<longrightarrow> isData b)"
  by (cases a; cases b; simp add: less_eq_use_type_def)

lemma kinds_eq: "a = b \<longleftrightarrow> isMeta a = isMeta b \<and> isData a = isData b"
  by (cases a; cases b; simp)

lemma kinds_markIf [simp]: "isMeta (markIf b t) \<longleftrightarrow> b \<and> isMeta t" "isData (markIf b t) \<longleftrightarrow> b \<and> isData t"
  by (simp_all add: markIf_def)

lemma Undefined_least [simp]: "Undefined \<le> t"
  by (simp add: kinds_le)

section \<open>Steps\<close>

text \<open>What one step adds to the uses of \<open>a\<close>; a step that passes its assertion is this join.\<close>

fun stepUse :: "ir \<Rightarrow> uses \<Rightarrow> visit_step \<Rightarrow> val \<Rightarrow> use_type" where
  "stepUse s st (VisitOp v) a = useBy s st v a"
| "stepUse s st (VisitEdge x r) a = markIf (a = x) (st r)"

definition stepAsserts :: "ir \<Rightarrow> visit_step \<Rightarrow> bool" where
  "stepAsserts s x = (case x of VisitOp v \<Rightarrow> useAsserts (defOp s v) | VisitEdge _ _ \<Rightarrow> True)"

lemma visitStep_join:
  "visitStep s st x = (if stepAsserts s x then Some (\<lambda>a. sup (st a) (stepUse s st x a)) else None)"
  by (cases x) (auto simp: visitOperation_def stepAsserts_def fun_eq_iff markIf_def kinds_eq)

lemma stepUse_mono:
  assumes "st \<le> st'"
  shows "stepUse s st x a \<le> stepUse s st' x a"
proof -
  have "isMeta (st b) \<Longrightarrow> isMeta (st' b)" "isData (st b) \<Longrightarrow> isData (st' b)" for b
    using assms by (auto simp: le_fun_def kinds_le)
  then show ?thesis
    by (cases x) (auto simp: kinds_le useBy_def resultUse_def split: gop.split)
qed

text \<open>A run whose assertions hold is a sequence of joins.\<close>

definition joinStep :: "ir \<Rightarrow> uses \<Rightarrow> visit_step \<Rightarrow> uses" where
  "joinStep s st x = (\<lambda>a. sup (st a) (stepUse s st x a))"

lemma runVisits_joins:
  "runVisits s st xs = (if \<forall>x \<in> set xs. stepAsserts s x then Some (foldl (joinStep s) st xs) else None)"
  by (induction s st xs rule: runVisits.induct) (auto simp: visitStep_join joinStep_def [abs_def] split: option.splits)

lemma joinStep_mono: "st \<le> st' \<Longrightarrow> joinStep s st x \<le> joinStep s st' x"
  unfolding joinStep_def le_fun_def by (intro allI sup_mono stepUse_mono) (simp_all add: le_fun_def)

lemma joinStep_above: "st \<le> joinStep s st x"
  by (simp add: joinStep_def le_fun_def)

lemma joins_above: "st \<le> foldl (joinStep s) st xs"
  by (induction xs arbitrary: st) (auto intro: order_trans joinStep_above)

text \<open>A state is stable when no step changes it; it is then above every run from below.\<close>

definition stable :: "ir \<Rightarrow> visit_step list \<Rightarrow> uses \<Rightarrow> bool" where
  "stable s xs st \<longleftrightarrow> (\<forall>x \<in> set xs. joinStep s st x = st)"

lemma joins_below:
  assumes "st \<le> st2" "stable s ys st2" "set xs \<subseteq> set ys"
  shows "foldl (joinStep s) st xs \<le> st2"
  using assms(1,3)
proof (induction xs arbitrary: st)
  case (Cons x xs)
  then have "joinStep s st x \<le> st2"
    using joinStep_mono [OF Cons.prems(1), of s x] assms(2) by (auto simp: stable_def)
  then show ?case using Cons by simp
qed simp

lemma joins_same: "foldl (joinStep s) st xs = st \<Longrightarrow> stable s xs st"
proof (induction xs arbitrary: st)
  case (Cons x xs)
  have "joinStep s st x \<le> st" using Cons.prems joins_above [of "joinStep s st x" s xs] by simp
  then have same: "joinStep s st x = st" by (rule order_antisym [OF _ joinStep_above])
  have "foldl (joinStep s) st xs = st" using Cons.prems unfolding foldl.simps same .
  then have "stable s xs st" by (rule Cons.IH)
  then show ?case unfolding stable_def using same by simp
qed (simp add: stable_def)

section \<open>The solver\<close>

text \<open>The number of marks on the first \<open>n\<close> values; the others have none.\<close>

definition marks :: "nat \<Rightarrow> uses \<Rightarrow> nat" where
  "marks n st = card {a. a < n \<and> isMeta (st a)} + card {a. a < n \<and> isData (st a)}"

definition within :: "nat \<Rightarrow> uses \<Rightarrow> bool" where
  "within n st \<longleftrightarrow> (\<forall>a \<ge> n. st a = Undefined)"

lemma marks_bound: "marks n st \<le> 2 * n"
proof -
  have "card {a. a < n \<and> P a} \<le> n" for P
    using card_mono [of "{..<n}" "{a. a < n \<and> P a}"] by auto
  then show ?thesis by (auto simp: marks_def mult_2 intro: add_mono)
qed

lemma marks_less:
  assumes le: "st \<le> st'" and ne: "st \<noteq> st'" and "within n st" "within n st'"
  shows "marks n st < marks n st'"
proof -
  obtain a where a: "st a \<noteq> st' a" using ne by auto
  then have n: "a < n" using assms(3,4) by (metis assms(3,4) not_less within_def)
  have sub: "{a. a < n \<and> isMeta (st a)} \<subseteq> {a. a < n \<and> isMeta (st' a)}" "{a. a < n \<and> isData (st a)} \<subseteq> {a. a < n \<and> isData (st' a)}"
    using le by (auto simp: le_fun_def kinds_le)
  have le': "st a \<le> st' a" using le by (simp add: le_fun_def)
  show ?thesis
  proof (cases "isMeta (st a) = isMeta (st' a)")
    case True
    then have "\<not> isData (st a)" "isData (st' a)" using a le' by (auto simp: kinds_eq kinds_le)
    then have "{a. a < n \<and> isData (st a)} \<subset> {a. a < n \<and> isData (st' a)}" using sub(2) n by blast
    then show ?thesis
      unfolding marks_def using sub(1) by (intro add_le_less_mono card_mono psubset_card_mono) simp_all
  next
    case False
    then have "\<not> isMeta (st a)" "isMeta (st' a)" using le' by (auto simp: kinds_le)
    then have "{a. a < n \<and> isMeta (st a)} \<subset> {a. a < n \<and> isMeta (st' a)}" using sub(1) n by blast
    then show ?thesis
      unfolding marks_def using sub(2) by (intro add_less_le_mono card_mono psubset_card_mono) simp_all
  qed
qed

text \<open>The edges stay inside the table.\<close>

definition edgesOk :: "ir \<Rightarrow> (val \<times> val) list \<Rightarrow> bool" where
  "edgesOk s edges \<longleftrightarrow> (\<forall>(a, r) \<in> set edges. a < length (ops s))"

lemma operand_bound: "wf_ir s \<Longrightarrow> a \<in> operands (defOp s v) \<Longrightarrow> a < length (ops s)"
proof (cases "valid s v")
  case True
  assume "wf_ir s" "a \<in> operands (defOp s v)"
  then show ?thesis using wf_operand_valid [OF _ True] by (simp add: valid_def)
qed (simp add: valid_def defOp_def entry_def)

lemma useBy_operand: "useBy s st v a \<noteq> Undefined \<Longrightarrow> a \<in> operands (defOp s v)"
  by (cases "defOp s v") (auto simp: useBy_def markIf_def sup_use_type_def split: if_splits)

lemma within_step:
  assumes "wf_ir s" "edgesOk s edges" "x \<in> set (visits s edges)" "within (length (ops s)) st"
  shows "within (length (ops s)) (joinStep s st x)"
proof -
  have "stepUse s st x a = Undefined" if "length (ops s) \<le> a" for a
  proof (cases x)
    case (VisitOp v)
    then show ?thesis using useBy_operand [of s st v a] operand_bound [OF assms(1), of a v] that by fastforce
  next
    case (VisitEdge b r)
    then show ?thesis using assms(2,3) that by (auto simp: edgesOk_def visits_def markIf_def)
  qed
  then show ?thesis using assms(4) by (simp add: within_def joinStep_def sup_use_type_def)
qed

lemma within_joins:
  assumes "wf_ir s" "edgesOk s edges" "set xs \<subseteq> set (visits s edges)" "within (length (ops s)) st"
  shows "within (length (ops s)) (foldl (joinStep s) st xs)"
  using assms(3,4) by (induction xs arbitrary: st) (auto intro: within_step [OF assms(1,2)])

text \<open>A round of all visits that changes something adds a mark, so \<open>2 * n + 1\<close> rounds reach a stable state.\<close>

lemma rounds_stable:
  assumes wf: "wf_ir s" "edgesOk s edges" and "within (length (ops s)) st"
    and "2 * length (ops s) < k + marks (length (ops s)) st"
  shows "stable s (visits s edges) (foldl (joinStep s) st (concat (replicate k (visits s edges))))"
  using assms(3,4)
proof (induction k arbitrary: st)
  case 0
  then show ?case using marks_bound [of "length (ops s)" st] by simp
next
  case (Suc k)
  define st' where "st' = foldl (joinStep s) st (visits s edges)"
  have w: "within (length (ops s)) st'" unfolding st'_def by (rule within_joins [OF wf subset_refl Suc.prems(1)])
  show ?case
  proof (cases "st' = st")
    case True
    then have st: "stable s (visits s edges) st" unfolding st'_def by (rule joins_same)
    have "foldl (joinStep s) st (concat (replicate m (visits s edges))) = st" for m
      using joins_below [OF order_refl st, of "concat (replicate m (visits s edges))"]
        joins_above [of st s "concat (replicate m (visits s edges))"]
      by (auto intro: order_antisym simp: set_replicate_conv_if)
    from this [of "Suc k"] show ?thesis using st by simp
  next
    case False
    have "st \<le> st'" unfolding st'_def by (rule joins_above)
    then have "marks (length (ops s)) st < marks (length (ops s)) st'" using marks_less [OF _ _ Suc.prems(1) w] False by simp
    then have "stable s (visits s edges) (foldl (joinStep s) st' (concat (replicate k (visits s edges))))"
      using Suc.prems(2) by (intro Suc.IH [OF w]) simp
    then show ?thesis by (simp add: st'_def)
  qed
qed

definition solution :: "ir \<Rightarrow> (val \<times> val) list \<Rightarrow> uses" where
  "solution s edges = foldl (joinStep s) setToExitState (concat (replicate (2 * length (ops s) + 1) (visits s edges)))"

definition assertsOk :: "ir \<Rightarrow> bool" where
  "assertsOk s \<longleftrightarrow> (\<forall>v < length (ops s). useAsserts (defOp s v))"

lemma visits_assert: "assertsOk s \<Longrightarrow> x \<in> set (visits s edges) \<Longrightarrow> stepAsserts s x"
  by (auto simp: visits_def stepAsserts_def assertsOk_def)

lemma solution_stable: "wf_ir s \<Longrightarrow> edgesOk s edges \<Longrightarrow> stable s (visits s edges) (solution s edges)"
  unfolding solution_def by (rule rounds_stable) (simp_all add: within_def setToExitState_def)

lemma setToExitState_least [simp]: "setToExitState \<le> st"
  by (simp add: setToExitState_def le_fun_def)

lemma solution_least: "stable s (visits s edges) st \<Longrightarrow> solution s edges \<le> st"
  unfolding solution_def by (rule joins_below) (auto simp: set_replicate_conv_if)

lemma solution_unique:
  assumes "wf_ir s" "edgesOk s edges" "set xs \<subseteq> set (visits s edges)"
    and "stable s (visits s edges) (foldl (joinStep s) setToExitState xs)"
  shows "foldl (joinStep s) setToExitState xs = solution s edges"
  using assms solution_least joins_below [OF _ solution_stable] by (meson order_antisym setToExitState_least)

lemma solved_solution:
  assumes "wf_ir s" and "edgesOk s edges" and "solved s edges st"
  shows "st = solution s edges"
proof -
  obtain xs where xs: "set xs \<subseteq> set (visits s edges)" "runVisits s setToExitState xs = Some st"
    using assms(3) by (auto simp: solved_def)
  have st: "st = foldl (joinStep s) setToExitState xs" using xs(2) by (auto simp: runVisits_joins split: if_splits)
  have "stable s (visits s edges) st"
    using assms(3) by (auto simp: solved_def stable_def visitStep_join joinStep_def [abs_def] split: if_splits)
  then show ?thesis using solution_unique [OF assms(1,2) xs(1)] st by simp
qed

lemma solution_solved:
  assumes "wf_ir s" and "edgesOk s edges" and "assertsOk s"
  shows "solved s edges (solution s edges)"
  unfolding solved_def
proof (intro conjI ballI exI)
  let ?xs = "concat (replicate (2 * length (ops s) + 1) (visits s edges))"
  show "set ?xs \<subseteq> set (visits s edges)" by (auto simp: set_replicate_conv_if)
  then show "runVisits s setToExitState ?xs = Some (solution s edges)"
    using visits_assert [OF assms(3)] by (auto simp: runVisits_joins solution_def)
  show "visitStep s (solution s edges) x = Some (solution s edges)" if "x \<in> set (visits s edges)" for x
    using solution_stable [OF assms(1,2)] visits_assert [OF assms(3) that] that
    by (simp add: visitStep_join stable_def joinStep_def [symmetric])
qed

text \<open>A visit that changes the state adds a mark.\<close>

lemma solverStep_marks:
  assumes "wf_ir s" "edgesOk s edges" "solverStep s edges st st'" "within (length (ops s)) st"
  shows "within (length (ops s)) st' \<and> marks (length (ops s)) st < marks (length (ops s)) st'"
  using assms(3)
proof cases
  case (visit x)
  then have "st' = joinStep s st x" by (auto simp: visitStep_join joinStep_def [abs_def] split: if_splits)
  moreover then have w: "within (length (ops s)) st'" using within_step [OF assms(1,2) visit(1) assms(4)] by simp
  ultimately show ?thesis using marks_less [OF _ _ assms(4) w] joinStep_above [of st s x] visit(3) by simp
qed

lemma solverSteps_marks:
  assumes "wf_ir s" "edgesOk s edges" "(solverStep s edges ^^ n) st st'" "within (length (ops s)) st"
  shows "within (length (ops s)) st' \<and> marks (length (ops s)) st + n \<le> marks (length (ops s)) st'"
  using assms(3)
proof (induction n arbitrary: st')
  case (Suc n)
  then obtain u where u: "(solverStep s edges ^^ n) st u" "solverStep s edges u st'" by auto
  then show ?case using Suc.IH [OF u(1)] solverStep_marks [OF assms(1,2) u(2)] by auto
qed (use assms(4) in simp)

section \<open>What the solution says\<close>

text \<open>A use as metadata, and as data, by the operation \<open>v\<close> itself; and the operands to which it passes
  the uses of its result.\<close>

definition metaMark :: "ir \<Rightarrow> val \<Rightarrow> val \<Rightarrow> bool" where
  "metaMark s v a \<longleftrightarrow> hasResult s v \<and> isPtrTensor (tyOf s v) \<and> a \<in> operands (defOp s v) \<or>
     (case defOp s v of
        LoadOp p msk other _ _ \<Rightarrow> a = p \<or> msk = Some a \<or> other = Some a
      | StoreOp p x msk _ \<Rightarrow> a = p \<or> msk = Some a
      | DotOp x y c \<Rightarrow> a = c \<and> constSplat s c
      | _ \<Rightarrow> False)"

definition dataMark :: "ir \<Rightarrow> val \<Rightarrow> val \<Rightarrow> bool" where
  "dataMark s v a \<longleftrightarrow> (case defOp s v of
     StoreOp p x msk _ \<Rightarrow> a = x | DotOp x y c \<Rightarrow> a = c \<and> \<not> constSplat s c | _ \<Rightarrow> False)"

definition passes :: "ir \<Rightarrow> val \<Rightarrow> val \<Rightarrow> bool" where
  "passes s v a \<longleftrightarrow> hasResult s v \<and> (case defOp s v of
     LoadOp _ _ _ _ _ \<Rightarrow> False | StoreOp _ _ _ _ \<Rightarrow> False | DotOp x y c \<Rightarrow> a = x \<or> a = y | d \<Rightarrow> a \<in> operands d)"

lemma useBy_kinds:
  "isMeta (useBy s st v a) \<longleftrightarrow> metaMark s v a \<or> passes s v a \<and> isMeta (st v)"
  "isData (useBy s st v a) \<longleftrightarrow> dataMark s v a \<or> passes s v a \<and> isData (st v)"
  by (cases "defOp s v"; auto simp: useBy_def metaMark_def dataMark_def passes_def resultUse_def)+

definition useFlow :: "ir \<Rightarrow> (val \<times> val) list \<Rightarrow> (val \<times> val) set" where
  "useFlow s edges = set edges \<union> {(a, v). v < length (ops s) \<and> passes s v a}"

definition metaUsed :: "ir \<Rightarrow> (val \<times> val) list \<Rightarrow> val \<Rightarrow> bool" where
  "metaUsed s edges a \<longleftrightarrow> (\<exists>b v. (a, b) \<in> (useFlow s edges)\<^sup>* \<and> v < length (ops s) \<and> metaMark s v b)"

definition dataUsed :: "ir \<Rightarrow> (val \<times> val) list \<Rightarrow> val \<Rightarrow> bool" where
  "dataUsed s edges a \<longleftrightarrow> (\<exists>b v. (a, b) \<in> (useFlow s edges)\<^sup>* \<and> v < length (ops s) \<and> dataMark s v b)"

definition useOf :: "bool \<Rightarrow> bool \<Rightarrow> use_type" where
  "useOf m d = (if m then if d then MixUse else MetaUse else if d then DataUse else Undefined)"

lemma useOf_kinds [simp]: "isMeta (useOf m d) = m" "isData (useOf m d) = d"
  by (simp_all add: useOf_def)

lemma joinStep_kinds:
  "joinStep s st (VisitOp v) = st \<longleftrightarrow>
    (\<forall>a. (metaMark s v a \<or> passes s v a \<and> isMeta (st v) \<longrightarrow> isMeta (st a)) \<and>
         (dataMark s v a \<or> passes s v a \<and> isData (st v) \<longrightarrow> isData (st a)))"
  "joinStep s st (VisitEdge x r) = st \<longleftrightarrow> (isMeta (st r) \<longrightarrow> isMeta (st x)) \<and> (isData (st r) \<longrightarrow> isData (st x))"
  by (auto simp: joinStep_def fun_eq_iff kinds_eq useBy_kinds)

lemma visitOp_stable:
  "visitStep s st (VisitOp v) = Some st \<longleftrightarrow> useAsserts (defOp s v) \<and>
    (\<forall>a. (metaMark s v a \<or> passes s v a \<and> isMeta (st v) \<longrightarrow> isMeta (st a)) \<and>
         (dataMark s v a \<or> passes s v a \<and> isData (st v) \<longrightarrow> isData (st a)))"
  using joinStep_kinds(1) [of s st v] unfolding visitStep_join stepAsserts_def joinStep_def by simp

lemma stable_kinds:
  "stable s (visits s edges) st \<longleftrightarrow>
    (\<forall>(a, b) \<in> useFlow s edges. (isMeta (st b) \<longrightarrow> isMeta (st a)) \<and> (isData (st b) \<longrightarrow> isData (st a))) \<and>
    (\<forall>v < length (ops s). \<forall>a. (metaMark s v a \<longrightarrow> isMeta (st a)) \<and> (dataMark s v a \<longrightarrow> isData (st a)))"
  by (auto simp: stable_def visits_def useFlow_def joinStep_kinds ball_Un image_iff)

lemma solution_uses:
  assumes "wf_ir s" "edgesOk s edges"
  shows "solution s edges = (\<lambda>a. useOf (metaUsed s edges a) (dataUsed s edges a))"
proof (rule order_antisym)
  have "stable s (visits s edges) (\<lambda>a. useOf (metaUsed s edges a) (dataUsed s edges a))"
    unfolding stable_kinds by (auto simp: metaUsed_def dataUsed_def intro: converse_rtrancl_into_rtrancl)
  then show "solution s edges \<le> (\<lambda>a. useOf (metaUsed s edges a) (dataUsed s edges a))" by (rule solution_least)
  have st: "stable s (visits s edges) (solution s edges)" using assms by (rule solution_stable)
  have "isMeta (solution s edges a)" if "(a, b) \<in> (useFlow s edges)\<^sup>*" "v < length (ops s)" "metaMark s v b" for a b v
    using that by (induction rule: converse_rtrancl_induct) (use st in \<open>auto simp: stable_kinds\<close>)
  moreover have "isData (solution s edges a)" if "(a, b) \<in> (useFlow s edges)\<^sup>*" "v < length (ops s)" "dataMark s v b" for a b v
    using that by (induction rule: converse_rtrancl_induct) (use st in \<open>auto simp: stable_kinds\<close>)
  ultimately show "(\<lambda>a. useOf (metaUsed s edges a) (dataUsed s edges a)) \<le> solution s edges"
    by (auto simp: le_fun_def kinds_le metaUsed_def dataUsed_def)
qed

section \<open>Clones\<close>

text \<open>The operation a value of the program stands for.\<close>

definition original :: "use_program \<Rightarrow> val \<Rightarrow> val" where
  "original p u = (case map_of (map prod.swap (clones p)) u of Some v \<Rightarrow> v | None \<Rightarrow> u)"

text \<open>The program is the source program with some operations copied.\<close>

definition copies :: "ir \<Rightarrow> use_program \<Rightarrow> bool" where
  "copies s p \<longleftrightarrow> length (ops s) \<le> length (ops (table p)) \<and>
     (\<forall>u < length (ops (table p)). original p u < length (ops s) \<and> tyOf (table p) u = tyOf s (original p u) \<and>
        map_gop (original p) (defOp (table p) u) = defOp s (original p u) \<and>
        (\<forall>a \<in> operands (defOp (table p) u). a < length (ops (table p)))) \<and>
     (\<forall>v < length (ops s). original p v = v) \<and> (\<forall>(v, c) \<in> set (clones p). v < length (ops s) \<and> c < length (ops (table p)))"

lemma redirect_at:
  "u < length (ops s) \<Longrightarrow> defOp (redirect v c us s) u =
     (if u \<in> us then map_gop (\<lambda>a. if a = v then c else a) (defOp s u) else defOp s u)"
  "u < length (ops s) \<Longrightarrow> tyOf (redirect v c us s) u = tyOf s u"
  "length (ops (redirect v c us s)) = length (ops s)"
  by (simp_all add: redirect_def defOp_def tyOf_def entry_def Let_def split: prod.split)

lemma append_at:
  "u < length (ops s) \<Longrightarrow> defOp (s\<lparr>ops := ops s @ [x]\<rparr>) u = defOp s u"
  "u < length (ops s) \<Longrightarrow> tyOf (s\<lparr>ops := ops s @ [x]\<rparr>) u = tyOf s u"
  "defOp (s\<lparr>ops := ops s @ [x]\<rparr>) (length (ops s)) = fst x"
  "tyOf (s\<lparr>ops := ops s @ [x]\<rparr>) (length (ops s)) = snd x"
  by (simp_all add: defOp_def tyOf_def)

lemma copies_clone:
  assumes "copies s p" "v < length (ops s)"
  shows "copies s (cloneMixUse st v p)"
proof (cases "metaUsersOf (table p) st v = []")
  case True
  then show ?thesis using assms(1) by (simp add: cloneMixUse_def Let_def)
next
  case False
  let ?s = "table p" and ?us = "set (metaUsersOf (table p) st v)" and ?c = "length (ops (table p))"
  define t where "t = redirect v ?c ?us (?s\<lparr>ops := ops ?s @ [ops ?s ! v]\<rparr>)"
  define q where "q = p\<lparr>table := t, metaTags := ?c # metaTags p, clones := (v, ?c) # clones p\<rparr>"
  have q: "cloneMixUse st v p = q" using False by (simp add: cloneMixUse_def Let_def q_def t_def)
  have o: "original q = (original p)(?c := v)" by (auto simp: q_def original_def fun_eq_iff)
  have len: "length (ops t) = Suc ?c" by (simp add: t_def redirect_at)
  have us: "?us \<subseteq> {..<?c}" by (auto simp: metaUsersOf_def)
  have c: "length (ops s) \<le> ?c" and vc: "v < ?c" using assms by (auto simp: copies_def)
  have at: "defOp t u = (if u \<in> ?us then map_gop (\<lambda>a. if a = v then ?c else a) (defOp ?s u) else defOp ?s u)"
    "tyOf t u = tyOf ?s u" if "u < ?c" for u
    using that by (simp_all add: t_def redirect_at append_at)
  have atc: "defOp t ?c = defOp ?s v" "tyOf t ?c = tyOf ?s v"
    using us vc by (auto simp: t_def redirect_at append_at) (simp_all add: defOp_def tyOf_def entry_def)
  have old: "original p u < length (ops s)" "tyOf ?s u = tyOf s (original p u)"
    "map_gop (original p) (defOp ?s u) = defOp s (original p u)" "\<forall>a \<in> operands (defOp ?s u). a < ?c" if "u < ?c" for u
    using assms(1) that by (auto simp: copies_def)
  have ov: "original p v = v" using assms by (simp add: copies_def)
  have keep: "map_gop (original q) d = map_gop (original p) d" if "\<forall>a \<in> operands d. a < ?c" for d
    using that by (intro gop.map_cong refl) (auto simp: o)
  have redirected: "map_gop (original q) (map_gop (\<lambda>a. if a = v then ?c else a) d) = map_gop (original p) d"
    if "\<forall>a \<in> operands d. a < ?c" for d
    unfolding gop.map_comp using that by (intro gop.map_cong refl) (auto simp: o ov)
  have "original q u < length (ops s) \<and> tyOf t u = tyOf s (original q u) \<and>
      map_gop (original q) (defOp t u) = defOp s (original q u) \<and> (\<forall>a \<in> operands (defOp t u). a < Suc ?c)"
    if "u < Suc ?c" for u
  proof (cases "u = ?c")
    case True
    then show ?thesis using old [OF vc] ov keep atc assms(2) vc by (auto simp: o)
  next
    case False
    then have u: "u < ?c" using that by simp
    then show ?thesis using at [OF u] old [OF u] keep redirected by (auto simp: o gop.set_map)
  qed
  then show ?thesis
    unfolding q using assms c vc by (auto simp: copies_def len q_def o [unfolded q_def])
qed

lemma copies_tag:
  assumes "copies s p" "v < length (ops s)"
  shows "copies s (tagOperation st p v)"
proof -
  have "original (p\<lparr>metaTags := x\<rparr>) = original p" for x by (simp add: original_def fun_eq_iff)
  then have "copies s (p\<lparr>metaTags := x\<rparr>)" for x
    using assms(1) by (simp add: copies_def)
  then show ?thesis
    using assms copies_clone [OF assms] by (auto simp: tagOperation_def Let_def split: use_type.split)
qed

lemma copies_run:
  assumes "wf_ir s" "set vs \<subseteq> {..<length (ops s)}" "copies s p"
  shows "copies s (foldl (tagOperation st) p vs)"
  using assms(2,3) by (induction vs arbitrary: p) (auto intro: copies_tag)

lemma copies_init: "wf_ir s \<Longrightarrow> copies s \<lparr>table = s, metaTags = [], clones = []\<rparr>"
proof -
  assume wf: "wf_ir s"
  have "original \<lparr>table = s, metaTags = [], clones = []\<rparr> = id" by (simp add: original_def fun_eq_iff)
  then show ?thesis using operand_bound [OF wf] by (simp add: copies_def gop.map_id)
qed

text \<open>An original operation is tagged only when its result is used as metadata only.\<close>

lemma tagged_originals:
  assumes "v \<in> set (metaTags (foldl (tagOperation st) p vs))" "v < n" "copies s p" "n = length (ops s)" "set vs \<subseteq> {..<n}"
  shows "v \<in> set (metaTags p) \<or> st v = MetaUse"
  using assms(1,3,5)
proof (induction vs arbitrary: p)
  case (Cons x vs)
  have "copies s (tagOperation st p x)" using Cons.prems assms(4) by (intro copies_tag) auto
  then have "v \<in> set (metaTags (tagOperation st p x)) \<or> st v = MetaUse" using Cons by simp
  moreover have "n \<le> length (ops (table p))" using Cons.prems(2) assms(4) by (simp add: copies_def)
  ultimately show ?case
    using assms(2)
    by (auto simp: tagOperation_def cloneMixUse_def Let_def resultUse_def split: use_type.splits if_splits)
qed simp

end
