(* ===== verification/Claims_Use.thy ===== *)
theory Claims_Use
  imports UseAnalysis_Sound Demo
begin

text \<open>The properties of the use analysis, with an instance of each.\<close>

section \<open>A value used as data and as metadata\<close>

text \<open>\<open>store(p + arange(0, 4), arange(0, 4))\<close>, with one range for both.\<close>

definition useDemo :: ir where
  "useDemo = \<lparr>ops = [
     (BlockArg None, PtrTy (IntTy 32)),
     (MakeRangeOp 0 4, TensorTy [4] (IntTy 32)),
     (SplatOp 0, TensorTy [4] (PtrTy (IntTy 32))),
     (AddPtrOp 2 1, TensorTy [4] (PtrTy (IntTy 32))),
     (StoreOp 3 1 None [], NoneTy)], fors = []\<rparr>"

lemma useDemo_wf: "wf_ir useDemo"
  by (simp add: wf_ir_enumerate useDemo_def)

lemma useDemo_len [simp]: "length (ops useDemo) = 5"
  by (simp add: useDemo_def)

lemma useDemo_ops [simp]:
  "defOp useDemo 0 = BlockArg None" "tyOf useDemo 0 = PtrTy (IntTy 32)"
  "defOp useDemo (Suc 0) = MakeRangeOp 0 4" "tyOf useDemo (Suc 0) = TensorTy [4] (IntTy 32)"
  "defOp useDemo 2 = SplatOp 0" "tyOf useDemo 2 = TensorTy [4] (PtrTy (IntTy 32))"
  "defOp useDemo 3 = AddPtrOp 2 1" "tyOf useDemo 3 = TensorTy [4] (PtrTy (IntTy 32))"
  "defOp useDemo 4 = StoreOp 3 1 None []" "tyOf useDemo 4 = NoneTy"
  by (simp_all add: useDemo_def defOp_def tyOf_def entry_def)

lemma below5: "v < (5 :: nat) \<longleftrightarrow> v = 0 \<or> v = 1 \<or> v = 2 \<or> v = 3 \<or> v = 4"
  by arith

lemma useDemo_asserts: "assertsOk useDemo"
  by (auto simp: assertsOk_def below5 useAsserts_def)

lemma useDemo_edges: "edgesOk useDemo []"
  by (simp add: edgesOk_def)

definition useDemoState :: uses where
  "useDemoState = setToExitState(0 := MetaUse, 1 := MixUse, 2 := MetaUse, 3 := MetaUse)"

section \<open>The solver\<close>

text \<open>C21: the data-flow analysis terminates in whatever order the solver visits the operations: at most two
  visits for each value change the state, and when the operations pass the assertions there is a
  fixpoint that visits reach from the initial state.\<close>

theorem solver_terminates:
  assumes "wf_ir s" and "edgesOk s edges"
  shows "(\<forall>n st. (solverStep s edges ^^ n) setToExitState st \<longrightarrow> n \<le> 2 * length (ops s)) \<and>
    (assertsOk s \<longrightarrow> (\<exists>st. solved s edges st))"
proof (intro conjI allI impI)
  fix n st assume "(solverStep s edges ^^ n) setToExitState st"
  then have "marks (length (ops s)) setToExitState + n \<le> marks (length (ops s)) st"
    using solverSteps_marks [OF assms] by (simp add: within_def setToExitState_def)
  then show "n \<le> 2 * length (ops s)" using marks_bound [of "length (ops s)" st] by simp
next
  assume "assertsOk s"
  then show "\<exists>st. solved s edges st" using solution_solved [OF assms] by blast
qed

theorem solver_terminates_witness:
  "\<not> (solverStep useDemo [] ^^ 11) setToExitState useDemoState \<and> (\<exists>st. solved useDemo [] st)"
proof -
  note * = solver_terminates [OF useDemo_wf useDemo_edges]
  have "(solverStep useDemo [] ^^ 11) setToExitState useDemoState \<longrightarrow> 11 \<le> 2 * length (ops useDemo)" using * by blast
  then show ?thesis using * useDemo_asserts by simp
qed

text \<open>C20: the order in which the data-flow solver visits the operations does not matter: any two sequences of
  visits from the initial state that end in a state no visit changes end in the same state.\<close>

theorem solve_order_independent:
  assumes "wf_ir s" and "edgesOk s edges" and "set xs \<subseteq> set (visits s edges)"
    and "runVisits s setToExitState xs = Some st" and "\<forall>x \<in> set (visits s edges). visitStep s st x = Some st"
    and "set ys \<subseteq> set (visits s edges)"
    and "runVisits s setToExitState ys = Some st'" and "\<forall>x \<in> set (visits s edges). visitStep s st' x = Some st'"
  shows "st' = st"
proof -
  have "solved s edges st" "solved s edges st'" unfolding solved_def using assms(3-8) by blast+
  then show ?thesis using solved_solution [OF assms(1,2)] by metis
qed

definition useDemoSteps :: "visit_step list" where
  "useDemoSteps = [VisitOp 4, VisitOp 3, VisitOp 2]"

lemmas use_step_simps = visitOperation_def useAsserts_def useBy_def hasResult_def constSplat_def
  resultUse_def isPtrTensor_def markIf_def setToExitState_def sup_use_type_def fun_eq_iff

lemma useDemo_run: "runVisits useDemo setToExitState useDemoSteps = Some useDemoState"
  by (auto simp: useDemoSteps_def useDemoState_def use_step_simps)

lemma useDemo_stable: "\<forall>x \<in> set (visits useDemo []). visitStep useDemo useDemoState x = Some useDemoState"
proof -
  have "set (visits useDemo []) = VisitOp ` {0, 1, 2, 3, 4}"
    by (auto simp: visits_def below5)
  then show ?thesis
    by (auto simp: useDemoState_def use_step_simps)
qed

lemma useDemo_solved: "solved useDemo [] useDemoState"
  unfolding solved_def using useDemo_run useDemo_stable
  by (intro conjI exI [of _ useDemoSteps]) (auto simp: useDemoSteps_def visits_def)

definition useDemoSteps' :: "visit_step list" where
  "useDemoSteps' = [VisitOp 3, VisitOp 4, VisitOp 0, VisitOp 3, VisitOp 2]"

lemma useDemo_run': "runVisits useDemo setToExitState useDemoSteps' = Some useDemoState"
  by (auto simp: useDemoSteps'_def useDemoState_def use_step_simps)

theorem solve_order_independent_witness: "the (runVisits useDemo setToExitState useDemoSteps') = useDemoState"
proof (rule solve_order_independent [OF useDemo_wf useDemo_edges _ useDemo_run useDemo_stable])
  show "runVisits useDemo setToExitState useDemoSteps' = Some (the (runVisits useDemo setToExitState useDemoSteps'))"
    unfolding useDemo_run' option.sel ..
  show "\<forall>x \<in> set (visits useDemo []). visitStep useDemo (the (runVisits useDemo setToExitState useDemoSteps')) x =
      Some (the (runVisits useDemo setToExitState useDemoSteps'))"
    unfolding useDemo_run' option.sel by (rule useDemo_stable)
qed (auto simp: useDemoSteps_def useDemoSteps'_def visits_def)

text \<open>C22: the solver marks a value as used for metadata exactly when its uses lead, through operations
  that pass on the uses of their result and through region edges, to a pointer, a mask, a masked
  value or a tensor of pointers, and as used for data exactly when they lead to a stored value or to
  the accumulator of a dot.\<close>

theorem solve_uses:
  assumes "wf_ir s" and "edgesOk s edges" and "solved s edges st"
  shows "(st a = MetaUse \<or> st a = MixUse \<longleftrightarrow> metaUsed s edges a) \<and> (st a = DataUse \<or> st a = MixUse \<longleftrightarrow> dataUsed s edges a)"
proof -
  have "st = solution s edges" using assms by (rule solved_solution)
  then have "st = (\<lambda>a. useOf (metaUsed s edges a) (dataUsed s edges a))" using solution_uses [OF assms(1,2)] by simp
  then show ?thesis by (simp add: useOf_def)
qed

theorem solve_uses_witness: "metaUsed useDemo [] 1 \<and> dataUsed useDemo [] 1"
  using solve_uses [OF useDemo_wf useDemo_edges useDemo_solved, of 1] by (simp add: useDemoState_def)

section \<open>Tags and clones\<close>

text \<open>C23: the pass only copies operations: in the program it returns, every operation, a clone or not, is
  the operation it stands for with each operand standing for the original operand, with the same
  type.\<close>

theorem runUseAnalysis_copies:
  assumes "wf_ir s" and "runUseAnalysis solver s = Some p" and "u < length (ops (table p))"
  shows "original p u < length (ops s) \<and> tyOf (table p) u = tyOf s (original p u) \<and>
    map_gop (original p) (defOp (table p) u) = defOp s (original p u)"
proof -
  obtain st where p: "p = foldl (tagOperation st) \<lparr>table = s, metaTags = [], clones = []\<rparr> [0..<length (ops s)]"
    using assms(2) by (auto simp: runUseAnalysis_def split: option.splits)
  have "copies s p" unfolding p by (rule copies_run [OF assms(1) _ copies_init [OF assms(1)]]) auto
  then show ?thesis using assms(3) by (simp add: copies_def)
qed

definition useDemoResult :: use_program where
  "useDemoResult = \<lparr>table = \<lparr>ops = [
     (BlockArg None, PtrTy (IntTy 32)),
     (MakeRangeOp 0 4, TensorTy [4] (IntTy 32)),
     (SplatOp 0, TensorTy [4] (PtrTy (IntTy 32))),
     (AddPtrOp 2 5, TensorTy [4] (PtrTy (IntTy 32))),
     (StoreOp 3 1 None [], NoneTy),
     (MakeRangeOp 0 4, TensorTy [4] (IntTy 32))], fors = []\<rparr>, metaTags = [3, 2, 5], clones = [(1, 5)]\<rparr>"

lemma useDemo_result: "runUseAnalysis (\<lambda>_. Some useDemoState) useDemo = Some useDemoResult"
  by (simp add: runUseAnalysis_def) code_simp

theorem runUseAnalysis_copies_witness:
  "original useDemoResult 3 < length (ops useDemo) \<and> tyOf (table useDemoResult) 3 = tyOf useDemo (original useDemoResult 3) \<and>
    map_gop (original useDemoResult) (defOp (table useDemoResult) 3) = defOp useDemo (original useDemoResult 3)"
  by (rule runUseAnalysis_copies [OF useDemo_wf useDemo_result]) (simp add: useDemoResult_def)

text \<open>C24: an operation of the source program that is tagged \<open>MetaUse\<close>, and so erased later, has no use
  as data: no operation stores it or accumulates on it, and none that passes on the uses of its
  result is used as data itself.\<close>

theorem tagged_not_data:
  assumes "wf_ir s" and "edgesOk s edges" and "\<And>st. solver s = Some st \<Longrightarrow> solved s edges st"
    and "runUseAnalysis solver s = Some p" and "v \<in> set (metaTags p)" and "v < length (ops s)"
  shows "\<not> dataUsed s edges v"
proof -
  obtain st where st: "solver s = Some st"
    and p: "p = foldl (tagOperation st) \<lparr>table = s, metaTags = [], clones = []\<rparr> [0..<length (ops s)]"
    using assms(4) by (auto simp: runUseAnalysis_def split: option.splits)
  have "st v = MetaUse"
    using tagged_originals [OF assms(5) [unfolded p] assms(6) copies_init [OF assms(1)] refl] by (simp add: atLeast0LessThan)
  moreover have "st = solution s edges" by (rule solved_solution [OF assms(1,2) assms(3) [OF st]])
  ultimately have "useOf (metaUsed s edges v) (dataUsed s edges v) = MetaUse" using solution_uses [OF assms(1,2)] by metis
  then show ?thesis by (auto simp: useOf_def split: if_splits)
qed

theorem tagged_not_data_witness: "\<not> dataUsed useDemo [] 2"
  by (rule tagged_not_data [OF useDemo_wf useDemo_edges _ useDemo_result]) (simp_all add: useDemo_solved useDemoResult_def)

text \<open>
  A clone is not always free of data uses.  When the accumulator of a dot is the splat of a constant
  the dot counts as a metadata user of its other operands too, and an operation without results,
  such as a yield, counts as one of every operand: value 1 below is the data operand of the dot 6
  and of the operation 8, and both are made to use the clone 9, which is tagged to be erased.
\<close>

definition dotDemo :: ir where
  "dotDemo = \<lparr>ops = [
     (BlockArg None, PtrTy (IntTy 32)),
     (OpaqueOp [], TensorTy [4, 4] (IntTy 32)),
     (SplatOp 0, TensorTy [4, 4] (PtrTy (IntTy 32))),
     (AddPtrOp 2 1, TensorTy [4, 4] (PtrTy (IntTy 32))),
     (ConstantOp (IntegerAttr 0 (IntTy 32)), IntTy 32),
     (SplatOp 4, TensorTy [4, 4] (IntTy 32)),
     (DotOp 1 1 5, TensorTy [4, 4] (IntTy 32)),
     (StoreOp 3 6 None [], NoneTy),
     (OpaqueOp [1], NoneTy)], fors = []\<rparr>"

definition dotDemoState :: uses where
  "dotDemoState = setToExitState(0 := MetaUse, 1 := MixUse, 2 := MetaUse, 3 := MetaUse, 4 := MetaUse, 5 := MetaUse, 6 := DataUse)"

lemma dotDemo_ops [simp]:
  "defOp dotDemo 0 = BlockArg None" "tyOf dotDemo 0 = PtrTy (IntTy 32)"
  "defOp dotDemo (Suc 0) = OpaqueOp []" "tyOf dotDemo (Suc 0) = TensorTy [4, 4] (IntTy 32)"
  "defOp dotDemo 2 = SplatOp 0" "tyOf dotDemo 2 = TensorTy [4, 4] (PtrTy (IntTy 32))"
  "defOp dotDemo 3 = AddPtrOp 2 1" "tyOf dotDemo 3 = TensorTy [4, 4] (PtrTy (IntTy 32))"
  "defOp dotDemo 4 = ConstantOp (IntegerAttr 0 (IntTy 32))" "tyOf dotDemo 4 = IntTy 32"
  "defOp dotDemo 5 = SplatOp 4" "tyOf dotDemo 5 = TensorTy [4, 4] (IntTy 32)"
  "defOp dotDemo 6 = DotOp 1 1 5" "tyOf dotDemo 6 = TensorTy [4, 4] (IntTy 32)"
  "defOp dotDemo 7 = StoreOp 3 6 None []" "tyOf dotDemo 7 = NoneTy"
  "defOp dotDemo 8 = OpaqueOp [1]" "tyOf dotDemo 8 = NoneTy"
  by (simp_all add: dotDemo_def defOp_def tyOf_def entry_def)

lemma dotDemo_solved: "solved dotDemo [] dotDemoState"
  unfolding solved_def
proof (intro conjI exI)
  have n: "length (ops dotDemo) = 9" by (simp add: dotDemo_def)
  have steps: "set (visits dotDemo []) = VisitOp ` {0, 1, 2, 3, 4, 5, 6, 7, 8}"
    by (auto simp: visits_def n image_iff)
  show "set [VisitOp 7, VisitOp 6, VisitOp 5, VisitOp 3, VisitOp 2] \<subseteq> set (visits dotDemo [])"
    unfolding steps by simp
  define s7 where "s7 = setToExitState(3 := MetaUse, 6 := DataUse)"
  define s6 where "s6 = s7(1 := DataUse, 5 := MetaUse)"
  define s5 where "s5 = s6(4 := MetaUse)"
  define s3 where "s3 = s5(1 := MixUse, 2 := MetaUse)"
  have "visitOperation dotDemo setToExitState 7 = Some s7" by (auto simp: s7_def use_step_simps)
  moreover have "visitOperation dotDemo s7 6 = Some s6" by (auto simp: s7_def s6_def use_step_simps)
  moreover have "visitOperation dotDemo s6 5 = Some s5" by (auto simp: s7_def s6_def s5_def use_step_simps)
  moreover have "visitOperation dotDemo s5 3 = Some s3" by (auto simp: s7_def s6_def s5_def s3_def use_step_simps)
  moreover have "visitOperation dotDemo s3 2 = Some dotDemoState"
    by (auto simp: s7_def s6_def s5_def s3_def dotDemoState_def use_step_simps)
  ultimately show "runVisits dotDemo setToExitState [VisitOp 7, VisitOp 6, VisitOp 5, VisitOp 3, VisitOp 2] = Some dotDemoState"
    by simp
  show "\<forall>x \<in> set (visits dotDemo []). visitStep dotDemo dotDemoState x = Some dotDemoState"
    unfolding steps
    by (simp add: visitOp_stable metaMark_def passes_def dataMark_def useAsserts_def hasResult_def isPtrTensor_def
        constSplat_def dotDemoState_def setToExitState_def del: visitStep.simps)
qed

definition dotDemoResult :: use_program where
  "dotDemoResult = foldl (tagOperation dotDemoState) \<lparr>table = dotDemo, metaTags = [], clones = []\<rparr> [0..<9]"

theorem clone_used_as_data:
  "solved dotDemo [] dotDemoState \<and> runUseAnalysis (\<lambda>_. Some dotDemoState) dotDemo = Some dotDemoResult \<and> defOp (table dotDemoResult) 6 = DotOp 9 9 5 \<and>
   defOp (table dotDemoResult) 8 = OpaqueOp [9] \<and> 9 \<in> set (metaTags dotDemoResult)"
proof -
  have "length (ops dotDemo) = 9" by (simp add: dotDemo_def)
  then have "runUseAnalysis (\<lambda>_. Some dotDemoState) dotDemo = Some dotDemoResult"
    by (simp only: runUseAnalysis_def dotDemoResult_def option.case)
  moreover have "defOp (table dotDemoResult) 6 = DotOp 9 9 5 \<and> defOp (table dotDemoResult) 8 = OpaqueOp [9] \<and>
      9 \<in> set (metaTags dotDemoResult)"
    by code_simp
  ultimately show ?thesis using dotDemo_solved by simp
qed

end
