(* ===== verification/Unstructured.thy ===== *)
theory Unstructured
  imports Structured_Ops Ptr_Visit
begin

text \<open>
  \<open>lib/Conversion/TritonToUnstructured/TritonToUnstructuredPass.cpp\<close>: every pointer that comes from a
  kernel argument is split into that argument and an integer offset, by following the uses of the
  pointers; the loads and stores through them become \<open>tts.gather\<close> and \<open>tts.scatter\<close>.

  The use lists are those of the program the pass is given.  An operation the pass creates uses a
  pointer only once the uses of that pointer have been taken, so the lists are read from the program
  at the start.  Operations that the code updates in place, replaces or erases are reported with the
  value that takes their place, and keep their entry in the table; only \<open>setType\<close> changes an entry.
\<close>

section \<open>Offset types\<close>

text \<open>No result is \<open>llvm_unreachable\<close>.\<close>

definition getPtrOffsetType :: "ty \<Rightarrow> nat \<Rightarrow> ty option" where
  "getPtrOffsetType t w = (case t of
     TensorTy sh e \<Rightarrow> if isPtrTy e then Some (TensorTy sh (IntTy w)) else None
   | PtrTy p \<Rightarrow> Some (IntTy w)
   | _ \<Rightarrow> None)"

definition getBitWidth :: "ty \<Rightarrow> nat option" where
  "getBitWidth t = (case t of
     TensorTy sh e \<Rightarrow> (case e of IntTy w \<Rightarrow> Some w | _ \<Rightarrow> None)
   | IntTy w \<Rightarrow> Some w
   | _ \<Rightarrow> None)"

text \<open>The pointee of the pointers a type consists of.\<close>

definition getScalarPtrType :: "ty \<Rightarrow> ty option" where
  "getScalarPtrType t = (case t of
     TensorTy sh e \<Rightarrow> (case e of PtrTy p \<Rightarrow> Some p | _ \<Rightarrow> None)
   | PtrTy p \<Rightarrow> Some p
   | _ \<Rightarrow> None)"

section \<open>State\<close>

record ptr_offset =
  ptr :: val
  ptrType :: ty
  bitWidth :: nat
  offset :: val

record unstructured =
  ptrArgs :: "val list"
  offsetMap :: "val \<Rightarrow> ptr_offset option"
  workList :: "val list"
  toDelete :: "val list"
  ptrUsers :: "val list"
  deferredRewrites :: "(val \<times> val) list" \<comment> \<open>the operation and its new first operand\<close>

text \<open>A use of a value: an operand of an operation, or the init argument of a loop.\<close>

datatype use = OpUse val | InitUse nat nat

text \<open>
  What the table does not hold: the arguments of the functions, which operations lie inside an
  \<open>scf.if\<close>, the order of the use lists, and the option \<open>offset-bit-width\<close> of the pass.
\<close>

record pass_context =
  funcArgs :: "val list"
  insideIf :: "val \<Rightarrow> bool"
  useOrder :: "use list \<Rightarrow> use list"
  defaultBitWidth :: nat

text \<open>\<open>insert\<close> of a \<open>DenseMap\<close> keeps an entry that is there; \<open>at\<close> needs one.\<close>

definition insertOffset :: "val \<Rightarrow> ptr_offset \<Rightarrow> unstructured \<Rightarrow> unstructured" where
  "insertOffset v info u = (if offsetMap u v = None then u\<lparr>offsetMap := (offsetMap u)(v \<mapsto> info)\<rparr> else u)"

definition offsetAt :: "unstructured \<Rightarrow> val \<Rightarrow> ptr_offset irm" where
  "offsetAt u v = castM (offsetMap u v)"

definition pushWork :: "val \<Rightarrow> unstructured \<Rightarrow> unstructured" where
  "pushWork v u = u\<lparr>workList := workList u @ [v]\<rparr>"

definition pushDelete :: "val \<Rightarrow> unstructured \<Rightarrow> unstructured" where
  "pushDelete v u = u\<lparr>toDelete := toDelete u @ [v]\<rparr>"

definition setType :: "val \<Rightarrow> ty \<Rightarrow> unit irm" where
  "setType v t = (\<lambda>s. (Inr (), s\<lparr>ops := (ops s)[v := (defOp s v, t)]\<rparr>))"

definition createZero :: "nat \<Rightarrow> val irm" where
  "createZero w = create (ConstantOp (IntegerAttr 0 (IntTy w))) (IntTy w)"

section \<open>Uses\<close>

text \<open>
  The operands that are \<open>v\<close>, for the operations that may take it more than once; for the others the
  number does not matter.
\<close>

definition operandUses :: "val \<Rightarrow> opr \<Rightarrow> nat" where
  "operandUses v opn = (case opn of
     SelectOp c a b \<Rightarrow> length (filter (\<lambda>x. x = v) [c, a, b])
   | LoadOp p m other bc pad \<Rightarrow> length (filter (\<lambda>x. x = Some v) [Some p, m, other])
   | StoreOp p x m bc \<Rightarrow> length (filter (\<lambda>y. y = Some v) [Some p, Some x, m])
   | TTSStoreOp p x dims bc \<Rightarrow> length (filter (\<lambda>y. y = v) [p, x])
   | _ \<Rightarrow> if v \<in> operands opn then 1 else 0)"

definition usesOf :: "pass_context \<Rightarrow> ir \<Rightarrow> val \<Rightarrow> use list" where
  "usesOf cx s v = useOrder cx (
     concat (map (\<lambda>w. replicate (operandUses v (defOp s w)) (OpUse w)) [0..<length (ops s)]) @
     concat (map (\<lambda>f. map (InitUse f) (filter (\<lambda>i. initArgs (fors s ! f) ! i = v) [0..<length (initArgs (fors s ! f))]))
       [0..<length (fors s)]))"

section \<open>One use\<close>

definition processPtrToInt :: "unstructured \<Rightarrow> val \<Rightarrow> val \<Rightarrow> unstructured irm" where
  "processPtrToInt u v src =
     bindM (getM (\<lambda>s. isTensor (tyOf s v))) (\<lambda>tensor.
     if tensor then raise Failure else
     bindM (offsetAt u src) (\<lambda>info.
     bindM (create (AddPtrOp (ptr info) (offset info)) (ptrType info)) (\<lambda>m.
     ret (u\<lparr>deferredRewrites := deferredRewrites u @ [(v, m)]\<rparr>))))"

definition widenOffset :: "bool \<Rightarrow> ty \<Rightarrow> nat \<Rightarrow> val \<Rightarrow> val irm" where
  "widenOffset narrow t w v =
     (if narrow then bindM (castM (getPtrOffsetType t w)) (create (CastOp ExtSI v)) else ret v)"

definition processAddPtr :: "pass_context \<Rightarrow> unstructured \<Rightarrow> val \<Rightarrow> val \<Rightarrow> val \<Rightarrow> unstructured irm" where
  "processAddPtr cx u v p off =
     (if insideIf cx v \<and> p \<notin> set (ptrArgs u) then raise Failure else
      bindM (offsetAt u p) (\<lambda>info.
      bindM (getM (\<lambda>s. (tyOf s v, tyOf s off))) (\<lambda>(t, offTy).
      bindM (castM (getBitWidth offTy)) (\<lambda>rhsWidth.
      let resWidth = max (bitWidth info) rhsWidth in
      bindM (widenOffset (bitWidth info < resWidth) (ptrType info) resWidth (offset info)) (\<lambda>lhs.
      bindM (widenOffset (rhsWidth < resWidth) (ptrType info) resWidth off) (\<lambda>rhs.
      bindM (castM (getPtrOffsetType t resWidth)) (\<lambda>accTy.
      bindM (create (BinOp AddI lhs rhs) accTy) (\<lambda>acc.
      ret (pushDelete v (pushWork v (insertOffset v
        \<lparr>ptr = ptr info, ptrType = t, bitWidth = resWidth, offset = acc\<rparr> u)))))))))))"

text \<open>\<open>tt.splat\<close>, \<open>tt.broadcast\<close> and \<open>tt.expand_dims\<close> are cloned on the offset.\<close>

definition processReshape :: "unstructured \<Rightarrow> val \<Rightarrow> val \<Rightarrow> (val \<Rightarrow> opr) \<Rightarrow> unstructured irm" where
  "processReshape u v src clone =
     bindM (getM (\<lambda>s. tyOf s v)) (\<lambda>t.
     if \<not> isPtrTypeLike t then ret u else
     bindM (offsetAt u src) (\<lambda>info.
     bindM (castM (getPtrOffsetType t (bitWidth info))) (\<lambda>offTy.
     bindM (create (clone (offset info)) offTy) (\<lambda>c.
     ret (pushDelete v (pushWork v (insertOffset v (info\<lparr>ptrType := t, offset := c\<rparr>) u)))))))"

text \<open>A base whose pointee the bitcast changes is cast as well.\<close>

definition castBase :: "ptr_offset \<Rightarrow> ty \<Rightarrow> val irm" where
  "castBase info resTy =
     (case (getScalarPtrType (ptrType info), getScalarPtrType resTy) of
       (Some old, Some new) \<Rightarrow>
         bindM (getM (\<lambda>s. tyOf s (ptr info))) (\<lambda>baseTy.
         if old \<noteq> new \<and> isPtrTy baseTy then create (BitcastOp (ptr info)) (PtrTy new) else ret (ptr info))
     | _ \<Rightarrow> ret (ptr info))"

definition processBitcast :: "unstructured \<Rightarrow> val \<Rightarrow> val \<Rightarrow> unstructured irm" where
  "processBitcast u v src =
     bindM (getM (\<lambda>s. (tyOf s src, tyOf s v))) (\<lambda>(srcTy, t).
     if \<not> isPtrTypeLike srcTy \<or> \<not> isPtrTypeLike t then raise Failure else
     bindM (offsetAt u src) (\<lambda>info.
     bindM (castBase info t) (\<lambda>base.
     ret (pushDelete v (pushWork v (insertOffset v (info\<lparr>ptr := base, ptrType := t\<rparr>) u))))))"

definition processStructuredAccess :: "unstructured \<Rightarrow> val \<Rightarrow> val \<Rightarrow> unstructured irm" where
  "processStructuredAccess u v p = (case offsetMap u p of
     None \<Rightarrow> ret u
   | Some info \<Rightarrow>
       bindM (create (AddPtrOp (ptr info) (offset info)) (ptrType info)) (\<lambda>m.
       ret (u\<lparr>deferredRewrites := deferredRewrites u @ [(v, m)]\<rparr>)))"

definition processPtrUser :: "unstructured \<Rightarrow> val \<Rightarrow> unstructured irm" where
  "processPtrUser u v = ret (u\<lparr>ptrUsers := ptrUsers u @ [v]\<rparr>)"

definition processSelect :: "pass_context \<Rightarrow> unstructured \<Rightarrow> val \<Rightarrow> unstructured irm" where
  "processSelect cx u v =
     bindM (getM (\<lambda>s. tyOf s v)) (\<lambda>t.
     if \<not> isPtrTypeLike t then ret u else
     bindM (createZero (defaultBitWidth cx)) (\<lambda>zero.
     ret (pushWork v (insertOffset v
       \<lparr>ptr = v, ptrType = t, bitWidth = defaultBitWidth cx, offset = zero\<rparr> u))))"

text \<open>
  A loop: its iteration argument and its result become offsets, in place, while the init argument
  and the value that the body yields are still pointers.
\<close>

definition processForInit :: "unstructured \<Rightarrow> nat \<Rightarrow> nat \<Rightarrow> unstructured irm" where
  "processForInit u f i =
     bindM (forAt f) (\<lambda>fo.
     bindM (atM (initArgs fo) i) (\<lambda>init.
     bindM (offsetAt u init) (\<lambda>info.
     bindM (castM (getPtrOffsetType (ptrType info) (bitWidth info))) (\<lambda>offTy.
     bindM (atM (iterArgs fo) i) (\<lambda>arg. thenM (setType arg offTy) (
     bindM (atM (results fo) i) (\<lambda>res. thenM (setType res offTy) (
     ret (pushWork res (pushWork arg (insertOffset res (info\<lparr>offset := res\<rparr>)
       (insertOffset arg (info\<lparr>offset := arg\<rparr>) u))))))))))))"

definition processOp :: "pass_context \<Rightarrow> unstructured \<Rightarrow> val \<Rightarrow> unstructured irm" where
  "processOp cx u v = bindM (getM (\<lambda>s. defOp s v)) (\<lambda>d. case d of
     PtrToIntOp a \<Rightarrow> processPtrToInt u v a
   | AddPtrOp p off \<Rightarrow> processAddPtr cx u v p off
   | SplatOp a \<Rightarrow> processReshape u v a SplatOp
   | BroadcastOp a \<Rightarrow> processReshape u v a BroadcastOp
   | ExpandDimsOp a ax \<Rightarrow> processReshape u v a (\<lambda>x. ExpandDimsOp x ax)
   | BitcastOp a \<Rightarrow> processBitcast u v a
   | TTSMakeGatherScatterOp base g dim szs strs offs \<Rightarrow> ret u
   | TTSLoadOp p dims other bc pad \<Rightarrow> processStructuredAccess u v p
   | TTSStoreOp p x dims bc \<Rightarrow> processStructuredAccess u v p
   | LoadOp p m other bc pad \<Rightarrow> processPtrUser u v
   | StoreOp p x m bc \<Rightarrow> processPtrUser u v
   | MakeTensorPtrOp base sh strs offs ord \<Rightarrow> processPtrUser u v
   | TTSMakeTensorPtrOp base szs strs offs orig sh ord \<Rightarrow>
       if base \<in> set (ptrArgs u) then ret u else processPtrUser u v
   | SelectOp c a b \<Rightarrow> processSelect cx u v
   | DSLRegionOp vs \<Rightarrow> ret u
   | _ \<Rightarrow> raise Failure)"

definition processUse :: "pass_context \<Rightarrow> unstructured \<Rightarrow> use \<Rightarrow> unstructured irm" where
  "processUse cx u x = (case x of OpUse v \<Rightarrow> processOp cx u v | InitUse f i \<Rightarrow> processForInit u f i)"

section \<open>The work list\<close>

text \<open>The first argument bounds the number of values taken off the list.\<close>

fun processWorkList :: "nat \<Rightarrow> pass_context \<Rightarrow> (val \<Rightarrow> use list) \<Rightarrow> unstructured \<Rightarrow> unstructured irm" where
  "processWorkList n cx uses u = (case workList u of
     [] \<Rightarrow> ret u
   | v # rest \<Rightarrow> (case n of
       0 \<Rightarrow> raise Hang
     | Suc m \<Rightarrow> bindM (foldM (processUse cx) (u\<lparr>workList := rest\<rparr>) (uses v)) (processWorkList m cx uses)))"

declare processWorkList.simps [simp del]

text \<open>The roots: pointer arguments of the functions, and pointers made from integers.\<close>

definition addRoot :: "nat \<Rightarrow> unstructured \<Rightarrow> val \<Rightarrow> unstructured irm" where
  "addRoot w u v =
     bindM (getM (\<lambda>s. tyOf s v)) (\<lambda>t.
     bindM (createZero w) (\<lambda>zero.
     ret (pushWork v (insertOffset v \<lparr>ptr = v, ptrType = t, bitWidth = w, offset = zero\<rparr> u))))"

definition addArg :: "nat \<Rightarrow> unstructured \<Rightarrow> val \<Rightarrow> unstructured irm" where
  "addArg w u v =
     bindM (getM (\<lambda>s. isPtrTypeLike (tyOf s v))) (\<lambda>p.
     if \<not> p then ret u else addRoot w (u\<lparr>ptrArgs := List.insert v (ptrArgs u)\<rparr>) v)"

definition intToPtrs :: "ir \<Rightarrow> val list" where
  "intToPtrs s = filter (\<lambda>v. case defOp s v of IntToPtrOp a \<Rightarrow> \<not> isTensor (tyOf s v) | _ \<Rightarrow> False) [0..<length (ops s)]"

section \<open>After the work list\<close>

definition setPointer :: "opr \<Rightarrow> val \<Rightarrow> opr" where
  "setPointer opn m = (case opn of
     PtrToIntOp a \<Rightarrow> PtrToIntOp m
   | TTSLoadOp p dims other bc pad \<Rightarrow> TTSLoadOp m dims other bc pad
   | TTSStoreOp p x dims bc \<Rightarrow> TTSStoreOp m x dims bc
   | _ \<Rightarrow> opn)"

definition applyDeferred :: "val \<times> val \<Rightarrow> (val \<times> val) irm" where
  "applyDeferred = (\<lambda>(v, m).
     bindM (getM (\<lambda>s. (defOp s v, tyOf s v))) (\<lambda>(d, t).
     bindM (create (setPointer d m) t) (\<lambda>w. ret (v, w))))"

definition scalarOther :: "val option \<Rightarrow> val option irm" where
  "scalarOther other = (case other of
     None \<Rightarrow> ret None
   | Some x \<Rightarrow> bindM (getScalarValue x) (\<lambda>r. case r of None \<Rightarrow> raise Failure | Some y \<Rightarrow> ret (Some y)))"

definition intWidth :: "ty \<Rightarrow> nat option" where
  "intWidth t = (case t of IntTy w \<Rightarrow> Some w | _ \<Rightarrow> None)"

text \<open>The offset of the base, in the type of the operand it is added to.\<close>

definition offsetInType :: "val \<Rightarrow> ty \<Rightarrow> val irm" where
  "offsetInType baseOffset curTy =
     bindM (getM (\<lambda>s. tyOf s baseOffset)) (\<lambda>baseTy.
     if baseTy = curTy then ret baseOffset
     else if curTy = IndexTy then create (CastOp IndexCast baseOffset) IndexTy
     else if isIntTy curTy then
       bindM (castM (intWidth baseTy)) (\<lambda>w.
       create (CastOp (if w < width curTy then ExtSI else TruncI) baseOffset) curTy)
     else ret baseOffset)"

definition accumulateOffset :: "val \<Rightarrow> val \<Rightarrow> val irm" where
  "accumulateOffset baseOffset cur =
     bindM (getM (\<lambda>s. tyOf s cur)) (\<lambda>curTy.
     bindM (offsetInType baseOffset curTy) (\<lambda>b. create (BinOp AddI b cur) curTy))"

text \<open>The first operand of the variadic offsets of \<open>tts.make_tptr\<close>: static offsets are no operands.\<close>

definition firstDynamic :: "ofr list \<Rightarrow> (nat \<times> val) option" where
  "firstDynamic xs = (case dropWhile (\<lambda>(i, x). ofrVals x = {}) (List.enumerate 0 xs) of
     (i, Val v) # _ \<Rightarrow> Some (i, v)
   | _ \<Rightarrow> None)"

text \<open>One user of a pointer.\<close>

definition rewriteUser :: "unstructured \<Rightarrow> opr \<Rightarrow> ty \<Rightarrow> val irm" where
  "rewriteUser u d t = (case d of
     LoadOp p m other bc pad \<Rightarrow>
       bindM (offsetAt u p) (\<lambda>info.
       bindM (scalarOther other) (\<lambda>y. create (GatherOp (ptr info) (offset info) m y) t))
   | StoreOp p x m bc \<Rightarrow>
       bindM (offsetAt u p) (\<lambda>info. create (ScatterOp (ptr info) (offset info) x m) NoneTy)
   | MakeTensorPtrOp base sh strs offs ord \<Rightarrow>
       bindM (offsetAt u base) (\<lambda>info.
       bindM (atM offs 0) (\<lambda>cur.
       bindM (accumulateOffset (offset info) cur) (\<lambda>acc.
       create (MakeTensorPtrOp (ptr info) sh strs (offs[0 := acc]) ord) t)))
   | TTSMakeTensorPtrOp base szs strs offs orig sh ord \<Rightarrow>
       bindM (offsetAt u base) (\<lambda>info.
       bindM (castM (firstDynamic offs)) (\<lambda>(i, cur).
       bindM (accumulateOffset (offset info) cur) (\<lambda>acc.
       create (TTSMakeTensorPtrOp (ptr info) szs strs (offs[i := Val acc]) orig sh ord) t)))
   | _ \<Rightarrow> raise Abort)"

text \<open>
  \<open>rewritten\<close> holds the users that have been dealt with, with their current form: a load or store is
  gone, and reading it again is undefined.
\<close>

definition rewritePtrUser :: "unstructured \<Rightarrow> (val \<times> val) list \<Rightarrow> val \<Rightarrow> (val \<times> val) list irm" where
  "rewritePtrUser u rewritten v =
     bindM (getM (\<lambda>s. let w = (case map_of rewritten v of None \<Rightarrow> v | Some w \<Rightarrow> w) in (defOp s w, tyOf s w))) (\<lambda>(d, t).
     bindM (rewriteUser u d t) (\<lambda>w. ret ((v, w) # rewritten)))"

text \<open>An operation that is erased is replaced by its offset; erasing it again is undefined.\<close>

definition eraseOp :: "unstructured \<Rightarrow> (val \<times> val) list \<Rightarrow> val \<Rightarrow> (val \<times> val) list irm" where
  "eraseOp u erased v =
     thenM (assertM (v \<notin> fst ` set erased))
     (bindM (offsetAt u v) (\<lambda>info. ret ((v, offset info) # erased)))"

section \<open>The pass\<close>

definition emptyUnstructured :: unstructured where
  "emptyUnstructured = \<lparr>ptrArgs = [], offsetMap = (\<lambda>_. None), workList = [], toDelete = [], ptrUsers = [],
     deferredRewrites = []\<rparr>"

text \<open>The operations updated in place, the users of pointers that were rewritten, and those erased.\<close>

record unstructured_result =
  final :: unstructured
  updated :: "(val \<times> val) list"
  rewrittenUsers :: "(val \<times> val) list"
  erased :: "(val \<times> val) list"

definition processUnstructuredPtrs :: "pass_context \<Rightarrow> nat \<Rightarrow> unstructured_result irm" where
  "processUnstructuredPtrs cx n =
     bindM (getM (\<lambda>s. s)) (\<lambda>prog.
     bindM (foldM (addArg (defaultBitWidth cx)) emptyUnstructured (funcArgs cx)) (\<lambda>u0.
     bindM (foldM (addRoot (defaultBitWidth cx)) u0 (intToPtrs prog)) (\<lambda>u1.
     bindM (processWorkList n cx (usesOf cx prog) u1) (\<lambda>u.
     bindM (mapM applyDeferred (deferredRewrites u)) (\<lambda>ds.
     bindM (foldM (rewritePtrUser u) [] (ptrUsers u)) (\<lambda>us.
     bindM (foldM (eraseOp u) [] (toDelete u)) (\<lambda>es.
     ret \<lparr>final = u, updated = ds, rewrittenUsers = us, erased = es\<rparr>)))))))"

text \<open>A failure is a warning, and what has been done to the program stays.\<close>

definition runUnstructured :: "pass_context \<Rightarrow> nat \<Rightarrow> unstructured_result option irm" where
  "runUnstructured cx n = attemptM (processUnstructuredPtrs cx n)"

end
