(* ===== verification/Unstructured_Sound.thy ===== *)
theory Unstructured_Sound
  imports Unstructured LoadStore_Sound "HOL-Library.Multiset"
begin

text \<open>
  What \<open>processUnstructuredPtrs\<close> does on the programs it supports: the work list empties within one
  step per value, every value is taken off it once, and each pointer it meets has an entry whose
  offset is built from the entry of the pointer it comes from.
\<close>

section \<open>The table while loops are retyped\<close>

text \<open>
  The table grows, and the types of the values in \<open>R\<close> may change.
\<close>

definition later :: "val set \<Rightarrow> ir \<Rightarrow> ir \<Rightarrow> bool" where
  "later R t u \<longleftrightarrow> length (ops t) \<le> length (ops u) \<and> fors u = fors t \<and> wf_ir u \<and>
     (\<forall>v. valid t v \<longrightarrow> defOp u v = defOp t v \<and> (v \<notin> R \<longrightarrow> tyOf u v = tyOf t v))"

lemma later_refl [simp]: "wf_ir t \<Longrightarrow> later R t t"
  by (simp add: later_def)

lemma later_trans [trans]: "later R s t \<Longrightarrow> later R t u \<Longrightarrow> later R s u"
  by (auto simp: later_def valid_def)

lemma laterD:
  assumes "later R t u"
  shows "wf_ir u" "fors u = fors t" "valid t v \<Longrightarrow> valid u v" "valid t v \<Longrightarrow> defOp u v = defOp t v"
    "valid t v \<Longrightarrow> v \<notin> R \<Longrightarrow> tyOf u v = tyOf t v"
  using assms by (auto simp: later_def valid_def)

lemma later_grows: "grows t u \<Longrightarrow> later R t u"
  using growsD [of t u] by (auto simp: later_def ext_def defOp_grows tyOf_grows)

definition loopVals :: "ir \<Rightarrow> val set" where
  "loopVals s = (\<Union>fo \<in> set (fors s). set (iterArgs fo) \<union> set (results fo))"

definition retyped :: "ir \<Rightarrow> val set" where
  "retyped s = {v \<in> loopVals s. isPtrTypeLike (tyOf s v)}"

fun isLoopVal :: "opr \<Rightarrow> bool" where
  "isLoopVal (BlockArg (Some f)) = True"
| "isLoopVal (ForResultOp f i) = True"
| "isLoopVal _ = False"

lemma wp_setType:
  assumes "wf_ir t" "valid t v" "isLoopVal (defOp t v)" "v \<in> R"
    and "\<And>u. later R t u \<Longrightarrow> length (ops u) = length (ops t) \<Longrightarrow> tyOf u v = ty \<Longrightarrow>
      (\<And>w. w \<noteq> v \<Longrightarrow> tyOf u w = tyOf t w) \<Longrightarrow> Q () u"
  shows "wp (setType v ty) Q t"
proof -
  define u where "u = t\<lparr>ops := (ops t)[v := (defOp t v, ty)]\<rparr>"
  have op: "entry d (ops u) w = (if w = v then (defOp t v, ty) else entry d (ops t) w)" for d w
    using assms(2) by (simp add: u_def entry_def valid_def)
  have d: "defOp u w = defOp t w" "tyOf u w = (if w = v then ty else tyOf t w)" for w
    by (simp_all add: defOp_def tyOf_def op)
  have nth: "fst (ops u ! w) = fst (ops t ! w)" if "w < length (ops t)" for w
    using that assms(2) by (auto simp: u_def nth_list_update defOp_def entry_def valid_def)
  have "constTyped (fst (ops u ! w)) (snd (ops u ! w))" if "w < length (ops t)" for w
  proof (cases "w = v")
    case True
    then show ?thesis using assms(2,3) by (cases "defOp t v" rule: isLoopVal.cases) (auto simp: u_def valid_def)
  next
    case False
    then have "ops u ! w = ops t ! w" by (simp add: u_def)
    then show ?thesis using assms(1) that by (simp add: wf_ir_def)
  qed
  moreover have len: "length (ops u) = length (ops t)" by (simp add: u_def)
  ultimately have "wf_ir u" using assms(1) nth by (auto simp: wf_ir_def)
  then have "later R t u" using d len assms(4) by (auto simp: later_def u_def)
  then have "Q () u" by (rule assms(5)) (use d len in simp_all)
  then show ?thesis by (simp add: wp_def setType_def u_def)
qed

text \<open>A new operation, in the vocabulary of \<open>later\<close>.\<close>

lemma wp_create_later:
  assumes "wf_ir t" "\<forall>a \<in> operands opn. valid t a" "constTyped opn ty"
    and "\<And>v u. later R t u \<Longrightarrow> valid u v \<Longrightarrow> \<not> valid t v \<Longrightarrow> defOp u v = opn \<Longrightarrow> tyOf u v = ty \<Longrightarrow>
      (\<And>w. w \<noteq> v \<Longrightarrow> tyOf u w = tyOf t w) \<Longrightarrow> Q v u"
  shows "wp (create opn ty) Q t"
proof -
  define u where "u = t\<lparr>ops := ops t @ [(opn, ty)]\<rparr>"
  define v where "v = length (ops t)"
  have wf: "wf_ir u" using assms(1-3) by (auto simp: u_def wf_ir_def nth_append valid_def less_Suc_eq)
  have op: "entry d (ops u) w = (if w = v then (opn, ty) else entry d (ops t) w)" for d w
    by (simp add: u_def v_def entry_def nth_append)
  have "defOp u w = (if w = v then opn else defOp t w)" "tyOf u w = (if w = v then ty else tyOf t w)" for w
    by (simp_all add: defOp_def tyOf_def op)
  then have "Q v u" using wf by (intro assms(4)) (auto simp: later_def u_def v_def valid_def)
  then show ?thesis by (simp add: wp_def create_def u_def v_def)
qed

section \<open>Supported programs\<close>

definition pointsTo :: "ty \<Rightarrow> ty \<Rightarrow> bool" where
  "pointsTo t e \<longleftrightarrow> \<not> isShaped e \<and> (t = PtrTy e \<or> (\<exists>sh. t = TensorTy sh (PtrTy e)))"

lemma pointsToD:
  assumes "pointsTo t e"
  shows "isPtrTypeLike t" "getScalarPtrType t = Some e" "pointee t = e"
  using assms by (cases e; auto simp: pointsTo_def isPtrTypeLike_def getScalarPtrType_def)+

text \<open>The operations whose result is a pointer made from their first operand.\<close>

fun derives :: "opr \<Rightarrow> bool" where
  "derives (AddPtrOp p d) = True"
| "derives (SplatOp a) = True"
| "derives (BroadcastOp a) = True"
| "derives (ExpandDimsOp a ax) = True"
| "derives (BitcastOp a) = True"
| "derives _ = False"

definition pointerArgs :: "pass_context \<Rightarrow> ir \<Rightarrow> val list" where
  "pointerArgs cx s = filter (\<lambda>v. isPtrTypeLike (tyOf s v)) (funcArgs cx)"

text \<open>The pointers that the work list reaches.\<close>

inductive traced :: "pass_context \<Rightarrow> ir \<Rightarrow> val \<Rightarrow> bool" for cx s where
  arg: "v \<in> set (pointerArgs cx s) \<Longrightarrow> traced cx s v"
| cast: "v \<in> set (intToPtrs s) \<Longrightarrow> traced cx s v"
| step: "traced cx s v \<Longrightarrow> valid s w \<Longrightarrow> derives (defOp s w) \<Longrightarrow> v \<in> operands (defOp s w) \<Longrightarrow> traced cx s w"
| iter: "traced cx s (initArgs (fors s ! f) ! i) \<Longrightarrow> f < length (fors s) \<Longrightarrow> i < length (initArgs (fors s ! f)) \<Longrightarrow>
    traced cx s (iterArgs (fors s ! f) ! i)"
| result: "traced cx s (initArgs (fors s ! f) ! i) \<Longrightarrow> f < length (fors s) \<Longrightarrow> i < length (initArgs (fors s ! f)) \<Longrightarrow>
    traced cx s (results (fors s ! f) ! i)"

text \<open>An operation the pass can deal with when it reaches it from the pointer \<open>v\<close>.\<close>

definition supportedOp :: "pass_context \<Rightarrow> ir \<Rightarrow> val \<Rightarrow> val \<Rightarrow> bool" where
  "supportedOp cx s v w = (case defOp s w of
     PtrToIntOp a \<Rightarrow> \<not> isTensor (tyOf s w)
   | AddPtrOp p d \<Rightarrow> p = v \<and> tyOf s w = tyOf s v \<and> (insideIf cx w \<longrightarrow> v \<in> set (funcArgs cx)) \<and>
       (\<exists>n. getPtrOffsetType (tyOf s v) n = Some (tyOf s d))
   | SplatOp a \<Rightarrow> \<exists>sh e. tyOf s v = PtrTy e \<and> tyOf s w = TensorTy sh (PtrTy e)
   | BroadcastOp a \<Rightarrow> \<exists>sh sh' e. tyOf s v = TensorTy sh (PtrTy e) \<and> tyOf s w = TensorTy sh' (PtrTy e) \<and>
       list_all2 (\<lambda>m n. m = n \<or> m = 1 \<and> 1 < n) sh sh'
   | ExpandDimsOp a ax \<Rightarrow> \<exists>sh e. tyOf s v = TensorTy sh (PtrTy e) \<and> ax \<le> length sh \<and>
       tyOf s w = TensorTy (insert_at ax 1 sh) (PtrTy e)
   | BitcastOp a \<Rightarrow> v \<notin> loopVals s \<and> shapeOf (tyOf s w) = shapeOf (tyOf s v) \<and>
       isTensor (tyOf s w) = isTensor (tyOf s v) \<and>
       (\<exists>e e'. pointsTo (tyOf s v) e \<and> pointsTo (tyOf s w) e' \<and> byteSize e' = byteSize e)
   | TTSMakeGatherScatterOp base g dim szs strs offs \<Rightarrow> True
   | TTSLoadOp p dims other bc pad \<Rightarrow> True
   | TTSStoreOp p x dims bc \<Rightarrow> True
   | LoadOp p m other bc pad \<Rightarrow> p = v \<and> m \<noteq> Some v \<and> other \<noteq> Some v \<and> (\<forall>x. other = Some x \<longrightarrow> scalarTerm s x)
   | StoreOp p x m bc \<Rightarrow> p = v \<and> x \<noteq> v \<and> m \<noteq> Some v
   | MakeTensorPtrOp base sh strs offs ord \<Rightarrow> base = v \<and> (\<exists>e. tyOf s v = PtrTy e) \<and> offs \<noteq> [] \<and>
       isIntOrIndex (tyOf s (hd offs))
   | TTSMakeTensorPtrOp base szs strs offs orig sh ord \<Rightarrow> base = v \<and> (\<exists>e. tyOf s v = PtrTy e) \<and>
       (v \<notin> set (funcArgs cx) \<longrightarrow> (\<exists>i c. firstDynamic offs = Some (i, c) \<and> tyOf s c = IndexTy))
   | DSLRegionOp vs \<Rightarrow> True
   | _ \<Rightarrow> False)"

definition supportedInit :: "ir \<Rightarrow> val \<Rightarrow> nat \<Rightarrow> nat \<Rightarrow> bool" where
  "supportedInit s v f i \<longleftrightarrow> tyOf s (iterArgs (fors s ! f) ! i) = tyOf s v \<and> tyOf s (results (fors s ! f) ! i) = tyOf s v"

definition loopsOk :: "ir \<Rightarrow> bool" where
  "loopsOk s \<longleftrightarrow> distinct (concat (map (\<lambda>fo. iterArgs fo @ results fo) (fors s))) \<and>
     (\<forall>fo \<in> set (fors s). length (iterArgs fo) = length (initArgs fo) \<and> length (results fo) = length (initArgs fo)) \<and>
     (\<forall>v \<in> loopVals s. valid s v \<and> isLoopVal (defOp s v))"

definition pointerProgram :: "pass_context \<Rightarrow> ir \<Rightarrow> bool" where
  "pointerProgram cx s \<longleftrightarrow> wf_ir s \<and> loopsOk s \<and> distinct (funcArgs cx) \<and>
     (\<forall>xs. mset (useOrder cx xs) = mset xs) \<and>
     (\<forall>v \<in> set (funcArgs cx). valid s v \<and> defOp s v = BlockArg None) \<and>
     (\<forall>v \<in> set (pointerArgs cx s @ intToPtrs s). \<exists>e. tyOf s v = PtrTy e \<and> \<not> isShaped e) \<and>
     (\<forall>v w. traced cx s v \<longrightarrow> valid s w \<longrightarrow> v \<in> operands (defOp s w) \<longrightarrow> supportedOp cx s v w) \<and>
     (\<forall>f i. f < length (fors s) \<longrightarrow> i < length (initArgs (fors s ! f)) \<longrightarrow> traced cx s (initArgs (fors s ! f) ! i) \<longrightarrow>
       supportedInit s (initArgs (fors s ! f) ! i) f i)"

section \<open>What an entry stands for\<close>

definition widened :: "ir \<Rightarrow> bool \<Rightarrow> ty \<Rightarrow> val \<Rightarrow> val \<Rightarrow> bool" where
  "widened t narrow ty x y \<longleftrightarrow> (if narrow then valid t y \<and> defOp t y = CastOp ExtSI x \<and> tyOf t y = ty else y = x)"

text \<open>An entry made from the entry \<open>q\<close> of the first operand.\<close>

definition madeFrom :: "ir \<Rightarrow> ir \<Rightarrow> val \<Rightarrow> ptr_offset \<Rightarrow> ptr_offset \<Rightarrow> bool" where
  "madeFrom s t v q p = (case defOp s v of
     AddPtrOp a d \<Rightarrow> ptr p = ptr q \<and> bitWidth p = max (bitWidth q) (width (tyOf s d)) \<and>
       (\<exists>x y. defOp t (offset p) = BinOp AddI x y \<and>
          widened t (bitWidth q < bitWidth p) (tyOf t (offset p)) (offset q) x \<and>
          widened t (width (tyOf s d) < bitWidth p) (tyOf t (offset p)) d y)
   | SplatOp a \<Rightarrow> ptr p = ptr q \<and> bitWidth p = bitWidth q \<and> defOp t (offset p) = SplatOp (offset q)
   | BroadcastOp a \<Rightarrow> ptr p = ptr q \<and> bitWidth p = bitWidth q \<and> defOp t (offset p) = BroadcastOp (offset q)
   | ExpandDimsOp a ax \<Rightarrow> ptr p = ptr q \<and> bitWidth p = bitWidth q \<and> defOp t (offset p) = ExpandDimsOp (offset q) ax
   | BitcastOp a \<Rightarrow> bitWidth p = bitWidth q \<and> offset p = offset q \<and>
       (ptr p = ptr q \<or> defOp t (ptr p) = BitcastOp (ptr q))
   | _ \<Rightarrow> False)"

fun firstOperand :: "opr \<Rightarrow> val" where
  "firstOperand (AddPtrOp p d) = p"
| "firstOperand (SplatOp a) = a"
| "firstOperand (BroadcastOp a) = a"
| "firstOperand (ExpandDimsOp a ax) = a"
| "firstOperand (BitcastOp a) = a"
| "firstOperand _ = 0"

definition loopInit :: "ir \<Rightarrow> val \<Rightarrow> val \<Rightarrow> bool" where
  "loopInit s a r \<longleftrightarrow> (\<exists>f i. f < length (fors s) \<and> i < length (initArgs (fors s ! f)) \<and>
     initArgs (fors s ! f) ! i = a \<and> (r = iterArgs (fors s ! f) ! i \<or> r = results (fors s ! f) ! i))"

definition wellTyped :: "ir \<Rightarrow> ir \<Rightarrow> val \<Rightarrow> ptr_offset \<Rightarrow> bool" where
  "wellTyped s t v p \<longleftrightarrow> valid t (offset p) \<and> valid t (ptr p) \<and> ptr p \<notin> loopVals s \<and> ptrType p = tyOf s v \<and>
     getPtrOffsetType (tyOf s v) (bitWidth p) = Some (tyOf t (offset p)) \<and>
     (offset p \<in> loopVals s \<longrightarrow> offset p = v) \<and> (\<exists>e. pointsTo (tyOf s v) e \<and> tyOf t (ptr p) = PtrTy e)"

definition originates :: "pass_context \<Rightarrow> ir \<Rightarrow> ir \<Rightarrow> (val \<Rightarrow> ptr_offset option) \<Rightarrow> val \<Rightarrow> ptr_offset \<Rightarrow> bool" where
  "originates cx s t om v p \<longleftrightarrow>
     (if derives (defOp s v) then \<exists>q. om (firstOperand (defOp s v)) = Some q \<and> madeFrom s t v q p
      else if v \<in> loopVals s then offset p = v \<and>
        (\<exists>a q. loopInit s a v \<and> om a = Some q \<and> ptr p = ptr q \<and> bitWidth p = bitWidth q)
      else ptr p = v \<and> bitWidth p = defaultBitWidth cx \<and>
        defOp t (offset p) = ConstantOp (IntegerAttr 0 (IntTy (bitWidth p))))"

definition entryOk :: "pass_context \<Rightarrow> ir \<Rightarrow> ir \<Rightarrow> (val \<Rightarrow> ptr_offset option) \<Rightarrow> val \<Rightarrow> ptr_offset \<Rightarrow> bool" where
  "entryOk cx s t om v p \<longleftrightarrow> wellTyped s t v p \<and> originates cx s t om v p"

lemma pointerProgramD:
  assumes "pointerProgram cx s"
  shows "wf_ir s" "loopsOk s" "distinct (funcArgs cx)" "mset (useOrder cx xs) = mset xs"
    "v \<in> set (funcArgs cx) \<Longrightarrow> valid s v \<and> defOp s v = BlockArg None"
    "v \<in> set (pointerArgs cx s @ intToPtrs s) \<Longrightarrow> \<exists>e. tyOf s v = PtrTy e \<and> \<not> isShaped e"
    "traced cx s v \<Longrightarrow> valid s w \<Longrightarrow> v \<in> operands (defOp s w) \<Longrightarrow> supportedOp cx s v w"
    "f < length (fors s) \<Longrightarrow> i < length (initArgs (fors s ! f)) \<Longrightarrow> traced cx s (initArgs (fors s ! f) ! i) \<Longrightarrow>
      supportedInit s (initArgs (fors s ! f) ! i) f i"
  using assms unfolding pointerProgram_def by blast+

lemma derives_first: "derives opn \<Longrightarrow> firstOperand opn \<in> operands opn"
  by (cases opn) simp_all

lemma supported_first:
  "supportedOp cx s v w \<Longrightarrow> derives (defOp s w) \<Longrightarrow> v \<in> operands (defOp s w) \<Longrightarrow> v = firstOperand (defOp s w)"
  by (cases "defOp s w") (simp_all add: supportedOp_def)

lemma supported_pointsTo:
  assumes "supportedOp cx s v w" "derives (defOp s w)" "pointsTo (tyOf s v) e"
  shows "\<exists>e'. pointsTo (tyOf s w) e'"
  using assms by (cases "defOp s w") (auto simp: supportedOp_def pointsTo_def)

lemma loopVals_nth:
  assumes "loopsOk s" "f < length (fors s)" "i < length (initArgs (fors s ! f))"
  shows "i < length (iterArgs (fors s ! f))" "i < length (results (fors s ! f))"
    "iterArgs (fors s ! f) ! i \<in> loopVals s" "results (fors s ! f) ! i \<in> loopVals s"
proof -
  have f: "fors s ! f \<in> set (fors s)" using assms(2) by simp
  then show l: "i < length (iterArgs (fors s ! f))" "i < length (results (fors s ! f))"
    using assms(1,3) by (simp_all add: loopsOk_def)
  show "iterArgs (fors s ! f) ! i \<in> loopVals s" "results (fors s ! f) ! i \<in> loopVals s"
    using f nth_mem [OF l(1)] nth_mem [OF l(2)] unfolding loopVals_def by blast+
qed

lemma loopVals_valid: "loopsOk s \<Longrightarrow> v \<in> loopVals s \<Longrightarrow> valid s v \<and> isLoopVal (defOp s v)"
  by (simp add: loopsOk_def)

lemma intToPtrs_iff: "v \<in> set (intToPtrs s) \<longleftrightarrow> valid s v \<and> (\<exists>a. defOp s v = IntToPtrOp a) \<and> \<not> isTensor (tyOf s v)"
  by (cases "defOp s v") (auto simp: intToPtrs_def valid_def)

lemma traced_ok:
  assumes "traced cx s v" and p: "pointerProgram cx s"
  shows "valid s v \<and> (\<exists>e. pointsTo (tyOf s v) e)"
  using assms(1)
proof (induction rule: traced.induct)
  case (arg v)
  then show ?case using pointerProgramD(5,6) [OF p, of v] by (auto simp: pointerArgs_def pointsTo_def)
next
  case (cast v)
  then show ?case using pointerProgramD(6) [OF p, of v] by (auto simp: intToPtrs_iff pointsTo_def)
next
  case (step v w)
  then show ?case using supported_pointsTo pointerProgramD(7) [OF p, of v w] by blast
next
  case (iter f i)
  then have "tyOf s (iterArgs (fors s ! f) ! i) = tyOf s (initArgs (fors s ! f) ! i)"
    using pointerProgramD(8) [OF p] by (simp add: supportedInit_def)
  then show ?case using iter loopVals_valid [OF pointerProgramD(2) [OF p]] loopVals_nth(3) [OF pointerProgramD(2) [OF p]] by simp
next
  case (result f i)
  then have "tyOf s (results (fors s ! f) ! i) = tyOf s (initArgs (fors s ! f) ! i)"
    using pointerProgramD(8) [OF p] by (simp add: supportedInit_def)
  then show ?case using result loopVals_valid [OF pointerProgramD(2) [OF p]] loopVals_nth(4) [OF pointerProgramD(2) [OF p]] by simp
qed

lemma not_loopVal:
  assumes "loopsOk s" "later R s t" "\<not> isLoopVal (defOp t v)"
  shows "v \<notin> loopVals s"
  using assms loopVals_valid [OF assms(1), of v] laterD(4) [OF assms(2), of v] by auto

lemma later_mono: "later R t u \<Longrightarrow> R \<subseteq> R' \<Longrightarrow> later R' t u"
  by (auto simp: later_def)

lemma widened_later:
  assumes "widened t n ty x y" "loopsOk s" "later R' s t" "later R t u" "R \<subseteq> loopVals s"
  shows "widened u n ty x y"
proof (cases n)
  case True
  then have y: "valid t y" "defOp t y = CastOp ExtSI x" "tyOf t y = ty" using assms(1) by (simp_all add: widened_def)
  then have "y \<notin> R" using not_loopVal [OF assms(2,3), of y] assms(5) by auto
  then show ?thesis using y True laterD(3-5) [OF assms(4), of y] by (simp add: widened_def)
qed (use assms(1) in \<open>simp add: widened_def\<close>)

lemma madeFrom_later:
  assumes "madeFrom s t v q p" "loopsOk s" "later R' s t" "later R t u" "R \<subseteq> loopVals s"
    "valid t (offset p)" "valid t (ptr p)" "offset p \<notin> R"
  shows "madeFrom s u v q p"
  using assms(1) laterD(3-5) [OF assms(4), of "offset p"] laterD(4) [OF assms(4), of "ptr p"] assms(6-8)
    widened_later [OF _ assms(2-5)]
  by (cases "defOp s v") (auto simp: madeFrom_def)

lemma entryOk_later:
  assumes e: "entryOk cx s t om v p" and l: "loopsOk s" "later R' s t" "later R t u" "R \<subseteq> loopVals s"
    and o: "offset p \<notin> R" and m: "om \<subseteq>\<^sub>m om'"
  shows "entryOk cx s u om' v p"
proof -
  have w: "valid t (offset p)" "valid t (ptr p)" "ptr p \<notin> R" using e l(4) by (auto simp: entryOk_def wellTyped_def)
  have om: "om a = Some q \<Longrightarrow> om' a = Some q" for a q using m by (auto simp: map_le_def dom_def)
  have o': "tyOf u (offset p) = tyOf t (offset p)" "valid u (offset p)" "defOp u (offset p) = defOp t (offset p)"
    using laterD(3-5) [OF l(3) w(1)] o by auto
  have p': "tyOf u (ptr p) = tyOf t (ptr p)" "valid u (ptr p)" using laterD(3-5) [OF l(3) w(2)] w(3) by auto
  have "wellTyped s u v p" using e o'(2) p'(2) unfolding entryOk_def wellTyped_def o'(1) p'(1) by blast
  moreover have "originates cx s t om v p" using e by (simp add: entryOk_def)
  then have "originates cx s u om' v p"
    using om madeFrom_later [OF _ l w(1,2) o] unfolding originates_def o'(3) by (auto split: if_splits)
  ultimately show ?thesis by (simp add: entryOk_def)
qed

section \<open>One use\<close>

text \<open>The operand that a deferred rewrite replaces by a materialised pointer.\<close>

definition pointerOperand :: "opr \<Rightarrow> val option" where
  "pointerOperand opn = (case opn of
     PtrToIntOp a \<Rightarrow> Some a
   | TTSLoadOp p dims other bc pad \<Rightarrow> Some p
   | TTSStoreOp p x dims bc \<Rightarrow> Some p
   | _ \<Rightarrow> None)"

definition deferredOk :: "ir \<Rightarrow> ir \<Rightarrow> (val \<Rightarrow> ptr_offset option) \<Rightarrow> val \<times> val \<Rightarrow> bool" where
  "deferredOk s t om = (\<lambda>(w, m). valid s w \<and> valid t m \<and> (\<exists>a q. pointerOperand (defOp s w) = Some a \<and> om a = Some q \<and>
     defOp t m = AddPtrOp (ptr q) (offset q) \<and> tyOf t m = tyOf s a))"

definition stateOk :: "pass_context \<Rightarrow> ir \<Rightarrow> unstructured \<Rightarrow> ir \<Rightarrow> bool" where
  "stateOk cx s u t \<longleftrightarrow> later (retyped s) s t \<and> set (ptrArgs u) = set (pointerArgs cx s) \<and>
     (\<forall>v p. offsetMap u v = Some p \<longrightarrow> traced cx s v \<and> entryOk cx s t (offsetMap u) v p) \<and>
     (\<forall>d \<in> set (deferredRewrites u). deferredOk s t (offsetMap u) d)"

lemma stateOkD:
  assumes "stateOk cx s u t"
  shows "later (retyped s) s t" "set (ptrArgs u) = set (pointerArgs cx s)"
    "offsetMap u v = Some p \<Longrightarrow> traced cx s v" "offsetMap u v = Some p \<Longrightarrow> entryOk cx s t (offsetMap u) v p"
    "offsetMap u v = Some p \<Longrightarrow> wellTyped s t v p"
    "d \<in> set (deferredRewrites u) \<Longrightarrow> deferredOk s t (offsetMap u) d"
  using assms by (auto simp: stateOk_def entryOk_def)

lemma deferredOk_later:
  assumes "deferredOk s t om d" "loopsOk s" "later R' s t" "later R t u" "R \<subseteq> loopVals s" "om \<subseteq>\<^sub>m om'"
  shows "deferredOk s u om' d"
proof -
  obtain w m a q where d: "d = (w, m)" "valid s w" "valid t m" "pointerOperand (defOp s w) = Some a" "om a = Some q"
      "defOp t m = AddPtrOp (ptr q) (offset q)" "tyOf t m = tyOf s a"
    using assms(1) by (auto simp: deferredOk_def)
  have "m \<notin> R" using not_loopVal [OF assms(2,3), of m] d(6) assms(5) by auto
  moreover have "om' a = Some q" using assms(6) d(5) by (auto simp: map_le_def dom_def)
  ultimately show ?thesis using d laterD(3-5) [OF assms(4), of m] by (simp add: deferredOk_def)
qed

text \<open>The state is kept while the table grows and new entries are added.\<close>

lemma stateOk_later:
  assumes "stateOk cx s u t" "loopsOk s" "later R t t'" "R \<subseteq> retyped s"
    and o: "\<And>v p. offsetMap u v = Some p \<Longrightarrow> offset p \<notin> R"
  shows "stateOk cx s u t'"
proof -
  have R: "R \<subseteq> loopVals s" using assms(4) by (auto simp: retyped_def)
  note l = stateOkD(1) [OF assms(1)]
  have "later (retyped s) s t'" by (rule later_trans [OF l later_mono [OF assms(3,4)]])
  moreover have "entryOk cx s t' (offsetMap u) v p" if "offsetMap u v = Some p" for v p
    by (rule entryOk_later [OF stateOkD(4) [OF assms(1) that] assms(2) l assms(3) R o [OF that]]) simp
  moreover have "deferredOk s t' (offsetMap u) d" if "d \<in> set (deferredRewrites u)" for d
    by (rule deferredOk_later [OF stateOkD(6) [OF assms(1) that] assms(2) l assms(3) R]) simp
  ultimately show ?thesis using assms(1) by (simp add: stateOk_def)
qed

lemma stateOk_grow: "stateOk cx s u t \<Longrightarrow> loopsOk s \<Longrightarrow> later {} t t' \<Longrightarrow> stateOk cx s u t'"
  by (rule stateOk_later) auto

lemma stateOk_insert:
  assumes "stateOk cx s u t" "loopsOk s" "traced cx s v" "offsetMap u v = None"
    and e: "entryOk cx s t ((offsetMap u)(v \<mapsto> p)) v p"
  shows "stateOk cx s (insertOffset v p u) t"
proof -
  let ?om = "(offsetMap u)(v \<mapsto> p)"
  have m: "offsetMap u \<subseteq>\<^sub>m ?om" using assms(4) by (auto simp: map_le_def)
  note l = stateOkD(1) [OF assms(1)]
  note r = later_refl [OF laterD(1) [OF l], of "{}"]
  have "entryOk cx s t ?om w q" if "offsetMap u w = Some q" for w q
    by (rule entryOk_later [OF stateOkD(4) [OF assms(1) that] assms(2) l r _ _ m]) simp_all
  moreover have "deferredOk s t ?om d" if "d \<in> set (deferredRewrites u)" for d
    by (rule deferredOk_later [OF stateOkD(6) [OF assms(1) that] assms(2) l r _ m]) simp
  ultimately show ?thesis using assms by (auto simp: stateOk_def insertOffset_def)
qed

lemma stateOk_lists [simp]:
  "stateOk cx s (pushWork v u) t = stateOk cx s u t"
  "stateOk cx s (pushDelete v u) t = stateOk cx s u t"
  "stateOk cx s (u\<lparr>workList := wl\<rparr>) t = stateOk cx s u t"
  "stateOk cx s (u\<lparr>ptrUsers := us\<rparr>) t = stateOk cx s u t"
  by (simp_all add: stateOk_def pushWork_def pushDelete_def)

lemma insertOffset_fields [simp]:
  "workList (insertOffset v p u) = workList u" "toDelete (insertOffset v p u) = toDelete u"
  "ptrUsers (insertOffset v p u) = ptrUsers u" "deferredRewrites (insertOffset v p u) = deferredRewrites u"
  "ptrArgs (insertOffset v p u) = ptrArgs u"
  "offsetMap u v = None \<Longrightarrow> offsetMap (insertOffset v p u) = (offsetMap u)(v \<mapsto> p)"
  by (simp_all add: insertOffset_def)

lemma push_fields [simp]:
  "workList (pushWork v u) = workList u @ [v]" "toDelete (pushWork v u) = toDelete u"
  "ptrUsers (pushWork v u) = ptrUsers u" "offsetMap (pushWork v u) = offsetMap u"
  "workList (pushDelete v u) = workList u" "toDelete (pushDelete v u) = toDelete u @ [v]"
  "ptrUsers (pushDelete v u) = ptrUsers u" "offsetMap (pushDelete v u) = offsetMap u"
  by (simp_all add: pushWork_def pushDelete_def)

text \<open>What a use adds to the lists of the pass.\<close>

definition pushes :: "ir \<Rightarrow> use \<Rightarrow> val list" where
  "pushes s x = (case x of
     OpUse w \<Rightarrow> if derives (defOp s w) then [w] else []
   | InitUse f i \<Rightarrow> [iterArgs (fors s ! f) ! i, results (fors s ! f) ! i])"

definition deletes :: "ir \<Rightarrow> use \<Rightarrow> val list" where
  "deletes s x = (case x of OpUse w \<Rightarrow> if derives (defOp s w) then [w] else [] | InitUse f i \<Rightarrow> [])"

definition users :: "pass_context \<Rightarrow> ir \<Rightarrow> use \<Rightarrow> val list" where
  "users cx s x = (case x of
     OpUse w \<Rightarrow> (case defOp s w of
         LoadOp p m other bc pad \<Rightarrow> [w]
       | StoreOp p x m bc \<Rightarrow> [w]
       | MakeTensorPtrOp base sh strs offs ord \<Rightarrow> [w]
       | TTSMakeTensorPtrOp base szs strs offs orig sh ord \<Rightarrow> if base \<in> set (pointerArgs cx s) then [] else [w]
       | _ \<Rightarrow> [])
   | InitUse f i \<Rightarrow> [])"

definition effect :: "pass_context \<Rightarrow> ir \<Rightarrow> use \<Rightarrow> unstructured \<Rightarrow> unstructured \<Rightarrow> ir \<Rightarrow> bool" where
  "effect cx s x u u' t' \<longleftrightarrow> stateOk cx s u' t' \<and> workList u' = workList u @ pushes s x \<and>
     toDelete u' = toDelete u @ deletes s x \<and> ptrUsers u' = ptrUsers u @ users cx s x \<and>
     dom (offsetMap u') = dom (offsetMap u) \<union> set (pushes s x)"

lemma effect_derive:
  assumes "stateOk cx s u t" "loopsOk s" "later {} t t'" "derives (defOp s w)" "traced cx s w" "offsetMap u w = None"
    "offsetMap u (firstOperand (defOp s w)) = Some q" "madeFrom s t' w q p" "wellTyped s t' w p"
  shows "effect cx s (OpUse w) u (pushDelete w (pushWork w (insertOffset w p u))) t'"
proof -
  have "firstOperand (defOp s w) \<noteq> w" using assms(6,7) by auto
  then have "entryOk cx s t' ((offsetMap u)(w \<mapsto> p)) w p"
    using assms(4,7-9) by (simp add: entryOk_def originates_def)
  then have "stateOk cx s (insertOffset w p u) t'"
    by (rule stateOk_insert [OF stateOk_grow [OF assms(1-3)] assms(2,5,6)])
  then show ?thesis using assms(4,6) by (auto simp: effect_def pushes_def deletes_def users_def split: gop.splits)
qed

lemma new_not_loopVal:
  assumes "stateOk cx s u t" "loopsOk s" "later {} t t'" "\<not> isLoopVal (defOp t' v)"
  shows "v \<notin> loopVals s"
  using not_loopVal [OF assms(2) later_trans [OF stateOkD(1) [OF assms(1)] later_mono [OF assms(3)]] assms(4)] by simp

lemma offsetType_facts:
  assumes "getPtrOffsetType t0 n = Some ty"
  shows "getBitWidth ty = Some n" "width ty = n" "\<not> isPtrTypeLike ty" "\<not> isFloatLike ty" "shapeOf ty = shapeOf t0"
  using assms by (auto simp: getPtrOffsetType_def getBitWidth_def isPtrTypeLike_def split: ty.splits if_splits)

lemma offsetType_pointsTo: "pointsTo t0 e \<Longrightarrow> \<exists>ty. getPtrOffsetType t0 n = Some ty"
  by (auto simp: pointsTo_def getPtrOffsetType_def)

lemma wp_widenOffset:
  assumes "wf_ir t" "valid t x" "getPtrOffsetType t0 n = Some ty"
    and "\<And>y t'. later {} t t' \<Longrightarrow> valid t' y \<Longrightarrow> widened t' narrow ty x y \<Longrightarrow> Q y t'"
  shows "wp (widenOffset narrow t0 n x) Q t"
proof (cases narrow)
  case True
  have "wp (create (CastOp ExtSI x) ty) Q t"
    by (rule wp_create_later [OF assms(1)]) (use assms(2) True in \<open>auto intro!: assms(4) simp: widened_def\<close>)
  then show ?thesis using True assms(3) by (simp add: widenOffset_def wp_simps)
next
  case False
  have "Q x t" by (rule assms(4)) (use assms(1,2) False in \<open>simp_all add: widened_def\<close>)
  then show ?thesis using False by (simp add: widenOffset_def wp_ret)
qed

text \<open>A use of the pointer \<open>v\<close>, whose entry is \<open>q\<close>.\<close>

definition useOk :: "pass_context \<Rightarrow> ir \<Rightarrow> unstructured \<Rightarrow> ir \<Rightarrow> val \<Rightarrow> ptr_offset \<Rightarrow> val \<Rightarrow> bool" where
  "useOk cx s u t v q w \<longleftrightarrow> pointerProgram cx s \<and> stateOk cx s u t \<and> offsetMap u v = Some q \<and> traced cx s v \<and>
     valid s w \<and> v \<in> operands (defOp s w)"

lemma useOkD:
  assumes "useOk cx s u t v q w"
  shows "pointerProgram cx s" "loopsOk s" "stateOk cx s u t" "offsetMap u v = Some q" "traced cx s v" "valid s w"
    "v \<in> operands (defOp s w)" "supportedOp cx s v w" "wellTyped s t v q" "wf_ir t" "defOp t w = defOp s w"
    "a \<in> operands (defOp s w) \<Longrightarrow> valid t a" "\<not> isLoopVal (defOp s w) \<Longrightarrow> tyOf t w = tyOf s w"
    "derives (defOp s w) \<Longrightarrow> traced cx s w \<and> firstOperand (defOp s w) = v"
proof -
  have u: "pointerProgram cx s" "stateOk cx s u t" "offsetMap u v = Some q" "traced cx s v" "valid s w" "v \<in> operands (defOp s w)"
    using assms by (simp_all add: useOk_def)
  then show "pointerProgram cx s" "stateOk cx s u t" "offsetMap u v = Some q" "traced cx s v" "valid s w"
    "v \<in> operands (defOp s w)" by simp_all
  note p = pointerProgramD [OF u(1)] and l = stateOkD(1) [OF u(2)]
  show lo: "loopsOk s" by (rule p(2))
  show sup: "supportedOp cx s v w" by (rule p(7) [OF u(4-6)])
  show "wellTyped s t v q" by (rule stateOkD(5) [OF u(2,3)])
  show "wf_ir t" by (rule laterD(1) [OF l])
  show d: "defOp t w = defOp s w" by (rule laterD(4) [OF l u(5)])
  show "valid t a" if "a \<in> operands (defOp s w)" for a
    using laterD(3) [OF l wf_operand_valid [OF p(1) u(5) that]] .
  show "tyOf t w = tyOf s w" if "\<not> isLoopVal (defOp s w)"
    using that not_loopVal [OF lo l, of w] d laterD(5) [OF l u(5)] by (auto simp: retyped_def)
  show "traced cx s w \<and> firstOperand (defOp s w) = v" if "derives (defOp s w)"
    using traced.step [OF u(4,5) that u(6)] supported_first [OF sup that u(6)] by simp
qed

lemma derives_not_loopVal: "derives opn \<Longrightarrow> \<not> isLoopVal opn"
  by (cases opn) simp_all

lemma wp_processAddPtr:
  assumes u: "useOk cx s u t v q w" and d: "defOp s w = AddPtrOp p off" and new: "offsetMap u w = None"
  shows "wp (processAddPtr cx u w p off) (effect cx s (OpUse w) u) t"
proof -
  note U = useOkD [OF u]
  note W = U(9) [unfolded wellTyped_def]
  obtain n where sup: "p = v" "tyOf s w = tyOf s v" "insideIf cx w \<Longrightarrow> v \<in> set (funcArgs cx)"
      "getPtrOffsetType (tyOf s v) n = Some (tyOf s off)"
    using U(8) d by (auto simp: supportedOp_def)
  obtain e where e: "pointsTo (tyOf s v) e" using W by blast
  define r where "r = max (bitWidth q) n"
  obtain oty where oty: "getPtrOffsetType (tyOf s v) r = Some oty" using offsetType_pointsTo [OF e] by blast
  note f = offsetType_facts [OF sup(4)]
  have off: "valid t off" "tyOf t off = tyOf s off"
    using U(12) [of off] laterD(5) [OF stateOkD(1) [OF U(3)], of off] wf_operand_valid [OF pointerProgramD(1) [OF U(1)] U(6), of off] d f(3)
    by (auto simp: retyped_def)
  have inside: "\<not> (insideIf cx w \<and> p \<notin> set (ptrArgs u))"
    using sup(1,3) stateOkD(2) [OF U(3)] e pointsToD(1) by (auto simp: pointerArgs_def)
  have post: "wp (create (BinOp AddI x y) oty)
      (\<lambda>z. effect cx s (OpUse w) u (pushDelete w (pushWork w (insertOffset w \<lparr>ptr = ptr q, ptrType = tyOf s v, bitWidth = r, offset = z\<rparr> u)))) t2"
    if l: "later {} t t2" and x: "valid t2 x" "widened t2 (bitWidth q < r) oty (offset q) x"
      and y: "valid t2 y" "widened t2 (n < r) oty off y" for x y t2
  proof (rule wp_create_later [OF laterD(1) [OF l]])
    fix z t3 assume z: "later {} t2 t3" "valid t3 z" "defOp t3 z = BinOp AddI x y" "tyOf t3 z = oty"
    note l3 = later_trans [OF l z(1)]
    have wid: "widened t3 (bitWidth q < r) oty (offset q) x" "widened t3 (n < r) oty off y"
      using x y laterD(3-5) [OF z(1)] by (auto simp: widened_def)
    show "effect cx s (OpUse w) u (pushDelete w (pushWork w (insertOffset w \<lparr>ptr = ptr q, ptrType = tyOf s v, bitWidth = r, offset = z\<rparr> u))) t3"
    proof (rule effect_derive [OF U(3,2) l3])
      show "madeFrom s t3 w q \<lparr>ptr = ptr q, ptrType = tyOf s v, bitWidth = r, offset = z\<rparr>"
        using z wid d f(2) by (simp add: madeFrom_def r_def)
      show "wellTyped s t3 w \<lparr>ptr = ptr q, ptrType = tyOf s v, bitWidth = r, offset = z\<rparr>"
        using z W sup(2) oty laterD(3-5) [OF l3, of "ptr q"] new_not_loopVal [OF U(3,2) l3, of z] by (auto simp: wellTyped_def)
    qed (use d U(4,14) sup(1) new in simp_all)
  qed (use x y in simp_all)
  have "wp (widenOffset (bitWidth q < r) (tyOf s v) r (offset q)) (\<lambda>x. wp (widenOffset (n < r) (tyOf s v) r off)
      (\<lambda>y. wp (create (BinOp AddI x y) oty) (\<lambda>z. effect cx s (OpUse w) u
        (pushDelete w (pushWork w (insertOffset w \<lparr>ptr = ptr q, ptrType = tyOf s v, bitWidth = r, offset = z\<rparr> u)))))) t"
  proof (rule wp_widenOffset [OF U(10) _ oty])
    fix x t1 assume x: "later {} t t1" "valid t1 x" "widened t1 (bitWidth q < r) oty (offset q) x"
    show "wp (widenOffset (n < r) (tyOf s v) r off) (\<lambda>y. wp (create (BinOp AddI x y) oty) (\<lambda>z. effect cx s (OpUse w) u
        (pushDelete w (pushWork w (insertOffset w \<lparr>ptr = ptr q, ptrType = tyOf s v, bitWidth = r, offset = z\<rparr> u))))) t1"
    proof (rule wp_widenOffset [OF laterD(1,3) [OF x(1)] oty])
      fix y t2 assume y: "later {} t1 t2" "valid t2 y" "widened t2 (n < r) oty off y"
      have "widened t2 (bitWidth q < r) oty (offset q) x" "valid t2 x"
        using x laterD(3-5) [OF y(1)] by (auto simp: widened_def)
      then show "wp (create (BinOp AddI x y) oty) (\<lambda>z. effect cx s (OpUse w) u
          (pushDelete w (pushWork w (insertOffset w \<lparr>ptr = ptr q, ptrType = tyOf s v, bitWidth = r, offset = z\<rparr> u)))) t2"
        using y by (intro post [OF later_trans [OF x(1) y(1)]])
    qed (rule off(1))
  qed (use W in simp)
  then show ?thesis
    using inside sup U(4,10,13) d off W f(1) oty
    by (simp add: processAddPtr_def offsetAt_def wp_simps r_def [symmetric])
qed

lemma wp_processReshape:
  assumes u: "useOk cx s u t v q w" and d: "derives (defOp s w)" "operands (defOp s w) = {v}" and new: "offsetMap u w = None"
    and clone: "operands (clone (offset q)) = {offset q}" "\<And>ty. constTyped (clone (offset q)) ty"
      "\<And>t' p. ptr p = ptr q \<Longrightarrow> bitWidth p = bitWidth q \<Longrightarrow> defOp t' (offset p) = clone (offset q) \<Longrightarrow> madeFrom s t' w q p"
      "\<not> isLoopVal (clone (offset q))"
    and ty: "\<exists>e. pointsTo (tyOf s v) e \<and> pointsTo (tyOf s w) e"
  shows "wp (processReshape u w v clone) (effect cx s (OpUse w) u) t"
proof -
  note U = useOkD [OF u]
  note W = U(9) [unfolded wellTyped_def]
  obtain e where e: "pointsTo (tyOf s v) e" "pointsTo (tyOf s w) e" using ty by blast
  obtain oty where oty: "getPtrOffsetType (tyOf s w) (bitWidth q) = Some oty" using offsetType_pointsTo [OF e(2)] by blast
  have "wp (create (clone (offset q)) oty) (\<lambda>c. effect cx s (OpUse w) u
      (pushDelete w (pushWork w (insertOffset w (q\<lparr>ptrType := tyOf s w, offset := c\<rparr>) u)))) t"
  proof (rule wp_create_later [OF U(10)])
    fix c t' assume c: "later {} t t'" "valid t' c" "defOp t' c = clone (offset q)" "tyOf t' c = oty"
    have "tyOf t (ptr q) = PtrTy e" using W e(1) by (auto simp: pointsTo_def)
    moreover have "c \<notin> loopVals s" using new_not_loopVal [OF U(3,2) c(1), of c] c(3) clone(4) by simp
    ultimately have "wellTyped s t' w (q\<lparr>ptrType := tyOf s w, offset := c\<rparr>)"
      using W c oty e(2) laterD(3-5) [OF c(1), of "ptr q"] by (auto simp: wellTyped_def)
    then show "effect cx s (OpUse w) u (pushDelete w (pushWork w (insertOffset w (q\<lparr>ptrType := tyOf s w, offset := c\<rparr>) u))) t'"
      using U(4,14) d(1) new c(3) clone(3) [of "q\<lparr>ptrType := tyOf s w, offset := c\<rparr>" t']
      by (intro effect_derive [OF U(3,2) c(1)]) simp_all
  qed (use W clone(1,2) in simp_all)
  then show ?thesis
    using U(4,13) derives_not_loopVal [OF d(1)] pointsToD(1) [OF e(2)] oty
    by (simp add: processReshape_def offsetAt_def wp_simps)
qed

lemma wp_castBase:
  assumes "wf_ir t" "valid t (ptr q)" "tyOf t (ptr q) = PtrTy e" "getScalarPtrType (ptrType q) = Some e"
      "getScalarPtrType resTy = Some e'"
    and "\<And>b t'. later {} t t' \<Longrightarrow> valid t' b \<Longrightarrow> tyOf t' b = PtrTy e' \<Longrightarrow> b = ptr q \<or> defOp t' b = BitcastOp (ptr q) \<Longrightarrow> Q b t'"
  shows "wp (castBase q resTy) Q t"
proof (cases "e = e'")
  case True
  then show ?thesis using assms by (auto simp: castBase_def wp_simps)
next
  case False
  have "wp (create (BitcastOp (ptr q)) (PtrTy e')) Q t"
    by (rule wp_create_later [OF assms(1)]) (use assms(2) in \<open>auto intro!: assms(6)\<close>)
  then show ?thesis using assms(3-5) False by (simp add: castBase_def wp_simps)
qed

lemma wp_processBitcast:
  assumes u: "useOk cx s u t v q w" and d: "defOp s w = BitcastOp v" and new: "offsetMap u w = None"
  shows "wp (processBitcast u w v) (effect cx s (OpUse w) u) t"
proof -
  note U = useOkD [OF u]
  note W = U(9) [unfolded wellTyped_def]
  obtain e e' where e: "pointsTo (tyOf s v) e" "pointsTo (tyOf s w) e'" and nl: "v \<notin> loopVals s"
      and sh: "shapeOf (tyOf s w) = shapeOf (tyOf s v)" "isTensor (tyOf s w) = isTensor (tyOf s v)"
    using U(8) d by (auto simp: supportedOp_def)
  have tv: "tyOf t v = tyOf s v"
    using laterD(5) [OF stateOkD(1) [OF U(3)], of v] nl traced_ok [OF U(5,1)] by (auto simp: retyped_def)
  have oty: "getPtrOffsetType (tyOf s w) n = getPtrOffsetType (tyOf s v) n" for n
    using e sh by (auto simp: pointsTo_def getPtrOffsetType_def)
  have pq: "tyOf t (ptr q) = PtrTy e" using W e(1) by (auto simp: pointsTo_def)
  have "wp (castBase q (tyOf s w)) (\<lambda>b. effect cx s (OpUse w) u
      (pushDelete w (pushWork w (insertOffset w (q\<lparr>ptr := b, ptrType := tyOf s w\<rparr>) u)))) t"
  proof (rule wp_castBase [OF U(10) _ pq _ pointsToD(2) [OF e(2)]])
    fix b t' assume b: "later {} t t'" "valid t' b" "tyOf t' b = PtrTy e'" "b = ptr q \<or> defOp t' b = BitcastOp (ptr q)"
    have "b \<notin> loopVals s"
      using b(4) W not_loopVal [OF U(2) later_trans [OF stateOkD(1) [OF U(3)] later_mono [OF b(1)]], of b] by auto
    then have "wellTyped s t' w (q\<lparr>ptr := b, ptrType := tyOf s w\<rparr>)"
      using W b oty e(2) nl laterD(3-5) [OF b(1), of "offset q"] by (auto simp: wellTyped_def)
    moreover have "madeFrom s t' w q (q\<lparr>ptr := b, ptrType := tyOf s w\<rparr>)" using b(4) d by (simp add: madeFrom_def)
    ultimately show "effect cx s (OpUse w) u (pushDelete w (pushWork w (insertOffset w (q\<lparr>ptr := b, ptrType := tyOf s w\<rparr>) u))) t'"
      using U(4,14) d new by (intro effect_derive [OF U(3,2) b(1)]) simp_all
  qed (use W e(1) pointsToD(2) in simp_all)
  then show ?thesis
    using U(4,13) d tv pointsToD(1) [OF e(1)] pointsToD(1) [OF e(2)]
    by (simp add: processBitcast_def offsetAt_def wp_simps)
qed

text \<open>The uses that add no entry.\<close>

lemma effect_nothing:
  assumes "stateOk cx s u' t'" "workList u' = workList u" "toDelete u' = toDelete u" "ptrUsers u' = ptrUsers u @ users cx s x"
    "offsetMap u' = offsetMap u" "pushes s x = []" "deletes s x = []"
  shows "effect cx s x u u' t'"
  using assms by (simp add: effect_def)

lemma wp_materialise:
  assumes u: "stateOk cx s u t" "pointerProgram cx s" "offsetMap u a = Some q" "valid s w" "pointerOperand (defOp s w) = Some a"
  shows "wp (create (AddPtrOp (ptr q) (offset q)) (ptrType q))
    (\<lambda>m. effect cx s (OpUse w) u (u\<lparr>deferredRewrites := deferredRewrites u @ [(w, m)]\<rparr>)) t"
proof (rule wp_create_later [OF laterD(1) [OF stateOkD(1) [OF u(1)]]])
  note W = stateOkD(5) [OF u(1,3), unfolded wellTyped_def]
  show "\<forall>x \<in> operands (AddPtrOp (ptr q) (offset q)). valid t x" using W by simp
  fix m t' assume m: "later {} t t'" "valid t' m" "defOp t' m = AddPtrOp (ptr q) (offset q)" "tyOf t' m = ptrType q"
  have "deferredOk s t' (offsetMap u) (w, m)" using m u(3-5) W by (simp add: deferredOk_def)
  then have "stateOk cx s (u\<lparr>deferredRewrites := deferredRewrites u @ [(w, m)]\<rparr>) t'"
    using stateOk_grow [OF u(1) pointerProgramD(2) [OF u(2)] m(1)] by (auto simp: stateOk_def)
  then show "effect cx s (OpUse w) u (u\<lparr>deferredRewrites := deferredRewrites u @ [(w, m)]\<rparr>) t'"
    using u(5) by (intro effect_nothing) (auto simp: pushes_def deletes_def users_def pointerOperand_def split: gop.splits)
qed simp

lemma wp_processPtrToInt:
  assumes u: "useOk cx s u t v q w" and d: "defOp s w = PtrToIntOp v"
  shows "wp (processPtrToInt u w v) (effect cx s (OpUse w) u) t"
proof -
  note U = useOkD [OF u]
  have "tyOf t w = tyOf s w" "\<not> isTensor (tyOf s w)" using U(8,13) d by (simp_all add: supportedOp_def)
  then show ?thesis
    using wp_materialise [OF U(3,1,4,6), unfolded d pointerOperand_def] U(4) by (simp add: processPtrToInt_def offsetAt_def wp_simps)
qed

lemma wp_processStructuredAccess:
  assumes u: "useOk cx s u t v q w" and d: "pointerOperand (defOp s w) = Some a"
  shows "wp (processStructuredAccess u w a) (effect cx s (OpUse w) u) t"
proof (cases "offsetMap u a")
  case None
  have "effect cx s (OpUse w) u u t"
    using useOkD(3) [OF u] d by (intro effect_nothing) (auto simp: pushes_def deletes_def users_def pointerOperand_def split: gop.splits)
  then show ?thesis using None by (simp add: processStructuredAccess_def wp_ret)
next
  case (Some r)
  then show ?thesis using wp_materialise [OF useOkD(3,1) [OF u] Some useOkD(6) [OF u] d]
    by (simp add: processStructuredAccess_def wp_simps)
qed

lemma wp_setLoopType:
  assumes st: "stateOk cx s u t" "pointerProgram cx s" and v: "v \<in> retyped s" "offsetMap u v = None"
    and post: "\<And>t'. stateOk cx s u t' \<Longrightarrow> later {v} t t' \<Longrightarrow> tyOf t' v = ty \<Longrightarrow> Q () t'"
  shows "wp (setType v ty) Q t"
proof (rule wp_setType [where R = "{v}"])
  note lo = pointerProgramD(2) [OF st(2)] and l = stateOkD(1) [OF st(1)]
  have lv: "valid s v" "isLoopVal (defOp s v)" using v(1) loopVals_valid [OF lo] by (auto simp: retyped_def)
  show "wf_ir t" "valid t v" "isLoopVal (defOp t v)" using lv laterD(1,3,4) [OF l] by auto
  have "offset p \<notin> {v}" if "offsetMap u w = Some p" for w p
  proof -
    have "offset p \<in> loopVals s \<longrightarrow> offset p = w" using stateOkD(5) [OF st(1) that] by (simp add: wellTyped_def)
    then show ?thesis using that v by (auto simp: retyped_def)
  qed
  then show "Q () t'" if "later {v} t t'" "tyOf t' v = ty" for t'
    using that v(1) by (intro post stateOk_later [OF st(1) lo]) auto
qed simp

lemma distinct_concat_index:
  "distinct (concat xs) \<Longrightarrow> i < length xs \<Longrightarrow> j < length xs \<Longrightarrow> x \<in> set (xs ! i) \<Longrightarrow> x \<in> set (xs ! j) \<Longrightarrow> i = j"
proof (induction xs arbitrary: i j)
  case (Cons y ys)
  have "set y \<inter> set (ys ! k) = {}" if "k < length ys" for k using Cons.prems(1) nth_mem [OF that] by auto
  then show ?case using Cons by (cases i; cases j) auto
qed simp

lemma distinct_loopVals:
  assumes "loopsOk s" "f < length (fors s)" "i < length (initArgs (fors s ! f))"
    "f' < length (fors s)" "i' < length (initArgs (fors s ! f'))"
  shows "iterArgs (fors s ! f) ! i \<noteq> results (fors s ! f') ! i'"
    "iterArgs (fors s ! f) ! i = iterArgs (fors s ! f') ! i' \<Longrightarrow> f = f' \<and> i = i'"
    "results (fors s ! f) ! i = results (fors s ! f') ! i' \<Longrightarrow> f = f' \<and> i = i'"
proof -
  let ?g = "\<lambda>fo. iterArgs fo @ results fo"
  have d: "distinct (concat (map ?g (fors s)))" using assms(1) by (simp add: loopsOk_def)
  note l = loopVals_nth(1,2) [OF assms(1-3)] loopVals_nth(1,2) [OF assms(1,4,5)]
  have same: "f = f'" if "x \<in> set (?g (fors s ! f))" "x \<in> set (?g (fors s ! f'))" for x
    using distinct_concat_index [OF d, of f f' x] that assms(2,4) by simp
  have "distinct ys" if "ys \<in> set (map ?g (fors s))" for ys
    using d that unfolding distinct_concat_iff by blast
  from this [of "?g (fors s ! f)"] have dg: "distinct (?g (fors s ! f))" using assms(2) by simp
  show "iterArgs (fors s ! f) ! i \<noteq> results (fors s ! f') ! i'"
    using same [of "iterArgs (fors s ! f) ! i"] dg l by (metis IntI UnCI distinct_append empty_iff nth_mem set_append)
  show "iterArgs (fors s ! f) ! i = iterArgs (fors s ! f') ! i' \<Longrightarrow> f = f' \<and> i = i'"
    using same [of "iterArgs (fors s ! f) ! i"] dg l by (metis UnCI distinct_append nth_eq_iff_index_eq nth_mem set_append)
  show "results (fors s ! f) ! i = results (fors s ! f') ! i' \<Longrightarrow> f = f' \<and> i = i'"
    using same [of "results (fors s ! f) ! i"] dg l by (metis UnCI distinct_append nth_eq_iff_index_eq nth_mem set_append)
qed

lemma offset_loopVal: "stateOk cx s u t \<Longrightarrow> pointerProgram cx s \<Longrightarrow> traced cx s v \<Longrightarrow> v \<in> loopVals s \<Longrightarrow> v \<in> retyped s"
  using traced_ok [of cx s v] pointsToD(1) by (auto simp: retyped_def)

lemma wp_processForInit:
  assumes st: "stateOk cx s u t" and p: "pointerProgram cx s" and f: "f < length (fors s)" "i < length (initArgs (fors s ! f))"
    and q: "offsetMap u (initArgs (fors s ! f) ! i) = Some q"
    and new: "\<And>w. w \<in> set (pushes s (InitUse f i)) \<Longrightarrow> offsetMap u w = None"
  shows "wp (processForInit u f i) (effect cx s (InitUse f i) u) t"
proof -
  define a where "a = initArgs (fors s ! f) ! i"
  define arg where "arg = iterArgs (fors s ! f) ! i"
  define res where "res = results (fors s ! f) ! i"
  note lo = pointerProgramD(2) [OF p]
  have tr: "traced cx s a" using stateOkD(3) [OF st q] by (simp add: a_def)
  have tra: "traced cx s arg" "traced cx s res"
    using traced.iter [OF tr [unfolded a_def] f] traced.result [OF tr [unfolded a_def] f] by (simp_all add: arg_def res_def)
  have lv: "arg \<in> loopVals s" "res \<in> loopVals s" using loopVals_nth(3,4) [OF lo f] by (simp_all add: arg_def res_def)
  have rt: "arg \<in> retyped s" "res \<in> retyped s" using offset_loopVal [OF st p] tra lv by blast+
  have new2: "offsetMap u arg = None" "offsetMap u res = None" using new by (simp_all add: pushes_def arg_def res_def)
  have ty: "tyOf s arg = tyOf s a" "tyOf s res = tyOf s a"
    using pointerProgramD(8) [OF p f] tr by (simp_all add: supportedInit_def a_def arg_def res_def)
  have ne: "arg \<noteq> res" using distinct_loopVals(1) [OF lo f f] by (simp add: arg_def res_def)
  note W = stateOkD(5) [OF st q [folded a_def], unfolded wellTyped_def]
  obtain oty where oty: "getPtrOffsetType (tyOf s a) (bitWidth q) = Some oty" using W by blast
  have li: "loopInit s a arg" "loopInit s a res" using f by (auto simp: loopInit_def a_def arg_def res_def)
  have nd: "\<not> derives (defOp s arg)" "\<not> derives (defOp s res)"
    using lv loopVals_valid [OF lo] derives_not_loopVal by blast+
  let ?u = "insertOffset res (q\<lparr>offset := res\<rparr>) (insertOffset arg (q\<lparr>offset := arg\<rparr>) u)"
  have entry: "entryOk cx s t' om v (q\<lparr>offset := v\<rparr>)"
    if "stateOk cx s u t'" "v = arg \<or> v = res" "tyOf t' v = oty" "om a = Some q" for t' om v
  proof -
    note W' = stateOkD(5) [OF that(1) q [folded a_def], unfolded wellTyped_def]
    have v: "v \<in> loopVals s" "tyOf s v = tyOf s a" "loopInit s a v" "\<not> derives (defOp s v)" using that(2) lv ty li nd by auto
    have "valid t' v" using laterD(3) [OF stateOkD(1) [OF that(1)], of v] loopVals_valid [OF lo v(1)] by simp
    then have "wellTyped s t' v (q\<lparr>offset := v\<rparr>)" using W' v oty that(3) by (auto simp: wellTyped_def)
    moreover have "originates cx s t' om v (q\<lparr>offset := v\<rparr>)" using v that(4) unfolding originates_def by auto
    ultimately show ?thesis by (simp add: entryOk_def)
  qed
  have fin: "effect cx s (InitUse f i) u (pushWork res (pushWork arg ?u)) t2"
    if t2: "stateOk cx s u t2" "tyOf t2 arg = oty" "tyOf t2 res = oty" for t2
  proof -
    have a: "a \<noteq> arg" "a \<noteq> res" using q new2 by (auto simp: a_def)
    have "stateOk cx s (insertOffset arg (q\<lparr>offset := arg\<rparr>) u) t2"
      by (rule stateOk_insert [OF t2(1) lo tra(1) new2(1)]) (use t2 a q in \<open>auto intro!: entry simp: a_def\<close>)
    then have "stateOk cx s ?u t2"
    proof (rule stateOk_insert [OF _ lo tra(2)])
      show "entryOk cx s t2 ((offsetMap (insertOffset arg (q\<lparr>offset := arg\<rparr>) u))(res \<mapsto> q\<lparr>offset := res\<rparr>)) res (q\<lparr>offset := res\<rparr>)"
        using t2 a q new2 by (intro entry) (simp_all add: a_def)
    qed (use new2 ne in simp)
    then show ?thesis using new2 ne by (auto simp: effect_def pushes_def deletes_def users_def arg_def res_def)
  qed
  have "wp (setType arg oty) (\<lambda>_. wp (setType res oty) (\<lambda>_. effect cx s (InitUse f i) u (pushWork res (pushWork arg ?u)))) t"
  proof (rule wp_setLoopType [OF st p rt(1) new2(1)])
    fix t1 assume t1: "stateOk cx s u t1" "later {arg} t t1" "tyOf t1 arg = oty"
    show "wp (setType res oty) (\<lambda>_. effect cx s (InitUse f i) u (pushWork res (pushWork arg ?u))) t1"
    proof (rule wp_setLoopType [OF t1(1) p rt(2) new2(2)])
      fix t2 assume t2: "stateOk cx s u t2" "later {res} t1 t2" "tyOf t2 res = oty"
      have "valid t1 arg" using laterD(3) [OF stateOkD(1) [OF t1(1)], of arg] loopVals_valid [OF lo lv(1)] by simp
      then have "tyOf t2 arg = oty" using laterD(5) [OF t2(2), of arg] ne t1(3) by simp
      then show "effect cx s (InitUse f i) u (pushWork res (pushWork arg ?u)) t2" by (rule fin [OF t2(1) _ t2(3)])
    qed
  qed
  moreover have "fors t = fors s" by (rule laterD(2) [OF stateOkD(1) [OF st]])
  ultimately show ?thesis
    using f loopVals_nth(1,2) [OF lo f] q W oty
    by (simp add: processForInit_def forAt_def offsetAt_def wp_simps a_def [symmetric] arg_def [symmetric] res_def [symmetric])
qed

definition usedBy :: "ir \<Rightarrow> val \<Rightarrow> use \<Rightarrow> bool" where
  "usedBy s v x \<longleftrightarrow> (case x of
     OpUse w \<Rightarrow> valid s w \<and> v \<in> operands (defOp s w)
   | InitUse f i \<Rightarrow> f < length (fors s) \<and> i < length (initArgs (fors s ! f)) \<and> initArgs (fors s ! f) ! i = v)"

lemma wp_processOp:
  assumes u: "useOk cx s u t v q w" and new: "\<And>z. z \<in> set (pushes s (OpUse w)) \<Longrightarrow> offsetMap u z = None"
  shows "wp (processOp cx u w) (effect cx s (OpUse w) u) t"
proof -
  note U = useOkD [OF u]
  note sup = U(8) [unfolded supportedOp_def]
  have new1: "offsetMap u w = None" if "derives (defOp s w)" using new that by (simp add: pushes_def)
  have reshape: "\<exists>e. pointsTo (tyOf s v) e \<and> pointsTo (tyOf s w) e"
    if "tyOf s w = TensorTy sh (PtrTy e)" "tyOf s v = PtrTy e \<or> (\<exists>sh'. tyOf s v = TensorTy sh' (PtrTy e))" for sh e
    using that U(9) by (auto simp: wellTyped_def pointsTo_def)
  have user: "wp (processPtrUser u w) (effect cx s (OpUse w) u) t"
    if "users cx s (OpUse w) = [w]" "\<not> derives (defOp s w)"
    using effect_nothing [of cx s "u\<lparr>ptrUsers := ptrUsers u @ [w]\<rparr>" t u "OpUse w"] U(3) that
    by (simp add: processPtrUser_def wp_ret pushes_def deletes_def)
  have skip: "wp (ret u) (effect cx s (OpUse w) u) t" if "users cx s (OpUse w) = []" "\<not> derives (defOp s w)"
    using effect_nothing [of cx s u t u "OpUse w"] U(3) that by (simp add: wp_ret pushes_def deletes_def)
  have "wp (case defOp s w of
     PtrToIntOp a \<Rightarrow> processPtrToInt u w a
   | AddPtrOp p off \<Rightarrow> processAddPtr cx u w p off
   | SplatOp a \<Rightarrow> processReshape u w a SplatOp
   | BroadcastOp a \<Rightarrow> processReshape u w a BroadcastOp
   | ExpandDimsOp a ax \<Rightarrow> processReshape u w a (\<lambda>x. ExpandDimsOp x ax)
   | BitcastOp a \<Rightarrow> processBitcast u w a
   | TTSMakeGatherScatterOp base g dim szs strs offs \<Rightarrow> ret u
   | TTSLoadOp p dims other bc pad \<Rightarrow> processStructuredAccess u w p
   | TTSStoreOp p x dims bc \<Rightarrow> processStructuredAccess u w p
   | LoadOp p m other bc pad \<Rightarrow> processPtrUser u w
   | StoreOp p x m bc \<Rightarrow> processPtrUser u w
   | MakeTensorPtrOp base sh strs offs ord \<Rightarrow> processPtrUser u w
   | TTSMakeTensorPtrOp base szs strs offs orig sh ord \<Rightarrow>
       if base \<in> set (ptrArgs u) then ret u else processPtrUser u w
   | SelectOp c a b \<Rightarrow> processSelect cx u w
   | DSLRegionOp vs \<Rightarrow> ret u
   | _ \<Rightarrow> raise Failure) (effect cx s (OpUse w) u) t"
  proof (cases "defOp s w")
    case (AddPtrOp p off)
    then show ?thesis using wp_processAddPtr [OF u AddPtrOp] new1 by simp
  next
    case (SplatOp a)
    have "wp (processReshape u w v SplatOp) (effect cx s (OpUse w) u) t"
      by (rule wp_processReshape [OF u]) (use SplatOp new1 U(7) sup reshape in \<open>auto simp: madeFrom_def\<close>)
    then show ?thesis using SplatOp U(7) by simp
  next
    case (BroadcastOp a)
    have "wp (processReshape u w v BroadcastOp) (effect cx s (OpUse w) u) t"
      by (rule wp_processReshape [OF u]) (use BroadcastOp new1 U(7) sup reshape in \<open>auto simp: madeFrom_def\<close>)
    then show ?thesis using BroadcastOp U(7) by simp
  next
    case (ExpandDimsOp a ax)
    have "wp (processReshape u w v (\<lambda>x. ExpandDimsOp x ax)) (effect cx s (OpUse w) u) t"
      by (rule wp_processReshape [OF u]) (use ExpandDimsOp new1 U(7) sup reshape in \<open>auto simp: madeFrom_def\<close>)
    then show ?thesis using ExpandDimsOp U(7) by simp
  next
    case (BitcastOp a)
    then show ?thesis using wp_processBitcast [OF u] new1 U(7) by simp
  next
    case (PtrToIntOp a)
    then show ?thesis using wp_processPtrToInt [OF u] U(7) by simp
  next
    case (TTSLoadOp p dims other bc pad)
    then show ?thesis using wp_processStructuredAccess [OF u, of p] by (simp add: pointerOperand_def)
  next
    case (TTSStoreOp p x dims bc)
    then show ?thesis using wp_processStructuredAccess [OF u, of p] by (simp add: pointerOperand_def)
  next
    case (TTSMakeTensorPtrOp base szs strs offs orig sh ord)
    then show ?thesis using user skip stateOkD(2) [OF U(3)] by (simp add: users_def)
  qed (use sup user skip in \<open>simp_all add: users_def\<close>)
  then show ?thesis using U(11) by (simp add: processOp_def wp_simps)
qed

lemma wp_processUse:
  assumes "stateOk cx s u t" "pointerProgram cx s" "offsetMap u v = Some q" "usedBy s v x"
    and "\<And>z. z \<in> set (pushes s x) \<Longrightarrow> offsetMap u z = None"
  shows "wp (processUse cx u x) (effect cx s x u) t"
proof (cases x)
  case (OpUse w)
  have "useOk cx s u t v q w" using assms(1-4) stateOkD(3) [OF assms(1,3)] OpUse by (simp add: useOk_def usedBy_def)
  then show ?thesis using wp_processOp [of cx s u t v q w] assms(5) OpUse by (simp add: processUse_def)
next
  case (InitUse f i)
  then show ?thesis using wp_processForInit [OF assms(1,2), of f i q] assms(3-5) by (simp add: processUse_def usedBy_def)
qed

end
