(* ===== verification/Unstructured_Work.thy ===== *)
theory Unstructured_Work
  imports Unstructured_Sound
begin

text \<open>
  The work list of \<open>processUnstructuredPtrs\<close> on a supported program: every use that creates
  something is processed once, so no value is pushed twice and no operation is replaced twice, and
  the list is empty after at most as many steps as the program has values.
\<close>

section \<open>Use lists\<close>

definition relevant :: "pass_context \<Rightarrow> ir \<Rightarrow> use \<Rightarrow> bool" where
  "relevant cx s x \<longleftrightarrow> pushes s x \<noteq> [] \<or> users cx s x \<noteq> []"

lemma operandUses_operands: "0 < operandUses v opn \<Longrightarrow> v \<in> operands opn"
  by (cases opn) (auto simp: operandUses_def split: if_splits)

lemma set_usesOf:
  assumes "pointerProgram cx s"
  shows "x \<in> set (usesOf cx s v) \<longleftrightarrow> (case x of
     OpUse w \<Rightarrow> valid s w \<and> 0 < operandUses v (defOp s w)
   | InitUse f i \<Rightarrow> f < length (fors s) \<and> i < length (initArgs (fors s ! f)) \<and> initArgs (fors s ! f) ! i = v)"
proof -
  have "set (useOrder cx xs) = set xs" for xs using pointerProgramD(4) [OF assms, of xs] by (metis set_mset_mset)
  then show ?thesis by (cases x) (auto simp: usesOf_def valid_def)
qed

lemma usesOf_usedBy: "pointerProgram cx s \<Longrightarrow> x \<in> set (usesOf cx s v) \<Longrightarrow> usedBy s v x"
  by (cases x) (auto simp: set_usesOf usedBy_def dest: operandUses_operands)

lemma relevant_unique:
  assumes p: "pointerProgram cx s" and v: "traced cx s v" "usedBy s v x" and v': "traced cx s v'" "usedBy s v' x"
    and r: "relevant cx s x"
  shows "v = v'"
proof (cases x)
  case (OpUse w)
  have "supportedOp cx s v w" "supportedOp cx s v' w"
    using pointerProgramD(7) [OF p] v v' OpUse by (simp_all add: usedBy_def)
  then show ?thesis using v(2) v'(2) r OpUse
    by (cases "defOp s w") (auto simp: supportedOp_def relevant_def pushes_def users_def usedBy_def)
next
  case (InitUse f i)
  then show ?thesis using v(2) v'(2) by (simp add: usedBy_def)
qed

lemma relevant_once:
  assumes p: "pointerProgram cx s" and v: "traced cx s v" and w: "valid s w" and r: "relevant cx s (OpUse w)"
  shows "operandUses v (defOp s w) \<le> 1"
proof (cases "v \<in> operands (defOp s w)")
  case True
  have "supportedOp cx s v w" by (rule pointerProgramD(7) [OF p v w True])
  then show ?thesis using r
    by (cases "defOp s w") (auto simp: supportedOp_def relevant_def pushes_def users_def operandUses_def)
next
  case False
  then show ?thesis using operandUses_operands [of v "defOp s w"] by linarith
qed

lemma distinct_concat_map:
  assumes "distinct xs" "\<And>x. x \<in> set xs \<Longrightarrow> distinct (g x)"
    "\<And>x y. x \<in> set xs \<Longrightarrow> y \<in> set xs \<Longrightarrow> x \<noteq> y \<Longrightarrow> set (g x) \<inter> set (g y) = {}"
  shows "distinct (concat (map g xs))"
  using assms by (induction xs) fastforce+

lemma distinct_usesOf:
  assumes p: "pointerProgram cx s" and v: "traced cx s v"
  shows "distinct (filter (relevant cx s) (usesOf cx s v))"
proof -
  let ?g = "\<lambda>w. filter (relevant cx s) (replicate (operandUses v (defOp s w)) (OpUse w))"
  let ?h = "\<lambda>f. filter (relevant cx s) (map (InitUse f) (filter (\<lambda>i. initArgs (fors s ! f) ! i = v) [0..<length (initArgs (fors s ! f))]))"
  have g: "distinct (?g w)" if "w < length (ops s)" for w
  proof (cases "relevant cx s (OpUse w)")
    case True
    then have "operandUses v (defOp s w) \<le> 1" using relevant_once [OF p v _ True] that by (simp add: valid_def)
    then show ?thesis by (cases "operandUses v (defOp s w)") auto
  qed (simp add: filter_replicate)
  have "distinct (concat (map ?g [0..<length (ops s)]))"
    by (rule distinct_concat_map) (use g in \<open>auto simp: filter_replicate\<close>)
  moreover have "distinct (concat (map ?h [0..<length (fors s)]))"
    by (rule distinct_concat_map) (auto simp: filter_map distinct_map inj_on_def)
  moreover have "set (concat (map ?g [0..<length (ops s)])) \<inter> set (concat (map ?h [0..<length (fors s)])) = {}"
    by auto
  ultimately have "distinct (concat (map ?g [0..<length (ops s)]) @ concat (map ?h [0..<length (fors s)]))"
    by (simp only: distinct_append simp_thms)
  moreover have "mset (filter P (useOrder cx xs)) = mset (filter P xs)" for P xs
    by (simp add: pointerProgramD(4) [OF p])
  then have "mset (filter (relevant cx s) (usesOf cx s v)) =
      mset (concat (map ?g [0..<length (ops s)]) @ concat (map ?h [0..<length (fors s)]))"
    unfolding usesOf_def filter_append filter_concat map_map comp_def by (simp only: filter_append filter_concat map_map comp_def)
  ultimately show ?thesis using mset_eq_imp_distinct_iff by blast
qed

lemma distinct_filter_nth:
  assumes "distinct (filter P xs)" "n < length xs" "P (xs ! n)"
  shows "xs ! n \<notin> set (take n xs)"
proof -
  have "distinct (filter P (take n xs @ xs ! n # drop (Suc n) xs))" using assms(1,2) by (simp add: id_take_nth_drop [symmetric])
  then show ?thesis using assms(3) by auto
qed


section \<open>The list empties\<close>

definition roots :: "pass_context \<Rightarrow> ir \<Rightarrow> val list" where
  "roots cx s = pointerArgs cx s @ intToPtrs s"

text \<open>The values taken off the list so far, and the uses processed so far.\<close>

definition workInv :: "pass_context \<Rightarrow> ir \<Rightarrow> val list \<Rightarrow> use list \<Rightarrow> unstructured \<Rightarrow> ir \<Rightarrow> bool" where
  "workInv cx s popped seen u t \<longleftrightarrow> stateOk cx s u t \<and>
     popped @ workList u = roots cx s @ concat (map (pushes s) seen) \<and> distinct (popped @ workList u) \<and>
     dom (offsetMap u) = set (popped @ workList u) \<and>
     toDelete u = concat (map (deletes s) seen) \<and> distinct (toDelete u) \<and>
     ptrUsers u = concat (map (users cx s) seen) \<and> distinct (ptrUsers u) \<and>
     (\<forall>x \<in> set seen. \<exists>v \<in> set popped. x \<in> set (usesOf cx s v))"

lemma workInvD:
  assumes "workInv cx s popped seen u t"
  shows "stateOk cx s u t" "popped @ workList u = roots cx s @ concat (map (pushes s) seen)"
    "distinct (popped @ workList u)" "dom (offsetMap u) = set (popped @ workList u)"
    "toDelete u = concat (map (deletes s) seen)" "distinct (toDelete u)"
    "ptrUsers u = concat (map (users cx s) seen)" "distinct (ptrUsers u)"
    "x \<in> set seen \<Longrightarrow> \<exists>v \<in> set popped. x \<in> set (usesOf cx s v)"
  using assms unfolding workInv_def by blast+

lemma pushes_inj:
  assumes "pointerProgram cx s" "usedBy s v x" "usedBy s v' y" "z \<in> set (pushes s x)" "z \<in> set (pushes s y)"
  shows "x = y"
proof -
  note lo = pointerProgramD(2) [OF assms(1)]
  have nd: "\<not> derives (defOp s z)" if "f < length (fors s)" "i < length (initArgs (fors s ! f))" "z \<in> set (pushes s (InitUse f i))" for f i
    using that loopVals_nth(3,4) [OF lo that(1,2)] loopVals_valid [OF lo] derives_not_loopVal by (auto simp: pushes_def)
  show ?thesis
  proof (cases x; cases y)
    fix f i f' i' assume x: "x = InitUse f i" and y: "y = InitUse f' i'"
    then have b: "f < length (fors s)" "i < length (initArgs (fors s ! f))" "f' < length (fors s)" "i' < length (initArgs (fors s ! f'))"
      using assms(2,3) by (simp_all add: usedBy_def)
    show ?thesis using assms(4,5) x y distinct_loopVals [OF lo b] distinct_loopVals(1) [OF lo b(3,4,1,2)]
      by (auto simp: pushes_def)
  qed (use assms nd in \<open>auto simp: usedBy_def pushes_def split: if_splits\<close>)
qed

lemma pushes_not_root:
  assumes "pointerProgram cx s" "usedBy s v x" "z \<in> set (pushes s x)"
  shows "z \<notin> set (roots cx s)"
proof -
  note lo = pointerProgramD(2) [OF assms(1)]
  have "derives (defOp s z) \<or> isLoopVal (defOp s z)"
  proof (cases x)
    case (OpUse w)
    then show ?thesis using assms(3) by (simp add: pushes_def split: if_splits)
  next
    case (InitUse f i)
    then show ?thesis using assms(2,3) loopVals_nth(3,4) [OF lo, of f i] loopVals_valid [OF lo] by (auto simp: pushes_def usedBy_def)
  qed
  moreover have "\<not> derives (defOp s r) \<and> \<not> isLoopVal (defOp s r)" if "r \<in> set (roots cx s)" for r
    using that pointerProgramD(5) [OF assms(1), of r] by (auto simp: roots_def pointerArgs_def intToPtrs_iff)
  ultimately show ?thesis by blast
qed

lemma users_cases: "users cx s x = [] \<or> (\<exists>w. x = OpUse w \<and> users cx s x = [w])"
  by (cases x; simp add: users_def split: gop.splits)

lemma users_inj: "z \<in> set (users cx s x) \<Longrightarrow> z \<in> set (users cx s y) \<Longrightarrow> x = y"
  using users_cases [of cx s x] users_cases [of cx s y] by auto

lemma distinct_pushes: "pointerProgram cx s \<Longrightarrow> usedBy s v x \<Longrightarrow> distinct (pushes s x)"
  using distinct_loopVals(1) [OF pointerProgramD(2)] by (auto simp: pushes_def usedBy_def split: use.splits)

lemma deletes_pushes: "deletes s x = pushes s x \<or> deletes s x = []"
  by (auto simp: deletes_def pushes_def split: use.splits)

lemma distinct_users: "distinct (users cx s x)"
  using users_cases [of cx s x] by auto

text \<open>A use that creates something has not been processed when its turn comes.\<close>

lemma workInv_step:
  assumes p: "pointerProgram cx s" and i: "workInv cx s (popped @ [v]) (seen @ take n (usesOf cx s v)) u t"
    and n: "n < length (usesOf cx s v)"
    and e: "effect cx s (usesOf cx s v ! n) u u' t'"
    and fresh: "relevant cx s (usesOf cx s v ! n) \<Longrightarrow> usesOf cx s v ! n \<notin> set (seen @ take n (usesOf cx s v))"
  shows "workInv cx s (popped @ [v]) (seen @ take (Suc n) (usesOf cx s v)) u' t'"
proof -
  define x where "x = usesOf cx s v ! n"
  define seen' where "seen' = seen @ take n (usesOf cx s v)"
  have take: "seen @ take (Suc n) (usesOf cx s v) = seen' @ [x]"
    using n by (simp add: seen'_def x_def take_Suc_conv_app_nth)
  note I = i [folded seen'_def, unfolded workInv_def] and E = e [folded x_def, unfolded effect_def]
  have u: "usedBy s v x" "x \<in> set (usesOf cx s v)" using usesOf_usedBy [OF p, of x v] n by (simp_all add: x_def)
  have fr: "pushes s x \<noteq> [] \<or> users cx s x \<noteq> [] \<longrightarrow> x \<notin> set seen'"
    using fresh by (simp add: x_def seen'_def relevant_def)
  have ub: "\<exists>v'. usedBy s v' y" if "y \<in> set seen'" for y using that I usesOf_usedBy [OF p] by blast
  have sets: "set (popped @ [v] @ workList u) = set (roots cx s) \<union> set (concat (map (pushes s) seen'))"
    using I by (metis append_assoc set_append)
  have new: "z \<notin> set (popped @ [v] @ workList u)" if z: "z \<in> set (pushes s x)" for z
  proof
    assume "z \<in> set (popped @ [v] @ workList u)"
    then obtain y where y: "y \<in> set seen'" "z \<in> set (pushes s y)"
      unfolding sets using pushes_not_root [OF p u(1) z] by auto
    then have "x = y" using pushes_inj [OF p u(1)] ub z by blast
    then show False using y fr z by auto
  qed
  have newu: "z \<notin> set (ptrUsers u)" if z: "z \<in> set (users cx s x)" for z
  proof
    assume "z \<in> set (ptrUsers u)"
    then obtain y where y: "y \<in> set seen'" "z \<in> set (users cx s y)" using I by auto
    then show False using users_inj [OF z y(2)] y fr z by auto
  qed
  have del: "set (toDelete u) \<subseteq> set (popped @ [v] @ workList u)"
  proof
    fix z assume "z \<in> set (toDelete u)"
    then obtain y where "y \<in> set seen'" "z \<in> set (deletes s y)" using I by auto
    then have "z \<in> set (concat (map (pushes s) seen'))" using deletes_pushes [of s y] by auto
    then show "z \<in> set (popped @ [v] @ workList u)" unfolding sets by blast
  qed
  have "set (deletes s x) \<subseteq> set (pushes s x)" using deletes_pushes [of s x] by auto
  then have "set (toDelete u) \<inter> set (deletes s x) = {}" using del new by blast
  moreover have "distinct (deletes s x)" using deletes_pushes [of s x] distinct_pushes [OF p u(1)] by auto
  ultimately have dd: "distinct (toDelete u @ deletes s x)" using I unfolding distinct_append by blast
  have D: "distinct (popped @ [v] @ workList u)" using workInvD(3) [OF i] by (simp only: append_assoc)
  have "set (popped @ [v] @ workList u) \<inter> set (pushes s x) = {}" using new by blast
  then have "distinct ((popped @ [v] @ workList u) @ pushes s x)"
    unfolding distinct_append [of "popped @ [v] @ workList u"] by (intro conjI D distinct_pushes [OF p u(1)])
  then have ds: "distinct ((popped @ [v]) @ workList u')" using E by simp
  have "distinct (ptrUsers u @ users cx s x)"
    unfolding distinct_append using I newu distinct_users [of cx s x] by blast
  then have du: "distinct (ptrUsers u')" using E by simp
  have l: "(popped @ [v]) @ workList u' = roots cx s @ concat (map (pushes s) (seen' @ [x]))" using I E by simp
  have d: "dom (offsetMap u') = set ((popped @ [v]) @ workList u')" using I E by auto
  have dt: "distinct (toDelete u')" "toDelete u' = concat (map (deletes s) (seen' @ [x]))"
    "ptrUsers u' = concat (map (users cx s) (seen' @ [x]))" using dd I E by simp_all
  show ?thesis
    unfolding take workInv_def using ds du l d dt E I u(2) by (simp del: append_assoc)
qed

lemma workInv_traced: "workInv cx s popped seen u t \<Longrightarrow> v \<in> set (popped @ workList u) \<Longrightarrow> traced cx s v"
  unfolding workInv_def by (metis domD stateOkD(3))

lemma wp_processUses:
  assumes p: "pointerProgram cx s" and i: "workInv cx s popped (concat (map (usesOf cx s) popped)) u t" and w: "workList u = v # rest"
  shows "wp (foldM (processUse cx) (u\<lparr>workList := rest\<rparr>) (usesOf cx s v))
    (workInv cx s (popped @ [v]) (concat (map (usesOf cx s) (popped @ [v])))) t"
proof (rule wp_foldM [where I = "\<lambda>n. workInv cx s (popped @ [v]) (concat (map (usesOf cx s) popped) @ take n (usesOf cx s v))"])
  show "workInv cx s (popped @ [v]) (concat (map (usesOf cx s) popped) @ take 0 (usesOf cx s v)) (u\<lparr>workList := rest\<rparr>) t"
  proof -
    have e: "(popped @ [v]) @ workList (u\<lparr>workList := rest\<rparr>) = popped @ workList u" using w by simp
    show ?thesis
      unfolding workInv_def e take_0 append_Nil2
      by (intro conjI ballI) (use workInvD [OF i] in simp_all)
  qed
  have v: "traced cx s v" using workInv_traced [OF i] w by simp
  fix n u t assume n: "n < length (usesOf cx s v)"
    and j: "workInv cx s (popped @ [v]) (concat (map (usesOf cx s) popped) @ take n (usesOf cx s v)) u t"
  note J = j [unfolded workInv_def]
  let ?x = "usesOf cx s v ! n"
  have x: "?x \<in> set (usesOf cx s v)" "usedBy s v ?x" using n usesOf_usedBy [OF p] by simp_all
  have fresh: "?x \<notin> set (concat (map (usesOf cx s) popped) @ take n (usesOf cx s v))" if r: "relevant cx s ?x"
  proof -
    have "?x \<notin> set (usesOf cx s v')" if v': "v' \<in> set popped" for v'
    proof
      assume "?x \<in> set (usesOf cx s v')"
      then have "v = v'" using relevant_unique [OF p v x(2) workInv_traced [OF j] usesOf_usedBy [OF p] r] v' by simp
      then show False using J v' by simp
    qed
    then show ?thesis using distinct_filter_nth [OF distinct_usesOf [OF p v] n r] by simp
  qed
  have "v \<in> dom (offsetMap u)" using J by simp
  then obtain q where q: "offsetMap u v = Some q" by auto
  have new: "offsetMap u z = None" if z: "z \<in> set (pushes s ?x)" for z
  proof (rule ccontr)
    assume "offsetMap u z \<noteq> None"
    then have "z \<in> set ((popped @ [v]) @ workList u)" using J by blast
    then have "z \<in> set (roots cx s @ concat (map (pushes s) (concat (map (usesOf cx s) popped) @ take n (usesOf cx s v))))"
      using J by metis
    then obtain y where y: "y \<in> set (concat (map (usesOf cx s) popped) @ take n (usesOf cx s v))" "z \<in> set (pushes s y)"
      using pushes_not_root [OF p x(2) z] by auto
    have "\<exists>v'. usedBy s v' y" using J y(1) usesOf_usedBy [OF p] by blast
    then have "?x = y" using pushes_inj [OF p x(2) _ z y(2)] by blast
    moreover have "relevant cx s ?x" using z by (auto simp: relevant_def)
    ultimately show False using fresh y(1) by blast
  qed
  show "wp (processUse cx u ?x) (workInv cx s (popped @ [v]) (concat (map (usesOf cx s) popped) @ take (Suc n) (usesOf cx s v))) t"
    by (rule wp_mono [OF wp_processUse [OF _ p q x(2) new] workInv_step [OF p j n _ fresh]]) (use J in simp_all)
qed simp

theorem wp_processWorkList:
  assumes p: "pointerProgram cx s" and "workInv cx s popped (concat (map (usesOf cx s) popped)) u t"
    and "length (ops s) \<le> length popped + n"
    and post: "\<And>popped u t. workInv cx s popped (concat (map (usesOf cx s) popped)) u t \<Longrightarrow> workList u = [] \<Longrightarrow> Q u t"
  shows "wp (processWorkList n cx (usesOf cx s) u) Q t"
  using assms(2,3)
proof (induction n arbitrary: popped u t)
  case 0
  have "set (popped @ workList u) \<subseteq> {..<length (ops s)}"
    using workInv_traced [OF 0(1)] traced_ok [OF _ p] by (auto simp: valid_def)
  then have "card (set (popped @ workList u)) \<le> length (ops s)"
    using card_mono [of "{..<length (ops s)}" "set (popped @ workList u)"] by simp
  then have "length (popped @ workList u) \<le> length (ops s)"
    unfolding distinct_card [OF workInvD(3) [OF 0(1)]] .
  with 0(2) have "length (workList u) = 0" unfolding length_append by linarith
  then have "workList u = []" by simp
  then show ?case using post [OF 0(1)] by (simp add: processWorkList.simps [of 0] wp_ret)
next
  case (Suc n)
  show ?case
  proof (cases "workList u")
    case Nil
    then show ?thesis using post [OF Suc.prems(1)] by (simp add: processWorkList.simps [of "Suc n"] wp_ret)
  next
    case (Cons v rest)
    have "wp (foldM (processUse cx) (u\<lparr>workList := rest\<rparr>) (usesOf cx s v)) (\<lambda>u'. wp (processWorkList n cx (usesOf cx s) u') Q) t"
    proof (rule wp_mono [OF wp_processUses [OF p Suc.prems(1) Cons]])
      fix u' t' assume i: "workInv cx s (popped @ [v]) (concat (map (usesOf cx s) (popped @ [v]))) u' t'"
      show "wp (processWorkList n cx (usesOf cx s) u') Q t'" by (rule Suc.IH [OF i]) (use Suc.prems(2) in simp)
    qed
    then show ?thesis using Cons by (simp add: processWorkList.simps [of "Suc n"] wp_bindM)
  qed
qed

section \<open>The roots\<close>

definition rootInv :: "pass_context \<Rightarrow> ir \<Rightarrow> val list \<Rightarrow> val set \<Rightarrow> unstructured \<Rightarrow> ir \<Rightarrow> bool" where
  "rootInv cx s vs A u t \<longleftrightarrow> stateOk cx s (u\<lparr>ptrArgs := pointerArgs cx s\<rparr>) t \<and> later {} s t \<and> set (ptrArgs u) = A \<and>
     workList u = vs \<and> dom (offsetMap u) = set vs \<and> toDelete u = [] \<and> ptrUsers u = [] \<and> deferredRewrites u = []"

lemma root_facts:
  assumes p: "pointerProgram cx s" and v: "v \<in> set (roots cx s)"
  shows "traced cx s v" "valid s v" "\<exists>e. pointsTo (tyOf s v) e \<and> tyOf s v = PtrTy e" "\<not> derives (defOp s v)" "v \<notin> loopVals s"
proof -
  show t: "traced cx s v" using v by (auto simp: roots_def intro: traced.intros)
  show "valid s v" using traced_ok [OF t p] by simp
  show "\<exists>e. pointsTo (tyOf s v) e \<and> tyOf s v = PtrTy e"
    using pointerProgramD(6) [OF p, of v] v by (auto simp: roots_def pointsTo_def)
  have d: "\<not> derives (defOp s v) \<and> \<not> isLoopVal (defOp s v)"
    using v pointerProgramD(5) [OF p, of v] by (auto simp: roots_def pointerArgs_def intToPtrs_iff)
  then show "\<not> derives (defOp s v)" "v \<notin> loopVals s" using loopVals_valid [OF pointerProgramD(2) [OF p]] by auto
qed

lemma insertOffset_ptrArgs: "(insertOffset v p u)\<lparr>ptrArgs := a\<rparr> = insertOffset v p (u\<lparr>ptrArgs := a\<rparr>)"
  by (simp add: insertOffset_def)

lemma wp_addRoot:
  assumes p: "pointerProgram cx s" and v: "v \<in> set (roots cx s)" "v \<notin> set vs" and i: "rootInv cx s vs A u t"
  shows "wp (addRoot (defaultBitWidth cx) u v) (rootInv cx s (vs @ [v]) A) t"
proof -
  note I = i [unfolded rootInv_def] and F = root_facts [OF p v(1)]
  let ?w = "defaultBitWidth cx"
  have st: "stateOk cx s (u\<lparr>ptrArgs := pointerArgs cx s\<rparr>) t" and l: "later {} s t" using I by blast+
  have new: "offsetMap u v = None" using I v(2) by blast
  have ty: "tyOf t v = tyOf s v" using laterD(5) [OF l F(2)] by simp
  obtain e where e: "pointsTo (tyOf s v) e" "tyOf s v = PtrTy e" using F(3) by blast
  have "wp (create (ConstantOp (IntegerAttr 0 (IntTy ?w))) (IntTy ?w)) (\<lambda>z. rootInv cx s (vs @ [v]) A
      (pushWork v (insertOffset v \<lparr>ptr = v, ptrType = tyOf s v, bitWidth = ?w, offset = z\<rparr> u))) t"
  proof (rule wp_create_later [OF laterD(1) [OF l]])
    fix z t' assume z: "later {} t t'" "valid t' z" "defOp t' z = ConstantOp (IntegerAttr 0 (IntTy ?w))" "tyOf t' z = IntTy ?w"
    let ?p = "\<lparr>ptr = v, ptrType = tyOf s v, bitWidth = ?w, offset = z\<rparr>"
    note st' = stateOk_grow [OF st pointerProgramD(2) [OF p] z(1)]
    have l': "later {} s t'" by (rule later_trans [OF l z(1)])
    have "z \<notin> loopVals s" using new_not_loopVal [OF st pointerProgramD(2) [OF p] z(1), of z] z(3) by simp
    then have "wellTyped s t' v ?p" using z(2,4) e F(5) laterD(3,5) [OF l' F(2)] by (auto simp: wellTyped_def getPtrOffsetType_def)
    then have "entryOk cx s t' om v ?p" for om using z(3) F(4,5) by (simp add: entryOk_def originates_def)
    then have "stateOk cx s (insertOffset v ?p (u\<lparr>ptrArgs := pointerArgs cx s\<rparr>)) t'"
      using new by (intro stateOk_insert [OF st' pointerProgramD(2) [OF p] F(1)]) simp_all
    then show "rootInv cx s (vs @ [v]) A (pushWork v (insertOffset v ?p u)) t'"
      using I new l' insertOffset_ptrArgs [of "pointerArgs cx s" v ?p u] by (auto simp: rootInv_def pushWork_def stateOk_def)
  qed (simp_all add: norm_def)
  then show ?thesis using ty by (simp add: addRoot_def createZero_def wp_simps)
qed

lemma wp_addArgs:
  assumes p: "pointerProgram cx s"
  shows "wp (foldM (addArg (defaultBitWidth cx)) emptyUnstructured (funcArgs cx)) (rootInv cx s (pointerArgs cx s) (set (pointerArgs cx s))) s"
proof (rule wp_foldM [where I = "\<lambda>n. rootInv cx s (filter (\<lambda>v. isPtrTypeLike (tyOf s v)) (take n (funcArgs cx))) (set (filter (\<lambda>v. isPtrTypeLike (tyOf s v)) (take n (funcArgs cx))))"])
  show "rootInv cx s (filter (\<lambda>v. isPtrTypeLike (tyOf s v)) (take 0 (funcArgs cx))) (set (filter (\<lambda>v. isPtrTypeLike (tyOf s v)) (take 0 (funcArgs cx)))) emptyUnstructured s"
    using pointerProgramD(1) [OF p] by (simp add: rootInv_def emptyUnstructured_def stateOk_def)
  fix n u t
  let ?v = "funcArgs cx ! n" and ?vs = "filter (\<lambda>v. isPtrTypeLike (tyOf s v)) (take n (funcArgs cx))"
  assume n: "n < length (funcArgs cx)"
    and I: "rootInv cx s ?vs (set ?vs) u t"
  have v: "valid s ?v" using pointerProgramD(5) [OF p, of ?v] n by simp
  have ty: "tyOf t ?v = tyOf s ?v" using I laterD(5) [OF _ v] by (auto simp: rootInv_def)
  have "wp (addArg (defaultBitWidth cx) u ?v)
      (rootInv cx s (filter (\<lambda>v. isPtrTypeLike (tyOf s v)) (take n (funcArgs cx) @ [?v]))
        (set (filter (\<lambda>v. isPtrTypeLike (tyOf s v)) (take n (funcArgs cx) @ [?v])))) t"
  proof (cases "isPtrTypeLike (tyOf s ?v)")
    case True
    have "?v \<notin> set (take n (funcArgs cx))"
      using distinct_filter_nth [of "\<lambda>_. True" "funcArgs cx" n] pointerProgramD(3) [OF p] n by simp
    moreover have "?v \<in> set (roots cx s)" using True n by (simp add: roots_def pointerArgs_def)
    moreover have "rootInv cx s ?vs (insert ?v (set ?vs)) (u\<lparr>ptrArgs := List.insert ?v (ptrArgs u)\<rparr>) t"
      using I by (simp add: rootInv_def)
    ultimately have "wp (addRoot (defaultBitWidth cx) (u\<lparr>ptrArgs := List.insert ?v (ptrArgs u)\<rparr>) ?v)
        (rootInv cx s (?vs @ [?v]) (insert ?v (set ?vs))) t"
      by (intro wp_addRoot [OF p]) simp_all
    then show ?thesis using True ty by (simp add: addArg_def wp_simps)
  next
    case False
    then show ?thesis using I ty by (simp add: addArg_def wp_simps)
  qed
  then show "wp (addArg (defaultBitWidth cx) u ?v)
      (rootInv cx s (filter (\<lambda>v. isPtrTypeLike (tyOf s v)) (take (Suc n) (funcArgs cx))) (set (filter (\<lambda>v. isPtrTypeLike (tyOf s v)) (take (Suc n) (funcArgs cx))))) t"
    using n by (simp add: take_Suc_conv_app_nth)
qed (simp add: pointerArgs_def)

lemma distinct_roots:
  assumes "pointerProgram cx s"
  shows "distinct (roots cx s)"
proof -
  have "set (pointerArgs cx s) \<inter> set (intToPtrs s) = {}"
    using pointerProgramD(5) [OF assms] by (auto simp: pointerArgs_def intToPtrs_iff)
  then show ?thesis using pointerProgramD(3) [OF assms] by (simp add: roots_def pointerArgs_def intToPtrs_def)
qed

lemma wp_addRoots:
  assumes p: "pointerProgram cx s" and i: "rootInv cx s (pointerArgs cx s) (set (pointerArgs cx s)) u t"
  shows "wp (foldM (addRoot (defaultBitWidth cx)) u (intToPtrs s)) (workInv cx s [] []) t"
proof (rule wp_foldM [where I = "\<lambda>n. rootInv cx s (pointerArgs cx s @ take n (intToPtrs s)) (set (pointerArgs cx s))"])
  fix n u t assume n: "n < length (intToPtrs s)"
    and i: "rootInv cx s (pointerArgs cx s @ take n (intToPtrs s)) (set (pointerArgs cx s)) u t"
  have "distinct ((pointerArgs cx s @ take n (intToPtrs s)) @ intToPtrs s ! n # drop (Suc n) (intToPtrs s))"
    using distinct_roots [OF p] n by (simp add: roots_def id_take_nth_drop [symmetric])
  then have "intToPtrs s ! n \<notin> set (pointerArgs cx s @ take n (intToPtrs s))" by auto
  then show "wp (addRoot (defaultBitWidth cx) u (intToPtrs s ! n))
      (rootInv cx s (pointerArgs cx s @ take (Suc n) (intToPtrs s)) (set (pointerArgs cx s))) t"
    using wp_addRoot [OF p _ _ i, of "intToPtrs s ! n"] n by (simp add: roots_def take_Suc_conv_app_nth)
next
  fix u t assume i: "rootInv cx s (pointerArgs cx s @ take (length (intToPtrs s)) (intToPtrs s)) (set (pointerArgs cx s)) u t"
  have "stateOk cx s u t" using i by (simp add: rootInv_def stateOk_def)
  then show "workInv cx s [] [] u t" using i distinct_roots [OF p] by (simp add: rootInv_def workInv_def roots_def)
qed (use i in simp)

end
