(* ===== verification/Unstructured_Main.thy ===== *)
theory Unstructured_Main
  imports Unstructured_Work
begin

text \<open>
  What the entries mean: a pointer is its base plus its offset in elements; and what the loads,
  stores and block pointers become once the work list is empty.
\<close>

section \<open>The lists when the work is done\<close>

definition userOf :: "pass_context \<Rightarrow> ir \<Rightarrow> val \<Rightarrow> bool" where
  "userOf cx s w \<longleftrightarrow> valid s w \<and> users cx s (OpUse w) = [w] \<and> (\<exists>v. traced cx s v \<and> v \<in> operands (defOp s w))"

definition finished :: "pass_context \<Rightarrow> ir \<Rightarrow> unstructured \<Rightarrow> ir \<Rightarrow> bool" where
  "finished cx s u t \<longleftrightarrow> stateOk cx s u t \<and> dom (offsetMap u) = {v. traced cx s v} \<and>
     distinct (toDelete u) \<and> set (toDelete u) = {w. traced cx s w \<and> derives (defOp s w)} \<and>
     distinct (ptrUsers u) \<and> set (ptrUsers u) = {w. userOf cx s w}"

lemma finishedD:
  assumes "finished cx s u t"
  shows "stateOk cx s u t" "dom (offsetMap u) = {v. traced cx s v}" "distinct (toDelete u)"
    "set (toDelete u) = {w. traced cx s w \<and> derives (defOp s w)}" "distinct (ptrUsers u)" "set (ptrUsers u) = {w. userOf cx s w}"
  using assms unfolding finished_def by blast+

lemma finished_grow:
  "finished cx s u t \<Longrightarrow> loopsOk s \<Longrightarrow> later {} t t' \<Longrightarrow> finished cx s u t'"
  unfolding finished_def by (blast intro: stateOk_grow)

lemma relevant_uses:
  assumes "supportedOp cx s v w" "v \<in> operands (defOp s w)" "relevant cx s (OpUse w)"
  shows "0 < operandUses v (defOp s w)"
  using assms by (cases "defOp s w") (auto simp: supportedOp_def relevant_def pushes_def users_def operandUses_def)

lemma workInv_finished:
  assumes p: "pointerProgram cx s" and i: "workInv cx s popped (concat (map (usesOf cx s) popped)) u t" and nil: "workList u = []"
  shows "finished cx s u t"
proof -
  let ?seen = "concat (map (usesOf cx s) popped)"
  have pop: "popped = roots cx s @ concat (map (pushes s) ?seen)" and dom: "dom (offsetMap u) = set popped"
    using workInvD(2,4) [OF i] nil by simp_all
  have seen: "x \<in> set ?seen" if "v \<in> set popped" "x \<in> set (usesOf cx s v)" for v x using that by auto
  have push: "z \<in> set popped" if "x \<in> set ?seen" "z \<in> set (pushes s x)" for x z
  proof -
    have "z \<in> set (roots cx s @ concat (map (pushes s) ?seen))" using that by auto
    then show ?thesis using pop by metis
  qed
  have use: "OpUse w \<in> set ?seen"
    if "v \<in> set popped" "traced cx s v" "valid s w" "v \<in> operands (defOp s w)" "relevant cx s (OpUse w)" for v w
    using seen [OF that(1), of "OpUse w"] relevant_uses [OF pointerProgramD(7) [OF p that(2-4)] that(4,5)] that(3)
    by (simp add: set_usesOf [OF p])
  have all: "v \<in> set popped" if "traced cx s v" for v
    using that
  proof (induction rule: traced.induct)
    case (arg v)
    then have "v \<in> set (roots cx s @ concat (map (pushes s) ?seen))" by (simp add: roots_def)
    then show ?case using pop by metis
  next
    case (cast v)
    then have "v \<in> set (roots cx s @ concat (map (pushes s) ?seen))" by (simp add: roots_def)
    then show ?case using pop by metis
  next
    case (step v w)
    then show ?case by (intro push [OF use [OF step.IH step(1,2,4)]]) (simp_all add: relevant_def pushes_def)
  next
    case (iter f i)
    then have "InitUse f i \<in> set ?seen" by (intro seen [OF iter.IH]) (simp add: set_usesOf [OF p])
    then show ?case by (rule push) (simp add: pushes_def)
  next
    case (result f i)
    then have "InitUse f i \<in> set ?seen" by (intro seen [OF result.IH]) (simp add: set_usesOf [OF p])
    then show ?case by (rule push) (simp add: pushes_def)
  qed
  have tr: "traced cx s v" if "v \<in> set popped" for v using workInv_traced [OF i] that by simp
  have usedby: "\<exists>v. traced cx s v \<and> usedBy s v x" if "x \<in> set ?seen" for x
    using workInvD(9) [OF i that] tr usesOf_usedBy [OF p] by blast
  have "w \<in> set (toDelete u) \<longleftrightarrow> traced cx s w \<and> derives (defOp s w)" for w
  proof
    assume "w \<in> set (toDelete u)"
    then have "w \<in> set (concat (map (deletes s) ?seen))" using workInvD(5) [OF i] by metis
    then obtain x where x: "x \<in> set ?seen" "w \<in> set (deletes s x)" unfolding set_concat set_map by blast
    then have d: "x = OpUse w" "derives (defOp s w)" by (auto simp: deletes_def split: use.splits if_splits)
    obtain v where "traced cx s v" "usedBy s v x" using usedby [OF x(1)] by blast
    then show "traced cx s w \<and> derives (defOp s w)" using d by (auto simp: usedBy_def intro: traced.step)
  next
    assume w: "traced cx s w \<and> derives (defOp s w)"
    note lo = pointerProgramD(2) [OF p]
    have "traced cx s w" using w by simp
    then have "\<exists>v. traced cx s v \<and> valid s w \<and> v \<in> operands (defOp s w)"
    proof (cases rule: traced.cases)
      case arg
      then show ?thesis using root_facts(4) [OF p, of w] w by (simp add: roots_def)
    next
      case cast
      then show ?thesis using root_facts(4) [OF p, of w] w by (simp add: roots_def)
    next
      case (iter f i)
      then show ?thesis using loopVals_nth(3) [OF lo iter(3,4)] loopVals_valid [OF lo, of w] derives_not_loopVal w by auto
    next
      case (result f i)
      then show ?thesis using loopVals_nth(4) [OF lo result(3,4)] loopVals_valid [OF lo, of w] derives_not_loopVal w by auto
    qed blast
    then obtain v where v: "traced cx s v" "valid s w" "v \<in> operands (defOp s w)" by blast
    have "OpUse w \<in> set ?seen" by (rule use [OF all [OF v(1)] v]) (use w in \<open>simp add: relevant_def pushes_def\<close>)
    moreover have "w \<in> set (deletes s (OpUse w))" using w by (simp add: deletes_def)
    ultimately show "w \<in> set (toDelete u)" unfolding workInvD(5) [OF i] set_concat set_map by blast
  qed
  moreover have "w \<in> set (ptrUsers u) \<longleftrightarrow> userOf cx s w" for w
  proof
    assume "w \<in> set (ptrUsers u)"
    then obtain x where x: "x \<in> set ?seen" "w \<in> set (users cx s x)" unfolding workInvD(7) [OF i] set_concat set_map by blast
    then have d: "x = OpUse w" "users cx s x = [w]" using users_cases [of cx s x] by auto
    then show "userOf cx s w" using usedby [OF x(1)] by (auto simp: userOf_def usedBy_def)
  next
    assume w: "userOf cx s w"
    then obtain v where v: "traced cx s v" "valid s w" "v \<in> operands (defOp s w)" "users cx s (OpUse w) = [w]"
      by (auto simp: userOf_def)
    have "OpUse w \<in> set ?seen" by (rule use [OF all [OF v(1)] v(1-3)]) (simp add: relevant_def v(4))
    moreover have "w \<in> set (users cx s (OpUse w))" using v(4) by simp
    ultimately show "w \<in> set (ptrUsers u)" unfolding workInvD(7) [OF i] set_concat set_map by blast
  qed
  ultimately show ?thesis
    using workInvD(1,6,8) [OF i] dom all tr by (auto simp: finished_def)
qed

section \<open>Values that the retyping of loops does not reach\<close>

text \<open>The operations whose meaning is given by the environment.\<close>

definition opaqueOp :: "opr \<Rightarrow> bool" where
  "opaqueOp opn = (case opn of
     BlockArg f \<Rightarrow> True | LoadOp p m oth bc pad \<Rightarrow> True | TTSLoadOp p dims oth bc pad \<Rightarrow> True
   | ForResultOp f i \<Rightarrow> True | IfResultOp \<Rightarrow> True | GatherOp b off m oth \<Rightarrow> True | OpaqueOp vs \<Rightarrow> True | _ \<Rightarrow> False)"

inductive unaffected :: "ir \<Rightarrow> val \<Rightarrow> bool" for s where
  opaque: "valid s v \<Longrightarrow> v \<notin> retyped s \<Longrightarrow> opaqueOp (defOp s v) \<Longrightarrow> unaffected s v"
| made: "valid s v \<Longrightarrow> v \<notin> retyped s \<Longrightarrow> (\<And>a. a \<in> operands (defOp s v) \<Longrightarrow> unaffected s a) \<Longrightarrow> unaffected s v"

lemma unaffectedD: "unaffected s v \<Longrightarrow> valid s v \<and> v \<notin> retyped s"
  by (cases rule: unaffected.cases) simp_all

definition agree :: "ir \<Rightarrow> env \<Rightarrow> env \<Rightarrow> bool" where
  "agree s E E' \<longleftrightarrow> (\<forall>v. v \<notin> retyped s \<longrightarrow> E' v = E v)"

lemma denOp_opaque: "opaqueOp opn \<Longrightarrow> denOp E tys look v opn t idx = E v idx"
  by (cases opn) (simp_all add: opaqueOp_def denOp_def)

lemma eval_unaffected:
  assumes "unaffected s v" and wf: "wf_ir s" and l: "later (retyped s) s t" and a: "agree s E E'"
  shows "eval E' t v = eval E s v"
  using assms(1)
proof (induction rule: unaffected.induct)
  case (opaque v)
  then show ?case
    using eval_unfold [OF wf opaque(1), of E] eval_unfold [OF laterD(1,3) [OF l], of v E'] laterD(4,5) [OF l, of v] a
    by (simp add: denOp_opaque agree_def)
next
  case (made v)
  have "denOp E' (tyOf t) (eval E' t) v (defOp s v) (tyOf s v) idx = denOp E (tyOf s) (eval E s) v (defOp s v) (tyOf s v) idx" for idx
  proof -
    have "denOp E' (tyOf t) (eval E' t) v (defOp s v) (tyOf s v) idx = denOp E' (tyOf s) (eval E s) v (defOp s v) (tyOf s v) idx"
      using made.IH laterD(5) [OF l] unaffectedD [OF made(3)] by (intro denOp_cong) auto
    then show ?thesis using a made(2) denOp_env [of E' v E] by (simp add: agree_def)
  qed
  then show ?case
    using eval_unfold [OF wf made(1), of E] eval_unfold [OF laterD(1,3) [OF l], of v E'] laterD(4,5) [OF l, of v] made(1,2) by simp
qed

section \<open>A pointer is its base plus its offset\<close>

definition splits :: "env \<Rightarrow> ir \<Rightarrow> env \<Rightarrow> ir \<Rightarrow> val \<Rightarrow> ptr_offset \<Rightarrow> bool" where
  "splits E s E' t v p \<longleftrightarrow> (\<forall>idx. inB (shapeOf (tyOf s v)) idx \<longrightarrow>
     w64 (eval E s v idx) = w64 (eval E' t (ptr p) []) + elemBytes (tyOf s v) * w64 (eval E' t (offset p) idx))"

text \<open>No sum of offsets leaves the width that the pass has chosen for it.\<close>

definition offsetsFit :: "env \<Rightarrow> ir \<Rightarrow> env \<Rightarrow> ir \<Rightarrow> (val \<Rightarrow> ptr_offset option) \<Rightarrow> bool" where
  "offsetsFit E s E' t om \<longleftrightarrow> (\<forall>v a d p q idx. defOp s v = AddPtrOp a d \<longrightarrow> om v = Some p \<longrightarrow> om a = Some q \<longrightarrow>
     inB (shapeOf (tyOf s v)) idx \<longrightarrow>
     wrap (bitWidth p) (eval E' t (offset q) idx + eval E s d idx) = eval E' t (offset q) idx + eval E s d idx)"

text \<open>Address arithmetic that does not use loop-carried pointers as integers.\<close>

definition cleanOffsets :: "pass_context \<Rightarrow> ir \<Rightarrow> bool" where
  "cleanOffsets cx s \<longleftrightarrow> (\<forall>v a d. traced cx s v \<longrightarrow> defOp s v = AddPtrOp a d \<longrightarrow> unaffected s d) \<and>
     (\<forall>v \<in> set (intToPtrs s). unaffected s v)"

lemma eval_widened:
  assumes "wf_ir t" "valid t x" "widened t n ty x y" "n \<longrightarrow> width (tyOf t x) \<le> width ty"
    "\<not> isFloatLike ty" "\<not> isFloatLike (tyOf t x)"
  shows "eval E t y idx = eval E t x idx"
proof (cases n)
  case True
  then have y: "valid t y" "defOp t y = CastOp ExtSI x" "tyOf t y = ty" using assms(3) by (simp_all add: widened_def)
  have "eval E t x idx = wrap (width (tyOf t x)) (eval E t x idx)"
    using eval_norm [OF assms(1,2), of E idx] assms(6) by (simp add: norm_def)
  then have "wrap (width ty) (eval E t x idx) = eval E t x idx" using wrap_widen assms(4) True by metis
  then show ?thesis using eval_unfold [OF assms(1) y(1), of E] y assms(5,6) by (simp add: denOp_def norm_def)
qed (use assms(3) in \<open>simp add: widened_def\<close>)

lemma pointsTo_norm: "pointsTo t e \<Longrightarrow> norm t n = wrap 64 n"
  by (auto simp: pointsTo_def norm_def)

lemma pointsTo_elem:
  assumes "pointsTo t e"
  shows "elemBytes t = w64 (byteSize e)"
proof -
  have "isPtrTy (elemTy t)" using assms by (auto simp: pointsTo_def)
  then show ?thesis by (simp add: elemBytes_def pointsToD(3) [OF assms])
qed

text \<open>One step of the chain, for each operation that makes a pointer from a pointer.\<close>

lemma splits_step:
  assumes p: "pointerProgram cx s" and st: "stateOk cx s u t" and ag: "agree s E E'" and cl: "cleanOffsets cx s"
    and fit: "offsetsFit E s E' t (offsetMap u)"
    and v: "offsetMap u v = Some p" "derives (defOp s v)" and q: "offsetMap u a = Some q" "a = firstOperand (defOp s v)"
    and m: "madeFrom s t v q p" and IH: "splits E s E' t a q"
  shows "splits E s E' t v p"
  unfolding splits_def
proof (intro allI impI)
  fix idx assume idx: "inB (shapeOf (tyOf s v)) idx"
  note l = stateOkD(1) [OF st] and wfs = pointerProgramD(1) [OF p]
  note wft = laterD(1) [OF l]
  have tv: "valid s v" using traced_ok [OF stateOkD(3) [OF st v(1)] p] by simp
  have op: "a \<in> operands (defOp s v)" using derives_first [OF v(2)] q(2) by simp
  have sup: "supportedOp cx s a v" by (rule pointerProgramD(7) [OF p stateOkD(3) [OF st q(1)] tv op])
  note W = stateOkD(5) [OF st v(1), unfolded wellTyped_def] and V = stateOkD(5) [OF st q(1), unfolded wellTyped_def]
  obtain e where e: "pointsTo (tyOf s v) e" using W by blast
  obtain e' where e': "pointsTo (tyOf s a) e'" using V by blast
  note f = offsetType_facts [of "tyOf s v" "bitWidth p" "tyOf t (offset p)"]
  note g = offsetType_facts [of "tyOf s a" "bitWidth q" "tyOf t (offset q)"]
  have ev: "eval E s v i = wrap 64 (denOp E (tyOf s) (eval E s) v (defOp s v) (tyOf s v) i)" for i
    using eval_unfold [OF wfs tv, of E] pointsTo_norm [OF e] by simp
  have ep: "eval E' t (offset p) i = wrap (bitWidth p) (denOp E' (tyOf t) (eval E' t) (offset p) (defOp t (offset p)) (tyOf t (offset p)) i)" for i
    using eval_unfold [OF wft, of "offset p" E'] W f by (simp add: norm_def)
  have eq: "wrap (bitWidth q) (eval E' t (offset q) i) = eval E' t (offset q) i" for i
    using eval_norm [OF wft, of "offset q" E' i] V g by (simp add: norm_def)
  note IH' = IH [unfolded splits_def, rule_format]
  show "w64 (eval E s v idx) = w64 (eval E' t (ptr p) []) + elemBytes (tyOf s v) * w64 (eval E' t (offset p) idx)"
  proof (cases "defOp s v")
    case (AddPtrOp b d)
    then have b: "b = a" "tyOf s v = tyOf s a" using sup q(2) by (auto simp: supportedOp_def)
    obtain n where n: "getPtrOffsetType (tyOf s a) n = Some (tyOf s d)" using sup AddPtrOp by (auto simp: supportedOp_def)
    note h = offsetType_facts [OF n]
    obtain x y where xy: "ptr p = ptr q" "bitWidth p = max (bitWidth q) n" "defOp t (offset p) = BinOp AddI x y"
        "widened t (bitWidth q < bitWidth p) (tyOf t (offset p)) (offset q) x"
        "widened t (n < bitWidth p) (tyOf t (offset p)) d y"
      using m AddPtrOp h(2) by (auto simp: madeFrom_def)
    have und: "unaffected s d" using cl stateOkD(3) [OF st v(1)] AddPtrOp by (auto simp: cleanOffsets_def)
    have d: "valid t d" "tyOf t d = tyOf s d" "eval E' t d = eval E s d"
      using unaffectedD [OF und] laterD(3,5) [OF l, of d] eval_unaffected [OF und wfs l ag] by auto
    have "eval E' t x idx = eval E' t (offset q) idx"
      by (rule eval_widened [OF wft _ xy(4)]) (use V W f g xy(2) in auto)
    moreover have "eval E' t y idx = eval E' t d idx"
      by (rule eval_widened [OF wft d(1) xy(5)]) (use W f h d xy(2) in auto)
    ultimately have "eval E' t (offset p) idx = wrap (bitWidth p) (eval E' t (offset q) idx + eval E s d idx)"
      using ep [of idx] xy(3) d(3) by (simp add: denOp_def)
    also have "\<dots> = eval E' t (offset q) idx + eval E s d idx"
      using fit v(1) q(1) AddPtrOp b(1) idx unfolding offsetsFit_def by blast
    finally have o: "eval E' t (offset p) idx = eval E' t (offset q) idx + eval E s d idx" .
    have "w64 (eval E s v idx) = w64 (eval E s a idx) + w64 (byteSize e) * w64 (eval E s d idx)"
      using ev [of idx] AddPtrOp b(1) pointsToD(3) [OF e] by (simp add: denOp_def w64_add w64_mult)
    then show ?thesis using IH' [of idx] idx b o xy(1) pointsTo_elem [OF e] by (simp add: w64_add algebra_simps)
  next
    case (SplatOp b)
    then have b: "b = a" "\<exists>sh c. tyOf s a = PtrTy c \<and> tyOf s v = TensorTy sh (PtrTy c)" using sup q(2) by (auto simp: supportedOp_def)
    have m': "ptr p = ptr q" "bitWidth p = bitWidth q" "defOp t (offset p) = SplatOp (offset q)"
      using m SplatOp by (simp_all add: madeFrom_def)
    have "eval E' t (offset p) idx = eval E' t (offset q) []" using ep [of idx] m' eq by (simp add: denOp_def)
    moreover have "w64 (eval E s v idx) = w64 (eval E s a [])" using ev [of idx] SplatOp b(1) by (simp add: denOp_def)
    moreover have "elemBytes (tyOf s v) = elemBytes (tyOf s a)"
      using b(2) pointsTo_elem [OF e] pointsTo_elem [OF e'] e e' by (auto simp: pointsTo_def)
    ultimately show ?thesis using IH' [of "[]"] b(2) m'(1) by auto
  next
    case (BroadcastOp b)
    then have b: "b = a" "\<exists>sh sh' c. tyOf s a = TensorTy sh (PtrTy c) \<and> tyOf s v = TensorTy sh' (PtrTy c) \<and>
        list_all2 (\<lambda>m n. m = n \<or> m = 1 \<and> 1 < n) sh sh'" using sup q(2) by (auto simp: supportedOp_def)
    have m': "ptr p = ptr q" "bitWidth p = bitWidth q" "defOp t (offset p) = BroadcastOp (offset q)"
      using m BroadcastOp by (simp_all add: madeFrom_def)
    define j where "j = broadcastIdx (shapeOf (tyOf s a)) idx"
    have "eval E' t (offset p) idx = eval E' t (offset q) j"
      using ep [of idx] m' eq V g(5) by (simp add: denOp_def j_def)
    moreover have "w64 (eval E s v idx) = w64 (eval E s a j)" using ev [of idx] BroadcastOp b(1) by (simp add: denOp_def j_def)
    moreover have "elemBytes (tyOf s v) = elemBytes (tyOf s a)"
      using b(2) pointsTo_elem [OF e] pointsTo_elem [OF e'] e e' by (auto simp: pointsTo_def)
    moreover have "inB (shapeOf (tyOf s a)) j" using b(2) idx inB_broadcast by (auto simp: j_def)
    ultimately show ?thesis using IH' [of j] m'(1) by auto
  next
    case (ExpandDimsOp b ax)
    then have b: "b = a" "\<exists>sh c. tyOf s a = TensorTy sh (PtrTy c) \<and> ax \<le> length sh \<and> tyOf s v = TensorTy (insert_at ax 1 sh) (PtrTy c)"
      using sup q(2) by (auto simp: supportedOp_def)
    have m': "ptr p = ptr q" "bitWidth p = bitWidth q" "defOp t (offset p) = ExpandDimsOp (offset q) ax"
      using m ExpandDimsOp by (simp_all add: madeFrom_def)
    have "eval E' t (offset p) idx = eval E' t (offset q) (remove_at ax idx)" using ep [of idx] m' eq by (simp add: denOp_def)
    moreover have "w64 (eval E s v idx) = w64 (eval E s a (remove_at ax idx))" using ev [of idx] ExpandDimsOp b(1) by (simp add: denOp_def)
    moreover have "elemBytes (tyOf s v) = elemBytes (tyOf s a)"
      using b(2) pointsTo_elem [OF e] pointsTo_elem [OF e'] e e' by (auto simp: pointsTo_def)
    moreover have "inB (shapeOf (tyOf s a)) (remove_at ax idx)" using b(2) idx inB_remove_at by auto
    ultimately show ?thesis using IH' [of "remove_at ax idx"] m'(1) by auto
  next
    case (BitcastOp b)
    then have b: "b = a" "shapeOf (tyOf s v) = shapeOf (tyOf s a)" "\<exists>c c'. pointsTo (tyOf s a) c \<and> pointsTo (tyOf s v) c' \<and> byteSize c' = byteSize c"
      using sup q(2) by (auto simp: supportedOp_def)
    have m': "offset p = offset q" "ptr p = ptr q \<or> defOp t (ptr p) = BitcastOp (ptr q)"
      using m BitcastOp by (simp_all add: madeFrom_def)
    have "w64 (eval E' t (ptr p) []) = w64 (eval E' t (ptr q) [])"
    proof -
      have "w64 (eval E' t (ptr p) []) = w64 (eval E' t (ptr q) [])" if "defOp t (ptr p) = BitcastOp (ptr q)"
        using that eval_unfold [OF wft, of "ptr p" E'] W by (auto simp: denOp_def norm_def)
      then show ?thesis using m'(2) by auto
    qed
    moreover have "w64 (eval E s v idx) = w64 (eval E s a idx)" using ev [of idx] BitcastOp b(1) by (simp add: denOp_def)
    moreover have "elemBytes (tyOf s v) = elemBytes (tyOf s a)" using b(3) pointsTo_elem by force
    ultimately show ?thesis using IH' [of idx] idx b(2) m'(1) by simp
  qed (use v(2) in simp_all)
qed

lemma traced_root:
  assumes "pointerProgram cx s" "traced cx s v" "\<not> derives (defOp s v)" "v \<notin> loopVals s"
  shows "v \<in> set (roots cx s)"
  using assms(2)
proof (cases rule: traced.cases)
  case (iter f i)
  then show ?thesis using assms(4) loopVals_nth(3) [OF pointerProgramD(2) [OF assms(1)]] by auto
next
  case (result f i)
  then show ?thesis using assms(4) loopVals_nth(4) [OF pointerProgramD(2) [OF assms(1)]] by auto
qed (use assms(3) in \<open>simp_all add: roots_def\<close>)

theorem splits_entry:
  assumes p: "pointerProgram cx s" and st: "stateOk cx s u t" and ag: "agree s E E'" and cl: "cleanOffsets cx s"
    and fit: "offsetsFit E s E' t (offsetMap u)"
    and loops: "\<And>v p. v \<in> loopVals s \<Longrightarrow> offsetMap u v = Some p \<Longrightarrow> splits E s E' t v p"
    and v: "offsetMap u v = Some q"
  shows "splits E s E' t v q"
  using v
proof (induction v arbitrary: q rule: less_induct)
  case (less v)
  note tr = stateOkD(3) [OF st less.prems] and W = stateOkD(5) [OF st less.prems, unfolded wellTyped_def]
  note wfs = pointerProgramD(1) [OF p] and l = stateOkD(1) [OF st]
  have vv: "valid s v" using traced_ok [OF tr p] by simp
  have o: "originates cx s t (offsetMap u) v q" using stateOkD(4) [OF st less.prems] by (simp add: entryOk_def)
  show ?case
  proof (cases "derives (defOp s v)")
    case True
    let ?a = "firstOperand (defOp s v)"
    obtain r where r: "offsetMap u ?a = Some r" "madeFrom s t v r q" using o True by (auto simp: originates_def)
    have "?a < v" by (rule wf_ir_operand [OF wfs vv derives_first [OF True]])
    then show ?thesis by (rule splits_step [OF p st ag cl fit less.prems True r(1) refl r(2) less.IH [OF _ r(1)]])
  next
    case False
    note nd = False
    show ?thesis
    proof (cases "v \<in> loopVals s")
      case True
      then show ?thesis using loops less.prems by blast
    next
      case False
      then have root: "v \<in> set (roots cx s)" and q: "ptr q = v" "defOp t (offset q) = ConstantOp (IntegerAttr 0 (IntTy (bitWidth q)))"
        using traced_root [OF p tr nd] o nd by (simp_all add: originates_def)
      obtain e where e: "tyOf s v = PtrTy e" using root_facts(3) [OF p root] by blast
      have "unaffected s v"
      proof (cases "v \<in> set (intToPtrs s)")
        case False
        then have "defOp s v = BlockArg None" using root pointerProgramD(5) [OF p, of v] by (auto simp: roots_def pointerArgs_def)
        then show ?thesis using vv \<open>v \<notin> loopVals s\<close> by (intro unaffected.opaque) (simp_all add: retyped_def opaqueOp_def)
      qed (use cl in \<open>simp add: cleanOffsets_def\<close>)
      then have "eval E' t v = eval E s v" by (rule eval_unaffected [OF _ wfs l ag])
      moreover have "eval E' t (offset q) [] = 0"
        using eval_unfold [OF laterD(1) [OF l], of "offset q" E'] W q(2) offsetType_facts(4) by (auto simp: denOp_def norm_def)
      ultimately show ?thesis using q(1) e by (simp add: splits_def)
    qed
  qed
qed

section \<open>The program at the start inside the program at the end\<close>

definition front :: "ir \<Rightarrow> ir \<Rightarrow> ir" where
  "front s t = t\<lparr>ops := take (length (ops s)) (ops t)\<rparr>"

lemma front_grows:
  assumes "later R s t"
  shows "grows (front s t) t" "wf_ir (front s t)"
proof -
  have "ops t = ops (front s t) @ drop (length (ops s)) (ops t)" by (simp add: front_def)
  then have "ext (front s t) t" unfolding ext_def by (metis ir.simps(2,4) front_def ir.ext_inject ir.surjective ir.update_convs(1))
  then show "grows (front s t) t" using laterD(1) [OF assms] by (simp add: grows_def)
  show "wf_ir (front s t)" using laterD(1) [OF assms] by (simp add: wf_ir_def front_def)
qed

lemma front_val:
  assumes "later R s t"
  shows "valid (front s t) v \<longleftrightarrow> valid s v" "valid s v \<Longrightarrow> defOp (front s t) v = defOp s v" "valid s v \<Longrightarrow> tyOf (front s t) v = tyOf t v"
proof -
  have "length (ops s) \<le> length (ops t)" using assms by (simp add: later_def)
  then show v: "valid (front s t) v \<longleftrightarrow> valid s v" by (auto simp: valid_def front_def)
  show "defOp (front s t) v = defOp s v" "tyOf (front s t) v = tyOf t v" if "valid s v"
    using that v defOp_grows [OF front_grows(1) [OF assms], of v] tyOf_grows [OF front_grows(1) [OF assms], of v] laterD(4) [OF assms that]
    by simp_all
qed

lemma scalarTerm_valid: "scalarTerm s v \<Longrightarrow> valid s v"
  by (cases rule: scalarTerm.cases) simp_all

lemma scalarTerm_front:
  assumes "scalarTerm s x" and l: "later (retyped s) s t"
  shows "scalarTerm (front s t) x"
proof -
  have keep: "tyOf (front s t) v = tyOf s v" if "valid s v" "\<not> isPtrTypeLike (tyOf s v)" for v
    using that front_val(3) [OF l that(1)] laterD(5) [OF l that(1)] by (simp add: retyped_def)
  have int: "\<not> isPtrTypeLike ty" if "isIntOrIndex ty \<or> (\<exists>sh ty'. isIntOrIndex ty' \<and> ty = TensorTy sh ty')" for ty
    using that by (cases ty) (auto simp: isPtrTypeLike_def elim: isIntOrIndex.elims(2))
  show ?thesis
    using assms(1)
  proof (induction rule: scalarTerm.induct)
    case (scal v)
    then show ?case using keep int front_val(1) [OF l] by (intro scalarTerm.scal) auto
  next
    case (splat v a sh)
    then have "tyOf (front s t) v = tyOf s v" using keep int by auto
    moreover have "tyOf (front s t) a = tyOf s a"
      using keep int splat(4) scalarTerm_valid [OF splat(5)] by auto
    ultimately show ?case using splat front_val [OF l] by (intro scalarTerm.splat [of _ v a sh]) auto
  next
    case (const v n ty sh)
    then show ?case using keep int front_val [OF l] by (intro scalarTerm.const [of _ v n ty sh]) auto
  next
    case (cast v k a sh n m)
    have "valid s a" using cast(6) by (rule scalarTerm_valid)
    then show ?case using cast keep int front_val [OF l] by (intro scalarTerm.cast [of _ v k a sh n m]) auto
  qed
qed

section \<open>What the loads, stores and block pointers become\<close>

definition sumOf :: "ir \<Rightarrow> ty \<Rightarrow> val \<Rightarrow> val \<Rightarrow> val \<Rightarrow> bool" where
  "sumOf t ty b c acc \<longleftrightarrow> valid t b \<and> valid t c \<and> valid t acc \<and>
     (\<forall>E. eval E t acc [] = norm ty (eval E t b [] + eval E t c []))"

definition elementOf :: "ir \<Rightarrow> int list \<Rightarrow> val \<Rightarrow> val \<Rightarrow> bool" where
  "elementOf t sh x z \<longleftrightarrow> valid t x \<and> valid t z \<and> (\<forall>E idx. inB sh idx \<longrightarrow> eval E t z [] = eval E t x idx)"

definition rewrittenOk :: "ir \<Rightarrow> ir \<Rightarrow> (val \<Rightarrow> ptr_offset option) \<Rightarrow> val \<times> val \<Rightarrow> bool" where
  "rewrittenOk s t om = (\<lambda>(v, w). valid t w \<and> (case defOp s v of
     LoadOp p m oth bc pad \<Rightarrow> tyOf t w = tyOf s v \<and> (\<exists>q y. om p = Some q \<and> defOp t w = GatherOp (ptr q) (offset q) m y \<and>
       (y = None \<longleftrightarrow> oth = None) \<and> (\<forall>x z. oth = Some x \<longrightarrow> y = Some z \<longrightarrow> elementOf t (shapeOf (tyOf s x)) x z))
   | StoreOp p x m bc \<Rightarrow> \<exists>q. om p = Some q \<and> defOp t w = ScatterOp (ptr q) (offset q) x m
   | MakeTensorPtrOp base sh strs offs ord \<Rightarrow> tyOf t w = tyOf s v \<and> (\<exists>q acc. om base = Some q \<and>
       defOp t w = MakeTensorPtrOp (ptr q) sh strs (offs[0 := acc]) ord \<and> sumOf t (tyOf s (hd offs)) (offset q) (hd offs) acc)
   | TTSMakeTensorPtrOp base szs strs offs orig sh ord \<Rightarrow> tyOf t w = tyOf s v \<and> (\<exists>q i c acc. om base = Some q \<and>
       firstDynamic offs = Some (i, c) \<and> sumOf t (tyOf s c) (offset q) c acc \<and>
       defOp t w = TTSMakeTensorPtrOp (ptr q) szs strs (offs[i := Val acc]) orig sh ord)
   | _ \<Rightarrow> False))"

lemma sumOf_grows: "sumOf t ty b c acc \<Longrightarrow> grows t t' \<Longrightarrow> sumOf t' ty b c acc"
  using eval_grows [of t t'] valid_grows [of t t'] by (auto simp: sumOf_def)

lemma elementOf_grows: "elementOf t sh x z \<Longrightarrow> grows t t' \<Longrightarrow> elementOf t' sh x z"
  using eval_grows [of t t'] valid_grows [of t t'] by (auto simp: elementOf_def)

lemma rewrittenOk_grows:
  assumes "rewrittenOk s t om d" "grows t t'"
  shows "rewrittenOk s t' om d"
proof -
  obtain v w where d: "d = (v, w)" by fastforce
  have "valid t w" using assms(1) d by (simp add: rewrittenOk_def)
  note g = valid_grows [OF assms(2) this] defOp_grows [OF assms(2) this] tyOf_grows [OF assms(2) this]
  note k = sumOf_grows [OF _ assms(2)] elementOf_grows [OF _ assms(2)]
  show ?thesis
  proof (cases "defOp s v")
    case (LoadOp p m oth bc pad)
    then obtain q y where y: "tyOf t w = tyOf s v" "om p = Some q" "defOp t w = GatherOp (ptr q) (offset q) m y"
        "y = None \<longleftrightarrow> oth = None" "\<And>x z. oth = Some x \<Longrightarrow> y = Some z \<Longrightarrow> elementOf t (shapeOf (tyOf s x)) x z"
      using assms(1) d by (auto simp: rewrittenOk_def)
    then show ?thesis using k(2) [OF y(5)] d g LoadOp by (simp add: rewrittenOk_def)
  next
    case (TTSMakeTensorPtrOp base szs strs offs orig sh ord)
    then obtain q i c acc where q: "tyOf t w = tyOf s v" "om base = Some q" "firstDynamic offs = Some (i, c)"
        "sumOf t (tyOf s c) (offset q) c acc" "defOp t w = TTSMakeTensorPtrOp (ptr q) szs strs (offs[i := Val acc]) orig sh ord"
      using assms(1) d by (auto simp: rewrittenOk_def)
    then show ?thesis using k(1) [OF q(4)] d g TTSMakeTensorPtrOp by (auto simp: rewrittenOk_def)
  next
    case (MakeTensorPtrOp base sh strs offs ord)
    then obtain q acc where q: "tyOf t w = tyOf s v" "om base = Some q"
        "sumOf t (tyOf s (hd offs)) (offset q) (hd offs) acc" "defOp t w = MakeTensorPtrOp (ptr q) sh strs (offs[0 := acc]) ord"
      using assms(1) d by (auto simp: rewrittenOk_def)
    then show ?thesis using k(1) [OF q(3)] d g MakeTensorPtrOp by (auto simp: rewrittenOk_def)
  qed (use assms(1) d g in \<open>simp_all add: rewrittenOk_def\<close>)
qed

lemma wp_accumulateOffset:
  assumes wf: "wf_ir t" and v: "valid t b" "valid t c" and ty: "tyOf t b = IntTy n" "isIntOrIndex (tyOf t c)"
    and post: "\<And>acc t'. grows t t' \<Longrightarrow> sumOf t' (tyOf t c) b c acc \<Longrightarrow> Q acc t'"
  shows "wp (accumulateOffset b c) Q t"
proof -
  let ?ct = "tyOf t c"
  have nf: "\<not> isFloatLike ?ct" using ty(2) by (cases ?ct) simp_all
  have wr: "norm ?ct (norm ?ct x + y) = norm ?ct (x + y)" if "norm ?ct y = y" for x y
    using nf that wrap_add [of "width ?ct" x y] by (simp add: norm_def)
  have add: "wp (create (BinOp AddI b' c) ?ct) Q t1"
    if t1: "grows t t1" "valid t1 b'" "\<And>E. norm ?ct (eval E t1 b' []) = norm ?ct (eval E t b [])" for b' t1
  proof (rule wp_create [OF growsD(2) [OF t1(1)]])
    note c1 = valid_grows [OF t1(1) v(2)] eval_grows [OF t1(1) v(2)] and b1 = valid_grows [OF t1(1) v(1)]
    show "\<forall>a \<in> operands (BinOp AddI b' c). valid t1 a" using t1(2) c1(1) by simp
    fix acc t' assume a: "grows t1 t'" "valid t' acc"
      "\<And>E idx. eval E t' acc idx = norm ?ct (denOp E (tyOf t1) (eval E t1) acc (BinOp AddI b' c) ?ct idx)"
    have "eval E t' acc [] = norm ?ct (eval E t b [] + eval E t c [])" for E
    proof -
      have n: "norm ?ct (eval E t c []) = eval E t c []" by (rule eval_norm [OF wf v(2)])
      have "eval E t' acc [] = norm ?ct (eval E t1 b' [] + eval E t c [])" using a(3) [of E "[]"] c1(2) by (simp add: denOp_def)
      also have "\<dots> = norm ?ct (norm ?ct (eval E t1 b' []) + eval E t c [])" using wr [OF n] by simp
      finally show ?thesis using t1(3) wr [OF n] by simp
    qed
    then have "sumOf t' ?ct b c acc"
      using a v valid_grows [OF grows_trans [OF t1(1) a(1)]] eval_grows [OF grows_trans [OF t1(1) a(1)]] by (simp add: sumOf_def)
    then show "Q acc t'" by (rule post [OF grows_trans [OF t1(1) a(1)]])
  qed simp
  have cast: "wp (create (CastOp k b) ?ct) (\<lambda>b'. wp (create (BinOp AddI b' c) ?ct) Q) t" if "k \<in> {IndexCast, ExtSI, TruncI}" for k
  proof (rule wp_create [OF wf])
    fix b' t1 assume b': "grows t t1" "valid t1 b'" "\<And>E idx. eval E t1 b' idx = norm ?ct (denOp E (tyOf t) (eval E t) b' (CastOp k b) ?ct idx)"
    show "wp (create (BinOp AddI b' c) ?ct) Q t1"
      by (rule add [OF b'(1,2)]) (use b'(3) that nf ty(1) in \<open>auto simp: denOp_def\<close>)
  qed (use v in simp_all)
  have same: "wp (create (BinOp AddI b c) ?ct) Q t" by (rule add) (use wf v in simp_all)
  show ?thesis
    using cast same ty by (cases ?ct) (auto simp: accumulateOffset_def offsetInType_def intWidth_def wp_simps)
qed

lemma wp_scalarOther:
  assumes l: "later (retyped s) s t" and x: "\<And>x. oth = Some x \<Longrightarrow> scalarTerm s x"
    and post: "\<And>y t'. grows t t' \<Longrightarrow> (y = None \<longleftrightarrow> oth = None) \<Longrightarrow>
      (\<And>x z. oth = Some x \<Longrightarrow> y = Some z \<Longrightarrow> elementOf t' (shapeOf (tyOf s x)) x z) \<Longrightarrow> Q y t'"
  shows "wp (scalarOther oth) Q t"
proof (cases oth)
  case None
  have "Q None t" by (rule post) (use None laterD(1) [OF l] in simp_all)
  then show ?thesis using None by (simp add: scalarOther_def wp_ret)
next
  case (Some x)
  note fg = front_grows [OF l] and st = scalarTerm_front [OF x [OF Some] l]
  have vx: "valid s x" by (rule scalarTerm_valid [OF x [OF Some]])
  have sh: "shapeOf (tyOf (front s t) x) = shapeOf (tyOf s x)"
  proof -
    have "\<not> isPtrTypeLike (tyOf s x)"
      using x [OF Some] by (cases rule: scalarTerm.cases) (auto simp: isPtrTypeLike_def elim!: isIntOrIndex.elims(2) split: ty.splits)
    then show ?thesis using front_val(3) [OF l vx] laterD(5) [OF l vx] by (simp add: retyped_def)
  qed
  have "wp (getScalarFrom [] x) (\<lambda>r. wp (case r of None \<Rightarrow> raise Failure | Some y \<Rightarrow> ret (Some y)) Q) t"
  proof (rule getScalarFrom_correct [OF fg(2) st fg(1)])
    fix r t' assume r: "grows t t'" "valid t' r"
      "\<And>E idx. inB (shapeOf (tyOf (front s t) x)) idx \<Longrightarrow> eval E t' r [] = castChain [] (width (tyOf (front s t) x)) (eval E (front s t) x idx)"
    have "elementOf t' (shapeOf (tyOf s x)) x r"
      using r sh eval_grows [OF grows_trans [OF fg(1) r(1)]] valid_grows [OF grows_trans [OF fg(1) r(1)]] vx front_val(1) [OF l, of x]
      by (simp add: elementOf_def)
    then have "Q (Some r) t'" using r(1) Some by (intro post) auto
    then show "wp (case Some r of None \<Rightarrow> raise Failure | Some y \<Rightarrow> ret (Some y)) Q t'" by (simp add: wp_ret)
  qed simp
  then show ?thesis using Some by (simp add: scalarOther_def getScalarValue_def wp_simps)
qed

lemma firstDynamic_nth:
  assumes "firstDynamic xs = Some (i, c)"
  shows "i < length xs" "xs ! i = Val c"
proof -
  obtain ys where "dropWhile (\<lambda>(i, x). ofrVals x = {}) (List.enumerate 0 xs) = (i, Val c) # ys"
    using assms by (auto simp: firstDynamic_def split: list.splits gofr.splits prod.splits)
  then have "(i, Val c) \<in> set (List.enumerate 0 xs)" by (metis list.set_intros(1) set_dropWhileD)
  then show "i < length xs" "xs ! i = Val c" by (auto simp: in_set_enumerate_eq)
qed

lemma wp_rewritePtrUser:
  assumes p: "pointerProgram cx s" and f: "finished cx s u t" and v: "userOf cx s v" "v \<notin> fst ` set L"
  shows "wp (rewritePtrUser u L v) (\<lambda>L' t'. grows t t' \<and> (\<exists>w. L' = (v, w) # L \<and> rewrittenOk s t' (offsetMap u) (v, w))) t"
proof -
  let ?Q = "\<lambda>w t'. grows t t' \<and> rewrittenOk s t' (offsetMap u) (v, w)"
  note st = finishedD(1) [OF f]
  note l = stateOkD(1) [OF st]
  obtain a where a: "traced cx s a" "a \<in> operands (defOp s v)" and vv: "valid s v" and us: "users cx s (OpUse v) = [v]"
    using v(1) by (auto simp: userOf_def)
  have sup: "supportedOp cx s a v" by (rule pointerProgramD(7) [OF p a(1) vv a(2)])
  obtain q where q: "offsetMap u a = Some q" using finishedD(2) [OF f] a(1) by auto
  have U: "useOk cx s u t a q v" using p st q a vv by (simp add: useOk_def)
  note u = useOkD [OF U] and W = useOkD(9) [OF U, unfolded wellTyped_def]
  have nl: "\<not> isLoopVal (defOp s v)" using us by (cases "defOp s v") (simp_all add: users_def)
  note ty = u(13) [OF nl]
  have scal: "tyOf t (offset q) = IntTy (bitWidth q)" if "tyOf s a = PtrTy e" for e
    using W that by (simp add: getPtrOffsetType_def)
  have int: "tyOf t c = tyOf s c" if "c \<in> operands (defOp s v)" "isIntOrIndex (tyOf s c)" for c
  proof -
    have "valid s c" by (rule wf_operand_valid [OF pointerProgramD(1) [OF p] vv that(1)])
    moreover have "\<not> isPtrTypeLike (tyOf s c)" using that(2) by (cases "tyOf s c") (simp_all add: isPtrTypeLike_def)
    ultimately show ?thesis using laterD(5) [OF l, of c] by (simp add: retyped_def)
  qed
  have wft: "wf_ir t" by (rule u(10))
  have fresh: "map_of L v = None" using v(2) by (simp add: map_of_eq_None_iff)
  have "wp (rewriteUser u (defOp s v) (tyOf s v)) ?Q t"
  proof (cases "defOp s v")
    case (LoadOp p' m oth bc pad)
    then have x: "p' = a" "\<And>x. oth = Some x \<Longrightarrow> scalarTerm s x" using sup by (auto simp: supportedOp_def)
    have "wp (scalarOther oth) (\<lambda>y. wp (create (GatherOp (ptr q) (offset q) m y) (tyOf s v)) ?Q) t"
    proof (rule wp_scalarOther [OF l x(2)])
      fix y t1 assume y: "grows t t1" "(y = None) = (oth = None)"
        "\<And>x z. oth = Some x \<Longrightarrow> y = Some z \<Longrightarrow> elementOf t1 (shapeOf (tyOf s x)) x z"
      show "wp (create (GatherOp (ptr q) (offset q) m y) (tyOf s v)) ?Q t1"
      proof (rule wp_create [OF growsD(2) [OF y(1)]])
        have "valid t1 z" if "y = Some z" for z using y(2,3) that by (auto simp: elementOf_def)
        moreover have "valid t1 x" if "m = Some x" for x using that LoadOp u(12) [of x] valid_grows [OF y(1)] by simp
        ultimately show "\<forall>b \<in> operands (GatherOp (ptr q) (offset q) m y). valid t1 b" using W valid_grows [OF y(1)] by auto
        fix w t2 assume w: "grows t1 t2" "valid t2 w" "defOp t2 w = GatherOp (ptr q) (offset q) m y" "tyOf t2 w = tyOf s v"
        have "\<And>x z. oth = Some x \<Longrightarrow> y = Some z \<Longrightarrow> elementOf t2 (shapeOf (tyOf s x)) x z" using y(3) elementOf_grows [OF _ w(1)] by blast
        then show "?Q w t2" using w y(2) LoadOp x(1) q grows_trans [OF y(1) w(1)] by (simp add: rewrittenOk_def)
      qed simp
    qed
    then show ?thesis using LoadOp x(1) q by (simp add: rewriteUser_def offsetAt_def wp_simps)
  next
    case (StoreOp p' x m bc)
    then have x: "p' = a" using sup by (auto simp: supportedOp_def)
    have "wp (create (ScatterOp (ptr q) (offset q) x m) NoneTy) ?Q t"
      by (rule wp_create [OF wft]) (use W u(12) StoreOp x q in \<open>auto simp: rewrittenOk_def\<close>)
    then show ?thesis using StoreOp x q by (simp add: rewriteUser_def offsetAt_def wp_simps)
  next
    case (MakeTensorPtrOp base sh strs offs ord)
    then have x: "base = a" "offs \<noteq> []" "isIntOrIndex (tyOf s (hd offs))" "\<exists>e. tyOf s a = PtrTy e" using sup by (auto simp: supportedOp_def)
    have c: "hd offs \<in> operands (defOp s v)" using MakeTensorPtrOp x(2) by simp
    have "wp (accumulateOffset (offset q) (hd offs)) (\<lambda>acc. wp (create (MakeTensorPtrOp (ptr q) sh strs (offs[0 := acc]) ord) (tyOf s v)) ?Q) t"
    proof (rule wp_accumulateOffset [OF wft])
      fix acc t1 assume a1: "grows t t1" "sumOf t1 (tyOf t (hd offs)) (offset q) (hd offs) acc"
      show "wp (create (MakeTensorPtrOp (ptr q) sh strs (offs[0 := acc]) ord) (tyOf s v)) ?Q t1"
      proof (rule wp_create [OF growsD(2) [OF a1(1)]])
        have "valid t1 b" if "b \<in> set sh \<union> set strs \<union> set offs" for b
          using that MakeTensorPtrOp u(12) [of b] valid_grows [OF a1(1), of b] by auto
        then show "\<forall>b \<in> operands (MakeTensorPtrOp (ptr q) sh strs (offs[0 := acc]) ord). valid t1 b"
          using W valid_grows [OF a1(1)] a1(2) set_update_subset_insert [of offs 0 acc] by (auto simp: sumOf_def)
        fix w t2 assume w: "grows t1 t2" "valid t2 w" "defOp t2 w = MakeTensorPtrOp (ptr q) sh strs (offs[0 := acc]) ord" "tyOf t2 w = tyOf s v"
        then show "?Q w t2" using MakeTensorPtrOp x(1) q grows_trans [OF a1(1) w(1)] sumOf_grows [OF a1(2) w(1)] int [OF c x(3)]
          by (auto simp: rewrittenOk_def)
      qed simp
    qed (use W u(12) c x scal int [OF c x(3)] in auto)
    then show ?thesis using MakeTensorPtrOp x(1,2) q by (simp add: rewriteUser_def offsetAt_def wp_simps hd_conv_nth)
  next
    case (TTSMakeTensorPtrOp base szs strs offs orig sh ord)
    then have x: "base = a" "\<exists>e. tyOf s a = PtrTy e" using sup by (auto simp: supportedOp_def)
    have "base \<notin> set (pointerArgs cx s)" using us TTSMakeTensorPtrOp by (auto simp: users_def)
    then have "a \<notin> set (funcArgs cx)" using x by (auto simp: pointerArgs_def isPtrTypeLike_def)
    then obtain i c where c: "firstDynamic offs = Some (i, c)" "tyOf s c = IndexTy" using sup TTSMakeTensorPtrOp by (auto simp: supportedOp_def)
    note ic = firstDynamic_nth [OF c(1)]
    have cop: "c \<in> operands (defOp s v)" using TTSMakeTensorPtrOp ic nth_mem [OF ic(1)] by force
    have cty: "tyOf t c = IndexTy" using int [OF cop] c(2) by simp
    have "wp (accumulateOffset (offset q) c) (\<lambda>acc. wp (create (TTSMakeTensorPtrOp (ptr q) szs strs (offs[i := Val acc]) orig sh ord) (tyOf s v)) ?Q) t"
    proof (rule wp_accumulateOffset [OF wft])
      fix acc t1 assume a1: "grows t t1" "sumOf t1 (tyOf t c) (offset q) c acc"
      show "wp (create (TTSMakeTensorPtrOp (ptr q) szs strs (offs[i := Val acc]) orig sh ord) (tyOf s v)) ?Q t1"
      proof (rule wp_create [OF growsD(2) [OF a1(1)]])
        have "valid t1 b" if "b \<in> ofrVals y" "y \<in> set strs \<union> set offs \<union> set orig \<union> set sh" for b y
          using u(12) [of b] that TTSMakeTensorPtrOp valid_grows [OF a1(1), of b] by auto
        then have "\<forall>y \<in> set strs \<union> set offs \<union> set orig \<union> set sh. \<forall>b \<in> ofrVals y. valid t1 b" by blast
        then show "\<forall>b \<in> operands (TTSMakeTensorPtrOp (ptr q) szs strs (offs[i := Val acc]) orig sh ord). valid t1 b"
          using W valid_grows [OF a1(1)] a1(2) set_update_subset_insert [of offs i "Val acc"] by (fastforce simp: sumOf_def)
        fix w t2 assume w: "grows t1 t2" "valid t2 w" "defOp t2 w = TTSMakeTensorPtrOp (ptr q) szs strs (offs[i := Val acc]) orig sh ord"
          "tyOf t2 w = tyOf s v"
        then show "?Q w t2" using TTSMakeTensorPtrOp x(1) q c cty grows_trans [OF a1(1) w(1)] sumOf_grows [OF a1(2) w(1)]
          by (auto simp: rewrittenOk_def)
      qed simp
    qed (use W u(12) cop x scal cty in auto)
    then show ?thesis using TTSMakeTensorPtrOp x(1) q c(1) by (simp add: rewriteUser_def offsetAt_def wp_simps)
  qed (use us in \<open>simp_all add: users_def rewriteUser_def\<close>)
  then show ?thesis using fresh u(11) ty by (simp add: rewritePtrUser_def wp_simps)
qed

section \<open>The whole pass\<close>

text \<open>An operation updated in place: its pointer is now the base plus the offset.\<close>

definition updatedOk :: "ir \<Rightarrow> ir \<Rightarrow> (val \<Rightarrow> ptr_offset option) \<Rightarrow> val \<times> val \<Rightarrow> bool" where
  "updatedOk s t om = (\<lambda>(v, w). valid t w \<and> (\<exists>a q m. pointerOperand (defOp s v) = Some a \<and> om a = Some q \<and> valid t m \<and>
     defOp t m = AddPtrOp (ptr q) (offset q) \<and> tyOf t m = tyOf s a \<and> defOp t w = setPointer (defOp s v) m \<and> tyOf t w = tyOf s v))"

lemma updatedOk_grows: "updatedOk s t om d \<Longrightarrow> grows t t' \<Longrightarrow> updatedOk s t' om d"
  using defOp_grows [of t t'] tyOf_grows [of t t'] valid_grows [of t t']
  by (cases d) (auto simp: updatedOk_def, metis)

lemma operands_setPointer: "operands (setPointer opn m) \<subseteq> insert m (operands opn)"
  by (cases opn) (auto simp: setPointer_def)

lemma setPointer_typed: "constTyped opn t \<Longrightarrow> constTyped (setPointer opn m) t"
  by (cases opn) (simp_all add: setPointer_def)

lemma wp_applyDeferred:
  assumes p: "pointerProgram cx s" and f: "finished cx s u t" and d: "d \<in> set (deferredRewrites u)"
  shows "wp (applyDeferred d) (\<lambda>y t'. grows t t' \<and> updatedOk s t' (offsetMap u) y) t"
proof -
  obtain v m where vm: "d = (v, m)" by fastforce
  note st = finishedD(1) [OF f]
  note l = stateOkD(1) [OF st] and lo = pointerProgramD(2) [OF p]
  have ok: "deferredOk s t (offsetMap u) (v, m)" using stateOkD(6) [OF st d] vm by simp
  then have v: "valid s v" "valid t m" "\<not> isLoopVal (defOp s v)"
    by (cases "defOp s v"; auto simp: deferredOk_def pointerOperand_def)+
  have vt: "valid t v" "defOp t v = defOp s v" "tyOf t v = tyOf s v"
    using laterD(3-5) [OF l v(1)] v(3) loopVals_valid [OF lo, of v] by (auto simp: retyped_def)
  have "wp (create (setPointer (defOp s v) m) (tyOf s v)) (\<lambda>w t'. grows t t' \<and> updatedOk s t' (offsetMap u) (v, w)) t"
  proof (rule wp_create [OF laterD(1) [OF l]])
    have "valid t a" if "a \<in> operands (defOp s v)" for a
      using laterD(3) [OF l wf_operand_valid [OF pointerProgramD(1) [OF p] v(1) that]] .
    then show "\<forall>a \<in> operands (setPointer (defOp s v) m). valid t a" using operands_setPointer v(2) by blast
    have "constTyped (defOp s v) (tyOf s v)"
      using pointerProgramD(1) [OF p] v(1) by (auto simp: wf_ir_def valid_def defOp_def tyOf_def entry_def)
    then show "constTyped (setPointer (defOp s v) m) (tyOf s v)" by (rule setPointer_typed)
    fix w t' assume w: "grows t t'" "valid t' w" "defOp t' w = setPointer (defOp s v) m" "tyOf t' w = tyOf s v"
    obtain a q where "pointerOperand (defOp s v) = Some a" "offsetMap u a = Some q" "defOp t m = AddPtrOp (ptr q) (offset q)"
        "tyOf t m = tyOf s a" using ok by (auto simp: deferredOk_def)
    then have "updatedOk s t' (offsetMap u) (v, w)"
      unfolding updatedOk_def prod.case using w v(2) valid_grows [OF w(1) v(2)] defOp_grows [OF w(1) v(2)] tyOf_grows [OF w(1) v(2)]
      by (intro conjI exI [of _ a] exI [of _ q] exI [of _ m]) simp_all
    then show "grows t t' \<and> updatedOk s t' (offsetMap u) (v, w)" using w(1) by blast
  qed
  then show ?thesis using vt by (simp add: vm applyDeferred_def wp_simps)
qed

definition resultOk :: "pass_context \<Rightarrow> ir \<Rightarrow> unstructured_result \<Rightarrow> ir \<Rightarrow> bool" where
  "resultOk cx s r t \<longleftrightarrow> finished cx s (final r) t \<and>
     (\<forall>d \<in> set (updated r). updatedOk s t (offsetMap (final r)) d) \<and>
     map fst (rewrittenUsers r) = rev (ptrUsers (final r)) \<and>
     (\<forall>d \<in> set (rewrittenUsers r). rewrittenOk s t (offsetMap (final r)) d) \<and>
     map fst (erased r) = rev (toDelete (final r)) \<and>
     (\<forall>(v, w) \<in> set (erased r). \<exists>p. offsetMap (final r) v = Some p \<and> w = offset p)"

lemma wp_erase:
  assumes "finished cx s u t" and post: "\<And>es. map fst es = rev (toDelete u) \<Longrightarrow>
      (\<forall>(v, w) \<in> set es. \<exists>p. offsetMap u v = Some p \<and> w = offset p) \<Longrightarrow> Q es t"
  shows "wp (foldM (eraseOp u) [] (toDelete u)) Q t"
proof (rule wp_foldM [where I = "\<lambda>n es t'. t' = t \<and> map fst es = rev (take n (toDelete u)) \<and>
    (\<forall>(v, w) \<in> set es. \<exists>p. offsetMap u v = Some p \<and> w = offset p)"])
  fix n es t' assume n: "n < length (toDelete u)" and i: "t' = t \<and> map fst es = rev (take n (toDelete u)) \<and>
    (\<forall>(v, w) \<in> set es. \<exists>p. offsetMap u v = Some p \<and> w = offset p)"
  let ?v = "toDelete u ! n"
  have "?v \<in> dom (offsetMap u)" using finishedD(2,4) [OF assms(1)] nth_mem [OF n] by auto
  then obtain p where p: "offsetMap u ?v = Some p" by auto
  have "?v \<notin> set (take n (toDelete u))"
    using distinct_filter_nth [of "\<lambda>_. True" "toDelete u" n] finishedD(3) [OF assms(1)] n by simp
  then have "?v \<notin> fst ` set es" using i by (metis set_map set_rev)
  then show "wp (eraseOp u es ?v) (\<lambda>es t'. t' = t \<and> map fst es = rev (take (Suc n) (toDelete u)) \<and>
      (\<forall>(v, w) \<in> set es. \<exists>p. offsetMap u v = Some p \<and> w = offset p)) t'"
    using i p n by (simp add: eraseOp_def offsetAt_def wp_simps take_Suc_conv_app_nth)
qed (use post in auto)

lemma wp_rewriteUsers:
  assumes p: "pointerProgram cx s" and f: "finished cx s u t" and post: "\<And>us t'. grows t t' \<Longrightarrow>
      map fst us = rev (ptrUsers u) \<Longrightarrow> \<forall>d \<in> set us. rewrittenOk s t' (offsetMap u) d \<Longrightarrow> Q us t'"
  shows "wp (foldM (rewritePtrUser u) [] (ptrUsers u)) Q t"
proof (rule wp_foldM [where I = "\<lambda>n us t'. grows t t' \<and> map fst us = rev (take n (ptrUsers u)) \<and>
    (\<forall>d \<in> set us. rewrittenOk s t' (offsetMap u) d)"])
  fix n us t' assume n: "n < length (ptrUsers u)" and i: "grows t t' \<and> map fst us = rev (take n (ptrUsers u)) \<and>
    (\<forall>d \<in> set us. rewrittenOk s t' (offsetMap u) d)"
  let ?v = "ptrUsers u ! n"
  have v: "userOf cx s ?v" using finishedD(6) [OF f] nth_mem [OF n] by auto
  have "?v \<notin> set (take n (ptrUsers u))"
    using distinct_filter_nth [of "\<lambda>_. True" "ptrUsers u" n] finishedD(5) [OF f] n by simp
  then have new: "?v \<notin> fst ` set us" using i by (metis set_map set_rev)
  have f': "finished cx s u t'" by (rule finished_grow [OF f pointerProgramD(2) [OF p] later_grows]) (use i in blast)
  show "wp (rewritePtrUser u us ?v) (\<lambda>us t'. grows t t' \<and> map fst us = rev (take (Suc n) (ptrUsers u)) \<and>
      (\<forall>d \<in> set us. rewrittenOk s t' (offsetMap u) d)) t'"
  proof (rule wp_mono [OF wp_rewritePtrUser [OF p f' v new]])
    fix us2 t2 assume "grows t' t2 \<and> (\<exists>w. us2 = (?v, w) # us \<and> rewrittenOk s t2 (offsetMap u) (?v, w))"
    then show "grows t t2 \<and> map fst us2 = rev (take (Suc n) (ptrUsers u)) \<and> (\<forall>d \<in> set us2. rewrittenOk s t2 (offsetMap u) d)"
      using i n grows_trans [of t t' t2] rewrittenOk_grows [of s t' "offsetMap u" _ t2] by (auto simp: take_Suc_conv_app_nth)
  qed
qed (use post grows_refl [OF laterD(1) [OF stateOkD(1) [OF finishedD(1) [OF f]]]] in auto)

theorem wp_processUnstructuredPtrs:
  assumes p: "pointerProgram cx s" and n: "length (ops s) \<le> n"
  shows "wp (processUnstructuredPtrs cx n) (resultOk cx s) s"
proof -
  have last: "wp (mapM applyDeferred (deferredRewrites u)) (\<lambda>ds. wp (foldM (rewritePtrUser u) [] (ptrUsers u)) (\<lambda>us.
      wp (foldM (eraseOp u) [] (toDelete u)) (\<lambda>es. resultOk cx s \<lparr>final = u, updated = ds, rewrittenUsers = us, erased = es\<rparr>))) t"
    if f: "finished cx s u t" for u t
  proof (rule wp_mapM [where I = "\<lambda>ds t'. grows t t' \<and> (\<forall>d \<in> set ds. updatedOk s t' (offsetMap u) d)"])
    fix n ys t1 assume k: "n < length (deferredRewrites u)" and i: "grows t t1 \<and> (\<forall>d \<in> set ys. updatedOk s t1 (offsetMap u) d)"
    have f1: "finished cx s u t1" by (rule finished_grow [OF f pointerProgramD(2) [OF p] later_grows]) (use i in blast)
    show "wp (applyDeferred (deferredRewrites u ! n)) (\<lambda>y t'. grows t t' \<and> (\<forall>d \<in> set (ys @ [y]). updatedOk s t' (offsetMap u) d)) t1"
      by (rule wp_mono [OF wp_applyDeferred [OF p f1 nth_mem [OF k]]])
        (use i grows_trans [of t t1] updatedOk_grows in auto)
  next
    show "grows t t \<and> (\<forall>d \<in> set []. updatedOk s t (offsetMap u) d)"
      using laterD(1) [OF stateOkD(1) [OF finishedD(1) [OF f]]] by simp
  next
    fix ds t1 assume i: "grows t t1 \<and> (\<forall>d \<in> set ds. updatedOk s t1 (offsetMap u) d)"
    have f1: "finished cx s u t1" by (rule finished_grow [OF f pointerProgramD(2) [OF p] later_grows]) (use i in blast)
    show "wp (foldM (rewritePtrUser u) [] (ptrUsers u)) (\<lambda>us. wp (foldM (eraseOp u) [] (toDelete u))
        (\<lambda>es. resultOk cx s \<lparr>final = u, updated = ds, rewrittenUsers = us, erased = es\<rparr>)) t1"
    proof (rule wp_rewriteUsers [OF p f1])
      fix us t2 assume us: "grows t1 t2" "map fst us = rev (ptrUsers u)" "\<forall>d \<in> set us. rewrittenOk s t2 (offsetMap u) d"
      have f2: "finished cx s u t2" by (rule finished_grow [OF f1 pointerProgramD(2) [OF p] later_grows [OF us(1)]])
      show "wp (foldM (eraseOp u) [] (toDelete u)) (\<lambda>es. resultOk cx s \<lparr>final = u, updated = ds, rewrittenUsers = us, erased = es\<rparr>) t2"
        by (rule wp_erase [OF f2]) (use f2 us i updatedOk_grows [OF _ us(1)] in \<open>simp add: resultOk_def\<close>)
    qed
  qed
  have work: "wp (processWorkList n cx (usesOf cx s) u) (\<lambda>u. wp (mapM applyDeferred (deferredRewrites u)) (\<lambda>ds.
      wp (foldM (rewritePtrUser u) [] (ptrUsers u)) (\<lambda>us. wp (foldM (eraseOp u) [] (toDelete u))
      (\<lambda>es. resultOk cx s \<lparr>final = u, updated = ds, rewrittenUsers = us, erased = es\<rparr>)))) t"
    if "workInv cx s [] [] u t" for u t
    by (rule wp_processWorkList [OF p, of "[]"]) (use that n last workInv_finished [OF p] in auto)
  show ?thesis
    unfolding processUnstructuredPtrs_def wp_bindM wp_getM wp_ret
    by (rule wp_mono [OF wp_addArgs [OF p] wp_mono [OF wp_addRoots [OF p] work]])
qed

section \<open>The same accesses\<close>

text \<open>
  Two runs, of the program at the start in \<open>E\<close> and of the program at the end in \<open>E'\<close>: they agree on
  everything but the retyped loop values, whose offsets are those of the pointers they stand for.
\<close>

definition related :: "pass_context \<Rightarrow> env \<Rightarrow> ir \<Rightarrow> env \<Rightarrow> ir \<Rightarrow> (val \<Rightarrow> ptr_offset option) \<Rightarrow> bool" where
  "related cx E s E' t om \<longleftrightarrow> agree s E E' \<and> cleanOffsets cx s \<and> offsetsFit E s E' t om \<and>
     (\<forall>v \<in> loopVals s. \<forall>p. om v = Some p \<longrightarrow> splits E s E' t v p)"

lemma related_splits:
  assumes "pointerProgram cx s" "finished cx s u t" "related cx E s E' t (offsetMap u)" "offsetMap u v = Some p"
  shows "splits E s E' t v p"
  by (rule splits_entry [OF assms(1) finishedD(1) [OF assms(2)] _ _ _ _ assms(4)]) (use assms(3) related_def in blast)+

text \<open>What a gather reads and a scatter writes: the address is the base plus the offset in elements.\<close>

definition elementAddr :: "env \<Rightarrow> ir \<Rightarrow> val \<Rightarrow> val \<Rightarrow> int list \<Rightarrow> int" where
  "elementAddr E t base off idx = wrap 64 (eval E t base [] + byteSize (pointee (tyOf t base)) * eval E t off idx)"

definition gatherSem :: "(int \<Rightarrow> int) \<Rightarrow> (int list \<Rightarrow> int) \<Rightarrow> env \<Rightarrow> ir \<Rightarrow> opr \<Rightarrow> int list \<Rightarrow> int" where
  "gatherSem mem junk E t opn idx = (case opn of
     GatherOp base off m oth \<Rightarrow>
       if activeAt E t m idx then mem (elementAddr E t base off idx)
       else (case oth of None \<Rightarrow> junk idx | Some x \<Rightarrow> eval E t x [])
   | _ \<Rightarrow> junk idx)"

definition scatterSem :: "env \<Rightarrow> ir \<Rightarrow> opr \<Rightarrow> int list \<Rightarrow> (int \<times> int) option" where
  "scatterSem E t opn idx = (case opn of
     ScatterOp base off x m \<Rightarrow> if activeAt E t m idx then Some (elementAddr E t base off idx, eval E t x idx) else None
   | _ \<Rightarrow> None)"

text \<open>The other operands of an access, which the pass copies.\<close>

definition cleanAccess :: "ir \<Rightarrow> val \<Rightarrow> bool" where
  "cleanAccess s v \<longleftrightarrow> (case defOp s v of
     LoadOp p m oth bc pad \<Rightarrow> (\<forall>x. m = Some x \<longrightarrow> unaffected s x) \<and>
       (\<forall>x. oth = Some x \<longrightarrow> unaffected s x \<and> shapeOf (tyOf s x) = shapeOf (tyOf s p))
   | StoreOp p x m bc \<Rightarrow> unaffected s x \<and> (\<forall>x. m = Some x \<longrightarrow> unaffected s x)
   | _ \<Rightarrow> True)"

lemma splits_address:
  assumes p: "pointerProgram cx s" and f: "finished cx s u t" and q: "offsetMap u v = Some q"
    and sp: "splits E s E' t v q" and idx: "inB (shapeOf (tyOf s v)) idx"
  shows "elementAddr E' t (ptr q) (offset q) idx = eval E s v idx"
proof -
  note W = stateOkD(5) [OF finishedD(1) [OF f] q, unfolded wellTyped_def]
  have tr: "traced cx s v" by (rule stateOkD(3) [OF finishedD(1) [OF f] q])
  obtain e where e: "pointsTo (tyOf s v) e" "tyOf t (ptr q) = PtrTy e" using W by blast
  have "pointee (tyOf t (ptr q)) = e" using e by (cases e) (auto simp: pointsTo_def)
  then have "w64 (eval E s v idx) = w64 (eval E' t (ptr q) [] + byteSize (pointee (tyOf t (ptr q))) * eval E' t (offset q) idx)"
    using sp idx pointsTo_elem [OF e(1)] by (simp add: splits_def w64_add w64_mult)
  moreover have "wrap 64 (eval E s v idx) = eval E s v idx"
    using eval_norm [OF pointerProgramD(1) [OF p], of v E idx] traced_ok [OF tr p] pointsTo_norm [OF e(1)] by simp
  ultimately show ?thesis by (simp add: elementAddr_def w64_inj_wrap)
qed

theorem rewritten_access:
  assumes p: "pointerProgram cx s" and r: "resultOk cx s r t" and rel: "related cx E s E' t (offsetMap (final r))"
    and d: "(v, w) \<in> set (rewrittenUsers r)" and c: "cleanAccess s v"
  shows "defOp s v = LoadOp a m oth bc pad \<Longrightarrow> inB (shapeOf (tyOf s a)) idx \<Longrightarrow>
      gatherSem mem junk E' t (defOp t w) idx = loadSem mem junk E s (defOp s v) idx"
    "defOp s v = StoreOp a x m bc \<Longrightarrow> inB (shapeOf (tyOf s a)) idx \<Longrightarrow>
      scatterSem E' t (defOp t w) idx = storeSem E s (defOp s v) idx"
proof -
  let ?om = "offsetMap (final r)"
  have f: "finished cx s (final r) t" and ok: "rewrittenOk s t ?om (v, w)" using r d by (auto simp: resultOk_def)
  note l = stateOkD(1) [OF finishedD(1) [OF f]] and wf = pointerProgramD(1) [OF p]
  have ag: "agree s E E'" using rel by (simp add: related_def)
  note un = eval_unaffected [OF _ wf l ag]
  have act: "activeAt E' t m idx = activeAt E s m idx" if "\<And>x. m = Some x \<Longrightarrow> unaffected s x" for m idx
    using un [OF that] by (cases m) (simp_all add: activeAt_def)
  have addr: "elementAddr E' t (ptr q) (offset q) idx = eval E s a idx" if "?om a = Some q" "inB (shapeOf (tyOf s a)) idx" for a q idx
    by (rule splits_address [OF p f that(1) related_splits [OF p f rel that(1)] that(2)])
  show "gatherSem mem junk E' t (defOp t w) idx = loadSem mem junk E s (defOp s v) idx"
    if op: "defOp s v = LoadOp a m oth bc pad" and i: "inB (shapeOf (tyOf s a)) idx"
  proof -
    obtain q y where y: "?om a = Some q" "defOp t w = GatherOp (ptr q) (offset q) m y" "y = None \<longleftrightarrow> oth = None"
        "\<And>x z. oth = Some x \<Longrightarrow> y = Some z \<Longrightarrow> elementOf t (shapeOf (tyOf s x)) x z"
      using ok op by (auto simp: rewrittenOk_def)
    have oth: "eval E' t z [] = eval E s x idx" if "oth = Some x" "y = Some z" for x z
      using y(4) [OF that] c op i that(1) un [of x] by (auto simp: elementOf_def cleanAccess_def)
    show ?thesis
      using addr [OF y(1) i] act [of m idx] c op y(2,3) oth
      by (auto simp: gatherSem_def loadSem_def cleanAccess_def split: option.splits)
  qed
  show "scatterSem E' t (defOp t w) idx = storeSem E s (defOp s v) idx"
    if op: "defOp s v = StoreOp a x m bc" and i: "inB (shapeOf (tyOf s a)) idx"
  proof -
    obtain q where y: "?om a = Some q" "defOp t w = ScatterOp (ptr q) (offset q) x m"
      using ok op by (auto simp: rewrittenOk_def)
    show ?thesis
      using addr [OF y(1) i] act [of m idx] c op y(2) un [of x] by (simp add: scatterSem_def storeSem_def cleanAccess_def)
  qed
qed

text \<open>An operation updated in place sees the pointer it saw before.\<close>

theorem updated_pointer:
  assumes p: "pointerProgram cx s" and r: "resultOk cx s r t" and rel: "related cx E s E' t (offsetMap (final r))"
    and d: "(v, w) \<in> set (updated r)" and a: "pointerOperand (defOp s v) = Some a" "tyOf s a = PtrTy e"
  shows "\<exists>m. defOp t w = setPointer (defOp s v) m \<and> tyOf t m = PtrTy e \<and> eval E' t m [] = eval E s a []"
proof -
  let ?om = "offsetMap (final r)"
  have f: "finished cx s (final r) t" and ok: "updatedOk s t ?om (v, w)" using r d by (auto simp: resultOk_def)
  obtain q m where m: "?om a = Some q" "valid t m" "defOp t m = AddPtrOp (ptr q) (offset q)" "tyOf t m = tyOf s a"
      "defOp t w = setPointer (defOp s v) m"
    using ok a(1) by (auto simp: updatedOk_def)
  note W = stateOkD(5) [OF finishedD(1) [OF f] m(1), unfolded wellTyped_def]
  have ty: "tyOf t (ptr q) = PtrTy e" using W a(2) by (auto simp: pointsTo_def)
  have "eval E' t m [] = wrap 64 (eval E' t (ptr q) [] + byteSize (pointee (PtrTy e)) * eval E' t (offset q) [])"
    using eval_unfold [OF laterD(1) [OF stateOkD(1) [OF finishedD(1) [OF f]]] m(2), of E'] m(3,4) a(2)
    by (simp add: denOp_def norm_def)
  also have "\<dots> = elementAddr E' t (ptr q) (offset q) []" by (simp add: elementAddr_def ty)
  also have "\<dots> = eval E s a []"
    by (rule splits_address [OF p f m(1) related_splits [OF p f rel m(1)]]) (use a(2) in simp)
  finally show ?thesis using m(4,5) a(2) by auto
qed

section \<open>Block pointers\<close>

lemma norm_pointers: "isPtrTypeLike t \<Longrightarrow> norm t n = wrap 64 n"
  by (cases t) (auto simp: isPtrTypeLike_def norm_def elim!: isPtrTy.elims(2))

lemma sumDims_update:
  assumes "i < length offs" "length strs = length offs" "length mds = length offs" "length idx = length offs" "f (mds ! i) = 0"
  shows "sumDims f (offs[i := x]) strs mds idx = sumDims f offs strs mds idx + (f x - f (offs ! i))"
  using assms
proof (induction f offs strs mds idx arbitrary: i rule: sumDims.induct)
  case (1 f off offs str strs md mds j idx)
  then show ?case by (cases i) (simp_all add: dimTerm_def)
qed simp_all

lemma blockSum_update:
  assumes "offs \<noteq> []" "strs \<noteq> []" "idx \<noteq> []"
  shows "blockSum f (offs[0 := x]) strs idx = blockSum f offs strs idx + (f x - f (hd offs)) * f (hd strs)"
  using assms by (cases offs; cases strs; cases idx) (simp_all add: algebra_simps)

lemma rewritten_user:
  assumes "resultOk cx s r t" "(v, w) \<in> set (rewrittenUsers r)"
  shows "userOf cx s v"
proof -
  have f: "finished cx s (final r) t" and m: "map fst (rewrittenUsers r) = rev (ptrUsers (final r))"
    using assms(1) unfolding resultOk_def by blast+
  have "v \<in> set (map fst (rewrittenUsers r))" using image_eqI [OF _ assms(2), of v fst] by simp
  then have "v \<in> set (ptrUsers (final r))" unfolding m by simp
  then show ?thesis using finishedD(6) [OF f] by blast
qed

lemma base_address:
  assumes p: "pointerProgram cx s" and f: "finished cx s u t" and q: "offsetMap u a = Some q"
    and rel: "related cx E s E' t (offsetMap u)" and ty: "tyOf s a = PtrTy e"
  shows "w64 (eval E s a []) = w64 (eval E' t (ptr q) []) + w64 (byteSize (pointee (PtrTy e))) * w64 (eval E' t (offset q) [])"
proof -
  have "elementAddr E' t (ptr q) (offset q) [] = eval E s a []"
    by (rule splits_address [OF p f q related_splits [OF p f rel q]]) (use ty in simp)
  moreover have "tyOf t (ptr q) = PtrTy e"
    using stateOkD(5) [OF finishedD(1) [OF f] q] ty by (auto simp: wellTyped_def pointsTo_def)
  ultimately show ?thesis by (simp add: elementAddr_def w64_add w64_mult flip: \<open>elementAddr E' t (ptr q) (offset q) [] = eval E s a []\<close>)
qed

theorem rewritten_tptr:
  assumes p: "pointerProgram cx s" and r: "resultOk cx s r t" and rel: "related cx E s E' t (offsetMap (final r))"
    and d: "(v, w) \<in> set (rewrittenUsers r)" and op: "defOp s v = TTSMakeTensorPtrOp base szs strs offs orig sh ord"
    and un: "\<And>a. a \<in> operands (defOp s v) \<Longrightarrow> a \<noteq> base \<Longrightarrow> unaffected s a"
    and ty: "isPtrTypeLike (tyOf s v)" "byteSize (pointee (tyOf s v)) = byteSize (pointee (tyOf s base))"
    and len: "length strs = length offs" "length sh = length offs" "length idx = length offs"
    and i: "firstDynamic offs = Some (i, c)" "ord = [] \<longrightarrow> osem E s (sh ! i) = 0"
    and nb: "base \<notin> \<Union> (ofrVals ` (set offs \<union> set strs \<union> set sh))"
  shows "w64 (eval E' t w idx) = w64 (eval E s v idx)"
proof -
  let ?om = "offsetMap (final r)"
  have f: "finished cx s (final r) t" and ok: "rewrittenOk s t ?om (v, w)" using r d by (auto simp: resultOk_def)
  note l = stateOkD(1) [OF finishedD(1) [OF f]] and wf = pointerProgramD(1) [OF p] and us = rewritten_user [OF r d]
  have wft: "wf_ir t" by (rule laterD(1) [OF l])
  obtain q acc where q: "?om base = Some q" "sumOf t (tyOf s c) (offset q) c acc" "tyOf t w = tyOf s v" "valid t w"
      "defOp t w = TTSMakeTensorPtrOp (ptr q) szs strs (offs[i := Val acc]) orig sh ord"
    using ok op i(1) by (auto simp: rewrittenOk_def)
  obtain a where a: "traced cx s a" "a \<in> operands (defOp s v)" using us by (auto simp: userOf_def)
  have vv: "valid s v" and uv: "users cx s (OpUse v) = [v]" using us by (simp_all add: userOf_def)
  have sup: "supportedOp cx s a v" by (rule pointerProgramD(7) [OF p a(1) vv a(2)])
  then have ba: "base = a" "\<exists>e. tyOf s base = PtrTy e" using op by (auto simp: supportedOp_def)
  have "base \<notin> set (pointerArgs cx s)" using uv op by (auto simp: users_def)
  then have cty: "tyOf s c = IndexTy" using sup op ba i(1) by (auto simp: supportedOp_def pointerArgs_def isPtrTypeLike_def)
  note ic = firstDynamic_nth [OF i(1)]
  have same: "ofrSem (eval E' t) x = ofrSem (eval E s) x" if "x \<in> set offs \<union> set strs \<union> set sh" for x
  proof (rule ofrSem_cong)
    fix b assume b: "b \<in> ofrVals x"
    then have "b \<in> operands (defOp s v)" "b \<noteq> base" using that op nb by auto
    then show "eval E' t b = eval E s b" using eval_unaffected [OF un wf l] rel by (auto simp: related_def)
  qed
  define mds where "mds = (if ord = [] then sh else map (\<lambda>_. Attr zeroAttr) sh)"
  have mds: "ofrSem (eval E' t) m = ofrSem (eval E s) m" if "m \<in> set mds" for m
    using that same by (auto simp: mds_def ofrSem_def split: if_splits)
  have mi: "ofrSem (eval E' t) (mds ! i) = 0"
    using i(2) ic(1) len(2) same [of "sh ! i"] by (auto simp: mds_def osem_def ofrSem_def zeroAttr_def)
  have "sumDims (ofrSem (eval E' t)) (offs[i := Val acc]) strs mds idx =
      sumDims (ofrSem (eval E' t)) offs strs mds idx + (eval E' t acc [] - eval E' t c [])"
    using sumDims_update [of i offs strs mds idx "ofrSem (eval E' t)" "Val acc"] ic len mi
    by (simp add: mds_def ofrSem_def)
  also have "sumDims (ofrSem (eval E' t)) offs strs mds idx = sumDims (ofrSem (eval E s)) offs strs mds idx"
    by (rule sumDims_cong) (use same mds in auto)
  finally have sum: "w64 (sumDims (ofrSem (eval E' t)) (offs[i := Val acc]) strs mds idx) =
      w64 (sumDims (ofrSem (eval E s)) offs strs mds idx) + w64 (eval E' t (offset q) [])"
    using q(2) cty by (simp add: sumOf_def norm_def w64_add w64_diff)
  obtain e where e: "tyOf s base = PtrTy e" using ba(2) by blast
  have b: "w64 (eval E s base []) = w64 (eval E' t (ptr q) []) + w64 (byteSize (pointee (tyOf s v))) * w64 (eval E' t (offset q) [])"
    using base_address [OF p f q(1) rel e] ty(2) e by simp
  have "w64 (eval E s v idx) = w64 (eval E s base [] + byteSize (pointee (tyOf s v)) * sumDims (ofrSem (eval E s)) offs strs mds idx)"
    using eval_unfold [OF wf vv, of E] op norm_pointers [OF ty(1)] by (simp add: denOp_def mds_def)
  moreover have "w64 (eval E' t w idx) =
      w64 (eval E' t (ptr q) [] + byteSize (pointee (tyOf s v)) * sumDims (ofrSem (eval E' t)) (offs[i := Val acc]) strs mds idx)"
    using eval_unfold [OF wft q(4), of E'] q(3,5) norm_pointers [OF ty(1)] by (simp add: denOp_def mds_def)
  ultimately show ?thesis using b sum by (simp add: w64_add w64_mult algebra_simps)
qed

text \<open>
  The offsets of \<open>tt.make_tensor_ptr\<close> are multiplied by the strides, and the offset of the base is
  added to the first of them: the block moves by the offset times the first stride.
\<close>

theorem rewritten_block_ptr:
  assumes p: "pointerProgram cx s" and r: "resultOk cx s r t" and rel: "related cx E s E' t (offsetMap (final r))"
    and d: "(v, w) \<in> set (rewrittenUsers r)" and op: "defOp s v = MakeTensorPtrOp base sh strs offs ord"
    and un: "\<And>a. a \<in> operands (defOp s v) \<Longrightarrow> a \<noteq> base \<Longrightarrow> unaffected s a" and nb: "base \<notin> set offs \<union> set strs"
    and ty: "isPtrTypeLike (tyOf s v)" "byteSize (pointee (tyOf s v)) = byteSize (pointee (tyOf s base))"
    and len: "strs \<noteq> []" "idx \<noteq> []" and q: "offsetMap (final r) base = Some q"
    and fit: "norm (tyOf s (hd offs)) (eval E' t (offset q) [] + eval E s (hd offs) []) = eval E' t (offset q) [] + eval E s (hd offs) []"
  shows "w64 (eval E' t w idx) = w64 (eval E s v idx) +
    w64 (byteSize (pointee (tyOf s v)) * eval E' t (offset q) [] * (eval E s (hd strs) [] - 1))"
proof -
  let ?om = "offsetMap (final r)"
  have f: "finished cx s (final r) t" and ok: "rewrittenOk s t ?om (v, w)" using r d by (auto simp: resultOk_def)
  note l = stateOkD(1) [OF finishedD(1) [OF f]] and wf = pointerProgramD(1) [OF p] and us = rewritten_user [OF r d]
  have wft: "wf_ir t" by (rule laterD(1) [OF l])
  obtain acc where q': "sumOf t (tyOf s (hd offs)) (offset q) (hd offs) acc" "tyOf t w = tyOf s v" "valid t w"
      "defOp t w = MakeTensorPtrOp (ptr q) sh strs (offs[0 := acc]) ord"
    using ok op q by (auto simp: rewrittenOk_def)
  obtain a where a: "traced cx s a" "a \<in> operands (defOp s v)" and vv: "valid s v" using us by (auto simp: userOf_def)
  have sup: "supportedOp cx s a v" by (rule pointerProgramD(7) [OF p a(1) vv a(2)])
  then have ba: "base = a" "\<exists>e. tyOf s base = PtrTy e" "offs \<noteq> []" using op by (auto simp: supportedOp_def)
  have same: "eval E' t b = eval E s b" if "b \<in> set offs \<union> set strs" for b
  proof -
    have "b \<in> operands (defOp s v)" "b \<noteq> base" using that op nb by auto
    then show ?thesis using eval_unaffected [OF un wf l] rel by (auto simp: related_def)
  qed
  have h: "eval E' t (hd offs) = eval E s (hd offs)" "eval E' t (hd strs) = eval E s (hd strs)" using same ba(3) len(1) by simp_all
  have "blockSum (\<lambda>v. eval E' t v []) (offs[0 := acc]) strs idx =
      blockSum (\<lambda>v. eval E' t v []) offs strs idx + eval E' t (offset q) [] * eval E s (hd strs) []"
    using blockSum_update [OF ba(3) len, of "\<lambda>v. eval E' t v []" acc] q'(1) h fit by (simp add: sumOf_def)
  also have "blockSum (\<lambda>v. eval E' t v []) offs strs idx = blockSum (\<lambda>v. eval E s v []) offs strs idx"
    by (rule blockSum_cong) (use same in simp)
  finally have sum: "blockSum (\<lambda>v. eval E' t v []) (offs[0 := acc]) strs idx =
      blockSum (\<lambda>v. eval E s v []) offs strs idx + eval E' t (offset q) [] * eval E s (hd strs) []" .
  obtain e where e: "tyOf s base = PtrTy e" using ba(2) by blast
  have b: "w64 (eval E s base []) = w64 (eval E' t (ptr q) []) + w64 (byteSize (pointee (tyOf s v))) * w64 (eval E' t (offset q) [])"
    using base_address [OF p f q rel e] ty(2) e by simp
  have "w64 (eval E s v idx) = w64 (eval E s base [] + byteSize (pointee (tyOf s v)) * blockSum (\<lambda>v. eval E s v []) offs strs idx)"
    using eval_unfold [OF wf vv, of E] op norm_pointers [OF ty(1)] by (simp add: denOp_def)
  moreover have "w64 (eval E' t w idx) =
      w64 (eval E' t (ptr q) [] + byteSize (pointee (tyOf s v)) * blockSum (\<lambda>v. eval E' t v []) (offs[0 := acc]) strs idx)"
    using eval_unfold [OF wft q'(3), of E'] q'(2,4) norm_pointers [OF ty(1)] by (simp add: denOp_def)
  ultimately show ?thesis using b sum by (simp add: w64_ring algebra_simps)
qed

end
