(* ===== verification/Claims_Unstructured.thy ===== *)
theory Claims_Unstructured
  imports Unstructured_Main Demo
begin

text \<open>
  The properties of \<open>TritonToUnstructured\<close>, with an instance of each on \<open>uDemo\<close>: a loop that loads
  through a pointer it carries, a store, and a load through the pointer the loop returns.
\<close>

section \<open>The program\<close>

definition uDemo :: ir where
  "uDemo = \<lparr>ops = [
     (BlockArg None, PtrTy (FloatTy 32)),
     (BlockArg None, PtrTy (FloatTy 32)),
     (MakeRangeOp 0 4, TensorTy [4] (IntTy 32)),
     (SplatOp 0, TensorTy [4] (PtrTy (FloatTy 32))),
     (AddPtrOp 3 2, TensorTy [4] (PtrTy (FloatTy 32))),
     (BlockArg (Some 0), TensorTy [4] (PtrTy (FloatTy 32))),
     (LoadOp 5 None None [] None, TensorTy [4] (FloatTy 32)),
     (SplatOp 1, TensorTy [4] (PtrTy (FloatTy 32))),
     (AddPtrOp 7 2, TensorTy [4] (PtrTy (FloatTy 32))),
     (StoreOp 8 6 None [], NoneTy),
     (ConstantOp (DenseElementsAttr (Some (IntegerAttr 4 (IntTy 32))) (IntTy 32)), TensorTy [4] (IntTy 32)),
     (AddPtrOp 5 10, TensorTy [4] (PtrTy (FloatTy 32))),
     (ForResultOp 0 0, TensorTy [4] (PtrTy (FloatTy 32))),
     (ConstantOp (DenseElementsAttr (Some (IntegerAttr 1 (IntTy 64))) (IntTy 64)), TensorTy [4] (IntTy 64)),
     (AddPtrOp 12 13, TensorTy [4] (PtrTy (FloatTy 32))),
     (LoadOp 14 None None [] None, TensorTy [4] (FloatTy 32))],
   fors = [\<lparr>initArgs = [4], iterArgs = [5], results = [12], parentFor = None\<rparr>]\<rparr>"

definition uCx :: pass_context where
  "uCx = \<lparr>funcArgs = [0, 1], insideIf = (\<lambda>_. False), useOrder = rev, defaultBitWidth = 32\<rparr>"

definition uE :: env where
  "uE v idx = (if v = 0 then 4096 else if v = 1 then 8192 else if v = 5 \<or> v = 12 then 4096 + 4 * (4 + hd idx) else 0)"

definition uE' :: env where
  "uE' v idx = (if v = 5 \<or> v = 12 then 4 + hd idx else uE v idx)"

lemma uDemo_wf: "wf_ir uDemo"
  by (simp add: wf_ir_enumerate uDemo_def)

lemma uDemo_valid [simp]: "valid uDemo v \<longleftrightarrow> v < 16"
  by (simp add: valid_def uDemo_def) arith

lemma uDemo_ops [simp]:
  "defOp uDemo 0 = BlockArg None" "tyOf uDemo 0 = PtrTy (FloatTy 32)"
  "defOp uDemo (Suc 0) = BlockArg None" "tyOf uDemo (Suc 0) = PtrTy (FloatTy 32)"
  "defOp uDemo 2 = MakeRangeOp 0 4" "tyOf uDemo 2 = TensorTy [4] (IntTy 32)"
  "defOp uDemo 3 = SplatOp 0" "tyOf uDemo 3 = TensorTy [4] (PtrTy (FloatTy 32))"
  "defOp uDemo 4 = AddPtrOp 3 2" "tyOf uDemo 4 = TensorTy [4] (PtrTy (FloatTy 32))"
  "defOp uDemo 5 = BlockArg (Some 0)" "tyOf uDemo 5 = TensorTy [4] (PtrTy (FloatTy 32))"
  "defOp uDemo 6 = LoadOp 5 None None [] None" "tyOf uDemo 6 = TensorTy [4] (FloatTy 32)"
  "defOp uDemo 7 = SplatOp 1" "tyOf uDemo 7 = TensorTy [4] (PtrTy (FloatTy 32))"
  "defOp uDemo 8 = AddPtrOp 7 2" "tyOf uDemo 8 = TensorTy [4] (PtrTy (FloatTy 32))"
  "defOp uDemo 9 = StoreOp 8 6 None []" "tyOf uDemo 9 = NoneTy"
  "defOp uDemo 10 = ConstantOp (DenseElementsAttr (Some (IntegerAttr 4 (IntTy 32))) (IntTy 32))"
  "tyOf uDemo 10 = TensorTy [4] (IntTy 32)"
  "defOp uDemo 11 = AddPtrOp 5 10" "tyOf uDemo 11 = TensorTy [4] (PtrTy (FloatTy 32))"
  "defOp uDemo 12 = ForResultOp 0 0" "tyOf uDemo 12 = TensorTy [4] (PtrTy (FloatTy 32))"
  "defOp uDemo 13 = ConstantOp (DenseElementsAttr (Some (IntegerAttr 1 (IntTy 64))) (IntTy 64))"
  "tyOf uDemo 13 = TensorTy [4] (IntTy 64)"
  "defOp uDemo 14 = AddPtrOp 12 13" "tyOf uDemo 14 = TensorTy [4] (PtrTy (FloatTy 32))"
  "defOp uDemo 15 = LoadOp 14 None None [] None" "tyOf uDemo 15 = TensorTy [4] (FloatTy 32)"
  by (simp_all add: uDemo_def defOp_def tyOf_def entry_def)

lemma below16: "v < (16 :: nat) \<longleftrightarrow> v = 0 \<or> v = 1 \<or> v = 2 \<or> v = 3 \<or> v = 4 \<or> v = 5 \<or> v = 6 \<or> v = 7 \<or> v = 8 \<or>
    v = 9 \<or> v = 10 \<or> v = 11 \<or> v = 12 \<or> v = 13 \<or> v = 14 \<or> v = 15"
  by arith

lemma uDemo_fors [simp]: "fors uDemo = [\<lparr>initArgs = [4], iterArgs = [5], results = [12], parentFor = None\<rparr>]"
  by (simp add: uDemo_def)

lemma uDemo_len [simp]: "length (ops uDemo) = 16"
  by (simp add: uDemo_def)

lemma uCx_simps [simp]: "funcArgs uCx = [0, 1]" "insideIf uCx v = False" "useOrder uCx = rev" "defaultBitWidth uCx = 32"
  by (simp_all add: uCx_def)

lemma uDemo_args [simp]: "pointerArgs uCx uDemo = [0, 1]" "intToPtrs uDemo = []" "loopVals uDemo = {5, 12}"
proof -
  show "pointerArgs uCx uDemo = [0, 1]" by (simp add: pointerArgs_def isPtrTypeLike_def)
  show "intToPtrs uDemo = []" by (auto simp: intToPtrs_def filter_empty_conv below16)
  show "loopVals uDemo = {5, 12}" by (auto simp: loopVals_def)
qed

lemma uDemo_traced: "traced uCx uDemo v \<Longrightarrow> v \<in> {0, 1, 3, 4, 5, 7, 8, 11, 12, 14}"
proof (induction rule: traced.induct)
  case (step v w)
  have "w = 0 \<or> w = 1 \<or> w = 2 \<or> w = 3 \<or> w = 4 \<or> w = 5 \<or> w = 6 \<or> w = 7 \<or> w = 8 \<or>
    w = 9 \<or> w = 10 \<or> w = 11 \<or> w = 12 \<or> w = 13 \<or> w = 14 \<or> w = 15" using step(2) by (simp add: below16)
  then show ?case using step(3) by (elim disjE) simp_all
qed auto

lemma uDemo_supported:
  assumes "v \<in> {0, 1, 3, 4, 5, 7, 8, 11, 12, 14}" "w < 16" "v \<in> operands (defOp uDemo w)"
  shows "supportedOp uCx uDemo v w"
proof -
  have "w = 0 \<or> w = 1 \<or> w = 2 \<or> w = 3 \<or> w = 4 \<or> w = 5 \<or> w = 6 \<or> w = 7 \<or> w = 8 \<or>
    w = 9 \<or> w = 10 \<or> w = 11 \<or> w = 12 \<or> w = 13 \<or> w = 14 \<or> w = 15" using assms(2) by (simp add: below16)
  then show ?thesis using assms(1,3)
    by (elim disjE) (auto simp: supportedOp_def getPtrOffsetType_def pointsTo_def)
qed

lemma uDemo_program: "pointerProgram uCx uDemo"
  unfolding pointerProgram_def
proof (intro conjI allI ballI impI)
  show "loopsOk uDemo" by (auto simp: loopsOk_def)
next
  fix v w assume "traced uCx uDemo v" "valid uDemo w" "v \<in> operands (defOp uDemo w)"
  then show "supportedOp uCx uDemo v w" by (intro uDemo_supported uDemo_traced) simp_all
qed (auto simp: uDemo_wf supportedInit_def)

section \<open>The run\<close>

lemma processUnstructuredPtrs_ok:
  assumes "pointerProgram cx s" "length (ops s) \<le> n" "processUnstructuredPtrs cx n s = (Inr r, t)"
  shows "resultOk cx s r t"
  using wp_processUnstructuredPtrs [OF assms(1,2)] assms(3) by (auto simp: wp_def)

text \<open>The program after the pass, as a table: the offsets are the operations from 16 on.\<close>

definition uEnd :: ir where
  "uEnd = uDemo\<lparr>ops := (ops uDemo)[5 := (BlockArg (Some 0), TensorTy [4] (IntTy 32)),
       12 := (ForResultOp 0 0, TensorTy [4] (IntTy 32))] @ [
     (ConstantOp (IntegerAttr 0 (IntTy 32)), IntTy 32),
     (ConstantOp (IntegerAttr 0 (IntTy 32)), IntTy 32),
     (SplatOp 16, TensorTy [4] (IntTy 32)),
     (SplatOp 17, TensorTy [4] (IntTy 32)),
     (BinOp AddI 18 2, TensorTy [4] (IntTy 32)),
     (BinOp AddI 19 2, TensorTy [4] (IntTy 32)),
     (BinOp AddI 5 10, TensorTy [4] (IntTy 32)),
     (CastOp ExtSI 12, TensorTy [4] (IntTy 64)),
     (BinOp AddI 23 13, TensorTy [4] (IntTy 64)),
     (ScatterOp 1 21 6 None, NoneTy),
     (GatherOp 0 5 None None, TensorTy [4] (FloatTy 32)),
     (GatherOp 0 24 None None, TensorTy [4] (FloatTy 32))]\<rparr>"

definition uEntry :: "val \<Rightarrow> nat \<Rightarrow> val \<Rightarrow> val \<Rightarrow> ptr_offset" where
  "uEntry base w v off = \<lparr>ptr = base, ptrType = tyOf uDemo v, bitWidth = w, offset = off\<rparr>"

definition uOffsets :: "ptr_offset option list" where
  "uOffsets = [Some (uEntry 0 32 0 16), Some (uEntry 1 32 1 17), None, Some (uEntry 0 32 3 18), Some (uEntry 0 32 4 20),
     Some (uEntry 0 32 5 5), None, Some (uEntry 1 32 7 19), Some (uEntry 1 32 8 21), None, None,
     Some (uEntry 0 32 11 22), Some (uEntry 0 32 12 12), None, Some (uEntry 0 64 14 24), None]"

lemma uDemo_result:
  "case processUnstructuredPtrs uCx 16 uDemo of
     (Inr r, t) \<Rightarrow> t = uEnd \<and> map (offsetMap (final r)) [0..<16] = uOffsets \<and>
       rewrittenUsers r = [(15, 27), (6, 26), (9, 25)] \<and> updated r = []
   | _ \<Rightarrow> False"
  by code_simp

lemma uDemo_run:
  obtains r where "processUnstructuredPtrs uCx 16 uDemo = (Inr r, uEnd)" "resultOk uCx uDemo r uEnd"
    "\<And>v. v < 16 \<Longrightarrow> offsetMap (final r) v = uOffsets ! v" "rewrittenUsers r = [(15, 27), (6, 26), (9, 25)]"
proof -
  obtain r where r: "processUnstructuredPtrs uCx 16 uDemo = (Inr r, uEnd)"
      "map (offsetMap (final r)) [0..<16] = uOffsets" "rewrittenUsers r = [(15, 27), (6, 26), (9, 25)]"
    using uDemo_result by (auto split: prod.splits sum.splits)
  have "offsetMap (final r) v = uOffsets ! v" if "v < 16" for v
    using that by (simp flip: r(2))
  then show ?thesis by (intro that [OF r(1) processUnstructuredPtrs_ok [OF uDemo_program _ r(1)]] r(3)) simp_all
qed

lemma uOffsets_nth [simp]:
  "uOffsets ! 4 = Some (uEntry 0 32 4 20)" "uOffsets ! 3 = Some (uEntry 0 32 3 18)" "uOffsets ! 8 = Some (uEntry 1 32 8 21)"
  "uOffsets ! 7 = Some (uEntry 1 32 7 19)" "uOffsets ! 5 = Some (uEntry 0 32 5 5)" "uOffsets ! 11 = Some (uEntry 0 32 11 22)"
  "uOffsets ! 12 = Some (uEntry 0 32 12 12)" "uOffsets ! 14 = Some (uEntry 0 64 14 24)"
  by (simp_all add: uOffsets_def)

lemma inB4: "inB [4] idx \<longleftrightarrow> idx = [0] \<or> idx = [1] \<or> idx = [2] \<or> idx = [3]"
proof -
  have "inB [4] idx \<longleftrightarrow> (\<exists>i. idx = [i] \<and> 0 \<le> i \<and> i < 4)" by (auto simp: inB_def list_all2_Cons1)
  moreover have "0 \<le> i \<and> i < 4 \<longleftrightarrow> i = 0 \<or> i = 1 \<or> i = 2 \<or> i = 3" for i :: int by arith
  ultimately show ?thesis by auto
qed

lemma uDemo_retyped [simp]: "retyped uDemo = {5, 12}"
  by (auto simp: retyped_def isPtrTypeLike_def)

lemma uDemo_unaffected: "unaffected uDemo 2" "unaffected uDemo 6" "unaffected uDemo 10" "unaffected uDemo 13"
proof -
  show "unaffected uDemo 6" by (rule unaffected.opaque) (simp_all add: opaqueOp_def)
  show "unaffected uDemo 2" "unaffected uDemo 10" "unaffected uDemo 13" by (rule unaffected.made; simp)+
qed

lemma uDemo_agree: "agree uDemo uE uE'"
  by (simp add: agree_def uE'_def fun_eq_iff)

lemma uDemo_clean: "cleanOffsets uCx uDemo"
proof -
  have "unaffected uDemo d" if "traced uCx uDemo v" "defOp uDemo v = AddPtrOp a d" for v a d
    using uDemo_traced [OF that(1)] that(2) uDemo_unaffected by auto
  then show ?thesis by (simp add: cleanOffsets_def)
qed

lemma uDemo_fits:
  "\<forall>i \<in> {0, 1, 2, 3}. \<forall>(w, q, d) \<in> {(32, 18, 2), (32, 19, 2), (32, 5, 10), (64, 12, 13)}.
     wrap w (eval uE' uEnd q [i] + eval uE uDemo d [i]) = eval uE' uEnd q [i] + eval uE uDemo d [i]"
  by code_simp

lemma uDemo_loop:
  "\<forall>i \<in> {0, 1, 2, 3}. \<forall>v \<in> {5, 12}. w64 (eval uE uDemo v [i]) =
     w64 (eval uE' uEnd 0 []) + elemBytes (tyOf uDemo v) * w64 (eval uE' uEnd v [i])"
  by code_simp

lemma uDemo_dom:
  assumes "resultOk uCx uDemo r uEnd" "offsetMap (final r) v = Some p"
  shows "v \<in> {0, 1, 3, 4, 5, 7, 8, 11, 12, 14}"
proof -
  have "finished uCx uDemo (final r) uEnd" using assms(1) by (simp add: resultOk_def)
  then show ?thesis using finishedD(2) uDemo_traced assms(2) by blast
qed

lemma uDemo_offsetsFit:
  assumes r: "resultOk uCx uDemo r uEnd" and om: "\<And>v. v < 16 \<Longrightarrow> offsetMap (final r) v = uOffsets ! v"
    and fit: "\<forall>i \<in> {0, 1, 2, 3}. \<forall>(w, q, d) \<in> {(32, 18, 2), (32, 19, 2), (32, 5, 10), (64, 12, 13)}.
     wrap w (eval E' uEnd q [i] + eval E uDemo d [i]) = eval E' uEnd q [i] + eval E uDemo d [i]"
  shows "offsetsFit E uDemo E' uEnd (offsetMap (final r))"
  unfolding offsetsFit_def
proof (intro allI impI)
  fix v a d p q idx
  assume a: "defOp uDemo v = AddPtrOp a d" "offsetMap (final r) v = Some p" "offsetMap (final r) a = Some q"
    "inB (shapeOf (tyOf uDemo v)) idx"
  then have "v = 4 \<or> v = 8 \<or> v = 11 \<or> v = 14" using uDemo_dom [OF r a(2)] by auto
  then show "wrap (bitWidth p) (eval E' uEnd (offset q) idx + eval E uDemo d idx) = eval E' uEnd (offset q) idx + eval E uDemo d idx"
    using a fit om by (elim disjE) (auto simp: uEntry_def inB4)
qed

lemma uDemo_related:
  assumes r: "resultOk uCx uDemo r uEnd" and om: "\<And>v. v < 16 \<Longrightarrow> offsetMap (final r) v = uOffsets ! v"
  shows "related uCx uE uDemo uE' uEnd (offsetMap (final r))"
proof -
  have "splits uE uDemo uE' uEnd v p" if "v \<in> {5, 12}" "offsetMap (final r) v = Some p" for v p
    using that uDemo_loop om by (auto simp: splits_def uEntry_def inB4)
  then show ?thesis using uDemo_agree uDemo_clean uDemo_offsetsFit [OF r om uDemo_fits] by (simp add: related_def)
qed

text \<open>
  A kernel that moves its base by a scalar offset and makes a structured block and a block pointer
  from it, and turns it into an integer.
\<close>

definition uTile :: ir where
  "uTile = \<lparr>ops = [
     (BlockArg None, PtrTy (FloatTy 32)),
     (BlockArg None, IntTy 32),
     (AddPtrOp 0 1, PtrTy (FloatTy 32)),
     (BlockArg None, IndexTy),
     (TTSMakeTensorPtrOp 2 [4] [Attr (IntegerAttr 2 IndexTy)] [Val 3] [Attr (IntegerAttr 0 IndexTy)]
        [Attr (IntegerAttr 0 IndexTy)] [], TensorTy [4] (PtrTy (FloatTy 32))),
     (ConstantOp (IntegerAttr 128 (IntTy 64)), IntTy 64),
     (BlockArg None, IntTy 64),
     (BlockArg None, IntTy 32),
     (MakeTensorPtrOp 2 [5] [6] [7] [0], PtrTy (TensorTy [4] (FloatTy 32))),
     (PtrToIntOp 2, IntTy 64)], fors = []\<rparr>"

definition uTileCx :: pass_context where
  "uTileCx = \<lparr>funcArgs = [0, 1, 3, 6, 7], insideIf = (\<lambda>_. False), useOrder = rev, defaultBitWidth = 32\<rparr>"

definition uTileE :: env where
  "uTileE v idx = (if v = 0 then 4096 else if v = 1 then 10 else if v = 3 then 5 else if v = 6 then 64 else 0)"

definition uTileEnd :: ir where
  "uTileEnd = uTile\<lparr>ops := ops uTile @ [
     (ConstantOp (IntegerAttr 0 (IntTy 32)), IntTy 32),
     (BinOp AddI 10 1, IntTy 32),
     (AddPtrOp 0 11, PtrTy (FloatTy 32)),
     (PtrToIntOp 12, IntTy 64),
     (BinOp AddI 11 7, IntTy 32),
     (MakeTensorPtrOp 0 [5] [6] [14] [0], PtrTy (TensorTy [4] (FloatTy 32))),
     (CastOp IndexCast 11, IndexTy),
     (BinOp AddI 16 3, IndexTy),
     (TTSMakeTensorPtrOp 0 [4] [Attr (IntegerAttr 2 IndexTy)] [Val 17]
        [Attr (IntegerAttr 0 IndexTy)] [Attr (IntegerAttr 0 IndexTy)] [], TensorTy [4] (PtrTy (FloatTy 32)))]\<rparr>"

definition uTileEntry :: "val \<Rightarrow> ptr_offset" where
  "uTileEntry off = \<lparr>ptr = 0, ptrType = PtrTy (FloatTy 32), bitWidth = 32, offset = off\<rparr>"

lemma uTile_result:
  "case processUnstructuredPtrs uTileCx 10 uTile of
     (Inr r, t) \<Rightarrow> t = uTileEnd \<and> offsetMap (final r) 0 = Some (uTileEntry 10) \<and> offsetMap (final r) 2 = Some (uTileEntry 11) \<and>
       rewrittenUsers r = [(4, 18), (8, 15)] \<and> updated r = [(9, 13)]
   | _ \<Rightarrow> False"
  by code_simp

lemma uTile_wf: "wf_ir uTile"
proof -
  have "norm (IntTy 64) 128 = 128" by code_simp
  then show ?thesis by (simp add: wf_ir_enumerate uTile_def)
qed

lemma uTile_valid [simp]: "valid uTile v \<longleftrightarrow> v < 10"
  by (simp add: valid_def uTile_def) arith

lemma uTile_ops [simp]:
  "defOp uTile 0 = BlockArg None" "tyOf uTile 0 = PtrTy (FloatTy 32)"
  "defOp uTile (Suc 0) = BlockArg None" "tyOf uTile (Suc 0) = IntTy 32"
  "defOp uTile 2 = AddPtrOp 0 1" "tyOf uTile 2 = PtrTy (FloatTy 32)"
  "defOp uTile 3 = BlockArg None" "tyOf uTile 3 = IndexTy"
  "defOp uTile 4 = TTSMakeTensorPtrOp 2 [4] [Attr (IntegerAttr 2 IndexTy)] [Val 3] [Attr (IntegerAttr 0 IndexTy)]
     [Attr (IntegerAttr 0 IndexTy)] []" "tyOf uTile 4 = TensorTy [4] (PtrTy (FloatTy 32))"
  "defOp uTile 5 = ConstantOp (IntegerAttr 128 (IntTy 64))" "tyOf uTile 5 = IntTy 64"
  "defOp uTile 6 = BlockArg None" "tyOf uTile 6 = IntTy 64"
  "defOp uTile 7 = BlockArg None" "tyOf uTile 7 = IntTy 32"
  "defOp uTile 8 = MakeTensorPtrOp 2 [5] [6] [7] [0]" "tyOf uTile 8 = PtrTy (TensorTy [4] (FloatTy 32))"
  "defOp uTile 9 = PtrToIntOp 2" "tyOf uTile 9 = IntTy 64"
  by (simp_all add: uTile_def defOp_def tyOf_def entry_def)

lemma uTile_fors [simp]: "fors uTile = []" "length (ops uTile) = 10"
  by (simp_all add: uTile_def)

lemma uTileCx_simps [simp]:
  "funcArgs uTileCx = [0, 1, 3, 6, 7]" "insideIf uTileCx v = False" "useOrder uTileCx = rev" "defaultBitWidth uTileCx = 32"
  by (simp_all add: uTileCx_def)

lemma below10: "v < (10 :: nat) \<longleftrightarrow> v = 0 \<or> v = 1 \<or> v = 2 \<or> v = 3 \<or> v = 4 \<or> v = 5 \<or> v = 6 \<or> v = 7 \<or> v = 8 \<or> v = 9"
  by arith

lemma uTile_args [simp]: "pointerArgs uTileCx uTile = [0]" "intToPtrs uTile = []" "loopVals uTile = {}" "retyped uTile = {}"
proof -
  show "pointerArgs uTileCx uTile = [0]" by (simp add: pointerArgs_def isPtrTypeLike_def)
  show "intToPtrs uTile = []" by (auto simp: intToPtrs_def filter_empty_conv below10)
  show "loopVals uTile = {}" "retyped uTile = {}" by (auto simp: loopVals_def retyped_def)
qed

lemma uTile_traced: "traced uTileCx uTile v \<Longrightarrow> v \<in> {0, 2}"
proof (induction rule: traced.induct)
  case (step v w)
  have "w = 0 \<or> w = 1 \<or> w = 2 \<or> w = 3 \<or> w = 4 \<or> w = 5 \<or> w = 6 \<or> w = 7 \<or> w = 8 \<or> w = 9"
    using step(2) by (simp add: below10)
  then show ?case using step(3) by (elim disjE) simp_all
qed auto

lemma uTile_supported:
  assumes "v \<in> {0, 2}" "w < 10" "v \<in> operands (defOp uTile w)"
  shows "supportedOp uTileCx uTile v w"
proof -
  have "w = 0 \<or> w = 1 \<or> w = 2 \<or> w = 3 \<or> w = 4 \<or> w = 5 \<or> w = 6 \<or> w = 7 \<or> w = 8 \<or> w = 9"
    using assms(2) by (simp add: below10)
  then show ?thesis using assms(1,3)
    by (elim disjE) (auto simp: supportedOp_def getPtrOffsetType_def firstDynamic_def)
qed

lemma uTile_program: "pointerProgram uTileCx uTile"
  unfolding pointerProgram_def
proof (intro conjI allI ballI impI)
  show "loopsOk uTile" by (simp add: loopsOk_def)
next
  fix v w assume "traced uTileCx uTile v" "valid uTile w" "v \<in> operands (defOp uTile w)"
  then show "supportedOp uTileCx uTile v w" by (intro uTile_supported uTile_traced) simp_all
qed (auto simp: uTile_wf)

lemma uTile_run:
  obtains r where "processUnstructuredPtrs uTileCx 10 uTile = (Inr r, uTileEnd)" "resultOk uTileCx uTile r uTileEnd"
    "offsetMap (final r) 0 = Some (uTileEntry 10)" "offsetMap (final r) 2 = Some (uTileEntry 11)"
    "rewrittenUsers r = [(4, 18), (8, 15)]" "updated r = [(9, 13)]"
proof -
  obtain r where r: "processUnstructuredPtrs uTileCx 10 uTile = (Inr r, uTileEnd)"
      "offsetMap (final r) 0 = Some (uTileEntry 10)" "offsetMap (final r) 2 = Some (uTileEntry 11)"
      "rewrittenUsers r = [(4, 18), (8, 15)]" "updated r = [(9, 13)]"
    using uTile_result by (auto split: prod.splits sum.splits)
  show ?thesis by (rule that [OF r(1) processUnstructuredPtrs_ok [OF uTile_program _ r(1)] r(2-5)]) simp
qed

lemma uTile_unaffected: "v \<in> {0, 1, 3, 5, 6, 7} \<Longrightarrow> unaffected uTile v"
  by (auto intro: unaffected.opaque unaffected.made simp: opaqueOp_def)

lemma uTile_fits: "wrap 32 (eval uTileE uTileEnd 10 [] + eval uTileE uTile 1 []) = eval uTileE uTileEnd 10 [] + eval uTileE uTile 1 []"
  by code_simp

lemma uTile_related:
  assumes r: "resultOk uTileCx uTile r uTileEnd"
    and om: "offsetMap (final r) 0 = Some (uTileEntry 10)" "offsetMap (final r) 2 = Some (uTileEntry 11)"
  shows "related uTileCx uTileE uTile uTileE uTileEnd (offsetMap (final r))"
proof -
  have f: "finished uTileCx uTile (final r) uTileEnd" using r by (simp add: resultOk_def)
  have dom: "v = 0 \<or> v = 2" if "offsetMap (final r) v = Some p" for v p
    using finishedD(2) [OF f] uTile_traced that by blast
  have "offsetsFit uTileE uTile uTileE uTileEnd (offsetMap (final r))"
    unfolding offsetsFit_def
  proof (intro allI impI)
    fix v a d p q idx
    assume a: "defOp uTile v = AddPtrOp a d" "offsetMap (final r) v = Some p" "offsetMap (final r) a = Some q"
      "inB (shapeOf (tyOf uTile v)) idx"
    have "v = 2" using dom [OF a(2)] a(1) by auto
    then show "wrap (bitWidth p) (eval uTileE uTileEnd (offset q) idx + eval uTileE uTile d idx) =
        eval uTileE uTileEnd (offset q) idx + eval uTileE uTile d idx"
      using a om uTile_fits by (auto simp: uTileEntry_def inB_def)
  qed
  moreover have "unaffected uTile d" if "traced uTileCx uTile v" "defOp uTile v = AddPtrOp a d" for v a d
    using uTile_traced [OF that(1)] that(2) uTile_unaffected [of 1] by auto
  then have "cleanOffsets uTileCx uTile" by (simp add: cleanOffsets_def)
  ultimately show ?thesis by (simp add: related_def agree_def)
qed

section \<open>Termination\<close>

text \<open>C31: on every program whose pointers are used only by operations that the pass supports (bitcasts between
  elements of one size, additions of offsets of the shape of the pointer and inside a conditional only
  to kernel arguments, structured pointers on a moved base only with a dynamic offset, and no select
  of two pointers, which it processes twice, see below), the pass returns once the work list has taken off as many values as the program has, or fewer: it has an entry for exactly the
  pointers that come from a kernel argument or an integer, it has rewritten every load, store and
  block pointer made from one of them once, and it erases every pointer operation once.\<close>

theorem processUnstructuredPtrs_total:
  assumes "pointerProgram cx s" and "length (ops s) \<le> n"
  shows "\<exists>r t. processUnstructuredPtrs cx n s = (Inr r, t) \<and> dom (offsetMap (final r)) = {v. traced cx s v} \<and>
    distinct (map fst (rewrittenUsers r)) \<and> fst ` set (rewrittenUsers r) = {w. userOf cx s w} \<and>
    distinct (map fst (erased r)) \<and> fst ` set (erased r) = {w. traced cx s w \<and> derives (defOp s w)}"
proof -
  obtain r t where r: "processUnstructuredPtrs cx n s = (Inr r, t)" "resultOk cx s r t"
    using wp_processUnstructuredPtrs [OF assms] by (auto simp: wp_def)
  then have f: "finished cx s (final r) t" and m: "map fst (rewrittenUsers r) = rev (ptrUsers (final r))"
      "map fst (erased r) = rev (toDelete (final r))" by (simp_all add: resultOk_def)
  have "fst ` set xs = set (map fst xs)" for xs :: "(val \<times> val) list" by simp
  then show ?thesis using r(1) finishedD(2-6) [OF f] m by (metis distinct_rev set_rev)
qed

theorem processUnstructuredPtrs_total_witness:
  "\<exists>r t. processUnstructuredPtrs uCx 16 uDemo = (Inr r, t) \<and> dom (offsetMap (final r)) = {v. traced uCx uDemo v} \<and>
    distinct (map fst (rewrittenUsers r)) \<and> fst ` set (rewrittenUsers r) = {w. userOf uCx uDemo w} \<and>
    distinct (map fst (erased r)) \<and> fst ` set (erased r) = {w. traced uCx uDemo w \<and> derives (defOp uDemo w)}"
  by (rule processUnstructuredPtrs_total [OF uDemo_program]) simp

section \<open>Addresses\<close>

text \<open>C32: a pointer is its base plus its offset in elements: the entry of every pointer the pass has met
  gives the address the pointer has in the program at the start, and the offset has the shape of the
  pointer and the width of the entry, so long as the loop values carry the offset of the pointer they
  carried and no sum of offsets leaves its width.\<close>

theorem offsets_correct:
  assumes "pointerProgram cx s" and "length (ops s) \<le> n" and "processUnstructuredPtrs cx n s = (Inr r, t)"
    and "related cx E s E' t (offsetMap (final r))" and "offsetMap (final r) v = Some p" and "inB (shapeOf (tyOf s v)) idx"
  shows "elementAddr E' t (ptr p) (offset p) idx = eval E s v idx \<and>
    getPtrOffsetType (tyOf s v) (bitWidth p) = Some (tyOf t (offset p))"
proof -
  have f: "finished cx s (final r) t" using processUnstructuredPtrs_ok [OF assms(1-3)] by (simp add: resultOk_def)
  have "elementAddr E' t (ptr p) (offset p) idx = eval E s v idx"
    by (rule splits_address [OF assms(1) f assms(5) related_splits [OF assms(1) f assms(4,5)] assms(6)])
  then show ?thesis using stateOkD(5) [OF finishedD(1) [OF f] assms(5)] by (simp add: wellTyped_def)
qed

theorem offsets_correct_witness: "elementAddr uE' uEnd 0 24 [3] = eval uE uDemo 14 [3]"
proof -
  obtain r where r: "processUnstructuredPtrs uCx 16 uDemo = (Inr r, uEnd)" "resultOk uCx uDemo r uEnd"
      "\<And>v. v < 16 \<Longrightarrow> offsetMap (final r) v = uOffsets ! v"
    using uDemo_run by metis
  have "offsetMap (final r) 14 = Some (uEntry 0 64 14 24)" using r(3) by simp
  from offsets_correct [OF uDemo_program _ r(1) uDemo_related [OF r(2,3)] this, of "[3]"]
  show ?thesis by (simp add: uEntry_def inB_def)
qed

section \<open>Accesses\<close>

text \<open>The operation \<open>w\<close> of \<open>t\<close> touches the same elements as the load or store \<open>v\<close> of \<open>s\<close>.\<close>

definition sameAccess :: "(int \<Rightarrow> int) \<Rightarrow> (int list \<Rightarrow> int) \<Rightarrow> env \<Rightarrow> ir \<Rightarrow> val \<Rightarrow> env \<Rightarrow> ir \<Rightarrow> val \<Rightarrow> bool" where
  "sameAccess mem junk E s v E' t w = (case defOp s v of
     LoadOp p m oth bc pad \<Rightarrow> (\<forall>idx. inB (shapeOf (tyOf s p)) idx \<longrightarrow>
       gatherSem mem junk E' t (defOp t w) idx = loadSem mem junk E s (defOp s v) idx)
   | StoreOp p x m bc \<Rightarrow> (\<forall>idx. inB (shapeOf (tyOf s p)) idx \<longrightarrow>
       scatterSem E' t (defOp t w) idx = storeSem E s (defOp s v) idx)
   | _ \<Rightarrow> True)"

text \<open>C33: every \<open>tt.load\<close> through a traced pointer becomes a \<open>tts.gather\<close> that reads the same addresses
  where the mask is set and gives the same \<open>other\<close> elsewhere, and every \<open>tt.store\<close> a \<open>tts.scatter\<close>
  that writes the same values to the same addresses.\<close>

theorem accesses_correct:
  assumes "pointerProgram cx s" and "length (ops s) \<le> n" and "processUnstructuredPtrs cx n s = (Inr r, t)"
    and "related cx E s E' t (offsetMap (final r))" and "(v, w) \<in> set (rewrittenUsers r)" and "cleanAccess s v"
  shows "sameAccess mem junk E s v E' t w"
proof -
  note acc = rewritten_access [OF assms(1) processUnstructuredPtrs_ok [OF assms(1-3)] assms(4-6)]
  show ?thesis using acc(1) acc(2) by (cases "defOp s v") (simp_all add: sameAccess_def)
qed

theorem accesses_correct_witness:
  "\<forall>mem junk. sameAccess mem junk uE uDemo 15 uE' uEnd 27 \<and> sameAccess mem junk uE uDemo 9 uE' uEnd 25"
proof (intro allI)
  fix mem junk
  obtain r where r: "processUnstructuredPtrs uCx 16 uDemo = (Inr r, uEnd)" "resultOk uCx uDemo r uEnd"
      "\<And>v. v < 16 \<Longrightarrow> offsetMap (final r) v = uOffsets ! v" "rewrittenUsers r = [(15, 27), (6, 26), (9, 25)]"
    using uDemo_run by metis
  note acc = accesses_correct [OF uDemo_program _ r(1) uDemo_related [OF r(2,3)]]
  show "sameAccess mem junk uE uDemo 15 uE' uEnd 27 \<and> sameAccess mem junk uE uDemo 9 uE' uEnd 25"
    using acc [of 15 27 mem junk] acc [of 9 25 mem junk] r(4) uDemo_unaffected by (simp add: cleanAccess_def)
qed

section \<open>Block pointers and integers\<close>

text \<open>C35: a \<open>tts.make_tptr\<close> on a moved base, rewritten to the kernel argument with the distance added to
  its first dynamic offset, has the same addresses when that dimension does not wrap around, that is
  when its shape is 0 or the pointer is a block pointer.\<close>

theorem structured_base_correct:
  assumes "pointerProgram cx s" and "length (ops s) \<le> n" and "processUnstructuredPtrs cx n s = (Inr r, t)"
    and "related cx E s E' t (offsetMap (final r))" and "(v, w) \<in> set (rewrittenUsers r)"
    and "defOp s v = TTSMakeTensorPtrOp base szs strs offs orig sh ord"
    and "\<And>a. a \<in> operands (defOp s v) \<Longrightarrow> a \<noteq> base \<Longrightarrow> unaffected s a"
    and "isPtrTypeLike (tyOf s v)" and "byteSize (pointee (tyOf s v)) = byteSize (pointee (tyOf s base))"
    and "length strs = length offs" and "length sh = length offs" and "length idx = length offs"
    and "firstDynamic offs = Some (i, c)" and "ord = [] \<longrightarrow> osem E s (sh ! i) = 0"
    and "base \<notin> \<Union> (ofrVals ` (set offs \<union> set strs \<union> set sh))"
  shows "w64 (eval E' t w idx) = w64 (eval E s v idx)"
  by (rule rewritten_tptr [OF assms(1) processUnstructuredPtrs_ok [OF assms(1-3)] assms(4-15)])

theorem structured_base_correct_witness: "w64 (eval uTileE uTileEnd 18 [3]) = w64 (eval uTileE uTile 4 [3])"
proof -
  obtain r where r: "processUnstructuredPtrs uTileCx 10 uTile = (Inr r, uTileEnd)" "resultOk uTileCx uTile r uTileEnd"
      "offsetMap (final r) 0 = Some (uTileEntry 10)" "offsetMap (final r) 2 = Some (uTileEntry 11)"
      "rewrittenUsers r = [(4, 18), (8, 15)]"
    using uTile_run by metis
  show ?thesis
    by (rule structured_base_correct [OF uTile_program _ r(1) uTile_related [OF r(2-4)], of 4 18 2 "[4]"
        "[Attr (IntegerAttr 2 IndexTy)]" "[Val 3]" "[Attr (IntegerAttr 0 IndexTy)]" "[Attr (IntegerAttr 0 IndexTy)]" "[]" _ 0 3])
      (use uTile_unaffected r(5) in \<open>auto simp: isPtrTypeLike_def firstDynamic_def osem_def ofrSem_def\<close>)
qed

text \<open>In a dimension that wraps around the distance is reduced with the offset: with a shape of 16 the element 3
  moves from the address 4180 to 4116.\<close>

definition wTile :: ir where
  "wTile = uTile\<lparr>ops := (ops uTile)[4 := (TTSMakeTensorPtrOp 2 [4] [Attr (IntegerAttr 2 IndexTy)] [Val 3] [Attr (IntegerAttr 0 IndexTy)]
     [Attr (IntegerAttr 16 IndexTy)] [], TensorTy [4] (PtrTy (FloatTy 32)))]\<rparr>"

theorem wrapping_base_moves:
  "case processUnstructuredPtrs uTileCx 10 wTile of
     (Inr r, t) \<Rightarrow> rewrittenUsers r = [(4, 18), (8, 15)] \<and> w64 (eval uTileE wTile 4 [3]) = 4180 \<and> w64 (eval uTileE t 18 [3]) = 4116
   | _ \<Rightarrow> False"
  by code_simp

text \<open>The block pointer that replaces a \<open>tt.make_tensor_ptr\<close> on a moved base is off by the distance of
  the base times the first stride less one: the code adds the distance, which counts elements, to the
  first offset, which counts rows.  The addresses are the same when the first stride is one.\<close>

theorem block_pointer_base:
  assumes "pointerProgram cx s" and "length (ops s) \<le> n" and "processUnstructuredPtrs cx n s = (Inr r, t)"
    and "related cx E s E' t (offsetMap (final r))" and "(v, w) \<in> set (rewrittenUsers r)"
    and "defOp s v = MakeTensorPtrOp base sh strs offs ord"
    and "\<And>a. a \<in> operands (defOp s v) \<Longrightarrow> a \<noteq> base \<Longrightarrow> unaffected s a" and "base \<notin> set offs \<union> set strs"
    and "isPtrTypeLike (tyOf s v)" and "byteSize (pointee (tyOf s v)) = byteSize (pointee (tyOf s base))"
    and "strs \<noteq> []" and "idx \<noteq> []" and "offsetMap (final r) base = Some q"
    and "norm (tyOf s (hd offs)) (eval E' t (offset q) [] + eval E s (hd offs) []) = eval E' t (offset q) [] + eval E s (hd offs) []"
  shows "w64 (eval E' t w idx) = w64 (eval E s v idx) +
    w64 (byteSize (pointee (tyOf s v)) * eval E' t (offset q) [] * (eval E s (hd strs) [] - 1))"
  by (rule rewritten_block_ptr [OF assms(1) processUnstructuredPtrs_ok [OF assms(1-3)] assms(4-14)])

theorem block_pointer_base_witness:
  "w64 (eval uTileE uTileEnd 15 [3]) = w64 (eval uTileE uTile 8 [3]) + w64 (4 * 10 * (64 - 1))"
proof -
  obtain r where r: "processUnstructuredPtrs uTileCx 10 uTile = (Inr r, uTileEnd)" "resultOk uTileCx uTile r uTileEnd"
      "offsetMap (final r) 0 = Some (uTileEntry 10)" "offsetMap (final r) 2 = Some (uTileEntry 11)"
      "rewrittenUsers r = [(4, 18), (8, 15)]"
    using uTile_run by metis
  have e: "eval uTileE uTileEnd 11 [] = 10" "eval uTileE uTile 7 [] = 0" "eval uTileE uTile 6 [] = 64" "norm (IntTy 32) 10 = 10"
    by code_simp+
  have "w64 (eval uTileE uTileEnd 15 [3]) = w64 (eval uTileE uTile 8 [3]) +
      w64 (byteSize (pointee (tyOf uTile 8)) * eval uTileE uTileEnd (offset (uTileEntry 11)) [] * (eval uTileE uTile (hd [6]) [] - 1))"
    by (rule block_pointer_base [OF uTile_program _ r(1) uTile_related [OF r(2-4)], of 8 15 2 "[5]" "[6]" "[7]" "[0]"])
      (use uTile_unaffected r(4,5) e in \<open>auto simp: isPtrTypeLike_def uTileEntry_def\<close>)
  then show ?thesis by (simp add: uTileEntry_def e)
qed

text \<open>A \<open>tt.ptr_to_int\<close>, and a \<open>tts.load\<close> or \<open>tts.store\<close> of a scalar pointer, is given a fresh pointer
  with the address of the pointer it had.\<close>

theorem updated_pointer_correct:
  assumes "pointerProgram cx s" and "length (ops s) \<le> n" and "processUnstructuredPtrs cx n s = (Inr r, t)"
    and "related cx E s E' t (offsetMap (final r))" and "(v, w) \<in> set (updated r)"
    and "pointerOperand (defOp s v) = Some a" and "tyOf s a = PtrTy e"
  shows "\<exists>m. defOp t w = setPointer (defOp s v) m \<and> tyOf t m = PtrTy e \<and> eval E' t m [] = eval E s a []"
  by (rule updated_pointer [OF assms(1) processUnstructuredPtrs_ok [OF assms(1-3)] assms(4-7)])

theorem updated_pointer_correct_witness:
  "\<exists>m. defOp uTileEnd 13 = PtrToIntOp m \<and> tyOf uTileEnd m = PtrTy (FloatTy 32) \<and> eval uTileE uTileEnd m [] = eval uTileE uTile 2 []"
proof -
  obtain r where r: "processUnstructuredPtrs uTileCx 10 uTile = (Inr r, uTileEnd)" "resultOk uTileCx uTile r uTileEnd"
      "offsetMap (final r) 0 = Some (uTileEntry 10)" "offsetMap (final r) 2 = Some (uTileEntry 11)" "updated r = [(9, 13)]"
    using uTile_run by metis
  show ?thesis
    using updated_pointer_correct [OF uTile_program _ r(1) uTile_related [OF r(2-4)], of 9 13 2 "FloatTy 32"] r(5)
    by (simp add: pointerOperand_def setPointer_def)
qed

section \<open>Loops\<close>

text \<open>
  One step of the two programs: a loop value stays, or takes the value of its init argument or of a
  yielded pointer on the same base, while the integer that stands for it takes the offset.
\<close>

definition carriedFrom :: "ir \<Rightarrow> (val \<Rightarrow> ptr_offset option) \<Rightarrow> val \<Rightarrow> val \<Rightarrow> bool" where
  "carriedFrom s om y v \<longleftrightarrow> loopInit s y v \<or>
     (tyOf s y = tyOf s v \<and> (\<exists>p q. om y = Some q \<and> om v = Some p \<and> ptr q = ptr p))"

definition loopStep :: "ir \<Rightarrow> ir \<Rightarrow> (val \<Rightarrow> ptr_offset option) \<Rightarrow> env \<times> env \<Rightarrow> env \<times> env \<Rightarrow> bool" where
  "loopStep s t om = (\<lambda>(E, E') (F, F'). agree s F F' \<and> offsetsFit F s F' t om \<and>
     (\<forall>v p. om v = Some p \<longrightarrow> eval F' t (ptr p) [] = eval E' t (ptr p) []) \<and>
     (\<forall>v \<in> loopVals s. \<exists>y. (y = v \<or> carriedFrom s om y v) \<and> (\<forall>idx. inB (shapeOf (tyOf s v)) idx \<longrightarrow>
        eval F s v idx = eval E s y idx \<and> (\<forall>q. om y = Some q \<longrightarrow> eval F' t v idx = eval E' t (offset q) idx))))"

lemma loopInit_unique:
  assumes "loopsOk s" "loopInit s a v" "loopInit s b v"
  shows "a = b"
proof -
  have "loopInit s x v \<Longrightarrow> \<exists>f i. f < length (fors s) \<and> i < length (initArgs (fors s ! f)) \<and> x = initArgs (fors s ! f) ! i \<and>
      (v = iterArgs (fors s ! f) ! i \<or> v = results (fors s ! f) ! i)" for x
    by (auto simp: loopInit_def)
  then obtain f i g j where f: "f < length (fors s)" "i < length (initArgs (fors s ! f))" "a = initArgs (fors s ! f) ! i"
      "v = iterArgs (fors s ! f) ! i \<or> v = results (fors s ! f) ! i"
    and g: "g < length (fors s)" "j < length (initArgs (fors s ! g))" "b = initArgs (fors s ! g) ! j"
      "v = iterArgs (fors s ! g) ! j \<or> v = results (fors s ! g) ! j"
    using assms(2,3) by metis
  show ?thesis using f(3,4) g(3,4) distinct_loopVals [OF assms(1) f(1,2) g(1,2)] distinct_loopVals [OF assms(1) g(1,2) f(1,2)] by metis
qed

lemma carried_base:
  assumes p: "pointerProgram cx s" and f: "finished cx s u t" and v: "offsetMap u v = Some p" "v \<in> loopVals s"
    and y: "y = v \<or> carriedFrom s (offsetMap u) y v"
  obtains q where "offset p = v" "offsetMap u y = Some q" "ptr q = ptr p" "tyOf s y = tyOf s v"
proof -
  note st = finishedD(1) [OF f] and lo = pointerProgramD(2) [OF p]
  have "\<not> derives (defOp s v)" using loopVals_valid [OF lo v(2)] by (cases "defOp s v") auto
  then obtain a q where a: "offset p = v" "loopInit s a v" "offsetMap u a = Some q" "ptr p = ptr q"
    using stateOkD(4) [OF st v(1)] v(2) by (auto simp: entryOk_def originates_def)
  have "tyOf s a = tyOf s v"
    using a(2) pointerProgramD(8) [OF p] stateOkD(3) [OF st a(3)] by (auto simp: loopInit_def supportedInit_def)
  have "y = v \<or> y = a \<or> tyOf s y = tyOf s v \<and> (\<exists>q. offsetMap u y = Some q \<and> ptr q = ptr p)"
    using y v(1) loopInit_unique [OF lo a(2)] by (auto simp: carriedFrom_def)
  then show ?thesis using that [OF a(1)] a v(1) \<open>tyOf s a = tyOf s v\<close> by auto
qed

lemma loopStep_related:
  assumes p: "pointerProgram cx s" and f: "finished cx s u t" and rel: "related cx E s E' t (offsetMap u)"
    and st: "loopStep s t (offsetMap u) (E, E') (F, F')"
  shows "related cx F s F' t (offsetMap u)"
proof -
  have a: "agree s F F'" "offsetsFit F s F' t (offsetMap u)"
      "\<And>v p. offsetMap u v = Some p \<Longrightarrow> eval F' t (ptr p) [] = eval E' t (ptr p) []"
      "\<And>v. v \<in> loopVals s \<Longrightarrow> \<exists>y. (y = v \<or> carriedFrom s (offsetMap u) y v) \<and> (\<forall>idx. inB (shapeOf (tyOf s v)) idx \<longrightarrow>
        eval F s v idx = eval E s y idx \<and> (\<forall>q. offsetMap u y = Some q \<longrightarrow> eval F' t v idx = eval E' t (offset q) idx))"
    using st unfolding loopStep_def by blast+
  have "splits F s F' t v p" if v: "v \<in> loopVals s" "offsetMap u v = Some p" for v p
  proof -
    obtain y where y: "y = v \<or> carriedFrom s (offsetMap u) y v" "\<And>idx. inB (shapeOf (tyOf s v)) idx \<Longrightarrow> eval F s v idx = eval E s y idx"
        "\<And>q idx. inB (shapeOf (tyOf s v)) idx \<Longrightarrow> offsetMap u y = Some q \<Longrightarrow> eval F' t v idx = eval E' t (offset q) idx"
      using a(4) [OF v(1)] by blast
    obtain q where q: "offset p = v" "offsetMap u y = Some q" "ptr q = ptr p" "tyOf s y = tyOf s v"
      by (rule carried_base [OF p f v(2,1) y(1)])
    show ?thesis
      using related_splits [OF assms(1) f rel q(2)] y(2) y(3) [OF _ q(2)] a(3) [OF v(2)] q by (simp add: splits_def)
  qed
  then show ?thesis using a(1,2) rel by (simp add: related_def)
qed

text \<open>C34: the offsets stay right while the loops run: if they are right at the start, then after any number
  of steps in which loop values take the value of their init argument or of a yielded pointer on the
  same base, and their integers the offset of it, every pointer is still its base plus its offset.\<close>

theorem loops_keep_offsets:
  assumes "pointerProgram cx s" and "length (ops s) \<le> n" and "processUnstructuredPtrs cx n s = (Inr r, t)"
    and "related cx E s E' t (offsetMap (final r))" and "(loopStep s t (offsetMap (final r)))\<^sup>*\<^sup>* (E, E') (F, F')"
    and "offsetMap (final r) v = Some p" and "inB (shapeOf (tyOf s v)) idx"
  shows "elementAddr F' t (ptr p) (offset p) idx = eval F s v idx"
proof -
  have f: "finished cx s (final r) t" using processUnstructuredPtrs_ok [OF assms(1-3)] by (simp add: resultOk_def)
  have "related cx F s F' t (offsetMap (final r))"
    using assms(5,4) by (induction rule: rtranclp_induct2) (blast intro: loopStep_related [OF assms(1) f])+
  then show ?thesis by (rule splits_address [OF assms(1) f assms(6) related_splits [OF assms(1) f _ assms(6)] assms(7)])
qed

text \<open>The next iteration of the loop of \<open>uDemo\<close>, which yields its pointer plus four elements.\<close>

definition uF :: env where
  "uF v idx = (if v = 5 \<or> v = 12 then 4096 + 4 * (8 + hd idx) else uE v idx)"

definition uF' :: env where
  "uF' v idx = (if v = 5 \<or> v = 12 then 8 + hd idx else uE v idx)"

lemma uF_loop:
  "\<forall>i \<in> {0, 1, 2, 3}. \<forall>v \<in> {5, 12}. eval uF uDemo v [i] = eval uE uDemo 11 [i] \<and> eval uF' uEnd v [i] = eval uE' uEnd 22 [i]"
  by code_simp

lemma uF_fits:
  "\<forall>i \<in> {0, 1, 2, 3}. \<forall>(w, q, d) \<in> {(32, 18, 2), (32, 19, 2), (32, 5, 10), (64, 12, 13)}.
     wrap w (eval uF' uEnd q [i] + eval uF uDemo d [i]) = eval uF' uEnd q [i] + eval uF uDemo d [i]"
  by code_simp

lemma uF_base: "eval uF' uEnd 0 [] = eval uE' uEnd 0 []" "eval uF' uEnd 1 [] = eval uE' uEnd 1 []"
  by code_simp+

lemma uF_step:
  assumes r: "resultOk uCx uDemo r uEnd" and om: "\<And>v. v < 16 \<Longrightarrow> offsetMap (final r) v = uOffsets ! v"
  shows "loopStep uDemo uEnd (offsetMap (final r)) (uE, uE') (uF, uF')"
proof -
  have "carriedFrom uDemo (offsetMap (final r)) 11 v" if "v \<in> {5, 12}" for v
    using that om by (auto simp: carriedFrom_def uEntry_def)
  then have c: "\<forall>v \<in> loopVals uDemo. \<exists>y. (y = v \<or> carriedFrom uDemo (offsetMap (final r)) y v) \<and> (\<forall>idx. inB (shapeOf (tyOf uDemo v)) idx \<longrightarrow>
      eval uF uDemo v idx = eval uE uDemo y idx \<and> (\<forall>q. offsetMap (final r) y = Some q \<longrightarrow> eval uF' uEnd v idx = eval uE' uEnd (offset q) idx))"
    using om uF_loop by (intro ballI exI [of _ 11]) (auto simp: inB4 uEntry_def)
  have b: "eval uF' uEnd (ptr p) [] = eval uE' uEnd (ptr p) []" if "offsetMap (final r) v = Some p" for v p
  proof -
    have "v \<in> {0, 1, 3, 4, 5, 7, 8, 11, 12, 14}" by (rule uDemo_dom [OF r that])
    then show ?thesis using that om uF_base by (auto simp: uEntry_def uOffsets_def)
  qed
  have "agree uDemo uF uF'" by (simp add: agree_def uF_def uF'_def fun_eq_iff)
  then show ?thesis using b c uDemo_offsetsFit [OF r om uF_fits] unfolding loopStep_def split by blast
qed

theorem loops_keep_offsets_witness: "elementAddr uF' uEnd 0 24 [3] = eval uF uDemo 14 [3]"
proof -
  obtain r where r: "processUnstructuredPtrs uCx 16 uDemo = (Inr r, uEnd)" "resultOk uCx uDemo r uEnd"
      "\<And>v. v < 16 \<Longrightarrow> offsetMap (final r) v = uOffsets ! v"
    using uDemo_run by metis
  have "offsetMap (final r) 14 = Some (uEntry 0 64 14 24)" using r(3) by simp
  moreover have "(loopStep uDemo uEnd (offsetMap (final r)))\<^sup>*\<^sup>* (uE, uE') (uF, uF')"
    using uF_step [OF r(2,3)] by blast
  ultimately show ?thesis
    using loops_keep_offsets [OF uDemo_program _ r(1) uDemo_related [OF r(2,3)], of uF uF' 14 _ "[3]"] by (simp add: uEntry_def inB_def)
qed

section \<open>Programs the pass does not handle\<close>

text \<open>
  A select of two traced pointers is reached from both of them: its user is put on the list of
  operations to delete twice, and erased twice.
\<close>

definition uSelect :: ir where
  "uSelect = \<lparr>ops = [
     (BlockArg None, PtrTy (FloatTy 32)),
     (BlockArg None, PtrTy (FloatTy 32)),
     (BlockArg None, IntTy 1),
     (BlockArg None, IntTy 32),
     (SelectOp 2 0 1, PtrTy (FloatTy 32)),
     (AddPtrOp 4 3, PtrTy (FloatTy 32))], fors = []\<rparr>"

theorem select_erases_twice:
  "case processUnstructuredPtrs \<lparr>funcArgs = [0, 1, 2, 3], insideIf = (\<lambda>_. False), useOrder = rev, defaultBitWidth = 32\<rparr> 6 uSelect of
     (Inl e, t) \<Rightarrow> e = Abort | _ \<Rightarrow> False"
  by code_simp

text \<open>A \<open>tts.make_tptr\<close> with static offsets only, on a moved base: there is no offset operand to read.\<close>

theorem static_offsets_abort:
  "case processUnstructuredPtrs uTileCx 10 (uTile\<lparr>ops := (ops uTile)[4 := (TTSMakeTensorPtrOp 2 [4] [Attr (IntegerAttr 2 IndexTy)]
       [Attr (IntegerAttr 5 IndexTy)] [Attr (IntegerAttr 0 IndexTy)] [Attr (IntegerAttr 0 IndexTy)] [],
       TensorTy [4] (PtrTy (FloatTy 32)))]\<rparr>) of
     (Inl e, t) \<Rightarrow> e = Abort | _ \<Rightarrow> False"
  by code_simp

text \<open>
  A failure is only a warning: here the loop has been retyped to carry integers when an unsupported
  \<open>tt.cat\<close> is met, and its init argument is still a pointer.
\<close>

theorem failure_leaves_retyped_loop:
  "case runUnstructured uCx 16 (uDemo\<lparr>ops := (ops uDemo)[15 := (CatOp 14 14, TensorTy [8] (PtrTy (FloatTy 32)))]\<rparr>) of
     (Inr None, t) \<Rightarrow> tyOf t 4 = TensorTy [4] (PtrTy (FloatTy 32)) \<and> tyOf t 5 = TensorTy [4] (IntTy 32) \<and>
       initArgs (fors t ! 0) = [4] \<and> iterArgs (fors t ! 0) = [5]
   | _ \<Rightarrow> False"
  by code_simp

end
