(* ===== verification/Memref.thy ===== *)
theory Memref
  imports LoadStore
begin

text \<open>
  \<open>lib/Conversion/StructuredToMemref/StructuredToMemref.cpp\<close>, the pointers: a structured pointer
  becomes a view of the memory of its base, given by an offset, sizes and strides.

  A memref is a value of the table like any other, with the operation that makes it; what an
  operation does to the memory is a statement, kept in the order in which the code creates them.
\<close>

section \<open>Statements\<close>

datatype stmt =
    FillS val val \<comment> \<open>\<open>linalg.fill\<close> of a memref (second) with a scalar\<close>
  | CopyS val val \<comment> \<open>\<open>memref.copy\<close>, source and destination\<close>
  | MaterializeS val val \<comment> \<open>\<open>bufferization.materialize_in_destination\<close>, tensor and memref\<close>
  | StoreS val val "val list" \<comment> \<open>\<open>memref.store\<close>: scalar, memref, indices\<close>
  | LoadStoreS val "val list" val "val list" \<comment> \<open>\<open>memref.load\<close> and \<open>memref.store\<close> of the element elsewhere\<close>
  | IfS val "stmt list" \<comment> \<open>\<open>scf.if\<close> without an else branch\<close>
  | ForS val val val "stmt list" \<comment> \<open>\<open>scf.for\<close>: induction variable, lower and upper bound, step one\<close>

text \<open>
  The values that the type converter has put in the place of the original ones, and the numbers of
  two padding options of \<open>tt.load\<close>, whose enumeration is not part of the repository.
\<close>

record conversion =
  remapped :: "val \<Rightarrow> val"
  padNegInf :: nat
  padInf :: nat

fun isMemRef :: "ty \<Rightarrow> bool" where
  "isMemRef (MemRefTy _ _) = True"
| "isMemRef _ = False"

definition kDynamic :: int where
  "kDynamic = - (2 ^ 63)"

section \<open>Views\<close>

text \<open>
  Casts between memrefs do not move anything.  A cast is on an earlier value, so the value itself
  bounds the number of casts.
\<close>

fun unwrapCasts :: "nat \<Rightarrow> ir \<Rightarrow> val \<Rightarrow> val" where
  "unwrapCasts 0 s v = v"
| "unwrapCasts (Suc n) s v = (case defOp s v of
     MemCastOp a \<Rightarrow> unwrapCasts n s a
   | UnrealizedCastOp xs w \<Rightarrow>
       (case xs of [a] \<Rightarrow>
          if w = None \<and> isMemRef (tyOf s a) \<and> isMemRef (tyOf s v) then unwrapCasts n s a else v
        | _ \<Rightarrow> v)
   | _ \<Rightarrow> v)"

definition unwrapSubviewSource :: "ir \<Rightarrow> val \<Rightarrow> val" where
  "unwrapSubviewSource s v = unwrapCasts v s v"

definition getSubviewOf :: "nat \<Rightarrow> ofr list \<Rightarrow> val \<Rightarrow> val irm" where
  "getSubviewOf rank dims v =
     bindM (getM (\<lambda>s. (unwrapSubviewSource s v, tyOf s (unwrapSubviewSource s v)))) (\<lambda>(src, t).
     thenM (assertM (isMemRef t)) (createSubview src (zeroOffsets rank) dims (unitStrides rank)))"

section \<open>The type of a view\<close>

definition getElementTypeStructuredPtr :: "ty \<Rightarrow> ty option" where
  "getElementTypeStructuredPtr t = (case t of TensorTy _ e \<Rightarrow> (case e of PtrTy p \<Rightarrow> Some p | _ \<Rightarrow> None) | _ \<Rightarrow> None)"

definition getElementTypeBlockPtr :: "ty \<Rightarrow> ty option" where
  "getElementTypeBlockPtr t = (case t of PtrTy p \<Rightarrow> if isShaped p then Some (elemTy p) else None | _ \<Rightarrow> None)"

definition isBlockPtrOp :: "int list \<Rightarrow> bool" where
  "isBlockPtrOp ord \<longleftrightarrow> ord \<noteq> []"

definition isStructuredPtrOp :: "ofr list \<Rightarrow> int list \<Rightarrow> bool" where
  "isStructuredPtrOp sh ord \<longleftrightarrow> \<not> isBlockPtrOp ord \<and> (\<forall>x \<in> set sh. getIntAttr x = Some 0)"

text \<open>
  \<open>memref.reinterpret_cast\<close> with the type of \<open>getResultMemrefType\<close>: the offset and strides of the
  type are those given, \<open>None\<close> for dynamic ones.
\<close>

definition getResultMemrefType :: "int list \<Rightarrow> ty \<Rightarrow> int list \<Rightarrow> ty irm" where
  "getResultMemrefType ord t resultShape =
     bindM (castM (if isBlockPtrOp ord then getElementTypeBlockPtr t else getElementTypeStructuredPtr t)) (\<lambda>e.
     ret (MemRefTy resultShape e))"

section \<open>Strides and offsets\<close>

text \<open>A value that is a constant becomes its attribute.\<close>

definition getAsOpFoldResult :: "ir \<Rightarrow> val \<Rightarrow> ofr" where
  "getAsOpFoldResult s v = (case defOp s v of ConstantOp a \<Rightarrow> Attr a | _ \<Rightarrow> Val v)"

text \<open>
  From the last dimension to the first; \<open>accumulate\<close> is an \<open>int\<close>, the product of the sizes below.
\<close>

definition memrefStride :: "ir \<Rightarrow> int \<times> ofr \<Rightarrow> int \<times> ofr list \<Rightarrow> int \<times> ofr list" where
  "memrefStride s = (\<lambda>(size, stride) (accumulate, strides).
     (wrap 32 (accumulate * size),
      (if size = 1 \<and> getIntAttr stride = Some 0 then getIndexAttr accumulate
       else case stride of Val v \<Rightarrow> getAsOpFoldResult s v | Attr a \<Rightarrow> stride) # strides))"

definition getMixedStridesForMemref :: "int list \<Rightarrow> ofr list \<Rightarrow> ofr list irm" where
  "getMixedStridesForMemref szs strs =
     getM (\<lambda>s. snd (foldr (memrefStride s) (zip szs strs) (1, [])))"

definition accumulateTargetOffset :: "ofr list \<Rightarrow> ofr irm" where
  "accumulateTargetOffset offs = foldM (\<lambda>targetOffset x. addOFRs targetOffset x) (getIndexAttr 0) offs"

definition accumulateGatherOffset :: "ofr list \<Rightarrow> ofr list \<Rightarrow> nat \<Rightarrow> ofr irm" where
  "accumulateGatherOffset offs strs gatherDim = foldM (\<lambda>targetOffset i.
       bindM (atM offs i) (\<lambda>x.
       if i = gatherDim then
         bindM (atM strs i) (\<lambda>str. bindM (mulOFRs x str) (\<lambda>y. addOFRs targetOffset y))
       else addOFRs targetOffset x))
     (getIndexAttr 0) [0..<length offs]"

section \<open>A block that wraps around\<close>

definition reinterpretDynamic :: "val \<Rightarrow> ofr \<Rightarrow> ofr list \<Rightarrow> ofr list \<Rightarrow> ty \<Rightarrow> val irm" where
  "reinterpretDynamic base off szs strs t =
     create (ReinterpretCastOp base off szs strs None (map (\<lambda>_. None) strs)) t"

definition createSideBySideCastOps ::
    "int list \<Rightarrow> int list \<Rightarrow> ty \<Rightarrow> ofr list \<Rightarrow> ofr list \<Rightarrow> ofr list \<Rightarrow> val \<Rightarrow> (val \<times> val) irm" where
  "createSideBySideCastOps ord szs t strs offs sh base =
     bindM (accumulateTargetOffset offs) (\<lambda>acc.
     bindM (ofrToIndexValue acc) (\<lambda>targetOffset.
     bindM (getResultMemrefType ord t [kDynamic, kDynamic]) (\<lambda>resultType.
     bindM (atM szs 0) (\<lambda>n0. bindM (createIndexConst n0) (\<lambda>rowSize.
     bindM (atM szs 1) (\<lambda>n1. bindM (createIndexConst n1) (\<lambda>colSize.
     bindM (atM sh 1) (\<lambda>sh1. bindM (ofrToIndexValue sh1) (\<lambda>modN.
     bindM (createBin RemSI targetOffset modN) (\<lambda>x.
     bindM (createBin SubI targetOffset x) (\<lambda>y.
     bindM (ofrsToIndexValues strs) (\<lambda>strideVals.
     bindM (createBin AddI x colSize) (\<lambda>nextOffset.
     bindM (createBin MinSI nextOffset modN) (\<lambda>clampedOffset.
     bindM (createBin SubI clampedOffset x) (\<lambda>d1.
     bindM (reinterpretDynamic base (Val targetOffset) [Val rowSize, Val d1] (map Val strideVals) resultType) (\<lambda>cast1.
     bindM (createBin SubI colSize d1) (\<lambda>d2.
     bindM (reinterpretDynamic base (Val y) [Val rowSize, Val d2] (map Val strideVals) resultType) (\<lambda>cast2.
     ret (cast1, cast2)))))))))))))))))))"

definition createStackedCastOps ::
    "int list \<Rightarrow> int list \<Rightarrow> ty \<Rightarrow> ofr list \<Rightarrow> ofr list \<Rightarrow> ofr list \<Rightarrow> val \<Rightarrow> (val \<times> val) irm" where
  "createStackedCastOps ord szs t strs offs sh base =
     thenM (assertM (length (shapeOf t) = 2))
     (bindM (accumulateTargetOffset offs) (\<lambda>acc.
     bindM (ofrToIndexValue acc) (\<lambda>targetOffset.
     bindM (getResultMemrefType ord t [kDynamic, kDynamic]) (\<lambda>resultType.
     bindM (atM szs 0) (\<lambda>n0. bindM (createIndexConst n0) (\<lambda>rowSize.
     bindM (atM szs 1) (\<lambda>n1. bindM (createIndexConst n1) (\<lambda>colSize.
     bindM (atM strs 0) (\<lambda>str0. bindM (ofrToIndexValue str0) (\<lambda>strideRow.
     bindM (atM strs 1) (\<lambda>str1. bindM (ofrToIndexValue str1) (\<lambda>strideCol.
     bindM (atM sh 0) (\<lambda>sh0. bindM (ofrToIndexValue sh0) (\<lambda>modRow.
     bindM (createBin RemSI targetOffset strideRow) (\<lambda>wrappedAroundOff.
     bindM (createBin AddI modRow wrappedAroundOff) (\<lambda>clampedOff.
     bindM (createBin SubI clampedOff targetOffset) (\<lambda>rest.
     bindM (createBin DivSI rest strideRow) (\<lambda>d1.
     bindM (reinterpretDynamic base (Val targetOffset) [Val d1, Val colSize] [Val strideRow, Val strideCol] resultType) (\<lambda>cast1.
     bindM (createBin SubI rowSize d1) (\<lambda>d2.
     bindM (reinterpretDynamic base (Val wrappedAroundOff) [Val d2, Val colSize] [Val strideRow, Val strideCol] resultType) (\<lambda>cast2.
     ret (cast1, cast2))))))))))))))))))))))"

text \<open>A pointer that wraps around is given one view, as if it did not.\<close>

definition rewriteSplitPtr :: "int list \<Rightarrow> int list \<Rightarrow> ty \<Rightarrow> ofr list \<Rightarrow> ofr list \<Rightarrow> val \<Rightarrow> val irm" where
  "rewriteSplitPtr ord szs t strs offs base =
     bindM (getMixedStridesForMemref szs strs) (\<lambda>mixedStrides.
     bindM (accumulateTargetOffset offs) (\<lambda>targetOffset.
     bindM (getResultMemrefType ord t (shapeOf t)) (\<lambda>resultType.
     create (ReinterpretCastOp base targetOffset (map getIndexAttr szs) mixedStrides
       (getIntAttr targetOffset) (map getIntAttr mixedStrides)) resultType)))"

section \<open>Structured pointers and block pointers\<close>

text \<open>What is left of a block of the tensor when it reaches beyond its end.\<close>

definition actualSize :: "int list \<Rightarrow> ofr list \<Rightarrow> ofr list \<Rightarrow> nat \<Rightarrow> ofr irm" where
  "actualSize szs sh orig i =
     bindM (atM szs i) (\<lambda>n. bindM (atM sh i) (\<lambda>m. bindM (atM orig i) (\<lambda>actualOffset.
     bindM (subOFRs m actualOffset) (\<lambda>remaining. minOFRs (getIndexAttr n) remaining))))"

definition needsStaticCast :: "int list \<Rightarrow> int list \<Rightarrow> bool" where
  "needsStaticCast resultShape sh \<longleftrightarrow>
     length sh = length resultShape \<and> (\<exists>(n, m) \<in> set (zip resultShape sh). n \<noteq> kDynamic \<and> m = kDynamic)"

definition rewritePtr ::
    "int list \<Rightarrow> int list \<Rightarrow> int list \<Rightarrow> ty \<Rightarrow> ofr list \<Rightarrow> ofr list \<Rightarrow> ofr list \<Rightarrow> ofr list \<Rightarrow> val \<Rightarrow> val irm" where
  "rewritePtr resultShape ord szs t strs offs orig sh base =
     bindM (getMixedStridesForMemref szs strs) (\<lambda>mixedStrides.
     bindM (accumulateTargetOffset offs) (\<lambda>targetOffset.
     bindM (bindM (atM sh 0) hasConstZero) (\<lambda>isBlockPtr1.
     let usedActualSizes = (\<not> isBlockPtr1 \<and> length szs = length offs \<and> length sh = length offs \<and> length szs = length sh) in
     bindM (if usedActualSizes then
         bindM (mapM (actualSize szs sh orig) [0..<length szs]) (\<lambda>actualSizes.
         if length szs = 1 then
           bindM (getResultMemrefType ord t [kDynamic]) (create (ReinterpretCastOp base targetOffset actualSizes mixedStrides
             (getIntAttr targetOffset) (map getIntAttr mixedStrides)))
         else
           bindM (getResultMemrefType ord t (replicate (length szs) kDynamic)) (create (ReinterpretCastOp base targetOffset
             actualSizes mixedStrides None (replicate (length resultShape) None))))
       else
         bindM (getResultMemrefType ord t resultShape) (create (ReinterpretCastOp base targetOffset (map getIndexAttr szs)
           mixedStrides (getIntAttr targetOffset) (map getIntAttr mixedStrides)))) (\<lambda>castOp.
     bindM (getM (\<lambda>s. tyOf s castOp)) (\<lambda>resultTy.
     if \<not> usedActualSizes \<and> needsStaticCast resultShape (shapeOf resultTy)
     then create (MemCastOp castOp) (MemRefTy resultShape (elemTy resultTy))
     else ret castOp)))))"

definition pointeeShape :: "ty \<Rightarrow> int list option" where
  "pointeeShape t = (case t of PtrTy p \<Rightarrow> if isShaped p then Some (shapeOf p) else None | _ \<Rightarrow> None)"

text \<open>\<open>MakeTensorPtrConverter::matchAndRewrite\<close>, with the value that replaces the operation.\<close>

definition convertMakeTensorPtr :: "conversion \<Rightarrow> val \<Rightarrow> val irm" where
  "convertMakeTensorPtr cv v =
     bindM (getM (\<lambda>s. (defOp s v, tyOf s v))) (\<lambda>(d, t). case d of
       TTSMakeTensorPtrOp base szs strs offs orig sh ord \<Rightarrow>
         if \<not> sorted_wrt (\<ge>) ord then raise Failure
         else if isBlockPtrOp ord then
           bindM (castM (pointeeShape t)) (\<lambda>resultShape. rewritePtr resultShape ord szs t strs offs orig sh (remapped cv base))
         else if isStructuredPtrOp sh ord then
           thenM (assertM (isShaped t)) (rewritePtr (shapeOf t) ord szs t strs offs orig sh (remapped cv base))
         else thenM (assertM (isShaped t)) (rewriteSplitPtr ord szs t strs offs (remapped cv base))
     | _ \<Rightarrow> raise Abort)"


end
