(* ===== verification/Memref_Access.thy ===== *)
theory Memref_Access
  imports Memref
begin

text \<open>
  \<open>StructuredToMemref.cpp\<close>, the accesses: a \<open>tts.load\<close> fills a fresh buffer and copies into it the
  part of the view that the mask or the boundary leaves; a \<open>tts.store\<close> writes that part.  Through a
  pointer of \<open>tts.make_gather_scatter_tptr\<close>, a loop does so for one slice after the other.
\<close>

section \<open>Filling the destination\<close>

definition zeroConstant :: "ty \<Rightarrow> val irm" where
  "zeroConstant e = (case e of
     FloatTy w \<Rightarrow> create (ConstantOp (FloatAttr FloatZero)) e
   | IntTy w \<Rightarrow> create (ConstantOp (IntegerAttr 0 e)) e
   | _ \<Rightarrow> raise Abort)"

text \<open>The integers of the IR are signless, so that the bounds are those of an unsigned integer.\<close>

definition paddingConstant :: "conversion \<Rightarrow> nat \<Rightarrow> ty \<Rightarrow> val irm" where
  "paddingConstant cv pad e = (case e of
     FloatTy w \<Rightarrow>
       create (ConstantOp (FloatAttr (if pad = padNegInf cv then FloatNegInf else if pad = padInf cv then FloatInf else FloatZero))) e
   | IntTy w \<Rightarrow>
       create (ConstantOp (IntegerAttr (if pad = padNegInf cv then 0 else if pad = padInf cv then wrap w (2 ^ w - 1) else 0) e)) e
   | _ \<Rightarrow> raise Abort)"

text \<open>
  The fill is guarded by the disjunction of \<open>dims[i] < shape[i]\<close>; a static dimension is read from
  \<open>staticMaskDims\<close>.
\<close>

definition fillGuard :: "int list \<Rightarrow> ofr list \<Rightarrow> int list \<Rightarrow> val \<Rightarrow> nat \<Rightarrow> val irm" where
  "fillGuard sh mixedDims staticMaskDims acc i =
     bindM (atM sh i) (\<lambda>n. bindM (createIndexConst n) (\<lambda>shapei.
     bindM (atM mixedDims i) (\<lambda>d.
     bindM (case d of Val x \<Rightarrow> ret x | Attr _ \<Rightarrow> bindM (atM staticMaskDims i) createIndexConst) (\<lambda>dimi.
     bindM (create (CmpIOp Slt dimi shapei) (IntTy 1)) (\<lambda>cmp.
     create (BinOp OrI acc cmp) (IntTy 1))))))"

definition fillWithValue :: "val \<Rightarrow> val \<Rightarrow> int list \<Rightarrow> ofr list \<Rightarrow> int list \<Rightarrow> stmt list irm" where
  "fillWithValue buffer other sh mixedDims staticMaskDims =
     bindM (create (ConstantOp (IntegerAttr 0 (IntTy 1))) (IntTy 1)) (\<lambda>accBase.
     bindM (foldM (fillGuard sh mixedDims staticMaskDims) accBase [0..<length sh]) (\<lambda>acc.
     ret [IfS acc [FillS other buffer]]))"

section \<open>Two blocks\<close>

definition createSideBySideCopies :: "val \<Rightarrow> val \<Rightarrow> val \<Rightarrow> stmt list irm" where
  "createSideBySideCopies block1 block2 dst =
     bindM (createIndexConst 0) (\<lambda>zero. bindM (createIndexConst 1) (\<lambda>one.
     bindM (create (DimOp block1 0) IndexTy) (\<lambda>block1Row. bindM (create (DimOp block1 1) IndexTy) (\<lambda>block1Col.
     bindM (create (DimOp block2 0) IndexTy) (\<lambda>block2Row. bindM (create (DimOp block2 1) IndexTy) (\<lambda>block2Col.
     bindM (createSubview dst [Val zero, Val zero] [Val block1Row, Val block1Col] [Val one, Val one]) (\<lambda>block1Dst.
     bindM (createSubview dst [Val zero, Val block1Col] [Val block2Row, Val block2Col] [Val one, Val one]) (\<lambda>block2Dst.
     ret [CopyS block1 block1Dst, CopyS block2 block2Dst]))))))))"

definition createStackedCopies :: "val \<Rightarrow> val \<Rightarrow> val \<Rightarrow> stmt list irm" where
  "createStackedCopies block1 block2 dst =
     bindM (createIndexConst 0) (\<lambda>zero. bindM (createIndexConst 1) (\<lambda>one.
     bindM (create (DimOp block1 0) IndexTy) (\<lambda>block1Row. bindM (create (DimOp block1 1) IndexTy) (\<lambda>block1Col.
     bindM (create (DimOp block2 0) IndexTy) (\<lambda>block2Row. bindM (create (DimOp block2 1) IndexTy) (\<lambda>block2Col.
     bindM (createSubview dst [Val zero, Val zero] [Val block1Row, Val block1Col] [Val one, Val one]) (\<lambda>block1Dst.
     bindM (createSubview dst [Val block1Row, Val zero] [Val block2Row, Val block2Col] [Val one, Val one]) (\<lambda>block2Dst.
     ret [CopyS block1 block1Dst, CopyS block2 block2Dst]))))))))"

definition loadSideBySideSubviews :: "ofr list \<Rightarrow> val \<Rightarrow> val \<Rightarrow> (val \<times> val) irm" where
  "loadSideBySideSubviews dims block1 block2 =
     bindM (atM dims 0) (\<lambda>rowFull. bindM (atM dims 1) (\<lambda>colFull.
     bindM (create (DimOp block1 1) IndexTy) (\<lambda>col1.
     bindM (minOFRs (Val col1) colFull) (\<lambda>subviewCol1.
     bindM (subOFRs colFull subviewCol1) (\<lambda>subviewCol2.
     bindM (createSubview block1 (zeroOffsets (length dims)) [rowFull, subviewCol1] (unitStrides (length dims))) (\<lambda>sv1.
     bindM (createSubview block2 (zeroOffsets (length dims)) [rowFull, subviewCol2] (unitStrides (length dims))) (\<lambda>sv2.
     ret (sv1, sv2))))))))"

definition loadStackedSubviews :: "ofr list \<Rightarrow> val \<Rightarrow> val \<Rightarrow> (val \<times> val) irm" where
  "loadStackedSubviews dims block1 block2 =
     bindM (atM dims 0) (\<lambda>rowFull. bindM (atM dims 1) (\<lambda>colFull.
     bindM (create (DimOp block1 0) IndexTy) (\<lambda>row1.
     bindM (minOFRs (Val row1) rowFull) (\<lambda>subviewRow1.
     bindM (subOFRs rowFull subviewRow1) (\<lambda>subviewRow2.
     bindM (createSubview block1 (zeroOffsets (length dims)) [subviewRow1, colFull] (unitStrides (length dims))) (\<lambda>sv1.
     bindM (createSubview block2 (zeroOffsets (length dims)) [subviewRow2, colFull] (unitStrides (length dims))) (\<lambda>sv2.
     ret (sv1, sv2))))))))"

section \<open>The source of an access\<close>

text \<open>
  A materialisation between memrefs is looked through, one level.  The code then reads an attribute
  of the defining operation, which a block argument does not have.
\<close>

definition unwrapMaterialization :: "val \<Rightarrow> val irm" where
  "unwrapMaterialization p =
     bindM (getM (\<lambda>s. case defOp s p of
         UnrealizedCastOp (x # xs) None \<Rightarrow> if isMemRef (tyOf s x) then x else p
       | _ \<Rightarrow> p)) (\<lambda>q.
     bindM (getM (\<lambda>s. isBlockArg (defOp s q))) (\<lambda>b. thenM (assertM (\<not> b)) (ret q)))"

definition wrapBlocks :: "ir \<Rightarrow> val \<Rightarrow> (wrap_kind \<times> val list) option" where
  "wrapBlocks s p = (case defOp s p of UnrealizedCastOp xs w \<Rightarrow> map_option (\<lambda>k. (k, xs)) w | _ \<Rightarrow> None)"

text \<open>The sizes of a memref, for an access that checks the boundary.\<close>

definition typeSizes :: "ty \<Rightarrow> ofr list" where
  "typeSizes t = map getIndexAttr (shapeOf t)"

definition memrefDims :: "val \<Rightarrow> ofr list irm" where
  "memrefDims p =
     bindM (getM (\<lambda>s. tyOf s p)) (\<lambda>t. thenM (assertM (isMemRef t))
     (mapM (\<lambda>i. if shapeOf t ! i = kDynamic then bindM (create (DimOp p i) IndexTy) (\<lambda>d. ret (Val d))
        else ret (getIndexAttr (shapeOf t ! i))) [0..<length (shapeOf t)]))"

definition boundarySizes :: "val \<Rightarrow> (ofr list \<times> val) irm" where
  "boundarySizes p =
     bindM (getM (\<lambda>s. (defOp s p, tyOf s p))) (\<lambda>(d, t). case d of
       ReinterpretCastOp b off szs strs lo ls \<Rightarrow> ret (szs, p)
     | MemAllocOp \<Rightarrow> ret (typeSizes t, p)
     | MemTransposeOp b perm \<Rightarrow> ret (typeSizes t, p)
     | SubViewOp b offs szs strs \<Rightarrow> ret (szs, p)
     | MemCastOp b \<Rightarrow> bindM (getM (\<lambda>s. defOp s b)) (\<lambda>db. case db of
           ReinterpretCastOp b' off szs strs lo ls \<Rightarrow> ret (szs, p)
         | _ \<Rightarrow> ret (typeSizes t, p))
     | UnrealizedCastOp xs w \<Rightarrow> bindM (atM xs 0) (\<lambda>b. bindM (getM (\<lambda>s. defOp s b)) (\<lambda>db. case db of
           ReinterpretCastOp b' off szs strs lo ls \<Rightarrow> ret (szs, b)
         | _ \<Rightarrow> bindM (memrefDims b) (\<lambda>szs. ret (szs, b))))
     | _ \<Rightarrow> bindM (memrefDims p) (\<lambda>szs. ret (szs, p)))"

section \<open>Loads\<close>

text \<open>The tensor is read from the buffer, or from the view itself, after the statements.\<close>

definition allocFor :: "ty \<Rightarrow> val irm" where
  "allocFor t = thenM (assertM (isTensor t)) (create MemAllocOp (MemRefTy (shapeOf t) (elemTy t)))"

definition copyDims :: "nat \<Rightarrow> ofr list \<Rightarrow> val \<Rightarrow> val \<Rightarrow> stmt list irm" where
  "copyDims rank dims p buffer =
     bindM (getSubviewOf rank dims p) (\<lambda>srcSubview.
     bindM (getSubviewOf rank dims buffer) (\<lambda>dstSubview. ret [CopyS srcSubview dstSubview]))"

definition rewriteStructuredLoad :: "conversion \<Rightarrow> ty \<Rightarrow> val \<Rightarrow> val option \<Rightarrow> int list \<Rightarrow> nat option \<Rightarrow> (stmt list \<times> val) irm" where
  "rewriteStructuredLoad cv t p other bc pad =
     bindM (allocFor t) (\<lambda>buffer.
     thenM (assertM (other = None))
     (bindM (unwrapMaterialization p) (\<lambda>q.
      bindM (getM (\<lambda>s. wrapBlocks s q)) (\<lambda>w. case w of
        Some (k, xs) \<Rightarrow>
          thenM (assertM (length xs = 2))
          (bindM (if k = WrapSideBySide then createSideBySideCopies (xs ! 0) (xs ! 1) buffer
             else createStackedCopies (xs ! 0) (xs ! 1) buffer) (\<lambda>st.
           bindM (create (ToTensorOp buffer) t) (\<lambda>r. ret (st, r))))
      | None \<Rightarrow>
          if bc \<noteq> [] then
            bindM (boundarySizes q) (\<lambda>(szs, q').
            bindM (case pad of None \<Rightarrow> zeroConstant (elemTy t) | Some k \<Rightarrow> paddingConstant cv k (elemTy t)) (\<lambda>x.
            bindM (fillWithValue buffer x (shapeOf t) szs (shapeOf t)) (\<lambda>st1.
            bindM (copyDims (length (shapeOf t)) szs q' buffer) (\<lambda>st2.
            bindM (create (ToTensorOp buffer) t) (\<lambda>r. ret (st1 @ st2, r))))))
          else bindM (create (ToTensorOp q) t) (\<lambda>r. ret ([], r))))))"

definition rewriteMaskedLoad :: "ty \<Rightarrow> val \<Rightarrow> ofr list \<Rightarrow> val option \<Rightarrow> int list \<Rightarrow> (stmt list \<times> val) irm" where
  "rewriteMaskedLoad t p mixedDims other bc =
     thenM (requireM (bc = []))
     (bindM (allocFor t) (\<lambda>buffer.
      bindM (case other of
          None \<Rightarrow> bindM (zeroConstant (elemTy t)) (\<lambda>z. ret [FillS z buffer])
        | Some x \<Rightarrow> fillWithValue buffer x (shapeOf t) mixedDims (map staticDim mixedDims)) (\<lambda>st1.
      bindM (unwrapMaterialization p) (\<lambda>q.
      bindM (getM (\<lambda>s. wrapBlocks s q)) (\<lambda>w.
      bindM (case w of
          Some (k, xs) \<Rightarrow>
            thenM (assertM (length xs = 2))
            (if k = WrapSideBySide then
               bindM (loadSideBySideSubviews mixedDims (xs ! 0) (xs ! 1)) (\<lambda>(sv1, sv2). createSideBySideCopies sv1 sv2 buffer)
             else bindM (loadStackedSubviews mixedDims (xs ! 0) (xs ! 1)) (\<lambda>(sv1, sv2). createStackedCopies sv1 sv2 buffer))
        | None \<Rightarrow>
            bindM (getM (\<lambda>s. case defOp s q of MemCastOp b \<Rightarrow> b | _ \<Rightarrow> q)) (\<lambda>actualPtr.
            copyDims (length (shapeOf t)) mixedDims actualPtr buffer)) (\<lambda>st2.
      bindM (create (ToTensorOp buffer) t) (\<lambda>r. ret (st1 @ st2, r))))))))"

section \<open>Gathers\<close>

definition indexValue :: "ofr \<Rightarrow> val irm" where
  "indexValue x = (case x of Val v \<Rightarrow> ret v | Attr _ \<Rightarrow> bindM (castM (getIntAttr x)) createIndexConst)"

text \<open>
  The offsets are remainders by the value that the size of the dimension is turned into, which the
  code creates for the comparison.
\<close>

definition hasWraparoundGatherOffset :: "val \<Rightarrow> nat \<Rightarrow> int list \<Rightarrow> bool irm" where
  "hasWraparoundGatherOffset gatherOffset gatherDim szs =
     bindM (getM (\<lambda>s. (tyOf s gatherOffset, defOp s gatherOffset))) (\<lambda>(t, d).
     if \<not> (isTensor t \<and> length (shapeOf t) = 1) then ret False else
     (case d of
       FromElementsOp xs \<Rightarrow>
         if length szs \<le> gatherDim then ret False else
         bindM (createIndexConst (szs ! gatherDim)) (\<lambda>gatherDimSize.
         getM (\<lambda>s. xs \<noteq> [] \<and> (\<forall>x \<in> set xs. case defOp s x of BinOp k a b \<Rightarrow> k = RemSI \<and> b = gatherDimSize | _ \<Rightarrow> False)))
     | _ \<Rightarrow> ret False))"

text \<open>The slice of one gather index: a view of the memory that starts at its offset.\<close>

definition rewriteGatherScatterPtrElement ::
    "ty \<Rightarrow> int list \<Rightarrow> ofr list \<Rightarrow> ofr list \<Rightarrow> nat \<Rightarrow> val \<Rightarrow> val \<Rightarrow> val irm" where
  "rewriteGatherScatterPtrElement t szs strs offs gatherDim basePtr gatherOffsetElt =
     bindM (getMixedStridesForMemref szs strs) (\<lambda>mixedStrides.
     thenM (assertM (gatherDim < length offs \<and> gatherDim < length szs))
     (bindM (accumulateGatherOffset (offs[gatherDim := Val gatherOffsetElt]) mixedStrides gatherDim) (\<lambda>targetOffset.
      bindM (castM (getElementTypeBlockPtr t)) (\<lambda>e.
      create (ReinterpretCastOp basePtr targetOffset (map getIndexAttr (szs[gatherDim := 1])) mixedStrides
        (getIntAttr targetOffset) (map getIntAttr mixedStrides)) (MemRefTy (szs[gatherDim := 1]) e)))))"

text \<open>
  What a gather and a scatter share: the offsets as indices, the bounds of the loop, its induction
  variable and the offset it reads.
\<close>

record gather_loop =
  lowerBound :: val
  upperBound :: val
  stepValue :: val
  inductionVar :: val
  gatherOffsetElt :: val

definition indexOffsets :: "val \<Rightarrow> (val \<times> int) irm" where
  "indexOffsets g =
     bindM (getM (\<lambda>s. tyOf s g)) (\<lambda>t. thenM (assertM (isShaped t))
     (bindM (atM (shapeOf t) 0) (\<lambda>n.
      bindM (createIndexCast (TensorTy (shapeOf t) IndexTy) g) (\<lambda>g'. ret (g', take_bit 32 n)))))"

definition maskedBound :: "int \<Rightarrow> val \<Rightarrow> ofr list \<Rightarrow> nat \<Rightarrow> val irm" where
  "maskedBound offsetSize bound mixedDims gatherDim =
     (if mixedDims = [] then ret bound else
      bindM (atM mixedDims gatherDim) (\<lambda>d. case getIntAttr d of
        Some n \<Rightarrow> createIndexConst (min offsetSize (take_bit 32 n))
      | None \<Rightarrow>
          bindM (castM (case d of Val x \<Rightarrow> Some x | Attr _ \<Rightarrow> None)) (\<lambda>x.
          bindM (createIndexConst offsetSize) (\<lambda>n. createBin MinSI x n))))"

definition createGatherLoop :: "val \<Rightarrow> int \<Rightarrow> ofr list \<Rightarrow> nat \<Rightarrow> gather_loop irm" where
  "createGatherLoop gatherOffset offsetSize mixedDims gatherDim =
     bindM (createIndexConst 0) (\<lambda>lower.
     bindM (createIndexConst offsetSize) (\<lambda>bound.
     bindM (maskedBound offsetSize bound mixedDims gatherDim) (\<lambda>upper.
     bindM (createIndexConst 1) (\<lambda>one.
     bindM (create (BlockArg None) IndexTy) (\<lambda>iv.
     bindM (create (ExtractOp gatherOffset [iv]) IndexTy) (\<lambda>elt.
     ret \<lparr>lowerBound = lower, upperBound = upper, stepValue = one, inductionVar = iv, gatherOffsetElt = elt\<rparr>))))))"

definition wrapIndices :: "ofr list \<Rightarrow> int list \<Rightarrow> nat \<Rightarrow> val \<Rightarrow> val list irm" where
  "wrapIndices offs szs gatherDim elt = mapM (\<lambda>i.
       bindM (atM offs i) (\<lambda>x. bindM (indexValue x) (\<lambda>idx.
       if i = gatherDim then createBin AddI idx elt else ret idx)))
     [0..<length szs]"

text \<open>The sizes of a slice: one along the gather dimension, those of the mask elsewhere.\<close>

definition sliceSizes :: "int list \<Rightarrow> ofr list \<Rightarrow> nat \<Rightarrow> ofr list" where
  "sliceSizes szs mixedDims gatherDim =
     (if mixedDims = [] then map getIndexAttr (szs[gatherDim := 1])
      else mixedDims[gatherDim := getIndexAttr 1])"

definition sliceOfPtr :: "gather_loop \<Rightarrow> nat \<Rightarrow> ofr list \<Rightarrow> ofr list \<Rightarrow> val \<Rightarrow> val irm" where
  "sliceOfPtr l rank mixedDims sizesOf p =
     (if mixedDims = [] then ret p
      else createSubview p (replicate rank (Val (lowerBound l))) sizesOf (replicate rank (Val (stepValue l))))"

definition rewriteGather ::
    "ty \<Rightarrow> ty \<Rightarrow> val \<Rightarrow> nat \<Rightarrow> int list \<Rightarrow> ofr list \<Rightarrow> ofr list \<Rightarrow> val \<Rightarrow> ofr list \<Rightarrow> val option \<Rightarrow> (stmt list \<times> val) irm" where
  "rewriteGather ptrTy t g gatherDim szs strs offs memRefPtr mixedDims other =
     bindM (indexOffsets g) (\<lambda>(gatherOffset, offsetSize).
     bindM (hasWraparoundGatherOffset g gatherDim szs) (\<lambda>hasWraparound.
     thenM (assertM (gatherDim < length szs))
     (bindM (allocFor t) (\<lambda>buffer.
      bindM (case other of None \<Rightarrow> ret []
        | Some x \<Rightarrow> fillWithValue buffer x (shapeOf t) mixedDims (map staticDim mixedDims)) (\<lambda>st1.
      bindM (createGatherLoop gatherOffset offsetSize mixedDims gatherDim) (\<lambda>l.
      bindM (if hasWraparound then
          bindM (wrapIndices offs szs gatherDim (gatherOffsetElt l)) (\<lambda>srcIndices.
          ret [LoadStoreS memRefPtr srcIndices buffer
            ((replicate (length (shapeOf t)) (lowerBound l))[gatherDim := inductionVar l])])
        else
          bindM (rewriteGatherScatterPtrElement ptrTy szs strs offs gatherDim memRefPtr (gatherOffsetElt l)) (\<lambda>row.
          bindM (sliceOfPtr l (length szs) mixedDims (sliceSizes szs mixedDims gatherDim) row) (\<lambda>srcPtr.
          bindM (createSubview buffer ((replicate (length szs) (Val (lowerBound l)))[gatherDim := Val (inductionVar l)])
            (sliceSizes szs mixedDims gatherDim) (replicate (length szs) (Val (stepValue l)))) (\<lambda>dstSubview.
          ret [CopyS srcPtr dstSubview])))) (\<lambda>body.
      bindM (create (ToTensorOp buffer) t) (\<lambda>r.
      ret (st1 @ [ForS (inductionVar l) (lowerBound l) (upperBound l) body], r)))))))))"

text \<open>\<open>LoadConverter::matchAndRewrite\<close>: the statements, and the tensor that replaces the load.\<close>

definition convertLoad :: "conversion \<Rightarrow> val \<Rightarrow> (stmt list \<times> val) irm" where
  "convertLoad cv v =
     bindM (getM (\<lambda>s. (defOp s v, tyOf s v))) (\<lambda>(d, t). case d of
       TTSLoadOp p dims other bc pad \<Rightarrow>
         bindM (getM (\<lambda>s. (defOp s p, tyOf s p))) (\<lambda>(dp, pt). case dp of
           TTSMakeGatherScatterOp base g dim szs strs offs \<Rightarrow>
             rewriteGather pt t g dim szs strs offs (remapped cv base) dims other
         | _ \<Rightarrow>
             if dims \<noteq> [] then rewriteMaskedLoad t (remapped cv p) dims other bc
             else rewriteStructuredLoad cv t (remapped cv p) other bc pad)
     | _ \<Rightarrow> raise Abort)"

section \<open>Stores\<close>

definition rewriteScatter ::
    "ty \<Rightarrow> val \<Rightarrow> nat \<Rightarrow> int list \<Rightarrow> ofr list \<Rightarrow> ofr list \<Rightarrow> val \<Rightarrow> ofr list \<Rightarrow> val \<Rightarrow> stmt list irm" where
  "rewriteScatter ptrTy g gatherDim szs strs offs memRefPtr mixedDims stVal =
     bindM (indexOffsets g) (\<lambda>(gatherOffset, offsetSize).
     bindM (hasWraparoundGatherOffset g gatherDim szs) (\<lambda>hasWraparound.
     thenM (assertM (gatherDim < length szs))
     (bindM (createGatherLoop gatherOffset offsetSize mixedDims gatherDim) (\<lambda>l.
      bindM (getM (\<lambda>s. tyOf s stVal)) (\<lambda>vt.
      bindM (if hasWraparound then
          thenM (assertM (gatherDim < length (shapeOf vt)))
          (bindM (create (ExtractOp stVal ((replicate (length (shapeOf vt)) (lowerBound l))[gatherDim := inductionVar l])) (elemTy vt)) (\<lambda>x.
           bindM (wrapIndices offs szs gatherDim (gatherOffsetElt l)) (\<lambda>dstIndices.
           ret [StoreS x memRefPtr dstIndices])))
        else
          bindM (create (ExtractSliceOp stVal ((replicate (length szs) (Val (lowerBound l)))[gatherDim := Val (inductionVar l)])
              (sliceSizes szs mixedDims gatherDim) (replicate (length szs) (Val (stepValue l))))
            (TensorTy (map staticDim (sliceSizes szs mixedDims gatherDim)) (elemTy vt))) (\<lambda>slice.
          bindM (rewriteGatherScatterPtrElement ptrTy szs strs offs gatherDim memRefPtr (gatherOffsetElt l)) (\<lambda>row.
          bindM (sliceOfPtr l (length szs) mixedDims (sliceSizes szs mixedDims gatherDim) row) (\<lambda>dstPtr.
          ret [MaterializeS slice dstPtr])))) (\<lambda>body.
      ret [ForS (inductionVar l) (lowerBound l) (upperBound l) body]))))))"

text \<open>A scalar tensor into the memref of a scalar pointer.\<close>

definition storeScalar :: "val \<Rightarrow> ty \<Rightarrow> val \<Rightarrow> ofr list \<Rightarrow> stmt list irm" where
  "storeScalar storeValue vt p mixedDims =
     bindM (create (ExtractOp storeValue []) (elemTy vt)) (\<lambda>x.
     bindM (createIndexConst 0) (\<lambda>zero.
     if mixedDims = [] then ret [StoreS x p [zero]] else
     bindM (indexValue (mixedDims ! 0)) (\<lambda>maskDim.
     bindM (createIndexConst 0) (\<lambda>zeroDim.
     bindM (create (CmpIOp Sgt maskDim zeroDim) (IntTy 1)) (\<lambda>cond.
     ret [IfS cond [StoreS x p [zero]]])))))"

text \<open>The elementwise conversion to the element type of the memref.\<close>

fun bitsOf :: "ty \<Rightarrow> nat option" where
  "bitsOf (IntTy w) = Some w"
| "bitsOf (FloatTy w) = Some w"
| "bitsOf t = None"

definition convertStoreValue :: "val \<Rightarrow> ty \<Rightarrow> ty \<Rightarrow> val irm" where
  "convertStoreValue storeValue vt ptrElem =
     (if elemTy vt = ptrElem then ret storeValue else
      bindM (castM (bitsOf (elemTy vt))) (\<lambda>storeBits. bindM (castM (bitsOf ptrElem)) (\<lambda>ptrBits.
      if isIntTy (elemTy vt) \<and> isIntTy ptrElem then
        create (CastOp (if ptrBits < storeBits then TruncI else ExtUI) storeValue) (TensorTy (shapeOf vt) ptrElem)
      else if isFloatLike (elemTy vt) \<and> isFloatLike ptrElem then
        create (CastOp (if ptrBits < storeBits then TruncF else ExtF) storeValue) (TensorTy (shapeOf vt) ptrElem)
      else ret storeValue)))"

definition storeSlice :: "nat \<Rightarrow> ofr list \<Rightarrow> val \<Rightarrow> val \<Rightarrow> stmt list irm" where
  "storeSlice rank dims x p =
     bindM (getM (\<lambda>s. tyOf s x)) (\<lambda>t. thenM (assertM (isTensor t))
     (bindM (create (ExtractSliceOp x (zeroOffsets rank) dims (unitStrides rank)) (TensorTy (map staticDim dims) (elemTy t))) (\<lambda>srcSlice.
      bindM (getSubviewOf rank dims p) (\<lambda>dstSubview. ret [MaterializeS srcSlice dstSubview]))))"

definition convertStore :: "conversion \<Rightarrow> val \<Rightarrow> stmt list irm" where
  "convertStore cv v =
     bindM (getM (\<lambda>s. defOp s v)) (\<lambda>d. case d of
       TTSStoreOp p storeValue dims bc \<Rightarrow>
         bindM (getM (\<lambda>s. (defOp s p, tyOf s p))) (\<lambda>(dp, pt). case dp of
           TTSMakeGatherScatterOp base g dim szs strs offs \<Rightarrow>
             rewriteScatter pt g dim szs strs offs (remapped cv base) dims (remapped cv storeValue)
         | _ \<Rightarrow>
             bindM (getM (\<lambda>s. (tyOf s storeValue, tyOf s (remapped cv p)))) (\<lambda>(vt, mt).
             thenM (assertM (isTensor vt \<and> isMemRef mt))
             (let rank = length (shapeOf vt) in
              if rank = 0 \<and> length (shapeOf mt) = 1 then storeScalar storeValue vt (remapped cv p) dims
              else
                bindM (convertStoreValue storeValue vt (elemTy mt)) (\<lambda>x.
                if dims \<noteq> [] then storeSlice rank dims x (remapped cv p)
                else if bc \<noteq> [] then
                  bindM (boundarySizes (remapped cv p)) (\<lambda>(szs, q). storeSlice rank szs x q)
                else ret [MaterializeS x (remapped cv p)]))))
     | _ \<Rightarrow> raise Abort)"

end
