(* ===== verification/Memref_Sem.thy ===== *)
theory Memref_Sem
  imports Memref_Access Ptr_Sound
begin

text \<open>
  What the memrefs denote and what the statements do.  A memory maps locations to elements: a byte
  address, or a place of a buffer that the code allocates.
\<close>

section \<open>Memrefs\<close>

datatype loc = Addr int | Slot val int

type_synonym memory = "loc \<Rightarrow> int"

record view =
  place :: "int \<Rightarrow> loc"
  moffset :: int
  msizes :: "int list"
  mstrides :: "int list"

fun dot :: "int list \<Rightarrow> int list \<Rightarrow> int" where
  "dot (a # as) (i # idx) = i * a + dot as idx"
| "dot _ _ = 0"

fun rowMajor :: "int list \<Rightarrow> int list" where
  "rowMajor [] = []"
| "rowMajor (n # sh) = prod_list sh # rowMajor sh"

definition locOf :: "view \<Rightarrow> int list \<Rightarrow> loc" where
  "locOf d idx = place d (moffset d + dot (mstrides d) idx)"

text \<open>A memref that is not made by one of the operations below is a pointer to its elements.\<close>

definition pointerDesc :: "env \<Rightarrow> ir \<Rightarrow> val \<Rightarrow> view" where
  "pointerDesc E s v = \<lparr>place = (\<lambda>k. Addr (wrap 64 (E v [] + byteSize (elemTy (tyOf s v)) * k))), moffset = 0,
     msizes = shapeOf (tyOf s v), mstrides = rowMajor (shapeOf (tyOf s v))\<rparr>"

fun descAt :: "nat \<Rightarrow> env \<Rightarrow> ir \<Rightarrow> val \<Rightarrow> view" where
  "descAt 0 E s v = pointerDesc E s v"
| "descAt (Suc n) E s v = (case defOp s v of
     MemAllocOp \<Rightarrow> \<lparr>place = Slot v, moffset = 0, msizes = shapeOf (tyOf s v), mstrides = rowMajor (shapeOf (tyOf s v))\<rparr>
   | ReinterpretCastOp b off szs strs lo ls \<Rightarrow>
       (descAt n E s b)\<lparr>moffset := osem E s off, msizes := map (osem E s) szs, mstrides := map (osem E s) strs\<rparr>
   | SubViewOp b offs szs strs \<Rightarrow>
       (let d = descAt n E s b in d\<lparr>moffset := moffset d + dot (mstrides d) (map (osem E s) offs),
          msizes := map (osem E s) szs, mstrides := map2 (*) (mstrides d) (map (osem E s) strs)\<rparr>)
   | MemCastOp b \<Rightarrow> descAt n E s b
   | MemTransposeOp b perm \<Rightarrow>
       (let d = descAt n E s b in d\<lparr>msizes := map ((!) (msizes d)) perm, mstrides := map ((!) (mstrides d)) perm\<rparr>)
   | UnrealizedCastOp xs w \<Rightarrow>
       (case xs of [b] \<Rightarrow> if isMemRef (tyOf s b) then descAt n E s b else pointerDesc E s v | _ \<Rightarrow> pointerDesc E s v)
   | _ \<Rightarrow> pointerDesc E s v)"

definition desc :: "env \<Rightarrow> ir \<Rightarrow> val \<Rightarrow> view" where
  "desc E s v = descAt (Suc v) E s v"

lemma descAt_enough:
  assumes "wf_ir s" "valid s v" "v < n"
  shows "descAt n E s v = desc E s v"
  using assms(2,3)
proof (induction v arbitrary: n rule: less_induct)
  case (less v)
  then obtain m where n: "n = Suc m" "v \<le> m" by (cases n) auto
  have "descAt m E s b = descAt v E s b" if "b \<in> operands (defOp s v)" for b
  proof -
    have b: "b < v" "valid s b" using wf_ir_operand [OF assms(1) less.prems(1) that] wf_operand_valid [OF assms(1) less.prems(1) that] by auto
    show ?thesis using less.IH [OF b, of m] less.IH [OF b, of v] b(1) n(2) by simp
  qed
  then show ?case by (cases "defOp s v") (auto simp: n(1) desc_def Let_def split: list.split)
qed

lemma desc_unfold:
  assumes "wf_ir s" "valid s v"
  shows "desc E s v = (case defOp s v of
     MemAllocOp \<Rightarrow> \<lparr>place = Slot v, moffset = 0, msizes = shapeOf (tyOf s v), mstrides = rowMajor (shapeOf (tyOf s v))\<rparr>
   | ReinterpretCastOp b off szs strs lo ls \<Rightarrow>
       (desc E s b)\<lparr>moffset := osem E s off, msizes := map (osem E s) szs, mstrides := map (osem E s) strs\<rparr>
   | SubViewOp b offs szs strs \<Rightarrow>
       (let d = desc E s b in d\<lparr>moffset := moffset d + dot (mstrides d) (map (osem E s) offs),
          msizes := map (osem E s) szs, mstrides := map2 (*) (mstrides d) (map (osem E s) strs)\<rparr>)
   | MemCastOp b \<Rightarrow> desc E s b
   | MemTransposeOp b perm \<Rightarrow>
       (let d = desc E s b in d\<lparr>msizes := map ((!) (msizes d)) perm, mstrides := map ((!) (mstrides d)) perm\<rparr>)
   | UnrealizedCastOp xs w \<Rightarrow>
       (case xs of [b] \<Rightarrow> if isMemRef (tyOf s b) then desc E s b else pointerDesc E s v | _ \<Rightarrow> pointerDesc E s v)
   | _ \<Rightarrow> pointerDesc E s v)"
proof -
  have "descAt v E s b = desc E s b" if "b \<in> operands (defOp s v)" for b
    using wf_ir_operand [OF assms that] wf_operand_valid [OF assms that] by (intro descAt_enough [OF assms(1)])
  then show ?thesis by (cases "defOp s v") (auto simp: desc_def [of E s v] Let_def split: list.split)
qed

lemma osem_vals:
  assumes "grows s t" "\<And>a. a \<in> ofrVals x \<Longrightarrow> valid s a"
  shows "osem E t x = osem E s x"
  unfolding osem_def by (rule ofrSem_cong) (use assms eval_grows in blast)

lemma osem_vals_list:
  assumes "grows s t" "\<And>x a. x \<in> set xs \<Longrightarrow> a \<in> ofrVals x \<Longrightarrow> valid s a"
  shows "map (osem E t) xs = map (osem E s) xs"
  using osem_vals [OF assms(1)] assms(2) by simp

lemma desc_grows:
  assumes g: "grows s t" and wf: "wf_ir s" and v: "valid s v"
  shows "desc E t v = desc E s v"
  using v
proof (induction v rule: less_induct)
  case (less v)
  note v' = valid_grows [OF g less.prems] and d = defOp_grows [OF g less.prems] and ty = tyOf_grows [OF g less.prems]
  have ops: "valid s b" "desc E t b = desc E s b" "tyOf t b = tyOf s b" if "b \<in> operands (defOp s v)" for b
    using less.IH [OF wf_ir_operand [OF wf less.prems that]] wf_operand_valid [OF wf less.prems that] tyOf_grows [OF g] by auto
  have x: "osem E t x = osem E s x" if "ofrVals x \<subseteq> operands (defOp s v)" for x
    using osem_vals [OF g] that ops(1) by blast
  have p: "pointerDesc E t v = pointerDesc E s v" by (simp add: pointerDesc_def ty)
  note u = desc_unfold [OF growsD(2) [OF g] v', of E] desc_unfold [OF wf less.prems, of E]
  show ?case
  proof (cases "defOp s v")
    case (ReinterpretCastOp b off szs strs lo ls)
    then have "osem E t off = osem E s off" "map (osem E t) szs = map (osem E s) szs" "map (osem E t) strs = map (osem E s) strs"
      by (auto intro!: x)
    then show ?thesis using u ops(2) [of b] ReinterpretCastOp by (simp add: d)
  next
    case (SubViewOp b offs szs strs)
    then have "map (osem E t) offs = map (osem E s) offs" "map (osem E t) szs = map (osem E s) szs" "map (osem E t) strs = map (osem E s) strs"
      by (auto intro!: x)
    then show ?thesis using u ops(2) [of b] SubViewOp by (simp add: d Let_def cong: map_cong)
  next
    case (UnrealizedCastOp ys w)
    then show ?thesis using u ops(2,3) p by (simp add: d split: list.split)
  qed (use u ops p in \<open>simp_all add: d ty Let_def\<close>)
qed

section \<open>Statements\<close>

fun indices :: "int list \<Rightarrow> int list list" where
  "indices [] = [[]]"
| "indices (n # sh) = concat (map (\<lambda>i. map ((#) i) (indices sh)) [0..n - 1])"

definition writeAll :: "view \<Rightarrow> (int list \<Rightarrow> int) \<Rightarrow> int list list \<Rightarrow> memory \<Rightarrow> memory" where
  "writeAll d f idxs M = foldl (\<lambda>M idx. M(locOf d idx := f idx)) M idxs"

definition indexOf :: "env \<Rightarrow> ir \<Rightarrow> val list \<Rightarrow> int list" where
  "indexOf E s xs = map (\<lambda>x. eval E s x []) xs"

fun exec :: "env \<Rightarrow> ir \<Rightarrow> stmt list \<Rightarrow> memory \<Rightarrow> memory" where
  "exec E s [] M = M"
| "exec E s (FillS x b # r) M = exec E s r (writeAll (desc E s b) (\<lambda>_. eval E s x []) (indices (msizes (desc E s b))) M)"
| "exec E s (CopyS a b # r) M =
     exec E s r (writeAll (desc E s b) (\<lambda>idx. M (locOf (desc E s a) idx)) (indices (msizes (desc E s b))) M)"
| "exec E s (MaterializeS x b # r) M = exec E s r (writeAll (desc E s b) (eval E s x) (indices (msizes (desc E s b))) M)"
| "exec E s (StoreS x b ixs # r) M = exec E s r (M(locOf (desc E s b) (indexOf E s ixs) := eval E s x []))"
| "exec E s (LoadStoreS a ia b ib # r) M =
     exec E s r (M(locOf (desc E s b) (indexOf E s ib) := M (locOf (desc E s a) (indexOf E s ia))))"
| "exec E s (IfS c body # r) M = exec E s r (if eval E s c [] \<noteq> 0 then exec E s body M else M)"
| "exec E s (ForS iv lb ub body # r) M =
     exec E s r (foldl (\<lambda>M i. exec (E(iv := \<lambda>_. i)) s body M) M [eval E s lb []..eval E s ub [] - 1])"

lemma exec_append: "exec E s (xs @ ys) M = exec E s ys (exec E s xs M)"
  by (induction E s xs M rule: exec.induct) (simp_all add: fun_upd_def)

section \<open>Indices\<close>

lemma inB_Cons: "inB (n # sh) idx \<longleftrightarrow> (\<exists>i js. idx = i # js \<and> 0 \<le> i \<and> i < n \<and> inB sh js)"
  by (auto simp: inB_def list_all2_Cons1)

lemma set_indices: "set (indices sh) = {idx. inB sh idx}"
proof (induction sh)
  case (Cons n sh)
  show ?case by (auto simp: Cons inB_Cons)
qed simp

lemma distinct_indices: "distinct (indices sh)"
proof (induction sh)
  case (Cons n sh)
  have "inj_on (\<lambda>i. map ((#) i) (indices sh)) {0..n - 1} \<or> indices sh = []"
    by (cases "indices sh") (auto simp: inj_on_def)
  have "distinct (concat (map (\<lambda>i. map ((#) i) (indices sh)) is))" if "distinct is" for "is" :: "int list"
    using that by (induction "is") (auto simp: distinct_map Cons inj_on_def)
  then show ?case by simp
qed simp

text \<open>The indices of a part of a box are those of the box that lie in it, in the same order.\<close>

lemma filter_upto:
  assumes "m \<le> n"
  shows "filter (\<lambda>i. i < m) [0..n - 1] = [0..m - (1 :: int)]"
proof -
  have "sorted_wrt (<) (filter (\<lambda>i. i < m) [0..n - 1])" by (intro sorted_wrt_filter sorted_wrt_upto)
  moreover have "set (filter (\<lambda>i. i < m) [0..n - 1]) = set [0..m - 1]" using assms by auto
  ultimately show ?thesis by (intro strict_sorted_equal) (simp_all add: sorted_wrt_upto)
qed

lemma filter_concat_map: "filter P (concat (map f xs)) = concat (map (\<lambda>x. filter P (f x)) xs)"
  by (induction xs) simp_all

lemma concat_map_filter:
  "(\<And>x. x \<in> set xs \<Longrightarrow> \<not> P x \<Longrightarrow> f x = []) \<Longrightarrow> concat (map f xs) = concat (map f (filter P xs))"
  by (induction xs) auto

lemma indices_part:
  "list_all2 (\<le>) ds sh \<Longrightarrow> filter (inB ds) (indices sh) = indices ds"
proof (induction ds sh rule: list_all2_induct)
  case (Cons d ds n sh)
  have "filter (inB (d # ds)) (map ((#) i) (indices sh)) = map ((#) i) (filter (\<lambda>js. 0 \<le> i \<and> i < d \<and> inB ds js) (indices sh))" for i
    by (simp add: filter_map comp_def inB_Cons)
  then have "filter (inB (d # ds)) (indices (n # sh)) =
      concat (map (\<lambda>i. map ((#) i) (filter (\<lambda>js. 0 \<le> i \<and> i < d \<and> inB ds js) (indices sh))) [0..n - 1])"
    by (simp add: filter_concat_map)
  also have "\<dots> = concat (map (\<lambda>i. map ((#) i) (filter (\<lambda>js. 0 \<le> i \<and> i < d \<and> inB ds js) (indices sh))) (filter (\<lambda>i. i < d) [0..n - 1]))"
    by (rule concat_map_filter) auto
  also have "\<dots> = concat (map (\<lambda>i. map ((#) i) (filter (\<lambda>js. 0 \<le> i \<and> i < d \<and> inB ds js) (indices sh))) [0..d - 1])"
    using Cons by (simp only: filter_upto)
  also have "\<dots> = concat (map (\<lambda>i. map ((#) i) (filter (inB ds) (indices sh))) [0..d - 1])"
    by (intro arg_cong [of _ _ concat] map_cong) (auto intro: filter_cong)
  finally show ?case by (simp add: Cons)
qed simp

lemma dot_add: "length as = length idx \<Longrightarrow> dot as (map2 (+) idx jdx) = dot as idx + dot as jdx"
  if "length idx = length jdx"
  using that
proof (induction as idx arbitrary: jdx rule: dot.induct)
  case (1 a as i idx)
  then show ?case by (cases jdx) (simp_all add: algebra_simps)
qed simp_all

lemma dot_zeros [simp]: "dot as (replicate n 0) = 0"
proof (induction as arbitrary: n)
  case (Cons a as)
  then show ?case by (cases n) simp_all
qed simp

lemma rowMajor_length [simp]: "length (rowMajor sh) = length sh"
  by (induction sh) simp_all

lemma dot_rowMajor_bound:
  assumes "inB sh idx"
  shows "0 \<le> dot (rowMajor sh) idx \<and> dot (rowMajor sh) idx < prod_list sh"
  using assms
proof (induction sh arbitrary: idx)
  case (Cons n sh)
  then obtain i js where i: "idx = i # js" "0 \<le> i" "i < n" "inB sh js" by (auto simp: inB_Cons)
  note IH = Cons.IH [OF i(4)]
  then have "(i + 1) * prod_list sh \<le> n * prod_list sh" using i by (intro mult_right_mono) auto
  then show ?case using i IH by (auto simp: algebra_simps)
qed simp

lemma dot_rowMajor_inj:
  assumes "inB sh idx" "inB sh jdx" "dot (rowMajor sh) idx = dot (rowMajor sh) jdx"
  shows "idx = jdx"
  using assms
proof (induction sh arbitrary: idx jdx)
  case (Cons n sh)
  then obtain i "is" j js where i: "idx = i # is" "inB sh is" and j: "jdx = j # js" "inB sh js" by (auto simp: inB_Cons)
  let ?p = "prod_list sh" and ?a = "dot (rowMajor sh) is" and ?b = "dot (rowMajor sh) js"
  have b: "0 \<le> ?a" "?a < ?p" "0 \<le> ?b" "?b < ?p" using dot_rowMajor_bound i(2) j(2) by auto
  have e: "i * ?p + ?a = j * ?p + ?b" using Cons.prems(3) i j by simp
  have "i = (i * ?p + ?a) div ?p" "j = (j * ?p + ?b) div ?p" using b by simp_all
  then have "i = j" using e by simp
  then show ?case using e Cons.IH [OF i(2) j(2)] i j by simp
qed simp

section \<open>Writing\<close>

lemma writeAll_other: "(\<And>idx. idx \<in> set idxs \<Longrightarrow> locOf d idx \<noteq> l) \<Longrightarrow> writeAll d f idxs M l = M l"
  unfolding writeAll_def by (induction idxs arbitrary: M) auto

lemma writeAll_at:
  assumes "idx \<in> set idxs" "\<And>i j. i \<in> set idxs \<Longrightarrow> j \<in> set idxs \<Longrightarrow> locOf d i = locOf d j \<Longrightarrow> f i = f j"
  shows "writeAll d f idxs M (locOf d idx) = f idx"
  using assms
proof (induction idxs arbitrary: M rule: rev_induct)
  case (snoc i idxs)
  show ?case
  proof (cases "locOf d i = locOf d idx")
    case True
    then show ?thesis using snoc.prems(2) [of i idx] snoc.prems(1) by (simp add: writeAll_def)
  next
    case False
    then have "idx \<in> set idxs" using snoc.prems(1) by auto
    then show ?thesis using snoc.IH [of M] snoc.prems(2) False by (simp add: writeAll_def)
  qed
qed simp

lemma writeAll_cong:
  "(\<And>idx. idx \<in> set idxs \<Longrightarrow> locOf d idx = locOf d' idx \<and> f idx = g idx) \<Longrightarrow> writeAll d f idxs M = writeAll d' g idxs M"
  unfolding writeAll_def by (intro foldl_cong) auto

end
