(* ===== verification/Memref_Sound.thy ===== *)
theory Memref_Sound
  imports Memref_Sem LoadStore_Sound
begin

text \<open>
  What the views and buffers denote, and what the statements of a load and of a store leave in the
  memory.
\<close>

section \<open>Creating views and buffers\<close>

lemma unwrapCasts_enough:
  assumes "wf_ir s" "valid s v" "v \<le> n"
  shows "unwrapCasts n s v = unwrapSubviewSource s v"
  using assms(2,3)
proof (induction v arbitrary: n rule: less_induct)
  case (less v)
  show ?case
  proof (cases "v = 0")
    case True
    then have "operands (defOp s v) = {}" using wf_ir_operand [OF assms(1) less.prems(1)] by auto
    then show ?thesis using True by (cases n; cases "defOp s v") (auto simp: unwrapSubviewSource_def split: list.split)
  next
    case False
    then obtain m k where n: "n = Suc m" "v = Suc k" "k \<le> m" using less.prems(2) by (cases n; cases v) auto
    have "unwrapCasts m s b = unwrapCasts k s b" if "b \<in> operands (defOp s v)" for b
    proof -
      have b: "b < v" "valid s b" using wf_ir_operand [OF assms(1) less.prems(1) that] wf_operand_valid [OF assms(1) less.prems(1) that] by auto
      show ?thesis using less.IH [OF b, of m] less.IH [OF b, of k] b(1) n by simp
    qed
    then have "unwrapCasts n s v = unwrapCasts v s v" using n by (cases "defOp s v") (auto split: list.split)
    then show ?thesis by (simp add: unwrapSubviewSource_def)
  qed
qed

lemma unwrap_unfold:
  assumes "wf_ir s" "valid s v"
  shows "unwrapSubviewSource s v = (case defOp s v of
     MemCastOp a \<Rightarrow> unwrapSubviewSource s a
   | UnrealizedCastOp xs w \<Rightarrow>
       (case xs of [a] \<Rightarrow>
          if w = None \<and> isMemRef (tyOf s a) \<and> isMemRef (tyOf s v) then unwrapSubviewSource s a else v
        | _ \<Rightarrow> v)
   | _ \<Rightarrow> v)"
proof -
  have "unwrapCasts v s b = unwrapSubviewSource s b" if "b \<in> operands (defOp s v)" for b
    using wf_ir_operand [OF assms that] wf_operand_valid [OF assms that] by (intro unwrapCasts_enough [OF assms(1)]) auto
  moreover have "unwrapSubviewSource s v = unwrapCasts (Suc v) s v" by (rule unwrapCasts_enough [OF assms, symmetric]) simp
  ultimately show ?thesis by (cases "defOp s v") (auto split: list.split)
qed

lemma unwrap_desc:
  assumes "wf_ir s" "valid s v"
  shows "valid s (unwrapSubviewSource s v) \<and> desc E s (unwrapSubviewSource s v) = desc E s v"
  using assms(2)
proof (induction v rule: less_induct)
  case (less v)
  have "valid s (unwrapSubviewSource s b) \<and> desc E s (unwrapSubviewSource s b) = desc E s b" if "b \<in> operands (defOp s v)" for b
    using less.IH [OF wf_ir_operand [OF assms(1) less.prems that]] wf_operand_valid [OF assms(1) less.prems that] by blast
  then show ?case using less.prems unwrap_unfold [OF assms(1) less.prems] desc_unfold [OF assms(1) less.prems, of E]
    by (cases "defOp s v") (auto split: list.split)
qed

lemma wp_subview:
  assumes wf: "wf_ir s" and v: "valid s src" "tyOf s src = MemRefTy sh e"
    and x: "\<And>x a. x \<in> set offs \<union> set szs \<union> set strs \<Longrightarrow> a \<in> ofrVals x \<Longrightarrow> valid s a"
    and post: "\<And>v t. grows s t \<Longrightarrow> valid t v \<Longrightarrow> tyOf t v = MemRefTy (map staticDim szs) e \<Longrightarrow> defOp t v = SubViewOp src offs szs strs \<Longrightarrow>
      (\<And>E. desc E t v = (let d = desc E s src in d\<lparr>moffset := moffset d + dot (mstrides d) (map (osem E s) offs),
         msizes := map (osem E s) szs, mstrides := map2 (*) (mstrides d) (map (osem E s) strs)\<rparr>)) \<Longrightarrow> Q v t"
  shows "wp (createSubview src offs szs strs) Q s"
proof -
  have "wp (create (SubViewOp src offs szs strs) (MemRefTy (map staticDim szs) e)) Q s"
  proof (rule wp_create [OF wf])
    show "\<forall>a \<in> operands (SubViewOp src offs szs strs). valid s a" using v(1) x by auto
    fix v t assume t: "grows s t" "valid t v" "defOp t v = SubViewOp src offs szs strs" "tyOf t v = MemRefTy (map staticDim szs) e"
    have m: "map (osem E t) offs = map (osem E s) offs" "map (osem E t) szs = map (osem E s) szs"
        "map (osem E t) strs = map (osem E s) strs" for E
      by (rule osem_vals_list [OF t(1)]; use x in blast)+
    show "Q v t"
    proof (rule post [OF t(1,2,4,3)])
      fix E show "desc E t v = (let d = desc E s src in d\<lparr>moffset := moffset d + dot (mstrides d) (map (osem E s) offs),
         msizes := map (osem E s) szs, mstrides := map2 (*) (mstrides d) (map (osem E s) strs)\<rparr>)"
        using desc_unfold [OF growsD(2) [OF t(1)] t(2), of E] t(3) m desc_grows [OF t(1) wf v(1)]
        by (simp add: Let_def cong: map_cong)
    qed
  qed simp
  then show ?thesis using v(2) by (simp add: createSubview_def wp_simps)
qed

lemma map2_ones: "length xs = n \<Longrightarrow> map2 (*) xs (replicate n (1 :: int)) = xs"
proof (induction xs arbitrary: n)
  case (Cons x xs)
  then show ?case by (cases n) auto
qed simp

lemma osem_zeros [simp]: "map (osem E s) (zeroOffsets n) = replicate n 0"
  by (simp add: zeroOffsets_def)

lemma osem_ones [simp]: "map (osem E s) (unitStrides n) = replicate n 1"
proof -
  have "wrap 64 1 = 1" by (rule wrap_in64) (simp add: in64_def)
  then show ?thesis by (simp add: unitStrides_def)
qed

lemma wp_getSubviewOf:
  assumes wf: "wf_ir s" and v: "valid s p" "isMemRef (tyOf s (unwrapSubviewSource s p))"
    and x: "\<And>x. x \<in> set dims \<Longrightarrow> idx_ofr s x" and l: "\<And>E. length (mstrides (desc E s p)) = rank"
    and post: "\<And>v t. grows s t \<Longrightarrow> valid t v \<Longrightarrow> (\<And>E. desc E t v = (desc E s p)\<lparr>msizes := map (osem E s) dims\<rparr>) \<Longrightarrow> Q v t"
  shows "wp (getSubviewOf rank dims p) Q s"
proof -
  let ?q = "unwrapSubviewSource s p"
  note u = unwrap_desc [OF wf v(1)]
  obtain sh e where ty: "tyOf s ?q = MemRefTy sh e" using v(2) by (cases "tyOf s ?q") auto
  have "wp (createSubview ?q (zeroOffsets rank) dims (unitStrides rank)) Q s"
  proof (rule wp_subview [OF wf _ ty])
    show "valid s ?q" using u by blast
    fix x a assume "x \<in> set (zeroOffsets rank) \<union> set dims \<union> set (unitStrides rank)" "a \<in> ofrVals x"
    then show "valid s a" using x idx_ofr_vals by (auto simp: zeroOffsets_def unitStrides_def getIndexAttr_def split: if_splits)
  next
    fix v t assume t: "grows s t" "valid t v" and d: "\<And>E. desc E t v = (let d = desc E s ?q in d\<lparr>moffset := moffset d + dot (mstrides d) (map (osem E s) (zeroOffsets rank)),
         msizes := map (osem E s) dims, mstrides := map2 (*) (mstrides d) (map (osem E s) (unitStrides rank))\<rparr>)"
    have "desc E t v = (desc E s p)\<lparr>msizes := map (osem E s) dims\<rparr>" for E
      using d [of E] u l [of E] by (simp add: Let_def map2_ones)
    then show "Q v t" by (rule post [OF t])
  qed
  then show ?thesis using v(2) by (simp add: getSubviewOf_def wp_simps)
qed

definition bufferDesc :: "val \<Rightarrow> int list \<Rightarrow> view" where
  "bufferDesc b sh = \<lparr>place = Slot b, moffset = 0, msizes = sh, mstrides = rowMajor sh\<rparr>"

lemma bufferDesc_simps [simp]:
  "place (bufferDesc b sh) = Slot b" "moffset (bufferDesc b sh) = 0" "msizes (bufferDesc b sh) = sh" "mstrides (bufferDesc b sh) = rowMajor sh"
  by (simp_all add: bufferDesc_def)

lemma locOf_buffer: "locOf (bufferDesc b sh) idx = Slot b (dot (rowMajor sh) idx)"
  by (simp add: locOf_def)

lemma locOf_msizes [simp]: "locOf (d\<lparr>msizes := xs\<rparr>) idx = locOf d idx"
  by (simp add: locOf_def)

lemma wp_allocFor:
  assumes "wf_ir s" "t = TensorTy sh e"
    and "\<And>b u. grows s u \<Longrightarrow> valid u b \<Longrightarrow> defOp u b = MemAllocOp \<Longrightarrow> tyOf u b = MemRefTy sh e \<Longrightarrow> (\<And>E. desc E u b = bufferDesc b sh) \<Longrightarrow> Q b u"
  shows "wp (allocFor t) Q s"
  using assms(2)
  by (simp add: allocFor_def wp_simps)
    (rule wp_create [OF assms(1)], simp_all add: assms(3) desc_unfold growsD(2) bufferDesc_def)

section \<open>Filling and copying\<close>

lemma wrap1 [simp]: "wrap (Suc 0) (- 1) = - 1" "wrap 64 1 = 1"
  by (simp_all add: wrap_def)

lemma wp_zeroConstant:
  assumes "wf_ir s" "isIntTy e \<or> (\<exists>w. e = FloatTy w)"
    and "\<And>z u. grows s u \<Longrightarrow> valid u z \<Longrightarrow> tyOf u z = e \<Longrightarrow> (\<And>E. isIntTy e \<Longrightarrow> eval E u z [] = 0) \<Longrightarrow> Q z u"
  shows "wp (zeroConstant e) Q s"
proof (cases e)
  case (IntTy w)
  show ?thesis unfolding IntTy zeroConstant_def ty.case
    by (rule wp_create [OF assms(1)]) (use IntTy assms(3) in \<open>simp_all add: denOp_def norm_def\<close>)
next
  case (FloatTy w)
  show ?thesis unfolding FloatTy zeroConstant_def ty.case
    by (rule wp_create [OF assms(1)]) (use FloatTy assms(3) in simp_all)
qed (use assms(2) in simp_all)

text \<open>The guard of the fill: some dimension is smaller than the shape.\<close>

definition fillDim :: "env \<Rightarrow> ir \<Rightarrow> ofr \<Rightarrow> int \<Rightarrow> int" where
  "fillDim E s d m = (case d of Val x \<Rightarrow> eval E s x [] | Attr _ \<Rightarrow> wrap 64 m)"

definition fillsBelow :: "env \<Rightarrow> ir \<Rightarrow> int list \<Rightarrow> ofr list \<Rightarrow> int list \<Rightarrow> nat \<Rightarrow> bool" where
  "fillsBelow E s sh dims stat n \<longleftrightarrow> (\<exists>i < n. fillDim E s (dims ! i) (stat ! i) < sh ! i)"

definition guardOk :: "ir \<Rightarrow> int list \<Rightarrow> ofr list \<Rightarrow> int list \<Rightarrow> nat \<Rightarrow> val \<Rightarrow> ir \<Rightarrow> bool" where
  "guardOk s sh dims stat n acc u \<longleftrightarrow> grows s u \<and> valid u acc \<and> tyOf u acc = IntTy 1 \<and>
     (\<forall>E. eval E u acc [] = (if fillsBelow E s sh dims stat n then -1 else 0))"

lemma wp_fillGuard_step:
  assumes I: "guardOk s sh dims stat i acc u" and g: "grows u u1" and n: "valid u1 shapei" "\<And>E. eval E u1 shapei [] = sh ! i"
    and d: "valid u1 dimi" "tyOf u1 dimi = IndexTy" "\<And>E. eval E u1 dimi [] = fillDim E s (dims ! i) (stat ! i)"
  shows "wp (create (CmpIOp Slt dimi shapei) (IntTy 1)) (\<lambda>cmp. wp (create (BinOp OrI acc cmp) (IntTy 1)) (guardOk s sh dims stat (Suc i))) u1"
proof (rule wp_create [OF growsD(2) [OF g]])
  show "\<forall>a \<in> operands (CmpIOp Slt dimi shapei). valid u1 a" using d(1) n(1) by simp
  fix c u3 assume c: "grows u1 u3" "valid u3 c" "tyOf u3 c = IntTy 1"
    "\<And>E idx. eval E u3 c idx = norm (IntTy 1) (denOp E (tyOf u1) (eval E u1) c (CmpIOp Slt dimi shapei) (IntTy 1) idx)"
  have g3: "grows u u3" using g c(1) grows_trans by blast
  have a3: "valid u3 acc" "eval E u3 acc = eval E u acc" for E using I valid_grows [OF g3] eval_grows [OF g3] by (auto simp: guardOk_def)
  have ec: "eval E u3 c [] = (if fillDim E s (dims ! i) (stat ! i) < sh ! i then -1 else 0)" for E
    using c(4) [of E "[]"] d n by (simp add: denOp_def norm_def)
  show "wp (create (BinOp OrI acc c) (IntTy 1)) (guardOk s sh dims stat (Suc i)) u3"
  proof (rule wp_create [OF growsD(2) [OF c(1)]])
    show "\<forall>a \<in> operands (BinOp OrI acc c). valid u3 a" using a3 c(2) by simp
    fix r u4 assume r: "grows u3 u4" "valid u4 r" "tyOf u4 r = IntTy 1"
      "\<And>E idx. eval E u4 r idx = norm (IntTy 1) (denOp E (tyOf u3) (eval E u3) r (BinOp OrI acc c) (IntTy 1) idx)"
    have "grows s u4" using I g3 r(1) grows_trans by (auto simp: guardOk_def)
    moreover have "eval E u4 r [] = (if fillsBelow E s sh dims stat (Suc i) then -1 else 0)" for E
      using r(4) [of E "[]"] I a3(2) ec by (auto simp: guardOk_def denOp_def norm_def fillsBelow_def less_Suc_eq)
    ultimately show "guardOk s sh dims stat (Suc i) r u4" using r(2,3) by (simp add: guardOk_def)
  qed simp
qed simp

lemma wp_fillGuard:
  assumes I: "guardOk s sh dims stat i acc u" and i: "i < length sh" "i < length dims" "i < length stat"
    and x: "idx_ofr s (dims ! i)" and n: "in64 (sh ! i)"
  shows "wp (fillGuard sh dims stat acc i) (guardOk s sh dims stat (Suc i)) u"
proof -
  have g: "grows s u" using I by (simp add: guardOk_def)
  let ?K = "\<lambda>shapei dimi. wp (create (CmpIOp Slt dimi shapei) (IntTy 1)) (\<lambda>cmp. wp (create (BinOp OrI acc cmp) (IntTy 1)) (guardOk s sh dims stat (Suc i)))"
  have "wp (createIndexConst (sh ! i)) (\<lambda>shapei. wp (case dims ! i of Val x \<Rightarrow> ret x | Attr _ \<Rightarrow> createIndexConst (stat ! i)) (?K shapei)) u"
  proof (rule wp_createIndexConst [OF growsD(2) [OF g]])
    fix shapei u1 assume s1: "grows u u1" "valid u1 shapei" "\<And>E idx. eval E u1 shapei idx = wrap 64 (sh ! i)"
    have n': "eval E u1 shapei [] = sh ! i" for E using n s1(3) by (simp add: wrap_in64)
    have g1: "grows s u1" using grows_trans g s1(1) by blast
    show "wp (case dims ! i of Val x \<Rightarrow> ret x | Attr _ \<Rightarrow> createIndexConst (stat ! i)) (?K shapei) u1"
    proof (cases "dims ! i")
      case (Attr a)
      have "wp (createIndexConst (stat ! i)) (?K shapei) u1"
      proof (rule wp_createIndexConst [OF growsD(2) [OF s1(1)]])
        fix d u2 assume d: "grows u1 u2" "valid u2 d" "tyOf u2 d = IndexTy" "\<And>E idx. eval E u2 d idx = wrap 64 (stat ! i)"
        show "?K shapei d u2"
          by (rule wp_fillGuard_step [OF I grows_trans [OF s1(1) d(1)]])
            (use d n' Attr valid_grows [OF d(1) s1(2)] eval_grows [OF d(1) s1(2)] in \<open>simp_all add: fillDim_def\<close>)
      qed
      then show ?thesis using Attr by simp
    next
      case (Val y)
      then have "valid s y" "tyOf s y = IndexTy" using x by simp_all
      then have "?K shapei y u1"
        by (intro wp_fillGuard_step [OF I s1(1,2) n'])
          (use Val valid_grows [OF g1] tyOf_grows [OF g1] eval_grows [OF g1] in \<open>simp_all add: fillDim_def\<close>)
      then show ?thesis using Val by (simp add: wp_ret)
    qed
  qed
  moreover have "(case dims ! i of Val x \<Rightarrow> ret x | Attr _ \<Rightarrow> bindM (atM stat i) createIndexConst) = (case dims ! i of Val x \<Rightarrow> ret x | Attr _ \<Rightarrow> createIndexConst (stat ! i))"
    using i(3) by (simp add: atM_def split: gofr.split)
  ultimately show ?thesis using i(1,2) by (simp add: fillGuard_def wp_bindM wp_atM)
qed

lemma wp_fillWithValue:
  assumes wf: "wf_ir s" and x: "\<And>d. d \<in> set dims \<Longrightarrow> idx_ofr s d" and l: "length dims = length sh" "length stat = length sh"
    and n: "\<And>n. n \<in> set sh \<Longrightarrow> in64 n"
    and post: "\<And>acc u. grows s u \<Longrightarrow> valid u acc \<Longrightarrow>
      (\<And>E. eval E u acc [] \<noteq> 0 \<longleftrightarrow> fillsBelow E s sh dims stat (length sh)) \<Longrightarrow> Q [IfS acc [FillS other buffer]] u"
  shows "wp (fillWithValue buffer other sh dims stat) Q s"
proof -
  have base: "wp (create (ConstantOp (IntegerAttr 0 (IntTy 1))) (IntTy 1)) (guardOk s sh dims stat 0) s"
    by (rule wp_create [OF wf]) (simp_all add: denOp_def norm_def guardOk_def fillsBelow_def)
  have loop: "wp (foldM (fillGuard sh dims stat) a [0..<length sh]) (guardOk s sh dims stat (length sh)) u" if "guardOk s sh dims stat 0 a u" for a u
    by (rule wp_foldM [where I = "guardOk s sh dims stat"]) (use that x l n in \<open>auto intro!: wp_fillGuard\<close>)
  have "wp (create (ConstantOp (IntegerAttr 0 (IntTy 1))) (IntTy 1)) (\<lambda>a. wp (foldM (fillGuard sh dims stat) a [0..<length sh])
      (\<lambda>acc. Q [IfS acc [FillS other buffer]])) s"
    by (rule wp_mono [OF base], rule wp_mono [OF loop], assumption) (rule post; simp add: guardOk_def)
  then show ?thesis by (simp add: fillWithValue_def wp_bindM wp_ret)
qed

section \<open>Loads into a buffer\<close>

lemma inB_mono: "inB ds idx \<Longrightarrow> list_all2 (\<le>) ds sh \<Longrightarrow> inB sh idx"
  unfolding inB_def list_all2_conv_all_nth by fastforce

lemma writeAll_buffer:
  assumes "list_all2 (\<le>) ds sh" "inB sh idx"
  shows "writeAll ((bufferDesc b sh)\<lparr>msizes := ds\<rparr>) f (indices ds) M (locOf (bufferDesc b sh) idx) =
    (if inB ds idx then f idx else M (locOf (bufferDesc b sh) idx))"
proof -
  let ?d = "(bufferDesc b sh)\<lparr>msizes := ds\<rparr>"
  have inj: "i = j" if "inB sh i" "inB sh j" "locOf (bufferDesc b sh) i = locOf (bufferDesc b sh) j" for i j
    using that dot_rowMajor_inj by (simp add: locOf_buffer)
  show ?thesis
  proof (cases "inB ds idx")
    case True
    then have "writeAll ?d f (indices ds) M (locOf ?d idx) = f idx"
      using inj inB_mono [OF _ assms(1)] by (intro writeAll_at) (auto simp: set_indices)
    then show ?thesis using True by simp
  next
    case False
    then have "writeAll ?d f (indices ds) M (locOf (bufferDesc b sh) idx) = M (locOf (bufferDesc b sh) idx)"
      using inj inB_mono [OF _ assms(1)] assms(2) by (intro writeAll_other) (auto simp: set_indices)
    then show ?thesis using False by simp
  qed
qed

lemma writeAll_buffer_whole:
  assumes "inB sh idx"
  shows "writeAll (bufferDesc b sh) f (indices sh) M (locOf (bufferDesc b sh) idx) = f idx"
proof -
  have "(bufferDesc b sh)\<lparr>msizes := sh\<rparr> = bufferDesc b sh" by (simp add: bufferDesc_def)
  then show ?thesis using writeAll_buffer [of sh sh idx b f M] assms by (metis list_all2_refl order_refl)
qed

lemma writeAll_Addr: "writeAll ((bufferDesc b sh)\<lparr>msizes := ds\<rparr>) f idxs M (Addr a) = M (Addr a)"
  by (rule writeAll_other) (simp add: locOf_buffer)

text \<open>
  The source of an access: a view all of whose elements are elements of the memory.
\<close>

definition memrefValue :: "ir \<Rightarrow> val \<Rightarrow> bool" where
  "memrefValue s p \<longleftrightarrow> valid s p \<and> \<not> isBlockArg (defOp s p) \<and> (\<forall>xs w. defOp s p \<noteq> UnrealizedCastOp xs w) \<and>
     isMemRef (tyOf s (unwrapSubviewSource s p))"

definition inMemory :: "env \<Rightarrow> ir \<Rightarrow> int list \<Rightarrow> val \<Rightarrow> bool" where
  "inMemory E s sh p \<longleftrightarrow> (\<forall>idx. inB sh idx \<longrightarrow> (\<exists>a. locOf (desc E s p) idx = Addr a))"

lemma memrefValueD:
  assumes "memrefValue s p"
  shows "valid s p" "\<not> isBlockArg (defOp s p)" "defOp s p \<noteq> UnrealizedCastOp xs w" "isMemRef (tyOf s (unwrapSubviewSource s p))"
  using assms by (auto simp: memrefValue_def)

lemma unwrap_grows:
  assumes "grows s t" "wf_ir s" "valid s v"
  shows "unwrapSubviewSource t v = unwrapSubviewSource s v"
  using assms(3)
proof (induction v rule: less_induct)
  case (less v)
  have ops: "unwrapSubviewSource t b = unwrapSubviewSource s b" "tyOf t b = tyOf s b" if "b \<in> operands (defOp s v)" for b
    using less.IH [OF wf_ir_operand [OF assms(2) less.prems that]] wf_operand_valid [OF assms(2) less.prems that] tyOf_grows [OF assms(1)] by auto
  then show ?case
    using unwrap_unfold [OF assms(2) less.prems] unwrap_unfold [OF growsD(2) [OF assms(1)] valid_grows [OF assms(1) less.prems]]
      defOp_grows [OF assms(1) less.prems] tyOf_grows [OF assms(1) less.prems]
    by (cases "defOp s v") (auto split: list.split)
qed

lemma memrefValue_grows: "grows s t \<Longrightarrow> wf_ir s \<Longrightarrow> memrefValue s p \<Longrightarrow> memrefValue t p"
  using unwrap_desc [of s p] unwrap_grows [of s t p]
  by (auto simp: memrefValue_def valid_grows defOp_grows tyOf_grows)

lemma wp_unwrapMaterialization: "memrefValue s p \<Longrightarrow> Q p s \<Longrightarrow> wp (unwrapMaterialization p) Q s"
  by (cases "defOp s p") (auto simp: unwrapMaterialization_def wp_simps memrefValue_def)

lemma wrapBlocks_memref: "memrefValue s p \<Longrightarrow> wrapBlocks s p = None"
  by (cases "defOp s p") (auto simp: wrapBlocks_def memrefValue_def)

text \<open>Copying the part \<open>dims\<close> of a view into the buffer.\<close>

lemma wp_copyDims:
  assumes wf: "wf_ir s" and p: "valid s p" "isMemRef (tyOf s (unwrapSubviewSource s p))"
    and b: "valid s b" "defOp s b = MemAllocOp" "tyOf s b = MemRefTy sh e" "\<And>E. desc E s b = bufferDesc b sh"
    and x: "\<And>x. x \<in> set dims \<Longrightarrow> idx_ofr s x" and l: "\<And>E. length (mstrides (desc E s p)) = length sh"
    and post: "\<And>v w u. grows s u \<Longrightarrow> (\<And>E. desc E u v = (desc E s p)\<lparr>msizes := map (osem E s) dims\<rparr>) \<Longrightarrow>
      (\<And>E. desc E u w = (bufferDesc b sh)\<lparr>msizes := map (osem E s) dims\<rparr>) \<Longrightarrow> valid u v \<Longrightarrow> valid u w \<Longrightarrow> Q [CopyS v w] u"
  shows "wp (copyDims (length sh) dims p b) Q s"
  unfolding copyDims_def wp_bindM wp_ret
proof (rule wp_getSubviewOf [OF wf p x l])
  fix v t assume t: "grows s t" "valid t v" "\<And>E. desc E t v = (desc E s p)\<lparr>msizes := map (osem E s) dims\<rparr>"
  have b': "valid t b" "defOp t b = MemAllocOp" "tyOf t b = MemRefTy sh e" "desc E t b = bufferDesc b sh" for E
    using b valid_grows [OF t(1) b(1)] defOp_grows [OF t(1) b(1)] tyOf_grows [OF t(1) b(1)] desc_grows [OF t(1) wf b(1)] by auto
  have ub: "unwrapSubviewSource t b = b" using unwrap_unfold [OF growsD(2) [OF t(1)] b'(1)] b'(2) by simp
  show "wp (getSubviewOf (length sh) dims b) (\<lambda>w. Q [CopyS v w]) t"
  proof (rule wp_getSubviewOf [OF growsD(2) [OF t(1)] b'(1)])
    show "isMemRef (tyOf t (unwrapSubviewSource t b))" using ub b'(3) by simp
    show "idx_ofr t x" if "x \<in> set dims" for x using x [OF that] idx_ofr_grows [OF t(1)] by blast
    show "length (mstrides (desc E t b)) = length sh" for E using b'(4) by simp
    fix w u assume u: "grows t u" "valid u w" "\<And>E. desc E u w = (desc E t b)\<lparr>msizes := map (osem E t) dims\<rparr>"
    have m: "map (osem E t) dims = map (osem E s) dims" for E using osem_grows [OF t(1) x] by simp
    show "Q [CopyS v w] u"
      by (rule post [OF grows_trans [OF t(1) u(1)]])
        (use t(3) u(2,3) b'(4) m desc_grows [OF u(1) growsD(2) [OF t(1)] t(2)] valid_grows [OF u(1) t(2)] in simp_all)
  qed
qed simp_all

text \<open>What the fill and the copy leave in the buffer.\<close>

lemma exec_copy:
  assumes "desc E u v = d\<lparr>msizes := ds\<rparr>" "desc E u w = (bufferDesc b sh)\<lparr>msizes := ds\<rparr>" "list_all2 (\<le>) ds sh" "inB sh idx"
  shows "exec E u [CopyS v w] M (locOf (bufferDesc b sh) idx) = (if inB ds idx then M (locOf d idx) else M (locOf (bufferDesc b sh) idx))"
  using writeAll_buffer [OF assms(3,4)] by (simp add: assms(1,2))

text \<open>The buffer after a fill, guarded or not, that covers what the copy leaves out.\<close>

definition fillsWith :: "env \<Rightarrow> ir \<Rightarrow> val \<Rightarrow> int list \<Rightarrow> ofr list \<Rightarrow> ir \<Rightarrow> stmt list \<Rightarrow> int \<Rightarrow> bool" where
  "fillsWith E s b sh dims u st c \<longleftrightarrow> (\<forall>t M idx. grows u t \<longrightarrow> inB sh idx \<longrightarrow> \<not> inMask E s dims idx \<longrightarrow>
     exec E t st M (locOf (bufferDesc b sh) idx) = c) \<and> (\<forall>t M a. grows u t \<longrightarrow> exec E t st M (Addr a) = M (Addr a))"

lemma exec_fill:
  assumes "valid u b" "wf_ir u" "desc E u b = bufferDesc b sh" "grows u t" "valid u z"
  shows "exec E t [FillS z b] M = writeAll (bufferDesc b sh) (\<lambda>_. eval E u z []) (indices sh) M"
  using assms desc_grows [OF assms(4,2,1)] eval_grows [OF assms(4,5)] by simp

lemma writeAll_buffer_Addr: "writeAll (bufferDesc b sh) f idxs M (Addr a) = M (Addr a)"
  by (rule writeAll_other) (simp add: locOf_buffer)

lemma fillDim_osem: "idx_ofr s d \<Longrightarrow> fillDim E s d (staticDim d) = osem E s d"
  by (cases d) (auto simp: fillDim_def idx_ofr_def staticDim_def getIntAttr_def wrap_in64 split: attr.splits)

lemma inMask_full:
  assumes "\<not> fillsBelow E s sh dims stat (length sh)" "inB sh idx" "length dims = length sh"
    and "\<And>i. i < length sh \<Longrightarrow> fillDim E s (dims ! i) (stat ! i) = osem E s (dims ! i)"
  shows "inMask E s dims idx"
  using assms by (fastforce simp: fillsBelow_def inMask_def inB_def list_all2_conv_all_nth)

text \<open>
  The tensor of a load: the elements that the statements leave in its buffer, and what they do to
  the rest of the memory, which is nothing.
\<close>

definition readsAs :: "env \<Rightarrow> ir \<Rightarrow> stmt list \<Rightarrow> val \<Rightarrow> int list \<Rightarrow> (memory \<Rightarrow> int list \<Rightarrow> int) \<Rightarrow> bool" where
  "readsAs E u st r sh f \<longleftrightarrow> (\<exists>b. defOp u r = ToTensorOp b \<and>
     (\<forall>M idx. inB sh idx \<longrightarrow> exec E u st M (locOf (desc E u b) idx) = f M idx) \<and>
     (\<forall>M a. exec E u st M (Addr a) = M (Addr a)))"

lemma maskDims_osem: "maskDims E s dims sh \<Longrightarrow> list_all2 (\<le>) (map (osem E s) dims) sh"
  by (auto simp: maskDims_def list_all2_conv_all_nth)

lemma inB_maskDims: "inB sh idx \<Longrightarrow> inB (map (osem E s) dims) idx \<longleftrightarrow> inMask E s dims idx"
  by (auto simp: inB_def inMask_def list_all2_conv_all_nth)

lemma maskDims_idx: "maskDims E s dims sh \<Longrightarrow> d \<in> set dims \<Longrightarrow> idx_ofr s d"
  by (auto simp: in_set_conv_nth dest: maskDims_nth)

lemma wp_fillCopy:
  assumes wf: "wf_ir s" and p: "valid s p" "isMemRef (tyOf s (unwrapSubviewSource s p))"
    and b: "valid s b" "defOp s b = MemAllocOp" "tyOf s b = MemRefTy sh e" "\<And>E. desc E s b = bufferDesc b sh"
    and x: "maskDims E s dims sh" and l: "\<And>E. length (mstrides (desc E s p)) = length sh" and m: "inMemory E s sh p"
    and st: "fillsWith E s b sh dims s st c"
    and post: "\<And>r u st'. grows s u \<Longrightarrow> valid u r \<Longrightarrow> tyOf u r = TensorTy sh e \<Longrightarrow>
      readsAs E u st' r sh (\<lambda>M idx. if inMask E s dims idx then M (locOf (desc E s p) idx) else c) \<Longrightarrow> Q (st', r) u"
    and e: "st'' = (\<lambda>st2. st @ st2)"
  shows "wp (copyDims (length sh) dims p b) (\<lambda>st2. wp (create (ToTensorOp b) (TensorTy sh e)) (\<lambda>r. Q (st'' st2, r))) s"
proof (rule wp_copyDims [OF wf p b maskDims_idx [OF x] l])
  fix v w u assume u: "grows s u" "\<And>E. desc E u v = (desc E s p)\<lparr>msizes := map (osem E s) dims\<rparr>"
    "\<And>E. desc E u w = (bufferDesc b sh)\<lparr>msizes := map (osem E s) dims\<rparr>" "valid u v" "valid u w"
  show "wp (create (ToTensorOp b) (TensorTy sh e)) (\<lambda>r. Q (st'' [CopyS v w], r)) u"
  proof (rule wp_create [OF growsD(2) [OF u(1)]])
    show "\<forall>a \<in> operands (ToTensorOp b). valid u a" using valid_grows [OF u(1) b(1)] by simp
    fix r t assume r: "grows u t" "valid t r" "defOp t r = ToTensorOp b" "tyOf t r = TensorTy sh e"
    have g: "grows s t" using u(1) r(1) grows_trans by blast
    have d: "desc E t v = (desc E s p)\<lparr>msizes := map (osem E s) dims\<rparr>" "desc E t w = (bufferDesc b sh)\<lparr>msizes := map (osem E s) dims\<rparr>"
        "desc E t b = bufferDesc b sh"
      using u(2,3) b(4) desc_grows [OF r(1) growsD(2) [OF u(1)]] u(4,5) desc_grows [OF g wf b(1)] by auto
    have "exec E t (st @ [CopyS v w]) M (locOf (bufferDesc b sh) idx) =
        (if inMask E s dims idx then M (locOf (desc E s p) idx) else c)" if i: "inB sh idx" for M idx
    proof -
      obtain a where a: "locOf (desc E s p) idx = Addr a" using m i by (auto simp: inMemory_def)
      have f: "\<not> inMask E s dims idx \<Longrightarrow> exec E t st M (locOf (bufferDesc b sh) idx) = c" "exec E t st M (Addr a) = M (Addr a)"
        using st g i by (auto simp: fillsWith_def)
      show ?thesis unfolding exec_append exec_copy [OF d(1,2) maskDims_osem [OF x] i] inB_maskDims [OF i]
        using f a by auto
    qed
    moreover have "exec E t (st @ [CopyS v w]) M (Addr a) = M (Addr a)" for M a
      using st g by (simp add: exec_append d writeAll_Addr fillsWith_def)
    ultimately show "Q (st'' [CopyS v w], r) t" unfolding e by (intro post [OF g r(2,4)]) (auto simp: readsAs_def r(3) d(3))
  qed simp
qed

text \<open>The memref of an access: a value of the table with one stride per dimension.\<close>

definition accessible :: "ir \<Rightarrow> int list \<Rightarrow> val \<Rightarrow> bool" where
  "accessible s sh p \<longleftrightarrow> memrefValue s p \<and> (\<forall>E. length (mstrides (desc E s p)) = length sh)"

lemma accessible_grows: "grows s t \<Longrightarrow> wf_ir s \<Longrightarrow> accessible s sh p \<Longrightarrow> accessible t sh p"
  using memrefValue_grows desc_grows [of s t p] by (auto simp: accessible_def memrefValueD)

lemma inMemory_grows: "grows s t \<Longrightarrow> wf_ir s \<Longrightarrow> valid s p \<Longrightarrow> inMemory E s sh p \<Longrightarrow> inMemory E t sh p"
  using desc_grows [of s t p] by (simp add: inMemory_def)

text \<open>A cast that the code looks through once more.\<close>

lemma actualPtr:
  assumes "wf_ir s" "accessible s sh p" "q = (case defOp s p of MemCastOp b \<Rightarrow> b | _ \<Rightarrow> p)"
  shows "valid s q \<and> isMemRef (tyOf s (unwrapSubviewSource s q)) \<and> (\<forall>E. desc E s q = desc E s p)"
proof -
  note p = memrefValueD [of s p]
  have "accessible s sh p" "memrefValue s p" using assms(2) by (simp_all add: accessible_def)
  then show ?thesis
    using p assms(3) unwrap_unfold [OF assms(1), of p] desc_unfold [OF assms(1), of p] wf_operand_valid [OF assms(1), of p]
    by (cases "defOp s p") auto
qed

lemma fillsWith_all:
  assumes "wf_ir u" "valid u b" "desc E u b = bufferDesc b sh" "valid u z"
  shows "fillsWith E s b sh dims u [FillS z b] (eval E u z [])"
  unfolding fillsWith_def using exec_fill [OF assms(2,1,3) _ assms(4)] writeAll_buffer_whole writeAll_buffer_Addr by simp

lemma fillsWith_guard:
  assumes "wf_ir u" "valid u b" "desc E u b = bufferDesc b sh" "valid u x" "valid u acc"
    and "eval E u acc [] \<noteq> 0 \<longleftrightarrow> fillsBelow E s sh dims stat (length sh)"
    and "length dims = length sh" "\<And>i. i < length sh \<Longrightarrow> fillDim E s (dims ! i) (stat ! i) = osem E s (dims ! i)"
  shows "fillsWith E s b sh dims u [IfS acc [FillS x b]] (eval E u x [])"
proof -
  have "exec E t [IfS acc [FillS x b]] M = (if fillsBelow E s sh dims stat (length sh)
      then writeAll (bufferDesc b sh) (\<lambda>_. eval E u x []) (indices sh) M else M)" if "grows u t" for t M
    using exec_fill [OF assms(2,1,3) that assms(4)] assms(6) eval_grows [OF that assms(5)] by simp
  then show ?thesis
    unfolding fillsWith_def using writeAll_buffer_whole writeAll_buffer_Addr inMask_full [OF _ _ assms(7,8)] by auto
qed

lemma fillsWith_grows:
  assumes "grows s u" "maskDims E s dims sh" "fillsWith E s b sh dims u st c"
  shows "fillsWith E u b sh dims u st c"
  using assms(3) inMask_grows [OF assms(1,2)] by (simp add: fillsWith_def)

lemma wp_rewriteMaskedLoad:
  assumes wf: "wf_ir s" and e: "isIntTy e \<or> (\<exists>w. e = FloatTy w)" and n: "\<And>n. n \<in> set sh \<Longrightarrow> in64 n"
    and p: "accessible s sh p" and x: "maskDims E s dims sh" and m: "inMemory E s sh p" and o: "\<And>y. other = Some y \<Longrightarrow> valid s y"
    and post: "\<And>r u st c. grows s u \<Longrightarrow> valid u r \<Longrightarrow> tyOf u r = TensorTy sh e \<Longrightarrow>
      (\<And>y. other = Some y \<Longrightarrow> c = eval E s y []) \<Longrightarrow> (other = None \<Longrightarrow> isIntTy e \<Longrightarrow> c = 0) \<Longrightarrow>
      readsAs E u st r sh (\<lambda>M idx. if inMask E s dims idx then M (locOf (desc E s p) idx) else c) \<Longrightarrow> Q (st, r) u"
  shows "wp (rewriteMaskedLoad (TensorTy sh e) p dims other []) Q s"
proof -
  let ?t = "TensorTy sh e"
  note mp = p [unfolded accessible_def, THEN conjunct1]
  let ?copy = "\<lambda>b st1. bindM (unwrapMaterialization p) (\<lambda>q. bindM (getM (\<lambda>s. wrapBlocks s q)) (\<lambda>w.
      bindM (case w of
          Some (k, xs) \<Rightarrow>
            thenM (assertM (length xs = 2))
            (if k = WrapSideBySide then
               bindM (loadSideBySideSubviews dims (xs ! 0) (xs ! 1)) (\<lambda>(sv1, sv2). createSideBySideCopies sv1 sv2 b)
             else bindM (loadStackedSubviews dims (xs ! 0) (xs ! 1)) (\<lambda>(sv1, sv2). createStackedCopies sv1 sv2 b))
        | None \<Rightarrow>
            bindM (getM (\<lambda>s. case defOp s q of MemCastOp b \<Rightarrow> b | _ \<Rightarrow> q)) (\<lambda>actualPtr.
            copyDims (length (shapeOf ?t)) dims actualPtr b)) (\<lambda>st2.
      bindM (create (ToTensorOp b) ?t) (\<lambda>r. ret (st1 @ st2, r)))))"
  have copy: "wp (?copy b st1) Q u" if g: "grows s u" and b: "valid u b" "defOp u b = MemAllocOp" "tyOf u b = MemRefTy sh e"
      "\<And>E. desc E u b = bufferDesc b sh" and st: "fillsWith E s b sh dims u st1 c"
      and c: "\<And>y. other = Some y \<Longrightarrow> c = eval E s y []" "other = None \<Longrightarrow> isIntTy e \<Longrightarrow> c = 0" for u b st1 c
  proof -
    note wfu = growsD(2) [OF g] and pu = accessible_grows [OF g wf p]
    define q where "q = (case defOp u p of MemCastOp b \<Rightarrow> b | _ \<Rightarrow> p)"
    note q = actualPtr [OF wfu pu q_def]
    have dq: "desc E' u q = desc E' s p" for E' using q desc_grows [OF g wf memrefValueD(1) [OF mp]] by simp
    have "wp (copyDims (length sh) dims q b) (\<lambda>st2. wp (create (ToTensorOp b) ?t) (\<lambda>r. Q (st1 @ st2, r))) u"
    proof (rule wp_fillCopy [OF wfu, where E = E and c = c and st'' = "\<lambda>st2. st1 @ st2"])
      show "inMemory E u sh q" using m dq by (simp add: inMemory_def)
      show "fillsWith E u b sh dims u st1 c" by (rule fillsWith_grows [OF g x st])
      show "length (mstrides (desc E' u q)) = length sh" for E' using p dq by (simp add: accessible_def)
      fix r t st' assume r: "grows u t" "valid t r" "tyOf t r = TensorTy sh e"
        "readsAs E t st' r sh (\<lambda>M idx. if inMask E u dims idx then M (locOf (desc E u q) idx) else c)"
      show "Q (st', r) t"
        by (rule post [where c = c, OF grows_trans [OF g r(1)] r(2,3) c r(4) [unfolded dq inMask_grows [OF g x]]])
    qed (use q b maskDims_grows [OF g x] in auto)
    then show ?thesis
      using memrefValue_grows [OF g wf mp] by (simp add: wp_simps wp_unwrapMaterialization wrapBlocks_memref q_def)
  qed
  have "wp (case other of None \<Rightarrow> bindM (zeroConstant (elemTy ?t)) (\<lambda>z. ret [FillS z b])
      | Some y \<Rightarrow> fillWithValue b y (shapeOf ?t) dims (map staticDim dims)) (\<lambda>st1. wp (?copy b st1) Q) u"
    if g: "grows s u" and b: "valid u b" "defOp u b = MemAllocOp" "tyOf u b = MemRefTy sh e" "\<And>E. desc E u b = bufferDesc b sh" for b u
  proof -
    note wfu = growsD(2) [OF g]
    have next_: "wp (?copy b st1) Q w" if w: "grows u w" and "fillsWith E s b sh dims w st1 c"
      "\<And>y. other = Some y \<Longrightarrow> c = eval E s y []" "other = None \<Longrightarrow> isIntTy e \<Longrightarrow> c = 0" for w st1 c
      using that b valid_grows [OF w b(1)] defOp_grows [OF w b(1)] tyOf_grows [OF w b(1)] desc_grows [OF w wfu b(1)]
      by (intro copy [OF grows_trans [OF g w], where c = c]) simp_all
    show ?thesis
    proof (cases other)
      case None
      have "wp (zeroConstant e) (\<lambda>z. wp (?copy b [FillS z b]) Q) u"
      proof (rule wp_zeroConstant [OF wfu e])
        fix z w assume z: "grows u w" "valid w z" "tyOf w z = e" "\<And>E. isIntTy e \<Longrightarrow> eval E w z [] = 0"
        show "wp (?copy b [FillS z b]) Q w"
          by (rule next_ [OF z(1) fillsWith_all [OF growsD(2) [OF z(1)] valid_grows [OF z(1) b(1)] _ z(2)]])
            (use None b(4) z(4) desc_grows [OF z(1) wfu b(1)] in simp_all)
      qed
      then show ?thesis using None by (simp add: wp_simps)
    next
      case (Some y)
      have y: "valid u y" "eval E u y = eval E s y" using o [OF Some] valid_grows [OF g] eval_grows [OF g] by auto
      have ld: "length dims = length sh" using maskDims_length [OF x] .
      have "wp (fillWithValue b y sh dims (map staticDim dims)) (\<lambda>st1. wp (?copy b st1) Q) u"
      proof (rule wp_fillWithValue [OF wfu])
        fix acc w assume a: "grows u w" "valid w acc" "\<And>E. eval E w acc [] \<noteq> 0 \<longleftrightarrow> fillsBelow E u sh dims (map staticDim dims) (length sh)"
        have du: "idx_ofr u d" if "d \<in> set dims" for d using maskDims_idx [OF x that] idx_ofr_grows [OF g] by blast
        have f: "fillsWith E u b sh dims w [IfS acc [FillS y b]] (eval E w y [])"
          by (rule fillsWith_guard [OF growsD(2) [OF a(1)] valid_grows [OF a(1) b(1)] _ valid_grows [OF a(1) y(1)] a(2,3) ld])
            (use fillDim_osem [OF du] ld b(4) desc_grows [OF a(1) wfu b(1)] in simp_all)
        have "fillsWith E s b sh dims w [IfS acc [FillS y b]] (eval E s y [])"
          using f inMask_grows [OF g x] eval_grows [OF a(1) y(1)] y(2) by (simp add: fillsWith_def)
        then show "wp (?copy b [IfS acc [FillS y b]]) Q w" by (rule next_ [OF a(1)]) (use Some in simp_all)
      qed (use n ld maskDims_idx [OF x] idx_ofr_grows [OF g] in auto)
      then show ?thesis using Some by simp
    qed
  qed
  then have "wp (allocFor ?t) (\<lambda>b. wp (case other of None \<Rightarrow> bindM (zeroConstant (elemTy ?t)) (\<lambda>z. ret [FillS z b])
      | Some y \<Rightarrow> fillWithValue b y (shapeOf ?t) dims (map staticDim dims)) (\<lambda>st1. wp (?copy b st1) Q)) s"
    by (intro wp_allocFor [OF wf refl]) blast
  then show ?thesis by (simp add: rewriteMaskedLoad_def wp_simps)
qed

text \<open>A load without mask and boundary check reads the view itself.\<close>

lemma wp_rewriteStructuredLoad:
  assumes wf: "wf_ir s" and p: "accessible s sh p" and m: "inMemory E s sh p"
    and post: "\<And>r u. grows s u \<Longrightarrow> valid u r \<Longrightarrow> tyOf u r = TensorTy sh e \<Longrightarrow>
      readsAs E u [] r sh (\<lambda>M idx. M (locOf (desc E s p) idx)) \<Longrightarrow> Q ([], r) u"
  shows "wp (rewriteStructuredLoad cv (TensorTy sh e) p None [] pad) Q s"
proof -
  have "wp (create (ToTensorOp p) (TensorTy sh e)) (\<lambda>r. Q ([], r)) t" if g: "grows s t" for t
  proof (rule wp_create [OF growsD(2) [OF g]])
    have v: "valid s p" using p by (simp add: accessible_def memrefValueD)
    show "\<forall>a \<in> operands (ToTensorOp p). valid t a" using v valid_grows [OF g] by simp
    fix r u assume r: "grows t u" "valid u r" "defOp u r = ToTensorOp p" "tyOf u r = TensorTy sh e"
    note g2 = grows_trans [OF g r(1)]
    show "Q ([], r) u"
      by (rule post [OF g2 r(2,4)]) (use r(3) desc_grows [OF g2 wf v] in \<open>simp add: readsAs_def\<close>)
  qed simp
  then show ?thesis
    unfolding rewriteStructuredLoad_def wp_bindM
    apply (intro wp_allocFor [OF wf refl])
    subgoal for b u
      using memrefValue_grows [of s u p] wf p
      by (simp add: wp_simps accessible_def wp_unwrapMaterialization wrapBlocks_memref)
    done
qed

end
