(* ===== verification/Memref_Main.thy ===== *)
theory Memref_Main
  imports Memref_Sound
begin

text \<open>
  The conversion of \<open>tts.load\<close>, \<open>tts.store\<close> and \<open>tts.make_tptr\<close> implements what they mean: the
  statements read and write the addresses of the structured pointer.
\<close>

section \<open>Loads\<close>

text \<open>The memref that replaces a pointer has the addresses of the pointer.\<close>

definition represents :: "env \<Rightarrow> ir \<Rightarrow> int list \<Rightarrow> val \<Rightarrow> val \<Rightarrow> bool" where
  "represents E s sh m p \<longleftrightarrow> accessible s sh m \<and> (\<forall>idx. inB sh idx \<longrightarrow> locOf (desc E s m) idx = Addr (eval E s p idx))"

lemma representsD:
  assumes "represents E s sh m p"
  shows "accessible s sh m" "inMemory E s sh m" "inB sh idx \<Longrightarrow> locOf (desc E s m) idx = Addr (eval E s p idx)"
  using assms by (auto simp: represents_def inMemory_def)

lemma readsAs_cong: "(\<And>M idx. inB sh idx \<Longrightarrow> f M idx = g M idx) \<Longrightarrow> readsAs E u st r sh f = readsAs E u st r sh g"
  by (auto simp: readsAs_def cong: conj_cong)

text \<open>The part of a load or store that its dimensions select.\<close>

definition accessDims :: "env \<Rightarrow> ir \<Rightarrow> ofr list \<Rightarrow> int list \<Rightarrow> bool" where
  "accessDims E s dims sh \<longleftrightarrow> dims = [] \<or> maskDims E s dims sh"

lemma wp_convertLoad:
  assumes wf: "wf_ir s" and v: "defOp s v = TTSLoadOp p dims other [] pad" "tyOf s v = TensorTy sh e"
    and dp: "defOp s p = TTSMakeTensorPtrOp base szs strs offs orig m ord"
    and e: "isIntTy e \<or> (\<exists>w. e = FloatTy w)" and n: "\<And>n. n \<in> set sh \<Longrightarrow> in64 n"
    and p: "represents E s sh (remapped cv p) p" and x: "accessDims E s dims sh" and o: "dims = [] \<Longrightarrow> other = None"
    and oy: "\<And>y. other = Some y \<Longrightarrow> valid s y"
    and post: "\<And>r u st c. grows s u \<Longrightarrow> valid u r \<Longrightarrow> tyOf u r = TensorTy sh e \<Longrightarrow> (isIntTy e \<Longrightarrow> c = 0) \<Longrightarrow>
      readsAs E u st r sh (\<lambda>M. loadSem (\<lambda>a. M (Addr a)) (\<lambda>_. c) E s (defOp s v)) \<Longrightarrow> Q (st, r) u"
  shows "wp (convertLoad cv v) Q s"
proof (cases "dims = []")
  case True
  have "wp (rewriteStructuredLoad cv (TensorTy sh e) (remapped cv p) None [] pad) Q s"
  proof (rule wp_rewriteStructuredLoad [OF wf representsD(1,2) [OF p]])
    fix r u assume r: "grows s u" "valid u r" "tyOf u r = TensorTy sh e"
      "readsAs E u [] r sh (\<lambda>M idx. M (locOf (desc E s (remapped cv p)) idx))"
    have "readsAs E u [] r sh (\<lambda>M. loadSem (\<lambda>a. M (Addr a)) (\<lambda>_. 0) E s (defOp s v))"
      by (rule readsAs_cong [THEN iffD1, OF _ r(4)]) (simp add: representsD [OF p] v(1) loadSem_def True)
    then show "Q ([], r) u" by (intro post [OF r(1-3)]) simp_all
  qed
  then show ?thesis using v dp True o by (simp add: convertLoad_def wp_simps)
next
  case False
  have "wp (rewriteMaskedLoad (TensorTy sh e) (remapped cv p) dims other []) Q s"
  proof (rule wp_rewriteMaskedLoad [OF wf e n representsD(1) [OF p] _ representsD(2) [OF p] oy])
    show "maskDims E s dims sh" using x False by (simp add: accessDims_def)
    fix r u st c assume r: "grows s u" "valid u r" "tyOf u r = TensorTy sh e"
      and c: "\<And>y. other = Some y \<Longrightarrow> c = eval E s y []" "other = None \<Longrightarrow> isIntTy e \<Longrightarrow> c = 0"
      and a: "readsAs E u st r sh (\<lambda>M idx. if inMask E s dims idx then M (locOf (desc E s (remapped cv p)) idx) else c)"
    have "readsAs E u st r sh (\<lambda>M. loadSem (\<lambda>a. M (Addr a)) (\<lambda>_. if other = None then c else 0) E s (defOp s v))"
      by (rule readsAs_cong [THEN iffD1, OF _ a])
        (use c(1) False in \<open>auto simp: representsD [OF p] v(1) loadSem_def split: option.split\<close>)
    then show "Q (st, r) u" by (rule post [OF r, rotated]) (use c(2) in auto)
  qed
  then show ?thesis using v dp False by (simp add: convertLoad_def wp_simps)
qed

section \<open>Stores\<close>

text \<open>The memory after a store: the elements are written in row-major order.\<close>

definition storesTo :: "env \<Rightarrow> ir \<Rightarrow> opr \<Rightarrow> int list \<Rightarrow> memory \<Rightarrow> memory" where
  "storesTo E s opn sh M = foldl (\<lambda>M idx. case storeSem E s opn idx of Some (a, x) \<Rightarrow> M(Addr a := x) | None \<Rightarrow> M) M (indices sh)"

lemma foldl_filter: "foldl f M (filter P xs) = foldl (\<lambda>M x. if P x then f M x else M) M xs"
  by (induction xs arbitrary: M) simp_all

lemma writeAll_part:
  assumes "list_all2 (\<le>) ds sh"
  shows "writeAll d f (indices ds) M = foldl (\<lambda>M idx. if inB ds idx then M(locOf d idx := f idx) else M) M (indices sh)"
  by (simp add: writeAll_def indices_part [OF assms, symmetric] foldl_filter)

lemma sliceIdx_whole [simp]: "length idx = n \<Longrightarrow> sliceIdx (osem E s) (zeroOffsets n) (unitStrides n) idx = idx"
proof (induction idx arbitrary: n)
  case Nil
  then show ?case by (simp add: zeroOffsets_def unitStrides_def)
next
  case (Cons i idx)
  then show ?case by (cases n) (auto simp: zeroOffsets_def unitStrides_def)
qed

lemma wp_storeSlice:
  assumes wf: "wf_ir s" and p: "accessible s sh p" and x: "valid s x" "tyOf s x = TensorTy sh e" and d: "maskDims E s dims sh"
    and post: "\<And>st u. grows s u \<Longrightarrow> (\<And>M. exec E u st M =
      foldl (\<lambda>M idx. if inMask E s dims idx then M(locOf (desc E s p) idx := eval E s x idx) else M) M (indices sh)) \<Longrightarrow> Q st u"
  shows "wp (storeSlice (length sh) dims x p) Q s"
proof -
  let ?slice = "ExtractSliceOp x (zeroOffsets (length sh)) dims (unitStrides (length sh))"
  have "wp (create ?slice (TensorTy (map staticDim dims) e)) (\<lambda>y. wp (getSubviewOf (length sh) dims p) (\<lambda>w. Q [MaterializeS y w])) s"
  proof (rule wp_create [OF wf])
    show "\<forall>a \<in> operands ?slice. valid s a"
      using x(1) maskDims_idx [OF d] idx_ofr_vals by (auto simp: zeroOffsets_def unitStrides_def getIndexAttr_def split: if_splits)
    fix y t assume y: "grows s t" "valid t y" "tyOf t y = TensorTy (map staticDim dims) e"
      "\<And>E idx. eval E t y idx = norm (TensorTy (map staticDim dims) e) (denOp E (tyOf s) (eval E s) y ?slice (TensorTy (map staticDim dims) e) idx)"
    have ey: "eval E t y idx = eval E s x idx" if "length idx = length sh" for idx
    proof -
      have "eval E t y idx = norm (tyOf s x) (eval E s x (sliceIdx (osem E s) (zeroOffsets (length sh)) (unitStrides (length sh)) idx))"
        using y(4) x(2) by (simp add: denOp_def norm_def osem_def [abs_def])
      then show ?thesis using that eval_norm [OF wf x(1)] by simp
    qed
    note pt = accessible_grows [OF y(1) wf p]
    have mp: "memrefValue t p" using pt by (simp add: accessible_def)
    show "wp (getSubviewOf (length sh) dims p) (\<lambda>w. Q [MaterializeS y w]) t"
    proof (rule wp_getSubviewOf [OF growsD(2) [OF y(1)] memrefValueD(1,4) [OF mp]])
      fix w u assume w: "grows t u" "valid u w" "\<And>E. desc E u w = (desc E t p)\<lparr>msizes := map (osem E t) dims\<rparr>"
      have dw: "desc E u w = (desc E s p)\<lparr>msizes := map (osem E s) dims\<rparr>"
        using w(3) desc_grows [OF y(1) wf, of p E] p osem_grows [OF y(1) maskDims_idx [OF d]] by (simp add: accessible_def memrefValueD)
      have b: "inB (map (osem E s) dims) idx \<longleftrightarrow> inMask E s dims idx" "length idx = length sh" if "idx \<in> set (indices sh)" for idx
        using that inB_maskDims inB_length by (auto simp: set_indices)
      have "exec E u [MaterializeS y w] M =
          foldl (\<lambda>M idx. if inMask E s dims idx then M(locOf (desc E s p) idx := eval E s x idx) else M) M (indices sh)" for M
        using b ey eval_grows [OF w(1) y(2)]
        by (simp add: dw writeAll_part [OF maskDims_osem [OF d]]) (rule foldl_cong; auto)
      then show "Q [MaterializeS y w] u" by (rule post [OF grows_trans [OF y(1) w(1)]])
    qed (use pt maskDims_idx [OF d] idx_ofr_grows [OF y(1)] in \<open>auto simp: accessible_def\<close>)
  qed simp
  then show ?thesis using x(2) by (simp add: storeSlice_def wp_simps)
qed

lemma wp_convertStore:
  assumes wf: "wf_ir s" and v: "defOp s v = TTSStoreOp p x dims []" and x: "valid s x" "tyOf s x = TensorTy sh e"
    and dp: "defOp s p = TTSMakeTensorPtrOp base szs strs offs orig m ord"
    and p: "represents E s sh (remapped cv p) p" and mt: "tyOf s (remapped cv p) = MemRefTy msh e" "sh \<noteq> []"
    and whole: "msizes (desc E s (remapped cv p)) = sh" and d: "accessDims E s dims sh"
    and post: "\<And>st u. grows s u \<Longrightarrow> (\<And>M. exec E u st M = storesTo E s (defOp s v) sh M) \<Longrightarrow> Q st u"
  shows "wp (convertStore cv v) Q s"
proof -
  have sem: "storesTo E s (defOp s v) sh M =
      foldl (\<lambda>M idx. if dims = [] \<or> inMask E s dims idx then M(locOf (desc E s (remapped cv p)) idx := eval E s x idx) else M) M (indices sh)" for M
    unfolding storesTo_def by (rule foldl_cong) (use representsD(3) [OF p] in \<open>auto simp: storeSem_def v set_indices\<close>)
  show ?thesis
  proof (cases "dims = []")
    case True
    have "exec E s [MaterializeS x (remapped cv p)] M = storesTo E s (defOp s v) sh M" for M
      using whole by (simp add: sem True writeAll_def)
    then have "Q [MaterializeS x (remapped cv p)] s" by (intro post) (simp_all add: wf)
    then show ?thesis using v x dp mt True by (simp add: convertStore_def wp_simps convertStoreValue_def Let_def)
  next
    case False
    have "wp (storeSlice (length sh) dims x (remapped cv p)) Q s"
      by (rule wp_storeSlice [OF wf representsD(1) [OF p] x]) (use d False in \<open>auto intro!: post simp: accessDims_def sem\<close>)
    then show ?thesis using v x dp mt False by (simp add: convertStore_def wp_simps convertStoreValue_def Let_def)
  qed
qed

end
