(* ===== verification/Memref_Ptr.thy ===== *)
theory Memref_Ptr
  imports Memref_Main Ptr_Lin
begin

text \<open>
  The memref that replaces a structured pointer or a block pointer has its addresses.
\<close>

section \<open>Strides\<close>

text \<open>The stride of a dimension of size one may differ: its only index is zero.\<close>

definition sameStride :: "ir \<Rightarrow> int \<Rightarrow> ofr \<Rightarrow> ofr \<Rightarrow> bool" where
  "sameStride s n x y \<longleftrightarrow> idx_ofr s y \<and> (n = 1 \<or> (\<forall>E. osem E s y = osem E s x))"

lemma getAsOpFoldResult_osem:
  assumes "wf_ir s" "idx_ofr s (Val v)"
  shows "idx_ofr s (getAsOpFoldResult s v) \<and> osem E s (getAsOpFoldResult s v) = eval E s v []"
proof (cases "\<exists>a. defOp s v = ConstantOp a")
  case True
  then obtain a where a: "defOp s v = ConstantOp a" by blast
  have v: "valid s v" "tyOf s v = IndexTy" using assms(2) by simp_all
  obtain n where n: "a = IntegerAttr n IndexTy" "norm IndexTy n = n"
    using wf_const [OF assms(1) v(1) a] v(2) by auto
  then have "in64 n" using in64_wrap [of n] by (simp add: norm_def)
  moreover have "eval E s v [] = n" using eval_unfold [OF assms(1) v(1), of E] a n v(2) by (simp add: denOp_def)
  ultimately show ?thesis using a n(1) by (simp add: getAsOpFoldResult_def idx_ofr_def osem_def ofrSem_def)
next
  case False
  then have "getAsOpFoldResult s v = Val v" by (cases "defOp s v") (auto simp: getAsOpFoldResult_def)
  then show ?thesis using assms(2) by simp
qed

lemma mixedStrides_same:
  assumes "wf_ir s" "\<And>x. x \<in> set strs \<Longrightarrow> idx_ofr s x" "length strs = length szs"
  shows "list_all2 (\<lambda>(n, x) y. sameStride s n x y) (zip szs strs) (snd (foldr (memrefStride s) (zip szs strs) (1, [])))"
  using assms(2,3)
proof (induction szs arbitrary: strs)
  case (Cons n szs)
  then obtain x strs' where strs: "strs = x # strs'" by (cases strs) auto
  obtain a ys where ys: "foldr (memrefStride s) (zip szs strs') (1, []) = (a, ys)" by fastforce
  have "list_all2 (\<lambda>(n, x) y. sameStride s n x y) (zip szs strs') ys" using Cons.IH [of strs'] Cons.prems strs ys by simp
  moreover have "sameStride s n x (if n = 1 \<and> getIntAttr x = Some 0 then getIndexAttr a
      else case x of Val v \<Rightarrow> getAsOpFoldResult s v | Attr a \<Rightarrow> x)"
    using Cons.prems(1) [of x] strs getAsOpFoldResult_osem [OF assms(1)] by (cases x) (auto simp: sameStride_def)
  moreover have "memrefStride s (n, x) (a, ys) = (wrap 32 (a * n),
      (if n = 1 \<and> getIntAttr x = Some 0 then getIndexAttr a else case x of Val v \<Rightarrow> getAsOpFoldResult s v | Attr a \<Rightarrow> x) # ys)"
    by (simp add: memrefStride_def split: gofr.split)
  ultimately show ?case by (simp add: strs ys)
qed simp

lemma wp_getMixedStrides:
  assumes "wf_ir s" "\<And>x. x \<in> set strs \<Longrightarrow> idx_ofr s x" "length strs = length szs"
    and "\<And>ms. length ms = length szs \<Longrightarrow> (\<And>y. y \<in> set ms \<Longrightarrow> idx_ofr s y) \<Longrightarrow>
      (\<And>E idx. inB szs idx \<Longrightarrow> dot (map (osem E s) ms) idx = dot (map (osem E s) strs) idx) \<Longrightarrow> Q ms s"
  shows "wp (getMixedStridesForMemref szs strs) Q s"
proof -
  define ms where "ms = snd (foldr (memrefStride s) (zip szs strs) (1, []))"
  have a: "list_all2 (\<lambda>(n, x) y. sameStride s n x y) (zip szs strs) ms"
    using mixedStrides_same [OF assms(1-3)] by (simp add: ms_def)
  have "dot (map (osem E s) ms) idx = dot (map (osem E s) strs) idx" if "inB szs idx" for E idx
    using a assms(3) that
  proof (induction szs arbitrary: strs ms idx)
    case (Cons n szs)
    then obtain x strs' y ms' i js where *: "strs = x # strs'" "ms = y # ms'" "idx = i # js" "0 \<le> i" "i < n" "inB szs js"
      by (cases strs; cases ms) (auto simp: inB_Cons)
    have "dot (map (osem E s) ms') js = dot (map (osem E s) strs') js" using Cons * by (intro Cons.IH) auto
    moreover have "i = 0 \<or> osem E s y = osem E s x" using Cons.prems(1) * by (auto simp: sameStride_def)
    ultimately show ?case using * by auto
  qed simp
  moreover have "idx_ofr s y" if "y \<in> set ms" for y
    using a that assms(3) by (auto simp: list_all2_conv_all_nth in_set_conv_nth sameStride_def)
  moreover have "length ms = length szs" using a assms(3) by (auto dest: list_all2_lengthD)
  ultimately show ?thesis using assms(4) by (simp add: getMixedStridesForMemref_def wp_simps ms_def)
qed

section \<open>Offsets\<close>

lemma wp_accumulateTargetOffset:
  assumes wf: "wf_ir s" and x: "\<And>x. x \<in> set offs \<Longrightarrow> idx_ofr s x"
    and post: "\<And>r t. grows s t \<Longrightarrow> idx_ofr t r \<Longrightarrow> (\<And>E. w64 (osem E t r) = w64 (\<Sum>x\<leftarrow>offs. osem E s x)) \<Longrightarrow> Q r t"
  shows "wp (accumulateTargetOffset offs) Q s"
  unfolding accumulateTargetOffset_def
proof (rule wp_foldM [where I = "\<lambda>n r t. grows s t \<and> idx_ofr t r \<and> (\<forall>E. w64 (osem E t r) = w64 (\<Sum>x\<leftarrow>take n offs. osem E s x))"])
  fix n r t assume n: "n < length offs"
    and I: "grows s t \<and> idx_ofr t r \<and> (\<forall>E. w64 (osem E t r) = w64 (\<Sum>x\<leftarrow>take n offs. osem E s x))"
  note xn = x [OF nth_mem [OF n]]
  show "wp (addOFRs r (offs ! n)) (\<lambda>r t. grows s t \<and> idx_ofr t r \<and> (\<forall>E. w64 (osem E t r) = w64 (\<Sum>x\<leftarrow>take (Suc n) offs. osem E s x))) t"
    using I n xn
    by (intro wp_addOFRs growsD) (auto simp: idx_ofr_grows take_Suc_conv_app_nth w64_ring osem_grows intro: grows_trans)
qed (use wf post in auto)

lemma dot_sumDims:
  assumes "length strs = length offs" "length idx = length offs" "length mds = length offs" "\<forall>m \<in> set mds. f m = 0"
  shows "sumDims f offs strs mds idx = (\<Sum>x\<leftarrow>offs. f x) + dot (map f strs) idx"
  using assms
proof (induction offs arbitrary: strs mds idx)
  case (Cons x offs)
  then show ?case by (cases strs; cases mds; cases idx) (auto simp: dimTerm_def Let_def)
qed (cases idx; simp)

section \<open>Structured pointers\<close>

text \<open>
  The memref that the type converter gives for the base pointer of \<open>v\<close>: a memref of elements of the
  pointed-to type that starts at the address of the base.
\<close>

definition baseMemref :: "env \<Rightarrow> ir \<Rightarrow> val \<Rightarrow> val \<Rightarrow> ty \<Rightarrow> bool" where
  "baseMemref E s b base e \<longleftrightarrow> valid s b \<and> elemTy (tyOf s b) = e \<and> (\<forall>E. desc E s b = pointerDesc E s b) \<and> E b [] = eval E s base []"

text \<open>A well-formed \<open>tts.make_tptr\<close> without wrapping, of elements of type \<open>e\<close>.\<close>

definition plainPtr :: "ir \<Rightarrow> val \<Rightarrow> val \<Rightarrow> int list \<Rightarrow> ofr list \<Rightarrow> ofr list \<Rightarrow> ofr list \<Rightarrow> ofr list \<Rightarrow> int list \<Rightarrow> ty \<Rightarrow> bool" where
  "plainPtr s v base szs strs offs orig sh ord e \<longleftrightarrow>
     valid s v \<and> defOp s v = TTSMakeTensorPtrOp base szs strs offs orig sh ord \<and>
     tyOf s v = (if ord = [] then TensorTy szs (PtrTy e) else PtrTy (TensorTy szs e)) \<and>
     \<not> isShaped e \<and> \<not> isFloatLike (PtrTy e) \<and> szs \<noteq> [] \<and>
     length strs = length szs \<and> length offs = length szs \<and> length sh = length szs \<and> sorted_wrt (\<ge>) ord \<and>
     (\<forall>x \<in> set strs \<union> set offs \<union> set sh. idx_ofr s x) \<and> (ord = [] \<longrightarrow> (\<forall>x \<in> set sh. getIntAttr x = Some 0))"

lemma plainPtr_eval:
  assumes "wf_ir s" "plainPtr s v base szs strs offs orig sh ord e" "inB szs idx"
  shows "eval E s v idx = wrap 64 (eval E s base [] + byteSize e * ((\<Sum>x\<leftarrow>offs. osem E s x) + dot (map (osem E s) strs) idx))"
proof -
  note p = assms(2) [unfolded plainPtr_def]
  have o: "osem E s x = 0" if "getIntAttr x = Some 0" for x
    using that by (cases x) (auto simp: getIntAttr_def osem_def ofrSem_def split: attr.splits)
  have "sumDims (osem E s) offs strs (if ord = [] then sh else map (\<lambda>_. Attr zeroAttr) sh) idx =
      (\<Sum>x\<leftarrow>offs. osem E s x) + dot (map (osem E s) strs) idx"
    using p o inB_length [OF assms(3)] by (intro dot_sumDims) (auto simp: osem_def ofrSem_def zeroAttr_def)
  moreover have "pointee (tyOf s v) = e" "width (tyOf s v) = 64" "\<not> isFloatLike (tyOf s v)"
    using p by (cases e; auto split: if_splits)+
  ultimately show ?thesis
    using eval_unfold [OF assms(1), of v E] p by (simp add: denOp_def norm_def osem_def [abs_def])
qed

lemma reinterpret_represents:
  assumes wf: "wf_ir s" and v: "plainPtr s v base szs strs offs orig sh ord e" and b: "baseMemref E s b base e"
    and g: "grows s u" "wf_ir u" and m: "valid u m" "defOp u m = ReinterpretCastOp b off actual ms lo ls" "tyOf u m = MemRefTy msh e"
    and off: "w64 (osem E u off) = w64 (\<Sum>x\<leftarrow>offs. osem E s x)" and ms: "length ms = length szs"
      "\<And>idx. inB szs idx \<Longrightarrow> dot (map (osem E u) ms) idx = dot (map (osem E s) strs) idx"
  shows "represents E u szs m v" "msizes (desc E u m) = map (osem E u) actual"
proof -
  note b' = b [unfolded baseMemref_def] and v' = v [unfolded plainPtr_def]
  have vb: "valid s b" "elemTy (tyOf u b) = e" "E b [] = eval E s base []" using b' tyOf_grows [OF g(1)] by auto
  have "pointerDesc E u b = pointerDesc E s b" for E using tyOf_grows [OF g(1) vb(1)] by (simp add: pointerDesc_def)
  then have d: "desc E u m = (pointerDesc E u b)\<lparr>moffset := osem E u off, msizes := map (osem E u) actual, mstrides := map (osem E u) ms\<rparr>" for E
    using desc_unfold [OF g(2) m(1), of E] m(2) desc_grows [OF g(1) wf vb(1)] b' by simp
  have "locOf (desc E u m) idx = Addr (eval E u v idx)" if i: "inB szs idx" for idx
  proof -
    let ?x = "(\<Sum>x\<leftarrow>offs. osem E s x) + dot (map (osem E s) strs) idx"
    have "w64 (osem E u off + dot (map (osem E u) ms) idx) = w64 ?x" using off ms(2) [OF i] by (simp add: w64_ring)
    then have "wrap 64 (E b [] + byteSize e * (osem E u off + dot (map (osem E u) ms) idx)) = wrap 64 (E b [] + byteSize e * ?x)"
      unfolding w64_inj_wrap [symmetric] by (simp add: w64_ring)
    then show ?thesis
      using plainPtr_eval [OF wf v i, of E] vb eval_grows [OF g(1)] v' by (simp add: d locOf_def pointerDesc_def)
  qed
  moreover have "accessible u szs m"
    using m unwrap_unfold [OF g(2) m(1)] ms(1) by (simp add: accessible_def memrefValue_def d)
  ultimately show "represents E u szs m v" by (simp add: represents_def)
  show "msizes (desc E u m) = map (osem E u) actual" by (simp add: d)
qed

lemma kDynamic_cast: "\<not> needsStaticCast sh sh"
  by (auto simp: needsStaticCast_def zip_same_conv_map)

lemma reinterpret_vals:
  "valid s b \<Longrightarrow> (\<And>x. x \<in> insert off (set szs \<union> set strs) \<Longrightarrow> idx_ofr s x) \<Longrightarrow>
   \<forall>a \<in> operands (ReinterpretCastOp b off szs strs lo ls). valid s a"
  using idx_ofr_vals [of s] by auto

lemma wp_convertMakeTensorPtr:
  assumes wf: "wf_ir s" and v: "plainPtr s v base szs strs offs orig sh [] e" and b: "baseMemref E s (remapped cv base) base e"
    and n: "\<forall>n \<in> set szs. in64 n"
    and post: "\<And>m u. grows s u \<Longrightarrow> valid u m \<Longrightarrow> tyOf u m = MemRefTy szs e \<Longrightarrow> represents E u szs m v \<Longrightarrow> msizes (desc E u m) = szs \<Longrightarrow> Q m u"
  shows "wp (convertMakeTensorPtr cv v) Q s"
proof -
  let ?b = "remapped cv base" and ?Q = "\<lambda>m u. (needsStaticCast szs (shapeOf (tyOf u m)) \<longrightarrow>
      wp (create (MemCastOp m) (MemRefTy szs (elemTy (tyOf u m)))) Q u) \<and> (\<not> needsStaticCast szs (shapeOf (tyOf u m)) \<longrightarrow> Q m u)"
  note v' = v [unfolded plainPtr_def]
  have sh0: "hasConstZero (sh ! 0) = ret True" using v' by (auto simp: hasConstZero_def)
  have "wp (accumulateTargetOffset offs) (\<lambda>off. wp (create (ReinterpretCastOp ?b off (map getIndexAttr szs) ms
      (getIntAttr off) (map getIntAttr ms)) (MemRefTy szs e)) ?Q) s"
    if ms: "length ms = length szs" "\<And>y. y \<in> set ms \<Longrightarrow> idx_ofr s y"
      "\<And>E idx. inB szs idx \<Longrightarrow> dot (map (osem E s) ms) idx = dot (map (osem E s) strs) idx" for ms
  proof (rule wp_accumulateTargetOffset [OF wf])
    fix off t assume off: "grows s t" "idx_ofr t off" "\<And>E. w64 (osem E t off) = w64 (\<Sum>x\<leftarrow>offs. osem E s x)"
    show "wp (create (ReinterpretCastOp ?b off (map getIndexAttr szs) ms (getIntAttr off) (map getIntAttr ms)) (MemRefTy szs e)) ?Q t"
    proof (rule wp_create [OF growsD(2) [OF off(1)] reinterpret_vals])
      show "valid t ?b" using b valid_grows [OF off(1)] by (simp add: baseMemref_def)
      show "idx_ofr t x" if "x \<in> insert off (set (map getIndexAttr szs) \<union> set ms)" for x
        using that off(2) ms(2) idx_ofr_grows [OF off(1)] by auto
      fix m u assume m: "grows t u" "valid u m" "defOp u m = ReinterpretCastOp ?b off (map getIndexAttr szs) ms (getIntAttr off) (map getIntAttr ms)"
        "tyOf u m = MemRefTy szs e"
      note g = grows_trans [OF off(1) m(1)]
      have r: "represents E u szs m v \<and> msizes (desc E u m) = map (osem E u) (map getIndexAttr szs)"
        by (intro conjI reinterpret_represents [OF wf v b g growsD(2) [OF m(1)] m(2-4) _ ms(1)])
          (use off osem_grows [OF m(1) off(2)] ms(3) osem_grows [OF g ms(2)] in \<open>simp_all cong: map_cong\<close>)
      moreover have "map (osem E u) (map getIndexAttr szs) = szs" using n by (simp add: wrap_in64 map_idI)
      ultimately have "Q m u" by (intro post [OF g m(2,4)]) simp_all
      then show "?Q m u" using m(4) kDynamic_cast by simp
    qed simp
  qed (use v' in auto)
  then have "wp (getMixedStridesForMemref szs strs) (\<lambda>ms. wp (accumulateTargetOffset offs) (\<lambda>off.
      wp (create (ReinterpretCastOp ?b off (map getIndexAttr szs) ms (getIntAttr off) (map getIntAttr ms)) (MemRefTy szs e)) ?Q)) s"
    by (intro wp_getMixedStrides [OF wf]) (use v' in auto)
  then show ?thesis
    using v' sh0
    by (simp add: convertMakeTensorPtr_def rewritePtr_def wp_simps isBlockPtrOp_def isStructuredPtrOp_def Let_def
      getResultMemrefType_def getElementTypeStructuredPtr_def)
qed

section \<open>Block pointers\<close>

text \<open>A dynamic size of the tensor leaves a dynamic size of the view.\<close>

lemma subOFRs_Val: "subOFRs (Val w) y s = (Inr r, t) \<Longrightarrow> \<exists>v. r = Val v"
  by (auto simp: subOFRs_def Let_def bindM_Inr_iff split: if_splits option.splits)

lemma minOFRs_Val: "minOFRs x (Val w) s = (Inr r, t) \<Longrightarrow> \<exists>v. r = Val v"
  by (auto simp: minOFRs_def createFolded_def Let_def bindM_Inr_iff split: if_splits option.splits)

lemma wp_result: "wp m Q s \<Longrightarrow> (\<And>r t. m s = (Inr r, t) \<Longrightarrow> P r) \<Longrightarrow> wp m (\<lambda>r t. P r \<and> Q r t) s"
  by (auto simp: wp_def)

lemma wp_actualSize:
  assumes wf: "wf_ir s" and i: "i < length szs" "i < length sh" "i < length orig"
    and x: "idx_ofr s (sh ! i)" "idx_ofr s (orig ! i)" "\<exists>w. sh ! i = Val w"
    and post: "\<And>w t. grows s t \<Longrightarrow> idx_ofr t (Val w) \<Longrightarrow>
      (\<And>E. osem E t (Val w) = min (wrap 64 (szs ! i)) (wrap 64 (osem E s (sh ! i) - osem E s (orig ! i)))) \<Longrightarrow> Q (Val w) t"
  shows "wp (actualSize szs sh orig i) Q s"
proof -
  have "wp (subOFRs (sh ! i) (orig ! i)) (\<lambda>r t. (\<exists>v. r = Val v) \<and> grows s t \<and> idx_ofr t r \<and>
      (\<forall>E. osem E t r = wrap 64 (osem E s (sh ! i) - osem E s (orig ! i)))) s"
    by (rule wp_result, rule wp_subOFRs [OF wf x(1,2)]) (use x(3) subOFRs_Val in auto)
  then have "wp (subOFRs (sh ! i) (orig ! i)) (\<lambda>r. wp (minOFRs (getIndexAttr (szs ! i)) r) Q) s"
  proof (rule wp_mono)
    fix r t assume a: "(\<exists>v. r = Val v) \<and> grows s t \<and> idx_ofr t r \<and> (\<forall>E. osem E t r = wrap 64 (osem E s (sh ! i) - osem E s (orig ! i)))"
    then have g: "grows s t" and r: "idx_ofr t r" by simp_all
    have "wp (minOFRs (getIndexAttr (szs ! i)) r) (\<lambda>y u. (\<exists>w. y = Val w) \<and> grows t u \<and> idx_ofr u y \<and>
        (\<forall>E. osem E u y = min (wrap 64 (szs ! i)) (wrap 64 (osem E s (sh ! i) - osem E s (orig ! i))))) t"
      by (rule wp_result, rule wp_minOFRs [OF growsD(2) [OF g] _ r]) (use a minOFRs_Val in \<open>auto simp: wrap_min\<close>)
    then show "wp (minOFRs (getIndexAttr (szs ! i)) r) Q t"
      by (rule wp_mono) (use post grows_trans [OF g] in auto)
  qed
  then show ?thesis using i by (simp add: actualSize_def wp_simps)
qed

text \<open>The sizes of the view: what is left of the block inside the tensor.\<close>

definition restSize :: "env \<Rightarrow> ir \<Rightarrow> int list \<Rightarrow> ofr list \<Rightarrow> ofr list \<Rightarrow> nat \<Rightarrow> int" where
  "restSize E s szs sh orig i = min (wrap 64 (szs ! i)) (wrap 64 (osem E s (sh ! i) - osem E s (orig ! i)))"

definition restSizes :: "ir \<Rightarrow> int list \<Rightarrow> ofr list \<Rightarrow> ofr list \<Rightarrow> ofr list \<Rightarrow> ir \<Rightarrow> bool" where
  "restSizes s szs sh orig actual u \<longleftrightarrow> length actual = length szs \<and>
     (\<forall>i < length szs. \<exists>w. actual ! i = Val w \<and> idx_ofr u (Val w) \<and> (\<forall>E. eval E u w [] = restSize E s szs sh orig i))"

lemma restSizes_grows: "grows u t \<Longrightarrow> restSizes s szs sh orig actual u \<Longrightarrow> restSizes s szs sh orig actual t"
  unfolding restSizes_def using valid_grows tyOf_grows eval_grows by fastforce

lemma wp_actualSizes:
  assumes wf: "wf_ir s" and l: "length sh = length szs" "length orig = length szs"
    and x: "\<And>x. x \<in> set sh \<union> set orig \<Longrightarrow> idx_ofr s x" "\<And>x. x \<in> set sh \<Longrightarrow> \<exists>w. x = Val w" and g: "grows s t"
    and post: "\<And>actual u. grows t u \<Longrightarrow> restSizes s szs sh orig actual u \<Longrightarrow> Q actual u"
  shows "wp (mapM (actualSize szs sh orig) [0..<length szs]) Q t"
proof (rule wp_mapM_grows [OF growsD(2) [OF g], where
    P = "\<lambda>i r u. \<exists>w. r = Val w \<and> idx_ofr u (Val w) \<and> (\<forall>E. eval E u w [] = restSize E s szs sh orig i)"])
  fix i u Q' assume i: "i \<in> set [0..<length szs]" and u: "grows t u"
    and Q': "\<And>r w. grows u w \<Longrightarrow> \<exists>z. r = Val z \<and> idx_ofr w (Val z) \<and> (\<forall>E. eval E w z [] = restSize E s szs sh orig i) \<Longrightarrow> Q' r w"
  note gu = grows_trans [OF g u]
  have m: "sh ! i \<in> set sh" "orig ! i \<in> set orig" using i l by auto
  then have xi: "idx_ofr s (sh ! i)" "idx_ofr s (orig ! i)" "\<exists>w. sh ! i = Val w" using x by blast+
  show "wp (actualSize szs sh orig i) Q' u"
    by (rule wp_actualSize [OF growsD(2) [OF u]])
      (use i l xi(3) idx_ofr_grows [OF gu xi(1)] idx_ofr_grows [OF gu xi(2)] osem_grows [OF gu xi(1)] osem_grows [OF gu xi(2)]
        in \<open>auto intro!: Q' simp: restSize_def\<close>)
next
  fix i r u w assume "\<exists>z. r = Val z \<and> idx_ofr u (Val z) \<and> (\<forall>E. eval E u z [] = restSize E s szs sh orig i)" and uw: "grows u w"
  then show "\<exists>z. r = Val z \<and> idx_ofr w (Val z) \<and> (\<forall>E. eval E w z [] = restSize E s szs sh orig i)"
    using valid_grows [OF uw] tyOf_grows [OF uw] eval_grows [OF uw] by auto
next
  fix ys u assume "grows t u" "length ys = length [0..<length szs]"
    "\<And>i. i < length [0..<length szs] \<Longrightarrow> \<exists>w. ys ! i = Val w \<and> idx_ofr u (Val w) \<and> (\<forall>E. eval E u w [] = restSize E s szs sh orig ([0..<length szs] ! i))"
  then show "Q ys u" by (intro post) (simp_all add: restSizes_def)
qed

lemma restSizes_idx: "restSizes s szs sh orig actual u \<Longrightarrow> x \<in> set actual \<Longrightarrow> idx_ofr u x"
  by (auto simp: restSizes_def in_set_conv_nth)

lemma wp_convertBlockPtr:
  assumes wf: "wf_ir s" and v: "plainPtr s v base szs strs offs orig sh ord e" "ord \<noteq> []" and b: "baseMemref E s (remapped cv base) base e"
    and x: "\<And>x. x \<in> set sh \<Longrightarrow> \<exists>w. x = Val w" "\<And>x. x \<in> set orig \<Longrightarrow> idx_ofr s x" "length orig = length szs" "osem E s (sh ! 0) \<noteq> 0"
    and post: "\<And>m u off actual ms lo ls. grows s u \<Longrightarrow> valid u m \<Longrightarrow> defOp u m = ReinterpretCastOp (remapped cv base) off actual ms lo ls \<Longrightarrow>
      tyOf u m = MemRefTy (replicate (length szs) kDynamic) e \<Longrightarrow> restSizes s szs sh orig actual u \<Longrightarrow> represents E u szs m v \<Longrightarrow> Q m u"
  shows "wp (convertMakeTensorPtr cv v) Q s"
proof -
  let ?b = "remapped cv base" and ?T = "MemRefTy (replicate (length szs) kDynamic) e"
  note v' = v(1) [unfolded plainPtr_def]
  have xsh: "idx_ofr s x" if "x \<in> set sh \<union> set orig" for x using that v' x(2) by blast
  have nz: "hasConstZero (sh ! 0) t = (Inr False, t)" if g: "grows s t" for t
  proof -
    have s0: "idx_ofr s (sh ! 0)" using xsh v' by auto
    show ?thesis
      using hasConstZero_index [OF growsD(2) [OF g] idx_ofr_grows [OF g s0]] x(4) osem_grows [OF g s0] by fastforce
  qed
  have cast: "wp (create (ReinterpretCastOp ?b off actual ms lo ls) ?T) Q u"
    if ms: "length ms = length szs" "\<And>y. y \<in> set ms \<Longrightarrow> idx_ofr s y"
      "\<And>E idx. inB szs idx \<Longrightarrow> dot (map (osem E s) ms) idx = dot (map (osem E s) strs) idx"
    and off: "grows s u" "idx_ofr u off" "\<And>E. w64 (osem E u off) = w64 (\<Sum>x\<leftarrow>offs. osem E s x)"
    and actual: "restSizes s szs sh orig actual u" for ms off actual u lo ls
  proof (rule wp_create [OF growsD(2) [OF off(1)] reinterpret_vals])
    show "valid u ?b" using b valid_grows [OF off(1)] by (simp add: baseMemref_def)
    show "idx_ofr u x" if "x \<in> insert off (set actual \<union> set ms)" for x
      using that off(2) ms(2) idx_ofr_grows [OF off(1)] restSizes_idx [OF actual] by auto
    fix m w assume m: "grows u w" "valid w m" "defOp w m = ReinterpretCastOp ?b off actual ms lo ls" "tyOf w m = ?T"
    note g = grows_trans [OF off(1) m(1)]
    show "Q m w"
      by (rule post [OF g m(2-4) restSizes_grows [OF m(1) actual]], rule reinterpret_represents [OF wf v(1) b g growsD(2) [OF m(1)] m(2-4) _ ms(1)])
        (use off osem_grows [OF m(1) off(2)] ms(3) osem_grows [OF g ms(2)] in \<open>simp_all cong: map_cong\<close>)
  qed simp
  define K where "K = (\<lambda>ms off. bindM (mapM (actualSize szs sh orig) [0..<length szs]) (\<lambda>actual.
      if length szs = 1 then bindM (getResultMemrefType ord (tyOf s v) [kDynamic]) (create (ReinterpretCastOp ?b off actual ms (getIntAttr off) (map getIntAttr ms)))
      else bindM (getResultMemrefType ord (tyOf s v) (replicate (length szs) kDynamic)) (create (ReinterpretCastOp ?b off actual ms None (replicate (length szs) None)))))"
  have K: "wp (K ms off) Q t"
    if ms: "length ms = length szs" "\<And>y. y \<in> set ms \<Longrightarrow> idx_ofr s y"
      "\<And>E idx. inB szs idx \<Longrightarrow> dot (map (osem E s) ms) idx = dot (map (osem E s) strs) idx"
    and off: "grows s t" "idx_ofr t off" "\<And>E. w64 (osem E t off) = w64 (\<Sum>x\<leftarrow>offs. osem E s x)" for ms off t
    unfolding K_def wp_bindM
  proof (rule wp_actualSizes [OF wf _ x(3) xsh x(1) off(1)])
    fix actual u assume a: "grows t u" "restSizes s szs sh orig actual u"
    have one: "[kDynamic] = replicate (length szs) kDynamic" if "length szs = 1" using that by simp
    have "wp (create (ReinterpretCastOp ?b off actual ms lo ls) ?T) Q u" for lo ls
      by (rule cast [OF ms grows_trans [OF off(1) a(1)] idx_ofr_grows [OF a(1) off(2)] _ a(2)]) (use off osem_grows [OF a(1)] in simp_all)
    then show "wp (if length szs = 1 then bindM (getResultMemrefType ord (tyOf s v) [kDynamic]) (create (ReinterpretCastOp ?b off actual ms (getIntAttr off) (map getIntAttr ms)))
      else bindM (getResultMemrefType ord (tyOf s v) (replicate (length szs) kDynamic)) (create (ReinterpretCastOp ?b off actual ms None (replicate (length szs) None)))) Q u"
      using v' v(2) one by (auto simp: wp_simps getResultMemrefType_def isBlockPtrOp_def getElementTypeBlockPtr_def)
  qed (use v' in auto)
  have F: "wp (getMixedStridesForMemref szs strs) (\<lambda>ms. wp (accumulateTargetOffset offs) (\<lambda>off t. grows s t \<and> wp (K ms off) Q t)) s"
    by (intro wp_getMixedStrides [OF wf] wp_accumulateTargetOffset [OF wf] conjI K) (use v' in auto)
  have zero: "wp (hasConstZero (sh ! 0)) R t = R False t" if "grows s t" for R :: "bool \<Rightarrow> ir \<Rightarrow> bool" and t
    using nz [OF that] by (auto simp: wp_def simp del: not_ex)
  have "wp (rewritePtr szs ord szs (tyOf s v) strs offs orig sh ?b) Q s"
    unfolding rewritePtr_def
    apply (subst wp_bindM, rule wp_mono [OF F], subst wp_bindM, erule wp_mono, erule conjE)
    subgoal for ms t off u
      using v' x(3) by (simp add: wp_simps zero K_def Let_def cong: if_cong)
    done
  then show ?thesis
    using v' v(2) by (simp add: convertMakeTensorPtr_def wp_simps isBlockPtrOp_def pointeeShape_def)
qed

section \<open>Loads that check the boundary\<close>

definition padValue :: "conversion \<Rightarrow> nat option \<Rightarrow> int" where
  "padValue cv pad = (if pad \<noteq> None \<and> pad \<noteq> Some (padNegInf cv) \<and> pad = Some (padInf cv) then -1 else 0)"

lemma wrap_ones: "0 < w \<Longrightarrow> wrap w (2 ^ w - 1) = -1"
proof -
  assume "0 < w"
  then obtain n where n: "w = Suc n" by (cases w) auto
  have "take_bit (Suc n) (2 ^ Suc n - 1 :: int) = take_bit (Suc n) (- 1)"
    by (simp only: mask_eq_exp_minus_1 [symmetric] take_bit_minus_one_eq_mask) simp
  then have "signed_take_bit n (2 ^ Suc n - 1 :: int) = signed_take_bit n (- 1)" by (simp only: signed_take_bit_eq_iff_take_bit_eq)
  then show ?thesis by (simp add: wrap_def n)
qed

lemma wrap_minus_one [simp]: "wrap w (- 1) = - 1"
  by (simp add: wrap_def)

lemma wp_padding:
  assumes wf: "wf_ir s" and e: "(\<exists>w > 0. e = IntTy w) \<or> (\<exists>w. e = FloatTy w)"
    and post: "\<And>z u. grows s u \<Longrightarrow> valid u z \<Longrightarrow> (\<And>E. isIntTy e \<Longrightarrow> eval E u z [] = padValue cv pad) \<Longrightarrow> Q z u"
  shows "wp (case pad of None \<Rightarrow> zeroConstant e | Some k \<Rightarrow> paddingConstant cv k e) Q s"
proof (cases pad)
  case None
  have "wp (zeroConstant e) Q s"
    by (rule wp_zeroConstant [OF wf]) (use e None post in \<open>auto simp: padValue_def\<close>)
  then show ?thesis using None by simp
next
  case (Some k)
  have "wp (paddingConstant cv k e) Q s" using e
  proof
    assume "\<exists>w > 0. e = IntTy w"
    then obtain w where w: "0 < w" "e = IntTy w" by blast
    show ?thesis unfolding w(2) paddingConstant_def ty.case
      by (rule wp_create [OF wf]) (use w Some in \<open>auto simp: denOp_def norm_def padValue_def wrap_ones split: if_splits intro!: post\<close>)
  next
    assume "\<exists>w. e = FloatTy w"
    then obtain w where w: "e = FloatTy w" by blast
    show ?thesis unfolding w paddingConstant_def ty.case
      by (rule wp_create [OF wf]) (use w post in simp_all)
  qed
  then show ?thesis using Some by simp
qed

lemma unwrapMaterialization_memref: "memrefValue u p \<Longrightarrow> wp (unwrapMaterialization p) R u = R p u"
  by (cases "defOp u p") (auto simp: unwrapMaterialization_def wp_simps memrefValue_def)

lemma boundarySizes_view: "defOp u p = ReinterpretCastOp base off actual ms lo ls \<Longrightarrow> wp (boundarySizes p) R u = R (actual, p) u"
  by (simp add: boundarySizes_def wp_simps)

lemma wp_boundaryLoad:
  assumes wf: "wf_ir s" and e: "(\<exists>w > 0. e = IntTy w) \<or> (\<exists>w. e = FloatTy w)" and n: "\<And>n. n \<in> set sh \<Longrightarrow> in64 n"
    and p: "accessible s sh p" and d: "defOp s p = ReinterpretCastOp base off actual ms lo ls"
    and x: "maskDims E s actual sh" "\<And>x. x \<in> set actual \<Longrightarrow> \<exists>w. x = Val w" and m: "inMemory E s sh p" and bc: "bc \<noteq> []"
    and post: "\<And>r u st c. grows s u \<Longrightarrow> valid u r \<Longrightarrow> tyOf u r = TensorTy sh e \<Longrightarrow> (isIntTy e \<Longrightarrow> c = padValue cv pad) \<Longrightarrow>
      readsAs E u st r sh (\<lambda>M idx. if inMask E s actual idx then M (locOf (desc E s p) idx) else c) \<Longrightarrow> Q (st, r) u"
  shows "wp (rewriteStructuredLoad cv (TensorTy sh e) p None bc pad) Q s"
proof -
  let ?t = "TensorTy sh e"
  have mp: "memrefValue s p" using p by (simp add: accessible_def)
  have ld: "length actual = length sh" using maskDims_length [OF x(1)] .
  have main: "wp (case pad of None \<Rightarrow> zeroConstant e | Some k \<Rightarrow> paddingConstant cv k e) (\<lambda>z.
      wp (fillWithValue b z sh actual sh) (\<lambda>st1. wp (copyDims (length sh) actual p b) (\<lambda>st2.
      wp (create (ToTensorOp b) ?t) (\<lambda>r. Q (st1 @ st2, r))))) u"
    if g: "grows s u" and b: "valid u b" "defOp u b = MemAllocOp" "tyOf u b = MemRefTy sh e" "\<And>E. desc E u b = bufferDesc b sh" for b u
  proof (rule wp_padding [OF growsD(2) [OF g] e])
    fix z t assume z: "grows u t" "valid t z" "\<And>E. isIntTy e \<Longrightarrow> eval E t z [] = padValue cv pad"
    note gt = grows_trans [OF g z(1)]
    have dt: "idx_ofr t x" if "x \<in> set actual" for x using maskDims_idx [OF x(1) that] idx_ofr_grows [OF gt] by blast
    show "wp (fillWithValue b z sh actual sh) (\<lambda>st1. wp (copyDims (length sh) actual p b) (\<lambda>st2.
        wp (create (ToTensorOp b) ?t) (\<lambda>r. Q (st1 @ st2, r)))) t"
    proof (rule wp_fillWithValue [OF growsD(2) [OF z(1)] dt ld refl n])
      fix acc w assume a: "grows t w" "valid w acc" "\<And>E. eval E w acc [] \<noteq> 0 \<longleftrightarrow> fillsBelow E t sh actual sh (length sh)"
      note gw = grows_trans [OF gt a(1)] and uw = grows_trans [OF z(1) a(1)]
      have bw: "valid w b" "defOp w b = MemAllocOp" "tyOf w b = MemRefTy sh e" "desc E w b = bufferDesc b sh" for E
        using b valid_grows [OF uw b(1)] defOp_grows [OF uw b(1)] tyOf_grows [OF uw b(1)] desc_grows [OF uw growsD(2) [OF g] b(1)] by auto
      have fd: "fillDim E t (actual ! i) (sh ! i) = osem E t (actual ! i)" if "i < length sh" for i E
        using x(2) [of "actual ! i"] that ld by (auto simp: fillDim_def)
      have "fillsWith E t b sh actual w [IfS acc [FillS z b]] (eval E w z [])"
        by (rule fillsWith_guard [OF growsD(2) [OF a(1)] bw(1,4) valid_grows [OF a(1) z(2)] a(2,3) ld fd])
      then have f: "fillsWith E w b sh actual w [IfS acc [FillS z b]] (eval E t z [])"
        using eval_grows [OF a(1) z(2)] inMask_grows [OF a(1) maskDims_grows [OF gt x(1)]] by (simp add: fillsWith_def)
      note pw = accessible_grows [OF gw wf p]
      have mw: "memrefValue w p" using pw by (simp add: accessible_def)
      show "wp (copyDims (length sh) actual p b) (\<lambda>st2. wp (create (ToTensorOp b) ?t) (\<lambda>r. Q ([IfS acc [FillS z b]] @ st2, r))) w"
      proof (rule wp_fillCopy [OF growsD(2) [OF a(1)] memrefValueD(1,4) [OF mw] bw maskDims_grows [OF gw x(1)] _ _ f,
            where st'' = "\<lambda>st2. [IfS acc [FillS z b]] @ st2"])
        show "length (mstrides (desc E w p)) = length sh" for E using pw by (simp add: accessible_def)
        show "inMemory E w sh p" by (rule inMemory_grows [OF gw wf memrefValueD(1) [OF mp] m])
        fix r y st' assume r: "grows w y" "valid y r" "tyOf y r = ?t"
          "readsAs E y st' r sh (\<lambda>M idx. if inMask E w actual idx then M (locOf (desc E w p) idx) else eval E t z [])"
        show "Q (st', r) y"
          by (rule post [OF grows_trans [OF gw r(1)] r(2,3) z(3)
            r(4) [unfolded inMask_grows [OF gw x(1)] desc_grows [OF gw wf memrefValueD(1) [OF mp]]]])
      qed simp
    qed
  qed
  show ?thesis
    unfolding rewriteStructuredLoad_def wp_bindM
    apply (intro wp_allocFor [OF wf refl])
    subgoal for b u
      using main [of u b] bc
        wrapBlocks_memref [OF memrefValue_grows [of s u p]] unwrapMaterialization_memref [OF memrefValue_grows [of s u p]]
        boundarySizes_view [of u p] defOp_grows [of s u p] memrefValueD(1) [OF mp] d wf mp
      by (simp add: wp_simps) (cases pad; simp add: wp_simps)
    done
qed

section \<open>A pointer and its accesses\<close>

text \<open>The conversion of an access after that of its pointer.\<close>

definition remap :: "conversion \<Rightarrow> val \<Rightarrow> val \<Rightarrow> conversion" where
  "remap cv p m = cv\<lparr>remapped := (remapped cv)(p := m)\<rparr>"

lemma remap_simps [simp]: "remapped (remap cv p m) p = m" "padValue (remap cv p m) pad = padValue cv pad"
  by (simp_all add: remap_def padValue_def)

lemma accessDims_grows: "grows s t \<Longrightarrow> accessDims E s dims sh \<Longrightarrow> accessDims E t dims sh"
  using maskDims_grows by (auto simp: accessDims_def)

lemma plainPtr_operands:
  assumes "plainPtr s p base szs strs offs orig sh ord e"
  shows "valid s p" "defOp s p = TTSMakeTensorPtrOp base szs strs offs orig sh ord"
  using assms by (simp_all add: plainPtr_def)

lemma loadSem_grows:
  assumes "grows s t" "defOp s l = TTSLoadOp p dims other bc pad" "valid s l" "valid s p" "accessDims E s dims sh" "\<And>y. other = Some y \<Longrightarrow> valid s y"
  shows "loadSem mem junk E t (defOp t l) idx = loadSem mem junk E s (defOp s l) idx"
  using assms eval_grows [OF assms(1)] inMask_grows [OF assms(1)]
  by (auto simp: loadSem_def defOp_grows [OF assms(1,3)] accessDims_def split: option.split)

lemma storesTo_grows:
  assumes "grows s t" "defOp s l = TTSStoreOp p x dims bc" "valid s l" "valid s p" "valid s x" "accessDims E s dims sh"
  shows "storesTo E t (defOp t l) sh M = storesTo E s (defOp s l) sh M"
  unfolding storesTo_def using assms eval_grows [OF assms(1)] inMask_grows [OF assms(1)]
  by (intro foldl_cong) (auto simp: storeSem_def defOp_grows [OF assms(1,3)] accessDims_def)

lemma wp_structuredLoad:
  assumes wf: "wf_ir s" and p: "plainPtr s p base szs strs offs orig sh [] e" and b: "baseMemref E s (remapped cv base) base e"
    and n: "\<forall>n \<in> set szs. in64 n" and e: "isIntTy e \<or> (\<exists>w. e = FloatTy w)"
    and l: "valid s l" "defOp s l = TTSLoadOp p dims other [] pad" "tyOf s l = TensorTy szs e"
    and x: "accessDims E s dims szs" "dims = [] \<longrightarrow> other = None" "\<forall>y. other = Some y \<longrightarrow> valid s y"
  shows "wp (convertMakeTensorPtr cv p) (\<lambda>m. wp (convertLoad (remap cv p m) l) (\<lambda>(st, r) w. grows s w \<and> tyOf w r = tyOf s l \<and>
    (\<exists>c. (isIntTy e \<longrightarrow> c = 0) \<and> readsAs E w st r szs (\<lambda>M. loadSem (\<lambda>a. M (Addr a)) (\<lambda>_. c) E s (defOp s l))))) s"
proof (rule wp_convertMakeTensorPtr [OF wf p b n])
  fix m u assume m: "grows s u" "represents E u szs m p"
  note g = m(1)
  have o: "valid u y" if "other = Some y" for y using that x(3) valid_grows [OF g] by blast
  show "wp (convertLoad (remap cv p m) l) (\<lambda>(st, r) w. grows s w \<and> tyOf w r = tyOf s l \<and>
    (\<exists>c. (isIntTy e \<longrightarrow> c = 0) \<and> readsAs E w st r szs (\<lambda>M. loadSem (\<lambda>a. M (Addr a)) (\<lambda>_. c) E s (defOp s l)))) u"
  proof (rule wp_convertLoad [OF growsD(2) [OF g] _ _ _ e _ _ accessDims_grows [OF g x(1)] _ o])
    show "represents E u szs (remapped (remap cv p m) p) p" using m(2) by simp
    fix r w st c assume r: "grows u w" "tyOf w r = TensorTy szs e" "isIntTy e \<Longrightarrow> c = 0"
      "readsAs E w st r szs (\<lambda>M. loadSem (\<lambda>a. M (Addr a)) (\<lambda>_. c) E u (defOp u l))"
    have "readsAs E w st r szs (\<lambda>M. loadSem (\<lambda>a. M (Addr a)) (\<lambda>_. c) E s (defOp s l))"
      using r(4) x(3) plainPtr_operands [OF p]
      by (subst readsAs_cong [OF loadSem_grows [OF g l(2,1) _ x(1), symmetric]]) auto
    then show "(case (st, r) of (st, r) \<Rightarrow> \<lambda>w. grows s w \<and> tyOf w r = tyOf s l \<and>
        (\<exists>c. (isIntTy e \<longrightarrow> c = 0) \<and> readsAs E w st r szs (\<lambda>M. loadSem (\<lambda>a. M (Addr a)) (\<lambda>_. c) E s (defOp s l)))) w"
      using r l(3) grows_trans [OF g r(1)] by auto
  qed (use l n x(2) plainPtr_operands [OF p] defOp_grows [OF g] tyOf_grows [OF g] in auto)
qed

lemma wp_structuredStore:
  assumes wf: "wf_ir s" and p: "plainPtr s p base szs strs offs orig sh [] e" and b: "baseMemref E s (remapped cv base) base e"
    and n: "\<forall>n \<in> set szs. in64 n"
    and l: "valid s l" "defOp s l = TTSStoreOp p x dims []" "valid s x" "tyOf s x = TensorTy szs e" and d: "accessDims E s dims szs"
  shows "wp (convertMakeTensorPtr cv p) (\<lambda>m. wp (convertStore (remap cv p m) l) (\<lambda>st w. grows s w \<and>
    (\<forall>M. exec E w st M = storesTo E s (defOp s l) szs M))) s"
proof (rule wp_convertMakeTensorPtr [OF wf p b n])
  fix m u assume m: "grows s u" "valid u m" "tyOf u m = MemRefTy szs e" "represents E u szs m p" "msizes (desc E u m) = szs"
  note g = m(1)
  show "wp (convertStore (remap cv p m) l) (\<lambda>st w. grows s w \<and> (\<forall>M. exec E w st M = storesTo E s (defOp s l) szs M)) u"
  proof (rule wp_convertStore [OF growsD(2) [OF g] _ _ _ _ _ _ _ _ accessDims_grows [OF g d], where x = x and e = e and msh = szs and p = p])
    show "represents E u szs (remapped (remap cv p m) p) p" using m(4) by simp
    fix st w assume "grows u w" "\<And>M. exec E w st M = storesTo E u (defOp u l) szs M"
    then show "grows s w \<and> (\<forall>M. exec E w st M = storesTo E s (defOp s l) szs M)"
      using storesTo_grows [OF g l(2,1) _ l(3) d] plainPtr_operands [OF p] grows_trans [OF g] by auto
  qed (use l m plainPtr_operands [OF p] p [unfolded plainPtr_def] valid_grows [OF g] defOp_grows [OF g] tyOf_grows [OF g] in auto)
qed

text \<open>The part of a block that lies in the tensor.\<close>

definition insideTensor :: "env \<Rightarrow> ir \<Rightarrow> ofr list \<Rightarrow> ofr list \<Rightarrow> int list \<Rightarrow> bool" where
  "insideTensor E s sh orig idx \<longleftrightarrow> (\<forall>i < length idx. osem E s (orig ! i) + idx ! i < osem E s (sh ! i))"

definition startsInside :: "env \<Rightarrow> ir \<Rightarrow> ofr list \<Rightarrow> ofr list \<Rightarrow> int list \<Rightarrow> bool" where
  "startsInside E s sh orig szs \<longleftrightarrow> length orig = length szs \<and> (\<forall>i < length szs. 0 \<le> szs ! i \<and> in64 (szs ! i) \<and>
     0 \<le> osem E s (orig ! i) \<and> osem E s (orig ! i) \<le> osem E s (sh ! i))"

lemma restSize_inside:
  assumes "wf_ir s" "startsInside E s sh orig szs" "i < length szs" "idx_ofr s (sh ! i)"
  shows "restSize E s szs sh orig i = min (szs ! i) (osem E s (sh ! i) - osem E s (orig ! i))"
proof -
  have o: "0 \<le> osem E s (orig ! i)" "osem E s (orig ! i) \<le> osem E s (sh ! i)" "in64 (szs ! i)"
    using assms(2,3) by (auto simp: startsInside_def)
  have "in64 (osem E s (sh ! i))" using osem_wrap [OF assms(1,4), of E] in64_wrap by metis
  then have "in64 (osem E s (sh ! i) - osem E s (orig ! i))" using o by (auto simp: in64_def)
  then show ?thesis using o by (simp add: restSize_def wrap_in64)
qed

lemma restSizes_mask:
  assumes "wf_ir s" "startsInside E s sh orig szs" "restSizes s szs sh orig actual u" "\<And>i. i < length szs \<Longrightarrow> idx_ofr s (sh ! i)"
  shows "maskDims E u actual szs" "inB szs idx \<Longrightarrow> inMask E u actual idx \<longleftrightarrow> insideTensor E s sh orig idx"
proof -
  have l: "length actual = length szs" using assms(3) by (simp add: restSizes_def)
  have a: "idx_ofr u (actual ! i) \<and> osem E u (actual ! i) = min (szs ! i) (osem E s (sh ! i) - osem E s (orig ! i))" if "i < length szs" for i
    using assms(3) that restSize_inside [OF assms(1,2) that assms(4) [OF that]] by (fastforce simp: restSizes_def)
  show "maskDims E u actual szs"
    using a l assms(2) by (auto simp: maskDims_def list_all2_conv_all_nth startsInside_def)
  assume "inB szs idx"
  then show "inMask E u actual idx \<longleftrightarrow> insideTensor E s sh orig idx"
    using a l by (auto simp: inMask_def insideTensor_def inB_def list_all2_conv_all_nth algebra_simps)
qed

lemma wp_blockLoad:
  assumes wf: "wf_ir s" and p: "plainPtr s p base szs strs offs orig sh ord e" "ord \<noteq> []" and b: "baseMemref E s (remapped cv base) base e"
    and x: "\<forall>x \<in> set sh. \<exists>w. x = Val w" "\<forall>x \<in> set orig. idx_ofr s x" "startsInside E s sh orig szs" "osem E s (sh ! 0) \<noteq> 0"
    and e: "(\<exists>w > 0. e = IntTy w) \<or> (\<exists>w. e = FloatTy w)"
    and l: "valid s l" "defOp s l = TTSLoadOp p [] None bc pad" "tyOf s l = TensorTy szs e" "bc \<noteq> []"
  shows "wp (convertMakeTensorPtr cv p) (\<lambda>m. wp (convertLoad (remap cv p m) l) (\<lambda>(st, r) w. grows s w \<and> tyOf w r = tyOf s l \<and>
    (\<exists>c. (isIntTy e \<longrightarrow> c = padValue cv pad) \<and>
      readsAs E w st r szs (\<lambda>M idx. if insideTensor E s sh orig idx then M (Addr (eval E s p idx)) else c)))) s"
proof (rule wp_convertBlockPtr [OF wf p b])
  note p' = p(1) [unfolded plainPtr_def]
  fix m u off actual ms lo ls
  assume m: "grows s u" "valid u m" "defOp u m = ReinterpretCastOp (remapped cv base) off actual ms lo ls"
    "tyOf u m = MemRefTy (replicate (length szs) kDynamic) e" "restSizes s szs sh orig actual u" "represents E u szs m p"
  note g = m(1) and rep = representsD [OF m(6)]
  have shx: "idx_ofr s (sh ! i)" if "i < length szs" for i using p' that by auto
  note md = restSizes_mask [OF wf x(3) m(5) shx]
  have v: "\<And>x. x \<in> set actual \<Longrightarrow> \<exists>w. x = Val w" using m(5) by (auto simp: restSizes_def in_set_conv_nth)
  have "wp (rewriteStructuredLoad (remap cv p m) (TensorTy szs e) m None bc pad) (\<lambda>(st, r) w. grows s w \<and> tyOf w r = tyOf s l \<and>
    (\<exists>c. (isIntTy e \<longrightarrow> c = padValue cv pad) \<and>
      readsAs E w st r szs (\<lambda>M idx. if insideTensor E s sh orig idx then M (Addr (eval E s p idx)) else c))) u"
  proof (rule wp_boundaryLoad [OF growsD(2) [OF g] e _ rep(1) m(3) md(1) v rep(2) l(4)])
    show "in64 n" if "n \<in> set szs" for n using that x(3) by (auto simp: startsInside_def in_set_conv_nth)
    fix r w st c assume r: "grows u w" "tyOf w r = TensorTy szs e" "isIntTy e \<Longrightarrow> c = padValue (remap cv p m) pad"
      "readsAs E w st r szs (\<lambda>M idx. if inMask E u actual idx then M (locOf (desc E u m) idx) else c)"
    have "readsAs E w st r szs (\<lambda>M idx. if insideTensor E s sh orig idx then M (Addr (eval E s p idx)) else c)"
      by (rule readsAs_cong [THEN iffD1, OF _ r(4)]) (use md(2) rep(3) eval_grows [OF g plainPtr_operands(1) [OF p(1)]] in simp)
    then show "(case (st, r) of (st, r) \<Rightarrow> \<lambda>w. grows s w \<and> tyOf w r = tyOf s l \<and> (\<exists>c. (isIntTy e \<longrightarrow> c = padValue cv pad) \<and>
        readsAs E w st r szs (\<lambda>M idx. if insideTensor E s sh orig idx then M (Addr (eval E s p idx)) else c))) w"
      using r l(3) grows_trans [OF g r(1)] by auto
  qed
  then show "wp (convertLoad (remap cv p m) l) (\<lambda>(st, r) w. grows s w \<and> tyOf w r = tyOf s l \<and>
    (\<exists>c. (isIntTy e \<longrightarrow> c = padValue cv pad) \<and>
      readsAs E w st r szs (\<lambda>M idx. if insideTensor E s sh orig idx then M (Addr (eval E s p idx)) else c))) u"
    using l p' defOp_grows [OF g] tyOf_grows [OF g] by (simp add: convertLoad_def wp_simps)
qed (use x in \<open>auto simp: startsInside_def\<close>)

end
