(* ===== verification/Claims_Memref.thy ===== *)
theory Claims_Memref
  imports Memref_Ptr Demo
begin

text \<open>The properties of the conversion of structured pointers and their accesses to memrefs, with an instance of each.\<close>

section \<open>Pointers and accesses of a small kernel\<close>

text \<open>
  0 is a pointer and 1 the memref that the type converter makes of it.  2 are the four elements from
  the second on, of which 3 loads and 4 stores three; 6 is a block of four elements from the second
  on, in a tensor of 5 elements, and 7 loads it with a boundary check.
\<close>

definition memDemo :: ir where
  "memDemo = \<lparr>ops = [
     (BlockArg None, PtrTy (IntTy 32)),
     (BlockArg None, MemRefTy [kDynamic] (IntTy 32)),
     (TTSMakeTensorPtrOp 0 [4] [getIndexAttr 1] [getIndexAttr 2] [getIndexAttr 2] [getIndexAttr 0] [], TensorTy [4] (PtrTy (IntTy 32))),
     (TTSLoadOp 2 [getIndexAttr 3] None [] None, TensorTy [4] (IntTy 32)),
     (TTSStoreOp 2 3 [getIndexAttr 3] [], NoneTy),
     (BlockArg None, IndexTy),
     (TTSMakeTensorPtrOp 0 [4] [getIndexAttr 1] [getIndexAttr 2] [getIndexAttr 2] [Val 5] [0], PtrTy (TensorTy [4] (IntTy 32))),
     (TTSLoadOp 6 [] None [0] None, TensorTy [4] (IntTy 32))], fors = []\<rparr>"

definition memE :: env where
  "memE v idx = (if v < 2 then 4096 else 5)"

definition memCv :: conversion where
  "memCv = \<lparr>remapped = (\<lambda>v. v + 1), padNegInf = 2, padInf = 3\<rparr>"

lemma memDemo_wf: "wf_ir memDemo"
  by (simp add: wf_ir_enumerate memDemo_def getIndexAttr_def)

lemma memDemo_valid [simp]: "valid memDemo v \<longleftrightarrow> v < 8"
  by (simp add: valid_def memDemo_def) arith

lemma memDemo_ops [simp]:
  "defOp memDemo 0 = BlockArg None" "tyOf memDemo 0 = PtrTy (IntTy 32)"
  "defOp memDemo (Suc 0) = BlockArg None" "tyOf memDemo (Suc 0) = MemRefTy [kDynamic] (IntTy 32)"
  "defOp memDemo 2 = TTSMakeTensorPtrOp 0 [4] [getIndexAttr 1] [getIndexAttr 2] [getIndexAttr 2] [getIndexAttr 0] []"
  "tyOf memDemo 2 = TensorTy [4] (PtrTy (IntTy 32))"
  "defOp memDemo 3 = TTSLoadOp 2 [getIndexAttr 3] None [] None" "tyOf memDemo 3 = TensorTy [4] (IntTy 32)"
  "defOp memDemo 4 = TTSStoreOp 2 3 [getIndexAttr 3] []"
  "defOp memDemo 5 = BlockArg None" "tyOf memDemo 5 = IndexTy"
  "defOp memDemo 6 = TTSMakeTensorPtrOp 0 [4] [getIndexAttr 1] [getIndexAttr 2] [getIndexAttr 2] [Val 5] [0]"
  "tyOf memDemo 6 = PtrTy (TensorTy [4] (IntTy 32))"
  "defOp memDemo 7 = TTSLoadOp 6 [] None [0] None" "tyOf memDemo 7 = TensorTy [4] (IntTy 32)"
  by (simp_all add: memDemo_def defOp_def tyOf_def entry_def)

lemma memDemo_base: "baseMemref memE memDemo (remapped memCv 0) 0 (IntTy 32)"
proof -
  have "eval memE memDemo 0 [] = 4096"
    using eval_unfold [OF memDemo_wf, of 0 memE] by (simp add: denOp_def norm_def memE_def wrap_id)
  moreover have "desc E memDemo 1 = pointerDesc E memDemo 1" for E
    using desc_unfold [OF memDemo_wf, of 1 E] by simp
  ultimately show ?thesis by (simp add: baseMemref_def memCv_def memE_def)
qed

lemma memDemo_ptr: "plainPtr memDemo 2 0 [4] [getIndexAttr 1] [getIndexAttr 2] [getIndexAttr 2] [getIndexAttr 0] [] (IntTy 32)"
  by (simp add: plainPtr_def)

lemma memDemo_block: "plainPtr memDemo 6 0 [4] [getIndexAttr 1] [getIndexAttr 2] [getIndexAttr 2] [Val 5] [0] (IntTy 32)"
  by (simp add: plainPtr_def)

lemma small_wrap: "wrap 64 2 = 2" "wrap 64 3 = 3"
  by (simp_all add: wrap_id)


lemma memDemo_length: "eval memE memDemo 5 [] = 5"
  using eval_unfold [OF memDemo_wf, of 5 memE] by (simp add: denOp_def memE_def wrap_id)

section \<open>Properties\<close>

text \<open>A structured pointer without wrapping is converted to a view whose element at every index
  lies at the address of the pointer at that index, whatever the rank and the strides.\<close>

theorem structured_view_correct:
  assumes "wf_ir s" and "plainPtr s p base szs strs offs orig sh [] e"
    and "baseMemref E s (remapped cv base) base e" and "\<forall>n \<in> set szs. in64 n"
  shows "\<exists>m u. convertMakeTensorPtr cv p s = (Inr m, u) \<and> grows s u \<and> tyOf u m = MemRefTy szs e \<and> msizes (desc E u m) = szs \<and>
    (\<forall>idx. inB szs idx \<longrightarrow> locOf (desc E u m) idx = Addr (eval E s p idx))"
proof -
  have v: "valid s p" using assms(2) by (simp add: plainPtr_def)
  have "wp (convertMakeTensorPtr cv p) (\<lambda>m u. grows s u \<and> tyOf u m = MemRefTy szs e \<and> msizes (desc E u m) = szs \<and>
      (\<forall>idx. inB szs idx \<longrightarrow> locOf (desc E u m) idx = Addr (eval E s p idx))) s"
    by (rule wp_convertMakeTensorPtr [OF assms]) (use eval_grows [OF _ v] in \<open>auto simp: represents_def\<close>)
  then show ?thesis by (auto simp: wp_def)
qed

theorem structured_view_correct_witness:
  "\<exists>m u. convertMakeTensorPtr memCv 2 memDemo = (Inr m, u) \<and> grows memDemo u \<and> tyOf u m = MemRefTy [4] (IntTy 32) \<and>
    msizes (desc memE u m) = [4] \<and> (\<forall>idx. inB [4] idx \<longrightarrow> locOf (desc memE u m) idx = Addr (eval memE memDemo 2 idx))"
  by (rule structured_view_correct [OF memDemo_wf memDemo_ptr memDemo_base]) (simp add: in64_def)





text \<open>C7: a load of a block pointer that checks the boundary yields the element of the memory at every
  index of the block that lies in the tensor, and the padding at the others: the padding of an integer
  is 0, and -1 for the option that asks for infinity.  The sizes of the tensor are SSA values (of a
  constant size the padding is left out, see below), the block starts inside the tensor, and the first
  size is not zero.\<close>

theorem boundary_load_correct:
  assumes "wf_ir s" and "plainPtr s p base szs strs offs orig sh ord e" and "ord \<noteq> []"
    and "baseMemref E s (remapped cv base) base e"
    and "\<forall>x \<in> set sh. \<exists>w. x = Val w" and "\<forall>x \<in> set orig. idx_ofr s x"
    and "startsInside E s sh orig szs" and "osem E s (sh ! 0) \<noteq> 0"
    and "(\<exists>w > 0. e = IntTy w) \<or> (\<exists>w. e = FloatTy w)"
    and "valid s l" and "defOp s l = TTSLoadOp p [] None bc pad" and "tyOf s l = TensorTy szs e" and "bc \<noteq> []"
  shows "\<exists>m u st r w b c. convertMakeTensorPtr cv p s = (Inr m, u) \<and> convertLoad (remap cv p m) l u = (Inr (st, r), w) \<and>
    grows s w \<and> tyOf w r = tyOf s l \<and> defOp w r = ToTensorOp b \<and> (isIntTy e \<longrightarrow> c = padValue cv pad) \<and>
    (\<forall>M idx. inB szs idx \<longrightarrow> exec E w st M (locOf (desc E w b) idx) =
      (if \<forall>i < length idx. osem E s (orig ! i) + idx ! i < osem E s (sh ! i) then M (Addr (eval E s p idx)) else c)) \<and>
    (\<forall>M a. exec E w st M (Addr a) = M (Addr a))"
proof -
  from wp_blockLoad [OF assms] obtain m u st r w c where "convertMakeTensorPtr cv p s = (Inr m, u)"
    "convertLoad (remap cv p m) l u = (Inr (st, r), w)" "grows s w" "tyOf w r = tyOf s l" "isIntTy e \<longrightarrow> c = padValue cv pad"
    "readsAs E w st r szs (\<lambda>M idx. if insideTensor E s sh orig idx then M (Addr (eval E s p idx)) else c)"
    by (simp add: wp_def split_paired_Ex) blast
  then show ?thesis unfolding readsAs_def insideTensor_def by blast
qed

theorem boundary_load_correct_witness:
  "\<exists>m u st r w b c. convertMakeTensorPtr memCv 6 memDemo = (Inr m, u) \<and> convertLoad (remap memCv 6 m) 7 u = (Inr (st, r), w) \<and>
    grows memDemo w \<and> tyOf w r = tyOf memDemo 7 \<and> defOp w r = ToTensorOp b \<and> (isIntTy (IntTy 32) \<longrightarrow> c = padValue memCv None) \<and>
    (\<forall>M idx. inB [4] idx \<longrightarrow> exec memE w st M (locOf (desc memE w b) idx) =
      (if \<forall>i < length idx. osem memE memDemo ([getIndexAttr 2] ! i) + idx ! i < osem memE memDemo ([Val 5] ! i)
       then M (Addr (eval memE memDemo 6 idx)) else c)) \<and>
    (\<forall>M a. exec memE w st M (Addr a) = M (Addr a))"
  by (rule boundary_load_correct [OF memDemo_wf memDemo_block _ memDemo_base, where bc = "[0]"])
    (simp_all add: startsInside_def small_wrap in64_def memDemo_length)

section \<open>Two limits of the conversion\<close>

text \<open>
  2 are four elements that wrap around after three; 3 is a block of four elements of a tensor of
  three, whose sizes are constants, and 4 loads it with a boundary check.
\<close>

definition limitDemo :: ir where
  "limitDemo = \<lparr>ops = [
     (BlockArg None, PtrTy (IntTy 32)),
     (BlockArg None, MemRefTy [kDynamic] (IntTy 32)),
     (TTSMakeTensorPtrOp 0 [4] [getIndexAttr 1] [getIndexAttr 0] [getIndexAttr 0] [getIndexAttr 3] [], TensorTy [4] (PtrTy (IntTy 32))),
     (TTSMakeTensorPtrOp 0 [4] [getIndexAttr 1] [getIndexAttr 0] [getIndexAttr 0] [getIndexAttr 3] [0], PtrTy (TensorTy [4] (IntTy 32))),
     (TTSLoadOp 3 [] None [0] None, TensorTy [4] (IntTy 32))], fors = []\<rparr>"

text \<open>
  The fourth element of a pointer that wraps around after three is the first one, at 4096; its view
  has it at 4108, beyond the third.
\<close>

theorem wrapping_view_does_not_wrap:
  "case convertMakeTensorPtr memCv 2 limitDemo of
     (Inr m, u) \<Rightarrow> eval memE limitDemo 2 [3] = 4096 \<and> locOf (desc memE u m) [3] = Addr 4108
   | _ \<Rightarrow> False"
  by code_simp

text \<open>
  With constant sizes the fill of the padding is guarded by the size of the block instead of the size
  of the part inside the tensor, so that it never runs: the fourth place of the buffer, a value of
  the table at 11, keeps what was there.
\<close>

theorem static_boundary_not_filled:
  "case convertMakeTensorPtr memCv 3 limitDemo of
     (Inr m, u) \<Rightarrow> (case convertLoad (remap memCv 3 m) 4 u of
       (Inr (st, r), w) \<Rightarrow> (case defOp w r of
         ToTensorOp b \<Rightarrow> exec memE w st (\<lambda>_. 7) (locOf (desc memE w b) [3]) = 7
       | _ \<Rightarrow> False)
     | _ \<Rightarrow> False)
   | _ \<Rightarrow> False"
  by code_simp

end
