(* ===== verification/Memref_Gather.thy ===== *)
theory Memref_Gather
  imports Memref_Ptr
begin

text \<open>
  Loads and stores through \<open>tts.make_gather_scatter_tptr\<close>: the loop over the slices reads and writes
  the elements at the addresses of the pointer.
\<close>

section \<open>Values made inside the loop\<close>

lemma wp_create_fresh: "wp (create opn t) (\<lambda>v u. \<forall>x. valid s x \<longrightarrow> x < v) s"
  by (simp add: wp_def create_def valid_def)

lemma eval_iv: "wf_ir u \<Longrightarrow> valid u v \<Longrightarrow> v < iv \<Longrightarrow> eval (E(iv := f)) u v = eval E u v"
  by (rule eval_env) auto

lemma osem_iv: "wf_ir u \<Longrightarrow> idx_ofr u x \<Longrightarrow> (\<And>v. x = Val v \<Longrightarrow> v < iv) \<Longrightarrow> osem (E(iv := f)) u x = osem E u x"
  by (cases x) (auto simp: eval_iv osem_def ofrSem_def)

lemma dot_update:
  assumes "length as = length idx" "k < length idx"
  shows "dot as (idx[k := x]) = dot as idx + (x - idx ! k) * as ! k"
  using assms
proof (induction as idx arbitrary: k rule: dot.induct)
  case (1 a as i idx)
  then show ?case by (cases k) (auto simp: algebra_simps)
qed auto

section \<open>The wrapping gathers that are never found\<close>

lemma hasWraparound_never:
  assumes "wf_ir s"
  shows "\<exists>t. hasWraparoundGatherOffset g gatherDim szs s = (Inr False, t) \<and> grows s t"
proof -
  define t where "t = s\<lparr>ops := ops s @ [(ConstantOp (IntegerAttr (wrap 64 (szs ! gatherDim)) IndexTy), IndexTy)]\<rparr>"
  have ext: "ext s t" by (simp add: t_def ext_def)
  have grows: "grows s t"
    using wp_createIndexConst [of s "szs ! gatherDim" "\<lambda>_. grows s"] assms
    by (simp add: wp_def createIndexConst_def create_def t_def)
  have fresh: "\<not> (case defOp t x of BinOp k a b \<Rightarrow> k = RemSI \<and> b = length (ops s) | _ \<Rightarrow> False)"
    if g: "defOp s g = FromElementsOp xs" "isTensor (tyOf s g)" and x: "x \<in> set xs" for xs x
  proof -
    have "valid s g" using g(2) by (auto simp: valid_def tyOf_def entry_def split: if_splits)
    then have v: "valid s x" using wf_operand_valid [OF assms] g x by auto
    have "b < length (ops s)" if "defOp s x = BinOp k a b" for k a b
      using wf_operand_valid [OF assms v, of b] that by (simp add: valid_def)
    then show ?thesis using ext_defOp [OF ext v] by (cases "defOp s x") auto
  qed
  show ?thesis
  proof (cases "\<exists>xs. defOp s g = FromElementsOp xs \<and> isTensor (tyOf s g) \<and> length (shapeOf (tyOf s g)) = 1 \<and> gatherDim < length szs")
    case True
    then obtain xs where xs: "defOp s g = FromElementsOp xs" "isTensor (tyOf s g)" by blast
    have "\<not> (xs \<noteq> [] \<and> (\<forall>x \<in> set xs. case defOp t x of BinOp k a b \<Rightarrow> k = RemSI \<and> b = length (ops s) | _ \<Rightarrow> False))"
      using fresh [OF xs] by (cases xs) auto
    then show ?thesis
      using True xs grows by (auto simp: hasWraparoundGatherOffset_def bindM_def getM_def createIndexConst_def create_def t_def)
  next
    case False
    then show ?thesis using assms
      by (cases "defOp s g") (auto simp: hasWraparoundGatherOffset_def bindM_def getM_def ret_def)
  qed
qed

lemma wp_hasWraparound: "wf_ir s \<Longrightarrow> (\<And>t. grows s t \<Longrightarrow> Q False t) \<Longrightarrow> wp (hasWraparoundGatherOffset g gatherDim szs) Q s"
  using hasWraparound_never [of s g gatherDim szs] by (auto simp: wp_def)

section \<open>The offset of a slice\<close>

lemma wp_accumulateGatherOffset:
  assumes wf: "wf_ir s" and x: "\<And>x. x \<in> set offs \<union> set strs \<Longrightarrow> idx_ofr s x" and l: "length strs = length offs"
    and post: "\<And>r t. grows s t \<Longrightarrow> idx_ofr t r \<Longrightarrow>
      (\<And>E. w64 (osem E t r) = w64 (\<Sum>i<length offs. osem E s (offs ! i) * (if i = k then osem E s (strs ! i) else 1))) \<Longrightarrow> Q r t"
  shows "wp (accumulateGatherOffset offs strs k) Q s"
  unfolding accumulateGatherOffset_def
proof (rule wp_foldM [where I = "\<lambda>n r t. grows s t \<and> idx_ofr t r \<and>
    (\<forall>E. w64 (osem E t r) = w64 (\<Sum>i<n. osem E s (offs ! i) * (if i = k then osem E s (strs ! i) else 1)))"])
  fix n r t assume n: "n < length [0..<length offs]"
    and I: "grows s t \<and> idx_ofr t r \<and> (\<forall>E. w64 (osem E t r) = w64 (\<Sum>i<n. osem E s (offs ! i) * (if i = k then osem E s (strs ! i) else 1)))"
  let ?J = "\<lambda>r t. grows s t \<and> idx_ofr t r \<and> (\<forall>E. w64 (osem E t r) = w64 (\<Sum>i<Suc n. osem E s (offs ! i) * (if i = k then osem E s (strs ! i) else 1)))"
  have g: "grows s t" and r: "idx_ofr t r" using I by simp_all
  have xn: "idx_ofr s (offs ! n)" "idx_ofr s (strs ! n)" using n l by (auto intro: x)
  note tn = idx_ofr_grows [OF g xn(1)] idx_ofr_grows [OF g xn(2)] osem_grows [OF g xn(1)] osem_grows [OF g xn(2)]
  have "wp (mulOFRs (offs ! n) (strs ! n)) (\<lambda>y. wp (addOFRs r y) ?J) t" if "n = k"
  proof (rule wp_mulOFRs [OF growsD(2) [OF g] tn(1,2)])
    fix y u assume y: "grows t u" "idx_ofr u y" "\<And>E. osem E u y = wrap 64 (osem E t (offs ! n) * osem E t (strs ! n))"
    show "wp (addOFRs r y) ?J u"
      by (rule wp_addOFRs [OF growsD(2) [OF y(1)] idx_ofr_grows [OF y(1) r] y(2)])
        (use I y that tn osem_grows [OF y(1) r] in \<open>auto simp: w64_ring intro: grows_trans [OF grows_trans [OF g y(1)]]\<close>)
  qed
  moreover have "wp (addOFRs r (offs ! n)) ?J t" if "n \<noteq> k"
    by (rule wp_addOFRs [OF growsD(2) [OF g] r tn(1)])
      (use I that tn in \<open>auto simp: w64_ring intro: grows_trans [OF g]\<close>)
  ultimately show "wp (bindM (atM offs ([0..<length offs] ! n)) (\<lambda>x. if [0..<length offs] ! n = k
      then bindM (atM strs ([0..<length offs] ! n)) (\<lambda>str. bindM (mulOFRs x str) (addOFRs r)) else addOFRs r x)) ?J t"
    using n l by (auto simp: wp_simps)
qed (use wf post in auto)

section \<open>The pointer and the view of one slice\<close>

definition gatherPtr :: "ir \<Rightarrow> val \<Rightarrow> val \<Rightarrow> val \<Rightarrow> nat \<Rightarrow> int list \<Rightarrow> ofr list \<Rightarrow> ofr list \<Rightarrow> ty \<Rightarrow> bool" where
  "gatherPtr s v base g k szs strs offs e \<longleftrightarrow>
     valid s v \<and> defOp s v = TTSMakeGatherScatterOp base g k szs strs offs \<and> tyOf s v = PtrTy (TensorTy szs e) \<and>
     \<not> isShaped e \<and> length strs = length szs \<and> length offs = length szs \<and> k < length szs \<and> 1 < szs ! k \<and>
     (\<forall>n \<in> set szs. 0 \<le> n \<and> n < 2 ^ 31) \<and> (\<forall>x \<in> set strs \<union> set offs. idx_ofr s x) \<and>
     (\<exists>w. 0 < w \<and> w \<le> 64 \<and> tyOf s g = TensorTy [szs ! k] (IntTy w))"

text \<open>The offset of the slice that is read at the gather offset \<open>x\<close>, and the pointer at an index.\<close>

definition sliceOffset :: "(ofr \<Rightarrow> int) \<Rightarrow> nat \<Rightarrow> ofr list \<Rightarrow> ofr list \<Rightarrow> int \<Rightarrow> int" where
  "sliceOffset f k strs offs x = (\<Sum>y\<leftarrow>offs[k := Attr zeroAttr]. f y) + x * f (strs ! k)"

lemma dot_zero_at: "k < length as \<Longrightarrow> length idx = length as \<Longrightarrow> dot (as[k := 0]) idx = dot as (idx[k := 0])"
proof (induction as idx arbitrary: k rule: dot.induct)
  case (1 a as i idx)
  then show ?case by (cases k) auto
qed auto

lemma gatherPtr_eval:
  assumes "wf_ir s" "gatherPtr s v base g k szs strs offs e" "inB szs idx"
  shows "eval E s v idx = wrap 64 (eval E s base [] + byteSize e *
    (sliceOffset (osem E s) k strs offs (eval E s g [idx ! k]) + dot (map (osem E s) strs) (idx[k := 0])))"
proof -
  note p = assms(2) [unfolded gatherPtr_def] and l = inB_length [OF assms(3)]
  have "sumDims (osem E s) (offs[k := Attr zeroAttr]) (strs[k := Attr zeroAttr]) (map (\<lambda>_. Attr zeroAttr) offs) idx =
      (\<Sum>x\<leftarrow>offs[k := Attr zeroAttr]. osem E s x) + dot (map (osem E s) (strs[k := Attr zeroAttr])) idx"
    using p l by (intro dot_sumDims) (auto simp: osem_def ofrSem_def zeroAttr_def)
  also have "map (osem E s) (strs[k := Attr zeroAttr]) = (map (osem E s) strs)[k := 0]"
    by (simp add: map_update osem_def ofrSem_def zeroAttr_def)
  also have "dot ((map (osem E s) strs)[k := 0]) idx = dot (map (osem E s) strs) (idx[k := 0])"
    using p l by (intro dot_zero_at) auto
  finally show ?thesis
    using eval_unfold [OF assms(1), of v E] p l by (simp add: denOp_def norm_def osem_def [abs_def] sliceOffset_def entry_def algebra_simps)
qed

lemma sum_slice:
  fixes f :: "nat \<Rightarrow> int"
  assumes "k < n"
  shows "(\<Sum>i<n. (if i = k then x else f i)) = x + (\<Sum>i<n. if i = k then 0 else f i)"
proof -
  have "(\<Sum>i<n. (if i = k then x else f i)) = (\<Sum>i<n. (if i = k then x else 0) + (if i = k then 0 else f i))"
    by (rule sum.cong) auto
  then show ?thesis using assms by (simp add: sum.distrib)
qed

lemma sum_list_update_zero:
  assumes "k < length offs" "f (Attr zeroAttr) = 0"
  shows "(\<Sum>y\<leftarrow>offs[k := Attr zeroAttr]. f y) = (\<Sum>i<length offs. if i = k then 0 else f (offs ! i) :: int)"
  using assms by (subst sum_list_sum_nth) (auto simp: atLeast0LessThan nth_list_update intro!: sum.cong)

lemma strides_at:
  assumes "inB szs idx" "k < length szs" "1 < szs ! k" "length as = length szs" "length bs = length szs"
    and "\<And>idx. inB szs idx \<Longrightarrow> dot as idx = dot bs idx"
  shows "as ! k = bs ! k"
proof -
  have l: "length idx = length szs" using inB_length [OF assms(1)] .
  have "inB szs (idx[k := 1])" "inB szs (idx[k := 0])"
    using assms(1-3) l by (auto simp: inB_def list_all2_conv_all_nth nth_list_update)
  then have "dot as (idx[k := 1]) - dot as (idx[k := 0]) = dot bs (idx[k := 1]) - dot bs (idx[k := 0])" using assms(6) by simp
  then show ?thesis using assms(2,4,5) l by (simp add: dot_update algebra_simps)
qed

lemma wp_row:
  assumes wf: "wf_ir s" and t: "getElementTypeBlockPtr t = Some e" and b: "valid s b" "\<And>E. desc E s b = pointerDesc E s b"
    and x: "\<And>x. x \<in> set offs \<union> set strs \<Longrightarrow> idx_ofr s x" and elt: "valid s elt" "tyOf s elt = IndexTy"
    and l: "length strs = length szs" "length offs = length szs" "k < length szs" "1 < szs ! k"
    and post: "\<And>m u off ms lo ls. grows s u \<Longrightarrow> valid u m \<Longrightarrow> tyOf u m = MemRefTy (szs[k := 1]) e \<Longrightarrow> length ms = length szs \<Longrightarrow>
      (\<And>E. desc E u m = (pointerDesc E s b)\<lparr>moffset := osem E u off, msizes := map (wrap 64) (szs[k := 1]), mstrides := map (osem E s) ms\<rparr>) \<Longrightarrow>
      (\<And>E idx. inB szs idx \<Longrightarrow> dot (map (osem E s) ms) idx = dot (map (osem E s) strs) idx) \<Longrightarrow>
      (\<And>E idx. inB szs idx \<Longrightarrow> w64 (osem E u off) = w64 (sliceOffset (osem E s) k strs offs (eval E s elt []))) \<Longrightarrow> Q m u"
  shows "wp (rewriteGatherScatterPtrElement t szs strs offs k b elt) Q s"
proof -
  have "wp (accumulateGatherOffset (offs[k := Val elt]) ms k) (\<lambda>off. wp (create (ReinterpretCastOp b off (map getIndexAttr (szs[k := 1])) ms
      (getIntAttr off) (map getIntAttr ms)) (MemRefTy (szs[k := 1]) e)) Q) s"
    if ms: "length ms = length szs" "\<And>y. y \<in> set ms \<Longrightarrow> idx_ofr s y"
      "\<And>E idx. inB szs idx \<Longrightarrow> dot (map (osem E s) ms) idx = dot (map (osem E s) strs) idx" for ms
  proof (rule wp_accumulateGatherOffset [OF wf])
    show "idx_ofr s x" if "x \<in> set (offs[k := Val elt]) \<union> set ms" for x
      using that ms(2) x elt set_update_subset_insert [of offs k "Val elt"] by auto
    fix off u assume off: "grows s u" "idx_ofr u off"
      "\<And>E. w64 (osem E u off) = w64 (\<Sum>i<length (offs[k := Val elt]). osem E s (offs[k := Val elt] ! i) * (if i = k then osem E s (ms ! i) else 1))"
    have sum: "(\<Sum>i<length (offs[k := Val elt]). osem E s (offs[k := Val elt] ! i) * (if i = k then osem E s (ms ! i) else 1)) =
        sliceOffset (osem E s) k strs offs (eval E s elt [])" if i: "inB szs idx" for E idx
    proof -
      have "map (osem E s) ms ! k = map (osem E s) strs ! k"
        by (rule strides_at [OF i l(3,4)]) (use ms(1,3) l in auto)
      then have mk: "osem E s (ms ! k) = osem E s (strs ! k)" using ms(1) l by simp
      have "(\<Sum>i<length (offs[k := Val elt]). osem E s (offs[k := Val elt] ! i) * (if i = k then osem E s (ms ! i) else 1)) =
          (\<Sum>i<length offs. if i = k then eval E s elt [] * osem E s (strs ! k) else osem E s (offs ! i))"
        by (rule sum.cong) (auto simp: nth_list_update mk)
      also have "\<dots> = eval E s elt [] * osem E s (strs ! k) + (\<Sum>i<length offs. if i = k then 0 else osem E s (offs ! i))"
        using l by (intro sum_slice) simp
      finally show ?thesis
        using l sum_list_update_zero [of k offs "osem E s"] by (simp add: sliceOffset_def osem_def ofrSem_def zeroAttr_def)
    qed
    show "wp (create (ReinterpretCastOp b off (map getIndexAttr (szs[k := 1])) ms (getIntAttr off) (map getIntAttr ms)) (MemRefTy (szs[k := 1]) e)) Q u"
    proof (rule wp_create [OF growsD(2) [OF off(1)] reinterpret_vals])
      show "valid u b" using b(1) valid_grows [OF off(1)] by simp
      show "idx_ofr u x" if "x \<in> insert off (set (map getIndexAttr (szs[k := 1])) \<union> set ms)" for x
        using that off(2) ms(2) idx_ofr_grows [OF off(1)] by auto
      fix m w assume m: "grows u w" "valid w m" "tyOf w m = MemRefTy (szs[k := 1]) e"
        "defOp w m = ReinterpretCastOp b off (map getIndexAttr (szs[k := 1])) ms (getIntAttr off) (map getIntAttr ms)"
      note g = grows_trans [OF off(1) m(1)]
      have "desc E w m = (pointerDesc E s b)\<lparr>moffset := osem E w off, msizes := map (wrap 64) (szs[k := 1]), mstrides := map (osem E s) ms\<rparr>" for E
        using desc_unfold [OF growsD(2) [OF m(1)] m(2), of E] m(4) desc_grows [OF g wf b(1), of E] b(2) osem_grows [OF g ms(2)]
        by (simp cong: map_cong)
      moreover have "w64 (osem E w off) = w64 (sliceOffset (osem E s) k strs offs (eval E s elt []))" if "inB szs idx" for E idx
        using osem_grows [OF m(1) off(2)] off(3) sum [OF that] by simp
      ultimately show "Q m w" by (intro post [OF g m(2,3) ms(1) _ ms(3)])
    qed simp
  qed (use l ms in simp)
  then have "wp (getMixedStridesForMemref szs strs) (\<lambda>ms. wp (accumulateGatherOffset (offs[k := Val elt]) ms k) (\<lambda>off.
      wp (create (ReinterpretCastOp b off (map getIndexAttr (szs[k := 1])) ms (getIntAttr off) (map getIntAttr ms)) (MemRefTy (szs[k := 1]) e)) Q)) s"
    by (intro wp_getMixedStrides [OF wf]) (use x l in auto)
  then show ?thesis using l t by (simp add: rewriteGatherScatterPtrElement_def wp_simps)
qed

section \<open>The loop\<close>

lemma wp_indexOffsets:
  assumes wf: "wf_ir s" and g: "valid s g" "tyOf s g = TensorTy [n] (IntTy w)" "w \<le> 64" "0 \<le> n" "n < 2 ^ 31"
    and post: "\<And>g' u. grows s u \<Longrightarrow> valid u g' \<Longrightarrow> tyOf u g' = TensorTy [n] IndexTy \<Longrightarrow> (\<And>E idx. eval E u g' idx = eval E s g idx) \<Longrightarrow> Q (g', n) u"
  shows "wp (indexOffsets g) Q s"
proof -
  have n: "take_bit 32 n = n" using g(4,5) by (intro take_bit_int_eq_self) auto
  have "wp (createIndexCast (TensorTy [n] IndexTy) g) (\<lambda>g'. Q (g', n)) s"
  proof (rule wp_createIndexCast [OF wf g(1)])
    fix g' u assume u: "grows s u" "valid u g'" "tyOf u g' = TensorTy [n] IndexTy"
      "\<And>E idx. eval E u g' idx = norm (TensorTy [n] IndexTy) (eval E s g idx)"
    have "eval E u g' idx = eval E s g idx" for E idx
    proof -
      have "eval E s g idx = wrap w (eval E s g idx)" using eval_norm [OF wf g(1), of E idx] g(2) by (simp add: norm_def)
      then have "wrap 64 (eval E s g idx) = eval E s g idx" using wrap_widen [OF g(3)] by metis
      then show ?thesis using u(4) by (simp add: norm_def)
    qed
    then show "Q (g', n) u" by (intro post u)
  qed (use g in simp_all)
  then show ?thesis using g(2) n by (simp add: indexOffsets_def wp_simps)
qed

definition loopBound :: "env \<Rightarrow> ir \<Rightarrow> int \<Rightarrow> ofr list \<Rightarrow> nat \<Rightarrow> int" where
  "loopBound E s n dims k = (if dims = [] then n else min n (osem E s (dims ! k)))"

lemma wp_maskedBound:
  assumes wf: "wf_ir s" and n: "0 \<le> n" "n < 2 ^ 31" and b: "valid s b" "tyOf s b = IndexTy" "\<And>E. eval E s b [] = n"
    and d: "dims \<noteq> [] \<Longrightarrow> k < length dims \<and> idx_ofr s (dims ! k) \<and> 0 \<le> osem E s (dims ! k) \<and> osem E s (dims ! k) \<le> n"
    and post: "\<And>ub u. grows s u \<Longrightarrow> valid u ub \<Longrightarrow> tyOf u ub = IndexTy \<Longrightarrow> eval E u ub [] = loopBound E s n dims k \<Longrightarrow> Q ub u"
  shows "wp (maskedBound n b dims k) Q s"
proof (cases "dims = []")
  case True
  then show ?thesis using post [OF grows_refl [OF wf] b(1,2)] b(3) by (simp add: maskedBound_def wp_simps loopBound_def)
next
  case False
  note dk = d [OF False]
  have i: "in64 n" using n by (simp add: in64_def)
  show ?thesis
  proof (cases "dims ! k")
    case (Attr a)
    then obtain m where m: "getIntAttr (dims ! k) = Some m" "osem E s (dims ! k) = m"
      using dk by (auto elim!: idx_ofr_cases simp: osem_def ofrSem_def)
    have "take_bit 32 m = m" using dk m n by (intro take_bit_int_eq_self) auto
    moreover have "wrap 64 (min n m) = min n m" using dk m n i by (intro wrap_in64) (auto simp: in64_def)
    ultimately have "wp (createIndexConst (min n (take_bit 32 m))) Q s"
      by (intro wp_createIndexConst [OF wf]) (use False m in \<open>auto intro!: post simp: loopBound_def\<close>)
    then show ?thesis using False dk m by (simp add: maskedBound_def wp_simps)
  next
    case (Val x)
    have x: "valid s x" "tyOf s x = IndexTy" using dk Val by auto
    have "wp (createIndexConst n) (\<lambda>c. wp (createBin MinSI x c) Q) s"
    proof (rule wp_createIndexConst [OF wf])
      fix c u assume c: "grows s u" "valid u c" "\<And>E idx. eval E u c idx = wrap 64 n"
      have ux: "valid u x" "tyOf u x = IndexTy" "eval E u x [] = osem E s (dims ! k)"
        using x Val valid_grows [OF c(1)] tyOf_grows [OF c(1)] eval_grows [OF c(1)] by auto
      show "wp (createBin MinSI x c) Q u"
      proof (rule wp_createBin [OF growsD(2) [OF c(1)] ux(1) c(2)])
        fix r w assume r: "grows u w" "valid w r" "tyOf w r = tyOf u x"
          "\<And>E idx. eval E w r idx = norm (tyOf u x) (binSem MinSI (eval E u x idx) (eval E u c idx))"
        have "wrap 64 (min (osem E s (dims ! k)) n) = min n (osem E s (dims ! k))"
          using dk n by (subst min.commute, intro wrap_in64) (auto simp: in64_def)
        then have "eval E w r [] = loopBound E s n dims k"
          using r(4) [of E "[]"] ux c(3) i False by (simp add: loopBound_def wrap_in64)
        then show "Q r w" using r ux by (intro post grows_trans [OF c(1) r(1)]) simp_all
      qed
    qed
    then show ?thesis using False dk Val by (simp add: maskedBound_def wp_simps)
  qed
qed

text \<open>What the code has made when it comes to the body of the loop.\<close>

definition loopOk :: "env \<Rightarrow> ir \<Rightarrow> val \<Rightarrow> int \<Rightarrow> gather_loop \<Rightarrow> ir \<Rightarrow> bool" where
  "loopOk E s g n l u \<longleftrightarrow> grows s u \<and> (\<forall>x. valid s x \<longrightarrow> x < inductionVar l) \<and> eval E u (upperBound l) [] = n \<and>
     (\<forall>x \<in> {lowerBound l, stepValue l, inductionVar l, gatherOffsetElt l, upperBound l}. valid u x \<and> tyOf u x = IndexTy) \<and>
     (\<forall>E. eval E u (lowerBound l) [] = 0 \<and> eval E u (stepValue l) [] = 1 \<and> eval E u (inductionVar l) [] = wrap 64 (E (inductionVar l) []) \<and>
       eval E u (gatherOffsetElt l) [] = eval E s g [wrap 64 (E (inductionVar l) [])])"

lemma wp_createGatherLoop:
  assumes wf: "wf_ir s" and g: "valid s g" "tyOf s g = TensorTy gsh IndexTy" and n: "0 \<le> n" "n < 2 ^ 31"
    and d: "dims \<noteq> [] \<Longrightarrow> k < length dims \<and> idx_ofr s (dims ! k) \<and> 0 \<le> osem E s (dims ! k) \<and> osem E s (dims ! k) \<le> n"
    and post: "\<And>l u. loopOk E s g (loopBound E s n dims k) l u \<Longrightarrow> Q l u"
  shows "wp (createGatherLoop g n dims k) Q s"
  unfolding createGatherLoop_def wp_bindM wp_ret
proof (rule wp_createIndexConst [OF wf])
  fix lo s1 assume lo: "grows s s1" "valid s1 lo" "tyOf s1 lo = IndexTy" "\<And>E idx. eval E s1 lo idx = wrap 64 0"
  let ?K5 = "\<lambda>ub one iv elt. Q \<lparr>lowerBound = lo, upperBound = ub, stepValue = one, inductionVar = iv, gatherOffsetElt = elt\<rparr>"
  let ?K4 = "\<lambda>ub one. wp (create (BlockArg None) IndexTy) (\<lambda>iv. wp (create (ExtractOp g [iv]) IndexTy) (?K5 ub one iv))"
  let ?K3 = "\<lambda>ub. wp (createIndexConst 1) (?K4 ub)"
  have dim: "dims ! k \<in> set dims" if "dims \<noteq> []" using d that by simp
  show "wp (createIndexConst n) (\<lambda>b. wp (maskedBound n b dims k) ?K3) s1"
  proof (rule wp_createIndexConst [OF growsD(2) [OF lo(1)]])
    fix b s2 assume b: "grows s1 s2" "valid s2 b" "tyOf s2 b = IndexTy" "\<And>E idx. eval E s2 b idx = wrap 64 n"
    note g2 = grows_trans [OF lo(1) b(1)]
    have nn: "wrap 64 n = n" using n by (intro wrap_in64) (auto simp: in64_def)
    have d2: "k < length dims \<and> idx_ofr s2 (dims ! k) \<and> 0 \<le> osem E s2 (dims ! k) \<and> osem E s2 (dims ! k) \<le> n" if "dims \<noteq> []"
      using d [OF that] idx_ofr_grows [OF g2] osem_grows [OF g2] by simp
    have lb: "loopBound E s2 n dims k = loopBound E s n dims k" using d osem_grows [OF g2] by (auto simp: loopBound_def)
    show "wp (maskedBound n b dims k) ?K3 s2"
    proof (rule wp_maskedBound [OF growsD(2) [OF b(1)] n b(2,3) _ d2])
      fix ub s3 assume ub: "grows s2 s3" "valid s3 ub" "tyOf s3 ub = IndexTy" "eval E s3 ub [] = loopBound E s2 n dims k"
      show "?K3 ub s3"
      proof (rule wp_createIndexConst [OF growsD(2) [OF ub(1)]])
        fix one s4 assume one: "grows s3 s4" "valid s4 one" "tyOf s4 one = IndexTy" "\<And>E idx. eval E s4 one idx = wrap 64 1"
        have fresh: "wp (create (BlockArg None) IndexTy) (\<lambda>iv u. (\<forall>x. valid s4 x \<longrightarrow> x < iv) \<and> grows s4 u \<and> valid u iv \<and> tyOf u iv = IndexTy \<and>
            (\<forall>E idx. eval E u iv idx = wrap 64 (E iv idx))) s4"
          by (intro wp_conj wp_create_fresh wp_create [OF growsD(2) [OF one(1)]]) (simp_all add: denOp_def)
        show "?K4 ub one s4"
        proof (rule wp_mono [OF fresh])
          fix iv s5 assume iv: "(\<forall>x. valid s4 x \<longrightarrow> x < iv) \<and> grows s4 s5 \<and> valid s5 iv \<and> tyOf s5 iv = IndexTy \<and>
            (\<forall>E idx. eval E s5 iv idx = wrap 64 (E iv idx))"
          then have g45: "grows s4 s5" by simp
          note g5 = grows_trans [OF grows_trans [OF grows_trans [OF g2 ub(1)] one(1)] g45]
          have g5': "valid s5 g" "tyOf s5 g = tyOf s g" "eval E s5 g = eval E s g" for E
            using valid_grows [OF g5 g(1)] tyOf_grows [OF g5 g(1)] eval_grows [OF g5 g(1)] by auto
          show "wp (create (ExtractOp g [iv]) IndexTy) (?K5 ub one iv) s5"
          proof (rule wp_create [OF growsD(2) [OF g45]])
            show "\<forall>a \<in> operands (ExtractOp g [iv]). valid s5 a" using iv g5' by simp
            fix elt u assume e: "grows s5 u" "valid u elt" "tyOf u elt = IndexTy"
              "\<And>E idx. eval E u elt idx = norm IndexTy (denOp E (tyOf s5) (eval E s5) elt (ExtractOp g [iv]) IndexTy idx)"
            note gu = grows_trans [OF g5 e(1)]
            have "valid s4 x" if "valid s x" for x
              using that valid_grows [OF grows_trans [OF grows_trans [OF g2 ub(1)] one(1)]] by blast
            moreover have up: "valid u x \<and> tyOf u x = tyOf s5 x \<and> (\<forall>E. eval E u x = eval E s5 x)" if "valid s5 x" for x
              using that valid_grows [OF e(1)] tyOf_grows [OF e(1)] eval_grows [OF e(1)] by blast
            moreover have "valid s5 lo \<and> tyOf s5 lo = IndexTy \<and> (\<forall>E. eval E s5 lo [] = 0)"
            proof -
              note q = grows_trans [OF b(1) grows_trans [OF ub(1) grows_trans [OF one(1) g45]]]
              show ?thesis using lo valid_grows [OF q] tyOf_grows [OF q] eval_grows [OF q] by simp
            qed
            moreover have "valid s5 ub \<and> tyOf s5 ub = IndexTy \<and> eval E s5 ub [] = loopBound E s n dims k"
            proof -
              note q = grows_trans [OF one(1) g45]
              show ?thesis using ub lb valid_grows [OF q] tyOf_grows [OF q] eval_grows [OF q] by simp
            qed
            moreover have "valid s5 one \<and> tyOf s5 one = IndexTy \<and> (\<forall>E. eval E s5 one [] = 1)"
              using one valid_grows [OF g45] tyOf_grows [OF g45] eval_grows [OF g45] by simp
            moreover have "eval E u elt [] = eval E s g [wrap 64 (E iv [])]" for E
            proof -
              have "eval E u elt [] = wrap 64 (eval E s g [wrap 64 (E iv [])])" using e(4) [of E "[]"] iv g5' by (simp add: denOp_def)
              then show ?thesis using eval_norm [OF wf g(1), of E] g(2) by (simp add: norm_def)
            qed
            ultimately show "?K5 ub one iv elt u"
              using iv e gu by (intro post) (auto simp: loopOk_def)
          qed simp
        qed
      qed
    qed (use b nn in simp)
  qed
qed

section \<open>What a gather leaves in its buffer\<close>

text \<open>The slice of a buffer at \<open>i\<close> along dimension \<open>k\<close>.\<close>

definition sliceDesc :: "val \<Rightarrow> int list \<Rightarrow> nat \<Rightarrow> int \<Rightarrow> int list \<Rightarrow> view" where
  "sliceDesc b sh k i ds = \<lparr>place = Slot b, moffset = i * rowMajor sh ! k, msizes = ds, mstrides = rowMajor sh\<rparr>"

definition isSlice :: "int list \<Rightarrow> nat \<Rightarrow> int list \<Rightarrow> bool" where
  "isSlice sh k ds \<longleftrightarrow> length ds = length sh \<and> k < length sh \<and> ds ! k = 1 \<and> (\<forall>j < length sh. j \<noteq> k \<longrightarrow> ds ! j \<le> sh ! j)"

lemma isSlice_at:
  assumes "isSlice sh k ds" "inB ds jdx" "0 \<le> i" "i < sh ! k"
  shows "inB sh (jdx[k := i])" "jdx ! k = 0" "length jdx = length sh" "k < length jdx"
proof -
  have l: "length jdx = length sh" "k < length sh" using assms(1) inB_length [OF assms(2)] by (simp_all add: isSlice_def)
  have j: "0 \<le> jdx ! m \<and> jdx ! m < ds ! m" if "m < length sh" for m
    using assms(1,2) that by (auto simp: isSlice_def inB_def list_all2_conv_all_nth)
  show "inB sh (jdx[k := i])"
    using assms(1,3,4) j l by (fastforce simp: inB_def list_all2_conv_all_nth nth_list_update isSlice_def)
  show "jdx ! k = 0" using j [OF l(2)] assms(1) by (simp add: isSlice_def)
  show "length jdx = length sh" "k < length jdx" using l by simp_all
qed

lemma locOf_slice:
  assumes "isSlice sh k ds" "inB ds jdx" "0 \<le> i" "i < sh ! k"
  shows "locOf (sliceDesc b sh k i ds) jdx = locOf (bufferDesc b sh) (jdx[k := i])"
  using isSlice_at [OF assms] by (simp add: locOf_def sliceDesc_def dot_update)

lemma bufferLoc_inj: "inB sh i \<Longrightarrow> inB sh j \<Longrightarrow> locOf (bufferDesc b sh) i = locOf (bufferDesc b sh) j \<Longrightarrow> i = j"
  using dot_rowMajor_inj by (simp add: locOf_buffer)

lemma writeAll_slice:
  assumes "isSlice sh k ds" "0 \<le> i" "i < sh ! k" "inB sh idx"
  shows "writeAll (sliceDesc b sh k i ds) f (indices ds) M (locOf (bufferDesc b sh) idx) =
    (if idx ! k = i \<and> inB ds (idx[k := 0]) then f (idx[k := 0]) else M (locOf (bufferDesc b sh) idx))"
proof (cases "idx ! k = i \<and> inB ds (idx[k := 0])")
  case True
  have "idx[k := 0, k := i] = idx" using True by (metis list_update_id list_update_overwrite)
  then have l: "locOf (sliceDesc b sh k i ds) (idx[k := 0]) = locOf (bufferDesc b sh) idx"
    using locOf_slice [OF assms(1) _ assms(2,3), of "idx[k := 0]" b] True by simp
  have "x = y" if x: "inB ds x" "inB ds y" "locOf (sliceDesc b sh k i ds) x = locOf (sliceDesc b sh k i ds) y" for x y
  proof -
    have "x[k := i] = y[k := i]"
      using bufferLoc_inj isSlice_at(1) [OF assms(1) x(1) assms(2,3)] isSlice_at(1) [OF assms(1) x(2) assms(2,3)]
        locOf_slice [OF assms(1) x(1) assms(2,3)] locOf_slice [OF assms(1) x(2) assms(2,3)] x(3) by metis
    then have "x[k := i, k := x ! k] = y[k := i, k := y ! k]"
      using isSlice_at(2) [OF assms(1) x(1) assms(2,3)] isSlice_at(2) [OF assms(1) x(2) assms(2,3)] by simp
    then show ?thesis by simp
  qed
  then have "writeAll (sliceDesc b sh k i ds) f (indices ds) M (locOf (sliceDesc b sh k i ds) (idx[k := 0])) = f (idx[k := 0])"
    using True by (intro writeAll_at) (auto simp: set_indices)
  then show ?thesis using True l by simp
next
  case False
  have "writeAll (sliceDesc b sh k i ds) f (indices ds) M (locOf (bufferDesc b sh) idx) = M (locOf (bufferDesc b sh) idx)"
  proof (rule writeAll_other)
    fix j assume "j \<in> set (indices ds)"
    then have j: "inB ds j" by (simp add: set_indices)
    note at = isSlice_at [OF assms(1) j assms(2,3)]
    show "locOf (sliceDesc b sh k i ds) j \<noteq> locOf (bufferDesc b sh) idx"
    proof
      assume "locOf (sliceDesc b sh k i ds) j = locOf (bufferDesc b sh) idx"
      then have e: "j[k := i] = idx" using bufferLoc_inj [OF at(1) assms(4)] locOf_slice [OF assms(1) j assms(2,3)] by simp
      have "idx ! k = i" using e at(4) by auto
      moreover have "idx[k := 0] = j" using e at(2) by (metis list_update_id list_update_overwrite)
      ultimately show False using False j by simp
    qed
  qed
  then show ?thesis using False by auto
qed

text \<open>The loop: the slices below the bound are copied, one after the other.\<close>

lemma foldl_Addr:
  assumes "\<And>M i a. step M i (Addr a) = M (Addr a)"
  shows "foldl step M is (Addr a) = M (Addr a)"
  using assms by (induction "is" arbitrary: M) auto

lemma foldl_slices:
  assumes "\<And>M i. i \<in> set is \<Longrightarrow> step M i l = (if n = i \<and> P then M (Addr a) else M l)" "\<And>M i a. i \<in> set is \<Longrightarrow> step M i (Addr a) = M (Addr a)"
  shows "foldl step M is l = (if n \<in> set is \<and> P then M (Addr a) else M l) \<and> (\<forall>a. foldl step M is (Addr a) = M (Addr a))"
  using assms by (induction "is" arbitrary: M) auto

lemma exec_slice:
  assumes "desc E u dst = sliceDesc b sh k i ds" "isSlice sh k ds" "\<And>jdx. inB ds jdx \<Longrightarrow> locOf (desc E u src) jdx = Addr (A (jdx[k := i]))"
  shows "exec E u [CopyS src dst] M = writeAll (sliceDesc b sh k i ds) (\<lambda>jdx. M (Addr (A (jdx[k := i])))) (indices ds) M"
  unfolding exec.simps assms(1) using assms(3) by (auto simp: set_indices sliceDesc_def intro!: writeAll_cong)

lemma exec_slices:
  assumes dst: "\<And>i. i \<in> set is \<Longrightarrow> desc (E(iv := \<lambda>_. i)) u dst = sliceDesc b sh k i ds" and ds: "isSlice sh k ds"
    and src: "\<And>i jdx. i \<in> set is \<Longrightarrow> inB ds jdx \<Longrightarrow> locOf (desc (E(iv := \<lambda>_. i)) u src) jdx = Addr (A (jdx[k := i]))"
    and i: "\<And>i. i \<in> set is \<Longrightarrow> 0 \<le> i \<and> i < sh ! k" and idx: "inB sh idx"
  shows "foldl (\<lambda>M i. exec (E(iv := \<lambda>_. i)) u [CopyS src dst] M) M is (locOf (bufferDesc b sh) idx) =
      (if idx ! k \<in> set is \<and> inB ds (idx[k := 0]) then M (Addr (A idx)) else M (locOf (bufferDesc b sh) idx)) \<and>
    (\<forall>a. foldl (\<lambda>M i. exec (E(iv := \<lambda>_. i)) u [CopyS src dst] M) M is (Addr a) = M (Addr a))"
proof (rule foldl_slices)
  fix M i a assume m: "i \<in> set is"
  have i': "0 \<le> i" "i < sh ! k" using i [OF m] by simp_all
  have x: "exec (E(iv := \<lambda>_. i)) u [CopyS src dst] M = writeAll (sliceDesc b sh k i ds) (\<lambda>jdx. M (Addr (A (jdx[k := i])))) (indices ds) M"
    by (rule exec_slice [OF dst [OF m] ds]) (rule src [OF m])
  show "exec (E(iv := \<lambda>_. i)) u [CopyS src dst] M (locOf (bufferDesc b sh) idx) =
      (if idx ! k = i \<and> inB ds (idx[k := 0]) then M (Addr (A idx)) else M (locOf (bufferDesc b sh) idx))"
    unfolding x writeAll_slice [OF ds i' idx] by (auto simp: list_update_same_conv)
  show "exec (E(iv := \<lambda>_. i)) u [CopyS src dst] M (Addr a) = M (Addr a)"
    unfolding x by (rule writeAll_other) (simp add: sliceDesc_def locOf_def)
qed

section \<open>The slice of the memory\<close>

definition sliceBox :: "env \<Rightarrow> ir \<Rightarrow> int list \<Rightarrow> ofr list \<Rightarrow> nat \<Rightarrow> int list" where
  "sliceBox E s szs dims k = (if dims = [] then szs else map (osem E s) dims)[k := 1]"

lemma wrap_one [simp]: "wrap 64 1 = 1"
  by (rule wrap_in64) (simp add: in64_def)

lemma sliceSizes_osem:
  assumes "\<And>d. d \<in> set dims \<Longrightarrow> osem E' u d = osem E s d" "\<forall>n \<in> set szs. in64 n"
  shows "map (osem E' u) (sliceSizes szs dims k) = sliceBox E s szs dims k"
  using assms by (simp add: sliceSizes_def sliceBox_def map_update comp_def wrap_in64 cong: map_cong)

lemma sliceBox_isSlice:
  assumes "accessDims E s dims szs" "k < length szs"
  shows "isSlice szs k (sliceBox E s szs dims k)"
  using assms by (auto simp: isSlice_def sliceBox_def accessDims_def maskDims_def list_all2_conv_all_nth)

lemma sliceSizes_idx:
  assumes "accessDims E s dims szs" "x \<in> set (sliceSizes szs dims k)"
  shows "idx_ofr s x"
proof -
  have "x \<in> insert (getIndexAttr 1) (set dims \<union> set (map getIndexAttr (szs[k := 1])))"
    using assms(2) set_update_subset_insert [of dims k "getIndexAttr 1"] by (auto simp: sliceSizes_def split: if_splits)
  then show ?thesis using assms(1) maskDims_idx by (auto simp: accessDims_def)
qed

lemma map2_ones': "length xs = n \<Longrightarrow> (\<And>y. y \<in> set ys \<Longrightarrow> y = 1) \<Longrightarrow> length ys = n \<Longrightarrow> map2 (*) xs ys = (xs :: int list)"
  by (intro nth_equalityI) auto

lemma dot_zero_list: "(\<And>y. y \<in> set idx \<Longrightarrow> y = 0) \<Longrightarrow> dot as idx = 0"
  by (induction as idx rule: dot.induct) auto

lemma wp_slicePtr:
  assumes wf: "wf_ir s" and p: "gatherPtr s p base g k szs strs offs e" and b: "baseMemref E s b base e"
    and d: "accessDims E s dims szs" and g: "grows s s0" "valid s0 g'" "\<And>E idx. eval E s0 g' idx = eval E s g idx"
    and l: "loopOk E s0 g' n l u" and w: "grows u w"
    and post: "\<And>src t. grows w t \<Longrightarrow> valid t src \<Longrightarrow> (\<And>i. 0 \<le> i \<Longrightarrow> i < szs ! k \<Longrightarrow>
      msizes (desc (E(inductionVar l := \<lambda>_. i)) t src) = sliceBox E s szs dims k \<and>
      (\<forall>jdx. inB (sliceBox E s szs dims k) jdx \<longrightarrow> locOf (desc (E(inductionVar l := \<lambda>_. i)) t src) jdx = Addr (eval E s p (jdx[k := i])))) \<Longrightarrow> Q src t"
  shows "wp (bindM (rewriteGatherScatterPtrElement (tyOf s p) szs strs offs k b (gatherOffsetElt l)) (\<lambda>row.
    sliceOfPtr l (length szs) dims (sliceSizes szs dims k) row)) Q w"
  unfolding wp_bindM
proof (rule wp_row)
  note p' = p [unfolded gatherPtr_def] and b' = b [unfolded baseMemref_def] and l' = l [unfolded loopOk_def]
  let ?iv = "inductionVar l"
  have gu: "grows s u" using grows_trans [OF g(1)] l' by blast
  note gw = grows_trans [OF gu w]
  show wfw: "wf_ir w" using growsD(2) [OF w] .
  show "getElementTypeBlockPtr (tyOf s p) = Some e" using p' by (simp add: getElementTypeBlockPtr_def)
  have vb: "valid s b" "valid w b" using b' valid_grows [OF gw] by auto
  show "valid w b" by fact
  have pd: "pointerDesc E w b = pointerDesc E s b" for E using tyOf_grows [OF gw vb(1)] by (simp add: pointerDesc_def)
  show "desc E w b = pointerDesc E w b" for E using desc_grows [OF gw wf vb(1)] b' pd by simp
  have xs: "idx_ofr s x" if "x \<in> set offs \<union> set strs" for x using that p' by blast
  show "idx_ofr w x" if "x \<in> set offs \<union> set strs" for x using xs [OF that] idx_ofr_grows [OF gw] by blast
  have elt: "valid u (gatherOffsetElt l)" "tyOf u (gatherOffsetElt l) = IndexTy" using l' by auto
  then show "valid w (gatherOffsetElt l)" "tyOf w (gatherOffsetElt l) = IndexTy" using valid_grows [OF w] tyOf_grows [OF w] by auto
  show "length strs = length szs" "length offs = length szs" "k < length szs" "1 < szs ! k" using p' by auto
  fix row t off ms lo ls
  assume t: "grows w t" "valid t row" "tyOf t row = MemRefTy (szs[k := 1]) e" "length ms = length szs"
    and d1: "\<And>E. desc E t row = (pointerDesc E w b)\<lparr>moffset := osem E t off, msizes := map (wrap 64) (szs[k := 1]), mstrides := map (osem E w) ms\<rparr>"
    and d2: "\<And>E idx. inB szs idx \<Longrightarrow> dot (map (osem E w) ms) idx = dot (map (osem E w) strs) idx"
    and d3: "\<And>E idx. inB szs idx \<Longrightarrow> w64 (osem E t off) = w64 (sliceOffset (osem E w) k strs offs (eval E w (gatherOffsetElt l) []))"
  have iv: "v < ?iv" if "valid s v" for v using that valid_grows [OF g(1)] l' by blast
  define Ei where "Ei = (\<lambda>i :: int. E(?iv := \<lambda>_. i))"
  have os: "osem (Ei i) w x = osem E s x" if x: "idx_ofr s x" for x i
  proof -
    have "osem (Ei i) w x = osem (Ei i) s x" by (rule osem_grows [OF gw x])
    also have "\<dots> = osem E s x" unfolding Ei_def by (rule osem_iv [OF wf x]) (use x iv in simp)
    finally show ?thesis .
  qed
  have box: "isSlice szs k (sliceBox E s szs dims k)" using d p' by (intro sliceBox_isSlice) auto
  have loc: "locOf (desc (Ei i) t row) jdx = Addr (eval E s p (jdx[k := i]))"
    if i: "0 \<le> i" "i < szs ! k" and j: "inB (sliceBox E s szs dims k) jdx" for i jdx
  proof -
    note at = isSlice_at [OF box j i]
    have i64: "wrap 64 i = i"
    proof (rule wrap_in64)
      have "szs ! k < 2 ^ 31" using p' by auto
      then show "in64 i" using i by (auto simp: in64_def)
    qed
    have j0: "inB szs jdx"
    proof -
      have "jdx = jdx[k := 0]" using at(2) by (metis list_update_id)
      moreover have "inB szs (jdx[k := 0])" by (rule isSlice_at(1) [OF box j]) (use p' in auto)
      ultimately show ?thesis by simp
    qed
    have strs: "map (osem (Ei i) w) strs = map (osem E s) strs" using os xs by simp
    have offs: "map (osem (Ei i) w) (offs[k := Attr zeroAttr]) = map (osem E s) (offs[k := Attr zeroAttr])"
    proof (rule map_cong [OF refl])
      fix x assume "x \<in> set (offs[k := Attr zeroAttr])"
      then have "x = Attr zeroAttr \<or> x \<in> set offs" using set_update_subset_insert [of offs k "Attr zeroAttr"] by auto
      then show "osem (Ei i) w x = osem E s x" using os xs by (auto simp: osem_def ofrSem_def)
    qed
    have elt: "eval (Ei i) w (gatherOffsetElt l) [] = eval E s g [i]"
    proof -
      have vg: "valid s g" "g < ?iv" using wf_operand_valid [OF wf, of p g] p' iv by auto
      have "eval (Ei i) w (gatherOffsetElt l) [] = eval (Ei i) s0 g' [wrap 64 (Ei i ?iv [])]"
        using l' eval_grows [OF w elt(1)] by simp
      also have "\<dots> = eval (Ei i) s g [i]" using g(3) i64 by (simp add: Ei_def)
      also have "\<dots> = eval E s g [i]" unfolding Ei_def using eval_iv [OF wf vg] by simp
      finally show ?thesis .
    qed
    have "sliceOffset (osem (Ei i) w) k strs offs (eval (Ei i) w (gatherOffsetElt l) []) = sliceOffset (osem E s) k strs offs (eval E s g [i])"
      unfolding sliceOffset_def offs elt using os [of "strs ! k" i] xs p' by simp
    then have o: "w64 (osem (Ei i) t off) = w64 (sliceOffset (osem E s) k strs offs (eval E s g [i]))" using d3 [OF j0, of "Ei i"] by simp
    have "w64 (osem (Ei i) t off + dot (map (osem (Ei i) w) ms) jdx) =
        w64 (sliceOffset (osem E s) k strs offs (eval E s g [i]) + dot (map (osem E s) strs) jdx)"
      using o d2 [OF j0, of "Ei i"] strs by (simp add: w64_ring)
    then have wr: "wrap 64 (eval E s base [] + byteSize e * (osem (Ei i) t off + dot (map (osem (Ei i) w) ms) jdx)) =
        wrap 64 (eval E s base [] + byteSize e * (sliceOffset (osem E s) k strs offs (eval E s g [i]) + dot (map (osem E s) strs) jdx))"
      unfolding w64_inj_wrap [symmetric] by (simp add: w64_ring)
    have "jdx[k := i, k := 0] = jdx" using at(2) by (metis list_update_id list_update_overwrite)
    then have "eval E s p (jdx[k := i]) = wrap 64 (eval E s base [] + byteSize e *
        (sliceOffset (osem E s) k strs offs (eval E s g [i]) + dot (map (osem E s) strs) jdx))"
      using gatherPtr_eval [OF wf p at(1), of E] at(3,4) by simp
    moreover have "Ei i b [] = eval E s base []" using b' iv [OF vb(1)] by (simp add: Ei_def)
    moreover have "elemTy (tyOf w b) = e" using b' tyOf_grows [OF gw vb(1)] by simp
    ultimately show ?thesis using wr by (simp add: d1 locOf_def pointerDesc_def)
  qed
  show "wp (sliceOfPtr l (length szs) dims (sliceSizes szs dims k) row) Q t"
  proof (cases "dims = []")
    case True
    have "\<forall>n \<in> set szs. in64 n" using p' by (auto simp: in64_def)
    then have "msizes (desc (Ei i) t row) = sliceBox E s szs dims k" for i
      using True by (simp add: d1 sliceBox_def map_update wrap_in64 map_idI)
    then have "Q row t" using loc by (intro post [OF t(1,2)]) (simp add: Ei_def)
    then show ?thesis using True by (simp add: sliceOfPtr_def wp_simps)
  next
    case False
    note gt = grows_trans [OF gw t(1)] and ut = grows_trans [OF w t(1)]
    have lt: "valid t (lowerBound l)" "eval E t (lowerBound l) [] = 0" "valid t (stepValue l)" "eval E t (stepValue l) [] = 1" for E
      using l' valid_grows [OF ut] eval_grows [OF ut] by auto
    have "wp (createSubview row (replicate (length szs) (Val (lowerBound l))) (sliceSizes szs dims k) (replicate (length szs) (Val (stepValue l)))) Q t"
    proof (rule wp_subview [OF growsD(2) [OF t(1)] t(2,3)])
      fix x a assume "x \<in> set (replicate (length szs) (Val (lowerBound l))) \<union> set (sliceSizes szs dims k) \<union>
        set (replicate (length szs) (Val (stepValue l)))" "a \<in> ofrVals x"
      then show "valid t a" using lt valid_grows [OF gt idx_ofr_vals [OF sliceSizes_idx [OF d]]] by (auto split: if_splits)
    next
      fix src z assume z: "grows t z" "valid z src" "\<And>E. desc E z src = (let d = desc E t row in d\<lparr>moffset := moffset d +
          dot (mstrides d) (map (osem E t) (replicate (length szs) (Val (lowerBound l)))), msizes := map (osem E t) (sliceSizes szs dims k),
          mstrides := map2 (*) (mstrides d) (map (osem E t) (replicate (length szs) (Val (stepValue l))))\<rparr>)"
      have dz: "desc (Ei i) z src = (desc (Ei i) t row)\<lparr>msizes := map (osem (Ei i) t) (sliceSizes szs dims k)\<rparr>" for i
        using z(3) [of "Ei i"] lt t(4) by (simp add: Let_def d1 map2_ones)
      have "osem (Ei i) t x = osem E s x" if "x \<in> set dims" for i x
      proof -
        have x: "idx_ofr s x" using d False that maskDims_idx by (auto simp: accessDims_def)
        then show ?thesis using os [OF x] osem_grows [OF t(1) idx_ofr_grows [OF gw x]] by simp
      qed
      moreover have "\<forall>n \<in> set szs. in64 n" using p' by (auto simp: in64_def)
      ultimately have "map (osem (Ei i) t) (sliceSizes szs dims k) = sliceBox E s szs dims k" for i by (intro sliceSizes_osem) auto
      then show "Q src z"
        using loc dz by (intro post [OF grows_trans [OF t(1) z(1)] z(2)]) (simp add: Ei_def)
    qed
    then show ?thesis using False by (simp add: sliceOfPtr_def)
  qed
qed

section \<open>The conversion of a gather\<close>

lemma slice_inMask:
  assumes "accessDims E s dims szs" "k < length szs" "inB szs idx"
  shows "idx ! k \<in> set [0..loopBound E s (szs ! k) dims k - 1] \<and> inB (sliceBox E s szs dims k) (idx[k := 0]) \<longleftrightarrow>
    dims = [] \<or> inMask E s dims idx"
proof (cases "dims = []")
  case True
  have "inB (szs[k := 1]) (idx[k := 0])" "0 \<le> idx ! k" "idx ! k < szs ! k"
    using assms(2,3) by (auto simp: inB_def list_all2_conv_all_nth nth_list_update)
  then show ?thesis using True by (simp add: sliceBox_def loopBound_def)
next
  case False
  then have m: "maskDims E s dims szs" using assms(1) by (simp add: accessDims_def)
  have l: "length dims = length szs" "length idx = length szs" using maskDims_length [OF m] inB_length [OF assms(3)] .
  have i: "0 \<le> idx ! j \<and> idx ! j < szs ! j" if "j < length szs" for j
    using assms(3) that by (auto simp: inB_def list_all2_conv_all_nth)
  have "inB (sliceBox E s szs dims k) (idx[k := 0]) \<longleftrightarrow> (\<forall>j < length szs. j \<noteq> k \<longrightarrow> idx ! j < osem E s (dims ! j))"
    using False l i assms(2) by (auto simp: sliceBox_def inB_def list_all2_conv_all_nth nth_list_update)
  moreover have "idx ! k \<in> set [0..loopBound E s (szs ! k) dims k - 1] \<longleftrightarrow> idx ! k < osem E s (dims ! k)"
    using False i [OF assms(2)] by (auto simp: loopBound_def)
  moreover have "inMask E s dims idx \<longleftrightarrow> (\<forall>j < length szs. idx ! j < osem E s (dims ! j))"
    using l by (auto simp: inMask_def list_all2_conv_all_nth)
  ultimately show ?thesis using False assms(2) by auto
qed

lemma loopBound_le: "accessDims E s dims szs \<Longrightarrow> k < length szs \<Longrightarrow> loopBound E s (szs ! k) dims k \<le> szs ! k"
  by (simp add: loopBound_def)

text \<open>The subview of the buffer that the iteration writes.\<close>

lemma map_osem_update:
  assumes "osem E u x = 0" "osem E u y = i"
  shows "map (osem E u) ((replicate n x)[k := y]) = (replicate n 0)[k := i]"
  using assms by (simp add: map_update)

lemma wp_bufferSlice:
  assumes wf: "wf_ir w" and b: "valid w b" "tyOf w b = MemRefTy szs e" "\<And>E. desc E w b = bufferDesc b szs" and k: "k < length szs"
    and n: "\<forall>n \<in> set szs. 0 \<le> n \<and> n < 2 ^ 31" and s: "grows s w" "accessDims E s dims szs" "wf_ir s"
    and lo: "valid w lo" "\<And>E. eval E w lo [] = 0" and one: "valid w one" "\<And>E. eval E w one [] = 1"
    and iv: "valid w iv" "\<And>E. eval E w iv [] = wrap 64 (E iv [])" "\<And>x. valid s x \<Longrightarrow> x < iv"
    and post: "\<And>dst t. grows w t \<Longrightarrow> valid t dst \<Longrightarrow> (\<And>i. 0 \<le> i \<Longrightarrow> i < szs ! k \<Longrightarrow>
      desc (E(iv := \<lambda>_. i)) t dst = sliceDesc b szs k i (sliceBox E s szs dims k)) \<Longrightarrow> Q dst t"
  shows "wp (createSubview b ((replicate (length szs) (Val lo))[k := Val iv]) (sliceSizes szs dims k) (replicate (length szs) (Val one))) Q w"
proof (rule wp_subview [OF wf b(1,2)])
  fix x a assume x: "x \<in> set ((replicate (length szs) (Val lo))[k := Val iv]) \<union> set (sliceSizes szs dims k) \<union>
    set (replicate (length szs) (Val one))" "a \<in> ofrVals x"
  have "x \<in> {Val lo, Val iv, Val one} \<or> x \<in> set (sliceSizes szs dims k)"
    using x(1) set_update_subset_insert [of "replicate (length szs) (Val lo)" k "Val iv"] by (auto split: if_splits)
  then show "valid w a" using x(2) lo(1) one(1) iv(1) valid_grows [OF s(1) idx_ofr_vals [OF sliceSizes_idx [OF s(2)]]] by auto
next
  fix dst t assume t: "grows w t" "valid t dst" "\<And>E. desc E t dst = (let d = desc E w b in d\<lparr>moffset := moffset d +
      dot (mstrides d) (map (osem E w) ((replicate (length szs) (Val lo))[k := Val iv])), msizes := map (osem E w) (sliceSizes szs dims k),
      mstrides := map2 (*) (mstrides d) (map (osem E w) (replicate (length szs) (Val one)))\<rparr>)"
  show "Q dst t"
  proof (rule post [OF t(1,2)])
    fix i assume i: "0 \<le> i" "i < szs ! k"
    let ?E = "E(iv := \<lambda>_. i)"
    have "szs ! k < 2 ^ 31" using n k by auto
    then have "wrap 64 i = i" using i by (intro wrap_in64) (auto simp: in64_def)
    then have o: "map (osem ?E w) ((replicate (length szs) (Val lo))[k := Val iv]) = (replicate (length szs) 0)[k := i]"
      using lo(2) [of ?E] iv(2) [of ?E] by (intro map_osem_update) simp_all
    have "osem ?E w x = osem E s x" if "x \<in> set dims" for x
    proof -
      have x: "idx_ofr s x" using s(2) that maskDims_idx by (auto simp: accessDims_def)
      have "osem ?E s x = osem E s x" by (rule osem_iv [OF s(3) x]) (use x iv(3) in simp)
      then show ?thesis using osem_grows [OF s(1) x] by simp
    qed
    moreover have "\<forall>n \<in> set szs. in64 n" using n by (auto simp: in64_def)
    ultimately have z: "map (osem ?E w) (sliceSizes szs dims k) = sliceBox E s szs dims k" by (intro sliceSizes_osem) auto
    have u: "map (osem ?E w) (replicate (length szs) (Val one)) = replicate (length szs) 1" using one(2) [of ?E] by simp
    have "dot (rowMajor szs) ((replicate (length szs) 0)[k := i]) = i * rowMajor szs ! k" using k by (simp add: dot_update)
    then show "desc ?E t dst = sliceDesc b szs k i (sliceBox E s szs dims k)"
      using t(3) [of ?E] unfolding o z u b(3) by (simp add: Let_def bufferDesc_def sliceDesc_def map2_ones)
  qed
qed

definition bufferOf :: "ir \<Rightarrow> val \<Rightarrow> val" where
  "bufferOf u r = (case defOp u r of ToTensorOp b \<Rightarrow> b | _ \<Rightarrow> r)"

lemma loopOk_valid:
  assumes "loopOk E s g n l u"
  shows "grows s u" "valid u (lowerBound l)" "valid u (stepValue l)" "valid u (inductionVar l)" "valid u (upperBound l)"
    "eval E' u (lowerBound l) [] = 0" "eval E' u (stepValue l) [] = 1" "eval E' u (inductionVar l) [] = wrap 64 (E' (inductionVar l) [])"
    "eval E u (upperBound l) [] = n" "\<And>x. valid s x \<Longrightarrow> x < inductionVar l"
  using assms by (auto simp: loopOk_def)

text \<open>What the fill and the loop leave in the buffer.\<close>

definition fillsRest :: "env \<Rightarrow> ir \<Rightarrow> val \<Rightarrow> int list \<Rightarrow> ofr list \<Rightarrow> val option \<Rightarrow> ir \<Rightarrow> stmt list \<Rightarrow> bool" where
  "fillsRest E s b szs dims other u st \<longleftrightarrow> (\<forall>t M. grows u t \<longrightarrow> (\<forall>a. exec E t st M (Addr a) = M (Addr a)) \<and>
     (\<forall>idx. inB szs idx \<longrightarrow> \<not> (dims = [] \<or> inMask E s dims idx) \<longrightarrow> exec E t st M (locOf (bufferDesc b szs) idx) =
       (case other of None \<Rightarrow> M (locOf (bufferDesc b szs) idx) | Some y \<Rightarrow> eval E s y [])))"

lemma gather_reads:
  assumes st: "fillsRest E s b szs dims other u st" and g: "grows u y" and k: "k < length szs" and d: "accessDims E s dims szs"
    and v: "defOp s v = TTSLoadOp p dims other [] pad" and r: "defOp y r = ToTensorOp b" "desc E y b = bufferDesc b szs"
    and ev: "eval E y lo [] = 0" "eval E y hi [] = loopBound E s (szs ! k) dims k"
    and dst: "\<And>i. 0 \<le> i \<Longrightarrow> i < szs ! k \<Longrightarrow> desc (E(iv := \<lambda>_. i)) y dst = sliceDesc b szs k i (sliceBox E s szs dims k)"
    and src: "\<And>i jdx. 0 \<le> i \<Longrightarrow> i < szs ! k \<Longrightarrow> inB (sliceBox E s szs dims k) jdx \<Longrightarrow>
      locOf (desc (E(iv := \<lambda>_. i)) y src) jdx = Addr (eval E s p (jdx[k := i]))"
  shows "readsAs E y (st @ [ForS iv lo hi [CopyS src dst]]) r szs
    (\<lambda>M. loadSem (\<lambda>a. M (Addr a)) (\<lambda>idx. M (locOf (bufferDesc b szs) idx)) E s (defOp s v))"
proof -
  let ?is = "[0..loopBound E s (szs ! k) dims k - 1]"
  let ?step = "\<lambda>M i. exec (E(iv := \<lambda>_. i)) y [CopyS src dst] M"
  have iin: "0 \<le> i \<and> i < szs ! k" if "i \<in> set ?is" for i
    using that loopBound_le [OF d k] by auto
  have run: "exec E y (st @ [ForS iv lo hi [CopyS src dst]]) M = foldl ?step (exec E y st M) ?is" for M
    unfolding exec_append by (simp only: exec.simps(1,8) ev)
  have ex: "foldl ?step M' ?is (locOf (bufferDesc b szs) idx) =
      (if idx ! k \<in> set ?is \<and> inB (sliceBox E s szs dims k) (idx[k := 0]) then M' (Addr (eval E s p idx)) else M' (locOf (bufferDesc b szs) idx))"
    if "inB szs idx" for M' idx
    by (rule conjunct1, rule exec_slices [OF _ sliceBox_isSlice [OF d k] _ _ that]) (use dst src iin in auto)
  have one: "?step M i (Addr a) = M (Addr a)" if m: "i \<in> set ?is" for M i a
  proof -
    have "?step M i = writeAll (sliceDesc b szs k i (sliceBox E s szs dims k)) (\<lambda>jdx. M (Addr (eval E s p (jdx[k := i]))))
        (indices (sliceBox E s szs dims k)) M"
      using iin [OF m] by (intro exec_slice sliceBox_isSlice [OF d k] dst src) auto
    then show ?thesis by (simp only:) (rule writeAll_other, simp add: sliceDesc_def locOf_def)
  qed
  have addr: "foldl ?step M' ?is (Addr a) = M' (Addr a)" for M' a
    using foldl_slices [of ?is ?step "Addr a" 0 False] one by simp
  have fill: "exec E y st M (Addr a) = M (Addr a)" for M a using st g by (simp add: fillsRest_def)
  have "foldl ?step (exec E y st M) ?is (locOf (bufferDesc b szs) idx) =
      (if dims = [] \<or> inMask E s dims idx then M (Addr (eval E s p idx))
       else (case other of None \<Rightarrow> M (locOf (bufferDesc b szs) idx) | Some y \<Rightarrow> eval E s y []))" if i: "inB szs idx" for M idx
    unfolding ex [OF i] slice_inMask [OF d k i] fill using st g i by (simp add: fillsRest_def)
  then show ?thesis
    unfolding readsAs_def run by (simp add: r v addr fill loadSem_def del: exec.simps split: option.split)
qed

lemma fillsRestD:
  assumes "fillsWith E s b szs dims u st (eval E s y [])" "grows u t" "dims \<noteq> []"
  shows "fillsRest E s b szs dims (Some y) t st"
  using assms grows_trans [OF assms(2)] by (simp add: fillsRest_def fillsWith_def)

lemma wp_gatherTail:
  assumes g: "grows s u" and b: "valid u b" "tyOf u b = MemRefTy szs e" "\<And>E. desc E u b = bufferDesc b szs"
    and k: "k < length szs" "\<forall>n \<in> set szs. 0 \<le> n \<and> n < 2 ^ 31" and d: "accessDims E s dims szs" and wf: "wf_ir s"
    and g': "grows u u0" and l: "loopOk E u0 g' (loopBound E s (szs ! k) dims k) l u1" and t: "grows u1 t"
    and src: "valid t src" "\<And>i. 0 \<le> i \<Longrightarrow> i < szs ! k \<Longrightarrow> (\<forall>jdx. inB (sliceBox E s szs dims k) jdx \<longrightarrow>
      locOf (desc (E(inductionVar l := \<lambda>_. i)) t src) jdx = Addr (eval E s p (jdx[k := i])))"
    and v: "defOp s v = TTSLoadOp p dims other [] pad" and st: "fillsRest E s b szs dims other u st"
    and post: "\<And>r y st'. grows s y \<Longrightarrow> valid y r \<Longrightarrow> tyOf y r = TensorTy szs e \<Longrightarrow> defOp y r = ToTensorOp b \<Longrightarrow>
      desc E y b = bufferDesc b szs \<Longrightarrow>
      readsAs E y st' r szs (\<lambda>M. loadSem (\<lambda>a. M (Addr a)) (\<lambda>idx. M (locOf (bufferDesc b szs) idx)) E s (defOp s v)) \<Longrightarrow> Q (st', r) y"
  shows "wp (createSubview b ((replicate (length szs) (Val (lowerBound l)))[k := Val (inductionVar l)])
      (sliceSizes szs dims k) (replicate (length szs) (Val (stepValue l)))) (\<lambda>dst. wp (create (ToTensorOp b) (TensorTy szs e))
      (\<lambda>r. Q (st @ [ForS (inductionVar l) (lowerBound l) (upperBound l) [CopyS src dst]], r))) t"
proof -
  note lv = loopOk_valid [OF l]
  note ut = grows_trans [OF grows_trans [OF g' lv(1)] t]
  note gt = grows_trans [OF g ut]
  show ?thesis
  proof (rule wp_bufferSlice [OF growsD(2) [OF t] valid_grows [OF ut b(1)] _ _ k gt d wf valid_grows [OF t lv(2)] _
        valid_grows [OF t lv(3)] _ valid_grows [OF t lv(4)]])
    show "tyOf t b = MemRefTy szs e" using tyOf_grows [OF ut b(1)] b(2) by simp
    show "desc E t b = bufferDesc b szs" for E using desc_grows [OF ut growsD(2) [OF g] b(1)] b(3) by simp
    show "eval E t (lowerBound l) [] = 0" "eval E t (stepValue l) [] = 1" "eval E t (inductionVar l) [] = wrap 64 (E (inductionVar l) [])" for E
      using eval_grows [OF t] lv by auto
    show "x < inductionVar l" if "valid s x" for x using lv(10) valid_grows [OF grows_trans [OF g g'] that] .
    fix dst z assume z: "grows t z" "valid z dst" and dst: "\<And>i. 0 \<le> i \<Longrightarrow> i < szs ! k \<Longrightarrow>
      desc (E(inductionVar l := \<lambda>_. i)) z dst = sliceDesc b szs k i (sliceBox E s szs dims k)"
    note uz = grows_trans [OF ut z(1)]
    show "wp (create (ToTensorOp b) (TensorTy szs e))
      (\<lambda>r. Q (st @ [ForS (inductionVar l) (lowerBound l) (upperBound l) [CopyS src dst]], r)) z"
    proof (rule wp_create [OF growsD(2) [OF z(1)]])
      show "\<forall>a \<in> operands (ToTensorOp b). valid z a" using valid_grows [OF uz b(1)] by simp
      fix r y assume r: "grows z y" "valid y r" "defOp y r = ToTensorOp b" "tyOf y r = TensorTy szs e"
      note uy = grows_trans [OF uz r(1)] and ty = grows_trans [OF z(1) r(1)]
      note u1y = grows_trans [OF t ty]
      have db: "desc E y b = bufferDesc b szs" using desc_grows [OF uy growsD(2) [OF g] b(1)] b(3) by simp
      have ev: "eval E y (lowerBound l) [] = 0" "eval E y (upperBound l) [] = loopBound E s (szs ! k) dims k"
        using eval_grows [OF u1y] lv by auto
      show "Q (st @ [ForS (inductionVar l) (lowerBound l) (upperBound l) [CopyS src dst]], r) y"
      proof (rule post [OF grows_trans [OF g uy] r(2,4,3) db gather_reads [OF st uy k(1) d v r(3) db ev]])
        fix i assume i: "0 \<le> i" "i < szs ! k"
        show "desc (E(inductionVar l := \<lambda>_. i)) y dst = sliceDesc b szs k i (sliceBox E s szs dims k)"
          using dst [OF i] desc_grows [OF r(1) growsD(2) [OF z(1)] z(2)] by simp
        show "locOf (desc (E(inductionVar l := \<lambda>_. i)) y src) jdx = Addr (eval E s p (jdx[k := i]))"
          if "inB (sliceBox E s szs dims k) jdx" for jdx
          using src(2) [OF i] that desc_grows [OF ty growsD(2) [OF t] src(1)] by simp
      qed
    qed simp
  qed
qed

lemma wp_gatherLoop:
  assumes g: "grows s u" and b: "valid u b" "tyOf u b = MemRefTy szs e" "\<And>E. desc E u b = bufferDesc b szs"
    and wf: "wf_ir s" and p: "gatherPtr s p base g0 k szs strs offs e" and m: "baseMemref E s m base e" and d: "accessDims E s dims szs"
    and v: "defOp s v = TTSLoadOp p dims other [] pad" and st: "fillsRest E s b szs dims other u st"
    and g': "valid u g'" "tyOf u g' = TensorTy [szs ! k] IndexTy" "\<And>E idx. eval E u g' idx = eval E s g0 idx"
    and post: "\<And>r y st'. grows s y \<Longrightarrow> valid y r \<Longrightarrow> tyOf y r = TensorTy szs e \<Longrightarrow> defOp y r = ToTensorOp b \<Longrightarrow>
      desc E y b = bufferDesc b szs \<Longrightarrow>
      readsAs E y st' r szs (\<lambda>M. loadSem (\<lambda>a. M (Addr a)) (\<lambda>idx. M (locOf (bufferDesc b szs) idx)) E s (defOp s v)) \<Longrightarrow> Q (st', r) y"
  shows "wp (createGatherLoop g' (szs ! k) dims k) (\<lambda>l. wp (bindM (rewriteGatherScatterPtrElement (tyOf s p) szs strs offs k m (gatherOffsetElt l))
      (\<lambda>row. sliceOfPtr l (length szs) dims (sliceSizes szs dims k) row)) (\<lambda>src.
      wp (createSubview b ((replicate (length szs) (Val (lowerBound l)))[k := Val (inductionVar l)])
      (sliceSizes szs dims k) (replicate (length szs) (Val (stepValue l)))) (\<lambda>dst. wp (create (ToTensorOp b) (TensorTy szs e))
      (\<lambda>r. Q (st @ [ForS (inductionVar l) (lowerBound l) (upperBound l) [CopyS src dst]], r))))) u"
proof -
  have n: "0 \<le> szs ! k" "szs ! k < 2 ^ 31" "k < length szs" "\<forall>n \<in> set szs. 0 \<le> n \<and> n < 2 ^ 31" using p by (auto simp: gatherPtr_def)
  have dim: "k < length dims \<and> idx_ofr s (dims ! k) \<and> 0 \<le> osem E s (dims ! k) \<and> osem E s (dims ! k) \<le> szs ! k" if "dims \<noteq> []"
    using d that n(3) maskDims_nth [of E s dims szs k] maskDims_length [of E s dims szs] by (auto simp: accessDims_def)
  then have dimu: "k < length dims \<and> idx_ofr u (dims ! k) \<and> 0 \<le> osem E u (dims ! k) \<and> osem E u (dims ! k) \<le> szs ! k" if "dims \<noteq> []"
    using that idx_ofr_grows [OF g] osem_grows [OF g] by simp
  have lb: "loopBound E u (szs ! k) dims k = loopBound E s (szs ! k) dims k"
    using dim osem_grows [OF g, of "dims ! k" E] by (auto simp: loopBound_def)
  show ?thesis
  proof (rule wp_createGatherLoop [OF growsD(2) [OF g] g'(1,2) n(1,2) dimu])
    fix l u1 assume l: "loopOk E u g' (loopBound E u (szs ! k) dims k) l u1"
    note wu = growsD(2) [OF g] and lv = loopOk_valid [OF l]
    show "wp (bindM (rewriteGatherScatterPtrElement (tyOf s p) szs strs offs k m (gatherOffsetElt l))
      (\<lambda>row. sliceOfPtr l (length szs) dims (sliceSizes szs dims k) row)) (\<lambda>src.
      wp (createSubview b ((replicate (length szs) (Val (lowerBound l)))[k := Val (inductionVar l)])
      (sliceSizes szs dims k) (replicate (length szs) (Val (stepValue l)))) (\<lambda>dst. wp (create (ToTensorOp b) (TensorTy szs e))
      (\<lambda>r. Q (st @ [ForS (inductionVar l) (lowerBound l) (upperBound l) [CopyS src dst]], r)))) u1"
    proof (rule wp_slicePtr [OF wf p m d g g'(1,3) l grows_refl [OF growsD(2) [OF lv(1)]]], goal_cases)
      case (1 src t)
      show ?case
        by (rule wp_gatherTail [where p = p and E = E and Q = Q, OF g b n(3,4) d wf grows_refl [OF wu] l [unfolded lb] 1(1,2) _ v st post])
          (use 1(3) in auto)
    qed
  qed
qed

lemma wp_rewriteGather:
  assumes wf: "wf_ir s" and p: "gatherPtr s p base g k szs strs offs e" and m: "baseMemref E s m base e"
    and v: "defOp s v = TTSLoadOp p dims other [] pad" and d: "accessDims E s dims szs" "dims = [] \<longrightarrow> other = None"
    and o: "\<And>y. other = Some y \<Longrightarrow> valid s y"
    and post: "\<And>r y b st'. grows s y \<Longrightarrow> valid y r \<Longrightarrow> tyOf y r = TensorTy szs e \<Longrightarrow> defOp y r = ToTensorOp b \<Longrightarrow>
      desc E y b = bufferDesc b szs \<Longrightarrow>
      readsAs E y st' r szs (\<lambda>M. loadSem (\<lambda>a. M (Addr a)) (\<lambda>idx. M (locOf (bufferDesc b szs) idx)) E s (defOp s v)) \<Longrightarrow> Q (st', r) y"
  shows "wp (rewriteGather (tyOf s p) (TensorTy szs e) g k szs strs offs m dims other) Q s"
proof -
  let ?t = "TensorTy szs e" and ?n = "szs ! k"
  note p' = p [unfolded gatherPtr_def]
  have vg: "valid s g" using wf_operand_valid [OF wf, of p g] p' by auto
  obtain w where w: "w \<le> 64" "tyOf s g = TensorTy [?n] (IntTy w)" using p' by blast
  have n: "0 \<le> ?n" "?n < 2 ^ 31" "k < length szs" using p' by auto
  have n64: "in64 n" if "n \<in> set szs" for n using p' that by (auto simp: in64_def)
  let ?loop = "\<lambda>b g' st. wp (createGatherLoop g' ?n dims k) (\<lambda>l. wp (bindM (rewriteGatherScatterPtrElement (tyOf s p) szs strs offs k m (gatherOffsetElt l))
      (\<lambda>row. sliceOfPtr l (length szs) dims (sliceSizes szs dims k) row)) (\<lambda>src.
      wp (createSubview b ((replicate (length szs) (Val (lowerBound l)))[k := Val (inductionVar l)])
      (sliceSizes szs dims k) (replicate (length szs) (Val (stepValue l)))) (\<lambda>dst. wp (create (ToTensorOp b) ?t)
      (\<lambda>r. Q (st @ [ForS (inductionVar l) (lowerBound l) (upperBound l) [CopyS src dst]], r)))))"
  have fill: "wp (case other of None \<Rightarrow> ret [] | Some x \<Rightarrow> fillWithValue b x szs dims (map staticDim dims)) (?loop b g') u"
    if g: "grows s u" and b: "valid u b" "tyOf u b = MemRefTy szs e" "\<And>E. desc E u b = bufferDesc b szs"
      and g': "valid u g'" "tyOf u g' = TensorTy [?n] IndexTy" "\<And>E idx. eval E u g' idx = eval E s g idx" for u b g'
  proof -
    have next_: "?loop b g' st t" if t: "grows u t" and st: "fillsRest E s b szs dims other t st" for st t
    proof (rule wp_gatherLoop [OF grows_trans [OF g t] valid_grows [OF t b(1)] _ _ wf p m d(1) v st valid_grows [OF t g'(1)]])
      show "tyOf t b = MemRefTy szs e" using tyOf_grows [OF t b(1)] b(2) by simp
      show "desc E t b = bufferDesc b szs" for E using desc_grows [OF t growsD(2) [OF g] b(1)] b(3) by simp
      show "tyOf t g' = TensorTy [?n] IndexTy" using tyOf_grows [OF t g'(1)] g'(2) by simp
      show "eval E t g' idx = eval E s g idx" for E idx using eval_grows [OF t g'(1)] g'(3) by simp
    qed (rule post)
    show ?thesis
    proof (cases other)
      case None
      have "?loop b g' [] u" by (rule next_ [OF grows_refl [OF growsD(2) [OF g]]]) (simp add: fillsRest_def None)
      then show ?thesis by (simp add: None wp_simps)
    next
      case (Some y)
      then have x: "dims \<noteq> []" "maskDims E s dims szs" using d by (auto simp: accessDims_def)
      have y: "valid u y" "eval E u y = eval E s y" using o [OF Some] valid_grows [OF g] eval_grows [OF g] by auto
      have ld: "length dims = length szs" using maskDims_length [OF x(2)] .
      have du: "idx_ofr u d" if "d \<in> set dims" for d using maskDims_idx [OF x(2) that] idx_ofr_grows [OF g] by blast
      have "wp (fillWithValue b y szs dims (map staticDim dims)) (?loop b g') u"
      proof (rule wp_fillWithValue [OF growsD(2) [OF g]])
        fix acc w assume a: "grows u w" "valid w acc" "\<And>E. eval E w acc [] \<noteq> 0 \<longleftrightarrow> fillsBelow E u szs dims (map staticDim dims) (length szs)"
        have f: "fillsWith E u b szs dims w [IfS acc [FillS y b]] (eval E w y [])"
          by (rule fillsWith_guard [OF growsD(2) [OF a(1)] valid_grows [OF a(1) b(1)] _ valid_grows [OF a(1) y(1)] a(2,3) ld])
            (use fillDim_osem [OF du] ld b(3) desc_grows [OF a(1) growsD(2) [OF g] b(1)] in simp_all)
        have "fillsWith E s b szs dims w [IfS acc [FillS y b]] (eval E s y [])"
          using f inMask_grows [OF g x(2)] eval_grows [OF a(1) y(1)] y(2) by (simp add: fillsWith_def)
        then show "?loop b g' [IfS acc [FillS y b]] w"
          by (intro next_ [OF a(1)]) (simp only: Some, rule fillsRestD [OF _ grows_refl [OF growsD(2) [OF a(1)]] x(1)])
      qed (use n64 ld du in auto)
      then show ?thesis by (simp add: Some)
    qed
  qed
  show ?thesis
    unfolding rewriteGather_def wp_bindM
  proof (rule wp_indexOffsets [OF wf vg w(2,1) n(1,2)], goal_cases)
    case (1 g' t)
    show ?case
      unfolding prod.case wp_bindM
    proof (rule wp_hasWraparound [OF growsD(2) [OF 1(1)]], goal_cases)
      case (1 t1)
      note g1 = grows_trans [OF \<open>grows s t\<close> 1]
      have "wp (allocFor ?t) (\<lambda>b. wp (case other of None \<Rightarrow> ret [] | Some x \<Rightarrow> fillWithValue b x szs dims (map staticDim dims)) (?loop b g')) t1"
      proof (rule wp_allocFor [OF growsD(2) [OF 1] refl], rule fill)
        fix b u assume u: "grows t1 u"
        note tu = grows_trans [OF \<open>grows t t1\<close> u]
        show "grows s u" by (rule grows_trans [OF g1 u])
        show "valid u g'" "tyOf u g' = TensorTy [?n] IndexTy" "eval E u g' idx = eval E s g idx" for E idx
          using valid_grows [OF tu \<open>valid t g'\<close>] tyOf_grows [OF tu \<open>valid t g'\<close>] eval_grows [OF tu \<open>valid t g'\<close>]
            \<open>tyOf t g' = TensorTy [?n] IndexTy\<close> \<open>\<And>E idx. eval E t g' idx = eval E s g idx\<close> by auto
      qed
      then show ?case using n(3) by (cases other) (simp_all add: wp_simps)
    qed
  qed
qed

text \<open>\<open>LoadConverter\<close> on a gather.\<close>

lemma wp_convertGather:
  assumes wf: "wf_ir s" and p: "gatherPtr s p base g k szs strs offs e" and m: "baseMemref E s (remapped cv base) base e"
    and v: "defOp s v = TTSLoadOp p dims other [] pad" "tyOf s v = TensorTy szs e"
    and d: "accessDims E s dims szs" "dims = [] \<longrightarrow> other = None" and o: "\<And>y. other = Some y \<Longrightarrow> valid s y"
    and post: "\<And>r y b st'. grows s y \<Longrightarrow> valid y r \<Longrightarrow> tyOf y r = TensorTy szs e \<Longrightarrow> defOp y r = ToTensorOp b \<Longrightarrow>
      desc E y b = bufferDesc b szs \<Longrightarrow>
      readsAs E y st' r szs (\<lambda>M. loadSem (\<lambda>a. M (Addr a)) (\<lambda>idx. M (locOf (bufferDesc b szs) idx)) E s (defOp s v)) \<Longrightarrow> Q (st', r) y"
  shows "wp (convertLoad cv v) Q s"
proof -
  have "wp (rewriteGather (tyOf s p) (TensorTy szs e) g k szs strs offs (remapped cv base) dims other) Q s"
    by (rule wp_rewriteGather [OF wf p m v(1) d]) (use o post in auto)
  then show ?thesis using p v by (simp add: convertLoad_def gatherPtr_def wp_simps)
qed


end
