(* ===== verification/Memref_Scatter.thy ===== *)
theory Memref_Scatter
  imports Memref_Gather
begin

text \<open>
  Stores through \<open>tts.make_gather_scatter_tptr\<close>: the loop writes the slices of the tensor one after
  the other, so the elements are stored slice by slice, in row-major order within a slice.
\<close>

section \<open>The order of the stores\<close>

definition sliceOrder :: "int list \<Rightarrow> nat \<Rightarrow> int list list" where
  "sliceOrder szs k = concat (map (\<lambda>i. map (\<lambda>j. j[k := i]) (indices (szs[k := 1]))) [0..szs ! k - 1])"

lemma foldl_concat: "foldl f M (concat xss) = foldl (foldl f) M xss"
  by (induction xss arbitrary: M) simp_all

lemma slice_unit: "k < length szs \<Longrightarrow> inB (szs[k := 1]) j \<Longrightarrow> j ! k = 0 \<and> length j = length szs"
  by (auto simp: inB_def list_all2_conv_all_nth nth_list_update)

lemma slice_upd: "k < length szs \<Longrightarrow> inB (szs[k := 1]) j \<Longrightarrow> j[k := i, k := 0] = j"
  using slice_unit by (metis list_update_id list_update_overwrite)

lemma slice_in: "k < length szs \<Longrightarrow> inB (szs[k := 1]) j \<Longrightarrow> 0 \<le> i \<Longrightarrow> i < szs ! k \<Longrightarrow> inB szs (j[k := i])"
  by (auto simp: inB_def list_all2_conv_all_nth nth_list_update split: if_splits)

text \<open>The stores of the loop are those of all the elements, in this order, that the mask selects.\<close>

lemma scatter_order:
  assumes d: "accessDims E s dims szs" and k: "k < length szs" and b: "0 \<le> loopBound E s (szs ! k) dims k"
  shows "foldl (\<lambda>M i. foldl (\<lambda>M j. g M (j[k := i])) M (indices (sliceBox E s szs dims k))) M [0..loopBound E s (szs ! k) dims k - 1] =
    foldl (\<lambda>M idx. if dims = [] \<or> inMask E s dims idx then g M idx else M) M (sliceOrder szs k)"
proof -
  let ?n = "loopBound E s (szs ! k) dims k" and ?P = "\<lambda>idx. dims = [] \<or> inMask E s dims idx"
  let ?g = "\<lambda>M idx. if ?P idx then g M idx else M"
  let ?row = "\<lambda>M i. foldl ?g M (map (\<lambda>j. j[k := i]) (indices (szs[k := 1])))"
  have at: "?P (j[k := i]) \<longleftrightarrow> i < ?n \<and> inB (sliceBox E s szs dims k) j"
    if j: "j \<in> set (indices (szs[k := 1]))" and i: "0 \<le> i" "i < szs ! k" for i j
  proof -
    have j': "inB (szs[k := 1]) j" using j by (simp add: set_indices)
    show ?thesis
      using slice_inMask [OF d k slice_in [OF k j' i]] slice_unit [OF k j'] slice_upd [OF k j'] i k by simp
  qed
  have box: "list_all2 (\<le>) (sliceBox E s szs dims k) (szs[k := 1])"
    using sliceBox_isSlice [OF d k] by (auto simp: isSlice_def list_all2_conv_all_nth nth_list_update)
  have inside: "?row M i = foldl (\<lambda>M j. g M (j[k := i])) M (indices (sliceBox E s szs dims k))" if i: "0 \<le> i" "i < ?n" for M i
  proof -
    have i': "i < szs ! k" using i loopBound_le [OF d k] by simp
    have "?row M i = foldl (\<lambda>M j. if inB (sliceBox E s szs dims k) j then g M (j[k := i]) else M) M (indices (szs[k := 1]))"
      unfolding foldl_map by (rule foldl_cong) (use at i i' in auto)
    then show ?thesis unfolding indices_part [OF box, symmetric] foldl_filter .
  qed
  have outside: "?row M i = M" if "?n \<le> i" "i < szs ! k" for M i
    unfolding foldl_map by (rule foldl_id) (use at that b in auto)
  have split: "[0..szs ! k - 1] = [0..?n - 1] @ [?n..szs ! k - 1]"
    using b loopBound_le [OF d k] by (cases "?n = szs ! k") (auto intro: upto_split1)
  have "foldl ?g M (sliceOrder szs k) = foldl ?row (foldl ?row M [0..?n - 1]) [?n..szs ! k - 1]"
    by (simp only: sliceOrder_def foldl_concat foldl_map [of "foldl ?g"] split foldl_append)
  also have "\<dots> = foldl ?row M [0..?n - 1]" by (rule foldl_id) (use outside in auto)
  also have "\<dots> = foldl (\<lambda>M i. foldl (\<lambda>M j. g M (j[k := i])) M (indices (sliceBox E s szs dims k))) M [0..?n - 1]"
    by (rule foldl_cong) (use inside in auto)
  finally show ?thesis by simp
qed

section \<open>The slice of the tensor\<close>

lemma sliceIdx_slice:
  assumes "f lo = 0" "f one = 1" "length idx = n" "k < n" "idx ! k = 0"
  shows "sliceIdx f ((replicate n lo)[k := iv]) (replicate n one) idx = idx[k := f iv]"
  using assms(3-5)
proof (induction idx arbitrary: n k)
  case (Cons i idx)
  then obtain m where m: "n = Suc m" by (cases n) auto
  have plain: "sliceIdx f (replicate m lo) (replicate m one) idx = idx" if "length idx = m" for m idx
    using that assms(1,2) by (induction idx arbitrary: m) (auto simp: neq_Nil_conv length_Suc_conv)
  show ?case using Cons assms(1,2) plain by (cases k) (auto simp: m)
qed simp

text \<open>What the loop stores.\<close>

lemma scatter_writes:
  assumes d: "accessDims E s dims szs" and k: "k < length szs" and b: "0 \<le> loopBound E s (szs ! k) dims k"
    and ev: "eval E y lo [] = 0" "eval E y hi [] = loopBound E s (szs ! k) dims k"
    and dst: "\<And>i. 0 \<le> i \<Longrightarrow> i < szs ! k \<Longrightarrow> msizes (desc (E(iv := \<lambda>_. i)) y dst) = sliceBox E s szs dims k \<and>
      (\<forall>jdx. inB (sliceBox E s szs dims k) jdx \<longrightarrow> locOf (desc (E(iv := \<lambda>_. i)) y dst) jdx = Addr (A (jdx[k := i])))"
    and src: "\<And>i jdx. 0 \<le> i \<Longrightarrow> i < szs ! k \<Longrightarrow> inB (sliceBox E s szs dims k) jdx \<Longrightarrow> eval (E(iv := \<lambda>_. i)) y src jdx = X (jdx[k := i])"
  shows "exec E y [ForS iv lo hi [MaterializeS src dst]] M =
    foldl (\<lambda>M idx. if dims = [] \<or> inMask E s dims idx then M(Addr (A idx) := X idx) else M) M (sliceOrder szs k)"
proof -
  let ?is = "[0..loopBound E s (szs ! k) dims k - 1]"
  have "exec E y [ForS iv lo hi [MaterializeS src dst]] M = foldl (\<lambda>M i. exec (E(iv := \<lambda>_. i)) y [MaterializeS src dst] M) M ?is"
    by (simp only: exec.simps(1,8) ev)
  also have "\<dots> = foldl (\<lambda>M i. foldl (\<lambda>M j. M(Addr (A (j[k := i])) := X (j[k := i]))) M (indices (sliceBox E s szs dims k))) M ?is"
  proof (rule foldl_cong [OF refl refl])
    fix M i assume "i \<in> set ?is"
    then have i: "0 \<le> i" "i < szs ! k" using loopBound_le [OF d k] by auto
    show "exec (E(iv := \<lambda>_. i)) y [MaterializeS src dst] M =
        foldl (\<lambda>M j. M(Addr (A (j[k := i])) := X (j[k := i]))) M (indices (sliceBox E s szs dims k))"
      unfolding exec.simps writeAll_def dst [OF i, THEN conjunct1]
      by (rule foldl_cong) (use dst [OF i] src [OF i] in \<open>auto simp: set_indices\<close>)
  qed
  also have "\<dots> = foldl (\<lambda>M idx. if dims = [] \<or> inMask E s dims idx then M(Addr (A idx) := X idx) else M) M (sliceOrder szs k)"
    by (rule scatter_order [OF d k b])
  finally show ?thesis .
qed

section \<open>The conversion of a scatter\<close>

lemma wp_tensorSlice:
  assumes wf: "wf_ir s" and g: "grows s u1" and x: "valid s x" "tyOf s x = TensorTy szs e" and k: "k < length szs"
    and n: "\<forall>n \<in> set szs. 0 \<le> n \<and> n < 2 ^ 31" and d: "accessDims E s dims szs"
    and g0: "grows s u0" and l: "loopOk E u0 g' n0 l u1"
    and post: "\<And>y t. grows u1 t \<Longrightarrow> valid t y \<Longrightarrow> (\<And>i jdx. 0 \<le> i \<Longrightarrow> i < szs ! k \<Longrightarrow> length jdx = length szs \<Longrightarrow> jdx ! k = 0 \<Longrightarrow>
      eval (E(inductionVar l := \<lambda>_. i)) t y jdx = eval E s x (jdx[k := i])) \<Longrightarrow> Q y t"
  shows "wp (create (ExtractSliceOp x ((replicate (length szs) (Val (lowerBound l)))[k := Val (inductionVar l)])
    (sliceSizes szs dims k) (replicate (length szs) (Val (stepValue l)))) (TensorTy (map staticDim (sliceSizes szs dims k)) e)) Q u1"
proof (rule wp_create [OF growsD(2) [OF g]])
  let ?offs = "(replicate (length szs) (Val (lowerBound l)))[k := Val (inductionVar l)]"
  let ?ones = "replicate (length szs) (Val (stepValue l))"
  let ?op = "ExtractSliceOp x ?offs (sliceSizes szs dims k) ?ones"
  note lv = loopOk_valid [OF l]
  have "valid u1 a" if z: "z \<in> set ?offs \<union> set (sliceSizes szs dims k) \<union> set ?ones" "a \<in> ofrVals z" for a z
  proof -
    have "z \<in> {Val (lowerBound l), Val (inductionVar l), Val (stepValue l)} \<or> z \<in> set (sliceSizes szs dims k)"
      using z(1) set_update_subset_insert [of "replicate (length szs) (Val (lowerBound l))" k "Val (inductionVar l)"] by (auto split: if_splits)
    then show ?thesis using z(2) lv(2-4) valid_grows [OF g idx_ofr_vals [OF sliceSizes_idx [OF d]]] by auto
  qed
  then show "\<forall>a \<in> operands ?op. valid u1 a" using valid_grows [OF g x(1)] lv(3) by auto
  fix y t assume y: "grows u1 t" "valid t y"
    and ev: "\<And>E idx. eval E t y idx = norm (TensorTy (map staticDim (sliceSizes szs dims k)) e)
      (denOp E (tyOf u1) (eval E u1) y ?op (TensorTy (map staticDim (sliceSizes szs dims k)) e) idx)"
  show "Q y t"
  proof (rule post [OF y])
    fix i and jdx :: "int list" assume i: "0 \<le> i" "i < szs ! k" and j: "length jdx = length szs" "jdx ! k = 0"
    let ?E = "E(inductionVar l := \<lambda>_. i)"
    have "szs ! k < 2 ^ 31" using n k by auto
    then have i64: "wrap 64 i = i" using i by (intro wrap_in64) (auto simp: in64_def)
    have "sliceIdx (osem ?E u1) ?offs ?ones jdx = jdx[k := osem ?E u1 (Val (inductionVar l))]"
      by (rule sliceIdx_slice) (use lv j k in \<open>auto simp: osem_def ofrSem_def\<close>)
    also have "osem ?E u1 (Val (inductionVar l)) = i" using lv(8) [of ?E] i64 by (simp add: osem_def ofrSem_def)
    finally have ix: "sliceIdx (osem ?E u1) ?offs ?ones jdx = jdx[k := i]" .
    have "eval ?E t y jdx = norm (tyOf s x) (eval ?E u1 x (jdx[k := i]))"
      using ev [of ?E] ix x(2) by (simp add: denOp_def norm_def osem_def [abs_def])
    also have "eval ?E u1 x (jdx[k := i]) = eval E s x (jdx[k := i])"
    proof -
      have "eval ?E s x = eval E s x" by (rule eval_iv [OF wf x(1) lv(10) [OF valid_grows [OF g0 x(1)]]])
      then show ?thesis using eval_grows [OF g x(1)] by simp
    qed
    finally show "eval ?E t y jdx = eval E s x (jdx[k := i])" unfolding eval_norm [OF wf x(1)] .
  qed
qed simp

lemma wp_scatterLoop:
  assumes g: "grows s u" and wf: "wf_ir s" and p: "gatherPtr s p base g0 k szs strs offs e" and m: "baseMemref E s m base e"
    and d: "accessDims E s dims szs" and x: "valid s x" "tyOf s x = TensorTy szs e"
    and g': "valid u g'" "tyOf u g' = TensorTy [szs ! k] IndexTy" "\<And>E idx. eval E u g' idx = eval E s g0 idx"
    and post: "\<And>st y. grows s y \<Longrightarrow> (\<And>M. exec E y st M =
      foldl (\<lambda>M idx. if dims = [] \<or> inMask E s dims idx then M(Addr (eval E s p idx) := eval E s x idx) else M) M (sliceOrder szs k)) \<Longrightarrow> Q st y"
  shows "wp (createGatherLoop g' (szs ! k) dims k) (\<lambda>l s1. wp (create (ExtractSliceOp x ((replicate (length szs) (Val (lowerBound l)))[k := Val (inductionVar l)])
    (sliceSizes szs dims k) (replicate (length szs) (Val (stepValue l)))) (TensorTy (map staticDim (sliceSizes szs dims k)) (elemTy (tyOf s1 x)))) (\<lambda>slice.
      wp (bindM (rewriteGatherScatterPtrElement (tyOf s p) szs strs offs k m (gatherOffsetElt l))
      (\<lambda>row. sliceOfPtr l (length szs) dims (sliceSizes szs dims k) row)) (\<lambda>dst.
      Q [ForS (inductionVar l) (lowerBound l) (upperBound l) [MaterializeS slice dst]])) s1) u"
proof -
  have n: "0 \<le> szs ! k" "szs ! k < 2 ^ 31" "k < length szs" "\<forall>n \<in> set szs. 0 \<le> n \<and> n < 2 ^ 31" using p by (auto simp: gatherPtr_def)
  have dim: "k < length dims \<and> idx_ofr s (dims ! k) \<and> 0 \<le> osem E s (dims ! k) \<and> osem E s (dims ! k) \<le> szs ! k" if "dims \<noteq> []"
    using d that n(3) maskDims_nth [of E s dims szs k] maskDims_length [of E s dims szs] by (auto simp: accessDims_def)
  then have dimu: "k < length dims \<and> idx_ofr u (dims ! k) \<and> 0 \<le> osem E u (dims ! k) \<and> osem E u (dims ! k) \<le> szs ! k" if "dims \<noteq> []"
    using that idx_ofr_grows [OF g] osem_grows [OF g] by simp
  have lb: "loopBound E u (szs ! k) dims k = loopBound E s (szs ! k) dims k"
    using dim osem_grows [OF g, of "dims ! k" E] by (auto simp: loopBound_def)
  have lb0: "0 \<le> loopBound E s (szs ! k) dims k" using dim n(1) by (auto simp: loopBound_def)
  show ?thesis
  proof (rule wp_createGatherLoop [OF growsD(2) [OF g] g'(1,2) n(1,2) dimu])
    fix l u1 assume l: "loopOk E u g' (loopBound E u (szs ! k) dims k) l u1"
    note wu = growsD(2) [OF g] and lv = loopOk_valid [OF l]
    let ?iv = "inductionVar l"
    have gu1: "grows s u1" by (rule grows_trans [OF g lv(1)])
    have tyu: "elemTy (tyOf u1 x) = e" using tyOf_grows [OF gu1 x(1)] x(2) by simp
    show "wp (create (ExtractSliceOp x ((replicate (length szs) (Val (lowerBound l)))[k := Val (inductionVar l)])
      (sliceSizes szs dims k) (replicate (length szs) (Val (stepValue l)))) (TensorTy (map staticDim (sliceSizes szs dims k)) (elemTy (tyOf u1 x)))) (\<lambda>slice.
        wp (bindM (rewriteGatherScatterPtrElement (tyOf s p) szs strs offs k m (gatherOffsetElt l))
        (\<lambda>row. sliceOfPtr l (length szs) dims (sliceSizes szs dims k) row)) (\<lambda>dst.
        Q [ForS (inductionVar l) (lowerBound l) (upperBound l) [MaterializeS slice dst]])) u1"
      unfolding tyu
    proof (rule wp_tensorSlice [OF wf gu1 x n(3,4) d g l])
      fix slice t assume sl: "grows u1 t" "valid t slice" and sv: "\<And>i jdx. 0 \<le> i \<Longrightarrow> i < szs ! k \<Longrightarrow> length jdx = length szs \<Longrightarrow>
        jdx ! k = 0 \<Longrightarrow> eval (E(?iv := \<lambda>_. i)) t slice jdx = eval E s x (jdx[k := i])"
      show "wp (bindM (rewriteGatherScatterPtrElement (tyOf s p) szs strs offs k m (gatherOffsetElt l))
        (\<lambda>row. sliceOfPtr l (length szs) dims (sliceSizes szs dims k) row)) (\<lambda>dst.
        Q [ForS (inductionVar l) (lowerBound l) (upperBound l) [MaterializeS slice dst]]) t"
      proof (rule wp_slicePtr [OF wf p m d g g'(1,3) l sl(1)])
        fix dst y assume y: "grows t y" "valid y dst" and dst: "\<And>i. 0 \<le> i \<Longrightarrow> i < szs ! k \<Longrightarrow>
          msizes (desc (E(?iv := \<lambda>_. i)) y dst) = sliceBox E s szs dims k \<and> (\<forall>jdx. inB (sliceBox E s szs dims k) jdx \<longrightarrow>
            locOf (desc (E(?iv := \<lambda>_. i)) y dst) jdx = Addr (eval E s p (jdx[k := i])))"
        note u1y = grows_trans [OF sl(1) y(1)]
        have ev: "eval E y (lowerBound l) [] = 0" "eval E y (upperBound l) [] = loopBound E s (szs ! k) dims k"
          using eval_grows [OF u1y] lv lb by auto
        have src: "eval (E(?iv := \<lambda>_. i)) y slice jdx = eval E s x (jdx[k := i])"
          if "0 \<le> i" "i < szs ! k" "inB (sliceBox E s szs dims k) jdx" for i jdx
          using sv [OF that(1,2)] isSlice_at [OF sliceBox_isSlice [OF d n(3)] that(3,1,2)] eval_grows [OF y(1) sl(2)] by simp
        show "Q [ForS ?iv (lowerBound l) (upperBound l) [MaterializeS slice dst]] y"
          by (rule post [OF grows_trans [OF gu1 u1y]], rule scatter_writes [OF d n(3) lb0 ev]) (use dst src in auto)
      qed
    qed
  qed
qed

lemma wp_rewriteScatter:
  assumes wf: "wf_ir s" and p: "gatherPtr s p base g k szs strs offs e" and m: "baseMemref E s m base e"
    and d: "accessDims E s dims szs" and x: "valid s x" "tyOf s x = TensorTy szs e"
    and post: "\<And>st y. grows s y \<Longrightarrow> (\<And>M. exec E y st M =
      foldl (\<lambda>M idx. if dims = [] \<or> inMask E s dims idx then M(Addr (eval E s p idx) := eval E s x idx) else M) M (sliceOrder szs k)) \<Longrightarrow> Q st y"
  shows "wp (rewriteScatter (tyOf s p) g k szs strs offs m dims x) Q s"
proof -
  note p' = p [unfolded gatherPtr_def]
  have vg: "valid s g" using wf_operand_valid [OF wf, of p g] p' by auto
  obtain w where w: "w \<le> 64" "tyOf s g = TensorTy [szs ! k] (IntTy w)" using p' by blast
  have n: "0 \<le> szs ! k" "szs ! k < 2 ^ 31" "k < length szs" using p' by auto
  show ?thesis
    unfolding rewriteScatter_def wp_bindM
  proof (rule wp_indexOffsets [OF wf vg w(2,1) n(1,2)], goal_cases)
    case (1 g' t)
    show ?case
      unfolding prod.case wp_bindM
    proof (rule wp_hasWraparound [OF growsD(2) [OF 1(1)]], goal_cases)
      case (1 t1)
      note g1 = grows_trans [OF \<open>grows s t\<close> 1]
      have "wp (createGatherLoop g' (szs ! k) dims k) (\<lambda>l s1. wp (create (ExtractSliceOp x ((replicate (length szs) (Val (lowerBound l)))[k := Val (inductionVar l)])
        (sliceSizes szs dims k) (replicate (length szs) (Val (stepValue l)))) (TensorTy (map staticDim (sliceSizes szs dims k)) (elemTy (tyOf s1 x)))) (\<lambda>slice.
          wp (bindM (rewriteGatherScatterPtrElement (tyOf s p) szs strs offs k m (gatherOffsetElt l))
          (\<lambda>row. sliceOfPtr l (length szs) dims (sliceSizes szs dims k) row)) (\<lambda>dst.
          Q [ForS (inductionVar l) (lowerBound l) (upperBound l) [MaterializeS slice dst]])) s1) t1"
      proof (rule wp_scatterLoop [OF g1 wf p m d x])
        show "valid t1 g'" "tyOf t1 g' = TensorTy [szs ! k] IndexTy" "eval E t1 g' idx = eval E s g idx" for E idx
          using valid_grows [OF 1 \<open>valid t g'\<close>] tyOf_grows [OF 1 \<open>valid t g'\<close>] eval_grows [OF 1 \<open>valid t g'\<close>]
            \<open>tyOf t g' = TensorTy [szs ! k] IndexTy\<close> \<open>\<And>E idx. eval E t g' idx = eval E s g idx\<close> by auto
      qed (rule post)
      then show ?case using n(3) by (simp add: wp_simps)
    qed
  qed
qed

text \<open>\<open>StoreConverter\<close> on a scatter; \<open>y\<close> is the converted value to store.\<close>

lemma wp_convertScatter:
  assumes wf: "wf_ir s" and p: "gatherPtr s p base g k szs strs offs e" and m: "baseMemref E s (remapped cv base) base e"
    and v: "defOp s v = TTSStoreOp p x dims bc" and d: "accessDims E s dims szs"
    and x: "valid s (remapped cv x)" "tyOf s (remapped cv x) = TensorTy szs e" "eval E s (remapped cv x) = eval E s x"
    and post: "\<And>st y. grows s y \<Longrightarrow> (\<And>M. exec E y st M =
      foldl (\<lambda>M idx. case storeSem E s (defOp s v) idx of Some (a, z) \<Rightarrow> M(Addr a := z) | None \<Rightarrow> M) M (sliceOrder szs k)) \<Longrightarrow> Q st y"
  shows "wp (convertStore cv v) Q s"
proof -
  have "(\<lambda>M idx. if dims = [] \<or> inMask E s dims idx then M(Addr (eval E s p idx) := eval E s x idx) else M) =
      (\<lambda>M idx. case storeSem E s (defOp s v) idx of Some (a, z) \<Rightarrow> M(Addr a := z) | None \<Rightarrow> M)"
    by (intro ext) (simp add: storeSem_def v)
  then have "wp (rewriteScatter (tyOf s p) g k szs strs offs (remapped cv base) dims (remapped cv x)) Q s"
    by (intro wp_rewriteScatter [OF wf p m d x(1,2)] post) (simp_all only: x(3))
  then show ?thesis using p v by (simp add: convertStore_def gatherPtr_def wp_simps)
qed

end
