(* ===== verification/Claims_Gather.thy ===== *)
theory Claims_Gather
  imports Memref_Scatter Demo
begin

text \<open>The properties of the conversion of loads and stores at gathered offsets, with an instance of each.\<close>

section \<open>A gather of rows\<close>

text \<open>
  0 is a pointer and 1 the memref that the type converter makes of it.  3 are four rows of two
  elements, at the offsets that 2 gathers; 5 loads the first three rows, with 4 for the fourth, and
  6 stores them.
\<close>

definition gatherDemo :: ir where
  "gatherDemo = \<lparr>ops = [
     (BlockArg None, PtrTy (IntTy 32)),
     (BlockArg None, MemRefTy [kDynamic] (IntTy 32)),
     (BlockArg None, TensorTy [4] (IntTy 32)),
     (TTSMakeGatherScatterOp 0 2 0 [4, 2] [getIndexAttr 10, getIndexAttr 1] [getIndexAttr 0, getIndexAttr 3], PtrTy (TensorTy [4, 2] (IntTy 32))),
     (BlockArg None, IntTy 32),
     (TTSLoadOp 3 [getIndexAttr 3, getIndexAttr 2] (Some 4) [] None, TensorTy [4, 2] (IntTy 32)),
     (TTSStoreOp 3 5 [getIndexAttr 3, getIndexAttr 2] [], NoneTy)], fors = []\<rparr>"

definition gatherE :: env where
  "gatherE v idx = (if v < 2 then 4096 else 5)"

definition gatherCv :: conversion where
  "gatherCv = \<lparr>remapped = (\<lambda>v. if v = 0 then 1 else v), padNegInf = 2, padInf = 3\<rparr>"

lemma gatherDemo_wf: "wf_ir gatherDemo"
  by (simp add: wf_ir_enumerate gatherDemo_def getIndexAttr_def)

lemma gatherDemo_valid [simp]: "valid gatherDemo v \<longleftrightarrow> v < 7"
  by (simp add: valid_def gatherDemo_def) arith

lemma gatherDemo_ops [simp]:
  "defOp gatherDemo 0 = BlockArg None" "tyOf gatherDemo 0 = PtrTy (IntTy 32)"
  "defOp gatherDemo (Suc 0) = BlockArg None" "tyOf gatherDemo (Suc 0) = MemRefTy [kDynamic] (IntTy 32)"
  "tyOf gatherDemo 2 = TensorTy [4] (IntTy 32)"
  "defOp gatherDemo 3 = TTSMakeGatherScatterOp 0 2 0 [4, 2] [getIndexAttr 10, getIndexAttr 1] [getIndexAttr 0, getIndexAttr 3]"
  "tyOf gatherDemo 3 = PtrTy (TensorTy [4, 2] (IntTy 32))"
  "defOp gatherDemo 5 = TTSLoadOp 3 [getIndexAttr 3, getIndexAttr 2] (Some 4) [] None" "tyOf gatherDemo 5 = TensorTy [4, 2] (IntTy 32)"
  "defOp gatherDemo 6 = TTSStoreOp 3 5 [getIndexAttr 3, getIndexAttr 2] []"
  by (simp_all add: gatherDemo_def defOp_def tyOf_def entry_def)

lemma gatherDemo_base: "baseMemref gatherE gatherDemo (remapped gatherCv 0) 0 (IntTy 32)"
proof -
  have "eval gatherE gatherDemo 0 [] = 4096"
    using eval_unfold [OF gatherDemo_wf, of 0 gatherE] by (simp add: denOp_def norm_def gatherE_def wrap_id)
  moreover have "desc E gatherDemo 1 = pointerDesc E gatherDemo 1" for E
    using desc_unfold [OF gatherDemo_wf, of 1 E] by simp
  ultimately show ?thesis by (simp add: baseMemref_def gatherCv_def gatherE_def)
qed

lemma gatherDemo_ptr: "gatherPtr gatherDemo 3 0 2 0 [4, 2] [getIndexAttr 10, getIndexAttr 1] [getIndexAttr 0, getIndexAttr 3] (IntTy 32)"
  by (simp add: gatherPtr_def)

lemma gatherDemo_dims: "accessDims gatherE gatherDemo [getIndexAttr 3, getIndexAttr 2] [4, 2]"
  by (simp add: accessDims_def maskDims_def in64_def wrap_id)

section \<open>Properties\<close>

text \<open>C8: the conversion of a load at gathered offsets allocates a buffer, fills it with \<open>other\<close> when the
  mask leaves something out, and copies slice after slice: for every memory the tensor has the
  element at the address of the pointer at the places that the mask selects, and \<open>other\<close> at the
  masked ones; when there is no \<open>other\<close> the masked places keep what the new buffer had, where a
  comment in the code promises zeros.  The memory of the program is not changed.\<close>

theorem gather_conversion_correct:
  assumes "wf_ir s" and "gatherPtr s p base g k szs strs offs e" and "baseMemref E s (remapped cv base) base e"
    and "defOp s l = TTSLoadOp p dims other [] pad" and "tyOf s l = TensorTy szs e"
    and "accessDims E s dims szs" and "dims = [] \<longrightarrow> other = None" and "\<And>y. other = Some y \<Longrightarrow> valid s y"
  shows "\<exists>st r w b. convertLoad cv l s = (Inr (st, r), w) \<and> grows s w \<and> tyOf w r = tyOf s l \<and> defOp w r = ToTensorOp b \<and>
    (\<forall>M idx. inB szs idx \<longrightarrow> exec E w st M (locOf (desc E w b) idx) =
      loadSem (\<lambda>a. M (Addr a)) (\<lambda>idx. M (locOf (desc E w b) idx)) E s (defOp s l) idx) \<and>
    (\<forall>M a. exec E w st M (Addr a) = M (Addr a))"
proof -
  have "wp (convertLoad cv l) (\<lambda>(st, r) w. \<exists>b. grows s w \<and> tyOf w r = tyOf s l \<and> defOp w r = ToTensorOp b \<and>
    (\<forall>M idx. inB szs idx \<longrightarrow> exec E w st M (locOf (desc E w b) idx) =
      loadSem (\<lambda>a. M (Addr a)) (\<lambda>idx. M (locOf (desc E w b) idx)) E s (defOp s l) idx) \<and>
    (\<forall>M a. exec E w st M (Addr a) = M (Addr a))) s"
    by (rule wp_convertGather [OF assms(1-7)]) (use assms(5,8) in \<open>auto simp: readsAs_def\<close>)
  then show ?thesis by (auto simp: wp_def split: sum.splits)
qed

theorem gather_conversion_correct_witness:
  "\<exists>st r w b. convertLoad gatherCv 5 gatherDemo = (Inr (st, r), w) \<and> grows gatherDemo w \<and> tyOf w r = tyOf gatherDemo 5 \<and>
    defOp w r = ToTensorOp b \<and> (\<forall>M idx. inB [4, 2] idx \<longrightarrow> exec gatherE w st M (locOf (desc gatherE w b) idx) =
      loadSem (\<lambda>a. M (Addr a)) (\<lambda>idx. M (locOf (desc gatherE w b) idx)) gatherE gatherDemo (defOp gatherDemo 5) idx) \<and>
    (\<forall>M a. exec gatherE w st M (Addr a) = M (Addr a))"
  by (rule gather_conversion_correct [OF gatherDemo_wf gatherDemo_ptr gatherDemo_base _ _ gatherDemo_dims, where other = "Some 4"]) simp_all

text \<open>C9: the conversion of a store at gathered offsets writes what the store means: every element that
  the mask selects goes to the address of the pointer at its index, slice after slice along the
  gathered dimension and in row-major order within a slice, and nothing else is written.\<close>

theorem scatter_conversion_correct:
  assumes "wf_ir s" and "gatherPtr s p base g k szs strs offs e" and "baseMemref E s (remapped cv base) base e"
    and "defOp s l = TTSStoreOp p x dims bc" and "accessDims E s dims szs"
    and "valid s (remapped cv x)" and "tyOf s (remapped cv x) = TensorTy szs e" and "eval E s (remapped cv x) = eval E s x"
  shows "\<exists>st w. convertStore cv l s = (Inr st, w) \<and> grows s w \<and> (\<forall>M. exec E w st M =
    foldl (\<lambda>M idx. case storeSem E s (defOp s l) idx of Some (a, z) \<Rightarrow> M(Addr a := z) | None \<Rightarrow> M) M (sliceOrder szs k))"
proof -
  have "wp (convertStore cv l) (\<lambda>st w. grows s w \<and> (\<forall>M. exec E w st M =
    foldl (\<lambda>M idx. case storeSem E s (defOp s l) idx of Some (a, z) \<Rightarrow> M(Addr a := z) | None \<Rightarrow> M) M (sliceOrder szs k))) s"
    by (rule wp_convertScatter [OF assms]) auto
  then show ?thesis by (auto simp: wp_def split: sum.splits)
qed

theorem scatter_conversion_correct_witness:
  "\<exists>st w. convertStore gatherCv 6 gatherDemo = (Inr st, w) \<and> grows gatherDemo w \<and> (\<forall>M. exec gatherE w st M =
    foldl (\<lambda>M idx. case storeSem gatherE gatherDemo (defOp gatherDemo 6) idx of Some (a, z) \<Rightarrow> M(Addr a := z) | None \<Rightarrow> M) M (sliceOrder [4, 2] 0))"
  by (rule scatter_conversion_correct [OF gatherDemo_wf gatherDemo_ptr gatherDemo_base _ gatherDemo_dims, where x = 5])
    (simp_all add: gatherCv_def)

section \<open>A limit of the conversion\<close>

text \<open>
  The offsets of a gather are never found to wrap around: the divisor they are compared with is a
  constant that the comparison itself creates.
\<close>

theorem gather_wraparound_never_found:
  assumes "wf_ir s"
  shows "\<exists>t. hasWraparoundGatherOffset g gatherDim szs s = (Inr False, t) \<and> ext s t"
  using hasWraparound_never [OF assms] by (meson growsD)

end
