(* ===== verification/Gather_Memref.thy ===== *)
theory Gather_Memref
  imports Unstructured_Main Memref_Ptr
begin

text \<open>
  \<open>lib/Conversion/UnstructuredToMemref/UnstructuredToMemrefPass.cpp\<close>: \<open>tts.gather\<close> and \<open>tts.scatter\<close> become
  accesses of a memref, for tensors inside the region of a \<open>linalg.generic\<close>.
\<close>

section \<open>Regions\<close>

text \<open>
  A value of a region is an argument of its block, the result of an operation before it, by its
  position (an operation inside a branch sees those before the branch), or a value from outside.
\<close>

datatype rvalue = RArg nat | RRes nat | ROut val

datatype rop =
    RIndexCast rvalue
  | RConstant attr
  | RExtract val rvalue \<comment> \<open>\<open>tensor.extract\<close> of a tensor of rank one\<close>
  | RStore rvalue val rvalue \<comment> \<open>\<open>memref.store\<close>: value, memref of rank one, index\<close>
  | RAffineLoad val \<comment> \<open>\<open>affine.load\<close> at the constant map 0\<close>
  | RAffineStore rvalue val \<comment> \<open>\<open>affine.store\<close> at the constant map 0\<close>
  | RIf rvalue "rop list" "rvalue option" "rop list" "rvalue option"
      \<comment> \<open>\<open>scf.if\<close>: condition, and for each branch its operations and what it yields\<close>

text \<open>What stands for the access: operations in its place, or a generic operation over a shape.\<close>

datatype lowered =
    InPlace "rop list" "rvalue option"
  | Generic "int list" "val list" "rop list" "rvalue option" \<comment> \<open>iteration space, inputs, region\<close>

section \<open>The patterns\<close>

fun isIntOrIndexOrFloat :: "ty \<Rightarrow> bool" where
  "isIntOrIndexOrFloat (IntTy _) = True"
| "isIntOrIndexOrFloat IndexTy = True"
| "isIntOrIndexOrFloat (FloatTy _) = True"
| "isIntOrIndexOrFloat _ = False"

text \<open>\<open>getZeroAttr\<close> has no value for other element types, where the code asserts.\<close>

definition getZeroAttr :: "ty \<Rightarrow> attr option" where
  "getZeroAttr e = (case e of
     IntTy w \<Rightarrow> Some (IntegerAttr 0 e) | IndexTy \<Rightarrow> Some (IntegerAttr 0 e) | FloatTy w \<Rightarrow> Some (FloatAttr FloatZero) | _ \<Rightarrow> None)"

definition scalarMemref :: "conversion \<Rightarrow> val \<Rightarrow> val \<Rightarrow> val irm" where
  "scalarMemref cv p off =
     bindM (create (CastOp IndexCast off) IndexTy) (\<lambda>i.
     bindM (getM (\<lambda>s. tyOf s p)) (\<lambda>pt. bindM (castM (case pt of PtrTy e \<Rightarrow> Some e | _ \<Rightarrow> None)) (\<lambda>e.
     bindM (getM (\<lambda>s. getAsOpFoldResult s i)) (\<lambda>o'.
     create (ReinterpretCastOp (remapped cv p) o' [getIndexAttr 1] [getIndexAttr 1] None [Some 1]) (MemRefTy [1] e)))))"

definition convertScalarLoad :: "conversion \<Rightarrow> val \<Rightarrow> lowered irm" where
  "convertScalarLoad cv v =
     bindM (getM (\<lambda>s. (defOp s v, tyOf s v))) (\<lambda>(d, t). case d of
       GatherOp p off msk other \<Rightarrow>
         thenM (requireM (isIntOrIndexOrFloat t))
         (bindM (scalarMemref cv p off) (\<lambda>memref.
          case msk of
            Some m \<Rightarrow>
              bindM (case other of Some y \<Rightarrow> ret y
                | None \<Rightarrow> bindM (castM (getZeroAttr t)) (\<lambda>z. create (ConstantOp z) t)) (\<lambda>elseValue.
              ret (InPlace [RIf (ROut m) [RAffineLoad memref] (Some (RRes 0)) [] (Some (ROut elseValue))] (Some (RRes 0))))
          | None \<Rightarrow> ret (InPlace [RAffineLoad memref] (Some (RRes 0)))))
     | _ \<Rightarrow> raise Failure)"

definition convertScalarStore :: "conversion \<Rightarrow> val \<Rightarrow> lowered irm" where
  "convertScalarStore cv v =
     bindM (getM (\<lambda>s. defOp s v)) (\<lambda>d. case d of
       ScatterOp p off x msk \<Rightarrow>
         bindM (getM (\<lambda>s. tyOf s x)) (\<lambda>t.
         thenM (requireM (isIntOrIndexOrFloat t))
         (bindM (scalarMemref cv p off) (\<lambda>memref.
          ret (case msk of
            Some m \<Rightarrow> InPlace [RIf (ROut m) [RAffineStore (ROut x) memref] None [] None] None
          | None \<Rightarrow> InPlace [RAffineStore (ROut x) memref] None))))
     | _ \<Rightarrow> raise Failure)"

text \<open>
  The region of a gather: the offset is its first argument, the mask its second.  \<open>k\<close> is the number of
  operations before, so that the index is the result with that position.
\<close>

definition valueAtIndex :: "val \<Rightarrow> nat \<Rightarrow> rop list" where
  "valueAtIndex baseTensor k = [RIndexCast (RArg 0), RExtract baseTensor (RRes k)]"

definition convertGather :: "conversion \<Rightarrow> val \<Rightarrow> lowered irm" where
  "convertGather cv v =
     bindM (getM (\<lambda>s. (defOp s v, tyOf s v))) (\<lambda>(d, t). case d of
       GatherOp p off msk other \<Rightarrow>
         bindM (getM (\<lambda>s. isShaped (tyOf s off))) (\<lambda>shaped.
         thenM (requireM shaped)
         (thenM (assertM (isTensor t))
         (bindM (create (MemCastOp (remapped cv p)) (MemRefTy [kDynamic] (elemTy t))) (\<lambda>baseMemref.
          bindM (create (ToTensorOp baseMemref) (TensorTy [kDynamic] (elemTy t))) (\<lambda>baseTensor.
          case msk of
            None \<Rightarrow> ret (Generic (shapeOf t) [off] (valueAtIndex baseTensor 0) (Some (RRes 1)))
          | Some m \<Rightarrow>
              bindM (case other of Some y \<Rightarrow> ret ([], ROut y)
                | None \<Rightarrow> bindM (castM (getZeroAttr (elemTy t))) (\<lambda>z. ret ([RConstant z], RRes 0))) (\<lambda>(elseOps, elseValue).
              ret (Generic (shapeOf t) [off, m]
                [RIf (RArg 1) (valueAtIndex baseTensor 0) (Some (RRes 1)) elseOps (Some elseValue)] (Some (RRes 0))))))))
           )
     | _ \<Rightarrow> raise Failure)"

definition convertScatter :: "conversion \<Rightarrow> val \<Rightarrow> lowered irm" where
  "convertScatter cv v =
     bindM (getM (\<lambda>s. defOp s v)) (\<lambda>d. case d of
       ScatterOp p off x msk \<Rightarrow>
         bindM (getM (\<lambda>s. (isShaped (tyOf s off), tyOf s x))) (\<lambda>(shaped, t).
         thenM (requireM shaped)
         (thenM (assertM (isTensor t))
         (bindM (create (MemCastOp (remapped cv p)) (MemRefTy [kDynamic] (elemTy t))) (\<lambda>baseMemref.
          let storeValueAtIndex = [RIndexCast (RArg 0), RStore (RArg 1) baseMemref (RRes 0)] in
          ret (case msk of
            None \<Rightarrow> Generic (shapeOf t) [off, x] storeValueAtIndex None
          | Some m \<Rightarrow> Generic (shapeOf t) [off, x, m] [RIf (RArg 2) storeValueAtIndex None [] None] None)))))
     | _ \<Rightarrow> raise Failure)"

text \<open>The patterns of the pass, in the order in which they are added; one that does not match leaves the operation to the next.\<close>

fun firstMatch :: "('s, 'a) run list \<Rightarrow> ('s, 'a) run" where
  "firstMatch [] = raise Failure"
| "firstMatch (m # ms) = bindM (attemptM m) (\<lambda>r. case r of Some x \<Rightarrow> ret x | None \<Rightarrow> firstMatch ms)"

definition unstructuredToMemref :: "conversion \<Rightarrow> val \<Rightarrow> lowered irm" where
  "unstructuredToMemref cv v = firstMatch [convertGather cv v, convertScatter cv v, convertScalarLoad cv v, convertScalarStore cv v]"

section \<open>Meaning\<close>

fun rvalueSem :: "env \<Rightarrow> ir \<Rightarrow> int list \<Rightarrow> int list \<Rightarrow> rvalue \<Rightarrow> int" where
  "rvalueSem E s xs res (RArg i) = xs ! i"
| "rvalueSem E s xs res (RRes i) = res ! i"
| "rvalueSem E s xs res (ROut v) = eval E s v []"

text \<open>
  A run of the operations on a memory, with the results so far; a store has a result that is not
  used.  The constant of a floating-point type is 0.
\<close>

function runOps :: "env \<Rightarrow> ir \<Rightarrow> int list \<Rightarrow> rop list \<Rightarrow> int list \<Rightarrow> memory \<Rightarrow> int list \<times> memory" where
  "runOps E s xs [] res M = (res, M)"
| "runOps E s xs (RIndexCast x # rest) res M = runOps E s xs rest (res @ [wrap 64 (rvalueSem E s xs res x)]) M"
| "runOps E s xs (RConstant a # rest) res M = runOps E s xs rest (res @ [case a of IntegerAttr n _ \<Rightarrow> n | _ \<Rightarrow> 0]) M"
| "runOps E s xs (RExtract t x # rest) res M =
     runOps E s xs rest (res @ [case defOp s t of ToTensorOp b \<Rightarrow> M (locOf (desc E s b) [rvalueSem E s xs res x]) | _ \<Rightarrow> eval E s t [rvalueSem E s xs res x]]) M"
| "runOps E s xs (RStore y b x # rest) res M =
     runOps E s xs rest (res @ [0]) (M(locOf (desc E s b) [rvalueSem E s xs res x] := rvalueSem E s xs res y))"
| "runOps E s xs (RAffineLoad b # rest) res M = runOps E s xs rest (res @ [M (locOf (desc E s b) [0])]) M"
| "runOps E s xs (RAffineStore y b # rest) res M =
     runOps E s xs rest (res @ [0]) (M(locOf (desc E s b) [0] := rvalueSem E s xs res y))"
| "runOps E s xs (RIf c a ya b yb # rest) res M =
     (let branch = if rvalueSem E s xs res c \<noteq> 0 then a else b; y = if rvalueSem E s xs res c \<noteq> 0 then ya else yb;
          (res', M') = runOps E s xs branch res M
      in runOps E s xs rest (res @ [case y of Some x \<Rightarrow> rvalueSem E s xs res' x | None \<Rightarrow> 0]) M')"
  by pat_completeness auto

termination runOps
  by (relation "measure (\<lambda>(E, s, xs, prog, res, M). size_list size prog)") auto

text \<open>
  The element of the result at an index, and the memory afterwards.  The iterations of a generic
  operation are parallel: \<open>steps\<close> is one order of its indices.
\<close>

definition loweredAt :: "env \<Rightarrow> ir \<Rightarrow> lowered \<Rightarrow> int list \<Rightarrow> memory \<Rightarrow> int" where
  "loweredAt E s low idx M = (case low of
     InPlace prog y \<Rightarrow> (case y of Some x \<Rightarrow> rvalueSem E s [] (fst (runOps E s [] prog [] M)) x | None \<Rightarrow> 0)
   | Generic sh ins prog y \<Rightarrow>
       (let xs = map (\<lambda>v. eval E s v idx) ins
        in case y of Some x \<Rightarrow> rvalueSem E s xs (fst (runOps E s xs prog [] M)) x | None \<Rightarrow> 0))"

definition loweredRun :: "env \<Rightarrow> ir \<Rightarrow> lowered \<Rightarrow> int list list \<Rightarrow> memory \<Rightarrow> memory" where
  "loweredRun E s low steps M = (case low of
     InPlace prog y \<Rightarrow> snd (runOps E s [] prog [] M)
   | Generic sh ins prog y \<Rightarrow> foldl (\<lambda>M idx. snd (runOps E s (map (\<lambda>v. eval E s v idx) ins) prog [] M)) M steps)"

section \<open>The accesses\<close>

text \<open>The types of an access of type \<open>t\<close> with elements of type \<open>e\<close>: a scalar or a tensor.\<close>

definition accessTyped :: "ir \<Rightarrow> val \<Rightarrow> val \<Rightarrow> ty \<Rightarrow> ty \<Rightarrow> bool" where
  "accessTyped s p off t e \<longleftrightarrow> tyOf s p = PtrTy e \<and> (isIntTy e \<or> (\<exists>w. e = FloatTy w)) \<and> valid s off \<and>
     (\<exists>w \<le> 64. t = e \<and> tyOf s off = IntTy w \<or> (\<exists>sh. t = TensorTy sh e \<and> tyOf s off = TensorTy sh (IntTy w)))"

definition flatBase :: "env \<Rightarrow> ir \<Rightarrow> val \<Rightarrow> val \<Rightarrow> ty \<Rightarrow> bool" where
  "flatBase E s m p e \<longleftrightarrow> baseMemref E s m p e \<and> tyOf s m = MemRefTy [kDynamic] e"

lemma flat_desc: "flatBase E s m p e \<Longrightarrow> desc E s m = \<lparr>place = (\<lambda>k. Addr (wrap 64 (eval E s p [] + byteSize e * k))), moffset = 0, msizes = [kDynamic], mstrides = [1]\<rparr>"
  by (simp add: flatBase_def baseMemref_def pointerDesc_def)

lemma flat_element: "flatBase E s m p e \<Longrightarrow> tyOf s p = PtrTy e \<Longrightarrow> \<not> isShaped e \<Longrightarrow>
    locOf (desc E s m) [eval E s off idx] = Addr (elementAddr E s p off idx)"
  by (cases e) (simp_all add: flat_desc locOf_def elementAddr_def)

lemma offset_fits: "wf_ir s \<Longrightarrow> accessTyped s p off t e \<Longrightarrow> wrap 64 (eval E s off idx) = eval E s off idx"
  using eval_norm [of s off E idx] wrap_widen [of _ 64 "eval E s off idx"]
  by (auto simp: accessTyped_def norm_def) (metis wrap_widen)+

lemma not_shaped: "accessTyped s p off t e \<Longrightarrow> \<not> isShaped e"
  by (cases e) (auto simp: accessTyped_def)

lemma zeroAttr: "isIntTy e \<or> (\<exists>w. e = FloatTy w) \<Longrightarrow> \<exists>a. getZeroAttr e = Some a \<and> constTyped (ConstantOp a) e \<and>
    (case a of IntegerAttr n _ \<Rightarrow> n | _ \<Rightarrow> 0) = (0 :: int) \<and> (isIntTy e \<longrightarrow> a = IntegerAttr 0 e)"
  by (cases e) (auto simp: getZeroAttr_def norm_def)

text \<open>The view of a scalar access.\<close>

lemma wp_scalarMemref:
  assumes wf: "wf_ir s" and a: "accessTyped s p off e e" and b: "flatBase E s (remapped cv p) p e"
    and post: "\<And>m t. grows s t \<Longrightarrow> valid t m \<Longrightarrow> locOf (desc E t m) [0] = Addr (elementAddr E s p off []) \<Longrightarrow> Q m t"
  shows "wp (scalarMemref cv p off) Q s"
proof -
  have v: "valid s off" "tyOf s p = PtrTy e" "valid s (remapped cv p)"
    using a b by (auto simp: accessTyped_def flatBase_def baseMemref_def)
  obtain w where w: "w \<le> 64" "tyOf s off = IntTy w" using a by (cases e) (auto simp: accessTyped_def)
  have "valid s p" using v(2) by (auto simp: valid_def tyOf_def entry_def split: if_splits)
  note p = this
  show ?thesis
    unfolding scalarMemref_def wp_bindM
  proof (rule wp_create [OF wf])
    show "\<forall>a \<in> operands (CastOp IndexCast off). valid s a" using v by simp
    fix i t assume i: "grows s t" "valid t i" "defOp t i = CastOp IndexCast off" "tyOf t i = IndexTy"
      "\<And>E idx. eval E t i idx = norm IndexTy (denOp E (tyOf s) (eval E s) i (CastOp IndexCast off) IndexTy idx)"
    have ei: "eval E t i [] = eval E s off []" using i(5) w offset_fits [OF wf a] by (simp add: denOp_def norm_def)
    let ?op = "ReinterpretCastOp (remapped cv p) (Val i) [getIndexAttr 1] [getIndexAttr 1] None [Some 1]"
    have "wp (create ?op (MemRefTy [1] e)) Q t"
    proof (rule wp_create [OF growsD(2) [OF i(1)]])
      show "\<forall>a \<in> operands ?op. valid t a" using i(2) valid_grows [OF i(1) v(3)] by (simp add: getIndexAttr_def)
      fix m u assume m: "grows t u" "valid u m" "defOp u m = ?op"
      note g = grows_trans [OF i(1) m(1)]
      have "osem E u (Val i) = eval E s off []" using eval_grows [OF m(1) i(2)] ei by (simp add: osem_def ofrSem_def)
      then have "desc E u m = (desc E s (remapped cv p))\<lparr>moffset := eval E s off [], msizes := [1], mstrides := [1]\<rparr>"
        using desc_unfold [OF growsD(2) [OF m(1)] m(2), of E] m(3) desc_grows [OF g wf v(3)] by simp
      then have "locOf (desc E u m) [0] = locOf (desc E s (remapped cv p)) [eval E s off []]"
        by (simp add: flat_desc [OF b] locOf_def)
      then have "locOf (desc E u m) [0] = Addr (elementAddr E s p off [])"
        using flat_element [OF b v(2) not_shaped [OF a]] by simp
      then show "Q m u" by (rule post [OF g m(2)])
    qed simp
    moreover have "tyOf t p = PtrTy e" using tyOf_grows [OF i(1) p] v(2) by simp
    ultimately show "wp (getM (\<lambda>s. tyOf s p)) (\<lambda>pt. wp (castM (case pt of PtrTy e \<Rightarrow> Some e | _ \<Rightarrow> None)) (\<lambda>e.
        wp (getM (\<lambda>s. getAsOpFoldResult s i)) (\<lambda>o'. wp (create (ReinterpretCastOp (remapped cv p) o' [getIndexAttr 1] [getIndexAttr 1] None [Some 1])
          (MemRefTy [1] e)) Q))) t"
      using i(3) by (simp add: wp_simps getAsOpFoldResult_def)
  qed simp
qed

text \<open>What a lowered access does, for every memory and every order of the iterations.\<close>

definition loadsAs :: "env \<Rightarrow> ir \<Rightarrow> lowered \<Rightarrow> int list \<Rightarrow> (memory \<Rightarrow> int list \<Rightarrow> int) \<Rightarrow> bool" where
  "loadsAs E t low sh f \<longleftrightarrow> (\<forall>M idx. inB sh idx \<longrightarrow> loweredAt E t low idx M = f M idx) \<and> (\<forall>M steps. loweredRun E t low steps M = M)"

definition scattersAs :: "env \<Rightarrow> ir \<Rightarrow> lowered \<Rightarrow> int list \<Rightarrow> (int list \<Rightarrow> (int \<times> int) option) \<Rightarrow> bool" where
  "scattersAs E t low sh f \<longleftrightarrow> (\<forall>M steps. distinct steps \<longrightarrow> set steps = {idx. inB sh idx} \<longrightarrow>
     loweredRun E t low steps M = foldl (\<lambda>M idx. case f idx of Some (a, x) \<Rightarrow> M(Addr a := x) | None \<Rightarrow> M) M steps)"

lemma wp_firstMatch: "wp m Q s \<Longrightarrow> wp (firstMatch (m # ms)) Q s"
  using wp_attemptM [of m "\<lambda>r. wp (case r of Some x \<Rightarrow> ret x | None \<Rightarrow> firstMatch ms) Q" s] by (simp add: wp_simps)

lemma wp_nextMatch: "m s = (Inl Failure, s) \<Longrightarrow> wp (firstMatch ms) Q s \<Longrightarrow> wp (firstMatch (m # ms)) Q s"
  by (simp add: wp_simps) (simp add: wp_def attemptM_def)

lemma inB_scalar: "inB [] idx \<longleftrightarrow> idx = []"
  by (simp add: inB_def)

lemma wp_convertScalarLoad:
  assumes wf: "wf_ir s" and v: "defOp s v = GatherOp p off msk other" "tyOf s v = e"
    and a: "accessTyped s p off e e" and b: "flatBase E s (remapped cv p) p e" and y: "\<And>y. other = Some y \<Longrightarrow> valid s y"
      "\<And>m. msk = Some m \<Longrightarrow> valid s m"
    and post: "\<And>low t c. grows s t \<Longrightarrow> (isIntTy e \<Longrightarrow> c = 0) \<Longrightarrow>
      loadsAs E t low [] (\<lambda>M. gatherSem (\<lambda>a. M (Addr a)) (\<lambda>_. c) E s (defOp s v)) \<Longrightarrow> Q low t"
  shows "wp (convertScalarLoad cv v) Q s"
proof -
  have e: "isIntTy e \<or> (\<exists>w. e = FloatTy w)" "isIntOrIndexOrFloat e" using a by (cases e; auto simp: accessTyped_def)+
  have "wp (scalarMemref cv p off) (\<lambda>m. wp (case msk of
      Some k \<Rightarrow> bindM (case other of Some y \<Rightarrow> ret y | None \<Rightarrow> bindM (castM (getZeroAttr e)) (\<lambda>z. create (ConstantOp z) e)) (\<lambda>x.
        ret (InPlace [RIf (ROut k) [RAffineLoad m] (Some (RRes 0)) [] (Some (ROut x))] (Some (RRes 0))))
    | None \<Rightarrow> ret (InPlace [RAffineLoad m] (Some (RRes 0)))) Q) s"
  proof (rule wp_scalarMemref [OF wf a b])
    fix m t assume t: "grows s t" "valid t m" and m: "locOf (desc E t m) [0] = Addr (elementAddr E s p off [])"
    show "wp (case msk of
        Some k \<Rightarrow> bindM (case other of Some y \<Rightarrow> ret y | None \<Rightarrow> bindM (castM (getZeroAttr e)) (\<lambda>z. create (ConstantOp z) e)) (\<lambda>x.
          ret (InPlace [RIf (ROut k) [RAffineLoad m] (Some (RRes 0)) [] (Some (ROut x))] (Some (RRes 0))))
      | None \<Rightarrow> ret (InPlace [RAffineLoad m] (Some (RRes 0)))) Q t"
    proof (cases msk)
      case None
      have "Q (InPlace [RAffineLoad m] (Some (RRes 0))) t"
        by (rule post [OF t(1), of 0]) (simp_all add: loadsAs_def loweredAt_def loweredRun_def gatherSem_def v None activeAt_def m inB_scalar)
      then show ?thesis by (simp add: None wp_simps)
    next
      case (Some k)
      have fin: "Q (InPlace [RIf (ROut k) [RAffineLoad m] (Some (RRes 0)) [] (Some (ROut x))] (Some (RRes 0))) u"
        if u: "grows t u" and x: "\<And>y. other = Some y \<Longrightarrow> eval E u x [] = eval E s y []" "other = None \<Longrightarrow> isIntTy e \<Longrightarrow> eval E u x [] = 0" for x u
      proof (rule post [OF grows_trans [OF t(1) u], of "if other = None then eval E u x [] else 0"])
        have "locOf (desc E u m) [0] = Addr (elementAddr E s p off [])" using desc_grows [OF u growsD(2) [OF t(1)] t(2)] m by simp
        moreover have "eval E u k [] = eval E s k []" using eval_grows [OF grows_trans [OF t(1) u] y(2) [OF Some]] by simp
        ultimately show "loadsAs E u (InPlace [RIf (ROut k) [RAffineLoad m] (Some (RRes 0)) [] (Some (ROut x))] (Some (RRes 0))) []
            (\<lambda>M. gatherSem (\<lambda>a. M (Addr a)) (\<lambda>_. if other = None then eval E u x [] else 0) E s (defOp s v))"
          using x(1) by (cases other) (simp_all add: loadsAs_def loweredAt_def loweredRun_def gatherSem_def v Some activeAt_def inB_scalar Let_def)
      qed (use x in simp)
      show ?thesis
      proof (cases other)
        case None
        obtain z where z: "getZeroAttr e = Some z" "constTyped (ConstantOp z) e" "isIntTy e \<Longrightarrow> z = IntegerAttr 0 e" using zeroAttr [OF e(1)] by blast
        have "wp (create (ConstantOp z) e) (\<lambda>x. Q (InPlace [RIf (ROut k) [RAffineLoad m] (Some (RRes 0)) [] (Some (ROut x))] (Some (RRes 0)))) t"
        proof (rule wp_create [OF growsD(2) [OF t(1)]])
          fix x u assume "grows t u" "\<And>E idx. eval E u x idx = norm e (denOp E (tyOf t) (eval E t) x (ConstantOp z) e idx)"
          then show "Q (InPlace [RIf (ROut k) [RAffineLoad m] (Some (RRes 0)) [] (Some (ROut x))] (Some (RRes 0))) u"
            using None z(3) by (intro fin) (cases e; auto simp: denOp_def norm_def)+
        qed (use z in auto)
        then show ?thesis by (simp add: Some None z wp_simps)
      next
        case (Some y')
        then show ?thesis using fin [OF grows_refl [OF growsD(2) [OF t(1)]], of y'] \<open>msk = Some k\<close> eval_grows [OF t(1) y(1)]
          by (simp add: wp_simps)
      qed
    qed
  qed
  then show ?thesis using v e by (cases msk; cases other) (simp_all add: convertScalarLoad_def wp_simps)
qed

lemma wp_convertScalarStore:
  assumes wf: "wf_ir s" and v: "defOp s v = ScatterOp p off x msk" and x: "valid s x" "tyOf s x = e"
    and a: "accessTyped s p off e e" and b: "flatBase E s (remapped cv p) p e" and k: "\<And>m. msk = Some m \<Longrightarrow> valid s m"
    and post: "\<And>low t. grows s t \<Longrightarrow> scattersAs E t low [] (scatterSem E s (defOp s v)) \<Longrightarrow> Q low t"
  shows "wp (convertScalarStore cv v) Q s"
proof -
  have e: "isIntOrIndexOrFloat e" using a by (cases e) (auto simp: accessTyped_def)
  have one: "steps = [[]]" if "distinct steps" "set steps = {idx. inB [] idx}" for steps
    using that by (cases steps; cases "tl steps") (auto simp: inB_scalar)
  have "wp (scalarMemref cv p off) (\<lambda>m t. Q (case msk of Some k \<Rightarrow> InPlace [RIf (ROut k) [RAffineStore (ROut x) m] None [] None] None
      | None \<Rightarrow> InPlace [RAffineStore (ROut x) m] None) t) s"
  proof (rule wp_scalarMemref [OF wf a b], rule post)
    fix m t assume t: "grows s t" and m: "locOf (desc E t m) [0] = Addr (elementAddr E s p off [])"
    show "grows s t" by fact
    have ev: "eval E t x [] = eval E s x []" "\<And>k. msk = Some k \<Longrightarrow> eval E t k [] = eval E s k []"
      using eval_grows [OF t] x(1) k by auto
    show "scattersAs E t (case msk of Some k \<Rightarrow> InPlace [RIf (ROut k) [RAffineStore (ROut x) m] None [] None] None
        | None \<Rightarrow> InPlace [RAffineStore (ROut x) m] None) [] (scatterSem E s (defOp s v))"
      unfolding scattersAs_def
    proof (intro allI impI)
      fix M and steps :: "int list list" assume "distinct steps" "set steps = {idx. inB [] idx}"
      then have "steps = [[]]" by (rule one)
      then show "loweredRun E t (case msk of Some k \<Rightarrow> InPlace [RIf (ROut k) [RAffineStore (ROut x) m] None [] None] None
          | None \<Rightarrow> InPlace [RAffineStore (ROut x) m] None) steps M
        = foldl (\<lambda>M idx. case scatterSem E s (defOp s v) idx of Some (a, x) \<Rightarrow> M(Addr a := x) | None \<Rightarrow> M) M steps"
        using ev m by (cases msk) (simp_all add: loweredRun_def scatterSem_def v activeAt_def Let_def)
    qed
  qed
  then show ?thesis using v x e by (cases msk) (simp_all add: convertScalarStore_def wp_simps)
qed

text \<open>The base of a tensor access as a memref of rank one.\<close>

lemma wp_flatCast:
  assumes wf: "wf_ir s" and b: "flatBase E s m p e"
    and post: "\<And>c t. grows s t \<Longrightarrow> valid t c \<Longrightarrow> desc E t c = desc E s m \<Longrightarrow> Q c t"
  shows "wp (create (MemCastOp m) (MemRefTy [kDynamic] e)) Q s"
proof (rule wp_create [OF wf])
  have v: "valid s m" using b by (simp add: flatBase_def baseMemref_def)
  then show "\<forall>a \<in> operands (MemCastOp m). valid s a" by simp
  fix c t assume c: "grows s t" "valid t c" "defOp t c = MemCastOp m"
  then show "Q c t"
    using desc_unfold [OF growsD(2) [OF c(1)] c(2), of E] desc_grows [OF c(1) wf v] by (intro post) simp_all
qed simp

lemma runOps_valueAtIndex:
  assumes "defOp t r = ToTensorOp c" "wrap 64 (xs ! 0) = xs ! 0"
  shows "runOps E t xs (valueAtIndex r 0) [] M = ([xs ! 0, M (locOf (desc E t c) [xs ! 0])], M)"
  using assms by (simp add: valueAtIndex_def)

lemma wp_convertGatherTensor:
  assumes wf: "wf_ir s" and v: "defOp s v = GatherOp p off msk other" "tyOf s v = TensorTy sh e"
    and a: "accessTyped s p off (TensorTy sh e) e" and b: "flatBase E s (remapped cv p) p e" and y: "\<And>y. other = Some y \<Longrightarrow> valid s y"
      "\<And>m. msk = Some m \<Longrightarrow> valid s m"
    and post: "\<And>low t c. grows s t \<Longrightarrow> (isIntTy e \<Longrightarrow> c = 0) \<Longrightarrow>
      loadsAs E t low sh (\<lambda>M. gatherSem (\<lambda>a. M (Addr a)) (\<lambda>_. c) E s (defOp s v)) \<Longrightarrow> Q low t"
  shows "wp (convertGather cv v) Q s"
proof -
  have ty: "tyOf s p = PtrTy e" "isShaped (tyOf s off)" "valid s off" "isIntTy e \<or> (\<exists>w. e = FloatTy w)"
    using a by (auto simp: accessTyped_def)
  note el = flat_element [OF b ty(1) not_shaped [OF a], of off] and fits = offset_fits [OF wf a]
  let ?low = "\<lambda>r. case msk of None \<Rightarrow> ret (Generic sh [off] (valueAtIndex r 0) (Some (RRes 1)))
    | Some m \<Rightarrow> bindM (case other of Some y \<Rightarrow> ret ([], ROut y)
        | None \<Rightarrow> bindM (castM (getZeroAttr e)) (\<lambda>z. ret ([RConstant z], RRes 0))) (\<lambda>(elseOps, elseValue).
      ret (Generic sh [off, m] [RIf (RArg 1) (valueAtIndex r 0) (Some (RRes 1)) elseOps (Some elseValue)] (Some (RRes 0))))"
  have "wp (create (MemCastOp (remapped cv p)) (MemRefTy [kDynamic] e)) (\<lambda>c. wp (create (ToTensorOp c) (TensorTy [kDynamic] e)) (\<lambda>r. wp (?low r) Q)) s"
  proof (rule wp_flatCast [OF wf b])
    fix c t assume t: "grows s t" "valid t c" "desc E t c = desc E s (remapped cv p)"
    show "wp (create (ToTensorOp c) (TensorTy [kDynamic] e)) (\<lambda>r. wp (?low r) Q) t"
    proof (rule wp_create [OF growsD(2) [OF t(1)]])
      show "\<forall>a \<in> operands (ToTensorOp c). valid t a" using t(2) by simp
      fix r u assume r: "grows t u" "valid u r" "defOp u r = ToTensorOp c"
      note g = grows_trans [OF t(1) r(1)]
      have d: "locOf (desc E u c) [eval E s off idx] = Addr (elementAddr E s p off idx)" for idx
        using desc_grows [OF r(1) growsD(2) [OF t(1)] t(2)] t(3) el by simp
      have ev: "eval E u off = eval E s off" "\<And>m. msk = Some m \<Longrightarrow> eval E u m = eval E s m" "\<And>y. other = Some y \<Longrightarrow> eval E u y = eval E s y"
        using eval_grows [OF g ty(3)] eval_grows [OF g y(2)] eval_grows [OF g y(1)] by blast+
      show "wp (?low r) Q u"
      proof (cases msk)
        case None
        have "Q (Generic sh [off] (valueAtIndex r 0) (Some (RRes 1))) u"
          by (rule post [OF g, of 0])
            (simp_all add: loadsAs_def loweredAt_def loweredRun_def runOps_valueAtIndex [OF r(3)] fits ev d gatherSem_def v activeAt_def None foldl_id)
        then show ?thesis by (simp add: None wp_simps)
      next
        case (Some m)
        have fin: "Q (Generic sh [off, m] [RIf (RArg 1) (valueAtIndex r 0) (Some (RRes 1)) ops' (Some val)] (Some (RRes 0))) u"
          if o: "\<And>xs M. runOps E u xs ops' [] M = (zs, M)" and c: "isIntTy e \<Longrightarrow> c = 0"
            "\<And>xs. rvalueSem E u xs zs val = (case other of None \<Rightarrow> c | Some y \<Rightarrow> eval E s y [])" for ops' val zs c
          by (rule post [OF g, of c])
            (simp_all add: c loadsAs_def loweredAt_def loweredRun_def runOps_valueAtIndex [OF r(3)] o fits ev(1,2) Some d gatherSem_def v activeAt_def Let_def foldl_id)
        show ?thesis
        proof (cases other)
          case None
          obtain z where z: "getZeroAttr e = Some z" "(case z of IntegerAttr n _ \<Rightarrow> n | _ \<Rightarrow> 0) = (0 :: int)" using zeroAttr [OF ty(4)] by blast
          show ?thesis using fin [of "[RConstant z]" "[0]" 0 "RRes 0"] z by (simp add: Some None wp_simps)
        next
          case (Some y')
          then show ?thesis using fin [of "[]" "[]" 0 "ROut y'"] \<open>msk = Some m\<close> ev(3) by (simp add: wp_simps)
        qed
      qed
    qed simp
  qed
  then show ?thesis using v ty(2) by (cases msk; cases other) (simp_all add: convertGather_def wp_simps)
qed

lemma wp_convertScatterTensor:
  assumes wf: "wf_ir s" and v: "defOp s v = ScatterOp p off x msk" and x: "valid s x" "tyOf s x = TensorTy sh e"
    and a: "accessTyped s p off (TensorTy sh e) e" and b: "flatBase E s (remapped cv p) p e" and k: "\<And>m. msk = Some m \<Longrightarrow> valid s m"
    and post: "\<And>low t. grows s t \<Longrightarrow> scattersAs E t low sh (scatterSem E s (defOp s v)) \<Longrightarrow> Q low t"
  shows "wp (convertScatter cv v) Q s"
proof -
  have ty: "tyOf s p = PtrTy e" "isShaped (tyOf s off)" "valid s off" using a by (auto simp: accessTyped_def)
  note el = flat_element [OF b ty(1) not_shaped [OF a], of off] and fits = offset_fits [OF wf a]
  have "wp (create (MemCastOp (remapped cv p)) (MemRefTy [kDynamic] e)) (\<lambda>c t. Q (case msk of
      None \<Rightarrow> Generic sh [off, x] [RIndexCast (RArg 0), RStore (RArg 1) c (RRes 0)] None
    | Some m \<Rightarrow> Generic sh [off, x, m] [RIf (RArg 2) [RIndexCast (RArg 0), RStore (RArg 1) c (RRes 0)] None [] None] None) t) s"
  proof (rule wp_flatCast [OF wf b], rule post)
    fix c t assume t: "grows s t" "desc E t c = desc E s (remapped cv p)"
    show "grows s t" by fact
    have ev: "eval E t off = eval E s off" "eval E t x = eval E s x" "\<And>m. msk = Some m \<Longrightarrow> eval E t m = eval E s m"
      using eval_grows [OF t(1)] ty(3) x(1) k by auto
    show "scattersAs E t (case msk of
        None \<Rightarrow> Generic sh [off, x] [RIndexCast (RArg 0), RStore (RArg 1) c (RRes 0)] None
      | Some m \<Rightarrow> Generic sh [off, x, m] [RIf (RArg 2) [RIndexCast (RArg 0), RStore (RArg 1) c (RRes 0)] None [] None] None)
      sh (scatterSem E s (defOp s v))"
      unfolding scattersAs_def
      by (intro allI impI, cases msk)
        (auto simp: loweredRun_def scatterSem_def v activeAt_def ev fits t(2) el Let_def intro!: foldl_cong)
  qed
  then show ?thesis using v x(2) ty(2) by (cases msk) (simp_all add: convertScatter_def wp_simps Let_def)
qed

end
