(* ===== verification/Claims_Gather_Memref.thy ===== *)
theory Claims_Gather_Memref
  imports Gather_Memref Demo
begin

text \<open>The properties of the lowering of unstructured accesses to memrefs, with an instance of each.\<close>

section \<open>The pass\<close>

lemma wp_lowerGather:
  assumes wf: "wf_ir s" and v: "defOp s v = GatherOp p off msk other" "tyOf s v = t"
    and a: "accessTyped s p off t e" and b: "flatBase E s (remapped cv p) p e" and y: "\<And>y. other = Some y \<Longrightarrow> valid s y"
      "\<And>m. msk = Some m \<Longrightarrow> valid s m"
    and post: "\<And>low w c. grows s w \<Longrightarrow> (isIntTy e \<Longrightarrow> c = 0) \<Longrightarrow>
      loadsAs E w low (shapeOf t) (\<lambda>M. gatherSem (\<lambda>a. M (Addr a)) (\<lambda>_. c) E s (defOp s v)) \<Longrightarrow> Q low w"
  shows "wp (unstructuredToMemref cv v) Q s"
proof (cases "\<exists>sh. t = TensorTy sh e")
  case True
  then obtain sh where t: "t = TensorTy sh e" ..
  show ?thesis
    unfolding unstructuredToMemref_def
    by (rule wp_firstMatch, rule wp_convertGatherTensor [OF wf v(1) _ _ b y]) (use v a t post in auto)
next
  case False
  then have t: "t = e" "\<not> isShaped (tyOf s off)" "shapeOf e = []" using a by (cases e; auto simp: accessTyped_def)+
  have no: "convertGather cv v s = (Inl Failure, s)" "convertScatter cv v s = (Inl Failure, s)"
    using v t by (simp_all add: convertGather_def convertScatter_def bindM_def getM_def thenM_def requireM_def raise_def)
  have "wp (convertScalarLoad cv v) Q s"
    by (rule wp_convertScalarLoad [OF wf v(1) _ _ b y]) (use v a t post in auto)
  then show ?thesis
    unfolding unstructuredToMemref_def
    by - (rule wp_nextMatch, rule no, rule wp_nextMatch, rule no, rule wp_firstMatch)
qed

lemma wp_lowerScatter:
  assumes wf: "wf_ir s" and v: "defOp s v = ScatterOp p off x msk" and x: "valid s x" "tyOf s x = t"
    and a: "accessTyped s p off t e" and b: "flatBase E s (remapped cv p) p e" and k: "\<And>m. msk = Some m \<Longrightarrow> valid s m"
    and post: "\<And>low w. grows s w \<Longrightarrow> scattersAs E w low (shapeOf t) (scatterSem E s (defOp s v)) \<Longrightarrow> Q low w"
  shows "wp (unstructuredToMemref cv v) Q s"
proof -
  have g: "convertGather cv v s = (Inl Failure, s)" "convertScalarLoad cv v s = (Inl Failure, s)"
    using v by (simp_all add: convertGather_def convertScalarLoad_def bindM_def getM_def raise_def)
  show ?thesis
  proof (cases "\<exists>sh. t = TensorTy sh e")
    case True
    then obtain sh where t: "t = TensorTy sh e" ..
    have "wp (convertScatter cv v) Q s"
      by (rule wp_convertScatterTensor [OF wf v x(1) _ _ b k]) (use x a t post in auto)
    then show ?thesis unfolding unstructuredToMemref_def by - (rule wp_nextMatch, rule g, rule wp_firstMatch)
  next
    case False
    then have t: "t = e" "\<not> isShaped (tyOf s off)" "shapeOf e = []" using a by (cases e; auto simp: accessTyped_def)+
    have no: "convertScatter cv v s = (Inl Failure, s)"
      using v t by (simp add: convertScatter_def bindM_def getM_def thenM_def requireM_def raise_def)
    have "wp (convertScalarStore cv v) Q s"
      by (rule wp_convertScalarStore [OF wf v x(1) _ _ b k]) (use x a t post in auto)
    then show ?thesis
      unfolding unstructuredToMemref_def
      by - (rule wp_nextMatch, rule g, rule wp_nextMatch, rule no, rule wp_nextMatch, rule g, rule wp_firstMatch)
  qed
qed

section \<open>An instance\<close>

text \<open>
  0 is a pointer and 1 the memref that the type converter makes of it.  5 gathers three elements at
  the offsets 2, under the mask 3 and with 4 where it does not hold; 6 scatters them.
\<close>

definition flatDemo :: ir where
  "flatDemo = \<lparr>ops = [
     (BlockArg None, PtrTy (IntTy 32)),
     (BlockArg None, MemRefTy [kDynamic] (IntTy 32)),
     (BlockArg None, TensorTy [3] (IntTy 32)),
     (BlockArg None, TensorTy [3] (IntTy 1)),
     (BlockArg None, IntTy 32),
     (GatherOp 0 2 (Some 3) (Some 4), TensorTy [3] (IntTy 32)),
     (ScatterOp 0 2 5 (Some 3), NoneTy)], fors = []\<rparr>"

definition flatE :: env where
  "flatE v idx = (if v < 2 then 4096 else sum_list idx)"

definition flatCv :: conversion where
  "flatCv = \<lparr>remapped = (\<lambda>v. if v = 0 then 1 else v), padNegInf = 2, padInf = 3\<rparr>"

lemma flatDemo_wf: "wf_ir flatDemo"
  by (simp add: wf_ir_enumerate flatDemo_def)

lemma flatDemo_valid [simp]: "valid flatDemo v \<longleftrightarrow> v < 7"
  by (simp add: valid_def flatDemo_def) arith

lemma flatDemo_ops [simp]:
  "defOp flatDemo 0 = BlockArg None" "tyOf flatDemo 0 = PtrTy (IntTy 32)"
  "defOp flatDemo (Suc 0) = BlockArg None" "tyOf flatDemo (Suc 0) = MemRefTy [kDynamic] (IntTy 32)"
  "tyOf flatDemo 2 = TensorTy [3] (IntTy 32)"
  "defOp flatDemo 5 = GatherOp 0 2 (Some 3) (Some 4)" "tyOf flatDemo 5 = TensorTy [3] (IntTy 32)"
  "defOp flatDemo 6 = ScatterOp 0 2 5 (Some 3)"
  by (simp_all add: flatDemo_def defOp_def tyOf_def entry_def)

lemma flatDemo_base: "flatBase flatE flatDemo (remapped flatCv 0) 0 (IntTy 32)"
proof -
  have "eval flatE flatDemo 0 [] = 4096"
    using eval_unfold [OF flatDemo_wf, of 0 flatE] by (simp add: denOp_def norm_def flatE_def wrap_id)
  moreover have "desc E flatDemo 1 = pointerDesc E flatDemo 1" for E
    using desc_unfold [OF flatDemo_wf, of 1 E] by simp
  ultimately show ?thesis by (simp add: flatBase_def baseMemref_def flatCv_def flatE_def)
qed

lemma flatDemo_typed: "accessTyped flatDemo 0 2 (TensorTy [3] (IntTy 32)) (IntTy 32)"
  by (simp add: accessTyped_def)

section \<open>Properties\<close>

text \<open>C36: the lowering of a gather, of a scalar or of a tensor, never fails: for every memory the element
  of the result at an index is what the gather loads there, \<open>other\<close> where the mask does not hold, and
  a constant that is 0 for integers when there is no \<open>other\<close>; no memory is written.\<close>

theorem gather_lowering_correct:
  assumes "wf_ir s" and "defOp s v = GatherOp p off msk other" and "tyOf s v = t"
    and "accessTyped s p off t e" and "flatBase E s (remapped cv p) p e"
    and "\<And>y. other = Some y \<Longrightarrow> valid s y" and "\<And>m. msk = Some m \<Longrightarrow> valid s m"
  shows "\<exists>low w c. unstructuredToMemref cv v s = (Inr low, w) \<and> grows s w \<and> (isIntTy e \<longrightarrow> c = 0) \<and>
    (\<forall>M idx. inB (shapeOf t) idx \<longrightarrow> loweredAt E w low idx M = gatherSem (\<lambda>a. M (Addr a)) (\<lambda>_. c) E s (defOp s v) idx) \<and>
    (\<forall>M steps. loweredRun E w low steps M = M)"
proof -
  have "wp (unstructuredToMemref cv v) (\<lambda>low w. grows s w \<and> (\<exists>c. (isIntTy e \<longrightarrow> c = 0) \<and>
      loadsAs E w low (shapeOf t) (\<lambda>M. gatherSem (\<lambda>a. M (Addr a)) (\<lambda>_. c) E s (defOp s v)))) s"
    by (rule wp_lowerGather [OF assms]) auto
  then show ?thesis by (fastforce simp: wp_def loadsAs_def split: sum.splits)
qed

theorem gather_lowering_correct_witness:
  "\<exists>low w c. unstructuredToMemref flatCv 5 flatDemo = (Inr low, w) \<and> grows flatDemo w \<and> (isIntTy (IntTy 32) \<longrightarrow> c = 0) \<and>
    (\<forall>M idx. inB (shapeOf (TensorTy [3] (IntTy 32))) idx \<longrightarrow>
      loweredAt flatE w low idx M = gatherSem (\<lambda>a. M (Addr a)) (\<lambda>_. c) flatE flatDemo (defOp flatDemo 5) idx) \<and>
    (\<forall>M steps. loweredRun flatE w low steps M = M)"
  by (rule gather_lowering_correct [OF flatDemo_wf _ _ flatDemo_typed flatDemo_base, where msk = "Some 3" and other = "Some 4"]) simp_all

text \<open>C37: the lowering of a scatter, of a scalar or of a tensor, never fails, and in every order of the
  iterations it writes exactly the elements that the mask selects, each to the address of its
  offset: where two offsets are the same, the order decides, as it does for the scatter.\<close>

theorem scatter_lowering_correct:
  assumes "wf_ir s" and "defOp s v = ScatterOp p off x msk" and "valid s x" and "tyOf s x = t"
    and "accessTyped s p off t e" and "flatBase E s (remapped cv p) p e" and "\<And>m. msk = Some m \<Longrightarrow> valid s m"
  shows "\<exists>low w. unstructuredToMemref cv v s = (Inr low, w) \<and> grows s w \<and>
    (\<forall>M steps. distinct steps \<longrightarrow> set steps = {idx. inB (shapeOf t) idx} \<longrightarrow> loweredRun E w low steps M =
      foldl (\<lambda>M idx. case scatterSem E s (defOp s v) idx of Some (a, z) \<Rightarrow> M(Addr a := z) | None \<Rightarrow> M) M steps)"
proof -
  have "wp (unstructuredToMemref cv v) (\<lambda>low w. grows s w \<and> scattersAs E w low (shapeOf t) (scatterSem E s (defOp s v))) s"
    by (rule wp_lowerScatter [OF assms]) auto
  then show ?thesis by (fastforce simp: wp_def scattersAs_def split: sum.splits)
qed

theorem scatter_lowering_correct_witness:
  "\<exists>low w. unstructuredToMemref flatCv 6 flatDemo = (Inr low, w) \<and> grows flatDemo w \<and>
    (\<forall>M steps. distinct steps \<longrightarrow> set steps = {idx. inB (shapeOf (TensorTy [3] (IntTy 32))) idx} \<longrightarrow> loweredRun flatE w low steps M =
      foldl (\<lambda>M idx. case scatterSem flatE flatDemo (defOp flatDemo 6) idx of Some (a, z) \<Rightarrow> M(Addr a := z) | None \<Rightarrow> M) M steps)"
  by (rule scatter_lowering_correct [OF flatDemo_wf _ _ _ flatDemo_typed flatDemo_base, where msk = "Some 3" and x = 5]) simp_all

end
