(* ===== verification/Scan.thy ===== *)
theory Scan
  imports MLIR
begin

text \<open>
  \<open>lib/Conversion/TritonToLinalgExperimental/ConvertScanOpPass.cpp\<close>: a scan becomes straight-line code on
  vectors.  Along the last dimension it is a doubling scan of shuffles, along another one an
  accumulation of sub-vectors.
\<close>

section \<open>Vector code\<close>

text \<open>
  The operations the lowering emits, in the order of their creation; a value is the position of its
  operation, and \<open>'o\<close> are the names of the elementwise operations of the combine region.
\<close>

datatype 'o vop =
    VInput nat \<comment> \<open>an operand of the scan\<close>
  | VZero \<comment> \<open>\<open>arith.constant\<close> with the zero attribute\<close>
  | VExtract val "int list"
  | VInsert val val "int list" \<comment> \<open>source, destination, position\<close>
  | VShuffle val val "int list"
  | VMask "bool list"
  | VSelect val val val
  | VApply 'o "val list"
  | VBroadcast nat \<comment> \<open>a value defined outside of the region\<close>

text \<open>\<open>invariants\<close> is the member \<open>invariantsMap\<close>, which outlives the conversion of one scan.\<close>

record 'o vec_state =
  vcode :: "('o vop \<times> int list) list"
  invariants :: "(nat \<times> val) list"

type_synonym ('o, 'a) vm = "('o vec_state, 'a) run"

definition vcreate :: "'o vop \<Rightarrow> int list \<Rightarrow> ('o, val) vm" where
  "vcreate opn sh = (\<lambda>s. (Inr (length (vcode s)), s\<lparr>vcode := vcode s @ [(opn, sh)]\<rparr>))"

definition vshape :: "'o vec_state \<Rightarrow> val \<Rightarrow> int list" where
  "vshape s v = snd (entry (VZero, []) (vcode s) v)"

section \<open>The combine region\<close>

text \<open>
  A block with two arguments for each operand of the scan; its operations have one result, its
  terminator returns the new accumulators.
\<close>

datatype operand = BArg nat | BRes nat | Outer nat

record 'o region =
  regionBody :: "('o \<times> operand list) list"
  regionReturns :: "operand list"

text \<open>\<open>localMap.lookupOrNull\<close>.\<close>

fun localMap :: "val list \<Rightarrow> val list \<Rightarrow> operand \<Rightarrow> val option" where
  "localMap args res (BArg i) = (if i < length args then Some (args ! i) else None)"
| "localMap args res (BRes i) = (if i < length res then Some (res ! i) else None)"
| "localMap args res (Outer x) = None"

definition lookupMappedValue :: "val list \<Rightarrow> val list \<Rightarrow> int list \<Rightarrow> operand \<Rightarrow> ('o, val) vm" where
  "lookupMappedValue args res sh x = (case localMap args res x of
     Some v \<Rightarrow> ret v
   | None \<Rightarrow> (case x of
       Outer y \<Rightarrow> bindM (getM invariants) (\<lambda>m. case map_of m y of
           Some v \<Rightarrow> ret v
         | None \<Rightarrow> bindM (vcreate (VBroadcast y) sh) (\<lambda>v s. (Inr v, s\<lparr>invariants := (y, v) # invariants s\<rparr>)))
     | _ \<Rightarrow> raise Abort))"

fun cloneBody :: "val list \<Rightarrow> int list \<Rightarrow> ('o \<times> operand list) list \<Rightarrow> val list \<Rightarrow> ('o, val list) vm" where
  "cloneBody args sh [] res = ret res"
| "cloneBody args sh ((f, xs) # rest) res =
     bindM (mapM (lookupMappedValue args res sh) xs) (\<lambda>vs.
     bindM (vcreate (VApply f vs) sh) (\<lambda>v. cloneBody args sh rest (res @ [v])))"

definition accumulate :: "val list \<Rightarrow> val list \<Rightarrow> 'o region \<Rightarrow> ('o, val list) vm" where
  "accumulate inputs acc combineOp =
     (if acc = [] then ret inputs
      else
        bindM (atM inputs 0) (\<lambda>x. bindM (getM (\<lambda>s. vshape s x)) (\<lambda>sh.
        bindM (cloneBody (acc @ inputs) sh (regionBody combineOp) []) (\<lambda>res.
        mapM (\<lambda>x. castM (localMap (acc @ inputs) res x)) (regionReturns combineOp)))))"

section \<open>The last dimension\<close>

text \<open>The values of \<open>for (i = start; i != end; i += step)\<close> with step 1 or -1, and of \<open>stride *= 2\<close>.\<close>

definition positions :: "bool \<Rightarrow> int \<Rightarrow> int \<Rightarrow> int list" where
  "positions reverse start n = (if reverse then rev [0..start] else [start..n - 1])"

function doublings :: "int \<Rightarrow> int \<Rightarrow> int list" where
  "doublings stride n = (if 0 < stride \<and> stride < n then stride # doublings (stride * 2) n else [])"
  by auto

termination doublings
  by (relation "measure (\<lambda>(stride, n). nat (n - stride))") auto

declare doublings.simps [simp del]

definition shuffleIndices :: "bool \<Rightarrow> int \<Rightarrow> int \<Rightarrow> int list" where
  "shuffleIndices reverse vecSize stride =
     (let start = if reverse then vecSize - 1 - stride else stride;
          step = if reverse then -1 else 1
      in foldl (\<lambda>xs i. xs[nat i := i - step * stride]) (replicate (nat vecSize) 0) (positions reverse start vecSize))"

definition maskVals :: "bool \<Rightarrow> int \<Rightarrow> int \<Rightarrow> bool list" where
  "maskVals reverse vecSize stride =
     (if reverse then replicate (nat (vecSize - stride)) True @ replicate (nat stride) False
      else replicate (nat stride) False @ replicate (nat (vecSize - stride)) True)"

definition scanStep :: "'o region \<Rightarrow> bool \<Rightarrow> int \<Rightarrow> val list \<Rightarrow> val list \<Rightarrow> int \<Rightarrow> ('o, val list) vm" where
  "scanStep combineOp reverse vecSize dummies res stride =
     bindM (mapM (\<lambda>(x, dummy). vcreate (VShuffle x dummy (shuffleIndices reverse vecSize stride)) [vecSize]) (zip res dummies)) (\<lambda>shuffledInput.
     bindM (accumulate res shuffledInput combineOp) (\<lambda>newRes.
     bindM (vcreate (VMask (maskVals reverse vecSize stride)) [vecSize]) (\<lambda>mask.
     mapM (\<lambda>i. bindM (atM newRes i) (\<lambda>y. bindM (atM res i) (\<lambda>x. vcreate (VSelect mask y x) [vecSize]))) [0..<length res])))"

definition lower1DInput :: "val list \<Rightarrow> 'o region \<Rightarrow> bool \<Rightarrow> ('o, val list) vm" where
  "lower1DInput inputs combineOp reverse =
     bindM (atM inputs 0) (\<lambda>x. bindM (getM (\<lambda>s. vshape s x)) (\<lambda>sh. bindM (atM sh 0) (\<lambda>vecSize.
     bindM (mapM (\<lambda>_. vcreate VZero [1]) inputs) (\<lambda>dummies.
     foldM (scanStep combineOp reverse vecSize dummies) inputs (doublings 1 vecSize)))))"

section \<open>The first dimension\<close>

definition leadingStep :: "val list \<Rightarrow> 'o region \<Rightarrow> int list \<Rightarrow> val list \<times> val list \<Rightarrow> int \<Rightarrow> ('o, val list \<times> val list) vm" where
  "leadingStep inputs combineOp sh = (\<lambda>(res, acc) i.
     bindM (mapM (\<lambda>x. vcreate (VExtract x [i]) (tl sh)) inputs) (\<lambda>subInputs.
     bindM (accumulate subInputs acc combineOp) (\<lambda>acc'.
     bindM (mapM (\<lambda>j. bindM (atM acc' j) (\<lambda>a. bindM (atM res j) (\<lambda>r. vcreate (VInsert a r [i]) sh))) [0..<length res]) (\<lambda>res'.
     ret (res', acc')))))"

definition lowerLeadingDimension :: "nat \<Rightarrow> val list \<Rightarrow> 'o region \<Rightarrow> bool \<Rightarrow> ('o, val list) vm" where
  "lowerLeadingDimension nres inputs combineOp reverse =
     bindM (atM inputs 0) (\<lambda>x. bindM (getM (\<lambda>s. vshape s x)) (\<lambda>sh. bindM (atM sh 0) (\<lambda>n.
     bindM (mapM (\<lambda>_. vcreate VZero sh) [0..<nres]) (\<lambda>res.
     bindM (foldM (leadingStep inputs combineOp sh) (res, []) (positions reverse (if reverse then n - 1 else 0) n)) (\<lambda>(res, acc).
     ret res)))))"

section \<open>Other dimensions\<close>

text \<open>
  The sub-vectors at the given positions are taken out, lowered, and put into the result.  The
  positions are those of \<open>delinearize(idx, strides)\<close> for \<open>idx\<close> from 0 below the number of elements in
  steps of the size of a sub-vector; \<open>computeStrides\<close> and \<open>delinearize\<close> are functions of MLIR and
  parameters of the model.
\<close>

record vec_utils =
  computeStrides :: "int list \<Rightarrow> int list"
  delinearize :: "int \<Rightarrow> int list \<Rightarrow> int list"

function multiples :: "int \<Rightarrow> int \<Rightarrow> int \<Rightarrow> int list" where
  "multiples idx step n = (if 0 < step \<and> idx < n then idx # multiples (idx + step) step n else [])"
  by auto

termination multiples
  by (relation "measure (\<lambda>(idx, step, n). nat (n - idx))") auto

declare multiples.simps [simp del]

definition subVectors ::
    "(val list \<Rightarrow> ('o, val list) vm) \<Rightarrow> val list \<Rightarrow> int list \<Rightarrow> int list \<Rightarrow> val list \<Rightarrow> int list \<Rightarrow> ('o, val list) vm" where
  "subVectors lower inputs sh sub res indices =
     bindM (mapM (\<lambda>x. vcreate (VExtract x indices) sub) inputs) (\<lambda>subInputs.
     bindM (lower subInputs) (\<lambda>resElems.
     mapM (\<lambda>i. bindM (atM resElems i) (\<lambda>e. bindM (atM res i) (\<lambda>r. vcreate (VInsert e r indices) sh))) [0..<length res]))"

definition lowerTrailingDimension :: "vec_utils \<Rightarrow> nat \<Rightarrow> val list \<Rightarrow> 'o region \<Rightarrow> bool \<Rightarrow> ('o, val list) vm" where
  "lowerTrailingDimension u nres inputs combineOp reverse =
     bindM (atM inputs 0) (\<lambda>x. bindM (getM (\<lambda>s. vshape s x)) (\<lambda>sh.
     if length sh = 1 then lower1DInput inputs combineOp reverse
     else
       thenM (assertM (sh \<noteq> []))
       (bindM (mapM (\<lambda>_. vcreate VZero sh) [0..<nres]) (\<lambda>res.
        foldM (\<lambda>res idx. subVectors (\<lambda>sub. lower1DInput sub combineOp reverse) inputs sh [last sh] res
            (delinearize u idx (butlast (computeStrides u sh))))
          res (multiples 0 (last sh) (prod_list sh))))))"

definition lowerNonTrailingDimension :: "vec_utils \<Rightarrow> nat \<Rightarrow> val list \<Rightarrow> 'o region \<Rightarrow> bool \<Rightarrow> nat \<Rightarrow> ('o, val list) vm" where
  "lowerNonTrailingDimension u nres inputs combineOp reverse axis =
     (if axis = 0 then lowerLeadingDimension nres inputs combineOp reverse
      else
        bindM (atM inputs 0) (\<lambda>x. bindM (getM (\<lambda>s. vshape s x)) (\<lambda>sh.
        bindM (mapM (\<lambda>_. vcreate VZero sh) [0..<nres]) (\<lambda>res.
        let strides = take axis (computeStrides u sh) in
        thenM (assertM (strides \<noteq> []))
        (foldM (\<lambda>res idx. subVectors (\<lambda>sub. lowerLeadingDimension nres sub combineOp reverse) inputs sh (drop axis sh) res
            (delinearize u idx strides))
          res (multiples 0 (last strides) (prod_list sh)))))))"

text \<open>\<open>matchAndRewrite\<close> on the remapped operands: the values that replace the results of the scan.\<close>

definition convertScan :: "vec_utils \<Rightarrow> nat \<Rightarrow> val list \<Rightarrow> 'o region \<Rightarrow> bool \<Rightarrow> nat \<Rightarrow> ('o, val list) vm" where
  "convertScan u nres inputs combineOp reverse axis =
     bindM (atM inputs 0) (\<lambda>x. bindM (getM (\<lambda>s. vshape s x)) (\<lambda>sh.
     if int axis = int (length sh) - 1 then lowerTrailingDimension u nres inputs combineOp reverse
     else lowerNonTrailingDimension u nres inputs combineOp reverse axis))"

section \<open>Meaning\<close>

text \<open>
  An elementwise operation denotes a function \<open>elemSem\<close> of its elements, \<open>scanArgs\<close> are the operands of the scan
  and \<open>outerVals\<close> the values defined outside of its region.  An operation on vectors whose shapes do not
  match is invalid; its elements \<open>invalidElem\<close> are arbitrary.
\<close>

record 'o meaning =
  elemSem :: "'o \<Rightarrow> int list \<Rightarrow> int"
  scanArgs :: "nat \<Rightarrow> int list \<Rightarrow> int"
  outerVals :: "nat \<Rightarrow> int"
  invalidElem :: "int list \<Rightarrow> int"

type_synonym vector = "int list \<times> (int list \<Rightarrow> int)"

definition hasShape :: "int list list \<Rightarrow> val \<Rightarrow> int list \<Rightarrow> bool" where
  "hasShape shs v sh \<longleftrightarrow> v < length shs \<and> shs ! v = sh"

definition shapesOk :: "int list list \<Rightarrow> 'o vop \<Rightarrow> int list \<Rightarrow> bool" where
  "shapesOk shs opn sh = (case opn of
     VExtract x js \<Rightarrow> x < length shs \<and> hasShape shs x (take (length js) (shs ! x) @ sh)
   | VInsert e d js \<Rightarrow> hasShape shs d sh \<and> hasShape shs e (drop (length js) sh)
   | VShuffle a b ks \<Rightarrow> (case (shs ! a, shs ! b) of
         ([n], [m]) \<Rightarrow> hasShape shs a [n] \<and> hasShape shs b [m] \<and> sh = [int (length ks)] \<and> (\<forall>k \<in> set ks. 0 \<le> k \<and> k < n + m)
       | _ \<Rightarrow> False)
   | VMask bs \<Rightarrow> sh = [int (length bs)]
   | VSelect m a b \<Rightarrow> hasShape shs m sh \<and> hasShape shs a sh \<and> hasShape shs b sh
   | VApply f xs \<Rightarrow> (\<forall>x \<in> set xs. hasShape shs x sh)
   | _ \<Rightarrow> True)"

fun shuffleSem :: "vector \<Rightarrow> vector \<Rightarrow> int list \<Rightarrow> int list \<Rightarrow> int" where
  "shuffleSem (sh, a) (_, b) ks [i] = (let k = ks ! nat i in if k < hd sh then a [k] else b [k - hd sh])"
| "shuffleSem _ _ _ _ = 0"

definition vopElem :: "'o meaning \<Rightarrow> vector list \<Rightarrow> 'o vop \<Rightarrow> int list \<Rightarrow> int" where
  "vopElem E vs opn idx = (case opn of
     VInput k \<Rightarrow> scanArgs E k idx
   | VZero \<Rightarrow> 0
   | VExtract x js \<Rightarrow> snd (vs ! x) (js @ idx)
   | VInsert e d js \<Rightarrow> if take (length js) idx = js then snd (vs ! e) (drop (length js) idx) else snd (vs ! d) idx
   | VShuffle a b ks \<Rightarrow> shuffleSem (vs ! a) (vs ! b) ks idx
   | VMask bs \<Rightarrow> (case idx of [i] \<Rightarrow> if bs ! nat i then 1 else 0 | _ \<Rightarrow> 0)
   | VSelect m a b \<Rightarrow> if snd (vs ! m) idx \<noteq> 0 then snd (vs ! a) idx else snd (vs ! b) idx
   | VApply f xs \<Rightarrow> elemSem E f (map (\<lambda>x. snd (vs ! x) idx) xs)
   | VBroadcast x \<Rightarrow> outerVals E x)"

definition vopSem :: "'o meaning \<Rightarrow> vector list \<Rightarrow> 'o vop \<Rightarrow> int list \<Rightarrow> int list \<Rightarrow> int" where
  "vopSem E vs opn sh = (if shapesOk (map fst vs) opn sh then vopElem E vs opn else invalidElem E)"

definition vectors :: "'o meaning \<Rightarrow> ('o vop \<times> int list) list \<Rightarrow> vector list" where
  "vectors E = foldl (\<lambda>vs (opn, sh). vs @ [(sh, vopSem E vs opn sh)]) []"

definition vval :: "'o meaning \<Rightarrow> 'o vec_state \<Rightarrow> val \<Rightarrow> int list \<Rightarrow> int" where
  "vval E s v = snd (vectors E (vcode s) ! v)"

text \<open>The region on elements, and the sequential scan it describes.\<close>

fun operandSem :: "'o meaning \<Rightarrow> int list \<Rightarrow> int list \<Rightarrow> operand \<Rightarrow> int" where
  "operandSem E xs res (BArg i) = xs ! i"
| "operandSem E xs res (BRes i) = res ! i"
| "operandSem E xs res (Outer x) = outerVals E x"

definition combine :: "'o meaning \<Rightarrow> 'o region \<Rightarrow> int list \<Rightarrow> int list \<Rightarrow> int list" where
  "combine E r acc xs =
     (let res = foldl (\<lambda>res (f, ys). res @ [elemSem E f (map (operandSem E (acc @ xs) res) ys)]) [] (regionBody r)
      in map (operandSem E (acc @ xs) res) (regionReturns r))"

text \<open>
  \<open>scanSem\<close> combines the elements along the axis in their order, from the first up to the one at the
  index, or in reverse from the last down to it.
\<close>

definition scanSem :: "(int list \<Rightarrow> int list \<Rightarrow> int list) \<Rightarrow> bool \<Rightarrow> nat \<Rightarrow> int \<Rightarrow> (int list \<Rightarrow> int list) \<Rightarrow> int list \<Rightarrow> int list" where
  "scanSem comb reverse axis n xs idx =
     (let along = map (\<lambda>i. xs (idx[axis := i])) (if reverse then rev [idx ! axis..n - 1] else [0..idx ! axis])
      in foldl comb (hd along) (tl along))"

end
