(* ===== verification/Scan_Sound.thy ===== *)
theory Scan_Sound
  imports Scan Memref_Sem
begin

text \<open>
  The vectors that the code of \<open>convertScan\<close> computes: those of the sequential scan.
\<close>

section \<open>Vectors of growing code\<close>

lemma vectors_Nil [simp]: "vectors E [] = []"
  by (simp add: vectors_def)

lemma vectors_snoc [simp]: "vectors E (c @ [(opn, sh)]) = vectors E c @ [(sh, vopSem E (vectors E c) opn sh)]"
  by (simp add: vectors_def)

lemma vectors_length [simp]: "length (vectors E c) = length c"
  by (induction c rule: rev_induct) auto

lemma vectors_prefix: "v < length c \<Longrightarrow> vectors E (c @ d) ! v = vectors E c ! v"
proof (induction d rule: rev_induct)
  case (snoc x d)
  then show ?case by (cases x) (simp add: append_assoc [symmetric] nth_append del: append_assoc)
qed simp

lemma vectors_shape: "v < length c \<Longrightarrow> fst (vectors E c ! v) = snd (c ! v)"
  by (induction c rule: rev_induct) (auto simp: nth_append less_Suc_eq)

lemma vectors_shapes [simp]: "map fst (vectors E c) = map snd c"
  by (induction c rule: rev_induct) auto

text \<open>
  The broadcasts that the conversion remembers denote the values they are made of; those of the values in \<open>U\<close>,
  which the region uses, have the shape \<open>B\<close> of the vectors the region works on.
\<close>

definition invOk :: "'o meaning \<Rightarrow> nat set \<Rightarrow> int list \<Rightarrow> 'o vec_state \<Rightarrow> bool" where
  "invOk E U B s \<longleftrightarrow> (\<forall>(x, v) \<in> set (invariants s). v < length (vcode s) \<and> (\<forall>idx. vval E s v idx = outerVals E x) \<and>
     (x \<in> U \<longrightarrow> vshape s v = B))"

definition outsideUses :: "'o region \<Rightarrow> nat set" where
  "outsideUses r = {y. \<exists>(f, xs) \<in> set (regionBody r). Outer y \<in> set xs}"

text \<open>The vectors along the last axis, and the slices below another one.\<close>

definition workShape :: "int list \<Rightarrow> nat \<Rightarrow> int list" where
  "workShape sh axis = (if axis = length sh - 1 then [sh ! axis] else drop (Suc axis) sh)"

lemma hasShape_code [simp]: "hasShape (map snd (vcode s)) v sh \<longleftrightarrow> v < length (vcode s) \<and> vshape s v = sh"
  by (auto simp: hasShape_def vshape_def entry_def)

definition vext :: "'o meaning \<Rightarrow> nat set \<Rightarrow> int list \<Rightarrow> 'o vec_state \<Rightarrow> 'o vec_state \<Rightarrow> bool" where
  "vext E U B s t \<longleftrightarrow> (\<exists>xs. vcode t = vcode s @ xs) \<and> invOk E U B t"

lemma vext_refl: "invOk E U B s \<Longrightarrow> vext E U B s s"
  by (simp add: vext_def)

lemma vext_trans: "vext E U B s t \<Longrightarrow> vext E U B t u \<Longrightarrow> vext E U B s u"
  by (auto simp: vext_def)

lemma vextD:
  assumes "vext E U B s t"
  shows "invOk E U B t" "v < length (vcode s) \<Longrightarrow> v < length (vcode t)" "v < length (vcode s) \<Longrightarrow> vval E t v = vval E s v"
    "v < length (vcode s) \<Longrightarrow> vshape t v = vshape s v"
  using assms by (auto simp: vext_def vval_def vshape_def vectors_prefix entry_def nth_append)

text \<open>The values of a list of vectors of one shape, at every index of it.\<close>

definition vecs :: "'o meaning \<Rightarrow> 'o vec_state \<Rightarrow> val list \<Rightarrow> int list \<Rightarrow> (int list \<Rightarrow> int list) \<Rightarrow> bool" where
  "vecs E s vs sh f \<longleftrightarrow> (\<forall>v \<in> set vs. v < length (vcode s) \<and> vshape s v = sh) \<and>
     (\<forall>idx. inB sh idx \<longrightarrow> map (\<lambda>v. vval E s v idx) vs = f idx)"

lemma vecs_ext: "vecs E s vs sh f \<Longrightarrow> vext E U B s t \<Longrightarrow> vecs E t vs sh f"
  using vextD [of E U B s t] by (simp add: vecs_def cong: map_cong)

lemma vecs_Nil [simp]: "vecs E s [] sh f \<longleftrightarrow> (\<forall>idx. inB sh idx \<longrightarrow> f idx = [])"
  by (auto simp: vecs_def)

lemma vecs_append: "vecs E s vs sh f \<Longrightarrow> vecs E s ws sh g \<Longrightarrow> vecs E s (vs @ ws) sh (\<lambda>idx. f idx @ g idx)"
  by (auto simp: vecs_def)

lemma vecs_cong: "vecs E s vs sh f \<Longrightarrow> (\<And>idx. inB sh idx \<Longrightarrow> f idx = g idx) \<Longrightarrow> vecs E s vs sh g"
  by (auto simp: vecs_def)

lemma vecs_nth:
  assumes "vecs E s vs sh f" "i < length vs"
  shows "vs ! i < length (vcode s)" "vshape s (vs ! i) = sh" "inB sh idx \<Longrightarrow> vval E s (vs ! i) idx = f idx ! i"
proof -
  show "vs ! i < length (vcode s)" "vshape s (vs ! i) = sh" using assms by (auto simp: vecs_def)
  show "vval E s (vs ! i) idx = f idx ! i" if "inB sh idx"
  proof -
    have "f idx = map (\<lambda>v. vval E s v idx) vs" using assms(1) that by (simp add: vecs_def)
    then show ?thesis using assms(2) by simp
  qed
qed

lemma vecs_len: "vecs E s vs sh f \<Longrightarrow> inB sh idx \<Longrightarrow> length (f idx) = length vs"
  unfolding vecs_def by (metis length_map)

text \<open>One created vector, and one for each element of a list.\<close>

lemma wp_vcreate:
  assumes "invOk E U B s" and "shapesOk (map snd (vcode s)) opn sh"
    and "\<And>v t. vext E U B s t \<Longrightarrow> v < length (vcode t) \<Longrightarrow> vshape t v = sh \<Longrightarrow> vval E t v = vopElem E (vectors E (vcode s)) opn \<Longrightarrow>
      invariants t = invariants s \<Longrightarrow> Q v t"
  shows "wp (vcreate opn sh) Q s"
proof -
  let ?t = "s\<lparr>vcode := vcode s @ [(opn, sh)]\<rparr>"
  have "invOk E U B ?t" using assms(1) by (fastforce simp: invOk_def vval_def nth_append vshape_def entry_def)
  then have "Q (length (vcode s)) ?t"
    by (intro assms(3)) (use assms(2) in \<open>auto simp: vext_def vshape_def vval_def vopSem_def nth_append entry_def\<close>)
  then show ?thesis by (simp add: wp_def vcreate_def)
qed

lemma wp_vcreates:
  assumes inv: "invOk E U B s"
    and ok: "\<And>x t. x \<in> set xs \<Longrightarrow> vext E U B s t \<Longrightarrow> shapesOk (map snd (vcode t)) (opn x) sh"
    and f: "\<And>x t idx. x \<in> set xs \<Longrightarrow> vext E U B s t \<Longrightarrow> inB sh idx \<Longrightarrow> vopElem E (vectors E (vcode t)) (opn x) idx = f x idx"
    and post: "\<And>vs t. vext E U B s t \<Longrightarrow> length vs = length xs \<Longrightarrow> vecs E t vs sh (\<lambda>idx. map (\<lambda>x. f x idx) xs) \<Longrightarrow> Q vs t"
  shows "wp (mapM (\<lambda>x. vcreate (opn x) sh) xs) Q s"
proof (rule wp_mapM [where I = "\<lambda>vs t. vext E U B s t \<and> vecs E t vs sh (\<lambda>idx. map (\<lambda>x. f x idx) (take (length vs) xs))"])
  fix n vs t assume n: "n < length xs" "length vs = n"
    and I: "vext E U B s t \<and> vecs E t vs sh (\<lambda>idx. map (\<lambda>x. f x idx) (take (length vs) xs))"
  show "wp (vcreate (opn (xs ! n)) sh)
      (\<lambda>y t. vext E U B s t \<and> vecs E t (vs @ [y]) sh (\<lambda>idx. map (\<lambda>x. f x idx) (take (length (vs @ [y])) xs))) t"
  proof (rule wp_vcreate [OF vextD(1)])
    show "vext E U B s t" using I by simp
    then show "shapesOk (map snd (vcode t)) (opn (xs ! n)) sh" using n by (intro ok) simp_all
    fix v u assume u: "vext E U B t u" "v < length (vcode u)" "vshape u v = sh" "vval E u v = vopElem E (vectors E (vcode t)) (opn (xs ! n))"
    have "vecs E u [v] sh (\<lambda>idx. [f (xs ! n) idx])" using u I f n by (simp add: vecs_def)
    then show "vext E U B s u \<and> vecs E u (vs @ [v]) sh (\<lambda>idx. map (\<lambda>x. f x idx) (take (length (vs @ [v])) xs))"
      using vecs_append [OF vecs_ext [OF conjunct2 [OF I] u(1)]] vext_trans [OF conjunct1 [OF I] u(1)] n
      by (simp add: take_Suc_conv_app_nth)
  qed
qed (use inv post vext_refl in auto)

section \<open>The combine region\<close>

text \<open>A region with \<open>n\<close> block arguments whose terminator returns \<open>k\<close> values that are defined in it.\<close>

fun operandOk :: "nat \<Rightarrow> nat \<Rightarrow> operand \<Rightarrow> bool" where
  "operandOk n m (BArg i) = (i < n)"
| "operandOk n m (BRes i) = (i < m)"
| "operandOk n m (Outer x) = True"

fun bodyOk :: "nat \<Rightarrow> nat \<Rightarrow> ('o \<times> operand list) list \<Rightarrow> bool" where
  "bodyOk n m [] = True"
| "bodyOk n m ((f, xs) # rest) = ((\<forall>x \<in> set xs. operandOk n m x) \<and> bodyOk n (Suc m) rest)"

definition regionOk :: "nat \<Rightarrow> 'o region \<Rightarrow> bool" where
  "regionOk k r \<longleftrightarrow> bodyOk (2 * k) 0 (regionBody r) \<and> length (regionReturns r) = k \<and>
     (\<forall>x \<in> set (regionReturns r). operandOk (2 * k) (length (regionBody r)) x \<and> (\<forall>y. x \<noteq> Outer y))"

lemma wp_lookup:
  assumes inv: "invOk E U B s" and a: "vecs E s as B A" "vecs E s rs B R" and x: "operandOk (length as) (length rs) x" "\<And>y. x = Outer y \<Longrightarrow> y \<in> U"
    and post: "\<And>v t. vext E U B s t \<Longrightarrow> v < length (vcode t) \<Longrightarrow> vshape t v = B \<Longrightarrow> (\<And>idx. inB B idx \<Longrightarrow> vval E t v idx = operandSem E (A idx) (R idx) x) \<Longrightarrow> Q v t"
  shows "wp (lookupMappedValue as rs B x) Q s"
proof (cases x)
  case (BArg i)
  then show ?thesis
    using x vecs_nth [OF a(1)] by (auto simp: lookupMappedValue_def wp_simps intro!: post vext_refl inv)
next
  case (BRes i)
  then show ?thesis
    using x vecs_nth [OF a(2)] by (auto simp: lookupMappedValue_def wp_simps intro!: post vext_refl inv)
next
  case (Outer y)
  show ?thesis
  proof (cases "map_of (invariants s) y")
    case (Some v)
    then have "v < length (vcode s)" "vval E s v idx = outerVals E y" "vshape s v = B" for idx
      using inv map_of_SomeD [OF Some] x(2) [OF Outer] by (auto simp: invOk_def)
    then show ?thesis using Some Outer by (simp add: lookupMappedValue_def wp_simps post [OF vext_refl [OF inv]])
  next
    case None
    have "wp (vcreate (VBroadcast y) B) (\<lambda>v. wp (\<lambda>s. (Inr v, s\<lparr>invariants := (y, v) # invariants s\<rparr>)) Q) s"
    proof (rule wp_vcreate [OF inv])
      show "shapesOk (map snd (vcode s)) (VBroadcast y) B" by (simp add: shapesOk_def)
      fix v t assume t: "vext E U B s t" "v < length (vcode t)" "vshape t v = B" "vval E t v = vopElem E (vectors E (vcode s)) (VBroadcast y)"
      let ?u = "t\<lparr>invariants := (y, v) # invariants t\<rparr>"
      have e: "vval E ?u w = vval E t w" for w by (simp add: vval_def)
      have v: "vval E ?u v idx = outerVals E y" for idx using t(4) by (simp add: e vopElem_def)
      have h: "vshape ?u w = vshape t w" for w by (simp add: vshape_def)
      have "invOk E U B ?u" using vextD(1) [OF t(1)] t(2,3) v by (auto simp: invOk_def e h)
      then have "Q v ?u" using t v Outer by (intro post) (auto simp: vext_def h)
      then show "wp (\<lambda>s. (Inr v, s\<lparr>invariants := (y, v) # invariants s\<rparr>)) Q t" by (simp add: wp_def)
    qed
    then show ?thesis using None Outer by (simp add: lookupMappedValue_def wp_simps)
  qed
qed

lemma wp_cloneBody:
  assumes "invOk E U B s" and "vecs E s as B A" and "vecs E s rs B R" and "bodyOk (length as) (length rs) prog"
    and "\<And>f xs y. (f, xs) \<in> set prog \<Longrightarrow> Outer y \<in> set xs \<Longrightarrow> y \<in> U"
    and "\<And>vs t. vext E U B s t \<Longrightarrow> length vs = length rs + length prog \<Longrightarrow> vecs E t vs B (\<lambda>idx.
      foldl (\<lambda>res (f, ys). res @ [elemSem E f (map (operandSem E (A idx) res) ys)]) (R idx) prog) \<Longrightarrow> Q vs t"
  shows "wp (cloneBody as B prog rs) Q s"
  using assms
proof (induction as B prog rs arbitrary: s R rule: cloneBody.induct)
  case (1 as B res)
  then show ?case by (simp add: wp_simps vext_refl)
next
  case (2 as B f xs rest rs)
  let ?K = "\<lambda>vs. wp (vcreate (VApply f vs) B) (\<lambda>v. wp (cloneBody as B rest (rs @ [v])) Q)"
  let ?val = "\<lambda>idx x. operandSem E (A idx) (R idx) x"
  have "wp (mapM (lookupMappedValue as rs B) xs) ?K s"
  proof (rule wp_mapM [where I = "\<lambda>vs t. vext E U B s t \<and> (\<forall>v \<in> set vs. v < length (vcode t) \<and> vshape t v = B) \<and>
        (\<forall>idx. inB B idx \<longrightarrow> map (\<lambda>v. vval E t v idx) vs = map (?val idx) (take (length vs) xs))"])
    fix n vs t assume n: "n < length xs" "length vs = n"
      and I: "vext E U B s t \<and> (\<forall>v \<in> set vs. v < length (vcode t) \<and> vshape t v = B) \<and>
        (\<forall>idx. inB B idx \<longrightarrow> map (\<lambda>v. vval E t v idx) vs = map (?val idx) (take (length vs) xs))"
    then have st: "vext E U B s t" by simp
    show "wp (lookupMappedValue as rs B (xs ! n)) (\<lambda>y t. vext E U B s t \<and> (\<forall>v \<in> set (vs @ [y]). v < length (vcode t) \<and> vshape t v = B) \<and>
        (\<forall>idx. inB B idx \<longrightarrow> map (\<lambda>v. vval E t v idx) (vs @ [y]) = map (?val idx) (take (length (vs @ [y])) xs))) t"
    proof (rule wp_lookup [OF vextD(1) [OF st] vecs_ext [OF 2(3) st] vecs_ext [OF 2(4) st]])
      show "operandOk (length as) (length rs) (xs ! n)" using 2(5) n by simp
      show "y \<in> U" if "xs ! n = Outer y" for y using 2(6) [of f xs y] that n nth_mem [of n xs] by simp
      fix v u assume u: "vext E U B t u" "v < length (vcode u)" "vshape u v = B" "\<And>idx. inB B idx \<Longrightarrow> vval E u v idx = ?val idx (xs ! n)"
      then show "vext E U B s u \<and> (\<forall>v \<in> set (vs @ [v]). v < length (vcode u) \<and> vshape u v = B) \<and>
        (\<forall>idx. inB B idx \<longrightarrow> map (\<lambda>v. vval E u v idx) (vs @ [v]) = map (?val idx) (take (length (vs @ [v])) xs))"
        using I n vextD(2-4) [OF u(1)] vext_trans [OF st u(1)] by (auto simp: take_Suc_conv_app_nth cong: map_cong)
    qed
  next
    fix vs t assume len: "length vs = length xs" and I: "vext E U B s t \<and> (\<forall>v \<in> set vs. v < length (vcode t) \<and> vshape t v = B) \<and>
        (\<forall>idx. inB B idx \<longrightarrow> map (\<lambda>v. vval E t v idx) vs = map (?val idx) (take (length vs) xs))"
    then have st: "vext E U B s t" by simp
    show "?K vs t"
    proof (rule wp_vcreate [OF vextD(1) [OF st]])
      show "shapesOk (map snd (vcode t)) (VApply f vs) B" using I by (simp add: shapesOk_def)
      fix v u assume u: "vext E U B t u" "v < length (vcode u)" "vshape u v = B" "vval E u v = vopElem E (vectors E (vcode t)) (VApply f vs)"
      note su = vext_trans [OF st u(1)]
      have "vval E u v idx = elemSem E f (map (?val idx) xs)" if "inB B idx" for idx
        using u(4) I that len by (simp add: vopElem_def vval_def [symmetric])
      then have v: "vecs E u [v] B (\<lambda>idx. [elemSem E f (map (?val idx) xs)])" using u by (simp add: vecs_def)
      show "wp (cloneBody as B rest (rs @ [v])) Q u"
      proof (rule 2(1) [OF vextD(1) [OF su] vecs_ext [OF 2(3) su] vecs_append [OF vecs_ext [OF 2(4) su] v]])
        show "bodyOk (length as) (length (rs @ [v])) rest" using 2(5) by simp
        show "y \<in> U" if "(f, xs) \<in> set rest" "Outer y \<in> set xs" for f xs y using 2(6) that by auto
        show "Q vs t" if "vext E U B u t" "length vs = length (rs @ [v]) + length rest" "vecs E t vs B (\<lambda>idx.
          foldl (\<lambda>res (f, ys). res @ [elemSem E f (map (operandSem E (A idx) res) ys)]) (R idx @ [elemSem E f (map (?val idx) xs)]) rest)" for vs t
          using that by (intro 2(7) vext_trans [OF su]) simp_all
      qed
    qed
  qed (use 2(2) vext_refl in auto)
  then show ?case by (simp add: wp_simps)
qed

lemma combine_length: "regionOk k r \<Longrightarrow> length (combine E r a b) = k"
  by (simp add: combine_def Let_def regionOk_def)

lemma wp_accumulate:
  assumes inv: "invOk E U B s" and v: "vecs E s inputs B X" "vecs E s acc B A" and l: "length inputs = k" "length acc = k" "0 < k"
    and r: "regionOk k r" "outsideUses r \<subseteq> U"
    and post: "\<And>res t. vext E U B s t \<Longrightarrow> length res = k \<Longrightarrow> vecs E t res B (\<lambda>idx. combine E r (A idx) (X idx)) \<Longrightarrow> Q res t"
  shows "wp (accumulate inputs acc r) Q s"
proof -
  note r' = r(1) [unfolded regionOk_def]
  have sh: "vshape s (inputs ! 0) = B" using vecs_nth(2) [OF v(1), of 0] l by simp
  note av = vecs_append [OF v(2,1)]
  have "wp (cloneBody (acc @ inputs) B (regionBody r) []) (\<lambda>res. wp (mapM (\<lambda>x. castM (localMap (acc @ inputs) res x)) (regionReturns r)) Q) s"
  proof (rule wp_cloneBody [OF inv av])
    show "vecs E s [] B (\<lambda>_. [])" by simp
    show "bodyOk (length (acc @ inputs)) (length ([] :: val list)) (regionBody r)" using r' l by (simp add: mult_2)
    show "y \<in> U" if "(f, xs) \<in> set (regionBody r)" "Outer y \<in> set xs" for f xs y using r(2) that by (auto simp: outsideUses_def)
    fix vs t assume t: "vext E U B s t" "length vs = length [] + length (regionBody r)" and V: "vecs E t vs B (\<lambda>idx.
      foldl (\<lambda>res (f, ys). res @ [elemSem E f (map (operandSem E (A idx @ X idx) res) ys)]) [] (regionBody r))"
    note avt = vecs_ext [OF av t(1)]
    let ?lm = "\<lambda>x. the (localMap (acc @ inputs) vs x)"
    have lm: "localMap (acc @ inputs) vs x = Some (?lm x) \<and> ?lm x < length (vcode t) \<and> vshape t (?lm x) = B \<and>
        (\<forall>idx. inB B idx \<longrightarrow> vval E t (?lm x) idx = operandSem E (A idx @ X idx)
          (foldl (\<lambda>res (f, ys). res @ [elemSem E f (map (operandSem E (A idx @ X idx) res) ys)]) [] (regionBody r)) x)"
      if "x \<in> set (regionReturns r)" for x
    proof (cases x)
      case (BArg i)
      then have "i < length (acc @ inputs)" using r' that l by fastforce
      then show ?thesis using BArg vecs_nth [OF avt] by (simp del: length_append)
    next
      case (BRes i)
      then have "i < length vs" using r' that t(2) by fastforce
      then show ?thesis using BRes vecs_nth [OF V] by simp
    qed (use r' that in auto)
    have Q: "Q (map ?lm (regionReturns r)) t"
      by (rule post [OF t(1)]) (use r' lm in \<open>auto simp: vecs_def combine_def Let_def\<close>)
    show "wp (mapM (\<lambda>x. castM (localMap (acc @ inputs) vs x)) (regionReturns r)) Q t"
    proof (subst mapM_ret [where g = ?lm])
      show "castM (localMap (acc @ inputs) vs x) = ret (?lm x)" if "x \<in> set (regionReturns r)" for x
        using lm [OF that] by (metis castM_Some)
    qed (simp add: wp_ret Q)
  qed
  then show ?thesis using l sh by (auto simp: accumulate_def wp_simps)
qed

end
