(* ===== verification/Scan_Main.thy ===== *)
theory Scan_Main
  imports Scan_Sound
begin

text \<open>
  The doubling scan along the last dimension and the accumulation along another one compute the
  sequential scan; the first needs the combine region to be associative.
\<close>

section \<open>Segments of an associative operation\<close>

definition assocOn :: "nat \<Rightarrow> ('a list \<Rightarrow> 'a list \<Rightarrow> 'a list) \<Rightarrow> bool" where
  "assocOn k f \<longleftrightarrow> (\<forall>a b c. length a = k \<longrightarrow> length b = k \<longrightarrow> length c = k \<longrightarrow> f (f a b) c = f a (f b c))"

definition segment :: "('a \<Rightarrow> 'a \<Rightarrow> 'a) \<Rightarrow> (int \<Rightarrow> 'a) \<Rightarrow> int \<Rightarrow> int \<Rightarrow> 'a" where
  "segment f y a b = foldl f (y a) (map y [a + 1..b])"

lemma segment_one [simp]: "segment f y a a = y a"
  by (simp add: segment_def)

lemma segment_last: "a \<le> b \<Longrightarrow> segment f y a (b + 1) = f (segment f y a b) (y (b + 1))"
  by (simp add: segment_def upto_rec2)

lemma segment_join:
  assumes f: "assocOn k f" "\<And>a b. length (f a b) = k" and y: "\<And>i. a \<le> i \<Longrightarrow> i \<le> c \<Longrightarrow> length (y i) = k" and b: "a \<le> b" "b < c"
  shows "f (segment f y a b) (segment f y (b + 1) c) = segment f y a c"
proof -
  have fold: "f u (foldl f v ws) = foldl f (f u v) ws" if "length u = k" "length v = k" "\<forall>w \<in> set ws. length w = k" for u v ws
    using that
  proof (induction ws arbitrary: v)
    case (Cons w ws)
    then show ?case using f by (simp add: assocOn_def)
  qed simp
  have "[a + 1..c] = [a + 1..b] @ (b + 1) # [b + 2..c]"
    using b upto_split3 [of "a + 1" "b + 1" c] by (simp add: algebra_simps)
  then have "segment f y a c = foldl f (f (segment f y a b) (y (b + 1))) (map y [b + 2..c])"
    by (simp add: segment_def)
  moreover have "length (segment f y a b) = k"
  proof (cases "a = b")
    case False
    then show ?thesis using segment_last [of a "b - 1" f y] b f(2) by simp
  qed (use y b in simp)
  ultimately show ?thesis
    using fold [of "segment f y a b" "y (b + 1)" "map y [b + 2..c]"] y b by (simp add: segment_def algebra_simps)
qed

section \<open>The scan by distance\<close>

text \<open>The index at distance \<open>p\<close> from the start of the scan, and back.\<close>

definition pos :: "bool \<Rightarrow> int \<Rightarrow> int \<Rightarrow> int" where
  "pos reverse n p = (if reverse then n - 1 - p else p)"

lemma pos_pos [simp]: "pos r n (pos r n p) = p"
  by (simp add: pos_def)

lemma pos_in: "0 \<le> pos r n p \<and> pos r n p < n \<longleftrightarrow> 0 \<le> p \<and> p < n"
  by (auto simp: pos_def)

lemma rev_upto: "rev [i..n - 1] = map (\<lambda>p. n - 1 - p) [0..n - 1 - i]"
proof (induction "nat (n - i)" arbitrary: i)
  case (Suc m)
  then have i: "i \<le> n - 1" "m = nat (n - (i + 1))" by auto
  have "[i..n - 1] = i # [i + 1..n - 1]" using i by (simp add: upto_rec1)
  moreover have "[0..n - 1 - i] = [0..n - 1 - (i + 1)] @ [n - 1 - i]" using i upto_rec2 [of 0 "n - 1 - i"] by simp
  ultimately show ?case using Suc(1) [OF i(2)] by simp
qed simp

lemma positions_start: "positions r (if r then n - 1 else 0) n = map (pos r n) [0..n - 1]"
  using rev_upto [of 0 n] by (simp add: positions_def pos_def [abs_def])

lemma scanSem_segment:
  assumes "0 \<le> idx ! k" "idx ! k < n"
  shows "scanSem f r k n x idx = segment f (\<lambda>p. x (idx[k := pos r n p])) 0 (pos r n (idx ! k))"
proof -
  have "(if r then rev [idx ! k..n - 1] else [0..idx ! k]) = map (pos r n) [0..pos r n (idx ! k)]"
    using rev_upto [of "idx ! k" n] by (simp add: pos_def [abs_def])
  moreover have "[0..pos r n (idx ! k)] = 0 # [1..pos r n (idx ! k)]"
    using assms pos_in [of r n "idx ! k"] by (simp add: upto_rec1)
  ultimately show ?thesis by (simp add: scanSem_def segment_def Let_def comp_def)
qed

section \<open>Shuffles and masks\<close>

lemma foldl_update:
  assumes "\<And>i. i \<in> set is \<Longrightarrow> 0 \<le> i \<and> nat i < length xs" "j < length xs"
  shows "foldl (\<lambda>xs i. xs[nat i := g i]) xs is ! j = (if int j \<in> set is then g (int j) else xs ! j)"
  using assms
proof (induction "is" arbitrary: xs)
  case (Cons i "is")
  then show ?case using Cons.IH [of "xs[nat i := g i]"] by (auto simp: nth_list_update)
qed simp

lemma shuffleIndices_at:
  assumes "0 < stride" "stride < n" "0 \<le> i" "i < n"
  shows "shuffleIndices r n stride ! nat i = (if stride \<le> pos r n i then pos r n (pos r n i - stride) else 0)"
  unfolding shuffleIndices_def Let_def using assms
  by (subst foldl_update) (auto simp: positions_def pos_def split: if_splits)

lemma maskVals_at:
  assumes "0 < stride" "stride < n" "0 \<le> i" "i < n"
  shows "maskVals r n stride ! nat i \<longleftrightarrow> stride \<le> pos r n i"
  using assms by (auto simp: maskVals_def nth_append pos_def nat_less_iff)

lemma foldl_update_length [simp]: "length (foldl (\<lambda>xs i. xs[nat i := g i]) xs is) = length xs"
  by (induction "is" arbitrary: xs) simp_all

lemma shuffleIndices_length [simp]: "length (shuffleIndices r n stride) = nat n"
  by (simp add: shuffleIndices_def Let_def)

lemma maskVals_length: "0 < stride \<Longrightarrow> stride < n \<Longrightarrow> length (maskVals r n stride) = nat n"
  by (simp add: maskVals_def nat_diff_distrib)

lemma vectors_fst: "v < length (vcode s) \<Longrightarrow> fst (vectors E (vcode s) ! v) = vshape s v"
  by (simp add: vectors_shape vshape_def entry_def)

text \<open>Vectors made of two lists of vectors, one by one.\<close>

lemma mapM_cong: "(\<And>x. x \<in> set xs \<Longrightarrow> f x = g x) \<Longrightarrow> mapM f xs = mapM g xs"
  by (induction xs) auto

lemma wp_zipped:
  assumes inv: "invOk E U B s" and l: "length as = length rs"
    and ok: "\<And>i t. i < length rs \<Longrightarrow> vext E U B s t \<Longrightarrow> shapesOk (map snd (vcode t)) (opn (as ! i) (rs ! i)) sh"
    and f: "\<And>i t idx. i < length rs \<Longrightarrow> vext E U B s t \<Longrightarrow> inB sh idx \<Longrightarrow> vopElem E (vectors E (vcode t)) (opn (as ! i) (rs ! i)) idx = f i idx"
    and post: "\<And>vs t. vext E U B s t \<Longrightarrow> length vs = length rs \<Longrightarrow> vecs E t vs sh (\<lambda>idx. map (\<lambda>i. f i idx) [0..<length rs]) \<Longrightarrow> Q vs t"
  shows "wp (mapM (\<lambda>i. bindM (atM as i) (\<lambda>a. bindM (atM rs i) (\<lambda>r. vcreate (opn a r) sh))) [0..<length rs]) Q s"
proof -
  have "mapM (\<lambda>i. bindM (atM as i) (\<lambda>a. bindM (atM rs i) (\<lambda>r. vcreate (opn a r) sh))) [0..<length rs] =
      mapM (\<lambda>i. vcreate (opn (as ! i) (rs ! i)) sh) [0..<length rs]"
    using l by (intro mapM_cong) simp
  moreover have "wp (mapM (\<lambda>i. vcreate (opn (as ! i) (rs ! i)) sh) [0..<length rs]) Q s"
    by (rule wp_vcreates [OF inv]) (use ok f post in auto)
  ultimately show ?thesis by simp
qed

lemma map_vals: "length rs = length ys \<Longrightarrow> map (\<lambda>i. g (ys ! i)) [0..<length rs] = map g ys"
  by (intro nth_equalityI) auto

section \<open>The last dimension\<close>

lemma inB_vec_one: "inB [n] idx \<longleftrightarrow> (\<exists>i. idx = [i] \<and> 0 \<le> i \<and> i < n)"
  by (auto simp: inB_def list_all2_Cons1)

lemma wp_scanStep:
  assumes inv: "invOk E U B s" and v: "vecs E s res [n] (\<lambda>idx. W (pos r n (hd idx)))" and l: "length res = k" "length dummies = k" "0 < k"
    and d: "\<forall>d \<in> set dummies. d < length (vcode s) \<and> vshape s d = [1]"
    and reg: "regionOk k cr" "outsideUses cr \<subseteq> U" and B: "B = [n]" and st: "0 < stride" "stride < n"
    and post: "\<And>res' t. vext E U B s t \<Longrightarrow> length res' = k \<Longrightarrow> vecs E t res' [n] (\<lambda>idx. let p = pos r n (hd idx) in
      if stride \<le> p then combine E cr (W (p - stride)) (W p) else W p) \<Longrightarrow> Q res' t"
  shows "wp (scanStep cr r n dummies res stride) Q s"
proof -
  let ?ks = "shuffleIndices r n stride"
  let ?sel = "\<lambda>newRes mask. mapM (\<lambda>i. bindM (atM newRes i) (\<lambda>y. bindM (atM res i) (\<lambda>x. vcreate (VSelect mask y x) [n]))) [0..<length res]"
  have W: "map (\<lambda>x. vval E s x [i]) res = W (pos r n i)" if "0 \<le> i" "i < n" for i
    using v that by (simp add: vecs_def inB_vec_one)
  have sh: "x < length (vcode s)" "vshape s x = [n]" if "x \<in> set res" for x using v that by (auto simp: vecs_def)
  have ks: "0 \<le> ?ks ! nat i \<and> ?ks ! nat i < n" if "0 \<le> i" "i < n" for i
    using that st pos_in [of r n "pos r n i - stride"] pos_in [of r n i] by (simp add: shuffleIndices_at)
  have split: "(\<lambda>(x, dummy). vcreate (VShuffle x dummy ?ks) [n]) = (\<lambda>p. vcreate (VShuffle (fst p) (snd p) ?ks) [n])" by auto
  have "wp (mapM (\<lambda>p. vcreate (VShuffle (fst p) (snd p) ?ks) [n]) (zip res dummies)) (\<lambda>shuffled. wp (accumulate res shuffled cr) (\<lambda>newRes.
      wp (vcreate (VMask (maskVals r n stride)) [n]) (\<lambda>mask. wp (?sel newRes mask) Q))) s"
  proof (rule wp_vcreates [OF inv, where f = "\<lambda>p idx. vval E s (fst p) [?ks ! nat (hd idx)]"])
    fix p t assume p: "p \<in> set (zip res dummies)" and t: "vext E U B s t"
    have x: "fst p \<in> set res" "snd p \<in> set dummies" using p set_zip_leftD [of "fst p" "snd p"] set_zip_rightD [of "fst p" "snd p"] by simp_all
    have a: "fst p < length (vcode t)" "vshape t (fst p) = [n]" "snd p < length (vcode t)" "vshape t (snd p) = [1]"
      using sh [OF x(1)] bspec [OF d x(2)] vextD(2,4) [OF t, of "fst p"] vextD(2,4) [OF t, of "snd p"] by simp_all
    have bounds: "0 \<le> k \<and> k < n + 1" if k: "k \<in> set ?ks" for k
    proof -
      obtain j where "j < nat n" "k = ?ks ! j" using k by (auto simp: in_set_conv_nth)
      moreover then have "int j < n" by simp
      ultimately show ?thesis using ks [of "int j"] by (simp add: less_imp_le)
    qed
    have "map snd (vcode t) ! fst p = [n]" "map snd (vcode t) ! snd p = [1]" using a by (simp_all add: vshape_def entry_def)
    then show "shapesOk (map snd (vcode t)) (VShuffle (fst p) (snd p) ?ks) [n]" using st a bounds by (simp add: shapesOk_def)
  next
    fix p t idx assume p: "p \<in> set (zip res dummies)" and t: "vext E U B s t" and i: "inB [n] idx"
    obtain i where i: "idx = [i]" "0 \<le> i" "i < n" using i by (auto simp: inB_vec_one)
    have x: "fst p \<in> set res" using p set_zip_leftD [of "fst p" "snd p"] by simp
    obtain vs vt where q: "vectors E (vcode t) ! fst p = (vs, vt)" by fastforce
    have "vs = [n]" "vt = vval E s (fst p)"
      using q vectors_fst [of "fst p" t E] vextD(2-4) [OF t sh(1) [OF x]] sh(2) [OF x] by (simp_all add: vval_def)
    then show "vopElem E (vectors E (vcode t)) (VShuffle (fst p) (snd p) ?ks) idx = vval E s (fst p) [?ks ! nat (hd idx)]"
      using q ks i by (cases "vectors E (vcode t) ! snd p") (simp add: vopElem_def)
  next
    fix shuffled t assume t: "vext E U B s t" "length shuffled = length (zip res dummies)"
      and V: "vecs E t shuffled [n] (\<lambda>idx. map (\<lambda>p. vval E s (fst p) [?ks ! nat (hd idx)]) (zip res dummies))"
    have V': "vecs E t shuffled [n] (\<lambda>idx. W (pos r n (?ks ! nat (hd idx))))"
    proof (rule vecs_cong [OF V])
      fix idx assume "inB [n] idx"
      then obtain i where i: "idx = [i]" "0 \<le> i" "i < n" by (auto simp: inB_vec_one)
      have "map (\<lambda>p. vval E s (fst p) [?ks ! nat (hd idx)]) (zip res dummies) = map (\<lambda>x. vval E s x [?ks ! nat i]) (map fst (zip res dummies))"
        by (simp add: i)
      then show "map (\<lambda>p. vval E s (fst p) [?ks ! nat (hd idx)]) (zip res dummies) = W (pos r n (?ks ! nat (hd idx)))"
        using l W ks [OF i(2,3)] i by simp
    qed
    show "wp (accumulate res shuffled cr) (\<lambda>newRes. wp (vcreate (VMask (maskVals r n stride)) [n]) (\<lambda>mask. wp (?sel newRes mask) Q)) t"
    proof (rule wp_accumulate [OF vextD(1) [OF t(1)] vecs_ext [OF v [folded B] t(1)] V' [folded B] l(1) _ l(3) reg])
      show "length shuffled = k" using t(2) l by simp
      fix newRes u assume u: "vext E U B t u" "length newRes = k"
        and N': "vecs E u newRes B (\<lambda>idx. combine E cr (W (pos r n (?ks ! nat (hd idx)))) (W (pos r n (hd idx))))"
      note su = vext_trans [OF t(1) u(1)] and N = N' [unfolded B]
      show "wp (vcreate (VMask (maskVals r n stride)) [n]) (\<lambda>mask. wp (?sel newRes mask) Q) u"
      proof (rule wp_vcreate [OF vextD(1) [OF u(1)]])
        show "shapesOk (map snd (vcode u)) (VMask (maskVals r n stride)) [n]" using st by (simp add: shapesOk_def maskVals_length)
        fix mask w assume w: "vext E U B u w" "mask < length (vcode w)" "vshape w mask = [n]" "vval E w mask = vopElem E (vectors E (vcode u)) (VMask (maskVals r n stride))"
        note sw = vext_trans [OF su w(1)]
        note N' = vecs_ext [OF N w(1)] and R' = vecs_ext [OF v sw]
        let ?f = "\<lambda>idx. if stride \<le> pos r n (hd idx) then combine E cr (W (pos r n (?ks ! nat (hd idx)))) (W (pos r n (hd idx))) else W (pos r n (hd idx))"
        show "wp (?sel newRes mask) Q w"
        proof (rule wp_zipped [OF vextD(1) [OF w(1)], where f = "\<lambda>i idx. ?f idx ! i"])
          show "shapesOk (map snd (vcode z)) (VSelect mask (newRes ! i) (res ! i)) [n]" if "i < length res" "vext E U B w z" for i z
            using that vextD(2,4) [OF that(2)] w(2,3) vecs_nth(1,2) [OF N'] vecs_nth(1,2) [OF R'] u(2) l by (simp add: shapesOk_def)
          fix i z idx assume i: "i < length res" and z: "vext E U B w z" and idx: "inB [n] idx"
          have m: "vval E z mask idx \<noteq> 0 \<longleftrightarrow> stride \<le> pos r n (hd idx)"
            using idx st maskVals_at [of stride n _ r] by (auto simp: inB_vec_one vextD(3) [OF z w(2)] w(4) vopElem_def split: if_splits)
          have "vval E z (newRes ! i) idx = combine E cr (W (pos r n (?ks ! nat (hd idx)))) (W (pos r n (hd idx))) ! i"
            "vval E z (res ! i) idx = W (pos r n (hd idx)) ! i"
            using vecs_nth(3) [OF vecs_ext [OF N' z] _ idx] vecs_nth(3) [OF vecs_ext [OF R' z] _ idx] i u(2) l by auto
          then show "vopElem E (vectors E (vcode z)) (VSelect mask (newRes ! i) (res ! i)) idx = ?f idx ! i"
            using m by (simp add: vopElem_def vval_def)
        next
          fix vs z assume z: "vext E U B w z" "length vs = length res" and V: "vecs E z vs [n] (\<lambda>idx. map (\<lambda>i. ?f idx ! i) [0..<length res])"
          show "Q vs z"
          proof (rule post [OF vext_trans [OF sw z(1)]])
            show "vecs E z vs [n] (\<lambda>idx. let p = pos r n (hd idx) in if stride \<le> p then combine E cr (W (p - stride)) (W p) else W p)"
            proof (rule vecs_cong [OF V])
              fix idx assume idx: "inB [n] idx"
              then obtain i where i: "idx = [i]" "0 \<le> i" "i < n" by (auto simp: inB_vec_one)
              have "length (W (pos r n i)) = k" using vecs_len [OF v idx] l i by simp
              then have "length (?f idx) = k" using combine_length [OF reg(1)] i by simp
              then have "map (\<lambda>i. ?f idx ! i) [0..<length res] = ?f idx" using l map_nth [of "?f idx"] by simp
              also have "\<dots> = (let p = pos r n (hd idx) in if stride \<le> p then combine E cr (W (p - stride)) (W p) else W p)"
                using shuffleIndices_at [OF st i(2,3), of r] by (simp add: Let_def i(1))
              finally show "map (\<lambda>i. ?f idx ! i) [0..<length res] =
                (let p = pos r n (hd idx) in if stride \<le> p then combine E cr (W (p - stride)) (W p) else W p)" .
            qed
          qed (use z l in simp)
        qed (use u l in simp)
      qed
    qed
  qed
  then show ?thesis unfolding scanStep_def split by (simp add: wp_simps)
qed

text \<open>After the step with a stride, the element at a distance holds the combination of twice as many elements.\<close>

definition window :: "('a \<Rightarrow> 'a \<Rightarrow> 'a) \<Rightarrow> (int \<Rightarrow> 'a) \<Rightarrow> int \<Rightarrow> int \<Rightarrow> 'a" where
  "window f y w p = segment f y (max 0 (p - w + 1)) p"

lemma window_double:
  assumes f: "assocOn k f" "\<And>a b. length (f a b) = k" and y: "\<And>i. 0 \<le> i \<Longrightarrow> i \<le> p \<Longrightarrow> length (y i) = k" and w: "0 < w" "0 \<le> p"
  shows "(if w \<le> p then f (window f y w (p - w)) (window f y w p) else window f y w p) = window f y (w * 2) p"
proof (cases "w \<le> p")
  case True
  have "f (segment f y (max 0 (p - w - w + 1)) (p - w)) (segment f y (p - w + 1) p) = segment f y (max 0 (p - w - w + 1)) p"
    using segment_join [OF f, of "max 0 (p - w - w + 1)" p y "p - w"] y True w by simp
  moreover have "p - w - w + 1 = p - w * 2 + 1" "max 0 (p - w + 1) = p - w + 1" using True by auto
  ultimately show ?thesis using True by (simp add: window_def mult.commute)
qed (use w in \<open>simp add: window_def\<close>)

lemma wp_doubling:
  assumes "invOk E U B s" and "vecs E s res [n] (\<lambda>idx. window (combine E r) y stride (pos rv n (hd idx)))"
    and "length res = k" "length dummies = k" "0 < k" and "regionOk k r" and "assocOn k (combine E r)" and "0 < stride"
    and "\<And>p. 0 \<le> p \<Longrightarrow> p < n \<Longrightarrow> length (y p) = k"
    and "\<And>res' t. vext E U B s t \<Longrightarrow> length res' = k \<Longrightarrow> vecs E t res' [n] (\<lambda>idx. segment (combine E r) y 0 (pos rv n (hd idx))) \<Longrightarrow> Q res' t"
    and "\<forall>d \<in> set dummies. d < length (vcode s) \<and> vshape s d = [1]" and "outsideUses r \<subseteq> U" and "B = [n]"
  shows "wp (foldM (scanStep r rv n dummies) res (doublings stride n)) Q s"
  using assms
proof (induction stride n arbitrary: s res rule: doublings.induct)
  case (1 stride n)
  show ?case
  proof (cases "stride < n")
    case True
    have "wp (scanStep r rv n dummies res stride) (\<lambda>res'. wp (foldM (scanStep r rv n dummies) res' (doublings (stride * 2) n)) Q) s"
    proof (rule wp_scanStep [OF 1(2-6) 1(12) 1(7) 1(13,14) 1(9) True])
      fix res' t assume t: "vext E U B s t" "length res' = k" and V: "vecs E t res' [n] (\<lambda>idx. let p = pos rv n (hd idx) in if stride \<le> p
        then combine E r (window (combine E r) y stride (p - stride)) (window (combine E r) y stride p) else window (combine E r) y stride p)"
      show "wp (foldM (scanStep r rv n dummies) res' (doublings (stride * 2) n)) Q t"
      proof (rule 1(1) [OF _ vextD(1) [OF t(1)] _ t(2) 1(5-8)])
        show "vecs E t res' [n] (\<lambda>idx. window (combine E r) y (stride * 2) (pos rv n (hd idx)))"
        proof (rule vecs_cong [OF V])
          fix idx assume "inB [n] idx"
          then have p: "0 \<le> pos rv n (hd idx)" "pos rv n (hd idx) < n" using pos_in [of rv n "hd idx"] by (auto simp: inB_vec_one)
          show "(let p = pos rv n (hd idx) in if stride \<le> p then combine E r (window (combine E r) y stride (p - stride))
            (window (combine E r) y stride p) else window (combine E r) y stride p) = window (combine E r) y (stride * 2) (pos rv n (hd idx))"
            unfolding Let_def by (rule window_double [OF 1(8) combine_length [OF 1(7)]]) (use 1(9,10) p in auto)
        qed
        show "Q res'' u" if "vext E U B t u" "length res'' = k" "vecs E u res'' [n] (\<lambda>idx. segment (combine E r) y 0 (pos rv n (hd idx)))" for res'' u
          using that by (intro 1(11) vext_trans [OF t(1)])
        show "\<forall>d \<in> set dummies. d < length (vcode t) \<and> vshape t d = [1]" using 1(12) vextD(2,4) [OF t(1)] by auto
      qed (use 1(9,10,13,14) True in simp_all)
    qed
    then show ?thesis using True 1(9) by (simp add: wp_simps doublings.simps [of stride n])
  next
    case False
    have "Q res s"
    proof (rule 1(11) [OF vext_refl [OF 1(2)] 1(4)], rule vecs_cong [OF 1(3)])
      fix idx assume "inB [n] idx"
      then have "pos rv n (hd idx) < n" using pos_in [of rv n "hd idx"] by (auto simp: inB_vec_one)
      then show "window (combine E r) y stride (pos rv n (hd idx)) = segment (combine E r) y 0 (pos rv n (hd idx))"
        using False by (simp add: window_def)
    qed
    then show ?thesis using False by (simp add: wp_simps doublings.simps [of stride n])
  qed
qed

lemma wp_lower1DInput:
  assumes inv: "invOk E U B s" and v: "vecs E s inputs [n] x" and l: "length inputs = k" "0 < k" and reg: "regionOk k r" "assocOn k (combine E r)"
    and U: "outsideUses r \<subseteq> U" and B: "B = [n]"
    and post: "\<And>res t. vext E U B s t \<Longrightarrow> length res = k \<Longrightarrow> vecs E t res [n] (scanSem (combine E r) rv 0 n x) \<Longrightarrow> Q res t"
  shows "wp (lower1DInput inputs r rv) Q s"
proof -
  let ?y = "\<lambda>p. x [pos rv n p]"
  have sh: "vshape s (inputs ! 0) = [n]" using vecs_nth(2) [OF v, of 0] l by simp
  have "wp (mapM (\<lambda>_. vcreate VZero [1]) inputs) (\<lambda>dummies. wp (foldM (scanStep r rv n dummies) inputs (doublings 1 n)) Q) s"
  proof (rule wp_vcreates [OF inv, where f = "\<lambda>_ _. 0"])
    fix dummies :: "val list" and t assume t: "vext E U B s t" "length dummies = length inputs"
      and D: "vecs E t dummies [1] (\<lambda>idx. map (\<lambda>_. 0) inputs)"
    show "wp (foldM (scanStep r rv n dummies) inputs (doublings 1 n)) Q t"
    proof (rule wp_doubling [OF vextD(1) [OF t(1)] _ l(1) _ l(2) reg, where y = ?y])
      show "vecs E t inputs [n] (\<lambda>idx. window (combine E r) ?y 1 (pos rv n (hd idx)))"
      proof (rule vecs_cong [OF vecs_ext [OF v t(1)]])
        fix idx assume "inB [n] idx"
        then obtain i where i: "idx = [i]" "0 \<le> i" "i < n" by (auto simp: inB_vec_one)
        moreover have "0 \<le> pos rv n i" using pos_in [of rv n i] i by simp
        ultimately show "x idx = window (combine E r) ?y 1 (pos rv n (hd idx))" by (simp add: window_def max_def)
      qed
      show "\<forall>d \<in> set dummies. d < length (vcode t) \<and> vshape t d = [1]" using D by (simp add: vecs_def)
      show "length (?y p) = k" if "0 \<le> p" "p < n" for p
        using vecs_len [OF v, of "[pos rv n p]"] pos_in [of rv n p] that l by (simp add: inB_vec_one)
      fix res u assume u: "vext E U B t u" "length res = k" "vecs E u res [n] (\<lambda>idx. segment (combine E r) ?y 0 (pos rv n (hd idx)))"
      have "vecs E u res [n] (scanSem (combine E r) rv 0 n x)"
        by (rule vecs_cong [OF u(3)]) (auto simp: inB_vec_one scanSem_segment)
      then show "Q res u" by (intro post vext_trans [OF t(1) u(1)] u(2))
    qed (use t l U B in simp_all)
  qed (simp_all add: vopElem_def shapesOk_def)
  then show ?thesis using l sh by (auto simp: lower1DInput_def wp_simps)
qed

section \<open>The first dimension\<close>

lemma inB_vec_Cons: "inB (n # sh) idx \<longleftrightarrow> (\<exists>i j. idx = i # j \<and> 0 \<le> i \<and> i < n \<and> inB sh j)"
  by (auto simp: inB_def list_all2_Cons1)

lemma wp_extracts:
  assumes "invOk E U B s" and "\<forall>v \<in> set inputs. v < length (vcode s) \<and> vshape s v = sh" and "length js \<le> length sh" "drop (length js) sh = sub"
    and "\<And>vs t. vext E U B s t \<Longrightarrow> length vs = length inputs \<Longrightarrow>
      vecs E t vs sub (\<lambda>j. map (\<lambda>v. vval E s v (js @ j)) inputs) \<Longrightarrow> Q vs t"
  shows "wp (mapM (\<lambda>x. vcreate (VExtract x js) sub) inputs) Q s"
proof (rule wp_vcreates [OF assms(1), where f = "\<lambda>v j. vval E s v (js @ j)"])
  fix x t assume x: "x \<in> set inputs" and t: "vext E U B s t"
  then have "x < length (vcode t)" "vshape t x = sh" using assms(2) vextD(2,4) [OF t] by auto
  moreover then have "map snd (vcode t) ! x = sh" by (simp add: vshape_def entry_def)
  moreover have "take (length js) sh @ sub = sh" using assms(3,4) by (metis append_take_drop_id)
  ultimately show "shapesOk (map snd (vcode t)) (VExtract x js) sub" by (simp add: shapesOk_def)
next
  show "vopElem E (vectors E (vcode t)) (VExtract x js) j = vval E s x (js @ j)" if "x \<in> set inputs" "vext E U B s t" for x t j
    using vextD(3) [OF that(2), of x] that(1) assms(2) by (simp add: vopElem_def vval_def)
qed (rule assms(5))

lemma wp_insertsAt:
  assumes inv: "invOk E U B s" and e: "vecs E s es sub F" and r: "vecs E s rs sh R" and l: "length es = length rs"
    and sub: "drop (length js) sh = sub" "\<And>idx. inB sh idx \<Longrightarrow> inB sub (drop (length js) idx)"
    and post: "\<And>vs t. vext E U B s t \<Longrightarrow> length vs = length rs \<Longrightarrow>
      vecs E t vs sh (\<lambda>idx. if take (length js) idx = js then F (drop (length js) idx) else R idx) \<Longrightarrow> Q vs t"
  shows "wp (mapM (\<lambda>i. bindM (atM es i) (\<lambda>e. bindM (atM rs i) (\<lambda>r. vcreate (VInsert e r js) sh))) [0..<length rs]) Q s"
proof (rule wp_zipped [OF inv l, where f = "\<lambda>i idx. (if take (length js) idx = js then F (drop (length js) idx) else R idx) ! i"])
  show "shapesOk (map snd (vcode t)) (VInsert (es ! i) (rs ! i) js) sh" if "i < length rs" "vext E U B s t" for i t
    using that vecs_nth(1,2) [OF vecs_ext [OF e that(2)]] vecs_nth(1,2) [OF vecs_ext [OF r that(2)]] l sub(1) by (simp add: shapesOk_def)
  fix i t idx assume i: "i < length rs" and t: "vext E U B s t" and idx: "inB sh idx"
  have "vval E t (es ! i) (drop (length js) idx) = F (drop (length js) idx) ! i" "vval E t (rs ! i) idx = R idx ! i"
    using vecs_nth(3) [OF vecs_ext [OF e t] _ sub(2) [OF idx]] vecs_nth(3) [OF vecs_ext [OF r t] _ idx] i l by auto
  then show "vopElem E (vectors E (vcode t)) (VInsert (es ! i) (rs ! i) js) idx =
      (if take (length js) idx = js then F (drop (length js) idx) else R idx) ! i"
    by (simp add: vopElem_def vval_def)
next
  fix vs t assume t: "vext E U B s t" "length vs = length rs"
    and V: "vecs E t vs sh (\<lambda>idx. map (\<lambda>i. (if take (length js) idx = js then F (drop (length js) idx) else R idx) ! i) [0..<length rs])"
  show "Q vs t"
  proof (rule post [OF t], rule vecs_cong [OF V])
    fix idx assume idx: "inB sh idx"
    have "length (if take (length js) idx = js then F (drop (length js) idx) else R idx) = length rs"
      using vecs_len [OF e sub(2) [OF idx]] vecs_len [OF r idx] l by simp
    then show "map (\<lambda>i. (if take (length js) idx = js then F (drop (length js) idx) else R idx) ! i) [0..<length rs] =
        (if take (length js) idx = js then F (drop (length js) idx) else R idx)"
      using map_nth [of "if take (length js) idx = js then F (drop (length js) idx) else R idx"] by simp
  qed
qed

lemma wp_vec_zeros:
  assumes "invOk E U B s" and "\<And>vs t. vext E U B s t \<Longrightarrow> length vs = length xs \<Longrightarrow> vecs E t vs sh (\<lambda>_. replicate (length xs) 0) \<Longrightarrow> Q vs t"
  shows "wp (mapM (\<lambda>_. vcreate VZero sh) xs) Q s"
  by (rule wp_vcreates [OF assms(1), where f = "\<lambda>_ _. 0"]) (use assms(2) in \<open>simp_all add: vopElem_def shapesOk_def map_replicate_const\<close>)

lemma wp_leadingStep:
  assumes inv: "invOk E U B s" and v: "vecs E s inputs (n # sub) x" and l: "length inputs = k" "0 < k"
    and reg: "regionOk k r" "outsideUses r \<subseteq> U" and B: "B = sub" and i: "0 \<le> i" "i < n" and R: "vecs E s res (n # sub) R" "length res = k"
    and A: "acc \<noteq> [] \<Longrightarrow> length acc = k \<and> vecs E s acc sub A"
    and post: "\<And>res' acc' t. vext E U B s t \<Longrightarrow> length res' = k \<Longrightarrow> length acc' = k \<Longrightarrow>
      vecs E t acc' sub (\<lambda>j. if acc = [] then x (i # j) else combine E r (A j) (x (i # j))) \<Longrightarrow>
      vecs E t res' (n # sub) (\<lambda>idx. if hd idx = i then if acc = [] then x (i # tl idx) else combine E r (A (tl idx)) (x (i # tl idx)) else R idx) \<Longrightarrow>
      Q (res', acc') t"
  shows "wp (leadingStep inputs r (n # sub) (res, acc) i) Q s"
proof -
  let ?F = "\<lambda>j. if acc = [] then x (i # j) else combine E r (A j) (x (i # j))"
  have inp: "\<forall>v \<in> set inputs. v < length (vcode s) \<and> vshape s v = n # sub" using v by (simp add: vecs_def)
  have "wp (mapM (\<lambda>x. vcreate (VExtract x [i]) sub) inputs) (\<lambda>subInputs. wp (accumulate subInputs acc r) (\<lambda>acc'.
      wp (mapM (\<lambda>j. bindM (atM acc' j) (\<lambda>a. bindM (atM res j) (\<lambda>r. vcreate (VInsert a r [i]) (n # sub)))) [0..<length res])
        (\<lambda>res'. Q (res', acc')))) s"
  proof (rule wp_extracts [OF inv inp])
    show "length [i] \<le> length (n # sub)" "drop (length [i]) (n # sub) = sub" by simp_all
    fix subs t assume t: "vext E U B s t" "length subs = length inputs" and S: "vecs E t subs sub (\<lambda>j. map (\<lambda>v. vval E s v ([i] @ j)) inputs)"
    have S': "vecs E t subs sub (\<lambda>j. x (i # j))"
      by (rule vecs_cong [OF S]) (use v i in \<open>simp add: vecs_def inB_vec_Cons\<close>)
    show "wp (accumulate subs acc r) (\<lambda>acc'. wp (mapM (\<lambda>j. bindM (atM acc' j) (\<lambda>a. bindM (atM res j)
        (\<lambda>r. vcreate (VInsert a r [i]) (n # sub)))) [0..<length res]) (\<lambda>res'. Q (res', acc'))) t"
    proof -
      have ins: "wp (mapM (\<lambda>j. bindM (atM acc' j) (\<lambda>a. bindM (atM res j) (\<lambda>r. vcreate (VInsert a r [i]) (n # sub)))) [0..<length res])
          (\<lambda>res'. Q (res', acc')) u" if u: "vext E U B t u" "length acc' = k" "vecs E u acc' sub ?F" for acc' u
      proof (rule wp_insertsAt [OF vextD(1) [OF u(1)] u(3) vecs_ext [OF R(1) vext_trans [OF t(1) u(1)]]])
        fix res' w assume w: "vext E U B u w" "length res' = length res"
          and V: "vecs E w res' (n # sub) (\<lambda>idx. if take (length [i]) idx = [i] then ?F (drop (length [i]) idx) else R idx)"
        show "Q (res', acc') w"
        proof (rule post [OF vext_trans [OF t(1) vext_trans [OF u(1) w(1)]] _ u(2) vecs_ext [OF u(3) w(1)]])
          show "vecs E w res' (n # sub) (\<lambda>idx. if hd idx = i then if acc = [] then x (i # tl idx) else combine E r (A (tl idx)) (x (i # tl idx)) else R idx)"
            by (rule vecs_cong [OF V]) (auto simp: inB_vec_Cons)
        qed (use w R in simp)
      qed (use u R in \<open>auto simp: inB_vec_Cons\<close>)
      show ?thesis
      proof (cases "acc = []")
        case True
        then show ?thesis using ins [OF vext_refl [OF vextD(1) [OF t(1)]], of subs] S' t l by (simp add: accumulate_def wp_ret)
      next
        case False
        show ?thesis
          by (rule wp_accumulate [OF vextD(1) [OF t(1)] S' [folded B] vecs_ext [OF conjunct2 [OF A [OF False]] t(1), folded B] _ _ l(2) reg])
            (use t l A [OF False] False B in \<open>auto intro!: ins\<close>)
      qed
    qed
  qed
  then show ?thesis by (simp add: leadingStep_def wp_simps)
qed

lemma wp_lowerLeadingDimension:
  assumes inv: "invOk E U B s" and v: "vecs E s inputs (n # sub) x" and l: "length inputs = k" "0 < k"
    and reg: "regionOk k r" "outsideUses r \<subseteq> U" and B: "B = sub"
    and post: "\<And>res t. vext E U B s t \<Longrightarrow> length res = k \<Longrightarrow> vecs E t res (n # sub) (scanSem (combine E r) rv 0 n x) \<Longrightarrow> Q res t"
  shows "wp (lowerLeadingDimension k inputs r rv) Q s"
proof -
  let ?seg = "\<lambda>m j. segment (combine E r) (\<lambda>p. x (pos rv n p # j)) 0 m"
  let ?ps = "map (pos rv n) [0..n - 1]"
  let ?I = "\<lambda>m (res, acc) t. vext E U B s t \<and> length res = k \<and> (acc = [] \<longleftrightarrow> m = 0) \<and>
    vecs E t res (n # sub) (\<lambda>idx. if pos rv n (hd idx) < int m then ?seg (pos rv n (hd idx)) (tl idx) else replicate k 0) \<and>
    (acc \<noteq> [] \<longrightarrow> length acc = k \<and> vecs E t acc sub (?seg (int m - 1)))"
  have sh: "vshape s (inputs ! 0) = n # sub" using vecs_nth(2) [OF v, of 0] l by simp
  have "wp (mapM (\<lambda>_. vcreate VZero (n # sub)) [0..<k]) (\<lambda>res.
      wp (foldM (leadingStep inputs r (n # sub)) (res, []) ?ps) (\<lambda>p. Q (fst p))) s"
  proof (rule wp_vec_zeros [OF inv])
    fix zs t assume t: "vext E U B s t" "length zs = length [0..<k]" "vecs E t zs (n # sub) (\<lambda>_. replicate (length [0..<k]) 0)"
    show "wp (foldM (leadingStep inputs r (n # sub)) (zs, []) ?ps) (\<lambda>p. Q (fst p)) t"
    proof (rule wp_foldM [where I = ?I])
      fix m p u assume m: "m < length ?ps" and I: "?I m p u"
      obtain res acc where p: "p = (res, acc)" by fastforce
      have mn: "?ps ! m = pos rv n (int m)" "int m < n" using m by simp_all
      have i: "0 \<le> pos rv n (int m)" "pos rv n (int m) < n" using pos_in [of rv n "int m"] mn by auto
      have u: "vext E U B s u" "length res = k" "acc = [] \<longleftrightarrow> m = 0"
        "vecs E u res (n # sub) (\<lambda>idx. if pos rv n (hd idx) < int m then ?seg (pos rv n (hd idx)) (tl idx) else replicate k 0)"
        "acc \<noteq> [] \<Longrightarrow> length acc = k \<and> vecs E u acc sub (?seg (int m - 1))"
        using I by (auto simp: p)
      have step: "(if acc = [] then x (pos rv n (int m) # j) else combine E r (?seg (int m - 1) j) (x (pos rv n (int m) # j))) = ?seg (int m) j" for j
        using u(3) segment_last [of 0 "int m - 1" "combine E r" "\<lambda>p. x (pos rv n p # j)"] by (cases m) (auto simp: add.commute)
      have "wp (leadingStep inputs r (n # sub) (res, acc) (pos rv n (int m))) (?I (Suc m)) u"
      proof (rule wp_leadingStep [where A = "?seg (int m - 1)", OF vextD(1) [OF u(1)] vecs_ext [OF v u(1)] l reg B i u(4,2)], unfold step, unfold prod.case, goal_cases)
        case 1
        then show ?case by (rule u(5))
      next
        case (2 res' acc' w)
        have "vecs E w res' (n # sub) (\<lambda>idx. if pos rv n (hd idx) < int (Suc m) then ?seg (pos rv n (hd idx)) (tl idx) else replicate k 0)"
        proof (rule vecs_cong [OF 2(5)])
          fix idx assume "inB (n # sub) idx"
          have "hd idx = pos rv n (int m) \<longleftrightarrow> pos rv n (hd idx) = int m" by (metis pos_pos)
          then show "(if hd idx = pos rv n (int m) then ?seg (int m) (tl idx)
              else if pos rv n (hd idx) < int m then ?seg (pos rv n (hd idx)) (tl idx) else replicate k 0) =
            (if pos rv n (hd idx) < int (Suc m) then ?seg (pos rv n (hd idx)) (tl idx) else replicate k 0)"
            by auto
        qed
        then show ?case using 2 vext_trans [OF u(1)] l(2) by auto
      qed
      then show "wp (leadingStep inputs r (n # sub) p (?ps ! m)) (?I (Suc m)) u" by (simp only: p mn)
    next
      have "vecs E t zs (n # sub) (\<lambda>idx. if pos rv n (hd idx) < int 0 then ?seg (pos rv n (hd idx)) (tl idx) else replicate k 0)"
      proof (rule vecs_cong [OF t(3)])
        fix idx assume "inB (n # sub) idx"
        then show "replicate (length [0..<k]) 0 = (if pos rv n (hd idx) < int 0 then ?seg (pos rv n (hd idx)) (tl idx) else replicate k 0)"
          using pos_in [of rv n "hd idx"] by (auto simp: inB_vec_Cons)
      qed
      then show "?I 0 (zs, []) t" using t by simp
    next
      fix p u assume I: "?I (length ?ps) p u"
      obtain res acc where p: "p = (res, acc)" by fastforce
      have u: "vext E U B s u" "length res = k"
        and V: "vecs E u res (n # sub) (\<lambda>idx. if pos rv n (hd idx) < int (length ?ps) then ?seg (pos rv n (hd idx)) (tl idx) else replicate k 0)"
        using I by (auto simp: p)
      have "Q res u"
      proof (rule post [OF u], rule vecs_cong [OF V])
        fix idx assume "inB (n # sub) idx"
        then obtain i j where i: "idx = i # j" "0 \<le> i" "i < n" by (auto simp: inB_vec_Cons)
        then show "(if pos rv n (hd idx) < int (length ?ps) then ?seg (pos rv n (hd idx)) (tl idx) else replicate k 0) =
            scanSem (combine E r) rv 0 n x idx"
          using pos_in [of rv n i] scanSem_segment [of idx 0 n "combine E r" rv x] by simp
      qed
      then show "Q (fst p) u" by (simp add: p)
    qed
  qed
  then show ?thesis
    using l sh by (auto simp: lowerLeadingDimension_def wp_simps positions_start case_prod_beta)
qed

section \<open>Sub-vectors\<close>

text \<open>
  What the lowering relies on: \<open>computeStrides\<close> gives the strides of the row-major order and
  \<open>delinearize\<close> takes the offset of a position back to the position.
\<close>

definition utilsOk :: "vec_utils \<Rightarrow> bool" where
  "utilsOk u \<longleftrightarrow> (\<forall>sh. computeStrides u sh = rowMajor sh) \<and> (\<forall>i strs. length (delinearize u i strs) = length strs) \<and>
     (\<forall>sh a js. (\<forall>n \<in> set sh. 0 < n) \<longrightarrow> a \<le> length sh \<longrightarrow> inB (take a sh) js \<longrightarrow>
       delinearize u (dot (take a (rowMajor sh)) js) (take a (rowMajor sh)) = js)"

lemma take_rowMajor: "a \<le> length sh \<Longrightarrow> take a (rowMajor sh) = map ((*) (prod_list (drop a sh))) (rowMajor (take a sh))"
proof (induction sh arbitrary: a)
  case (Cons n sh)
  have "prod_list (drop m sh) * prod_list (take m sh) = prod_list sh" for m
    by (metis append_take_drop_id mult.commute prod_list.append)
  then show ?case using Cons by (cases a) simp_all
qed simp

lemma prod_pos: "(\<And>n. n \<in> set sh \<Longrightarrow> 0 < n) \<Longrightarrow> 0 < (prod_list sh :: int)"
  by (induction sh) auto

lemma dot_scale: "dot (map ((*) c) as) idx = c * dot as idx"
  by (induction as idx rule: dot.induct) (simp_all add: algebra_simps)

lemma rowMajor_last: "sh \<noteq> [] \<Longrightarrow> last (rowMajor sh) = 1"
proof (induction sh)
  case (Cons n sh)
  then show ?case by (cases sh) auto
qed simp

lemma last_stride: "0 < a \<Longrightarrow> a \<le> length sh \<Longrightarrow> last (take a (rowMajor sh)) = prod_list (drop a sh)"
  by (simp add: take_rowMajor last_map rowMajor_last flip: length_greater_0_conv)

lemma multiples_in: "0 < step \<Longrightarrow> 0 \<le> m \<Longrightarrow> i + m * step < n \<Longrightarrow> i + m * step \<in> set (multiples i step n)"
proof (induction i step n arbitrary: m rule: multiples.induct)
  case (1 i step n)
  show ?case
  proof (cases "m = 0")
    case True
    then show ?thesis using 1 by (simp add: multiples.simps [of i step n])
  next
    case False
    have i: "i < n" using 1 by (smt (verit) mult_nonneg_nonneg)
    have "i + step + (m - 1) * step \<in> set (multiples (i + step) step n)"
      using 1 i False by (intro 1(1)) (auto simp: algebra_simps)
    then show ?thesis using i 1(2) by (simp add: multiples.simps [of i step n] algebra_simps)
  qed
qed

lemma inB_take_drop: "a \<le> length sh \<Longrightarrow> inB sh idx \<Longrightarrow> inB (take a sh) (take a idx) \<and> inB (drop a sh) (drop a idx)"
  using list_all2_takeI list_all2_dropI by (auto simp: inB_def)

text \<open>Every position of a sub-vector is visited.\<close>

lemma positions_covered:
  assumes u: "utilsOk u" and a: "0 < a" "a \<le> length sh" and idx: "inB sh idx"
  shows "take a idx \<in> (\<lambda>i. delinearize u i (take a (rowMajor sh))) ` set (multiples 0 (prod_list (drop a sh)) (prod_list sh))"
proof -
  have pos: "\<forall>n \<in> set sh. 0 < n" using idx by (auto simp: inB_def list_all2_conv_all_nth in_set_conv_nth) force
  have d: "0 < prod_list (drop a sh)" using pos by (intro prod_pos) (auto dest: in_set_dropD)
  note td = inB_take_drop [OF a(2) idx]
  let ?m = "dot (rowMajor (take a sh)) (take a idx)"
  have m: "0 \<le> ?m" "?m < prod_list (take a sh)" using dot_rowMajor_bound td by blast+
  have "dot (take a (rowMajor sh)) (take a idx) = ?m * prod_list (drop a sh)"
    using a by (simp add: take_rowMajor dot_scale)
  moreover have "?m * prod_list (drop a sh) < prod_list sh"
    using m d mult_strict_right_mono [of ?m "prod_list (take a sh)" "prod_list (drop a sh)"] by (simp flip: prod_list.append)
  ultimately have "dot (take a (rowMajor sh)) (take a idx) \<in> set (multiples 0 (prod_list (drop a sh)) (prod_list sh))"
    using multiples_in [OF d m(1), of 0 "prod_list sh"] by simp
  moreover have "delinearize u (dot (take a (rowMajor sh)) (take a idx)) (take a (rowMajor sh)) = take a idx"
    using u pos a td by (simp add: utilsOk_def)
  ultimately show ?thesis by force
qed

lemma wp_subVectors:
  assumes inv: "invOk E U B s" and v: "\<forall>v \<in> set inputs. v < length (vcode s) \<and> vshape s v = sh" and a: "a \<le> length sh" and js: "\<And>i. length (at i) = a"
    and low: "\<And>s' sub y R. invOk E U B s' \<Longrightarrow> vecs E s' sub (drop a sh) y \<Longrightarrow> length sub = length inputs \<Longrightarrow>
      (\<And>res t. vext E U B s' t \<Longrightarrow> length res = length inputs \<Longrightarrow> vecs E t res (drop a sh) (L y) \<Longrightarrow> R res t) \<Longrightarrow> wp (lower sub) R s'"
    and res: "vecs E s res sh Z" "length res = length inputs"
    and cov: "\<And>idx. inB sh idx \<Longrightarrow> take a idx \<in> at ` set is"
    and post: "\<And>res t. vext E U B s t \<Longrightarrow> length res = length inputs \<Longrightarrow>
      vecs E t res sh (\<lambda>idx. L (\<lambda>j. map (\<lambda>v. vval E s v (take a idx @ j)) inputs) (drop a idx)) \<Longrightarrow> Q res t"
  shows "wp (foldM (\<lambda>res i. subVectors lower inputs sh (drop a sh) res (at i)) res is) Q s"
proof (rule wp_foldM [where I = "\<lambda>m res t. vext E U B s t \<and> length res = length inputs \<and> vecs E t res sh (\<lambda>idx.
    if take a idx \<in> at ` set (take m is) then L (\<lambda>j. map (\<lambda>v. vval E s v (take a idx @ j)) inputs) (drop a idx) else Z idx)"])
  let ?F = "\<lambda>idx. L (\<lambda>j. map (\<lambda>v. vval E s v (take a idx @ j)) inputs) (drop a idx)"
  fix m res t assume m: "m < length is" and I: "vext E U B s t \<and> length res = length inputs \<and>
    vecs E t res sh (\<lambda>idx. if take a idx \<in> at ` set (take m is) then ?F idx else Z idx)"
  let ?js = "at (is ! m)"
  let ?ins = "\<lambda>es. mapM (\<lambda>i. bindM (atM es i) (\<lambda>e. bindM (atM res i) (\<lambda>r. vcreate (VInsert e r ?js) sh))) [0..<length res]"
  let ?I = "\<lambda>res t. vext E U B s t \<and> length res = length inputs \<and> vecs E t res sh (\<lambda>idx.
    if take a idx \<in> at ` set (take (Suc m) is) then ?F idx else Z idx)"
  have st: "vext E U B s t" using I by simp
  have vt: "\<forall>v \<in> set inputs. v < length (vcode t) \<and> vshape t v = sh" using v vextD(2,4) [OF st] by auto
  have "wp (mapM (\<lambda>x. vcreate (VExtract x ?js) (drop a sh)) inputs) (\<lambda>sub. wp (lower sub) (\<lambda>es. wp (?ins es) ?I)) t"
  proof (rule wp_extracts [OF vextD(1) [OF st] vt])
    show "length ?js \<le> length sh" "drop (length ?js) sh = drop a sh" using js a by simp_all
    fix sub u assume u: "vext E U B t u" "length sub = length inputs" and S: "vecs E u sub (drop a sh) (\<lambda>j. map (\<lambda>v. vval E t v (?js @ j)) inputs)"
    have S': "vecs E u sub (drop a sh) (\<lambda>j. map (\<lambda>v. vval E s v (?js @ j)) inputs)"
      by (rule vecs_cong [OF S]) (use v vextD(3) [OF st] in simp)
    show "wp (lower sub) (\<lambda>es. wp (?ins es) ?I) u"
    proof (rule low [OF vextD(1) [OF u(1)] S' u(2)])
      fix es w assume w: "vext E U B u w" "length es = length inputs" and V: "vecs E w es (drop a sh) (L (\<lambda>j. map (\<lambda>v. vval E s v (?js @ j)) inputs))"
      note tw = vext_trans [OF u(1) w(1)]
      show "wp (?ins es) ?I w"
      proof (rule wp_insertsAt [OF vextD(1) [OF w(1)] V vecs_ext [OF _ tw]])
        show "vecs E t res sh (\<lambda>idx. if take a idx \<in> at ` set (take m is) then ?F idx else Z idx)" using I by simp
        show "length es = length res" using I w by simp
        show "drop (length ?js) sh = drop a sh" using js by simp
        show "inB (drop a sh) (drop (length ?js) idx)" if "inB sh idx" for idx using inB_take_drop [OF a that] js by simp
        fix vs z assume z: "vext E U B w z" "length vs = length res" and N: "vecs E z vs sh (\<lambda>idx. if take (length ?js) idx = ?js
          then L (\<lambda>j. map (\<lambda>v. vval E s v (?js @ j)) inputs) (drop (length ?js) idx)
          else if take a idx \<in> at ` set (take m is) then ?F idx else Z idx)"
        have "vecs E z vs sh (\<lambda>idx. if take a idx \<in> at ` set (take (Suc m) is) then ?F idx else Z idx)"
          by (rule vecs_cong [OF N]) (use m js in \<open>auto simp: take_Suc_conv_app_nth\<close>)
        then show "?I vs z" using I z vext_trans [OF vext_trans [OF st tw] z(1)] by simp
      qed
    qed
  qed
  then show "wp (subVectors lower inputs sh (drop a sh) res (at (is ! m))) ?I t" by (simp add: subVectors_def wp_simps)
next
  fix res t assume I: "vext E U B s t \<and> length res = length inputs \<and> vecs E t res sh (\<lambda>idx. if take a idx \<in> at ` set (take (length is) is)
    then L (\<lambda>j. map (\<lambda>v. vval E s v (take a idx @ j)) inputs) (drop a idx) else Z idx)"
  then show "Q res t" by (intro post) (auto intro: vecs_cong simp: cov)
qed (use inv vext_refl res in auto)

section \<open>The scan\<close>

lemma scanSem_drop:
  assumes "a < length idx"
  shows "scanSem f r 0 n (\<lambda>j. x (take a idx @ j)) (drop a idx) = scanSem f r a n x idx"
proof -
  have "drop a idx = idx ! a # drop (Suc a) idx" using assms by (simp add: Cons_nth_drop_Suc)
  then have "take a idx @ (drop a idx)[0 := i] = idx[a := i]" for i
    using assms by (simp add: upd_conv_take_nth_drop)
  then show ?thesis using assms by (simp add: scanSem_def)
qed

lemma wp_convertScan:
  assumes inv: "invOk E U B s" and v: "\<forall>v \<in> set inputs. v < length (vcode s) \<and> vshape s v = sh" and l: "length inputs = k" "0 < k"
    and reg: "regionOk k r" and U: "outsideUses r \<subseteq> U" and axis: "axis < length sh" and u: "utilsOk u"
    and B: "B = (if axis = length sh - 1 then [sh ! axis] else drop (Suc axis) sh)"
    and assoc: "axis = length sh - 1 \<Longrightarrow> assocOn k (combine E r)"
    and post: "\<And>res t. vext E U B s t \<Longrightarrow> length res = k \<Longrightarrow> vecs E t res sh (scanSem (combine E r) rv axis (sh ! axis)
      (\<lambda>idx. map (\<lambda>v. vval E s v idx) inputs)) \<Longrightarrow> Q res t"
  shows "wp (convertScan u k inputs r rv axis) Q s"
proof -
  let ?x = "\<lambda>idx. map (\<lambda>v. vval E s v idx) inputs"
  have X: "vecs E s inputs sh ?x" using v by (simp add: vecs_def)
  have vl: "\<forall>v \<in> set inputs. v < length (vcode s) \<and> vshape s v = sh" using v by blast
  have sh: "vshape s (inputs ! 0) = sh" "inputs \<noteq> []" using v l by auto
  have drop: "drop axis sh = sh ! axis # drop (Suc axis) sh" using axis by (simp add: Cons_nth_drop_Suc)
  have loop: "wp (foldM (\<lambda>res i. subVectors lower inputs sh (drop axis sh) res (delinearize u i (take axis (rowMajor sh)))) res
      (multiples 0 (prod_list (drop axis sh)) (prod_list sh))) Q t"
    if t: "vext E U B s t" and z: "vecs E t res sh Z" "length res = k" and a: "0 < axis"
      and low: "\<And>s' sub y R. invOk E U B s' \<Longrightarrow> vecs E s' sub (drop axis sh) y \<Longrightarrow> length sub = k \<Longrightarrow> (\<And>res t. vext E U B s' t \<Longrightarrow> length res = k \<Longrightarrow>
        vecs E t res (drop axis sh) (scanSem (combine E r) rv 0 (sh ! axis) y) \<Longrightarrow> R res t) \<Longrightarrow> wp (lower sub) R s'"
    for t res Z lower
  proof (rule wp_subVectors [where L = "scanSem (combine E r) rv 0 (sh ! axis)" and a = axis])
    show "length (delinearize u i (take axis (rowMajor sh))) = axis" for i using u axis by (simp add: utilsOk_def)
    show "take axis idx \<in> (\<lambda>i. delinearize u i (take axis (rowMajor sh))) ` set (multiples 0 (prod_list (drop axis sh)) (prod_list sh))"
      if "inB sh idx" for idx using positions_covered [OF u a _ that] axis by simp
    fix res' w assume w: "vext E U B t w" "length res' = length inputs"
      and V: "vecs E w res' sh (\<lambda>idx. scanSem (combine E r) rv 0 (sh ! axis) (\<lambda>j. map (\<lambda>v. vval E t v (take axis idx @ j)) inputs) (drop axis idx))"
    show "Q res' w"
    proof (rule post [OF vext_trans [OF t w(1)]], rule_tac [2] vecs_cong [OF V])
      fix idx assume "inB sh idx"
      then have "axis < length idx" using axis inB_length by simp
      then show "scanSem (combine E r) rv 0 (sh ! axis) (\<lambda>j. map (\<lambda>v. vval E t v (take axis idx @ j)) inputs) (drop axis idx) =
          scanSem (combine E r) rv axis (sh ! axis) ?x idx"
        using vl vextD(3) [OF t] scanSem_drop [of axis idx "combine E r" rv "sh ! axis" ?x] by (simp cong: map_cong)
    qed (use w l in simp)
  qed (use t vextD(1,2,4) [OF t] vl z l axis low in auto)
  show ?thesis
  proof (cases "axis = length sh - 1")
    case True
    note as = assoc [OF True]
    have "wp (lowerTrailingDimension u k inputs r rv) Q s"
    proof (cases "length sh = 1")
      case one: True
      then obtain n where n: "sh = [n]" by (auto simp: length_Suc_conv)
      show ?thesis
        using wp_lower1DInput [OF inv X [unfolded n] l reg as U, where Q = Q] post True n sh B
        by (simp add: lowerTrailingDimension_def wp_simps)
    next
      case False
      then have a: "0 < axis" using True axis by simp
      have B1: "B = [sh ! axis]" using B True by simp
      have dl: "drop axis sh = [sh ! axis]" "last sh = sh ! axis" "prod_list (drop axis sh) = sh ! axis"
        using drop True axis by (simp_all add: last_conv_nth flip: length_greater_0_conv)
      have bl: "butlast (computeStrides u sh) = take axis (rowMajor sh)"
        using u True by (simp add: utilsOk_def butlast_conv_take)
      have "wp (mapM (\<lambda>_. vcreate VZero sh) [0..<k]) (\<lambda>res. wp (foldM (\<lambda>res i. subVectors (\<lambda>sub. lower1DInput sub r rv) inputs sh
          (drop axis sh) res (delinearize u i (take axis (rowMajor sh)))) res (multiples 0 (prod_list (drop axis sh)) (prod_list sh))) Q) s"
      proof (rule wp_vec_zeros [OF inv], rule loop)
        show "wp (lower1DInput sub r rv) R s'" if "invOk E U B s'" "vecs E s' sub (drop axis sh) y" "length sub = k"
          "\<And>res t. vext E U B s' t \<Longrightarrow> length res = k \<Longrightarrow> vecs E t res (drop axis sh) (scanSem (combine E r) rv 0 (sh ! axis) y) \<Longrightarrow> R res t"
          for s' sub y R
          using that by (intro wp_lower1DInput [OF that(1) _ that(3) l(2) reg as U B1]) (simp_all add: dl(1))
      qed (use a in auto)
      then show ?thesis using False sh axis dl bl by (auto simp: lowerTrailingDimension_def wp_simps)
    qed
    then show ?thesis using sh True axis by (auto simp: convertScan_def wp_simps)
  next
    case False
    have B2: "B = drop (Suc axis) sh" using B False by simp
    have "wp (lowerNonTrailingDimension u k inputs r rv axis) Q s"
    proof (cases "axis = 0")
      case True
      then have sh0: "sh = sh ! axis # drop (Suc axis) sh" using drop by simp
      have "wp (lowerLeadingDimension k inputs r rv) Q s"
      proof (rule wp_lowerLeadingDimension [OF inv _ l reg U])
        show "B = drop (Suc axis) sh" using B False by simp
        show "vecs E s inputs (sh ! axis # drop (Suc axis) sh) ?x" using X sh0 by metis
        show "Q res t" if "vext E U B s t" "length res = k"
          "vecs E t res (sh ! axis # drop (Suc axis) sh) (scanSem (combine E r) rv 0 (sh ! axis) ?x)" for res t
          using that True unfolding sh0 [symmetric] by (intro post) simp_all
      qed
      then show ?thesis using True by (simp add: lowerNonTrailingDimension_def)
    next
      case a: False
      have st: "take axis (computeStrides u sh) = take axis (rowMajor sh)" "take axis (rowMajor sh) \<noteq> []"
        "computeStrides u sh \<noteq> []" "last (take axis (rowMajor sh)) = prod_list (drop axis sh)"
        using u a axis last_stride [of axis sh] by (auto simp: utilsOk_def simp flip: length_greater_0_conv)
      have "wp (mapM (\<lambda>_. vcreate VZero sh) [0..<k]) (\<lambda>res. wp (foldM (\<lambda>res i. subVectors (\<lambda>sub. lowerLeadingDimension k sub r rv) inputs sh
          (drop axis sh) res (delinearize u i (take axis (rowMajor sh)))) res (multiples 0 (prod_list (drop axis sh)) (prod_list sh))) Q) s"
      proof (rule wp_vec_zeros [OF inv], rule loop)
        show "wp (lowerLeadingDimension k sub r rv) R s'" if "invOk E U B s'" "vecs E s' sub (drop axis sh) y" "length sub = k"
          "\<And>res t. vext E U B s' t \<Longrightarrow> length res = k \<Longrightarrow> vecs E t res (drop axis sh) (scanSem (combine E r) rv 0 (sh ! axis) y) \<Longrightarrow> R res t"
          for s' sub y R
          using that unfolding drop by (intro wp_lowerLeadingDimension [OF that(1) _ that(3) l(2) reg U B2])
      qed (use a in auto)
      then show ?thesis using a sh st by (auto simp: lowerNonTrailingDimension_def wp_simps Let_def)
    qed
    then show ?thesis using sh False axis by (auto simp: convertScan_def wp_simps)
  qed
qed

end
