(* ===== verification/Claims_Scan.thy ===== *)
theory Claims_Scan
  imports Scan_Main
begin

text \<open>The property of the lowering of scans, with an instance of it, and a limit of the lowering.\<close>

section \<open>A running sum of rows\<close>

text \<open>0 is an operand of two rows of four elements; the region adds the accumulator and the element.\<close>

definition scanDemo :: "unit vec_state" where
  "scanDemo = \<lparr>vcode = [(VInput 0, [2, 4])], invariants = []\<rparr>"

definition sumRegion :: "unit region" where
  "sumRegion = \<lparr>regionBody = [((), [BArg 0, BArg 1])], regionReturns = [BRes 0]\<rparr>"

definition sumMeaning :: "unit meaning" where
  "sumMeaning = \<lparr>elemSem = (\<lambda>_ xs. sum_list xs), scanArgs = (\<lambda>_ idx. sum_list idx), outerVals = (\<lambda>_. 0), invalidElem = (\<lambda>_. 0)\<rparr>"

fun divideOut :: "int \<Rightarrow> int list \<Rightarrow> int list" where
  "divideOut i [] = []"
| "divideOut i (s # ss) = i div s # divideOut (i mod s) ss"

definition demoUtils :: vec_utils where
  "demoUtils = \<lparr>computeStrides = rowMajor, delinearize = divideOut\<rparr>"

lemma divideOut_length [simp]: "length (divideOut i ss) = length ss"
  by (induction i ss rule: divideOut.induct) simp_all

lemma divideOut_dot:
  assumes "\<forall>n \<in> set sh. 0 < n" "a \<le> length sh" "inB (take a sh) js"
  shows "divideOut (dot (take a (rowMajor sh)) js) (take a (rowMajor sh)) = js"
  using assms
proof (induction sh arbitrary: a js)
  case (Cons n sh)
  show ?case
  proof (cases a)
    case (Suc b)
    then obtain i ks where js: "js = i # ks" "0 \<le> i" "i < n" "inB (take b sh) ks" using Cons.prems(3) by (auto simp: inB_vec_Cons)
    have p: "0 < prod_list sh" using Cons.prems(1) by (intro prod_pos) simp
    have b: "b \<le> length sh" using Cons.prems(2) Suc by simp
    have d: "0 < prod_list (drop b sh)" using Cons.prems(1) by (intro prod_pos) (auto dest: in_set_dropD)
    have "dot (take b (rowMajor sh)) ks = prod_list (drop b sh) * dot (rowMajor (take b sh)) ks"
      using b by (simp add: take_rowMajor dot_scale)
    moreover have "prod_list sh = prod_list (drop b sh) * prod_list (take b sh)"
      by (metis append_take_drop_id mult.commute prod_list.append)
    ultimately have "0 \<le> dot (take b (rowMajor sh)) ks" "dot (take b (rowMajor sh)) ks < prod_list sh"
      using dot_rowMajor_bound [OF js(4)] d by simp_all
    then show ?thesis using Cons.IH [OF _ b js(4)] Cons.prems(1) Suc js(1) p by (simp add: div_pos_pos_trivial)
  qed (use Cons.prems in simp)
qed simp

lemma demoUtils_ok: "utilsOk demoUtils"
  by (simp add: utilsOk_def demoUtils_def divideOut_dot)

lemma sumRegion_sum: "combine sumMeaning sumRegion a b = [sum_list [(a @ b) ! 0, (a @ b) ! 1]]"
  by (simp add: combine_def sumRegion_def sumMeaning_def)

lemma sumRegion_assoc: "assocOn 1 (combine sumMeaning sumRegion)"
  by (auto simp: assocOn_def sumRegion_sum nth_append)

section \<open>Properties\<close>

text \<open>C10: the vector code of a scan computes the sequential scan, forward or in reverse, along any
  axis and for any rank: the element at an index combines the elements along the axis from the start
  of the scan to the index, in their order.  Along the last axis, where the code is a doubling scan
  of shuffles, this needs the combine region to be associative; along the others it does not.  The
  values that the region takes from outside must not have been broadcast to another shape by a scan
  that was lowered before.  Operations on vectors of different shapes have arbitrary elements, so that
  the code for the result has none.\<close>

theorem scan_correct:
  assumes "invOk E (outsideUses r) (workShape sh axis) s"
    and "\<forall>v \<in> set inputs. v < length (vcode s) \<and> vshape s v = sh" and "inputs \<noteq> []"
    and "regionOk (length inputs) r" and "axis < length sh" and "utilsOk u"
    and "axis = length sh - 1 \<Longrightarrow> assocOn (length inputs) (combine E r)"
  shows "\<exists>res t. convertScan u (length inputs) inputs r reverse axis s = (Inr res, t) \<and> length res = length inputs \<and>
    (\<forall>idx. inB sh idx \<longrightarrow> map (\<lambda>v. vval E t v idx) res =
      scanSem (combine E r) reverse axis (sh ! axis) (\<lambda>idx. map (\<lambda>v. vval E s v idx) inputs) idx)"
proof -
  have "wp (convertScan u (length inputs) inputs r reverse axis) (\<lambda>res t. length res = length inputs \<and>
    (\<forall>idx. inB sh idx \<longrightarrow> map (\<lambda>v. vval E t v idx) res =
      scanSem (combine E r) reverse axis (sh ! axis) (\<lambda>idx. map (\<lambda>v. vval E s v idx) inputs) idx)) s"
    by (rule wp_convertScan [OF assms(1,2) refl _ assms(4) subset_refl assms(5,6) workShape_def assms(7)]) (use assms(3) in \<open>auto simp: vecs_def\<close>)
  then show ?thesis by (auto simp: wp_def)
qed

theorem scan_correct_witness:
  "\<exists>res t. convertScan demoUtils (length [0 :: val]) [0] sumRegion True 1 scanDemo = (Inr res, t) \<and> length res = length [0 :: val] \<and>
    (\<forall>idx. inB [2, 4] idx \<longrightarrow> map (\<lambda>v. vval sumMeaning t v idx) res =
      scanSem (combine sumMeaning sumRegion) True 1 ([2, 4] ! 1) (\<lambda>idx. map (\<lambda>v. vval sumMeaning scanDemo v idx) [0]) idx)"
  by (rule scan_correct) (use sumRegion_assoc in
    \<open>simp_all add: demoUtils_ok invOk_def scanDemo_def vshape_def entry_def regionOk_def sumRegion_def\<close>)

section \<open>A limit of the lowering\<close>

text \<open>
  A value from outside of the region is broadcast once, to the shape of the vectors it is first met with.
  When the lowering meets it again with vectors of another shape, it applies the operation to vectors
  of different shapes: here after a scan of two elements one of four.
\<close>

definition outerRegion :: "unit region" where
  "outerRegion = \<lparr>regionBody = [((), [BArg 0, BArg 1, Outer 7])], regionReturns = [BRes 0]\<rparr>"

definition twoScans :: "unit vec_state" where
  "twoScans = \<lparr>vcode = [(VInput 0, [2]), (VInput 1, [4])], invariants = []\<rparr>"

theorem scan_broadcast_of_other_shape:
  "case convertScan demoUtils 1 [0] outerRegion False 0 twoScans of
     (Inr _, t) \<Rightarrow> (case convertScan demoUtils 1 [1] outerRegion False 0 t of
       (Inr _, u) \<Rightarrow> list_ex (\<lambda>(opn, sh). case opn of
           VApply f xs \<Rightarrow> sh = [4] \<and> list_ex (\<lambda>x. vshape u x = [2]) xs | _ \<Rightarrow> False) (vcode u)
     | _ \<Rightarrow> False)
   | _ \<Rightarrow> False"
  by code_simp

end
