(* ===== verification/Linalg.thy ===== *)
theory Linalg
  imports Scan_Main
begin

text \<open>
  The tensor code that \<open>TritonArithToLinalg\<close> emits, and what it means.  As elsewhere a value is the
  position of its operation in a table; an operation with several results has an entry for each of
  them, with the number of the result last.
\<close>

section \<open>Scalar operations and regions\<close>

datatype fpred = OEQ | OGT | OGE | OLT | OLE | OtherFPred

datatype fvalue = FZero | FOne | FInf | FNegInf | FOther int

datatype const_value = IConst int | FConst fvalue

text \<open>The operations of the regions; the last three read the index of the iteration, a constant, and a tensor.\<close>

datatype sop =
    SAddF | SMulF | SMaximumF | SMaxNumF | SMinimumF | SMinNumF
  | SAddI | SMulI | SAndI | SOrI | SXOrI | SMinSI | SMinUI | SMaxSI | SMaxUI
  | SCmpF fpred | SCmpI pred | SSelect
  | SExtF | STruncF | SIndexCast
  | SOther nat
  | SIndex nat | SConst const_value | SExtract val

text \<open>An operation goes with its type, a comparison with the type of its operands.\<close>

type_synonym sregion = "(sop \<times> ty) region"

section \<open>Tensor operations\<close>

text \<open>The results of the affine map of an input: the constant 0 or a dimension of the iteration space.\<close>

datatype map_expr = MZero | MDim nat

datatype lop =
    LInput nat
  | LConst const_value
  | LSplat val \<comment> \<open>\<open>tt.splat\<close>\<close>
  | LMakeRange int int \<comment> \<open>\<open>tt.make_range\<close>\<close>
  | LDense const_value \<comment> \<open>a dense constant that is a splat\<close>
  | LEmpty
  | LFill val val \<comment> \<open>value, init\<close>
  | LGeneric "map_expr list list" "val list" val sregion "int list option"
      \<comment> \<open>parallel \<open>linalg.generic\<close>: maps, inputs, init, region, \<open>broadcastDims\<close>\<close>
  | LTranspose val val "nat list"
  | LReduce "val list" "val list" "nat list" sregion nat \<comment> \<open>inputs, inits, dimensions, region, result number\<close>
  | LMatmul val val val
  | LElementwise sop "val list"
  | LExtract val "int list"
  | LInsert val val "int list" \<comment> \<open>scalar, destination, position\<close>
  | LCollapse val "nat list list"
  | LExpand val "nat list list"
  | LReshape val
  | LExtractSlice val "int list" "int list" "int list" \<comment> \<open>offsets, sizes, strides\<close>
  | LInsertSlice val val "int list" "int list" "int list" \<comment> \<open>source, destination, offsets, sizes, strides\<close>
  | LConcat nat "val list"
  | LFor int int "val list" sregion nat \<comment> \<open>bounds, inits, body (induction variable first), result number\<close>

type_synonym ltable = "(lop \<times> ty) list"

type_synonym 'a lm = "(ltable, 'a) run"

definition lcreate :: "lop \<Rightarrow> ty \<Rightarrow> val lm" where
  "lcreate opn t = (\<lambda>s. (Inr (length s), s @ [(opn, t)]))"

definition lopOf :: "ltable \<Rightarrow> val \<Rightarrow> lop" where
  "lopOf s v = fst (entry (LEmpty, NoneTy) s v)"

definition ltyOf :: "ltable \<Rightarrow> val \<Rightarrow> ty" where
  "ltyOf s v = snd (entry (LEmpty, NoneTy) s v)"

section \<open>Meaning\<close>

text \<open>
  Integers are computed at the width of the type with wrap-around; a floating-point number is any
  code for it, and the arithmetic on the codes is a parameter.
\<close>

record float_ops =
  fbin :: "sop \<Rightarrow> ty \<Rightarrow> int \<Rightarrow> int \<Rightarrow> int"
  fcmp :: "fpred \<Rightarrow> int \<Rightarrow> int \<Rightarrow> bool"
  fcast :: "sop \<Rightarrow> ty \<Rightarrow> int \<Rightarrow> int"
  fval :: "fvalue \<Rightarrow> ty \<Rightarrow> int"
  fother :: "nat \<Rightarrow> ty \<Rightarrow> int list \<Rightarrow> int"

definition constSem :: "float_ops \<Rightarrow> const_value \<Rightarrow> ty \<Rightarrow> int" where
  "constSem F c t = (case c of IConst n \<Rightarrow> norm t n | FConst x \<Rightarrow> fval F x (elemTy t))"

definition bool1 :: "bool \<Rightarrow> int" where
  "bool1 b = wrap 1 (if b then 1 else 0)"

definition sopSem :: "float_ops \<Rightarrow> (val \<Rightarrow> int list \<Rightarrow> int) \<Rightarrow> int list \<Rightarrow> sop \<Rightarrow> ty \<Rightarrow> int list \<Rightarrow> int" where
  "sopSem F look idx f t xs = (let a = xs ! 0; b = xs ! 1; w = width t in
     case f of
       SAddI \<Rightarrow> wrap w (a + b) | SMulI \<Rightarrow> wrap w (a * b)
     | SAndI \<Rightarrow> wrap w (Bit_Operations.and a b) | SOrI \<Rightarrow> wrap w (Bit_Operations.or a b)
     | SXOrI \<Rightarrow> wrap w (Bit_Operations.xor a b)
     | SMinSI \<Rightarrow> wrap w (min a b) | SMaxSI \<Rightarrow> wrap w (max a b)
     | SMinUI \<Rightarrow> wrap w (min (take_bit w a) (take_bit w b)) | SMaxUI \<Rightarrow> wrap w (max (take_bit w a) (take_bit w b))
     | SCmpF p \<Rightarrow> bool1 (fcmp F p a b) | SCmpI p \<Rightarrow> bool1 (cmpPred p w a b)
     | SSelect \<Rightarrow> if a \<noteq> 0 then b else xs ! 2
     | SExtF \<Rightarrow> fcast F f t a | STruncF \<Rightarrow> fcast F f t a
     | SIndexCast \<Rightarrow> wrap w a
     | SIndex i \<Rightarrow> idx ! i | SConst c \<Rightarrow> constSem F c t | SExtract v \<Rightarrow> look v xs
     | SOther n \<Rightarrow> fother F n t xs
     | _ \<Rightarrow> fbin F f t a b)"

fun sargSem :: "(val \<Rightarrow> int list \<Rightarrow> int) \<Rightarrow> int list \<Rightarrow> int list \<Rightarrow> operand \<Rightarrow> int" where
  "sargSem look args res (BArg i) = args ! i"
| "sargSem look args res (BRes i) = res ! i"
| "sargSem look args res (Outer v) = look v []"

definition regionSem :: "float_ops \<Rightarrow> (val \<Rightarrow> int list \<Rightarrow> int) \<Rightarrow> int list \<Rightarrow> sregion \<Rightarrow> int list \<Rightarrow> int list" where
  "regionSem F look idx r args =
     (let res = foldl (\<lambda>res ((f, t), ys). res @ [sopSem F look idx f t (map (sargSem look args res) ys)]) [] (regionBody r)
      in map (sargSem look args res) (regionReturns r))"

text \<open>The dimension \<open>i\<close> of the result of a transpose is the dimension \<open>perm ! i\<close> of its input.\<close>

definition permuted :: "nat list \<Rightarrow> int list \<Rightarrow> int list" where
  "permuted perm idx = map (\<lambda>d. idx ! length (takeWhile (\<lambda>x. x \<noteq> d) perm)) [0..<length perm]"

text \<open>The dimensions of \<open>dims\<close> from the first list, the others from the second, in their order.\<close>

fun mergeIdx :: "nat list \<Rightarrow> nat list \<Rightarrow> int list \<Rightarrow> int list \<Rightarrow> int list" where
  "mergeIdx dims [] ks js = []"
| "mergeIdx dims (d # ds) ks js =
     (if d \<in> set dims then hd ks # mergeIdx dims ds (tl ks) js else hd js # mergeIdx dims ds ks (tl js))"

definition mapIdx :: "map_expr list \<Rightarrow> int list \<Rightarrow> int list" where
  "mapIdx m idx = map (\<lambda>e. case e of MZero \<Rightarrow> 0 | MDim i \<Rightarrow> idx ! i) m"

text \<open>What the verifier of a reshape requires of its groups; all dimensions are static.\<close>

definition groupsOk :: "int list \<Rightarrow> int list \<Rightarrow> nat list list \<Rightarrow> bool" where
  "groupsOk expanded collapsed groups \<longleftrightarrow>
     (if collapsed = [] then groups = [] \<and> (\<forall>n \<in> set expanded. n = 1)
      else concat groups = [0..<length expanded] \<and> [] \<notin> set groups \<and>
        collapsed = map (\<lambda>g. prod_list (map ((!) expanded) g)) groups)"

definition relayout :: "int list \<Rightarrow> int list \<Rightarrow> int list \<Rightarrow> int list" where
  "relayout src dst idx = MLIR.delinearize src (linearize dst idx)"

fun concatSem :: "nat \<Rightarrow> (int list \<times> (int list \<Rightarrow> int)) list \<Rightarrow> int list \<Rightarrow> int" where
  "concatSem d [] idx = 0"
| "concatSem d ((sh, f) # xs) idx = (if idx ! d < sh ! d then f idx else concatSem d xs (idx[d := idx ! d - sh ! d]))"

text \<open>
  \<open>linputs\<close> are the tensors the code starts from; what an empty tensor holds, and what an ill-formed
  reshape means, is not known (\<open>junk\<close>).
\<close>

record lenv =
  fops :: float_ops
  linputs :: "nat \<Rightarrow> int list \<Rightarrow> int"
  junk :: "val \<Rightarrow> int list \<Rightarrow> int"

definition isCmp :: "sop \<Rightarrow> bool" where
  "isCmp f = (case f of SCmpF _ \<Rightarrow> True | SCmpI _ \<Rightarrow> True | _ \<Rightarrow> False)"

definition mulAdd :: "float_ops \<Rightarrow> ty \<Rightarrow> int \<Rightarrow> int \<Rightarrow> int \<Rightarrow> int" where
  "mulAdd F e acc a b =
     (if isFloatLike e then fbin F SAddF e acc (fbin F SMulF e (fcast F SExtF e a) (fcast F SExtF e b)) else wrap (width e) (acc + a * b))"

definition lopSem :: "lenv \<Rightarrow> (ty \<times> (int list \<Rightarrow> int)) list \<Rightarrow> lop \<Rightarrow> ty \<Rightarrow> int list \<Rightarrow> int" where
  "lopSem E vs opn t idx = (let F = fops E; look = (\<lambda>v. snd (vs ! v)); sh = (\<lambda>v. shapeOf (fst (vs ! v))) in
     case opn of
       LInput k \<Rightarrow> linputs E k idx
     | LConst c \<Rightarrow> constSem F c t
     | LSplat v \<Rightarrow> look v []
     | LMakeRange a b \<Rightarrow> wrap (width t) (a + idx ! 0)
     | LDense c \<Rightarrow> constSem F c t
     | LEmpty \<Rightarrow> junk E (length vs) idx
     | LFill x i \<Rightarrow> look x []
     | LGeneric maps ins i r b \<Rightarrow> hd (regionSem F look idx r (map2 (\<lambda>m v. look v (mapIdx m idx)) maps ins @ [look i idx]))
     | LTranspose x i perm \<Rightarrow> look x (permuted perm idx)
     | LReduce xs is dims r k \<Rightarrow>
         foldl (\<lambda>acc ks. regionSem F look [] r (map (\<lambda>v. look v (mergeIdx dims [0..<length (sh (xs ! 0))] ks idx)) xs @ acc))
           (map (\<lambda>v. look v idx) is) (indices (map ((!) (sh (xs ! 0))) dims)) ! k
     | LMatmul a b c \<Rightarrow>
         foldl (\<lambda>acc k. mulAdd F (elemTy t) acc (look a [idx ! 0, k]) (look b [k, idx ! 1])) (look c idx) [0..sh a ! 1 - 1]
     | LElementwise f xs \<Rightarrow>
         sopSem F look idx f (elemTy (if isCmp f then fst (vs ! (xs ! 0)) else t)) (map (\<lambda>v. look v idx) xs)
     | LExtract x js \<Rightarrow> look x js
     | LInsert x d js \<Rightarrow> if idx = js then look x [] else look d idx
     | LCollapse x g \<Rightarrow> if groupsOk (sh x) (shapeOf t) g then look x (relayout (sh x) (shapeOf t) idx) else junk E (length vs) idx
     | LExpand x g \<Rightarrow> if groupsOk (shapeOf t) (sh x) g then look x (relayout (sh x) (shapeOf t) idx) else junk E (length vs) idx
     | LReshape x \<Rightarrow> look x (relayout (sh x) (shapeOf t) idx)
     | LExtractSlice x offs szs strs \<Rightarrow> look x (map2 (+) offs (map2 (*) strs (relayout szs (shapeOf t) idx)))
     | LInsertSlice x d offs szs strs \<Rightarrow>
         (let ks = map2 (-) idx offs in
          if list_all2 (\<lambda>k (n, m). 0 \<le> k \<and> k mod m = 0 \<and> k div m < n) ks (zip szs strs)
          then look x (relayout (sh x) szs (map2 (div) ks strs)) else look d idx)
     | LConcat d xs \<Rightarrow> concatSem d (map (\<lambda>v. (sh v, look v)) xs) idx
     | LFor lo hi is r k \<Rightarrow> foldl (\<lambda>acc i. regionSem F look [] r (i # acc)) (map (\<lambda>v. look v []) is) [lo..hi - 1] ! k)"

definition lvalues :: "lenv \<Rightarrow> ltable \<Rightarrow> (ty \<times> (int list \<Rightarrow> int)) list" where
  "lvalues E = foldl (\<lambda>vs (opn, t). vs @ [(t, \<lambda>idx. norm t (lopSem E vs opn t idx))]) []"

definition lval :: "lenv \<Rightarrow> ltable \<Rightarrow> val \<Rightarrow> int list \<Rightarrow> int" where
  "lval E s v = snd (lvalues E s ! v)"

end
