(* ===== verification/Linalg_Convert.thy ===== *)
theory Linalg_Convert
  imports Linalg
begin

text \<open>
  \<open>TritonArithToLinalg/ConversionPatterns.hpp\<close> and \<open>ConversionTools.h\<close>: the conversion of the Triton operations
  on tensors.  A pattern is given the operands of its operation and the type of the result, and
  returns the value that replaces it.
\<close>

section \<open>Utilities\<close>

definition identityMap :: "nat \<Rightarrow> map_expr list" where
  "identityMap n = map MDim [0..<n]"

definition getBroadcastDims :: "int list \<Rightarrow> int list \<Rightarrow> int list lm" where
  "getBroadcastDims src dst =
     bindM (foldM (\<lambda>dims i. bindM (atM dst i) (\<lambda>d.
       if d \<noteq> src ! i then thenM (assertM (src ! i = 1)) (ret (dims @ [int i])) else ret dims)) [] [0..<length src]) (\<lambda>dims.
     thenM (assertM (dims \<noteq> [])) (ret dims))"

definition getBroadcastAffineMap :: "int list \<Rightarrow> int list \<Rightarrow> map_expr list lm" where
  "getBroadcastAffineMap inp out =
     thenM (assertM (length inp \<le> length out))
     (let diff = length out - length inp in
      ret (concat (map (\<lambda>i. if i < diff then [] else if inp ! (i - diff) = 1 then [MZero] else [MDim i]) [0..<length out])))"

definition yieldArg :: sregion where
  "yieldArg = \<lparr>regionBody = [], regionReturns = [BArg 0]\<rparr>"

text \<open>\<open>std::swap\<close> of the last two elements.\<close>

definition swapLast :: "'a list \<Rightarrow> 'a list" where
  "swapLast xs = (let n = length xs in xs[n - 1 := xs ! (n - 2), n - 2 := xs ! (n - 1)])"

definition getTransposedValue :: "val \<Rightarrow> nat list \<Rightarrow> val lm" where
  "getTransposedValue src order' =
     bindM (getM (\<lambda>s. ltyOf s src)) (\<lambda>t.
     bindM (if order' = []
       then thenM (assertM (2 \<le> length (shapeOf t))) (ret (swapLast [0..<length (shapeOf t)], swapLast (shapeOf t)))
       else thenM (assertM (length order' = length (shapeOf t)))
         (bindM (mapM (atM (shapeOf t)) order') (\<lambda>sh. ret (order', sh)))) (\<lambda>(perm, sh).
     bindM (lcreate LEmpty (TensorTy sh (elemTy t))) (\<lambda>init.
     lcreate (LTranspose src init perm) (TensorTy sh (elemTy t)))))"

text \<open>
  \<open>createReassociationMaps\<close>.  The inner loop reads the size after the last one when the sizes do not
  fit; the result is \<open>None\<close> where the function returns false.
\<close>

function fillGroup :: "int list \<Rightarrow> int \<Rightarrow> nat \<Rightarrow> int \<Rightarrow> nat list \<Rightarrow> (nat \<times> int \<times> nat list) lm" where
  "fillGroup expanded dst cur src g =
     (if src < dst \<and> cur < length expanded then
        bindM (atM expanded (Suc cur)) (\<lambda>n. fillGroup expanded dst (Suc cur) (src * n) (g @ [cur]))
      else ret (cur, src, g))"
  by auto

termination fillGroup
  by (relation "measure (\<lambda>(expanded, dst, cur, src, g). length expanded - cur)") auto

definition trailingOnes :: "int list \<Rightarrow> nat \<Rightarrow> nat" where
  "trailingOnes expanded cur = length (takeWhile (\<lambda>n. n = 1) (drop cur expanded))"

fun reassocLoop :: "int list \<Rightarrow> int list \<Rightarrow> nat \<Rightarrow> nat list list \<Rightarrow> nat list list option lm" where
  "reassocLoop expanded [] cur groups = ret (if cur = length expanded then Some groups else None)"
| "reassocLoop expanded (dst # rest) cur groups =
     (if cur < length expanded then
        bindM (fillGroup expanded dst cur (expanded ! cur) []) (\<lambda>(cur, src, g).
        let (cur, g) =
          (if src = dst then
             (let ones = if rest = [] \<or> hd rest \<noteq> 1 then trailingOnes expanded (Suc cur) else 0
              in (Suc cur + ones, g @ [cur] @ [Suc cur..<Suc cur + ones]))
           else (cur, g))
        in if g = [] then ret None else reassocLoop expanded rest cur (groups @ [g]))
      else ret None)"

definition createReassociationMaps :: "int list \<Rightarrow> int list \<Rightarrow> nat list list option lm" where
  "createReassociationMaps expanded collapsed =
     (if collapsed = [] then ret (Some [])
      else if length expanded = length collapsed then ret None
      else if kDynamic \<in> set expanded \<or> kDynamic \<in> set collapsed then ret None
      else reassocLoop expanded collapsed 0 [])"

definition sliceFirst :: "val \<Rightarrow> nat \<Rightarrow> bool \<Rightarrow> val lm" where
  "sliceFirst input dim reverse =
     bindM (getM (\<lambda>s. ltyOf s input)) (\<lambda>t. let sh = shapeOf t; n = length sh in
     lcreate (LExtractSlice input ((replicate n 0)[dim := if reverse then sh ! dim - 1 else 0]) (sh[dim := 1]) (replicate n 1))
       (TensorTy (sh[dim := 1]) (elemTy t)))"

definition sliceRemaining :: "val \<Rightarrow> nat \<Rightarrow> bool \<Rightarrow> val lm" where
  "sliceRemaining input dim reverse =
     bindM (getM (\<lambda>s. ltyOf s input)) (\<lambda>t. let sh = shapeOf t; n = length sh in
     lcreate (LExtractSlice input ((replicate n 0)[dim := if reverse then 0 else 1]) (sh[dim := sh ! dim - 1]) (replicate n 1))
       (TensorTy (sh[dim := sh ! dim - 1]) (elemTy t)))"

section \<open>Shapes\<close>

definition convertSplat :: "val \<Rightarrow> ty \<Rightarrow> val lm" where
  "convertSplat src t =
     bindM (lcreate LEmpty t) (\<lambda>init.
     bindM (getM (\<lambda>s. ltyOf s src)) (\<lambda>st.
     if isPtrTy st
     then lcreate (LGeneric [] [] init \<lparr>regionBody = [], regionReturns = [Outer src]\<rparr> None) t
     else lcreate (LFill src init) t))"

definition convertBroadcast :: "val \<Rightarrow> ty \<Rightarrow> val lm" where
  "convertBroadcast src t =
     bindM (getM (\<lambda>s. ltyOf s src)) (\<lambda>st.
     bindM (getBroadcastAffineMap (shapeOf st) (shapeOf t)) (\<lambda>m.
     bindM (lcreate LEmpty t) (\<lambda>init.
     bindM (getBroadcastDims (shapeOf st) (shapeOf t)) (\<lambda>dims.
     lcreate (LGeneric [m] [src] init yieldArg (Some dims)) t))))"

text \<open>The groups of \<open>tt.expand_dims\<close>: the new dimension joins the dimension at its place, or the last one.\<close>

definition expandGroups :: "nat \<Rightarrow> nat \<Rightarrow> nat list list" where
  "expandGroups srcRank axis =
     snd (foldl (\<lambda>(c, groups) i.
       let two = axis = i \<or> axis = Suc i \<and> Suc i = srcRank
       in if two then (c + 2, groups @ [[c, Suc c]]) else (Suc c, groups @ [[c]])) (0, []) [0..<srcRank])"

definition convertExpandDims :: "val \<Rightarrow> nat \<Rightarrow> ty \<Rightarrow> val lm" where
  "convertExpandDims src axis t =
     bindM (getM (\<lambda>s. length (shapeOf (ltyOf s src)))) (\<lambda>n. lcreate (LExpand src (expandGroups n axis)) t)"

definition convertTranspose :: "val \<Rightarrow> nat list \<Rightarrow> val lm" where
  "convertTranspose src order' = getTransposedValue src order'"

definition convertMakeRange :: "int \<Rightarrow> int \<Rightarrow> ty \<Rightarrow> val lm" where
  "convertMakeRange start stop t =
     thenM (assertM (length (shapeOf t) = 1 \<and> width t = 32))
     (bindM (lcreate LEmpty t) (\<lambda>init.
      let e = elemTy t; index = ((SIndex 0, IndexTy), []); cast' = ((SIndexCast, e), [BRes 0]) in
      lcreate (LGeneric [] [] init
        (if start \<noteq> 0
         then \<lparr>regionBody = [index, cast', ((SConst (IConst start), e), []), ((SAddI, e), [BRes 1, BRes 2])], regionReturns = [BRes 3]\<rparr>
         else \<lparr>regionBody = [index, cast'], regionReturns = [BRes 1]\<rparr>) None) t))"

definition convertDenseConstant :: "const_value \<Rightarrow> ty \<Rightarrow> val lm" where
  "convertDenseConstant c t =
     bindM (lcreate (LConst c) (elemTy t)) (\<lambda>x. bindM (lcreate LEmpty t) (\<lambda>init. lcreate (LFill x init) t))"

definition convertCat :: "val list \<Rightarrow> ty \<Rightarrow> val lm" where
  "convertCat xs t = lcreate (LConcat 0 xs) t"

definition convertSplit :: "val \<Rightarrow> ty \<Rightarrow> val list lm" where
  "convertSplit input resultTensor =
     bindM (getM (\<lambda>s. shapeOf (ltyOf s input))) (\<lambda>sh. let n = length sh in
     mapM (\<lambda>i. lcreate (LExtractSlice input (butlast (replicate n 0) @ [i]) (butlast sh @ [1]) (replicate n 1)) resultTensor) [0, 1])"

definition convertJoin :: "val list \<Rightarrow> ty \<Rightarrow> val lm" where
  "convertJoin inputs t =
     bindM (lcreate LEmpty t) (\<lambda>init. let sh = shapeOf t; n = length sh in
     foldM (\<lambda>result i. bindM (atM inputs i) (\<lambda>x.
       lcreate (LInsertSlice x result (butlast (replicate n 0) @ [int i]) (butlast sh @ [1]) (replicate n 1)) t)) init [0, 1])"

text \<open>\<open>getReassociationIndicesForReshape\<close> is a function of MLIR.\<close>

definition convertReshape :: "(int list \<Rightarrow> int list \<Rightarrow> nat list list option) \<Rightarrow> val \<Rightarrow> ty \<Rightarrow> val lm" where
  "convertReshape groupsFor input t =
     thenM (requireM (kDynamic \<notin> set (shapeOf t)))
     (bindM (getM (\<lambda>s. shapeOf (ltyOf s input))) (\<lambda>sh.
      case groupsFor sh (shapeOf t) of
        Some g \<Rightarrow> if length (shapeOf t) < length sh then lcreate (LCollapse input g) t else lcreate (LExpand input g) t
      | None \<Rightarrow> lcreate (LReshape input) t))"

text \<open>The patterns for operations on shapes; those with several results and the reductions are apart.\<close>

datatype tensor_op =
    TSplat val
  | TBroadcast val
  | TExpandDims val nat \<comment> \<open>axis\<close>
  | TTrans val "nat list" \<comment> \<open>order\<close>
  | TMakeRange int int
  | TDenseConstant const_value
  | TCat val val
  | TReshape val

definition convertTensorOp :: "(int list \<Rightarrow> int list \<Rightarrow> nat list list option) \<Rightarrow> tensor_op \<Rightarrow> ty \<Rightarrow> val lm" where
  "convertTensorOp groupsFor opn t = (case opn of
     TSplat x \<Rightarrow> convertSplat x t
   | TBroadcast x \<Rightarrow> convertBroadcast x t
   | TExpandDims x axis \<Rightarrow> convertExpandDims x axis t
   | TTrans x order' \<Rightarrow> convertTranspose x order'
   | TMakeRange a b \<Rightarrow> convertMakeRange a b t
   | TDenseConstant c \<Rightarrow> convertDenseConstant c t
   | TCat x y \<Rightarrow> convertCat [x, y] t
   | TReshape x \<Rightarrow> convertReshape groupsFor x t)"

end
