(* ===== verification/Linalg_Reduce.thy ===== *)
theory Linalg_Reduce
  imports Linalg_Convert
begin

text \<open>
  \<open>TritonArithToLinalg/ConversionPatterns.hpp\<close>: products, reductions, and pairs of a comparison and a select.
  A reduction has the region of \<open>tt.reduce\<close>: two arguments for each operand, first the elements of one
  side, then those of the other.
\<close>

section \<open>Products\<close>

definition isZeroTensor :: "ltable \<Rightarrow> val \<Rightarrow> bool \<Rightarrow> bool" where
  "isZeroTensor s v integers = (case lopOf s v of
     LSplat x \<Rightarrow> (case lopOf s x of LConst (FConst c) \<Rightarrow> c = FZero | LConst (IConst n) \<Rightarrow> norm (ltyOf s x) n = 0 | _ \<Rightarrow> False)
   | LDense (IConst n) \<Rightarrow> integers \<and> norm (ltyOf s v) n = 0
   | LDense (FConst c) \<Rightarrow> \<not> integers \<and> c = FZero
   | _ \<Rightarrow> False)"

definition convertDot :: "val \<Rightarrow> val \<Rightarrow> val \<Rightarrow> ty \<Rightarrow> val lm" where
  "convertDot opa opb opc t =
     (let e = elemTy t; integers = isIntTy e in
     bindM (getM (\<lambda>s. isZeroTensor s opc integers)) (\<lambda>skipC.
     bindM (lcreate LEmpty t) (\<lambda>init.
     bindM (lcreate (LConst (if integers then IConst 0 else FConst FZero)) e) (\<lambda>zero.
     bindM (lcreate (LFill zero init) t) (\<lambda>zeroes.
     bindM (lcreate (LMatmul opa opb zeroes) t) (\<lambda>res.
     if skipC then ret res else lcreate (LElementwise (if integers then SAddI else SAddF) [opc, res]) t))))))"

section \<open>Reductions with a neutral element\<close>

definition isReductionOpSupported :: "sop \<Rightarrow> bool" where
  "isReductionOpSupported f \<longleftrightarrow> f \<in> {SAddF, SAddI, SAndI, SMaximumF, SMulF, SMulI, SMaxNumF, SMinimumF, SMinNumF,
     SMinSI, SMinUI, SMaxSI, SMaxUI, SOrI, SXOrI}"

definition getRedBaseConstOp :: "sop \<Rightarrow> ty \<Rightarrow> const_value option" where
  "getRedBaseConstOp f t = (let w = width t in
     case f of
       SAddF \<Rightarrow> Some (FConst FZero) | SMulF \<Rightarrow> Some (FConst FOne) | SAddI \<Rightarrow> Some (IConst 0)
     | SMaximumF \<Rightarrow> Some (FConst FNegInf) | SMaxNumF \<Rightarrow> Some (FConst FNegInf)
     | SMinimumF \<Rightarrow> Some (FConst FInf) | SMinNumF \<Rightarrow> Some (FConst FInf)
     | SMinSI \<Rightarrow> Some (IConst (2 ^ (w - 1) - 1)) | SMinUI \<Rightarrow> Some (IConst (2 ^ w - 1)) | SMaxSI \<Rightarrow> Some (IConst (- (2 ^ (w - 1))))
     | SMaxUI \<Rightarrow> Some (IConst 0) | SXOrI \<Rightarrow> Some (IConst 0) | SMulI \<Rightarrow> Some (IConst 1) | SAndI \<Rightarrow> Some (IConst 1) | SOrI \<Rightarrow> Some (IConst 0)
     | _ \<Rightarrow> None)"

text \<open>\<open>isF16\<close> tells the two kinds of 16-bit numbers apart, of which a \<open>FloatTy\<close> has only the width.\<close>

definition requiresF32Conversion :: "(ty \<Rightarrow> bool) \<Rightarrow> ty \<Rightarrow> sop \<Rightarrow> bool" where
  "requiresF32Conversion isF16 t f \<longleftrightarrow> \<not> isF16 t \<and> (\<exists>w < 32. t = FloatTy w) \<and> f = SAddF"

definition getRedElement :: "sop \<Rightarrow> ty \<Rightarrow> bool \<Rightarrow> sregion" where
  "getRedElement f t convert =
     (if convert \<and> f \<in> {SAddF, SMulF}
      then \<lparr>regionBody = [((SExtF, FloatTy 32), [BArg 0]), ((f, FloatTy 32), [BRes 0, BArg 1])], regionReturns = [BRes 1]\<rparr>
      else \<lparr>regionBody = [((f, t), [BArg 0, BArg 1])], regionReturns = [BRes 0]\<rparr>)"

definition convertToLinalgReduce :: "(ty \<Rightarrow> bool) \<Rightarrow> val list \<Rightarrow> nat \<Rightarrow> sregion \<Rightarrow> ty \<Rightarrow> val lm" where
  "convertToLinalgReduce isF16 operands' axis r resType =
     bindM (atM operands' 0) (\<lambda>src.
     bindM (getM (\<lambda>s. ltyOf s src)) (\<lambda>srcType.
     let e = elemTy srcType; rank = length (shapeOf srcType); isVectorReduce = (rank = 1) in
     thenM (requireM (length (regionBody r) = 1 \<and> isReductionOpSupported (fst (fst (hd (regionBody r))))))
     (let rop = fst (fst (hd (regionBody r))) in
     bindM (if \<not> isVectorReduce \<and> axis \<noteq> 0 then getTransposedValue src (axis # filter (\<lambda>i. i \<noteq> axis) [0..<rank]) else ret src) (\<lambda>src.
     let axis = (if \<not> isVectorReduce \<and> axis \<noteq> 0 then 0 else axis);
         convert = requiresF32Conversion isF16 resType rop;
         constantType = (if convert then FloatTy 32 else e) in
     bindM (castM (getRedBaseConstOp rop constantType)) (\<lambda>c. bindM (lcreate (LConst c) constantType) (\<lambda>accBase.
     bindM (if isVectorReduce
       then bindM (lcreate LEmpty (TensorTy [] constantType)) (\<lambda>initTensor. lcreate (LInsert accBase initTensor []) (TensorTy [] constantType))
       else bindM (lcreate LEmpty (TensorTy (shapeOf resType) constantType)) (\<lambda>init.
         lcreate (LFill accBase init) (TensorTy (shapeOf resType) constantType))) (\<lambda>initTensor.
     bindM (lcreate (LReduce [src] [initTensor] [axis] (getRedElement rop constantType convert) 0)
       (TensorTy (if isVectorReduce then [] else shapeOf resType) constantType)) (\<lambda>res.
     bindM (if isVectorReduce then lcreate (LExtract res []) constantType else ret res) (\<lambda>res.
     if convert then lcreate (LElementwise STruncF [res]) resType else ret res)))))))))"

text \<open>A region without operations yields its first argument: the single element is extracted.\<close>

definition convertToTensorExtract :: "val list \<Rightarrow> sregion \<Rightarrow> ty \<Rightarrow> val lm" where
  "convertToTensorExtract srcs r resType =
     thenM (assertM (length srcs = 1)) (thenM (assertM (regionReturns r = [BArg 0]))
     (bindM (atM srcs 0) (\<lambda>src. lcreate (LExtract src [0]) resType)))"

definition convertReduce :: "(ty \<Rightarrow> bool) \<Rightarrow> val list \<Rightarrow> nat \<Rightarrow> sregion \<Rightarrow> ty \<Rightarrow> val lm" where
  "convertReduce isF16 srcs axis r resType =
     bindM (atM srcs 0) (\<lambda>src. bindM (getM (\<lambda>s. shapeOf (ltyOf s src))) (\<lambda>sh.
     thenM (assertM (axis < length sh))
     (if regionBody r = [] \<and> length sh = 1 \<and> sh ! 0 = 1 then convertToTensorExtract srcs r resType
      else convertToLinalgReduce isF16 srcs axis r resType)))"

section \<open>argmin and argmax\<close>

text \<open>What the derived converters provide: the comparison and the value that every number passes.\<close>

record arg_kind =
  comparison :: fpred
  baseValue :: fvalue

definition argMax :: arg_kind where "argMax = \<lparr>comparison = OGT, baseValue = FNegInf\<rparr>"

definition argMin :: arg_kind where "argMin = \<lparr>comparison = OLT, baseValue = FInf\<rparr>"

definition opAt :: "sregion \<Rightarrow> nat \<Rightarrow> sop \<Rightarrow> operand list \<Rightarrow> bool" where
  "opAt r i f xs \<longleftrightarrow> i < length (regionBody r) \<and> fst (fst (regionBody r ! i)) = f \<and> snd (regionBody r ! i) = xs"

text \<open>
  The matchers take the position of the next operation and return the position after the operations
  they match, and the value they look for.  The block arguments are the current value and index and
  the reduced value and index.
\<close>

definition matchTieBreakResult :: "sregion \<Rightarrow> nat \<Rightarrow> (nat \<times> operand) option" where
  "matchTieBreakResult r i =
     (if opAt r i (SCmpF OEQ) [BArg 0, BArg 2] \<and> opAt r (i + 1) (SCmpI Slt) [BArg 1, BArg 3] \<and>
         opAt r (i + 2) SAndI [BRes i, BRes (i + 1)]
      then Some (i + 3, BRes (i + 2)) else None)"

definition matchComparisonResult :: "arg_kind \<Rightarrow> sregion \<Rightarrow> nat \<Rightarrow> (nat \<times> operand) option" where
  "matchComparisonResult k r i = (if opAt r i (SCmpF (comparison k)) [BArg 0, BArg 2] then Some (i + 1, BRes i) else None)"

definition matchShouldUpdateValue :: "arg_kind \<Rightarrow> sregion \<Rightarrow> nat \<Rightarrow> (nat \<times> operand) option" where
  "matchShouldUpdateValue k r i = (case matchTieBreakResult r i of None \<Rightarrow> None
   | Some (i, tie) \<Rightarrow> (case matchComparisonResult k r i of None \<Rightarrow> None
     | Some (i, cmp) \<Rightarrow> if opAt r i SOrI [cmp, tie] then Some (i + 1, BRes i) else None))"

definition matchArgReduce :: "arg_kind \<Rightarrow> sregion \<Rightarrow> bool" where
  "matchArgReduce k r = (case matchShouldUpdateValue k r 0 of None \<Rightarrow> False
   | Some (i, upd) \<Rightarrow> opAt r i SSelect [upd, BArg 0, BArg 2] \<and> opAt r (i + 1) SSelect [upd, BArg 1, BArg 3] \<and>
       length (regionBody r) = i + 2 \<and> regionReturns r = [BRes i, BRes (i + 1)])"

definition getInitTensor :: "int list \<Rightarrow> val \<Rightarrow> val lm" where
  "getInitTensor sh fillValue =
     bindM (getM (\<lambda>s. TensorTy sh (ltyOf s fillValue))) (\<lambda>t. bindM (lcreate LEmpty t) (\<lambda>init.
     if sh = [] then lcreate (LInsert fillValue init []) t else lcreate (LFill fillValue init) t))"

text \<open>The body of the loop for a scalar result; the induction variable is the first argument.\<close>

definition argLoopBody :: "arg_kind \<Rightarrow> val \<Rightarrow> ty \<Rightarrow> ty \<Rightarrow> sregion" where
  "argLoopBody k values' vt it = \<lparr>regionBody =
     [((SExtract values', vt), [BArg 0]), ((SIndexCast, it), [BArg 0]),
      ((SCmpF OEQ, vt), [BRes 0, BArg 1]), ((SCmpI Slt, it), [BRes 1, BArg 2]), ((SAndI, IntTy 1), [BRes 2, BRes 3]),
      ((SCmpF (comparison k), vt), [BRes 0, BArg 1]), ((SOrI, IntTy 1), [BRes 5, BRes 4]),
      ((SSelect, vt), [BRes 6, BRes 0, BArg 1]), ((SSelect, it), [BRes 6, BRes 1, BArg 2])],
     regionReturns = [BRes 7, BRes 8]\<rparr>"

definition rewriteScalarReduceToScfFor :: "arg_kind \<Rightarrow> val \<Rightarrow> val \<Rightarrow> nat \<Rightarrow> val \<Rightarrow> val \<Rightarrow> val list lm" where
  "rewriteScalarReduceToScfFor k values' indices' axis valuesAccBase indicesAccBase =
     bindM (getM (\<lambda>s. (ltyOf s values', ltyOf s indices', lopOf s indices', ltyOf s valuesAccBase, ltyOf s indicesAccBase))) (\<lambda>(vt, xt, d, ve, ie).
     thenM (requireM (isTensor vt \<and> isTensor xt \<and> length (shapeOf vt) = 1 \<and> length (shapeOf xt) = 1 \<and> isIntTy ie \<and>
       kDynamic \<notin> set (shapeOf vt) \<and> kDynamic \<notin> set (shapeOf xt) \<and> axis = 0))
     (let tripCount = shapeOf vt ! 0 in
     thenM (requireM (tripCount = shapeOf xt ! 0))
     (thenM (requireM (d = LMakeRange 0 tripCount))
     (mapM (\<lambda>i. lcreate (LFor 0 tripCount [valuesAccBase, indicesAccBase] (argLoopBody k values' ve ie) i) (if i = 0 then ve else ie)) [0, 1]))))"

definition convertArgMinMax :: "arg_kind \<Rightarrow> val list \<Rightarrow> nat \<Rightarrow> sregion \<Rightarrow> ty list \<Rightarrow> val list lm" where
  "convertArgMinMax k operands' axis r resTypes =
     thenM (requireM (length operands' = 2))
     (thenM (requireM (matchArgReduce k r))
     (bindM (getM (\<lambda>s. map (\<lambda>v. elemTy (ltyOf s v)) operands')) (\<lambda>es.
      bindM (lcreate (LConst (FConst (baseValue k))) (es ! 0)) (\<lambda>valuesAccBase.
      bindM (lcreate (LConst (IConst (-1))) (es ! 1)) (\<lambda>indicesAccBase.
      let t = resTypes ! 0; isScalarReduce = \<not> isTensor t in
      bindM (if isScalarReduce
        then attemptM (rewriteScalarReduceToScfFor k (operands' ! 0) (operands' ! 1) axis valuesAccBase indicesAccBase)
        else ret None) (\<lambda>loop.
      case loop of Some res \<Rightarrow> ret res
      | None \<Rightarrow>
        (let sh = (if isScalarReduce then [] else shapeOf t) in
         bindM (getInitTensor sh valuesAccBase) (\<lambda>initValues. bindM (getInitTensor sh indicesAccBase) (\<lambda>initIndices.
         bindM (mapM (\<lambda>i. lcreate (LReduce operands' [initValues, initIndices] [axis] r i) (TensorTy sh (es ! i))) [0, 1]) (\<lambda>res.
         if isScalarReduce then mapM (\<lambda>i. bindM (atM res i) (\<lambda>x. lcreate (LExtract x []) (es ! i))) [0, 1] else ret res))))))))))"

section \<open>Reductions of any region\<close>

definition normalReduceOne :: "nat \<Rightarrow> int list \<Rightarrow> val \<Rightarrow> (val \<times> val option) lm" where
  "normalReduceOne axis resultShape inputVal =
     bindM (getM (\<lambda>s. ltyOf s inputVal)) (\<lambda>t. bindM (atM (shapeOf t) axis) (\<lambda>n.
     if n \<le> 1 then
       bindM (createReassociationMaps (shapeOf t) resultShape) (\<lambda>g. bindM (castM g) (\<lambda>g.
       bindM (lcreate (LCollapse inputVal g) (TensorTy resultShape (elemTy t))) (\<lambda>c. ret (c, None))))
     else
       bindM (sliceFirst inputVal axis False) (\<lambda>slice.
       bindM (createReassociationMaps ((shapeOf t)[axis := 1]) resultShape) (\<lambda>g. bindM (castM g) (\<lambda>g.
       bindM (lcreate (LCollapse slice g) (TensorTy resultShape (elemTy t))) (\<lambda>c.
       bindM (sliceRemaining inputVal axis False) (\<lambda>rest. ret (c, Some rest))))))))"

definition getFinalResults :: "int list \<Rightarrow> val list \<Rightarrow> val list lm" where
  "getFinalResults resultShape res =
     (if resultShape \<noteq> [] then ret res
      else mapM (\<lambda>x. bindM (getM (\<lambda>s. elemTy (ltyOf s x))) (\<lambda>e. lcreate (LExtract x []) e)) res)"

definition convertNormalReduce :: "val list \<Rightarrow> nat \<Rightarrow> sregion \<Rightarrow> ty list \<Rightarrow> val list lm" where
  "convertNormalReduce operands' axis r resTypes =
     (let resultShape = shapeOf (hd resTypes) in
     thenM (assertM (length operands' = length resTypes))
     (bindM (mapM (normalReduceOne axis resultShape) operands') (\<lambda>vs.
      let initVals = map fst vs; inputVals = map the (filter (\<lambda>x. x \<noteq> None) (map snd vs)) in
      if inputVals = [] then getFinalResults resultShape initVals
      else
        bindM (mapM (\<lambda>i. lcreate (LReduce inputVals initVals [axis] r i) (TensorTy resultShape (elemTy (resTypes ! i)))) [0..<length resTypes])
          (getFinalResults resultShape))))"

section \<open>Minimum and maximum\<close>

text \<open>\<open>MinMaxConverter\<close>: a comparison whose only use is the condition of a select of its operands.\<close>

definition rewriteOpWithMinMax :: "sop \<Rightarrow> sop option" where
  "rewriteOpWithMinMax f = (case f of
     SCmpF OGT \<Rightarrow> Some SMaximumF | SCmpF OGE \<Rightarrow> Some SMaximumF | SCmpF OLT \<Rightarrow> Some SMinimumF | SCmpF OLE \<Rightarrow> Some SMinimumF
   | SCmpI Sgt \<Rightarrow> Some SMaxSI | SCmpI Ugt \<Rightarrow> Some SMaxUI | SCmpI Slt \<Rightarrow> Some SMinSI | SCmpI Ult \<Rightarrow> Some SMinUI
   | _ \<Rightarrow> None)"

definition convertMinMax :: "val list \<Rightarrow> val \<Rightarrow> val lm" where
  "convertMinMax users cmp =
     thenM (requireM (length users = 1))
     (bindM (getM (\<lambda>s. (lopOf s cmp, lopOf s (hd users), ltyOf s (hd users)))) (\<lambda>(d, u, t). case (d, u) of
       (LElementwise f [a, b], LElementwise SSelect [c, x, y]) \<Rightarrow>
         thenM (requireM (isCmp f \<and> c = cmp \<and> a = x \<and> b = y))
         (bindM (castM (rewriteOpWithMinMax f)) (\<lambda>g. lcreate (LElementwise g [a, b]) t))
     | _ \<Rightarrow> raise Failure))"

end
