(* ===== verification/Linalg_Sound.thy ===== *)
theory Linalg_Sound
  imports Linalg_Reduce
begin

text \<open>
  Growing tables of tensor code, and the meaning of the conversions of the operations on shapes.
\<close>

section \<open>Growing tables\<close>

lemma lvalues_Nil [simp]: "lvalues E [] = []"
  by (simp add: lvalues_def)

lemma lvalues_snoc [simp]: "lvalues E (s @ [(opn, t)]) = lvalues E s @ [(t, \<lambda>idx. norm t (lopSem E (lvalues E s) opn t idx))]"
  by (simp add: lvalues_def)

lemma lvalues_length [simp]: "length (lvalues E s) = length s"
  by (induction s rule: rev_induct) auto

lemma lvalues_prefix: "v < length s \<Longrightarrow> lvalues E (s @ d) ! v = lvalues E s ! v"
proof (induction d rule: rev_induct)
  case (snoc x d)
  then show ?case by (cases x) (simp add: append_assoc [symmetric] nth_append del: append_assoc)
qed simp

lemma fst_lvalues: "v < length s \<Longrightarrow> fst (lvalues E s ! v) = ltyOf s v"
  by (induction s rule: rev_induct) (auto simp: ltyOf_def entry_def nth_append less_Suc_eq)

lemma lvalues_nth: "v < length s \<Longrightarrow> lvalues E s ! v = (ltyOf s v, lval E s v)"
  by (simp add: prod_eq_iff fst_lvalues lval_def)

lemma norm_norm [simp]: "norm t (norm t x) = norm t x"
  by (simp add: norm_def)

lemma norm_tensor [simp]: "norm (TensorTy sh e) x = norm e x"
  by (simp add: norm_def)

lemma norm_elemTy [simp]: "norm (elemTy t) x = norm t x"
  by (cases t) (simp_all add: norm_def)

lemma norm_IntTy [simp]: "norm (IntTy w) x = wrap w x"
  by (simp add: norm_def)

lemma lval_norm [simp]: "v < length s \<Longrightarrow> norm (ltyOf s v) (lval E s v idx) = lval E s v idx"
proof (induction s rule: rev_induct)
  case (snoc x s)
  show ?case
  proof (cases "v < length s")
    case True
    then show ?thesis using snoc by (cases x) (auto simp: nth_append ltyOf_def lval_def entry_def lvalues_prefix)
  next
    case False
    then show ?thesis using snoc by (cases x) (auto simp: nth_append ltyOf_def lval_def entry_def)
  qed
qed simp

definition lext :: "ltable \<Rightarrow> ltable \<Rightarrow> bool" where
  "lext s t \<longleftrightarrow> (\<exists>d. t = s @ d)"

lemma lext_refl [simp]: "lext s s"
  by (simp add: lext_def)

lemma lext_trans: "lext s t \<Longrightarrow> lext t u \<Longrightarrow> lext s u"
  by (auto simp: lext_def)

lemma lextD:
  assumes "lext s t" "v < length s"
  shows "v < length t" "ltyOf t v = ltyOf s v" "lopOf t v = lopOf s v" "lval E t v = lval E s v"
  using assms by (auto simp: lext_def ltyOf_def lopOf_def entry_def nth_append lval_def lvalues_prefix)

lemma wp_lcreate:
  assumes "\<And>v t. lext s t \<Longrightarrow> v < length t \<Longrightarrow> ltyOf t v = ty \<Longrightarrow> lopOf t v = opn \<Longrightarrow>
    (\<And>E idx. lval E t v idx = norm ty (lopSem E (lvalues E s) opn ty idx)) \<Longrightarrow> Q v t"
  shows "wp (lcreate opn ty) Q s"
proof -
  have "Q (length s) (s @ [(opn, ty)])"
    by (rule assms) (simp_all add: lext_def ltyOf_def lopOf_def entry_def lval_def nth_append)
  then show ?thesis by (simp add: wp_def lcreate_def)
qed

section \<open>Layouts\<close>

lemma linearize_bound: "inB sh idx \<Longrightarrow> 0 \<le> linearize sh idx \<and> linearize sh idx < prod_list sh"
proof (induction sh arbitrary: idx)
  case (Cons n sh)
  then obtain i js where i: "idx = i # js" "0 \<le> i" "i < n" "inB sh js" by (auto simp: inB_Cons)
  have "i * prod_list sh + prod_list sh \<le> n * prod_list sh"
    using i Cons.IH [OF i(4)] mult_right_mono [of "i + 1" n "prod_list sh"] by (simp add: algebra_simps)
  then show ?case using i Cons.IH [OF i(4)] by auto
qed simp

lemma delinearize_linearize: "inB sh idx \<Longrightarrow> MLIR.delinearize sh (linearize sh idx) = idx"
proof (induction sh arbitrary: idx)
  case (Cons n sh)
  then obtain i js where i: "idx = i # js" "inB sh js" by (auto simp: inB_Cons)
  have "(i * prod_list sh + linearize sh js) div prod_list sh = i" "(i * prod_list sh + linearize sh js) mod prod_list sh = linearize sh js"
    using linearize_bound [OF i(2)] by auto
  then show ?case using i Cons.IH [OF i(2)] by simp
qed simp

lemma relayout_id: "inB sh idx \<Longrightarrow> relayout sh sh idx = idx"
  by (simp add: relayout_def delinearize_linearize)

lemma relayout_eq: "inB src idx' \<Longrightarrow> linearize dst idx = linearize src idx' \<Longrightarrow> relayout src dst idx = idx'"
  by (simp add: relayout_def delinearize_linearize)

lemma linearize_insert: "length is = length xs \<Longrightarrow> linearize (xs @ 1 # ys) (is @ i # js) = linearize (xs @ ys) (is @ js) + i * prod_list ys"
proof (induction xs arbitrary: "is")
  case (Cons x xs)
  then show ?case by (cases "is") auto
qed simp

lemma delinearize_bound:
  assumes "\<forall>n \<in> set sh. 0 < n" "0 \<le> p" "p < prod_list sh"
  shows "inB sh (MLIR.delinearize sh p) \<and> linearize sh (MLIR.delinearize sh p) = p"
  using assms
proof (induction sh arbitrary: p)
  case (Cons n sh)
  have pos: "0 < prod_list sh" using Cons.prems(1) by (induction sh) auto
  have "p div prod_list sh < n"
  proof (rule ccontr)
    assume "\<not> p div prod_list sh < n"
    then have "n * prod_list sh \<le> p div prod_list sh * prod_list sh" using pos by (simp add: mult_right_mono)
    also have "\<dots> \<le> p" using pos minus_mod_eq_div_mult [of p "prod_list sh"] pos_mod_sign [of "prod_list sh" p] by linarith
    finally show False using Cons.prems(3) by simp
  qed
  then show ?case using Cons.IH [of "p mod prod_list sh"] Cons.prems pos
    by (auto simp: inB_Cons pos_imp_zdiv_nonneg_iff)
qed simp

section \<open>The conversions\<close>

text \<open>The index of the source that the map of a broadcast reads.\<close>

lemma concat_map_single: "(\<And>x. x \<in> set xs \<Longrightarrow> g x = [f x]) \<Longrightarrow> concat (map g xs) = map f xs"
  by (induction xs) auto

lemma getBroadcastAffineMap_run:
  assumes "length sh = length out"
  shows "getBroadcastAffineMap sh out = ret (map (\<lambda>i. if sh ! i = 1 then MZero else MDim i) [0..<length out])"
  unfolding getBroadcastAffineMap_def using assms
  by (simp add: Let_def concat_map_single [where f = "\<lambda>i. if sh ! i = 1 then MZero else MDim i"])

lemma mapIdx_broadcast: "length sh = n \<Longrightarrow> length idx = n \<Longrightarrow>
    mapIdx (map (\<lambda>i. if sh ! i = 1 then MZero else MDim i) [0..<n]) idx = broadcastIdx sh idx"
  by (rule nth_equalityI) (auto simp: mapIdx_def broadcastIdx_def)

lemma regionSem_yieldArg [simp]: "regionSem F look idx yieldArg (x # xs) = [x]"
  by (simp add: regionSem_def yieldArg_def)

lemma wp_getBroadcastDims:
  assumes "list_all2 (\<lambda>n m. n = m \<or> n = 1) src dst" "src \<noteq> dst"
  shows "getBroadcastDims src dst = ret (map int (filter (\<lambda>i. dst ! i \<noteq> src ! i) [0..<length src]))"
proof -
  let ?f = "\<lambda>dims i. bindM (atM dst i) (\<lambda>d. if d \<noteq> src ! i then thenM (assertM (src ! i = 1)) (ret (dims @ [int i])) else ret dims)"
  have len: "length src = length dst" using assms(1) by (rule list_all2_lengthD)
  have fold: "foldM ?f acc is = ret (acc @ map int (filter (\<lambda>i. dst ! i \<noteq> src ! i) is))" if "\<forall>i \<in> set is. i < length src" for acc "is"
    using that
  proof (induction "is" arbitrary: acc)
    case (Cons i "is")
    have "src ! i = dst ! i \<or> src ! i = 1" using assms(1) Cons.prems by (auto dest: list_all2_nthD)
    then show ?case using Cons len by (auto simp: atM_in)
  qed simp
  have "map int (filter (\<lambda>i. dst ! i \<noteq> src ! i) [0..<length src]) \<noteq> []"
  proof
    assume "map int (filter (\<lambda>i. dst ! i \<noteq> src ! i) [0..<length src]) = []"
    then have "\<forall>i < length src. dst ! i = src ! i" by (auto simp: filter_empty_conv)
    then show False using assms(2) len by (auto intro: nth_equalityI)
  qed
  then show ?thesis unfolding getBroadcastDims_def by (subst fold) simp_all
qed

end
