(* ===== verification/Linalg_Main.thy ===== *)
theory Linalg_Main
  imports Linalg_Sound
begin

text \<open>The conversions of the operations on shapes compute what the operations mean.\<close>

section \<open>Triton operations\<close>

definition tensorSem :: "lenv \<Rightarrow> ltable \<Rightarrow> tensor_op \<Rightarrow> ty \<Rightarrow> int list \<Rightarrow> int" where
  "tensorSem E s opn t idx = (case opn of
     TSplat x \<Rightarrow> lval E s x []
   | TBroadcast x \<Rightarrow> lval E s x (broadcastIdx (shapeOf (ltyOf s x)) idx)
   | TExpandDims x axis \<Rightarrow> lval E s x (take axis idx @ drop (Suc axis) idx)
   | TTrans x order' \<Rightarrow> lval E s x (foldl (\<lambda>ks (d, i). ks[d := i]) (replicate (length order') 0) (zip order' idx))
   | TMakeRange a b \<Rightarrow> wrap 32 (a + idx ! 0)
   | TDenseConstant c \<Rightarrow> constSem (fops E) c t
   | TCat x y \<Rightarrow> (let n = shapeOf (ltyOf s x) ! 0 in if idx ! 0 < n then lval E s x idx else lval E s y (idx[0 := idx ! 0 - n]))
   | TReshape x \<Rightarrow> lval E s x (MLIR.delinearize (shapeOf (ltyOf s x)) (linearize (shapeOf t) idx)))"

text \<open>What the verifiers of the operations promise, and the contract of the MLIR function that finds groups.\<close>

definition tensorTyped :: "ltable \<Rightarrow> tensor_op \<Rightarrow> ty \<Rightarrow> bool" where
  "tensorTyped s opn t = (case opn of
     TSplat x \<Rightarrow> x < length s \<and> (\<exists>sh. t = TensorTy sh (ltyOf s x))
   | TBroadcast x \<Rightarrow> x < length s \<and> (\<exists>sh out e. ltyOf s x = TensorTy sh e \<and> t = TensorTy out e \<and>
       list_all2 (\<lambda>n m. n = m \<or> n = 1) sh out \<and> sh \<noteq> out)
   | TExpandDims x axis \<Rightarrow> x < length s \<and> (\<exists>sh e. ltyOf s x = TensorTy sh e \<and> sh \<noteq> [] \<and> axis \<le> length sh \<and>
       t = TensorTy (take axis sh @ 1 # drop axis sh) e)
   | TTrans x order' \<Rightarrow> x < length s \<and> (\<exists>sh e. ltyOf s x = TensorTy sh e \<and> sh \<noteq> [] \<and>
       distinct order' \<and> set order' = {0..<length sh} \<and> t = TensorTy (map ((!) sh) order') e)
   | TMakeRange a b \<Rightarrow> t = TensorTy [b - a] (IntTy 32)
   | TDenseConstant c \<Rightarrow> (\<exists>sh e. t = TensorTy sh e \<and> elemTy e = e \<and> (\<forall>F. norm e (constSem F c e) = constSem F c e))
   | TCat x y \<Rightarrow> x < length s \<and> y < length s \<and> (\<exists>n m sh e. ltyOf s x = TensorTy (n # sh) e \<and>
       ltyOf s y = TensorTy (m # sh) e \<and> t = TensorTy ((n + m) # sh) e)
   | TReshape x \<Rightarrow> x < length s \<and> (\<exists>sh out e. ltyOf s x = TensorTy sh e \<and> t = TensorTy out e \<and> kDynamic \<notin> set out))"

definition groupsForOk :: "(int list \<Rightarrow> int list \<Rightarrow> nat list list option) \<Rightarrow> bool" where
  "groupsForOk groupsFor \<longleftrightarrow> (\<forall>sh out g. groupsFor sh out = Some g \<longrightarrow>
     (if length out < length sh then groupsOk sh out g else groupsOk out sh g))"

text \<open>The postcondition of a conversion: a new value of the type, with the elements of the operation.\<close>

definition replacedBy :: "ltable \<Rightarrow> ty \<Rightarrow> (lenv \<Rightarrow> int list \<Rightarrow> int) \<Rightarrow> val \<Rightarrow> ltable \<Rightarrow> bool" where
  "replacedBy s t f v s' \<longleftrightarrow> lext s s' \<and> v < length s' \<and> ltyOf s' v = t \<and> (\<forall>E idx. inB (shapeOf t) idx \<longrightarrow> lval E s' v idx = f E idx)"

lemma replacedBy_trans: "lext s t \<Longrightarrow> replacedBy t ty f v u \<Longrightarrow> (\<And>E idx. inB (shapeOf ty) idx \<Longrightarrow> f E idx = g E idx) \<Longrightarrow> replacedBy s ty g v u"
  by (auto simp: replacedBy_def intro: lext_trans)

section \<open>The patterns\<close>

lemma wp_convertSplat:
  assumes x: "x < length s" "t = TensorTy sh (ltyOf s x)"
  shows "wp (convertSplat x t) (replacedBy s t (\<lambda>E idx. lval E s x [])) s"
  unfolding convertSplat_def wp_simps
proof (rule wp_lcreate, goal_cases)
  case (1 i u)
  show ?case
    using lextD [OF 1(1) x(1)] x
    by (auto intro!: wp_lcreate lext_trans [OF 1(1)] simp: replacedBy_def lopSem_def lvalues_nth regionSem_def)
qed

lemma wp_convertBroadcast:
  assumes x: "x < length s" "ltyOf s x = TensorTy sh e" "t = TensorTy out e"
    and b: "list_all2 (\<lambda>n m. n = m \<or> n = 1) sh out" "sh \<noteq> out"
  shows "wp (convertBroadcast x t) (replacedBy s t (\<lambda>E idx. lval E s x (broadcastIdx sh idx))) s"
proof -
  have len: "length sh = length out" using b(1) by (rule list_all2_lengthD)
  show ?thesis
    unfolding convertBroadcast_def wp_simps x(2,3) shapeOf.simps getBroadcastAffineMap_run [OF len] bindM_ret wp_getBroadcastDims [OF b]
  proof (rule wp_lcreate, rule wp_lcreate)
    fix i u v w assume u: "lext s u" "i < length u" and w: "lext u w" "v < length w" "ltyOf w v = TensorTy out e"
      and l: "\<And>E idx. lval E w v idx = norm (TensorTy out e) (lopSem E (lvalues E u)
        (LGeneric [map (\<lambda>i. if sh ! i = 1 then MZero else MDim i) [0..<length out]] [x] i yieldArg
          (Some (map int (filter (\<lambda>i. out ! i \<noteq> sh ! i) [0..<length sh])))) (TensorTy out e) idx)"
    have "lval E w v idx = lval E s x (broadcastIdx sh idx)" if "inB out idx" for E idx
    proof -
      have "norm e (lval E s x ks) = lval E s x ks" for ks using lval_norm [OF x(1), of E ks] x(2) by simp
      then show ?thesis
        using l [of E idx] lextD [OF u(1) x(1)] inB_length [OF that] len by (simp add: lopSem_def lvalues_nth mapIdx_broadcast)
    qed
    then show "replacedBy s (TensorTy out e) (\<lambda>E idx. lval E s x (broadcastIdx sh idx)) v w"
      using w lext_trans [OF u(1) w(1)] by (simp add: replacedBy_def)
  qed
qed

lemma expandGroups_prefix:
  assumes "axis \<le> length sh" "k \<le> length sh" "sh \<noteq> []"
  defines "ex \<equiv> take axis sh @ 1 # drop axis sh"
  shows "\<exists>G. foldl (\<lambda>(c, groups) i.
       let two = axis = i \<or> axis = Suc i \<and> Suc i = length sh
       in if two then (c + 2, groups @ [[c, Suc c]]) else (Suc c, groups @ [[c]])) (0, []) [0..<k] =
      (k + (if axis < k \<or> axis = length sh \<and> k = length sh then 1 else 0), G) \<and>
    concat G = [0..<k + (if axis < k \<or> axis = length sh \<and> k = length sh then 1 else 0)] \<and> [] \<notin> set G \<and>
    map (\<lambda>g. prod_list (map ((!) ex) g)) G = take k sh"
  using assms(2)
proof (induction k)
  case 0
  then show ?case using assms by simp
next
  case (Suc k)
  then obtain G where G: "foldl (\<lambda>(c, groups) i.
       let two = axis = i \<or> axis = Suc i \<and> Suc i = length sh
       in if two then (c + 2, groups @ [[c, Suc c]]) else (Suc c, groups @ [[c]])) (0, []) [0..<k] =
      (k + (if axis < k then 1 else 0), G)"
    "concat G = [0..<k + (if axis < k then 1 else 0)]" "[] \<notin> set G" "map (\<lambda>g. prod_list (map ((!) ex) g)) G = take k sh"
    by auto
  have ex: "ex ! i = (if i < axis then sh ! i else if i = axis then 1 else sh ! (i - 1))" if "i \<le> length sh" for i
    using that assms(1) by (auto simp: ex_def nth_append nth_Cons')
  have t: "take (Suc k) sh = take k sh @ [sh ! k]" using Suc.prems by (simp add: take_Suc_conv_app_nth)
  consider (before) "axis < k" | (two) "axis = k \<or> axis = Suc k \<and> Suc k = length sh" | (after) "k < axis" "\<not> (axis = Suc k \<and> Suc k = length sh)"
    by linarith
  then show ?case
  proof cases
    case before
    then show ?thesis using G Suc.prems assms(1) ex [of "Suc k"] by (auto simp: t Let_def)
  next
    case two
    then show ?thesis using G Suc.prems assms(1) ex [of k] ex [of "Suc k"] by (auto simp: t Let_def)
  next
    case after
    then show ?thesis using G Suc.prems assms(1) ex [of k] by (auto simp: t Let_def)
  qed
qed

lemma expandGroups_ok:
  assumes "axis \<le> length sh" "sh \<noteq> []"
  shows "groupsOk (take axis sh @ 1 # drop axis sh) sh (expandGroups (length sh) axis)"
  using expandGroups_prefix [OF assms(1) le_refl assms(2)] assms
  by (auto simp: expandGroups_def groupsOk_def split: if_splits)

lemma inB_expanded:
  assumes "inB (take axis sh @ 1 # drop axis sh) idx" "axis \<le> length sh"
  shows "\<exists>xs ys. idx = xs @ 0 # ys \<and> length xs = axis \<and> inB sh (xs @ ys)"
proof -
  obtain xs zs where x: "idx = xs @ zs" "list_all2 (\<lambda>n i. 0 \<le> i \<and> i < n) (take axis sh) xs" "list_all2 (\<lambda>n i. 0 \<le> i \<and> i < n) (1 # drop axis sh) zs"
    using assms(1) by (auto simp: inB_def list_all2_append1)
  then obtain y ys where z: "zs = y # ys" "0 \<le> y" "y < 1" "list_all2 (\<lambda>n i. 0 \<le> i \<and> i < n) (drop axis sh) ys" by (auto simp: list_all2_Cons1)
  have "list_all2 (\<lambda>n i. 0 \<le> i \<and> i < n) (take axis sh @ drop axis sh) (xs @ ys)" using x(2) z(4) by (rule list_all2_appendI)
  then have "inB sh (xs @ ys)" by (simp add: inB_def)
  moreover have "length xs = axis" using list_all2_lengthD [OF x(2)] assms(2) by simp
  ultimately show ?thesis using x(1) z by force
qed

lemma wp_convertExpandDims:
  assumes x: "x < length s" "ltyOf s x = TensorTy sh e" "sh \<noteq> []" "axis \<le> length sh" "t = TensorTy (take axis sh @ 1 # drop axis sh) e"
  shows "wp (convertExpandDims x axis t) (replacedBy s t (\<lambda>E idx. lval E s x (take axis idx @ drop (Suc axis) idx))) s"
  unfolding convertExpandDims_def wp_simps
proof (rule wp_lcreate, goal_cases)
  case (1 v u)
  have "lval E u v idx = lval E s x (take axis idx @ drop (Suc axis) idx)" if ib: "inB (take axis sh @ 1 # drop axis sh) idx" for E idx
  proof -
    obtain xs ys where i: "idx = xs @ 0 # ys" "length xs = axis" "inB sh (xs @ ys)" using inB_expanded [OF ib x(4)] by blast
    have "linearize (take axis sh @ 1 # drop axis sh) idx = linearize sh (xs @ ys)"
      using linearize_insert [of xs "take axis sh" "drop axis sh" 0 ys] i(2) x(4) by (simp add: i(1))
    then have "relayout sh (take axis sh @ 1 # drop axis sh) idx = xs @ ys" by (rule relayout_eq [OF i(3)])
    moreover have "norm e (lval E s x ks) = lval E s x ks" for ks using lval_norm [OF x(1), of E ks] x(2) by simp
    ultimately show ?thesis
      using 1(5) [of E idx] x expandGroups_ok [OF x(4,3)] by (simp add: lopSem_def lvalues_nth i(1) flip: i(2))
  qed
  then show ?case using 1 x(5) by (simp add: replacedBy_def)
qed

text \<open>A transpose: the index that the order makes of an index of the result.\<close>

definition ordered :: "nat list \<Rightarrow> int list \<Rightarrow> int list" where
  "ordered order' idx = foldl (\<lambda>ks (d, i). ks[d := i]) (replicate (length order') 0) (zip order' idx)"

lemma foldl_updates:
  assumes "distinct ds" "set ds \<subseteq> {0..<length ks}" "length is = length ds"
  shows "length (foldl (\<lambda>ks (d, i). ks[d := i]) ks (zip ds is)) = length ks \<and>
    (\<forall>j < length ds. foldl (\<lambda>ks (d, i). ks[d := i]) ks (zip ds is) ! (ds ! j) = is ! j) \<and>
    (\<forall>d. d \<notin> set ds \<longrightarrow> foldl (\<lambda>ks (d, i). ks[d := i]) ks (zip ds is) ! d = ks ! d)"
  using assms
proof (induction ds arbitrary: ks "is")
  case (Cons d ds)
  then obtain i js where i: "is = i # js" by (cases "is") auto
  note IH = Cons.IH [of "ks[d := i]" js]
  have pre: "distinct ds" "set ds \<subseteq> {0..<length (ks[d := i])}" "length js = length ds" using Cons.prems i by auto
  show ?case
    using IH [OF pre] Cons.prems i by (auto simp: nth_Cons')
qed simp

lemma ordered_nth:
  assumes "distinct order'" "set order' = {0..<length order'}" "length idx = length order'"
  shows "length (ordered order' idx) = length order'" "j < length order' \<Longrightarrow> ordered order' idx ! (order' ! j) = idx ! j"
  using foldl_updates [of order' "replicate (length order') 0" idx] assms by (auto simp: ordered_def)

lemma permuted_ordered:
  assumes "distinct order'" "set order' = {0..<length order'}" "length idx = length order'"
  shows "permuted order' idx = ordered order' idx"
proof (rule nth_equalityI)
  show "length (permuted order' idx) = length (ordered order' idx)" using ordered_nth(1) [OF assms] by (simp add: permuted_def)
  fix d assume "d < length (permuted order' idx)"
  then have "d \<in> set order'" "d < length order'" using assms(2) by (auto simp: permuted_def)
  then obtain j where j: "j < length order'" "order' ! j = d" by (auto simp: in_set_conv_nth)
  have "takeWhile (\<lambda>x. x \<noteq> d) order' = take j order'"
    using j assms(1) by (intro takeWhile_eq_take_P_nth) (auto simp: nth_eq_iff_index_eq)
  then show "permuted order' idx ! d = ordered order' idx ! d"
    using ordered_nth(2) [OF assms j(1)] j \<open>d < length order'\<close> by (simp add: permuted_def)
qed

lemma inB_ordered:
  assumes "distinct order'" "set order' = {0..<length sh}" "length sh = length order'" "inB (map ((!) sh) order') idx"
  shows "inB sh (ordered order' idx)"
  unfolding inB_def list_all2_conv_all_nth
proof (intro conjI allI impI)
  have l: "length idx = length order'" using inB_length [OF assms(4)] by simp
  note o = ordered_nth [OF assms(1) _ l]
  show "length sh = length (ordered order' idx)" using o assms by simp
  fix d assume "d < length sh"
  then have "d \<in> set order'" using assms(2) by simp
  then obtain j where j: "j < length order'" "order' ! j = d" by (auto simp: in_set_conv_nth)
  have "0 \<le> idx ! j \<and> idx ! j < sh ! d" using assms(4) j by (auto simp: inB_def list_all2_conv_all_nth)
  then show "0 \<le> ordered order' idx ! d" "ordered order' idx ! d < sh ! d" using o(2) [OF _ j(1)] j assms by auto
qed

lemma wp_getTransposedValue:
  assumes x: "x < length s" "ltyOf s x = TensorTy sh e" "sh \<noteq> []" "distinct order'" "set order' = {0..<length sh}"
    "t = TensorTy (map ((!) sh) order') e"
    and post: "\<And>v u. lext s u \<Longrightarrow> replacedBy s t (\<lambda>E idx. lval E s x (ordered order' idx)) v u \<Longrightarrow> Q v u"
  shows "wp (getTransposedValue x order') Q s"
proof -
  have len: "length order' = length sh" using distinct_card [OF x(4)] x(5) by simp
  then have ne: "order' \<noteq> []" using x(3) by auto
  have "wp (bindM (lcreate LEmpty t) (\<lambda>init. lcreate (LTranspose x init order') t)) Q s"
    unfolding wp_bindM
  proof (rule wp_lcreate, rule wp_lcreate, goal_cases)
    case (1 i u v w)
    have "lval E w v idx = lval E s x (ordered order' idx)" if ib: "inB (map ((!) sh) order') idx" for E idx
    proof -
      have "norm e (lval E s x ks) = lval E s x ks" for ks using lval_norm [OF x(1), of E ks] x(2) by simp
      then show ?thesis
        using 1(10) [of E idx] lextD [OF 1(1) x(1)] inB_length [OF ib] x(4,5) len
        by (simp add: lopSem_def lvalues_nth permuted_ordered x(6))
    qed
    then show ?case using 1 lext_trans [OF 1(1,6)] by (intro post) (simp_all add: replacedBy_def x(6))
  qed
  moreover have "(mapM (atM sh) order' :: int list lm) = ret (map ((!) sh) order')" using x(5) by (intro mapM_ret) (auto simp: atM_in)
  ultimately show ?thesis using x(2,6) ne len by (simp add: getTransposedValue_def wp_simps)
qed

lemma wp_convertMakeRange:
  assumes t: "t = TensorTy [b - a] (IntTy 32)"
  shows "wp (convertMakeRange a b t) (replacedBy s t (\<lambda>E idx. wrap 32 (a + idx ! 0))) s"
proof -
  let ?body = "if a \<noteq> 0
    then \<lparr>regionBody = [((SIndex 0, IndexTy), []), ((SIndexCast, IntTy 32), [BRes 0]), ((SConst (IConst a), IntTy 32), []),
        ((SAddI, IntTy 32), [BRes 1, BRes 2])], regionReturns = [BRes 3]\<rparr>
    else \<lparr>regionBody = [((SIndex 0, IndexTy), []), ((SIndexCast, IntTy 32), [BRes 0])], regionReturns = [BRes 1]\<rparr>"
  have "wp (bindM (lcreate LEmpty t) (\<lambda>init. lcreate (LGeneric [] [] init ?body None) t)) (replacedBy s t (\<lambda>E idx. wrap 32 (a + idx ! 0))) s"
    unfolding wp_bindM
  proof (rule wp_lcreate, rule wp_lcreate, goal_cases)
    case (1 i u v w)
    have "lval E w v idx = wrap 32 (a + idx ! 0)" for E idx
      using 1(10) [of E idx] wrap_add [of 32 "idx ! 0" a]
      by (cases "a = 0") (simp_all add: t lopSem_def regionSem_def sopSem_def constSem_def add.commute)
    then show ?case using 1 lext_trans [OF 1(1,6)] by (simp add: replacedBy_def)
  qed
  then show ?thesis by (simp add: convertMakeRange_def wp_simps t Let_def)
qed

lemma wp_convertDenseConstant:
  assumes t: "t = TensorTy sh e" "elemTy e = e" "\<And>F. norm e (constSem F c e) = constSem F c e"
  shows "wp (convertDenseConstant c t) (replacedBy s t (\<lambda>E idx. constSem (fops E) c t)) s"
proof -
  have c: "constSem F c t = constSem F c e" for F by (cases c) (simp_all add: constSem_def t(1,2))
  show ?thesis
    unfolding convertDenseConstant_def wp_simps
  proof (rule wp_lcreate, rule wp_lcreate, rule wp_lcreate, goal_cases)
    case (1 x u i v y w)
    have "lval E w y idx = constSem (fops E) c t" for E idx
      using 1(15) [of E idx] 1(5) [of E "[]"] lextD [OF 1(6) 1(2)] c t by (simp add: lopSem_def lvalues_nth)
    then show ?case using 1 lext_trans [OF lext_trans [OF 1(1,6)] 1(11)] by (simp add: replacedBy_def)
  qed
qed

lemma wp_convertCat:
  assumes x: "x < length s" "y < length s" "ltyOf s x = TensorTy (n # sh) e" "ltyOf s y = TensorTy (m # sh) e" "t = TensorTy ((n + m) # sh) e"
  shows "wp (convertCat [x, y] t) (replacedBy s t (\<lambda>E idx. if idx ! 0 < n then lval E s x idx else lval E s y (idx[0 := idx ! 0 - n]))) s"
  unfolding convertCat_def
proof (rule wp_lcreate, goal_cases)
  case (1 v u)
  have nx: "norm e (lval E s x ks) = lval E s x ks" "norm e (lval E s y ks) = lval E s y ks" for E ks
    using lval_norm [OF x(1), of E ks] lval_norm [OF x(2), of E ks] x(3,4) by simp_all
  have "lval E u v idx = (if idx ! 0 < n then lval E s x idx else lval E s y (idx[0 := idx ! 0 - n]))" if ib: "inB ((n + m) # sh) idx" for E idx
    using 1(5) [of E idx] x nx ib by (auto simp: lopSem_def lvalues_nth inB_Cons)
  then show ?case using 1 x(5) by (simp add: replacedBy_def)
qed

lemma wp_convertReshape:
  assumes x: "x < length s" "ltyOf s x = TensorTy sh e" "t = TensorTy out e" "kDynamic \<notin> set out" and g: "groupsForOk groupsFor"
  shows "wp (convertReshape groupsFor x t) (replacedBy s t (\<lambda>E idx. lval E s x (MLIR.delinearize sh (linearize out idx)))) s"
proof -
  have nx: "norm e (lval E s x ks) = lval E s x ks" for E ks using lval_norm [OF x(1), of E ks] x(2) by simp
  have "wp (lcreate opn t) (replacedBy s t (\<lambda>E idx. lval E s x (MLIR.delinearize sh (linearize out idx)))) s"
    if "\<And>E idx. lopSem E (lvalues E s) opn t idx = lval E s x (relayout sh out idx)" for opn
    using that nx x(3) by (intro wp_lcreate) (simp add: replacedBy_def relayout_def)
  moreover have "groupsFor sh out = Some g \<Longrightarrow> if length out < length sh then groupsOk sh out g else groupsOk out sh g" for g
    using g by (auto simp: groupsForOk_def)
  ultimately show ?thesis using x
    by (auto simp: convertReshape_def wp_simps lopSem_def lvalues_nth split: option.splits if_splits)
qed

theorem wp_convertTensorOp:
  assumes "tensorTyped s opn t" "groupsForOk groupsFor"
  shows "wp (convertTensorOp groupsFor opn t) (replacedBy s t (\<lambda>E. tensorSem E s opn t)) s"
proof (cases opn)
  case (TSplat x)
  then show ?thesis using assms(1) wp_convertSplat by (auto simp: convertTensorOp_def tensorTyped_def tensorSem_def [abs_def])
next
  case (TBroadcast x)
  then show ?thesis using assms(1) wp_convertBroadcast by (auto simp: convertTensorOp_def tensorTyped_def tensorSem_def [abs_def])
next
  case (TExpandDims x axis)
  then show ?thesis using assms(1) wp_convertExpandDims by (auto simp: convertTensorOp_def tensorTyped_def tensorSem_def [abs_def])
next
  case (TTrans x order')
  then show ?thesis using assms(1)
    by (auto simp: convertTensorOp_def tensorTyped_def tensorSem_def [abs_def] convertTranspose_def ordered_def intro!: wp_getTransposedValue)
next
  case (TMakeRange a b)
  then show ?thesis using assms(1) wp_convertMakeRange by (auto simp: convertTensorOp_def tensorTyped_def tensorSem_def [abs_def])
next
  case (TDenseConstant c)
  then show ?thesis using assms(1) wp_convertDenseConstant by (auto simp: convertTensorOp_def tensorTyped_def tensorSem_def [abs_def])
next
  case (TCat x y)
  then obtain n m sh e where x: "x < length s" "y < length s" "ltyOf s x = TensorTy (n # sh) e" "ltyOf s y = TensorTy (m # sh) e"
      "t = TensorTy ((n + m) # sh) e"
    using assms(1) by (auto simp: tensorTyped_def)
  have "shapeOf (ltyOf s x) ! 0 = n" using x(3) by simp
  then show ?thesis using wp_convertCat [OF x] by (simp add: TCat convertTensorOp_def tensorSem_def [abs_def] Let_def cong: if_cong)
next
  case (TReshape x)
  then show ?thesis using assms wp_convertReshape by (auto simp: convertTensorOp_def tensorTyped_def tensorSem_def [abs_def])
qed

end
