(* ===== verification/Linalg_Split.thy ===== *)
theory Linalg_Split
  imports Linalg_Main
begin

text \<open>\<open>tt.split\<close> and \<open>tt.join\<close> as slices, which undo each other.\<close>

section \<open>A last dimension of size one\<close>

lemma inB_snoc: "inB (sh @ [n]) idx \<longleftrightarrow> (\<exists>xs i. idx = xs @ [i] \<and> inB sh xs \<and> 0 \<le> i \<and> i < n)"
proof (cases idx rule: rev_cases)
  case (snoc xs i)
  then show ?thesis
    by (cases "length sh = length xs") (auto simp: inB_def list_all2_append dest: list_all2_lengthD)
qed (auto simp: inB_def)

lemma relayout_append: "inB sh idx \<Longrightarrow> relayout (sh @ [1]) sh idx = idx @ [0]"
  using linearize_insert [of idx sh "[]" 0 "[]"] inB_length [of sh idx] by (intro relayout_eq) (auto simp: inB_snoc)

lemma relayout_drop: "inB sh idx \<Longrightarrow> relayout sh (sh @ [1]) (idx @ [0]) = idx"
  using linearize_insert [of idx sh "[]" 0 "[]"] inB_length [of sh idx] by (intro relayout_eq) auto

lemma map2_zeros: "length xs = n \<Longrightarrow> map2 (+) (replicate n 0) xs = (xs :: int list)" "length xs = n \<Longrightarrow> map2 (-) xs (replicate n 0) = xs"
  by (induction xs arbitrary: n) (auto simp: Suc_length_conv)

lemma map2_units: "length xs = n \<Longrightarrow> map2 (*) (replicate n 1) xs = (xs :: int list)" "length xs = n \<Longrightarrow> map2 (div) xs (replicate n 1) = xs"
  by (induction xs arbitrary: n) (auto simp: Suc_length_conv)

lemma sliceOffsets: "butlast (replicate (length (sh @ [n])) 0) @ [i] = replicate (length sh) (0 :: int) @ [i]"
  by (induction sh) auto

lemma sliceStrides: "replicate (length (sh @ [n])) (1 :: int) = replicate (length sh) 1 @ [1]"
  by (induction sh) auto

section \<open>Split\<close>

lemma wp_splitSlice:
  assumes x: "x < length s" "ltyOf s x = TensorTy (sh @ [2]) e"
    and post: "\<And>v u. replacedBy s (TensorTy sh e) (\<lambda>E idx. lval E s x (idx @ [i])) v u \<Longrightarrow> Q v u"
  shows "wp (lcreate (LExtractSlice x (butlast (replicate (length (sh @ [2 :: int])) 0) @ [i]) (butlast (sh @ [2]) @ [1]) (replicate (length (sh @ [2])) 1))
    (TensorTy sh e)) Q s"
proof (rule wp_lcreate, rule post, goal_cases)
  case (1 v u)
  have nx: "norm e (lval E s x ks) = lval E s x ks" for E ks using lval_norm [OF x(1), of E ks] x(2) by simp
  have "lval E u v idx = lval E s x (idx @ [i])" if ib: "inB sh idx" for E idx
    using 1(5) [of E idx] inB_length [OF ib]
    unfolding sliceOffsets sliceStrides
    by (simp add: lopSem_def lvalues_nth x relayout_append [OF ib] map2_zeros map2_units nx)
  then show ?case using 1 by (simp add: replacedBy_def)
qed

lemma wp_convertSplit:
  assumes x: "x < length s" "ltyOf s x = TensorTy (sh @ [2]) e"
    and post: "\<And>a b u. replacedBy s (TensorTy sh e) (\<lambda>E idx. lval E s x (idx @ [0])) a u \<Longrightarrow>
      replacedBy s (TensorTy sh e) (\<lambda>E idx. lval E s x (idx @ [1])) b u \<Longrightarrow> Q [a, b] u"
  shows "wp (convertSplit x (TensorTy sh e)) Q s"
  unfolding convertSplit_def wp_simps x(2) shapeOf.simps Let_def mapM.simps
proof (rule wp_splitSlice [OF x], goal_cases)
  case (1 a t)
  then have t: "lext s t" by (simp add: replacedBy_def)
  note xt = lextD [OF t x(1)]
  show ?case
  proof (rule wp_splitSlice [OF xt(1)], goal_cases)
    case (2 b u)
    then have u: "lext t u" by (simp add: replacedBy_def)
    have "replacedBy s (TensorTy sh e) (\<lambda>E idx. lval E s x (idx @ [0])) a u"
      using 1 lextD [OF u, of a] lext_trans [OF t u] by (auto simp: replacedBy_def)
    moreover have "replacedBy s (TensorTy sh e) (\<lambda>E idx. lval E s x (idx @ [1])) b u"
      using replacedBy_trans [OF t 2] xt by simp
    ultimately show ?case by (rule post)
  qed (simp add: xt x)
qed

section \<open>Join\<close>

lemma wp_joinSlice:
  assumes x: "x < length s" "ltyOf s x = TensorTy sh e" and d: "d < length s" "ltyOf s d = TensorTy (sh @ [2]) e"
    and post: "\<And>v u. lext s u \<Longrightarrow> v < length u \<Longrightarrow> ltyOf u v = TensorTy (sh @ [2]) e \<Longrightarrow>
      (\<And>E idx k. inB sh idx \<Longrightarrow> lval E u v (idx @ [k]) = (if k = i then lval E s x idx else lval E s d (idx @ [k]))) \<Longrightarrow> Q v u"
  shows "wp (lcreate (LInsertSlice x d (butlast (replicate (length (sh @ [2 :: int])) 0) @ [i]) (butlast (sh @ [2]) @ [1])
    (replicate (length (sh @ [2])) 1)) (TensorTy (sh @ [2]) e)) Q s"
proof (rule wp_lcreate, rule post, goal_cases)
  case (4 v u E idx k)
  have nx: "norm e (lval E s x ks) = lval E s x ks" "norm e (lval E s d ks) = lval E s d ks" for ks
    using lval_norm [OF x(1), of E ks] lval_norm [OF d(1), of E ks] x(2) d(2) by simp_all
  have l: "length idx = length sh" using inB_length [OF 4(6)] .
  have ks: "map2 (-) (idx @ [k]) (replicate (length sh) 0 @ [i]) = idx @ [k - i]"
    using l by (simp add: map2_zeros)
  have "list_all2 (\<lambda>k (n, m). 0 \<le> k \<and> k mod m = 0 \<and> k div m < n) idx (zip sh (replicate (length sh) 1))"
    using 4(6) l by (auto simp: inB_def list_all2_conv_all_nth)
  then have inside: "list_all2 (\<lambda>k (n, m). 0 \<le> k \<and> k mod m = 0 \<and> k div m < n) (idx @ [k - i]) (zip (sh @ [1]) (replicate (length sh) 1 @ [1])) \<longleftrightarrow> k = i"
    using l by (auto simp: list_all2_append)
  have div: "map2 (div) (idx @ [k - i]) (replicate (length sh) 1 @ [1]) = idx @ [k - i]"
    using l by (simp add: map2_units)
  have "lval E u v (idx @ [k]) = norm e (if k = i then lval E s x (relayout sh (sh @ [1]) (idx @ [k - i])) else lval E s d (idx @ [k]))"
    using 4(5) [of E "idx @ [k]"] unfolding sliceOffsets sliceStrides
    by (simp only: lopSem_def lop.case lvalues_nth [OF x(1)] lvalues_nth [OF d(1)] fst_conv snd_conv x(2) d(2) shapeOf.simps Let_def
      norm_tensor butlast_snoc ks inside div)
  then show ?case using relayout_drop [OF 4(6)] by (auto simp: nx)
qed (use d in auto)

lemma wp_convertJoin:
  assumes x: "x < length s" "ltyOf s x = TensorTy sh e" and y: "y < length s" "ltyOf s y = TensorTy sh e"
  shows "wp (convertJoin [x, y] (TensorTy (sh @ [2]) e))
    (replacedBy s (TensorTy (sh @ [2]) e) (\<lambda>E idx. lval E s (if last idx = 0 then x else y) (butlast idx))) s"
proof -
  have "wp (bindM (lcreate LEmpty (TensorTy (sh @ [2]) e)) (\<lambda>init. bindM (lcreate (LInsertSlice x init (butlast (replicate (length (sh @ [2 :: int])) 0) @ [0])
      (butlast (sh @ [2]) @ [1]) (replicate (length (sh @ [2])) 1)) (TensorTy (sh @ [2]) e)) (\<lambda>v.
      lcreate (LInsertSlice y v (butlast (replicate (length (sh @ [2 :: int])) 0) @ [1])
      (butlast (sh @ [2]) @ [1]) (replicate (length (sh @ [2])) 1)) (TensorTy (sh @ [2]) e))))
    (replacedBy s (TensorTy (sh @ [2]) e) (\<lambda>E idx. lval E s (if last idx = 0 then x else y) (butlast idx))) s"
    unfolding wp_bindM
  proof (rule wp_lcreate, goal_cases)
    case (1 i t)
    note xt = lextD [OF 1(1) x(1)]
    show ?case
    proof (rule wp_joinSlice, goal_cases)
      case (5 v u)
      note yu = lextD [OF lext_trans [OF 1(1) 5(1)] y(1)]
      show ?case
      proof (rule wp_joinSlice, goal_cases)
        case (5 w z)
        note u = \<open>lext t u\<close> and vu = \<open>v < length u\<close> \<open>ltyOf u v = TensorTy (sh @ [2]) e\<close>
        have "lval E z w idx = lval E s (if last idx = 0 then x else y) (butlast idx)" if ib: "inB (sh @ [2]) idx" for E idx
        proof -
          obtain js k where j: "idx = js @ [k]" "inB sh js" "0 \<le> k" "k < 2" using ib by (auto simp: inB_snoc)
          then have "k = 0 \<or> k = 1" by auto
          then show ?thesis using 5(4) [OF j(2), of E k] 
              \<open>\<And>E idx k. inB sh idx \<Longrightarrow> lval E u v (idx @ [k]) = (if k = 0 then lval E t x idx else lval E t i (idx @ [k]))\<close> [OF j(2), of E k]
            by (auto simp: j(1) xt yu)
        qed
        then show ?case using 5 lext_trans [OF lext_trans [OF 1(1) u] 5(1)] by (simp add: replacedBy_def)
      qed (use 5 yu y in simp_all)
    qed (use 1 xt x in simp_all)
  qed
  then show ?thesis by (simp add: convertJoin_def wp_simps atM_in Let_def numeral_2_eq_2)
qed

end
