(* ===== verification/Linalg_Groups.thy ===== *)
theory Linalg_Groups
  imports Linalg_Main
begin

text \<open>
  \<open>createReassociationMaps\<close> finds groups that the verifier accepts whenever the collapsed shape lacks one
  dimension of size one, wherever it is and whatever the other sizes are.
\<close>

declare fillGroup.simps [simp del] reassocLoop.simps(2) [simp del]

lemma fillGroup_done: "\<not> (src < dst) \<Longrightarrow> fillGroup ex dst cur src g = ret (cur, src, g)"
  by (subst fillGroup.simps) simp

lemma drop_nth: "drop cur ex = x # xs \<Longrightarrow> cur < length ex \<and> ex ! cur = x \<and> drop (Suc cur) ex = xs"
  by (metis Cons_nth_drop_Suc drop_all leI list.distinct(1) list.inject)

definition goodGroups :: "int list \<Rightarrow> nat \<Rightarrow> int list \<Rightarrow> nat list list \<Rightarrow> bool" where
  "goodGroups ex cur cs gs \<longleftrightarrow> concat gs = [cur..<length ex] \<and> [] \<notin> set gs \<and> map (\<lambda>g. prod_list (map ((!) ex) g)) gs = cs"

lemma goodGroups_Cons: "goodGroups ex (cur + length g) cs gs \<Longrightarrow> g = [cur..<cur + length g] \<Longrightarrow> g \<noteq> [] \<Longrightarrow> cur + length g \<le> length ex \<Longrightarrow>
    prod_list (map ((!) ex) g) = c \<Longrightarrow> goodGroups ex cur (c # cs) (g # gs)"
  by (auto simp: goodGroups_def) (metis le_add1 upt_add_eq_append le_add_diff_inverse)

text \<open>
  One step: either the next size is the one looked for, or it is a one before it.  The ones that
  follow are taken too unless the next size looked for is a one.
\<close>

lemma reassocLoop_step:
  assumes "cur < length ex" "fillGroup ex dst cur (ex ! cur) [] = ret (cur', dst, g)"
    and "ones = (if rest = [] \<or> hd rest \<noteq> 1 then trailingOnes ex (Suc cur') else 0)"
  shows "reassocLoop ex (dst # rest) cur groups =
    reassocLoop ex rest (Suc cur' + ones) (groups @ [g @ [cur'] @ [Suc cur'..<Suc cur' + ones]])"
  using assms(1,2) by (simp add: reassocLoop.simps(2) Let_def flip: assms(3) del: upt_Suc)

lemma trailingOnes_drop: "drop (Suc cur) ex = xs \<Longrightarrow> trailingOnes ex (Suc cur) = length (takeWhile (\<lambda>n. n = 1) xs)"
  by (simp add: trailingOnes_def)

lemma reassocLoop_hit:
  assumes "drop cur ex = dst # xs" "ones = (if rest = [] \<or> hd rest \<noteq> 1 then length (takeWhile (\<lambda>n. n = 1) xs) else 0)"
  shows "reassocLoop ex (dst # rest) cur groups = reassocLoop ex rest (Suc cur + ones) (groups @ [[cur..<Suc cur + ones]])"
proof -
  note d = drop_nth [OF assms(1)]
  have "reassocLoop ex (dst # rest) cur groups = reassocLoop ex rest (Suc cur + ones) (groups @ [[] @ [cur] @ [Suc cur..<Suc cur + ones]])"
    by (rule reassocLoop_step) (use d in \<open>simp_all add: fillGroup_done trailingOnes_drop assms(2)\<close>)
  then show ?thesis by (simp add: upt_conv_Cons del: upt_Suc)
qed

lemma reassocLoop_miss:
  assumes "drop cur ex = 1 # dst # xs" "1 < dst" "rest = [] \<or> hd rest \<noteq> 1 \<longrightarrow> xs = [] \<or> hd xs \<noteq> 1"
  shows "reassocLoop ex (dst # rest) cur groups = reassocLoop ex rest (cur + 2) (groups @ [[cur, Suc cur]])"
proof -
  note d = drop_nth [OF assms(1)]
  note e = drop_nth [OF conjunct2 [OF conjunct2 [OF d]]]
  have "fillGroup ex dst cur 1 [] = ret (Suc cur, dst, [cur])"
    using d e assms(2) by (subst fillGroup.simps) (simp add: atM_in fillGroup_done)
  moreover have "length (takeWhile (\<lambda>n. n = 1) xs) = 0" if "rest = [] \<or> hd rest \<noteq> 1"
    using that assms(3) by (cases xs) auto
  ultimately have "reassocLoop ex (dst # rest) cur groups = reassocLoop ex rest (Suc (Suc cur) + 0) (groups @ [[cur] @ [Suc cur] @ [Suc (Suc cur)..<Suc (Suc cur) + 0]])"
    using d e by (intro reassocLoop_step) (auto simp: trailingOnes_drop)
  then show ?thesis by simp
qed

text \<open>After the dimension of size one the shapes are the same.\<close>

lemma reassocLoop_same:
  assumes "drop cur ex = cs" "cur \<le> length ex"
  shows "\<exists>gs. reassocLoop ex cs cur groups = ret (Some (groups @ gs)) \<and> goodGroups ex cur cs gs"
  using assms
proof (induction cs arbitrary: cur groups)
  case Nil
  then have "cur = length ex" by simp
  then show ?case by (auto simp: goodGroups_def)
next
  case (Cons dst rest)
  note d = drop_nth [OF Cons.prems(1)]
  have "0 = (if rest = [] \<or> hd rest \<noteq> 1 then length (takeWhile (\<lambda>n. n = 1) rest) else 0)" by (cases rest) auto
  then have step: "reassocLoop ex (dst # rest) cur groups = reassocLoop ex rest (Suc cur) (groups @ [[cur]])"
    using reassocLoop_hit [OF Cons.prems(1), of 0 rest groups] by simp
  obtain gs where "reassocLoop ex rest (Suc cur) (groups @ [[cur]]) = ret (Some ((groups @ [[cur]]) @ gs))" "goodGroups ex (Suc cur) rest gs"
    using Cons.IH [of "Suc cur" "groups @ [[cur]]"] d by auto
  then show ?case
    using step d goodGroups_Cons [of ex cur "[cur]" rest gs dst] by (intro exI [of _ "[cur] # gs"]) simp
qed

lemma reassocLoop_inserted:
  assumes "drop cur ex = take p cs @ 1 # drop p cs" "p \<le> length cs" "cs \<noteq> []" "\<forall>n \<in> set cs. 0 < n" "cur \<le> length ex"
  shows "\<exists>gs. reassocLoop ex cs cur groups = ret (Some (groups @ gs)) \<and> goodGroups ex cur cs gs"
  using assms
proof (induction cs arbitrary: cur groups p)
  case (Cons dst rest)
  have fin: "\<exists>gs. reassocLoop ex (dst # rest) cur groups = ret (Some (groups @ gs)) \<and> goodGroups ex cur (dst # rest) gs"
    if step: "reassocLoop ex (dst # rest) cur groups = reassocLoop ex rest (cur + length g) (groups @ [g])"
      and g: "g = [cur..<cur + length g]" "g \<noteq> []" "cur + length g \<le> length ex" "prod_list (map ((!) ex) g) = dst"
      and rec: "\<exists>gs. reassocLoop ex rest (cur + length g) (groups @ [g]) = ret (Some ((groups @ [g]) @ gs)) \<and> goodGroups ex (cur + length g) rest gs" for g
  proof -
    obtain gs where "reassocLoop ex rest (cur + length g) (groups @ [g]) = ret (Some ((groups @ [g]) @ gs))" "goodGroups ex (cur + length g) rest gs"
      using rec by blast
    then show ?thesis using step goodGroups_Cons [OF _ g] by (intro exI [of _ "g # gs"]) simp
  qed
  have fin2: "\<exists>gs. reassocLoop ex (dst # rest) cur groups = ret (Some (groups @ gs)) \<and> goodGroups ex cur (dst # rest) gs"
    if "reassocLoop ex (dst # rest) cur groups = reassocLoop ex rest (cur + 2) (groups @ [[cur, Suc cur]])"
      and "Suc cur < length ex" "ex ! cur * ex ! Suc cur = dst" "drop (cur + 2) ex = rest"
  proof (rule fin [of "[cur, Suc cur]"])
    show "\<exists>gs. reassocLoop ex rest (cur + length [cur, Suc cur]) (groups @ [[cur, Suc cur]]) =
        ret (Some ((groups @ [[cur, Suc cur]]) @ gs)) \<and> goodGroups ex (cur + length [cur, Suc cur]) rest gs"
      using reassocLoop_same [of "cur + 2" ex rest "groups @ [[cur, Suc cur]]"] that by simp
  qed (use that in simp_all)
  show ?case
  proof (cases p)
    case 0
    then have d0: "drop cur ex = 1 # dst # rest" using Cons.prems(1) by simp
    note d = drop_nth [OF d0]
    note e = drop_nth [OF conjunct2 [OF conjunct2 [OF d]]]
    consider (miss) "1 < dst" | (last) "dst = 1" "rest = [] \<or> hd rest \<noteq> 1" | (more) "dst = 1" "rest \<noteq> []" "hd rest = 1"
      using Cons.prems(4) by fastforce
    then show ?thesis
    proof cases
      case miss
      have "reassocLoop ex (dst # rest) cur groups = reassocLoop ex rest (cur + 2) (groups @ [[cur, Suc cur]])"
        by (rule reassocLoop_miss [OF d0 miss]) simp
      then show ?thesis by (rule fin2) (use d e in auto)
    next
      case last
      then have "length (takeWhile (\<lambda>n. n = 1) rest) = 0" by (cases rest) auto
      then have "reassocLoop ex (dst # rest) cur groups = reassocLoop ex rest (cur + 2) (groups @ [[cur, Suc cur]])"
        using reassocLoop_hit [of cur ex dst "dst # rest" 1 rest groups] d0 last by simp
      then show ?thesis by (rule fin2) (use d e last in auto)
    next
      case more
      have "\<exists>gs. reassocLoop ex rest (Suc cur) (groups @ [[cur]]) = ret (Some ((groups @ [[cur]]) @ gs)) \<and> goodGroups ex (Suc cur) rest gs"
        using Cons.IH [of "Suc cur" 0 "groups @ [[cur]]"] Cons.prems d more by simp
      then show ?thesis
        using reassocLoop_hit [of cur ex dst "dst # rest" 0 rest groups] d0 more d by (intro fin [of "[cur]"]) auto
    qed
  next
    case (Suc q)
    then have d0: "drop cur ex = dst # (take q rest @ 1 # drop q rest)" using Cons.prems(1) by simp
    note d = drop_nth [OF d0]
    show ?thesis
    proof (cases "q = 0 \<and> (rest = [] \<or> hd rest \<noteq> 1)")
      case True
      then have "length (takeWhile (\<lambda>n. n = 1) rest) = 0" by (cases rest) auto
      moreover have e: "drop (Suc cur) ex = 1 # rest" using d True by simp
      ultimately have "reassocLoop ex (dst # rest) cur groups = reassocLoop ex rest (cur + 2) (groups @ [[cur, Suc cur]])"
        using reassocLoop_hit [OF d0, of 1 rest groups] True by simp
      then show ?thesis by (rule fin2) (use d drop_nth [OF e] in auto)
    next
      case False
      have ne: "rest \<noteq> []" using False Cons.prems(2) Suc by auto
      have "length (takeWhile (\<lambda>n. n = 1) (take q rest @ 1 # drop q rest)) = 0" if "hd rest \<noteq> 1"
        using that False ne by (cases rest; cases q) auto
      then have "reassocLoop ex (dst # rest) cur groups = reassocLoop ex rest (Suc cur) (groups @ [[cur]])"
        using reassocLoop_hit [OF d0, of 0 rest groups] ne by auto
      moreover have "\<exists>gs. reassocLoop ex rest (Suc cur) (groups @ [[cur]]) = ret (Some ((groups @ [[cur]]) @ gs)) \<and> goodGroups ex (Suc cur) rest gs"
        using Cons.IH [of "Suc cur" q "groups @ [[cur]]"] Cons.prems d Suc ne by simp
      ultimately show ?thesis using d by (intro fin [of "[cur]"]) auto
    qed
  qed
qed simp

lemma createReassociationMaps_dropOne:
  assumes "axis < length sh" "\<forall>n \<in> set sh. 0 < n"
  shows "\<exists>g. createReassociationMaps (sh[axis := 1]) (take axis sh @ drop (Suc axis) sh) = ret (Some g) \<and>
    groupsOk (sh[axis := 1]) (take axis sh @ drop (Suc axis) sh) g"
proof -
  let ?cs = "take axis sh @ drop (Suc axis) sh"
  have ex: "sh[axis := 1] = take axis ?cs @ 1 # drop axis ?cs" using assms(1) by (simp add: upd_conv_take_nth_drop)
  have pos: "kDynamic \<notin> set (sh[axis := 1])" "kDynamic \<notin> set ?cs" "\<forall>n \<in> set ?cs. 0 < n"
    using assms(2) by (fastforce simp: kDynamic_def dest: in_set_takeD in_set_dropD set_update_subset_insert [THEN subsetD])+
  show ?thesis
  proof (cases "?cs = []")
    case True
    then have "length sh = 1" using assms(1) by (cases sh) auto
    then have "sh[axis := 1] = [1]" using assms(1) by (cases sh) auto
    then show ?thesis using True by (simp add: createReassociationMaps_def groupsOk_def)
  next
    case False
    obtain gs where "reassocLoop (sh[axis := 1]) ?cs 0 [] = ret (Some ([] @ gs))" "goodGroups (sh[axis := 1]) 0 ?cs gs"
    proof -
      have "axis \<le> length ?cs" using assms(1) by simp
      then show ?thesis using that reassocLoop_inserted [OF _ _ False pos(3), of 0 "sh[axis := 1]" axis "[]"] ex by auto
    qed
    then show ?thesis using False pos assms(1) by (auto simp: createReassociationMaps_def groupsOk_def goodGroups_def)
  qed
qed

end
