(* ===== verification/Reduce_Sound.thy ===== *)
theory Reduce_Sound
  imports Linalg_Groups
begin

text \<open>What \<open>linalg.reduce\<close> computes along one axis, and the reductions that start from a neutral element.\<close>

section \<open>One axis\<close>

definition insertAt :: "nat \<Rightarrow> int \<Rightarrow> int list \<Rightarrow> int list" where
  "insertAt axis k idx = take axis idx @ k # drop axis idx"

definition removeAt :: "nat \<Rightarrow> 'a list \<Rightarrow> 'a list" where
  "removeAt axis xs = take axis xs @ drop (Suc axis) xs"

lemma length_removeAt: "axis < length xs \<Longrightarrow> length (removeAt axis xs) = length xs - 1"
  by (simp add: removeAt_def)

lemma mergeIdx_after: "axis < i \<Longrightarrow> length js = n - i \<Longrightarrow> mergeIdx [axis] [i..<n] ks js = js"
proof (induction "n - i" arbitrary: i js)
  case (Suc m)
  then obtain j js' where j: "js = j # js'" by (cases js) auto
  have "mergeIdx [axis] [Suc i..<n] ks js' = js'" using Suc.prems Suc.hyps(2) j by (intro Suc.hyps(1)) auto
  then show ?case using Suc.prems Suc.hyps(2) j by (simp add: upt_conv_Cons)
qed simp

lemma mergeIdx_from: "i \<le> axis \<Longrightarrow> axis < n \<Longrightarrow> Suc (length js) = n - i \<Longrightarrow> mergeIdx [axis] [i..<n] [k] js = insertAt (axis - i) k js"
proof (induction "axis - i" arbitrary: i js)
  case 0
  then have "i = axis" by simp
  then show ?case using 0 mergeIdx_after [of axis "Suc axis" js n "[]"] by (simp add: upt_conv_Cons insertAt_def)
next
  case (Suc m)
  then obtain j js' where j: "js = j # js'" by (cases js) auto
  have "mergeIdx [axis] [Suc i..<n] [k] js' = insertAt (axis - Suc i) k js'" using Suc.prems Suc.hyps(2) j by (intro Suc.hyps(1)) auto
  moreover have "i < axis" "axis - i = Suc (axis - Suc i)" using Suc.hyps(2) by simp_all
  ultimately show ?case using Suc.prems j by (simp add: upt_conv_Cons insertAt_def del: mergeIdx.simps(2)) (simp add: insertAt_def)
qed

lemma mergeIdx_axis: "axis < n \<Longrightarrow> Suc (length idx) = n \<Longrightarrow> mergeIdx [axis] [0..<n] [k] idx = insertAt axis k idx"
  using mergeIdx_from [of 0 axis n idx k] by simp

lemma indices_one: "indices [n] = map (\<lambda>i. [i]) [0..n - 1]"
  by (simp add: concat_map_single [where f = "\<lambda>i. [i]"])

lemma inB_insertAt:
  assumes "inB (removeAt axis sh) idx" "axis < length sh" "0 \<le> k" "k < sh ! axis"
  shows "inB sh (insertAt axis k idx)"
proof -
  obtain xs ys where x: "idx = xs @ ys" "list_all2 (\<lambda>n i. 0 \<le> i \<and> i < n) (take axis sh) xs" "list_all2 (\<lambda>n i. 0 \<le> i \<and> i < n) (drop (Suc axis) sh) ys"
    using assms(1) by (auto simp: inB_def removeAt_def list_all2_append1)
  have l: "length xs = axis" using list_all2_lengthD [OF x(2)] assms(2) by simp
  have "list_all2 (\<lambda>n i. 0 \<le> i \<and> i < n) (take axis sh @ sh ! axis # drop (Suc axis) sh) (xs @ k # ys)"
    using x assms(3,4) by (intro list_all2_appendI) auto
  then show ?thesis using l x(1) id_take_nth_drop [OF assms(2)] by (simp add: inB_def insertAt_def)
qed

text \<open>
  \<open>tt.reduce\<close>: the elements along the axis, combined in their order; the accumulated values are the first
  arguments of the region.
\<close>

definition reduceSem :: "lenv \<Rightarrow> ltable \<Rightarrow> sregion \<Rightarrow> nat \<Rightarrow> int \<Rightarrow> val list \<Rightarrow> int list \<Rightarrow> int list" where
  "reduceSem E s r axis n xs idx =
     (let el = (\<lambda>k. map (\<lambda>v. lval E s v (insertAt axis k idx)) xs)
      in foldl (\<lambda>acc k. regionSem (fops E) (lval E s) [] r (acc @ el k)) (el 0) [1..n - 1])"

text \<open>The elements of \<open>linalg.reduce\<close>; its region has the element before the accumulated value.\<close>

lemma lopSem_reduce:
  assumes "\<forall>v \<in> set xs \<union> set is. v < length s" "xs \<noteq> []" "shapeOf (ltyOf s (hd xs)) = sh" "axis < length sh" "Suc (length idx) = length sh"
  shows "lopSem E (lvalues E s) (LReduce xs is [axis] r k) t idx =
    foldl (\<lambda>acc j. regionSem (fops E) (\<lambda>v. snd (lvalues E s ! v)) [] r (map (\<lambda>v. lval E s v (insertAt axis j idx)) xs @ acc))
      (map (\<lambda>v. lval E s v idx) is) [0..sh ! axis - 1] ! k"
proof -
  have hd: "xs ! 0 = hd xs" "hd xs < length s" using assms(1,2) by (cases xs; simp)+
  have m: "map (\<lambda>v. snd (lvalues E s ! v) js) ys = map (\<lambda>v. lval E s v js) ys" if "\<forall>v \<in> set ys. v < length s" for ys js
    using that by (auto simp: lvalues_nth)
  have "map ((!) sh) [axis] = [sh ! axis]" by simp
  then show ?thesis
    using assms(1,3-5) hd by (simp add: lopSem_def lvalues_nth indices_one foldl_map mergeIdx_axis m del: indices.simps)
qed

section \<open>Neutral elements\<close>

definition redSem :: "float_ops \<Rightarrow> sop \<Rightarrow> ty \<Rightarrow> int \<Rightarrow> int \<Rightarrow> int" where
  "redSem F f t a b = sopSem F (\<lambda>_ _. 0) [] f t [a, b]"

text \<open>
  Reductions whose neutral element is the one the code starts from.  Of the integer operations this
  leaves out \<open>andi\<close> on more than one bit; that floating-point operations are commutative and have the
  element is a hypothesis on the arithmetic.
\<close>

definition reducible :: "float_ops \<Rightarrow> sop \<Rightarrow> ty \<Rightarrow> bool" where
  "reducible F f e = (case e of
     IntTy w \<Rightarrow> 0 < w \<and> f \<in> {SAddI, SMulI, SAndI, SOrI, SXOrI, SMinSI, SMinUI, SMaxSI, SMaxUI} \<and> (f = SAndI \<longrightarrow> w = 1)
   | FloatTy w \<Rightarrow> f \<in> {SAddF, SMulF, SMaximumF, SMaxNumF, SMinimumF, SMinNumF} \<and> (\<forall>a b. fbin F f e a b = fbin F f e b a) \<and>
       (\<forall>c x. getRedBaseConstOp f e = Some c \<longrightarrow> fbin F f e x (constSem F c e) = x)
   | _ \<Rightarrow> False)"

lemma sopSem_red: "isReductionOpSupported f \<Longrightarrow> sopSem F look idx f t [a, b] = redSem F f t a b"
  by (auto simp: redSem_def sopSem_def isReductionOpSupported_def split: sop.splits)

lemma red_norm: "reducible F f e \<Longrightarrow> norm e (redSem F f e a b) = redSem F f e a b"
  by (auto simp: redSem_def sopSem_def reducible_def norm_def split: ty.splits)

lemma red_commute: "reducible F f e \<Longrightarrow> redSem F f e a b = redSem F f e b a"
  by (auto simp: redSem_def sopSem_def reducible_def ac_simps min.commute max.commute split: ty.splits)

lemma wrap_max_signed: "0 < w \<Longrightarrow> wrap w (2 ^ (w - 1) - 1) = 2 ^ (w - 1) - 1"
  by (rule wrap_id) (simp_all add: self_le_power)

lemma take_bit_of_wrap: "0 < w \<Longrightarrow> take_bit w (wrap w x) = take_bit w x"
  using take_bit_signed_take_bit [of w "w - 1" x] by (simp add: wrap_def)

lemma wrap_take_bit: "0 < w \<Longrightarrow> wrap w (take_bit w x) = wrap w x"
  by (cases w) (simp_all add: wrap_def signed_take_bit_take_bit)

lemma red_neutral:
  assumes "reducible F f e" "getRedBaseConstOp f e = Some c" "norm e x = x"
  shows "redSem F f e x (constSem F c e) = x"
proof (cases e)
  case (IntTy w)
  then have w: "0 < w" "wrap w x = x" and f: "f = SAndI \<Longrightarrow> w = 1" using assms by (auto simp: reducible_def)
  have lo: "- (2 ^ (w - 1)) \<le> x" "x < 2 ^ (w - 1)" using wrap_lower [of w x] wrap_upper [of w x] w(2) by simp_all
  have min: "wrap w (- (2 ^ (w - 1))) = - (2 ^ (w - 1))" by (rule wrap_id) simp_all
  have ones: "take_bit w (wrap w (2 ^ w - 1)) = 2 ^ w - (1 :: int)" using w(1) by (simp add: take_bit_of_wrap take_bit_int_eq_self)
  have le: "take_bit w x \<le> 2 ^ w - (1 :: int)" using take_bit_int_less_exp [of w x] by linarith
  have one: "w = 1 \<Longrightarrow> wrap w 1 = -1" by (simp add: wrap_def)
  have mn: "min x (2 ^ (w - 1) - 1) = x" "max x (- (2 ^ (w - 1))) = x" using lo by (simp_all add: min_def max_def)
  have mu: "min (take_bit w x) (2 ^ w - 1) = take_bit w x" "max (take_bit w x) 0 = take_bit w x" using le by (simp_all add: min_absorb1 max_absorb1)
  have mul: "wrap w (x * wrap w 1) = x" using wrap_mult [of w x 1] w(2) by simp
  show ?thesis
    using assms(1,2) w f one
    by (auto simp: IntTy reducible_def getRedBaseConstOp_def redSem_def sopSem_def constSem_def Let_def min ones mn mu
        wrap_max_signed wrap_take_bit take_bit_of_wrap mul simp del: One_nat_def)
qed (use assms in \<open>auto simp: reducible_def redSem_def sopSem_def\<close>)

end
