(* ===== verification/Reduce_Main.thy ===== *)
theory Reduce_Main
  imports Reduce_Sound
begin

text \<open>The conversion of a reduction by one operation with a neutral element.\<close>

section \<open>The reduced axis in front\<close>

lemma filter_axis: "axis < n \<Longrightarrow> filter (\<lambda>i. i \<noteq> axis) [0..<n] = [0..<axis] @ [Suc axis..<n]"
proof -
  assume a: "axis < n"
  then have "[0..<n] = [0..<axis] @ axis # [Suc axis..<n]" by (metis le0 le_add_diff_inverse less_imp_le_nat upt_add_eq_append upt_conv_Cons)
  then show ?thesis by (simp add: filter_id_conv)
qed

lemma map_nth_removeAt: "axis < length sh \<Longrightarrow> map ((!) sh) ([0..<axis] @ [Suc axis..<length sh]) = removeAt axis sh"
  by (simp add: removeAt_def list_eq_iff_nth_eq nth_append min_def)

lemma frontOrder:
  assumes "axis < n"
  shows "distinct (axis # [0..<axis] @ [Suc axis..<n])" "set (axis # [0..<axis] @ [Suc axis..<n]) = {0..<n}"
  using assms by auto

lemma ordered_front:
  assumes "axis < n" "Suc (length idx) = n"
  shows "ordered (axis # [0..<axis] @ [Suc axis..<n]) (k # idx) = insertAt axis k idx"
proof (rule nth_equalityI)
  let ?o = "axis # [0..<axis] @ [Suc axis..<n]"
  have l: "length ?o = n" using assms(1) by simp
  note o = ordered_nth [OF frontOrder(1) [OF assms(1)], of "k # idx"]
  have o': "length (ordered ?o (k # idx)) = n" "j < n \<Longrightarrow> ordered ?o (k # idx) ! (?o ! j) = (k # idx) ! j" for j
    using o(1) o(2) [of j] frontOrder(2) [OF assms(1)] assms(2) l by simp_all
  show "length (ordered ?o (k # idx)) = length (insertAt axis k idx)" using o'(1) assms by (simp add: insertAt_def)
  fix d assume d: "d < length (ordered ?o (k # idx))"
  consider "d < axis" | "d = axis" | "axis < d" by linarith
  then show "ordered ?o (k # idx) ! d = insertAt axis k idx ! d"
  proof cases
    case 1
    then show ?thesis using o'(2) [of "Suc d"] assms by (simp add: insertAt_def nth_append)
  next
    case 2
    then show ?thesis using o'(2) [of 0] assms by (simp add: insertAt_def nth_append)
  next
    case 3
    then have "\<not> d - Suc 0 < axis" by simp
    then have "?o ! d = d" using 3 d o'(1) by (simp add: nth_Cons' nth_append del: upt_Suc)
    then have "ordered ?o (k # idx) ! d = idx ! (d - 1)" using o'(2) [of d] d o'(1) 3 by (simp add: nth_Cons')
    then show ?thesis using 3 d assms o'(1) by (auto simp: insertAt_def nth_append nth_Cons')
  qed
qed

section \<open>The fold\<close>

lemma fold_neutral:
  assumes "reducible F f e" "getRedBaseConstOp f e = Some c" "0 < n" "norm e (el 0) = el 0"
  shows "foldl (\<lambda>a j. redSem F f e (el j) a) (constSem F c e) [0..n - 1] = foldl (\<lambda>a j. redSem F f e a (el j)) (el 0) [1..n - 1]"
proof -
  have first: "[0..n - 1] = 0 # [1..n - 1]" using assms(3) by (subst upto.simps) simp
  have comm: "(\<lambda>a j. redSem F f e (el j) a) = (\<lambda>a j. redSem F f e a (el j))" using red_commute [OF assms(1)] by (intro ext)
  have "foldl (\<lambda>a j. redSem F f e (el j) a) (constSem F c e) [0..n - 1] = foldl (\<lambda>a j. redSem F f e (el j) a) (el 0) [1..n - 1]"
    by (simp only: first foldl.simps red_neutral [OF assms(1,2,4)])
  then show ?thesis by (simp only: comm)
qed

lemma regionSem_red: "isReductionOpSupported f \<Longrightarrow> regionSem F look idx (getRedElement f t False) [x, a] = [redSem F f t x a]"
  by (simp add: regionSem_def getRedElement_def sopSem_red)

lemma foldl_red: "isReductionOpSupported f \<Longrightarrow>
    foldl (\<lambda>acc j. regionSem F look [] (getRedElement f t False) (el j # acc)) [b] js = [foldl (\<lambda>a j. redSem F f t (el j) a) b js]"
  by (induction js arbitrary: b) (simp_all add: regionSem_red)

definition reduceRegion :: "sop \<Rightarrow> ty \<Rightarrow> sregion" where
  "reduceRegion f e = \<lparr>regionBody = [((f, e), [BArg 0, BArg 1])], regionReturns = [BRes 0]\<rparr>"

lemma reduceSem_one:
  assumes "isReductionOpSupported f"
  shows "reduceSem E s (reduceRegion f e) axis n [x] idx =
    [foldl (\<lambda>a k. redSem (fops E) f e a (lval E s x (insertAt axis k idx))) (lval E s x (insertAt axis 0 idx)) [1..n - 1]]"
proof -
  have "foldl (\<lambda>acc k. regionSem F look [] (reduceRegion f e) (acc @ [el k])) [b] js = [foldl (\<lambda>a k. redSem F f e a (el k)) b js]" for F look el b js
    by (induction js arbitrary: b) (simp_all add: regionSem_def reduceRegion_def sopSem_red [OF assms])
  then show ?thesis by (simp add: reduceSem_def)
qed

lemma wp_reduceCore:
  assumes x: "x < length s" "ltyOf s x = TensorTy sh e" "axis < length sh" "0 < sh ! axis" and i: "i < length s"
    and c: "getRedBaseConstOp f e = Some c" "isReductionOpSupported f"
    and init: "\<And>E idx. reducible (fops E) f e \<Longrightarrow> inB (removeAt axis sh) idx \<Longrightarrow> lval E s i idx = constSem (fops E) c e"
    and post: "\<And>v u. lext s u \<Longrightarrow> v < length u \<Longrightarrow> ltyOf u v = TensorTy (removeAt axis sh) e \<Longrightarrow>
      (\<And>E idx. reducible (fops E) f e \<Longrightarrow> inB (removeAt axis sh) idx \<Longrightarrow>
        lval E u v idx = hd (reduceSem E s (reduceRegion f e) axis (sh ! axis) [x] idx)) \<Longrightarrow> Q v u"
  shows "wp (lcreate (LReduce [x] [i] [axis] (getRedElement f e False) 0) (TensorTy (removeAt axis sh) e)) Q s"
proof (rule wp_lcreate, rule post, goal_cases)
  case (4 v u E idx)
  have l: "Suc (length idx) = length sh" using inB_length [OF 4(7)] length_removeAt [OF x(3)] x(3) by simp
  have nx: "norm e (lval E s x ks) = lval E s x ks" for ks using lval_norm [OF x(1), of E ks] x(2) by simp
  have "lval E u v idx = norm e (foldl (\<lambda>a j. redSem (fops E) f e (lval E s x (insertAt axis j idx)) a) (constSem (fops E) c e) [0..sh ! axis - 1])"
    using 4(5) [of E idx] lopSem_reduce [of "[x]" "[i]" s sh axis idx E "getRedElement f e False" 0 "TensorTy (removeAt axis sh) e"] x i l
      init [OF 4(6,7)] by (simp add: foldl_red [OF c(2)])
  also have "\<dots> = norm e (hd (reduceSem E s (reduceRegion f e) axis (sh ! axis) [x] idx))"
    using fold_neutral [OF 4(6) c(1) x(4), of "\<lambda>j. lval E s x (insertAt axis j idx)"] nx by (simp add: reduceSem_one [OF c(2)])
  also have "\<dots> = hd (reduceSem E s (reduceRegion f e) axis (sh ! axis) [x] idx)"
  proof -
    have keep: "norm e (foldl (\<lambda>a k. redSem (fops E) f e a (el k)) b js) = foldl (\<lambda>a k. redSem (fops E) f e a (el k)) b js"
      if "norm e b = b" for el :: "int \<Rightarrow> int" and b js
      using that by (induction js arbitrary: b) (simp_all add: red_norm [OF 4(6)])
    show ?thesis unfolding reduceSem_one [OF c(2)] list.sel by (rule keep [OF nx])
  qed
  finally show ?case .
qed

lemma red_base: "reducible F f e \<Longrightarrow> getRedBaseConstOp f e = Some c \<Longrightarrow> norm e (constSem F c e) = constSem F c e"
  by (auto simp: reducible_def getRedBaseConstOp_def constSem_def Let_def norm_def split: ty.splits)

text \<open>From the source with the axis in front (or the only one) to the result.\<close>

definition reducedTy :: "int list \<Rightarrow> ty \<Rightarrow> ty" where
  "reducedTy out e = (if out = [] then e else TensorTy out e)"

lemma shapeOf_reducedTy: "\<not> isShaped e \<Longrightarrow> shapeOf (reducedTy out e) = out"
  by (cases e) (auto simp: reducedTy_def)

definition reducedBy :: "ltable \<Rightarrow> sop \<Rightarrow> ty \<Rightarrow> nat \<Rightarrow> int list \<Rightarrow> val \<Rightarrow> val \<Rightarrow> ltable \<Rightarrow> bool" where
  "reducedBy s f e axis sh x v u \<longleftrightarrow> lext s u \<and> v < length u \<and> ltyOf u v = reducedTy (removeAt axis sh) e \<and>
     (\<forall>E idx. reducible (fops E) f e \<longrightarrow> inB (removeAt axis sh) idx \<longrightarrow>
       lval E u v idx = hd (reduceSem E s (reduceRegion f e) axis (sh ! axis) [x] idx))"

lemma wp_reduceTail:
  assumes x: "x < length s" "ltyOf s x = TensorTy sh e" "axis < length sh" "0 < sh ! axis"
    and c: "getRedBaseConstOp f e = Some c" "isReductionOpSupported f" and e: "\<not> isShaped e" and vec: "vec \<longleftrightarrow> removeAt axis sh = []"
  shows "wp (bindM (lcreate (LConst c) e) (\<lambda>accBase.
     bindM (if vec
       then bindM (lcreate LEmpty (TensorTy [] e)) (\<lambda>initTensor. lcreate (LInsert accBase initTensor []) (TensorTy [] e))
       else bindM (lcreate LEmpty (TensorTy (removeAt axis sh) e)) (\<lambda>init. lcreate (LFill accBase init) (TensorTy (removeAt axis sh) e))) (\<lambda>initTensor.
     bindM (lcreate (LReduce [x] [initTensor] [axis] (getRedElement f e False) 0) (TensorTy (if vec then [] else removeAt axis sh) e)) (\<lambda>res.
     if vec then lcreate (LExtract res []) e else ret res)))) (reducedBy s f e axis sh x) s"
  unfolding wp_bindM
proof (rule wp_lcreate, goal_cases)
  case (1 b t)
  let ?t = "TensorTy (removeAt axis sh) e"
  have el: "elemTy e = e" using e by (cases e) auto
  have b: "lval E t b [] = constSem (fops E) c e" if "reducible (fops E) f e" for E
    using 1(5) [of E "[]"] red_base [OF that c(1)] by (simp add: lopSem_def)
  have t: "x < length t" "ltyOf t x = TensorTy sh e" "lval E t x = lval E s x" for E using lextD [OF 1(1) x(1)] x(2) by simp_all
  let ?init = "if vec
       then bindM (lcreate LEmpty (TensorTy [] e)) (\<lambda>initTensor. lcreate (LInsert b initTensor []) (TensorTy [] e))
       else bindM (lcreate LEmpty ?t) (\<lambda>init. lcreate (LFill b init) ?t)"
  have "wp ?init (\<lambda>i u. lext t u \<and> i < length u \<and> (\<forall>E idx. reducible (fops E) f e \<longrightarrow> inB (removeAt axis sh) idx \<longrightarrow> lval E u i idx = constSem (fops E) c e)) t"
  proof (cases vec)
    case True
    have "wp (bindM (lcreate LEmpty (TensorTy [] e)) (\<lambda>init. lcreate (LInsert b init []) (TensorTy [] e)))
        (\<lambda>i u. lext t u \<and> i < length u \<and> (\<forall>E idx. reducible (fops E) f e \<longrightarrow> inB (removeAt axis sh) idx \<longrightarrow> lval E u i idx = constSem (fops E) c e)) t"
      unfolding wp_bindM
    proof (rule wp_lcreate, rule wp_lcreate, goal_cases)
      case (1 z u i w)
      then show ?case using lextD [OF 1(1) \<open>b < length t\<close>] b red_base [OF _ c(1)] True vec
        by (auto simp: lopSem_def lvalues_nth intro: lext_trans)
    qed
    then show ?thesis using True by simp
  next
    case False
    have "wp (bindM (lcreate LEmpty ?t) (\<lambda>init. lcreate (LFill b init) ?t))
        (\<lambda>i u. lext t u \<and> i < length u \<and> (\<forall>E idx. reducible (fops E) f e \<longrightarrow> inB (removeAt axis sh) idx \<longrightarrow> lval E u i idx = constSem (fops E) c e)) t"
      unfolding wp_bindM
    proof (rule wp_lcreate, rule wp_lcreate, goal_cases)
      case (1 z u i w)
      then show ?case using lextD [OF 1(1) \<open>b < length t\<close>] b red_base [OF _ c(1)]
        by (auto simp: lopSem_def lvalues_nth intro: lext_trans)
    qed
    then show ?thesis using False by simp
  qed
  then show ?case
  proof (rule wp_mono, goal_cases)
    case (1 i u)
    have u: "lext s u" using lext_trans [OF \<open>lext s t\<close>] 1 by blast
    have xu: "x < length u" "ltyOf u x = TensorTy sh e" "lval E u x = lval E s x" for E using lextD [OF u x(1)] x(2) by simp_all
    have ty: "TensorTy (if vec then [] else removeAt axis sh) e = ?t" using vec by auto
    show ?case
      unfolding ty wp_bindM
    proof (rule wp_reduceCore [OF xu(1,2) x(3,4) _ c], goal_cases)
      case (3 v w)
      have red: "reduceSem E u (reduceRegion f e) axis n [x] idx = reduceSem E s (reduceRegion f e) axis n [x] idx" for E n idx
        by (simp add: reduceSem_one [OF c(2)] xu)
      have w: "lext s w" by (rule lext_trans [OF u 3(1)])
      show ?case
      proof (cases vec)
        case True
        have "wp (lcreate (LExtract v []) e) (reducedBy s f e axis sh x) w"
        proof (rule wp_lcreate, goal_cases)
          case (1 y z)
          have "lval E z y idx = hd (reduceSem E s (reduceRegion f e) axis (sh ! axis) [x] idx)"
            if "reducible (fops E) f e" "inB (removeAt axis sh) idx" for E idx
          proof -
            have "idx = []" using that(2) True vec by simp
            then show ?thesis using 1(5) [of E "[]"] 3(4) [OF that] 3(2,3) lval_norm [OF 3(2), of E "[]"] red
              by (simp add: lopSem_def lvalues_nth)
          qed
          then show ?case using 1 w True vec by (auto simp: reducedBy_def reducedTy_def intro: lext_trans)
        qed
        then show ?thesis using True by simp
      next
        case False
        then show ?thesis using 3 w vec red by (simp add: reducedBy_def reducedTy_def wp_simps)
      qed
    qed (use 1 in auto)
  qed
qed

lemma removeAt_Nil: "axis < length sh \<Longrightarrow> removeAt axis sh = [] \<longleftrightarrow> length sh = 1"
  using length_removeAt [of axis sh] by (cases "removeAt axis sh") auto

lemma shape_front: "axis < length sh \<Longrightarrow> map ((!) sh) (axis # [0..<axis] @ [Suc axis..<length sh]) = sh ! axis # removeAt axis sh"
  using map_nth_removeAt [of axis sh] by simp

theorem wp_convertReduce:
  assumes x: "x < length s" "ltyOf s x = TensorTy sh e" "axis < length sh" "0 < sh ! axis"
    and c: "getRedBaseConstOp f e = Some c" "isReductionOpSupported f" and e: "\<not> isShaped e"
    and noF32: "\<not> requiresF32Conversion isF16 (reducedTy (removeAt axis sh) e) f"
  shows "wp (convertReduce isF16 [x] axis (reduceRegion f e) (reducedTy (removeAt axis sh) e)) (reducedBy s f e axis sh x) s"
proof -
  let ?vec = "length sh = 1"
  let ?R = "reducedTy (removeAt axis sh) e"
  have el: "elemTy e = e" using e by (cases e) auto
  have vec: "?vec \<longleftrightarrow> removeAt axis sh = []" using removeAt_Nil [OF x(3)] by simp
  let ?order = "axis # [0..<axis] @ [Suc axis..<length sh]"
  let ?axis = "if \<not> ?vec \<and> axis \<noteq> 0 then 0 else axis"
  let ?tail = "\<lambda>x axis. bindM (lcreate (LConst c) e) (\<lambda>accBase.
     bindM (if ?vec
       then bindM (lcreate LEmpty (TensorTy [] e)) (\<lambda>initTensor. lcreate (LInsert accBase initTensor []) (TensorTy [] e))
       else bindM (lcreate LEmpty (TensorTy (shapeOf ?R) e)) (\<lambda>init. lcreate (LFill accBase init) (TensorTy (shapeOf ?R) e))) (\<lambda>initTensor.
     bindM (lcreate (LReduce [x] [initTensor] [axis] (getRedElement f e False) 0) (TensorTy (if ?vec then [] else shapeOf ?R) e)) (\<lambda>res.
     if ?vec then lcreate (LExtract res []) e else ret res)))"
  have "wp (bindM (if \<not> ?vec \<and> axis \<noteq> 0 then getTransposedValue x ?order else ret x) (\<lambda>x. ?tail x ?axis)) (reducedBy s f e axis sh x) s"
  proof (cases "\<not> ?vec \<and> axis \<noteq> 0")
    case True
    have "wp (getTransposedValue x ?order) (\<lambda>x'. wp (?tail x' 0) (reducedBy s f e axis sh x)) s"
    proof (rule wp_getTransposedValue [OF x(1,2) _ frontOrder [OF x(3)] refl], goal_cases)
      case (2 x' u)
      let ?sh = "sh ! axis # removeAt axis sh"
      have xu: "x' < length u" "ltyOf u x' = TensorTy ?sh e"
        and val: "\<And>E idx. inB ?sh idx \<Longrightarrow> lval E u x' idx = lval E s x (ordered ?order idx)"
        using 2 unfolding shape_front [OF x(3)] by (simp_all add: replacedBy_def)
      have rm: "removeAt 0 ?sh = removeAt axis sh" by (simp add: removeAt_def)
      have red: "reduceSem E u (reduceRegion f e) 0 (sh ! axis) [x'] idx = reduceSem E s (reduceRegion f e) axis (sh ! axis) [x] idx"
        if ib: "inB (removeAt axis sh) idx" for E idx
      proof -
        have "Suc (length idx) = length sh" using inB_length [OF ib] length_removeAt [OF x(3)] x(3) by simp
        then have el: "lval E u x' (insertAt 0 k idx) = lval E s x (insertAt axis k idx)" if "0 \<le> k" "k < sh ! axis" for k
          using val [of "k # idx" E] ib that ordered_front [OF x(3)] by (simp add: insertAt_def inB_Cons)
        show ?thesis
          unfolding reduceSem_one [OF c(2)] el [OF order_refl x(4)] by (intro arg_cong2 [of _ _ _ _ "\<lambda>x y. [x]"] foldl_cong) (auto simp: el)
      qed
      have "wp (?tail x' 0) (reducedBy u f e 0 ?sh x') u"
        using wp_reduceTail [OF xu _ _ c e, of 0 ?vec] x(4) vec unfolding rm shapeOf_reducedTy [OF e] by simp
      then show ?case
        by (rule wp_mono) (use 2(1) red in \<open>auto simp: reducedBy_def rm intro: lext_trans\<close>)
    qed (use x(3) in auto)
    then show ?thesis using True by (simp add: wp_simps)
  next
    case False
    show ?thesis
      unfolding if_not_P [OF False] bindM_ret shapeOf_reducedTy [OF e] by (rule wp_reduceTail [OF x c e vec])
  qed
  moreover have "convertReduce isF16 [x] axis (reduceRegion f e) ?R s =
      bindM (if \<not> ?vec \<and> axis \<noteq> 0 then getTransposedValue x ?order else ret x) (\<lambda>x. ?tail x ?axis) s"
    using x(2,3) c noF32 el
    by (cases "axis = 0") (simp_all add: convertReduce_def convertToLinalgReduce_def reduceRegion_def atM_in bindM_getM bindM_ret_right filter_axis [OF x(3)] Let_def shapeOf_reducedTy [OF e])
  ultimately show ?thesis by (simp only: wp_def)
qed

end
