(* ===== verification/Dot_Main.thy ===== *)
theory Dot_Main
  imports Reduce_Sound
begin

text \<open>Integer matrix products with an accumulator, and comparisons with a select.\<close>

section \<open>Operations of a table\<close>

text \<open>An operation only has operands before it.\<close>

lemma lval_unfold:
  assumes "v < length s"
  shows "lval E s v idx = norm (ltyOf s v) (lopSem E (lvalues E (take v s)) (lopOf s v) (ltyOf s v) idx)"
proof -
  have s: "s = take v s @ [s ! v] @ drop (Suc v) s" using assms by (simp add: id_take_nth_drop [symmetric])
  have "lvalues E s ! v = lvalues E (take v s @ [s ! v]) ! v"
    using lvalues_prefix [of v "take v s @ [s ! v]" E "drop (Suc v) s"] assms s by simp
  then show ?thesis using assms by (cases "s ! v") (simp add: lval_def ltyOf_def lopOf_def entry_def nth_append)
qed

lemma lvalues_take: "x < v \<Longrightarrow> v < length s \<Longrightarrow> lvalues E (take v s) ! x = (ltyOf s x, lval E s x)"
  using lvalues_prefix [of x "take v s" E "drop v s"] lvalues_nth [of x s E] by simp

section \<open>Products\<close>

definition dotTyped :: "ltable \<Rightarrow> val \<Rightarrow> val \<Rightarrow> val \<Rightarrow> int \<Rightarrow> int \<Rightarrow> int \<Rightarrow> nat \<Rightarrow> bool" where
  "dotTyped s a b c m k n w \<longleftrightarrow> a < length s \<and> b < length s \<and> c < length s \<and>
     (\<exists>u. ltyOf s a = TensorTy [m, k] (IntTy u)) \<and> (\<exists>u. ltyOf s b = TensorTy [k, n] (IntTy u)) \<and> ltyOf s c = TensorTy [m, n] (IntTy w) \<and>
     (\<forall>x. lopOf s c = LSplat x \<longrightarrow> x < c \<and> ltyOf s x = IntTy w \<and> (\<forall>v. lopOf s x \<noteq> LConst (FConst v)))"

lemma isZeroTensor_zero:
  assumes "dotTyped s a b c m k n w" "isZeroTensor s c True"
  shows "lval E s c idx = 0"
proof -
  have c: "c < length s" "ltyOf s c = TensorTy [m, n] (IntTy w)"
    and x: "\<And>x. lopOf s c = LSplat x \<Longrightarrow> x < c \<and> ltyOf s x = IntTy w \<and> (\<forall>v. lopOf s x \<noteq> LConst (FConst v))"
    using assms(1) by (auto simp: dotTyped_def)
  note u = lval_unfold [OF c(1), of E idx]
  show ?thesis
  proof (cases "lopOf s c")
    case (LSplat x')
    then have x: "x' < c" "ltyOf s x' = IntTy w" "\<forall>v. lopOf s x' \<noteq> LConst (FConst v)" using x by auto
    then obtain p where p: "lopOf s x' = LConst (IConst p)" "wrap w p = 0"
      using assms(2) LSplat by (auto simp: isZeroTensor_def split: lop.splits const_value.splits)
    have "lval E s x' [] = 0"
      using lval_unfold [of x' s E "[]"] x c(1) p by (simp add: lopSem_def constSem_def)
    then show ?thesis using u LSplat x(1) c by (simp add: lopSem_def lvalues_take)
  next
    case (LDense d)
    then show ?thesis using u assms(2) c by (cases d) (simp_all add: isZeroTensor_def lopSem_def constSem_def)
  qed (use assms(2) in \<open>simp_all add: isZeroTensor_def\<close>)
qed

lemma foldl_mulAdd: "wrap w z = z \<Longrightarrow>
    foldl (\<lambda>acc j. mulAdd F (IntTy w) acc (f j) (g j)) z js = wrap w (z + sum_list (map (\<lambda>j. f j * g j) js))"
proof (induction js arbitrary: z)
  case (Cons j js)
  then show ?case using wrap_add [of w "z + f j * g j" "sum_list (map (\<lambda>j. f j * g j) js)"]
      wrap_add [of w "wrap w (z + f j * g j)" "sum_list (map (\<lambda>j. f j * g j) js)"]
    by (simp add: mulAdd_def add.assoc)
qed simp

definition dotSem :: "lenv \<Rightarrow> ltable \<Rightarrow> val \<Rightarrow> val \<Rightarrow> int \<Rightarrow> int list \<Rightarrow> int" where
  "dotSem E s a b k idx = sum_list (map (\<lambda>j. lval E s a [idx ! 0, j] * lval E s b [j, idx ! 1]) [0..k - 1])"

theorem wp_convertDot:
  assumes d: "dotTyped s a b c m k n w"
  shows "wp (convertDot a b c (TensorTy [m, n] (IntTy w)))
    (replacedBy s (TensorTy [m, n] (IntTy w)) (\<lambda>E idx. wrap w (lval E s c idx + dotSem E s a b k idx))) s"
proof -
  let ?t = "TensorTy [m, n] (IntTy w)"
  let ?Q = "replacedBy s ?t (\<lambda>E idx. wrap w (lval E s c idx + dotSem E s a b k idx))"
  have abc: "a < length s" "b < length s" "c < length s" "ltyOf s c = ?t" "\<exists>u. ltyOf s a = TensorTy [m, k] (IntTy u)"
    using d by (auto simp: dotTyped_def)
  have "wp (bindM (lcreate LEmpty ?t) (\<lambda>init. bindM (lcreate (LConst (IConst 0)) (IntTy w)) (\<lambda>zero.
     bindM (lcreate (LFill zero init) ?t) (\<lambda>zeroes. bindM (lcreate (LMatmul a b zeroes) ?t) (\<lambda>res.
     if isZeroTensor s c True then ret res else lcreate (LElementwise SAddI [c, res]) ?t))))) ?Q s"
    unfolding wp_bindM
  proof (rule wp_lcreate, rule wp_lcreate, rule wp_lcreate, rule wp_lcreate, goal_cases)
    case (1 i t1 z t2 f t3 r t4)
    have s: "lext s t1" "lext t1 t2" "lext t2 t3" "lext t3 t4" by (rule 1)+
    note e2 = lext_trans [OF s(1,2)]
    note e3 = lext_trans [OF e2 s(3)]
    note e = s(1) e2 e3 lext_trans [OF e3 s(4)]
    note abt = lextD [OF e(3) abc(1)] lextD [OF e(3) abc(2)]
    have "lval E t2 z [] = 0" for E using 1(10) [of E "[]"] by (simp add: lopSem_def constSem_def)
    then have "lval E t3 f idx = 0" for E idx
      using 1(15) [of E idx] 1(7) by (simp add: lopSem_def lvalues_nth)
    moreover have "foldl (\<lambda>acc j. mulAdd (fops E) (IntTy w) acc (lval E s a [idx ! 0, j]) (lval E s b [j, idx ! 1])) 0 [0..k - 1] =
        wrap w (dotSem E s a b k idx)" for E idx
      by (simp add: foldl_mulAdd dotSem_def)
    ultimately have r: "lval E t4 r idx = wrap w (dotSem E s a b k idx)" for E idx
      using 1(20) [of E idx] 1(12) abt abc(5) by (auto simp: lopSem_def lvalues_nth)
    show ?case
    proof (cases "isZeroTensor s c True")
      case True
      then show ?thesis using 1 e r isZeroTensor_zero [OF d] by (simp add: wp_simps replacedBy_def)
    next
      case False
      have "wp (lcreate (LElementwise SAddI [c, r]) ?t) ?Q t4"
      proof (rule wp_lcreate, goal_cases)
        case (1 v u)
        have "lval E u v idx = wrap w (lval E s c idx + dotSem E s a b k idx)" for E idx
          using 1(5) [of E idx] lextD [OF e(4) abc(3)] \<open>r < length t4\<close> r [of E idx]
            wrap_add [of w "lval E s c idx" "dotSem E s a b k idx"] lval_norm [OF abc(3), of E idx] abc(4)
          by (simp add: lopSem_def lvalues_nth sopSem_def isCmp_def)
        then show ?case using 1 e(4) by (auto simp: replacedBy_def intro: lext_trans)
      qed
      then show ?thesis using False by simp
    qed
  qed
  moreover have "convertDot a b c ?t s = bindM (lcreate LEmpty ?t) (\<lambda>init. bindM (lcreate (LConst (IConst 0)) (IntTy w)) (\<lambda>zero.
     bindM (lcreate (LFill zero init) ?t) (\<lambda>zeroes. bindM (lcreate (LMatmul a b zeroes) ?t) (\<lambda>res.
     if isZeroTensor s c True then ret res else lcreate (LElementwise SAddI [c, res]) ?t)))) s"
    by (simp add: convertDot_def bindM_getM Let_def)
  ultimately show ?thesis by (simp only: wp_def)
qed

section \<open>Comparison and select\<close>

definition minMaxPair :: "ltable \<Rightarrow> val \<Rightarrow> val \<Rightarrow> sop \<Rightarrow> val \<Rightarrow> val \<Rightarrow> ty \<Rightarrow> bool" where
  "minMaxPair s cmp sel f a b t \<longleftrightarrow> sel < length s \<and> a < cmp \<and> b < cmp \<and> cmp < sel \<and> isCmp f \<and>
     lopOf s cmp = LElementwise f [a, b] \<and> lopOf s sel = LElementwise SSelect [cmp, a, b] \<and>
     ltyOf s a = t \<and> ltyOf s b = t \<and> ltyOf s sel = t \<and> elemTy (ltyOf s cmp) = IntTy 1"

lemma bool1_nonzero [simp]: "bool1 b \<noteq> 0 \<longleftrightarrow> b"
  by (simp add: bool1_def wrap_def)

lemma select_minmax:
  assumes p: "minMaxPair s cmp sel (SCmpI p) a b t"
  shows "lval E s sel idx = (if cmpPred p (width t) (lval E s a idx) (lval E s b idx) then lval E s a idx else lval E s b idx)"
proof -
  have o: "sel < length s" "a < cmp" "b < cmp" "cmp < sel" "lopOf s cmp = LElementwise (SCmpI p) [a, b]" "lopOf s sel = LElementwise SSelect [cmp, a, b]"
    "ltyOf s a = t" "ltyOf s b = t" "ltyOf s sel = t" "elemTy (ltyOf s cmp) = IntTy 1"
    using p by (auto simp: minMaxPair_def)
  have n: "norm t (lval E s a idx) = lval E s a idx" "norm t (lval E s b idx) = lval E s b idx"
    using lval_norm [of a s E idx] lval_norm [of b s E idx] o by auto
  have we: "width (elemTy t) = width t" by (cases t) auto
  have "norm (ltyOf s cmp) (bool1 c) = bool1 c" for c using o(10) by (simp add: bool1_def norm_elemTy [of "ltyOf s cmp", symmetric])
  then have "lval E s cmp idx = bool1 (cmpPred p (width t) (lval E s a idx) (lval E s b idx))"
    using lval_unfold [of cmp s E idx] o by (simp add: lopSem_def lvalues_take sopSem_def isCmp_def we)
  then show ?thesis using lval_unfold [of sel s E idx] o n by (simp add: lopSem_def lvalues_take sopSem_def isCmp_def)
qed

theorem wp_convertMinMax:
  assumes p: "minMaxPair s cmp sel (SCmpI p) a b t" and w: "elemTy t = IntTy w" "0 < w" and ok: "p \<in> {Sgt, Ugt, Slt, Ult}"
  shows "wp (convertMinMax [sel] cmp) (replacedBy s t (\<lambda>E. lval E s sel)) s"
proof -
  have o: "sel < length s" "a < cmp" "b < cmp" "cmp < sel" "lopOf s cmp = LElementwise (SCmpI p) [a, b]" "lopOf s sel = LElementwise SSelect [cmp, a, b]"
    "ltyOf s a = t" "ltyOf s b = t" "ltyOf s sel = t"
    using p by (auto simp: minMaxPair_def)
  have wt: "width t = w" using w(1) by (cases t) auto
  obtain g where g: "rewriteOpWithMinMax (SCmpI p) = Some g" using ok by (auto simp: rewriteOpWithMinMax_def)
  have "wp (lcreate (LElementwise g [a, b]) t) (replacedBy s t (\<lambda>E. lval E s sel)) s"
  proof (rule wp_lcreate, goal_cases)
    case (1 v u)
    have "lval E u v idx = lval E s sel idx" for E idx
    proof -
      have n: "wrap w (lval E s a idx) = lval E s a idx" "wrap w (lval E s b idx) = lval E s b idx"
        using lval_norm [of a s E idx] lval_norm [of b s E idx] o w(1) by (auto simp flip: norm_elemTy [of t])
      have "isCmp g = False" using g ok by (auto simp: rewriteOpWithMinMax_def isCmp_def)
      then have "lval E u v idx = norm t (sopSem (fops E) (\<lambda>v. snd (lvalues E s ! v)) idx g (IntTy w) [lval E s a idx, lval E s b idx])"
        using 1(5) [of E idx] o w(1) by (simp add: lopSem_def lvalues_nth)
      also have "\<dots> = wrap w (sopSem (fops E) (\<lambda>v. snd (lvalues E s ! v)) idx g (IntTy w) [lval E s a idx, lval E s b idx])"
        using w(1) norm_elemTy [of t] by simp
      finally have "lval E u v idx = wrap w (sopSem (fops E) (\<lambda>v. snd (lvalues E s ! v)) idx g (IntTy w) [lval E s a idx, lval E s b idx])" .
      moreover have mm: "min x y = (if x < y then x else y)" "max x y = (if y < x then x else y)" for x y :: int by auto
      ultimately show ?thesis
        using g ok n wt w(2)
        by (auto simp: select_minmax [OF p] rewriteOpWithMinMax_def sopSem_def Let_def mm wrap_take_bit)
    qed
    then show ?case using 1 by (simp add: replacedBy_def)
  qed
  then show ?thesis using o g by (simp add: convertMinMax_def wp_simps isCmp_def)
qed

end
