(* ===== verification/Arg_Main.thy ===== *)
theory Arg_Main
  imports Reduce_Main Dot_Main
begin

text \<open>argmin and argmax: the region that the matchers accept, and the two loops made from it.\<close>

section \<open>One step\<close>

definition argStep :: "float_ops \<Rightarrow> arg_kind \<Rightarrow> int \<times> int \<Rightarrow> int \<times> int \<Rightarrow> int \<times> int" where
  "argStep F k cur acc =
     (if fcmp F (comparison k) (fst cur) (fst acc) \<or> fcmp F OEQ (fst cur) (fst acc) \<and> snd cur < snd acc then cur else acc)"

lemma bool1_and [simp]: "wrap w (Bit_Operations.and (bool1 a) (bool1 b)) = bool1 (a \<and> b)"
  by (cases a; cases b) (simp_all add: bool1_def wrap_def)

lemma bool1_or [simp]: "wrap w (Bit_Operations.or (bool1 a) (bool1 b)) = bool1 (a \<or> b)"
  by (cases a; cases b) (simp_all add: bool1_def wrap_def)

lemma bool1_if [simp]: "bool1 b = 0 \<longleftrightarrow> \<not> b"
  by (simp add: bool1_def wrap_def)

lemma matchArgReduceD:
  assumes "matchArgReduce k r"
  shows "\<exists>t0 t1 t2 t3 t4 t5 t6. r = \<lparr>regionBody =
     [((SCmpF OEQ, t0), [BArg 0, BArg 2]), ((SCmpI Slt, t1), [BArg 1, BArg 3]), ((SAndI, t2), [BRes 0, BRes 1]),
      ((SCmpF (comparison k), t3), [BArg 0, BArg 2]), ((SOrI, t4), [BRes 3, BRes 2]),
      ((SSelect, t5), [BRes 4, BArg 0, BArg 2]), ((SSelect, t6), [BRes 4, BArg 1, BArg 3])],
     regionReturns = [BRes 5, BRes 6]\<rparr>"
proof -
  have o: "opAt r 0 (SCmpF OEQ) [BArg 0, BArg 2]" "opAt r 1 (SCmpI Slt) [BArg 1, BArg 3]" "opAt r 2 SAndI [BRes 0, BRes 1]"
    "opAt r 3 (SCmpF (comparison k)) [BArg 0, BArg 2]" "opAt r 4 SOrI [BRes 3, BRes 2]" "opAt r 5 SSelect [BRes 4, BArg 0, BArg 2]"
    "opAt r 6 SSelect [BRes 4, BArg 1, BArg 3]" "length (regionBody r) = 7" "regionReturns r = [BRes 5, BRes 6]"
    using assms by (auto simp: matchArgReduce_def matchShouldUpdateValue_def matchTieBreakResult_def matchComparisonResult_def
      numeral_2_eq_2 eval_nat_numeral split: option.splits if_splits)
  obtain x0 x1 x2 x3 x4 x5 x6 where b: "regionBody r = [x0, x1, x2, x3, x4, x5, x6]"
    using o(8) by (auto simp: length_Suc_conv eval_nat_numeral)
  have x: "x0 = ((SCmpF OEQ, snd (fst x0)), [BArg 0, BArg 2])" "x1 = ((SCmpI Slt, snd (fst x1)), [BArg 1, BArg 3])"
    "x2 = ((SAndI, snd (fst x2)), [BRes 0, BRes 1])" "x3 = ((SCmpF (comparison k), snd (fst x3)), [BArg 0, BArg 2])"
    "x4 = ((SOrI, snd (fst x4)), [BRes 3, BRes 2])" "x5 = ((SSelect, snd (fst x5)), [BRes 4, BArg 0, BArg 2])"
    "x6 = ((SSelect, snd (fst x6)), [BRes 4, BArg 1, BArg 3])"
    using o(1-7) by (simp_all add: opAt_def b prod_eq_iff)
  have "r = \<lparr>regionBody = [x0, x1, x2, x3, x4, x5, x6], regionReturns = [BRes 5, BRes 6]\<rparr>"
    using b o(9) by (cases r) simp
  then show ?thesis using x by metis
qed

lemma bool1_wrap [simp]: "wrap w (bool1 b) = bool1 b"
  by (cases b) (simp_all add: bool1_def wrap_def)

lemma regionSem_match:
  assumes "matchArgReduce k r"
  shows "regionSem F look idx r [cv, ci, rv, ri] = (let (v, i) = argStep F k (cv, ci) (rv, ri) in [v, i])"
  using matchArgReduceD [OF assms]
  by (auto simp: regionSem_def sopSem_def argStep_def Let_def eval_nat_numeral)

lemma regionSem_loop:
  "regionSem F look idx (argLoopBody k x vt it) [j, rv, ri] = (let (v, i) = argStep F k (look x [j], wrap (width it) j) (rv, ri) in [v, i])"
  by (auto simp: regionSem_def argLoopBody_def sopSem_def argStep_def Let_def eval_nat_numeral)

lemma foldl_pairs:
  assumes "\<And>j v i. G [v, i] j = (let (v', i') = argStep F k (vals j, ids j) (v, i) in [v', i'])"
  shows "foldl G [v, i] js = (let (v', i') = foldl (\<lambda>acc j. argStep F k (vals j, ids j) acc) (v, i) js in [v', i'])"
proof (induction js arbitrary: v i)
  case (Cons j js)
  then show ?case by (cases "argStep F k (vals j, ids j) (v, i)") (simp add: assms)
qed simp

section \<open>The fold\<close>

text \<open>
  The numbers of a reduction: the comparisons are those of an order (there is no NaN), the start is
  below all of them and strictly below one, and no index is negative.
\<close>

definition argOrder :: "float_ops \<Rightarrow> arg_kind \<Rightarrow> (int \<Rightarrow> int) \<Rightarrow> int \<Rightarrow> int \<Rightarrow> (int \<Rightarrow> int) \<Rightarrow> (int \<Rightarrow> int) \<Rightarrow> bool" where
  "argOrder F k key base n vals ids \<longleftrightarrow>
     (\<forall>a \<in> insert base (vals ` {0..<n}). \<forall>b \<in> insert base (vals ` {0..<n}).
       (fcmp F OEQ a b \<longleftrightarrow> key a = key b) \<and> (fcmp F (comparison k) a b \<longleftrightarrow> key b < key a)) \<and>
     (\<forall>j \<in> {0..<n}. key base \<le> key (vals j) \<and> 0 \<le> ids j) \<and> (\<exists>j \<in> {0..<n}. key base < key (vals j))"

text \<open>The element with the greatest key, and of several the one with the least index.\<close>

definition argBest :: "(int \<Rightarrow> int) \<Rightarrow> int set \<Rightarrow> (int \<Rightarrow> int) \<Rightarrow> (int \<Rightarrow> int) \<Rightarrow> int \<times> int \<Rightarrow> bool" where
  "argBest key js vals ids r \<longleftrightarrow> (\<exists>j \<in> js. r = (vals j, ids j) \<and>
     (\<forall>m \<in> js. key (vals m) \<le> key (vals j) \<and> (key (vals m) = key (vals j) \<longrightarrow> ids j \<le> ids m)))"

lemma argFold_prefix:
  assumes o: "argOrder F k key base n vals ids" and p: "0 \<le> p" "p \<le> n"
  shows "(let r = foldl (\<lambda>acc j. argStep F k (vals j, ids j) acc) (base, -1) [0..p - 1] in
     if \<exists>j \<in> {0..<p}. key base < key (vals j) then argBest key {0..<p} vals ids r \<and> key base < key (fst r) \<and> fst r \<in> vals ` {0..<p}
     else r = (base, -1))"
  using p(2)
proof (induction "nat p" arbitrary: p)
  case 0
  then show ?case by simp
next
  case (Suc q)
  let ?r = "\<lambda>p. foldl (\<lambda>acc j. argStep F k (vals j, ids j) acc) (base, -1) [0..p - 1]"
  have p: "0 < p" "nat (p - 1) = q" using Suc.hyps(2) by simp_all
  have "[0..p - 1] = [0..p - 2] @ [p - 1]" using upto_rec2 [of 0 "p - 1"] p by simp
  then have step: "?r p = argStep F k (vals (p - 1), ids (p - 1)) (?r (p - 1))" by simp
  have set: "{0..<p} = insert (p - 1) {0..<p - 1}" using p by auto
  have IH: "if \<exists>j \<in> {0..<p - 1}. key base < key (vals j)
      then argBest key {0..<p - 1} vals ids (?r (p - 1)) \<and> key base < key (fst (?r (p - 1))) \<and> fst (?r (p - 1)) \<in> vals ` {0..<p - 1}
      else ?r (p - 1) = (base, -1)"
    using Suc.hyps(1) [of "p - 1"] p Suc.prems by (simp add: Let_def)
  have cmp: "fcmp F OEQ a b \<longleftrightarrow> key a = key b" "fcmp F (comparison k) a b \<longleftrightarrow> key b < key a"
    if "a \<in> insert base (vals ` {0..<n})" "b \<in> insert base (vals ` {0..<n})" for a b
    using o that by (auto simp: argOrder_def)
  have now: "vals (p - 1) \<in> insert base (vals ` {0..<n})" "key base \<le> key (vals (p - 1))" "0 \<le> ids (p - 1)"
    using o p Suc.prems by (auto simp: argOrder_def)
  have below: "key base \<le> key (vals m)" if "m \<in> {0..<p - 1}" for m using o that Suc.prems by (auto simp: argOrder_def)
  show ?case
  proof (cases "\<exists>j \<in> {0..<p - 1}. key base < key (vals j)")
    case True
    then obtain j where j: "j \<in> {0..<p - 1}" "?r (p - 1) = (vals j, ids j)" "key base < key (vals j)"
      and best: "\<And>m. m \<in> {0..<p - 1} \<Longrightarrow> key (vals m) \<le> key (vals j) \<and> (key (vals m) = key (vals j) \<longrightarrow> ids j \<le> ids m)"
      using IH by (auto simp: argBest_def)
    have "vals j \<in> insert base (vals ` {0..<n})" using j(1) Suc.prems by auto
    note c = cmp [OF now(1) this]
    consider (new) "key (vals j) < key (vals (p - 1)) \<or> key (vals (p - 1)) = key (vals j) \<and> ids (p - 1) < ids j"
      | (old) "key (vals (p - 1)) \<le> key (vals j)" "key (vals (p - 1)) = key (vals j) \<longrightarrow> ids j \<le> ids (p - 1)" by linarith
    then show ?thesis
    proof cases
      case new
      then have "?r p = (vals (p - 1), ids (p - 1))" using step j(2) c by (simp add: argStep_def)
      moreover have "key (vals m) \<le> key (vals (p - 1)) \<and> (key (vals m) = key (vals (p - 1)) \<longrightarrow> ids (p - 1) \<le> ids m)"
        if "m \<in> {0..<p - 1}" for m using best [OF that] new by auto
      ultimately show ?thesis using new j(3) by (auto simp: Let_def argBest_def set)
    next
      case old
      then have "?r p = (vals j, ids j)" using step j(2) c by (auto simp: argStep_def)
      then show ?thesis using old j best by (auto simp: Let_def argBest_def set)
    qed
  next
    case False
    then have r: "?r (p - 1) = (base, -1)" using IH by simp
    have eq: "key (vals m) = key base" if "m \<in> {0..<p - 1}" for m using False below [OF that] that by force
    note c = cmp [OF now(1), of base]
    show ?thesis
    proof (cases "key base < key (vals (p - 1))")
      case True
      then have "?r p = (vals (p - 1), ids (p - 1))" using step r c by (simp add: argStep_def)
      then show ?thesis using True eq by (auto simp: Let_def argBest_def set)
    next
      case n: False
      then have "?r p = (base, -1)" using step r c now by (auto simp: argStep_def)
      then show ?thesis using n False by (auto simp: Let_def set)
    qed
  qed
qed

lemma argFold:
  assumes "argOrder F k key base n vals ids"
  shows "argBest key {0..<n} vals ids (foldl (\<lambda>acc j. argStep F k (vals j, ids j) acc) (base, -1) [0..n - 1])"
proof -
  have "0 \<le> n" using assms by (auto simp: argOrder_def)
  then show ?thesis using argFold_prefix [OF assms, of n] assms by (auto simp: Let_def argOrder_def split: if_splits)
qed

section \<open>The conversion\<close>

definition argTyped :: "ltable \<Rightarrow> val \<Rightarrow> val \<Rightarrow> nat \<Rightarrow> int list \<Rightarrow> nat \<Rightarrow> nat \<Rightarrow> bool" where
  "argTyped s x y axis sh fw w \<longleftrightarrow> x < length s \<and> y < length s \<and> ltyOf s x = TensorTy sh (FloatTy fw) \<and> ltyOf s y = TensorTy sh (IntTy w) \<and>
     axis < length sh"

definition argReducedBy :: "ltable \<Rightarrow> arg_kind \<Rightarrow> nat \<Rightarrow> int list \<Rightarrow> nat \<Rightarrow> nat \<Rightarrow> val \<Rightarrow> val \<Rightarrow> val list \<Rightarrow> ltable \<Rightarrow> bool" where
  "argReducedBy s k axis sh fw w x y vs u \<longleftrightarrow> lext s u \<and> (\<exists>a b. vs = [a, b] \<and> a < length u \<and> b < length u \<and>
     ltyOf u a = reducedTy (removeAt axis sh) (FloatTy fw) \<and> ltyOf u b = reducedTy (removeAt axis sh) (IntTy w) \<and>
     (\<forall>E idx key. inB (removeAt axis sh) idx \<longrightarrow>
       argOrder (fops E) k key (fval (fops E) (baseValue k) (FloatTy fw)) (sh ! axis)
         (\<lambda>j. lval E s x (insertAt axis j idx)) (\<lambda>j. lval E s y (insertAt axis j idx)) \<longrightarrow>
       argBest key {0..<sh ! axis} (\<lambda>j. lval E s x (insertAt axis j idx)) (\<lambda>j. lval E s y (insertAt axis j idx)) (lval E u a idx, lval E u b idx)))"

lemma argBest_norm:
  assumes "argBest key js vals ids r" "\<And>j. wrap w (ids j) = ids j"
  shows "argBest key js vals ids (fst r, wrap w (snd r))"
  using assms by (auto simp: argBest_def)

lemma wp_getInitTensor:
  assumes v: "v < length s" "ltyOf s v = e" "\<not> isShaped e"
    and post: "\<And>i u. lext s u \<Longrightarrow> i < length u \<Longrightarrow> (\<And>E idx. inB sh idx \<Longrightarrow> lval E u i idx = lval E s v []) \<Longrightarrow> Q i u"
  shows "wp (getInitTensor sh v) Q s"
  unfolding getInitTensor_def wp_simps
proof (rule wp_lcreate, goal_cases)
  case (1 i t)
  note vt = lextD [OF 1(1) v(1)]
  have n: "norm e (lval E s v []) = lval E s v []" for E using lval_norm [OF v(1), of E "[]"] v(2) by simp
  show ?case
  proof (cases "sh = []")
    case True
    have "wp (lcreate (LInsert v i []) (TensorTy sh (ltyOf s v))) Q t"
      by (rule wp_lcreate, rule post)
        (use 1 vt n v True in \<open>auto simp: lopSem_def lvalues_nth intro: lext_trans\<close>)
    then show ?thesis using True by simp
  next
    case False
    have "wp (lcreate (LFill v i) (TensorTy sh (ltyOf s v))) Q t"
      by (rule wp_lcreate, rule post)
        (use 1 vt n v in \<open>auto simp: lopSem_def lvalues_nth intro: lext_trans\<close>)
    then show ?thesis using False by simp
  qed
qed

lemma wp_argReduceCore:
  assumes x: "argTyped s x y axis sh fw w" and m: "matchArgReduce k r"
    and i: "iv < length s" "ii < length s" "\<And>E idx. inB (removeAt axis sh) idx \<Longrightarrow> lval E s iv idx = fval (fops E) (baseValue k) (FloatTy fw)"
      "\<And>E idx. inB (removeAt axis sh) idx \<Longrightarrow> lval E s ii idx = -1"
    and post: "\<And>a b u. lext s u \<Longrightarrow> a < length u \<Longrightarrow> b < length u \<Longrightarrow> ltyOf u a = TensorTy (removeAt axis sh) (FloatTy fw) \<Longrightarrow>
      ltyOf u b = TensorTy (removeAt axis sh) (IntTy w) \<Longrightarrow>
      (\<And>E idx key. inB (removeAt axis sh) idx \<Longrightarrow>
        argOrder (fops E) k key (fval (fops E) (baseValue k) (FloatTy fw)) (sh ! axis)
          (\<lambda>j. lval E s x (insertAt axis j idx)) (\<lambda>j. lval E s y (insertAt axis j idx)) \<Longrightarrow>
        argBest key {0..<sh ! axis} (\<lambda>j. lval E s x (insertAt axis j idx)) (\<lambda>j. lval E s y (insertAt axis j idx)) (lval E u a idx, lval E u b idx)) \<Longrightarrow>
      Q [a, b] u"
  shows "wp (mapM (\<lambda>i. lcreate (LReduce [x, y] [iv, ii] [axis] r i) (TensorTy (removeAt axis sh) ([FloatTy fw, IntTy w] ! i))) [0, 1]) Q s"
proof -
  have xy: "x < length s" "y < length s" "ltyOf s x = TensorTy sh (FloatTy fw)" "ltyOf s y = TensorTy sh (IntTy w)" "axis < length sh"
    using x by (auto simp: argTyped_def)
  let ?vals = "\<lambda>E idx j. lval E s x (insertAt axis j idx)"
  let ?ids = "\<lambda>E idx j. lval E s y (insertAt axis j idx)"
  let ?fold = "\<lambda>E idx. foldl (\<lambda>acc j. argStep (fops E) k (?vals E idx j, ?ids E idx j) acc) (fval (fops E) (baseValue k) (FloatTy fw), -1) [0..sh ! axis - 1]"
  have ids: "wrap w (?ids E idx j) = ?ids E idx j" for E idx j using lval_norm [OF xy(2), of E] xy(4) by simp
  have core: "lopSem E (lvalues E t) (LReduce [x, y] [iv, ii] [axis] r n) ty idx = (case ?fold E idx of (v, i) \<Rightarrow> [v, i]) ! n"
    if t: "lext s t" and ib: "inB (removeAt axis sh) idx" for E t n ty idx
  proof -
    have l: "Suc (length idx) = length sh" using inB_length [OF ib] length_removeAt [OF xy(5)] xy(5) by simp
    note tx = lextD [OF t xy(1)] lextD [OF t xy(2)] lextD [OF t i(1)] lextD [OF t i(2)]
    have "lopSem E (lvalues E t) (LReduce [x, y] [iv, ii] [axis] r n) ty idx =
      foldl (\<lambda>acc j. regionSem (fops E) (\<lambda>v. snd (lvalues E t ! v)) [] r ([?vals E idx j, ?ids E idx j] @ acc))
        [fval (fops E) (baseValue k) (FloatTy fw), -1] [0..sh ! axis - 1] ! n"
      using lopSem_reduce [of "[x, y]" "[iv, ii]" t sh axis idx E r n ty] tx xy l i(3,4) [OF ib] by simp
    also have "\<dots> = (case ?fold E idx of (v, i) \<Rightarrow> [v, i]) ! n"
      by (subst foldl_pairs [where F = "fops E" and k = k and vals = "?vals E idx" and ids = "?ids E idx"])
        (simp_all add: regionSem_match [OF m] Let_def)
    finally show ?thesis .
  qed
  show ?thesis
    unfolding mapM.simps wp_simps
  proof (rule wp_lcreate, rule wp_lcreate, rule post, goal_cases)
    case (6 a t b u E idx key)
    note e = lextD [OF 6(6) 6(2)]
    have "lval E u a idx = fst (?fold E idx)" "lval E u b idx = wrap w (snd (?fold E idx))"
      using 6(5) [of E idx] 6(10) [of E idx] core [OF lext_refl 6(11)] core [OF 6(1) 6(11)] e
      by (simp_all add: norm_def split: prod.splits)
    then show ?case using argBest_norm [OF argFold [OF 6(12)] ids] by simp
  qed (use lextD in \<open>auto intro: lext_trans\<close>)
qed

text \<open>The loop for a scalar result, where the indices are a range from 0.\<close>

lemma wp_argLoop:
  assumes x: "argTyped s x y axis [n] fw w" and r: "lopOf s y = LMakeRange 0 n"
    and i: "iv < length s" "ii < length s" "\<And>E. lval E s iv [] = fval (fops E) (baseValue k) (FloatTy fw)" "\<And>E. lval E s ii [] = -1"
    and post: "\<And>vs u. argReducedBy s k axis [n] fw w x y vs u \<Longrightarrow> Q vs u"
  shows "wp (mapM (\<lambda>i. lcreate (LFor 0 n [iv, ii] (argLoopBody k x (FloatTy fw) (IntTy w)) i) (if i = 0 then FloatTy fw else IntTy w)) [0, 1]) Q s"
proof -
  have xy: "x < length s" "y < length s" "ltyOf s x = TensorTy [n] (FloatTy fw)" "ltyOf s y = TensorTy [n] (IntTy w)" "axis = 0"
    using x by (auto simp: argTyped_def)
  let ?vals = "\<lambda>E j. lval E s x [j]"
  let ?ids = "\<lambda>E j. lval E s y [j]"
  let ?fold = "\<lambda>E. foldl (\<lambda>acc j. argStep (fops E) k (?vals E j, ?ids E j) acc) (fval (fops E) (baseValue k) (FloatTy fw), -1) [0..n - 1]"
  have range: "?ids E j = wrap w j" for E j
    using lval_unfold [OF xy(2), of E "[j]"] r xy(4) by (simp add: lopSem_def)
  have core: "lopSem E (lvalues E t) (LFor 0 n [iv, ii] (argLoopBody k x (FloatTy fw) (IntTy w)) m) ty [] = (case ?fold E of (v, i) \<Rightarrow> [v, i]) ! m"
    if t: "lext s t" for E t m ty
  proof -
    note tx = lextD [OF t xy(1)] lextD [OF t i(1)] lextD [OF t i(2)]
    have "lopSem E (lvalues E t) (LFor 0 n [iv, ii] (argLoopBody k x (FloatTy fw) (IntTy w)) m) ty [] =
      foldl (\<lambda>acc j. regionSem (fops E) (\<lambda>v. snd (lvalues E t ! v)) [] (argLoopBody k x (FloatTy fw) (IntTy w)) (j # acc))
        [fval (fops E) (baseValue k) (FloatTy fw), -1] [0..n - 1] ! m"
      using tx i by (simp add: lopSem_def lvalues_nth)
    also have "\<dots> = (case ?fold E of (v, i) \<Rightarrow> [v, i]) ! m"
      by (subst foldl_pairs [where F = "fops E" and k = k and vals = "?vals E" and ids = "?ids E"])
        (simp_all add: regionSem_loop lvalues_nth tx range Let_def)
    finally show ?thesis .
  qed
  have ids: "wrap w (?ids E j) = ?ids E j" for E j by (simp add: range)
  show ?thesis
    unfolding mapM.simps wp_simps
  proof (rule wp_lcreate, rule wp_lcreate, rule post, goal_cases)
    case (1 a t b u)
    have e: "lval E u a = lval E t a" "a < length u" "ltyOf u a = FloatTy fw" for E using lextD [OF 1(6) 1(2)] 1(3) by simp_all
    have v: "lval E u a [] = fst (?fold E)" "lval E u b [] = wrap w (snd (?fold E))" for E
      using 1(5) [of E "[]"] 1(10) [of E "[]"] core [OF lext_refl, of E 0 "FloatTy fw"] core [OF 1(1), of E 1 "IntTy w"] e
      by (simp_all add: norm_def split: prod.splits)
    have "argBest key {0..<n} (?vals E) (?ids E) (lval E u a [], lval E u b [])"
      if "argOrder (fops E) k key (fval (fops E) (baseValue k) (FloatTy fw)) n (?vals E) (?ids E)" for E key
      using argBest_norm [OF argFold [OF that] ids] by (simp add: v)
    then show ?case
      using 1 e lext_trans [OF 1(1,6)] by (auto simp: argReducedBy_def reducedTy_def removeAt_def insertAt_def xy(5))
  qed
qed

lemma wrap_minus1: "wrap w (- 1) = - 1"
  by (simp add: wrap_def)

lemma argReducedBy_ext:
  assumes t: "lext s t" and x: "x < length s" "y < length s" and r: "argReducedBy t k axis sh fw w x y vs u"
  shows "argReducedBy s k axis sh fw w x y vs u"
  using r lextD [OF t x(1)] lextD [OF t x(2)] lext_trans [OF t] by (auto simp: argReducedBy_def)

theorem wp_convertArgMinMax:
  assumes x: "argTyped s x y axis sh fw w" and m: "matchArgReduce k r" and d: "kDynamic \<notin> set sh"
  shows "wp (convertArgMinMax k [x, y] axis r [reducedTy (removeAt axis sh) (FloatTy fw), reducedTy (removeAt axis sh) (IntTy w)])
    (argReducedBy s k axis sh fw w x y) s"
proof -
  let ?out = "removeAt axis sh"
  let ?Q = "argReducedBy s k axis sh fw w x y"
  have xy: "x < length s" "y < length s" "ltyOf s x = TensorTy sh (FloatTy fw)" "ltyOf s y = TensorTy sh (IntTy w)" "axis < length sh"
    using x by (auto simp: argTyped_def)
  have sc: "isTensor (reducedTy ?out (FloatTy fw)) \<longleftrightarrow> ?out \<noteq> []" by (simp add: reducedTy_def)
  have sh: "(if \<not> isTensor (reducedTy ?out (FloatTy fw)) then [] else shapeOf (reducedTy ?out (FloatTy fw))) = ?out" by (simp add: reducedTy_def)
  let ?reduce = "\<lambda>vb ib. bindM (getInitTensor ?out vb) (\<lambda>initValues. bindM (getInitTensor ?out ib) (\<lambda>initIndices.
         bindM (mapM (\<lambda>i. lcreate (LReduce [x, y] [initValues, initIndices] [axis] r i) (TensorTy ?out ([FloatTy fw, IntTy w] ! i))) [0, 1]) (\<lambda>res.
         if ?out = [] then mapM (\<lambda>i. bindM (atM res i) (\<lambda>x. lcreate (LExtract x []) ([FloatTy fw, IntTy w] ! i))) [0, 1] else ret res)))"
  have tail: "wp (?reduce vb ib) ?Q t"
    if t: "lext s t" and b: "vb < length t" "ib < length t" "ltyOf t vb = FloatTy fw" "ltyOf t ib = IntTy w"
      "\<And>E. lval E t vb [] = fval (fops E) (baseValue k) (FloatTy fw)" "\<And>E. lval E t ib [] = -1" for vb ib t
    unfolding wp_bindM
  proof (rule wp_getInitTensor [OF b(1,3)], simp, goal_cases)
    case (1 iv t1)
    note b1 = lextD [OF 1(1) b(2)]
    show ?case
    proof (rule wp_getInitTensor [OF b1(1)], rule b1(2), simp add: b(4), goal_cases)
      case (1 ii t2)
      note iv = lextD [OF 1(1) \<open>iv < length t1\<close>]
      have e: "lext s t2" using t \<open>lext t t1\<close> 1(1) by (blast intro: lext_trans)
      have x2: "argTyped t2 x y axis sh fw w" using x lextD [OF e xy(1)] lextD [OF e xy(2)] by (auto simp: argTyped_def)
      note xe = lextD [OF e xy(1)] lextD [OF e xy(2)]
      show ?case
      proof (rule wp_argReduceCore [OF x2 m], goal_cases)
        case (5 p q u)
        have u: "lext s u" by (rule lext_trans [OF e 5(1)])
        show ?case
        proof (cases "?out = []")
          case False
          then show ?thesis using 5 u xe by (auto simp: wp_simps argReducedBy_def reducedTy_def)
        next
          case True
          have "wp (mapM (\<lambda>i. bindM (atM [p, q] i) (\<lambda>x. lcreate (LExtract x []) ([FloatTy fw, IntTy w] ! i))) [0, 1]) ?Q u"
            unfolding mapM.simps wp_simps
          proof (intro conjI, simp, rule wp_lcreate, intro conjI, simp, rule wp_lcreate, goal_cases)
            case (1 p' u1 q' u2)
            note ep = lextD [OF 1(1) 5(2)] lextD [OF 1(1) 5(3)] lextD [OF 1(6) 1(2)]
            have "lval E u2 p' [] = lval E u p []" "lval E u2 q' [] = lval E u q []" for E
              using 1(5) [of E "[]"] 1(10) [of E "[]"] ep 5(2,3,4,5) lval_norm [OF 5(3), of E "[]"]
              by (simp_all add: lopSem_def lvalues_nth norm_def)
            then show ?case
              using 1 u 5(6) [where idx = "[]"] ep xe True by (auto simp: argReducedBy_def reducedTy_def intro: lext_trans)
          qed
          then show ?thesis using True by simp
        qed
      qed (use 1 iv b b1 \<open>iv < length t1\<close> \<open>\<And>E idx. inB ?out idx \<Longrightarrow> lval E t1 iv idx = lval E t vb []\<close> in auto)
    qed
  qed
  have loop: "wp (bindM (if ?out = [] then attemptM (rewriteScalarReduceToScfFor k x y axis vb ib) else ret None) (\<lambda>loop.
      case loop of Some res \<Rightarrow> ret res | None \<Rightarrow> ?reduce vb ib)) ?Q t"
    if t: "lext s t" and b: "vb < length t" "ib < length t" "ltyOf t vb = FloatTy fw" "ltyOf t ib = IntTy w"
      "\<And>E. lval E t vb [] = fval (fops E) (baseValue k) (FloatTy fw)" "\<And>E. lval E t ib [] = -1" for vb ib t
  proof -
    note xe = lextD [OF t xy(1)] lextD [OF t xy(2)]
    show ?thesis
    proof (cases "?out = []")
      case False
      then show ?thesis using tail [OF t b] by simp
    next
      case True
      then obtain n where n: "sh = [n]" "axis = 0" using removeAt_Nil [OF xy(5)] xy(5) by (cases sh) auto
      show ?thesis
      proof (cases "lopOf s y = LMakeRange 0 n")
        case r: True
        have "rewriteScalarReduceToScfFor k x y axis vb ib t =
            mapM (\<lambda>i. lcreate (LFor 0 n [vb, ib] (argLoopBody k x (FloatTy fw) (IntTy w)) i) (if i = 0 then FloatTy fw else IntTy w)) [0, 1] t"
          using r xe xy b d n by (simp add: rewriteScalarReduceToScfFor_def bindM_getM)
        moreover have "wp (mapM (\<lambda>i. lcreate (LFor 0 n [vb, ib] (argLoopBody k x (FloatTy fw) (IntTy w)) i) (if i = 0 then FloatTy fw else IntTy w)) [0, 1]) ?Q t"
        proof (rule wp_argLoop)
          show "argTyped t x y axis [n] fw w" using x xe n by (auto simp: argTyped_def)
          show "?Q vs u" if "argReducedBy t k axis [n] fw w x y vs u" for vs u
            using argReducedBy_ext [OF t xy(1,2) that] n by simp
        qed (use b r xe in auto)
        ultimately have "wp (rewriteScalarReduceToScfFor k x y axis vb ib) ?Q t" by (simp only: wp_def)
        then show ?thesis using True unfolding wp_bindM by (auto intro!: wp_attemptM simp: wp_simps elim: wp_mono)
      next
        case r: False
        have "rewriteScalarReduceToScfFor k x y axis vb ib t = (Inl Failure, t)"
          using r xe xy b d n by (simp add: rewriteScalarReduceToScfFor_def bindM_getM raise_run)
        then have fail: "bindM (if ?out = [] then attemptM (rewriteScalarReduceToScfFor k x y axis vb ib) else ret None) F t = F None t" for F :: "val list option \<Rightarrow> val list lm"
          using True by (simp add: bindM_def attemptM_def)
        show ?thesis using tail [OF t b] unfolding wp_def fail option.case .
      qed
    qed
  qed
  have "wp (bindM (lcreate (LConst (FConst (baseValue k))) (FloatTy fw)) (\<lambda>vb. bindM (lcreate (LConst (IConst (-1))) (IntTy w)) (\<lambda>ib.
      bindM (if ?out = [] then attemptM (rewriteScalarReduceToScfFor k x y axis vb ib) else ret None) (\<lambda>loop.
      case loop of Some res \<Rightarrow> ret res | None \<Rightarrow> ?reduce vb ib)))) ?Q s"
    unfolding wp_bindM [of "lcreate _ _"]
  proof (rule wp_lcreate, rule wp_lcreate, rule loop, goal_cases)
    case (6 vb t1 ib t)
    then show ?case using 6(5) [of _ "[]"] lextD [OF 6(6) 6(2)] by (simp add: lopSem_def constSem_def norm_def)
  next
    case (7 vb t1 ib t)
    then show ?case using 7(10) [of _ "[]"] by (simp add: lopSem_def constSem_def wrap_minus1)
  qed (use lextD in \<open>auto intro: lext_trans\<close>)
  moreover have "bindM (getM (\<lambda>s. [elemTy (ltyOf s x), elemTy (ltyOf s y)])) F s = F [FloatTy fw, IntTy w] s" for F :: "ty list \<Rightarrow> val list lm"
    by (simp add: bindM_getM xy)
  then have "convertArgMinMax k [x, y] axis r [reducedTy ?out (FloatTy fw), reducedTy ?out (IntTy w)] s =
      bindM (lcreate (LConst (FConst (baseValue k))) (FloatTy fw)) (\<lambda>vb. bindM (lcreate (LConst (IConst (-1))) (IntTy w)) (\<lambda>ib.
      bindM (if ?out = [] then attemptM (rewriteScalarReduceToScfFor k x y axis vb ib) else ret None) (\<lambda>loop.
      case loop of Some res \<Rightarrow> ret res | None \<Rightarrow> ?reduce vb ib))) s"
    using xy m sh by (simp add: convertArgMinMax_def Let_def sc del: mapM.simps cong: if_cong option.case_cong)
  ultimately show ?thesis by (simp only: wp_def)
qed

end
