(* ===== verification/Normal_Main.thy ===== *)
theory Normal_Main
  imports Reduce_Main
begin

text \<open>Reductions by any region: the first slice is the start, the rest is reduced.\<close>

section \<open>What a region reads from outside\<close>

definition outerUses :: "operand list \<Rightarrow> val list" where
  "outerUses ys = concat (map (\<lambda>y. case y of Outer v \<Rightarrow> [v] | _ \<Rightarrow> []) ys)"

definition regionUses :: "sregion \<Rightarrow> val list" where
  "regionUses r = concat (map (\<lambda>((f, t), ys). (case f of SExtract v \<Rightarrow> [v] | _ \<Rightarrow> []) @ outerUses ys) (regionBody r)) @ outerUses (regionReturns r)"

lemma sargSem_cong: "(\<And>v. v \<in> set (outerUses ys) \<Longrightarrow> look v = look' v) \<Longrightarrow> map (sargSem look args res) ys = map (sargSem look' args res) ys"
proof (induction ys)
  case (Cons y ys)
  then show ?case by (cases y) (simp_all add: outerUses_def)
qed simp

lemma sopSem_cong: "(\<And>v. f = SExtract v \<Longrightarrow> look v = look' v) \<Longrightarrow> sopSem F look idx f t xs = sopSem F look' idx f t xs"
  by (cases f) (simp_all add: sopSem_def)

lemma regionSem_cong:
  assumes "\<And>v. v \<in> set (regionUses r) \<Longrightarrow> look v = look' v"
  shows "regionSem F look idx r args = regionSem F look' idx r args"
proof -
  have step: "sopSem F look idx f t (map (sargSem look args res) ys) = sopSem F look' idx f t (map (sargSem look' args res) ys)"
    if "((f, t), ys) \<in> set (regionBody r)" for f t ys res
  proof -
    have u: "v \<in> set ((case f of SExtract v \<Rightarrow> [v] | _ \<Rightarrow> []) @ outerUses ys) \<Longrightarrow> look v = look' v" for v
      using that assms by (force simp: regionUses_def)
    have m: "map (sargSem look args res) ys = map (sargSem look' args res) ys" by (rule sargSem_cong) (use u in simp)
    show ?thesis unfolding m by (rule sopSem_cong) (use u in simp)
  qed
  have "foldl (\<lambda>res ((f, t), ys). res @ [sopSem F look idx f t (map (sargSem look args res) ys)]) [] (regionBody r) =
      foldl (\<lambda>res ((f, t), ys). res @ [sopSem F look' idx f t (map (sargSem look' args res) ys)]) [] (regionBody r)"
    by (rule foldl_cong) (auto simp: step)
  then show ?thesis
    using sargSem_cong [of "regionReturns r" look look' args] assms by (simp add: regionSem_def regionUses_def Let_def)
qed

section \<open>One operand\<close>

lemma relayout_insertAt:
  assumes "inB (removeAt axis sh) idx" "axis < length sh"
  shows "relayout (sh[axis := 1]) (removeAt axis sh) idx = insertAt axis 0 idx"
proof -
  have l: "length (take axis idx) = axis" using inB_length [OF assms(1)] length_removeAt [OF assms(2)] assms(2) by simp
  have u: "sh[axis := 1] = take axis sh @ 1 # drop (Suc axis) sh" using assms(2) by (simp add: upd_conv_take_nth_drop)
  have "inB (sh[axis := 1]) (insertAt axis 0 idx)"
    using inB_insertAt [of axis "sh[axis := 1]" idx 0] assms by (simp add: removeAt_def)
  moreover have "linearize (removeAt axis sh) idx = linearize (sh[axis := 1]) (insertAt axis 0 idx)"
    using linearize_insert [of "take axis idx" "take axis sh" "drop (Suc axis) sh" 0 "drop axis idx"] l assms(2)
    by (simp add: u insertAt_def removeAt_def)
  ultimately show ?thesis by (rule relayout_eq)
qed

lemma map2_unit: "length ks = n \<Longrightarrow> map2 (*) (replicate n 1) ks = (ks :: int list)"
  by (induction ks arbitrary: n) (auto simp: Suc_length_conv)

lemma map2_offset: "length ks = n \<Longrightarrow> axis < n \<Longrightarrow> map2 (+) ((replicate n 0)[axis := d]) ks = (ks :: int list)[axis := ks ! axis + d]"
  by (rule nth_equalityI) (auto simp: nth_list_update)

definition slicedFrom :: "ltable \<Rightarrow> nat \<Rightarrow> int list \<Rightarrow> ltable \<Rightarrow> val \<Rightarrow> val \<times> val option \<Rightarrow> bool" where
  "slicedFrom s axis sh t v p \<longleftrightarrow> fst p < length t \<and> ltyOf t (fst p) = TensorTy (removeAt axis sh) (elemTy (ltyOf s v)) \<and>
     (\<forall>E idx. inB (removeAt axis sh) idx \<longrightarrow> lval E t (fst p) idx = lval E s v (insertAt axis 0 idx)) \<and>
     (if sh ! axis \<le> 1 then snd p = None
      else \<exists>r. snd p = Some r \<and> r < length t \<and> ltyOf t r = TensorTy (sh[axis := sh ! axis - 1]) (elemTy (ltyOf s v)) \<and>
        (\<forall>E ks. inB (sh[axis := sh ! axis - 1]) ks \<longrightarrow> lval E t r ks = lval E s v (ks[axis := ks ! axis + 1])))"

lemma slicedFrom_ext: "slicedFrom s axis sh t v p \<Longrightarrow> lext t u \<Longrightarrow> slicedFrom s axis sh u v p"
  using lextD [of t u] by (auto simp: slicedFrom_def)

lemma wp_slice:
  assumes v: "v < length s" "ltyOf s v = TensorTy sh e" "axis < length sh"
    and post: "\<And>u t. lext s t \<Longrightarrow> u < length t \<Longrightarrow> ltyOf t u = TensorTy (sh[axis := n]) e \<Longrightarrow>
      (\<And>E ks. inB (sh[axis := n]) ks \<Longrightarrow> lval E t u ks = lval E s v (ks[axis := ks ! axis + d])) \<Longrightarrow> Q u t"
  shows "wp (lcreate (LExtractSlice v ((replicate (length sh) 0)[axis := d]) (sh[axis := n]) (replicate (length sh) 1)) (TensorTy (sh[axis := n]) e)) Q s"
proof (rule wp_lcreate, rule post, goal_cases)
  case (4 u t E ks)
  have "norm e (lval E s v ks) = lval E s v ks" for ks using lval_norm [OF v(1), of E ks] v(2) by simp
  then show ?case
    using 4(5) [of E ks] inB_length [OF 4(6)] v
    by (simp add: lopSem_def lvalues_nth relayout_id [OF 4(6)] map2_unit map2_offset)
qed

lemma wp_collapseSlice:
  assumes v: "v < length s" "ltyOf s v = TensorTy (sh[axis := 1]) e" "axis < length sh" "\<forall>n \<in> set sh. 0 < n"
    and post: "\<And>c t. lext s t \<Longrightarrow> c < length t \<Longrightarrow> ltyOf t c = TensorTy (removeAt axis sh) e \<Longrightarrow>
      (\<And>E idx. inB (removeAt axis sh) idx \<Longrightarrow> lval E t c idx = lval E s v (insertAt axis 0 idx)) \<Longrightarrow> Q c t"
  shows "wp (bindM (createReassociationMaps (sh[axis := 1]) (removeAt axis sh)) (\<lambda>g. bindM (castM g) (\<lambda>g.
       lcreate (LCollapse v g) (TensorTy (removeAt axis sh) e)))) Q s"
proof -
  obtain g where g: "createReassociationMaps (sh[axis := 1]) (removeAt axis sh) = ret (Some g)" "groupsOk (sh[axis := 1]) (removeAt axis sh) g"
    using createReassociationMaps_dropOne [OF v(3,4)] by (auto simp: removeAt_def)
  have "wp (lcreate (LCollapse v g) (TensorTy (removeAt axis sh) e)) Q s"
  proof (rule wp_lcreate, rule post, goal_cases)
    case (4 c t E idx)
    have "norm e (lval E s v ks) = lval E s v ks" for ks using lval_norm [OF v(1), of E ks] v(2) by simp
    then show ?case using 4(5) [of E idx] v g(2) relayout_insertAt [OF 4(6) v(3)] by (simp add: lopSem_def lvalues_nth)
  qed
  then show ?thesis using g(1) by (simp add: wp_simps)
qed

lemma wp_normalReduceOne:
  assumes v: "v < length s" "ltyOf s v = TensorTy sh e" "axis < length sh" "\<forall>n \<in> set sh. 0 < n"
  shows "wp (normalReduceOne axis (removeAt axis sh) v) (\<lambda>p t. lext s t \<and> slicedFrom s axis sh t v p) s"
proof -
  let ?Q = "\<lambda>p t. lext s t \<and> slicedFrom s axis sh t v p"
  let ?out = "removeAt axis sh"
  have pos: "0 < sh ! axis" using v(3,4) by simp
  have shape: "?out = removeAt axis (sh[axis := 1])" by (simp add: removeAt_def)
  show ?thesis
  proof (cases "sh ! axis \<le> 1")
    case True
    then have one: "sh[axis := 1] = sh" using pos v(3) by (metis list_update_id nle_le zless_imp_add1_zle add_0)
    have "wp (bindM (createReassociationMaps (sh[axis := 1]) ?out) (\<lambda>g. bindM (castM g) (\<lambda>g. lcreate (LCollapse v g) (TensorTy ?out e))))
        (\<lambda>c. ?Q (c, None)) s"
      by (rule wp_collapseSlice [OF v(1) _ v(3,4)]) (use v(2) one True in \<open>simp_all add: slicedFrom_def\<close>)
    then show ?thesis using True v one by (simp add: normalReduceOne_def wp_simps atM_in)
  next
    case False
    have "wp (sliceFirst v axis False) (\<lambda>slice. wp (bindM (createReassociationMaps (sh[axis := 1]) ?out) (\<lambda>g. bindM (castM g) (\<lambda>g.
        lcreate (LCollapse slice g) (TensorTy ?out e)))) (\<lambda>c. wp (sliceRemaining v axis False) (\<lambda>rest. ?Q (c, Some rest)))) s"
      unfolding sliceFirst_def wp_simps v(2) shapeOf.simps elemTy.simps Let_def if_False
    proof (rule wp_slice [OF v(1-3)], goal_cases)
      case (1 a t)
      note va = lextD [OF 1(1) v(1)]
      have "wp (bindM (createReassociationMaps (sh[axis := 1]) ?out) (\<lambda>g. bindM (castM g) (\<lambda>g. lcreate (LCollapse a g) (TensorTy ?out e))))
          (\<lambda>c. wp (sliceRemaining v axis False) (\<lambda>rest. ?Q (c, Some rest))) t"
      proof (rule wp_collapseSlice [OF 1(2,3) v(3,4)], goal_cases)
        case (1 c u)
        have su: "lext s u" by (rule lext_trans [OF \<open>lext s t\<close> 1(1)])
        note vu = lextD [OF su v(1)]
        have val: "lval E u c idx = lval E s v (insertAt axis 0 idx)" if "inB ?out idx" for E idx
        proof -
          have i: "inB (sh[axis := 1]) (insertAt axis 0 idx)"
            using inB_insertAt [of axis "sh[axis := 1]" idx 0] that v(3) by (simp add: removeAt_def)
          have "(insertAt axis 0 idx)[axis := insertAt axis 0 idx ! axis + 0] = insertAt axis 0 idx" by simp
          then show ?thesis
            using 1(4) [OF that] \<open>\<And>E ks. inB (sh[axis := 1]) ks \<Longrightarrow> lval E t a ks = lval E s v (ks[axis := ks ! axis + 0])\<close> [OF i] by simp
        qed
        show ?case
          unfolding sliceRemaining_def wp_simps vu(2) v(2) shapeOf.simps elemTy.simps Let_def if_False
        proof (rule wp_slice [OF vu(1) _ v(3)], goal_cases)
          case (2 b w)
          then show ?case
            using 1 val False lextD [OF 2(1) 1(2)] lext_trans [OF su 2(1)] vu v(2) by (auto simp: slicedFrom_def)
        qed (use vu v in simp)
      qed
      then show ?case unfolding wp_simps .
    qed
    then show ?thesis using False v by (simp add: normalReduceOne_def wp_simps atM_in)
  qed
qed

section \<open>All operands\<close>

lemma slicedFrom_before: "lext s t \<Longrightarrow> v < length s \<Longrightarrow> slicedFrom t axis sh u v p \<longleftrightarrow> slicedFrom s axis sh u v p"
  by (simp add: slicedFrom_def lextD)

lemma wp_normalReduceAll:
  assumes "\<forall>v \<in> set xs. v < length s \<and> shapeOf (ltyOf s v) = sh \<and> isTensor (ltyOf s v)" "axis < length sh" "\<forall>n \<in> set sh. 0 < n"
  shows "wp (mapM (normalReduceOne axis (removeAt axis sh)) xs) (\<lambda>vs t. lext s t \<and> list_all2 (slicedFrom s axis sh t) xs vs) s"
  using assms(1)
proof (induction xs arbitrary: s)
  case (Cons v xs)
  have v: "v < length s" "ltyOf s v = TensorTy sh (elemTy (ltyOf s v))" using Cons.prems by (cases "ltyOf s v"; simp)+
  show ?case
    unfolding mapM.simps wp_bindM
  proof (rule wp_mono [OF wp_normalReduceOne [OF v assms(2,3)]], goal_cases)
    case (1 p t)
    have "wp (mapM (normalReduceOne axis (removeAt axis sh)) xs) (\<lambda>vs u. lext t u \<and> list_all2 (slicedFrom t axis sh u) xs vs) t"
      using Cons.prems 1 by (intro Cons.IH) (auto simp: lextD)
    then show ?case
    proof (rule wp_mono, goal_cases)
      case (1 vs u)
      then have "list_all2 (slicedFrom s axis sh u) xs vs"
        using Cons.prems \<open>lext s t \<and> slicedFrom s axis sh t v p\<close> by (auto elim!: list.rel_mono_strong simp: slicedFrom_before)
      moreover have "slicedFrom s axis sh u v p"
        using slicedFrom_ext 1 \<open>lext s t \<and> slicedFrom s axis sh t v p\<close> by blast
      ultimately show ?case
        using 1 \<open>lext s t \<and> slicedFrom s axis sh t v p\<close> by (auto simp: wp_simps intro: lext_trans)
    qed
  qed
qed (simp add: wp_simps)

lemma wp_mapM_lcreate:
  "wp (mapM (\<lambda>i. lcreate (g i) (ty i)) is) (\<lambda>vs u. lext s u \<and> list_all2 (\<lambda>i v. v < length u \<and> ltyOf u v = ty i \<and>
     (\<exists>t. lext s t \<and> (\<forall>E idx. lval E u v idx = norm (ty i) (lopSem E (lvalues E t) (g i) (ty i) idx)))) is vs) s"
proof (induction "is" arbitrary: s)
  case (Cons i "is")
  show ?case
    unfolding mapM.simps wp_bindM
  proof (rule wp_lcreate, goal_cases)
    case (1 v t)
    note lval = 1(5)
    show ?case
    proof (rule wp_mono [OF Cons.IH], goal_cases)
      case (1 vs u)
      note st = \<open>lext s t\<close>
      have "list_all2 (\<lambda>i v. v < length u \<and> ltyOf u v = ty i \<and>
         (\<exists>t. lext s t \<and> (\<forall>E idx. lval E u v idx = norm (ty i) (lopSem E (lvalues E t) (g i) (ty i) idx)))) is vs"
        using 1 by (auto elim!: list_all2_mono intro: lext_trans [OF st])
      moreover have "\<exists>t. lext s t \<and> (\<forall>E idx. lval E u v idx = norm (ty i) (lopSem E (lvalues E t) (g i) (ty i) idx))"
        using 1 lextD(4) [of t u v] \<open>v < length t\<close> lval by (intro exI [of _ s]) simp
      ultimately show ?case using 1 lextD [of t u v] \<open>v < length t\<close> \<open>ltyOf t v = ty i\<close> by (auto simp: wp_simps intro: lext_trans [OF st])
    qed
  qed
qed (simp add: wp_simps)

lemma wp_getFinalResults:
  assumes "\<forall>x \<in> set xs. x < length s \<and> (\<exists>e. ltyOf s x = TensorTy out e \<and> \<not> isShaped e)"
  shows "wp (getFinalResults out xs) (\<lambda>vs u. lext s u \<and> list_all2 (\<lambda>x v. v < length u \<and> ltyOf u v = reducedTy out (elemTy (ltyOf s x)) \<and>
     (\<forall>E idx. inB out idx \<longrightarrow> lval E u v idx = lval E s x idx)) xs vs) s"
proof (cases "out = []")
  case False
  then show ?thesis using assms by (auto simp: getFinalResults_def wp_simps list_all2_same reducedTy_def)
next
  case True
  have "wp (mapM (\<lambda>x. bindM (getM (\<lambda>s. elemTy (ltyOf s x))) (\<lambda>e. lcreate (LExtract x []) e)) xs)
     (\<lambda>vs u. lext s u \<and> list_all2 (\<lambda>x v. v < length u \<and> ltyOf u v = elemTy (ltyOf s x) \<and> (\<forall>E. lval E u v [] = lval E s x [])) xs vs) s"
    using assms
  proof (induction xs arbitrary: s)
    case (Cons x xs)
    have x: "x < length s" using Cons.prems by simp
    show ?case
      unfolding mapM.simps wp_simps
    proof (rule wp_lcreate, goal_cases)
      case (1 v t)
      note st = \<open>lext s t\<close> and new = 1
      have "\<forall>x \<in> set xs. x < length t \<and> (\<exists>e. ltyOf t x = TensorTy out e \<and> \<not> isShaped e)" using Cons.prems st by (auto simp: lextD)
      then show ?case
      proof (rule wp_mono [OF Cons.IH], goal_cases)
        case (1 vs u)
        have "lval E t v [] = lval E s x []" for E
          using new(5) [of E "[]"] lval_norm [OF x, of E "[]"] x by (simp add: lopSem_def lvalues_nth)
        moreover have "list_all2 (\<lambda>x v. v < length u \<and> ltyOf u v = elemTy (ltyOf s x) \<and> (\<forall>E. lval E u v [] = lval E s x [])) xs vs"
          using 1 Cons.prems st by (auto elim!: list.rel_mono_strong simp: lextD)
        ultimately show ?case using 1 new lextD [of t u v] by (auto intro: lext_trans [OF st])
      qed
    qed
  qed (simp add: wp_simps)
  then show ?thesis using True by (auto simp: getFinalResults_def reducedTy_def)
qed

section \<open>The conversion\<close>

text \<open>The region of \<open>linalg.reduce\<close> has the new elements first, that of \<open>tt.reduce\<close> the accumulated ones.\<close>

definition swapsArgs :: "lenv \<Rightarrow> ltable \<Rightarrow> sregion \<Rightarrow> nat \<Rightarrow> bool" where
  "swapsArgs E s r n \<longleftrightarrow> (\<forall>as bs. length as = n \<longrightarrow> length bs = n \<longrightarrow>
     regionSem (fops E) (lval E s) [] r (as @ bs) = regionSem (fops E) (lval E s) [] r (bs @ as))"

definition normalReducedBy :: "ltable \<Rightarrow> sregion \<Rightarrow> nat \<Rightarrow> int list \<Rightarrow> val list \<Rightarrow> val list \<Rightarrow> ltable \<Rightarrow> bool" where
  "normalReducedBy s r axis sh xs vs u \<longleftrightarrow> lext s u \<and> length vs = length xs \<and> (\<forall>i < length xs.
     vs ! i < length u \<and> ltyOf u (vs ! i) = reducedTy (removeAt axis sh) (elemTy (ltyOf s (xs ! i))) \<and>
     (\<forall>E idx. swapsArgs E s r (length xs) \<longrightarrow> inB (removeAt axis sh) idx \<longrightarrow>
       lval E u (vs ! i) idx = norm (elemTy (ltyOf s (xs ! i))) (reduceSem E s r axis (sh ! axis) xs idx ! i)))"

lemma upto_shift: "[1..n - 1] = map (\<lambda>j. j + 1) [0..n - 1 - (1 :: int)]"
  by (rule nth_equalityI) (auto simp: nth_upto)

lemma regionSem_length: "length (regionSem F look idx r args) = length (regionReturns r)"
  by (simp add: regionSem_def Let_def)

lemma reduceSem_fold:
  assumes "swapsArgs E s r (length xs)" "length (regionReturns r) = length xs" "length acc = length xs"
  shows "foldl (\<lambda>acc j. regionSem (fops E) (lval E s) [] r (map (\<lambda>v. lval E s v (insertAt axis (j + 1) idx)) xs @ acc)) acc js =
    foldl (\<lambda>acc k. regionSem (fops E) (lval E s) [] r (acc @ map (\<lambda>v. lval E s v (insertAt axis k idx)) xs)) acc (map (\<lambda>j. j + 1) js)"
  using assms(3) by (induction js arbitrary: acc) (use assms(1,2) in \<open>auto simp: swapsArgs_def regionSem_length\<close>)

text \<open>What one result of the emitted \<open>linalg.reduce\<close> holds.\<close>

lemma lopSem_slices:
  assumes st: "lext s t" and sl: "list_all2 (slicedFrom s axis sh t) xs (zip is (map Some rs))" "length is = length xs" "length rs = length xs"
    and ne: "xs \<noteq> []" and ax: "axis < length sh" "1 < sh ! axis" and ib: "inB (removeAt axis sh) idx" and xs: "\<forall>v \<in> set xs. v < length s"
    and r: "swapsArgs E s r (length xs)" "length (regionReturns r) = length xs" "\<forall>v \<in> set (regionUses r). v < length s"
  shows "lopSem E (lvalues E t) (LReduce rs is [axis] r k) ty idx = reduceSem E s r axis (sh ! axis) xs idx ! k"
proof -
  have one: "is ! i < length t" "rs ! i < length t" "shapeOf (ltyOf t (rs ! i)) = sh[axis := sh ! axis - 1]"
    "lval E t (is ! i) idx = lval E s (xs ! i) (insertAt axis 0 idx)"
    "inB (sh[axis := sh ! axis - 1]) ks \<Longrightarrow> lval E t (rs ! i) ks = lval E s (xs ! i) (ks[axis := ks ! axis + 1])" if "i < length xs" for i ks
    using list_all2_nthD [OF sl(1) that] sl(2,3) that ax ib by (auto simp: slicedFrom_def)
  have l: "Suc (length idx) = length sh" "length (take axis idx) = axis" using inB_length [OF ib] length_removeAt [OF ax(1)] ax(1) by simp_all
  have inits: "map (\<lambda>v. lval E t v idx) is = map (\<lambda>v. lval E s v (insertAt axis 0 idx)) xs"
    by (rule nth_equalityI) (use sl(2) one in auto)
  have rests: "map (\<lambda>v. lval E t v (insertAt axis j idx)) rs = map (\<lambda>v. lval E s v (insertAt axis (j + 1) idx)) xs" if "0 \<le> j" "j < sh ! axis - 1" for j
  proof (rule nth_equalityI)
    fix i assume "i < length (map (\<lambda>v. lval E t v (insertAt axis j idx)) rs)"
    moreover have "inB (sh[axis := sh ! axis - 1]) (insertAt axis j idx)"
      by (rule inB_insertAt) (use ax ib that in \<open>simp_all add: removeAt_def\<close>)
    moreover have "(insertAt axis j idx)[axis := insertAt axis j idx ! axis + 1] = insertAt axis (j + 1) idx"
      using l by (simp add: insertAt_def nth_append list_update_append)
    ultimately show "map (\<lambda>v. lval E t v (insertAt axis j idx)) rs ! i = map (\<lambda>v. lval E s v (insertAt axis (j + 1) idx)) xs ! i"
      using one(5) [of i "insertAt axis j idx"] sl(3) by simp
  qed (simp add: sl(3))
  have region: "regionSem (fops E) (\<lambda>v. snd (lvalues E t ! v)) [] r args = regionSem (fops E) (lval E s) [] r args" for args
    by (rule regionSem_cong) (use r(3) lextD [OF st] in \<open>auto simp: lvalues_nth\<close>)
  have rs: "rs \<noteq> []" using sl(3) ne by auto
  have b: "\<forall>v \<in> set rs \<union> set is. v < length t" "shapeOf (ltyOf t (hd rs)) = sh[axis := sh ! axis - 1]"
    using one sl(2,3) ne by (auto simp: in_set_conv_nth hd_conv_nth [OF rs])
  have "lopSem E (lvalues E t) (LReduce rs is [axis] r k) ty idx =
      foldl (\<lambda>acc j. regionSem (fops E) (lval E s) [] r (map (\<lambda>v. lval E t v (insertAt axis j idx)) rs @ acc))
        (map (\<lambda>v. lval E s v (insertAt axis 0 idx)) xs) [0..sh ! axis - 1 - 1] ! k"
    using lopSem_reduce [OF b(1) rs b(2), of axis idx E r k ty] ax(1) l(1) by (simp add: region inits)
  also have "\<dots> = foldl (\<lambda>acc j. regionSem (fops E) (lval E s) [] r (map (\<lambda>v. lval E s v (insertAt axis (j + 1) idx)) xs @ acc))
        (map (\<lambda>v. lval E s v (insertAt axis 0 idx)) xs) [0..sh ! axis - 1 - 1] ! k"
    by (intro arg_cong [of _ _ "\<lambda>x. x ! k"] foldl_cong) (auto simp: rests)
  also have "\<dots> = reduceSem E s r axis (sh ! axis) xs idx ! k"
    unfolding reduceSem_fold [OF r(1,2) length_map] reduceSem_def Let_def upto_shift ..
  finally show ?thesis .
qed

lemma slices_some:
  assumes "list_all2 (slicedFrom s axis sh t) xs vs" "1 < sh ! axis"
  shows "\<exists>rs. map snd vs = map Some rs \<and> length rs = length xs"
proof -
  have "\<exists>r. snd (vs ! i) = Some r" if "i < length xs" for i
    using list_all2_nthD [OF assms(1) that] assms(2) by (auto simp: slicedFrom_def)
  then have "map snd vs = map Some (map (the \<circ> snd) vs)"
    using list_all2_lengthD [OF assms(1)] by (intro nth_equalityI) fastforce+
  then show ?thesis using list_all2_lengthD [OF assms(1)] by (intro exI [of _ "map (the \<circ> snd) vs"]) simp
qed

theorem wp_convertNormalReduce:
  assumes xs: "\<forall>v \<in> set xs. v < length s \<and> (\<exists>e. ltyOf s v = TensorTy sh e \<and> \<not> isShaped e)" "xs \<noteq> []"
    and ax: "axis < length sh" "\<forall>n \<in> set sh. 0 < n"
    and r: "length (regionReturns r) = length xs" "\<forall>v \<in> set (regionUses r). v < length s"
  shows "wp (convertNormalReduce xs axis r (map (\<lambda>v. reducedTy (removeAt axis sh) (elemTy (ltyOf s v))) xs))
    (normalReducedBy s r axis sh xs) s"
proof -
  let ?out = "removeAt axis sh"
  let ?e = "\<lambda>i. elemTy (ltyOf s (xs ! i))"
  let ?types = "map (\<lambda>v. reducedTy ?out (elemTy (ltyOf s v))) xs"
  have scalar: "\<not> isShaped (?e i)" "elemTy (?e i) = ?e i" if "i < length xs" for i
    using xs(1) nth_mem [OF that] by (cases "?e i"; force)+
  have shape: "shapeOf (hd ?types) = ?out" using scalar(1) [of 0] xs(2) by (simp add: hd_map hd_conv_nth shapeOf_reducedTy)
  have tys: "elemTy (?types ! i) = ?e i" if "i < length xs" for i using scalar [OF that] that by (simp add: reducedTy_def)
  have xs': "\<forall>v \<in> set xs. v < length s \<and> shapeOf (ltyOf s v) = sh \<and> isTensor (ltyOf s v)" using xs(1) by force
  have final: "wp (getFinalResults ?out ys) (normalReducedBy s r axis sh xs) t"
    if st: "lext s t" and l: "length ys = length xs" and ys: "\<And>i. i < length xs \<Longrightarrow> ys ! i < length t \<and> ltyOf t (ys ! i) = TensorTy ?out (?e i)"
      and val: "\<And>i E idx. i < length xs \<Longrightarrow> swapsArgs E s r (length xs) \<Longrightarrow> inB ?out idx \<Longrightarrow>
        lval E t (ys ! i) idx = norm (?e i) (reduceSem E s r axis (sh ! axis) xs idx ! i)" for ys t
  proof (rule wp_mono [OF wp_getFinalResults], goal_cases)
    case 1
    then show ?case using ys l scalar by (fastforce simp: in_set_conv_nth)
  next
    case (2 vs u)
    then show ?case using st l ys val lext_trans [of s t u] by (auto simp: normalReducedBy_def list_all2_conv_all_nth)
  qed
  let ?k = "\<lambda>vs. let initVals = map fst vs; inputVals = map the (filter (\<lambda>x. x \<noteq> None) (map snd vs)) in
      if inputVals = [] then getFinalResults ?out initVals
      else bindM (mapM (\<lambda>i. lcreate (LReduce inputVals initVals [axis] r i) (TensorTy ?out (elemTy (?types ! i)))) [0..<length ?types])
          (getFinalResults ?out)"
  have step: "wp (?k vs) (normalReducedBy s r axis sh xs) t" if st: "lext s t" and sl: "list_all2 (slicedFrom s axis sh t) xs vs" for vs t
  proof -
    have l: "length vs = length xs" by (rule list_all2_lengthD [OF sl, symmetric])
    have one: "fst (vs ! i) < length t" "ltyOf t (fst (vs ! i)) = TensorTy ?out (?e i)"
      "inB ?out idx \<Longrightarrow> lval E t (fst (vs ! i)) idx = lval E s (xs ! i) (insertAt axis 0 idx)" if "i < length xs" for i E idx
      using list_all2_nthD [OF sl that] by (simp_all add: slicedFrom_def)
    show ?thesis
    proof (cases "sh ! axis \<le> 1")
      case True
      have "snd (vs ! i) = None" if "i < length xs" for i using list_all2_nthD [OF sl that] True by (simp add: slicedFrom_def)
      then have none: "filter (\<lambda>x. x \<noteq> None) (map snd vs) = []" using l by (fastforce simp: filter_empty_conv in_set_conv_nth)
      have "lval E t (fst (vs ! i)) idx = norm (?e i) (reduceSem E s r axis (sh ! axis) xs idx ! i)" if "i < length xs" "inB ?out idx" for i E idx
        using one(3) [OF that] lval_norm [of "xs ! i" s E "insertAt axis 0 idx"] True that(1) xs(1) by (simp add: reduceSem_def)
      then have "wp (getFinalResults ?out (map fst vs)) (normalReducedBy s r axis sh xs) t"
        using l one by (intro final [OF st]) auto
      then show ?thesis unfolding none by simp
    next
      case False
      then obtain rs where rs: "map snd vs = map Some rs" "length rs = length xs" using slices_some [OF sl] by auto
      have z: "vs = zip (map fst vs) (map Some rs)" using rs(1) by (metis zip_map_fst_snd)
      have in_vals: "map the (filter (\<lambda>x. x \<noteq> None) (map snd vs)) = rs" "rs \<noteq> []" unfolding rs(1) using rs(2) xs(2) by (auto simp: filter_map comp_def)
      have "wp (mapM (\<lambda>i. lcreate (LReduce rs (map fst vs) [axis] r i) (TensorTy ?out (elemTy (?types ! i)))) [0..<length ?types])
          (\<lambda>ys. wp (getFinalResults ?out ys) (normalReducedBy s r axis sh xs)) t"
      proof (rule wp_mono [OF wp_mapM_lcreate], goal_cases)
        case (1 ys u)
        have ly: "length ys = length xs" using 1 by (simp add: list_all2_conv_all_nth)
        have su: "lext s u" using 1 lext_trans [OF st] by blast
        show ?case
        proof (rule final [OF su ly], goal_cases)
          case (1 i)
          then show ?case using \<open>lext t u \<and> _\<close> tys [OF 1] by (simp add: list_all2_conv_all_nth)
        next
          case (2 i E idx)
          then obtain t' where t': "lext t t'" and v: "lval E u (ys ! i) idx = norm (?e i) (lopSem E (lvalues E t') (LReduce rs (map fst vs) [axis] r i) (TensorTy ?out (?e i)) idx)"
            using conjunct2 [OF \<open>lext t u \<and> _\<close>, THEN list_all2_nthD, of i] tys [OF 2(1)] 2(1) by (auto simp del: nth_map)
          have "list_all2 (slicedFrom s axis sh t') xs (zip (map fst vs) (map Some rs))"
            using sl slicedFrom_ext [OF _ t'] unfolding z [symmetric] by (auto elim!: list_all2_mono)
          then show ?case
            unfolding v using False xs' l rs(2) 2
            by (subst lopSem_slices [OF lext_trans [OF st t'] _ _ _ xs(2) ax(1) _ _ _ _ r]) auto
        qed
      qed
      then show ?thesis unfolding in_vals Let_def using in_vals(2) by (simp add: wp_simps)
    qed
  qed
  have "wp (mapM (normalReduceOne axis ?out) xs) (\<lambda>vs. wp (?k vs) (normalReducedBy s r axis sh xs)) s"
    by (rule wp_mono [OF wp_normalReduceAll [OF xs' ax]]) (use step in blast)
  then show ?thesis unfolding convertNormalReduce_def shape by (simp add: wp_simps Let_def)
qed

end
