(* ===== verification/Claims_Linalg.thy ===== *)
theory Claims_Linalg
  imports Linalg_Split Arg_Main Normal_Main
begin

text \<open>The properties of the conversion of tensor operations to linalg, with an instance of each.\<close>

section \<open>An example\<close>

text \<open>
  0: a column of three integers; 1, 2: 3 x 4 integers and numbers; 3: 4 x 2 bytes; 4: 3 x 2 integers;
  5, 6: the comparison and the select of a maximum of 4 with itself; 7: three numbers, 8: their range.
\<close>

definition linalgDemo :: ltable where
  "linalgDemo = [(LInput 0, TensorTy [3, 1] (IntTy 32)), (LInput 1, TensorTy [3, 4] (IntTy 32)), (LInput 2, TensorTy [3, 4] (FloatTy 32)),
     (LInput 3, TensorTy [4, 2] (IntTy 8)), (LInput 4, TensorTy [3, 2] (IntTy 32)), (LElementwise (SCmpI Ugt) [4, 4], TensorTy [3, 2] (IntTy 1)),
     (LElementwise SSelect [5, 4, 4], TensorTy [3, 2] (IntTy 32)), (LInput 5, TensorTy [3] (FloatTy 32)), (LMakeRange 0 3, TensorTy [3] (IntTy 32))]"

definition argMaxRegion :: sregion where
  "argMaxRegion = \<lparr>regionBody = [((SCmpF OEQ, FloatTy 32), [BArg 0, BArg 2]), ((SCmpI Slt, IntTy 32), [BArg 1, BArg 3]),
     ((SAndI, IntTy 1), [BRes 0, BRes 1]), ((SCmpF OGT, FloatTy 32), [BArg 0, BArg 2]), ((SOrI, IntTy 1), [BRes 3, BRes 2]),
     ((SSelect, FloatTy 32), [BRes 4, BArg 0, BArg 2]), ((SSelect, IntTy 32), [BRes 4, BArg 1, BArg 3])], regionReturns = [BRes 5, BRes 6]\<rparr>"

text \<open>The sum of the distances and the product of the tags of two pairs.\<close>

definition pairRegion :: sregion where
  "pairRegion = \<lparr>regionBody = [((SAddI, IntTy 32), [BArg 0, BArg 2]), ((SXOrI, IntTy 32), [BArg 1, BArg 3])], regionReturns = [BRes 0, BRes 1]\<rparr>"

lemma linalgDemo_types: "ltyOf linalgDemo 0 = TensorTy [3, 1] (IntTy 32)" "ltyOf linalgDemo 1 = TensorTy [3, 4] (IntTy 32)"
  "ltyOf linalgDemo 2 = TensorTy [3, 4] (FloatTy 32)" "ltyOf linalgDemo 3 = TensorTy [4, 2] (IntTy 8)" "ltyOf linalgDemo 4 = TensorTy [3, 2] (IntTy 32)"
  "ltyOf linalgDemo 5 = TensorTy [3, 2] (IntTy 1)" "ltyOf linalgDemo 6 = TensorTy [3, 2] (IntTy 32)" "ltyOf linalgDemo 7 = TensorTy [3] (FloatTy 32)"
  "ltyOf linalgDemo 8 = TensorTy [3] (IntTy 32)" "length linalgDemo = 9"
  by (simp_all add: linalgDemo_def ltyOf_def entry_def)

lemma linalgDemo_ops: "lopOf linalgDemo 4 = LInput 4" "lopOf linalgDemo 5 = LElementwise (SCmpI Ugt) [4, 4]"
  "lopOf linalgDemo 6 = LElementwise SSelect [5, 4, 4]" "lopOf linalgDemo 1 = LInput 1"
  by (simp_all add: linalgDemo_def lopOf_def entry_def)

lemmas linalgDemo_one = linalgDemo_types(2) [unfolded One_nat_def] linalgDemo_ops(4) [unfolded One_nat_def]

lemma inB_pair: "inB (sh @ [2]) idx \<longleftrightarrow> (\<exists>xs. inB sh xs \<and> (idx = xs @ [0] \<or> idx = xs @ [1]))"
proof -
  have "0 \<le> i \<and> i < 2 \<longleftrightarrow> i = 0 \<or> i = 1" for i :: int by auto
  then show ?thesis by (auto simp: inB_snoc)
qed

text \<open>Numbers that are integers with their order, above an infinity of -1000; \<open>argEnv\<close> has the numbers 5, 9, 9.\<close>

definition zeroOps :: float_ops where
  "zeroOps = \<lparr>fbin = (\<lambda>_ _ _ _. 0), fcmp = (\<lambda>p a b. case p of OEQ \<Rightarrow> a = b | OGT \<Rightarrow> b < a | OGE \<Rightarrow> b \<le> a | OLT \<Rightarrow> a < b | OLE \<Rightarrow> a \<le> b | _ \<Rightarrow> False),
     fcast = (\<lambda>_ _ x. x), fval = (\<lambda>c _. case c of FNegInf \<Rightarrow> -1000 | _ \<Rightarrow> 0), fother = (\<lambda>_ _ _. 0)\<rparr>"

definition constEnv :: "int \<Rightarrow> lenv" where
  "constEnv c = \<lparr>fops = zeroOps, linputs = (\<lambda>_ _. c), junk = (\<lambda>_ _. 0)\<rparr>"

definition argEnv :: lenv where
  "argEnv = \<lparr>fops = zeroOps, linputs = (\<lambda>_ idx. [5, 9, 9] ! nat (hd idx)), junk = (\<lambda>_ _. 0)\<rparr>"

section \<open>Properties\<close>

text \<open>C11: the conversion of a splat, a broadcast to another shape, a new unit dimension, a transposition, a
  range, a splat constant, a concatenation or a reshape of operands with the types that Triton
  requires succeeds, only appends operations, and the value that replaces the operation has its type
  and, at every index, its element.  A broadcast to the same shape aborts, see below.\<close>

theorem tensor_ops_correct:
  assumes "tensorTyped s opn t" and "groupsForOk groupsFor"
  shows "\<exists>v s'. convertTensorOp groupsFor opn t s = (Inr v, s') \<and> replacedBy s t (\<lambda>E. tensorSem E s opn t) v s'"
  using wp_convertTensorOp [OF assms] by (simp add: wp_def)

theorem tensor_ops_correct_witness:
  "\<exists>v s'. convertTensorOp (\<lambda>_ _. None) (TBroadcast 0) (TensorTy [3, 4] (IntTy 32)) linalgDemo = (Inr v, s') \<and>
     replacedBy linalgDemo (TensorTy [3, 4] (IntTy 32)) (\<lambda>E. tensorSem E linalgDemo (TBroadcast 0) (TensorTy [3, 4] (IntTy 32))) v s'"
  by (rule tensor_ops_correct) (simp_all add: tensorTyped_def linalgDemo_types groupsForOk_def)

text \<open>C16: a tensor whose last dimension is two, split into its halves and joined again, is the tensor.\<close>

theorem split_join_roundtrip:
  assumes "x < length s" and "ltyOf s x = TensorTy (sh @ [2]) e"
  shows "\<exists>v s'. bindM (convertSplit x (TensorTy sh e)) (\<lambda>halves. convertJoin halves (TensorTy (sh @ [2]) e)) s = (Inr v, s') \<and>
    replacedBy s (TensorTy (sh @ [2]) e) (\<lambda>E. lval E s x) v s'"
proof -
  have "wp (bindM (convertSplit x (TensorTy sh e)) (\<lambda>halves. convertJoin halves (TensorTy (sh @ [2]) e)))
    (replacedBy s (TensorTy (sh @ [2]) e) (\<lambda>E. lval E s x)) s"
    unfolding wp_bindM
  proof (rule wp_convertSplit [OF assms], goal_cases)
    case (1 a b u)
    note a = 1(1) [unfolded replacedBy_def] and b = 1(2) [unfolded replacedBy_def]
    have "wp (convertJoin [a, b] (TensorTy (sh @ [2]) e))
        (replacedBy u (TensorTy (sh @ [2]) e) (\<lambda>E idx. lval E u (if last idx = 0 then a else b) (butlast idx))) u"
      by (rule wp_convertJoin) (use a b in auto)
    then show ?case
    proof (rule wp_mono)
      fix v t assume "replacedBy u (TensorTy (sh @ [2]) e) (\<lambda>E idx. lval E u (if last idx = 0 then a else b) (butlast idx)) v t"
      then show "replacedBy s (TensorTy (sh @ [2]) e) (\<lambda>E. lval E s x) v t"
        by (rule replacedBy_trans [rotated]) (use a b in \<open>auto simp: inB_pair\<close>)
    qed
  qed
  then show ?thesis by (simp add: wp_def)
qed

theorem split_join_roundtrip_witness:
  "\<exists>v s'. bindM (convertSplit 3 (TensorTy [4] (IntTy 8))) (\<lambda>halves. convertJoin halves (TensorTy ([4] @ [2]) (IntTy 8))) linalgDemo = (Inr v, s') \<and>
    replacedBy linalgDemo (TensorTy ([4] @ [2]) (IntTy 8)) (\<lambda>E. lval E linalgDemo 3) v s'"
  by (rule split_join_roundtrip) (simp_all add: linalgDemo_types)



text \<open>C14: the region of \<open>tl.argmax\<close> and \<open>tl.argmin\<close> that breaks ties to the left becomes a loop or a
  \<open>linalg.reduce\<close> whose results are the best element along the axis and, of its positions, the index that
  is the least, wherever the comparisons order the elements (there is no NaN), no index is negative, and
  one element is better than the infinity that the reduction starts from.\<close>

theorem argminmax_correct:
  assumes "argTyped s x y axis sh fw w" and "matchArgReduce k r" and "kDynamic \<notin> set sh"
  shows "\<exists>a b s'. convertArgMinMax k [x, y] axis r [reducedTy (removeAt axis sh) (FloatTy fw), reducedTy (removeAt axis sh) (IntTy w)] s =
      (Inr [a, b], s') \<and> lext s s' \<and> a < length s' \<and> b < length s' \<and>
    ltyOf s' a = reducedTy (removeAt axis sh) (FloatTy fw) \<and> ltyOf s' b = reducedTy (removeAt axis sh) (IntTy w) \<and>
    (\<forall>E idx key. inB (removeAt axis sh) idx \<longrightarrow>
      argOrder (fops E) k key (fval (fops E) (baseValue k) (FloatTy fw)) (sh ! axis)
        (\<lambda>j. lval E s x (insertAt axis j idx)) (\<lambda>j. lval E s y (insertAt axis j idx)) \<longrightarrow>
      argBest key {0..<sh ! axis} (\<lambda>j. lval E s x (insertAt axis j idx)) (\<lambda>j. lval E s y (insertAt axis j idx)) (lval E s' a idx, lval E s' b idx))"
  using wp_convertArgMinMax [OF assms] unfolding wp_def argReducedBy_def by (auto split: prod.splits sum.splits)

lemma argEnv_vals: "lval argEnv linalgDemo 7 [0] = 5" "lval argEnv linalgDemo 7 [1] = 9" "lval argEnv linalgDemo 7 [2] = 9"
  "lval argEnv linalgDemo 8 [0] = 0" "lval argEnv linalgDemo 8 [1] = 1" "lval argEnv linalgDemo 8 [2] = 2"
  by (simp_all add: linalgDemo_def lval_def lvalues_def lopSem_def argEnv_def zeroOps_def norm_def wrap_def)

lemma below3: "{0..<3 :: int} = {0, 1, 2}"
  by auto

lemma argEnv_order: "argOrder (fops argEnv) argMax (\<lambda>x. x) (fval (fops argEnv) (baseValue argMax) (FloatTy 32)) 3
    (\<lambda>j. lval argEnv linalgDemo 7 [j]) (\<lambda>j. lval argEnv linalgDemo 8 [j])"
proof -
  have "(\<lambda>j. lval argEnv linalgDemo 7 [j]) ` {0..<3} = {5, 9}" by (simp add: below3 argEnv_vals)
  moreover have "fval (fops argEnv) (baseValue argMax) (FloatTy 32) = -1000" by code_simp
  moreover have "fcmp (fops argEnv) OEQ a b \<longleftrightarrow> a = b" "fcmp (fops argEnv) (comparison argMax) a b \<longleftrightarrow> b < a" for a b
    by (simp_all add: argEnv_def zeroOps_def argMax_def)
  ultimately show ?thesis by (auto simp: argOrder_def below3 argEnv_vals)
qed

text \<open>Of 5, 9, 9 the greatest is 9, and its first index is 1.\<close>

theorem argminmax_correct_witness:
  "\<exists>a b s'. convertArgMinMax argMax [7, 8] 0 argMaxRegion [FloatTy 32, IntTy 32] linalgDemo = (Inr [a, b], s') \<and>
    lval argEnv s' a [] = 9 \<and> lval argEnv s' b [] = 1"
proof -
  have "argTyped linalgDemo 7 8 0 [3] 32 32" "matchArgReduce argMax argMaxRegion" "kDynamic \<notin> set [3]"
    by (simp_all add: argTyped_def linalgDemo_types kDynamic_def argMaxRegion_def argMax_def matchArgReduce_def
      matchShouldUpdateValue_def matchTieBreakResult_def matchComparisonResult_def opAt_def)
  from argminmax_correct [OF this] obtain a b s' where
    run: "convertArgMinMax argMax [7, 8] 0 argMaxRegion [FloatTy 32, IntTy 32] linalgDemo = (Inr [a, b], s')"
    and best: "\<And>E idx key. inB [] idx \<Longrightarrow> argOrder (fops E) argMax key (fval (fops E) (baseValue argMax) (FloatTy 32)) 3
        (\<lambda>j. lval E linalgDemo 7 (insertAt 0 j idx)) (\<lambda>j. lval E linalgDemo 8 (insertAt 0 j idx)) \<Longrightarrow>
      argBest key {0..<3} (\<lambda>j. lval E linalgDemo 7 (insertAt 0 j idx)) (\<lambda>j. lval E linalgDemo 8 (insertAt 0 j idx)) (lval E s' a idx, lval E s' b idx)"
    by (auto simp: removeAt_def reducedTy_def)
  have "argBest (\<lambda>x. x) {0..<3} (\<lambda>j. lval argEnv linalgDemo 7 [j]) (\<lambda>j. lval argEnv linalgDemo 8 [j]) (lval argEnv s' a [], lval argEnv s' b [])"
    using best [of "[]" argEnv "\<lambda>x. x"] argEnv_order by (simp add: insertAt_def inB_def)
  then have "lval argEnv s' a [] = 9 \<and> lval argEnv s' b [] = 1" by (auto simp: argBest_def below3 argEnv_vals)
  then show ?thesis using run by blast
qed

text \<open>C15: a product of two integer matrices becomes a \<open>linalg.matmul\<close> into zeros, to which the
  accumulator is added unless it is zero; the elements are those of the product, at the width of the
  accumulator.\<close>

theorem dot_correct:
  assumes "dotTyped s a b c m k n w"
  shows "\<exists>v s'. convertDot a b c (TensorTy [m, n] (IntTy w)) s = (Inr v, s') \<and>
    replacedBy s (TensorTy [m, n] (IntTy w)) (\<lambda>E idx. wrap w (lval E s c idx + dotSem E s a b k idx)) v s'"
  using wp_convertDot [OF assms] by (simp add: wp_def)

theorem dot_correct_witness:
  "\<exists>v s'. convertDot 1 3 4 (TensorTy [3, 2] (IntTy 32)) linalgDemo = (Inr v, s') \<and>
    replacedBy linalgDemo (TensorTy [3, 2] (IntTy 32)) (\<lambda>E idx. wrap 32 (lval E linalgDemo 4 idx + dotSem E linalgDemo 1 3 4 idx)) v s'"
  by (rule dot_correct) (simp add: dotTyped_def linalgDemo_one linalgDemo_types linalgDemo_ops)

text \<open>A strict integer comparison and the select of its operands become a minimum or maximum with
  the same elements.\<close>

theorem minmax_correct:
  assumes "minMaxPair s cmp sel (SCmpI p) a b t" and "elemTy t = IntTy w" and "0 < w" and "p \<in> {Sgt, Ugt, Slt, Ult}"
  shows "\<exists>v s'. convertMinMax [sel] cmp s = (Inr v, s') \<and> replacedBy s t (\<lambda>E. lval E s sel) v s'"
  using wp_convertMinMax [OF assms] by (simp add: wp_def)

theorem minmax_correct_witness:
  "\<exists>v s'. convertMinMax [6] 5 linalgDemo = (Inr v, s') \<and> replacedBy linalgDemo (TensorTy [3, 2] (IntTy 32)) (\<lambda>E. lval E linalgDemo 6) v s'"
  by (rule minmax_correct [of _ _ _ Ugt 4 4 _ 32]) (simp_all add: minMaxPair_def linalgDemo_types linalgDemo_ops isCmp_def)

text \<open>C13: a reduction by a region that is symmetric in its two sides, of any number of tensors, becomes a
  \<open>linalg.reduce\<close> of all slices but the first, which it starts from; its results are those of the
  reduction.  (The conversion succeeds, with the right types, for every region; \<open>linalg.reduce\<close> has the
  accumulator on the other side, so that the values need the symmetry.)\<close>

theorem normal_reduce_correct:
  assumes "\<forall>v \<in> set xs. v < length s \<and> (\<exists>e. ltyOf s v = TensorTy sh e \<and> \<not> isShaped e)" and "xs \<noteq> []"
    and "axis < length sh" and "\<forall>n \<in> set sh. 0 < n"
    and "length (regionReturns r) = length xs" and "\<forall>v \<in> set (regionUses r). v < length s"
  shows "\<exists>vs s'. convertNormalReduce xs axis r (map (\<lambda>v. reducedTy (removeAt axis sh) (elemTy (ltyOf s v))) xs) s = (Inr vs, s') \<and>
    lext s s' \<and> length vs = length xs \<and> (\<forall>i < length xs.
      vs ! i < length s' \<and> ltyOf s' (vs ! i) = reducedTy (removeAt axis sh) (elemTy (ltyOf s (xs ! i))) \<and>
      (\<forall>E idx. swapsArgs E s r (length xs) \<longrightarrow> inB (removeAt axis sh) idx \<longrightarrow>
        lval E s' (vs ! i) idx = norm (elemTy (ltyOf s (xs ! i))) (reduceSem E s r axis (sh ! axis) xs idx ! i)))"
  using wp_convertNormalReduce [OF assms] by (simp add: wp_def normalReducedBy_def)

lemma pairRegion_swaps: "swapsArgs E s pairRegion 2"
  by (auto simp: swapsArgs_def pairRegion_def regionSem_def sopSem_def length_Suc_conv numeral_2_eq_2 ac_simps)

theorem normal_reduce_correct_witness:
  "\<exists>vs s'. convertNormalReduce [1, 1] 0 pairRegion [TensorTy [4] (IntTy 32), TensorTy [4] (IntTy 32)] linalgDemo = (Inr vs, s') \<and>
    (\<forall>E. lval E s' (vs ! 1) [2] = wrap 32 (reduceSem E linalgDemo pairRegion 0 3 [1, 1] [2] ! 1))"
proof -
  have ty: "map (\<lambda>v. reducedTy (removeAt 0 [3, 4]) (elemTy (ltyOf linalgDemo v))) [1, 1] = [TensorTy [4] (IntTy 32), TensorTy [4] (IntTy 32)]"
    by (simp add: linalgDemo_one removeAt_def reducedTy_def)
  have "\<exists>vs s'. convertNormalReduce [1, 1] 0 pairRegion (map (\<lambda>v. reducedTy (removeAt 0 [3, 4]) (elemTy (ltyOf linalgDemo v))) [1, 1]) linalgDemo = (Inr vs, s') \<and>
    lext linalgDemo s' \<and> length vs = length [1, 1 :: val] \<and> (\<forall>i < length [1, 1 :: val].
      vs ! i < length s' \<and> ltyOf s' (vs ! i) = reducedTy (removeAt 0 [3, 4]) (elemTy (ltyOf linalgDemo ([1, 1] ! i))) \<and>
      (\<forall>E idx. swapsArgs E linalgDemo pairRegion (length [1, 1 :: val]) \<longrightarrow> inB (removeAt 0 [3, 4]) idx \<longrightarrow>
        lval E s' (vs ! i) idx = norm (elemTy (ltyOf linalgDemo ([1, 1] ! i))) (reduceSem E linalgDemo pairRegion 0 ([3, 4] ! 0) [1, 1] idx ! i)))"
    by (rule normal_reduce_correct) (simp_all add: linalgDemo_types linalgDemo_one pairRegion_def regionUses_def outerUses_def)
  then obtain vs s' where "convertNormalReduce [1, 1] 0 pairRegion [TensorTy [4] (IntTy 32), TensorTy [4] (IntTy 32)] linalgDemo = (Inr vs, s')"
    and v: "\<forall>i < length [1, 1 :: val]. \<forall>E idx. swapsArgs E linalgDemo pairRegion (length [1, 1 :: val]) \<longrightarrow> inB (removeAt 0 [3, 4]) idx \<longrightarrow>
        lval E s' (vs ! i) idx = norm (elemTy (ltyOf linalgDemo ([1, 1] ! i))) (reduceSem E linalgDemo pairRegion 0 ([3, 4] ! 0) [1, 1] idx ! i)"
    unfolding ty by blast
  moreover have "lval E s' (vs ! 1) [2] = wrap 32 (reduceSem E linalgDemo pairRegion 0 3 [1, 1] [2] ! 1)" for E
    using v [rule_format, of 1 E "[2]"] pairRegion_swaps [unfolded numeral_2_eq_2] by (simp add: removeAt_def inB_def linalgDemo_one norm_def)
  ultimately show ?thesis by blast
qed

section \<open>Limits of the conversions\<close>

text \<open>Not every element of a tensor is read and some constants are not neutral: of 2 and 2 the conjunction is 0.\<close>

definition twoElements :: "ty \<Rightarrow> ltable" where
  "twoElements e = [(LInput 0, TensorTy [2] e), (LMakeRange 0 2, TensorTy [2] (IntTy 32))]"

lemma smallNumbers: "[0..1] = [0, 1 :: int]" "wrap 32 0 = 0" "wrap 32 1 = 1" "wrap 32 2 = 2" "wrap 32 (-1) = -1"
  by code_simp+

theorem andi_reduction_from_one:
  "case convertReduce (\<lambda>_. False) [0] 0 (reduceRegion SAndI (IntTy 32)) (IntTy 32) (twoElements (IntTy 32)) of
     (Inr v, s') \<Rightarrow> lval (constEnv 2) s' v [] = 0 \<and>
       reduceSem (constEnv 2) (twoElements (IntTy 32)) (reduceRegion SAndI (IntTy 32)) 0 2 [0] [] = [2]
   | _ \<Rightarrow> False"
  by (simp add: convertReduce_def convertToLinalgReduce_def reduceRegion_def twoElements_def bindM_def thenM_def getM_def lcreate_def ltyOf_def entry_def atM_def
    assertM_def requireM_def castM_def ret_def isReductionOpSupported_def getRedBaseConstOp_def requiresF32Conversion_def getRedElement_def reduceSem_def insertAt_def
    lval_def lvalues_def lopSem_def regionSem_def sopSem_def constSem_def constEnv_def zeroOps_def Let_def smallNumbers)

theorem argmax_of_neg_infinities:
  "case convertArgMinMax argMax [0, 1] 0 argMaxRegion [FloatTy 32, IntTy 32] (twoElements (FloatTy 32)) of
     (Inr [v, i], s') \<Rightarrow> lval (constEnv (-1000)) s' v [] = -1000 \<and> lval (constEnv (-1000)) s' i [] = -1
   | _ \<Rightarrow> False"
proof -
  let ?loop = "LFor 0 2 [2, 3] (argLoopBody argMax 0 (FloatTy 32) (IntTy 32))"
  let ?t = "twoElements (FloatTy 32) @ [(LConst (FConst FNegInf), FloatTy 32), (LConst (IConst (-1)), IntTy 32),
    (?loop 0, FloatTy 32), (?loop 1, IntTy 32)]"
  have run: "convertArgMinMax argMax [0, 1] 0 argMaxRegion [FloatTy 32, IntTy 32] (twoElements (FloatTy 32)) = (Inr [4, 5], ?t)"
    by code_simp
  have "lval (constEnv (-1000)) ?t 4 [] = -1000 \<and> lval (constEnv (-1000)) ?t 5 [] = -1"
    by (simp add: twoElements_def lval_def lvalues_def lopSem_def regionSem_loop argStep_def constSem_def argMax_def norm_def
      constEnv_def zeroOps_def Let_def smallNumbers)
  then show ?thesis unfolding run by simp
qed

definition selectGe :: ltable where
  "selectGe = [(LInput 0, IntTy 32), (LInput 1, IntTy 32), (LElementwise (SCmpI Sge) [0, 1], IntTy 1), (LElementwise SSelect [2, 0, 1], IntTy 32)]"

theorem minmax_aborts_on_sge:
  "fst (convertMinMax [3] 2 selectGe) = Inl Abort"
  by code_simp

theorem same_shape_broadcast_aborts:
  "fst (convertBroadcast 1 (TensorTy [3, 4] (IntTy 32)) linalgDemo) = Inl Abort"
  by code_simp

end
