(* ===== verification/Loop_Carry.thy ===== *)
theory Loop_Carry
  imports Linalg
begin

text \<open>
  \<open>lib/Conversion/TritonToLinalgExperimental/LoopPtrCarryToOffsetPass.cpp\<close>: a loop that carries a pointer
  carries an offset instead, and a conditional that yields a pointer becomes a select.
\<close>

section \<open>Loops and conditionals\<close>

text \<open>
  The scalar operations the pass looks at; \<open>WOther\<close> is any other operation, which may read and write
  memory.  As in \<open>Linalg\<close> an operation goes with the type of its result, a comparison with the type of
  its operands.
\<close>

datatype wop = WCmpI pred | WSelect | WConst int | WAddPtr | WAddI | WOther nat

type_synonym wregion = "(wop \<times> ty) region"

text \<open>
  \<open>scf.while\<close>.  The block \<open>before\<close> returns the condition and the values it forwards; \<open>wtypes\<close> are the types of
  the iteration arguments, which are those of the results wherever \<open>before\<close> forwards its arguments.
\<close>

record while_op =
  inits :: "val list"
  wtypes :: "ty list"
  before :: wregion
  after :: wregion

text \<open>An operation with several results has an entry for each of them, with the number of the result last.\<close>

datatype outer_op =
    OInput nat
  | OCompute wop "val list"
  | OWhile while_op nat
  | OIf val wregion wregion nat

type_synonym otable = "(outer_op \<times> ty) list"

type_synonym 'a om = "(otable, 'a) run"

definition ocreate :: "outer_op \<Rightarrow> ty \<Rightarrow> val om" where
  "ocreate opn t = (\<lambda>s. (Inr (length s), s @ [(opn, t)]))"

definition resultTy :: "wop \<times> ty \<Rightarrow> ty" where
  "resultTy ft = (case fst ft of WCmpI _ \<Rightarrow> IntTy 1 | _ \<Rightarrow> snd ft)"

definition otyOf :: "otable \<Rightarrow> val \<Rightarrow> ty" where
  "otyOf s v = (case entry (OInput 0, NoneTy) s v of (OCompute f _, t) \<Rightarrow> resultTy (f, t) | (_, t) \<Rightarrow> t)"

section \<open>Meaning\<close>

record 'm loop_env =
  inputVals :: "nat \<Rightarrow> int"
  otherSem :: "nat \<Rightarrow> ty \<Rightarrow> int list \<Rightarrow> 'm \<Rightarrow> int \<times> 'm"

definition wopSem :: "'m loop_env \<Rightarrow> wop \<Rightarrow> ty \<Rightarrow> int list \<Rightarrow> 'm \<Rightarrow> int \<times> 'm" where
  "wopSem E f t xs m = (case f of
     WCmpI p \<Rightarrow> (bool1 (cmpPred p (width t) (xs ! 0) (xs ! 1)), m)
   | WSelect \<Rightarrow> (if xs ! 0 \<noteq> 0 then xs ! 1 else xs ! 2, m)
   | WConst c \<Rightarrow> (norm t c, m)
   | WAddPtr \<Rightarrow> (wrap 64 (xs ! 0 + xs ! 1 * byteSize (pointee t)), m)
   | WAddI \<Rightarrow> (wrap (width t) (xs ! 0 + xs ! 1), m)
   | WOther n \<Rightarrow> otherSem E n t xs m)"

definition wargSem :: "(val \<Rightarrow> int) \<Rightarrow> int list \<Rightarrow> int list \<Rightarrow> operand \<Rightarrow> int" where
  "wargSem look args res y = (case y of BArg i \<Rightarrow> args ! i | BRes i \<Rightarrow> res ! i | Outer v \<Rightarrow> look v)"

definition wbodySem :: "'m loop_env \<Rightarrow> (val \<Rightarrow> int) \<Rightarrow> int list \<Rightarrow> ((wop \<times> ty) \<times> operand list) list \<Rightarrow> int list \<times> 'm \<Rightarrow> int list \<times> 'm" where
  "wbodySem E look args body st = foldl (\<lambda>(res, m) ((f, t), ys).
     case wopSem E f t (map (wargSem look args res) ys) m of (x, m) \<Rightarrow> (res @ [x], m)) st body"

definition wregionSem :: "'m loop_env \<Rightarrow> (val \<Rightarrow> int) \<Rightarrow> wregion \<Rightarrow> int list \<times> 'm \<Rightarrow> int list \<times> 'm" where
  "wregionSem E look r = (\<lambda>(args, m). case wbodySem E look args (regionBody r) ([], m) of (res, m) \<Rightarrow>
     (map (wargSem look args res) (regionReturns r), m))"

text \<open>One round of a loop: it ends with its results, or goes on with new arguments.\<close>

definition whileStep :: "'m loop_env \<Rightarrow> (val \<Rightarrow> int) \<Rightarrow> while_op \<Rightarrow> int list \<times> 'm \<Rightarrow> int list \<times> 'm + int list \<times> 'm" where
  "whileStep E look W st = (case wregionSem E look (before W) st of (xs, m) \<Rightarrow>
     if hd xs \<noteq> 0 then Inr (wregionSem E look (after W) (tl xs, m)) else Inl (tl xs, m))"

partial_function (option) runLoop :: "('s \<Rightarrow> 'r + 's) \<Rightarrow> 's \<Rightarrow> 'r option" where
  "runLoop step s = (case step s of Inl r \<Rightarrow> Some r | Inr s' \<Rightarrow> runLoop step s')"

declare runLoop.simps [code]

text \<open>The state of a run: the values so far, the results of the last operation with several, and the memory.\<close>

fun execOne :: "'m loop_env \<Rightarrow> int list \<times> int list \<times> 'm \<Rightarrow> outer_op \<times> ty \<Rightarrow> (int list \<times> int list \<times> 'm) option" where
  "execOne E (vals, rs, m) (opn, t) = (case opn of
     OInput k \<Rightarrow> Some (vals @ [norm t (inputVals E k)], rs, m)
   | OCompute f xs \<Rightarrow> (case wopSem E f t (map ((!) vals) xs) m of (x, m) \<Rightarrow> Some (vals @ [x], rs, m))
   | OWhile W i \<Rightarrow>
       if i = 0 then map_option (\<lambda>(rs, m). (vals @ [rs ! 0], rs, m)) (runLoop (whileStep E ((!) vals) W) (map ((!) vals) (inits W), m))
       else Some (vals @ [rs ! i], rs, m)
   | OIf c th el i \<Rightarrow>
       if i = 0 then (case wregionSem E ((!) vals) (if vals ! c \<noteq> 0 then th else el) ([], m) of (rs, m) \<Rightarrow> Some (vals @ [rs ! 0], rs, m))
       else Some (vals @ [rs ! i], rs, m))"

primrec execAll :: "'m loop_env \<Rightarrow> otable \<Rightarrow> int list \<times> int list \<times> 'm \<Rightarrow> (int list \<times> int list \<times> 'm) option" where
  "execAll E [] st = Some st"
| "execAll E (x # xs) st = Option.bind (execOne E st x) (execAll E xs)"

section \<open>The loop pattern\<close>

definition isScalarPtrType :: "ty \<Rightarrow> bool" where
  "isScalarPtrType t = isPtrTy t"

text \<open>A value of a region is defined outside of it unless it is an argument or a result in it.\<close>

definition isDefinedOutsideOf :: "operand \<Rightarrow> bool" where
  "isDefinedOutsideOf y = (case y of Outer _ \<Rightarrow> True | _ \<Rightarrow> False)"

definition operandTy :: "otable \<Rightarrow> while_op \<Rightarrow> operand \<Rightarrow> ty" where
  "operandTy s W y = (case y of
     BArg i \<Rightarrow> wtypes W ! i | BRes i \<Rightarrow> resultTy (fst (regionBody (after W) ! i)) | Outer v \<Rightarrow> otyOf s v)"

definition inferForwardedOffsetType :: "otable \<Rightarrow> while_op \<Rightarrow> nat \<Rightarrow> ty" where
  "inferForwardedOffsetType s W i =
     (case filter (\<lambda>((f, t), ys). f = WAddPtr \<and> ys ! 0 = BArg i \<and> \<not> isShaped (operandTy s W (ys ! 1))) (regionBody (after W)) of
        [] \<Rightarrow> IntTy 32
      | (ft, ys) # _ \<Rightarrow> operandTy s W (ys ! 1))"

record rewrite_info =
  stride :: "val option"
  offsetType :: ty

text \<open>How a carried pointer is updated; \<open>None\<close> is \<open>failure()\<close>.\<close>

definition rewriteInfo :: "otable \<Rightarrow> while_op \<Rightarrow> nat \<Rightarrow> rewrite_info option" where
  "rewriteInfo s W i = (let newYield = regionReturns (after W) ! i in
     if newYield = BArg i then Some \<lparr>stride = None, offsetType = inferForwardedOffsetType s W i\<rparr>
     else case newYield of
       BRes j \<Rightarrow> (case regionBody (after W) ! j of
           ((WAddPtr, _), ys) \<Rightarrow>
             if ys ! 0 = BArg i \<and> isDefinedOutsideOf (ys ! 1)
             then (case ys ! 1 of Outer v \<Rightarrow> Some \<lparr>stride = Some v, offsetType = otyOf s v\<rparr> | _ \<Rightarrow> None)
             else None
         | _ \<Rightarrow> None)
     | _ \<Rightarrow> None)"

definition ptrSlots :: "while_op \<Rightarrow> nat list" where
  "ptrSlots W = filter (\<lambda>i. isScalarPtrType (wtypes W ! i)) [0..<length (wtypes W)]"

text \<open>The head of the loop: at most a comparison, a condition that forwards the arguments, no pointer compared.\<close>

definition plainHead :: "while_op \<Rightarrow> bool" where
  "plainHead W \<longleftrightarrow>
     length (regionBody (before W)) \<le> 1 \<and> (\<forall>((f, t), ys) \<in> set (regionBody (before W)). case f of WCmpI _ \<Rightarrow> True | _ \<Rightarrow> False) \<and>
     tl (regionReturns (before W)) = map BArg [0..<length (wtypes W)]"

definition comparesPtr :: "while_op \<Rightarrow> bool" where
  "comparesPtr W \<longleftrightarrow> (\<exists>(ft, ys) \<in> set (regionBody (before W)). \<exists>i \<in> set (ptrSlots W). BArg i \<in> set ys)"

text \<open>Where the mapping sends an operand of the old body: the rebuilt pointers come first in the new one.\<close>

definition mapOperand :: "nat list \<Rightarrow> operand \<Rightarrow> operand" where
  "mapOperand slots y = (case y of
     BArg i \<Rightarrow> if i \<in> set slots then BRes (length (takeWhile (\<lambda>j. j \<noteq> i) slots)) else BArg i
   | BRes j \<Rightarrow> BRes (length slots + j)
   | Outer v \<Rightarrow> Outer v)"

definition newBefore :: "while_op \<Rightarrow> wregion" where
  "newBefore W =
     \<lparr>regionBody = (if regionBody (before W) = [] then [((WConst 1, IntTy 1), [])] else regionBody (before W)),
      regionReturns = BRes 0 # map BArg [0..<length (wtypes W)]\<rparr>"

text \<open>The yields of the new body, with the additions that compute the new offsets.\<close>

definition newYields :: "while_op \<Rightarrow> (nat \<Rightarrow> rewrite_info) \<Rightarrow> ((wop \<times> ty) \<times> operand list) list \<times> operand list" where
  "newYields W info = (let slots = ptrSlots W; old = length slots + length (regionBody (after W)) in
     foldl (\<lambda>(adds, ys) i.
         if i \<notin> set slots then (adds, ys @ [mapOperand slots (regionReturns (after W) ! i)])
         else case stride (info i) of
           Some v \<Rightarrow> (adds @ [((WAddI, offsetType (info i)), [BArg i, Outer v])], ys @ [BRes (old + length adds)])
         | None \<Rightarrow> (adds, ys @ [BArg i]))
       ([], []) [0..<length (wtypes W)])"

definition newAfter :: "while_op \<Rightarrow> (nat \<Rightarrow> rewrite_info) \<Rightarrow> wregion" where
  "newAfter W info = (let slots = ptrSlots W; (adds, ys) = newYields W info in
     \<lparr>regionBody = map (\<lambda>i. ((WAddPtr, wtypes W ! i), [Outer (inits W ! i), BArg i])) slots @
        map (\<lambda>(ft, xs). (ft, map (mapOperand slots) xs)) (regionBody (after W)) @ adds,
      regionReturns = ys\<rparr>)"

definition convertWhile :: "while_op \<Rightarrow> val list om" where
  "convertWhile W =
     thenM (requireM (plainHead W))
     (bindM (getM (\<lambda>s. rewriteInfo s W)) (\<lambda>info. let slots = ptrSlots W; n = length (wtypes W) in
     thenM (requireM (\<forall>i \<in> set slots. info i \<noteq> None))
     (thenM (requireM (slots \<noteq> []))
     (thenM (requireM (\<not> comparesPtr W))
     (let info = (\<lambda>i. the (info i)); types = map (\<lambda>i. if i \<in> set slots then offsetType (info i) else wtypes W ! i) [0..<n] in
     bindM (mapM (\<lambda>i. if i \<in> set slots then ocreate (OCompute (WConst 0) []) (types ! i) else ret (inits W ! i)) [0..<n]) (\<lambda>newInits.
     let newWhile = \<lparr>inits = newInits, wtypes = types, before = newBefore W, after = newAfter W info\<rparr> in
     bindM (mapM (\<lambda>i. ocreate (OWhile newWhile i) (types ! i)) [0..<n]) (\<lambda>results.
     mapM (\<lambda>i. if i \<in> set slots then ocreate (OCompute WAddPtr [inits W ! i, results ! i]) (wtypes W ! i) else ret (results ! i)) [0..<n])))))))"

section \<open>The conditional pattern\<close>

definition mergesPointer :: "ty list \<Rightarrow> bool" where
  "mergesPointer ts \<longleftrightarrow> (\<exists>t \<in> set ts. isPtrTy t \<or> isShaped t \<and> isPtrTy (elemTy t))"

definition speculatable :: "wop \<Rightarrow> bool" where
  "speculatable f \<longleftrightarrow> (case f of WCmpI _ \<Rightarrow> True | WSelect \<Rightarrow> True | WConst _ \<Rightarrow> True | _ \<Rightarrow> False)"

fun cloned :: "val list \<Rightarrow> operand \<Rightarrow> val" where
  "cloned vs (BRes j) = vs ! j"
| "cloned vs (Outer v) = v"
| "cloned vs (BArg i) = 0" \<comment> \<open>the blocks have no arguments\<close>

definition convertIf :: "val \<Rightarrow> wregion \<Rightarrow> wregion \<Rightarrow> ty list \<Rightarrow> val list om" where
  "convertIf c th el types =
     thenM (requireM (types \<noteq> [] \<and> mergesPointer types))
     (thenM (requireM (regionBody th = [] \<and> (\<forall>y \<in> set (regionReturns th). isDefinedOutsideOf y)))
     (thenM (requireM (\<forall>((f, t), ys) \<in> set (regionBody el). speculatable f))
     (bindM (foldM (\<lambda>vs ((f, t), ys). bindM (ocreate (OCompute f (map (cloned vs) ys)) t) (\<lambda>v. ret (vs @ [v]))) [] (regionBody el)) (\<lambda>vs.
      mapM (\<lambda>i. ocreate (OCompute WSelect [c, cloned [] (regionReturns th ! i), cloned vs (regionReturns el ! i)]) (types ! i)) [0..<length types]))))"

end
