(* ===== verification/Loop_Sound.thy ===== *)
theory Loop_Sound
  imports Loop_Carry
begin

text \<open>A loop that carries offsets goes through the same states as the loop that carries the pointers.\<close>

section \<open>Loops\<close>

text \<open>The state after \<open>k\<close> rounds, or the result of a round before.\<close>

primrec loopAfter :: "('s \<Rightarrow> 'r + 's) \<Rightarrow> 's \<Rightarrow> nat \<Rightarrow> 'r + 's" where
  "loopAfter step s 0 = Inr s"
| "loopAfter step s (Suc k) = (case loopAfter step s k of Inl r \<Rightarrow> Inl r | Inr s' \<Rightarrow> step s')"

lemma loopAfter_Suc: "step s = Inr s' \<Longrightarrow> loopAfter step s (Suc k) = loopAfter step s' k"
  by (induction k) simp_all

lemma loopAfter_done: "step s = Inl r \<Longrightarrow> loopAfter step s (Suc k) = Inl r"
  by (induction k) simp_all

lemma runLoop_after: "runLoop step s = Some r \<longleftrightarrow> (\<exists>k. loopAfter step s k = Inl r)"
proof
  assume ret: "runLoop step s = Some r"
  show "\<exists>k. loopAfter step s k = Inl r"
  proof (rule runLoop.raw_induct [where P = "\<lambda>step s r. \<exists>k. loopAfter step s k = Inl r", OF _ ret])
    fix run step s r
    assume IH: "\<And>step s r. run step s = Some r \<Longrightarrow> \<exists>k. loopAfter step s k = Inl r"
      and eq: "(case step s of Inl r \<Rightarrow> Some r | Inr s' \<Rightarrow> run step s') = Some r"
    show "\<exists>k. loopAfter step s k = Inl r"
    proof (cases "step s")
      case (Inl x)
      then show ?thesis using eq by (intro exI [of _ 1]) simp
    next
      case (Inr s')
      then obtain k where "loopAfter step s' k = Inl r" using IH eq by fastforce
      then show ?thesis using loopAfter_Suc [of step s s' k] Inr by (intro exI [of _ "Suc k"]) simp
    qed
  qed
next
  assume "\<exists>k. loopAfter step s k = Inl r"
  then obtain k where "loopAfter step s k = Inl r" ..
  then show "runLoop step s = Some r"
  proof (induction k arbitrary: s)
    case (Suc k)
    show ?case
    proof (cases "step s")
      case (Inl x)
      then show ?thesis using Suc.prems loopAfter_done [of step s x k] by (simp add: runLoop.simps)
    next
      case (Inr s')
      then show ?thesis using Suc loopAfter_Suc [of step s s' k] by (simp add: runLoop.simps)
    qed
  qed simp
qed

text \<open>Two loops whose rounds correspond return together, or neither does.\<close>

lemma runLoop_simulation:
  assumes "\<And>k. rel_sum Q (R k) (loopAfter step s k) (loopAfter step' s' k)"
  shows "rel_option Q (runLoop step s) (runLoop step' s')"
proof (cases "runLoop step s")
  case None
  have "runLoop step' s' = None"
  proof (rule ccontr)
    assume "runLoop step' s' \<noteq> None"
    then obtain r where "runLoop step' s' = Some r" by auto
    then obtain k where "loopAfter step' s' k = Inl r" unfolding runLoop_after ..
    then obtain x where "loopAfter step s k = Inl x" using assms [of k] by (cases "loopAfter step s k") auto
    then show False using None runLoop_after [of step s x] by auto
  qed
  then show ?thesis using None by simp
next
  case (Some r)
  then obtain k where k: "loopAfter step s k = Inl r" unfolding runLoop_after ..
  then obtain x where "loopAfter step' s' k = Inl x" "Q r x" using assms [of k] by (cases "loopAfter step' s' k") auto
  then show ?thesis using Some runLoop_after [of step' s' x] by auto
qed

lemma runLoop_forever: "P s \<Longrightarrow> (\<And>s. P s \<Longrightarrow> \<exists>s'. step s = Inr s' \<and> P s') \<Longrightarrow> runLoop step s = None"
proof (rule ccontr)
  assume P: "P s" and step: "\<And>s. P s \<Longrightarrow> \<exists>s'. step s = Inr s' \<and> P s'"
  have "\<exists>s'. loopAfter step s k = Inr s' \<and> P s'" for k
  proof (induction k)
    case (Suc k)
    then obtain s' where "loopAfter step s k = Inr s'" "P s'" by blast
    then show ?case using step [of s'] by auto
  qed (use P in simp)
  moreover assume "runLoop step s \<noteq> None"
  then obtain r where "runLoop step s = Some r" by auto
  then obtain k where "loopAfter step s k = Inl r" unfolding runLoop_after ..
  ultimately show False by (metis sum.distinct(1))
qed

section \<open>Bodies\<close>

lemma wbodySem_Nil [simp]: "wbodySem E look args [] st = st"
  by (simp add: wbodySem_def)

lemma wbodySem_append: "wbodySem E look args (xs @ ys) st = wbodySem E look args ys (wbodySem E look args xs st)"
  by (simp add: wbodySem_def)

lemma wbodySem_Cons: "wbodySem E look args (((f, t), ys) # xs) (res, m) =
    (case wopSem E f t (map (wargSem look args res) ys) m of (x, m) \<Rightarrow> wbodySem E look args xs (res @ [x], m))"
  by (simp add: wbodySem_def split: prod.split)

lemma wbodySem_length: "length (fst (wbodySem E look args xs st)) = length (fst st) + length xs"
proof (induction xs arbitrary: st)
  case (Cons x xs)
  obtain f t ys res m where x: "x = ((f, t), ys)" "st = (res, m)" by (metis surj_pair)
  show ?case by (simp add: x wbodySem_Cons Cons.IH split: prod.split)
qed simp

lemma wbodySem_grows: "\<exists>zs. fst (wbodySem E look args xs st) = fst st @ zs"
proof (induction xs arbitrary: st)
  case (Cons x xs)
  obtain f t ys res m where x: "x = ((f, t), ys)" "st = (res, m)" by (metis surj_pair)
  obtain y m' where y: "wopSem E f t (map (wargSem look args res) ys) m = (y, m')" by fastforce
  show ?case using Cons.IH [of "(res @ [y], m')"] by (auto simp: x wbodySem_Cons y)
qed simp

text \<open>Operations without effect that read nothing of the body.\<close>

definition pureOp :: "wop \<Rightarrow> bool" where
  "pureOp f \<longleftrightarrow> (\<forall>n. f \<noteq> WOther n)"

definition pureSem :: "wop \<Rightarrow> ty \<Rightarrow> int list \<Rightarrow> int" where
  "pureSem f t xs = fst (wopSem (\<lparr>inputVals = \<lambda>_. 0, otherSem = \<lambda>_ _ _ _. (0, ())\<rparr>) f t xs ())"

lemma wopSem_pure: "pureOp f \<Longrightarrow> wopSem E f t xs m = (pureSem f t xs, m)"
  by (cases f) (simp_all add: pureOp_def pureSem_def wopSem_def)

lemma wbodySem_pure:
  assumes "\<And>i. i \<in> set is \<Longrightarrow> pureOp (f i) \<and> (\<forall>y \<in> set (ys i). \<forall>j. y \<noteq> BRes j)"
  shows "wbodySem E look args (map (\<lambda>i. ((f i, t i), ys i)) is) (res, m) =
    (res @ map (\<lambda>i. pureSem (f i) (t i) (map (wargSem look args []) (ys i))) is, m)"
  using assms
proof (induction "is" arbitrary: res)
  case (Cons i "is")
  have "map (wargSem look args res) (ys i) = map (wargSem look args []) (ys i)"
    using Cons.prems by (auto simp: wargSem_def split: operand.split)
  moreover have "wbodySem E look args (map (\<lambda>i. ((f i, t i), ys i)) is) (r, m) =
      (r @ map (\<lambda>i. pureSem (f i) (t i) (map (wargSem look args []) (ys i))) is, m)" for r
    using Cons.prems by (intro Cons.IH) auto
  ultimately show ?case using Cons.prems by (simp add: wbodySem_Cons wopSem_pure del: map_eq_conv)
qed simp

lemma wbodySem_nth:
  assumes "j < length xs" "xs ! j = ((f, t), ys)" "pureOp f" "\<forall>y \<in> set ys. \<forall>j. y \<noteq> BRes j"
  shows "fst (wbodySem E look args xs ([], m)) ! j = pureSem f t (map (wargSem look args []) ys)"
proof -
  obtain res m' where a: "wbodySem E look args (take j xs) ([], m) = (res, m')" by fastforce
  have l: "length res = j" using wbodySem_length [of E look args "take j xs" "([], m)"] a assms(1) by simp
  have ys: "map (wargSem look args res) ys = map (wargSem look args []) ys" using assms(4) by (auto simp: wargSem_def split: operand.split)
  have "xs = take j xs @ ((f, t), ys) # drop (Suc j) xs" using id_take_nth_drop [OF assms(1)] assms(2) by simp
  then have "wbodySem E look args xs ([], m) = wbodySem E look args (drop (Suc j) xs) (res @ [pureSem f t (map (wargSem look args []) ys)], m')"
    using a by (metis wbodySem_append wbodySem_Cons wopSem_pure [OF assms(3)] ys case_prod_conv)
  then show ?thesis
    using wbodySem_grows [of E look args "drop (Suc j) xs" "(res @ [pureSem f t (map (wargSem look args []) ys)], m')"] l by (auto simp: nth_append)
qed

text \<open>The cloned body computes what the old body computes, after what was put in front of it.\<close>

lemma wbodySem_mapped:
  assumes "\<And>res y. y \<in> set (concat (map snd xs)) \<Longrightarrow> wargSem look args' (pre @ res) (g y) = wargSem look args res y"
  shows "wbodySem E look args' (map (\<lambda>(ft, ys). (ft, map g ys)) xs) (pre @ res, m) =
    (case wbodySem E look args xs (res, m) of (res, m) \<Rightarrow> (pre @ res, m))"
  using assms
proof (induction xs arbitrary: res m)
  case (Cons x xs)
  obtain f t ys where x: "x = ((f, t), ys)" by (metis surj_pair)
  have "map (wargSem look args' (pre @ res)) (map g ys) = map (wargSem look args res) ys" using Cons.prems x by simp
  moreover obtain y m' where "wopSem E f t (map (wargSem look args res) ys) m = (y, m')" by fastforce
  ultimately show ?case using Cons.IH [of "res @ [y]" m'] Cons.prems by (simp add: x wbodySem_Cons del: map_eq_conv map_map)
qed simp

end
