(* ===== verification/Loop_Main.thy ===== *)
theory Loop_Main
  imports Loop_Sound
begin

text \<open>The rounds of the new loop, and the code around it.\<close>

section \<open>Slots\<close>

lemma mem_ptrSlots: "i \<in> set (ptrSlots W) \<longleftrightarrow> i < length (wtypes W) \<and> isPtrTy (wtypes W ! i)"
  by (auto simp: ptrSlots_def isScalarPtrType_def)

lemma nth_takeWhile: "x \<in> set xs \<Longrightarrow> length (takeWhile (\<lambda>y. y \<noteq> x) xs) < length xs \<and> xs ! length (takeWhile (\<lambda>y. y \<noteq> x) xs) = x"
  by (induction xs) auto

lemma length_filter_upt: "P i \<Longrightarrow> i < n \<Longrightarrow> length (filter P [0..<i]) < length (filter P [0..<n]) \<and> filter P [0..<n] ! length (filter P [0..<i]) = i"
proof (induction n)
  case (Suc n)
  show ?case
  proof (cases "i = n")
    case False
    then show ?thesis using Suc by (auto simp: nth_append)
  qed (use Suc in \<open>simp add: nth_append\<close>)
qed simp

definition strided :: "while_op \<Rightarrow> (nat \<Rightarrow> rewrite_info) \<Rightarrow> nat \<Rightarrow> bool" where
  "strided W info i \<longleftrightarrow> i \<in> set (ptrSlots W) \<and> stride (info i) \<noteq> None"

lemma newYields_eq:
  "newYields W info =
     (map (\<lambda>i. ((WAddI, offsetType (info i)), [BArg i, Outer (the (stride (info i)))])) (filter (strided W info) [0..<length (wtypes W)]),
      map (\<lambda>i. if i \<notin> set (ptrSlots W) then mapOperand (ptrSlots W) (regionReturns (after W) ! i)
        else if strided W info i then BRes (length (ptrSlots W) + length (regionBody (after W)) + length (filter (strided W info) [0..<i]))
        else BArg i) [0..<length (wtypes W)])"
proof -
  have "foldl (\<lambda>(adds, ys) i.
         if i \<notin> set slots then (adds, ys @ [mapOperand slots (regionReturns (after W) ! i)])
         else case stride (info i) of
           Some v \<Rightarrow> (adds @ [((WAddI, offsetType (info i)), [BArg i, Outer v])], ys @ [BRes (old + length adds)])
         | None \<Rightarrow> (adds, ys @ [BArg i]))
       ([], []) [0..<n] =
     (map (\<lambda>i. ((WAddI, offsetType (info i)), [BArg i, Outer (the (stride (info i)))])) (filter (strided W info) [0..<n]),
      map (\<lambda>i. if i \<notin> set slots then mapOperand slots (regionReturns (after W) ! i)
        else if strided W info i then BRes (old + length (filter (strided W info) [0..<i])) else BArg i) [0..<n])"
    if "slots = ptrSlots W" for slots old n
  proof (induction n)
    case (Suc n)
    then show ?case using strided_def [of W info n] by (auto simp: that split: option.split)
  qed simp
  then show ?thesis by (simp add: newYields_def Let_def)
qed

section \<open>Well-formed loops\<close>

text \<open>
  What the verifiers promise of the loop at the end of the table \<open>s\<close>, and that its condition is the
  comparison of its head.
\<close>

definition whileOperandOk :: "otable \<Rightarrow> nat \<Rightarrow> operand \<Rightarrow> bool" where
  "whileOperandOk s n y = (case y of BArg i \<Rightarrow> i < n | BRes _ \<Rightarrow> True | Outer v \<Rightarrow> v < length s)"

definition whileOk :: "otable \<Rightarrow> while_op \<Rightarrow> bool" where
  "whileOk s W \<longleftrightarrow> (let n = length (wtypes W) in
     length (inits W) = n \<and> (\<forall>v \<in> set (inits W). v < length s) \<and> length (regionReturns (after W)) = n \<and>
     (\<exists>ft ys. regionBody (before W) = [(ft, ys)] \<and> length ys = 2 \<and> (\<forall>y \<in> set ys. whileOperandOk s n y \<and> (\<forall>j. y \<noteq> BRes j))) \<and>
     (\<exists>ys. regionReturns (before W) = BRes 0 # ys) \<and>
     (\<forall>(ft, ys) \<in> set (regionBody (after W)). \<forall>y \<in> set ys. whileOperandOk s n y) \<and>
     (\<forall>y \<in> set (regionReturns (after W)). whileOperandOk s n y \<and> (\<forall>j. y = BRes j \<longrightarrow> j < length (regionBody (after W)))) \<and>
     (\<forall>i j t ys. i \<in> set (ptrSlots W) \<longrightarrow> regionReturns (after W) ! i = BRes j \<longrightarrow> regionBody (after W) ! j = ((WAddPtr, t), ys) \<longrightarrow>
       t = wtypes W ! i \<and> length ys = 2))"

lemma rewriteInfoD:
  assumes "rewriteInfo s W i = Some r" "i \<in> set (ptrSlots W)" "whileOk s W"
  shows "regionReturns (after W) ! i = BArg i \<and> stride r = None \<or>
    (\<exists>j v. regionReturns (after W) ! i = BRes j \<and> j < length (regionBody (after W)) \<and> v < length s \<and>
      regionBody (after W) ! j = ((WAddPtr, wtypes W ! i), [BArg i, Outer v]) \<and> stride r = Some v)"
proof (cases "regionReturns (after W) ! i = BArg i")
  case True
  then show ?thesis using assms(1) by (auto simp: rewriteInfo_def)
next
  case False
  then obtain j where j: "regionReturns (after W) ! i = BRes j" using assms(1) by (auto simp: rewriteInfo_def Let_def split: operand.splits)
  obtain f t ys where b: "regionBody (after W) ! j = ((f, t), ys)" by (metis surj_pair)
  have f: "f = WAddPtr" "ys ! 0 = BArg i" using assms(1) False j b by (auto simp: rewriteInfo_def Let_def split: wop.splits if_splits)
  obtain v where v: "ys ! 1 = Outer v" "stride r = Some v" using assms(1) False j b f
    by (auto simp: rewriteInfo_def Let_def isDefinedOutsideOf_def split: operand.splits if_splits)
  have i: "i < length (wtypes W)" using assms(2) by (simp add: mem_ptrSlots)
  then have mem: "BRes j \<in> set (regionReturns (after W))" using j assms(3) nth_mem [of i "regionReturns (after W)"] by (simp add: whileOk_def Let_def)
  then have l: "j < length (regionBody (after W))" using assms(3) by (auto simp: whileOk_def Let_def)
  have t: "t = wtypes W ! i" "length ys = 2" using assms(2,3) j b f by (simp_all add: whileOk_def Let_def)
  have ys: "ys = [BArg i, Outer v]" using t(2) f(2) v(1) by (auto simp: numeral_2_eq_2 length_Suc_conv)
  have "((f, t), ys) \<in> set (regionBody (after W))" using nth_mem [OF l] b by simp
  then have "whileOperandOk s (length (wtypes W)) (Outer v)" using assms(3) ys by (fastforce simp: whileOk_def Let_def)
  then show ?thesis using j l b f t ys v by (simp add: whileOperandOk_def)
qed

section \<open>One round\<close>

definition carried :: "while_op \<Rightarrow> (val \<Rightarrow> int) \<Rightarrow> int list \<Rightarrow> int list \<Rightarrow> bool" where
  "carried W look vs ns \<longleftrightarrow> length vs = length (wtypes W) \<and> length ns = length (wtypes W) \<and> (\<forall>i < length (wtypes W).
     vs ! i = (if i \<in> set (ptrSlots W) then wrap 64 (look (inits W ! i) + ns ! i * byteSize (pointee (wtypes W ! i))) else ns ! i))"

text \<open>The offset of round \<open>k\<close> is \<open>k\<close> strides, unless it is as wide as an address.\<close>

definition counted :: "while_op \<Rightarrow> (nat \<Rightarrow> rewrite_info) \<Rightarrow> (val \<Rightarrow> int) \<Rightarrow> nat \<Rightarrow> int list \<Rightarrow> bool" where
  "counted W info look k ns \<longleftrightarrow> (\<forall>i \<in> set (ptrSlots W). \<forall>v. stride (info i) = Some v \<longrightarrow>
     width (offsetType (info i)) = 64 \<or> ns ! i = int k * look v)"

lemma before_corresponds:
  assumes "whileOk s W" "plainHead W" "\<not> comparesPtr W" "carried W look vs ns"
  shows "\<exists>x. wregionSem E look (before W) (vs, m) = (x # vs, m) \<and>
    wregionSem E look (newBefore W) (ns, m) = (x # ns, m)"
proof -
  let ?n = "length (wtypes W)"
  obtain f t ys where b: "regionBody (before W) = [((f, t), ys)]" "length ys = 2" and ok: "\<forall>y \<in> set ys. whileOperandOk s ?n y \<and> (\<forall>j. y \<noteq> BRes j)"
    using assms(1) by (auto simp: whileOk_def Let_def)
  obtain p where f: "f = WCmpI p" using assms(2) b by (auto simp: plainHead_def split: wop.splits)
  have ret: "regionReturns (before W) = BRes 0 # map BArg [0..<?n]" using assms(1,2) by (auto simp: whileOk_def plainHead_def Let_def)
  have l: "length vs = ?n" "length ns = ?n" using assms(4) by (simp_all add: carried_def)
  have "wargSem look vs [] y = wargSem look ns [] y" if "y \<in> set ys" for y
  proof (cases y)
    case (BArg i)
    then have "i < ?n" "i \<notin> set (ptrSlots W)" using that ok assms(3) b by (auto simp: whileOperandOk_def comparesPtr_def)
    then show ?thesis using assms(4) BArg by (simp add: carried_def wargSem_def)
  qed (use that ok in \<open>auto simp: wargSem_def\<close>)
  then have ys: "wargSem look vs [] (ys ! 0) = wargSem look ns [] (ys ! 0)" "wargSem look vs [] (ys ! Suc 0) = wargSem look ns [] (ys ! Suc 0)"
    using b(2) by simp_all
  have "map (wargSem look xs rs) (map BArg [0..<?n]) = xs" if "length xs = ?n" for xs rs
    using that by (intro nth_equalityI) (auto simp: wargSem_def)
  then show ?thesis
    using l by (simp add: wregionSem_def newBefore_def b ret wbodySem_Cons f wopSem_def ys b(2) wargSem_def [of _ _ _ "BRes _"] del: map_map map_eq_conv)
qed

lemma after_corresponds:
  assumes ok: "whileOk s W" and info: "\<forall>i \<in> set (ptrSlots W). rewriteInfo s W i = Some (info i)"
    and c: "carried W look vs ns" "counted W info look k ns"
    and fits: "\<And>i v. i \<in> set (ptrSlots W) \<Longrightarrow> stride (info i) = Some v \<Longrightarrow> width (offsetType (info i)) \<noteq> 64 \<Longrightarrow>
      wrap (width (offsetType (info i))) (int (Suc k) * look v) = int (Suc k) * look v"
  shows "\<exists>vs' ns' m'. wregionSem E look (after W) (vs, m) = (vs', m') \<and> wregionSem E look (newAfter W info) (ns, m) = (ns', m') \<and>
    carried W look vs' ns' \<and> counted W info look (Suc k) ns'"
proof -
  let ?n = "length (wtypes W)" and ?slots = "ptrSlots W" and ?body = "regionBody (after W)" and ?ret = "regionReturns (after W)"
  let ?S = "filter (strided W info) [0..<?n]"
  let ?pre = "map (\<lambda>i. wrap 64 (look (inits W ! i) + ns ! i * byteSize (pointee (wtypes W ! i)))) ?slots"
  let ?add = "\<lambda>i. wrap (width (offsetType (info i))) (ns ! i + look (the (stride (info i))))"
  obtain res m' where old: "wbodySem E look vs ?body ([], m) = (res, m')" by fastforce
  have lr: "length res = length ?body" using wbodySem_length [of E look vs ?body "([], m)"] old by simp
  have mapped: "wargSem look ns (?pre @ rs) (mapOperand ?slots y) = wargSem look vs rs y" if "whileOperandOk s ?n y" for y rs
  proof (cases y)
    case (BArg i)
    show ?thesis
    proof (cases "i \<in> set ?slots")
      case True
      then show ?thesis using nth_takeWhile [OF True] c(1) BArg that
        by (simp add: mapOperand_def wargSem_def nth_append carried_def whileOperandOk_def)
    next
      case False
      then show ?thesis using c(1) BArg that by (simp add: mapOperand_def wargSem_def carried_def whileOperandOk_def)
    qed
  qed (simp_all add: mapOperand_def wargSem_def nth_append)
  have ops: "whileOperandOk s ?n y" if "y \<in> set (concat (map snd ?body))" for y
    using that ok by (fastforce simp: whileOk_def Let_def)
  have new: "wbodySem E look ns (regionBody (newAfter W info)) ([], m) = (?pre @ res @ map ?add ?S, m')"
  proof -
    have 1: "wbodySem E look ns (map (\<lambda>i. ((WAddPtr, wtypes W ! i), [Outer (inits W ! i), BArg i])) ?slots) ([], m) = (?pre, m)"
      by (subst wbodySem_pure) (auto simp: pureOp_def pureSem_def wopSem_def wargSem_def)
    have 2: "wbodySem E look ns (map (\<lambda>(ft, ys). (ft, map (mapOperand ?slots) ys)) ?body) (?pre @ [], m) = (?pre @ res, m')"
      by (subst wbodySem_mapped [of ?body look ns ?pre "mapOperand ?slots" vs]) (use mapped ops old in auto)
    have 3: "wbodySem E look ns (map (\<lambda>i. ((WAddI, offsetType (info i)), [BArg i, Outer (the (stride (info i)))])) ?S) (rs, m') = (rs @ map ?add ?S, m')" for rs
      by (subst wbodySem_pure) (auto simp: pureOp_def pureSem_def wopSem_def wargSem_def)
    show ?thesis using 1 2 3 [of "?pre @ res"] by (simp add: newAfter_def newYields_eq wbodySem_append Let_def)
  qed
  let ?vs' = "map (wargSem look vs res) ?ret"
  let ?ns' = "map (wargSem look ns (?pre @ res @ map ?add ?S)) (regionReturns (newAfter W info))"
  have lret: "length ?ret = ?n" "length (regionReturns (newAfter W info)) = ?n"
    using ok by (simp_all add: whileOk_def newAfter_def newYields_eq Let_def)
  have free: "?ns' ! i = ?vs' ! i" if i: "i < ?n" "i \<notin> set ?slots" for i
  proof -
    have y: "whileOperandOk s ?n (?ret ! i)" "\<And>j. ?ret ! i = BRes j \<Longrightarrow> j < length ?body"
      using ok lret nth_mem [of i ?ret] i by (auto simp: whileOk_def Let_def)
    have "wargSem look vs (res @ map ?add ?S) (?ret ! i) = wargSem look vs res (?ret ! i)"
      using y(2) lr by (auto simp: wargSem_def nth_append split: operand.split)
    then show ?thesis using mapped [OF y(1), of "res @ map ?add ?S"] lret i by (simp add: newAfter_def newYields_eq Let_def)
  qed
  have slot: "?ns' ! i = (if strided W info i then ?add i else ns ! i)" if i: "i \<in> set ?slots" for i
  proof -
    have n: "i < ?n" using i by (simp add: mem_ptrSlots)
    show ?thesis
      using lret n i length_filter_upt [of "strided W info" i ?n] lr
      by (auto simp: newAfter_def newYields_eq Let_def wargSem_def nth_append)
  qed
  have round': "?vs' ! i = wrap 64 (look (inits W ! i) + ?ns' ! i * byteSize (pointee (wtypes W ! i)))"
    and count: "stride (info i) = Some v \<Longrightarrow> width (offsetType (info i)) = 64 \<or> ?ns' ! i = int (Suc k) * look v" if i: "i \<in> set ?slots" for i v
  proof -
    have n: "i < ?n" using i by (simp add: mem_ptrSlots)
    let ?b = "byteSize (pointee (wtypes W ! i))" and ?w = "width (offsetType (info i))"
    have vi: "vs ! i = wrap 64 (look (inits W ! i) + ns ! i * ?b)" using c(1) n i by (simp add: carried_def)
    show "?w = 64 \<or> ?ns' ! i = int (Suc k) * look v" if v: "stride (info i) = Some v"
    proof (cases "?w = 64")
      case False
      then have "ns ! i + look v = int (Suc k) * look v" using c(2) i v by (auto simp: counted_def algebra_simps)
      then show ?thesis using slot [OF i] i v fits [OF i v False] by (simp add: strided_def)
    qed simp
    show "?vs' ! i = wrap 64 (look (inits W ! i) + ?ns' ! i * ?b)"
    proof (cases "stride (info i)")
      case None
      then show ?thesis using rewriteInfoD [OF _ i ok] info i slot [OF i] vi lret n by (fastforce simp: strided_def wargSem_def)
    next
      case (Some v)
      obtain j where j: "?ret ! i = BRes j" "j < length ?body" "?body ! j = ((WAddPtr, wtypes W ! i), [BArg i, Outer v])"
        using rewriteInfoD [OF _ i ok] info i Some by fastforce
      have "res ! j = wrap 64 (vs ! i + look v * ?b)"
        using wbodySem_nth [OF j(2,3), of E look vs m] old by (simp add: pureOp_def pureSem_def wopSem_def wargSem_def)
      also have "\<dots> = wrap 64 (look (inits W ! i) + (ns ! i + look v) * ?b)"
        using wrap_add [of 64 "wrap 64 (look (inits W ! i) + ns ! i * ?b)" "look v * ?b"]
          wrap_add [of 64 "look (inits W ! i) + ns ! i * ?b" "look v * ?b"] by (simp add: vi algebra_simps)
      also have "\<dots> = wrap 64 (look (inits W ! i) + wrap ?w (ns ! i + look v) * ?b)"
      proof (cases "?w = 64")
        case True
        have "w64 (look (inits W ! i) + (ns ! i + look v) * ?b) = w64 (look (inits W ! i) + wrap ?w (ns ! i + look v) * ?b)"
          by (simp add: w64_ring True)
        then show ?thesis by (simp only: w64_inj_wrap)
      next
        case False
        then have "ns ! i + look v = int (Suc k) * look v" using c(2) i Some by (auto simp: counted_def algebra_simps)
        then show ?thesis using fits [OF i Some False] by simp
      qed
      finally show ?thesis using slot [OF i] j(1) lret n Some i by (simp add: strided_def wargSem_def)
    qed
  qed
  have "carried W look ?vs' ?ns'" using lret free round' by (simp add: carried_def del: nth_map)
  moreover have "counted W info look (Suc k) ?ns'" using count by (auto simp: counted_def)
  ultimately show ?thesis using old new by (auto simp: wregionSem_def)
qed

end
