(* ===== verification/Loop_Code.thy ===== *)
theory Loop_Code
  imports Loop_Main
begin

text \<open>All rounds of the new loop, and the code that the pattern emits around it.\<close>

section \<open>All rounds\<close>

text \<open>The multiples of a stride that the rounds reach fit into its type.\<close>

definition stridesFit :: "'m loop_env \<Rightarrow> (val \<Rightarrow> int) \<Rightarrow> while_op \<Rightarrow> (nat \<Rightarrow> rewrite_info) \<Rightarrow> int list \<times> 'm \<Rightarrow> bool" where
  "stridesFit E look W info st \<longleftrightarrow> (\<forall>i \<in> set (ptrSlots W). \<forall>v. stride (info i) = Some v \<longrightarrow> width (offsetType (info i)) \<noteq> 64 \<longrightarrow>
     (\<forall>k st'. loopAfter (whileStep E look W) st (Suc k) = Inr st' \<longrightarrow>
       wrap (width (offsetType (info i))) (int (Suc k) * look v) = int (Suc k) * look v))"

definition newLoop :: "while_op \<Rightarrow> (nat \<Rightarrow> rewrite_info) \<Rightarrow> val list \<Rightarrow> ty list \<Rightarrow> while_op" where
  "newLoop W info newInits types = \<lparr>inits = newInits, wtypes = types, before = newBefore W, after = newAfter W info\<rparr>"

lemma loop_corresponds:
  assumes ok: "whileOk s W" "plainHead W" "\<not> comparesPtr W" and info: "\<forall>i \<in> set (ptrSlots W). rewriteInfo s W i = Some (info i)"
    and start: "carried W look vs ns" "counted W info look 0 ns" and fit: "stridesFit E look W info (vs, m)"
  shows "rel_option (\<lambda>(vs, m) (ns, m'). m = m' \<and> carried W look vs ns) (runLoop (whileStep E look W) (vs, m))
    (runLoop (whileStep E look (newLoop W info newInits types)) (ns, m))"
proof (rule runLoop_simulation [where R = "\<lambda>k (vs, m) (ns, m'). m = m' \<and> carried W look vs ns \<and> counted W info look k ns"])
  fix k
  let ?old = "loopAfter (whileStep E look W) (vs, m)" and ?new = "loopAfter (whileStep E look (newLoop W info newInits types)) (ns, m)"
  show "rel_sum (\<lambda>(vs, m) (ns, m'). m = m' \<and> carried W look vs ns) (\<lambda>(vs, m) (ns, m'). m = m' \<and> carried W look vs ns \<and> counted W info look k ns) (?old k) (?new k)"
  proof (induction k)
    case (Suc k)
    show ?case
    proof (cases "?old k")
      case (Inl r)
      then show ?thesis using Suc by (cases "?new k") auto
    next
      case (Inr st)
      obtain vs1 m1 where st: "st = (vs1, m1)" by fastforce
      then obtain ns1 where new: "?new k = Inr (ns1, m1)" and c: "carried W look vs1 ns1" "counted W info look k ns1"
        using Suc Inr by (cases "?new k") auto
      obtain x where x: "wregionSem E look (before W) (vs1, m1) = (x # vs1, m1)" "wregionSem E look (newBefore W) (ns1, m1) = (x # ns1, m1)"
        using before_corresponds [OF ok c(1), of E m1] by blast
      show ?thesis
      proof (cases "x = 0")
        case True
        then have "whileStep E look W (vs1, m1) = Inl (vs1, m1)"
          "whileStep E look (newLoop W info newInits types) (ns1, m1) = Inl (ns1, m1)"
          using x by (simp_all add: whileStep_def newLoop_def)
        then show ?thesis using Inr new c by (simp add: st)
      next
        case False
        then have s: "whileStep E look W (vs1, m1) = Inr (wregionSem E look (after W) (vs1, m1))"
          "whileStep E look (newLoop W info newInits types) (ns1, m1) = Inr (wregionSem E look (newAfter W info) (ns1, m1))"
          using x by (simp_all add: whileStep_def newLoop_def)
        have "\<exists>vs' ns' m'. wregionSem E look (after W) (vs1, m1) = (vs', m') \<and> wregionSem E look (newAfter W info) (ns1, m1) = (ns', m') \<and>
            carried W look vs' ns' \<and> counted W info look (Suc k) ns'"
        proof (rule after_corresponds [OF ok(1) info c])
          fix i v assume i: "i \<in> set (ptrSlots W)" "stride (info i) = Some v" "width (offsetType (info i)) \<noteq> 64"
          have "?old (Suc k) = Inr (wregionSem E look (after W) (vs1, m1))" using Inr s by (simp add: st)
          then show "wrap (width (offsetType (info i))) (int (Suc k) * look v) = int (Suc k) * look v"
            using fit i unfolding stridesFit_def by blast
        qed
        then show ?thesis using Inr new s by (auto simp: st)
      qed
    qed
  qed (use start in simp)
qed

text \<open>A loop does not see values after those it uses.\<close>

lemma wregionSem_cong:
  assumes "\<And>v. Outer v \<in> set (concat (map snd (regionBody r))) \<union> set (regionReturns r) \<Longrightarrow> look v = look' v"
  shows "wregionSem E look r st = wregionSem E look' r st"
proof -
  obtain args m where st: "st = (args, m)" by fastforce
  have arg: "wargSem look args res y = wargSem look' args res y" if "y \<in> set (concat (map snd (regionBody r))) \<union> set (regionReturns r)" for y res
    using that assms by (cases y) (simp_all add: wargSem_def)
  have "wbodySem E look args (regionBody r) ([], m) = wbodySem E look' args (regionBody r) ([], m)"
    unfolding wbodySem_def
  proof (rule foldl_cong [OF refl refl], goal_cases)
    case (1 a x)
    obtain f t ys res m where x: "x = ((f, t), ys)" "a = (res, m)" by (metis surj_pair)
    have "map (wargSem look args res) ys = map (wargSem look' args res) ys"
      by (rule map_cong [OF refl], rule arg) (use 1 x in force)
    then show ?case by (simp add: x del: map_eq_conv)
  qed
  then show ?thesis using arg by (auto simp: wregionSem_def st split: prod.split)
qed

lemma whileOk_uses:
  assumes "whileOk s W" "Outer v \<in> set (concat (map snd (regionBody (after W)))) \<union> set (regionReturns (after W))"
  shows "v < length s"
proof -
  have "whileOperandOk s (length (wtypes W)) (Outer v)" using assms by (force simp: whileOk_def Let_def)
  then show ?thesis by (simp add: whileOperandOk_def)
qed

lemma whileOk_usesBefore:
  assumes "whileOk s W" "plainHead W" "Outer v \<in> set (concat (map snd (regionBody (before W)))) \<union> set (regionReturns (before W))"
  shows "v < length s"
proof -
  obtain ft ys where b: "regionBody (before W) = [(ft, ys)]" "\<forall>y \<in> set ys. whileOperandOk s (length (wtypes W)) y"
    using assms(1) by (auto simp: whileOk_def Let_def)
  have "Outer v \<notin> set (regionReturns (before W))" using assms(1,2) by (auto simp: whileOk_def plainHead_def Let_def)
  then have "whileOperandOk s (length (wtypes W)) (Outer v)" using assms(3) b by auto
  then show ?thesis by (simp add: whileOperandOk_def)
qed

lemma whileStep_cong:
  assumes "whileOk s W" "\<And>v. v < length s \<Longrightarrow> look v = look' v" "plainHead W"
  shows "whileStep E look W = whileStep E look' W"
proof -
  have "wregionSem E look (before W) = wregionSem E look' (before W)"
    by (rule ext, rule wregionSem_cong) (use assms(2) whileOk_usesBefore [OF assms(1,3)] in blast)
  moreover have "wregionSem E look (after W) = wregionSem E look' (after W)"
    by (rule ext, rule wregionSem_cong) (use assms(2) whileOk_uses [OF assms(1)] in blast)
  ultimately show ?thesis by (simp only: whileStep_def [abs_def])
qed

section \<open>Tables\<close>

lemma execAll_append: "execAll E (xs @ ys) st = Option.bind (execAll E xs st) (execAll E ys)"
proof (induction xs arbitrary: st)
  case (Cons x xs)
  then show ?case by (cases "execOne E st x") simp_all
qed simp

lemma execAll_length: "execAll E xs st = Some st' \<Longrightarrow> length (fst st') = length (fst st) + length xs"
proof (induction xs arbitrary: st)
  case (Cons x xs)
  obtain vals rs m opn t where x: "st = (vals, rs, m)" "x = (opn, t)" by (metis surj_pair)
  obtain st1 where st1: "execOne E st x = Some st1" "execAll E xs st1 = Some st'" using Cons.prems by (auto simp: bind_eq_Some_conv)
  have "length (fst st1) = Suc (length vals)"
    using st1(1) by (auto simp: x split: outer_op.splits prod.splits if_splits)
  then show ?case using Cons.IH [OF st1(2)] x by simp
qed simp

lemma execAll_pure:
  assumes "\<And>i. i \<in> set is \<Longrightarrow> pureOp (f i) \<and> (\<forall>x \<in> set (xs i). x < length vals)"
  shows "execAll E (map (\<lambda>i. (OCompute (f i) (xs i), t i)) is) (vals, rs, m) =
    Some (vals @ map (\<lambda>i. pureSem (f i) (t i) (map ((!) vals) (xs i))) is, rs, m)"
proof -
  have "execAll E (map (\<lambda>i. (OCompute (f i) (xs i), t i)) js) (vals @ ys, rs, m) =
      Some (vals @ ys @ map (\<lambda>i. pureSem (f i) (t i) (map ((!) vals) (xs i))) js, rs, m)" if "set js \<subseteq> set is" for js ys
    using that
  proof (induction js arbitrary: ys)
    case (Cons i js)
    have "map ((!) (vals @ ys)) (xs i) = map ((!) vals) (xs i)" using assms [of i] Cons.prems by (auto simp: nth_append)
    then show ?case using assms [of i] Cons by (simp add: wopSem_pure del: map_eq_conv)
  qed simp
  from this [of "is" "[]"] show ?thesis by simp
qed

lemma execAll_while:
  assumes "0 < n"
  shows "execAll E (map (\<lambda>i. (OWhile W i, t i)) [0..<n]) (vals, rs, m) =
    map_option (\<lambda>(rs, m). (vals @ map ((!) rs) [0..<n], rs, m)) (runLoop (whileStep E ((!) vals) W) (map ((!) vals) (inits W), m))"
proof -
  have rest: "execAll E (map (\<lambda>i. (OWhile W i, t i)) js) (vals, rs, m) = Some (vals @ map ((!) rs) js, rs, m)" if "0 \<notin> set js" for js vals rs m
    using that by (induction js arbitrary: vals) auto
  have "[0..<n] = 0 # [1..<n]" using assms by (simp add: upt_conv_Cons)
  then show ?thesis by (cases "runLoop (whileStep E ((!) vals) W) (map ((!) vals) (inits W), m)") (auto simp: rest)
qed

lemma mapM_append: "mapM f (xs @ ys) = bindM (mapM f xs) (\<lambda>as. bindM (mapM f ys) (\<lambda>bs. ret (as @ bs)))"
  by (induction xs) (simp_all add: bindM_assoc bindM_ret_right)

lemma mapM_ocreate:
  "mapM (\<lambda>i. if P i then ocreate (f i) (t i) else ret (g i)) [0..<n] s =
    (Inr (map (\<lambda>i. if P i then length s + length (filter P [0..<i]) else g i) [0..<n]), s @ map (\<lambda>i. (f i, t i)) (filter P [0..<n]))"
proof (induction n)
  case (Suc n)
  then show ?case by (simp add: mapM_append bindM_def ret_def ocreate_def)
qed (simp add: ret_def)

section \<open>The pattern\<close>

definition whileEntries :: "while_op \<Rightarrow> otable" where
  "whileEntries W = map (\<lambda>i. (OWhile W i, wtypes W ! i)) [0..<length (wtypes W)]"

text \<open>
  What is needed of the state in front of the loop: pointers are addresses, and the offsets that the
  rounds reach fit into their types.
\<close>

definition carriable :: "'m loop_env \<Rightarrow> otable \<Rightarrow> while_op \<Rightarrow> 'm \<Rightarrow> bool" where
  "carriable E s W m0 \<longleftrightarrow> (\<forall>vals rs m. execAll E s ([], [], m0) = Some (vals, rs, m) \<longrightarrow>
     (\<forall>i \<in> set (ptrSlots W). wrap 64 (vals ! (inits W ! i)) = vals ! (inits W ! i)) \<and>
     stridesFit E ((!) vals) W (\<lambda>i. the (rewriteInfo s W i)) (map ((!) vals) (inits W), m))"

text \<open>
  The tables \<open>s @ old\<close> and \<open>new\<close> either both run forever or both return, with the same memory, the values
  of \<open>s\<close>, and the values \<open>vs\<close> of the second for the results of \<open>old\<close>.
\<close>

definition replacesOp :: "'m loop_env \<Rightarrow> 'm \<Rightarrow> otable \<Rightarrow> otable \<Rightarrow> val list \<Rightarrow> otable \<Rightarrow> bool" where
  "replacesOp E m0 s old vs new \<longleftrightarrow> rel_option (\<lambda>(vals, _, m) (vals', _, m'). m = m' \<and>
     take (length s) vals' = take (length s) vals \<and> map ((!) vals') vs = drop (length s) vals)
     (execAll E (s @ old) ([], [], m0)) (execAll E new ([], [], m0))"

lemma ptrSlots_filter: "filter (\<lambda>i. i \<in> set (ptrSlots W)) [0..<length (wtypes W)] = ptrSlots W"
  unfolding ptrSlots_def by (rule filter_cong) auto

text \<open>The code that the pattern emits after the table \<open>s\<close>.\<close>

definition zeroEntries :: "while_op \<Rightarrow> (nat \<Rightarrow> rewrite_info) \<Rightarrow> otable" where
  "zeroEntries W info = map (\<lambda>i. (OCompute (WConst 0) [], offsetType (info i))) (ptrSlots W)"

definition rebuildEntries :: "while_op \<Rightarrow> nat \<Rightarrow> otable" where
  "rebuildEntries W base = map (\<lambda>i. (OCompute WAddPtr [inits W ! i, base + i], wtypes W ! i)) (ptrSlots W)"

definition slotNo :: "while_op \<Rightarrow> nat \<Rightarrow> nat" where
  "slotNo W i = length (filter (\<lambda>j. j \<in> set (ptrSlots W)) [0..<i])"

lemma slotNo: "i \<in> set (ptrSlots W) \<Longrightarrow> slotNo W i < length (ptrSlots W) \<and> ptrSlots W ! slotNo W i = i"
  using length_filter_upt [of "\<lambda>j. j \<in> set (ptrSlots W)" i "length (wtypes W)", unfolded ptrSlots_filter]
  by (simp add: slotNo_def mem_ptrSlots [THEN iffD1])

definition newInits :: "while_op \<Rightarrow> nat \<Rightarrow> val list" where
  "newInits W base = map (\<lambda>i. if i \<in> set (ptrSlots W) then base + slotNo W i else inits W ! i) [0..<length (wtypes W)]"

definition newTypes :: "while_op \<Rightarrow> (nat \<Rightarrow> rewrite_info) \<Rightarrow> ty list" where
  "newTypes W info = map (\<lambda>i. if i \<in> set (ptrSlots W) then offsetType (info i) else wtypes W ! i) [0..<length (wtypes W)]"

definition loopCode :: "while_op \<Rightarrow> (nat \<Rightarrow> rewrite_info) \<Rightarrow> nat \<Rightarrow> otable" where
  "loopCode W info base = (let k = length (ptrSlots W); n = length (wtypes W) in
     zeroEntries W info @
     map (\<lambda>i. (OWhile (newLoop W info (newInits W base) (newTypes W info)) i, newTypes W info ! i)) [0..<n] @
     rebuildEntries W (base + k))"

definition loopResults :: "while_op \<Rightarrow> nat \<Rightarrow> val list" where
  "loopResults W base = map (\<lambda>i. if i \<in> set (ptrSlots W) then base + length (ptrSlots W) + length (wtypes W) + slotNo W i
     else base + length (ptrSlots W) + i) [0..<length (wtypes W)]"

lemma convertWhile_code:
  assumes "plainHead W" "ptrSlots W \<noteq> []" "\<not> comparesPtr W" "\<forall>i \<in> set (ptrSlots W). rewriteInfo s W i \<noteq> None"
    and "info = (\<lambda>i. the (rewriteInfo s W i))"
  shows "convertWhile W s = (Inr (loopResults W (length s)), s @ loopCode W info (length s))"
proof -
  let ?n = "length (wtypes W)" and ?slots = "ptrSlots W"
  let ?P = "\<lambda>i. i \<in> set ?slots"
  let ?W = "newLoop W info (newInits W (length s)) (newTypes W info)"
  have slots: "filter ?P [0..<?n] = ?slots" by (rule ptrSlots_filter)
  have ty: "newTypes W info ! i = offsetType (info i)" if "i \<in> set ?slots" for i using that by (simp add: newTypes_def mem_ptrSlots)
  have 1: "mapM (\<lambda>i. if ?P i then ocreate (OCompute (WConst 0) []) (newTypes W info ! i) else ret (inits W ! i)) [0..<?n] s =
      (Inr (newInits W (length s)), s @ zeroEntries W info)"
    by (simp add: mapM_ocreate slots newInits_def slotNo_def zeroEntries_def ty cong: map_cong)
  have 2: "mapM (\<lambda>i. ocreate (OWhile ?W i) (newTypes W info ! i)) [0..<?n] u =
      (Inr (map (\<lambda>i. length u + i) [0..<?n]), u @ map (\<lambda>i. (OWhile ?W i, newTypes W info ! i)) [0..<?n])" for u
    using mapM_ocreate [of "\<lambda>_. True" "OWhile ?W" "\<lambda>i. newTypes W info ! i" "\<lambda>_. 0" ?n u] by simp
  have 3: "mapM (\<lambda>i. if ?P i then ocreate (OCompute WAddPtr [inits W ! i, map (\<lambda>i. b + i) [0..<?n] ! i]) (wtypes W ! i) else ret (map (\<lambda>i. b + i) [0..<?n] ! i)) [0..<?n] u =
      (Inr (map (\<lambda>i. if ?P i then length u + slotNo W i else b + i) [0..<?n]), u @ rebuildEntries W b)" for u b
    unfolding mapM_ocreate slots rebuildEntries_def slotNo_def by (auto simp: mem_ptrSlots)
  have req: "\<forall>i \<in> set ?slots. \<exists>y. rewriteInfo s W i = Some y" using assms(4) by auto
  have "convertWhile W s =
     bindM (mapM (\<lambda>i. if ?P i then ocreate (OCompute (WConst 0) []) (newTypes W info ! i) else ret (inits W ! i)) [0..<?n]) (\<lambda>ni.
     bindM (mapM (\<lambda>i. ocreate (OWhile (newLoop W info ni (newTypes W info)) i) (newTypes W info ! i)) [0..<?n]) (\<lambda>results.
     mapM (\<lambda>i. if ?P i then ocreate (OCompute WAddPtr [inits W ! i, results ! i]) (wtypes W ! i) else ret (results ! i)) [0..<?n])) s"
    using assms(1-3) req by (simp add: convertWhile_def thenM_def requireM_def bindM_getM Let_def assms(5) newTypes_def newLoop_def cong: if_cong)
  moreover have "length (zeroEntries W info) = length ?slots" by (simp add: zeroEntries_def)
  ultimately show ?thesis
    using 1 2 [of "s @ zeroEntries W info"]
      3 [of "length s + length ?slots" "s @ zeroEntries W info @ map (\<lambda>i. (OWhile ?W i, newTypes W info ! i)) [0..<?n]"]
    by (simp add: bindM_def loopCode_def Let_def loopResults_def)
qed

text \<open>Otherwise the pattern fails before it has emitted anything.\<close>

lemma convertWhile_fails:
  assumes "\<not> (plainHead W \<and> ptrSlots W \<noteq> [] \<and> \<not> comparesPtr W \<and> (\<forall>i \<in> set (ptrSlots W). rewriteInfo s W i \<noteq> None))"
  shows "convertWhile W s = (Inl Failure, s)"
proof -
  have req: "thenM (requireM b) k s = (if b then k s else (Inl Failure, s))" for b k and s :: otable
    by (simp add: thenM_def requireM_def bindM_def ret_def raise_def)
  show ?thesis using assms by (auto simp: convertWhile_def req bindM_getM Let_def)
qed

lemma exec_loopCode:
  assumes "whileOk s W" "length vals = length s" "ptrSlots W \<noteq> []"
    and "zs = map (\<lambda>_. 0) (ptrSlots W)" "look = (!) (vals @ zs)"
  shows "execAll E (loopCode W info (length s)) (vals, rs, m) =
    map_option (\<lambda>(ns, m). (vals @ zs @ map ((!) ns) [0..<length (wtypes W)] @
        map (\<lambda>i. wrap 64 (look (inits W ! i) + ns ! i * byteSize (pointee (wtypes W ! i)))) (ptrSlots W), ns, m))
      (runLoop (whileStep E look (newLoop W info (newInits W (length s)) (newTypes W info))) (map look (newInits W (length s)), m))"
proof -
  let ?n = "length (wtypes W)" and ?slots = "ptrSlots W"
  let ?W = "newLoop W info (newInits W (length s)) (newTypes W info)"
  have n: "0 < ?n" using assms(3) by (cases "?n = 0") (auto simp: ptrSlots_def)
  have init: "inits W ! i < length s" if "i \<in> set ?slots" for i using assms(1) that by (simp add: whileOk_def Let_def mem_ptrSlots)
  have norm0: "norm t 0 = 0" for t by (simp add: norm_def)
  have 1: "execAll E (zeroEntries W info) (vals, rs, m) = Some (vals @ zs, rs, m)"
    unfolding zeroEntries_def by (subst execAll_pure) (simp_all add: pureOp_def pureSem_def wopSem_def norm0 assms(4))
  have 2: "execAll E (map (\<lambda>i. (OWhile ?W i, newTypes W info ! i)) [0..<?n]) (vals @ zs, rs, m) =
      map_option (\<lambda>(ns, m). (vals @ zs @ map ((!) ns) [0..<?n], ns, m)) (runLoop (whileStep E look ?W) (map look (newInits W (length s)), m))"
    using execAll_while [OF n, of E ?W "\<lambda>i. newTypes W info ! i" "vals @ zs" rs m] by (simp add: assms(5) newLoop_def)
  have 3: "execAll E (rebuildEntries W (length s + length ?slots)) (vals @ zs @ map ((!) ns) [0..<?n], ns, m) =
      Some ((vals @ zs @ map ((!) ns) [0..<?n]) @ map (\<lambda>i. wrap 64 (look (inits W ! i) + ns ! i * byteSize (pointee (wtypes W ! i)))) ?slots, ns, m)" for ns m
    unfolding rebuildEntries_def
  proof (subst execAll_pure)
    fix i assume "i \<in> set ?slots"
    then show "pureOp WAddPtr \<and> (\<forall>x \<in> set [inits W ! i, length s + length ?slots + i]. x < length (vals @ zs @ map ((!) ns) [0..<?n]))"
      using init [of i] assms(2,4) by (auto simp: pureOp_def mem_ptrSlots)
  next
    show "Some ((vals @ zs @ map ((!) ns) [0..<?n]) @ map (\<lambda>i. pureSem WAddPtr (wtypes W ! i)
          (map ((!) (vals @ zs @ map ((!) ns) [0..<?n])) [inits W ! i, length s + length ?slots + i])) ?slots, ns, m) =
        Some ((vals @ zs @ map ((!) ns) [0..<?n]) @ map (\<lambda>i. wrap 64 (look (inits W ! i) + ns ! i * byteSize (pointee (wtypes W ! i)))) ?slots, ns, m)"
      using init assms(2,4,5) by (auto simp: pureSem_def wopSem_def nth_append mem_ptrSlots)
  qed
  show ?thesis
    unfolding loopCode_def Let_def
    by (cases "runLoop (whileStep E look ?W) (map look (newInits W (length s)), m)") (auto simp: execAll_append 1 2 3)
qed

theorem wp_convertWhile:
  assumes ok: "whileOk s W" "plainHead W" "ptrSlots W \<noteq> []" "\<not> comparesPtr W" and info: "\<forall>i \<in> set (ptrSlots W). rewriteInfo s W i \<noteq> None"
  shows "\<exists>vs new. convertWhile W s = (Inr vs, s @ new) \<and> (\<forall>v \<in> set vs. v < length (s @ new)) \<and>
    (\<forall>(E :: 'm loop_env) m0. carriable E s W m0 \<longrightarrow> replacesOp E m0 s (whileEntries W) vs (s @ new))"
proof -
  let ?n = "length (wtypes W)" and ?slots = "ptrSlots W"
  let ?info = "\<lambda>i. the (rewriteInfo s W i)"
  let ?vs = "loopResults W (length s)"
  have li: "length (inits W) = ?n" using ok(1) by (simp add: whileOk_def Let_def)
  have n: "0 < ?n" using ok(3) by (cases "?n = 0") (auto simp: ptrSlots_def)
  have infoS: "\<forall>i \<in> set ?slots. rewriteInfo s W i = Some (?info i)" using info by auto
  have lc: "length (loopCode W ?info (length s)) = length ?slots + ?n + length ?slots"
    by (simp add: loopCode_def zeroEntries_def rebuildEntries_def Let_def)
  have "replacesOp E m0 s (whileEntries W) ?vs (s @ loopCode W ?info (length s))" if c: "carriable E s W m0" for E :: "'m loop_env" and m0
  proof (cases "execAll E s ([], [], m0)")
    case None
    then show ?thesis by (simp add: replacesOp_def execAll_append)
  next
    case (Some st)
    obtain vals rs m where st: "st = (vals, rs, m)" by (metis surj_pair)
    have lv: "length vals = length s" using execAll_length [OF Some] by (simp add: st)
    define zs where "zs = map (\<lambda>_. 0 :: int) ?slots"
    define look where "look = (!) (vals @ zs)"
    have look: "look v = vals ! v" if "v < length s" for v using that lv by (simp add: look_def nth_append)
    have init: "look (inits W ! i) = vals ! (inits W ! i)" if "i < ?n" for i
      using that ok(1) li by (intro look) (simp add: whileOk_def Let_def)
    have same: "whileStep E ((!) vals) W = whileStep E look W" by (rule whileStep_cong [OF ok(1) _ ok(2)]) (simp add: look)
    have start: "map look (inits W) = map ((!) vals) (inits W)" using ok(1) by (auto simp: whileOk_def Let_def look)
    let ?old = "runLoop (whileStep E look W) (map look (inits W), m)"
    let ?new = "runLoop (whileStep E look (newLoop W ?info (newInits W (length s)) (newTypes W ?info))) (map look (newInits W (length s)), m)"
    have zero: "look (newInits W (length s) ! i) = 0" if "i \<in> set ?slots" for i
      using slotNo [OF that] that lv by (simp add: newInits_def look_def zs_def nth_append mem_ptrSlots)
    have "carried W look (map look (inits W)) (map look (newInits W (length s)))"
    proof -
      have "map look (inits W) ! i = (if i \<in> set ?slots then wrap 64 (look (inits W ! i) + map look (newInits W (length s)) ! i * byteSize (pointee (wtypes W ! i)))
          else map look (newInits W (length s)) ! i)" if "i < ?n" for i
      proof (cases "i \<in> set ?slots")
        case True
        then have "wrap 64 (vals ! (inits W ! i)) = vals ! (inits W ! i)" using c Some unfolding carriable_def st by blast
        then show ?thesis using True zero [OF True] that li init [OF that] by (simp add: newInits_def)
      qed (use that li in \<open>simp add: newInits_def\<close>)
      moreover have "length (newInits W (length s)) = ?n" by (simp add: newInits_def)
      ultimately show ?thesis using li by (simp add: carried_def del: nth_map)
    qed
    moreover have "counted W ?info look 0 (map look (newInits W (length s)))"
      using zero by (simp add: counted_def newInits_def mem_ptrSlots)
    moreover have "stridesFit E look W ?info (map look (inits W), m)"
    proof -
      have "stridesFit E ((!) vals) W ?info (map ((!) vals) (inits W), m)" using c Some by (simp add: carriable_def st)
      moreover have "look v = vals ! v" if "i \<in> set ?slots" "stride (?info i) = Some v" for i v
        using rewriteInfoD [OF _ that(1) ok(1), of "?info i"] infoS that look by auto
      ultimately show ?thesis by (simp add: stridesFit_def same start)
    qed
    ultimately have "rel_option (\<lambda>(vs, m) (ns, m'). m = m' \<and> carried W look vs ns) ?old ?new"
      by (rule loop_corresponds [OF ok(1,2,4) infoS])
    moreover have "execAll E (s @ whileEntries W) ([], [], m0) = map_option (\<lambda>(rs, m). (vals @ map ((!) rs) [0..<?n], rs, m)) ?old"
      using Some execAll_while [OF n, of E W "\<lambda>i. wtypes W ! i" vals rs m] by (simp add: execAll_append st whileEntries_def same start)
    moreover have "execAll E (s @ loopCode W ?info (length s)) ([], [], m0) = map_option (\<lambda>(ns, m). (vals @ zs @ map ((!) ns) [0..<?n] @
        map (\<lambda>i. wrap 64 (look (inits W ! i) + ns ! i * byteSize (pointee (wtypes W ! i)))) ?slots, ns, m)) ?new"
      using Some exec_loopCode [OF ok(1) lv ok(3) zs_def look_def] by (simp add: execAll_append st)
    moreover have "map ((!) (vals @ zs @ map ((!) ns) [0..<?n] @
        map (\<lambda>i. wrap 64 (look (inits W ! i) + ns ! i * byteSize (pointee (wtypes W ! i)))) ?slots)) ?vs = map ((!) vs) [0..<?n]"
      if "carried W look vs ns" for vs ns
      using that slotNo lv by (intro nth_equalityI) (auto simp: carried_def nth_append zs_def loopResults_def)
    ultimately show ?thesis
      unfolding replacesOp_def using lv by (cases ?old; cases ?new) auto
  qed
  moreover have "\<forall>v \<in> set ?vs. v < length (s @ loopCode W ?info (length s))" using slotNo lc by (fastforce simp: loopResults_def)
  ultimately show ?thesis using convertWhile_code [OF ok(2,3,4) info refl] by blast
qed

end
