(* ===== verification/If_Main.thy ===== *)
theory If_Main
  imports Loop_Code
begin

text \<open>A conditional that only merges values and the selects that replace it.\<close>

section \<open>The cloned arm\<close>

text \<open>An arm of comparisons, selects and constants that reads values of the table and its own results before.\<close>

fun clonable :: "nat \<Rightarrow> nat \<Rightarrow> ((wop \<times> ty) \<times> operand list) list \<Rightarrow> bool" where
  "clonable base k [] = True"
| "clonable base k (((f, t), ys) # xs) =
     (speculatable f \<and> (\<forall>y \<in> set ys. case y of BArg _ \<Rightarrow> False | BRes j \<Rightarrow> j < k | Outer v \<Rightarrow> v < base) \<and> clonable base (Suc k) xs)"

definition cloneAll :: "val list \<Rightarrow> ((wop \<times> ty) \<times> operand list) list \<Rightarrow> val list om" where
  "cloneAll = foldM (\<lambda>vs ((f, t), ys). bindM (ocreate (OCompute f (map (cloned vs) ys)) t) (\<lambda>v. ret (vs @ [v])))"

lemma speculatable_pure: "speculatable f \<Longrightarrow> pureOp f"
  by (auto simp: speculatable_def pureOp_def)

lemma cloneAll_run:
  assumes "clonable base k xs" "length u = base + k"
  shows "\<exists>d. cloneAll [base..<base + k] xs u = (Inr [base..<base + k + length xs], u @ d) \<and> length d = length xs \<and>
    (\<forall>(E :: 'm loop_env) vals res rs m. length vals = base \<longrightarrow> length res = k \<longrightarrow>
      (\<exists>zs. wbodySem E ((!) vals) [] xs (res, m) = (zs, m) \<and> execAll E d (vals @ res, rs, m) = Some (vals @ zs, rs, m)))"
  using assms
proof (induction xs arbitrary: k u)
  case (Cons x xs)
  obtain f t ys where x: "x = ((f, t), ys)" by (metis surj_pair)
  let ?e = "(OCompute f (map (cloned [base..<base + k]) ys), t)"
  have c: "speculatable f" "clonable base (Suc k) xs"
    and ys: "\<And>y. y \<in> set ys \<Longrightarrow> case y of BArg _ \<Rightarrow> False | BRes j \<Rightarrow> j < k | Outer v \<Rightarrow> v < base" using Cons.prems(1) x by auto
  obtain d where d: "cloneAll [base..<base + Suc k] xs (u @ [?e]) = (Inr [base..<base + Suc k + length xs], (u @ [?e]) @ d)" "length d = length xs"
    and run: "\<And>(E :: 'm loop_env) vals res rs m. length vals = base \<Longrightarrow> length res = Suc k \<Longrightarrow>
      \<exists>zs. wbodySem E ((!) vals) [] xs (res, m) = (zs, m) \<and> execAll E d (vals @ res, rs, m) = Some (vals @ zs, rs, m)"
    using Cons.IH [OF c(2), of "u @ [?e]"] Cons.prems(2) by auto
  have "cloneAll [base..<base + k] (x # xs) u = (Inr [base..<base + k + length (x # xs)], u @ ?e # d)"
    using d(1) Cons.prems(2) by (simp add: cloneAll_def x bindM_def ret_def ocreate_def)
  moreover have "\<exists>zs. wbodySem E ((!) vals) [] (x # xs) (res, m) = (zs, m) \<and> execAll E (?e # d) (vals @ res, rs, m) = Some (vals @ zs, rs, m)"
    if l: "length vals = base" "length res = k" for E :: "'m loop_env" and vals res rs m
  proof -
    let ?y = "pureSem f t (map (wargSem ((!) vals) [] res) ys)"
    have "map ((!) (vals @ res)) (map (cloned [base..<base + k]) ys) = map (wargSem ((!) vals) [] res) ys"
    proof (rule nth_equalityI)
      fix i assume i: "i < length (map ((!) (vals @ res)) (map (cloned [base..<base + k]) ys))"
      then have "case ys ! i of BArg _ \<Rightarrow> False | BRes j \<Rightarrow> j < k | Outer v \<Rightarrow> v < base" using ys nth_mem by simp
      then show "map ((!) (vals @ res)) (map (cloned [base..<base + k]) ys) ! i = map (wargSem ((!) vals) [] res) ys ! i"
        using i l by (cases "ys ! i") (auto simp: wargSem_def nth_append)
    qed simp
    moreover obtain zs where "wbodySem E ((!) vals) [] xs (res @ [?y], m) = (zs, m)" "execAll E d (vals @ res @ [?y], rs, m) = Some (vals @ zs, rs, m)"
      using run [of vals "res @ [?y]" E m rs] l by auto
    ultimately show ?thesis by (simp add: x wbodySem_Cons wopSem_pure [OF speculatable_pure [OF c(1)]] del: map_map map_eq_conv)
  qed
  ultimately show ?case using d(2) by (intro exI [of _ "?e # d"]) simp
qed (simp add: cloneAll_def ret_def)

section \<open>The pattern\<close>

definition ifEntries :: "val \<Rightarrow> wregion \<Rightarrow> wregion \<Rightarrow> ty list \<Rightarrow> otable" where
  "ifEntries c th el types = map (\<lambda>i. (OIf c th el i, types ! i)) [0..<length types]"

text \<open>What the verifiers promise of the conditional, and the conditions of the pattern.\<close>

definition mergeOk :: "otable \<Rightarrow> val \<Rightarrow> wregion \<Rightarrow> wregion \<Rightarrow> ty list \<Rightarrow> bool" where
  "mergeOk s c th el types \<longleftrightarrow> c < length s \<and> mergesPointer types \<and> regionBody th = [] \<and>
     length (regionReturns th) = length types \<and> length (regionReturns el) = length types \<and>
     (\<forall>y \<in> set (regionReturns th). \<exists>v < length s. y = Outer v) \<and> clonable (length s) 0 (regionBody el) \<and>
     (\<forall>y \<in> set (regionReturns el). case y of BArg _ \<Rightarrow> False | BRes j \<Rightarrow> j < length (regionBody el) | Outer v \<Rightarrow> v < length s)"

lemma clonable_speculatable: "clonable base k xs \<Longrightarrow> \<forall>((f, t), ys) \<in> set xs. speculatable f"
  by (induction base k xs rule: clonable.induct) auto

lemma execAll_if:
  assumes "0 < n"
  shows "execAll E (map (\<lambda>i. (OIf c th el i, t i)) [0..<n]) (vals, rs, m) =
    (case wregionSem E ((!) vals) (if vals ! c \<noteq> 0 then th else el) ([], m) of (rs, m) \<Rightarrow> Some (vals @ map ((!) rs) [0..<n], rs, m))"
proof -
  have rest: "execAll E (map (\<lambda>i. (OIf c th el i, t i)) js) (vals, rs, m) = Some (vals @ map ((!) rs) js, rs, m)" if "0 \<notin> set js" for js vals rs m
    using that by (induction js arbitrary: vals) auto
  have "[0..<n] = 0 # [1..<n]" using assms by (simp add: upt_conv_Cons)
  then show ?thesis by (simp add: rest split: prod.split)
qed

theorem wp_convertIf:
  assumes "mergeOk s c th el types"
  shows "\<exists>vs new. convertIf c th el types s = (Inr vs, s @ new) \<and> (\<forall>v \<in> set vs. v < length (s @ new)) \<and>
    (\<forall>(E :: 'm loop_env) m0. replacesOp E m0 s (ifEntries c th el types) vs (s @ new))"
proof -
  let ?n = "length types" and ?b = "length s" and ?k = "length (regionBody el)"
  have ok: "c < ?b" "mergesPointer types" "regionBody th = []" "length (regionReturns th) = ?n" "length (regionReturns el) = ?n"
    "clonable ?b 0 (regionBody el)"
    and th: "\<And>y. y \<in> set (regionReturns th) \<Longrightarrow> \<exists>v < ?b. y = Outer v"
    and el: "\<And>y. y \<in> set (regionReturns el) \<Longrightarrow> case y of BArg _ \<Rightarrow> False | BRes j \<Rightarrow> j < ?k | Outer v \<Rightarrow> v < ?b"
    using assms by (simp_all add: mergeOk_def)
  have ne: "types \<noteq> []" "0 < ?n" using ok(2) by (auto simp: mergesPointer_def)
  obtain d where d: "cloneAll [] (regionBody el) s = (Inr [?b..<?b + ?k], s @ d)" "length d = ?k"
    and run: "\<And>(E :: 'm loop_env) vals rs m. length vals = ?b \<Longrightarrow>
      \<exists>zs. wbodySem E ((!) vals) [] (regionBody el) ([], m) = (zs, m) \<and> execAll E d (vals, rs, m) = Some (vals @ zs, rs, m)"
    using cloneAll_run [OF ok(6), of s, where 'm = 'm] by auto
  let ?a = "\<lambda>i. cloned [] (regionReturns th ! i)" and ?e = "\<lambda>i. cloned [?b..<?b + ?k] (regionReturns el ! i)"
  let ?sel = "map (\<lambda>i. (OCompute WSelect [c, ?a i, ?e i], types ! i)) [0..<?n]"
  let ?vs = "map (\<lambda>i. ?b + ?k + i) [0..<?n]"
  have conv: "convertIf c th el types s = (Inr ?vs, s @ d @ ?sel)"
  proof -
    have out: "\<forall>y \<in> set (regionReturns th). isDefinedOutsideOf y" using th by (fastforce simp: isDefinedOutsideOf_def)
    have "convertIf c th el types s =
        bindM (cloneAll [] (regionBody el)) (\<lambda>vs. mapM (\<lambda>i. ocreate (OCompute WSelect [c, ?a i, cloned vs (regionReturns el ! i)]) (types ! i)) [0..<?n]) s"
      using ok(2,3) ne(1) out clonable_speculatable [OF ok(6)] by (simp add: convertIf_def cloneAll_def thenM_def requireM_def)
    then show ?thesis
      using d mapM_ocreate [of "\<lambda>_. True" "\<lambda>i. OCompute WSelect [c, ?a i, ?e i]" "\<lambda>i. types ! i" "\<lambda>_. 0" ?n "s @ d"] by (simp add: bindM_def)
  qed
  have a: "?a i < ?b" "wargSem ((!) vals) [] [] (regionReturns th ! i) = vals ! ?a i" if "i < ?n" for i vals
    using th [of "regionReturns th ! i"] ok(4) that by (auto simp: wargSem_def)
  have e: "?e i < ?b + ?k" "wargSem ((!) vals) [] zs (regionReturns el ! i) = (vals @ zs) ! ?e i" if "i < ?n" "length vals = ?b" for i vals zs
    using el [of "regionReturns el ! i"] ok(5) that by (auto simp: wargSem_def nth_append split: operand.splits)
  have "replacesOp E m0 s (ifEntries c th el types) ?vs (s @ d @ ?sel)" for E :: "'m loop_env" and m0
  proof (cases "execAll E s ([], [], m0)")
    case None
    then show ?thesis by (simp add: replacesOp_def execAll_append)
  next
    case (Some st)
    obtain vals rs m where st: "st = (vals, rs, m)" by (metis surj_pair)
    have lv: "length vals = ?b" using execAll_length [OF Some] by (simp add: st)
    obtain zs where zs: "wbodySem E ((!) vals) [] (regionBody el) ([], m) = (zs, m)" "execAll E d (vals, rs, m) = Some (vals @ zs, rs, m)"
      using run [OF lv] by blast
    have lz: "length zs = ?k" using wbodySem_length [of E "(!) vals" "[]" "regionBody el" "([], m)"] zs(1) by simp
    let ?x = "\<lambda>i. if vals ! c \<noteq> 0 then vals ! ?a i else (vals @ zs) ! ?e i"
    have sel: "execAll E ?sel (vals @ zs, rs, m) = Some ((vals @ zs) @ map ?x [0..<?n], rs, m)"
    proof (subst execAll_pure)
      fix i assume "i \<in> set [0..<?n]"
      then show "pureOp WSelect \<and> (\<forall>x \<in> set [c, ?a i, ?e i]. x < length (vals @ zs))"
        using a(1) [of i] e(1) [of i vals] ok(1) lv lz by (auto simp: pureOp_def)
    next
      show "Some ((vals @ zs) @ map (\<lambda>i. pureSem WSelect (types ! i) (map ((!) (vals @ zs)) [c, ?a i, ?e i])) [0..<?n], rs, m) =
          Some ((vals @ zs) @ map ?x [0..<?n], rs, m)"
        using a(1) ok(1) lv by (auto simp: pureSem_def wopSem_def nth_append)
    qed
    obtain rs' where "execAll E (ifEntries c th el types) (vals, rs, m) = Some (vals @ map ?x [0..<?n], rs', m)"
    proof (cases "vals ! c \<noteq> 0")
      case True
      have "map ((!) (map (wargSem ((!) vals) [] []) (regionReturns th))) [0..<?n] = map ?x [0..<?n]"
        using True a(2) ok(4) by (intro nth_equalityI) simp_all
      then show ?thesis using that execAll_if [OF ne(2), of E c th el "\<lambda>i. types ! i" vals rs m] True ok(3)
        by (simp add: ifEntries_def wregionSem_def)
    next
      case False
      have "map ((!) (map (wargSem ((!) vals) [] zs) (regionReturns el))) [0..<?n] = map ?x [0..<?n]"
        using False e(2) [OF _ lv] ok(5) by (intro nth_equalityI) simp_all
      then show ?thesis using that execAll_if [OF ne(2), of E c th el "\<lambda>i. types ! i" vals rs m] False zs(1)
        by (simp add: ifEntries_def wregionSem_def)
    qed
    moreover have "map ((!) ((vals @ zs) @ map ?x [0..<?n])) ?vs = map ?x [0..<?n]"
      using lv lz by (intro nth_equalityI) (simp_all add: nth_append)
    ultimately show ?thesis using Some zs(2) sel lv by (simp add: replacesOp_def execAll_append st del: map_map map_eq_conv)
  qed
  moreover have "\<forall>v \<in> set ?vs. v < length (s @ d @ ?sel)" using d(2) by simp
  ultimately show ?thesis using conv by blast
qed

end
