(* ===== verification/Claims_Loop.thy ===== *)
theory Claims_Loop
  imports If_Main
begin

text \<open>The properties of the rewriting of loops and conditionals over pointers, with instances, and its limits.\<close>

section \<open>A loop over a buffer\<close>

text \<open>
  0: a pointer; 1: its stride; 2, 3: the bound and the step of the counter; 4: a condition.  The loop
  stores through the pointer (the operation \<open>WOther 0\<close>) and moves it by the stride.
\<close>

definition loopDemo :: "nat \<Rightarrow> otable" where
  "loopDemo w = [(OInput 0, PtrTy (IntTy 8)), (OInput 1, IntTy w), (OInput 2, IntTy 32), (OInput 3, IntTy 32), (OInput 4, IntTy 1)]"

definition storeLoop :: while_op where
  "storeLoop = \<lparr>inits = [0, 3], wtypes = [PtrTy (IntTy 8), IntTy 32],
     before = \<lparr>regionBody = [((WCmpI Slt, IntTy 32), [BArg 1, Outer 2])], regionReturns = [BRes 0, BArg 0, BArg 1]\<rparr>,
     after = \<lparr>regionBody = [((WOther 0, NoneTy), [BArg 0, BArg 1]), ((WAddPtr, PtrTy (IntTy 8)), [BArg 0, Outer 1]),
         ((WAddI, IntTy 32), [BArg 1, Outer 3])], regionReturns = [BRes 1, BRes 2]\<rparr>\<rparr>"

text \<open>The memory is the list of the addresses that were written.\<close>

definition storeEnv :: "(nat \<Rightarrow> int) \<Rightarrow> (int list) loop_env" where
  "storeEnv f = \<lparr>inputVals = f, otherSem = (\<lambda>_ _ xs m. (0, m @ [xs ! 0]))\<rparr>"

lemma storeLoop_parts: "inits storeLoop = [0, 3]" "wtypes storeLoop = [PtrTy (IntTy 8), IntTy 32]"
  "regionBody (before storeLoop) = [((WCmpI Slt, IntTy 32), [BArg 1, Outer 2])]" "regionReturns (before storeLoop) = [BRes 0, BArg 0, BArg 1]"
  "regionBody (after storeLoop) = [((WOther 0, NoneTy), [BArg 0, BArg 1]), ((WAddPtr, PtrTy (IntTy 8)), [BArg 0, Outer 1]), ((WAddI, IntTy 32), [BArg 1, Outer 3])]"
  "regionReturns (after storeLoop) = [BRes 1, BRes 2]"
  by (simp_all add: storeLoop_def)

lemma storeLoop_slots: "ptrSlots storeLoop = [0]"
  by (simp add: ptrSlots_def storeLoop_parts isScalarPtrType_def)

lemma storeLoop_ok: "whileOk (loopDemo w) storeLoop"
  by (simp add: whileOk_def storeLoop_slots storeLoop_parts whileOperandOk_def loopDemo_def)

lemma storeLoop_info: "rewriteInfo (loopDemo w) storeLoop 0 = Some \<lparr>stride = Some 1, offsetType = IntTy w\<rparr>"
  by (simp add: rewriteInfo_def storeLoop_parts isDefinedOutsideOf_def otyOf_def entry_def loopDemo_def)

lemma storeLoop_head: "plainHead storeLoop" "\<not> comparesPtr storeLoop"
  by (simp_all add: plainHead_def comparesPtr_def storeLoop_slots storeLoop_parts)

lemma storeLoop_carriable: "carriable (storeEnv f) (loopDemo 64) storeLoop m"
  by (simp add: carriable_def storeLoop_slots storeLoop_info storeLoop_parts stridesFit_def)
    (simp add: loopDemo_def storeEnv_def norm_def)

section \<open>Properties\<close>

text \<open>C38: a loop that carries pointers and moves them by strides from outside, with a comparison for its
  condition, becomes a loop that carries offsets: the one returns exactly when the other does, and then
  with the same memory, and the rebuilt pointers and the other results are those of the old loop,
  provided that the offsets fit into the type of the stride.\<close>

theorem loop_carry_correct:
  assumes "whileOk s W" and "plainHead W" and "ptrSlots W \<noteq> []" and "\<not> comparesPtr W"
    and "\<forall>i \<in> set (ptrSlots W). rewriteInfo s W i \<noteq> None" and "carriable (E :: 'm loop_env) s W m"
  shows "\<exists>vs new. convertWhile W s = (Inr vs, s @ new) \<and> (\<forall>v \<in> set vs. v < length (s @ new)) \<and>
    rel_option (\<lambda>(vals, _, m) (vals', _, m'). m = m' \<and> take (length s) vals' = take (length s) vals \<and>
        map ((!) vals') vs = drop (length s) vals)
      (execAll E (s @ whileEntries W) ([], [], m)) (execAll E (s @ new) ([], [], m))"
proof -
  obtain vs new where "convertWhile W s = (Inr vs, s @ new)" "\<forall>v \<in> set vs. v < length (s @ new)" "replacesOp E m s (whileEntries W) vs (s @ new)"
    using wp_convertWhile [OF assms(1-5), where 'm = 'm] assms(6) by blast
  then show ?thesis unfolding replacesOp_def by blast
qed

definition demoInputs :: "nat \<Rightarrow> int" where
  "demoInputs i = [1000, 100, 4, 1, 0] ! i"

lemma storeLoop_run: "case execAll (storeEnv demoInputs) (loopDemo 64 @ whileEntries storeLoop) ([], [], []) of
    Some (vals, rs, m) \<Rightarrow> m = [1000, 1100, 1200] | None \<Rightarrow> False"
  by code_simp

text \<open>The rewritten loop writes to the addresses 1000, 1100 and 1200 and returns.\<close>

theorem loop_carry_correct_witness:
  "\<exists>vs t vals rs. convertWhile storeLoop (loopDemo 64) = (Inr vs, t) \<and>
    execAll (storeEnv demoInputs) t ([], [], []) = Some (vals, rs, [1000, 1100, 1200])"
proof -
  let ?E = "storeEnv demoInputs"
  have "\<exists>vs new. convertWhile storeLoop (loopDemo 64) = (Inr vs, loopDemo 64 @ new) \<and> (\<forall>v \<in> set vs. v < length (loopDemo 64 @ new)) \<and>
    rel_option (\<lambda>(vals, _, m) (vals', _, m'). m = m' \<and> take (length (loopDemo 64)) vals' = take (length (loopDemo 64)) vals \<and>
        map ((!) vals') vs = drop (length (loopDemo 64)) vals)
      (execAll ?E (loopDemo 64 @ whileEntries storeLoop) ([], [], [])) (execAll ?E (loopDemo 64 @ new) ([], [], []))"
    by (rule loop_carry_correct [OF storeLoop_ok storeLoop_head(1) _ storeLoop_head(2)])
      (simp_all add: storeLoop_slots storeLoop_info storeLoop_carriable)
  then show ?thesis using storeLoop_run by (auto split: option.splits simp: option_rel_Some1)
qed

text \<open>C40: the loop pattern never aborts: it succeeds exactly when the head of the loop is plain, a pointer is
  carried, no carried pointer is compared, and every one is forwarded or moved by a stride from
  outside; in every other case it is \<open>failure()\<close>, and no operation has been emitted.\<close>

theorem loop_carry_fails_cleanly:
  "case convertWhile W s of
     (Inr vs, s') \<Rightarrow> plainHead W \<and> ptrSlots W \<noteq> [] \<and> \<not> comparesPtr W \<and> (\<forall>i \<in> set (ptrSlots W). rewriteInfo s W i \<noteq> None) \<and>
       length vs = length (wtypes W)
   | (Inl e, s') \<Rightarrow> e = Failure \<and> s' = s \<and>
       \<not> (plainHead W \<and> ptrSlots W \<noteq> [] \<and> \<not> comparesPtr W \<and> (\<forall>i \<in> set (ptrSlots W). rewriteInfo s W i \<noteq> None))"
proof (cases "plainHead W \<and> ptrSlots W \<noteq> [] \<and> \<not> comparesPtr W \<and> (\<forall>i \<in> set (ptrSlots W). rewriteInfo s W i \<noteq> None)")
  case True
  then have "convertWhile W s = (Inr (loopResults W (length s)), s @ loopCode W (\<lambda>i. the (rewriteInfo s W i)) (length s))"
    by (intro convertWhile_code) simp_all
  then show ?thesis using True by (simp add: loopResults_def)
next
  case False
  then show ?thesis by (simp add: convertWhile_fails)
qed

theorem loop_carry_fails_cleanly_witness:
  "case convertWhile (storeLoop\<lparr>before := \<lparr>regionBody = [((WCmpI Ne, PtrTy (IntTy 8)), [BArg 0, Outer 0])], regionReturns = [BRes 0, BArg 0, BArg 1]\<rparr>\<rparr>)
       (loopDemo 32) of
     (Inr vs, s') \<Rightarrow> False
   | (Inl e, s') \<Rightarrow> e = Failure \<and> s' = loopDemo 32"
  (is "case convertWhile ?W ?s of (Inr vs, s') \<Rightarrow> False | (Inl e, s') \<Rightarrow> ?P e s'")
proof -
  have "ptrSlots ?W = [0]" by (simp add: ptrSlots_def storeLoop_parts isScalarPtrType_def)
  then have "comparesPtr ?W" by (simp add: comparesPtr_def)
  then show ?thesis using loop_carry_fails_cleanly [where W = ?W and s = ?s] by (auto split: prod.splits sum.splits)
qed

text \<open>C39: a conditional that merges pointers, with an empty first arm and a second arm of comparisons, selects
  and constants, becomes selects with the same results and the same memory.\<close>

theorem if_select_correct:
  assumes "mergeOk s c th el types"
  shows "\<exists>vs new. convertIf c th el types s = (Inr vs, s @ new) \<and> (\<forall>v \<in> set vs. v < length (s @ new)) \<and>
    (\<forall>E m. rel_option (\<lambda>(vals, _, m) (vals', _, m'). m = m' \<and> take (length s) vals' = take (length s) vals \<and>
        map ((!) vals') vs = drop (length s) vals)
      (execAll (E :: 'm loop_env) (s @ ifEntries c th el types) ([], [], m)) (execAll E (s @ new) ([], [], m)))"
  using wp_convertIf [OF assms, where 'm = 'm] unfolding replacesOp_def .

definition thenArm :: wregion where
  "thenArm = \<lparr>regionBody = [], regionReturns = [Outer 0, Outer 2]\<rparr>"

definition elseArm :: wregion where
  "elseArm = \<lparr>regionBody = [((WCmpI Eq, IntTy 32), [Outer 2, Outer 3]), ((WSelect, PtrTy (IntTy 8)), [BRes 0, Outer 0, Outer 0])],
     regionReturns = [BRes 1, Outer 3]\<rparr>"

theorem if_select_correct_witness:
  "\<exists>vs new. convertIf 4 thenArm elseArm [PtrTy (IntTy 8), IntTy 32] (loopDemo 32) = (Inr vs, loopDemo 32 @ new) \<and>
    (\<forall>v \<in> set vs. v < length (loopDemo 32 @ new)) \<and>
    (\<forall>E m. rel_option (\<lambda>(vals, _, m) (vals', _, m'). m = m' \<and> take (length (loopDemo 32)) vals' = take (length (loopDemo 32)) vals \<and>
        map ((!) vals') vs = drop (length (loopDemo 32)) vals)
      (execAll (E :: (int list) loop_env) (loopDemo 32 @ ifEntries 4 thenArm elseArm [PtrTy (IntTy 8), IntTy 32]) ([], [], m))
      (execAll E (loopDemo 32 @ new) ([], [], m)))"
  by (rule if_select_correct)
    (simp add: mergeOk_def thenArm_def elseArm_def loopDemo_def mergesPointer_def speculatable_def)

section \<open>Limits of the rewriting\<close>

text \<open>
  The offset is added up at the width of the stride.  With a stride of 100 of 8 bits the third store of the
  loop goes to the address 944 instead of 1200.
\<close>

theorem loop_offset_wraps:
  "case convertWhile storeLoop (loopDemo 8) of
     (Inr _, t) \<Rightarrow>
       let E = storeEnv (\<lambda>i. [1000, 100, 4, 1, 0] ! i) in
       map_option (snd \<circ> snd) (execAll E (loopDemo 8 @ whileEntries storeLoop) ([], [], [])) = Some [1000, 1100, 1200] \<and>
       map_option (snd \<circ> snd) (execAll E t ([], [], [])) = Some [1000, 1100, 944]
   | _ \<Rightarrow> False"
  by code_simp

text \<open>
  A condition that is not computed in the head of the loop, such as a carried flag, is replaced by true: a
  loop that is not entered becomes a loop that does not end.
\<close>

definition flagLoop :: while_op where
  "flagLoop = \<lparr>inits = [0, 4], wtypes = [PtrTy (IntTy 8), IntTy 1],
     before = \<lparr>regionBody = [], regionReturns = [BArg 1, BArg 0, BArg 1]\<rparr>,
     after = \<lparr>regionBody = [((WAddPtr, PtrTy (IntTy 8)), [BArg 0, Outer 1])], regionReturns = [BRes 0, BArg 1]\<rparr>\<rparr>"

theorem loop_condition_lost:
  "case convertWhile flagLoop (loopDemo 32) of
     (Inr _, t) \<Rightarrow>
       execAll (storeEnv (\<lambda>_. 0)) (loopDemo 32 @ whileEntries flagLoop) ([], [], []) \<noteq> None \<and>
       execAll (storeEnv (\<lambda>_. 0)) t ([], [], []) = None
   | _ \<Rightarrow> False"
proof -
  let ?E = "storeEnv (\<lambda>_. 0)"
  let ?new = "\<lparr>inits = [5, 4], wtypes = [IntTy 32, IntTy 1], before = newBefore flagLoop,
    after = newAfter flagLoop (\<lambda>_. \<lparr>stride = Some 1, offsetType = IntTy 32\<rparr>)\<rparr>"
  have run: "convertWhile flagLoop (loopDemo 32) = (Inr [8, 7], loopDemo 32 @ [(OCompute (WConst 0) [], IntTy 32),
      (OWhile ?new 0, IntTy 32), (OWhile ?new 1, IntTy 1), (OCompute WAddPtr [0, 6], PtrTy (IntTy 8))])"
    by code_simp
  have "whileStep ?E look ?new st = Inr (wregionSem ?E look (after ?new) (map (wargSem look (fst st) [-1]) [BArg 0, BArg 1], snd st))" for look st
    by (cases st) (simp add: whileStep_def newBefore_def flagLoop_def wregionSem_def wbodySem_def wopSem_def wargSem_def norm_def wrap_def)
  then have "runLoop (whileStep ?E look ?new) st = None" for look st
    by (intro runLoop_forever [where P = "\<lambda>_. True"]) blast+
  then have "execAll ?E (loopDemo 32 @ [(OCompute (WConst 0) [], IntTy 32), (OWhile ?new 0, IntTy 32), (OWhile ?new 1, IntTy 1),
      (OCompute WAddPtr [0, 6], PtrTy (IntTy 8))]) ([], [], []) = None"
    by (simp add: loopDemo_def wopSem_def)
  moreover have "execAll ?E (loopDemo 32 @ whileEntries flagLoop) ([], [], []) \<noteq> None"
    by code_simp
  ultimately show ?thesis unfolding run by simp
qed

end
