(* ===== verification/Spec2Isabelle.thy ===== *)
theory Spec2Isabelle
  imports Claims_OFR Claims_Ptr Claims_Mask Claims_LoadStore Claims_Walk Claims_Use Claims_Unstructured Claims_Memref Claims_Gather
    Claims_Gather_Memref Claims_Scan Claims_Linalg Claims_Loop
begin

text \<open>
  Verification of the pointer lowering of spine-triton.

  The program is a set of MLIR passes that turn Triton kernels, which compute tensors of addresses
  and load and store through them, into code over memrefs.  Its core decides which addresses are
  strided (structured) and which masks are ranges, and replaces the address arithmetic:

    \<^item> \<open>TritonToStructured\<close>: \<open>lib/AnalysisStructured/PtrAnalysis.cpp\<close> follows the address computation
      of a pointer, recovers offset, size and stride of each dimension, and rewrites \<open>tt.addptr\<close>,
      \<open>tt.make_tensor_ptr\<close>, \<open>tt.advance\<close>, \<open>tt.load\<close> and \<open>tt.store\<close> to operations of the \<open>tts\<close>
      dialect; \<open>lib/Analysis/MaskAnalysis.cpp\<close> does the same for the masks, and both compute with
      \<open>OpFoldResult\<close>s (\<open>lib/Analysis/OpFoldResultUtils.cpp\<close>);
    \<^item> \<open>TritonToUnstructured\<close> (\<open>TritonToUnstructuredPass.cpp\<close>) turns every pointer that is left into a base
      and an offset, and its accesses into \<open>tts.gather\<close> and \<open>tts.scatter\<close>;
    \<^item> \<open>StructuredToMemref\<close> (\<open>StructuredToMemref.cpp\<close>) turns the structured pointers into views
      (\<open>memref.reinterpret_cast\<close>) and the accesses into fills, copies and loops, and
      \<open>UnstructuredToMemref\<close> (\<open>UnstructuredToMemrefPass.cpp\<close>) does the same for gathers and scatters;
    \<^item> \<open>TritonArithToLinalg\<close> (\<open>ConversionPatterns.hpp\<close>) turns the operations on tensors into operations of
      the linalg and tensor dialects, one pattern for each;
    \<^item> \<open>ConvertScanOpPass.cpp\<close> replaces \<open>tt.scan\<close> by vector code;
    \<^item> \<open>LoopPtrCarryToOffsetPass.cpp\<close> makes loops that carry pointers carry offsets, and turns conditionals
      that merge pointers into selects;
    \<^item> \<open>lib/Analysis/UseAnalysis.cpp\<close> decides which values are only used to compute addresses.

  \<^bold>\<open>The intermediate representation (\<open>Prelude\<close>, \<open>MLIR\<close>).\<close>  A program is a table of operations with
  their result types (record \<open>ir\<close>): a \<open>Value\<close> is the position of its operation, and \<open>defOp\<close> and
  \<open>tyOf\<close> are \<open>getDefiningOp\<close> and \<open>getType\<close>.  \<open>create\<close> is the builder: it appends.  The functions of the
  program are state-passing functions (\<open>irm\<close>) that return \<open>Inr\<close> a result, or \<open>Inl Failure\<close> for
  \<open>failure()\<close>, or \<open>Inl Abort\<close> for an \<open>assert\<close>, a failed \<open>cast\<close> or an \<open>llvm_unreachable\<close>; what was built
  before a failure stays.  \<open>eval E s v idx\<close> is the value of the element \<open>idx\<close> of \<open>v\<close> for the kernel
  arguments \<open>E\<close>, computed at the width of its type with wrap-around; addresses are 64-bit, index values
  are 64-bit integers.  \<open>wf_ir\<close> is what the MLIR verifier promises.  \<open>wp\<close> is a weakest precondition of
  a run that must not fail; its equations are \<open>wp_simps\<close>, its rules are named \<open>wp_\<close> and the function.
  \<open>grows\<close> states that a run only appended and kept the table well-formed, so that old values keep
  their meaning.

  \<^bold>\<open>Theories.\<close>
    \<^item> \<open>OFR\<close>, \<open>OFR_Sound\<close>: \<open>OpFoldResultUtils.cpp\<close>.  The locale \<open>ofr_binop\<close> is the contract of a binary
      operation on fold results and is interpreted for \<open>addOFRs\<close>, \<open>subOFRs\<close>, \<open>mulOFRs\<close>, \<open>minOFRs\<close> and
      \<open>maxOFRs\<close>.
    \<^item> \<open>Ptr_State\<close> (\<open>PtrState\<close>), \<open>Ptr_Visit\<close> (\<open>visitOperand\<close> and its handlers), \<open>Rewrite\<close> and
      \<open>Rewrite_Walk\<close> (the rewriting functions and the walk \<open>rewriteOp\<close>, with the loop arguments of
      \<open>tts.get_structured_state\<close>), \<open>Structured_Ops\<close> (\<open>TritonStructuredOps.cpp\<close>), \<open>LoadStore\<close>
      (\<open>rewriteLoadOp\<close>, \<open>rewriteStoreOp\<close>): \<open>AnalysisStructured/PtrAnalysis.cpp\<close>.  \<open>Ptr_Lin\<close>, \<open>Ptr_Sound\<close> and
      \<open>Ptr_Main\<close> show that the state of an affine term denotes the term; \<open>Rewrite_Sound\<close>,
      \<open>LoadStore_Sound\<close>, \<open>Walk_Sound\<close> and \<open>Walk_Main\<close> carry this to the rewritten operations and the
      walk; \<open>Extends\<close> shows that every function only appends, whatever it returns.
    \<^item> \<open>Mask\<close>: \<open>MaskAnalysis.cpp\<close>; \<open>Mask_Sound\<close>, \<open>Mask_Ops\<close>, \<open>Mask_Cmp\<close> and \<open>Mask_Main\<close> show that the sizes of a
      mask select its true elements, and that the two blocks of a wrapping pointer share a mask.
    \<^item> \<open>UseAnalysis\<close>, \<open>UseAnalysis_Sound\<close>: the data-flow analysis as steps on an assignment of use types
      (an instance of a bounded semilattice) and the copying of operations of mixed use.  MLIR's solver is
      a parameter of the pass, of which it is assumed that it returns a state that visits reach and no
      visit changes (\<open>solved\<close>).
    \<^item> \<open>Unstructured\<close>: \<open>TritonToUnstructuredPass.cpp\<close>; \<open>Unstructured_Work\<close> is its work list,
      \<open>Unstructured_Sound\<close> and \<open>Unstructured_Main\<close> the meaning of the offsets and of the accesses.
    \<^item> \<open>Memref\<close>, \<open>Memref_Access\<close>: \<open>StructuredToMemref.cpp\<close>.  \<open>Memref_Sem\<close> gives views, memories and
      statements a meaning, \<open>Memref_Sound\<close>, \<open>Memref_Main\<close> and \<open>Memref_Ptr\<close> treat structured and block
      pointers, \<open>Memref_Gather\<close> and \<open>Memref_Scatter\<close> the loops over gathered offsets.
    \<^item> \<open>Gather_Memref\<close>: \<open>UnstructuredToMemrefPass.cpp\<close>; the region of a \<open>linalg.generic\<close> is a list of
      operations (\<open>rop\<close>) that \<open>runOps\<close> runs, and its iterations run in any order.
    \<^item> \<open>Scan\<close>: \<open>ConvertScanOpPass.cpp\<close>, on a table of vector operations of its own (\<open>vec_state\<close>).  The body of
      the scan is any list of pure operations, which must be associative for a scan along the last
      dimension; an operation on vectors of different shapes has arbitrary elements.  \<open>Scan_Sound\<close> gives the
      scan in \<open>log\<close> steps its invariant, \<open>Scan_Main\<close> the scans along the other dimensions.
    \<^item> \<open>Linalg\<close> is the language that \<open>TritonArithToLinalg\<close> emits, with its meaning: a table of tensor
      operations (\<open>ltable\<close>), where \<open>lval E s v idx\<close> is the element \<open>idx\<close> of the value \<open>v\<close>.
      \<open>Linalg_Convert\<close> has the patterns for shapes, ranges and constants with the utilities they share,
      \<open>Linalg_Reduce\<close> those for products, reductions, argmin, argmax, minimum and maximum.  \<open>Linalg_Sound\<close>,
      \<open>Linalg_Main\<close> and \<open>Linalg_Split\<close> show what the former compute, \<open>Linalg_Groups\<close> that the groups found
      for a dropped dimension are valid, and \<open>Reduce_Sound\<close>, \<open>Reduce_Main\<close>, \<open>Normal_Main\<close>, \<open>Arg_Main\<close> and
      \<open>Dot_Main\<close> what the latter compute.  The arithmetic on floating-point numbers is a parameter
      (\<open>float_ops\<close>), of which the reductions need that it is commutative with a neutral element.
    \<^item> \<open>Loop_Carry\<close>: \<open>LoopPtrCarryToOffsetPass.cpp\<close>, on a table of scalar operations (\<open>otable\<close>) with
      \<open>scf.while\<close> and \<open>scf.if\<close>, whose runs (\<open>execAll\<close>) may not return and may change a memory.
      \<open>Loop_Sound\<close> has a simulation of loops that also says when they return (\<open>runLoop_simulation\<close>);
      \<open>Loop_Main\<close> relates one round of the old and the new loop, \<open>Loop_Code\<close> all rounds and the code
      around the loop, and \<open>If_Main\<close> treats the conditional.
    \<^item> \<open>Claims_*\<close>: the properties, numbered C1 onwards, each with an instance on a concrete program of
      \<open>Demo\<close> or of its own, evaluated in the logic.

  \<^bold>\<open>Meaning of memory.\<close>  A memory maps locations to elements; a location is a byte address (\<open>Addr\<close>) or
  a place of an allocated buffer (\<open>Slot\<close>).  A memref denotes a \<open>view\<close> (offset, sizes, strides, and where
  a linear index lies), and the statements that a conversion emits (\<open>stmt\<close>: fills, copies, loops,
  guarded statements) are run by \<open>exec\<close>.  \<open>loadSem\<close> and \<open>storeSem\<close> say what a load or store means.

  \<^bold>\<open>Loops and fuel.\<close>  Recursion along operands is on the position of the value, which decreases, so that
  the value itself is enough fuel.  The work list of the unstructured pass takes each value once; fuel
  as large as the table is proved to be enough (\<open>processUnstructuredPtrs_total\<close>).  Of the
  visits of the use analysis at most two for each value change anything, in whatever order they come.
  Loops of the program that may not end (\<open>runLoop\<close>) are partial functions, and the rewritten ones are
  proved to return exactly when the source does.

  \<^bold>\<open>What is not modelled.\<close>  Insertion points: operations are appended, and what the source replaces is
  reported with its replacement.  The uses of a value are read at the start of a pass.  Region control
  flow in the use analysis is a parameter.  Memref layouts are an offset and strides; unranked memrefs
  and memory spaces are left out; a \<open>linalg.generic\<close> that converts elements is a cast.  Floating-point
  values are uninterpreted integers that no arithmetic touches.  Numbers of enumerations declared in
  Triton itself (padding options) are parameters of the record \<open>conversion\<close>.  Debug output and remarks
  are left out.  Of \<open>TritonArithToLinalg\<close> the elementwise and external functions, assertions, printing,
  program ids and the older patterns for pointers are not modelled, nor the attributes that
  \<open>xsmt.annotation\<close> passes on.  Passes that only emit operations of other dialects one for one
  (\<open>XSMTToLinalg\<close>, \<open>TLEToLinalg\<close>), the pass pipelines, the dialect declarations and the Python bindings
  are not modelled; the manifest lists each with its reason.
\<close>

end
